(* ===== verification/Prelude.thy ===== *)
theory Prelude
  imports Main "HOL-Library.Word" "HOL-Library.Multiset" "HOL-Library.Char_ord"
begin

text \<open>
  Shared vocabulary of the Skan development: machine-integer and byte-string types, the
  bounds-checked read and the in-place write of C++ spans, \<open>std::lexicographical_compare\<close>,
  \<open>std::from_chars\<close>, the association lists that stand for \<open>std::unordered_map\<close>, and the
  generic lemmas the components use about them. Size counters (\<open>std::size_t\<close>) are natural
  numbers below \<open>2 ^ 64\<close> whose increments write the wrap-around or the saturation out.
  Allocation failure (\<open>std::bad_alloc\<close>) is not modelled anywhere in the development.
\<close>

unbundle bit_operations_syntax

named_theorems wire_simps \<open>reading back what was written to a span\<close>
named_theorems alist_simps \<open>lookups and multisets of association lists\<close>

section \<open>Machine integers and bytes\<close>

type_synonym u8 = "8 word"
type_synonym u16 = "16 word"
type_synonym u32 = "32 word"
type_synonym u64 = "64 word"
type_synonym bytes = "u8 list"

definition size_max :: nat where
  "size_max = 2 ^ 64 - 1"

definition incr_size :: "nat \<Rightarrow> nat" where
  "incr_size n = (n + 1) mod 2 ^ 64"

lemma incr_size_small [simp]: "n < size_max \<Longrightarrow> incr_size n = Suc n"
  by (simp add: incr_size_def size_max_def)

lemma and_0xFF: "(v :: 'a::len word) AND 0xFF = take_bit 8 v"
  by (simp add: take_bit_eq_mask mask_eq_exp_minus_1)

lemma ucast_and_0xFF [simp]: "(ucast ((v :: 'a::len word) AND 0xFF) :: u8) = ucast v"
  by (rule bit_word_eqI) (auto simp: and_0xFF bit_simps)

lemma u32_of_octets [wire_simps]:
  "push_bit 24 (ucast (ucast (drop_bit 24 v) :: u8)) OR
   (push_bit 16 (ucast (ucast (drop_bit 16 v) :: u8)) OR
   (push_bit 8 (ucast (ucast (drop_bit 8 v) :: u8)) OR
   ucast (ucast v :: u8))) = (v :: u32)"
proof (rule bit_word_eqI)
  fix n assume "n < LENGTH(32)"
  then consider "n < 8" | "8 \<le> n \<and> n < 16" | "16 \<le> n \<and> n < 24" | "24 \<le> n \<and> n < 32" by fastforce
  then show "bit (push_bit 24 (ucast (ucast (drop_bit 24 v) :: u8)) OR
   (push_bit 16 (ucast (ucast (drop_bit 16 v) :: u8)) OR
   (push_bit 8 (ucast (ucast (drop_bit 8 v) :: u8)) OR
   ucast (ucast v :: u8))) :: u32) n = bit v n"
    by cases (auto simp: bit_simps)
qed

lemma u16_of_octets [wire_simps]:
  "push_bit 8 (ucast (ucast (drop_bit 8 v) :: u8)) OR ucast (ucast v :: u8) = (v :: u16)"
proof (rule bit_word_eqI)
  fix n assume "n < LENGTH(16)"
  then consider "n < 8" | "8 \<le> n \<and> n < 16" by fastforce
  then show "bit (push_bit 8 (ucast (ucast (drop_bit 8 v) :: u8)) OR ucast (ucast v :: u8) :: u16) n = bit v n"
    by cases (auto simp: bit_simps)
qed

lemma unat_u8_less: "unat (b :: u8) < 256"
  using unsigned_less [of b, where ?'a = nat] by simp

lemma unat_u16_less: "unat (w :: u16) < 65536"
  using unsigned_less [of w, where ?'a = nat] by simp

lemma unat_u32_less: "unat (s :: u32) < 4294967296"
  using unsigned_less [of s, where ?'a = nat] by simp

lemma unat_u16_of_u8 [simp]: "unat (ucast (b :: u8) :: u16) = unat b"
  using unat_u8_less [of b] by (simp add: unsigned_ucast_eq take_bit_nat_def)

lemma unat_u32_of_u8 [simp]: "unat (ucast (b :: u8) :: u32) = unat b"
  using unat_u8_less [of b] by (simp add: unsigned_ucast_eq take_bit_nat_def)

lemma unat_u32_of_u16 [simp]: "unat (ucast (w :: u16) :: u32) = unat w"
  using unat_u16_less [of w] by (simp add: unsigned_ucast_eq take_bit_nat_def)

lemma word_less_succ:
  fixes b :: "'a::len word"
  assumes "b + 1 \<noteq> 0"
  shows "b < b + 1"
proof -
  have "unat b + 1 \<noteq> 2 ^ LENGTH('a)"
  proof
    assume "unat b + 1 = 2 ^ LENGTH('a)"
    then have "unat (b + 1) = 0" by (simp add: unat_word_ariths)
    then show False using assms by (simp add: unat_eq_zero)
  qed
  then have "unat b + 1 < 2 ^ LENGTH('a)"
    using unsigned_less [of b, where ?'a = nat] by linarith
  then have "unat (b + 1) = unat b + 1" by (simp add: unat_word_ariths)
  then show ?thesis by (simp add: word_less_nat_alt)
qed

section \<open>Parsers over spans\<close>

text \<open>
  A C++ parser either returns a value, returns \<open>std::nullopt\<close>, or (a defect) reads beyond
  its span, which is undefined behaviour. The third outcome is kept as a value of its own,
  so that "never reads beyond the input" is a theorem about the parser.
\<close>

datatype 'a parsed = Parsed 'a | Rejected | OutOfBounds

definition rd8 :: "bytes \<Rightarrow> nat \<Rightarrow> (u8 \<Rightarrow> 'a parsed) \<Rightarrow> 'a parsed" where
  "rd8 xs i k = (if i < length xs then k (xs ! i) else OutOfBounds)"

lemma rd8_cong [fundef_cong]:
  "xs = xs' \<Longrightarrow> i = i' \<Longrightarrow> (i' < length xs' \<Longrightarrow> k (xs' ! i') = k' (xs' ! i')) \<Longrightarrow>
     rd8 xs i k = rd8 xs' i' k'"
  by (simp add: rd8_def)

lemma rd8_in [simp]: "i < length xs \<Longrightarrow> rd8 xs i k = k (xs ! i)"
  by (simp add: rd8_def)

section \<open>Lists\<close>

lemma drop_numeral_add: "drop (numeral k + n) xs = drop n (drop (numeral k) xs)"
  by (simp add: add.commute)

lemma two_bytes:
  assumes "2 \<le> length xs"
  obtains a b ys where "xs = a # b # ys"
  using assms that by (auto simp: eval_nat_numeral Suc_le_length_iff)

lemma eight_bytes:
  assumes "8 \<le> length xs"
  obtains a b c d e f g h ys where "xs = [a, b, c, d, e, f, g, h] @ ys"
  using assms that by (auto simp: eval_nat_numeral Suc_le_length_iff)

fun lex_less :: "'a::linorder list \<Rightarrow> 'a list \<Rightarrow> bool" where
  "lex_less [] [] = False"
| "lex_less [] (y # ys) = True"
| "lex_less (x # xs) [] = False"
| "lex_less (x # xs) (y # ys) = (if x < y then True else if y < x then False else lex_less xs ys)"

lemma lex_less_irrefl [simp]: "\<not> lex_less xs xs"
  by (induction xs) auto

lemma lex_less_trans: "lex_less xs ys \<Longrightarrow> lex_less ys zs \<Longrightarrow> lex_less xs zs"
proof (induction xs ys arbitrary: zs rule: lex_less.induct)
  case (2 y ys)
  then show ?case by (cases zs) auto
next
  case (4 x xs y ys)
  then show ?case by (cases zs) (auto split: if_splits)
qed auto

lemma lex_less_total: "xs \<noteq> ys \<Longrightarrow> lex_less xs ys \<or> lex_less ys xs"
  by (induction xs ys rule: lex_less.induct) auto

lemma lex_less_asym: "lex_less xs ys \<Longrightarrow> \<not> lex_less ys xs"
  using lex_less_trans lex_less_irrefl by blast

section \<open>Decimal text\<close>

definition is_digit :: "char \<Rightarrow> bool" where
  "is_digit c \<longleftrightarrow> CHR ''0'' \<le> c \<and> c \<le> CHR ''9''"

definition digit_value :: "char \<Rightarrow> nat" where
  "digit_value c = of_char c - 48"

definition decimal_value :: "string \<Rightarrow> nat" where
  "decimal_value ds = foldl (\<lambda>acc c. 10 * acc + digit_value c) 0 ds"

text \<open>
  \<open>std::from_chars(first, last, value, 10)\<close> on an unsigned type with maximum \<open>limit\<close>: the
  longest prefix of digits is consumed; no digit, or a value above the maximum, is an error.
  The result holds the value and the text from \<open>ptr\<close> on.
\<close>

definition from_chars :: "nat \<Rightarrow> string \<Rightarrow> (nat \<times> string) option" where
  "from_chars limit s =
     (let ds = takeWhile is_digit s; v = decimal_value ds
      in if ds = [] \<or> limit < v then None else Some (v, dropWhile is_digit s))"

lemma from_chars_all:
  "from_chars limit s = Some (v, []) \<longleftrightarrow>
     s \<noteq> [] \<and> list_all is_digit s \<and> v = decimal_value s \<and> v \<le> limit"
proof -
  have 1: "dropWhile is_digit s = [] \<longleftrightarrow> list_all is_digit s"
    by (simp add: list_all_iff)
  have 2: "takeWhile is_digit s = s" if "list_all is_digit s"
    using that by (simp add: list_all_iff)
  show ?thesis
  proof (cases "list_all is_digit s")
    case True
    then show ?thesis using 1 by (auto simp: from_chars_def Let_def 2)
  next
    case False
    then show ?thesis using 1 by (auto simp: from_chars_def Let_def)
  qed
qed

section \<open>Association lists for unordered maps\<close>

text \<open>
  An unordered map is an association list with distinct keys: \<open>find\<close> is \<open>map_of\<close>,
  \<open>emplace\<close> refuses a key that is present, \<open>erase\<close> deletes the key.
\<close>

definition map_has :: "('k \<times> 'v) list \<Rightarrow> 'k \<Rightarrow> bool" where
  "map_has m k \<longleftrightarrow> map_of m k \<noteq> None"

definition map_emplace :: "'k \<Rightarrow> 'v \<Rightarrow> ('k \<times> 'v) list \<Rightarrow> (('k \<times> 'v) list \<times> bool)" where
  "map_emplace k v m = (if map_has m k then (m, False) else ((k, v) # m, True))"

definition map_erase :: "'k \<Rightarrow> ('k \<times> 'v) list \<Rightarrow> ('k \<times> 'v) list" where
  "map_erase k m = filter (\<lambda>e. fst e \<noteq> k) m"

fun map_put :: "'k \<Rightarrow> 'v \<Rightarrow> ('k \<times> 'v) list \<Rightarrow> ('k \<times> 'v) list" where
  "map_put k v [] = [(k, v)]"
| "map_put k v ((k', v') # m) = (if k' = k then (k, v) # m else (k', v') # map_put k v m)"

definition map_ok :: "('k \<times> 'v) list \<Rightarrow> bool" where
  "map_ok m \<longleftrightarrow> distinct (map fst m)"

lemma map_ok_Nil [simp]: "map_ok []"
  by (simp add: map_ok_def)

lemma map_has_Nil [simp]: "\<not> map_has [] k"
  by (simp add: map_has_def)

lemma map_has_iff: "map_has m k \<longleftrightarrow> k \<in> fst ` set m"
  by (simp add: map_has_def map_of_eq_None_iff)

lemma map_ok_emplace [alist_simps]: "map_ok m \<Longrightarrow> map_ok (fst (map_emplace k v m))"
  by (auto simp: map_emplace_def map_ok_def map_has_iff)

lemma map_ok_erase [alist_simps]: "map_ok m \<Longrightarrow> map_ok (map_erase k m)"
  by (auto simp: map_ok_def map_erase_def distinct_map inj_on_def)

lemma map_of_erase [alist_simps]: "map_of (map_erase k m) = (map_of m)(k := None)"
  by (induction m) (auto simp: map_erase_def fun_eq_iff)

lemma map_of_put [alist_simps]: "map_of (map_put k v m) = (map_of m)(k \<mapsto> v)"
  by (induction m) auto

lemma keys_put: "fst ` set (map_put k v m) = insert k (fst ` set m)"
  by (induction k v m rule: map_put.induct) (simp_all add: insert_commute)

lemma map_ok_Cons [simp]: "map_ok ((k, v) # m) \<longleftrightarrow> k \<notin> fst ` set m \<and> map_ok m"
  by (simp add: map_ok_def)

lemma map_ok_put [alist_simps]: "map_ok m \<Longrightarrow> map_ok (map_put k v m)"
  by (induction k v m rule: map_put.induct) (auto simp: keys_put simp del: set_map)

lemma map_erase_absent: "map_of m k = None \<Longrightarrow> map_erase k m = m"
  by (auto simp: map_erase_def map_of_eq_None_iff filter_id_conv)

lemma mset_map_erase:
  assumes "map_ok m" and "map_of m k = Some v"
  shows "mset m = add_mset (k, v) (mset (map_erase k m))"
  using assms
proof (induction m)
  case (Cons e m)
  show ?case
  proof (cases "fst e = k")
    case True
    with Cons.prems have "map_of m k = None"
      by (auto simp: map_ok_def map_of_eq_None_iff)
    then have "map_erase k m = m" by (rule map_erase_absent)
    with True Cons.prems show ?thesis
      by (cases e) (auto simp: map_erase_def)
  next
    case False
    with Cons show ?thesis
      by (cases e) (auto simp: map_ok_def map_erase_def)
  qed
qed simp

lemma length_map_erase:
  "map_ok m \<Longrightarrow> map_of m k = Some v \<Longrightarrow> length m = Suc (length (map_erase k m))"
  using arg_cong [OF mset_map_erase, of m k v size] by simp

lemma mset_map_put:
  assumes "map_ok m" and "map_of m k = Some v"
  shows "mset (map_put k v' m) = add_mset (k, v') (mset (map_erase k m))"
  using assms
proof (induction m)
  case (Cons e m)
  show ?case
  proof (cases "fst e = k")
    case True
    with Cons.prems have "map_of m k = None"
      by (auto simp: map_ok_def map_of_eq_None_iff)
    then have "map_erase k m = m" by (rule map_erase_absent)
    with True show ?thesis
      by (cases e) (auto simp: map_erase_def)
  next
    case False
    with Cons show ?thesis
      by (cases e) (auto simp: map_ok_def map_erase_def)
  qed
qed simp

lemma length_map_put: "map_of m k = Some v \<Longrightarrow> length (map_put k v' m) = length m"
  by (induction m) auto

lemma set_map_erase: "set (map_erase k m) = {e \<in> set m. fst e \<noteq> k}"
  by (simp add: map_erase_def)

lemma set_map_put_subset: "set (map_put k v m) \<subseteq> insert (k, v) (set m)"
  by (induction k v m rule: map_put.induct) (auto split: if_splits)

end
