(* ===== verification/Status.thy ===== *)
theory Status
  imports Prelude
begin

text \<open>
  Status and exit codes (\<open>include/core/status.hpp\<close>, \<open>src/core/status.cpp\<close>,
  \<open>src/c_api/status.c\<close> mirrors them).
\<close>

datatype status_code =
    Ok
  | InvalidArgument
  | MemoryError
  | IoError
  | PermissionDenied
  | ParseError
  | NotFound
  | InternalError
  | ResourceExhausted

datatype exit_code = ExitSuccess | ExitUsage | ExitPermission | ExitRuntime | ExitPartial

fun status_to_string :: "status_code \<Rightarrow> string" where
  "status_to_string Ok = ''ok''"
| "status_to_string InvalidArgument = ''invalid argument''"
| "status_to_string MemoryError = ''memory error''"
| "status_to_string IoError = ''I/O error''"
| "status_to_string PermissionDenied = ''permission denied''"
| "status_to_string ParseError = ''parse error''"
| "status_to_string NotFound = ''not found''"
| "status_to_string InternalError = ''internal error''"
| "status_to_string ResourceExhausted = ''resource exhausted''"

fun status_to_exit_code :: "status_code \<Rightarrow> exit_code" where
  "status_to_exit_code Ok = ExitSuccess"
| "status_to_exit_code InvalidArgument = ExitUsage"
| "status_to_exit_code PermissionDenied = ExitPermission"
| "status_to_exit_code MemoryError = ExitRuntime"
| "status_to_exit_code IoError = ExitRuntime"
| "status_to_exit_code ParseError = ExitRuntime"
| "status_to_exit_code NotFound = ExitRuntime"
| "status_to_exit_code InternalError = ExitRuntime"
| "status_to_exit_code ResourceExhausted = ExitRuntime"

fun exit_code_value :: "exit_code \<Rightarrow> int" where
  "exit_code_value ExitSuccess = 0"
| "exit_code_value ExitUsage = 1"
| "exit_code_value ExitPermission = 2"
| "exit_code_value ExitRuntime = 3"
| "exit_code_value ExitPartial = 4"

lemma status_to_string_inj: "inj status_to_string"
proof (rule injI)
  fix a b assume "status_to_string a = status_to_string b"
  then show "a = b" by (cases a; cases b) simp_all
qed

lemma exit_zero_iff_ok: "exit_code_value (status_to_exit_code s) = 0 \<longleftrightarrow> s = Ok"
  by (cases s) simp_all

lemma exit_code_value_inj: "inj exit_code_value"
proof (rule injI)
  fix a b assume "exit_code_value a = exit_code_value b"
  then show "a = b" by (cases a; cases b) simp_all
qed

end
