(* ===== verification/Wire.thy ===== *)
theory Wire
  imports Status
begin

text \<open>
  Big-endian access to spans (\<open>wire\<close> of \<open>include/packet/packet_element.hpp\<close>) and the
  Internet checksum (\<open>src/packet/checksum.cpp\<close>). A span that is written is a byte list;
  writing replaces bytes in place.
\<close>

section \<open>Reading and writing\<close>

definition u16_of :: "u8 \<Rightarrow> u8 \<Rightarrow> u16" where
  "u16_of hi lo = push_bit 8 (ucast hi) OR ucast lo"

definition u32_of :: "u8 \<Rightarrow> u8 \<Rightarrow> u8 \<Rightarrow> u8 \<Rightarrow> u32" where
  "u32_of a b c d =
     push_bit 24 (ucast a) OR (push_bit 16 (ucast b) OR (push_bit 8 (ucast c) OR ucast d))"

definition write_u16 :: "bytes \<Rightarrow> nat \<Rightarrow> u16 \<Rightarrow> bytes" where
  "write_u16 out off v = out[off := ucast (drop_bit 8 v), off + 1 := ucast (v AND 0xFF)]"

definition write_u32 :: "bytes \<Rightarrow> nat \<Rightarrow> u32 \<Rightarrow> bytes" where
  "write_u32 out off v =
     out[off := ucast (drop_bit 24 v), off + 1 := ucast (drop_bit 16 v AND 0xFF),
         off + 2 := ucast (drop_bit 8 v AND 0xFF), off + 3 := ucast (v AND 0xFF)]"

definition read_u16 :: "bytes \<Rightarrow> nat \<Rightarrow> (u16 \<Rightarrow> 'a parsed) \<Rightarrow> 'a parsed" where
  "read_u16 xs i k = rd8 xs i (\<lambda>a. rd8 xs (i + 1) (\<lambda>b. k (u16_of a b)))"

definition read_u32 :: "bytes \<Rightarrow> nat \<Rightarrow> (u32 \<Rightarrow> 'a parsed) \<Rightarrow> 'a parsed" where
  "read_u32 xs i k =
     rd8 xs i (\<lambda>a. rd8 xs (i + 1) (\<lambda>b. rd8 xs (i + 2) (\<lambda>c. rd8 xs (i + 3) (\<lambda>d. k (u32_of a b c d)))))"

abbreviation u16_bytes :: "u16 \<Rightarrow> bytes" where
  "u16_bytes v \<equiv> [ucast (drop_bit 8 v), ucast v]"

abbreviation u32_bytes :: "u32 \<Rightarrow> bytes" where
  "u32_bytes v \<equiv> [ucast (drop_bit 24 v), ucast (drop_bit 16 v), ucast (drop_bit 8 v), ucast v]"

text \<open>
  \<open>std::copy\<close> of a whole array into a span at an offset, and the loops that copy fixed-size
  arrays out of a span.
\<close>

definition copy_into :: "bytes \<Rightarrow> nat \<Rightarrow> bytes \<Rightarrow> bytes" where
  "copy_into out off xs = take off out @ xs @ drop (off + length xs) out"

definition read_array :: "nat \<Rightarrow> bytes \<Rightarrow> nat \<Rightarrow> (bytes \<Rightarrow> 'a parsed) \<Rightarrow> 'a parsed" where
  "read_array n xs i k = (if i + n \<le> length xs then k (take n (drop i xs)) else OutOfBounds)"

lemma read_array_in: "i + n \<le> length xs \<Longrightarrow> read_array n xs i k = k (take n (drop i xs))"
  by (simp add: read_array_def)

lemma length_copy_into [simp]: "off + length xs \<le> length out \<Longrightarrow> length (copy_into out off xs) = length out"
  by (simp add: copy_into_def)

lemma u16_of_written [wire_simps, simp]: "u16_of (ucast (drop_bit 8 v)) (ucast v) = v"
  by (simp add: u16_of_def u16_of_octets)

lemma u32_of_written [wire_simps, simp]:
  "u32_of (ucast (drop_bit 24 v)) (ucast (drop_bit 16 v)) (ucast (drop_bit 8 v)) (ucast v) = v"
  by (simp add: u32_of_def u32_of_octets)

lemma u16_bytes_of: "u16_bytes (u16_of a b) = [a, b]"
proof -
  have "ucast (drop_bit 8 (u16_of a b)) = a"
    by (rule bit_word_eqI) (auto simp: u16_of_def bit_simps dest: bit_imp_le_length)
  moreover have "ucast (u16_of a b) = b"
    by (rule bit_word_eqI) (auto simp: u16_of_def bit_simps dest: bit_imp_le_length)
  ultimately show ?thesis by simp
qed

lemma u32_bytes_of: "u32_bytes (u32_of a b c d) = [a, b, c, d]"
proof -
  have "ucast (drop_bit 24 (u32_of a b c d)) = a" "ucast (drop_bit 16 (u32_of a b c d)) = b"
    "ucast (drop_bit 8 (u32_of a b c d)) = c" "ucast (u32_of a b c d) = d"
    by (rule bit_word_eqI; auto simp: u32_of_def bit_simps dest: bit_imp_le_length)+
  then show ?thesis by simp
qed

lemma length_write_u16 [simp]: "length (write_u16 out off v) = length out"
  by (simp add: write_u16_def)

lemma length_write_u32 [simp]: "length (write_u32 out off v) = length out"
  by (simp add: write_u32_def)

lemma read_u16_in:
  "i + 1 < length xs \<Longrightarrow> read_u16 xs i k = k (u16_of (xs ! i) (xs ! (i + 1)))"
  by (simp add: read_u16_def)

lemma read_u32_in:
  "i + 3 < length xs \<Longrightarrow>
     read_u32 xs i k = k (u32_of (xs ! i) (xs ! (i + 1)) (xs ! (i + 2)) (xs ! (i + 3)))"
  by (simp add: read_u32_def)

section \<open>The Internet checksum\<close>

text \<open>
  \<open>sum\<close> is a 32-bit word; \<open>add_word\<close> adds a 16-bit word and folds the carry once. The final
  loop folds until no carry is left; two turns are enough from any 32-bit value, and the
  recursion below is the loop itself.
\<close>

definition add_word :: "u32 \<Rightarrow> u16 \<Rightarrow> u32" where
  "add_word s w = (let t = s + ucast w in (t AND 0xFFFF) + drop_bit 16 t)"

function fold_carry :: "u32 \<Rightarrow> u32" where
  "fold_carry s = (if drop_bit 16 s \<noteq> 0 then fold_carry ((s AND 0xFFFF) + drop_bit 16 s) else s)"
  by pat_completeness auto

fun sum_words :: "u32 \<Rightarrow> bytes \<Rightarrow> u32" where
  "sum_words s [] = s"
| "sum_words s [b] = add_word s (push_bit 8 (ucast b))"
| "sum_words s (a # b # bs) = sum_words (add_word s (u16_of a b)) bs"

lemma and_0xFFFF: "(v :: u32) AND 0xFFFF = take_bit 16 v"
  by (simp add: take_bit_eq_mask mask_eq_exp_minus_1)

lemma unat_low_half: "unat ((s :: u32) AND 0xFFFF) = unat s mod 65536"
  by (simp add: and_0xFFFF unsigned_take_bit_eq take_bit_nat_def)

lemma unat_high_half: "unat (drop_bit 16 (s :: u32)) = unat s div 65536"
  using unat_u32_less [of s] by (simp add: unsigned_drop_bit_eq drop_bit_nat_def take_bit_nat_def)

lemma unat_fold_once:
  "unat (((s :: u32) AND 0xFFFF) + drop_bit 16 s) = unat s mod 65536 + unat s div 65536"
proof -
  have "unat s div 65536 < 65536"
    using unat_u32_less [of s] by (simp add: less_mult_imp_div_less)
  then show ?thesis
    by (simp add: unat_word_ariths unat_low_half unat_high_half)
qed

lemma high_half_zero: "drop_bit 16 (s :: u32) = 0 \<longleftrightarrow> unat s < 65536"
  by (metis div_eq_0_iff unat_eq_zero unat_high_half zero_neq_numeral)

termination fold_carry
proof (relation "measure unat")
  fix s :: u32
  assume "drop_bit 16 s \<noteq> 0"
  then have "65536 \<le> unat s" by (simp add: high_half_zero)
  then have "0 < unat s div 65536" by (simp add: div_greater_zero_iff)
  then show "((s AND 0xFFFF) + drop_bit 16 s, s) \<in> measure unat"
    using div_mult_mod_eq [of "unat s" 65536] unfolding in_measure unat_fold_once by linarith
qed simp

declare fold_carry.simps [simp del]

definition checksum_finish :: "u32 \<Rightarrow> u16" where
  "checksum_finish s = ucast (NOT (fold_carry s) AND 0xFFFF)"

definition checksum_internet :: "bytes \<Rightarrow> u16" where
  "checksum_internet bs = checksum_finish (sum_words 0 bs)"

definition add_words :: "u32 \<Rightarrow> u16 list \<Rightarrow> u32" where
  "add_words = foldl add_word"

definition ipv4_pseudo_header :: "u32 \<Rightarrow> u32 \<Rightarrow> u8 \<Rightarrow> bytes \<Rightarrow> u16" where
  "ipv4_pseudo_header src dst protocol transport =
     (if length transport > 65535 then 0
      else checksum_finish
        (sum_words
          (add_words 0
            [ucast (drop_bit 16 src), ucast (src AND 0xFFFF),
             ucast (drop_bit 16 dst), ucast (dst AND 0xFFFF),
             ucast protocol, of_nat (length transport)])
          transport))"

fun address_words :: "bytes \<Rightarrow> bytes \<Rightarrow> u16 list" where
  "address_words (a # b # as) (c # d # cs) = u16_of a b # u16_of c d # address_words as cs"
| "address_words _ _ = []"

definition ipv6_pseudo_header :: "bytes \<Rightarrow> bytes \<Rightarrow> u8 \<Rightarrow> bytes \<Rightarrow> u16" where
  "ipv6_pseudo_header src dst next_header transport =
     (if length transport > 0xFFFFFFFF then 0
      else checksum_finish
        (sum_words
          (add_words 0
            (address_words src dst @
             [of_nat (length transport div 65536), of_nat (length transport mod 65536),
              ucast next_header]))
          transport))"

text \<open>A transport checksum that comes out as zero is sent as \<open>0xFFFF\<close>.\<close>

definition never_zero :: "u16 \<Rightarrow> u16" where
  "never_zero c = (if c = 0 then 0xFFFF else c)"

section \<open>Packet elements\<close>

text \<open>
  \<open>PacketElement::serialize() const\<close>: serialize into a zeroed vector of the element's own
  size, and return the empty vector when that fails.
\<close>

definition element_bytes ::
  "('a \<Rightarrow> bytes \<Rightarrow> status_code \<times> bytes) \<Rightarrow> ('a \<Rightarrow> nat) \<Rightarrow> 'a \<Rightarrow> bytes" where
  "element_bytes serialize size_of x =
     (case serialize x (replicate (size_of x) 0) of (st, out) \<Rightarrow> if st \<noteq> Ok then [] else out)"

text \<open>
  The contract every protocol header provides to its users (the composer, the probes, the
  receivers). \<open>wf\<close> is what the C++ type guarantees (the length of fixed arrays), \<open>valid\<close> is
  \<open>validate()\<close>, \<open>canonical\<close> a value whose fields all appear on the wire: the bytes a valid value denotes, a serializer that writes exactly those bytes or
  refuses without touching the span, and a parser that stays inside its input and reads back
  what was written when the bytes after the header fit it.
\<close>

locale wire_codec =
  fixes wf :: "'a \<Rightarrow> bool" and valid :: "'a \<Rightarrow> bool" and canonical :: "'a \<Rightarrow> bool" and size_of :: "'a \<Rightarrow> nat"
    and wire :: "'a \<Rightarrow> bytes" and serialize :: "'a \<Rightarrow> bytes \<Rightarrow> status_code \<times> bytes"
    and fits :: "'a \<Rightarrow> bytes \<Rightarrow> bool" and parse :: "bytes \<Rightarrow> 'a parsed"
  assumes length_wire: "wf x \<Longrightarrow> valid x \<Longrightarrow> length (wire x) = size_of x"
    and serialize_wire: "wf x \<Longrightarrow> valid x \<Longrightarrow> size_of x \<le> length out \<Longrightarrow>
      serialize x out = (Ok, wire x @ drop (size_of x) out)"
    and serialize_refuses: "\<not> (valid x \<and> size_of x \<le> length out) \<Longrightarrow>
      serialize x out = (InvalidArgument, out)"
    and canonical_valid: "canonical x \<Longrightarrow> wf x \<and> valid x"
    and parse_wire: "canonical x \<Longrightarrow> fits x rest \<Longrightarrow> parse (wire x @ rest) = Parsed x"
    and parse_in_bounds: "parse bs \<noteq> OutOfBounds"
begin

lemma status_iff: 
  assumes wf: "wf x"
  shows "fst (serialize x out) = Ok \<longleftrightarrow> valid x \<and> size_of x \<le> length out"
proof (cases "valid x \<and> size_of x \<le> length out")
  case True
  then show ?thesis using wf by (simp add: serialize_wire)
next
  case False
  then show ?thesis using serialize_refuses [OF False] by auto
qed

lemma length_kept: 
  assumes wf: "wf x"
  shows "length (snd (serialize x out)) = length out"
proof (cases "valid x \<and> size_of x \<le> length out")
  case True
  then show ?thesis using wf by (simp add: serialize_wire length_wire)
next
  case False
  then show ?thesis by (simp add: serialize_refuses)
qed

lemma rest_untouched: "wf x \<Longrightarrow> valid x \<Longrightarrow> size_of x \<le> length out \<Longrightarrow>
  take (size_of x) (snd (serialize x out)) = wire x \<and>
  drop (size_of x) (snd (serialize x out)) = drop (size_of x) out"
  by (simp add: serialize_wire length_wire)

lemma round_trip: "canonical x \<Longrightarrow> size_of x \<le> length out \<Longrightarrow> fits x (drop (size_of x) out) \<Longrightarrow>
  parse (snd (serialize x out)) = Parsed x"
  by (simp add: serialize_wire canonical_valid parse_wire)

lemma element_bytes_wire: "wf x \<Longrightarrow> valid x \<Longrightarrow> element_bytes serialize size_of x = wire x"
  by (simp add: element_bytes_def serialize_wire)

lemma element_bytes_invalid: "\<not> valid x \<Longrightarrow> element_bytes serialize size_of x = []"
  by (simp add: element_bytes_def serialize_refuses)

lemma wire_determines: "canonical x \<Longrightarrow> canonical y \<Longrightarrow> fits x [] \<Longrightarrow> fits y [] \<Longrightarrow>
  wire x = wire y \<Longrightarrow> x = y"
  using parse_wire [of x "[]"] parse_wire [of y "[]"] by simp

end

end
