(* ===== verification/Checksum_Spec.thy ===== *)
theory Checksum_Spec
  imports Wire
begin

text \<open>
  The reference definition of the Internet checksum (RFC 1071) and the proof that the
  carry-folding loops of \<open>src/packet/checksum.cpp\<close> compute it: the one's-complement sum of
  a byte string is its sum of 16-bit words, reduced to \<open>1..65535\<close> modulo 65535 (or 0 when
  every word is 0).
\<close>

section \<open>Reference\<close>

definition word16 :: "u8 \<Rightarrow> u8 \<Rightarrow> nat" where
  "word16 hi lo = 256 * unat hi + unat lo"

fun words_value :: "bytes \<Rightarrow> nat" where
  "words_value [] = 0"
| "words_value [b] = word16 b 0"
| "words_value (a # b # bs) = word16 a b + words_value bs"

definition ones_fold :: "nat \<Rightarrow> nat" where
  "ones_fold n = (if n = 0 then 0 else Suc ((n - 1) mod 65535))"

lemma ones_fold_le: "ones_fold n \<le> 65535"
  using pos_mod_bound [of 65535 "int n - 1"] by (simp add: ones_fold_def Suc_le_eq)

lemma ones_fold_small: "n \<le> 65535 \<Longrightarrow> ones_fold n = n"
  by (cases n) (simp_all add: ones_fold_def)

lemma ones_fold_carry: "ones_fold (n mod 65536 + n div 65536) = ones_fold n"
proof (cases "n = 0")
  case False
  let ?m = "n mod 65536 + n div 65536"
  have eq: "n = 65535 * (n div 65536) + ?m"
    using div_mult_mod_eq [of n 65536] by linarith
  have "?m \<noteq> 0"
    using False eq by (metis add.right_neutral add_is_0 mult_0_right)
  then have "n - 1 = 65535 * (n div 65536) + (?m - 1)"
    using eq by linarith
  then have "(n - 1) mod 65535 = (?m - 1) mod 65535"
    by (metis mod_mult_self4 mult.commute)
  with False \<open>?m \<noteq> 0\<close> show ?thesis by (simp add: ones_fold_def)
qed simp

lemma ones_fold_complement: "ones_fold (n + (65535 - ones_fold n)) = 65535"
proof (cases "n = 0")
  case False
  obtain q where "n = 65535 * q + ones_fold n"
  proof
    show "n = 65535 * ((n - 1) div 65535) + ones_fold n"
      using False div_mult_mod_eq [of "n - 1" 65535] by (simp add: ones_fold_def)
  qed
  then have "n + (65535 - ones_fold n) = 65535 * Suc q"
    using ones_fold_le [of n] by simp
  then have "n + (65535 - ones_fold n) - 1 = 65535 * q + 65534" by simp
  then show ?thesis
    using \<open>n + (65535 - ones_fold n) = 65535 * Suc q\<close> by (simp add: ones_fold_def)
qed (simp add: ones_fold_def)

lemma ones_fold_add_full: "ones_fold n = 65535 \<Longrightarrow> ones_fold (n + 65535) = 65535"
proof -
  assume full: "ones_fold n = 65535"
  then have n: "n \<noteq> 0" and m: "(n - 1) mod 65535 = 65534"
    by (auto simp: ones_fold_def split: if_splits)
  have "n + 65535 - 1 = (n - 1) + 65535" using n by simp
  then have "(n + 65535 - 1) mod 65535 = 65534" using m by (simp only: mod_add_self2)
  moreover have "n + 65535 \<noteq> 0" by simp
  ultimately show ?thesis unfolding ones_fold_def by simp
qed

lemma ones_fold_shift:
  assumes "m + k = 65535 * q + (r + k)" and "r = 0 \<longleftrightarrow> m = 0"
  shows "ones_fold (r + k) = ones_fold (m + k)"
proof (cases "r + k = 0")
  case False
  then have "m + k - 1 = 65535 * q + (r + k - 1)" and "m + k \<noteq> 0"
    using assms by auto
  with False show ?thesis
    by (simp only: ones_fold_def if_False mod_mult_self4)
qed (use assms in auto)

lemma words_value_append:
  "even (length xs) \<Longrightarrow> words_value (xs @ ys) = words_value xs + words_value ys"
  by (induction xs rule: words_value.induct) auto

section \<open>The loops compute it\<close>

lemma unat_u16_of: "unat (u16_of a b) = word16 a b"
proof -
  have dis: "push_bit 8 (ucast a :: u16) AND ucast b = 0"
    by (rule bit_word_eqI) (auto simp: bit_simps dest: bit_imp_le_length)
  have "u16_of a b = push_bit 8 (ucast a) + ucast b"
    using dis by (simp add: u16_of_def disjunctive_add_eq_or)
  moreover have "unat (push_bit 8 (ucast a :: u16)) = 256 * unat a"
    using unat_u8_less [of a] by (simp add: push_bit_eq_mult unat_word_ariths)
  ultimately show ?thesis
    using unat_u8_less [of a] unat_u8_less [of b] by (simp add: unat_word_ariths word16_def)
qed


lemma unat_shifted_byte: "unat (push_bit 8 (ucast b :: u16)) = word16 b 0"
  using unat_u16_of [of b 0] by (simp add: u16_of_def)

text \<open>
  Invariant of the accumulating loop: the accumulator stays below \<open>131072\<close>, so the 32-bit
  addition never wraps, and its reduction is that of the exact sum.
\<close>

lemma add_word_step:
  assumes "unat s < 131072"
  shows "unat (add_word s w) < 131072"
    and "ones_fold (unat (add_word s w) + k) = ones_fold (unat s + unat w + k)"
proof -
  have w: "unat w < 65536" using unsigned_less [of w, where ?'a = nat] by simp
  let ?t = "unat s + unat w"
  have t: "unat (s + ucast w) = ?t"
    using assms w by (simp add: unat_word_ariths unat_u32_of_u16)
  have r: "unat (add_word s w) = ?t mod 65536 + ?t div 65536"
    by (simp add: add_word_def Let_def unat_fold_once t)
  have "?t div 65536 < 3" using assms w by (simp add: less_mult_imp_div_less)
  moreover have "?t mod 65536 < 65536" by simp
  ultimately show "unat (add_word s w) < 131072" unfolding r by linarith
  have "?t + k = 65535 * (?t div 65536) + (unat (add_word s w) + k)"
    using div_mult_mod_eq [of ?t 65536] unfolding r by linarith
  moreover have "unat (add_word s w) = 0 \<longleftrightarrow> ?t = 0"
    unfolding r by (metis add_is_0 div_mult_mod_eq mult_zero_left plus_nat.add_0 mod_0 div_0)
  ultimately show "ones_fold (unat (add_word s w) + k) = ones_fold (?t + k)"
    by (rule ones_fold_shift)
qed

lemma add_words_step:
  assumes "unat s < 131072"
  shows "unat (add_words s ws) < 131072"
    and "ones_fold (unat (add_words s ws) + k) = ones_fold (unat s + sum_list (map unat ws) + k)"
  using assms
proof (induction ws arbitrary: s k)
  case (Cons w ws)
  {
    case 1
    then show ?case using Cons add_word_step(1) by (simp add: add_words_def)
  next
    case 2
    have "ones_fold (unat (add_words s (w # ws)) + k) =
        ones_fold (unat (add_word s w) + (sum_list (map unat ws) + k))"
      using Cons.IH(2) add_word_step(1) 2 by (simp add: add_words_def add.assoc)
    also have "\<dots> = ones_fold (unat s + unat w + (sum_list (map unat ws) + k))"
      using 2 by (rule add_word_step(2))
    finally show ?case by (simp add: add.assoc)
  }
qed (simp_all add: add_words_def)

lemma sum_words_step:
  assumes "unat s < 131072"
  shows "unat (sum_words s bs) < 131072 \<and>
    ones_fold (unat (sum_words s bs)) = ones_fold (unat s + words_value bs)"
  using assms
proof (induction s bs rule: sum_words.induct)
  case (2 s b)
  then show ?case
    using add_word_step(1) [of s "push_bit 8 (ucast b)"] add_word_step(2) [of s "push_bit 8 (ucast b)" 0]
    by (simp add: unat_shifted_byte)
next
  case (3 s a b bs)
  note step = add_word_step [OF "3.prems", of "u16_of a b"]
  from 3 step(1) have "unat (sum_words s (a # b # bs)) < 131072 \<and>
      ones_fold (unat (sum_words s (a # b # bs))) =
        ones_fold (unat (add_word s (u16_of a b)) + words_value bs)"
    by simp
  with step(2) [of "words_value bs"] show ?case
    by (simp add: unat_u16_of add.assoc)
qed simp

lemma fold_carry_value:
  "unat (fold_carry s) < 65536 \<and> ones_fold (unat (fold_carry s)) = ones_fold (unat s)"
proof (induction s rule: fold_carry.induct)
  case (1 s)
  show ?case
  proof (cases "drop_bit 16 s = 0")
    case True
    then show ?thesis by (simp add: fold_carry.simps [of s] high_half_zero)
  next
    case False
    with 1 show ?thesis
      by (simp add: fold_carry.simps [of s] unat_fold_once ones_fold_carry)
  qed
qed

lemma unat_not_low_half: "unat (ucast (NOT (s :: u32) AND 0xFFFF) :: u16) = 65535 - unat s mod 65536"
proof -
  have "(ucast (NOT s AND 0xFFFF) :: u16) = NOT (ucast s)"
    by (rule bit_word_eqI) (auto simp: and_0xFFFF bit_simps)
  also have "\<dots> = - 1 - ucast s" by (simp add: not_eq_complement)
  finally have "ucast (NOT s AND 0xFFFF) = (- 1 :: u16) - ucast s" .
  moreover have "unat (ucast s :: u16) = unat s mod 65536"
    by (simp add: unsigned_ucast_eq take_bit_nat_def)
  ultimately show ?thesis
    by (simp add: unat_sub word_n1_ge unsigned_minus_1_eq_mask mask_eq_exp_minus_1)
qed

theorem unat_checksum_finish: "unat (checksum_finish s) = 65535 - ones_fold (unat s)"
proof -
  have "unat (fold_carry s) = ones_fold (unat s)"
    using fold_carry_value [of s] ones_fold_small by fastforce
  then show ?thesis
    using fold_carry_value [of s] by (simp add: checksum_finish_def unat_not_low_half)
qed


section \<open>Reference values of the three checksums\<close>

definition internet_value :: "bytes \<Rightarrow> nat" where
  "internet_value bs = 65535 - ones_fold (words_value bs)"

theorem checksum_internet_value: "unat (checksum_internet bs) = internet_value bs"
  using sum_words_step [of 0 bs]
  by (simp add: checksum_internet_def internet_value_def unat_checksum_finish)

lemma pseudo_checksum_value:
  "unat (checksum_finish (sum_words (add_words 0 ws) bs)) =
     65535 - ones_fold (sum_list (map unat ws) + words_value bs)"
  using sum_words_step [OF add_words_step(1) [of 0 ws], of bs]
    add_words_step(2) [of 0 ws "words_value bs"]
  by (simp add: unat_checksum_finish)

text \<open>
  A receiver sums the words with the checksum field filled in; the field sits at an even
  offset. The result is 0 whatever the message.
\<close>

lemma words_value_write:
  assumes "even off" and "off + 1 < length bs"
  shows "words_value (write_u16 bs off v) + word16 (bs ! off) (bs ! (off + 1)) =
    words_value bs + unat v"
proof -
  define pre where "pre = take off bs"
  define post where "post = drop (off + 2) bs"
  have len: "length pre = off" using assms(2) by (simp add: pre_def)
  have bs: "bs = pre @ bs ! off # bs ! (off + 1) # post"
    using assms(2)
    by (metis (no_types, lifting) Cons_nth_drop_Suc Suc_eq_plus1 Suc_lessD add_2_eq_Suc' append_take_drop_id
        post_def pre_def)
  have "write_u16 bs off v = pre @ ucast (drop_bit 8 v) # ucast v # post"
    by (subst bs) (simp add: write_u16_def len list_update_append)
  moreover have "word16 (ucast (drop_bit 8 v)) (ucast v) = unat v"
    using unat_u16_of [of "ucast (drop_bit 8 v)" "ucast v"] by simp
  moreover have "words_value bs = words_value pre + (word16 (bs ! off) (bs ! (off + 1)) + words_value post)"
    using len assms(1) by (subst bs) (simp add: words_value_append)
  ultimately show ?thesis using len assms(1) by (simp add: words_value_append)
qed

lemma checksum_verifies_ones:
  assumes "even off" and "off + 1 < length bs"
    and "bs ! off = 0" and "bs ! (off + 1) = 0"
    and "unat c = 65535 - ones_fold (p + words_value bs)"
  shows "ones_fold (p + words_value (write_u16 bs off c)) = 65535"
proof -
  have "words_value (write_u16 bs off c) = words_value bs + unat c"
    using words_value_write [OF assms(1,2), of c] assms(3,4) by (simp add: word16_def)
  then show ?thesis
    using ones_fold_complement [of "p + words_value bs"] assms(5) by (simp add: add.assoc)
qed

theorem checksum_internet_verifies:
  assumes "even off" and "off + 1 < length bs"
    and "bs ! off = 0" and "bs ! (off + 1) = 0"
  shows "checksum_internet (write_u16 bs off (checksum_internet bs)) = 0"
proof -
  have "ones_fold (0 + words_value (write_u16 bs off (checksum_internet bs))) = 65535"
    by (rule checksum_verifies_ones [OF assms]) (simp add: checksum_internet_value internet_value_def)
  then have "unat (checksum_internet (write_u16 bs off (checksum_internet bs))) = 0"
    unfolding checksum_internet_value internet_value_def by simp
  then show ?thesis by (simp add: unat_eq_zero)
qed

section \<open>Pseudo-header checksums\<close>

text \<open>
  What a transport serializer relies on: the pseudo-header function adds a weight that
  depends on the length only and reduces the whole. From that contract alone, the segment
  whose zeroed checksum field was filled in sums to the value a receiver accepts, and so does
  the one with \<open>0xFFFF\<close> sent in place of zero.
\<close>

locale pseudo_header =
  fixes pseudo :: "bytes \<Rightarrow> u16" and weight :: "nat \<Rightarrow> nat" and limit :: nat
  assumes pseudo_value: "length bs \<le> limit \<Longrightarrow>
    unat (pseudo bs) = 65535 - ones_fold (weight (length bs) + words_value bs)"
begin

lemma filled_verifies:
  assumes "length bs \<le> limit" and "even off" and "off + 1 < length bs"
    and "bs ! off = 0" and "bs ! (off + 1) = 0"
  shows "pseudo (write_u16 bs off (never_zero (pseudo bs))) = 0"
proof -
  let ?p = "weight (length bs)"
  let ?c = "pseudo bs"
  have filled: "unat ?c = 65535 - ones_fold (?p + words_value bs)"
    using assms(1) by (rule pseudo_value)
  have "ones_fold (?p + words_value (write_u16 bs off (never_zero ?c))) = 65535"
  proof (cases "?c = 0")
    case False
    then show ?thesis
      using checksum_verifies_ones [OF assms(2-5) filled] by (simp add: never_zero_def)
  next
    case True
    with filled have "ones_fold (?p + words_value bs) = 65535"
      using ones_fold_le [of "?p + words_value bs"] by simp
    moreover have "words_value (write_u16 bs off 0xFFFF) = words_value bs + 65535"
      using words_value_write [OF assms(2,3), of "0xFFFF"] assms(4,5) by (simp add: word16_def)
    ultimately show ?thesis
      using True ones_fold_add_full [of "?p + words_value bs"] by (simp add: never_zero_def add.assoc)
  qed
  then have "unat (pseudo (write_u16 bs off (never_zero ?c))) = 0"
    using pseudo_value [of "write_u16 bs off (never_zero ?c)"] assms(1) by simp
  then show ?thesis by (simp add: unat_eq_zero)
qed

lemma never_zero_nonzero: "never_zero (pseudo bs) \<noteq> 0"
  by (simp add: never_zero_def)

end

lemma unat_of_nat_u16: "n \<le> 65535 \<Longrightarrow> unat (of_nat n :: u16) = n"
  by (simp add: unat_of_nat)

interpretation ip4_pseudo: pseudo_header "ipv4_pseudo_header src dst protocol"
    "\<lambda>n. sum_list (map unat [ucast (drop_bit 16 src), ucast (src AND 0xFFFF),
       ucast (drop_bit 16 dst), ucast (dst AND 0xFFFF), ucast protocol, of_nat n :: u16])" 65535
  for src dst protocol
proof
  fix bs :: bytes
  assume "length bs \<le> 65535"
  then show "unat (ipv4_pseudo_header src dst protocol bs) = 65535 - ones_fold
    (sum_list (map unat [ucast (drop_bit 16 src), ucast (src AND 0xFFFF),
       ucast (drop_bit 16 dst), ucast (dst AND 0xFFFF), ucast protocol, of_nat (length bs) :: u16]) +
     words_value bs)"
    by (simp only: ipv4_pseudo_header_def not_less [symmetric] if_False pseudo_checksum_value)
qed

interpretation ip6_pseudo: pseudo_header "ipv6_pseudo_header src dst protocol"
    "\<lambda>n. sum_list (map unat (address_words src dst @
       [of_nat (n div 65536), of_nat (n mod 65536), ucast protocol]))" "0xFFFFFFFF"
  for src dst protocol
proof
  fix bs :: bytes
  assume "length bs \<le> 0xFFFFFFFF"
  then show "unat (ipv6_pseudo_header src dst protocol bs) = 65535 - ones_fold
    (sum_list (map unat (address_words src dst @
       [of_nat (length bs div 65536), of_nat (length bs mod 65536), ucast protocol])) +
     words_value bs)"
    by (simp only: ipv6_pseudo_header_def not_less [symmetric] if_False pseudo_checksum_value)
qed

section \<open>Properties\<close>

text \<open>
  Property C36. The checksum loops, with their 32-bit accumulator and early carry folding,
  compute the one's-complement checksum of RFC 1071 of any byte string.
\<close>

theorem checksum_is_rfc1071:
  "unat (checksum_internet bs) = 65535 - ones_fold (words_value bs)"
  using checksum_internet_value [of bs] by (simp add: internet_value_def)

end
