(* ===== verification/Tcp_Packet.thy ===== *)
theory Tcp_Packet
  imports Checksum_Spec
begin

text \<open>
  TCP headers (\<open>include/packet/tcp.hpp\<close>, \<open>src/packet/tcp.cpp\<close>): the segment value,
  its validation, serialization into a caller's span, the two checksummed serializations,
  and the parser with its option loop. A serializer returns the status and the span after
  the call.
\<close>

section \<open>Segments\<close>

datatype tcp_option_kind = OptNop | OptMss | OptWindowScale | OptSackPermitted | OptTimestamp

fun kind_code :: "tcp_option_kind \<Rightarrow> u8" where
  "kind_code OptNop = 1"
| "kind_code OptMss = 2"
| "kind_code OptWindowScale = 3"
| "kind_code OptSackPermitted = 4"
| "kind_code OptTimestamp = 8"

record tcp_option =
  opt_kind :: tcp_option_kind
  opt_value :: u16
  opt_ts_value :: u32
  opt_ts_echo :: u32

record tcp =
  tcp_source_port :: u16
  tcp_destination_port :: u16
  tcp_sequence_number :: u32
  tcp_acknowledgment_number :: u32
  tcp_data_offset :: u8
  tcp_flags :: u16
  tcp_window :: u16
  tcp_checksum :: u16
  tcp_urgent_pointer :: u16
  tcp_options :: "tcp_option list"
  tcp_payload :: bytes

definition new_tcp :: tcp where
  "new_tcp = \<lparr>tcp_source_port = 0, tcp_destination_port = 0, tcp_sequence_number = 0,
     tcp_acknowledgment_number = 0, tcp_data_offset = 5, tcp_flags = 0, tcp_window = 0,
     tcp_checksum = 0, tcp_urgent_pointer = 0, tcp_options = [], tcp_payload = []\<rparr>"

definition plain_option :: "tcp_option_kind \<Rightarrow> tcp_option" where
  "plain_option k = \<lparr>opt_kind = k, opt_value = 0, opt_ts_value = 0, opt_ts_echo = 0\<rparr>"

datatype tcp_flag = Fin | Syn | Rst | Psh | Ack | Urg | Ece | Cwr

fun flag_bit :: "tcp_flag \<Rightarrow> u16" where
  "flag_bit Fin = 0x01"
| "flag_bit Syn = 0x02"
| "flag_bit Rst = 0x04"
| "flag_bit Psh = 0x08"
| "flag_bit Ack = 0x10"
| "flag_bit Urg = 0x20"
| "flag_bit Ece = 0x40"
| "flag_bit Cwr = 0x80"

definition has_flag :: "u16 \<Rightarrow> tcp_flag \<Rightarrow> bool" where
  "has_flag flags f \<longleftrightarrow> flags AND flag_bit f \<noteq> 0"

fun option_size :: "tcp_option_kind \<Rightarrow> nat" where
  "option_size OptNop = 1"
| "option_size OptMss = 4"
| "option_size OptWindowScale = 3"
| "option_size OptSackPermitted = 2"
| "option_size OptTimestamp = 10"

definition padded_options_size :: "tcp_option list \<Rightarrow> nat" where
  "padded_options_size opts = (sum_list (map (option_size \<circ> opt_kind) opts) + 3) div 4 * 4"

definition tcp_set_options :: "tcp_option list \<Rightarrow> tcp \<Rightarrow> tcp" where
  "tcp_set_options opts t =
     t\<lparr>tcp_options := opts, tcp_data_offset := of_nat (5 + padded_options_size opts div 4)\<rparr>"

definition tcp_header_size :: "tcp \<Rightarrow> nat" where
  "tcp_header_size t = 20 + padded_options_size (tcp_options t)"

definition tcp_serialized_size :: "tcp \<Rightarrow> nat" where
  "tcp_serialized_size t = tcp_header_size t + length (tcp_payload t)"

definition tcp_validate :: "tcp \<Rightarrow> bool" where
  "tcp_validate t =
     (if padded_options_size (tcp_options t) > 40
        \<or> length (tcp_payload t) > 65535 - tcp_header_size t
        \<or> tcp_data_offset t < 5 \<or> tcp_data_offset t > 15
        \<or> tcp_header_size t \<noteq> unat (tcp_data_offset t) * 4 then False
      else list_all (\<lambda>opt. option_size (opt_kind opt) \<noteq> 0
             \<and> \<not> (opt_kind opt = OptWindowScale \<and> opt_value opt > 255)) (tcp_options t))"

section \<open>Serialization\<close>

fun append_options :: "tcp_option list \<Rightarrow> bytes \<Rightarrow> nat \<Rightarrow> bool \<times> bytes" where
  "append_options [] out off = (True, out)"
| "append_options (opt # opts) out off =
     (let size = option_size (opt_kind opt) in
      if size = 0 \<or> off + size > length out then (False, out)
      else
        let out1 = out[off := kind_code (opt_kind opt)] in
        if opt_kind opt = OptNop then append_options opts out1 (off + 1)
        else
          let out2 = out1[off + 1 := of_nat size] in
          (case opt_kind opt of
             OptMss \<Rightarrow> append_options opts (write_u16 out2 (off + 2) (opt_value opt)) (off + size)
           | OptWindowScale \<Rightarrow>
               if opt_value opt > 255 then (False, out2)
               else append_options opts (out2[off + 2 := ucast (opt_value opt)]) (off + size)
           | OptSackPermitted \<Rightarrow> append_options opts out2 (off + size)
           | OptTimestamp \<Rightarrow>
               append_options opts
                 (write_u32 (write_u32 out2 (off + 2) (opt_ts_value opt)) (off + 6) (opt_ts_echo opt))
                 (off + size)
           | OptNop \<Rightarrow> (False, out2)))"

definition tcp_write_fixed :: "tcp \<Rightarrow> bytes \<Rightarrow> bytes" where
  "tcp_write_fixed t out =
     (let o1 = write_u16 out 0 (tcp_source_port t);
          o2 = write_u16 o1 2 (tcp_destination_port t);
          o3 = write_u32 o2 4 (tcp_sequence_number t);
          o4 = write_u32 o3 8 (tcp_acknowledgment_number t);
          o5 = o4[12 := push_bit 4 (tcp_data_offset t)];
          o6 = o5[13 := ucast (tcp_flags t AND 0xFF)];
          o7 = write_u16 o6 14 (tcp_window t);
          o8 = write_u16 o7 16 (tcp_checksum t)
      in write_u16 o8 18 (tcp_urgent_pointer t))"

definition tcp_serialize :: "tcp \<Rightarrow> bytes \<Rightarrow> status_code \<times> bytes" where
  "tcp_serialize t out =
     (if \<not> tcp_validate t \<or> length out < tcp_serialized_size t then (InvalidArgument, out)
      else
        let n = tcp_header_size t;
            fixed = tcp_write_fixed t (replicate n 0 @ drop n out);
            (ok, opts) = append_options (tcp_options t) (take (n - 20) (drop 20 fixed)) 0;
            out1 = take 20 fixed @ opts @ drop n fixed
        in if \<not> ok then (InvalidArgument, out1)
           else (Ok, take n out1 @ tcp_payload t @ drop (n + length (tcp_payload t)) out1))"

definition tcp_with_payload :: "tcp \<Rightarrow> bytes \<Rightarrow> tcp" where
  "tcp_with_payload t payload = (if payload \<noteq> [] then t\<lparr>tcp_payload := payload\<rparr> else t)"

definition tcp_checksummed ::
  "(bytes \<Rightarrow> u16) \<Rightarrow> tcp \<Rightarrow> bytes \<Rightarrow> bytes \<Rightarrow> status_code \<times> bytes" where
  "tcp_checksummed pseudo t out payload =
     (let segment = tcp_with_payload t payload; size = tcp_serialized_size segment in
      if \<not> tcp_validate segment \<or> length out < size then (InvalidArgument, out)
      else case tcp_serialize segment (replicate size 0) of
        (st, bs) \<Rightarrow>
          if st \<noteq> Ok then (InvalidArgument, out)
          else let bs0 = write_u16 bs 16 0;
                   bs1 = write_u16 bs0 16 (never_zero (pseudo bs0))
               in (Ok, bs1 @ drop size out))"

definition tcp_serialize_with_checksum4 ::
  "tcp \<Rightarrow> bytes \<Rightarrow> u32 \<Rightarrow> u32 \<Rightarrow> bytes \<Rightarrow> status_code \<times> bytes" where
  "tcp_serialize_with_checksum4 t out src dst payload =
     tcp_checksummed (ipv4_pseudo_header src dst 6) t out payload"

definition tcp_serialize_with_checksum6 ::
  "tcp \<Rightarrow> bytes \<Rightarrow> bytes \<Rightarrow> bytes \<Rightarrow> bytes \<Rightarrow> status_code \<times> bytes" where
  "tcp_serialize_with_checksum6 t out src dst payload =
     tcp_checksummed (ipv6_pseudo_header src dst 6) t out payload"

definition tcp_checksum_for :: "(bytes \<Rightarrow> u16) \<Rightarrow> tcp \<Rightarrow> bytes \<Rightarrow> u16" where
  "tcp_checksum_for pseudo t payload =
     (let segment = tcp_with_payload t payload in
      if \<not> tcp_validate segment then 0
      else case tcp_serialize segment (replicate (tcp_serialized_size segment) 0) of
        (st, bs) \<Rightarrow> if st \<noteq> Ok then 0 else never_zero (pseudo (write_u16 bs 16 0)))"

section \<open>Parsing\<close>

text \<open>
  One known option, after its kind and length bytes have been read: \<open>None\<close> inside
  \<open>Parsed\<close> is an option kind the value model does not expose.
\<close>

definition tcp_parse_known ::
  "bytes \<Rightarrow> nat \<Rightarrow> u8 \<Rightarrow> nat \<Rightarrow> (tcp_option option \<Rightarrow> 'a parsed) \<Rightarrow> 'a parsed" where
  "tcp_parse_known input off kind len k =
     (if kind = 2 then
        (if len \<noteq> 4 then Rejected
         else read_u16 input (off + 2) (\<lambda>v. k (Some ((plain_option OptMss)\<lparr>opt_value := v\<rparr>))))
      else if kind = 3 then
        (if len \<noteq> 3 then Rejected
         else rd8 input (off + 2) (\<lambda>v. k (Some ((plain_option OptWindowScale)\<lparr>opt_value := ucast v\<rparr>))))
      else if kind = 4 then
        (if len \<noteq> 2 then Rejected else k (Some (plain_option OptSackPermitted)))
      else if kind = 8 then
        (if len \<noteq> 10 then Rejected
         else read_u32 input (off + 2) (\<lambda>v. read_u32 input (off + 6) (\<lambda>e.
           k (Some ((plain_option OptTimestamp)\<lparr>opt_ts_value := v, opt_ts_echo := e\<rparr>)))))
      else k None)"

lemma tcp_parse_known_cong [fundef_cong]:
  "input = input' \<Longrightarrow> off = off' \<Longrightarrow> kind = kind' \<Longrightarrow> len = len' \<Longrightarrow> (\<And>r. k r = k' r) \<Longrightarrow>
     tcp_parse_known input off kind len k = tcp_parse_known input' off' kind' len' k'"
  by (simp add: tcp_parse_known_def)

function (sequential) tcp_parse_options ::
  "bytes \<Rightarrow> nat \<Rightarrow> nat \<Rightarrow> tcp_option list \<Rightarrow> tcp_option list parsed" where
  "tcp_parse_options input header off acc =
     (if off < header then
        rd8 input off (\<lambda>kind.
          if kind = 0 then Parsed acc
          else if kind = 1 then
            tcp_parse_options input header (off + 1) (acc @ [plain_option OptNop])
          else if off + 1 \<ge> header then Rejected
          else rd8 input (off + 1) (\<lambda>len.
            if len < 2 \<or> off + unat len > header then Rejected
            else tcp_parse_known input off kind (unat len) (\<lambda>r.
              tcp_parse_options input header (off + unat len)
                (case r of None \<Rightarrow> acc | Some opt \<Rightarrow> acc @ [opt]))))
      else Parsed acc)"
  by pat_completeness auto
termination
  by (relation "measure (\<lambda>(input, header, off, acc). header - off)") (auto simp: word_less_nat_alt)

declare tcp_parse_options.simps [simp del]

definition tcp_parse :: "bytes \<Rightarrow> tcp parsed" where
  "tcp_parse input =
     (if length input < 20 then Rejected
      else rd8 input 12 (\<lambda>b12.
        let offset = drop_bit 4 b12; header = unat offset * 4 in
        if offset < 5 \<or> offset > 15 \<or> length input < header then Rejected
        else
          read_u16 input 0 (\<lambda>sp. read_u16 input 2 (\<lambda>dp. read_u32 input 4 (\<lambda>sq.
          read_u32 input 8 (\<lambda>ak. rd8 input 13 (\<lambda>fl. read_u16 input 14 (\<lambda>wn.
          read_u16 input 16 (\<lambda>ck. read_u16 input 18 (\<lambda>ur.
            case tcp_parse_options input header 20 [] of
              Parsed opts \<Rightarrow>
                if length input - header > 65535 - header then Rejected
                else Parsed \<lparr>tcp_source_port = sp, tcp_destination_port = dp,
                  tcp_sequence_number = sq, tcp_acknowledgment_number = ak,
                  tcp_data_offset = offset, tcp_flags = ucast fl, tcp_window = wn,
                  tcp_checksum = ck, tcp_urgent_pointer = ur, tcp_options = opts,
                  tcp_payload = drop header input\<rparr>
            | Rejected \<Rightarrow> Rejected
            | OutOfBounds \<Rightarrow> OutOfBounds))))))))))"

section \<open>The wire format\<close>

text \<open>The bytes a valid segment denotes, as a concatenation of fields.\<close>

definition option_bytes :: "tcp_option \<Rightarrow> bytes" where
  "option_bytes opt =
     (case opt_kind opt of
        OptNop \<Rightarrow> [1]
      | OptMss \<Rightarrow> [2, 4] @ u16_bytes (opt_value opt)
      | OptWindowScale \<Rightarrow> [3, 3, ucast (opt_value opt)]
      | OptSackPermitted \<Rightarrow> [4, 2]
      | OptTimestamp \<Rightarrow> [8, 10] @ u32_bytes (opt_ts_value opt) @ u32_bytes (opt_ts_echo opt))"

definition options_bytes :: "tcp_option list \<Rightarrow> bytes" where
  "options_bytes opts = concat (map option_bytes opts)"

definition tcp_fixed_bytes :: "tcp \<Rightarrow> bytes" where
  "tcp_fixed_bytes t =
     u16_bytes (tcp_source_port t) @ u16_bytes (tcp_destination_port t) @
     u32_bytes (tcp_sequence_number t) @ u32_bytes (tcp_acknowledgment_number t) @
     [push_bit 4 (tcp_data_offset t), ucast (tcp_flags t)] @
     u16_bytes (tcp_window t) @ u16_bytes (tcp_checksum t) @ u16_bytes (tcp_urgent_pointer t)"

definition tcp_wire :: "tcp \<Rightarrow> bytes" where
  "tcp_wire t =
     tcp_fixed_bytes t @ options_bytes (tcp_options t) @
     replicate (padded_options_size (tcp_options t) - length (options_bytes (tcp_options t))) 0 @
     tcp_payload t"

definition option_ok :: "tcp_option \<Rightarrow> bool" where
  "option_ok opt \<longleftrightarrow> (opt_kind opt = OptWindowScale \<longrightarrow> opt_value opt \<le> 255)"

lemma option_size_pos: "option_size k \<noteq> 0"
  by (cases k) simp_all

lemma length_option_bytes [simp]: "length (option_bytes opt) = option_size (opt_kind opt)"
  by (cases "opt_kind opt") (simp_all add: option_bytes_def)

lemma length_options_bytes:
  "length (options_bytes opts) = sum_list (map (option_size \<circ> opt_kind) opts)"
  by (simp add: options_bytes_def length_concat comp_def)

lemma padded_ge: "length (options_bytes opts) \<le> padded_options_size opts"
  unfolding length_options_bytes padded_options_size_def by presburger

lemma tcp_validate_options_ok: "tcp_validate t \<Longrightarrow> list_all option_ok (tcp_options t)"
  by (auto simp: tcp_validate_def option_ok_def list_all_iff not_less split: if_splits)

lemma options_bytes_Cons [simp]: "options_bytes (opt # opts) = option_bytes opt @ options_bytes opts"
  by (simp add: options_bytes_def)

lemma options_bytes_Nil [simp]: "options_bytes [] = []"
  by (simp add: options_bytes_def)

lemmas append_options_Cons = append_options.simps(2)
declare append_options.simps(2) [simp del]

lemma append_options_one:
  assumes "option_ok opt" and "length pre = off"
    and "length zs = option_size (opt_kind opt)"
  shows "append_options (opt # opts) (pre @ zs @ ys) off =
    append_options opts ((pre @ option_bytes opt) @ ys) (off + option_size (opt_kind opt))"
proof (cases "opt_kind opt")
  case OptNop
  with assms obtain a where "zs = [a]" by (cases zs) auto
  with OptNop assms show ?thesis by (simp add: append_options_Cons Let_def list_update_append option_bytes_def)
next
  case OptMss
  with assms obtain a b c d where "zs = [a, b, c, d]"
    by (auto simp: eval_nat_numeral length_Suc_conv)
  with OptMss assms show ?thesis by (simp add: append_options_Cons Let_def list_update_append write_u16_def option_bytes_def)
next
  case OptWindowScale
  with assms obtain a b c where "zs = [a, b, c]"
    by (auto simp: eval_nat_numeral length_Suc_conv)
  moreover have "\<not> 255 < opt_value opt"
    using OptWindowScale assms(1) by (simp add: option_ok_def not_less)
  ultimately show ?thesis
    using OptWindowScale assms by (simp add: append_options_Cons Let_def list_update_append option_bytes_def)
next
  case OptSackPermitted
  with assms obtain a b where "zs = [a, b]"
    by (auto simp: eval_nat_numeral length_Suc_conv)
  with OptSackPermitted assms show ?thesis by (simp add: append_options_Cons Let_def list_update_append option_bytes_def)
next
  case OptTimestamp
  with assms obtain a b c d e f g h i j where "zs = [a, b, c, d, e, f, g, h, i, j]"
    by (auto simp: eval_nat_numeral length_Suc_conv)
  with OptTimestamp assms show ?thesis by (simp add: append_options_Cons Let_def list_update_append write_u32_def option_bytes_def)
qed

lemma append_options_spec:
  "list_all option_ok opts \<Longrightarrow> length pre = off \<Longrightarrow> length (options_bytes opts) \<le> length zs \<Longrightarrow>
     append_options opts (pre @ zs) off =
       (True, pre @ options_bytes opts @ drop (length (options_bytes opts)) zs)"
proof (induction opts arbitrary: pre off zs)
  case (Cons opt opts)
  let ?n = "option_size (opt_kind opt)"
  have len: "?n \<le> length zs" and rest: "length (options_bytes opts) \<le> length (drop ?n zs)"
    using Cons.prems(3) by simp_all
  have "append_options (opt # opts) (pre @ take ?n zs @ drop ?n zs) off =
      append_options opts ((pre @ option_bytes opt) @ drop ?n zs) (off + ?n)"
    using Cons.prems len by (intro append_options_one) simp_all
  also have "\<dots> = (True, (pre @ option_bytes opt) @ options_bytes opts @
      drop (length (options_bytes opts)) (drop ?n zs))"
    using Cons.prems rest by (intro Cons.IH) simp_all
  finally show ?case by (simp add: add.commute)
qed simp

lemma drop_length_append: "length xs = n \<Longrightarrow> drop (n + m) (xs @ ys) = drop m ys"
  by simp

lemma fixed_fields_written:
  "tcp_write_fixed t (replicate 20 0 @ ys) = tcp_fixed_bytes t @ ys"
proof -
  have "replicate 20 (0 :: u8) = [0, 0, 0, 0, 0, 0, 0, 0, 0, 0, 0, 0, 0, 0, 0, 0, 0, 0, 0, 0]"
    by (simp add: eval_nat_numeral)
  then show ?thesis
    by (simp add: tcp_write_fixed_def tcp_fixed_bytes_def write_u16_def write_u32_def)
qed

lemma length_tcp_fixed_bytes [simp]: "length (tcp_fixed_bytes t) = 20"
  by (simp add: tcp_fixed_bytes_def)

lemma length_tcp_wire: "length (tcp_wire t) = tcp_serialized_size t"
  using padded_ge [of "tcp_options t"]
  by (simp add: tcp_wire_def tcp_serialized_size_def tcp_header_size_def)

text \<open>Serialization of a valid segment writes exactly its wire format and nothing else.\<close>

lemma tcp_serialize_wire:
  assumes "tcp_validate t" and "tcp_serialized_size t \<le> length out"
  shows "tcp_serialize t out = (Ok, tcp_wire t @ drop (tcp_serialized_size t) out)"
proof -
  let ?p = "padded_options_size (tcp_options t)"
  let ?n = "tcp_header_size t"
  let ?opts = "options_bytes (tcp_options t) @ replicate (?p - length (options_bytes (tcp_options t))) 0"
  let ?F = "tcp_fixed_bytes t @ replicate ?p 0 @ drop ?n out"
  have n: "?n = 20 + ?p" by (simp add: tcp_header_size_def)
  have fixed: "tcp_write_fixed t (replicate ?n 0 @ drop ?n out) = ?F"
    using fixed_fields_written [of t "replicate ?p 0 @ drop ?n out"] by (simp add: n replicate_add)
  have opts: "append_options (tcp_options t) (replicate ?p 0) 0 = (True, ?opts)"
    using append_options_spec [OF tcp_validate_options_ok [OF assms(1)], of "[]" 0 "replicate ?p 0"]
      padded_ge by simp
  have parts: "take (?n - 20) (drop 20 ?F) = replicate ?p 0" "take 20 ?F = tcp_fixed_bytes t"
    "drop ?n ?F = drop ?n out"
    by (simp_all add: n)
  have len: "length (tcp_fixed_bytes t @ ?opts) = ?n"
    using padded_ge [of "tcp_options t"] by (simp add: n)
  have ok: "\<not> (\<not> tcp_validate t \<or> length out < tcp_serialized_size t)"
    using assms by simp
  have "tcp_serialize t out = (Ok, take ?n ((tcp_fixed_bytes t @ ?opts) @ drop ?n out) @ tcp_payload t @
      drop (?n + length (tcp_payload t)) ((tcp_fixed_bytes t @ ?opts) @ drop ?n out))"
    unfolding tcp_serialize_def if_not_P [OF ok] Let_def fixed parts opts prod.case by simp
  also have "take ?n ((tcp_fixed_bytes t @ ?opts) @ drop ?n out) = tcp_fixed_bytes t @ ?opts"
    by (metis len append_eq_conv_conj)
  also have "drop (?n + length (tcp_payload t)) ((tcp_fixed_bytes t @ ?opts) @ drop ?n out) =
      drop (tcp_serialized_size t) out"
    by (simp only: drop_length_append [OF len] drop_drop tcp_serialized_size_def add.commute)
  finally show ?thesis by (simp add: tcp_wire_def)
qed

section \<open>Parsing never leaves the input\<close>

lemma parse_known_in_bounds:
  assumes "off + len \<le> length input" and "\<And>r. k r \<noteq> OutOfBounds"
  shows "tcp_parse_known input off kind len k \<noteq> OutOfBounds"
  using assms by (simp add: tcp_parse_known_def read_u16_in read_u32_in)

lemma tcp_parse_options_in_bounds:
  "header \<le> length input \<Longrightarrow> tcp_parse_options input header off acc \<noteq> OutOfBounds"
proof (induction input header off acc rule: tcp_parse_options.induct)
  case (1 input header off acc)
  show ?case
  proof (cases "off < header")
    case False
    then show ?thesis by (simp add: tcp_parse_options.simps [of input header off acc])
  next
    case True
    with "1.prems" have off: "off < length input" by simp
    show ?thesis
    proof (cases "off + 1 < header")
      case False
      with True off "1.IH"(1) [OF True off] "1.prems" show ?thesis
        by (simp add: tcp_parse_options.simps [of input header off acc])
    next
      case two: True
      with "1.prems" have off2: "off + 1 < length input" by simp
      have step: "tcp_parse_known input off (input ! off) (unat (input ! (off + 1))) (\<lambda>r.
          tcp_parse_options input header (off + unat (input ! (off + 1)))
            (case r of None \<Rightarrow> acc | Some opt \<Rightarrow> acc @ [opt])) \<noteq> OutOfBounds"
        if "input ! off \<noteq> 0" "input ! off \<noteq> 1"
          "\<not> input ! (off + 1) < 2" "off + unat (input ! (off + 1)) \<le> header"
        using that "1.prems" "1.IH"(2) [OF True off] off2 two
        by (intro parse_known_in_bounds) auto
      show ?thesis
        using True two off off2 "1.IH"(1) [OF True off] "1.prems" step
        by (simp add: tcp_parse_options.simps [of input header off acc])
    qed
  qed
qed

lemma tcp_parse_in_bounds: "tcp_parse input \<noteq> OutOfBounds"
  using tcp_parse_options_in_bounds
  by (auto simp: tcp_parse_def Let_def read_u16_in read_u32_in split: parsed.splits)

section \<open>Parsing what was serialized\<close>

text \<open>
  The value model keeps every option field; a canonical option has zero in the fields its
  kind does not put on the wire.
\<close>

definition option_canonical :: "tcp_option \<Rightarrow> bool" where
  "option_canonical opt \<longleftrightarrow>
     (case opt_kind opt of
        OptNop \<Rightarrow> opt = plain_option OptNop
      | OptMss \<Rightarrow> opt = (plain_option OptMss)\<lparr>opt_value := opt_value opt\<rparr>
      | OptWindowScale \<Rightarrow> opt = (plain_option OptWindowScale)\<lparr>opt_value := opt_value opt\<rparr> \<and> opt_value opt \<le> 255
      | OptSackPermitted \<Rightarrow> opt = plain_option OptSackPermitted
      | OptTimestamp \<Rightarrow>
          opt = (plain_option OptTimestamp)\<lparr>opt_ts_value := opt_ts_value opt, opt_ts_echo := opt_ts_echo opt\<rparr>)"

lemma ucast_u16_u8_take: "ucast (ucast (v :: u16) :: u8) = take_bit 8 v"
  by (rule bit_word_eqI) (auto simp: bit_simps)

lemma ucast_u16_u8_u16: "v \<le> 255 \<Longrightarrow> ucast (ucast (v :: u16) :: u8) = v"
proof -
  assume "v \<le> 255"
  then have "unat v < 256" by (simp add: word_le_nat_alt)
  then have "take_bit 8 (unat v) = unat v" by (simp add: take_bit_nat_eq_self)
  then have "take_bit 8 v = v" by (metis word_unat_eq_iff unsigned_take_bit_eq)
  then show ?thesis by (simp only: ucast_u16_u8_take)
qed

lemma parse_one_option:
  assumes canon: "option_canonical opt"
    and input: "input = pre @ option_bytes opt @ rest" and off: "length pre = off"
    and room: "off + option_size (opt_kind opt) \<le> header" "header \<le> length input"
  shows "tcp_parse_options input header off acc =
    tcp_parse_options input header (off + option_size (opt_kind opt)) (acc @ [opt])"
proof -
  have at: "input ! (off + i) = option_bytes opt ! i" if "i < option_size (opt_kind opt)" for i
    using that by (simp add: input off [symmetric] nth_append)
  note unfold = tcp_parse_options.simps [of input header off acc] tcp_parse_known_def
  show ?thesis
  proof (cases "opt_kind opt")
    case OptNop
    with at [of 0] have "input ! off = 1" by (simp add: option_bytes_def)
    with OptNop room canon show ?thesis by (simp add: unfold option_canonical_def)
  next
    case OptMss
    with at [of 0] at [of 1] at [of 2] at [of 3] have
      "input ! off = 2" "input ! (off + 1) = 4" "input ! (off + 2) = ucast (drop_bit 8 (opt_value opt))"
      "input ! (off + 3) = ucast (opt_value opt)"
      by (simp_all add: option_bytes_def)
    moreover have "(plain_option OptMss)\<lparr>opt_value := opt_value opt\<rparr> = opt"
      using canon OptMss by (simp add: option_canonical_def)
    moreover have "read_u16 input (off + 2) k = k (u16_of (input ! (off + 2)) (input ! (off + 3)))"
      for k :: "u16 \<Rightarrow> tcp_option list parsed"
      using OptMss room by (simp add: read_u16_in numeral_3_eq_3)
    ultimately show ?thesis using OptMss room by (simp add: unfold)
  next
    case OptWindowScale
    with at [of 0] at [of 1] at [of 2] have
      "input ! off = 3" "input ! (off + 1) = 3" "input ! (off + 2) = ucast (opt_value opt)"
      by (simp_all add: option_bytes_def)
    moreover have "(plain_option OptWindowScale)\<lparr>opt_value := opt_value opt\<rparr> = opt" "opt_value opt \<le> 255"
      using canon OptWindowScale by (simp_all add: option_canonical_def)
    ultimately show ?thesis
      using OptWindowScale room by (simp add: unfold ucast_u16_u8_u16)
  next
    case OptSackPermitted
    with at [of 0] at [of 1] have "input ! off = 4" "input ! (off + 1) = 2"
      by (simp_all add: option_bytes_def)
    with OptSackPermitted room canon show ?thesis by (simp add: unfold option_canonical_def)
  next
    case OptTimestamp
    with at [of 0] at [of 1] at [of 2] at [of 3] at [of 4] at [of 5] at [of 6] at [of 7] at [of 8] at [of 9]
    have "input ! off = 8" "input ! (off + 1) = 10"
      "input ! (off + 2) = ucast (drop_bit 24 (opt_ts_value opt))"
      "input ! (off + 3) = ucast (drop_bit 16 (opt_ts_value opt))"
      "input ! (off + 4) = ucast (drop_bit 8 (opt_ts_value opt))"
      "input ! (off + 5) = ucast (opt_ts_value opt)"
      "input ! (off + 6) = ucast (drop_bit 24 (opt_ts_echo opt))"
      "input ! (off + 7) = ucast (drop_bit 16 (opt_ts_echo opt))"
      "input ! (off + 8) = ucast (drop_bit 8 (opt_ts_echo opt))"
      "input ! (off + 9) = ucast (opt_ts_echo opt)"
      by (simp_all add: option_bytes_def)
    moreover have
      "(plain_option OptTimestamp)\<lparr>opt_ts_value := opt_ts_value opt, opt_ts_echo := opt_ts_echo opt\<rparr> = opt"
      using canon OptTimestamp by (simp add: option_canonical_def)
    moreover have "read_u32 input (off + 2) k =
        k (u32_of (input ! (off + 2)) (input ! (off + 3)) (input ! (off + 4)) (input ! (off + 5)))"
      "read_u32 input (off + 6) k =
        k (u32_of (input ! (off + 6)) (input ! (off + 7)) (input ! (off + 8)) (input ! (off + 9)))"
      for k :: "u32 \<Rightarrow> tcp_option list parsed"
      using OptTimestamp room by (simp_all add: read_u32_in eval_nat_numeral)
    ultimately show ?thesis using OptTimestamp room by (simp add: unfold)
  qed
qed

lemma parse_options_spec:
  "list_all option_canonical opts \<Longrightarrow> input = pre @ options_bytes opts @ replicate pad 0 @ rest \<Longrightarrow>
     header = length pre + length (options_bytes opts) + pad \<Longrightarrow>
     tcp_parse_options input header (length pre) acc = Parsed (acc @ opts)"
proof (induction opts arbitrary: pre acc)
  case Nil
  note unfold = tcp_parse_options.simps [of input header "length pre" acc]
  show ?case
  proof (cases "pad = 0")
    case True
    with Nil have "\<not> length pre < header" by simp
    then show ?thesis by (simp only: unfold if_False append_Nil2)
  next
    case False
    with Nil have "length pre < header" "length pre < length input" "input ! length pre = 0"
      by (simp_all add: nth_append)
    then show ?thesis by (simp add: unfold)
  qed
next
  case (Cons opt opts)
  have "tcp_parse_options input header (length pre) acc =
      tcp_parse_options input header (length pre + option_size (opt_kind opt)) (acc @ [opt])"
    using Cons.prems by (intro parse_one_option [of _ _ pre "options_bytes opts @ replicate pad 0 @ rest"]) simp_all
  also have "\<dots> = Parsed ((acc @ [opt]) @ opts)"
    using Cons.IH [of "pre @ option_bytes opt" "acc @ [opt]"] Cons.prems by simp
  finally show ?case by simp
qed

text \<open>A segment whose fields all fit the wire: flags in one byte and canonical options.\<close>

definition tcp_canonical :: "tcp \<Rightarrow> bool" where
  "tcp_canonical t \<longleftrightarrow>
     tcp_validate t \<and> tcp_flags t \<le> 255 \<and> list_all option_canonical (tcp_options t)"

lemma data_offset_written: "off \<le> 15 \<Longrightarrow> drop_bit 4 (push_bit 4 off) = (off :: u8)"
proof -
  assume "off \<le> 15"
  then have "unat off < 16" by (simp add: word_le_nat_alt)
  then have "take_bit 4 (unat off) = unat off" by (simp add: take_bit_nat_eq_self)
  then have "take_bit 4 off = off" by (metis word_unat_eq_iff unsigned_take_bit_eq)
  moreover have "drop_bit 4 (push_bit 4 off) = take_bit 4 off"
    by (rule bit_word_eqI) (auto simp: bit_simps)
  ultimately show ?thesis by simp
qed

lemma tcp_parse_wire:
  assumes "tcp_canonical t"
  shows "tcp_parse (tcp_wire t) = Parsed t"
proof -
  let ?p = "padded_options_size (tcp_options t)"
  let ?pad = "?p - length (options_bytes (tcp_options t))"
  let ?w = "tcp_wire t"
  have valid: "tcp_validate t" and flags: "ucast (ucast (tcp_flags t) :: u8) = tcp_flags t"
    and canon: "list_all option_canonical (tcp_options t)"
    using assms by (simp_all only: tcp_canonical_def ucast_u16_u8_u16)
  from valid have off: "5 \<le> tcp_data_offset t" "tcp_data_offset t \<le> 15"
    and header: "unat (tcp_data_offset t) * 4 = tcp_header_size t"
    and size: "length (tcp_payload t) \<le> 65535 - tcp_header_size t"
    by (auto simp: tcp_validate_def not_less split: if_splits)
  have opts: "tcp_parse_options ?w (tcp_header_size t) 20 [] = Parsed (tcp_options t)"
    using parse_options_spec [OF canon, of ?w "tcp_fixed_bytes t" ?pad "tcp_payload t" "tcp_header_size t" "[]"]
      padded_ge [of "tcp_options t"]
    by (simp add: tcp_wire_def tcp_header_size_def)
  have len: "length ?w = tcp_header_size t + length (tcp_payload t)" "20 \<le> tcp_header_size t"
    by (simp_all add: length_tcp_wire tcp_serialized_size_def tcp_header_size_def)
  have drop: "drop (tcp_header_size t) ?w = tcp_payload t"
    using padded_ge [of "tcp_options t"]
    by (simp add: tcp_wire_def tcp_header_size_def)
  have at: "?w ! i = tcp_fixed_bytes t ! i" if "i < 20" for i
    using that by (simp add: tcp_wire_def nth_append)
  have fields: "read_u16 ?w 0 k1 = k1 (tcp_source_port t)" "read_u16 ?w 2 k1 = k1 (tcp_destination_port t)"
    "read_u32 ?w 4 k2 = k2 (tcp_sequence_number t)" "read_u32 ?w 8 k2 = k2 (tcp_acknowledgment_number t)"
    "rd8 ?w 12 k3 = k3 (push_bit 4 (tcp_data_offset t))" "rd8 ?w 13 k3 = k3 (ucast (tcp_flags t))"
    "read_u16 ?w 14 k1 = k1 (tcp_window t)" "read_u16 ?w 16 k1 = k1 (tcp_checksum t)"
    "read_u16 ?w 18 k1 = k1 (tcp_urgent_pointer t)"
    for k1 :: "u16 \<Rightarrow> tcp parsed" and k2 :: "u32 \<Rightarrow> tcp parsed" and k3 :: "u8 \<Rightarrow> tcp parsed"
    using len by (simp_all add: read_u16_in read_u32_in at tcp_fixed_bytes_def)
  show ?thesis
    using off len size flags
    by (simp add: tcp_parse_def Let_def fields data_offset_written header opts drop not_less)
qed

section \<open>Checksums\<close>

lemma tcp_serialize_exact:
  "tcp_validate t \<Longrightarrow> tcp_serialize t (replicate (tcp_serialized_size t) 0) = (Ok, tcp_wire t)"
  by (simp add: tcp_serialize_wire)

text \<open>
  The two checksummed serializations differ from \<open>tcp_wire\<close> in the checksum field only: they
  are the wire format of the same segment with the checksum filled in.
\<close>

lemma tcp_fixed_bytes_checksum:
  "write_u16 (tcp_fixed_bytes t @ ys) 16 c = tcp_fixed_bytes (t\<lparr>tcp_checksum := c\<rparr>) @ ys"
  by (simp add: write_u16_def tcp_fixed_bytes_def)

lemma tcp_wire_checksum: "write_u16 (tcp_wire t) 16 c = tcp_wire (t\<lparr>tcp_checksum := c\<rparr>)"
  by (simp add: tcp_wire_def tcp_fixed_bytes_checksum)

lemma tcp_sizes_checksum [simp]:
  "tcp_serialized_size (t\<lparr>tcp_checksum := c\<rparr>) = tcp_serialized_size t"
  by (simp add: tcp_serialized_size_def tcp_header_size_def)

definition tcp_checksum_filled :: "(bytes \<Rightarrow> u16) \<Rightarrow> tcp \<Rightarrow> tcp" where
  "tcp_checksum_filled pseudo t =
     t\<lparr>tcp_checksum := never_zero (pseudo (tcp_wire (t\<lparr>tcp_checksum := 0\<rparr>)))\<rparr>"

lemma tcp_checksummed_wire:
  assumes "tcp_validate (tcp_with_payload t payload)"
    and "tcp_serialized_size (tcp_with_payload t payload) \<le> length out"
  shows "tcp_checksummed pseudo t out payload =
    (Ok, tcp_wire (tcp_checksum_filled pseudo (tcp_with_payload t payload)) @
         drop (tcp_serialized_size (tcp_with_payload t payload)) out)"
  using assms
  by (simp add: tcp_checksummed_def Let_def tcp_serialize_exact tcp_wire_checksum tcp_checksum_filled_def)

lemma tcp_checksummed_ok_iff:
  "fst (tcp_checksummed pseudo t out payload) = Ok \<longleftrightarrow>
     tcp_validate (tcp_with_payload t payload) \<and>
     tcp_serialized_size (tcp_with_payload t payload) \<le> length out"
proof (cases "tcp_validate (tcp_with_payload t payload) \<and>
    tcp_serialized_size (tcp_with_payload t payload) \<le> length out")
  case True
  then show ?thesis by (simp add: tcp_checksummed_wire)
next
  case False
  then show ?thesis by (auto simp: tcp_checksummed_def Let_def)
qed

lemma tcp_checksum_for_filled:
  "tcp_validate (tcp_with_payload t payload) \<Longrightarrow>
     tcp_checksum_for pseudo t payload =
       tcp_checksum (tcp_checksum_filled pseudo (tcp_with_payload t payload))"
  by (simp add: tcp_checksum_for_def Let_def tcp_serialize_exact tcp_wire_checksum tcp_checksum_filled_def)

lemma tcp_validate_size: "tcp_validate t \<Longrightarrow> tcp_serialized_size t \<le> 65535"
proof -
  assume v: "tcp_validate t"
  have "tcp_header_size t \<le> 60" using v by (auto simp: tcp_validate_def tcp_header_size_def split: if_splits)
  then show ?thesis using v by (auto simp: tcp_validate_def tcp_serialized_size_def split: if_splits)
qed

context pseudo_header
begin

lemma tcp_filled_verifies:
  assumes "tcp_validate t" and "65535 \<le> limit"
  shows "pseudo (tcp_wire (tcp_checksum_filled pseudo t)) = 0"
proof -
  let ?w = "tcp_wire (t\<lparr>tcp_checksum := 0\<rparr>)"
  have len: "length ?w = tcp_serialized_size t" "20 \<le> tcp_serialized_size t"
    by (simp_all add: length_tcp_wire tcp_serialized_size_def tcp_header_size_def)
  have zero: "?w ! 16 = 0" "?w ! (16 + 1) = 0"
    by (simp_all add: tcp_wire_def tcp_fixed_bytes_def nth_append)
  have "pseudo (write_u16 ?w 16 (never_zero (pseudo ?w))) = 0"
    using len tcp_validate_size [OF assms(1)] assms(2)
    by (intro filled_verifies zero) simp_all
  then show ?thesis
    by (simp add: tcp_wire_checksum tcp_checksum_filled_def)
qed

end

interpretation tcp_codec: wire_codec "\<lambda>t. True" tcp_validate tcp_canonical tcp_serialized_size tcp_wire
  tcp_serialize "\<lambda>t rest. rest = []" tcp_parse
proof
  show "\<not> (tcp_validate t \<and> tcp_serialized_size t \<le> length out) \<Longrightarrow>
      tcp_serialize t out = (InvalidArgument, out)" for t out
    by (auto simp: tcp_serialize_def)
qed (simp_all add: length_tcp_wire tcp_serialize_wire tcp_canonical_def tcp_parse_in_bounds
  tcp_parse_wire [unfolded tcp_canonical_def])

section \<open>Properties\<close>

text \<open>
  Property C24. Serializing a canonical segment into a buffer with room for it succeeds, whatever
  the buffer held: the first \<open>serialized_size\<close> bytes parse back to the same segment (ports, numbers,
  flags, options in order, payload), and the bytes after them are as they were.
\<close>

theorem tcp_segment_round_trip:
  assumes "tcp_canonical t" and "tcp_serialized_size t \<le> length out"
  shows "fst (tcp_serialize t out) = Ok \<and>
    tcp_parse (take (tcp_serialized_size t) (snd (tcp_serialize t out))) = Parsed t \<and>
    drop (tcp_serialized_size t) (snd (tcp_serialize t out)) = drop (tcp_serialized_size t) out"
proof -
  have v: "tcp_validate t" using tcp_codec.canonical_valid [OF assms(1)] by simp
  have w: "tcp_serialize t out = (Ok, tcp_wire t @ drop (tcp_serialized_size t) out)"
    using tcp_codec.serialize_wire [of t out] v assms(2) by simp
  have "length (tcp_wire t) = tcp_serialized_size t" using tcp_codec.length_wire [of t] v by simp
  then show ?thesis using w tcp_codec.parse_wire [OF assms(1), of "[]"] by simp
qed

definition syn_with_options :: tcp where
  "syn_with_options = tcp_set_options
     [(plain_option OptMss)\<lparr>opt_value := 1460\<rparr>, plain_option OptSackPermitted,
      (plain_option OptTimestamp)\<lparr>opt_ts_value := 77\<rparr>, plain_option OptNop,
      (plain_option OptWindowScale)\<lparr>opt_value := 7\<rparr>]
     (new_tcp\<lparr>tcp_source_port := 40000, tcp_destination_port := 443, tcp_flags := 2,
       tcp_payload := [1, 2, 3]\<rparr>)"

lemma syn_with_options_ok: "tcp_canonical syn_with_options"
  by (simp add: syn_with_options_def tcp_canonical_def tcp_validate_def tcp_set_options_def new_tcp_def
    plain_option_def padded_options_size_def tcp_header_size_def option_canonical_def)

theorem tcp_segment_round_trip_witness:
  "tcp_parse (take 43 (snd (tcp_serialize syn_with_options (replicate 50 7)))) = Parsed syn_with_options \<and>
   drop 43 (snd (tcp_serialize syn_with_options (replicate 50 7))) = replicate 7 7"
proof -
  have n: "tcp_serialized_size syn_with_options = 43"
    by (simp add: syn_with_options_def tcp_serialized_size_def tcp_set_options_def new_tcp_def plain_option_def
        padded_options_size_def tcp_header_size_def)
  show ?thesis
    using tcp_segment_round_trip [OF syn_with_options_ok, of "replicate 50 7"] by (simp add: n)
qed

text \<open>
  The segment parser and its option loop never read beyond the input, for any
  input.
\<close>

theorem tcp_parse_never_overreads: "tcp_parse input \<noteq> OutOfBounds"
  by (rule tcp_parse_in_bounds)

text \<open>
  A segment serialized with a checksum is accepted by a receiver over IPv4 and
  over IPv6: the pseudo-header checksum of the bytes written is zero, also when the computed
  checksum was zero and \<open>0xFFFF\<close> was sent in its place.
\<close>

theorem tcp_checksum_accepted:
  assumes "tcp_validate (tcp_with_payload t payload)"
    and "length out = tcp_serialized_size (tcp_with_payload t payload)"
  shows "ipv4_pseudo_header src dst 6 (snd (tcp_serialize_with_checksum4 t out src dst payload)) = 0 \<and>
    ipv6_pseudo_header src6 dst6 6 (snd (tcp_serialize_with_checksum6 t out src6 dst6 payload)) = 0"
  using assms
  by (simp add: tcp_serialize_with_checksum4_def tcp_serialize_with_checksum6_def tcp_checksummed_wire
    ip4_pseudo.tcp_filled_verifies ip6_pseudo.tcp_filled_verifies)

theorem tcp_checksum_accepted_witness:
  "ipv4_pseudo_header 0x0A000001 0x0A000002 6
     (snd (tcp_serialize_with_checksum4 new_tcp (replicate 22 0) 0x0A000001 0x0A000002 [1, 2])) = 0 \<and>
   ipv6_pseudo_header (replicate 16 0) (replicate 16 1) 6
     (snd (tcp_serialize_with_checksum6 new_tcp (replicate 22 0) (replicate 16 0) (replicate 16 1) [1, 2])) = 0"
  by (rule tcp_checksum_accepted)
    (simp_all add: tcp_with_payload_def new_tcp_def tcp_validate_def padded_options_size_def
      tcp_header_size_def tcp_serialized_size_def)

end
