(* ===== verification/Udp_Packet.thy ===== *)
theory Udp_Packet
  imports Checksum_Spec
begin

text \<open>
  UDP datagrams (\<open>include/packet/udp.hpp\<close>, \<open>src/packet/udp.cpp\<close>): the value, its
  serialization, the two checksummed serializations and the exact-length parser.
\<close>

section \<open>Datagrams\<close>

record udp =
  udp_source_port :: u16
  udp_destination_port :: u16
  udp_checksum :: u16
  udp_payload :: bytes

definition udp_serialized_size :: "udp \<Rightarrow> nat" where
  "udp_serialized_size u = 8 + length (udp_payload u)"

definition udp_length :: "udp \<Rightarrow> u16" where
  "udp_length u = of_nat (8 + length (udp_payload u))"

definition udp_validate :: "udp \<Rightarrow> bool" where
  "udp_validate u \<longleftrightarrow> udp_serialized_size u \<le> 65535"

definition udp_serialize :: "udp \<Rightarrow> bytes \<Rightarrow> status_code \<times> bytes" where
  "udp_serialize u out =
     (if \<not> udp_validate u \<or> length out < udp_serialized_size u then (InvalidArgument, out)
      else
        let o1 = write_u16 out 0 (udp_source_port u);
            o2 = write_u16 o1 2 (udp_destination_port u);
            o3 = write_u16 o2 4 (udp_length u);
            o4 = write_u16 o3 6 (udp_checksum u)
        in (Ok, take 8 o4 @ udp_payload u @ drop (8 + length (udp_payload u)) o4))"

definition udp_checksummed :: "(bytes \<Rightarrow> u16) \<Rightarrow> udp \<Rightarrow> bytes \<Rightarrow> status_code \<times> bytes" where
  "udp_checksummed pseudo u out =
     (let size = udp_serialized_size u in
      if \<not> udp_validate u \<or> length out < size then (InvalidArgument, out)
      else case udp_serialize u (replicate size 0) of
        (st, bs) \<Rightarrow>
          if st \<noteq> Ok then (InvalidArgument, out)
          else let bs0 = write_u16 bs 6 0;
                   bs1 = write_u16 bs0 6 (never_zero (pseudo bs0))
               in (Ok, bs1 @ drop size out))"

definition udp_serialize_with_checksum4 ::
  "udp \<Rightarrow> bytes \<Rightarrow> u32 \<Rightarrow> u32 \<Rightarrow> status_code \<times> bytes" where
  "udp_serialize_with_checksum4 u out src dst = udp_checksummed (ipv4_pseudo_header src dst 17) u out"

definition udp_serialize_with_checksum6 ::
  "udp \<Rightarrow> bytes \<Rightarrow> bytes \<Rightarrow> bytes \<Rightarrow> status_code \<times> bytes" where
  "udp_serialize_with_checksum6 u out src dst = udp_checksummed (ipv6_pseudo_header src dst 17) u out"

definition udp_checksum_for :: "(bytes \<Rightarrow> u16) \<Rightarrow> udp \<Rightarrow> u16" where
  "udp_checksum_for pseudo u =
     (if \<not> udp_validate u then 0
      else case udp_serialize u (replicate (udp_serialized_size u) 0) of
        (st, bs) \<Rightarrow> if st \<noteq> Ok then 0 else never_zero (pseudo (write_u16 bs 6 0)))"

definition udp_parse :: "bytes \<Rightarrow> udp parsed" where
  "udp_parse input =
     (if length input < 8 then Rejected
      else
        read_u16 input 0 (\<lambda>sp. read_u16 input 2 (\<lambda>dp. read_u16 input 4 (\<lambda>len.
        read_u16 input 6 (\<lambda>ck.
          if len < 8 \<or> unat len \<noteq> length input then Rejected
          else Parsed \<lparr>udp_source_port = sp, udp_destination_port = dp, udp_checksum = ck,
            udp_payload = drop 8 input\<rparr>)))))"

section \<open>The wire format\<close>

definition udp_wire :: "udp \<Rightarrow> bytes" where
  "udp_wire u =
     u16_bytes (udp_source_port u) @ u16_bytes (udp_destination_port u) @
     u16_bytes (udp_length u) @ u16_bytes (udp_checksum u) @ udp_payload u"

lemma length_udp_wire: "length (udp_wire u) = udp_serialized_size u"
  by (simp add: udp_wire_def udp_serialized_size_def)

lemma udp_serialize_wire:
  assumes "udp_validate u" and "udp_serialized_size u \<le> length out"
  shows "udp_serialize u out = (Ok, udp_wire u @ drop (udp_serialized_size u) out)"
proof -
  have "8 \<le> length out" using assms by (simp add: udp_serialized_size_def)
  then obtain a b c d e f g h ys where out: "out = [a, b, c, d, e, f, g, h] @ ys"
    by (rule eight_bytes)
  show ?thesis
    using assms unfolding out
    by (simp add: udp_serialize_def Let_def write_u16_def udp_wire_def
      udp_serialized_size_def drop_numeral_add del: drop_drop)
qed

lemma udp_parse_wire:
  assumes "udp_validate u"
  shows "udp_parse (udp_wire u) = Parsed u"
proof -
  have len: "8 + length (udp_payload u) \<le> 65535"
    using assms by (simp add: udp_validate_def udp_serialized_size_def)
  then have "unat (udp_length u) = 8 + length (udp_payload u)"
    unfolding udp_length_def by (rule unat_of_nat_u16)
  then have "\<not> udp_length u < 8" "unat (udp_length u) = length (udp_wire u)"
    by (simp_all add: word_less_nat_alt length_udp_wire udp_serialized_size_def)
  then show ?thesis
    by (simp add: udp_parse_def udp_wire_def read_u16_in)
qed

lemma udp_parse_in_bounds: "udp_parse input \<noteq> OutOfBounds"
  by (auto simp: udp_parse_def read_u16_in)

interpretation udp_codec: wire_codec "\<lambda>u. True" udp_validate udp_validate udp_serialized_size udp_wire
  udp_serialize "\<lambda>u rest. rest = []" udp_parse
proof
  show "\<not> (udp_validate u \<and> udp_serialized_size u \<le> length out) \<Longrightarrow>
      udp_serialize u out = (InvalidArgument, out)" for u out
    by (auto simp: udp_serialize_def)
qed (simp_all add: length_udp_wire udp_serialize_wire udp_parse_wire udp_parse_in_bounds)

text \<open>The parser accepts only what the serializer produces.\<close>

lemma udp_parse_sound:
  assumes "udp_parse input = Parsed u"
  shows "udp_validate u \<and> udp_wire u = input"
proof -
  from assms have "8 \<le> length input"
    by (auto simp: udp_parse_def not_less split: if_splits)
  then obtain a b c d e f g h ys where input: "input = [a, b, c, d, e, f, g, h] @ ys"
    by (rule eight_bytes)
  from assms have len: "unat (u16_of e f) = 8 + length ys"
    and u: "u = \<lparr>udp_source_port = u16_of a b, udp_destination_port = u16_of c d,
      udp_checksum = u16_of g h, udp_payload = ys\<rparr>"
    by (auto simp: udp_parse_def input read_u16_in split: if_splits)
  have "8 + length ys \<le> 65535"
    using len unat_u16_less [of "u16_of e f"] by simp
  moreover from len have "(of_nat (8 + length ys) :: u16) = u16_of e f"
    by (metis of_nat_unat ucast_id)
  ultimately show ?thesis
    using len by (simp add: u udp_validate_def udp_serialized_size_def udp_wire_def input
      udp_length_def u16_bytes_of)
qed

section \<open>Checksums\<close>

lemma udp_serialize_exact:
  "udp_validate u \<Longrightarrow> udp_serialize u (replicate (udp_serialized_size u) 0) = (Ok, udp_wire u)"
  by (simp add: udp_serialize_wire)

lemma udp_wire_checksum: "write_u16 (udp_wire u) 6 c = udp_wire (u\<lparr>udp_checksum := c\<rparr>)"
  by (simp add: udp_wire_def write_u16_def udp_length_def)

definition udp_checksum_filled :: "(bytes \<Rightarrow> u16) \<Rightarrow> udp \<Rightarrow> udp" where
  "udp_checksum_filled pseudo u =
     u\<lparr>udp_checksum := never_zero (pseudo (udp_wire (u\<lparr>udp_checksum := 0\<rparr>)))\<rparr>"

lemma udp_checksummed_wire:
  assumes "udp_validate u" and "udp_serialized_size u \<le> length out"
  shows "udp_checksummed pseudo u out =
    (Ok, udp_wire (udp_checksum_filled pseudo u) @ drop (udp_serialized_size u) out)"
  using assms
  by (simp add: udp_checksummed_def Let_def udp_serialize_exact udp_wire_checksum udp_checksum_filled_def)

lemma udp_checksummed_refused:
  "\<not> (udp_validate u \<and> udp_serialized_size u \<le> length out) \<Longrightarrow>
     udp_checksummed pseudo u out = (InvalidArgument, out)"
  by (auto simp: udp_checksummed_def Let_def)

lemma udp_checksum_for_filled:
  "udp_validate u \<Longrightarrow> udp_checksum_for pseudo u = udp_checksum (udp_checksum_filled pseudo u)"
  by (simp add: udp_checksum_for_def udp_serialize_exact udp_wire_checksum udp_checksum_filled_def)

context pseudo_header
begin

lemma udp_filled_verifies:
  assumes "udp_validate u" and "65535 \<le> limit"
  shows "pseudo (udp_wire (udp_checksum_filled pseudo u)) = 0"
proof -
  let ?w = "udp_wire (u\<lparr>udp_checksum := 0\<rparr>)"
  have len: "length ?w = udp_serialized_size u" "8 \<le> udp_serialized_size u"
    by (simp_all add: length_udp_wire udp_serialized_size_def)
  have zero: "?w ! 6 = 0" "?w ! (6 + 1) = 0"
    by (simp_all add: udp_wire_def)
  have "pseudo (write_u16 ?w 6 (never_zero (pseudo ?w))) = 0"
    using len assms by (intro filled_verifies zero) (simp_all add: udp_validate_def)
  then show ?thesis
    by (simp add: udp_wire_checksum udp_checksum_filled_def)
qed

end

section \<open>Properties\<close>

text \<open>
  The datagram parser accepts exactly the byte strings the serializer produces
  and returns the datagram they were made from.
\<close>

theorem udp_parse_exact:
  "udp_parse input = Parsed u \<longleftrightarrow>
     udp_serialize u (replicate (length input) 0) = (Ok, input) \<and> length input = udp_serialized_size u"
proof
  assume "udp_parse input = Parsed u"
  then have "udp_validate u" "udp_wire u = input" using udp_parse_sound by blast+
  moreover from this(2) have "length input = udp_serialized_size u" using length_udp_wire [of u] by simp
  ultimately show "udp_serialize u (replicate (length input) 0) = (Ok, input) \<and>
      length input = udp_serialized_size u"
    by (simp add: udp_serialize_wire)
next
  assume ser: "udp_serialize u (replicate (length input) 0) = (Ok, input) \<and>
      length input = udp_serialized_size u"
  then have v: "udp_validate u" by (auto simp: udp_serialize_def split: if_splits)
  from ser have "udp_serialize u (replicate (length input) 0) = (Ok, udp_wire u)"
    using udp_serialize_wire [OF v, of "replicate (length input) 0"] by simp
  with ser have "udp_wire u = input" by simp
  with v show "udp_parse input = Parsed u" using udp_parse_wire [of u] by simp
qed

end
