(* ===== verification/Ip_Packets.thy ===== *)
theory Ip_Packets
  imports Checksum_Spec
begin

text \<open>
  The network and link headers: IPv4 (\<open>src/packet/ipv4.cpp\<close>), IPv6 (\<open>src/packet/ipv6.cpp\<close>)
  and Ethernet II (\<open>src/packet/ethernet.cpp\<close>). Fixed arrays are byte lists; the length their
  C++ type gives them is part of the well-formedness predicates.
\<close>

section \<open>IPv4\<close>

record ipv4 =
  ip4_version :: u8
  ip4_ihl :: u8
  ip4_dscp_ecn :: u8
  ip4_total_length :: u16
  ip4_identification :: u16
  ip4_flags_fragment_offset :: u16
  ip4_ttl :: u8
  ip4_protocol :: u8
  ip4_header_checksum :: u16
  ip4_source_address :: u32
  ip4_destination_address :: u32

definition new_ipv4 :: ipv4 where
  "new_ipv4 = \<lparr>ip4_version = 4, ip4_ihl = 5, ip4_dscp_ecn = 0, ip4_total_length = 20,
     ip4_identification = 0, ip4_flags_fragment_offset = 0, ip4_ttl = 64, ip4_protocol = 0,
     ip4_header_checksum = 0, ip4_source_address = 0, ip4_destination_address = 0\<rparr>"

definition ip4_serialized_size :: "ipv4 \<Rightarrow> nat" where
  "ip4_serialized_size p = unat (ip4_ihl p) * 4"

definition ip4_validate :: "ipv4 \<Rightarrow> bool" where
  "ip4_validate p \<longleftrightarrow> ip4_version p = 4 \<and> ip4_ihl p = 5 \<and>
     of_nat (ip4_serialized_size p) \<le> ip4_total_length p"

definition ip4_write_fields :: "ipv4 \<Rightarrow> bytes \<Rightarrow> bytes" where
  "ip4_write_fields p out =
     (let o1 = out[0 := push_bit 4 (ip4_version p) OR (ip4_ihl p AND 0x0F)];
          o2 = o1[1 := ip4_dscp_ecn p];
          o3 = write_u16 o2 2 (ip4_total_length p);
          o4 = write_u16 o3 4 (ip4_identification p);
          o5 = write_u16 o4 6 (ip4_flags_fragment_offset p);
          o6 = o5[8 := ip4_ttl p];
          o7 = o6[9 := ip4_protocol p];
          o8 = write_u16 o7 10 0;
          o9 = write_u32 o8 12 (ip4_source_address p)
      in write_u32 o9 16 (ip4_destination_address p))"

definition ip4_serialize :: "ipv4 \<Rightarrow> bytes \<Rightarrow> status_code \<times> bytes" where
  "ip4_serialize p out =
     (if \<not> ip4_validate p \<or> length out < ip4_serialized_size p then (InvalidArgument, out)
      else
        let h = ip4_serialized_size p;
            o1 = ip4_write_fields p (replicate h 0 @ drop h out)
        in (Ok, write_u16 o1 10 (checksum_internet (take h o1))))"

definition ip4_parse :: "bytes \<Rightarrow> ipv4 parsed" where
  "ip4_parse input =
     (if length input < 20 then Rejected
      else rd8 input 0 (\<lambda>b0.
        let version = drop_bit 4 b0; ihl = b0 AND 0x0F; h = unat ihl * 4 in
        if version \<noteq> 4 \<or> ihl \<noteq> 5 \<or> length input < h then Rejected
        else
          rd8 input 1 (\<lambda>ds. read_u16 input 2 (\<lambda>tl. read_u16 input 4 (\<lambda>idn. read_u16 input 6 (\<lambda>ff.
          rd8 input 8 (\<lambda>tt. rd8 input 9 (\<lambda>pr. read_u16 input 10 (\<lambda>ck. read_u32 input 12 (\<lambda>sa.
          read_u32 input 16 (\<lambda>da.
            let p = \<lparr>ip4_version = version, ip4_ihl = ihl, ip4_dscp_ecn = ds, ip4_total_length = tl,
                  ip4_identification = idn, ip4_flags_fragment_offset = ff, ip4_ttl = tt,
                  ip4_protocol = pr, ip4_header_checksum = ck, ip4_source_address = sa,
                  ip4_destination_address = da\<rparr>
            in if \<not> ip4_validate p \<or> unat tl > length input \<or> checksum_internet (take h input) \<noteq> 0
               then Rejected else Parsed p)))))))))))"

text \<open>The header with a given checksum field, and the checksum the serializer computes.\<close>

definition ip4_header :: "ipv4 \<Rightarrow> u16 \<Rightarrow> bytes" where
  "ip4_header p c =
     [0x45, ip4_dscp_ecn p] @ u16_bytes (ip4_total_length p) @ u16_bytes (ip4_identification p) @
     u16_bytes (ip4_flags_fragment_offset p) @ [ip4_ttl p, ip4_protocol p] @ u16_bytes c @
     u32_bytes (ip4_source_address p) @ u32_bytes (ip4_destination_address p)"

definition ip4_checksum :: "ipv4 \<Rightarrow> u16" where
  "ip4_checksum p = checksum_internet (ip4_header p 0)"

definition ip4_wire :: "ipv4 \<Rightarrow> bytes" where
  "ip4_wire p = ip4_header p (ip4_checksum p)"

definition ip4_canonical :: "ipv4 \<Rightarrow> bool" where
  "ip4_canonical p \<longleftrightarrow> ip4_validate p \<and> ip4_header_checksum p = ip4_checksum p"

definition ip4_fits :: "ipv4 \<Rightarrow> bytes \<Rightarrow> bool" where
  "ip4_fits p rest \<longleftrightarrow> unat (ip4_total_length p) \<le> 20 + length rest"

lemma length_ip4_header [simp]: "length (ip4_header p c) = 20"
  by (simp add: ip4_header_def)

lemma ip4_size_valid: "ip4_validate p \<Longrightarrow> ip4_serialized_size p = 20"
  by (simp add: ip4_validate_def ip4_serialized_size_def)

lemma ip4_header_checksum_field: "write_u16 (ip4_header p a @ rest) 10 c = ip4_header p c @ rest"
  by (simp add: ip4_header_def write_u16_def)

lemma ip4_fields_written:
  assumes "ip4_validate p"
  shows "ip4_write_fields p (replicate 20 0 @ rest) = ip4_header p 0 @ rest"
proof -
  have "replicate 20 (0 :: u8) = [0, 0, 0, 0, 0, 0, 0, 0, 0, 0, 0, 0, 0, 0, 0, 0, 0, 0, 0, 0]"
    by (simp add: eval_nat_numeral)
  then show ?thesis
    using assms
    by (simp add: ip4_write_fields_def ip4_header_def write_u16_def write_u32_def ip4_validate_def)
qed

lemma ip4_serialize_wire:
  assumes "ip4_validate p" and "ip4_serialized_size p \<le> length out"
  shows "ip4_serialize p out = (Ok, ip4_wire p @ drop (ip4_serialized_size p) out)"
  using assms
  by (simp add: ip4_serialize_def Let_def ip4_size_valid ip4_fields_written
    ip4_header_checksum_field ip4_wire_def ip4_checksum_def)

lemma ip4_checksum_verifies: "checksum_internet (ip4_wire p) = 0"
proof -
  have "checksum_internet (write_u16 (ip4_header p 0) 10 (checksum_internet (ip4_header p 0))) = 0"
    by (rule checksum_internet_verifies) (simp_all add: ip4_header_def)
  then show ?thesis
    using ip4_header_checksum_field [of p 0 "[]"] by (simp add: ip4_wire_def ip4_checksum_def)
qed

lemma ip4_parse_wire:
  assumes "ip4_canonical p" and "ip4_fits p rest"
  shows "ip4_parse (ip4_wire p @ rest) = Parsed p"
proof -
  let ?in = "ip4_wire p @ rest"
  have len: "length (ip4_wire p) = 20" by (simp add: ip4_wire_def)
  have at: "?in ! i = ip4_header p (ip4_header_checksum p) ! i" if "i < 20" for i
    using that assms(1) by (simp add: ip4_wire_def nth_append ip4_canonical_def)
  have fields: "rd8 ?in 0 k1 = k1 0x45" "rd8 ?in 1 k1 = k1 (ip4_dscp_ecn p)"
    "read_u16 ?in 2 k2 = k2 (ip4_total_length p)" "read_u16 ?in 4 k2 = k2 (ip4_identification p)"
    "read_u16 ?in 6 k2 = k2 (ip4_flags_fragment_offset p)" "rd8 ?in 8 k1 = k1 (ip4_ttl p)"
    "rd8 ?in 9 k1 = k1 (ip4_protocol p)" "read_u16 ?in 10 k2 = k2 (ip4_header_checksum p)"
    "read_u32 ?in 12 k3 = k3 (ip4_source_address p)" "read_u32 ?in 16 k3 = k3 (ip4_destination_address p)"
    for k1 :: "u8 \<Rightarrow> ipv4 parsed" and k2 :: "u16 \<Rightarrow> ipv4 parsed" and k3 :: "u32 \<Rightarrow> ipv4 parsed"
    using len by (simp_all add: read_u16_in read_u32_in at ip4_header_def)
  have v: "ip4_version p = 4" "ip4_ihl p = 5"
    using assms(1) by (simp_all add: ip4_canonical_def ip4_validate_def)
  then have "p = \<lparr>ip4_version = 4, ip4_ihl = 5, ip4_dscp_ecn = ip4_dscp_ecn p,
      ip4_total_length = ip4_total_length p, ip4_identification = ip4_identification p,
      ip4_flags_fragment_offset = ip4_flags_fragment_offset p, ip4_ttl = ip4_ttl p,
      ip4_protocol = ip4_protocol p, ip4_header_checksum = ip4_header_checksum p,
      ip4_source_address = ip4_source_address p, ip4_destination_address = ip4_destination_address p\<rparr>"
    (is "p = ?p") by simp
  moreover have "ip4_parse ?in = (if \<not> ip4_validate ?p \<or> unat (ip4_total_length p) > length ?in \<or>
      checksum_internet (take 20 ?in) \<noteq> 0 then Rejected else Parsed ?p)"
    using len unfolding ip4_parse_def fields Let_def by (simp add: fields)
  ultimately show ?thesis
    using len assms ip4_checksum_verifies [of p]
    by (simp add: ip4_fits_def ip4_canonical_def not_less)
qed

lemma ip4_parse_in_bounds: "ip4_parse input \<noteq> OutOfBounds"
proof (cases "length input < 20")
  case False
  then have "input \<noteq> []" "20 \<le> length input" by auto
  then show ?thesis by (simp add: ip4_parse_def Let_def read_u16_in read_u32_in)
qed (simp add: ip4_parse_def)

interpretation ip4_codec: wire_codec "\<lambda>p. True" ip4_validate ip4_canonical ip4_serialized_size ip4_wire
  ip4_serialize ip4_fits ip4_parse
proof
  show "\<not> (ip4_validate p \<and> ip4_serialized_size p \<le> length out) \<Longrightarrow>
      ip4_serialize p out = (InvalidArgument, out)" for p out
    by (auto simp: ip4_serialize_def)
qed (simp_all add: ip4_wire_def ip4_size_valid ip4_serialize_wire [unfolded ip4_wire_def]
  ip4_canonical_def ip4_parse_wire [unfolded ip4_wire_def ip4_canonical_def] ip4_parse_in_bounds)

section \<open>IPv6\<close>

record ipv6 =
  ip6_version :: u8
  ip6_traffic_class :: u8
  ip6_flow_label :: u32
  ip6_payload_length :: u16
  ip6_next_header :: u8
  ip6_hop_limit :: u8
  ip6_source_address :: bytes
  ip6_destination_address :: bytes

definition new_ipv6 :: ipv6 where
  "new_ipv6 = \<lparr>ip6_version = 6, ip6_traffic_class = 0, ip6_flow_label = 0, ip6_payload_length = 0,
     ip6_next_header = 0, ip6_hop_limit = 64, ip6_source_address = replicate 16 0,
     ip6_destination_address = replicate 16 0\<rparr>"

definition ip6_set_flow_label :: "u32 \<Rightarrow> ipv6 \<Rightarrow> ipv6" where
  "ip6_set_flow_label v p = p\<lparr>ip6_flow_label := v AND 0x000FFFFF\<rparr>"

definition ip6_serialized_size :: "ipv6 \<Rightarrow> nat" where
  "ip6_serialized_size p = 40"

definition ip6_validate :: "ipv6 \<Rightarrow> bool" where
  "ip6_validate p \<longleftrightarrow> ip6_version p = 6 \<and> ip6_flow_label p AND 0xFFF00000 = 0"

definition ip6_serialize :: "ipv6 \<Rightarrow> bytes \<Rightarrow> status_code \<times> bytes" where
  "ip6_serialize p out =
     (if \<not> ip6_validate p \<or> length out < 40 then (InvalidArgument, out)
      else
        let o1 = out[0 := push_bit 4 (ip6_version p) OR drop_bit 4 (ip6_traffic_class p)];
            o2 = o1[1 := push_bit 4 (ip6_traffic_class p) OR ucast (drop_bit 16 (ip6_flow_label p) AND 0x0F)];
            o3 = o2[2 := ucast (drop_bit 8 (ip6_flow_label p))];
            o4 = o3[3 := ucast (ip6_flow_label p AND 0xFF)];
            o5 = write_u16 o4 4 (ip6_payload_length p);
            o6 = o5[6 := ip6_next_header p];
            o7 = o6[7 := ip6_hop_limit p]
        in (Ok, copy_into (copy_into o7 8 (ip6_source_address p)) 24 (ip6_destination_address p)))"

definition ip6_parse :: "bytes \<Rightarrow> ipv6 parsed" where
  "ip6_parse input =
     (if length input < 40 then Rejected
      else rd8 input 0 (\<lambda>b0. if drop_bit 4 b0 \<noteq> 6 then Rejected else
        rd8 input 1 (\<lambda>b1. rd8 input 2 (\<lambda>b2. rd8 input 3 (\<lambda>b3. read_u16 input 4 (\<lambda>pl.
          if unat pl > length input - 40 then Rejected else
          rd8 input 6 (\<lambda>nh. rd8 input 7 (\<lambda>hl.
          read_array 16 input 8 (\<lambda>sa. read_array 16 input 24 (\<lambda>da.
            Parsed \<lparr>ip6_version = drop_bit 4 b0,
              ip6_traffic_class = push_bit 4 (b0 AND 0x0F) OR drop_bit 4 b1,
              ip6_flow_label = push_bit 16 (ucast (b1 AND 0x0F)) OR (push_bit 8 (ucast b2) OR ucast b3),
              ip6_payload_length = pl, ip6_next_header = nh, ip6_hop_limit = hl,
              ip6_source_address = sa, ip6_destination_address = da\<rparr>))))))))))"

definition ip6_wf :: "ipv6 \<Rightarrow> bool" where
  "ip6_wf p \<longleftrightarrow> length (ip6_source_address p) = 16 \<and> length (ip6_destination_address p) = 16"

definition ip6_header :: "ipv6 \<Rightarrow> bytes" where
  "ip6_header p =
     [push_bit 4 6 OR drop_bit 4 (ip6_traffic_class p),
      push_bit 4 (ip6_traffic_class p) OR ucast (drop_bit 16 (ip6_flow_label p) AND 0x0F),
      ucast (drop_bit 8 (ip6_flow_label p)), ucast (ip6_flow_label p)] @
     u16_bytes (ip6_payload_length p) @ [ip6_next_header p, ip6_hop_limit p]"

definition ip6_wire :: "ipv6 \<Rightarrow> bytes" where
  "ip6_wire p = ip6_header p @ ip6_source_address p @ ip6_destination_address p"

definition ip6_valid :: "ipv6 \<Rightarrow> bool" where
  "ip6_valid p \<longleftrightarrow> ip6_validate p \<and> ip6_wf p"

definition ip6_fits :: "ipv6 \<Rightarrow> bytes \<Rightarrow> bool" where
  "ip6_fits p rest \<longleftrightarrow> unat (ip6_payload_length p) \<le> length rest"

lemma length_ip6_header [simp]: "length (ip6_header p) = 8"
  by (simp add: ip6_header_def)

lemma length_ip6_wire: "ip6_wf p \<Longrightarrow> length (ip6_wire p) = 40"
  by (simp add: ip6_wire_def ip6_wf_def)

lemma copy_addresses:
  assumes "length pre = 8" and "length sa = 16" and "length da = 16"
  shows "copy_into (copy_into (pre @ ys) 8 sa) 24 da = pre @ sa @ da @ drop 32 ys"
  using assms by (simp add: copy_into_def)

lemma ip6_serialize_wire:
  assumes "ip6_valid p" and "ip6_serialized_size p \<le> length out"
  shows "ip6_serialize p out = (Ok, ip6_wire p @ drop (ip6_serialized_size p) out)"
proof -
  have len: "40 \<le> length out" using assms(2) by (simp add: ip6_serialized_size_def)
  then have "8 \<le> length out" by simp
  then obtain a b c d e f g h ys where out: "out = [a, b, c, d, e, f, g, h] @ ys"
    by (rule eight_bytes)
  have "drop 40 out = drop 32 ys" by (simp add: out)
  then show ?thesis
    using assms(1) len copy_addresses [of "ip6_header p" "ip6_source_address p" "ip6_destination_address p" ys]
    by (simp add: ip6_serialize_def Let_def out write_u16_def ip6_wire_def ip6_serialized_size_def
      ip6_valid_def ip6_wf_def ip6_validate_def ip6_header_def)
qed

lemma flow_label_written:
  assumes "v AND 0xFFF00000 = (0 :: u32)"
  shows "push_bit 16 (ucast ((push_bit 4 tc OR ucast (drop_bit 16 v AND 0x0F) :: u8) AND 0x0F)) OR
    (push_bit 8 (ucast (ucast (drop_bit 8 v) :: u8)) OR ucast (ucast v :: u8)) = v"
proof (rule bit_word_eqI)
  fix n assume n: "n < LENGTH(32)"
  have m: "(0xFFF00000 :: u32) = push_bit 20 (mask 12)" "(0x0F :: u32) = mask 4" "(0x0F :: u8) = mask 4"
    by (simp_all add: mask_eq_exp_minus_1 push_bit_eq_mult)
  have high: "\<not> bit v n" if "20 \<le> n"
  proof
    assume "bit v n"
    then have "bit (v AND 0xFFF00000) n" using that n by (simp add: m bit_simps) arith
    with assms show False by simp
  qed
  consider "n < 8" | "8 \<le> n \<and> n < 16" | "16 \<le> n \<and> n < 20" | "20 \<le> n \<and> n < 32"
    using n by fastforce
  then show "bit (push_bit 16 (ucast ((push_bit 4 tc OR ucast (drop_bit 16 v AND 0x0F) :: u8) AND 0x0F)) OR
    (push_bit 8 (ucast (ucast (drop_bit 8 v) :: u8)) OR ucast (ucast v :: u8)) :: u32) n = bit v n"
    by cases (use high in \<open>auto simp: m bit_simps\<close>)
qed

lemma traffic_class_written:
  "push_bit 4 ((push_bit 4 6 OR drop_bit 4 tc :: u8) AND 0x0F) OR
     drop_bit 4 (push_bit 4 tc OR ucast (drop_bit 16 (v :: u32) AND 0x0F)) = (tc :: u8)"
proof (rule bit_word_eqI)
  fix n assume n: "n < LENGTH(8)"
  have m: "(0x0F :: u32) = mask 4" "(0x0F :: u8) = mask 4" "(1536 :: u8) = 0"
    by (simp_all add: mask_eq_exp_minus_1)
  from n consider "n < 4" | "4 \<le> n \<and> n < 8" by fastforce
  then show "bit (push_bit 4 ((push_bit 4 6 OR drop_bit 4 tc :: u8) AND 0x0F) OR
     drop_bit 4 (push_bit 4 tc OR ucast (drop_bit 16 v AND 0x0F))) n = bit tc n"
    by cases (auto simp: m bit_simps)
qed

lemma version_written: "drop_bit 4 (push_bit 4 6 OR drop_bit 4 (tc :: u8)) = 6"
proof -
  have "drop_bit 4 (push_bit 4 6 OR drop_bit 4 tc) = drop_bit 4 (push_bit 4 6 :: u8) OR drop_bit 8 tc"
    by (simp add: drop_bit_or)
  also have "drop_bit 8 tc = 0" by (rule bit_word_eqI) (auto simp: bit_simps dest: bit_imp_le_length)
  finally show ?thesis by simp
qed

lemma ip6_parse_wire:
  assumes "ip6_valid p" and "ip6_fits p rest"
  shows "ip6_parse (ip6_wire p @ rest) = Parsed p"
proof -
  let ?in = "ip6_wire p @ rest"
  have wf: "length (ip6_source_address p) = 16" "length (ip6_destination_address p) = 16"
    and v: "ip6_version p = 6" "ip6_flow_label p AND 0xFFF00000 = 0"
    using assms(1) by (simp_all add: ip6_valid_def ip6_wf_def ip6_validate_def)
  have len: "length (ip6_wire p) = 40" using wf by (simp add: ip6_wire_def)
  have at: "?in ! i = ip6_header p ! i" if "i < 8" for i
    using that by (simp add: ip6_wire_def nth_append)
  have "drop 8 ?in = ip6_source_address p @ ip6_destination_address p @ rest"
    "drop 24 ?in = ip6_destination_address p @ rest"
    using wf by (simp_all add: ip6_wire_def)
  then have arrays: "read_array 16 ?in 8 k1 = k1 (ip6_source_address p)"
    "read_array 16 ?in 24 k1 = k1 (ip6_destination_address p)" for k1 :: "bytes \<Rightarrow> ipv6 parsed"
    using len wf by (simp_all add: read_array_in)
  have fields: "read_u16 ?in 4 k2 = k2 (ip6_payload_length p)"
    "rd8 ?in 6 k1 = k1 (ip6_next_header p)" "rd8 ?in 7 k1 = k1 (ip6_hop_limit p)"
    "rd8 ?in 0 k1 = k1 (push_bit 4 6 OR drop_bit 4 (ip6_traffic_class p))"
    "rd8 ?in 1 k1 = k1 (push_bit 4 (ip6_traffic_class p) OR ucast (drop_bit 16 (ip6_flow_label p) AND 0x0F))"
    "rd8 ?in 2 k1 = k1 (ucast (drop_bit 8 (ip6_flow_label p)))" "rd8 ?in 3 k1 = k1 (ucast (ip6_flow_label p))"
    for k1 :: "u8 \<Rightarrow> ipv6 parsed" and k2 :: "u16 \<Rightarrow> ipv6 parsed"
    using len by (simp_all add: read_u16_in at ip6_header_def del: push_bit_numeral)
  show ?thesis
    using len assms(2) v(1)
    unfolding ip6_parse_def fields arrays version_written traffic_class_written flow_label_written [OF v(2)]
    by (simp add: ip6_fits_def)
qed

lemma ip6_parse_in_bounds: "ip6_parse input \<noteq> OutOfBounds"
proof (cases "length input < 40")
  case False
  then have "input \<noteq> []" "40 \<le> length input" by auto
  then show ?thesis by (simp add: ip6_parse_def read_u16_in read_array_in)
qed (simp add: ip6_parse_def)

interpretation ip6_codec: wire_codec ip6_wf ip6_validate ip6_valid ip6_serialized_size ip6_wire
  ip6_serialize ip6_fits ip6_parse
proof
  show "\<not> (ip6_validate p \<and> ip6_serialized_size p \<le> length out) \<Longrightarrow>
      ip6_serialize p out = (InvalidArgument, out)" for p out
    by (auto simp: ip6_serialize_def ip6_serialized_size_def)
qed (simp_all add: length_ip6_wire ip6_serialized_size_def ip6_parse_wire ip6_parse_in_bounds
  ip6_serialize_wire [unfolded ip6_serialized_size_def ip6_valid_def] ip6_valid_def [symmetric],
  simp_all add: ip6_valid_def)

section \<open>Ethernet II\<close>

record ethernet =
  eth_destination :: bytes
  eth_source :: bytes
  eth_ether_type :: u16

definition eth_serialized_size :: "ethernet \<Rightarrow> nat" where
  "eth_serialized_size e = 14"

definition eth_validate :: "ethernet \<Rightarrow> bool" where
  "eth_validate e \<longleftrightarrow> eth_ether_type e \<noteq> 0"

definition eth_serialize :: "ethernet \<Rightarrow> bytes \<Rightarrow> status_code \<times> bytes" where
  "eth_serialize e out =
     (if \<not> eth_validate e then (InvalidArgument, out)
      else if length out < 14 then (InvalidArgument, out)
      else (Ok, write_u16 (copy_into (copy_into out 0 (eth_destination e)) 6 (eth_source e)) 12
             (eth_ether_type e)))"

definition eth_parse :: "bytes \<Rightarrow> ethernet parsed" where
  "eth_parse input =
     (if length input < 14 then Rejected
      else read_array 6 input 0 (\<lambda>d. read_array 6 input 6 (\<lambda>s. read_u16 input 12 (\<lambda>t.
        let e = \<lparr>eth_destination = d, eth_source = s, eth_ether_type = t\<rparr>
        in if \<not> eth_validate e then Rejected else Parsed e))))"

definition eth_wf :: "ethernet \<Rightarrow> bool" where
  "eth_wf e \<longleftrightarrow> length (eth_destination e) = 6 \<and> length (eth_source e) = 6"

definition eth_valid :: "ethernet \<Rightarrow> bool" where
  "eth_valid e \<longleftrightarrow> eth_wf e \<and> eth_validate e"

definition eth_wire :: "ethernet \<Rightarrow> bytes" where
  "eth_wire e = eth_destination e @ eth_source e @ u16_bytes (eth_ether_type e)"

lemma eth_serialize_wire:
  assumes "eth_wf e" and "eth_validate e" and "14 \<le> length out"
  shows "eth_serialize e out = (Ok, eth_wire e @ drop 14 out)"
proof -
  let ?h = "eth_destination e @ eth_source e"
  have h: "length ?h = 12" using assms(1) by (simp add: eth_wf_def)
  have copied: "copy_into (copy_into out 0 (eth_destination e)) 6 (eth_source e) = ?h @ drop 12 out"
    using assms(1) by (simp add: copy_into_def eth_wf_def)
  obtain a b ys where rest: "drop 12 out = a # b # ys" "drop 14 out = ys"
  proof -
    have "2 \<le> length (drop 12 out)" using assms(3) by simp
    then obtain a b ys where r: "drop 12 out = a # b # ys"
      by (rule two_bytes)
    moreover have "drop 14 out = drop 2 (drop 12 out)" by simp
    ultimately have "drop 14 out = ys" by simp
    with r that show ?thesis by blast
  qed
  have "write_u16 (?h @ a # b # ys) 12 v = ?h @ u16_bytes v @ ys" for v
    using h by (simp add: write_u16_def list_update_append del: append_assoc length_append)
  then show ?thesis
    using assms by (simp add: eth_serialize_def copied rest eth_wire_def)
qed

lemma eth_parse_wire:
  assumes "eth_valid e"
  shows "eth_parse (eth_wire e @ rest) = Parsed e"
proof -
  have wf: "length (eth_destination e) = 6" "length (eth_source e) = 6"
    using assms by (simp_all add: eth_valid_def eth_wf_def)
  have "(eth_wire e @ rest) ! 12 = ucast (drop_bit 8 (eth_ether_type e))"
    "(eth_wire e @ rest) ! 13 = ucast (eth_ether_type e)"
    using wf by (simp_all add: eth_wire_def nth_append)
  then show ?thesis
    using assms wf
    by (simp add: eth_parse_def read_array_in read_u16_in Let_def eth_wire_def eth_valid_def eth_validate_def)
qed

lemma eth_parse_in_bounds: "eth_parse input \<noteq> OutOfBounds"
  by (cases "length input < 14") (simp_all add: eth_parse_def read_array_in read_u16_in Let_def)

interpretation eth_codec: wire_codec eth_wf eth_validate eth_valid eth_serialized_size eth_wire
  eth_serialize "\<lambda>e rest. True" eth_parse
proof
  show "\<not> (eth_validate e \<and> eth_serialized_size e \<le> length out) \<Longrightarrow>
      eth_serialize e out = (InvalidArgument, out)" for e out
    by (auto simp: eth_serialize_def eth_serialized_size_def)
qed (simp_all add: eth_serialized_size_def eth_serialize_wire eth_parse_wire eth_parse_in_bounds,
  simp_all add: eth_wire_def eth_wf_def eth_valid_def)

end
