(* ===== verification/Icmp_Packets.thy ===== *)
theory Icmp_Packets
  imports Checksum_Spec
begin

text \<open>
  ICMPv4 messages (\<open>src/packet/icmp.cpp\<close>) and ICMPv6 messages with the neighbor discovery
  options (\<open>src/packet/icmpv6.cpp\<close>).
\<close>

section \<open>ICMPv4\<close>

datatype icmp_type = Icmp_EchoReply | Icmp_DestinationUnreachable | Icmp_EchoRequest

fun icmp_type_code :: "icmp_type \<Rightarrow> u8" where
  "icmp_type_code Icmp_EchoReply = 0"
| "icmp_type_code Icmp_DestinationUnreachable = 3"
| "icmp_type_code Icmp_EchoRequest = 8"

definition icmp_type_of :: "u8 \<Rightarrow> icmp_type option" where
  "icmp_type_of v =
     (if v = 8 then Some Icmp_EchoRequest
      else if v = 0 then Some Icmp_EchoReply
      else if v = 3 then Some Icmp_DestinationUnreachable else None)"

record icmp =
  icmp_type :: icmp_type
  icmp_code :: u8
  icmp_identifier :: u16
  icmp_sequence :: u16
  icmp_checksum :: u16
  icmp_payload :: bytes

definition icmp_serialized_size :: "icmp \<Rightarrow> nat" where
  "icmp_serialized_size m = 8 + length (icmp_payload m)"

definition icmp_validate :: "icmp \<Rightarrow> bool" where
  "icmp_validate m \<longleftrightarrow>
     (icmp_type m = Icmp_EchoRequest \<or> icmp_type m = Icmp_EchoReply \<or>
      icmp_type m = Icmp_DestinationUnreachable) \<and> icmp_serialized_size m \<le> 65535"

definition icmp_serialize :: "icmp \<Rightarrow> bytes \<Rightarrow> status_code \<times> bytes" where
  "icmp_serialize m out =
     (if \<not> icmp_validate m \<or> length out < icmp_serialized_size m then (InvalidArgument, out)
      else
        let o1 = write_u16 out 0 (u16_of (icmp_type_code (icmp_type m)) (icmp_code m));
            o2 = write_u16 o1 2 0;
            o3 = write_u16 o2 4 (icmp_identifier m);
            o4 = write_u16 o3 6 (icmp_sequence m);
            o5 = copy_into o4 8 (icmp_payload m)
        in (Ok, write_u16 o5 2 (checksum_internet (take (icmp_serialized_size m) o5))))"

definition icmp_parse :: "bytes \<Rightarrow> icmp parsed" where
  "icmp_parse input =
     (if length input < 8 then Rejected
      else rd8 input 0 (\<lambda>raw.
        case icmp_type_of raw of
          None \<Rightarrow> Rejected
        | Some t \<Rightarrow>
            rd8 input 1 (\<lambda>code. read_u16 input 2 (\<lambda>ck. read_u16 input 4 (\<lambda>idn. read_u16 input 6 (\<lambda>sq.
              if checksum_internet input \<noteq> 0 then Rejected
              else Parsed \<lparr>icmp_type = t, icmp_code = code, icmp_identifier = idn,
                icmp_sequence = sq, icmp_checksum = ck, icmp_payload = drop 8 input\<rparr>))))))"

definition icmp_bytes :: "icmp \<Rightarrow> u16 \<Rightarrow> bytes" where
  "icmp_bytes m c =
     [icmp_type_code (icmp_type m), icmp_code m] @ u16_bytes c @ u16_bytes (icmp_identifier m) @
     u16_bytes (icmp_sequence m) @ icmp_payload m"

definition icmp_computed_checksum :: "icmp \<Rightarrow> u16" where
  "icmp_computed_checksum m = checksum_internet (icmp_bytes m 0)"

definition icmp_wire :: "icmp \<Rightarrow> bytes" where
  "icmp_wire m = icmp_bytes m (icmp_computed_checksum m)"

definition icmp_canonical :: "icmp \<Rightarrow> bool" where
  "icmp_canonical m \<longleftrightarrow> icmp_validate m \<and> icmp_checksum m = icmp_computed_checksum m"

lemma icmp_type_of_code [simp]: "icmp_type_of (icmp_type_code t) = Some t"
  by (cases t) (simp_all add: icmp_type_of_def)

lemma length_icmp_bytes [simp]: "length (icmp_bytes m c) = 8 + length (icmp_payload m)"
  by (simp add: icmp_bytes_def)

lemma icmp_bytes_checksum: "write_u16 (icmp_bytes m a @ rest) 2 c = icmp_bytes m c @ rest"
  by (simp add: icmp_bytes_def write_u16_def)

lemma icmp_serialize_wire:
  assumes "icmp_validate m" and "icmp_serialized_size m \<le> length out"
  shows "icmp_serialize m out = (Ok, icmp_wire m @ drop (icmp_serialized_size m) out)"
proof -
  have "8 \<le> length out" using assms by (simp add: icmp_serialized_size_def)
  then obtain a b c d e f g h ys where out: "out = [a, b, c, d, e, f, g, h] @ ys"
    by (rule eight_bytes)
  let ?tc = "u16_of (icmp_type_code (icmp_type m)) (icmp_code m)"
  have "copy_into (write_u16 (write_u16 (write_u16 (write_u16 out 0 ?tc) 2 0) 4
      (icmp_identifier m)) 6 (icmp_sequence m)) 8 (icmp_payload m) =
    icmp_bytes m 0 @ drop (icmp_serialized_size m) out"
    using u16_bytes_of [of "icmp_type_code (icmp_type m)" "icmp_code m"]
    by (simp add: out write_u16_def copy_into_def icmp_bytes_def icmp_serialized_size_def
      drop_numeral_add del: drop_drop)
  moreover have "icmp_serialized_size m = length (icmp_bytes m 0)"
    by (simp add: icmp_serialized_size_def)
  ultimately show ?thesis
    using assms
    by (simp add: icmp_serialize_def Let_def icmp_bytes_checksum icmp_wire_def icmp_computed_checksum_def)
qed

lemma icmp_wire_verifies: "checksum_internet (icmp_wire m) = 0"
proof -
  have "checksum_internet (write_u16 (icmp_bytes m 0) 2 (checksum_internet (icmp_bytes m 0))) = 0"
    by (rule checksum_internet_verifies) (simp_all add: icmp_bytes_def)
  then show ?thesis
    using icmp_bytes_checksum [of m 0 "[]"] by (simp add: icmp_wire_def icmp_computed_checksum_def)
qed

lemma icmp_parse_wire:
  assumes "icmp_canonical m"
  shows "icmp_parse (icmp_wire m) = Parsed m"
proof -
  have w: "icmp_wire m = icmp_bytes m (icmp_checksum m)"
    using assms by (simp add: icmp_wire_def icmp_canonical_def)
  then have ok: "checksum_internet (icmp_bytes m (icmp_checksum m)) = 0"
    using icmp_wire_verifies [of m] by simp
  have at: "icmp_bytes m c ! 0 = icmp_type_code (icmp_type m)" "icmp_bytes m c ! Suc 0 = icmp_code m"
    "read_u16 (icmp_bytes m c) 2 k = k c" "read_u16 (icmp_bytes m c) 4 k = k (icmp_identifier m)"
    "read_u16 (icmp_bytes m c) 6 k = k (icmp_sequence m)" "drop 8 (icmp_bytes m c) = icmp_payload m"
    "icmp_bytes m c \<noteq> []"
    for c and k :: "u16 \<Rightarrow> icmp parsed"
    by (simp_all add: icmp_bytes_def read_u16_in)
  show ?thesis
    using ok by (simp add: icmp_parse_def w at)
qed

lemma icmp_parse_in_bounds: "icmp_parse input \<noteq> OutOfBounds"
proof (cases "length input < 8")
  case False
  then have "input \<noteq> []" "8 \<le> length input" by auto
  then show ?thesis by (simp add: icmp_parse_def read_u16_in split: option.splits)
qed (simp add: icmp_parse_def)

interpretation icmp_codec: wire_codec "\<lambda>m. True" icmp_validate icmp_canonical icmp_serialized_size
  icmp_wire icmp_serialize "\<lambda>m rest. rest = []" icmp_parse
proof
  show "\<not> (icmp_validate m \<and> icmp_serialized_size m \<le> length out) \<Longrightarrow>
      icmp_serialize m out = (InvalidArgument, out)" for m out
    by (auto simp: icmp_serialize_def)
  show "length (icmp_wire m) = icmp_serialized_size m" for m
    by (simp add: icmp_wire_def icmp_serialized_size_def)
qed (simp_all add: icmp_serialize_wire icmp_parse_wire icmp_parse_in_bounds, simp add: icmp_canonical_def)

section \<open>ICMPv6\<close>

datatype icmp6_type = Icmp6_DestinationUnreachable | Icmp6_PacketTooBig | Icmp6_TimeExceeded
  | Icmp6_ParameterProblem | Icmp6_EchoRequest | Icmp6_EchoReply | Icmp6_NeighborSolicitation
  | Icmp6_NeighborAdvertisement

fun icmp6_type_code :: "icmp6_type \<Rightarrow> u8" where
  "icmp6_type_code Icmp6_DestinationUnreachable = 1"
| "icmp6_type_code Icmp6_PacketTooBig = 2"
| "icmp6_type_code Icmp6_TimeExceeded = 3"
| "icmp6_type_code Icmp6_ParameterProblem = 4"
| "icmp6_type_code Icmp6_EchoRequest = 128"
| "icmp6_type_code Icmp6_EchoReply = 129"
| "icmp6_type_code Icmp6_NeighborSolicitation = 135"
| "icmp6_type_code Icmp6_NeighborAdvertisement = 136"

definition icmp6_is_supported_type :: "u8 \<Rightarrow> bool" where
  "icmp6_is_supported_type v \<longleftrightarrow> v \<in> {1, 2, 3, 4, 128, 129, 135, 136}"

text \<open>The cast of a supported raw byte to the enumeration.\<close>

definition icmp6_type_of :: "u8 \<Rightarrow> icmp6_type" where
  "icmp6_type_of v =
     (if v = 1 then Icmp6_DestinationUnreachable else if v = 2 then Icmp6_PacketTooBig
      else if v = 3 then Icmp6_TimeExceeded else if v = 4 then Icmp6_ParameterProblem
      else if v = 128 then Icmp6_EchoRequest else if v = 129 then Icmp6_EchoReply
      else if v = 135 then Icmp6_NeighborSolicitation else Icmp6_NeighborAdvertisement)"

record neighbor_option =
  nd_type :: u8
  nd_mac :: bytes

record icmp6 =
  icmp6_type :: icmp6_type
  icmp6_code :: u8
  icmp6_checksum :: u16
  icmp6_rest_word :: u32
  icmp6_payload :: bytes

definition new_icmp6 :: "icmp6_type \<Rightarrow> icmp6" where
  "new_icmp6 t = \<lparr>icmp6_type = t, icmp6_code = 0, icmp6_checksum = 0, icmp6_rest_word = 0,
     icmp6_payload = []\<rparr>"

definition icmp6_identifier :: "icmp6 \<Rightarrow> u16" where
  "icmp6_identifier m = ucast (drop_bit 16 (icmp6_rest_word m))"

definition icmp6_sequence :: "icmp6 \<Rightarrow> u16" where
  "icmp6_sequence m = ucast (icmp6_rest_word m AND 0xFFFF)"

definition icmp6_set_identifier :: "u16 \<Rightarrow> icmp6 \<Rightarrow> icmp6" where
  "icmp6_set_identifier v m =
     m\<lparr>icmp6_rest_word := push_bit 16 (ucast v) OR (icmp6_rest_word m AND 0xFFFF)\<rparr>"

definition icmp6_set_sequence :: "u16 \<Rightarrow> icmp6 \<Rightarrow> icmp6" where
  "icmp6_set_sequence v m =
     m\<lparr>icmp6_rest_word := (icmp6_rest_word m AND 0xFFFF0000) OR ucast v\<rparr>"

definition icmp6_serialized_size :: "icmp6 \<Rightarrow> nat" where
  "icmp6_serialized_size m = 8 + length (icmp6_payload m)"

text \<open>The loop of \<open>validate\<close> over the options of a neighbor message, from an offset.\<close>

function nd_options_ok :: "bytes \<Rightarrow> nat \<Rightarrow> bool" where
  "nd_options_ok p off =
     (if off < length p then
        if length p - off < 2 then False
        else let n = unat (p ! (off + 1)) * 8 in
          if n < 8 \<or> n > length p - off then False
          else if (p ! off = 1 \<or> p ! off = 2) \<and> n \<noteq> 8 then False
          else nd_options_ok p (off + n)
      else True)"
  by pat_completeness auto
termination
  by (relation "measure (\<lambda>(p, off). length p - off)") auto

declare nd_options_ok.simps [simp del]

definition icmp6_validate :: "icmp6 \<Rightarrow> bool" where
  "icmp6_validate m =
     (let v = icmp6_type_code (icmp6_type m); p = icmp6_payload m in
      if \<not> icmp6_is_supported_type v \<or> icmp6_serialized_size m > 65535 then False
      else if v \<in> {2, 128, 129, 135, 136} \<and> icmp6_code m \<noteq> 0 then False
      else if v = 135 \<or> v = 136 then
        if length p < 16 \<or> p ! 0 = 0xFF then False
        else if v = 135 \<and> icmp6_rest_word m \<noteq> 0 then False
        else nd_options_ok p 16
      else True)"

definition icmp6_neighbor_target :: "icmp6 \<Rightarrow> bytes option" where
  "icmp6_neighbor_target m =
     (if (icmp6_type m \<noteq> Icmp6_NeighborSolicitation \<and> icmp6_type m \<noteq> Icmp6_NeighborAdvertisement)
        \<or> length (icmp6_payload m) < 16 then None
      else Some (take 16 (icmp6_payload m)))"

text \<open>
  The loop of \<open>neighbor_options\<close> has no check of its own: a zero length byte would keep it at
  the same offset forever, and a missing one would be read beyond the payload. \<open>None\<close> is the
  loop that does not return, \<open>OutOfBounds\<close> the read beyond the end.
\<close>

partial_function (option) nd_options ::
  "bytes \<Rightarrow> nat \<Rightarrow> neighbor_option list \<Rightarrow> neighbor_option list parsed option" where
  "nd_options p off acc =
     (if off < length p then
        if length p \<le> off + 1 then Some OutOfBounds
        else let n = unat (p ! (off + 1)) * 8 in
          if n = 8 \<and> (p ! off = 1 \<or> p ! off = 2) then
            if length p < off + 8 then Some OutOfBounds
            else nd_options p (off + n) (acc @ [\<lparr>nd_type = p ! off, nd_mac = take 6 (drop (off + 2) p)\<rparr>])
          else nd_options p (off + n) acc
      else Some (Parsed acc))"

definition icmp6_neighbor_options :: "icmp6 \<Rightarrow> neighbor_option list parsed option" where
  "icmp6_neighbor_options m =
     (if icmp6_neighbor_target m = None \<or> \<not> icmp6_validate m then Some (Parsed [])
      else nd_options (icmp6_payload m) 16 [])"

definition make_neighbor_solicitation :: "bytes \<Rightarrow> bytes option \<Rightarrow> icmp6 option" where
  "make_neighbor_solicitation target source_mac =
     (if list_all (\<lambda>b. b = 0) target \<or> target ! 0 = 0xFF then None
      else
        let payload = copy_into (replicate 16 0) 0 target @
              (case source_mac of None \<Rightarrow> [] | Some mac \<Rightarrow> [1, 1] @ mac);
            m = (new_icmp6 Icmp6_NeighborSolicitation)\<lparr>icmp6_payload := payload\<rparr>
        in if icmp6_validate m then Some m else None)"

definition make_neighbor_advertisement :: "bytes \<Rightarrow> bytes \<Rightarrow> bool \<Rightarrow> bool \<Rightarrow> icmp6 option" where
  "make_neighbor_advertisement target target_mac solicited override =
     (if list_all (\<lambda>b. b = 0) target \<or> target ! 0 = 0xFF then None
      else
        let flags = (if solicited then 0x40000000 else 0) OR (if override then 0x20000000 else 0);
            payload = copy_into (replicate 16 0) 0 target @ [2, 1] @ target_mac;
            m = (new_icmp6 Icmp6_NeighborAdvertisement)\<lparr>icmp6_rest_word := flags, icmp6_payload := payload\<rparr>
        in if icmp6_validate m then Some m else None)"

definition solicited_node_multicast :: "bytes \<Rightarrow> bytes" where
  "solicited_node_multicast target =
     (replicate 16 0)[0 := 0xFF, 1 := 0x02, 11 := 0x01, 12 := 0xFF, 13 := target ! 13,
       14 := target ! 14, 15 := target ! 15]"

definition ethernet_multicast :: "bytes \<Rightarrow> bytes" where
  "ethernet_multicast multicast =
     [0x33, 0x33, multicast ! 12, multicast ! 13, multicast ! 14, multicast ! 15]"

definition icmp6_serialize :: "icmp6 \<Rightarrow> bytes \<Rightarrow> status_code \<times> bytes" where
  "icmp6_serialize m out =
     (if \<not> icmp6_validate m \<or> length out < icmp6_serialized_size m then (InvalidArgument, out)
      else
        let o1 = out[0 := icmp6_type_code (icmp6_type m)];
            o2 = o1[1 := icmp6_code m];
            o3 = write_u16 o2 2 (icmp6_checksum m);
            o4 = write_u32 o3 4 (icmp6_rest_word m)
        in (Ok, copy_into o4 8 (icmp6_payload m)))"

definition icmp6_serialize_with_checksum ::
  "icmp6 \<Rightarrow> bytes \<Rightarrow> bytes \<Rightarrow> bytes \<Rightarrow> status_code \<times> bytes" where
  "icmp6_serialize_with_checksum m out src dst =
     (let size = icmp6_serialized_size m in
      if \<not> icmp6_validate m \<or> length out < size then (InvalidArgument, out)
      else case icmp6_serialize m (replicate size 0) of
        (st, bs) \<Rightarrow>
          if st \<noteq> Ok then (InvalidArgument, out)
          else let bs0 = write_u16 bs 2 0;
                   bs1 = write_u16 bs0 2 (never_zero (ipv6_pseudo_header src dst 58 bs0))
               in (Ok, copy_into out 0 bs1))"

definition icmp6_parse :: "bytes \<Rightarrow> icmp6 parsed" where
  "icmp6_parse input =
     (if length input < 8 then Rejected
      else rd8 input 0 (\<lambda>raw.
        if \<not> icmp6_is_supported_type raw then Rejected
        else rd8 input 1 (\<lambda>code. read_u16 input 2 (\<lambda>ck. read_u32 input 4 (\<lambda>rw.
          let m = \<lparr>icmp6_type = icmp6_type_of raw, icmp6_code = code, icmp6_checksum = ck,
                icmp6_rest_word = rw, icmp6_payload = drop 8 input\<rparr>
          in if \<not> icmp6_validate m then Rejected else Parsed m)))))"

section \<open>ICMPv6 on the wire\<close>

definition icmp6_wire :: "icmp6 \<Rightarrow> bytes" where
  "icmp6_wire m =
     [icmp6_type_code (icmp6_type m), icmp6_code m] @ u16_bytes (icmp6_checksum m) @
     u32_bytes (icmp6_rest_word m) @ icmp6_payload m"

lemma icmp6_type_of_code [simp]: "icmp6_type_of (icmp6_type_code t) = t"
  by (cases t) (simp_all add: icmp6_type_of_def)

lemma icmp6_type_supported [simp]: "icmp6_is_supported_type (icmp6_type_code t)"
  by (cases t) (simp_all add: icmp6_is_supported_type_def)

lemma length_icmp6_wire: "length (icmp6_wire m) = icmp6_serialized_size m"
  by (simp add: icmp6_wire_def icmp6_serialized_size_def)

lemma icmp6_serialize_wire:
  assumes "icmp6_validate m" and "icmp6_serialized_size m \<le> length out"
  shows "icmp6_serialize m out = (Ok, icmp6_wire m @ drop (icmp6_serialized_size m) out)"
proof -
  have "8 \<le> length out" using assms by (simp add: icmp6_serialized_size_def)
  then obtain a b c d e f g h ys where out: "out = [a, b, c, d, e, f, g, h] @ ys"
    by (rule eight_bytes)
  show ?thesis
    using assms unfolding out
    by (simp add: icmp6_serialize_def Let_def write_u16_def write_u32_def icmp6_wire_def
      icmp6_serialized_size_def copy_into_def drop_numeral_add del: drop_drop)
qed

lemma icmp6_parse_wire:
  assumes "icmp6_validate m"
  shows "icmp6_parse (icmp6_wire m) = Parsed m"
proof -
  have at: "icmp6_wire m ! 0 = icmp6_type_code (icmp6_type m)" "icmp6_wire m ! Suc 0 = icmp6_code m"
    "read_u16 (icmp6_wire m) 2 k = k (icmp6_checksum m)" "drop 8 (icmp6_wire m) = icmp6_payload m"
    "read_u32 (icmp6_wire m) 4 j = j (icmp6_rest_word m)"
    "icmp6_wire m \<noteq> []" "\<not> length (icmp6_wire m) < 8" "Suc 0 < length (icmp6_wire m)"
    for k :: "u16 \<Rightarrow> icmp6 parsed" and j :: "u32 \<Rightarrow> icmp6 parsed"
    by (simp_all add: icmp6_wire_def read_u16_in read_u32_in)
  have same: "\<lparr>icmp6_type = icmp6_type m, icmp6_code = icmp6_code m, icmp6_checksum = icmp6_checksum m,
      icmp6_rest_word = icmp6_rest_word m, icmp6_payload = icmp6_payload m\<rparr> = m"
    by simp
  show ?thesis
    using assms by (simp add: icmp6_parse_def at Let_def same)
qed

lemma icmp6_parse_in_bounds: "icmp6_parse input \<noteq> OutOfBounds"
proof (cases "length input < 8")
  case False
  then have "input \<noteq> []" "8 \<le> length input" by auto
  then show ?thesis by (simp add: icmp6_parse_def read_u16_in read_u32_in Let_def)
qed (simp add: icmp6_parse_def)

interpretation icmp6_codec: wire_codec "\<lambda>m. True" icmp6_validate icmp6_validate
  icmp6_serialized_size icmp6_wire icmp6_serialize "\<lambda>m rest. rest = []" icmp6_parse
proof
  show "\<not> (icmp6_validate m \<and> icmp6_serialized_size m \<le> length out) \<Longrightarrow>
      icmp6_serialize m out = (InvalidArgument, out)" for m out
    by (auto simp: icmp6_serialize_def)
qed (simp_all add: length_icmp6_wire icmp6_serialize_wire icmp6_parse_wire icmp6_parse_in_bounds)

lemma icmp6_wire_checksum: "write_u16 (icmp6_wire m) 2 c = icmp6_wire (m\<lparr>icmp6_checksum := c\<rparr>)"
  by (simp add: icmp6_wire_def write_u16_def)

definition icmp6_checksum_filled :: "bytes \<Rightarrow> bytes \<Rightarrow> icmp6 \<Rightarrow> icmp6" where
  "icmp6_checksum_filled src dst m =
     m\<lparr>icmp6_checksum := never_zero (ipv6_pseudo_header src dst 58 (icmp6_wire (m\<lparr>icmp6_checksum := 0\<rparr>)))\<rparr>"

lemma icmp6_checksummed_wire:
  assumes "icmp6_validate m" and "icmp6_serialized_size m \<le> length out"
  shows "icmp6_serialize_with_checksum m out src dst =
    (Ok, icmp6_wire (icmp6_checksum_filled src dst m) @ drop (icmp6_serialized_size m) out)"
  using assms
  by (simp add: icmp6_serialize_with_checksum_def Let_def icmp6_serialize_wire icmp6_wire_checksum
    icmp6_checksum_filled_def copy_into_def length_icmp6_wire icmp6_serialized_size_def)

lemma icmp6_checksummed_refused:
  "\<not> (icmp6_validate m \<and> icmp6_serialized_size m \<le> length out) \<Longrightarrow>
     icmp6_serialize_with_checksum m out src dst = (InvalidArgument, out)"
  by (auto simp: icmp6_serialize_with_checksum_def Let_def)

lemma icmp6_validate_size: "icmp6_validate m \<Longrightarrow> icmp6_serialized_size m \<le> 65535"
  by (auto simp: icmp6_validate_def Let_def not_less split: if_splits)

lemma icmp6_filled_verifies:
  assumes "icmp6_validate m"
  shows "ipv6_pseudo_header src dst 58 (icmp6_wire (icmp6_checksum_filled src dst m)) = 0"
proof -
  let ?w = "icmp6_wire (m\<lparr>icmp6_checksum := 0\<rparr>)"
  have len: "length ?w = icmp6_serialized_size m" "8 \<le> icmp6_serialized_size m"
    by (simp_all add: length_icmp6_wire icmp6_serialized_size_def)
  have zero: "?w ! 2 = 0" "?w ! (2 + 1) = 0"
    by (simp_all add: icmp6_wire_def)
  have "ipv6_pseudo_header src dst 58 (write_u16 ?w 2 (never_zero (ipv6_pseudo_header src dst 58 ?w))) = 0"
    using len icmp6_validate_size [OF assms] by (intro ip6_pseudo.filled_verifies zero) simp_all
  then show ?thesis by (simp add: icmp6_wire_checksum icmp6_checksum_filled_def)
qed

section \<open>Neighbor discovery\<close>

definition nd_option_wf :: "neighbor_option \<Rightarrow> bool" where
  "nd_option_wf opt \<longleftrightarrow> (nd_type opt = 1 \<or> nd_type opt = 2) \<and> length (nd_mac opt) = 6"

text \<open>After a successful validation the option loop returns, and reads inside the payload.\<close>

lemma nd_options_returns:
  "nd_options_ok p off \<Longrightarrow> list_all nd_option_wf acc \<Longrightarrow>
     \<exists>opts. nd_options p off acc = Some (Parsed opts) \<and> list_all nd_option_wf opts"
proof (induction p off arbitrary: acc rule: nd_options_ok.induct)
  case (1 p off)
  show ?case
  proof (cases "off < length p")
    case False
    with "1.prems" show ?thesis by (simp add: nd_options.simps [of p off acc])
  next
    case True
    let ?n = "unat (p ! (off + 1)) * 8"
    let ?take = "?n = 8 \<and> (p ! off = 1 \<or> p ! off = 2)"
    let ?acc = "if ?take then acc @ [\<lparr>nd_type = p ! off, nd_mac = take 6 (drop (off + 2) p)\<rparr>] else acc"
    from True "1.prems"(1) have two: "off + 1 < length p" and n: "8 \<le> ?n" "?n \<le> length p - off"
      and kind: "\<not> ((p ! off = 1 \<or> p ! off = 2) \<and> ?n \<noteq> 8)"
      and next_ok: "nd_options_ok p (off + ?n)"
      by (auto simp: nd_options_ok.simps [of p off] Let_def not_less split: if_splits)
    have "nd_option_wf \<lparr>nd_type = p ! off, nd_mac = take 6 (drop (off + 2) p)\<rparr>" if ?take
      using that n two by (simp add: nd_option_wf_def)
    then have "list_all nd_option_wf ?acc"
      using "1.prems"(2) by simp
    with "1.IH" [OF True _ refl _ kind next_ok, of ?acc] two n
    have "\<exists>opts. nd_options p (off + ?n) ?acc = Some (Parsed opts) \<and> list_all nd_option_wf opts"
      by simp
    moreover have "nd_options p off acc = nd_options p (off + ?n) ?acc"
    proof (cases ?take)
      case take: True
      with n have "\<not> length p < off + 8" by simp
      then show ?thesis
        using True two take by (subst nd_options.simps [of p off acc]) (simp add: Let_def)
    next
      case False
      then have "?acc = acc" by (simp only: if_False)
      with False show ?thesis
        using True two by (subst nd_options.simps [of p off acc]) (auto simp: Let_def)
    qed
    ultimately show ?thesis by simp
  qed
qed

lemma neighbor_options_return:
  "\<exists>opts. icmp6_neighbor_options m = Some (Parsed opts) \<and> list_all nd_option_wf opts"
proof (cases "icmp6_neighbor_target m = None \<or> \<not> icmp6_validate m")
  case False
  then have "nd_options_ok (icmp6_payload m) 16"
    by (auto simp: icmp6_neighbor_target_def icmp6_validate_def Let_def split: if_splits)
  then show ?thesis
    using False nd_options_returns [of "icmp6_payload m" 16 "[]"]
    by (simp add: icmp6_neighbor_options_def)
qed (simp add: icmp6_neighbor_options_def)

lemma nd_option_block:
  assumes "length mac = 6" and "k = 1 \<or> k = 2" and "length pre = 16"
  shows "nd_options_ok (pre @ [k, 1] @ mac) 16"
    and "nd_options (pre @ [k, 1] @ mac) 16 [] = Some (Parsed [\<lparr>nd_type = k, nd_mac = mac\<rparr>])"
proof -
  let ?p = "pre @ [k, 1] @ mac"
  have at: "?p ! 16 = k" "?p ! (16 + 1) = 1" "length ?p = 24" "drop (16 + 2) ?p = mac"
    using assms by (simp_all add: nth_append)
  have "nd_options_ok ?p 24"
    using at by (subst nd_options_ok.simps) simp
  with assms(2) show "nd_options_ok ?p 16"
    by (subst nd_options_ok.simps) (simp only: at, simp)
  have "nd_options ?p 24 acc = Some (Parsed acc)" for acc
    using at by (subst nd_options.simps) simp
  then show "nd_options ?p 16 [] = Some (Parsed [\<lparr>nd_type = k, nd_mac = mac\<rparr>])"
    using assms by (subst nd_options.simps) (simp only: at, simp)
qed

text \<open>A target that a neighbor message can be made for.\<close>

definition nd_target :: "bytes \<Rightarrow> bool" where
  "nd_target target \<longleftrightarrow> length target = 16 \<and> (\<exists>b\<in>set target. b \<noteq> 0) \<and> target ! 0 \<noteq> 0xFF"

lemma nd_target_copied:
  "length target = 16 \<Longrightarrow> copy_into (replicate 16 0) 0 target = target"
  by (simp add: copy_into_def)

lemma solicitation_options:
  assumes "nd_target target" and "length mac = 6"
    and "make_neighbor_solicitation target (Some mac) = Some m"
  shows "icmp6_validate m \<and> icmp6_neighbor_target m = Some target \<and>
    icmp6_neighbor_options m = Some (Parsed [\<lparr>nd_type = 1, nd_mac = mac\<rparr>])"
proof -
  have t: "length target = 16" using assms(1) by (simp add: nd_target_def)
  let ?m = "(new_icmp6 Icmp6_NeighborSolicitation)\<lparr>icmp6_payload := target @ [1, 1] @ mac\<rparr>"
  have m: "m = ?m" and v: "icmp6_validate m"
    using assms(3) t
    by (simp_all add: make_neighbor_solicitation_def Let_def nd_target_copied split: if_splits)
  have "icmp6_neighbor_target m = Some target"
    using t by (simp add: m icmp6_neighbor_target_def new_icmp6_def)
  moreover have "nd_options (icmp6_payload m) 16 [] = Some (Parsed [\<lparr>nd_type = 1, nd_mac = mac\<rparr>])"
    using nd_option_block(2) [OF assms(2) _ t, of 1] by (simp add: m)
  ultimately show ?thesis using v by (simp add: icmp6_neighbor_options_def)
qed

lemma solicitation_made:
  assumes "nd_target target" and "case mac of None \<Rightarrow> True | Some bs \<Rightarrow> length bs = 6"
  shows "\<exists>m. make_neighbor_solicitation target mac = Some m"
proof -
  have t: "length target = 16" "\<not> list_all (\<lambda>b. b = 0) target" "target ! 0 \<noteq> 0xFF"
    using assms(1) by (auto simp: nd_target_def list_all_iff)
  have end16: "nd_options_ok target 16" using t(1) by (subst nd_options_ok.simps) simp
  show ?thesis
  proof (cases mac)
    case None
    then show ?thesis using t end16
      by (simp add: make_neighbor_solicitation_def Let_def nd_target_copied icmp6_validate_def
        new_icmp6_def icmp6_serialized_size_def icmp6_is_supported_type_def)
  next
    case (Some bs)
    with assms(2) have bs: "length bs = 6" by simp
    have "(target @ [1, 1] @ bs) ! 0 = target ! 0" using t(1) by (simp add: nth_append)
    with Some show ?thesis
      using t bs nd_option_block(1) [OF bs _ t(1), of 1]
      by (simp add: make_neighbor_solicitation_def Let_def nd_target_copied icmp6_validate_def
        new_icmp6_def icmp6_serialized_size_def icmp6_is_supported_type_def)
  qed
qed

lemma advertisement_options:
  assumes "nd_target target" and "length mac = 6"
  shows "\<exists>m. make_neighbor_advertisement target mac s ov = Some m \<and>
    icmp6_neighbor_target m = Some target \<and>
    icmp6_neighbor_options m = Some (Parsed [\<lparr>nd_type = 2, nd_mac = mac\<rparr>])"
proof -
  have t: "length target = 16" "\<not> list_all (\<lambda>b. b = 0) target" "target ! 0 \<noteq> 0xFF"
    using assms(1) by (auto simp: nd_target_def list_all_iff)
  define m where "m = (new_icmp6 Icmp6_NeighborAdvertisement)\<lparr>icmp6_rest_word :=
    (if s then 0x40000000 else 0) OR (if ov then 0x20000000 else 0),
    icmp6_payload := target @ [2, 1] @ mac\<rparr>"
  have "(target @ [2, 1] @ mac) ! 0 = target ! 0" using t(1) by (simp add: nth_append)
  then have v: "icmp6_validate m"
    using t assms(2) nd_option_block(1) [OF assms(2) _ t(1), of 2]
    by (simp add: m_def icmp6_validate_def Let_def new_icmp6_def icmp6_serialized_size_def
      icmp6_is_supported_type_def)
  then have "make_neighbor_advertisement target mac s ov = Some m"
    using t by (simp add: make_neighbor_advertisement_def Let_def nd_target_copied m_def)
  moreover have "icmp6_neighbor_target m = Some target"
    using t by (simp add: m_def icmp6_neighbor_target_def new_icmp6_def)
  moreover have "nd_options (icmp6_payload m) 16 [] = Some (Parsed [\<lparr>nd_type = 2, nd_mac = mac\<rparr>])"
    using nd_option_block(2) [OF assms(2) _ t(1), of 2] by (simp add: m_def)
  ultimately show ?thesis using v by (simp add: icmp6_neighbor_options_def)
qed

section \<open>Properties\<close>

text \<open>
  The neighbor option loop, which has no bound of its own, returns for every
  message and reads only inside the payload, and every option it reports is a source or target
  link-layer address of six bytes.
\<close>

theorem neighbor_options_safe:
  "\<exists>opts. icmp6_neighbor_options m = Some (Parsed opts) \<and> list_all nd_option_wf opts"
  by (rule neighbor_options_return)

text \<open>
  A neighbor solicitation made for a unicast target with a source address is a
  valid message from which the target and that address are read back.
\<close>

theorem solicitation_round_trip:
  assumes "nd_target target" and "length mac = 6"
  shows "\<exists>m. make_neighbor_solicitation target (Some mac) = Some m \<and>
    icmp6_parse (icmp6_wire m) = Parsed m \<and> icmp6_neighbor_target m = Some target \<and>
    icmp6_neighbor_options m = Some (Parsed [\<lparr>nd_type = 1, nd_mac = mac\<rparr>])"
proof -
  obtain m where m: "make_neighbor_solicitation target (Some mac) = Some m"
    using solicitation_made [OF assms(1), of "Some mac"] assms(2) by auto
  show ?thesis
    using solicitation_options [OF assms m] m icmp6_parse_wire [of m] by blast
qed

theorem solicitation_round_trip_witness:
  "\<exists>m. make_neighbor_solicitation (0x20 # replicate 15 1) (Some [1, 2, 3, 4, 5, 6]) = Some m \<and>
     icmp6_parse (icmp6_wire m) = Parsed m \<and> icmp6_neighbor_target m = Some (0x20 # replicate 15 1) \<and>
     icmp6_neighbor_options m = Some (Parsed [\<lparr>nd_type = 1, nd_mac = [1, 2, 3, 4, 5, 6]\<rparr>])"
  by (rule solicitation_round_trip) (simp_all add: nd_target_def)

end
