(* ===== verification/Packet_Composer.thy ===== *)
theory Packet_Composer
  imports Tcp_Packet Udp_Packet Ip_Packets Icmp_Packets
begin

text \<open>
  The offline packet composer (\<open>include/packet/packet.hpp\<close>, \<open>src/packet/packet.cpp\<close>): the
  layers a packet holds, the setters that keep one network and one transport layer, and the
  serialization that writes each layer into its part of the caller's span. A null pointer is
  \<open>None\<close>; dereferencing a null transport after a successful \<open>validate\<close> cannot happen, and
  the model gives that branch the size 0 and the status \<open>InvalidArgument\<close>.
\<close>

section \<open>Packets\<close>

record packet =
  pkt_ethernet :: "ethernet option"
  pkt_ipv4 :: "ipv4 option"
  pkt_ipv6 :: "ipv6 option"
  pkt_tcp :: "tcp option"
  pkt_udp :: "udp option"
  pkt_icmp :: "icmp option"
  pkt_icmp6 :: "icmp6 option"

definition new_packet :: packet where
  "new_packet = \<lparr>pkt_ethernet = None, pkt_ipv4 = None, pkt_ipv6 = None, pkt_tcp = None,
     pkt_udp = None, pkt_icmp = None, pkt_icmp6 = None\<rparr>"

definition set_ethernet :: "ethernet \<Rightarrow> packet \<Rightarrow> packet" where
  "set_ethernet e p = p\<lparr>pkt_ethernet := Some e\<rparr>"

definition set_ipv4 :: "ipv4 \<Rightarrow> packet \<Rightarrow> packet" where
  "set_ipv4 ip p = p\<lparr>pkt_ipv4 := Some ip, pkt_ipv6 := None\<rparr>"

definition set_ipv6 :: "ipv6 \<Rightarrow> packet \<Rightarrow> packet" where
  "set_ipv6 ip p = p\<lparr>pkt_ipv6 := Some ip, pkt_ipv4 := None\<rparr>"

definition set_tcp :: "tcp \<Rightarrow> packet \<Rightarrow> packet" where
  "set_tcp t p = p\<lparr>pkt_tcp := Some t, pkt_udp := None, pkt_icmp := None, pkt_icmp6 := None\<rparr>"

definition set_udp :: "udp \<Rightarrow> packet \<Rightarrow> packet" where
  "set_udp u p = p\<lparr>pkt_udp := Some u, pkt_tcp := None, pkt_icmp := None, pkt_icmp6 := None\<rparr>"

definition set_icmp :: "icmp \<Rightarrow> packet \<Rightarrow> packet" where
  "set_icmp m p = p\<lparr>pkt_icmp := Some m, pkt_tcp := None, pkt_udp := None, pkt_icmp6 := None\<rparr>"

definition set_icmp6 :: "icmp6 \<Rightarrow> packet \<Rightarrow> packet" where
  "set_icmp6 m p = p\<lparr>pkt_icmp6 := Some m, pkt_tcp := None, pkt_udp := None, pkt_icmp := None\<rparr>"

definition packet_network_size :: "packet \<Rightarrow> nat" where
  "packet_network_size p =
     (case pkt_ipv4 p of Some ip \<Rightarrow> ip4_serialized_size ip
      | None \<Rightarrow> (case pkt_ipv6 p of Some ip \<Rightarrow> ip6_serialized_size ip | None \<Rightarrow> 0))"

definition packet_transport_size :: "packet \<Rightarrow> nat" where
  "packet_transport_size p =
     (case pkt_tcp p of Some t \<Rightarrow> tcp_serialized_size t
      | None \<Rightarrow> (case pkt_udp p of Some u \<Rightarrow> udp_serialized_size u
      | None \<Rightarrow> (case pkt_icmp p of Some m \<Rightarrow> icmp_serialized_size m
      | None \<Rightarrow> (case pkt_icmp6 p of Some m \<Rightarrow> icmp6_serialized_size m | None \<Rightarrow> 0))))"

definition packet_link_size :: "packet \<Rightarrow> nat" where
  "packet_link_size p = (case pkt_ethernet p of Some e \<Rightarrow> eth_serialized_size e | None \<Rightarrow> 0)"

definition packet_serialized_size :: "packet \<Rightarrow> nat" where
  "packet_serialized_size p = packet_link_size p + packet_network_size p + packet_transport_size p"

definition packet_validate :: "packet \<Rightarrow> bool" where
  "packet_validate p =
     (let has4 = pkt_ipv4 p \<noteq> None; has6 = pkt_ipv6 p \<noteq> None;
          transport = pkt_tcp p \<noteq> None \<or> pkt_udp p \<noteq> None \<or> pkt_icmp p \<noteq> None \<or> pkt_icmp6 p \<noteq> None;
          proto4 = (\<lambda>n. case pkt_ipv4 p of Some ip \<Rightarrow> ip4_protocol ip = n | None \<Rightarrow> False);
          proto6 = (\<lambda>n. case pkt_ipv6 p of Some ip \<Rightarrow> ip6_next_header ip = n | None \<Rightarrow> False)
      in if has4 = has6 \<or> \<not> transport then False
         else if (case pkt_ethernet p of Some e \<Rightarrow> \<not> eth_validate e | None \<Rightarrow> False) then False
         else if (case pkt_ipv4 p of Some ip \<Rightarrow> \<not> ip4_validate ip | None \<Rightarrow> False) then False
         else if (case pkt_ipv6 p of Some ip \<Rightarrow> \<not> ip6_validate ip | None \<Rightarrow> False) then False
         else case pkt_tcp p of Some t \<Rightarrow> tcp_validate t \<and> (proto4 6 \<or> proto6 6)
         | None \<Rightarrow> (case pkt_udp p of Some u \<Rightarrow> udp_validate u \<and> (proto4 17 \<or> proto6 17)
         | None \<Rightarrow> (case pkt_icmp p of Some m \<Rightarrow> icmp_validate m \<and> has4 \<and> proto4 1
         | None \<Rightarrow> (case pkt_icmp6 p of Some m \<Rightarrow> icmp6_validate m \<and> has6 \<and> proto6 58
         | None \<Rightarrow> False))))"

section \<open>Serialization\<close>

text \<open>\<open>output.subspan(offset, n)\<close>: a serializer works on a part of the span.\<close>

definition on_span ::
  "bytes \<Rightarrow> nat \<Rightarrow> nat \<Rightarrow> (bytes \<Rightarrow> status_code \<times> bytes) \<Rightarrow> status_code \<times> bytes" where
  "on_span out off n f =
     (case f (take n (drop off out)) of (st, bs) \<Rightarrow> (st, take off out @ bs @ drop (off + n) out))"

definition serialize_link :: "packet \<Rightarrow> bytes \<Rightarrow> status_code \<times> bytes" where
  "serialize_link p out =
     (case pkt_ethernet p of
        Some e \<Rightarrow> on_span out 0 (eth_serialized_size e) (eth_serialize e)
      | None \<Rightarrow> (Ok, out))"

definition composed_ipv4 :: "packet \<Rightarrow> ipv4 \<Rightarrow> ipv4" where
  "composed_ipv4 p ip =
     ip\<lparr>ip4_total_length := of_nat (ip4_serialized_size ip + packet_transport_size p)\<rparr>"

definition composed_ipv6 :: "packet \<Rightarrow> ipv6 \<Rightarrow> ipv6" where
  "composed_ipv6 p ip = ip\<lparr>ip6_payload_length := of_nat (packet_transport_size p)\<rparr>"

definition serialize_network :: "packet \<Rightarrow> nat \<Rightarrow> bytes \<Rightarrow> status_code \<times> bytes" where
  "serialize_network p off out =
     (case pkt_ipv4 p of
        Some ip \<Rightarrow> let c = composed_ipv4 p ip in on_span out off (ip4_serialized_size c) (ip4_serialize c)
      | None \<Rightarrow> (case pkt_ipv6 p of
        Some ip \<Rightarrow> let c = composed_ipv6 p ip in on_span out off (ip6_serialized_size c) (ip6_serialize c)
      | None \<Rightarrow> (InvalidArgument, out)))"

definition serialize_transport :: "packet \<Rightarrow> nat \<Rightarrow> bytes \<Rightarrow> status_code \<times> bytes" where
  "serialize_transport p off out =
     (case (pkt_tcp p, pkt_udp p, pkt_icmp p, pkt_icmp6 p, pkt_ipv4 p, pkt_ipv6 p) of
        (Some t, _, _, _, Some ip, _) \<Rightarrow>
          on_span out off (tcp_serialized_size t) (\<lambda>d.
            tcp_serialize_with_checksum4 t d (ip4_source_address ip) (ip4_destination_address ip) [])
      | (Some t, _, _, _, None, Some ip) \<Rightarrow>
          on_span out off (tcp_serialized_size t) (\<lambda>d.
            tcp_serialize_with_checksum6 t d (ip6_source_address ip) (ip6_destination_address ip) [])
      | (None, Some u, _, _, Some ip, _) \<Rightarrow>
          on_span out off (udp_serialized_size u) (\<lambda>d.
            udp_serialize_with_checksum4 u d (ip4_source_address ip) (ip4_destination_address ip))
      | (None, Some u, _, _, None, Some ip) \<Rightarrow>
          on_span out off (udp_serialized_size u) (\<lambda>d.
            udp_serialize_with_checksum6 u d (ip6_source_address ip) (ip6_destination_address ip))
      | (None, None, Some m, _, _, _) \<Rightarrow>
          on_span out off (icmp_serialized_size m) (icmp_serialize m)
      | (None, None, None, Some m, _, Some ip) \<Rightarrow>
          on_span out off (icmp6_serialized_size m) (\<lambda>d.
            icmp6_serialize_with_checksum m d (ip6_source_address ip) (ip6_destination_address ip))
      | _ \<Rightarrow> (InvalidArgument, out))"

definition packet_serialize :: "packet \<Rightarrow> bytes \<Rightarrow> status_code \<times> bytes" where
  "packet_serialize p out =
     (if \<not> packet_validate p \<or> length out < packet_serialized_size p then (InvalidArgument, out)
      else case serialize_link p out of (s1, o1) \<Rightarrow>
        if s1 \<noteq> Ok then (InvalidArgument, o1)
        else case serialize_network p (packet_link_size p) o1 of (s2, o2) \<Rightarrow>
          if s2 \<noteq> Ok then (InvalidArgument, o2)
          else case serialize_transport p (packet_link_size p + packet_network_size p) o2 of (s3, o3) \<Rightarrow>
            if s3 \<noteq> Ok then (InvalidArgument, o3) else (Ok, o3))"

definition packet_bytes :: "packet \<Rightarrow> bytes" where
  "packet_bytes p = element_bytes packet_serialize packet_serialized_size p"

section \<open>The wire format of a packet\<close>

definition packet_wf :: "packet \<Rightarrow> bool" where
  "packet_wf p \<longleftrightarrow>
     (case pkt_ethernet p of Some e \<Rightarrow> eth_wf e | None \<Rightarrow> True) \<and>
     (case pkt_ipv6 p of Some ip \<Rightarrow> ip6_wf ip | None \<Rightarrow> True)"

definition link_wire :: "packet \<Rightarrow> bytes" where
  "link_wire p = (case pkt_ethernet p of Some e \<Rightarrow> eth_wire e | None \<Rightarrow> [])"

definition network_wire :: "packet \<Rightarrow> bytes" where
  "network_wire p =
     (case pkt_ipv4 p of Some ip \<Rightarrow> ip4_wire (composed_ipv4 p ip)
      | None \<Rightarrow> (case pkt_ipv6 p of Some ip \<Rightarrow> ip6_wire (composed_ipv6 p ip) | None \<Rightarrow> []))"

definition packet_pseudo :: "packet \<Rightarrow> u8 \<Rightarrow> bytes \<Rightarrow> u16" where
  "packet_pseudo p protocol =
     (case pkt_ipv4 p of
        Some ip \<Rightarrow> ipv4_pseudo_header (ip4_source_address ip) (ip4_destination_address ip) protocol
      | None \<Rightarrow> (case pkt_ipv6 p of
          Some ip \<Rightarrow> ipv6_pseudo_header (ip6_source_address ip) (ip6_destination_address ip) protocol
        | None \<Rightarrow> (\<lambda>_. 0)))"

definition transport_wire :: "packet \<Rightarrow> bytes" where
  "transport_wire p =
     (case pkt_tcp p of Some t \<Rightarrow> tcp_wire (tcp_checksum_filled (packet_pseudo p 6) t)
      | None \<Rightarrow> (case pkt_udp p of Some u \<Rightarrow> udp_wire (udp_checksum_filled (packet_pseudo p 17) u)
      | None \<Rightarrow> (case pkt_icmp p of Some m \<Rightarrow> icmp_wire m
      | None \<Rightarrow> (case (pkt_icmp6 p, pkt_ipv6 p) of
          (Some m, Some ip) \<Rightarrow>
            icmp6_wire (icmp6_checksum_filled (ip6_source_address ip) (ip6_destination_address ip) m)
        | _ \<Rightarrow> []))))"

definition packet_wire :: "packet \<Rightarrow> bytes" where
  "packet_wire p = link_wire p @ network_wire p @ transport_wire p"

text \<open>A network layer can carry the transport: the 16-bit length fields hold the sizes.\<close>

definition packet_length_fits :: "packet \<Rightarrow> bool" where
  "packet_length_fits p \<longleftrightarrow> (pkt_ipv4 p \<noteq> None \<longrightarrow> 20 + packet_transport_size p \<le> 65535)"

lemma on_span_writes:
  assumes "f (take n (drop off out)) = (st, bs)" and "off + n \<le> length out"
  shows "on_span out off n f = (st, take off out @ bs @ drop (off + n) out)"
  using assms by (simp add: on_span_def)

text \<open>A serializer that fills its part of the span appends to what is already written.\<close>

lemma on_span_extends:
  assumes "length pre = off" and "n \<le> length rest"
    and "f (take n rest) = (Ok, bs @ drop n (take n rest))"
  shows "on_span (pre @ rest) off n f = (Ok, (pre @ bs) @ drop n rest)"
  using assms by (simp add: on_span_def)

lemma link_serialized:
  assumes "packet_validate p" and "packet_wf p" and "packet_link_size p \<le> length out"
  shows "serialize_link p out = (Ok, link_wire p @ drop (packet_link_size p) out) \<and>
    length (link_wire p) = packet_link_size p"
proof (cases "pkt_ethernet p")
  case None
  then show ?thesis by (simp add: serialize_link_def link_wire_def packet_link_size_def)
next
  case (Some e)
  have e: "eth_wf e" "eth_validate e"
    using assms(1,2) Some by (auto simp: packet_validate_def packet_wf_def Let_def split: if_splits)
  have "on_span ([] @ out) 0 14 (eth_serialize e) = (Ok, ([] @ eth_wire e) @ drop 14 out)"
    using assms(3) e Some
    by (intro on_span_extends) (simp_all add: eth_serialize_wire packet_link_size_def eth_serialized_size_def)
  moreover have "length (eth_wire e) = 14" using e(1) by (simp add: eth_wire_def eth_wf_def)
  ultimately show ?thesis
    using Some by (simp add: serialize_link_def link_wire_def packet_link_size_def eth_serialized_size_def)
qed

lemma composed_ipv4_valid:
  assumes "ip4_validate ip"
  shows "ip4_validate (composed_ipv4 p ip) \<longleftrightarrow>
    20 \<le> (of_nat (20 + packet_transport_size p) :: u16)"
  using assms ip4_size_valid [OF assms]
  by (simp add: ip4_validate_def composed_ipv4_def ip4_serialized_size_def)

lemma transport_size_bound: "packet_validate p \<Longrightarrow> packet_transport_size p \<le> 65535"
  using tcp_validate_size icmp6_validate_size
  by (auto simp: packet_validate_def Let_def packet_transport_size_def udp_validate_def
    icmp_validate_def split: if_splits option.splits)

lemma network_of_valid:
  assumes "packet_validate p"
  obtains (ip4) ip where "pkt_ipv4 p = Some ip" "pkt_ipv6 p = None" "ip4_validate ip"
    | (ip6) ip where "pkt_ipv4 p = None" "pkt_ipv6 p = Some ip" "ip6_validate ip"
  using assms that
  by (cases "pkt_ipv4 p"; cases "pkt_ipv6 p") (auto simp: packet_validate_def Let_def split: if_splits)

lemma network_serialized:
  assumes "packet_validate p" and "packet_wf p" and "packet_length_fits p"
    and "length pre = off" and "packet_network_size p \<le> length rest"
  shows "serialize_network p off (pre @ rest) =
      (Ok, (pre @ network_wire p) @ drop (packet_network_size p) rest) \<and>
    length (network_wire p) = packet_network_size p"
  using assms(1)
proof (cases rule: network_of_valid)
  case (ip4 ip)
  let ?c = "composed_ipv4 p ip"
  have fits: "20 + packet_transport_size p \<le> 65535"
    using assms(3) ip4(1) by (simp add: packet_length_fits_def)
  then have "unat (of_nat (20 + packet_transport_size p) :: u16) = 20 + packet_transport_size p"
    by (rule unat_of_nat_u16)
  then have v: "ip4_validate ?c"
    using ip4(3) by (simp add: composed_ipv4_valid word_le_nat_alt)
  have size: "ip4_serialized_size ?c = 20" "packet_network_size p = 20"
    using v ip4 by (simp_all add: ip4_size_valid packet_network_size_def)
  have "on_span (pre @ rest) off 20 (ip4_serialize ?c) = (Ok, (pre @ ip4_wire ?c) @ drop 20 rest)"
    using assms(4,5) v size by (intro on_span_extends) (simp_all add: ip4_serialize_wire)
  then show ?thesis
    using ip4 size by (simp add: serialize_network_def network_wire_def Let_def ip4_wire_def)
next
  case (ip6 ip)
  let ?c = "composed_ipv6 p ip"
  have v: "ip6_valid ?c"
    using assms(2) ip6 by (simp add: packet_wf_def ip6_valid_def ip6_validate_def ip6_wf_def composed_ipv6_def)
  have "length (ip6_wire ?c) = 40" using v by (simp add: length_ip6_wire ip6_valid_def)
  moreover have "on_span (pre @ rest) off 40 (ip6_serialize ?c) = (Ok, (pre @ ip6_wire ?c) @ drop 40 rest)"
    using assms(4,5) ip6 v
    by (intro on_span_extends) (simp_all add: ip6_serialize_wire ip6_serialized_size_def packet_network_size_def)
  ultimately show ?thesis
    using ip6 by (simp add: serialize_network_def network_wire_def Let_def ip6_serialized_size_def
      packet_network_size_def)
qed

text \<open>The transport layer of a valid packet, by the pointer that is set.\<close>

lemma transport_of_valid:
  assumes "packet_validate p"
  obtains (tcp) t where "pkt_tcp p = Some t" "tcp_validate t"
    | (udp) u where "pkt_tcp p = None" "pkt_udp p = Some u" "udp_validate u"
    | (icmp) m where "pkt_tcp p = None" "pkt_udp p = None" "pkt_icmp p = Some m" "icmp_validate m"
    | (icmp6) m ip where "pkt_tcp p = None" "pkt_udp p = None" "pkt_icmp p = None" "pkt_icmp6 p = Some m"
        "icmp6_validate m" "pkt_ipv4 p = None" "pkt_ipv6 p = Some ip"
proof (cases "pkt_tcp p")
  case (Some t)
  then show ?thesis using assms tcp by (auto simp: packet_validate_def Let_def split: if_splits)
next
  case tcp_none: None
  show ?thesis
  proof (cases "pkt_udp p")
    case (Some u)
    then show ?thesis using assms tcp_none udp by (auto simp: packet_validate_def Let_def split: if_splits)
  next
    case udp_none: None
    show ?thesis
    proof (cases "pkt_icmp p")
      case (Some m)
      then show ?thesis using assms tcp_none udp_none icmp
        by (auto simp: packet_validate_def Let_def split: if_splits)
    next
      case None
      then show ?thesis using assms tcp_none udp_none icmp6
        by (auto simp: packet_validate_def Let_def split: if_splits option.splits)
    qed
  qed
qed

lemma tcp_no_extra_payload [simp]: "tcp_with_payload t [] = t"
  by (simp add: tcp_with_payload_def)

lemma transport_serialized:
  assumes "packet_validate p" and "length pre = off" and "packet_transport_size p \<le> length rest"
  shows "serialize_transport p off (pre @ rest) =
    (Ok, (pre @ transport_wire p) @ drop (packet_transport_size p) rest)"
proof -
  note transport_defs = serialize_transport_def transport_wire_def packet_transport_size_def
  from assms(1) show ?thesis
  proof (cases rule: transport_of_valid)
    case (tcp t)
    then have "on_span (pre @ rest) off (tcp_serialized_size t) (\<lambda>d. tcp_checksummed ps t d []) =
        (Ok, (pre @ tcp_wire (tcp_checksum_filled ps t)) @ drop (tcp_serialized_size t) rest)" for ps
      using assms(2,3)
      by (intro on_span_extends) (simp_all add: tcp_checksummed_wire packet_transport_size_def)
    with assms(1) show ?thesis
      by (cases rule: network_of_valid) (simp_all add: transport_defs tcp packet_pseudo_def
        tcp_serialize_with_checksum4_def tcp_serialize_with_checksum6_def)
  next
    case (udp u)
    then have "on_span (pre @ rest) off (udp_serialized_size u) (\<lambda>d. udp_checksummed ps u d) =
        (Ok, (pre @ udp_wire (udp_checksum_filled ps u)) @ drop (udp_serialized_size u) rest)" for ps
      using assms(2,3)
      by (intro on_span_extends) (simp_all add: udp_checksummed_wire packet_transport_size_def)
    with assms(1) show ?thesis
      by (cases rule: network_of_valid) (simp_all add: transport_defs udp packet_pseudo_def
        udp_serialize_with_checksum4_def udp_serialize_with_checksum6_def)
  next
    case (icmp m)
    have "on_span (pre @ rest) off (icmp_serialized_size m) (icmp_serialize m) =
        (Ok, (pre @ icmp_wire m) @ drop (icmp_serialized_size m) rest)"
      using assms(2,3) icmp
      by (intro on_span_extends) (simp_all add: icmp_serialize_wire packet_transport_size_def)
    with icmp show ?thesis by (simp add: transport_defs)
  next
    case (icmp6 m ip)
    have "on_span (pre @ rest) off (icmp6_serialized_size m) (\<lambda>d. icmp6_serialize_with_checksum m d s ds) =
        (Ok, (pre @ icmp6_wire (icmp6_checksum_filled s ds m)) @ drop (icmp6_serialized_size m) rest)" for s ds
      using assms(2,3) icmp6
      by (intro on_span_extends) (simp_all add: icmp6_checksummed_wire packet_transport_size_def)
    with icmp6 show ?thesis by (simp add: transport_defs)
  qed
qed

lemma packet_serialize_wire:
  assumes "packet_validate p" and "packet_wf p" and "packet_length_fits p"
    and "packet_serialized_size p \<le> length out"
  shows "packet_serialize p out = (Ok, packet_wire p @ drop (packet_serialized_size p) out)"
proof -
  let ?l = "packet_link_size p" and ?n = "packet_network_size p" and ?t = "packet_transport_size p"
  have size: "?l + ?n + ?t \<le> length out" using assms(4) by (simp add: packet_serialized_size_def)
  have link: "serialize_link p out = (Ok, link_wire p @ drop ?l out)" "length (link_wire p) = ?l"
    using link_serialized [OF assms(1,2), of out] size by simp_all
  have net: "serialize_network p ?l (link_wire p @ drop ?l out) =
      (Ok, (link_wire p @ network_wire p) @ drop ?n (drop ?l out))" "length (network_wire p) = ?n"
    using network_serialized [OF assms(1-3) link(2), of "drop ?l out"] size by simp_all
  have transport: "serialize_transport p (?l + ?n) ((link_wire p @ network_wire p) @ drop ?n (drop ?l out)) =
      (Ok, ((link_wire p @ network_wire p) @ transport_wire p) @ drop ?t (drop ?n (drop ?l out)))"
    using size link(2) net(2) by (intro transport_serialized assms(1)) simp_all
  have "\<not> (\<not> packet_validate p \<or> length out < packet_serialized_size p)" using assms(1,4) by simp
  then show ?thesis
    unfolding packet_serialize_def link(1) net(1) transport
    by (simp only: if_False prod.case simp_thms link(1) net(1) transport)
      (simp add: net(1) transport packet_wire_def packet_serialized_size_def ac_simps)
qed

text \<open>
  The total length field is 16 bits wide and the composer casts into it: a transport layer
  that does not fit makes the field wrap to a value below 20, which the header's own
  validation then refuses. No packet with a wrapped length leaves the composer.
\<close>

lemma oversize_wraps_small:
  assumes "65535 < 20 + n" and "n \<le> 65535"
  shows "(of_nat (20 + n) :: u16) < 20"
proof -
  have "unat (of_nat (20 + n) :: u16) = (20 + n) mod 65536"
    by (subst unat_of_nat) simp
  also have "\<dots> = 20 + n - 65536" using assms by (simp add: mod_if)
  finally have "unat (of_nat (20 + n) :: u16) < 20" using assms(2) by simp
  then show ?thesis by (simp add: word_less_nat_alt)
qed

lemma packet_oversize_rejected:
  assumes "packet_wf p" and "\<not> packet_length_fits p"
  shows "fst (packet_serialize p out) = InvalidArgument"
proof (cases "packet_validate p \<and> packet_serialized_size p \<le> length out")
  case False
  then show ?thesis by (auto simp: packet_serialize_def)
next
  case True
  then have v: "packet_validate p" and size: "packet_serialized_size p \<le> length out" by simp_all
  from assms(2) obtain ip where ip: "pkt_ipv4 p = Some ip"
    and big: "65535 < 20 + packet_transport_size p"
    by (auto simp: packet_length_fits_def)
  have link: "serialize_link p out = (Ok, link_wire p @ drop (packet_link_size p) out)"
    using link_serialized [OF v assms(1), of out] size by (simp add: packet_serialized_size_def)
  have "ip4_validate ip"
    using v ip by (cases rule: network_of_valid) simp_all
  then have "\<not> ip4_validate (composed_ipv4 p ip)"
    using oversize_wraps_small [OF big transport_size_bound [OF v]]
    by (simp only: composed_ipv4_valid not_le)
  then have "fst (serialize_network p off o1) = InvalidArgument" for off o1
    by (simp add: serialize_network_def ip Let_def on_span_def ip4_serialize_def)
  then show ?thesis
    using v size by (simp add: packet_serialize_def link split: prod.split)
      (metis fst_conv status_code.distinct(1))
qed

section \<open>Properties\<close>

definition demo_ethernet :: ethernet where
  "demo_ethernet = \<lparr>eth_destination = [1, 2, 3, 4, 5, 6], eth_source = [7, 8, 9, 10, 11, 12],
     eth_ether_type = 0x0800\<rparr>"

definition demo_ipv4 :: ipv4 where
  "demo_ipv4 = new_ipv4\<lparr>ip4_protocol := 6, ip4_source_address := 0x0A000001,
     ip4_destination_address := 0x0A000002\<rparr>"

definition demo_syn :: tcp where
  "demo_syn = tcp_set_options [(plain_option OptMss)\<lparr>opt_value := 1460\<rparr>]
     (new_tcp\<lparr>tcp_source_port := 40000, tcp_destination_port := 443, tcp_flags := 2\<rparr>)"

definition demo_packet :: packet where
  "demo_packet = set_tcp demo_syn (set_ipv4 demo_ipv4 (set_ethernet demo_ethernet new_packet))"

text \<open>
  Property C25. A valid packet whose length fits its network header is serialized as the
  concatenation of its layers with the network length field set and the checksums filled in,
  and the bytes of the span after the packet are kept.
\<close>

theorem packet_serialize_layers:
  assumes "packet_validate p" and "packet_wf p" and "packet_length_fits p"
    and "packet_serialized_size p \<le> length out"
  shows "packet_serialize p out =
    (Ok, link_wire p @ network_wire p @ transport_wire p @ drop (packet_serialized_size p) out)"
  using packet_serialize_wire [OF assms] by (simp add: packet_wire_def)

lemma demo_packet_ok: "packet_validate demo_packet" "packet_wf demo_packet"
    "packet_length_fits demo_packet" "packet_serialized_size demo_packet = 58"
  by (simp_all add: demo_packet_def demo_syn_def demo_ipv4_def demo_ethernet_def set_tcp_def
    set_ipv4_def set_ethernet_def new_packet_def packet_validate_def Let_def eth_validate_def
    ip4_validate_def ip4_serialized_size_def new_ipv4_def tcp_validate_def padded_options_size_def
    tcp_set_options_def new_tcp_def plain_option_def tcp_header_size_def packet_wf_def eth_wf_def
    packet_length_fits_def packet_transport_size_def tcp_serialized_size_def
    packet_serialized_size_def packet_link_size_def packet_network_size_def eth_serialized_size_def)

theorem packet_serialize_layers_witness:
  "packet_serialize demo_packet (replicate 60 7) =
     (Ok, link_wire demo_packet @ network_wire demo_packet @ transport_wire demo_packet @ [7, 7])"
  using packet_serialize_layers [OF demo_packet_ok(1-3), of "replicate 60 7"] demo_packet_ok(4)
  by (simp add: eval_nat_numeral)

text \<open>
  An IPv4 packet whose transport layer does not fit the 16-bit total length is
  refused, although the composer casts the sum into 16 bits: the wrapped value never passes
  the header's validation.
\<close>

theorem packet_never_wraps_length:
  assumes "packet_wf p" and "pkt_ipv4 p = Some ip"
    and "65535 < 20 + packet_transport_size p"
  shows "fst (packet_serialize p out) = InvalidArgument"
  using packet_oversize_rejected [OF assms(1)] assms(2,3) by (simp add: packet_length_fits_def)

definition huge_udp_packet :: packet where
  "huge_udp_packet =
     set_udp \<lparr>udp_source_port = 1, udp_destination_port = 2, udp_checksum = 0, udp_payload = replicate 65520 0\<rparr>
       (set_ipv4 (demo_ipv4\<lparr>ip4_protocol := 17\<rparr>) new_packet)"

theorem packet_never_wraps_length_witness:
  "packet_validate huge_udp_packet \<and>
   fst (packet_serialize huge_udp_packet (replicate 70000 0)) = InvalidArgument"
proof -
  note defs = huge_udp_packet_def set_udp_def set_ipv4_def new_packet_def demo_ipv4_def new_ipv4_def
  have "packet_validate huge_udp_packet"
    by (simp add: defs packet_validate_def Let_def ip4_validate_def ip4_serialized_size_def
      udp_validate_def udp_serialized_size_def)
  moreover have "fst (packet_serialize huge_udp_packet (replicate 70000 0)) = InvalidArgument"
    by (rule packet_never_wraps_length [of _ "demo_ipv4\<lparr>ip4_protocol := 17\<rparr>"])
      (simp_all add: defs packet_wf_def packet_transport_size_def udp_serialized_size_def)
  ultimately show ?thesis by blast
qed

end
