(* ===== verification/Ieee_Float.thy ===== *)
theory Ieee_Float
  imports Complex_Main
begin

text \<open>
  The floating-point arithmetic of the timing components, on exact rationals: a value of type
  \<open>double\<close> or \<open>long double\<close> is the rational it denotes, and every operation of the code is the
  exact operation followed by rounding to nearest, ties to even, with the precision of the
  type (53 bits, and the 64 bits of the x86-64 extended format) and a subnormal range below
  the smallest normal exponent. Values that are not finite are not represented: the profiles
  refuse them, and the one place where the code meets one by overflow (the cast of a timeout
  to \<open>double\<close>) is written out there.
\<close>

section \<open>Rounding\<close>

function log2_floor :: "int \<Rightarrow> nat" where
  "log2_floor n = (if n \<le> 1 then 0 else Suc (log2_floor (n div 2)))"
  by pat_completeness auto
termination
  by (relation "measure nat") auto

declare log2_floor.simps [simp del]

text \<open>The exponent of a positive rational: \<open>2 ^ e \<le> x < 2 ^ (e + 1)\<close>.\<close>

definition exponent :: "rat \<Rightarrow> int" where
  "exponent x =
     (if 1 \<le> x then int (log2_floor \<lfloor>x\<rfloor>)
      else - int (Suc (log2_floor (\<lceil>1 / x\<rceil> - 1))))"

definition round_even :: "rat \<Rightarrow> int" where
  "round_even q =
     (let f = \<lfloor>q\<rfloor>; r = q - of_int f in
      if r < 1 / 2 then f else if 1 / 2 < r then f + 1 else if even f then f else f + 1)"

definition fl :: "nat \<Rightarrow> int \<Rightarrow> rat \<Rightarrow> rat" where
  "fl p emin x =
     (if x = 0 then 0
      else let u = 2 powi (max (exponent \<bar>x\<bar>) emin - int p + 1)
           in of_int (round_even (x / u)) * u)"

definition fl_double :: "rat \<Rightarrow> rat" where
  "fl_double = fl 53 (- 1022)"

definition fl_extended :: "rat \<Rightarrow> rat" where
  "fl_extended = fl 64 (- 16382)"

text \<open>A literal of type \<open>double\<close> with two decimals.\<close>

definition hundredths :: "nat \<Rightarrow> rat" where
  "hundredths n = fl_double (of_nat n / 100)"

text \<open>The cast of a \<open>long double\<close> to \<open>double\<close>; \<open>None\<close> is an infinite result.\<close>

definition to_double :: "rat \<Rightarrow> rat option" where
  "to_double x = (let y = fl_double x in if 2 ^ 1024 \<le> \<bar>y\<bar> then None else Some y)"

section \<open>The exponent\<close>

lemma log2_floor_bounds:
  "0 < n \<Longrightarrow> 2 ^ log2_floor n \<le> n \<and> n < 2 ^ Suc (log2_floor n)"
proof (induction n rule: log2_floor.induct)
  case (1 n)
  show ?case
  proof (cases "n \<le> 1")
    case True
    with 1 show ?thesis by (simp add: log2_floor.simps [of n])
  next
    case False
    then have "0 < n div 2" by simp
    with False 1 have "2 ^ log2_floor (n div 2) \<le> n div 2 \<and> n div 2 < 2 ^ Suc (log2_floor (n div 2))"
      by simp
    then show ?thesis using False by (simp add: log2_floor.simps [of n]) linarith
  qed
qed

lemma exponent_bounds:
  assumes "0 < x"
  shows "2 powi exponent x \<le> x \<and> x < 2 powi (exponent x + 1)"
proof (cases "1 \<le> x")
  case True
  let ?n = "\<lfloor>x\<rfloor>"
  have n: "0 < ?n" using True by simp
  have b: "2 ^ log2_floor ?n \<le> ?n" "?n + 1 \<le> 2 ^ Suc (log2_floor ?n)"
    using log2_floor_bounds [OF n] by simp_all
  have "(2 :: rat) ^ log2_floor ?n \<le> of_int ?n"
    using b(1) by (metis of_int_le_iff of_int_numeral of_int_power)
  also have "\<dots> \<le> x" by simp
  finally have lower: "2 ^ log2_floor ?n \<le> x" .
  have "x < of_int \<lfloor>x\<rfloor> + 1" by linarith
  also have "\<dots> = of_int (?n + 1)" by simp
  also have "\<dots> \<le> (2 :: rat) ^ Suc (log2_floor ?n)"
    using b(2) by (metis of_int_le_iff of_int_numeral of_int_power)
  finally have upper: "x < 2 ^ Suc (log2_floor ?n)" .
  have "2 powi (int (log2_floor ?n) + 1) = (2 :: rat) ^ Suc (log2_floor ?n)"
    by (simp add: power_int_add)
  with lower upper show ?thesis using True by (simp add: exponent_def)
next
  case False
  let ?c = "\<lceil>1 / x\<rceil>"
  let ?n = "?c - 1"
  let ?k = "Suc (log2_floor ?n)"
  have "1 < 1 / x" using False assms by simp
  then have "1 < ?c" by (simp only: less_ceiling_iff of_int_1)
  then have n: "0 < ?n" by linarith
  have b: "2 ^ log2_floor ?n \<le> ?n" "?c \<le> 2 ^ ?k"
    using log2_floor_bounds [OF n] by simp_all
  have "1 / x \<le> of_int ?c" by linarith
  also have "\<dots> \<le> (2 :: rat) ^ ?k"
    using b(2) by (metis of_int_le_iff of_int_numeral of_int_power)
  finally have upper: "1 / 2 ^ ?k \<le> x"
    using assms by (simp add: field_simps)
  have "(2 :: rat) ^ log2_floor ?n \<le> of_int ?n"
    using b(1) by (metis of_int_le_iff of_int_numeral of_int_power)
  also have "\<dots> < 1 / x" by linarith
  finally have lower: "x < 1 / 2 ^ log2_floor ?n"
    using assms by (simp add: field_simps)
  have "2 powi (- int ?k) = 1 / (2 :: rat) ^ ?k"
    by (simp add: power_int_minus divide_inverse del: of_nat_Suc power_Suc)
  moreover have "- int ?k + 1 = - int (log2_floor ?n)" by simp
  then have "2 powi (- int ?k + 1) = 1 / (2 :: rat) ^ log2_floor ?n"
    by (simp only: power_int_minus power_int_of_nat divide_inverse mult_1)
  ultimately show ?thesis
    using upper lower False by (simp only: exponent_def if_False)
qed

lemma powi2_mono: "a \<le> b \<Longrightarrow> 2 powi a \<le> (2 :: rat) powi b"
  by (rule power_int_increasing) simp_all

lemma powi2_pos [simp]: "0 < (2 :: rat) powi a"
  by simp

lemma powi2_less_cancel: "2 powi a < (2 :: rat) powi b \<Longrightarrow> a < b"
  using powi2_mono [of b a] by linarith

lemma exponent_mono: "0 < x \<Longrightarrow> x \<le> y \<Longrightarrow> exponent x \<le> exponent y"
  using exponent_bounds [of x] exponent_bounds [of y] powi2_less_cancel [of "exponent x" "exponent y + 1"]
  by (simp add: less_le_trans order_le_less_trans)

section \<open>Rounding to an integer\<close>

lemma round_even_of_int [simp]: "round_even (of_int n) = n"
  by (simp add: round_even_def)

lemma round_even_bounds: "\<lfloor>q\<rfloor> \<le> round_even q" "round_even q \<le> \<lfloor>q\<rfloor> + 1"
  by (simp_all add: round_even_def Let_def)

lemma round_even_mono: "q \<le> q' \<Longrightarrow> round_even q \<le> round_even q'"
proof (cases "\<lfloor>q\<rfloor> = \<lfloor>q'\<rfloor>")
  case True
  assume "q \<le> q'"
  with True show ?thesis by (auto simp: round_even_def Let_def)
next
  case False
  assume "q \<le> q'"
  then have "\<lfloor>q\<rfloor> + 1 \<le> \<lfloor>q'\<rfloor>" using False floor_mono [of q q'] by linarith
  then show ?thesis using round_even_bounds [of q] round_even_bounds [of q'] by linarith
qed

lemma round_even_minus: "round_even (- q) = - round_even q"
proof (cases "q = of_int \<lfloor>q\<rfloor>")
  case True
  then show ?thesis by (metis of_int_minus round_even_of_int)
next
  case False
  have f: "\<lfloor>- q\<rfloor> = - \<lfloor>q\<rfloor> - 1"
  proof -
    have "of_int \<lfloor>q\<rfloor> < q" using False of_int_floor_le [of q] by linarith
    then show ?thesis by (simp add: floor_eq_iff) linarith
  qed
  show ?thesis by (auto simp: round_even_def Let_def f field_simps)
qed

section \<open>Rounding to a format\<close>

locale float_format =
  fixes p :: nat and emin :: int
  assumes precision: "1 \<le> p" and small_exponent: "emin \<le> 0"
begin

lemma fl_zero: "fl p emin 0 = 0"
  by (simp add: fl_def)

lemma fl_minus: "fl p emin (- x) = - fl p emin x"
  by (simp add: fl_def Let_def round_even_minus)

lemma fl_upper:
  assumes "0 < x" and "x \<le> 2 powi (max (exponent x) emin + 1)"
  shows "fl p emin x \<le> 2 powi (max (exponent x) emin + 1)"
proof -
  let ?e = "max (exponent x) emin"
  let ?u = "(2 :: rat) powi (?e - int p + 1)"
  have split: "2 powi (?e + 1) = of_int (2 ^ p) * ?u"
    by (simp add: power_int_add [symmetric] flip: power_int_of_nat)
  then have "x / ?u \<le> of_int (2 ^ p)"
    using assms(2) by (simp add: pos_divide_le_eq)
  then have "round_even (x / ?u) \<le> 2 ^ p"
    using round_even_mono round_even_of_int by metis
  then have "of_int (round_even (x / ?u)) * ?u \<le> of_int (2 ^ p) * ?u"
    by (intro mult_right_mono) (simp_all only: of_int_le_iff order.strict_implies_order [OF powi2_pos])
  then show ?thesis using assms(1) split by (simp add: fl_def Let_def)
qed

lemma fl_lower:
  assumes "0 < x" and "2 powi max (exponent x) emin \<le> x"
  shows "2 powi max (exponent x) emin \<le> fl p emin x"
proof -
  let ?e = "max (exponent x) emin"
  let ?u = "(2 :: rat) powi (?e - int p + 1)"
  have "int (p - 1) + (?e - int p + 1) = ?e" using precision by simp
  then have split: "2 powi ?e = of_int (2 ^ (p - 1)) * ?u"
    by (simp add: power_int_add [symmetric] flip: power_int_of_nat)
  then have "of_int (2 ^ (p - 1)) \<le> x / ?u"
    using assms(2) by (simp add: pos_le_divide_eq)
  then have "2 ^ (p - 1) \<le> round_even (x / ?u)"
    using round_even_mono round_even_of_int by metis
  then have "of_int (2 ^ (p - 1)) * ?u \<le> of_int (round_even (x / ?u)) * ?u"
    by (intro mult_right_mono) (simp_all only: of_int_le_iff order.strict_implies_order [OF powi2_pos])
  then show ?thesis using assms(1) split by (simp add: fl_def Let_def)
qed

lemma fl_nonneg:
  assumes "0 \<le> x"
  shows "0 \<le> fl p emin x"
proof (cases "x = 0")
  case False
  let ?u = "(2 :: rat) powi (max (exponent x) emin - int p + 1)"
  have "round_even 0 \<le> round_even (x / ?u)"
    using assms by (intro round_even_mono divide_nonneg_pos) simp_all
  moreover have "round_even 0 = 0" using round_even_of_int [of 0] by simp
  ultimately show ?thesis using assms False by (simp add: fl_def Let_def)
qed (simp add: fl_zero)

lemma fl_mono_pos:
  assumes "0 < x" and "x \<le> y"
  shows "fl p emin x \<le> fl p emin y"
proof -
  let ?ex = "max (exponent x) emin" and ?ey = "max (exponent y) emin"
  have y: "0 < y" using assms by simp
  have le: "?ex \<le> ?ey" using exponent_mono [OF assms] by simp
  show ?thesis
  proof (cases "?ex = ?ey")
    case True
    let ?u = "(2 :: rat) powi (?ey - int p + 1)"
    have "round_even (x / ?u) \<le> round_even (y / ?u)"
      using assms(2) by (intro round_even_mono divide_right_mono) simp_all
    then show ?thesis using assms y True by (simp add: fl_def Let_def)
  next
    case False
    then have less: "?ex + 1 \<le> ?ey" and eq: "?ey = exponent y" using le by auto
    have "x < 2 powi (exponent x + 1)" using exponent_bounds [OF assms(1)] by simp
    also have "\<dots> \<le> 2 powi (?ex + 1)" by (rule powi2_mono) simp
    finally have "fl p emin x \<le> 2 powi (?ex + 1)"
      using assms(1) by (intro fl_upper) simp_all
    also have "\<dots> \<le> 2 powi ?ey" by (rule powi2_mono [OF less])
    also have "\<dots> \<le> fl p emin y"
      using exponent_bounds [OF y] eq by (intro fl_lower y) simp
    finally show ?thesis .
  qed
qed

lemma fl_mono: "x \<le> y \<Longrightarrow> fl p emin x \<le> fl p emin y"
proof -
  assume le: "x \<le> y"
  consider "0 < x" | "x \<le> 0 \<and> 0 \<le> y" | "y < 0" by linarith
  then show ?thesis
  proof cases
    case 1
    then show ?thesis using le by (rule fl_mono_pos)
  next
    case 2
    then show ?thesis using fl_nonneg [of y] fl_nonneg [of "- x"] by (simp add: fl_minus)
  next
    case 3
    then show ?thesis using le fl_mono_pos [of "- y" "- x"] by (simp add: fl_minus)
  qed
qed

text \<open>Dyadic rationals with at most \<open>p\<close> significant bits are exact.\<close>

lemma fl_dyadic_pos:
  assumes "0 < n" and "n < 2 ^ p" and "emin - int p + 1 \<le> - int j"
  shows "fl p emin (of_int n / 2 ^ j) = of_int n / 2 ^ j"
proof -
  let ?x = "of_int n / 2 ^ j :: rat"
  let ?e = "max (exponent ?x) emin"
  have x: "0 < ?x" using assms(1) by simp
  have pow: "2 powi (- int j) = 1 / (2 :: rat) ^ j" by (simp add: power_int_minus divide_inverse)
  have "2 powi exponent ?x \<le> ?x" using exponent_bounds [OF x] by simp
  also have "?x < of_int (2 ^ p) / 2 ^ j"
    using assms(2) by (intro divide_strict_right_mono) (simp_all only: of_int_less_iff zero_less_power zero_less_numeral)
  also have "of_int (2 ^ p) / 2 ^ j = (2 :: rat) powi (int p - int j)"
    by (simp add: power_int_diff)
  finally have "exponent ?x < int p - int j" by (rule powi2_less_cancel)
  then have "0 \<le> int p - 1 - int j - ?e" using assms(3) by simp
  then obtain k where k: "int p - 1 - int j - ?e = int k" by (metis nonneg_int_cases)
  have u: "?e - int p + 1 = - int j - int k" using k by simp
  have "2 powi (- int j - int k) = 1 / ((2 :: rat) ^ j * 2 ^ k)"
    by (simp add: power_int_diff pow)
  then have q: "?x / 2 powi (- int j - int k) = of_int (n * 2 ^ k)"
    "2 powi (- int j - int k) = 1 / ((2 :: rat) ^ j * 2 ^ k)" by simp_all
  have "round_even (?x / 2 powi (- int j - int k)) = n * 2 ^ k" by (simp only: q(1) round_even_of_int)
  then have "fl p emin ?x = of_int (n * 2 ^ k) * 2 powi (- int j - int k)"
    using assms(1) unfolding fl_def Let_def by (simp add: u)
  then show ?thesis by (simp add: q(2))
qed

lemma fl_int_pos: "0 < n \<Longrightarrow> n < 2 ^ p \<Longrightarrow> fl p emin (of_int n) = of_int n"
  using fl_dyadic_pos [of n 0] small_exponent precision by simp

lemma fl_of_int: "\<bar>n\<bar> < 2 ^ p \<Longrightarrow> fl p emin (of_int n) = of_int n"
  using fl_int_pos [of n] fl_int_pos [of "- n"] fl_minus [of "of_int n"]
  by (cases "n = 0"; cases "0 < n") (auto simp: fl_zero)

lemma fl_one: "fl p emin 1 = 1"
proof -
  have "(1 :: int) < 2 ^ p" using precision by (simp add: one_less_power)
  then show ?thesis using fl_int_pos [of 1] by simp
qed

lemma fl_between: "of_int a \<le> x \<Longrightarrow> x \<le> of_int b \<Longrightarrow> \<bar>a\<bar> < 2 ^ p \<Longrightarrow> \<bar>b\<bar> < 2 ^ p \<Longrightarrow>
  of_int a \<le> fl p emin x \<and> fl p emin x \<le> of_int b"
  using fl_mono [of "of_int a" x] fl_mono [of x "of_int b"] by (simp add: fl_of_int)

lemma round_exact: "x / 2 powi (max (exponent \<bar>x\<bar>) emin - int p + 1) = of_int n \<Longrightarrow> fl p emin x = x"
proof -
  let ?u = "2 powi (max (exponent \<bar>x\<bar>) emin - int p + 1) :: rat"
  assume n: "x / ?u = of_int n"
  have "?u \<noteq> 0" by simp
  then have "of_int n * ?u = x" using n by (simp add: field_simps)
  then show ?thesis using n unfolding fl_def Let_def by simp
qed

lemma fl_scaled_pos:
  assumes "0 < r" and "r \<le> 2 ^ p" and "emin \<le> e"
  shows "fl p emin (of_int r * 2 powi (e - int p + 1)) = of_int r * 2 powi (e - int p + 1)"
proof -
  let ?y = "of_int r * 2 powi (e - int p + 1) :: rat"
  let ?M = "max (exponent ?y) emin"
  have y: "0 < ?y" using assms(1) by simp
  have "of_int r \<le> (2 :: rat) ^ p" using assms(2) by (metis of_int_le_iff of_int_numeral of_int_power)
  then have "?y \<le> 2 ^ p * 2 powi (e - int p + 1)" by (intro mult_right_mono) simp_all
  also have "\<dots> = 2 powi (e + 1)" by (simp add: power_int_add [symmetric] flip: power_int_of_nat)
  finally have le: "?y \<le> 2 powi (e + 1)" .
  have b: "2 powi exponent ?y \<le> ?y" "?y < 2 powi (exponent ?y + 1)" using exponent_bounds [OF y] by auto
  have a: "\<bar>?y\<bar> = ?y" using y by simp
  show ?thesis
  proof (cases "?M \<le> e")
    case True
    have "?y / 2 powi (?M - int p + 1) = of_int r * 2 powi (e - ?M)"
      by (simp add: power_int_diff power_int_add)
    also have "\<dots> = of_int (r * 2 ^ nat (e - ?M))" using True by (simp add: power_int_def)
    finally show ?thesis using round_exact [of ?y] unfolding a by blast
  next
    case False
    then have E: "?M = exponent ?y" "e < exponent ?y" using assms(3) by auto
    have "2 powi exponent ?y \<le> (2 :: rat) powi (e + 1)" using b(1) le by linarith
    then have "\<not> e + 1 < exponent ?y" using power_int_strict_increasing [of "e + 1" "exponent ?y" "2 :: rat"] by force
    then have "exponent ?y \<le> e + 1" by simp
    then have e1: "exponent ?y = e + 1" using E(2) by simp
    have M1: "?M = e + 1" using E(1) e1 by (rule trans)
    have y1: "?y = 2 powi (e + 1)" using b(1) le unfolding e1 by (intro antisym)
    have "?y / 2 powi (?M - int p + 1) = 2 powi (e + 1) / 2 powi (e + 1 - int p + 1)" unfolding M1 unfolding y1 by (rule refl)
    also have "\<dots> = 2 powi (int p - 1)" by (simp add: power_int_diff power_int_add)
    also have "\<dots> = of_int (2 ^ (p - 1))" using precision by (simp add: power_int_def nat_diff_distrib')
    finally show ?thesis using round_exact [of ?y] unfolding a by blast
  qed
qed

lemma fl_idem: "fl p emin (fl p emin x) = fl p emin x"
proof -
  have pos: "fl p emin (fl p emin x) = fl p emin x" if x: "0 < x" for x
  proof -
    let ?M = "max (exponent x) emin"
    let ?u = "2 powi (?M - int p + 1) :: rat"
    let ?r = "round_even (x / ?u)"
    have f: "fl p emin x = of_int ?r * ?u" using x by (simp add: fl_def Let_def)
    have "x < 2 powi (exponent x + 1)" using exponent_bounds [OF x] by auto
    also have "\<dots> \<le> 2 powi (?M + 1)" by (intro powi2_mono) simp
    also have "\<dots> = 2 ^ p * ?u" by (simp add: power_int_add [symmetric] flip: power_int_of_nat)
    finally have "x / ?u \<le> of_int (2 ^ p)" by (simp add: field_simps)
    then have r: "?r \<le> 2 ^ p" using round_even_mono [of "x / ?u" "of_int (2 ^ p)"] by (simp only: round_even_of_int)
    have "0 \<le> fl p emin x" using fl_nonneg [of x] x by simp
    moreover have "0 < ?u" by simp
    ultimately have "0 \<le> ?r" unfolding f by (metis mult_less_0_iff not_le of_int_less_0_iff)
    then show ?thesis using fl_scaled_pos [of ?r ?M] r unfolding f by (cases "?r = 0") (auto simp: fl_zero)
  qed
  show ?thesis
    using pos [of x] pos [of "- x"] fl_minus [of x] fl_minus [of "fl p emin x"] fl_minus [of "fl p emin (- x)"]
    by (cases "0 < x"; cases "x = 0") (auto simp: fl_zero)
qed
end

interpretation double: float_format 53 "- 1022"
  rewrites "fl 53 (- 1022) = fl_double"
  by unfold_locales (simp_all add: fl_double_def)

interpretation extended: float_format 64 "- 16382"
  rewrites "fl 64 (- 16382) = fl_extended"
  by unfold_locales (simp_all add: fl_extended_def)

end
