(* ===== verification/Ipv6_Extensions.thy ===== *)
theory Ipv6_Extensions
  imports Ip_Packets Udp_Packet
begin

text \<open>
  The IPv6 extension-header walk (\<open>src/packet/ipv6_extensions.cpp\<close>) and the parser of the
  packet quoted by an ICMPv6 error (\<open>src/packet/ipv6_quote.cpp\<close>). The walk keeps the running
  offset at or below the payload's size, so the unsigned subtraction \<open>payload.size() - offset\<close>
  never wraps and natural-number subtraction is the same value.
\<close>

section \<open>The extension walk\<close>

datatype ext_status = ExtComplete | ExtNoNextHeader | ExtUnsupported | ExtMalformed | ExtLimitExceeded

datatype ext_kind = HopByHop | Routing | Fragment | DestinationOptions

fun ext_kind_code :: "ext_kind \<Rightarrow> u8" where
  "ext_kind_code HopByHop = 0"
| "ext_kind_code Routing = 43"
| "ext_kind_code Fragment = 44"
| "ext_kind_code DestinationOptions = 60"

record ext_header =
  ext_kind :: ext_kind
  ext_next_header :: u8
  ext_offset :: nat
  ext_length :: nat
  ext_fragment_offset :: u16
  ext_more_fragments :: bool
  ext_fragment_identification :: u32

record ext_result =
  ext_status :: ext_status
  ext_terminal :: u8
  ext_consumed :: nat
  ext_headers :: "ext_header list"

definition is_supported_extension :: "u8 \<Rightarrow> bool" where
  "is_supported_extension nh \<longleftrightarrow> nh = 0 \<or> nh = 43 \<or> nh = 44 \<or> nh = 60"

definition is_terminal_protocol :: "u8 \<Rightarrow> bool" where
  "is_terminal_protocol nh \<longleftrightarrow> nh = 6 \<or> nh = 17 \<or> nh = 58 \<or> nh = 59"

definition ext_kind_of :: "u8 \<Rightarrow> ext_kind" where
  "ext_kind_of nh =
     (if nh = 0 then HopByHop else if nh = 43 then Routing else if nh = 44 then Fragment
      else DestinationOptions)"

definition new_ext_header :: "u8 \<Rightarrow> u8 \<Rightarrow> nat \<Rightarrow> nat \<Rightarrow> ext_header" where
  "new_ext_header kind nh off len =
     \<lparr>ext_kind = ext_kind_of kind, ext_next_header = nh, ext_offset = off, ext_length = len,
      ext_fragment_offset = 0, ext_more_fragments = False, ext_fragment_identification = 0\<rparr>"

text \<open>The extra fields of a fragment header are read; other headers are passed on as they are.\<close>

definition read_fragment :: "bytes \<Rightarrow> u8 \<Rightarrow> ext_header \<Rightarrow> (ext_header \<Rightarrow> 'a parsed) \<Rightarrow> 'a parsed" where
  "read_fragment p nh h k =
     (if nh = 44 then
        read_u16 p (ext_offset h + 2) (\<lambda>fragment. read_u32 p (ext_offset h + 4) (\<lambda>ident.
          k (h\<lparr>ext_fragment_offset := drop_bit 3 fragment AND 0x1FFF,
               ext_more_fragments := (fragment AND 1 \<noteq> 0),
               ext_fragment_identification := ident\<rparr>)))
      else k h)"

lemma read_fragment_cong [fundef_cong]:
  "p = p' \<Longrightarrow> nh = nh' \<Longrightarrow> h = h' \<Longrightarrow> (\<And>x. k x = k' x) \<Longrightarrow>
     read_fragment p nh h k = read_fragment p' nh' h' k'"
  by (simp add: read_fragment_def)

definition ext_stop :: "ext_status \<Rightarrow> u8 \<Rightarrow> nat \<Rightarrow> ext_header list \<Rightarrow> ext_result parsed" where
  "ext_stop st terminal off hs =
     Parsed \<lparr>ext_status = st, ext_terminal = terminal, ext_consumed = off, ext_headers = hs\<rparr>"

function (sequential) ext_walk ::
  "bytes \<Rightarrow> u8 \<Rightarrow> nat \<Rightarrow> nat \<Rightarrow> nat \<Rightarrow> u8 \<Rightarrow> ext_header list \<Rightarrow> ext_result parsed" where
  "ext_walk p first max_headers max_bytes off nh hs =
     (if is_supported_extension nh then
        if length hs \<ge> max_headers \<or> off \<ge> max_bytes then ext_stop ExtLimitExceeded first off hs
        else
          let budget = max_bytes - off; available = length p - off in
          if available < 2 \<or> budget < 2 then ext_stop ExtMalformed first off hs
          else rd8 p off (\<lambda>next. rd8 p (off + 1) (\<lambda>units.
            let len = (if nh = 44 then 8 else (unat units + 1) * 8) in
            if nh \<noteq> 44 \<and> len < 8 then ext_stop ExtMalformed first off hs
            else if len > available \<or> len > budget then
              ext_stop (if len > budget then ExtLimitExceeded else ExtMalformed) first off hs
            else read_fragment p nh (new_ext_header nh next off len) (\<lambda>h.
              ext_walk p first max_headers max_bytes (off + len) next (hs @ [h]))))
      else ext_stop
        (if nh = 59 then ExtNoNextHeader
         else if is_terminal_protocol nh then ExtComplete else ExtUnsupported) nh off hs)"
  by pat_completeness auto
termination
  by (relation "measure (\<lambda>(p, _, _, _, off, _, _). length p - off)") (auto split: if_splits)

declare ext_walk.simps [simp del]

definition parse_ipv6_extensions :: "bytes \<Rightarrow> u8 \<Rightarrow> nat \<Rightarrow> nat \<Rightarrow> ext_result parsed" where
  "parse_ipv6_extensions p first max_headers max_bytes =
     (if max_headers = 0 \<or> max_bytes = 0 then ext_stop ExtLimitExceeded first 0 []
      else ext_walk p first max_headers max_bytes 0 first [])"

section \<open>What the walk returns\<close>

text \<open>
  The headers tile the consumed prefix of the payload: each starts where the one before it
  ended, is a positive multiple of eight bytes long, and has the type the one before it
  announced.
\<close>

fun ext_chain :: "u8 \<Rightarrow> nat \<Rightarrow> ext_header list \<Rightarrow> u8 \<Rightarrow> nat \<Rightarrow> bool" where
  "ext_chain nh off [] nh' off' \<longleftrightarrow> nh = nh' \<and> off = off'"
| "ext_chain nh off (h # hs) nh' off' \<longleftrightarrow>
     ext_kind_code (ext_kind h) = nh \<and> ext_offset h = off \<and> 8 \<le> ext_length h \<and> 8 dvd ext_length h \<and>
     ext_chain (ext_next_header h) (off + ext_length h) hs nh' off'"

lemma ext_chain_snoc:
  "ext_chain nh off hs m mid \<Longrightarrow> ext_kind_code (ext_kind h) = m \<Longrightarrow> ext_offset h = mid \<Longrightarrow>
     8 \<le> ext_length h \<Longrightarrow> 8 dvd ext_length h \<Longrightarrow>
     ext_chain nh off (hs @ [h]) (ext_next_header h) (mid + ext_length h)"
  by (induction nh off hs m mid rule: ext_chain.induct) auto

lemma ext_chain_length: "ext_chain nh off hs m mid \<Longrightarrow> mid = off + sum_list (map ext_length hs)"
  by (induction nh off hs m mid rule: ext_chain.induct) auto

lemma ext_kind_code_of: "is_supported_extension nh \<Longrightarrow> ext_kind_code (ext_kind_of nh) = nh"
  by (auto simp: is_supported_extension_def ext_kind_of_def)

definition ext_sound :: "bytes \<Rightarrow> u8 \<Rightarrow> nat \<Rightarrow> nat \<Rightarrow> ext_result \<Rightarrow> bool" where
  "ext_sound p first max_headers max_bytes r \<longleftrightarrow>
     ext_consumed r \<le> length p \<and> ext_consumed r \<le> max_bytes \<and> length (ext_headers r) \<le> max_headers \<and>
     (\<exists>nh. ext_chain first 0 (ext_headers r) nh (ext_consumed r) \<and>
       (ext_status r \<in> {ExtComplete, ExtNoNextHeader, ExtUnsupported} \<longrightarrow>
         ext_terminal r = nh \<and> \<not> is_supported_extension nh) \<and>
       (ext_status r = ExtComplete \<longrightarrow> nh \<in> {6, 17, 58}))"

definition fragment_read :: "bytes \<Rightarrow> u8 \<Rightarrow> ext_header \<Rightarrow> ext_header" where
  "fragment_read p nh h =
     (if nh = 44 then
        let i = ext_offset h; fragment = u16_of (p ! (i + 2)) (p ! (i + 2 + 1)) in
        h\<lparr>ext_fragment_offset := drop_bit 3 fragment AND 0x1FFF,
          ext_more_fragments := (fragment AND 1 \<noteq> 0),
          ext_fragment_identification :=
            u32_of (p ! (i + 4)) (p ! (i + 4 + 1)) (p ! (i + 4 + 2)) (p ! (i + 4 + 3))\<rparr>
      else h)"

lemma read_fragment_in:
  "ext_offset h + 8 \<le> length p \<Longrightarrow> read_fragment p nh h k = k (fragment_read p nh h)"
  by (simp add: read_fragment_def fragment_read_def read_u16_in read_u32_in Let_def)

lemma fragment_read_fields [simp]:
  "ext_kind (fragment_read p nh h) = ext_kind h"
  "ext_next_header (fragment_read p nh h) = ext_next_header h"
  "ext_offset (fragment_read p nh h) = ext_offset h"
  "ext_length (fragment_read p nh h) = ext_length h"
  by (simp_all add: fragment_read_def Let_def)

lemma ext_walk_sound:
  assumes "off \<le> length p" and "off \<le> max_bytes" and "length hs \<le> max_headers"
    and "ext_chain first 0 hs nh off"
  shows "\<exists>r. ext_walk p first max_headers max_bytes off nh hs = Parsed r \<and>
    ext_sound p first max_headers max_bytes r"
  using assms
proof (induction p first max_headers max_bytes off nh hs rule: ext_walk.induct)
  case (1 p first max_headers max_bytes off nh hs)
  note unfold = ext_walk.simps [of p first max_headers max_bytes off nh hs]
  have stop: "ext_sound p first max_headers max_bytes
      \<lparr>ext_status = st, ext_terminal = t, ext_consumed = off, ext_headers = hs\<rparr>"
    if "st \<in> {ExtComplete, ExtNoNextHeader, ExtUnsupported} \<longrightarrow> t = nh \<and> \<not> is_supported_extension nh"
      "st = ExtComplete \<longrightarrow> nh \<in> {6, 17, 58}" for st t
    using that "1.prems" by (auto simp: ext_sound_def)
  show ?case
  proof (cases "is_supported_extension nh")
    case False
    then have "ext_walk p first max_headers max_bytes off nh hs = ext_stop
        (if nh = 59 then ExtNoNextHeader
         else if is_terminal_protocol nh then ExtComplete else ExtUnsupported) nh off hs"
      by (simp only: unfold if_False)
    then show ?thesis
      using False by (auto simp: ext_stop_def is_terminal_protocol_def intro!: stop)
  next
    case supp: True
    let ?budget = "max_bytes - off" and ?available = "length p - off"
    let ?next = "p ! off" and ?len = "if nh = 44 then 8 else (unat (p ! (off + 1)) + 1) * 8"
    let ?h = "fragment_read p nh (new_ext_header nh ?next off ?len)"
    consider (limit) "length hs \<ge> max_headers \<or> off \<ge> max_bytes"
      | (short) "\<not> (length hs \<ge> max_headers \<or> off \<ge> max_bytes)" "?available < 2 \<or> ?budget < 2"
      | (room) "\<not> (length hs \<ge> max_headers \<or> off \<ge> max_bytes)" "\<not> (?available < 2 \<or> ?budget < 2)"
      by blast
    then show ?thesis
    proof cases
      case limit
      then have "ext_walk p first max_headers max_bytes off nh hs = ext_stop ExtLimitExceeded first off hs"
        by (simp only: unfold supp if_True)
      then show ?thesis by (auto simp: ext_stop_def intro!: stop)
    next
      case short
      then have "ext_walk p first max_headers max_bytes off nh hs = ext_stop ExtMalformed first off hs"
        by (simp only: unfold supp if_True if_False Let_def)
      then show ?thesis by (auto simp: ext_stop_def intro!: stop)
    next
      case room
      then have i: "off < length p" "off + 1 < length p" by linarith+
      have len8: "8 \<le> ?len" "8 dvd ?len" by simp_all
      have step: "ext_walk p first max_headers max_bytes off nh hs =
        (if ?len > ?available \<or> ?len > ?budget then
           ext_stop (if ?len > ?budget then ExtLimitExceeded else ExtMalformed) first off hs
         else read_fragment p nh (new_ext_header nh ?next off ?len) (\<lambda>h.
           ext_walk p first max_headers max_bytes (off + ?len) ?next (hs @ [h])))"
        unfolding unfold Let_def rd8_in [OF i(1)] rd8_in [OF i(2)]
        using supp room len8 by (simp only: if_True if_False not_less) auto
      show ?thesis
      proof (cases "?len > ?available \<or> ?len > ?budget")
        case True
        then have "ext_walk p first max_headers max_bytes off nh hs =
            ext_stop (if ?len > ?budget then ExtLimitExceeded else ExtMalformed) first off hs"
          by (simp only: step if_True)
        then show ?thesis by (auto simp: ext_stop_def intro!: stop)
      next
        case fit: False
        have inside: "ext_offset (new_ext_header nh ?next off ?len) + 8 \<le> length p"
          using fit len8(1) i(1) by (simp only: new_ext_header_def ext_header.simps) linarith
        have rec: "ext_walk p first max_headers max_bytes off nh hs =
            ext_walk p first max_headers max_bytes (off + ?len) ?next (hs @ [?h])"
          by (simp only: step fit if_False read_fragment_in [OF inside])
        have "ext_chain first 0 (hs @ [?h]) (ext_next_header ?h) (off + ext_length ?h)"
          using "1.prems"(4) len8 by (intro ext_chain_snoc)
            (simp_all add: new_ext_header_def ext_kind_code_of supp)
        then have chain: "ext_chain first 0 (hs @ [?h]) ?next (off + ?len)"
          by (simp add: new_ext_header_def)
        have "\<not> (nh \<noteq> 44 \<and> ?len < 8)" using len8(1) by linarith
        moreover have "off + ?len \<le> length p" "off + ?len \<le> max_bytes"
          using fit i(1) room "1.prems"(1,2) by linarith+
        moreover have "length (hs @ [?h]) \<le> max_headers" using room by simp
        ultimately show ?thesis
          using "1.IH" [OF supp room(1) refl refl room(2) i(1) i(2) refl _ fit, of ?h] chain
          unfolding rec by blast
      qed
    qed
  qed
qed

lemma parse_ipv6_extensions_sound:
  "\<exists>r. parse_ipv6_extensions p first max_headers max_bytes = Parsed r \<and>
     ext_sound p first max_headers max_bytes r"
proof (cases "max_headers = 0 \<or> max_bytes = 0")
  case True
  then show ?thesis
    by (auto simp: parse_ipv6_extensions_def ext_stop_def ext_sound_def)
next
  case False
  then show ?thesis
    using ext_walk_sound [of 0 p max_bytes "[]" max_headers first first]
    by (simp add: parse_ipv6_extensions_def)
qed

section \<open>The packet quoted by an ICMPv6 error\<close>

record udp_quote =
  quote_ip :: ipv6
  quote_extensions :: ext_result
  quote_source_port :: u16
  quote_destination_port :: u16
  quote_length :: u16
  quote_checksum :: u16

definition quoted_ipv6 :: "bytes \<Rightarrow> (ipv6 \<Rightarrow> 'a parsed) \<Rightarrow> 'a parsed" where
  "quoted_ipv6 b k =
     rd8 b 0 (\<lambda>b0. if drop_bit 4 b0 \<noteq> 6 then Rejected else
     rd8 b 1 (\<lambda>b1. rd8 b 2 (\<lambda>b2. rd8 b 3 (\<lambda>b3. read_u16 b 4 (\<lambda>pl. rd8 b 6 (\<lambda>nh. rd8 b 7 (\<lambda>hl.
     read_array 16 b 8 (\<lambda>sa. read_array 16 b 24 (\<lambda>da.
       k (ip6_set_flow_label
            (push_bit 16 (ucast (b1 AND 0x0F)) OR (push_bit 8 (ucast b2) OR ucast b3))
            (new_ipv6\<lparr>ip6_version := drop_bit 4 b0,
               ip6_traffic_class := push_bit 4 (b0 AND 0x0F) OR drop_bit 4 b1,
               ip6_payload_length := pl, ip6_next_header := nh, ip6_hop_limit := hl,
               ip6_source_address := sa, ip6_destination_address := da\<rparr>)))))))))))"

definition quoted_udp :: "ipv6 \<Rightarrow> ext_result \<Rightarrow> bytes \<Rightarrow> udp_quote parsed" where
  "quoted_udp ip ext udp =
     (if length udp < 8 then Rejected
      else read_u16 udp 4 (\<lambda>len. if len < 8 then Rejected
        else read_u16 udp 0 (\<lambda>sp. read_u16 udp 2 (\<lambda>dp. read_u16 udp 6 (\<lambda>ck.
          Parsed \<lparr>quote_ip = ip, quote_extensions = ext, quote_source_port = sp,
            quote_destination_port = dp, quote_length = len, quote_checksum = ck\<rparr>)))))"

definition quoted_payload :: "bytes \<Rightarrow> nat \<Rightarrow> nat \<Rightarrow> ipv6 \<Rightarrow> udp_quote parsed" where
  "quoted_payload payload max_headers max_bytes ip =
     (if \<not> ip6_validate ip then Rejected
      else case parse_ipv6_extensions payload (ip6_next_header ip) max_headers
          (min max_bytes (length payload)) of
        Parsed ext \<Rightarrow>
          if ext_status ext \<noteq> ExtComplete \<or> ext_terminal ext \<noteq> 17
            \<or> ext_consumed ext > length payload
            \<or> unat (ip6_payload_length ip) < ext_consumed ext + 8 then Rejected
          else if \<not> list_all (\<lambda>h. \<not> (ext_kind h = Fragment \<and> ext_fragment_offset h \<noteq> 0))
            (ext_headers ext) then Rejected
          else quoted_udp ip ext (drop (ext_consumed ext) payload)
      | Rejected \<Rightarrow> Rejected
      | OutOfBounds \<Rightarrow> OutOfBounds)"

definition parse_ipv6_udp_quote :: "bytes \<Rightarrow> nat \<Rightarrow> nat \<Rightarrow> udp_quote parsed" where
  "parse_ipv6_udp_quote input max_headers max_bytes =
     (if max_headers = 0 \<or> max_bytes < 48 \<or> length input < 48 then Rejected
      else
        let bounded = take (min (length input) max_bytes) input in
        if length bounded < 48 then Rejected
        else quoted_ipv6 bounded (quoted_payload (drop 40 bounded) max_headers max_bytes))"

lemma quoted_ipv6_in_bounds:
  assumes "40 \<le> length b" and "\<And>ip. k ip \<noteq> OutOfBounds"
  shows "quoted_ipv6 b k \<noteq> OutOfBounds"
proof -
  have "b \<noteq> []" using assms(1) by auto
  then show ?thesis using assms by (simp add: quoted_ipv6_def read_u16_in read_array_in)
qed

lemma quoted_udp_in_bounds: "quoted_udp ip ext udp \<noteq> OutOfBounds"
  by (cases "length udp < 8") (simp_all add: quoted_udp_def read_u16_in)

lemma quoted_payload_in_bounds: "quoted_payload payload max_headers max_bytes ip \<noteq> OutOfBounds"
  using parse_ipv6_extensions_sound [of payload "ip6_next_header ip" max_headers
      "min max_bytes (length payload)"]
  by (auto simp: quoted_payload_def quoted_udp_in_bounds split: parsed.splits)

lemma quote_in_bounds: "parse_ipv6_udp_quote input max_headers max_bytes \<noteq> OutOfBounds"
proof (cases "max_headers = 0 \<or> max_bytes < 48 \<or> length input < 48")
  case False
  let ?b = "take (min (length input) max_bytes) input"
  have len: "40 \<le> length ?b" using False by auto
  have "parse_ipv6_udp_quote input max_headers max_bytes =
      quoted_ipv6 ?b (quoted_payload (drop 40 ?b) max_headers max_bytes)"
    using False by (auto simp: parse_ipv6_udp_quote_def Let_def)
  also have "\<dots> \<noteq> OutOfBounds"
    by (intro quoted_ipv6_in_bounds len quoted_payload_in_bounds)
  finally show ?thesis .
qed (simp add: parse_ipv6_udp_quote_def)

text \<open>
  A scanner recognizes its own probe in an error message: the quote of a UDP datagram it
  sent over IPv6, cut anywhere after the UDP header, yields the ports it sent.
\<close>

lemma flow_label_kept:
  assumes "v AND 0xFFF00000 = (0 :: u32)"
  shows "v AND 0x000FFFFF = v"
proof (rule bit_word_eqI)
  fix n assume n: "n < LENGTH(32)"
  have m: "(0xFFF00000 :: u32) = NOT (mask 20)" "(0x000FFFFF :: u32) = mask 20"
    by (simp_all add: mask_eq_exp_minus_1 not_eq_complement)
  have "\<not> bit (v AND 0xFFF00000) n" using assms by simp
  with n show "bit (v AND 0x000FFFFF) n = bit v n" by (auto simp: m bit_simps)
qed

lemma quoted_ipv6_wire:
  assumes "ip6_valid p" and "b = take n (ip6_wire p @ rest)" and "40 \<le> n"
  shows "quoted_ipv6 b k = k p"
proof -
  have wf: "length (ip6_source_address p) = 16" "length (ip6_destination_address p) = 16"
    and v: "ip6_version p = 6" "ip6_flow_label p AND 0xFFF00000 = 0"
    using assms(1) by (simp_all add: ip6_valid_def ip6_wf_def ip6_validate_def)
  have b: "b = ip6_header p @ ip6_source_address p @ ip6_destination_address p @ take (n - 40) rest"
    using wf assms(2,3) by (simp add: ip6_wire_def)
  have at: "b ! i = ip6_header p ! i" if "i < 8" for i
    using that by (simp add: b nth_append)
  have len: "40 \<le> length b" using wf by (simp add: b)
  have "drop 8 b = ip6_source_address p @ ip6_destination_address p @ take (n - 40) rest"
    "drop 24 b = ip6_destination_address p @ take (n - 40) rest"
    using wf by (simp_all add: b)
  then have arrays: "read_array 16 b 8 k1 = k1 (ip6_source_address p)"
    "read_array 16 b 24 k1 = k1 (ip6_destination_address p)" for k1 :: "bytes \<Rightarrow> 'a parsed"
    using len wf by (simp_all add: read_array_in)
  have "b \<noteq> []" using len by auto
  then have fields: "read_u16 b 4 k2 = k2 (ip6_payload_length p)"
    "rd8 b 6 k1 = k1 (ip6_next_header p)" "rd8 b 7 k1 = k1 (ip6_hop_limit p)"
    "rd8 b 0 k1 = k1 (push_bit 4 6 OR drop_bit 4 (ip6_traffic_class p))"
    "rd8 b 1 k1 = k1 (push_bit 4 (ip6_traffic_class p) OR ucast (drop_bit 16 (ip6_flow_label p) AND 0x0F))"
    "rd8 b 2 k1 = k1 (ucast (drop_bit 8 (ip6_flow_label p)))" "rd8 b 3 k1 = k1 (ucast (ip6_flow_label p))"
    for k1 :: "u8 \<Rightarrow> 'a parsed" and k2 :: "u16 \<Rightarrow> 'a parsed"
    using len by (simp_all add: read_u16_in at ip6_header_def del: push_bit_numeral)
  have same: "\<lparr>ip6_version = 6, ip6_traffic_class = ip6_traffic_class p,
      ip6_flow_label = ip6_flow_label p, ip6_payload_length = ip6_payload_length p,
      ip6_next_header = ip6_next_header p, ip6_hop_limit = ip6_hop_limit p,
      ip6_source_address = ip6_source_address p, ip6_destination_address = ip6_destination_address p\<rparr> = p"
    using v(1) by simp
  show ?thesis
    unfolding quoted_ipv6_def fields arrays version_written traffic_class_written
      flow_label_written [OF v(2)]
    using v(1) flow_label_kept [OF v(2)] by (simp add: ip6_set_flow_label_def new_ipv6_def same)
qed

lemma quote_recognized:
  assumes "ip6_valid p" and "udp_validate u" and "ip6_next_header p = 17"
    and "udp_serialized_size u \<le> unat (ip6_payload_length p)"
    and "48 \<le> n" and "max_headers \<noteq> 0" and "48 \<le> max_bytes"
  shows "parse_ipv6_udp_quote (take n (ip6_wire p @ udp_wire u)) max_headers max_bytes =
    Parsed \<lparr>quote_ip = p,
      quote_extensions = \<lparr>ext_status = ExtComplete, ext_terminal = 17, ext_consumed = 0, ext_headers = []\<rparr>,
      quote_source_port = udp_source_port u, quote_destination_port = udp_destination_port u,
      quote_length = udp_length u, quote_checksum = udp_checksum u\<rparr>"
proof -
  let ?w = "ip6_wire p @ udp_wire u"
  have lens: "length (ip6_wire p) = 40" "8 \<le> length (udp_wire u)"
    using assms(1) by (simp_all add: length_ip6_wire ip6_valid_def udp_wire_def)
  define m where "m = min (min n (length ?w)) max_bytes"
  have m: "48 \<le> m" using lens assms(5,7) by (simp add: m_def)
  have cut: "take (min (length (take n w)) max_bytes) (take n w) = take (min (min n (length w)) max_bytes) w"
    for w :: bytes
    by (simp add: min.commute min.left_commute)
  have b: "take (min (length (take n ?w)) max_bytes) (take n ?w) = take m ?w"
    unfolding m_def by (rule cut)
  have mlen: "m \<le> length ?w" by (simp add: m_def)
  obtain j where j: "m = 40 + (8 + j)" using m by (metis add.assoc le_Suc_ex numeral_plus_numeral add_num_simps)
  have front: "take (8 + j) (hdr @ pl) = hdr @ take j pl" if "length hdr = 8" for hdr pl :: bytes
    using that by simp
  define q where "q = drop 40 (take m ?w)"
  have udp: "q = u16_bytes (udp_source_port u) @
      u16_bytes (udp_destination_port u) @ u16_bytes (udp_length u) @ u16_bytes (udp_checksum u) @
      take j (udp_payload u)"
    using lens(1) front [of "u16_bytes (udp_source_port u) @ u16_bytes (udp_destination_port u) @
      u16_bytes (udp_length u) @ u16_bytes (udp_checksum u)" "udp_payload u"]
    by (simp add: q_def j udp_wire_def)
  have "udp_serialized_size u = unat (udp_length u)" "8 \<le> udp_serialized_size u"
    using assms(2) unat_of_nat_u16 [of "8 + length (udp_payload u)"]
    by (simp_all add: udp_serialized_size_def udp_length_def udp_validate_def)
  then have len8: "\<not> udp_length u < 8" "8 \<le> unat (ip6_payload_length p)"
    using assms(4) by (simp_all add: word_less_nat_alt)
  have "q \<noteq> []" by (simp add: udp)
  then have ext: "parse_ipv6_extensions q 17 max_headers (min max_bytes (length q)) =
      Parsed \<lparr>ext_status = ExtComplete, ext_terminal = 17, ext_consumed = 0, ext_headers = []\<rparr>"
    using assms(6,7)
    by (subst parse_ipv6_extensions_def, subst ext_walk.simps)
      (auto simp: ext_stop_def is_supported_extension_def is_terminal_protocol_def)
  have ipq: "quoted_ipv6 (take m ?w) k = k p" for k :: "ipv6 \<Rightarrow> udp_quote parsed"
    using assms(1) m by (intro quoted_ipv6_wire [of _ _ m "udp_wire u"]) simp_all
  have guards: "\<not> (max_headers = 0 \<or> max_bytes < 48 \<or> length (take n ?w) < 48)"
    "\<not> length (take m ?w) < 48"
    using lens assms(5-7) m mlen by simp_all
  have payload: "quoted_payload q max_headers max_bytes p = Parsed \<lparr>quote_ip = p,
      quote_extensions = \<lparr>ext_status = ExtComplete, ext_terminal = 17, ext_consumed = 0, ext_headers = []\<rparr>,
      quote_source_port = udp_source_port u, quote_destination_port = udp_destination_port u,
      quote_length = udp_length u, quote_checksum = udp_checksum u\<rparr>"
    using assms(1,3) len8 ext
    by (simp add: quoted_payload_def ip6_valid_def quoted_udp_def read_u16_in, simp add: udp)
  show ?thesis
    unfolding parse_ipv6_udp_quote_def b Let_def ipq if_not_P [OF guards(1)] if_not_P [OF guards(2)]
      q_def [symmetric] by (rule payload)
qed

section \<open>Properties\<close>

text \<open>
  For any payload and budgets, the extension walk returns without reading
  beyond the payload; it consumes at most the payload and the byte budget, reports at most
  \<open>max_headers\<close> headers, and those tile the consumed prefix with linked types.
\<close>

theorem extension_walk_bounded:
  "\<exists>r nh. parse_ipv6_extensions p first max_headers max_bytes = Parsed r \<and>
     ext_consumed r \<le> length p \<and> ext_consumed r \<le> max_bytes \<and>
     length (ext_headers r) \<le> max_headers \<and>
     ext_consumed r = sum_list (map ext_length (ext_headers r)) \<and>
     ext_chain first 0 (ext_headers r) nh (ext_consumed r)"
proof -
  obtain r nh where "parse_ipv6_extensions p first max_headers max_bytes = Parsed r"
    and "ext_consumed r \<le> length p \<and> ext_consumed r \<le> max_bytes \<and>
      length (ext_headers r) \<le> max_headers"
    and chain: "ext_chain first 0 (ext_headers r) nh (ext_consumed r)"
    using parse_ipv6_extensions_sound [of p first max_headers max_bytes]
    by (auto simp: ext_sound_def)
  then show ?thesis using ext_chain_length [OF chain] by auto
qed

text \<open>
  A probe sent over IPv6 is recognized in the error message that quotes it: the
  quoted packet, cut anywhere after the UDP header, yields the header and the ports that were
  sent, and no quote makes the parser read beyond its input.
\<close>

theorem quoted_probe_recognized:
  assumes "ip6_valid p" and "udp_validate u" and "ip6_next_header p = 17"
    and "udp_serialized_size u \<le> unat (ip6_payload_length p)" and "48 \<le> n"
  shows "\<exists>q. parse_ipv6_udp_quote (take n (ip6_wire p @ udp_wire u)) 8 2048 = Parsed q \<and>
    quote_ip q = p \<and> quote_source_port q = udp_source_port u \<and>
    quote_destination_port q = udp_destination_port u \<and> quote_length q = udp_length u"
proof -
  have "(8 :: nat) \<noteq> 0" "(48 :: nat) \<le> 2048" by simp_all
  from quote_recognized [OF assms this] show ?thesis by (simp del: take_append)
qed

theorem quoted_probe_recognized_witness:
  "\<exists>q. parse_ipv6_udp_quote (take 50 (ip6_wire
       (new_ipv6\<lparr>ip6_payload_length := 12, ip6_next_header := 17\<rparr>) @ udp_wire
       \<lparr>udp_source_port = 33000, udp_destination_port = 53, udp_checksum = 9, udp_payload = [1, 2, 3, 4]\<rparr>))
       8 2048 = Parsed q \<and>
     quote_ip q = new_ipv6\<lparr>ip6_payload_length := 12, ip6_next_header := 17\<rparr> \<and>
     quote_source_port q = 33000 \<and> quote_destination_port q = 53 \<and> quote_length q = 12"
  using quoted_probe_recognized [of "new_ipv6\<lparr>ip6_payload_length := 12, ip6_next_header := 17\<rparr>"
      "\<lparr>udp_source_port = 33000, udp_destination_port = 53, udp_checksum = 9, udp_payload = [1, 2, 3, 4]\<rparr>" 50]
  by (simp add: ip6_valid_def ip6_validate_def ip6_wf_def new_ipv6_def udp_validate_def
    udp_serialized_size_def udp_length_def)

end
