(* ===== verification/Io_Engine.thy ===== *)
theory Io_Engine
  imports Status
begin

text \<open>
  The reactor (\<open>include/io/io_engine.hpp\<close>, \<open>src/io/io_engine.cpp\<close>): registration of events
  under tokens, one-shot timers, one iteration of the loop, and the loop. Times are readings of
  the steady clock in nanoseconds. The kernel is a parameter: the result of each \<open>epoll_ctl\<close>
  and \<open>epoll_wait\<close> is an argument. A callback is a value of a type \<open>'cb\<close> that the embedding
  interprets; the state \<open>'s\<close> of the whole program holds the engine. The timer queue is a list
  sorted by deadline; \<open>std::priority_queue\<close> leaves the order of equal deadlines open, the model
  takes them in scheduling order, and no theorem depends on that choice.
\<close>

section \<open>Events\<close>

abbreviation mask_read :: u32 where "mask_read \<equiv> 1"
abbreviation mask_write :: u32 where "mask_write \<equiv> 2"
abbreviation mask_error :: u32 where "mask_error \<equiv> 4"
abbreviation mask_hangup :: u32 where "mask_hangup \<equiv> 8"

definition has_event :: "u32 \<Rightarrow> u32 \<Rightarrow> bool" where
  "has_event m ev \<longleftrightarrow> m AND ev \<noteq> 0"

text \<open>The bits of \<open>EPOLLIN\<close>, \<open>EPOLLOUT\<close>, \<open>EPOLLERR\<close> and \<open>EPOLLHUP\<close>.\<close>

definition to_native_mask :: "u32 \<Rightarrow> u32" where
  "to_native_mask m =
     (if has_event m mask_read then 1 else 0) OR (if has_event m mask_write then 4 else 0) OR
     (if has_event m mask_error then 8 else 0) OR (if has_event m mask_hangup then 16 else 0)"

definition from_native_mask :: "u32 \<Rightarrow> u32" where
  "from_native_mask n =
     (if n AND 1 \<noteq> 0 then mask_read else 0) OR (if n AND 4 \<noteq> 0 then mask_write else 0) OR
     (if n AND 8 \<noteq> 0 then mask_error else 0) OR (if n AND 16 \<noteq> 0 then mask_hangup else 0)"

record 'cb event =
  ev_fd :: int
  ev_mask :: u32
  ev_ready :: u32
  ev_callback :: "'cb option"
  ev_registered :: bool
  ev_token :: u64

type_synonym event_id = nat

section \<open>The engine's state\<close>

record 'cb timer =
  tm_deadline :: int
  tm_callback :: 'cb

record 'cb engine =
  eng_open :: bool
  eng_init_status :: status_code
  eng_running :: bool
  eng_stopped :: bool
  eng_events :: "(event_id \<times> 'cb event) list"
  eng_registered :: "event_id list"
  eng_tokens :: "(u64 \<times> event_id) list"
  eng_timers :: "(u64 \<times> 'cb timer) list"
  eng_queue :: "(int \<times> u64) list"
  eng_next_timer :: u64
  eng_next_token :: u64

definition new_engine :: "bool \<Rightarrow> 'cb engine" where
  "new_engine created =
     \<lparr>eng_open = created, eng_init_status = (if created then Ok else IoError), eng_running = False,
      eng_stopped = False, eng_events = [], eng_registered = [], eng_tokens = [], eng_timers = [],
      eng_queue = [], eng_next_timer = 1, eng_next_token = 1\<rparr>"

section \<open>Registration\<close>

text \<open>
  \<open>ctl\<close> is the outcome of \<open>epoll_ctl\<close>: whether it succeeded, and for a deletion whether a
  failure was \<open>ENOENT\<close>. An unknown event identifier stands for no event the caller could pass.
\<close>

definition engine_add :: "bool \<Rightarrow> event_id \<Rightarrow> 'cb engine \<Rightarrow> status_code \<times> 'cb engine" where
  "engine_add ctl eid e =
     (if eng_init_status e \<noteq> Ok then (eng_init_status e, e)
      else if \<not> eng_open e then (InvalidArgument, e)
      else case map_of (eng_events e) eid of
        None \<Rightarrow> (InvalidArgument, e)
      | Some ev \<Rightarrow>
          if ev_fd ev < 0 \<or> ev_mask ev = 0 \<or> ev_callback ev = None then (InvalidArgument, e)
          else if ev_registered ev then (InvalidArgument, e)
          else if eng_next_token e = 0 then (MemoryError, e)
          else
            let token = eng_next_token e; e1 = e\<lparr>eng_next_token := token + 1\<rparr> in
            if \<not> ctl then (IoError, e1)
            else if map_has (eng_tokens e1) token then (InternalError, e1)
            else (Ok, e1\<lparr>eng_tokens := (token, eid) # eng_tokens e1,
                        eng_registered := eid # eng_registered e1,
                        eng_events := map_put eid (ev\<lparr>ev_token := token, ev_registered := True\<rparr>) (eng_events e1)\<rparr>))"

definition engine_modify :: "bool \<Rightarrow> event_id \<Rightarrow> 'cb engine \<Rightarrow> status_code \<times> 'cb engine" where
  "engine_modify ctl eid e =
     (if eng_init_status e \<noteq> Ok then (eng_init_status e, e)
      else if \<not> eng_open e then (InvalidArgument, e)
      else case map_of (eng_events e) eid of
        None \<Rightarrow> (InvalidArgument, e)
      | Some ev \<Rightarrow>
          if \<not> ev_registered ev \<or> ev_mask ev = 0 \<or> ev_callback ev = None then (InvalidArgument, e)
          else if \<not> ctl then (IoError, e) else (Ok, e))"

definition engine_remove :: "bool \<Rightarrow> bool \<Rightarrow> event_id \<Rightarrow> 'cb engine \<Rightarrow> status_code \<times> 'cb engine" where
  "engine_remove ctl enoent eid e =
     (if eng_init_status e \<noteq> Ok then (eng_init_status e, e)
      else if \<not> eng_open e then (InvalidArgument, e)
      else case map_of (eng_events e) eid of
        None \<Rightarrow> (NotFound, e)
      | Some ev \<Rightarrow>
          if \<not> ev_registered ev then (NotFound, e)
          else if \<not> ctl \<and> \<not> enoent then (IoError, e)
          else (Ok, e\<lparr>eng_registered := removeAll eid (eng_registered e),
                     eng_tokens := map_erase (ev_token ev) (eng_tokens e),
                     eng_events := map_put eid (ev\<lparr>ev_token := 0, ev_registered := False, ev_ready := 0\<rparr>)
                       (eng_events e)\<rparr>))"

definition engine_stop :: "'cb engine \<Rightarrow> 'cb engine" where
  "engine_stop e = e\<lparr>eng_stopped := True\<rparr>"

definition detach_event :: "event_id \<Rightarrow> 'cb engine \<Rightarrow> 'cb engine" where
  "detach_event eid e =
     (case map_of (eng_events e) eid of
        None \<Rightarrow> e
      | Some ev \<Rightarrow>
          e\<lparr>eng_tokens := map_erase (ev_token ev) (eng_tokens e),
            eng_events := map_put eid (ev\<lparr>ev_token := 0, ev_registered := False, ev_ready := 0\<rparr>) (eng_events e)\<rparr>)"

definition detach_all_events :: "'cb engine \<Rightarrow> 'cb engine" where
  "detach_all_events e = (fold detach_event (eng_registered e) e)\<lparr>eng_registered := []\<rparr>"

definition engine_shutdown :: "bool \<Rightarrow> 'cb engine \<Rightarrow> status_code \<times> 'cb engine" where
  "engine_shutdown close_ok e =
     (let e1 = (detach_all_events e)\<lparr>eng_timers := [], eng_queue := []\<rparr>;
          e2 = e1\<lparr>eng_running := False, eng_stopped := True\<rparr>
      in if \<not> eng_open e1 then (Ok, e2)
         else (if close_ok then Ok else IoError, e2\<lparr>eng_open := False\<rparr>))"

section \<open>Timers\<close>

fun queue_insert :: "int \<times> u64 \<Rightarrow> (int \<times> u64) list \<Rightarrow> (int \<times> u64) list" where
  "queue_insert x [] = [x]"
| "queue_insert x (y # ys) = (if fst x < fst y then x # y # ys else y # queue_insert x ys)"

definition engine_schedule :: "int \<Rightarrow> int \<Rightarrow> 'cb \<Rightarrow> 'cb engine \<Rightarrow> u64 \<times> 'cb engine" where
  "engine_schedule now delay cb e =
     (if \<not> eng_open e then (0, e)
      else if eng_next_timer e = 0 then (0, e)
      else
        let tid = eng_next_timer e; deadline = now + max delay 0 in
        (tid, e\<lparr>eng_next_timer := tid + 1,
              eng_timers := fst (map_emplace tid \<lparr>tm_deadline = deadline, tm_callback = cb\<rparr> (eng_timers e)),
              eng_queue := queue_insert (deadline, tid) (eng_queue e)\<rparr>))"

definition engine_cancel :: "u64 \<Rightarrow> 'cb engine \<Rightarrow> 'cb engine" where
  "engine_cancel tid e = (if tid = 0 then e else e\<lparr>eng_timers := map_erase tid (eng_timers e)\<rparr>)"

text \<open>The entries of cancelled timers at the head of the queue are dropped before waiting.\<close>

fun prune_queue :: "(u64 \<times> 'cb timer) list \<Rightarrow> (int \<times> u64) list \<Rightarrow> (int \<times> u64) list" where
  "prune_queue timers [] = []"
| "prune_queue timers (x # xs) = (if map_has timers (snd x) then x # xs else prune_queue timers xs)"

definition int_max :: int where
  "int_max = 2147483647"

definition wait_timeout_ms :: "int \<Rightarrow> int \<Rightarrow> 'cb engine \<Rightarrow> int" where
  "wait_timeout_ms now requested e =
     (let timeout = (if requested < 0 then - 1 else requested) in
      case eng_queue e of
        [] \<Rightarrow> timeout
      | (_, tid) # _ \<Rightarrow>
          (case map_of (eng_timers e) tid of
             None \<Rightarrow> timeout
           | Some t \<Rightarrow>
               let timer_timeout =
                 (if tm_deadline t > now then
                    let remaining = tm_deadline t - now;
                        floor_ms = remaining div 1000000;
                        rounded = (if floor_ms * 1000000 < remaining then floor_ms + 1 else floor_ms)
                    in if rounded \<ge> int_max then int_max else rounded
                  else 0)
               in if timeout < 0 then timer_timeout else min timeout timer_timeout))"

text \<open>
  One turn of the loop of \<open>dispatch_timers\<close>: it ends, or an entry is popped that is stale, or
  one whose callback is to be called.
\<close>

datatype 'cb turn = TurnEnds | TurnStale "'cb engine" | TurnFires 'cb "'cb engine"

definition dispatch_turn :: "int \<Rightarrow> 'cb engine \<Rightarrow> 'cb turn" where
  "dispatch_turn now e =
     (if eng_stopped e then TurnEnds
      else case eng_queue e of
        [] \<Rightarrow> TurnEnds
      | (deadline, tid) # rest \<Rightarrow>
          if deadline > now then TurnEnds
          else
            let e1 = e\<lparr>eng_queue := rest\<rparr> in
            case map_of (eng_timers e1) tid of
              None \<Rightarrow> TurnStale e1
            | Some t \<Rightarrow> TurnFires (tm_callback t) (e1\<lparr>eng_timers := map_erase tid (eng_timers e1)\<rparr>))"

section \<open>The loop\<close>

text \<open>How the engine sits in the state of the program, and what calling a callback does.\<close>

record ('s, 'cb) embedding =
  get_engine :: "'s \<Rightarrow> 'cb engine"
  put_engine :: "'cb engine \<Rightarrow> 's \<Rightarrow> 's"
  read_clock :: "'s \<Rightarrow> int \<times> 's"
  call :: "'cb \<Rightarrow> 's \<Rightarrow> 's"

partial_function (option) dispatch_timers :: "('s, 'cb) embedding \<Rightarrow> 's \<Rightarrow> 's option" where
  "dispatch_timers w s =
     (if eng_stopped (get_engine w s) \<or> eng_queue (get_engine w s) = [] then Some s
      else case read_clock w s of (now, s1) \<Rightarrow>
        (case dispatch_turn now (get_engine w s1) of
           TurnEnds \<Rightarrow> Some s1
         | TurnStale e \<Rightarrow> dispatch_timers w (put_engine w e s1)
         | TurnFires cb e \<Rightarrow> dispatch_timers w (call w cb (put_engine w e s1))))"

text \<open>What \<open>epoll_wait\<close> returned: ready tokens with their native masks, an interruption, or an error.\<close>

datatype poll = Ready "(u64 \<times> u32) list" | Interrupted | WaitError

definition set_ready :: "event_id \<Rightarrow> u32 \<Rightarrow> 'cb engine \<Rightarrow> 'cb engine" where
  "set_ready eid m e =
     (case map_of (eng_events e) eid of
        None \<Rightarrow> e
      | Some ev \<Rightarrow> e\<lparr>eng_events := map_put eid (ev\<lparr>ev_ready := m\<rparr>) (eng_events e)\<rparr>)"

fun dispatch_events :: "('s, 'cb) embedding \<Rightarrow> (u64 \<times> u32) list \<Rightarrow> 's \<Rightarrow> 's" where
  "dispatch_events w [] s = s"
| "dispatch_events w ((token, native) # rest) s =
     (case map_of (eng_tokens (get_engine w s)) token of
        None \<Rightarrow> dispatch_events w rest s
      | Some eid \<Rightarrow>
          (case map_of (eng_events (get_engine w s)) eid of
             None \<Rightarrow> dispatch_events w rest s
           | Some ev \<Rightarrow>
               if \<not> ev_registered ev \<or> ev_token ev \<noteq> token then dispatch_events w rest s
               else
                 let s1 = put_engine w (set_ready eid (from_native_mask native) (get_engine w s)) s;
                     s2 = (case ev_callback ev of None \<Rightarrow> s1 | Some cb \<Rightarrow> call w cb s1);
                     s3 = (if map_of (eng_tokens (get_engine w s2)) token = Some eid
                           then put_engine w (set_ready eid 0 (get_engine w s2)) s2 else s2)
                 in if eng_stopped (get_engine w s3) then s3 else dispatch_events w rest s3))"

definition idle :: "'cb engine \<Rightarrow> bool" where
  "idle e \<longleftrightarrow> eng_registered e = [] \<and> eng_timers e = []"

definition run_once_impl :: "('s, 'cb) embedding \<Rightarrow> poll \<Rightarrow> 's \<Rightarrow> (status_code \<times> 's) option" where
  "run_once_impl w p s =
     (if idle (get_engine w s) then Some (Ok, s)
      else
        let e = get_engine w s;
            s1 = put_engine w (e\<lparr>eng_queue := prune_queue (eng_timers e) (eng_queue e)\<rparr>) s
        in case p of
             WaitError \<Rightarrow> Some (IoError, s1)
           | Interrupted \<Rightarrow> map_option (Pair Ok) (dispatch_timers w s1)
           | Ready evs \<Rightarrow> map_option (Pair Ok) (dispatch_timers w (dispatch_events w evs s1)))"

definition set_running :: "('s, 'cb) embedding \<Rightarrow> bool \<Rightarrow> bool \<Rightarrow> 's \<Rightarrow> 's" where
  "set_running w running stopped s =
     put_engine w ((get_engine w s)\<lparr>eng_running := running, eng_stopped := stopped\<rparr>) s"

definition engine_run_once :: "('s, 'cb) embedding \<Rightarrow> poll \<Rightarrow> 's \<Rightarrow> (status_code \<times> 's) option" where
  "engine_run_once w p s =
     (let e = get_engine w s in
      if eng_init_status e \<noteq> Ok then Some (eng_init_status e, s)
      else if \<not> eng_open e then Some (InvalidArgument, s)
      else if eng_running e then Some (InvalidArgument, s)
      else map_option (\<lambda>(st, s1). (st, set_running w False False s1))
             (run_once_impl w p (set_running w True False s)))"

text \<open>
  The loop of \<open>run\<close> on the waits that return: \<open>None\<close> when it is still waiting after all of
  them (or a dispatch does not return).
\<close>

fun run_loop :: "('s, 'cb) embedding \<Rightarrow> poll list \<Rightarrow> 's \<Rightarrow> (status_code \<times> 's) option" where
  "run_loop w polls s =
     (if eng_stopped (get_engine w s) \<or> idle (get_engine w s) then Some (Ok, s)
      else case polls of
        [] \<Rightarrow> None
      | p # rest \<Rightarrow>
          (case run_once_impl w p s of
             None \<Rightarrow> None
           | Some (st, s1) \<Rightarrow> if st \<noteq> Ok then Some (st, s1) else run_loop w rest s1))"

declare run_loop.simps [simp del]

definition engine_run :: "('s, 'cb) embedding \<Rightarrow> poll list \<Rightarrow> 's \<Rightarrow> (status_code \<times> 's) option" where
  "engine_run w polls s =
     (let e = get_engine w s in
      if eng_init_status e \<noteq> Ok then Some (eng_init_status e, s)
      else if \<not> eng_open e then Some (InvalidArgument, s)
      else if eng_running e then Some (InvalidArgument, s)
      else map_option (\<lambda>(st, s1). (st, put_engine w ((get_engine w s1)\<lparr>eng_running := False\<rparr>) s1))
             (run_loop w polls (set_running w True False s)))"

section \<open>Timer invariant\<close>

definition queue_sorted :: "(int \<times> u64) list \<Rightarrow> bool" where
  "queue_sorted q \<longleftrightarrow> sorted (map fst q)"

text \<open>
  Every live timer has its entry in the queue, under its deadline; identifiers are used once;
  \<open>next\<close> is zero only when all of them are used up.
\<close>

definition timers_inv :: "'cb engine \<Rightarrow> bool" where
  "timers_inv e \<longleftrightarrow>
     map_ok (eng_timers e) \<and> queue_sorted (eng_queue e) \<and> distinct (map snd (eng_queue e)) \<and>
     (\<forall>(tid, t)\<in>set (eng_timers e). (tm_deadline t, tid) \<in> set (eng_queue e)) \<and>
     (\<forall>(_, tid)\<in>set (eng_queue e). tid \<noteq> 0 \<and> (eng_next_timer e \<noteq> 0 \<longrightarrow> tid < eng_next_timer e))"

lemma set_queue_insert [simp]: "set (queue_insert x q) = insert x (set q)"
  by (induction q) auto

lemma sorted_queue_insert: "queue_sorted q \<Longrightarrow> queue_sorted (queue_insert x q)"
  unfolding queue_sorted_def by (induction q) (auto simp: not_less order.trans)

lemma distinct_queue_insert:
  "distinct (map snd q) \<Longrightarrow> snd x \<notin> snd ` set q \<Longrightarrow> distinct (map snd (queue_insert x q))"
  by (induction q) auto

lemma timers_inv_new: "timers_inv (new_engine b)"
  by (simp add: timers_inv_def new_engine_def queue_sorted_def)

lemma schedule_id: "timers_inv e \<Longrightarrow> eng_open e \<Longrightarrow> eng_next_timer e \<noteq> 0 \<Longrightarrow>
  fst (engine_schedule now delay cb e) = eng_next_timer e"
  by (simp add: engine_schedule_def Let_def)

lemma timers_inv_fresh: "timers_inv e \<Longrightarrow> eng_next_timer e \<noteq> 0 \<Longrightarrow>
  map_of (eng_timers e) (eng_next_timer e) = None \<and> eng_next_timer e \<notin> snd ` set (eng_queue e)"
  by (force simp: timers_inv_def map_of_eq_None_iff)

lemma timers_inv_schedule:
  assumes "timers_inv e"
  shows "timers_inv (snd (engine_schedule now delay cb e))"
proof (cases "eng_open e \<and> eng_next_timer e \<noteq> 0")
  case False
  with assms show ?thesis by (auto simp: engine_schedule_def)
next
  case True
  let ?n = "eng_next_timer e" and ?d = "now + max delay 0"
  have fresh: "map_of (eng_timers e) ?n = None" "?n \<notin> snd ` set (eng_queue e)"
    using timers_inv_fresh [OF assms] True by simp_all
  have next_ok: "?n + 1 \<noteq> 0 \<Longrightarrow> ?n < ?n + 1"
    by (rule word_less_succ)
  have e: "snd (engine_schedule now delay cb e) =
      e\<lparr>eng_next_timer := ?n + 1,
        eng_timers := (?n, \<lparr>tm_deadline = ?d, tm_callback = cb\<rparr>) # eng_timers e,
        eng_queue := queue_insert (?d, ?n) (eng_queue e)\<rparr>"
    using True fresh by (simp add: engine_schedule_def Let_def map_emplace_def map_has_def)
  have "(\<forall>(_, tid)\<in>set (eng_queue e). tid \<noteq> 0 \<and> (?n + 1 \<noteq> 0 \<longrightarrow> tid < ?n + 1))"
    using assms True next_ok by (fastforce simp: timers_inv_def intro: order.strict_trans)
  then show ?thesis
    using assms True fresh next_ok sorted_queue_insert distinct_queue_insert
    unfolding e timers_inv_def
    by (auto simp: map_of_eq_None_iff)
qed

lemma timers_inv_cancel:
  assumes "timers_inv e"
  shows "timers_inv (engine_cancel tid e)"
  using assms by (auto simp: timers_inv_def engine_cancel_def map_ok_erase set_map_erase)

lemma timers_inv_prune:
  assumes "timers_inv e"
  shows "timers_inv (e\<lparr>eng_queue := prune_queue (eng_timers e) (eng_queue e)\<rparr>)"
proof -
  have "\<exists>ys. q = ys @ prune_queue ts q \<and> (\<forall>y\<in>set ys. \<not> map_has ts (snd y))" for q and ts :: "(u64 \<times> 'a timer) list"
  proof (induction q)
    case (Cons x q)
    then obtain ys where ys: "q = ys @ prune_queue ts q" "\<forall>y\<in>set ys. \<not> map_has ts (snd y)" by blast
    show ?case
    proof (cases "map_has ts (snd x)")
      case False
      with ys show ?thesis by (intro exI [of _ "x # ys"]) auto
    qed (auto intro: exI [of _ "[]"])
  qed simp
  then obtain ys where ys: "eng_queue e = ys @ prune_queue (eng_timers e) (eng_queue e)"
    "\<forall>y\<in>set ys. \<not> map_has (eng_timers e) (snd y)" by blast
  let ?q = "prune_queue (eng_timers e) (eng_queue e)"
  have inv: "map_ok (eng_timers e)" "queue_sorted (ys @ ?q)" "distinct (map snd (ys @ ?q))"
    "\<forall>(tid, t)\<in>set (eng_timers e). (tm_deadline t, tid) \<in> set (ys @ ?q)"
    "\<forall>(_, tid)\<in>set (ys @ ?q). tid \<noteq> 0 \<and> (eng_next_timer e \<noteq> 0 \<longrightarrow> tid < eng_next_timer e)"
    using assms by (simp_all add: timers_inv_def flip: ys(1))
  have "\<forall>(tid, t)\<in>set (eng_timers e). (tm_deadline t, tid) \<in> set ?q"
    using inv(4) ys(2) by (fastforce simp: map_has_iff)
  with inv show ?thesis
    by (auto simp: timers_inv_def queue_sorted_def sorted_append)
qed

text \<open>What one turn of the dispatch loop does with the timers.\<close>

lemma turn_fires:
  assumes "timers_inv e" and "dispatch_turn now e = TurnFires cb e'"
  obtains tid t where "map_of (eng_timers e) tid = Some t" and "tm_callback t = cb"
    and "tm_deadline t \<le> now" and "eng_timers e' = map_erase tid (eng_timers e)"
    and "eng_queue e = (tm_deadline t, tid) # eng_queue e'"
    and "e' = e\<lparr>eng_queue := eng_queue e', eng_timers := eng_timers e'\<rparr>"
proof -
  from assms(2) obtain d tid rest where q: "eng_queue e = (d, tid) # rest" "d \<le> now" "\<not> eng_stopped e"
    by (auto simp: dispatch_turn_def not_less split: if_splits list.splits)
  with assms(2) obtain t where t: "map_of (eng_timers e) tid = Some t" "tm_callback t = cb"
    and e': "e' = e\<lparr>eng_queue := rest, eng_timers := map_erase tid (eng_timers e)\<rparr>"
    by (auto simp: dispatch_turn_def Let_def split: option.splits)
  have "(tm_deadline t, tid) \<in> set (eng_queue e)"
    using assms(1) map_of_SomeD [OF t(1)] by (auto simp: timers_inv_def)
  moreover have "distinct (map snd (eng_queue e))" using assms(1) by (simp add: timers_inv_def)
  ultimately have "tm_deadline t = d" using q(1) by force
  with q t e' that show ?thesis by simp
qed

lemma timers_inv_turn:
  assumes "timers_inv e" and "dispatch_turn now e = TurnFires cb e' \<or> dispatch_turn now e = TurnStale e'"
  shows "timers_inv e'"
  using assms(2)
proof
  assume "dispatch_turn now e = TurnFires cb e'"
  with assms(1) obtain tid t where "map_of (eng_timers e) tid = Some t"
    "eng_timers e' = map_erase tid (eng_timers e)" "eng_queue e = (tm_deadline t, tid) # eng_queue e'"
    "e' = e\<lparr>eng_queue := eng_queue e', eng_timers := eng_timers e'\<rparr>"
    by (rule turn_fires)
  moreover from this(4) have "eng_next_timer e' = eng_next_timer e"
    by (metis engine.select_convs(10) engine.surjective engine.update_convs(8,9))
  ultimately show ?thesis
    using assms(1) by (auto simp: timers_inv_def map_ok_erase set_map_erase queue_sorted_def)
next
  assume "dispatch_turn now e = TurnStale e'"
  then obtain d tid rest where "eng_queue e = (d, tid) # rest" "map_of (eng_timers e) tid = None"
    "e' = e\<lparr>eng_queue := rest\<rparr>"
    by (auto simp: dispatch_turn_def Let_def split: if_splits list.splits option.splits)
  moreover from this(2) have "\<forall>x\<in>set (eng_timers e). fst x \<noteq> tid"
    by (force simp: map_of_eq_None_iff)
  ultimately show ?thesis
    using assms(1) by (fastforce simp: timers_inv_def queue_sorted_def)
qed

lemma turn_earliest:
  assumes "timers_inv e" and "dispatch_turn now e = TurnFires cb e'" and "map_of (eng_timers e') tid' = Some t'"
  shows "\<exists>tid t. map_of (eng_timers e) tid = Some t \<and> tm_callback t = cb \<and> tid' \<noteq> tid \<and>
    tm_deadline t \<le> tm_deadline t'"
proof -
  from assms(1,2) obtain tid t where t: "map_of (eng_timers e) tid = Some t" "tm_callback t = cb"
    "eng_timers e' = map_erase tid (eng_timers e)" "eng_queue e = (tm_deadline t, tid) # eng_queue e'"
    by (rule turn_fires)
  from assms(3) t(3) have t': "map_of (eng_timers e) tid' = Some t'" "tid' \<noteq> tid"
    by (simp_all add: map_of_erase split: if_splits)
  have "(tm_deadline t', tid') \<in> set (eng_queue e)"
    using assms(1) map_of_SomeD [OF t'(1)] by (auto simp: timers_inv_def)
  moreover have "queue_sorted (eng_queue e)" using assms(1) by (simp add: timers_inv_def)
  ultimately have "tm_deadline t \<le> tm_deadline t'" using t(4) by (force simp: queue_sorted_def)
  with t t' show ?thesis by blast
qed

lemma turn_ends_none_due:
  assumes "timers_inv e" and "dispatch_turn now e = TurnEnds" and "\<not> eng_stopped e"
    and "map_of (eng_timers e) tid = Some t"
  shows "now < tm_deadline t"
proof -
  have mem: "(tm_deadline t, tid) \<in> set (eng_queue e)"
    using assms(1) map_of_SomeD [OF assms(4)] by (auto simp: timers_inv_def)
  then obtain d tid' rest where q: "eng_queue e = (d, tid') # rest" by (cases "eng_queue e") auto
  with assms(2,3) have "now < d"
    by (auto simp: dispatch_turn_def Let_def split: if_splits option.splits)
  moreover have "queue_sorted (eng_queue e)" using assms(1) by (simp add: timers_inv_def)
  ultimately show ?thesis using mem q by (force simp: queue_sorted_def)
qed

section \<open>Waiting\<close>

lemma prune_head:
  "prune_queue ts q = (d, tid) # rest \<Longrightarrow> map_has ts tid"
  by (induction q) (auto split: if_splits)

text \<open>
  After pruning, a wait without a bound of the caller's sleeps until the earliest live deadline:
  at least to it (unless the 32-bit limit cuts the wait), and less than one millisecond beyond.
\<close>

lemma wait_reaches_deadline:
  assumes "timers_inv e" and "eng_queue e = prune_queue (eng_timers e) (eng_queue e)"
    and "map_of (eng_timers e) tid = Some t"
  shows "0 \<le> wait_timeout_ms now (- 1) e \<and> wait_timeout_ms now (- 1) e \<le> int_max \<and>
    (now < tm_deadline t \<longrightarrow> now + (wait_timeout_ms now (- 1) e - 1) * 1000000 < tm_deadline t) \<and>
    (\<exists>tid' t'. map_of (eng_timers e) tid' = Some t' \<and> tm_deadline t' \<le> tm_deadline t \<and>
       (wait_timeout_ms now (- 1) e < int_max \<longrightarrow> tm_deadline t' \<le> now + wait_timeout_ms now (- 1) e * 1000000))"
proof -
  have mem: "(tm_deadline t, tid) \<in> set (eng_queue e)"
    using assms(1) map_of_SomeD [OF assms(3)] by (auto simp: timers_inv_def)
  then obtain d tid' rest where q: "eng_queue e = (d, tid') # rest" by (cases "eng_queue e") auto
  have "map_has (eng_timers e) tid'" using assms(2) q prune_head by metis
  then obtain t' where t': "map_of (eng_timers e) tid' = Some t'" by (auto simp: map_has_def)
  have "(tm_deadline t', tid') \<in> set (eng_queue e)"
    using assms(1) map_of_SomeD [OF t'] by (auto simp: timers_inv_def)
  moreover have "distinct (map snd (eng_queue e))" using assms(1) by (simp add: timers_inv_def)
  ultimately have d: "tm_deadline t' = d" using q by force
  have "queue_sorted (eng_queue e)" using assms(1) by (simp add: timers_inv_def)
  then have le: "tm_deadline t' \<le> tm_deadline t" using mem q d by (force simp: queue_sorted_def)
  define r where "r = tm_deadline t' - now"
  define u where "u = (if r div 1000000 * 1000000 < r then r div 1000000 + 1 else r div 1000000)"
  have w: "wait_timeout_ms now (- 1) e =
      (if tm_deadline t' > now then (if u \<ge> int_max then int_max else u) else 0)"
    using q t' by (simp add: wait_timeout_ms_def Let_def u_def r_def)
  have "1000000 * (r div 1000000) \<le> r" "r < 1000000 * (r div 1000000) + 1000000"
    using div_mult_mod_eq [of r 1000000] pos_mod_bound [of 1000000 r] pos_mod_sign [of 1000000 r] by linarith+
  then have u: "r \<le> u * 1000000" "(u - 1) * 1000000 < r" by (simp_all add: u_def)
  have r: "tm_deadline t' = now + r" by (simp add: r_def)
  show ?thesis
  proof (cases "0 < r")
    case False
    then show ?thesis using w le t' r by (intro conjI impI exI [of _ tid'] exI [of _ t']) (simp_all add: int_max_def)
  next
    case True
    then have p: "0 < u" using u(1) by linarith
    show ?thesis
    proof (cases "int_max \<le> u")
      case cut: True
      then have wc: "wait_timeout_ms now (- 1) e = int_max" using w True r by simp
      have "(int_max - 1) * 1000000 \<le> (u - 1) * 1000000" using cut by (intro mult_right_mono) simp_all
      then have "now + (int_max - 1) * 1000000 < tm_deadline t"
        using u(2) le r by linarith
      then show ?thesis
        using le t' unfolding wc by (intro conjI impI exI [of _ tid'] exI [of _ t']) (simp_all add: int_max_def)
    next
      case False
      then have wu: "wait_timeout_ms now (- 1) e = u" using w True r by simp
      have "now + (u - 1) * 1000000 < tm_deadline t" "tm_deadline t' \<le> now + u * 1000000"
        using u le r by linarith+
      then show ?thesis
        using p False le t' unfolding wu by (intro conjI impI exI [of _ tid'] exI [of _ t']) simp_all
    qed
  qed
qed

section \<open>Embeddings\<close>

text \<open>
  The interface between the reactor and a program that embeds it: reading back the engine that
  was put in place, and a clock that does not touch the engine.
\<close>

locale engine_host =
  fixes w :: "('s, 'cb) embedding"
  assumes get_put: "get_engine w (put_engine w e s) = e"
    and put_put: "put_engine w e (put_engine w e' s) = put_engine w e s"
    and put_get: "put_engine w (get_engine w s) s = s"
    and clock_engine: "get_engine w (snd (read_clock w s)) = get_engine w s"
begin

text \<open>\<open>run\<close> clears the stop request before its loop: a \<open>stop\<close> made before it is forgotten.\<close>

lemma stop_before_run_forgotten:
  "engine_run w polls (put_engine w (engine_stop (get_engine w s)) s) =
     (if eng_init_status (get_engine w s) \<noteq> Ok \<or> \<not> eng_open (get_engine w s) \<or> eng_running (get_engine w s)
      then map_option (\<lambda>(st, s'). (st, put_engine w (engine_stop (get_engine w s)) s)) (engine_run w polls s)
      else engine_run w polls s)"
  by (simp add: engine_run_def Let_def get_put put_put set_running_def engine_stop_def)

lemma run_once_clears_stop:
  assumes "eng_init_status (get_engine w s) = Ok" and "eng_open (get_engine w s)" and "\<not> eng_running (get_engine w s)"
    and "engine_run_once w p s = Some (st, s')"
  shows "\<not> eng_stopped (get_engine w s') \<and> \<not> eng_running (get_engine w s')"
  using assms by (auto simp: engine_run_once_def Let_def set_running_def get_put)

text \<open>The loop ends at once when nothing is registered and no timer is live.\<close>

lemma run_idle:
  assumes "eng_init_status (get_engine w s) = Ok" and "eng_open (get_engine w s)" and "\<not> eng_running (get_engine w s)"
    and "idle (get_engine w s)"
  shows "\<exists>s'. engine_run w polls s = Some (Ok, s')"
  using assms by (simp add: engine_run_def Let_def set_running_def run_loop.simps [of w polls] get_put idle_def)

text \<open>
  With something registered the loop only returns after a wait: an engine with no live timer,
  whose descriptors stay silent, waits forever whatever was stopped before.
\<close>

lemma run_blocks:
  assumes "eng_init_status (get_engine w s) = Ok" and "eng_open (get_engine w s)" and "\<not> eng_running (get_engine w s)"
    and "eng_registered (get_engine w s) \<noteq> []"
  shows "engine_run w [] s = None"
  using assms by (simp add: engine_run_def Let_def set_running_def run_loop.simps [of w "[]"] get_put idle_def)

text \<open>A dispatch leaves no due timer behind, when the callbacks keep the timers well formed.\<close>

lemma dispatch_none_due:
  assumes "\<And>cb s. timers_inv (get_engine w s) \<Longrightarrow> timers_inv (get_engine w (call w cb s))"
    and "timers_inv (get_engine w s)" and "dispatch_timers w s = Some s'"
  shows "timers_inv (get_engine w s') \<and>
    (eng_stopped (get_engine w s') \<or> eng_queue (get_engine w s') = [] \<or>
     (\<exists>now s1. s' = snd (read_clock w s1) \<and> now = fst (read_clock w s1) \<and>
       (\<forall>tid t. map_of (eng_timers (get_engine w s')) tid = Some t \<longrightarrow> now < tm_deadline t)))"
proof -
  have "w' = w \<Longrightarrow> timers_inv (get_engine w s) \<Longrightarrow> timers_inv (get_engine w s') \<and>
    (eng_stopped (get_engine w s') \<or> eng_queue (get_engine w s') = [] \<or>
     (\<exists>now s1. s' = snd (read_clock w s1) \<and> now = fst (read_clock w s1) \<and>
       (\<forall>tid t. map_of (eng_timers (get_engine w s')) tid = Some t \<longrightarrow> now < tm_deadline t)))"
    if "dispatch_timers w' s = Some s'" for w'
    using that
  proof (induction rule: dispatch_timers.raw_induct [rotated, consumes 1, case_names step])
    case (step dispatch w' s s')
    have body: "(if eng_stopped (get_engine w s) \<or> eng_queue (get_engine w s) = [] then Some s
      else case read_clock w s of (now, s1) \<Rightarrow>
        (case dispatch_turn now (get_engine w s1) of
           TurnEnds \<Rightarrow> Some s1
         | TurnStale e \<Rightarrow> dispatch w (put_engine w e s1)
         | TurnFires cb e \<Rightarrow> dispatch w (call w cb (put_engine w e s1)))) = Some s'"
      using step.hyps unfolding step.prems(1) .
    show ?case
    proof (cases "eng_stopped (get_engine w s) \<or> eng_queue (get_engine w s) = []")
      case True
      with body step.prems(2) show ?thesis by auto
    next
      case False
      obtain now s1 where c: "read_clock w s = (now, s1)" by fastforce
      have e1: "get_engine w s1 = get_engine w s" using clock_engine [of s] c by simp
      show ?thesis
      proof (cases "dispatch_turn now (get_engine w s1)")
        case TurnEnds
        with body False c have "s' = s1" by simp
        moreover have "\<forall>tid t. map_of (eng_timers (get_engine w s1)) tid = Some t \<longrightarrow> now < tm_deadline t"
          using turn_ends_none_due [of "get_engine w s1" now] TurnEnds False step.prems(2) e1 by simp
        ultimately show ?thesis using step.prems(2) c e1 by (metis fst_conv snd_conv)
      next
        case (TurnStale e)
        with body False c have "dispatch w (put_engine w e s1) = Some s'" by simp
        moreover have "timers_inv e"
          using timers_inv_turn [of "get_engine w s1" now _ e] TurnStale step.prems(2) e1 by simp
        ultimately show ?thesis using step.IH [OF _ refl] get_put by simp
      next
        case (TurnFires cb e)
        with body False c have "dispatch w (call w cb (put_engine w e s1)) = Some s'" by simp
        moreover have "timers_inv e"
          using timers_inv_turn [of "get_engine w s1" now cb e] TurnFires step.prems(2) e1 by simp
        ultimately show ?thesis using step.IH [OF _ refl] assms(1) [of "put_engine w e s1" cb] get_put by simp
      qed
    qed
  qed
  from this [OF assms(3) refl assms(2)] show ?thesis .
qed

end

end
