(* ===== verification/Ordering.thy ===== *)
theory Ordering
  imports Prelude
begin

text \<open>
  What \<open>std::sort\<close> and \<open>std::unique\<close> are given and what they promise. \<open>std::sort\<close>
  requires its comparison to be a strict weak order; the locale \<open>strict_weak_order\<close> is that
  requirement, and each comparison of the program is an interpretation of it in the theory
  that models the comparison. The algorithm is modelled by insertion; \<open>std::sort\<close> leaves the
  order of equivalent elements open, so the development only uses that the result is a
  sorted permutation.
\<close>

fun insert_by :: "('a \<Rightarrow> 'a \<Rightarrow> bool) \<Rightarrow> 'a \<Rightarrow> 'a list \<Rightarrow> 'a list" where
  "insert_by lt x [] = [x]"
| "insert_by lt x (y # ys) = (if lt y x then y # insert_by lt x ys else x # y # ys)"

definition sort_by :: "('a \<Rightarrow> 'a \<Rightarrow> bool) \<Rightarrow> 'a list \<Rightarrow> 'a list" where
  "sort_by lt xs = foldr (insert_by lt) xs []"

fun unique_adjacent :: "'a list \<Rightarrow> 'a list" where
  "unique_adjacent [] = []"
| "unique_adjacent [x] = [x]"
| "unique_adjacent (x # y # ys) =
     (if x = y then unique_adjacent (x # ys) else x # unique_adjacent (y # ys))"

lemma mset_insert_by [simp]: "mset (insert_by lt x ys) = add_mset x (mset ys)"
  by (induction ys) auto

lemma mset_sort_by [simp]: "mset (sort_by lt xs) = mset xs"
  by (induction xs) (auto simp: sort_by_def)

lemma set_sort_by [simp]: "set (sort_by lt xs) = set xs"
  by (metis mset_sort_by set_mset_mset)

lemma length_sort_by [simp]: "length (sort_by lt xs) = length xs"
  by (metis mset_sort_by size_mset)

lemma set_unique_adjacent [simp]: "set (unique_adjacent xs) = set xs"
  by (induction xs rule: unique_adjacent.induct) auto

lemma hd_unique_adjacent: "xs \<noteq> [] \<Longrightarrow> hd (unique_adjacent xs) = hd xs"
  by (induction xs rule: unique_adjacent.induct) auto

locale strict_weak_order =
  fixes lt :: "'a \<Rightarrow> 'a \<Rightarrow> bool"
  assumes irrefl: "\<not> lt x x"
    and trans: "lt x y \<Longrightarrow> lt y z \<Longrightarrow> lt x z"
    and incomparable_trans:
      "\<not> lt x y \<Longrightarrow> \<not> lt y x \<Longrightarrow> \<not> lt y z \<Longrightarrow> \<not> lt z y \<Longrightarrow> \<not> lt x z \<and> \<not> lt z x"
begin

lemma asym: "lt x y \<Longrightarrow> \<not> lt y x"
  using irrefl trans by blast

lemma negative_trans: "\<not> lt y x \<Longrightarrow> \<not> lt z y \<Longrightarrow> \<not> lt z x"
  by (metis asym incomparable_trans trans)

lemma sorted_insert_by:
  "sorted_wrt (\<lambda>a b. \<not> lt b a) ys \<Longrightarrow> sorted_wrt (\<lambda>a b. \<not> lt b a) (insert_by lt x ys)"
proof (induction ys)
  case (Cons y ys)
  have set_ins: "set (insert_by lt x ys) = insert x (set ys)"
    by (metis mset_insert_by set_mset_add_mset_insert set_mset_mset)
  show ?case
  proof (cases "lt y x")
    case True
    with Cons set_ins show ?thesis by (auto dest: asym)
  next
    case False
    with Cons.prems show ?thesis by (auto dest: negative_trans [OF False])
  qed
qed simp

lemma sorted_sort_by: "sorted_wrt (\<lambda>a b. \<not> lt b a) (sort_by lt xs)"
  by (induction xs) (simp_all add: sort_by_def sorted_insert_by)

lemma sort_by_sorted: "sorted_wrt (\<lambda>a b. \<not> lt b a) xs \<Longrightarrow> sort_by lt xs = xs"
proof (induction xs)
  case (Cons x xs)
  then have "sort_by lt xs = xs" by simp
  moreover have "insert_by lt x xs = x # xs"
    using Cons.prems by (cases xs) auto
  ultimately show ?case by (simp add: sort_by_def)
qed (simp add: sort_by_def)

end

locale strict_total_order = strict_weak_order +
  assumes total: "x \<noteq> y \<Longrightarrow> lt x y \<or> lt y x"
begin

lemma strictly_sorted_unique:
  "sorted_wrt (\<lambda>a b. \<not> lt b a) xs \<Longrightarrow> sorted_wrt lt (unique_adjacent xs)"
proof (induction xs rule: unique_adjacent.induct)
  case (3 x y ys)
  show ?case
  proof (cases "x = y")
    case True
    with 3 show ?thesis by simp
  next
    case False
    with "3.prems" have "lt x y" using total by auto
    moreover have "lt x z" if "z \<in> set ys" for z
      using "3.prems" that \<open>lt x y\<close> total trans by (metis list.set_intros(2) sorted_wrt.simps(2))
    ultimately show ?thesis using 3 False by auto
  qed
qed auto

lemma strictly_sorted_determined:
  "set us = set vs \<Longrightarrow> sorted_wrt lt us \<Longrightarrow> sorted_wrt lt vs \<Longrightarrow> us = vs"
proof (induction us arbitrary: vs)
  case (Cons u us)
  then obtain v ws where vs: "vs = v # ws" by (cases vs) auto
  have "u = v"
    using Cons.prems vs by (metis asym insert_iff list.simps(15) sorted_wrt.simps(2))
  moreover have "u \<notin> set us" "v \<notin> set ws"
    using Cons.prems vs irrefl by auto
  ultimately have "set us = set ws" using Cons.prems vs by auto
  with Cons vs \<open>u = v\<close> show ?case by auto
qed simp

lemma sort_unique_determined:
  assumes "set xs = set ys"
  shows "unique_adjacent (sort_by lt xs) = unique_adjacent (sort_by lt ys)"
  using assms
  by (intro strictly_sorted_determined strictly_sorted_unique sorted_sort_by) simp

lemma distinct_unique_sort: "distinct (unique_adjacent (sort_by lt xs))"
proof -
  have "sorted_wrt lt ys \<Longrightarrow> distinct ys" for ys
    by (induction ys) (auto simp: irrefl)
  then show ?thesis using strictly_sorted_unique [OF sorted_sort_by] by blast
qed

end

section \<open>Building comparisons\<close>

text \<open>
  The program's comparisons all have one shape: compare a first key; where it is equal,
  compare the rest.
\<close>

definition by_key :: "('k \<Rightarrow> 'k \<Rightarrow> bool) \<Rightarrow> ('a \<Rightarrow> 'k) \<Rightarrow> 'a \<Rightarrow> 'a \<Rightarrow> bool" where
  "by_key lt k x y \<longleftrightarrow> lt (k x) (k y)"

definition then_by ::
  "('k \<Rightarrow> 'k \<Rightarrow> bool) \<Rightarrow> ('a \<Rightarrow> 'k) \<Rightarrow> ('a \<Rightarrow> 'a \<Rightarrow> bool) \<Rightarrow> 'a \<Rightarrow> 'a \<Rightarrow> bool" where
  "then_by lt k rest x y \<longleftrightarrow> lt (k x) (k y) \<or> (k x = k y \<and> rest x y)"

lemma strict_total_orderI:
  assumes "\<And>x. \<not> lt x x" and "\<And>x y z. lt x y \<Longrightarrow> lt y z \<Longrightarrow> lt x z"
    and "\<And>x y. x \<noteq> y \<Longrightarrow> lt x y \<or> lt y x"
  shows "strict_total_order lt"
proof
  fix x y z
  show "\<not> lt x x" by (rule assms(1))
  show "lt x y \<Longrightarrow> lt y z \<Longrightarrow> lt x z" by (rule assms(2))
  show "x \<noteq> y \<Longrightarrow> lt x y \<or> lt y x" by (rule assms(3))
  assume "\<not> lt x y" "\<not> lt y x" "\<not> lt y z" "\<not> lt z y"
  then have "x = y" "y = z" using assms(3) by blast+
  then show "\<not> lt x z \<and> \<not> lt z x" using assms(1) by simp
qed

lemma total_linorder: "strict_total_order ((<) :: 'a::linorder \<Rightarrow> 'a \<Rightarrow> bool)"
  by unfold_locales auto

lemma total_lex: "strict_total_order (lex_less :: 'a::linorder list \<Rightarrow> 'a list \<Rightarrow> bool)"
  by (rule strict_total_orderI [OF lex_less_irrefl lex_less_trans lex_less_total])

lemma weak_by_key: "strict_total_order lt \<Longrightarrow> strict_weak_order (by_key lt k)"
  unfolding strict_total_order_def strict_total_order_axioms_def strict_weak_order_def by_key_def
  by blast

lemma weak_then_by:
  assumes "strict_total_order lt" and "strict_weak_order rest"
  shows "strict_weak_order (then_by lt k rest)"
proof -
  have lt: "\<not> lt a a" "lt a b \<Longrightarrow> lt b c \<Longrightarrow> lt a c" "a \<noteq> b \<Longrightarrow> lt a b \<or> lt b a" for a b c
    using assms(1) unfolding strict_total_order_def strict_total_order_axioms_def strict_weak_order_def
    by blast+
  have rest: "\<not> rest a a" "rest a b \<Longrightarrow> rest b c \<Longrightarrow> rest a c"
    "\<not> rest a b \<Longrightarrow> \<not> rest b a \<Longrightarrow> \<not> rest b c \<Longrightarrow> \<not> rest c b \<Longrightarrow> \<not> rest a c \<and> \<not> rest c a" for a b c
    using assms(2) unfolding strict_weak_order_def by blast+
  have tot: "a = b" if "\<not> lt a b" "\<not> lt b a" for a b
    using lt(3) that by blast
  show ?thesis
  proof
    fix x show "\<not> then_by lt k rest x x"
      by (simp add: then_by_def lt(1) rest(1))
  next
    fix x y z
    assume "then_by lt k rest x y" "then_by lt k rest y z"
    then show "then_by lt k rest x z"
      unfolding then_by_def by (auto intro: lt(2) rest(2))
  next
    fix x y z
    assume n: "\<not> then_by lt k rest x y" "\<not> then_by lt k rest y x"
      "\<not> then_by lt k rest y z" "\<not> then_by lt k rest z y"
    then have "k x = k y" "k y = k z"
      by (auto simp: then_by_def intro: tot)
    with n rest(3) [of x y z] show "\<not> then_by lt k rest x z \<and> \<not> then_by lt k rest z x"
      by (auto simp: then_by_def lt(1))
  qed
qed

lemma strict_weak_order_cong:
  assumes "strict_weak_order f" and "\<And>x y. g x y \<longleftrightarrow> f x y"
  shows "strict_weak_order g"
proof -
  have "g = f" using assms(2) by blast
  with assms(1) show ?thesis by simp
qed

end
