(* ===== verification/Core_Types.thy ===== *)
theory Core_Types
  imports Status Ordering
begin

text \<open>
  Typed addresses and the value types of \<open>include/core/types.hpp\<close> and
  \<open>src/core/types.cpp\<close>. The C library calls (\<open>inet_pton\<close>, \<open>inet_ntop\<close>,
  \<open>if_nametoindex\<close>) are the fields of a \<open>libc\<close> record, a parameter of the functions that
  call them.
\<close>

section \<open>Addresses\<close>

datatype address_family = FamilyUnknown | FamilyIPv4 | FamilyIPv6

fun family_index :: "address_family \<Rightarrow> nat" where
  "family_index FamilyUnknown = 0"
| "family_index FamilyIPv4 = 1"
| "family_index FamilyIPv6 = 2"

record ip_address =
  ip_family :: address_family
  ip_bytes :: bytes
  ip_scope :: "string option"

definition default_ip :: ip_address where
  "default_ip = \<lparr>ip_family = FamilyUnknown, ip_bytes = replicate 16 0, ip_scope = None\<rparr>"

definition ip_wf :: "ip_address \<Rightarrow> bool" where
  "ip_wf a \<longleftrightarrow> length (ip_bytes a) = 16"

definition is_ipv4 :: "ip_address \<Rightarrow> bool" where
  "is_ipv4 a \<longleftrightarrow> ip_family a = FamilyIPv4"

definition is_ipv6 :: "ip_address \<Rightarrow> bool" where
  "is_ipv6 a \<longleftrightarrow> ip_family a = FamilyIPv6"

definition is_ipv6_link_local :: "ip_address \<Rightarrow> bool" where
  "is_ipv6_link_local a \<longleftrightarrow>
     is_ipv6 a \<and> ip_bytes a ! 0 = 0xFE \<and> (ip_bytes a ! 1) AND 0xC0 = 0x80"

definition has_scope :: "ip_address \<Rightarrow> bool" where
  "has_scope a \<longleftrightarrow> is_ipv6 a \<and> ip_scope a \<noteq> None \<and> ip_scope a \<noteq> Some []"

definition ip_valid :: "ip_address \<Rightarrow> bool" where
  "ip_valid a \<longleftrightarrow> is_ipv4 a \<or> is_ipv6 a"

definition octets_of_u32 :: "u32 \<Rightarrow> bytes" where
  "octets_of_u32 v =
     [ucast (drop_bit 24 v AND 0xFF), ucast (drop_bit 16 v AND 0xFF),
      ucast (drop_bit 8 v AND 0xFF), ucast (v AND 0xFF)]"

definition from_ipv4 :: "u32 \<Rightarrow> ip_address" where
  "from_ipv4 v =
     \<lparr>ip_family = FamilyIPv4, ip_bytes = octets_of_u32 v @ replicate 12 0, ip_scope = None\<rparr>"

definition from_ipv6 :: "bytes \<Rightarrow> ip_address" where
  "from_ipv6 bs = \<lparr>ip_family = FamilyIPv6, ip_bytes = bs, ip_scope = None\<rparr>"

definition ipv4_value :: "ip_address \<Rightarrow> u32" where
  "ipv4_value a =
     push_bit 24 (ucast (ip_bytes a ! 0)) OR push_bit 16 (ucast (ip_bytes a ! 1)) OR
     push_bit 8 (ucast (ip_bytes a ! 2)) OR ucast (ip_bytes a ! 3)"

text \<open>\<open>operator<\<close> on addresses.\<close>

definition ip_less :: "ip_address \<Rightarrow> ip_address \<Rightarrow> bool" where
  "ip_less l r =
     (if ip_family l \<noteq> ip_family r then family_index (ip_family l) < family_index (ip_family r)
      else
        let n = (if is_ipv4 l then 4 else 16);
            lb = take n (ip_bytes l); rb = take n (ip_bytes r)
        in if lb \<noteq> rb then lex_less lb rb
           else if (ip_scope l \<noteq> None) \<noteq> (ip_scope r \<noteq> None) then ip_scope l = None
           else (case (ip_scope l, ip_scope r) of
                   (Some s, Some t) \<Rightarrow> lex_less s t
                 | _ \<Rightarrow> False))"

text \<open>\<open>IpAddressHash\<close>: unsigned arithmetic on a 64-bit \<open>std::size_t\<close>.\<close>

definition hash_step :: "u64 \<Rightarrow> u64 \<Rightarrow> u64" where
  "hash_step h b = h XOR (b + 0x9E3779B9 + push_bit 6 h + drop_bit 2 h)"

definition ip_hash :: "ip_address \<Rightarrow> u64" where
  "ip_hash a =
     (let n = (if is_ipv4 a then 4 else if is_ipv6 a then 16 else 0);
          h = foldl (\<lambda>h b. hash_step h (ucast b)) (of_nat (family_index (ip_family a)))
                (take n (ip_bytes a))
      in if has_scope a then foldl (\<lambda>h c. hash_step h (of_char c)) h (the (ip_scope a)) else h)"

fun address_family_name :: "address_family \<Rightarrow> string" where
  "address_family_name FamilyIPv4 = ''ipv4''"
| "address_family_name FamilyIPv6 = ''ipv6''"
| "address_family_name FamilyUnknown = ''unknown''"

section \<open>Parsing and scopes\<close>

record libc =
  inet_pton4 :: "string \<Rightarrow> u32 option"
  inet_pton6 :: "string \<Rightarrow> bytes option"
  inet_ntop4 :: "u32 \<Rightarrow> string option"
  inet_ntop6 :: "bytes \<Rightarrow> string option"
  if_nametoindex :: "string \<Rightarrow> nat"

definition valid_scope_token :: "string \<Rightarrow> bool" where
  "valid_scope_token scope \<longleftrightarrow>
     scope \<noteq> [] \<and> length scope < 16 \<and>
     list_all (\<lambda>c. CHR 0x21 \<le> c \<and> c \<le> CHR 0x7E \<and> c \<noteq> CHR ''%'' \<and> c \<noteq> CHR '','' \<and> c \<noteq> CHR ''/'') scope"

definition scope_number_ok :: "string \<Rightarrow> bool" where
  "scope_number_ok scope \<longleftrightarrow>
     (list_all is_digit scope \<longrightarrow>
        (case from_chars (2 ^ 32 - 1) scope of
           None \<Rightarrow> False
         | Some (v, rest) \<Rightarrow> rest = [] \<and> v \<noteq> 0))"

definition parse_address_text :: "libc \<Rightarrow> string \<Rightarrow> string option \<Rightarrow> ip_address option" where
  "parse_address_text lc addr scope =
     (if addr = [] then None
      else case (if scope = None then inet_pton4 lc addr else None) of
             Some v \<Rightarrow> Some (from_ipv4 v)
           | None \<Rightarrow>
               (case inet_pton6 lc addr of
                  None \<Rightarrow> None
                | Some bs \<Rightarrow> Some ((from_ipv6 bs)\<lparr>ip_scope := scope\<rparr>)))"

definition parse_ip_address :: "libc \<Rightarrow> string \<Rightarrow> ip_address option" where
  "parse_ip_address lc text =
     (if text = [] then None
      else case dropWhile (\<lambda>c. c \<noteq> CHR ''%'') text of
             [] \<Rightarrow> parse_address_text lc text None
           | sep # scope \<Rightarrow>
               if CHR ''%'' \<in> set scope then None
               else if \<not> valid_scope_token scope then None
               else if \<not> scope_number_ok scope then None
               else parse_address_text lc (takeWhile (\<lambda>c. c \<noteq> CHR ''%'') text) (Some scope))"

definition ip_to_string :: "libc \<Rightarrow> ip_address \<Rightarrow> string" where
  "ip_to_string lc a =
     (if is_ipv4 a then
        (case inet_ntop4 lc (ipv4_value a) of Some s \<Rightarrow> s | None \<Rightarrow> [])
      else if is_ipv6 a then
        (case inet_ntop6 lc (ip_bytes a) of
           Some s \<Rightarrow> if has_scope a then s @ ''%'' @ the (ip_scope a) else s
         | None \<Rightarrow> [])
      else [])"

definition ipv6_scope_id :: "libc \<Rightarrow> ip_address \<Rightarrow> nat option" where
  "ipv6_scope_id lc a =
     (if \<not> is_ipv6 a then None
      else if \<not> has_scope a then Some 0
      else let scope = the (ip_scope a) in
        if list_all is_digit scope then
          (case from_chars (2 ^ 32 - 1) scope of
             Some (v, rest) \<Rightarrow> if rest = [] \<and> v \<noteq> 0 then Some v else None
           | None \<Rightarrow> None)
        else let idx = if_nametoindex lc scope in if idx = 0 then None else Some idx)"

definition ipv6_scope_matches_interface :: "libc \<Rightarrow> ip_address \<Rightarrow> string \<Rightarrow> bool" where
  "ipv6_scope_matches_interface lc a name =
     (if \<not> is_ipv6 a \<or> \<not> is_ipv6_link_local a \<or> \<not> has_scope a \<or> name = [] then False
      else let idx = if_nametoindex lc name in
        ipv6_scope_id lc a \<noteq> None \<and> idx \<noteq> 0 \<and> ipv6_scope_id lc a = Some idx)"

section \<open>Hosts and targets\<close>

record host =
  h_address :: string
  h_hostname :: "string option"
  h_is_up :: bool
  h_ip :: ip_address

record target =
  original_specification :: string
  resolved_hosts :: "host list"

section \<open>Lemmas\<close>

lemma ip_wf_default [simp]: "ip_wf default_ip"
  by (simp add: ip_wf_def default_ip_def)

lemma not_valid_default [simp]: "\<not> ip_valid default_ip"
  by (simp add: ip_valid_def is_ipv4_def is_ipv6_def default_ip_def)

lemma ip_wf_from_ipv4 [simp]: "ip_wf (from_ipv4 v)"
  by (simp add: ip_wf_def from_ipv4_def octets_of_u32_def)

lemma is_ipv4_from_ipv4 [simp]: "is_ipv4 (from_ipv4 v)" "\<not> is_ipv6 (from_ipv4 v)" "ip_valid (from_ipv4 v)"
  by (simp_all add: is_ipv4_def is_ipv6_def from_ipv4_def ip_valid_def)

lemma is_ipv6_from_ipv6 [simp]: "is_ipv6 (from_ipv6 bs)" "\<not> is_ipv4 (from_ipv6 bs)" "ip_valid (from_ipv6 bs)"
  by (simp_all add: is_ipv4_def is_ipv6_def from_ipv6_def ip_valid_def)

lemma ipv4_value_from_ipv4 [simp]: "ipv4_value (from_ipv4 v) = v"
  by (simp add: ipv4_value_def from_ipv4_def octets_of_u32_def u32_of_octets or.assoc)

fun option_less :: "string option \<Rightarrow> string option \<Rightarrow> bool" where
  "option_less None None = False"
| "option_less None (Some t) = True"
| "option_less (Some s) None = False"
| "option_less (Some s) (Some t) = lex_less s t"

lemma option_less_trans: "option_less x y \<Longrightarrow> option_less y z \<Longrightarrow> option_less x z"
  using lex_less_trans by (cases x; cases y; cases z) (simp_all, blast)

lemma option_less_total: "x \<noteq> y \<Longrightarrow> option_less x y \<or> option_less y x"
  using lex_less_total by (cases x; cases y) simp_all

lemma total_option_less: "strict_total_order option_less"
proof (rule strict_total_orderI [OF _ option_less_trans option_less_total])
  fix x show "\<not> option_less x x" by (cases x) simp_all
qed

definition ip_prefix :: "ip_address \<Rightarrow> bytes" where
  "ip_prefix a = take (if is_ipv4 a then 4 else 16) (ip_bytes a)"

lemma ip_less_eq:
  "ip_less = then_by (<) (family_index \<circ> ip_family)
     (then_by lex_less ip_prefix (by_key option_less ip_scope))"
proof (intro ext)
  have inj: "family_index f = family_index g \<longleftrightarrow> f = g" for f g
    by (cases f; cases g) simp_all
  fix l r
  show "ip_less l r = then_by (<) (family_index \<circ> ip_family)
     (then_by lex_less ip_prefix (by_key option_less ip_scope)) l r"
    by (auto simp: ip_less_def then_by_def by_key_def ip_prefix_def inj Let_def is_ipv4_def
        split: option.splits)
qed

interpretation ip_order: strict_weak_order ip_less
  unfolding ip_less_eq
  by (intro weak_then_by weak_by_key total_linorder total_lex total_option_less)

text \<open>
  Addresses the program builds: sixteen bytes, and for IPv4 the twelve unused ones zero and
  no scope. On them the order is total, so equality is incomparability.
\<close>

definition ip_canonical :: "ip_address \<Rightarrow> bool" where
  "ip_canonical a \<longleftrightarrow> ip_wf a \<and> (is_ipv4 a \<longrightarrow> drop 4 (ip_bytes a) = replicate 12 0)"

lemma ip_canonical_from_ipv4 [simp]: "ip_canonical (from_ipv4 v)"
  by (simp add: ip_canonical_def from_ipv4_def octets_of_u32_def ip_wf_def)

lemma ip_canonical_from_ipv6 [simp]: "length bs = 16 \<Longrightarrow> ip_canonical (from_ipv6 bs\<lparr>ip_scope := s\<rparr>)"
  by (simp add: ip_canonical_def from_ipv6_def ip_wf_def is_ipv4_def)

lemma ip_less_total:
  assumes "ip_canonical a" "ip_canonical b" "a \<noteq> b"
  shows "ip_less a b \<or> ip_less b a"
proof (rule ccontr)
  assume "\<not> ?thesis"
  then have inc: "\<not> ip_less a b" "\<not> ip_less b a" by auto
  have inj: "family_index f = family_index g \<longleftrightarrow> f = g" for f g
    by (cases f; cases g) simp_all
  have fam: "ip_family a = ip_family b"
    using inc by (auto simp: ip_less_def inj [symmetric] split: if_splits)
  then have pre: "ip_prefix a = ip_prefix b"
    using inc lex_less_total unfolding ip_less_eq then_by_def by_key_def comp_def by metis
  then have sc: "ip_scope a = ip_scope b"
    using inc fam option_less_total unfolding ip_less_eq then_by_def by_key_def comp_def by metis
  have "ip_bytes a = ip_bytes b"
    using pre assms(1,2) fam
    by (auto simp: ip_prefix_def ip_canonical_def ip_wf_def is_ipv4_def split: if_splits)
      (metis append_take_drop_id)
  with fam sc assms(3) show False by (simp add: ip_address.equality)
qed

lemma parse_ip_address_SomeE:
  assumes "parse_ip_address lc s = Some a"
  obtains addr scope where "parse_address_text lc addr scope = Some a"
  using assms unfolding parse_ip_address_def by (auto split: if_splits list.splits)

lemma parse_address_text_SomeE:
  assumes "parse_address_text lc addr scope = Some a"
  obtains v where "a = from_ipv4 v"
  | bs where "inet_pton6 lc addr = Some bs" and "a = (from_ipv6 bs)\<lparr>ip_scope := scope\<rparr>"
  using assms unfolding parse_address_text_def by (auto split: if_splits option.splits)

lemma ip_valid_scoped [simp]: "ip_valid (a\<lparr>ip_scope := s\<rparr>) = ip_valid a"
  by (simp add: ip_valid_def is_ipv4_def is_ipv6_def)

lemma parse_ip_valid: "parse_ip_address lc s = Some a \<Longrightarrow> ip_valid a"
  by (erule parse_ip_address_SomeE, erule parse_address_text_SomeE) simp_all

lemma parse_ip_canonical:
  assumes "\<And>s bs. inet_pton6 lc s = Some bs \<Longrightarrow> length bs = 16"
    and "parse_ip_address lc s = Some a"
  shows "ip_canonical a"
  using assms(2)
  by (elim parse_ip_address_SomeE parse_address_text_SomeE) (simp_all add: assms(1))

end
