(* ===== verification/Timing.thy ===== *)
theory Timing
  imports Ieee_Float Status
begin

text \<open>
  Timing control of a scan: the profiles (\<open>src/scanengine/timing_profile.cpp\<close>), the round-trip
  estimator (\<open>rtt_estimator.cpp\<close>), the congestion controller (\<open>congestion.cpp\<close>), the metrics
  (\<open>scan_metrics.cpp\<close>) and the controller that joins them (\<open>scan_engine.cpp\<close>). Durations are
  integers (milliseconds, and nanoseconds for clock readings); \<open>double\<close> and \<open>long double\<close>
  values are rationals rounded after each operation; \<open>size_t\<close> counters are natural numbers
  that wrap or saturate at \<open>2 ^ 64\<close> as the code lets them.
\<close>

section \<open>Profiles\<close>

datatype timing_profile_id = T0 | T1 | T2 | T3 | T4 | T5

record timing_profile =
  tp_id :: timing_profile_id
  tp_min_parallelism :: nat
  tp_max_parallelism :: nat
  tp_initial_parallelism :: nat
  tp_minimum_timeout :: int
  tp_maximum_timeout :: int
  tp_rtt_multiplier :: rat
  tp_backoff_factor :: rat
  tp_timeout_threshold :: nat
  tp_recovery_threshold :: nat
  tp_drop_rate_alpha :: rat
  tp_max_retries :: nat

definition profile_row ::
  "timing_profile_id \<Rightarrow> nat \<Rightarrow> nat \<Rightarrow> nat \<Rightarrow> int \<Rightarrow> int \<Rightarrow> rat \<Rightarrow> nat \<Rightarrow> nat \<Rightarrow> timing_profile" where
  "profile_row i mn mx ini tmin tmax factor tt rt =
     \<lparr>tp_id = i, tp_min_parallelism = mn, tp_max_parallelism = mx, tp_initial_parallelism = ini,
      tp_minimum_timeout = tmin, tp_maximum_timeout = tmax, tp_rtt_multiplier = factor,
      tp_backoff_factor = 1 / 2, tp_timeout_threshold = tt, tp_recovery_threshold = rt,
      tp_drop_rate_alpha = 1 / 8, tp_max_retries = 0\<rparr>"

fun profile_for_id :: "timing_profile_id \<Rightarrow> timing_profile" where
  "profile_for_id T0 = profile_row T0 1 4 1 500 30000 5 1 8"
| "profile_for_id T1 = profile_row T1 1 8 2 250 30000 5 2 6"
| "profile_for_id T2 = profile_row T2 1 32 4 100 30000 (9 / 2) 2 5"
| "profile_for_id T3 = profile_row T3 1 64 8 50 30000 4 2 4"
| "profile_for_id T4 = profile_row T4 2 128 16 50 10000 3 2 3"
| "profile_for_id T5 = profile_row T5 4 256 32 25 5000 (5 / 2) 1 2"

definition profile_validate :: "timing_profile \<Rightarrow> status_code" where
  "profile_validate p =
     (if tp_min_parallelism p = 0 \<or> tp_max_parallelism p < tp_min_parallelism p
        \<or> tp_initial_parallelism p < tp_min_parallelism p
        \<or> tp_initial_parallelism p > tp_max_parallelism p then InvalidArgument
      else if tp_minimum_timeout p \<le> 0 \<or> tp_maximum_timeout p < tp_minimum_timeout p
        \<or> tp_rtt_multiplier p \<le> 0 \<or> tp_backoff_factor p \<le> 0 \<or> tp_backoff_factor p \<ge> 1
        \<or> tp_timeout_threshold p = 0 \<or> tp_recovery_threshold p = 0
        \<or> tp_drop_rate_alpha p \<le> 0 \<or> tp_drop_rate_alpha p > 1 then InvalidArgument
      else Ok)"

definition profile_parse :: "string \<Rightarrow> timing_profile option" where
  "profile_parse s =
     (case s of
        [a, b] \<Rightarrow>
          if a \<noteq> CHR ''T'' \<or> b < CHR ''0'' \<or> CHR ''5'' < b then None
          else Some (profile_for_id ([T0, T1, T2, T3, T4, T5] ! digit_value b))
      | _ \<Rightarrow> None)"

fun timing_profile_name :: "timing_profile_id \<Rightarrow> string" where
  "timing_profile_name T0 = ''T0''"
| "timing_profile_name T1 = ''T1''"
| "timing_profile_name T2 = ''T2''"
| "timing_profile_name T3 = ''T3''"
| "timing_profile_name T4 = ''T4''"
| "timing_profile_name T5 = ''T5''"

lemma profile_for_id_valid: "profile_validate (profile_for_id i) = Ok"
  by (cases i) (simp_all add: profile_validate_def profile_row_def)

lemma profile_parse_name: "profile_parse (timing_profile_name i) = Some (profile_for_id i)"
  by (cases i) (simp_all add: profile_parse_def digit_value_def)

section \<open>Round-trip estimation\<close>

datatype rtt_validity = ValidResponse | SampleTimeout | SampleDuplicate | SampleLate | SampleMalformed

record rtt_config =
  rtt_minimum_timeout :: int
  rtt_maximum_timeout :: int
  rtt_alpha :: rat
  rtt_beta :: rat
  rtt_multiplier :: rat

record rtt_estimator =
  rtt_cfg :: rtt_config
  rtt_srtt :: "rat option"
  rtt_rttvar :: "rat option"
  rtt_last :: "int option"
  rtt_minimum :: "int option"
  rtt_maximum :: "int option"
  rtt_sum :: rat
  rtt_count :: nat

definition new_rtt :: "rtt_config \<Rightarrow> rtt_estimator" where
  "new_rtt c = \<lparr>rtt_cfg = c, rtt_srtt = None, rtt_rttvar = None, rtt_last = None,
     rtt_minimum = None, rtt_maximum = None, rtt_sum = 0, rtt_count = 0\<rparr>"

definition rtt_smooth :: "rtt_estimator \<Rightarrow> rat \<Rightarrow> rat \<times> rat" where
  "rtt_smooth r v =
     (case rtt_srtt r of
        None \<Rightarrow> (v, fl_extended (v / 2))
      | Some s \<Rightarrow>
          let a = rtt_alpha (rtt_cfg r); b = rtt_beta (rtt_cfg r);
              old_var = (case rtt_rttvar r of Some x \<Rightarrow> x | None \<Rightarrow> 0);
              difference = \<bar>fl_extended (s - v)\<bar>;
              var = fl_extended (fl_extended (fl_extended (1 - b) * old_var) + fl_extended (b * difference));
              srtt = fl_extended (fl_extended (fl_extended (1 - a) * s) + fl_extended (a * v))
          in (srtt, var))"

definition rtt_observe :: "int \<Rightarrow> rtt_validity \<Rightarrow> rtt_estimator \<Rightarrow> bool \<times> rtt_estimator" where
  "rtt_observe sample validity r =
     (if validity \<noteq> ValidResponse \<or> sample < 0 \<or> to_double (of_int sample) = None then (False, r)
      else
        let v = fl_extended (of_int sample); (srtt, var) = rtt_smooth r v in
        (True, r\<lparr>rtt_srtt := Some srtt, rtt_rttvar := Some var, rtt_last := Some sample,
           rtt_minimum := Some (case rtt_minimum r of Some m \<Rightarrow> min m sample | None \<Rightarrow> sample),
           rtt_maximum := Some (case rtt_maximum r of Some m \<Rightarrow> max m sample | None \<Rightarrow> sample),
           rtt_sum := fl_extended (rtt_sum r + v), rtt_count := incr_size (rtt_count r)\<rparr>))"

definition truncate_rat :: "rat \<Rightarrow> int" where
  "truncate_rat x = (if 0 \<le> x then \<lfloor>x\<rfloor> else \<lceil>x\<rceil>)"

definition clamp_timeout :: "rtt_config \<Rightarrow> rat \<Rightarrow> int" where
  "clamp_timeout c v =
     (let mn = fl_extended (of_int (rtt_minimum_timeout c)); mx = fl_extended (of_int (rtt_maximum_timeout c)) in
      if to_double v = None then rtt_maximum_timeout c
      else
        let bounded = (if v < mn then mn else if mx < v then mx else v) in
        if bounded \<ge> fl_extended (of_int (2 ^ 63 - 1)) then rtt_maximum_timeout c
        else truncate_rat bounded)"

definition rtt_timeout :: "rtt_estimator \<Rightarrow> int" where
  "rtt_timeout r =
     (case (rtt_srtt r, rtt_rttvar r) of
        (Some s, Some v) \<Rightarrow>
          clamp_timeout (rtt_cfg r) (fl_extended (s + fl_extended (rtt_multiplier (rtt_cfg r) * v)))
      | _ \<Rightarrow> rtt_minimum_timeout (rtt_cfg r))"

definition rtt_srtt_ms :: "rtt_estimator \<Rightarrow> int option" where
  "rtt_srtt_ms r = map_option (clamp_timeout (rtt_cfg r)) (rtt_srtt r)"

definition rtt_rttvar_ms :: "rtt_estimator \<Rightarrow> int option" where
  "rtt_rttvar_ms r = map_option (clamp_timeout (rtt_cfg r)) (rtt_rttvar r)"

definition rtt_average_ms :: "rtt_estimator \<Rightarrow> rat" where
  "rtt_average_ms r =
     (if rtt_count r = 0 then 0
      else fl_double (fl_extended (rtt_sum r / fl_extended (of_nat (rtt_count r)))))"

text \<open>A configuration a validated profile gives: ordered, positive 64-bit bounds.\<close>

definition rtt_config_ok :: "rtt_config \<Rightarrow> bool" where
  "rtt_config_ok c \<longleftrightarrow>
     0 < rtt_minimum_timeout c \<and> rtt_minimum_timeout c \<le> rtt_maximum_timeout c \<and>
     rtt_maximum_timeout c < 2 ^ 63"

lemma truncate_rat_between:
  "of_int a \<le> x \<Longrightarrow> x \<le> of_int b \<Longrightarrow> 0 \<le> a \<Longrightarrow> a \<le> truncate_rat x \<and> truncate_rat x \<le> b"
proof -
  assume x: "of_int a \<le> x" "x \<le> of_int b" and a: "0 \<le> a"
  then have "(0 :: rat) \<le> of_int a" by simp
  with x(1) have "0 \<le> x" by linarith
  moreover have "\<lfloor>x\<rfloor> \<le> b" using x(2) by (metis floor_mono floor_of_int)
  moreover have "a \<le> \<lfloor>x\<rfloor>" using x(1) by (simp only: le_floor_iff)
  ultimately show ?thesis by (simp add: truncate_rat_def)
qed

lemma clamp_timeout_bounds:
  assumes "rtt_config_ok c"
  shows "rtt_minimum_timeout c \<le> clamp_timeout c v \<and> clamp_timeout c v \<le> rtt_maximum_timeout c"
proof -
  let ?mn = "rtt_minimum_timeout c" and ?mx = "rtt_maximum_timeout c"
  have c: "0 < ?mn" "?mn \<le> ?mx" "?mx < 2 ^ 63" using assms by (simp_all add: rtt_config_ok_def)
  have fl: "fl_extended (of_int ?mn) = of_int ?mn" "fl_extended (of_int ?mx) = of_int ?mx"
    using c by (simp_all add: extended.fl_of_int)
  let ?b = "if v < of_int ?mn then of_int ?mn else if of_int ?mx < v then of_int ?mx else v"
  have "of_int ?mn \<le> ?b" "?b \<le> of_int ?mx" using c by auto
  then have "?mn \<le> truncate_rat ?b \<and> truncate_rat ?b \<le> ?mx"
    using c by (intro truncate_rat_between) simp_all
  then show ?thesis
    using c(2) unfolding clamp_timeout_def fl Let_def by (simp only: split: if_split) simp
qed

lemma rtt_observe_config [simp]: "rtt_cfg (snd (rtt_observe s v r)) = rtt_cfg r"
  by (simp add: rtt_observe_def Let_def split: prod.split)

lemma rtt_observe_srtt:
  "0 \<le> s \<Longrightarrow> to_double (of_int s) \<noteq> None \<Longrightarrow> rtt_srtt (snd (rtt_observe s ValidResponse r)) \<noteq> None"
  by (auto simp: rtt_observe_def Let_def split: prod.split)

lemma rtt_timeout_bounds:
  "rtt_config_ok (rtt_cfg r) \<Longrightarrow>
     rtt_minimum_timeout (rtt_cfg r) \<le> rtt_timeout r \<and> rtt_timeout r \<le> rtt_maximum_timeout (rtt_cfg r)"
  using clamp_timeout_bounds
  by (auto simp: rtt_timeout_def rtt_config_ok_def split: option.splits)

text \<open>
  With the smoothing weights every controller uses, the smoothed round trip is a rounded
  average and never leaves the range of the samples seen. The bound on the samples keeps seven
  eighths of them exact in the 64-bit mantissa; it is 36 million years in milliseconds.
\<close>

definition rtt_tracked :: "rtt_estimator \<Rightarrow> bool" where
  "rtt_tracked r \<longleftrightarrow>
     rtt_alpha (rtt_cfg r) = 1 / 8 \<and>
     (case (rtt_srtt r, rtt_rttvar r, rtt_minimum r, rtt_maximum r) of
        (None, None, None, None) \<Rightarrow> True
      | (Some s, Some v, Some lo, Some hi) \<Rightarrow>
          0 \<le> lo \<and> hi < 2 ^ 60 \<and> of_int lo \<le> s \<and> s \<le> of_int hi
      | _ \<Rightarrow> False)"

lemma seven_eighths_exact:
  assumes "0 \<le> n" and "n < 2 ^ 60"
  shows "fl_extended (7 / 8 * of_int n) = 7 / 8 * of_int n" "fl_extended (1 / 8 * of_int n) = 1 / 8 * of_int n"
proof -
  have "fl_extended (of_int m / 2 ^ 3) = of_int m / 2 ^ 3" if "0 \<le> m" "m < 2 ^ 64" for m :: int
    using that extended.fl_dyadic_pos [of m 3] extended.fl_zero by (cases "m = 0") simp_all
  from this [of "7 * n"] this [of n] assms
  show "fl_extended (7 / 8 * of_int n) = 7 / 8 * of_int n" "fl_extended (1 / 8 * of_int n) = 1 / 8 * of_int n"
    by simp_all
qed

lemma smooth_between:
  assumes "of_int lo \<le> s" and "s \<le> of_int hi" and "of_int lo \<le> v" and "v \<le> of_int hi"
    and "0 \<le> lo" and "hi < 2 ^ 60"
  defines "y \<equiv> fl_extended (fl_extended (7 / 8 * s) + fl_extended (1 / 8 * v))"
  shows "of_int lo \<le> y \<and> y \<le> of_int hi"
proof -
  have "of_int lo \<le> (of_int hi :: rat)" using assms(1,2) by linarith
  then have b: "0 \<le> lo" "lo < 2 ^ 60" "0 \<le> hi" "hi < 2 ^ 60" using assms(5,6) by simp_all
  have low: "7 / 8 * of_int lo \<le> fl_extended (7 / 8 * s)" "1 / 8 * of_int lo \<le> fl_extended (1 / 8 * v)"
    using extended.fl_mono [of "7 / 8 * of_int lo" "7 / 8 * s"] extended.fl_mono [of "1 / 8 * of_int lo" "1 / 8 * v"]
      seven_eighths_exact [OF b(1,2)] assms(1,3) by simp_all
  have high: "fl_extended (7 / 8 * s) \<le> 7 / 8 * of_int hi" "fl_extended (1 / 8 * v) \<le> 1 / 8 * of_int hi"
    using extended.fl_mono [of "7 / 8 * s" "7 / 8 * of_int hi"] extended.fl_mono [of "1 / 8 * v" "1 / 8 * of_int hi"]
      seven_eighths_exact [OF b(3,4)] assms(2,4) by simp_all
  have "of_int lo \<le> fl_extended (7 / 8 * s) + fl_extended (1 / 8 * v)"
    "fl_extended (7 / 8 * s) + fl_extended (1 / 8 * v) \<le> of_int hi"
    using low high by linarith+
  then show ?thesis
    unfolding y_def using b extended.fl_between [of lo _ hi] by simp
qed

lemma rtt_observe_tracked:
  assumes "rtt_tracked r" and "sample < 2 ^ 60"
  shows "rtt_tracked (snd (rtt_observe sample validity r))"
proof (cases "fst (rtt_observe sample validity r)")
  case False
  then have "snd (rtt_observe sample validity r) = r"
    by (auto simp: rtt_observe_def Let_def split: if_splits prod.splits)
  with assms show ?thesis by simp
next
  case True
  then obtain d where s: "0 \<le> sample" "validity = ValidResponse" "to_double (of_int sample) = Some d"
    by (auto simp: rtt_observe_def split: if_splits)
  have a: "rtt_alpha (rtt_cfg r) = 1 / 8" using assms(1) by (simp add: rtt_tracked_def)
  have v: "fl_extended (of_int sample) = of_int sample"
    using s(1) assms(2) by (intro extended.fl_of_int) simp
  have w: "fl_extended (7 / 8) = 7 / 8"
    using seven_eighths_exact(1) [of 1] by simp
  show ?thesis
  proof (cases "rtt_srtt r")
    case None
    with assms(1) have "rtt_minimum r = None" "rtt_maximum r = None"
      by (auto simp: rtt_tracked_def split: option.splits)
    with None s v assms(2) a show ?thesis
      by (simp add: rtt_observe_def rtt_smooth_def rtt_tracked_def Let_def)
  next
    case (Some x)
    with assms(1) obtain var lo hi where r: "rtt_rttvar r = Some var" "rtt_minimum r = Some lo"
      "rtt_maximum r = Some hi" and b: "0 \<le> lo" "hi < 2 ^ 60" "of_int lo \<le> x" "x \<le> of_int hi"
      by (auto simp: rtt_tracked_def split: option.splits)
    have "of_int (min lo sample) \<le> x" "x \<le> of_int (max hi sample)"
      using b(3,4) by (simp_all add: min_def max_def)
    then have "of_int (min lo sample) \<le> fl_extended (fl_extended (7 / 8 * x) + fl_extended (1 / 8 * of_int sample)) \<and>
        fl_extended (fl_extended (7 / 8 * x) + fl_extended (1 / 8 * of_int sample)) \<le> of_int (max hi sample)"
      using b(1,2) s(1) assms(2) by (intro smooth_between) simp_all
    then show ?thesis
      using Some r b(1,2) s assms(2)
      by (simp add: rtt_observe_def rtt_smooth_def rtt_tracked_def Let_def v a w)
  qed
qed

section \<open>Congestion control\<close>

record congestion_config =
  cc_min_parallelism :: nat
  cc_max_parallelism :: nat
  cc_initial_parallelism :: nat
  cc_timeout_threshold :: nat
  cc_recovery_threshold :: nat
  cc_backoff_factor :: rat
  cc_drop_rate_alpha :: rat

record congestion =
  cg_config :: congestion_config
  cg_min_parallelism :: nat
  cg_max_parallelism :: nat
  cg_current_parallelism :: nat
  cg_drop_rate :: rat
  cg_responses :: nat
  cg_timeouts :: nat
  cg_consecutive_timeouts :: nat
  cg_consecutive_successes :: nat
  cg_backoff_count :: nat

definition clamp_parallelism :: "congestion \<Rightarrow> congestion" where
  "clamp_parallelism s =
     (let c = cg_current_parallelism s; lo = cc_min_parallelism (cg_config s); hi = cc_max_parallelism (cg_config s)
      in s\<lparr>cg_current_parallelism := (if c < lo then lo else if hi < c then hi else c)\<rparr>)"

definition new_congestion :: "congestion_config \<Rightarrow> congestion" where
  "new_congestion c = clamp_parallelism
     \<lparr>cg_config = c, cg_min_parallelism = cc_min_parallelism c, cg_max_parallelism = cc_max_parallelism c,
      cg_current_parallelism = cc_initial_parallelism c, cg_drop_rate = 0, cg_responses = 0, cg_timeouts = 0,
      cg_consecutive_timeouts = 0, cg_consecutive_successes = 0, cg_backoff_count = 0\<rparr>"

definition congestion_valid :: "congestion \<Rightarrow> bool" where
  "congestion_valid s =
     (let c = cg_config s in
      cc_min_parallelism c > 0 \<and> cc_max_parallelism c \<ge> cc_min_parallelism c \<and>
      cc_initial_parallelism c \<ge> cc_min_parallelism c \<and> cc_initial_parallelism c \<le> cc_max_parallelism c \<and>
      cc_timeout_threshold c > 0 \<and> cc_recovery_threshold c > 0 \<and> cc_backoff_factor c > 0 \<and>
      cc_backoff_factor c < 1 \<and> cc_drop_rate_alpha c > 0 \<and> cc_drop_rate_alpha c \<le> 1)"

definition saturating_incr :: "nat \<Rightarrow> nat" where
  "saturating_incr n = (if n < size_max then n + 1 else n)"

definition cg_on_response :: "congestion \<Rightarrow> congestion" where
  "cg_on_response s =
     (let s1 = s\<lparr>cg_responses := incr_size (cg_responses s), cg_consecutive_timeouts := 0,
            cg_consecutive_successes := saturating_incr (cg_consecutive_successes s),
            cg_drop_rate := fl_double (fl_double (1 - cc_drop_rate_alpha (cg_config s)) * cg_drop_rate s)\<rparr>;
          s2 = (if cg_consecutive_successes s1 \<ge> cc_recovery_threshold (cg_config s1) then
              s1\<lparr>cg_current_parallelism :=
                   (if cg_current_parallelism s1 < cg_max_parallelism s1
                    then incr_size (cg_current_parallelism s1) else cg_current_parallelism s1),
                 cg_consecutive_successes := 0\<rparr>
            else s1)
      in clamp_parallelism s2)"

definition backoff_parallelism :: "congestion \<Rightarrow> nat" where
  "backoff_parallelism s =
     (let scaled = fl_double (fl_double (of_nat (cg_current_parallelism s)) * cc_backoff_factor (cg_config s));
          maximum = fl_double (of_nat size_max)
      in if scaled < 1 then 1 else if scaled \<ge> maximum then size_max else nat \<lfloor>scaled\<rfloor>)"

definition cg_on_timeout :: "congestion \<Rightarrow> congestion" where
  "cg_on_timeout s =
     (let a = cc_drop_rate_alpha (cg_config s);
          s1 = s\<lparr>cg_timeouts := incr_size (cg_timeouts s), cg_consecutive_successes := 0,
            cg_consecutive_timeouts := saturating_incr (cg_consecutive_timeouts s),
            cg_drop_rate := fl_double (a + fl_double (fl_double (1 - a) * cg_drop_rate s))\<rparr>;
          s2 = (if cg_consecutive_timeouts s1 \<ge> cc_timeout_threshold (cg_config s1) then
              s1\<lparr>cg_current_parallelism := max (cc_min_parallelism (cg_config s1)) (backoff_parallelism s1),
                 cg_backoff_count := incr_size (cg_backoff_count s1), cg_consecutive_timeouts := 0\<rparr>
            else s1)
      in clamp_parallelism s2)"

definition congestion_inv :: "congestion \<Rightarrow> bool" where
  "congestion_inv s \<longleftrightarrow>
     congestion_valid s \<and>
     cg_min_parallelism s = cc_min_parallelism (cg_config s) \<and>
     cg_max_parallelism s = cc_max_parallelism (cg_config s) \<and>
     cc_min_parallelism (cg_config s) \<le> cg_current_parallelism s \<and>
     cg_current_parallelism s \<le> cc_max_parallelism (cg_config s)"

lemma clamp_parallelism_simps [simp]:
  "cg_config (clamp_parallelism s) = cg_config s"
  "cg_min_parallelism (clamp_parallelism s) = cg_min_parallelism s"
  "cg_max_parallelism (clamp_parallelism s) = cg_max_parallelism s"
  "cg_drop_rate (clamp_parallelism s) = cg_drop_rate s"
  "cg_consecutive_timeouts (clamp_parallelism s) = cg_consecutive_timeouts s"
  "cg_consecutive_successes (clamp_parallelism s) = cg_consecutive_successes s"
  by (simp_all add: clamp_parallelism_def Let_def)

lemma clamp_parallelism_range:
  "cc_min_parallelism (cg_config s) \<le> cc_max_parallelism (cg_config s) \<Longrightarrow>
     cc_min_parallelism (cg_config s) \<le> cg_current_parallelism (clamp_parallelism s) \<and>
     cg_current_parallelism (clamp_parallelism s) \<le> cc_max_parallelism (cg_config s)"
  by (simp add: clamp_parallelism_def Let_def)

lemma congestion_step_config [simp]:
  "cg_config (cg_on_response s) = cg_config s" "cg_config (cg_on_timeout s) = cg_config s"
  "cg_min_parallelism (cg_on_response s) = cg_min_parallelism s"
  "cg_min_parallelism (cg_on_timeout s) = cg_min_parallelism s"
  "cg_max_parallelism (cg_on_response s) = cg_max_parallelism s"
  "cg_max_parallelism (cg_on_timeout s) = cg_max_parallelism s"
  by (simp_all add: cg_on_response_def cg_on_timeout_def Let_def)

lemma congestion_valid_step [simp]:
  "congestion_valid (cg_on_response s) = congestion_valid s"
  "congestion_valid (cg_on_timeout s) = congestion_valid s"
  by (simp_all add: congestion_valid_def)

lemma congestion_inv_new:
  "congestion_valid (new_congestion c) \<Longrightarrow> congestion_inv (new_congestion c)"
  by (simp add: congestion_inv_def new_congestion_def clamp_parallelism_def Let_def congestion_valid_def)

lemma clamped_range:
  assumes "congestion_valid s" and "s' = clamp_parallelism x" and "cg_config x = cg_config s"
  shows "cc_min_parallelism (cg_config s) \<le> cg_current_parallelism s' \<and>
    cg_current_parallelism s' \<le> cc_max_parallelism (cg_config s)"
  using clamp_parallelism_range [of x] assms by (simp add: congestion_valid_def Let_def)

lemma congestion_inv_response: "congestion_inv s \<Longrightarrow> congestion_inv (cg_on_response s)"
  unfolding congestion_inv_def congestion_step_config congestion_valid_step
  using clamped_range [OF _ cg_on_response_def [unfolded Let_def], of s] by simp

lemma congestion_inv_timeout: "congestion_inv s \<Longrightarrow> congestion_inv (cg_on_timeout s)"
  unfolding congestion_inv_def congestion_step_config congestion_valid_step
  using clamped_range [OF _ cg_on_timeout_def [unfolded Let_def], of s] by simp

text \<open>A backoff never raises the parallelism: scaling by a factor below one rounds down.\<close>

lemma backoff_le:
  assumes "congestion_inv s" and "cg_current_parallelism s < 2 ^ 52"
  shows "backoff_parallelism s \<le> cg_current_parallelism s"
proof -
  let ?c = "cg_current_parallelism s" and ?f = "cc_backoff_factor (cg_config s)"
  have f: "0 < ?f" "?f < 1" and c: "1 \<le> ?c"
    using assms(1) by (auto simp: congestion_inv_def congestion_valid_def Let_def)
  have cur: "fl_double (of_nat ?c) = of_nat ?c"
    using double.fl_of_int [of "int ?c"] assms(2) by simp
  let ?scaled = "fl_double (of_nat ?c * ?f)"
  have "of_nat ?c * ?f \<le> (of_nat ?c :: rat)"
    using f by (simp add: mult_left_le)
  then have le: "?scaled \<le> of_nat ?c" using double.fl_mono [of "of_nat ?c * ?f" "of_nat ?c"] cur by simp
  have "(of_nat ?c :: rat) < 2 ^ 52" using assms(2) by (metis of_nat_less_iff of_nat_numeral of_nat_power)
  also have "(2 :: rat) ^ 52 = fl_double (of_int (2 ^ 52))" by (subst double.fl_of_int) simp_all
  also have "\<dots> \<le> fl_double (of_nat size_max)"
    by (rule double.fl_mono) (simp add: size_max_def)
  finally have "\<not> fl_double (of_nat size_max) \<le> ?scaled" using le by linarith
  then show ?thesis
    using c cur floor_mono [OF le] by (auto simp: backoff_parallelism_def Let_def)
qed

section \<open>Metrics\<close>

text \<open>
  \<open>ScanMetrics\<close>, its counters and its round-trip statistics; the stage durations, which this
  file never writes, are left out. \<open>now\<close> is the reading of the steady clock.
\<close>

record scan_metrics =
  mt_total_queued :: nat
  mt_targets_total :: nat
  mt_targets_completed :: nat
  mt_targets_failed :: nat
  mt_probes_submitted :: nat
  mt_probes_completed :: nat
  mt_probes_timed_out :: nat
  mt_probes_failed :: nat
  mt_probes_cancelled :: nat
  mt_probes_retried :: nat
  mt_retries :: nat
  mt_bytes_sent :: nat
  mt_bytes_received :: nat
  mt_total_submitted :: nat
  mt_completed :: nat
  mt_timed_out :: nat
  mt_failed :: nat
  mt_cancelled :: nat
  mt_duplicate_responses :: nat
  mt_late_responses :: nat
  mt_malformed_responses :: nat
  mt_parse_errors :: nat
  mt_correlation_misses :: nat
  mt_active_probes :: nat
  mt_peak_active_probes :: nat
  mt_current_parallelism :: nat
  mt_maximum_observed_parallelism :: nat
  mt_current_rtt :: "rat option"
  mt_minimum_rtt :: "rat option"
  mt_maximum_rtt :: "rat option"
  mt_srtt :: "rat option"
  mt_rttvar :: "rat option"
  mt_rto :: "rat option"
  mt_average_rtt :: rat
  mt_rtt_samples :: nat
  mt_timeout_count :: nat
  mt_retry_count :: nat
  mt_timeout_backoffs :: nat
  mt_estimated_drop_rate :: rat
  mt_started_at :: int
  mt_completed_at :: int
  mt_stage_duration :: "rat list"

definition new_metrics :: scan_metrics where
  "new_metrics = \<lparr>mt_total_queued = 0, mt_targets_total = 0, mt_targets_completed = 0,
     mt_targets_failed = 0, mt_probes_submitted = 0, mt_probes_completed = 0, mt_probes_timed_out = 0,
     mt_probes_failed = 0, mt_probes_cancelled = 0, mt_probes_retried = 0, mt_retries = 0,
     mt_bytes_sent = 0, mt_bytes_received = 0,
     mt_total_submitted = 0, mt_completed = 0, mt_timed_out = 0, mt_failed = 0, mt_cancelled = 0,
     mt_duplicate_responses = 0, mt_late_responses = 0, mt_malformed_responses = 0, mt_parse_errors = 0,
     mt_correlation_misses = 0,
     mt_active_probes = 0, mt_peak_active_probes = 0, mt_current_parallelism = 0,
     mt_maximum_observed_parallelism = 0, mt_current_rtt = None, mt_minimum_rtt = None,
     mt_maximum_rtt = None, mt_srtt = None, mt_rttvar = None, mt_rto = None, mt_average_rtt = 0,
     mt_rtt_samples = 0, mt_timeout_count = 0, mt_retry_count = 0, mt_timeout_backoffs = 0,
     mt_estimated_drop_rate = 0, mt_started_at = 0, mt_completed_at = 0,
     mt_stage_duration = replicate 6 0\<rparr>"

definition record_rtt :: "int \<Rightarrow> scan_metrics \<Rightarrow> scan_metrics" where
  "record_rtt sample m =
     (let v = fl_double (of_int (if sample < 0 then 0 else sample));
          m1 = m\<lparr>mt_current_rtt := Some v,
            mt_minimum_rtt := Some (case mt_minimum_rtt m of Some x \<Rightarrow> min x v | None \<Rightarrow> v),
            mt_maximum_rtt := Some (case mt_maximum_rtt m of Some x \<Rightarrow> max x v | None \<Rightarrow> v)\<rparr>;
          m2 = (if mt_rtt_samples m1 < size_max then
              let denominator = fl_double (fl_double (of_nat (mt_rtt_samples m1)) + 1) in
              m1\<lparr>mt_average_rtt := fl_double (mt_average_rtt m1 +
                    fl_double (fl_double (v - mt_average_rtt m1) / denominator)),
                 mt_rtt_samples := mt_rtt_samples m1 + 1\<rparr>
            else m1);
          (srtt, var) = (case mt_srtt m2 of
              None \<Rightarrow> (v, fl_double (v / 2))
            | Some s \<Rightarrow>
                let deviation = \<bar>fl_double (s - v)\<bar>;
                    old = (case mt_rttvar m2 of Some x \<Rightarrow> x | None \<Rightarrow> 0)
                in (fl_double (fl_double (7 / 8 * s) + fl_double (1 / 8 * v)),
                    fl_double (fl_double (3 / 4 * old) + fl_double (1 / 4 * deviation))))
      in m2\<lparr>mt_srtt := Some srtt, mt_rttvar := Some var, mt_rto := Some (fl_double (srtt + fl_double (4 * var)))\<rparr>)"

definition set_parallelism :: "nat \<Rightarrow> nat \<Rightarrow> scan_metrics \<Rightarrow> scan_metrics" where
  "set_parallelism current observed m =
     m\<lparr>mt_current_parallelism := current,
       mt_maximum_observed_parallelism := max (mt_maximum_observed_parallelism m) observed,
       mt_active_probes := current,
       mt_peak_active_probes := max (mt_peak_active_probes m) observed\<rparr>"

definition record_submission :: "nat \<Rightarrow> scan_metrics \<Rightarrow> scan_metrics" where
  "record_submission active m =
     (let m1 = m\<lparr>mt_probes_submitted := saturating_incr (mt_probes_submitted m),
                 mt_total_submitted := saturating_incr (mt_total_submitted m)\<rparr>
      in set_parallelism active (max active (mt_peak_active_probes m1)) m1)"

definition record_completion :: "nat \<Rightarrow> scan_metrics \<Rightarrow> scan_metrics" where
  "record_completion active m =
     (let m1 = m\<lparr>mt_probes_completed := saturating_incr (mt_probes_completed m),
                 mt_completed := saturating_incr (mt_completed m)\<rparr>
      in set_parallelism active (max active (mt_peak_active_probes m1)) m1)"

definition record_timeout :: "nat \<Rightarrow> scan_metrics \<Rightarrow> scan_metrics" where
  "record_timeout active m =
     (let m1 = m\<lparr>mt_probes_timed_out := saturating_incr (mt_probes_timed_out m),
                 mt_timed_out := saturating_incr (mt_timed_out m),
                 mt_timeout_count := saturating_incr (mt_timeout_count m)\<rparr>
      in set_parallelism active (max active (mt_peak_active_probes m1)) m1)"

definition record_failure :: "nat \<Rightarrow> scan_metrics \<Rightarrow> scan_metrics" where
  "record_failure active m =
     (let m1 = m\<lparr>mt_probes_failed := saturating_incr (mt_probes_failed m),
                 mt_failed := saturating_incr (mt_failed m)\<rparr>
      in set_parallelism active (max active (mt_peak_active_probes m1)) m1)"

definition record_retry :: "scan_metrics \<Rightarrow> scan_metrics" where
  "record_retry m =
     m\<lparr>mt_retries := saturating_incr (mt_retries m), mt_retry_count := saturating_incr (mt_retry_count m),
       mt_probes_retried := saturating_incr (mt_probes_retried m)\<rparr>"

definition record_cancellation :: "scan_metrics \<Rightarrow> scan_metrics" where
  "record_cancellation m =
     m\<lparr>mt_cancelled := saturating_incr (mt_cancelled m),
       mt_probes_cancelled := saturating_incr (mt_probes_cancelled m)\<rparr>"

definition record_target_failure :: "scan_metrics \<Rightarrow> scan_metrics" where
  "record_target_failure m = m\<lparr>mt_targets_failed := saturating_incr (mt_targets_failed m)\<rparr>"

definition record_timeout_backoff :: "scan_metrics \<Rightarrow> scan_metrics" where
  "record_timeout_backoff m = m\<lparr>mt_timeout_backoffs := saturating_incr (mt_timeout_backoffs m)\<rparr>"

definition metrics_elapsed :: "int \<Rightarrow> scan_metrics \<Rightarrow> int" where
  "metrics_elapsed now m =
     (let finish = (if mt_completed_at m = 0 then now else mt_completed_at m) in
      if mt_started_at m = 0 \<or> finish \<le> mt_started_at m then 0
      else (finish - mt_started_at m) div 1000000)"

section \<open>The timing controller\<close>

record timing_controller =
  tc_profile :: timing_profile
  tc_rtt :: rtt_estimator
  tc_congestion :: congestion
  tc_metrics :: scan_metrics

definition new_timing_controller :: "timing_profile \<Rightarrow> timing_controller" where
  "new_timing_controller p =
     \<lparr>tc_profile = p,
      tc_rtt = new_rtt \<lparr>rtt_minimum_timeout = tp_minimum_timeout p, rtt_maximum_timeout = tp_maximum_timeout p,
        rtt_alpha = 1 / 8, rtt_beta = 1 / 4, rtt_multiplier = tp_rtt_multiplier p\<rparr>,
      tc_congestion = new_congestion \<lparr>cc_min_parallelism = tp_min_parallelism p,
        cc_max_parallelism = tp_max_parallelism p, cc_initial_parallelism = tp_initial_parallelism p,
        cc_timeout_threshold = tp_timeout_threshold p, cc_recovery_threshold = tp_recovery_threshold p,
        cc_backoff_factor = tp_backoff_factor p, cc_drop_rate_alpha = tp_drop_rate_alpha p\<rparr>,
      tc_metrics = new_metrics\<rparr>"

definition tc_validate :: "timing_controller \<Rightarrow> status_code" where
  "tc_validate t =
     (if profile_validate (tc_profile t) = Ok \<and> congestion_valid (tc_congestion t) then Ok
      else InvalidArgument)"

definition tc_parallelism_limit :: "nat \<Rightarrow> timing_controller \<Rightarrow> nat" where
  "tc_parallelism_limit configured t =
     (if configured = 0 then cg_current_parallelism (tc_congestion t)
      else min configured (cg_current_parallelism (tc_congestion t)))"

definition tc_timeout :: "timing_controller \<Rightarrow> int" where
  "tc_timeout t = rtt_timeout (tc_rtt t)"

definition tc_should_retry :: "nat \<Rightarrow> timing_controller \<Rightarrow> bool" where
  "tc_should_retry n t \<longleftrightarrow> n < tp_max_retries (tc_profile t)"

definition tc_on_submitted :: "nat \<Rightarrow> timing_controller \<Rightarrow> timing_controller" where
  "tc_on_submitted outstanding t =
     t\<lparr>tc_metrics := set_parallelism outstanding outstanding
         ((tc_metrics t)\<lparr>mt_total_submitted := incr_size (mt_total_submitted (tc_metrics t))\<rparr>)\<rparr>"

definition tc_on_response :: "int \<Rightarrow> timing_controller \<Rightarrow> timing_controller" where
  "tc_on_response rtt t =
     (let m1 = (tc_metrics t)\<lparr>mt_completed := incr_size (mt_completed (tc_metrics t))\<rparr>;
          r1 = snd (rtt_observe rtt ValidResponse (tc_rtt t));
          c1 = cg_on_response (tc_congestion t);
          m2 = record_rtt rtt m1
      in t\<lparr>tc_rtt := r1, tc_congestion := c1,
           tc_metrics := m2\<lparr>mt_estimated_drop_rate := cg_drop_rate c1,
             mt_current_parallelism := cg_current_parallelism c1\<rparr>\<rparr>)"

definition tc_on_timeout :: "timing_controller \<Rightarrow> timing_controller" where
  "tc_on_timeout t =
     (let c1 = cg_on_timeout (tc_congestion t); m = tc_metrics t in
      t\<lparr>tc_congestion := c1,
        tc_metrics := m\<lparr>mt_timed_out := incr_size (mt_timed_out m),
          mt_timeout_count := incr_size (mt_timeout_count m),
          mt_estimated_drop_rate := cg_drop_rate c1,
          mt_current_parallelism := cg_current_parallelism c1\<rparr>\<rparr>)"

definition tc_update_metrics :: "(scan_metrics \<Rightarrow> scan_metrics) \<Rightarrow> timing_controller \<Rightarrow> timing_controller" where
  "tc_update_metrics f t = t\<lparr>tc_metrics := f (tc_metrics t)\<rparr>"

section \<open>Invariant of a controller\<close>

datatype timing_event = ProbeSubmitted nat | ResponseMeasured int | ProbeTimedOut

fun tc_step :: "timing_event \<Rightarrow> timing_controller \<Rightarrow> timing_controller" where
  "tc_step (ProbeSubmitted n) t = tc_on_submitted n t"
| "tc_step (ResponseMeasured rtt) t = tc_on_response rtt t"
| "tc_step ProbeTimedOut t = tc_on_timeout t"

definition tc_inv :: "timing_controller \<Rightarrow> bool" where
  "tc_inv t \<longleftrightarrow>
     profile_validate (tc_profile t) = Ok \<and>
     rtt_minimum_timeout (rtt_cfg (tc_rtt t)) = tp_minimum_timeout (tc_profile t) \<and>
     rtt_maximum_timeout (rtt_cfg (tc_rtt t)) = tp_maximum_timeout (tc_profile t) \<and>
     congestion_inv (tc_congestion t) \<and>
     cc_min_parallelism (cg_config (tc_congestion t)) = tp_min_parallelism (tc_profile t) \<and>
     cc_max_parallelism (cg_config (tc_congestion t)) = tp_max_parallelism (tc_profile t)"

lemma profile_valid_congestion:
  "profile_validate p = Ok \<Longrightarrow> congestion_valid (tc_congestion (new_timing_controller p))"
  by (auto simp: profile_validate_def new_timing_controller_def new_congestion_def congestion_valid_def
    Let_def not_le not_less split: if_splits)

lemma tc_inv_new:
  assumes "profile_validate p = Ok"
  shows "tc_inv (new_timing_controller p)"
proof -
  have "congestion_inv (tc_congestion (new_timing_controller p))"
    using congestion_inv_new profile_valid_congestion [OF assms] by (simp add: new_timing_controller_def)
  then show ?thesis
    using assms by (simp add: tc_inv_def new_timing_controller_def new_rtt_def new_congestion_def)
qed

lemma tc_step_profile [simp]: "tc_profile (tc_step e t) = tc_profile t"
  by (cases e) (simp_all add: tc_on_submitted_def tc_on_response_def tc_on_timeout_def Let_def)

lemma tc_inv_submitted: "tc_inv t \<Longrightarrow> tc_inv (tc_on_submitted n t)"
  by (simp add: tc_inv_def tc_on_submitted_def)

lemma tc_inv_response: "tc_inv t \<Longrightarrow> tc_inv (tc_on_response rtt t)"
  by (simp add: tc_inv_def tc_on_response_def Let_def congestion_inv_response)

lemma tc_inv_timeout: "tc_inv t \<Longrightarrow> tc_inv (tc_on_timeout t)"
  by (simp add: tc_inv_def tc_on_timeout_def Let_def congestion_inv_timeout)

lemma tc_inv_metrics: "tc_inv (tc_update_metrics f t) = tc_inv t"
  by (simp add: tc_inv_def tc_update_metrics_def)

lemma tc_inv_step: "tc_inv t \<Longrightarrow> tc_inv (tc_step e t)"
  by (cases e) (simp_all add: tc_inv_submitted tc_inv_response tc_inv_timeout)

lemma tc_inv_fold: "tc_inv t \<Longrightarrow> tc_inv (fold tc_step es t)"
  by (induction es arbitrary: t) (simp_all add: tc_inv_step)

lemma tc_profile_fold [simp]: "tc_profile (fold tc_step es t) = tc_profile t"
  by (induction es arbitrary: t) simp_all

lemma tc_inv_rtt_config:
  "tc_inv t \<Longrightarrow> tp_maximum_timeout (tc_profile t) < 2 ^ 63 \<Longrightarrow> rtt_config_ok (rtt_cfg (tc_rtt t))"
  by (auto simp: tc_inv_def rtt_config_ok_def profile_validate_def split: if_splits)

lemma tc_timeout_bounds:
  "tc_inv t \<Longrightarrow> tp_maximum_timeout (tc_profile t) < 2 ^ 63 \<Longrightarrow>
     tp_minimum_timeout (tc_profile t) \<le> tc_timeout t \<and> tc_timeout t \<le> tp_maximum_timeout (tc_profile t)"
  using rtt_timeout_bounds [of "tc_rtt t"] tc_inv_rtt_config [of t] by (simp add: tc_timeout_def tc_inv_def)

lemma tc_parallelism_bounds:
  assumes "tc_inv t" and "0 < configured"
  shows "1 \<le> tc_parallelism_limit configured t \<and> tc_parallelism_limit configured t \<le> configured \<and>
    tc_parallelism_limit configured t \<le> tp_max_parallelism (tc_profile t)"
  using assms
  by (auto simp: tc_inv_def tc_parallelism_limit_def congestion_inv_def congestion_valid_def Let_def)

section \<open>Properties\<close>

text \<open>
  Whatever submissions, responses and timeouts a controller of a valid profile
  sees, the probe timeout it hands out stays inside the profile's bounds and the parallelism
  limit stays between one and both the configured limit and the profile's maximum.
\<close>

theorem timing_controller_bounded:
  assumes "profile_validate p = Ok" and "tp_maximum_timeout p < 2 ^ 63" and "0 < configured"
  shows "let t = fold tc_step es (new_timing_controller p) in
    tp_minimum_timeout p \<le> tc_timeout t \<and> tc_timeout t \<le> tp_maximum_timeout p \<and>
    1 \<le> tc_parallelism_limit configured t \<and> tc_parallelism_limit configured t \<le> configured \<and>
    tc_parallelism_limit configured t \<le> tp_max_parallelism p"
proof -
  let ?t = "fold tc_step es (new_timing_controller p)"
  have inv: "tc_inv ?t" using tc_inv_new [OF assms(1)] by (rule tc_inv_fold)
  have p: "tc_profile ?t = p" by (simp add: new_timing_controller_def)
  show ?thesis
    using tc_timeout_bounds [OF inv] tc_parallelism_bounds [OF inv assms(3)] assms(2) p by simp
qed

theorem timing_controller_bounded_witness:
  "let t = fold tc_step [ProbeSubmitted 1, ProbeTimedOut, ProbeTimedOut, ResponseMeasured 90000]
       (new_timing_controller (profile_for_id T4)) in
   50 \<le> tc_timeout t \<and> tc_timeout t \<le> 10000 \<and> 1 \<le> tc_parallelism_limit 12 t \<and>
   tc_parallelism_limit 12 t \<le> 12 \<and> tc_parallelism_limit 12 t \<le> 128"
  using timing_controller_bounded [of "profile_for_id T4" 12
      "[ProbeSubmitted 1, ProbeTimedOut, ProbeTimedOut, ResponseMeasured 90000]"] profile_for_id_valid [of T4]
  by (simp add: profile_row_def)

text \<open>
  With the weights every controller is built with, the smoothed round-trip time
  never leaves the interval of the samples accepted so far, in spite of the rounding of each
  of the operations.
\<close>

theorem smoothed_rtt_within_samples:
  assumes "rtt_alpha c = 1 / 8" and "\<forall>s\<in>set samples. fst s < 2 ^ 60"
    and "rtt_srtt r = Some srtt"
    and "r = fold (\<lambda>(s, v) r. snd (rtt_observe s v r)) samples (new_rtt c)"
  shows "\<exists>lo hi. rtt_minimum r = Some lo \<and> rtt_maximum r = Some hi \<and> of_int lo \<le> srtt \<and> srtt \<le> of_int hi"
proof -
  have "rtt_tracked x \<Longrightarrow> \<forall>s\<in>set samples. fst s < 2 ^ 60 \<Longrightarrow>
      rtt_tracked (fold (\<lambda>(s, v) r. snd (rtt_observe s v r)) samples x)" for x
    by (induction samples arbitrary: x) (auto simp: rtt_observe_tracked)
  moreover have "rtt_tracked (new_rtt c)" using assms(1) by (simp add: rtt_tracked_def new_rtt_def)
  ultimately have "rtt_tracked r" using assms(2,4) by blast
  then show ?thesis using assms(3) by (auto simp: rtt_tracked_def split: option.splits)
qed

theorem smoothed_rtt_within_samples_witness:
  "\<exists>r srtt lo hi. r = fold (\<lambda>(s, v) r. snd (rtt_observe s v r)) [(120, ValidResponse), (80, ValidResponse)]
       (new_rtt (rtt_cfg (tc_rtt (new_timing_controller (profile_for_id T3))))) \<and>
     rtt_srtt r = Some srtt \<and> rtt_minimum r = Some lo \<and> rtt_maximum r = Some hi \<and>
     of_int lo \<le> srtt \<and> srtt \<le> of_int hi"
proof -
  let ?c = "rtt_cfg (tc_rtt (new_timing_controller (profile_for_id T3)))"
  let ?r = "fold (\<lambda>(s, v) r. snd (rtt_observe s v r)) [(120, ValidResponse), (80, ValidResponse)] (new_rtt ?c)"
  have c: "rtt_alpha ?c = 1 / 8" by (simp add: new_timing_controller_def new_rtt_def)
  have "to_double (of_int 80) \<noteq> None"
    using double.fl_of_int [of 80] by (simp add: to_double_def Let_def)
  then have "rtt_srtt ?r \<noteq> None" using rtt_observe_srtt [of 80] by simp
  then obtain srtt where "rtt_srtt ?r = Some srtt" by blast
  then show ?thesis
    using smoothed_rtt_within_samples [OF c, of "[(120, ValidResponse), (80, ValidResponse)]" ?r srtt] by auto
qed

text \<open>
  When the consecutive timeouts reach the threshold, the controller backs off:
  the parallelism does not grow, it is at most the backoff factor's share of what it was (or
  the configured minimum), and the timeout streak starts again.
\<close>

theorem congestion_backs_off:
  assumes "congestion_inv s" and "cg_current_parallelism s < 2 ^ 52"
    and "cc_timeout_threshold (cg_config s) \<le> cg_consecutive_timeouts s + 1"
    and "cg_consecutive_timeouts s < size_max"
  shows "cg_current_parallelism (cg_on_timeout s) \<le> cg_current_parallelism s \<and>
    cg_current_parallelism (cg_on_timeout s) \<le> max (cc_min_parallelism (cg_config s)) (backoff_parallelism s) \<and>
    cg_consecutive_timeouts (cg_on_timeout s) = 0 \<and>
    cg_backoff_count (cg_on_timeout s) = incr_size (cg_backoff_count s)"
proof -
  have inv: "cc_min_parallelism (cg_config s) \<le> cg_current_parallelism s"
    "cg_current_parallelism s \<le> cc_max_parallelism (cg_config s)"
    using assms(1) by (simp_all add: congestion_inv_def)
  have reached: "cc_timeout_threshold (cg_config s) \<le> saturating_incr (cg_consecutive_timeouts s)"
    using assms(3,4) by (simp add: saturating_incr_def)
  have "backoff_parallelism s \<le> cg_current_parallelism s" by (rule backoff_le [OF assms(1,2)])
  then show ?thesis
    using inv reached by (auto simp: cg_on_timeout_def Let_def clamp_parallelism_def backoff_parallelism_def)
qed

theorem congestion_backs_off_witness:
  "let s = (new_congestion \<lparr>cc_min_parallelism = 1, cc_max_parallelism = 64, cc_initial_parallelism = 8,
      cc_timeout_threshold = 2, cc_recovery_threshold = 4, cc_backoff_factor = 1 / 2,
      cc_drop_rate_alpha = 1 / 8\<rparr>)\<lparr>cg_consecutive_timeouts := 1\<rparr> in
   cg_current_parallelism (cg_on_timeout s) \<le> 8 \<and> cg_consecutive_timeouts (cg_on_timeout s) = 0"
  using congestion_backs_off [of "(new_congestion \<lparr>cc_min_parallelism = 1, cc_max_parallelism = 64,
      cc_initial_parallelism = 8, cc_timeout_threshold = 2, cc_recovery_threshold = 4,
      cc_backoff_factor = 1 / 2, cc_drop_rate_alpha = 1 / 8\<rparr>)\<lparr>cg_consecutive_timeouts := 1\<rparr>"]
  by (simp add: congestion_inv_def congestion_valid_def new_congestion_def clamp_parallelism_def Let_def size_max_def)

end
