(* ===== verification/Port_Types.thy ===== *)
theory Port_Types
  imports Core_Types Timing
begin

text \<open>
  The vocabulary of the port scanner (\<open>include/portscan/port_types.hpp\<close>,
  \<open>src/portscan/port_types.cpp\<close>): ports, states, reasons, the table of state and reason
  pairs a result may carry, and the parser of port specifications.
\<close>

section \<open>Data\<close>

datatype protocol = Tcp | Udp

datatype scan_probe = TcpConnect | TcpSyn | UdpProbe | TcpAck

datatype port_state = PsOpen | PsClosed | PsFiltered | PsUnknown | PsOpenOrFiltered | PsUnfiltered
  | PsError | PsUnreachable

datatype scan_reason = RsnImmediateSuccess | RsnConnectionRefused | RsnNetworkUnreachable
  | RsnLocalAddressUnavailable | RsnSynAck | RsnRst | RsnTimeout | RsnSocketError
  | RsnMalformedResponse | RsnUnrelatedResponse | RsnInvalidTarget | RsnInvalidPort
  | RsnUnsupportedMethod | RsnCapabilityUnavailable | RsnInternalError | RsnUdpResponse
  | RsnIcmpPortUnreachable | RsnIcmpAdministrativelyProhibited | RsnIcmpNetworkUnreachable
  | RsnUdpTimeout | RsnDuplicateResponse | RsnLateResponse | RsnUnsupportedProtocol | RsnAckRst
  | RsnAckTimeout | RsnConflictingEvidence | RsnIcmpProtocolUnreachable

record port =
  port_number :: u16
  port_protocol :: protocol

fun protocol_index :: "protocol \<Rightarrow> nat" where
  "protocol_index Tcp = 0"
| "protocol_index Udp = 1"

definition port_less :: "port \<Rightarrow> port \<Rightarrow> bool" where
  "port_less x y =
     (if port_number x \<noteq> port_number y then port_number x < port_number y
      else protocol_index (port_protocol x) < protocol_index (port_protocol y))"

record port_scan_config =
  cfg_method :: scan_probe
  cfg_timeout :: int
  cfg_max_outstanding :: nat
  cfg_adaptive_timing :: bool
  cfg_timing_profile :: timing_profile
  cfg_retries :: nat
  cfg_retry_delay :: int

definition default_port_scan_config :: port_scan_config where
  "default_port_scan_config = \<lparr>cfg_method = TcpConnect, cfg_timeout = 1000, cfg_max_outstanding = 128,
     cfg_adaptive_timing = False, cfg_timing_profile = profile_for_id T3, cfg_retries = 0,
     cfg_retry_delay = 250\<rparr>"

definition default_tcp_ports :: "port list" where
  "default_tcp_ports = map (\<lambda>n. \<lparr>port_number = n, port_protocol = Tcp\<rparr>) [22, 80, 443]"

definition default_udp_ports :: "port list" where
  "default_udp_ports =
     map (\<lambda>n. \<lparr>port_number = n, port_protocol = Udp\<rparr>) [53, 67, 68, 69, 123, 137, 161, 162, 500, 514]"

section \<open>Names\<close>

fun protocol_name :: "protocol \<Rightarrow> string" where
  "protocol_name Tcp = ''tcp''"
| "protocol_name Udp = ''udp''"

fun scan_probe_type_name :: "scan_probe \<Rightarrow> string" where
  "scan_probe_type_name TcpConnect = ''connect''"
| "scan_probe_type_name TcpSyn = ''syn''"
| "scan_probe_type_name TcpAck = ''ack''"
| "scan_probe_type_name UdpProbe = ''udp''"

fun port_state_name :: "port_state \<Rightarrow> string" where
  "port_state_name PsOpen = ''OPEN''"
| "port_state_name PsClosed = ''CLOSED''"
| "port_state_name PsFiltered = ''FILTERED''"
| "port_state_name PsUnknown = ''UNKNOWN''"
| "port_state_name PsOpenOrFiltered = ''OPEN_OR_FILTERED''"
| "port_state_name PsUnfiltered = ''UNFILTERED''"
| "port_state_name PsError = ''ERROR''"
| "port_state_name PsUnreachable = ''UNREACHABLE''"

fun scan_reason_name :: "scan_reason \<Rightarrow> string" where
  "scan_reason_name RsnImmediateSuccess = ''IMMEDIATE_SUCCESS''"
| "scan_reason_name RsnConnectionRefused = ''CONNECTION_REFUSED''"
| "scan_reason_name RsnNetworkUnreachable = ''NETWORK_UNREACHABLE''"
| "scan_reason_name RsnLocalAddressUnavailable = ''LOCAL_ADDRESS_UNAVAILABLE''"
| "scan_reason_name RsnSynAck = ''SYN_ACK''"
| "scan_reason_name RsnRst = ''RST''"
| "scan_reason_name RsnAckRst = ''ACK_RST''"
| "scan_reason_name RsnTimeout = ''TIMEOUT''"
| "scan_reason_name RsnAckTimeout = ''ACK_TIMEOUT''"
| "scan_reason_name RsnSocketError = ''SOCKET_ERROR''"
| "scan_reason_name RsnMalformedResponse = ''MALFORMED_RESPONSE''"
| "scan_reason_name RsnUnrelatedResponse = ''UNRELATED_RESPONSE''"
| "scan_reason_name RsnInvalidTarget = ''INVALID_TARGET''"
| "scan_reason_name RsnInvalidPort = ''INVALID_PORT''"
| "scan_reason_name RsnUnsupportedMethod = ''UNSUPPORTED_METHOD''"
| "scan_reason_name RsnCapabilityUnavailable = ''CAPABILITY_UNAVAILABLE''"
| "scan_reason_name RsnInternalError = ''INTERNAL_ERROR''"
| "scan_reason_name RsnUdpResponse = ''UDP_RESPONSE''"
| "scan_reason_name RsnIcmpPortUnreachable = ''ICMP_PORT_UNREACHABLE''"
| "scan_reason_name RsnIcmpAdministrativelyProhibited = ''ICMP_ADMINISTRATIVELY_PROHIBITED''"
| "scan_reason_name RsnIcmpNetworkUnreachable = ''ICMP_NETWORK_UNREACHABLE''"
| "scan_reason_name RsnUdpTimeout = ''UDP_TIMEOUT''"
| "scan_reason_name RsnDuplicateResponse = ''DUPLICATE_RESPONSE''"
| "scan_reason_name RsnLateResponse = ''LATE_RESPONSE''"
| "scan_reason_name RsnUnsupportedProtocol = ''UNSUPPORTED_PROTOCOL''"
| "scan_reason_name RsnConflictingEvidence = ''CONFLICTING_EVIDENCE''"
| "scan_reason_name RsnIcmpProtocolUnreachable = ''ICMP_PROTOCOL_UNREACHABLE''"

section \<open>Which results make sense\<close>

fun valid_port_result_semantics :: "protocol \<Rightarrow> scan_probe \<Rightarrow> port_state \<Rightarrow> scan_reason \<Rightarrow> bool" where
  "valid_port_result_semantics protocol probe state reason =
     (if (protocol = Udp) \<noteq> (probe = UdpProbe) then False
      else case state of
        PsOpen \<Rightarrow>
          (probe = TcpConnect \<and> reason = RsnImmediateSuccess) \<or>
          (probe = TcpSyn \<and> reason = RsnSynAck) \<or>
          (probe = UdpProbe \<and> reason = RsnUdpResponse)
      | PsClosed \<Rightarrow>
          (probe = TcpConnect \<and> reason = RsnConnectionRefused) \<or>
          (probe = TcpSyn \<and> reason = RsnRst) \<or>
          (probe = UdpProbe \<and> reason = RsnIcmpPortUnreachable)
      | PsFiltered \<Rightarrow>
          (probe = TcpConnect \<and> reason = RsnTimeout) \<or>
          (probe = TcpSyn \<and>
            (reason = RsnTimeout \<or> reason = RsnIcmpAdministrativelyProhibited \<or>
             reason = RsnIcmpPortUnreachable \<or> reason = RsnIcmpProtocolUnreachable)) \<or>
          (probe = TcpAck \<and>
            (reason = RsnAckTimeout \<or> reason = RsnIcmpAdministrativelyProhibited \<or>
             reason = RsnIcmpPortUnreachable \<or> reason = RsnIcmpProtocolUnreachable)) \<or>
          (probe = UdpProbe \<and> reason = RsnIcmpAdministrativelyProhibited)
      | PsUnknown \<Rightarrow> reason = RsnConflictingEvidence
      | PsOpenOrFiltered \<Rightarrow> probe = UdpProbe \<and> reason = RsnUdpTimeout
      | PsUnfiltered \<Rightarrow> probe = TcpAck \<and> reason = RsnAckRst
      | PsError \<Rightarrow>
          reason = RsnLocalAddressUnavailable \<or> reason = RsnSocketError \<or> reason = RsnInvalidTarget \<or>
          reason = RsnInvalidPort \<or> reason = RsnUnsupportedMethod \<or> reason = RsnCapabilityUnavailable \<or>
          reason = RsnInternalError \<or> reason = RsnUnsupportedProtocol
      | PsUnreachable \<Rightarrow>
          (probe = TcpConnect \<and> reason = RsnNetworkUnreachable) \<or>
          (probe \<noteq> TcpConnect \<and> reason = RsnIcmpNetworkUnreachable))"

declare valid_port_result_semantics.simps [simp del]

section \<open>Port specifications\<close>

text \<open>\<open>std::isspace\<close> in the classic locale.\<close>

definition is_space :: "char \<Rightarrow> bool" where
  "is_space c \<longleftrightarrow> c = CHR '' '' \<or> (CHR 0x09 \<le> c \<and> c \<le> CHR 0x0D)"

definition trim :: "string \<Rightarrow> string" where
  "trim s = rev (dropWhile is_space (rev (dropWhile is_space s)))"

definition unsigned_max :: nat where
  "unsigned_max = 4294967295"

definition parse_port_number :: "string \<Rightarrow> u16 option" where
  "parse_port_number s =
     (let v = trim s in
      if v = [] then None
      else case from_chars unsigned_max v of
        None \<Rightarrow> None
      | Some (n, rest) \<Rightarrow> if rest \<noteq> [] \<or> n = 0 \<or> n > 65535 then None else Some (of_nat n))"

definition port_range :: "u16 \<Rightarrow> u16 \<Rightarrow> protocol \<Rightarrow> port list" where
  "port_range lo hi proto =
     map (\<lambda>n. \<lparr>port_number = of_nat n, port_protocol = proto\<rparr>) [unat lo ..< Suc (unat hi)]"

definition parse_port_token :: "string \<Rightarrow> protocol \<Rightarrow> port list option" where
  "parse_port_token token proto =
     (if token = [] then None
      else
        let before = takeWhile (\<lambda>c. c \<noteq> CHR ''-'') token; dash = dropWhile (\<lambda>c. c \<noteq> CHR ''-'') token in
        case dash of
          [] \<Rightarrow>
            (case parse_port_number token of
               None \<Rightarrow> None
             | Some p \<Rightarrow> Some [\<lparr>port_number = p, port_protocol = proto\<rparr>])
        | _ # after \<Rightarrow>
            if CHR ''-'' \<in> set after then None
            else case (parse_port_number before, parse_port_number after) of
              (Some a, Some b) \<Rightarrow> if a > b then None else Some (port_range a b proto)
            | _ \<Rightarrow> None)"

text \<open>The loop over the comma-separated tokens, from the text that is left.\<close>

function parse_ports_loop :: "string \<Rightarrow> protocol \<Rightarrow> port list \<Rightarrow> port list option" where
  "parse_ports_loop s proto acc =
     (case parse_port_token (trim (takeWhile (\<lambda>c. c \<noteq> CHR '','') s)) proto of
        None \<Rightarrow> None
      | Some ps \<Rightarrow>
          (case dropWhile (\<lambda>c. c \<noteq> CHR '','') s of
             [] \<Rightarrow> Some (acc @ ps)
           | _ # rest \<Rightarrow> parse_ports_loop rest proto (acc @ ps)))"
  by pat_completeness auto
termination
proof (relation "measure (\<lambda>(s, _, _). length s)", goal_cases)
  case (2 s proto acc ps c rest)
  then show ?case using length_dropWhile_le [of "\<lambda>c. c \<noteq> CHR '',''" s] by simp
qed simp

declare parse_ports_loop.simps [simp del]

definition parse_ports :: "string \<Rightarrow> protocol \<Rightarrow> status_code \<times> port list" where
  "parse_ports s proto =
     (if trim s = [] then (InvalidArgument, [])
      else case parse_ports_loop s proto [] of
        None \<Rightarrow> (InvalidArgument, [])
      | Some ps \<Rightarrow> (Ok, unique_adjacent (sort_by port_less ps)))"

definition parse_tcp_ports :: "string \<Rightarrow> status_code \<times> port list" where
  "parse_tcp_ports s = parse_ports s Tcp"

definition parse_udp_ports :: "string \<Rightarrow> status_code \<times> port list" where
  "parse_udp_ports s = parse_ports s Udp"

section \<open>What a specification denotes\<close>

lemma protocol_index_inj: "protocol_index x = protocol_index y \<Longrightarrow> x = y"
  by (cases x; cases y) simp_all

interpretation port_order: strict_total_order port_less
proof (rule strict_total_orderI)
  show "\<not> port_less x x" for x by (simp add: port_less_def)
  show "port_less x y \<Longrightarrow> port_less y z \<Longrightarrow> port_less x z" for x y z
    by (auto simp: port_less_def split: if_splits)
  show "port_less x y \<or> port_less y x" if "x \<noteq> y" for x y
  proof (cases "port_number x = port_number y")
    case True
    with that have "port_protocol x \<noteq> port_protocol y" by (metis port.equality old.unit.exhaust)
    then have "protocol_index (port_protocol x) \<noteq> protocol_index (port_protocol y)"
      using protocol_index_inj by blast
    then show ?thesis using True by (auto simp: port_less_def)
  next
    case False
    then show ?thesis by (auto simp: port_less_def)
  qed
qed

text \<open>The tokens of a text, and the interval of port numbers a token stands for.\<close>

function tokens :: "string \<Rightarrow> string list" where
  "tokens s =
     takeWhile (\<lambda>c. c \<noteq> CHR '','') s #
       (case dropWhile (\<lambda>c. c \<noteq> CHR '','') s of [] \<Rightarrow> [] | _ # rest \<Rightarrow> tokens rest)"
  by pat_completeness auto
termination
proof (relation "measure length", goal_cases)
  case (2 s c rest)
  then show ?case using length_dropWhile_le [of "\<lambda>c. c \<noteq> CHR '',''" s] by simp
qed simp

declare tokens.simps [simp del]

definition token_interval :: "string \<Rightarrow> (nat \<times> nat) option" where
  "token_interval token =
     (let t = trim token in
      if CHR ''-'' \<in> set t then
        (case (parse_port_number (takeWhile (\<lambda>c. c \<noteq> CHR ''-'') t),
               parse_port_number (tl (dropWhile (\<lambda>c. c \<noteq> CHR ''-'') t))) of
           (Some a, Some b) \<Rightarrow> if a \<le> b then Some (unat a, unat b) else None
         | _ \<Rightarrow> None)
      else map_option (\<lambda>p. (unat p, unat p)) (parse_port_number t))"

lemma parse_port_number_range: "parse_port_number s = Some p \<Longrightarrow> 0 < unat p"
proof -
  assume "parse_port_number s = Some p"
  then obtain n where "p = of_nat n" "0 < n" "n \<le> 65535"
    by (auto simp: parse_port_number_def Let_def split: if_splits option.splits)
  then show ?thesis by (simp add: unat_of_nat)
qed

lemma dash_not_digit: "\<not> is_digit CHR ''-''"
  by (simp add: is_digit_def)

lemma parse_port_number_no_dash: "parse_port_number s = Some p \<Longrightarrow> CHR ''-'' \<notin> set (trim s)"
proof -
  assume "parse_port_number s = Some p"
  then obtain n where "from_chars unsigned_max (trim s) = Some (n, [])"
    by (auto simp: parse_port_number_def Let_def split: if_splits option.splits)
  then have "list_all is_digit (trim s)" by (simp add: from_chars_all)
  then show ?thesis using dash_not_digit by (auto simp: list_all_iff)
qed

lemma trim_set: "set (trim s) \<subseteq> set s"
  unfolding trim_def by (metis set_dropWhileD set_rev subsetI)

lemma trim_keeps: "c \<in> set s \<Longrightarrow> \<not> is_space c \<Longrightarrow> c \<in> set (trim s)"
proof -
  have dw: "c \<in> set xs \<Longrightarrow> \<not> is_space c \<Longrightarrow> c \<in> set (dropWhile is_space xs)" for xs
    by (induction xs) auto
  assume "c \<in> set s" "\<not> is_space c"
  then show ?thesis by (simp add: trim_def dw)
qed

abbreviation ports_between :: "nat \<Rightarrow> nat \<Rightarrow> protocol \<Rightarrow> port list" where
  "ports_between a b proto \<equiv> map (\<lambda>n. \<lparr>port_number = of_nat n, port_protocol = proto\<rparr>) [a ..< Suc b]"

lemma parse_token_interval:
  "parse_port_token (trim t) proto =
     map_option (\<lambda>(a, b). ports_between a b proto) (token_interval t)"
proof -
  let ?t = "trim t" and ?nd = "\<lambda>c. c \<noteq> CHR ''-''"
  show ?thesis
  proof (cases "CHR ''-'' \<in> set ?t")
    case False
    then have d: "dropWhile ?nd ?t = []" by auto
    have ti: "token_interval t = map_option (\<lambda>p. (unat p, unat p)) (parse_port_number ?t)"
      using False by (simp add: token_interval_def Let_def)
    show ?thesis
    proof (cases "?t = []")
      case True
      have "parse_port_number [] = None" by (simp add: parse_port_number_def trim_def)
      then show ?thesis unfolding ti True by (simp add: parse_port_token_def)
    next
      case nonempty: False
      show ?thesis
        unfolding ti parse_port_token_def Let_def d list.case
        using nonempty by (cases "parse_port_number ?t") simp_all
    qed
  next
    case True
    then have "dropWhile ?nd ?t \<noteq> []" by auto
    then obtain after where d: "dropWhile ?nd ?t = CHR ''-'' # after"
      using hd_dropWhile [of ?nd ?t] by (cases "dropWhile ?nd ?t") simp_all
    let ?before = "takeWhile ?nd ?t"
    have dash: "\<not> is_space CHR ''-''" by (simp add: is_space_def)
    have none: "parse_port_number after = None" if "CHR ''-'' \<in> set after"
      using parse_port_number_no_dash [of after] trim_keeps [OF that dash]
      by (cases "parse_port_number after") auto
    have ti: "token_interval t = (case (parse_port_number ?before, parse_port_number after) of
        (Some a, Some b) \<Rightarrow> if a \<le> b then Some (unat a, unat b) else None | _ \<Rightarrow> None)"
      using True by (simp add: token_interval_def Let_def d)
    have "?t \<noteq> []" using True by auto
    then have pt: "parse_port_token ?t proto = (if CHR ''-'' \<in> set after then None
        else case (parse_port_number ?before, parse_port_number after) of
          (Some a, Some b) \<Rightarrow> if a > b then None else Some (port_range a b proto) | _ \<Rightarrow> None)"
      unfolding parse_port_token_def Let_def d list.case by (simp only: if_False)
    show ?thesis
      unfolding ti pt using none
      by (cases "CHR ''-'' \<in> set after"; cases "parse_port_number ?before"; cases "parse_port_number after")
        (simp_all add: port_range_def not_less del: upt_Suc)
  qed
qed

lemma parse_ports_loop_tokens:
  "parse_ports_loop s proto acc =
     map_option (\<lambda>xs. acc @ concat xs) (those (map (\<lambda>t. parse_port_token (trim t) proto) (tokens s)))"
proof (induction s proto acc rule: parse_ports_loop.induct)
  case (1 s proto acc)
  show ?case
  proof (cases "parse_port_token (trim (takeWhile (\<lambda>c. c \<noteq> CHR '','') s)) proto")
    case None
    then show ?thesis by (simp add: parse_ports_loop.simps [of s] tokens.simps [of s])
  next
    case (Some ps)
    show ?thesis
    proof (cases "dropWhile (\<lambda>c. c \<noteq> CHR '','') s")
      case Nil
      show ?thesis
        unfolding parse_ports_loop.simps [of s] tokens.simps [of s] Nil list.case by (simp add: Some)
    next
      case (Cons c rest)
      show ?thesis
        unfolding parse_ports_loop.simps [of s] tokens.simps [of s] Cons list.case
        using "1.IH" [OF Some Cons] by (simp add: Some option.map_comp comp_def)
    qed
  qed
qed

lemma those_Some_iff: "those xs = Some ys \<longleftrightarrow> xs = map Some ys"
proof (induction xs arbitrary: ys)
  case Nil
  then show ?case by auto
next
  case (Cons x xs)
  then show ?case by (cases ys) (auto split: option.splits)
qed

lemma those_None_iff: "those xs = None \<longleftrightarrow> None \<in> set xs"
  by (induction xs) (auto split: option.splits)

text \<open>The ports a specification selects.\<close>

definition selected :: "string \<Rightarrow> protocol \<Rightarrow> port \<Rightarrow> bool" where
  "selected s proto p \<longleftrightarrow> port_protocol p = proto \<and>
     (\<exists>t\<in>set (tokens s). \<exists>a b. token_interval t = Some (a, b) \<and>
        a \<le> unat (port_number p) \<and> unat (port_number p) \<le> b)"

lemma token_interval_range:
  assumes "token_interval t = Some (a, b)"
  shows "0 < a \<and> a \<le> b \<and> b \<le> 65535"
proof -
  from assms obtain s s' p q where "parse_port_number s = Some p" "parse_port_number s' = Some q"
    "p \<le> q" "a = unat p" "b = unat q"
    by (auto simp: token_interval_def Let_def split: if_splits option.splits)
  then show ?thesis
    using parse_port_number_range [of s p] unat_u16_less [of q] by (simp add: word_le_nat_alt)
qed

lemma interval_ports:
  assumes "b \<le> 65535"
  shows "set (map (\<lambda>n. \<lparr>port_number = of_nat n, port_protocol = proto\<rparr>) [a ..< Suc b]) =
    {p. port_protocol p = proto \<and> a \<le> unat (port_number p) \<and> unat (port_number p) \<le> b}" (is "?L = ?R")
proof
  show "?L \<subseteq> ?R" using assms by (auto simp: unat_of_nat simp del: upt_Suc)
  show "?R \<subseteq> ?L"
  proof
    fix p :: port
    assume p: "p \<in> ?R"
    then have "p = \<lparr>port_number = of_nat (unat (port_number p)), port_protocol = proto\<rparr>" by simp
    moreover have "unat (port_number p) \<in> set [a ..< Suc b]" using p by auto
    ultimately show "p \<in> ?L" by (metis (no_types, lifting) imageI list.set_map)
  qed
qed

lemma token_ports:
  "(\<exists>x. parse_port_token (trim t) proto = Some x \<and> p \<in> set x) \<longleftrightarrow> port_protocol p = proto \<and>
     (\<exists>a b. token_interval t = Some (a, b) \<and> a \<le> unat (port_number p) \<and> unat (port_number p) \<le> b)"
proof (cases "token_interval t")
  case (Some ab)
  obtain a b where ab: "ab = (a, b)" by fastforce
  with Some token_interval_range have "b \<le> 65535" by blast
  then have "p \<in> set (ports_between a b proto) \<longleftrightarrow>
      port_protocol p = proto \<and> a \<le> unat (port_number p) \<and> unat (port_number p) \<le> b"
    by (simp only: interval_ports mem_Collect_eq)
  then show ?thesis
    by (simp add: parse_token_interval Some ab del: upt_Suc set_map)
qed (simp add: parse_token_interval)

lemma parse_ports_loop_selected:
  assumes "parse_ports_loop s proto [] = Some ps"
  shows "set ps = {p. selected s proto p} \<and> (\<forall>t\<in>set (tokens s). token_interval t \<noteq> None)"
proof -
  let ?f = "\<lambda>t. parse_port_token (trim t) proto"
  from assms obtain xs where xs: "map ?f (tokens s) = map Some xs" "ps = concat xs"
    by (auto simp: parse_ports_loop_tokens those_Some_iff)
  have img: "?f ` set (tokens s) = Some ` set xs"
    using xs(1) by (metis list.set_map)
  then have some: "?f t \<noteq> None" if "t \<in> set (tokens s)" for t
    using that by (metis imageE imageI option.distinct(1))
  have "p \<in> set ps \<longleftrightarrow> (\<exists>t\<in>set (tokens s). \<exists>x. ?f t = Some x \<and> p \<in> set x)" for p
  proof -
    have "p \<in> set ps \<longleftrightarrow> (\<exists>y\<in>Some ` set xs. p \<in> set (the y))" by (simp add: xs(2))
    also have "\<dots> \<longleftrightarrow> (\<exists>t\<in>set (tokens s). p \<in> set (the (?f t)))" by (simp flip: img)
    also have "\<dots> \<longleftrightarrow> (\<exists>t\<in>set (tokens s). \<exists>x. ?f t = Some x \<and> p \<in> set x)"
    proof (rule bex_cong [OF refl])
      fix t assume "t \<in> set (tokens s)"
      then obtain x where "?f t = Some x" using some by blast
      then show "p \<in> set (the (?f t)) \<longleftrightarrow> (\<exists>x. ?f t = Some x \<and> p \<in> set x)" by simp
    qed
    finally show ?thesis .
  qed
  then have "p \<in> set ps \<longleftrightarrow> selected s proto p" for p
    by (simp only: token_ports selected_def) blast
  moreover have "\<forall>t\<in>set (tokens s). token_interval t \<noteq> None"
    using some by (simp add: parse_token_interval)
  ultimately show ?thesis by blast
qed

lemma parse_ports_spec:
  "parse_ports s proto = (Ok, ps) \<longleftrightarrow>
     trim s \<noteq> [] \<and> (\<forall>t\<in>set (tokens s). token_interval t \<noteq> None) \<and>
     sorted_wrt port_less ps \<and> set ps = {p. selected s proto p}"
proof (cases "trim s = [] \<or> parse_ports_loop s proto [] = None")
  case True
  then have bad: "trim s = [] \<or> (\<exists>t\<in>set (tokens s). token_interval t = None)"
    by (auto simp: parse_ports_loop_tokens those_None_iff parse_token_interval)
  have "fst (parse_ports s proto) \<noteq> Ok" using True by (auto simp: parse_ports_def)
  then show ?thesis using bad by (metis fst_conv)
next
  case False
  then obtain xs where xs: "parse_ports_loop s proto [] = Some xs" and "trim s \<noteq> []" by auto
  then have p: "parse_ports s proto = (Ok, unique_adjacent (sort_by port_less xs))"
    by (simp add: parse_ports_def)
  have "sorted_wrt port_less (unique_adjacent (sort_by port_less xs))"
    by (intro port_order.strictly_sorted_unique port_order.sorted_sort_by)
  moreover have "set (unique_adjacent (sort_by port_less xs)) = {p. selected s proto p}"
    using parse_ports_loop_selected [OF xs] by simp
  ultimately show ?thesis
    using p parse_ports_loop_selected [OF xs] \<open>trim s \<noteq> []\<close> port_order.strictly_sorted_determined by auto
qed

section \<open>Properties\<close>

text \<open>
  A port specification is accepted exactly when it is not blank and each of its
  comma-separated tokens is a port or an ascending range, and then the selection is the strictly
  ascending list, without duplicates, of the ports that some token names.
\<close>

theorem port_specification_exact:
  "parse_tcp_ports s = (Ok, ps) \<longleftrightarrow>
     trim s \<noteq> [] \<and> (\<forall>t\<in>set (tokens s). token_interval t \<noteq> None) \<and>
     sorted_wrt port_less ps \<and> set ps = {p. selected s Tcp p}"
  by (simp add: parse_tcp_ports_def parse_ports_spec)

lemma example_tokens:
  "tokens ''443,22'' = [''443'', ''22'']"
  "token_interval ''443'' = Some (443, 443)" "token_interval ''22'' = Some (22, 22)"
  "trim ''443,22'' \<noteq> []"
  by (simp_all add: tokens.simps token_interval_def trim_def is_space_def parse_port_number_def
    from_chars_def is_digit_def decimal_value_def digit_value_def unsigned_max_def Let_def)

theorem port_specification_exact_witness:
  "parse_tcp_ports ''443,22'' =
     (Ok, [\<lparr>port_number = 22, port_protocol = Tcp\<rparr>, \<lparr>port_number = 443, port_protocol = Tcp\<rparr>])"
proof -
  have "selected ''443,22'' Tcp p \<longleftrightarrow> p = \<lparr>port_number = 22, port_protocol = Tcp\<rparr> \<or>
      p = \<lparr>port_number = 443, port_protocol = Tcp\<rparr>" for p
  proof -
    have "a \<le> unat (port_number p) \<and> unat (port_number p) \<le> a \<longleftrightarrow> unat (port_number p) = a" for a by auto
    moreover have "unat (port_number p) = 443 \<longleftrightarrow> port_number p = 443"
      "unat (port_number p) = 22 \<longleftrightarrow> port_number p = 22"
      using word_unat_eq_iff [of "port_number p" 443] word_unat_eq_iff [of "port_number p" 22] by simp_all
    ultimately show ?thesis
      by (cases p) (auto simp: selected_def example_tokens)
  qed
  then have "{p. selected ''443,22'' Tcp p} =
      {\<lparr>port_number = 22, port_protocol = Tcp\<rparr>, \<lparr>port_number = 443, port_protocol = Tcp\<rparr>}"
    by auto
  then show ?thesis
    using example_tokens by (subst port_specification_exact) (simp add: port_less_def)
qed

end
