(* ===== verification/Port_Probes.thy ===== *)
theory Port_Probes
  imports Tcp_Packet Port_Types
begin

text \<open>
  Probes and transports of the port scanner (\<open>include/portscan/port_probe.hpp\<close>,
  \<open>src/portscan/port_probe.cpp\<close>, \<open>tcp_connect.cpp\<close>, \<open>tcp_syn.cpp\<close>, \<open>tcp_ack.cpp\<close>): what a
  probe sends, and how each response is classified. The abstract class \<open>PortProbe\<close> is a record
  of functions, its contract is the locale \<open>probe_contract\<close>, interpreted on the three TCP
  probes. A time point is a reading of the steady clock in nanoseconds; zero is the default one.
\<close>

section \<open>Submissions and responses\<close>

record port_submission =
  sub_id :: u64
  sub_probe :: scan_probe
  sub_target :: string
  sub_port :: port
  sub_packet :: bytes
  sub_source_port :: u16
  sub_sequence :: u32
  sub_ack :: u32
  sub_target_ip :: ip_address
  sub_source_ip :: ip_address

definition new_submission :: port_submission where
  "new_submission = \<lparr>sub_id = 0, sub_probe = TcpConnect, sub_target = [],
     sub_port = \<lparr>port_number = 0, port_protocol = Tcp\<rparr>, sub_packet = [], sub_source_port = 0,
     sub_sequence = 0, sub_ack = 0, sub_target_ip = default_ip, sub_source_ip = default_ip\<rparr>"

datatype response_kind = Connected | ConnectionRefused | SocketError | PacketReceived | Unreachable

record port_response =
  rsp_id :: u64
  rsp_source_address :: string
  rsp_kind :: response_kind
  rsp_system_error :: int
  rsp_bytes :: bytes
  rsp_received_at :: int
  rsp_source_ip :: ip_address
  rsp_reason :: scan_reason

record port_result =
  res_target :: string
  res_port :: port
  res_state :: port_state
  res_probe :: scan_probe
  res_reason :: scan_reason
  res_rtt_ms :: "rat option"
  res_timestamp :: int
  res_retry_count :: nat
  res_probe_name :: "string option"

section \<open>The recording transport\<close>

record 'cb recording_transport =
  rec_submissions :: "port_submission list"
  rec_callbacks :: "(u64 \<times> 'cb) list"

definition recording_supports :: "scan_probe \<Rightarrow> bool" where
  "recording_supports p \<longleftrightarrow> p = TcpConnect \<or> p = TcpSyn \<or> p = TcpAck"

definition recording_submit ::
  "port_submission \<Rightarrow> 'cb option \<Rightarrow> 'cb recording_transport \<Rightarrow> status_code \<times> 'cb recording_transport" where
  "recording_submit s cb t =
     (case cb of
        None \<Rightarrow> (InvalidArgument, t)
      | Some f \<Rightarrow>
          if sub_id s = 0 then (InvalidArgument, t)
          else case map_emplace (sub_id s) f (rec_callbacks t) of
            (cbs, inserted) \<Rightarrow>
              if \<not> inserted then (InvalidArgument, t)
              else (Ok, t\<lparr>rec_submissions := rec_submissions t @ [s], rec_callbacks := cbs\<rparr>))"

definition recording_cancel :: "u64 \<Rightarrow> 'cb recording_transport \<Rightarrow> status_code \<times> 'cb recording_transport" where
  "recording_cancel i t = (Ok, t\<lparr>rec_callbacks := map_erase i (rec_callbacks t)\<rparr>)"

text \<open>The callback a delivered response is handed to.\<close>

definition recording_deliver :: "port_response \<Rightarrow> 'cb recording_transport \<Rightarrow> 'cb option" where
  "recording_deliver r t = map_of (rec_callbacks t) (rsp_id r)"

definition recording_clear :: "'cb recording_transport \<Rightarrow> 'cb recording_transport" where
  "recording_clear t = t\<lparr>rec_callbacks := [], rec_submissions := []\<rparr>"

section \<open>Probes\<close>

record port_probe =
  pp_type :: scan_probe
  pp_build :: "u64 \<Rightarrow> host \<Rightarrow> port \<Rightarrow> port_scan_config \<Rightarrow> port_submission \<Rightarrow> status_code \<times> port_submission"
  pp_timeout_state :: port_state
  pp_timeout_reason :: scan_reason
  pp_assess :: "port_response \<Rightarrow> port_submission \<Rightarrow> status_code + (port_state \<times> scan_reason)"

text \<open>
  The address a probe is sent to: the typed one when it is valid, else the parsed text.
\<close>

definition probe_address :: "libc \<Rightarrow> host \<Rightarrow> ip_address option" where
  "probe_address lc h = (if ip_valid (h_ip h) then Some (h_ip h) else parse_ip_address lc (h_address h))"

subsection \<open>TCP connect\<close>

abbreviation ENETDOWN :: int where "ENETDOWN \<equiv> 100"
abbreviation ENETUNREACH :: int where "ENETUNREACH \<equiv> 101"
abbreviation ENETRESET :: int where "ENETRESET \<equiv> 102"
abbreviation EADDRNOTAVAIL :: int where "EADDRNOTAVAIL \<equiv> 99"
abbreviation ETIMEDOUT :: int where "ETIMEDOUT \<equiv> 110"
abbreviation EHOSTDOWN :: int where "EHOSTDOWN \<equiv> 112"
abbreviation EHOSTUNREACH :: int where "EHOSTUNREACH \<equiv> 113"

definition is_unreachable_error :: "int \<Rightarrow> bool" where
  "is_unreachable_error e \<longleftrightarrow>
     e = ENETUNREACH \<or> e = EHOSTUNREACH \<or> e = ENETDOWN \<or> e = EHOSTDOWN \<or> e = ENETRESET"

definition connect_build ::
  "libc \<Rightarrow> u64 \<Rightarrow> host \<Rightarrow> port \<Rightarrow> port_scan_config \<Rightarrow> port_submission \<Rightarrow> status_code \<times> port_submission" where
  "connect_build lc i h p cfg s =
     (if i = 0 \<or> port_protocol p \<noteq> Tcp \<or> port_number p = 0 \<or> h_address h = [] then (InvalidArgument, s)
      else case probe_address lc h of
        None \<Rightarrow> (InvalidArgument, s)
      | Some a \<Rightarrow>
          (Ok, new_submission\<lparr>sub_id := i, sub_probe := TcpConnect, sub_target := h_address h,
             sub_port := p, sub_target_ip := a\<rparr>))"

definition connect_assess ::
  "port_response \<Rightarrow> port_submission \<Rightarrow> status_code + (port_state \<times> scan_reason)" where
  "connect_assess r s =
     (if rsp_id r \<noteq> sub_id s \<or> (rsp_source_address r \<noteq> [] \<and> rsp_source_address r \<noteq> sub_target s)
      then Inl NotFound
      else case rsp_kind r of
        Connected \<Rightarrow> Inr (PsOpen, RsnImmediateSuccess)
      | ConnectionRefused \<Rightarrow> Inr (PsClosed, RsnConnectionRefused)
      | SocketError \<Rightarrow>
          if rsp_system_error r = ETIMEDOUT then Inr (PsFiltered, RsnTimeout)
          else if is_unreachable_error (rsp_system_error r) then Inr (PsUnreachable, RsnNetworkUnreachable)
          else if rsp_system_error r = EADDRNOTAVAIL then Inr (PsError, RsnLocalAddressUnavailable)
          else Inr (PsError, RsnSocketError)
      | _ \<Rightarrow> Inl ParseError)"

definition connect_probe :: "libc \<Rightarrow> port_probe" where
  "connect_probe lc = \<lparr>pp_type = TcpConnect, pp_build = connect_build lc, pp_timeout_state = PsFiltered,
     pp_timeout_reason = RsnTimeout, pp_assess = connect_assess\<rparr>"

subsection \<open>TCP SYN\<close>

definition source_port_for :: "u64 \<Rightarrow> u16" where
  "source_port_for i = ucast (40000 + i mod 20000)"

definition syn_sequence_for :: "u64 \<Rightarrow> u32" where
  "syn_sequence_for i = (ucast i XOR 0x9e3779b9) * 1664525 + 1013904223"

text \<open>
  The span a raw probe serializes into is as long as the segment; the IPv6 checksum takes the
  unspecified source address.
\<close>

definition probe_packet :: "ip_address \<Rightarrow> tcp \<Rightarrow> status_code \<times> bytes" where
  "probe_packet a t =
     (let out = replicate (tcp_serialized_size t) 0 in
      if is_ipv6 a then tcp_serialize_with_checksum6 t out (replicate 16 0) (ip_bytes a) []
      else tcp_serialize t out)"

definition syn_segment :: "u64 \<Rightarrow> port \<Rightarrow> tcp" where
  "syn_segment i p = new_tcp\<lparr>tcp_source_port := source_port_for i, tcp_destination_port := port_number p,
     tcp_sequence_number := syn_sequence_for i, tcp_acknowledgment_number := 0,
     tcp_flags := flag_bit Syn, tcp_window := 65535\<rparr>"

definition syn_build ::
  "libc \<Rightarrow> u64 \<Rightarrow> host \<Rightarrow> port \<Rightarrow> port_scan_config \<Rightarrow> port_submission \<Rightarrow> status_code \<times> port_submission" where
  "syn_build lc i h p cfg s =
     (if i = 0 \<or> port_protocol p \<noteq> Tcp \<or> port_number p = 0 \<or> h_address h = [] then (InvalidArgument, s)
      else case probe_address lc h of
        None \<Rightarrow> (InvalidArgument, s)
      | Some a \<Rightarrow>
          (case probe_packet a (syn_segment i p) of (st, out) \<Rightarrow>
             (st, new_submission\<lparr>sub_id := i, sub_probe := TcpSyn, sub_target := h_address h, sub_port := p,
                sub_packet := out, sub_source_port := source_port_for i, sub_sequence := syn_sequence_for i,
                sub_target_ip := a\<rparr>)))"

text \<open>What both raw probes make of an ICMP error.\<close>

definition assess_unreachable :: "scan_reason \<Rightarrow> status_code + (port_state \<times> scan_reason)" where
  "assess_unreachable reason =
     (if reason = RsnIcmpNetworkUnreachable then Inr (PsUnreachable, reason)
      else if reason = RsnIcmpAdministrativelyProhibited \<or> reason = RsnIcmpPortUnreachable
        \<or> reason = RsnIcmpProtocolUnreachable then Inr (PsFiltered, reason)
      else Inl NotFound)"

definition from_target :: "port_response \<Rightarrow> port_submission \<Rightarrow> bool" where
  "from_target r s =
     (if ip_valid (rsp_source_ip r) then ip_valid (sub_target_ip s) \<and> rsp_source_ip r = sub_target_ip s
      else rsp_source_address r = sub_target s)"

definition for_probe :: "tcp \<Rightarrow> port_submission \<Rightarrow> bool" where
  "for_probe t s \<longleftrightarrow>
     tcp_source_port t = port_number (sub_port s) \<and> tcp_destination_port t = sub_source_port s"

definition syn_assess ::
  "port_response \<Rightarrow> port_submission \<Rightarrow> status_code + (port_state \<times> scan_reason)" where
  "syn_assess r s =
     (if rsp_id r \<noteq> sub_id s then Inl NotFound
      else if rsp_kind r = SocketError then Inr (PsError, RsnSocketError)
      else if rsp_kind r = Unreachable then assess_unreachable (rsp_reason r)
      else if rsp_kind r \<noteq> PacketReceived then Inl NotFound
      else if \<not> from_target r s then Inl NotFound
      else case tcp_parse (rsp_bytes r) of
        Parsed t \<Rightarrow>
          if \<not> for_probe t s then Inl NotFound
          else
            let fl = tcp_flags t; acked = (tcp_acknowledgment_number t = sub_sequence s + 1) in
            if has_flag fl Syn \<and> has_flag fl Ack \<and> \<not> has_flag fl Rst \<and> \<not> has_flag fl Fin \<and> acked
            then Inr (PsOpen, RsnSynAck)
            else if has_flag fl Rst \<and> \<not> has_flag fl Syn \<and> \<not> has_flag fl Fin \<and> (\<not> has_flag fl Ack \<or> acked)
            then Inr (PsClosed, RsnRst)
            else Inl NotFound
      | _ \<Rightarrow> Inl ParseError)"

definition syn_probe :: "libc \<Rightarrow> port_probe" where
  "syn_probe lc = \<lparr>pp_type = TcpSyn, pp_build = syn_build lc, pp_timeout_state = PsFiltered,
     pp_timeout_reason = RsnTimeout, pp_assess = syn_assess\<rparr>"

subsection \<open>TCP ACK\<close>

definition non_zero :: "u32 \<Rightarrow> u32" where
  "non_zero v = (if v = 0 then 1 else v)"

definition ack_sequence_for :: "u64 \<Rightarrow> u32" where
  "ack_sequence_for i = non_zero ((ucast i XOR 0x7f4a7c15) * 1664525 + 1013904223)"

definition acknowledgment_for :: "u64 \<Rightarrow> u32" where
  "acknowledgment_for i = non_zero ((ucast i XOR 0x85ebca6b) * 2246822519 + 3266489917)"

definition ack_segment :: "u64 \<Rightarrow> port \<Rightarrow> tcp" where
  "ack_segment i p = new_tcp\<lparr>tcp_source_port := source_port_for i, tcp_destination_port := port_number p,
     tcp_sequence_number := ack_sequence_for i, tcp_acknowledgment_number := acknowledgment_for i,
     tcp_flags := flag_bit Ack, tcp_window := 65535\<rparr>"

definition ack_build ::
  "libc \<Rightarrow> u64 \<Rightarrow> host \<Rightarrow> port \<Rightarrow> port_scan_config \<Rightarrow> port_submission \<Rightarrow> status_code \<times> port_submission" where
  "ack_build lc i h p cfg s =
     (if i = 0 \<or> port_protocol p \<noteq> Tcp \<or> port_number p = 0 \<or> h_address h = [] then (InvalidArgument, s)
      else case probe_address lc h of
        None \<Rightarrow> (InvalidArgument, s)
      | Some a \<Rightarrow>
          (case probe_packet a (ack_segment i p) of (st, out) \<Rightarrow>
             (st, new_submission\<lparr>sub_id := i, sub_probe := TcpAck, sub_target := h_address h, sub_port := p,
                sub_packet := out, sub_source_port := source_port_for i, sub_sequence := ack_sequence_for i,
                sub_ack := acknowledgment_for i, sub_target_ip := a\<rparr>)))"

definition ack_assess ::
  "port_response \<Rightarrow> port_submission \<Rightarrow> status_code + (port_state \<times> scan_reason)" where
  "ack_assess r s =
     (if rsp_id r \<noteq> sub_id s \<or> sub_probe s \<noteq> TcpAck then Inl NotFound
      else if rsp_kind r = SocketError then Inr (PsError, RsnSocketError)
      else if rsp_kind r = Unreachable then assess_unreachable (rsp_reason r)
      else if rsp_kind r \<noteq> PacketReceived then Inl NotFound
      else if \<not> from_target r s then Inl NotFound
      else case tcp_parse (rsp_bytes r) of
        Parsed t \<Rightarrow>
          if \<not> for_probe t s then Inl NotFound
          else
            let fl = tcp_flags t in
            if \<not> has_flag fl Rst \<or> has_flag fl Ack \<or> has_flag fl Syn \<or> has_flag fl Fin
              \<or> tcp_sequence_number t \<noteq> sub_ack s then Inl NotFound
            else Inr (PsUnfiltered, RsnAckRst)
      | _ \<Rightarrow> Inl ParseError)"

definition ack_probe :: "libc \<Rightarrow> port_probe" where
  "ack_probe lc = \<lparr>pp_type = TcpAck, pp_build = ack_build lc, pp_timeout_state = PsFiltered,
     pp_timeout_reason = RsnAckTimeout, pp_assess = ack_assess\<rparr>"

text \<open>The probe the scheduler's constructor makes for a method; UDP has a scheduler of its own.\<close>

fun probe_for :: "libc \<Rightarrow> scan_probe \<Rightarrow> port_probe option" where
  "probe_for lc TcpConnect = Some (connect_probe lc)"
| "probe_for lc TcpSyn = Some (syn_probe lc)"
| "probe_for lc TcpAck = Some (ack_probe lc)"
| "probe_for lc UdpProbe = None"

section \<open>The contract of a probe\<close>

text \<open>
  What the scheduler relies on: a built submission carries the identity it was built with, a
  response is only classified for the submission it names, and every classification, also that
  of silence, is one the result table admits for the probe's method.
\<close>

locale probe_contract =
  fixes p :: port_probe
  assumes tcp_method: "pp_type p \<noteq> UdpProbe"
    and assess_id: "pp_assess p r s = Inr (st, rs) \<Longrightarrow> rsp_id r = sub_id s"
    and assess_semantics: "pp_assess p r s = Inr (st, rs) \<Longrightarrow> valid_port_result_semantics Tcp (pp_type p) st rs"
    and timeout_semantics:
      "valid_port_result_semantics Tcp (pp_type p) (pp_timeout_state p) (pp_timeout_reason p)"
    and build_status: "pp_build p i h q cfg s = (st', s') \<Longrightarrow> st' = Ok \<or> st' = InvalidArgument"
    and build_identity: "pp_build p i h q cfg s = (Ok, s') \<Longrightarrow>
      i \<noteq> 0 \<and> port_protocol q = Tcp \<and> port_number q \<noteq> 0 \<and> h_address h \<noteq> [] \<and>
      sub_id s' = i \<and> sub_probe s' = pp_type p \<and> sub_target s' = h_address h \<and> sub_port s' = q \<and>
      ip_valid (sub_target_ip s')"
begin

text \<open>A response classified for one submission says nothing about one with another identifier.\<close>

lemma assess_unrelated: "rsp_id r \<noteq> sub_id s \<Longrightarrow> \<exists>st. pp_assess p r s = Inl st"
  using assess_id [of r s] by (cases "pp_assess p r s") auto

lemma conflict_semantics: "valid_port_result_semantics Tcp (pp_type p) PsUnknown RsnConflictingEvidence"
  using tcp_method by (simp add: valid_port_result_semantics.simps)

lemma error_semantics:
  "reason \<in> {RsnInternalError, RsnInvalidTarget, RsnCapabilityUnavailable} \<Longrightarrow>
     valid_port_result_semantics Tcp (pp_type p) PsError reason"
  using tcp_method by (auto simp: valid_port_result_semantics.simps)

end

text \<open>The segments the raw probes send, and their wire form.\<close>

definition probe_segment :: "ip_address \<Rightarrow> tcp \<Rightarrow> tcp" where
  "probe_segment a t =
     (if is_ipv6 a then tcp_checksum_filled (ipv6_pseudo_header (replicate 16 0) (ip_bytes a) 6) t else t)"

lemma bare_segment:
  assumes "tcp_options t = []" and "tcp_payload t = []" and "tcp_data_offset t = 5" and "tcp_flags t \<le> 255"
  shows "tcp_canonical t" and "tcp_validate t" and "tcp_with_payload t [] = t"
  using assms
  by (simp_all add: tcp_canonical_def tcp_validate_def padded_options_size_def tcp_header_size_def
      tcp_with_payload_def)

lemma probe_packet_wire:
  assumes "tcp_options t = []" and "tcp_payload t = []" and "tcp_data_offset t = 5" and "tcp_flags t \<le> 255"
  shows "probe_packet a t = (Ok, tcp_wire (probe_segment a t)) \<and>
    tcp_parse (tcp_wire (probe_segment a t)) = Parsed (probe_segment a t)"
proof -
  note bare = bare_segment [OF assms]
  have "tcp_canonical (probe_segment a t)"
    by (rule bare_segment) (simp_all add: probe_segment_def tcp_checksum_filled_def assms)
  moreover have "probe_packet a t = (Ok, tcp_wire (probe_segment a t))"
    using bare by (simp add: probe_packet_def Let_def probe_segment_def tcp_serialize_with_checksum6_def
      tcp_checksummed_wire tcp_serialize_exact)
  ultimately show ?thesis by (simp add: tcp_parse_wire)
qed

lemma segments_bare:
  "tcp_options (syn_segment i p) = []" "tcp_payload (syn_segment i p) = []"
  "tcp_data_offset (syn_segment i p) = 5" "tcp_flags (syn_segment i p) = 2"
  "tcp_options (ack_segment i p) = []" "tcp_payload (ack_segment i p) = []"
  "tcp_data_offset (ack_segment i p) = 5" "tcp_flags (ack_segment i p) = 16"
  by (simp_all add: syn_segment_def ack_segment_def new_tcp_def)

lemma syn_packet: "probe_packet a (syn_segment i p) = (Ok, tcp_wire (probe_segment a (syn_segment i p)))"
  using probe_packet_wire [of "syn_segment i p" a] by (simp add: segments_bare)

lemma ack_packet: "probe_packet a (ack_segment i p) = (Ok, tcp_wire (probe_segment a (ack_segment i p)))"
  using probe_packet_wire [of "ack_segment i p" a] by (simp add: segments_bare)

lemma probe_address_valid: "probe_address lc h = Some a \<Longrightarrow> ip_valid a"
  by (auto simp: probe_address_def parse_ip_valid split: if_splits)

lemmas build_defs = connect_build_def syn_build_def ack_build_def syn_packet ack_packet new_submission_def
lemmas assess_defs = connect_assess_def syn_assess_def ack_assess_def assess_unreachable_def

interpretation connect: probe_contract "connect_probe lc" for lc
  by unfold_locales
    (auto simp: connect_probe_def build_defs connect_assess_def valid_port_result_semantics.simps
      dest: probe_address_valid split: if_splits option.splits response_kind.splits)

interpretation syn: probe_contract "syn_probe lc" for lc
  by unfold_locales
    (auto simp: syn_probe_def build_defs syn_assess_def assess_unreachable_def Let_def
      valid_port_result_semantics.simps
      dest: probe_address_valid split: if_splits option.splits parsed.splits)

interpretation ack: probe_contract "ack_probe lc" for lc
  by unfold_locales
    (auto simp: ack_probe_def build_defs ack_assess_def assess_unreachable_def Let_def
      valid_port_result_semantics.simps
      dest: probe_address_valid split: if_splits option.splits parsed.splits)

lemma probe_for_contract: "probe_for lc m = Some p \<Longrightarrow> probe_contract p"
  using connect.probe_contract_axioms syn.probe_contract_axioms ack.probe_contract_axioms
  by (cases m) auto

lemma probe_for_type: "probe_for lc m = Some p \<Longrightarrow> pp_type p = m"
  by (cases m) (auto simp: connect_probe_def syn_probe_def ack_probe_def)

section \<open>Sequence numbers\<close>

lemma lcg_injective:
  assumes "(x XOR c) * 1664525 + k = (y XOR c) * 1664525 + (k :: u32)"
  shows "x = y"
proof -
  have inverse: "(1664525 :: u32) * 4276115653 = 1" by simp
  have "(x XOR c) * 1664525 = (y XOR c) * 1664525" using assms by simp
  then have "(x XOR c) * 1664525 * 4276115653 = (y XOR c) * 1664525 * 4276115653" by (rule arg_cong)
  then have "x XOR c = y XOR c" by (simp only: mult.assoc inverse mult_1_right)
  then have "(x XOR c) XOR c = (y XOR c) XOR c" by simp
  then show ?thesis by (simp add: xor.assoc)
qed

lemma low_ids_distinct:
  assumes "(ucast (i :: u64) :: u32) = ucast j" and "i < 2 ^ 32" and "j < 2 ^ 32"
  shows "i = j"
proof -
  have "unat (ucast i :: u32) = unat (ucast j :: u32)" using assms(1) by simp
  then have "unat i mod 2 ^ 32 = unat j mod 2 ^ 32" by (simp add: unsigned_ucast_eq take_bit_eq_mod)
  moreover have "unat i < 2 ^ 32" "unat j < 2 ^ 32"
    using assms(2,3) by (simp_all add: word_less_nat_alt)
  ultimately show ?thesis by (simp add: word_unat_eq_iff)
qed

lemma syn_sequence_injective:
  "syn_sequence_for i = syn_sequence_for j \<Longrightarrow> i < 2 ^ 32 \<Longrightarrow> j < 2 ^ 32 \<Longrightarrow> i = j"
  unfolding syn_sequence_for_def by (rule low_ids_distinct [OF lcg_injective])

definition probe_buildable :: "libc \<Rightarrow> u64 \<Rightarrow> host \<Rightarrow> port \<Rightarrow> bool" where
  "probe_buildable lc i h q \<longleftrightarrow> i \<noteq> 0 \<and> port_protocol q = Tcp \<and> port_number q \<noteq> 0 \<and> h_address h \<noteq> [] \<and>
     probe_address lc h \<noteq> None"

lemma syn_build_numbers:
  assumes "syn_build lc i h q cfg s0 = (Ok, s)"
  shows "sub_id s = i" "sub_port s = q" "sub_source_port s = source_port_for i"
    "sub_sequence s = syn_sequence_for i" "ip_valid (sub_target_ip s)" "sub_target s = h_address h"
  using assms
  by (auto simp: syn_build_def new_submission_def dest: probe_address_valid
      split: if_splits option.splits prod.splits)

lemma syn_packet_classified:
  assumes "syn_build lc i h q cfg s0 = (Ok, s)" and "tcp_parse (rsp_bytes r) = Parsed t"
    and "tcp_source_port t = port_number q" and "tcp_destination_port t = source_port_for i"
    and "tcp_acknowledgment_number t = syn_sequence_for i + 1"
    and "rsp_id r = i" and "rsp_kind r = PacketReceived" and "rsp_source_ip r = sub_target_ip s"
  shows "syn_assess r s =
    (let has = has_flag (tcp_flags t) in
     if has Fin \<or> (has Syn \<and> has Rst) \<or> \<not> (has Syn \<or> has Rst) then Inl NotFound
     else if has Rst then Inr (PsClosed, RsnRst)
     else if has Ack then Inr (PsOpen, RsnSynAck) else Inl NotFound)"
  using assms(2-8) syn_build_numbers [OF assms(1)]
  by (auto simp: syn_assess_def from_target_def for_probe_def Let_def)

lemma syn_open_acked:
  "syn_assess r s = Inr (PsOpen, x) \<Longrightarrow>
     \<exists>t. tcp_parse (rsp_bytes r) = Parsed t \<and> tcp_acknowledgment_number t = sub_sequence s + 1"
  by (auto simp: syn_assess_def assess_unreachable_def Let_def split: if_splits parsed.splits)

section \<open>Properties\<close>

text \<open>
  Building a raw probe succeeds exactly for a non-zero identifier, a TCP port
  other than zero and a host with an address, typed or written; the packet in the submission
  parses back to the SYN or ACK segment to that port, from the identifier's source port, with the
  identifier's numbers (over IPv6 with the checksum filled in, which differs in no other field).
\<close>

theorem raw_probe_packets:
  "(if probe_buildable lc i h q
          then fst (syn_build lc i h q cfg s) = Ok \<and> fst (ack_build lc i h q cfg s) = Ok \<and>
            (\<exists>c. tcp_parse (sub_packet (snd (syn_build lc i h q cfg s))) =
               Parsed ((syn_segment i q)\<lparr>tcp_checksum := c\<rparr>)) \<and>
            (\<exists>c. tcp_parse (sub_packet (snd (ack_build lc i h q cfg s))) =
               Parsed ((ack_segment i q)\<lparr>tcp_checksum := c\<rparr>))
          else syn_build lc i h q cfg s = (InvalidArgument, s) \<and> ack_build lc i h q cfg s = (InvalidArgument, s))"
proof (cases "probe_buildable lc i h q")
  case True
  then obtain a where a: "probe_address lc h = Some a" by (auto simp: probe_buildable_def)
  have same: "t\<lparr>tcp_checksum := tcp_checksum t\<rparr> = t" for t :: tcp by simp
  have "\<exists>c. probe_segment a t = t\<lparr>tcp_checksum := c\<rparr>" for t
    unfolding probe_segment_def tcp_checksum_filled_def by (metis same)
  moreover have "tcp_parse (tcp_wire (probe_segment a (syn_segment i q))) = Parsed (probe_segment a (syn_segment i q))"
    "tcp_parse (tcp_wire (probe_segment a (ack_segment i q))) = Parsed (probe_segment a (ack_segment i q))"
    using probe_packet_wire [of "syn_segment i q" a] probe_packet_wire [of "ack_segment i q" a]
    by (simp_all add: segments_bare)
  ultimately show ?thesis
    using True a by (simp add: probe_buildable_def syn_build_def ack_build_def syn_packet ack_packet)
next
  case False
  then show ?thesis by (auto simp: probe_buildable_def syn_build_def ack_build_def)
qed

text \<open>
  A host that answers a built SYN probe with a segment acknowledging its sequence
  number is reported open exactly when the segment is a SYN-ACK, closed when it is a reset,
  and nothing is concluded from any other segment: the classification survives serialization
  and parsing of the reply.
\<close>

theorem syn_reply_classified:
  assumes "syn_build lc i h q cfg s0 = (Ok, s)" and "tcp_canonical t"
    and "tcp_source_port t = port_number q" and "tcp_destination_port t = source_port_for i"
    and "tcp_acknowledgment_number t = syn_sequence_for i + 1"
    and "rsp_id r = i" and "rsp_kind r = PacketReceived" and "rsp_source_ip r = sub_target_ip s"
    and "rsp_bytes r = element_bytes tcp_serialize tcp_serialized_size t"
  shows "syn_assess r s =
    (let has = has_flag (tcp_flags t) in
     if has Fin \<or> (has Syn \<and> has Rst) \<or> \<not> (has Syn \<or> has Rst) then Inl NotFound
     else if has Rst then Inr (PsClosed, RsnRst)
     else if has Ack then Inr (PsOpen, RsnSynAck) else Inl NotFound)"
proof (rule syn_packet_classified [OF assms(1) _ assms(3-8)])
  show "tcp_parse (rsp_bytes r) = Parsed t"
    using assms(2,9) tcp_codec.element_bytes_wire [of t] tcp_parse_wire [of t] by (simp add: tcp_canonical_def)
qed

text \<open>
  A host at a typed address, a port of it, a C library that resolves no text, and the replies of
  the host to the probe with identifier \<open>i\<close>.
\<close>

definition no_libc :: libc where
  "no_libc = \<lparr>inet_pton4 = (\<lambda>_. None), inet_pton6 = (\<lambda>_. None), inet_ntop4 = (\<lambda>_. None),
     inet_ntop6 = (\<lambda>_. None), if_nametoindex = (\<lambda>_. 0)\<rparr>"

definition probed_host :: host where
  "probed_host = \<lparr>h_address = ''192.0.2.7'', h_hostname = None, h_is_up = True, h_ip = from_ipv4 0xC0000207\<rparr>"

definition probed_port :: port where
  "probed_port = \<lparr>port_number = 443, port_protocol = Tcp\<rparr>"

definition syn_ack_reply :: "u64 \<Rightarrow> tcp" where
  "syn_ack_reply i = new_tcp\<lparr>tcp_source_port := 443, tcp_destination_port := source_port_for i,
     tcp_sequence_number := 77, tcp_acknowledgment_number := syn_sequence_for i + 1, tcp_flags := 18\<rparr>"

definition reply_to :: "u64 \<Rightarrow> (u64 \<Rightarrow> tcp) \<Rightarrow> port_response" where
  "reply_to i t = \<lparr>rsp_id = i, rsp_source_address = ''192.0.2.7'', rsp_kind = PacketReceived,
     rsp_system_error = 0, rsp_bytes = element_bytes tcp_serialize tcp_serialized_size (t i),
     rsp_received_at = 0, rsp_source_ip = from_ipv4 0xC0000207, rsp_reason = RsnInternalError\<rparr>"

lemma syn_ack_reply_canonical: "tcp_canonical (syn_ack_reply i)"
  by (rule bare_segment) (simp_all add: syn_ack_reply_def new_tcp_def)

theorem syn_reply_classified_witness:
  "syn_assess (reply_to 1 syn_ack_reply)
     (snd (syn_build no_libc 1 probed_host probed_port default_port_scan_config new_submission))
   = Inr (PsOpen, RsnSynAck)"
  using syn_ack_reply_canonical [of 1]
  by (subst syn_reply_classified [where i = 1 and h = probed_host and q = probed_port and t = "syn_ack_reply 1"
        and lc = no_libc and cfg = default_port_scan_config and ?s0.0 = new_submission])
    (simp_all add: reply_to_def syn_ack_reply_def has_flag_def
      syn_build_def probed_host_def probed_port_def probe_address_def syn_packet)

text \<open>
  Two SYN probes of one scan (identifiers below \<open>2 ^ 32\<close>) never share a
  SYN-ACK: a reply that opens the port of one submission opens no port of the other, whatever
  ports and hosts they probe, since their sequence numbers differ.
\<close>

theorem syn_ack_identifies_probe:
  assumes "syn_build lc i h q cfg s0 = (Ok, s)" and "syn_build lc j h' q' cfg' s0' = (Ok, s')"
    and "i < 2 ^ 32" and "j < 2 ^ 32" and "i \<noteq> j"
    and "syn_assess (r\<lparr>rsp_id := i\<rparr>) s = Inr (PsOpen, x)"
  shows "syn_assess (r\<lparr>rsp_id := j\<rparr>) s' \<noteq> Inr (PsOpen, x')"
proof
  assume "syn_assess (r\<lparr>rsp_id := j\<rparr>) s' = Inr (PsOpen, x')"
  then obtain t' where t': "tcp_parse (rsp_bytes r) = Parsed t'" "tcp_acknowledgment_number t' = sub_sequence s' + 1"
    by (drule_tac syn_open_acked) auto
  obtain t where t: "tcp_parse (rsp_bytes r) = Parsed t" "tcp_acknowledgment_number t = sub_sequence s + 1"
    using syn_open_acked [OF assms(6)] by auto
  have "sub_sequence s = sub_sequence s'" using t t' by simp
  then have "syn_sequence_for i = syn_sequence_for j"
    using syn_build_numbers [OF assms(1)] syn_build_numbers [OF assms(2)] by simp
  with assms(3-5) show False using syn_sequence_injective by blast
qed

theorem syn_ack_identifies_probe_witness:
  "syn_assess ((reply_to 1 syn_ack_reply)\<lparr>rsp_id := 2\<rparr>)
     (snd (syn_build no_libc 2 probed_host probed_port default_port_scan_config new_submission))
   \<noteq> Inr (PsOpen, RsnSynAck)"
proof (rule syn_ack_identifies_probe)
  show "syn_build no_libc 1 probed_host probed_port default_port_scan_config new_submission =
      (Ok, snd (syn_build no_libc 1 probed_host probed_port default_port_scan_config new_submission))"
    "syn_build no_libc 2 probed_host probed_port default_port_scan_config new_submission =
      (Ok, snd (syn_build no_libc 2 probed_host probed_port default_port_scan_config new_submission))"
    by (simp_all add: syn_build_def probed_host_def probed_port_def probe_address_def syn_packet)
  have "tcp_parse (rsp_bytes (reply_to 1 syn_ack_reply)) = Parsed (syn_ack_reply 1)"
    using tcp_codec.element_bytes_wire [of "syn_ack_reply 1"] syn_ack_reply_canonical [of 1]
      tcp_parse_wire [of "syn_ack_reply 1"] by (simp add: reply_to_def tcp_canonical_def)
  then show "syn_assess ((reply_to 1 syn_ack_reply)\<lparr>rsp_id := 1\<rparr>)
      (snd (syn_build no_libc 1 probed_host probed_port default_port_scan_config new_submission)) =
      Inr (PsOpen, RsnSynAck)"
    by (subst syn_packet_classified [where i = 1 and h = probed_host and q = probed_port and t = "syn_ack_reply 1"
          and lc = no_libc and cfg = default_port_scan_config and ?s0.0 = new_submission])
      (simp_all add: reply_to_def syn_ack_reply_def has_flag_def
        syn_build_def probed_host_def probed_port_def probe_address_def syn_packet)
qed simp_all

lemma response_named:
  assumes "from_target r s"
  shows "if ip_valid (rsp_source_ip r) then rsp_source_ip r = sub_target_ip s else rsp_source_address r = sub_target s"
  using assms by (auto simp: from_target_def split: if_splits)

lemma ack_build_numbers:
  assumes "ack_build lc i h q cfg s0 = (Ok, s)"
  shows "sub_id s = i" "sub_port s = q" "sub_source_port s = source_port_for i" "sub_ack s = acknowledgment_for i"
    "sub_target s = h_address h" "probe_address lc h = Some (sub_target_ip s)"
  using assms by (auto simp: ack_build_def new_submission_def split: if_splits option.splits prod.splits)

lemma syn_build_address: "syn_build lc i h q cfg s0 = (Ok, s) \<Longrightarrow> probe_address lc h = Some (sub_target_ip s)"
  by (auto simp: syn_build_def new_submission_def split: if_splits option.splits prod.splits)

lemma connect_build_numbers:
  assumes "connect_build lc i h q cfg s0 = (Ok, s)"
  shows "sub_id s = i" "sub_target s = h_address h"
  using assms by (auto simp: connect_build_def new_submission_def split: if_splits option.splits)

text \<open>What a verdict on port \<open>q\<close> of host \<open>h\<close>, probed under identifier \<open>i\<close>, has to rest on.\<close>

definition names_host :: "libc \<Rightarrow> host \<Rightarrow> port_response \<Rightarrow> bool" where
  "names_host lc h r \<longleftrightarrow>
     (if ip_valid (rsp_source_ip r) then probe_address lc h = Some (rsp_source_ip r) else rsp_source_address r = h_address h)"

definition segment_verdict :: "scan_probe \<Rightarrow> u64 \<Rightarrow> tcp \<Rightarrow> (port_state \<times> scan_reason) option" where
  "segment_verdict m i t =
     (let has = has_flag (tcp_flags t); acked = (tcp_acknowledgment_number t = syn_sequence_for i + 1) in
      if has Fin then None
      else if m = TcpSyn then
        if has Syn \<and> has Ack \<and> \<not> has Rst \<and> acked then Some (PsOpen, RsnSynAck)
        else if has Rst \<and> \<not> has Syn \<and> (has Ack \<longrightarrow> acked) then Some (PsClosed, RsnRst) else None
      else if has Rst \<and> \<not> has Syn \<and> \<not> has Ack \<and> tcp_sequence_number t = acknowledgment_for i
        then Some (PsUnfiltered, RsnAckRst) else None)"

definition verdict_grounds ::
  "libc \<Rightarrow> scan_probe \<Rightarrow> u64 \<Rightarrow> host \<Rightarrow> port \<Rightarrow> port_response \<Rightarrow> port_state \<times> scan_reason \<Rightarrow> bool" where
  "verdict_grounds lc m i h q r v \<longleftrightarrow>
     (m = TcpConnect \<longrightarrow> rsp_source_address r = [] \<or> rsp_source_address r = h_address h) \<and>
     (case rsp_kind r of
        Connected \<Rightarrow> m = TcpConnect \<and> v = (PsOpen, RsnImmediateSuccess)
      | ConnectionRefused \<Rightarrow> m = TcpConnect \<and> v = (PsClosed, RsnConnectionRefused)
      | SocketError \<Rightarrow>
          v = (if m = TcpConnect \<and> rsp_system_error r = ETIMEDOUT then (PsFiltered, RsnTimeout)
               else if m = TcpConnect \<and> is_unreachable_error (rsp_system_error r) then (PsUnreachable, RsnNetworkUnreachable)
               else if m = TcpConnect \<and> rsp_system_error r = EADDRNOTAVAIL then (PsError, RsnLocalAddressUnavailable)
               else (PsError, RsnSocketError))
      | Unreachable \<Rightarrow>
          m \<noteq> TcpConnect \<and> snd v = rsp_reason r \<and>
          fst v = (if rsp_reason r = RsnIcmpNetworkUnreachable then PsUnreachable else PsFiltered)
      | PacketReceived \<Rightarrow>
          m \<noteq> TcpConnect \<and> names_host lc h r \<and>
          (\<exists>t. tcp_parse (rsp_bytes r) = Parsed t \<and> tcp_source_port t = port_number q \<and>
             tcp_destination_port t = source_port_for i \<and> segment_verdict m i t = Some v))"

text \<open>
  Property C26. A TCP probe built for a port of a host concludes something only from a response
  with the identifier of the probe, and only what the response justifies: a connect scan concludes
  what became of the connection, from a response that names the host or nobody; a SYN or an ACK scan
  takes a packet for an answer only if it comes from the host, from the port probed to the source port of the identifier, and
  then concludes open from a SYN-ACK that acknowledges the sequence number sent, closed from a
  reset whose acknowledgment, if it has one, is that number, unfiltered from a bare reset whose
  sequence number is the acknowledgment sent, and nothing from any other segment; an unreachable
  message or an error of the transport, which carry no segment, are taken as the transport reports
  them; every conclusion is a pair the result table admits for the method, and silence means filtered.
\<close>

theorem probe_verdicts_justified:
  assumes "probe_for lc m = Some p" and "pp_build p i h q cfg s0 = (Ok, s)"
  shows "(\<forall>st rs. pp_assess p r s = Inr (st, rs) \<longrightarrow>
      rsp_id r = i \<and> valid_port_result_semantics Tcp m st rs \<and> verdict_grounds lc m i h q r (st, rs)) \<and>
    pp_timeout_state p = PsFiltered \<and> valid_port_result_semantics Tcp m PsFiltered (pp_timeout_reason p)"
proof (intro conjI allI impI)
  have c: "probe_contract p" by (rule probe_for_contract [OF assms(1)])
  have t: "pp_type p = m" by (rule probe_for_type [OF assms(1)])
  show silent: "pp_timeout_state p = PsFiltered"
    using assms(1) by (cases m) (auto simp: connect_probe_def syn_probe_def ack_probe_def)
  show "valid_port_result_semantics Tcp m PsFiltered (pp_timeout_reason p)"
    using probe_contract.timeout_semantics [OF c] t silent by simp
  fix st rs
  assume a: "pp_assess p r s = Inr (st, rs)"
  show "rsp_id r = i"
    using probe_contract.assess_id [OF c a] probe_contract.build_identity [OF c assms(2)] by simp
  show "valid_port_result_semantics Tcp m st rs" using probe_contract.assess_semantics [OF c a] t by simp
  show "verdict_grounds lc m i h q r (st, rs)"
  proof (cases m)
    case TcpConnect
    then have b: "connect_build lc i h q cfg s0 = (Ok, s)" using assms by (auto simp: connect_probe_def)
    show ?thesis using a assms(1) TcpConnect connect_build_numbers [OF b]
      by (auto simp: connect_probe_def connect_assess_def verdict_grounds_def split: if_splits response_kind.splits)
  next
    case TcpSyn
    then have b: "syn_build lc i h q cfg s0 = (Ok, s)" and v: "syn_assess r s = Inr (st, rs)"
      using assms a by (auto simp: syn_probe_def)
    note n = syn_build_numbers [OF b] syn_build_address [OF b]
    show ?thesis using v TcpSyn n response_named [of r s]
      by (cases "rsp_kind r")
        (auto simp: syn_assess_def assess_unreachable_def verdict_grounds_def names_host_def segment_verdict_def
          for_probe_def Let_def split: if_splits parsed.splits)
  next
    case TcpAck
    then have b: "ack_build lc i h q cfg s0 = (Ok, s)" and v: "ack_assess r s = Inr (st, rs)"
      using assms a by (auto simp: ack_probe_def)
    note n = ack_build_numbers [OF b]
    show ?thesis using v TcpAck n response_named [of r s]
      by (cases "rsp_kind r")
        (auto simp: ack_assess_def assess_unreachable_def verdict_grounds_def names_host_def segment_verdict_def
          for_probe_def Let_def split: if_splits parsed.splits)
  qed (use assms(1) in simp)
qed

text \<open>The SYN-ACK of the host to the probe with identifier 1.\<close>

theorem probe_verdicts_justified_witness:
  "syn_assess (reply_to 1 syn_ack_reply)
     (snd (syn_build no_libc 1 probed_host probed_port default_port_scan_config new_submission)) = Inr (PsOpen, RsnSynAck) \<and>
   verdict_grounds no_libc TcpSyn 1 probed_host probed_port (reply_to 1 syn_ack_reply) (PsOpen, RsnSynAck)"
proof -
  let ?s = "snd (syn_build no_libc 1 probed_host probed_port default_port_scan_config new_submission)"
  have b: "pp_build (syn_probe no_libc) 1 probed_host probed_port default_port_scan_config new_submission = (Ok, ?s)"
    by (simp add: syn_probe_def syn_build_def probed_host_def probed_port_def probe_address_def syn_packet)
  have "tcp_parse (rsp_bytes (reply_to 1 syn_ack_reply)) = Parsed (syn_ack_reply 1)"
    using tcp_codec.element_bytes_wire [of "syn_ack_reply 1"] syn_ack_reply_canonical [of 1]
      tcp_parse_wire [of "syn_ack_reply 1"] by (simp add: reply_to_def tcp_canonical_def)
  then have a: "syn_assess (reply_to 1 syn_ack_reply) ?s = Inr (PsOpen, RsnSynAck)"
    by (subst syn_packet_classified [where i = 1 and h = probed_host and q = probed_port and t = "syn_ack_reply 1"
          and lc = no_libc and cfg = default_port_scan_config and ?s0.0 = new_submission])
      (simp_all add: reply_to_def syn_ack_reply_def has_flag_def
        syn_build_def probed_host_def probed_port_def probe_address_def syn_packet)
  have p: "probe_for no_libc TcpSyn = Some (syn_probe no_libc)" by simp
  have "pp_assess (syn_probe no_libc) (reply_to 1 syn_ack_reply) ?s = Inr (PsOpen, RsnSynAck)"
    using a by (simp add: syn_probe_def)
  with probe_verdicts_justified [OF p b, of "reply_to 1 syn_ack_reply"] show ?thesis using a by blast
qed

end
