(* ===== verification/Port_Scheduler.thy ===== *)
theory Port_Scheduler
  imports Port_Probes Io_Engine Timing
begin

text \<open>
  The TCP port scanner's scheduler (\<open>include/portscan/port_scheduler.hpp\<close>,
  \<open>src/portscan/port_scheduler.cpp\<close>): the queue of work, the probes in flight, the retries
  waiting for their delay, and the handlers of responses and timers.

  The environment record holds what the scheduler is given: the C library, the readings of the
  steady clock, and the transport with its own state. A transport may answer a submission
  before \<open>submit\<close> returns (a connect that completes at once); the answer is then handled by a
  nested \<open>pump\<close>. The model bounds the nesting and the turns of the loop by fuel, and shows that
  the length of the queue is enough of both. A transport that refuses a submission must not
  answer it: the code would use an invalidated iterator. An event of the transport
  yields the responses it hands to the scheduler; \<open>env_done\<close> is what it does after they are handled.
\<close>

section \<open>State\<close>

record work_item =
  wk_host :: host
  wk_port :: port
  wk_retry_count :: nat
  wk_closed_observations :: nat
  wk_filtered_observations :: nat
  wk_error_observations :: nat

definition new_work :: "host \<Rightarrow> port \<Rightarrow> work_item" where
  "new_work h p = \<lparr>wk_host = h, wk_port = p, wk_retry_count = 0, wk_closed_observations = 0,
     wk_filtered_observations = 0, wk_error_observations = 0\<rparr>"

record pending_probe =
  pd_work :: work_item
  pd_submission :: port_submission
  pd_started_at :: int
  pd_timer :: u64
  pd_candidate_state :: "port_state option"
  pd_candidate_reason :: scan_reason
  pd_candidate_at :: int
  pd_conflict :: bool

record deferred_retry =
  df_work :: work_item
  df_timer :: u64

text \<open>The callbacks the engine holds: the scheduler's two timers, and those of the transport.\<close>

datatype 'x sched_callback = OnTimeout u64 | OnRetryReady u64 | TransportEvent 'x

record ('x, 't) scan_env =
  env_libc :: libc
  env_clock :: "nat \<Rightarrow> int"
  env_supports :: "scan_probe \<Rightarrow> 't \<Rightarrow> bool"
  env_submit :: "port_submission \<Rightarrow> 'x sched_callback engine \<times> 't \<Rightarrow>
    status_code \<times> port_response option \<times> 'x sched_callback engine \<times> 't"
  env_cancel :: "u64 \<Rightarrow> 'x sched_callback engine \<times> 't \<Rightarrow> 'x sched_callback engine \<times> 't"
  env_event :: "'x \<Rightarrow> 'x sched_callback engine \<times> 't \<Rightarrow>
    port_response list \<times> 'x sched_callback engine \<times> 't"
  env_done :: "'x \<Rightarrow> 'x sched_callback engine \<times> 't \<Rightarrow> 'x sched_callback engine \<times> 't"

record ('x, 't) scheduler =
  ss_engine :: "'x sched_callback engine"
  ss_transport :: 't
  ss_reads :: nat
  ss_config :: port_scan_config
  ss_probe :: "port_probe option"
  ss_timing :: "timing_controller option"
  ss_queue :: "work_item list"
  ss_pending :: "(u64 \<times> pending_probe) list"
  ss_deferred :: "(u64 \<times> deferred_retry) list"
  ss_results :: "port_result list"
  ss_results_sorted :: bool
  ss_next_id :: u64
  ss_next_retry_id :: u64
  ss_status :: status_code
  ss_submitted :: bool

definition new_scheduler ::
  "('x, 't) scan_env \<Rightarrow> 'x sched_callback engine \<Rightarrow> 't \<Rightarrow> port_scan_config \<Rightarrow> ('x, 't) scheduler" where
  "new_scheduler env e t cfg =
     \<lparr>ss_engine = e, ss_transport = t, ss_reads = 0, ss_config = cfg,
      ss_probe = probe_for (env_libc env) (cfg_method cfg),
      ss_timing = (if cfg_adaptive_timing cfg then Some (new_timing_controller (cfg_timing_profile cfg)) else None),
      ss_queue = [], ss_pending = [], ss_deferred = [], ss_results = [], ss_results_sorted = True,
      ss_next_id = 1, ss_next_retry_id = 1, ss_status = Ok, ss_submitted = False\<rparr>"

section \<open>Clock, timers, transport\<close>

definition ns_per_ms :: int where
  "ns_per_ms = 1000000"

definition read_now :: "('x, 't) scan_env \<Rightarrow> ('x, 't) scheduler \<Rightarrow> int \<times> ('x, 't) scheduler" where
  "read_now env s = (env_clock env (ss_reads s), s\<lparr>ss_reads := Suc (ss_reads s)\<rparr>)"

definition schedule_ms ::
  "('x, 't) scan_env \<Rightarrow> int \<Rightarrow> 'x sched_callback \<Rightarrow> ('x, 't) scheduler \<Rightarrow> u64 \<times> ('x, 't) scheduler" where
  "schedule_ms env delay cb s =
     (case read_now env s of (now, s1) \<Rightarrow>
       case engine_schedule now (delay * ns_per_ms) cb (ss_engine s1) of (tid, e) \<Rightarrow>
         (tid, s1\<lparr>ss_engine := e\<rparr>))"

definition cancel_timer :: "u64 \<Rightarrow> ('x, 't) scheduler \<Rightarrow> ('x, 't) scheduler" where
  "cancel_timer tid s = s\<lparr>ss_engine := engine_cancel tid (ss_engine s)\<rparr>"

definition cancel_probe :: "('x, 't) scan_env \<Rightarrow> u64 \<Rightarrow> ('x, 't) scheduler \<Rightarrow> ('x, 't) scheduler" where
  "cancel_probe env i s =
     (case env_cancel env i (ss_engine s, ss_transport s) of (e, t) \<Rightarrow>
       s\<lparr>ss_engine := e, ss_transport := t\<rparr>)"

definition update_timing ::
  "(timing_controller \<Rightarrow> timing_controller) \<Rightarrow> ('x, 't) scheduler \<Rightarrow> ('x, 't) scheduler" where
  "update_timing f s = s\<lparr>ss_timing := map_option f (ss_timing s)\<rparr>"

section \<open>Results\<close>

definition append_terminal_result ::
  "('x, 't) scan_env \<Rightarrow> work_item \<Rightarrow> scan_probe \<Rightarrow> port_state \<Rightarrow> scan_reason \<Rightarrow> rat option \<Rightarrow>
     ('x, 't) scheduler \<Rightarrow> ('x, 't) scheduler" where
  "append_terminal_result env w probe st rs rtt s =
     (case read_now env s of (now, s1) \<Rightarrow>
       s1\<lparr>ss_results := ss_results s1 @
            [\<lparr>res_target = h_address (wk_host w), res_port = wk_port w, res_state = st, res_probe = probe,
              res_reason = rs, res_rtt_ms = rtt, res_timestamp = now, res_retry_count = wk_retry_count w,
              res_probe_name = None\<rparr>],
          ss_results_sorted := False\<rparr>)"

fun scan_probe_index :: "scan_probe \<Rightarrow> nat" where
  "scan_probe_index TcpConnect = 0"
| "scan_probe_index TcpSyn = 1"
| "scan_probe_index UdpProbe = 2"
| "scan_probe_index TcpAck = 3"

definition result_less :: "port_result \<Rightarrow> port_result \<Rightarrow> bool" where
  "result_less l r =
     (if res_target l \<noteq> res_target r then lex_less (res_target l) (res_target r)
      else if port_number (res_port l) \<noteq> port_number (res_port r)
        then port_number (res_port l) < port_number (res_port r)
      else scan_probe_index (res_probe l) < scan_probe_index (res_probe r))"

definition sort_results :: "('x, 't) scheduler \<Rightarrow> ('x, 't) scheduler" where
  "sort_results s =
     (if ss_results_sorted s then s
      else s\<lparr>ss_results := sort_by result_less (ss_results s), ss_results_sorted := True\<rparr>)"

definition scheduler_results :: "('x, 't) scheduler \<Rightarrow> port_result list \<times> ('x, 't) scheduler" where
  "scheduler_results s = (ss_results (sort_results s), sort_results s)"

fun submission_failure_reason :: "status_code \<Rightarrow> scan_reason" where
  "submission_failure_reason PermissionDenied = RsnCapabilityUnavailable"
| "submission_failure_reason InvalidArgument = RsnInvalidTarget"
| "submission_failure_reason _ = RsnInternalError"

definition complete :: "('x, 't) scheduler \<Rightarrow> bool" where
  "complete s \<longleftrightarrow> ss_submitted s \<and> ss_queue s = [] \<and> ss_pending s = [] \<and> ss_deferred s = []"

definition stop_if_idle :: "('x, 't) scheduler \<Rightarrow> ('x, 't) scheduler" where
  "stop_if_idle s =
     (if ss_submitted s \<and> ss_queue s = [] \<and> ss_pending s = [] \<and> ss_deferred s = []
      then s\<lparr>ss_engine := engine_stop (ss_engine s)\<rparr> else s)"

section \<open>The end of an attempt\<close>

definition should_confirm_negative :: "scan_probe \<Rightarrow> port_state \<Rightarrow> scan_reason \<Rightarrow> bool" where
  "should_confirm_negative probe st rs =
     (if probe \<noteq> TcpConnect then False
      else (st = PsClosed \<and> rs = RsnConnectionRefused) \<or> (st = PsFiltered \<and> rs = RsnTimeout))"

definition max_retries :: "('x, 't) scheduler \<Rightarrow> nat" where
  "max_retries s =
     (case ss_timing s of None \<Rightarrow> cfg_retries (ss_config s) | Some t \<Rightarrow> tp_max_retries (tc_profile t))"

definition defer_retry ::
  "('x, 't) scan_env \<Rightarrow> work_item \<Rightarrow> ('x, 't) scheduler \<Rightarrow> bool \<times> ('x, 't) scheduler" where
  "defer_retry env w s =
     (if ss_next_retry_id s = 0 then (False, s\<lparr>ss_status := InternalError\<rparr>)
      else
        let rid = ss_next_retry_id s;
            s1 = s\<lparr>ss_next_retry_id := rid + 1\<rparr>;
            w1 = w\<lparr>wk_retry_count := Suc (wk_retry_count w)\<rparr>
        in case schedule_ms env (cfg_retry_delay (ss_config s1)) (OnRetryReady rid) s1 of (tid, s2) \<Rightarrow>
          if tid = 0 then (False, s2\<lparr>ss_status := InternalError\<rparr>)
          else case map_emplace rid \<lparr>df_work = w1, df_timer = tid\<rparr> (ss_deferred s2) of (m, inserted) \<Rightarrow>
            if \<not> inserted then (False, (cancel_timer tid s2)\<lparr>ss_status := InternalError\<rparr>)
            else (True, update_timing (tc_update_metrics (\<lambda>m. m\<lparr>mt_retry_count := incr_size (mt_retry_count m)\<rparr>))
                    (s2\<lparr>ss_deferred := m\<rparr>)))"

text \<open>
  What \<open>finish_attempt\<close> does before the \<open>pump\<close> every one of its branches ends with. The
  counters of a work item stay below its number of attempts, so they do not wrap.
\<close>

definition retry_or_fail ::
  "('x, 't) scan_env \<Rightarrow> work_item \<Rightarrow> rat option \<Rightarrow> ('x, 't) scheduler \<Rightarrow> ('x, 't) scheduler" where
  "retry_or_fail env w rtt s =
     (case defer_retry env w s of (ok, s1) \<Rightarrow>
       if ok then s1
       else append_terminal_result env w (cfg_method (ss_config s1)) PsError RsnInternalError rtt s1)"

definition observe_negative :: "port_state \<Rightarrow> work_item \<Rightarrow> nat \<times> work_item" where
  "observe_negative st w =
     (if st = PsClosed then
        (Suc (wk_closed_observations w), w\<lparr>wk_closed_observations := Suc (wk_closed_observations w)\<rparr>)
      else if st = PsFiltered then
        (Suc (wk_filtered_observations w), w\<lparr>wk_filtered_observations := Suc (wk_filtered_observations w)\<rparr>)
      else (Suc (wk_error_observations w), w\<lparr>wk_error_observations := Suc (wk_error_observations w)\<rparr>))"

definition finish_work ::
  "('x, 't) scan_env \<Rightarrow> work_item \<Rightarrow> port_state \<Rightarrow> scan_reason \<Rightarrow> rat option \<Rightarrow>
     ('x, 't) scheduler \<Rightarrow> ('x, 't) scheduler" where
  "finish_work env w st rs rtt s =
     (let method = cfg_method (ss_config s) in
      if should_confirm_negative method st rs then
        (case observe_negative st w of (matching, w1) \<Rightarrow>
          if wk_closed_observations w1 > 0 \<and> wk_filtered_observations w1 > 0 then
            append_terminal_result env w1 method PsUnknown RsnConflictingEvidence rtt s
          else if matching < 2 \<and> wk_retry_count w1 < max_retries s then retry_or_fail env w1 rtt s
          else append_terminal_result env w1 method st rs rtt s)
      else if (rs = RsnTimeout \<or> rs = RsnAckTimeout) \<and> wk_retry_count w < max_retries s then
        retry_or_fail env w rtt s
      else append_terminal_result env w method st rs rtt s)"

text \<open>
  From here on a handler takes the \<open>pump\<close> it calls as an argument; \<open>None\<close> stands for a pump
  that ran out of fuel.
\<close>

type_synonym ('x, 't) pump = "('x, 't) scheduler \<Rightarrow> ('x, 't) scheduler option"

definition finish_attempt ::
  "('x, 't) pump \<Rightarrow> ('x, 't) scan_env \<Rightarrow> work_item \<Rightarrow> port_state \<Rightarrow> scan_reason \<Rightarrow> rat option \<Rightarrow>
     ('x, 't) pump" where
  "finish_attempt pump env w st rs rtt s = pump (finish_work env w st rs rtt s)"

text \<open>\<open>std::chrono::duration<double, std::milli>\<close> of a difference, not negative.\<close>

definition rtt_between :: "int \<Rightarrow> int \<Rightarrow> rat" where
  "rtt_between start finish =
     (let rtt = fl_double (fl_double (of_int (finish - start)) / 1000000) in if rtt < 0 then 0 else rtt)"

definition timing_response :: "rat \<Rightarrow> ('x, 't) scheduler \<Rightarrow> ('x, 't) scheduler" where
  "timing_response rtt s =
     (let n = length (ss_pending s) in
      update_timing (\<lambda>t. tc_update_metrics (set_parallelism n n) (tc_on_response (truncate_rat rtt) t)) s)"

definition timing_timeout :: "('x, 't) scheduler \<Rightarrow> ('x, 't) scheduler" where
  "timing_timeout s =
     (let n = length (ss_pending s) in
      update_timing (\<lambda>t. tc_update_metrics (set_parallelism n n) (tc_on_timeout t)) s)"

definition erase_pending :: "u64 \<Rightarrow> ('x, 't) scheduler \<Rightarrow> ('x, 't) scheduler" where
  "erase_pending i s = s\<lparr>ss_pending := map_erase i (ss_pending s)\<rparr>"

definition complete_pending ::
  "('x, 't) pump \<Rightarrow> ('x, 't) scan_env \<Rightarrow> u64 \<Rightarrow> port_state \<Rightarrow> scan_reason \<Rightarrow> int \<Rightarrow> ('x, 't) pump" where
  "complete_pending pump env i st rs completed_at s =
     (case map_of (ss_pending s) i of
        None \<Rightarrow> Some s
      | Some p \<Rightarrow>
          let s1 = erase_pending i (cancel_probe env i (cancel_timer (pd_timer p) s));
              rtt = rtt_between (pd_started_at p) completed_at
          in finish_attempt pump env (pd_work p) st rs (Some rtt) (timing_response rtt s1))"

definition on_timeout :: "('x, 't) pump \<Rightarrow> ('x, 't) scan_env \<Rightarrow> u64 \<Rightarrow> ('x, 't) pump" where
  "on_timeout pump env i s =
     (case (map_of (ss_pending s) i, ss_probe s) of
        (Some p, Some probe) \<Rightarrow>
          let s1 = erase_pending i (cancel_probe env i s) in
          (case pd_candidate_state p of
             Some st \<Rightarrow>
               let rtt = rtt_between (pd_started_at p) (pd_candidate_at p) in
               finish_attempt pump env (pd_work p) st (pd_candidate_reason p) (Some rtt) (timing_response rtt s1)
           | None \<Rightarrow>
               finish_attempt pump env (pd_work p) (pp_timeout_state probe) (pp_timeout_reason probe) None
                 (timing_timeout s1))
      | _ \<Rightarrow> Some s)"

definition on_retry_ready :: "('x, 't) pump \<Rightarrow> u64 \<Rightarrow> ('x, 't) pump" where
  "on_retry_ready pump rid s =
     (case map_of (ss_deferred s) rid of
        None \<Rightarrow> Some s
      | Some d \<Rightarrow>
          pump (s\<lparr>ss_deferred := map_erase rid (ss_deferred s), ss_queue := df_work d # ss_queue s\<rparr>))"

section \<open>Responses\<close>

definition completed_time :: "('x, 't) scan_env \<Rightarrow> port_response \<Rightarrow> ('x, 't) scheduler \<Rightarrow> int \<times> ('x, 't) scheduler" where
  "completed_time env r s = (if rsp_received_at r = 0 then read_now env s else (rsp_received_at r, s))"

definition note_evidence :: "port_state \<Rightarrow> scan_reason \<Rightarrow> int \<Rightarrow> pending_probe \<Rightarrow> pending_probe" where
  "note_evidence st rs instant p =
     (case pd_candidate_state p of
        None \<Rightarrow> p\<lparr>pd_candidate_state := Some st, pd_candidate_reason := rs, pd_candidate_at := instant\<rparr>
      | Some candidate \<Rightarrow>
          if \<not> pd_conflict p \<and> candidate \<noteq> st then
            p\<lparr>pd_candidate_state := Some PsUnknown, pd_candidate_reason := RsnConflictingEvidence,
              pd_candidate_at := instant, pd_conflict := True\<rparr>
          else p)"

definition receive :: "('x, 't) pump \<Rightarrow> ('x, 't) scan_env \<Rightarrow> port_response \<Rightarrow> ('x, 't) pump" where
  "receive pump env r s =
     (case (map_of (ss_pending s) (rsp_id r), ss_probe s) of
        (Some p, Some probe) \<Rightarrow>
          (case pp_assess probe r (pd_submission p) of
             Inl _ \<Rightarrow> Some s
           | Inr (st, rs) \<Rightarrow>
               (case completed_time env r s of (instant, s1) \<Rightarrow>
                 if instant < pd_started_at p then Some s1
                 else if st = PsError \<or> cfg_method (ss_config s1) = TcpConnect then
                   complete_pending pump env (rsp_id r) st rs instant s1
                 else Some (s1\<lparr>ss_pending := map_put (rsp_id r) (note_evidence st rs instant p) (ss_pending s1)\<rparr>)))
      | _ \<Rightarrow> Some s)"

section \<open>The pump\<close>

definition pump_limit :: "('x, 't) scheduler \<Rightarrow> nat" where
  "pump_limit s =
     (case ss_timing s of
        None \<Rightarrow> cfg_max_outstanding (ss_config s)
      | Some t \<Rightarrow> tc_parallelism_limit (cfg_max_outstanding (ss_config s)) t)"

definition probe_timeout :: "('x, 't) scheduler \<Rightarrow> int" where
  "probe_timeout s = (case ss_timing s of None \<Rightarrow> cfg_timeout (ss_config s) | Some t \<Rightarrow> tc_timeout t)"

text \<open>
  One turn of the loop of \<open>pump\<close>, up to the return of \<open>transport.submit\<close>: the loop breaks, goes
  on, or the transport has answered the submission from inside \<open>submit\<close>. The probe is present
  whenever the queue has work.
\<close>

datatype ('x, 't) pump_turn =
  PumpBreaks "('x, 't) scheduler"
| PumpContinues "('x, 't) scheduler"
| PumpSubmitted "port_response option" "('x, 't) scheduler"

definition submit_probe ::
  "('x, 't) scan_env \<Rightarrow> u64 \<Rightarrow> work_item \<Rightarrow> port_submission \<Rightarrow> u64 \<Rightarrow> ('x, 't) scheduler \<Rightarrow> ('x, 't) pump_turn" where
  "submit_probe env i w sub tid s =
     (case env_submit env sub (ss_engine s, ss_transport s) of (st, answer, e, t) \<Rightarrow>
       let s1 = s\<lparr>ss_engine := e, ss_transport := t\<rparr> in
       if st = Ok then PumpSubmitted answer s1
       else PumpBreaks
         ((append_terminal_result env w (cfg_method (ss_config s1)) PsError (submission_failure_reason st) None
            (erase_pending i (cancel_timer tid s1)))\<lparr>ss_status := st\<rparr>))"

definition launch_probe ::
  "('x, 't) scan_env \<Rightarrow> u64 \<Rightarrow> work_item \<Rightarrow> port_submission \<Rightarrow> ('x, 't) scheduler \<Rightarrow> ('x, 't) pump_turn" where
  "launch_probe env i w sub s =
     (case read_now env s of (started, s1) \<Rightarrow>
       case schedule_ms env (probe_timeout s1) (OnTimeout i) s1 of (tid, s2) \<Rightarrow>
         if tid = 0 then
           let s3 = append_terminal_result env w (cfg_method (ss_config s2)) PsError RsnInternalError None s2 in
           PumpBreaks (if ss_status s3 = Ok then s3\<lparr>ss_status := InternalError\<rparr> else s3)
         else
           let p = \<lparr>pd_work = w, pd_submission = sub, pd_started_at = started, pd_timer = tid,
                 pd_candidate_state = None, pd_candidate_reason = RsnInternalError, pd_candidate_at = 0,
                 pd_conflict = False\<rparr> in
           case map_emplace i p (ss_pending s2) of (m, inserted) \<Rightarrow>
             if \<not> inserted then
               PumpBreaks
                 ((append_terminal_result env w (cfg_method (ss_config s2)) PsError RsnInternalError None
                    (cancel_timer tid s2))\<lparr>ss_status := InternalError\<rparr>)
             else submit_probe env i w sub tid (s2\<lparr>ss_pending := m\<rparr>))"

definition pump_turn :: "('x, 't) scan_env \<Rightarrow> ('x, 't) scheduler \<Rightarrow> ('x, 't) pump_turn" where
  "pump_turn env s =
     (case (ss_queue s, ss_probe s) of
        (w # rest, Some probe) \<Rightarrow>
          let i = ss_next_id s; s1 = s\<lparr>ss_queue := rest, ss_next_id := i + 1\<rparr> in
          (case pp_build probe i (wk_host w) (wk_port w) (ss_config s1) new_submission of (st, sub) \<Rightarrow>
             if st \<noteq> Ok then
               PumpContinues
                 (append_terminal_result env w (cfg_method (ss_config s1)) PsError
                    (if st = InvalidArgument then RsnInvalidTarget else RsnInternalError) None s1)
             else launch_probe env i w sub s1)
      | _ \<Rightarrow> PumpBreaks s)"

definition timing_submitted :: "('x, 't) scheduler \<Rightarrow> ('x, 't) scheduler" where
  "timing_submitted s = update_timing (tc_on_submitted (length (ss_pending s))) s"

fun pump_loop :: "('x, 't) scan_env \<Rightarrow> nat \<Rightarrow> nat \<Rightarrow> nat \<Rightarrow> ('x, 't) pump" where
  "pump_loop env limit depth turns s =
     (if ss_status s = Ok \<and> ss_queue s \<noteq> [] \<and> length (ss_pending s) < limit then
        (case turns of
           0 \<Rightarrow> None
         | Suc turns' \<Rightarrow>
             (case pump_turn env s of
                PumpBreaks s1 \<Rightarrow> Some (stop_if_idle s1)
              | PumpContinues s1 \<Rightarrow> pump_loop env limit depth turns' s1
              | PumpSubmitted None s1 \<Rightarrow> pump_loop env limit depth turns' (timing_submitted s1)
              | PumpSubmitted (Some r) s1 \<Rightarrow>
                  (case depth of
                     0 \<Rightarrow> None
                   | Suc depth' \<Rightarrow>
                       (case receive (\<lambda>s'. pump_loop env (pump_limit s') depth' turns' s') env r s1 of
                          None \<Rightarrow> None
                        | Some s2 \<Rightarrow> pump_loop env limit depth turns' (timing_submitted s2)))))
      else Some (stop_if_idle s))"

declare pump_loop.simps [simp del]

definition pump_within :: "nat \<Rightarrow> nat \<Rightarrow> ('x, 't) scan_env \<Rightarrow> ('x, 't) pump" where
  "pump_within depth turns env s = pump_loop env (pump_limit s) depth turns s"

definition pump :: "('x, 't) scan_env \<Rightarrow> ('x, 't) pump" where
  "pump env s = pump_within (length (ss_queue s)) (length (ss_queue s)) env s"

section \<open>The public operations\<close>

definition valid_host_address :: "libc \<Rightarrow> host \<Rightarrow> bool" where
  "valid_host_address lc h \<longleftrightarrow> ip_valid (h_ip h) \<or> parse_ip_address lc (h_address h) \<noteq> None"

definition validate_config :: "('x, 't) scan_env \<Rightarrow> ('x, 't) scheduler \<Rightarrow> status_code" where
  "validate_config env s =
     (let cfg = ss_config s;
          supported = (ss_probe s \<noteq> None \<and> env_supports env (cfg_method cfg) (ss_transport s)) in
      if eng_init_status (ss_engine s) \<noteq> Ok then eng_init_status (ss_engine s)
      else if \<not> supported \<or> cfg_timeout cfg \<le> 0 \<or> cfg_retry_delay cfg < 0 \<or> cfg_max_outstanding cfg = 0
        \<or> (case ss_timing s of None \<Rightarrow> False | Some t \<Rightarrow> tc_validate t \<noteq> Ok)
      then (if \<not> supported then PermissionDenied else InvalidArgument)
      else Ok)"

fun enqueue_host :: "('x, 't) scan_env \<Rightarrow> port list \<Rightarrow> host \<Rightarrow> ('x, 't) scheduler \<Rightarrow> ('x, 't) scheduler" where
  "enqueue_host env ports h s =
     (if \<not> valid_host_address (env_libc env) h then
        (fold (\<lambda>p. append_terminal_result env (new_work h p) (cfg_method (ss_config s)) PsError RsnInvalidTarget None)
           ports s)\<lparr>ss_status := InvalidArgument\<rparr>
      else s\<lparr>ss_queue := ss_queue s @ map (new_work h) ports\<rparr>)"

declare enqueue_host.simps [simp del]

definition submit :: "('x, 't) scan_env \<Rightarrow> target \<Rightarrow> port list \<Rightarrow> ('x, 't) scheduler \<Rightarrow>
    (status_code \<times> ('x, 't) scheduler) option" where
  "submit env target ports s =
     (if ss_submitted s then Some (InvalidArgument, s)
      else
        let cs = validate_config env s in
        if cs \<noteq> Ok then Some (cs, s\<lparr>ss_status := cs\<rparr>)
        else if ports = [] \<or> resolved_hosts target = []
          \<or> (\<exists>p\<in>set ports. port_protocol p \<noteq> Tcp \<or> port_number p = 0)
        then Some (InvalidArgument, s\<lparr>ss_status := InvalidArgument\<rparr>)
        else
          let s1 = fold (enqueue_host env ports) (resolved_hosts target) (s\<lparr>ss_submitted := True\<rparr>) in
          (case (if ss_status s1 = Ok then pump env s1 else Some (s1\<lparr>ss_queue := []\<rparr>)) of
             None \<Rightarrow> None
           | Some s2 \<Rightarrow> let s3 = stop_if_idle s2 in Some (ss_status s3, s3)))"

definition submit_default :: "('x, 't) scan_env \<Rightarrow> target \<Rightarrow> ('x, 't) scheduler \<Rightarrow>
    (status_code \<times> ('x, 't) scheduler) option" where
  "submit_default env target s = submit env target default_tcp_ports s"

end
