(* ===== verification/Port_Scheduler_Inv.thy ===== *)
theory Port_Scheduler_Inv
  imports Port_Scheduler
begin

text \<open>
  Invariants of the port scheduler. The locale \<open>scan_invariant\<close> says what a property of the
  state has to survive for every handler, with its nested pumps, to keep it; it is interpreted
  on the ledger of ports (no port is lost or reported twice), on the shape of results and work,
  on the timers of the engine, and on the potential that bounds the number of attempts.
\<close>

section \<open>Steps of the handlers\<close>

lemma finish_work_cases:
  obtains (verdict) w' st' rs' where "finish_work env w st rs rtt s =
      append_terminal_result env w' (cfg_method (ss_config s)) st' rs' rtt s"
    and "wk_host w' = wk_host w" and "wk_port w' = wk_port w" and "wk_retry_count w' = wk_retry_count w"
    and "(st', rs') = (st, rs) \<and>
      (should_confirm_negative (cfg_method (ss_config s)) st rs \<longrightarrow>
         wk_retry_count w \<ge> max_retries s \<or> wk_closed_observations w + wk_filtered_observations w > 0) \<or>
      (st', rs') = (PsUnknown, RsnConflictingEvidence)"
  | (retry) w' where "finish_work env w st rs rtt s = retry_or_fail env w' rtt s"
    and "wk_host w' = wk_host w" and "wk_port w' = wk_port w" and "wk_retry_count w' = wk_retry_count w"
    and "wk_retry_count w < max_retries s"
    and "wk_closed_observations w' + wk_filtered_observations w' \<le>
      Suc (wk_closed_observations w + wk_filtered_observations w)"
proof (cases "should_confirm_negative (cfg_method (ss_config s)) st rs")
  case True
  obtain n w1 where obs: "observe_negative st w = (n, w1)" by fastforce
  then have w1: "wk_host w1 = wk_host w" "wk_port w1 = wk_port w" "wk_retry_count w1 = wk_retry_count w"
    "wk_closed_observations w1 + wk_filtered_observations w1 \<le>
      Suc (wk_closed_observations w + wk_filtered_observations w)"
    by (auto simp: observe_negative_def split: if_splits)
  have n: "st = PsClosed \<or> st = PsFiltered" "n \<le> Suc (wk_closed_observations w + wk_filtered_observations w)"
    using True obs by (auto simp: should_confirm_negative_def observe_negative_def split: if_splits)
  consider "wk_closed_observations w1 > 0 \<and> wk_filtered_observations w1 > 0"
    | "\<not> (wk_closed_observations w1 > 0 \<and> wk_filtered_observations w1 > 0)" "n < 2 \<and> wk_retry_count w1 < max_retries s"
    | "\<not> (wk_closed_observations w1 > 0 \<and> wk_filtered_observations w1 > 0)" "\<not> (n < 2 \<and> wk_retry_count w1 < max_retries s)"
    by blast
  then show thesis
  proof cases
    case 1
    then show ?thesis
      using True obs w1 by (intro verdict [of w1 PsUnknown RsnConflictingEvidence]) (simp_all add: finish_work_def Let_def)
  next
    case 2
    then show ?thesis
      using True obs w1 by (intro retry [of w1]) (auto simp: finish_work_def Let_def)
  next
    case 3
    then have "wk_retry_count w \<ge> max_retries s \<or> wk_closed_observations w + wk_filtered_observations w > 0"
      using n w1(3) by linarith
    moreover have "finish_work env w st rs rtt s =
        append_terminal_result env w1 (cfg_method (ss_config s)) st rs rtt s"
      using 3 True obs unfolding finish_work_def Let_def by (simp only: if_True case_prod_conv if_False)
    ultimately show ?thesis using w1 by (intro verdict [of w1 st rs]) simp_all
  qed
next
  case False
  then show thesis
    by (cases "(rs = RsnTimeout \<or> rs = RsnAckTimeout) \<and> wk_retry_count w < max_retries s")
      (auto simp: finish_work_def Let_def intro: retry [of w] verdict [of w st rs])
qed

text \<open>A new timer, or a full engine.\<close>

lemma schedule_msE:
  obtains (full) n where "schedule_ms env delay cb s = (0, s\<lparr>ss_reads := n\<rparr>)"
  | (scheduled) n now tid e where
    "schedule_ms env delay cb s = (tid, s\<lparr>ss_reads := n, ss_engine := e\<rparr>)"
    and "engine_schedule now (delay * ns_per_ms) cb (ss_engine s) = (tid, e)" and "tid \<noteq> 0"
proof -
  obtain now where now: "read_now env s = (now, s\<lparr>ss_reads := Suc (ss_reads s)\<rparr>)" by (simp add: read_now_def)
  obtain tid e where e: "engine_schedule now (delay * ns_per_ms) cb (ss_engine s) = (tid, e)" by fastforce
  have eq: "schedule_ms env delay cb s = (tid, s\<lparr>ss_reads := Suc (ss_reads s), ss_engine := e\<rparr>)"
    using now e by (simp add: schedule_ms_def read_now_def)
  show thesis
  proof (cases "tid = 0")
    case True
    then have "e = ss_engine s" using e by (auto simp: engine_schedule_def Let_def split: if_splits)
    then show ?thesis using eq True by (intro full [of "Suc (ss_reads s)"]) simp
  qed (rule scheduled [OF eq e])
qed

lemma defer_retryE:
  obtains (failed) n r s1 where "defer_retry env w s = (False, s1)"
    and "s1 = s\<lparr>ss_next_retry_id := r, ss_reads := n, ss_status := InternalError\<rparr> \<or>
      (\<exists>tid e now cb. engine_schedule now (cfg_retry_delay (ss_config s) * ns_per_ms) cb (ss_engine s) = (tid, e) \<and>
        tid \<noteq> 0 \<and> s1 = s\<lparr>ss_next_retry_id := r, ss_reads := n, ss_engine := engine_cancel tid e,
          ss_status := InternalError\<rparr>)"
  | (deferred) n r tid e now where "defer_retry env w s = (True,
      update_timing (tc_update_metrics (\<lambda>m. m\<lparr>mt_retry_count := incr_size (mt_retry_count m)\<rparr>))
        (s\<lparr>ss_next_retry_id := r + 1, ss_reads := n, ss_engine := e,
          ss_deferred := (r, \<lparr>df_work = w\<lparr>wk_retry_count := Suc (wk_retry_count w)\<rparr>, df_timer = tid\<rparr>) # ss_deferred s\<rparr>))"
    and "engine_schedule now (cfg_retry_delay (ss_config s) * ns_per_ms) (OnRetryReady r) (ss_engine s) = (tid, e)"
    and "tid \<noteq> 0" and "\<not> map_has (ss_deferred s) r"
proof (cases "ss_next_retry_id s = 0")
  case True
  then show thesis
    by (intro failed [where n = "ss_reads s" and r = 0, OF _ disjI1]) (simp_all add: defer_retry_def)
next
  case False
  let ?r = "ss_next_retry_id s" and ?d = "cfg_retry_delay (ss_config s)"
  show thesis
  proof (rule schedule_msE [of env ?d "OnRetryReady ?r" "s\<lparr>ss_next_retry_id := ?r + 1\<rparr>"], goal_cases)
    case (1 n)
    then show thesis using False
      by (intro failed [where n = n and r = "?r + 1", OF _ disjI1 [OF refl]])
        (simp add: defer_retry_def Let_def)
  next
    case (2 n now tid e)
    show thesis
    proof (cases "map_has (ss_deferred s) ?r")
      case True
      then show ?thesis using False 2
        by (intro failed [where n = n and r = "?r + 1"])
          (auto simp: defer_retry_def Let_def map_emplace_def cancel_timer_def)
    next
      case absent: False
      then show ?thesis using False 2
        by (intro deferred [where n = n and r = ?r and tid = tid and e = e and now = now]) (simp_all add: defer_retry_def Let_def map_emplace_def)
    qed
  qed
qed

section \<open>Steps of a scan\<close>

text \<open>
  A live timer with a given callback; an engine whose events belong to the transport; and changes
  of the engine that leave the scheduler's timers alone and do not stop it.
\<close>

definition timer_for :: "'x sched_callback \<Rightarrow> 'x sched_callback engine \<Rightarrow> u64 \<Rightarrow> bool" where
  "timer_for cb e tid \<longleftrightarrow> (\<exists>t. map_of (eng_timers e) tid = Some t \<and> tm_callback t = cb)"

definition wired :: "'x sched_callback engine \<Rightarrow> bool" where
  "wired e \<longleftrightarrow> timers_inv e \<and>
     (\<forall>(eid, ev)\<in>set (eng_events e). ev_callback ev = None \<or> (\<exists>x. ev_callback ev = Some (TransportEvent x)))"

definition timers_kept :: "'x sched_callback engine \<Rightarrow> 'x sched_callback engine \<Rightarrow> bool" where
  "timers_kept e e' \<longleftrightarrow>
     (wired e \<longrightarrow> wired e') \<and> (eng_stopped e' \<longrightarrow> eng_stopped e) \<and>
     (\<forall>i tid. timer_for (OnTimeout i) e' tid = timer_for (OnTimeout i) e tid) \<and>
     (\<forall>i tid. timer_for (OnRetryReady i) e' tid = timer_for (OnRetryReady i) e tid)"

lemma timers_kept_refl [simp]: "timers_kept e e"
  by (simp add: timers_kept_def)

lemma timers_kept_trans: "timers_kept e e' \<Longrightarrow> timers_kept e' e'' \<Longrightarrow> timers_kept e e''"
  by (simp add: timers_kept_def)

lemma timers_kept_same:
  "eng_timers e' = eng_timers e \<Longrightarrow> (wired e \<Longrightarrow> wired e') \<Longrightarrow> (eng_stopped e' \<Longrightarrow> eng_stopped e) \<Longrightarrow>
     timers_kept e e'"
  by (simp add: timers_kept_def timer_for_def)

lemma wired_same:
  "eng_timers e' = eng_timers e \<Longrightarrow> eng_queue e' = eng_queue e \<Longrightarrow> eng_next_timer e' = eng_next_timer e \<Longrightarrow>
     set (eng_events e') \<subseteq> set (eng_events e) \<Longrightarrow> wired e \<Longrightarrow> wired e'"
  by (auto simp: wired_def timers_inv_def)

lemma wired_schedule: "wired e \<Longrightarrow> wired (snd (engine_schedule now delay cb e))"
  using timers_inv_schedule [of e now delay cb]
  by (auto simp: wired_def engine_schedule_def Let_def)

lemma wired_cancel: "wired e \<Longrightarrow> wired (engine_cancel tid e)"
  using timers_inv_cancel [of e tid] by (auto simp: wired_def engine_cancel_def)

lemma wired_turn:
  assumes "wired e" and "dispatch_turn now e = TurnFires cb e' \<or> dispatch_turn now e = TurnStale e'"
  shows "wired e'"
proof -
  have "eng_events e' = eng_events e"
    using assms(2) by (auto simp: dispatch_turn_def Let_def split: if_splits list.splits option.splits)
  then show ?thesis using assms timers_inv_turn [of e now cb e'] by (simp add: wired_def)
qed

text \<open>
  A step of a running scan: a response is received, a timer of the scheduler fires, a timer or an
  event of the transport is handled (its responses are received in steps of their own), or the
  engine moves in a way the scheduler does not see. The flag tells whether a timer of the
  scheduler fired.
\<close>

inductive scan_step ::
  "('x, 't) scan_env \<Rightarrow> bool \<Rightarrow> ('x, 't) scheduler \<Rightarrow> ('x, 't) scheduler \<Rightarrow> bool" for env where
  response: "receive (pump env) env r s = Some s' \<Longrightarrow> scan_step env False s s'"
| timeout: "dispatch_turn now (ss_engine s) = TurnFires (OnTimeout i) e \<Longrightarrow>
    on_timeout (pump env) env i (s\<lparr>ss_engine := e\<rparr>) = Some s' \<Longrightarrow> scan_step env True s s'"
| retry: "dispatch_turn now (ss_engine s) = TurnFires (OnRetryReady i) e \<Longrightarrow>
    on_retry_ready (pump env) i (s\<lparr>ss_engine := e\<rparr>) = Some s' \<Longrightarrow> scan_step env True s s'"
| transport_timer: "dispatch_turn now (ss_engine s) = TurnFires (TransportEvent x) e \<Longrightarrow>
    scan_step env False s (s\<lparr>ss_engine := e\<rparr>)"
| transport_event: "env_event env x (ss_engine s, ss_transport s) = (answers, e, t) \<Longrightarrow>
    scan_step env False s (s\<lparr>ss_engine := e, ss_transport := t\<rparr>)"
| transport_done: "env_done env x (ss_engine s, ss_transport s) = (e, t) \<Longrightarrow>
    scan_step env False s (s\<lparr>ss_engine := e, ss_transport := t\<rparr>)"
| engine: "timers_kept (ss_engine s) e \<Longrightarrow> scan_step env False s (s\<lparr>ss_engine := e\<rparr>)"
| clock: "scan_step env False s (s\<lparr>ss_reads := n\<rparr>)"

inductive scan_run ::
  "('x, 't) scan_env \<Rightarrow> nat \<Rightarrow> ('x, 't) scheduler \<Rightarrow> ('x, 't) scheduler \<Rightarrow> bool" for env where
  start: "scan_run env 0 s s"
| step: "scan_run env n s s' \<Longrightarrow> scan_step env fired s' s'' \<Longrightarrow>
    scan_run env (if fired then Suc n else n) s s''"

section \<open>What an invariant has to survive\<close>

text \<open>The state a handler hands to \<open>pump\<close>.\<close>

definition completed_work ::
  "('x, 't) scan_env \<Rightarrow> u64 \<Rightarrow> pending_probe \<Rightarrow> port_state \<Rightarrow> scan_reason \<Rightarrow> int \<Rightarrow>
     ('x, 't) scheduler \<Rightarrow> ('x, 't) scheduler" where
  "completed_work env i p st rs instant s =
     (let rtt = rtt_between (pd_started_at p) instant in
      finish_work env (pd_work p) st rs (Some rtt)
        (timing_response rtt (erase_pending i (cancel_probe env i (cancel_timer (pd_timer p) s)))))"

definition timeout_work ::
  "('x, 't) scan_env \<Rightarrow> u64 \<Rightarrow> pending_probe \<Rightarrow> port_probe \<Rightarrow> ('x, 't) scheduler \<Rightarrow> ('x, 't) scheduler" where
  "timeout_work env i p probe s =
     (let s1 = erase_pending i (cancel_probe env i s) in
      case pd_candidate_state p of
        Some st \<Rightarrow>
          let rtt = rtt_between (pd_started_at p) (pd_candidate_at p) in
          finish_work env (pd_work p) st (pd_candidate_reason p) (Some rtt) (timing_response rtt s1)
      | None \<Rightarrow>
          finish_work env (pd_work p) (pp_timeout_state probe) (pp_timeout_reason probe) None (timing_timeout s1))"

definition retry_work :: "u64 \<Rightarrow> deferred_retry \<Rightarrow> ('x, 't) scheduler \<Rightarrow> ('x, 't) scheduler" where
  "retry_work i d s = s\<lparr>ss_deferred := map_erase i (ss_deferred s), ss_queue := df_work d # ss_queue s\<rparr>"

fun turn_state :: "('x, 't) pump_turn \<Rightarrow> ('x, 't) scheduler" where
  "turn_state (PumpBreaks s) = s"
| "turn_state (PumpContinues s) = s"
| "turn_state (PumpSubmitted r s) = s"

lemma complete_pending_alt:
  "complete_pending k env i st rs instant s =
     (case map_of (ss_pending s) i of None \<Rightarrow> Some s | Some p \<Rightarrow> k (completed_work env i p st rs instant s))"
  by (simp add: complete_pending_def completed_work_def finish_attempt_def Let_def split: option.splits)

lemma on_timeout_alt:
  "on_timeout k env i s =
     (case (map_of (ss_pending s) i, ss_probe s) of
        (Some p, Some probe) \<Rightarrow> k (timeout_work env i p probe s) | _ \<Rightarrow> Some s)"
  by (simp add: on_timeout_def timeout_work_def finish_attempt_def Let_def split: option.splits)

lemma on_retry_ready_alt:
  "on_retry_ready k i s =
     (case map_of (ss_deferred s) i of None \<Rightarrow> Some s | Some d \<Rightarrow> k (retry_work i d s))"
  by (simp add: on_retry_ready_def retry_work_def split: option.splits)

locale scan_invariant =
  fixes env :: "('x, 't) scan_env" and lim :: "nat \<Rightarrow> bool" and inv :: "('x, 't) scheduler \<Rightarrow> bool"
  assumes inv_limit: "inv s \<Longrightarrow> lim (pump_limit s)"
    and inv_clock: "inv s \<Longrightarrow> inv (s\<lparr>ss_reads := n\<rparr>)"
    and inv_engine: "inv s \<Longrightarrow> timers_kept (ss_engine s) e \<Longrightarrow> inv (s\<lparr>ss_engine := e\<rparr>)"
    and inv_transport_timer: "inv s \<Longrightarrow> dispatch_turn now (ss_engine s) = TurnFires (TransportEvent x) e \<Longrightarrow>
      inv (s\<lparr>ss_engine := e\<rparr>)"
    and inv_transport_event: "inv s \<Longrightarrow> env_event env x (ss_engine s, ss_transport s) = (answers, e, t) \<Longrightarrow>
      inv (s\<lparr>ss_engine := e, ss_transport := t\<rparr>)"
    and inv_transport_done: "inv s \<Longrightarrow> env_done env x (ss_engine s, ss_transport s) = (e, t) \<Longrightarrow>
      inv (s\<lparr>ss_engine := e, ss_transport := t\<rparr>)"
    and inv_stop: "inv s \<Longrightarrow> complete s \<Longrightarrow> inv (s\<lparr>ss_engine := engine_stop (ss_engine s)\<rparr>)"
    and inv_timing: "inv s \<Longrightarrow> inv (timing_submitted s)"
    and inv_turn: "inv s \<Longrightarrow> ss_status s = Ok \<Longrightarrow> length (ss_pending s) < limit \<Longrightarrow> lim limit \<Longrightarrow>
      inv (turn_state (pump_turn env s))"
    and inv_evidence: "inv s \<Longrightarrow> map_of (ss_pending s) i = Some p \<Longrightarrow> ss_probe s = Some probe \<Longrightarrow>
      pp_assess probe r (pd_submission p) = Inr (st, rs) \<Longrightarrow> st \<noteq> PsError \<Longrightarrow>
      cfg_method (ss_config s) \<noteq> TcpConnect \<Longrightarrow>
      inv (s\<lparr>ss_pending := map_put i (note_evidence st rs instant p) (ss_pending s)\<rparr>)"
    and inv_completed: "inv s \<Longrightarrow> map_of (ss_pending s) i = Some p \<Longrightarrow> ss_probe s = Some probe \<Longrightarrow>
      pp_assess probe r (pd_submission p) = Inr (st, rs) \<Longrightarrow> inv (completed_work env i p st rs instant s)"
    and inv_timeout: "inv s \<Longrightarrow> dispatch_turn now (ss_engine s) = TurnFires (OnTimeout i) e \<Longrightarrow>
      map_of (ss_pending s) i = Some p \<Longrightarrow> ss_probe s = Some probe \<Longrightarrow>
      inv (timeout_work env i p probe (s\<lparr>ss_engine := e\<rparr>))"
    and inv_timeout_late: "inv s \<Longrightarrow> dispatch_turn now (ss_engine s) = TurnFires (OnTimeout i) e \<Longrightarrow>
      map_of (ss_pending s) i = None \<or> ss_probe s = None \<Longrightarrow> inv (s\<lparr>ss_engine := e\<rparr>)"
    and inv_retry: "inv s \<Longrightarrow> dispatch_turn now (ss_engine s) = TurnFires (OnRetryReady i) e \<Longrightarrow>
      map_of (ss_deferred s) i = Some d \<Longrightarrow> inv (retry_work i d (s\<lparr>ss_engine := e\<rparr>))"
    and inv_retry_late: "inv s \<Longrightarrow> dispatch_turn now (ss_engine s) = TurnFires (OnRetryReady i) e \<Longrightarrow>
      map_of (ss_deferred s) i = None \<Longrightarrow> inv (s\<lparr>ss_engine := e\<rparr>)"
begin

lemma inv_stop_if_idle: "inv s \<Longrightarrow> inv (stop_if_idle s)"
  using inv_stop [of s] by (simp add: stop_if_idle_def complete_def)

lemma receive_inv:
  assumes "inv s" and "receive k env r s = Some s'" and "\<And>t t'. inv t \<Longrightarrow> k t = Some t' \<Longrightarrow> inv t'"
  shows "inv s'"
proof (cases "(map_of (ss_pending s) (rsp_id r), ss_probe s)")
  case (Pair po pr)
  show ?thesis
  proof (cases "\<exists>p probe st rs. po = Some p \<and> pr = Some probe \<and> pp_assess probe r (pd_submission p) = Inr (st, rs)")
    case False
    then have "s' = s" using Pair assms(2)
      by (auto simp: receive_def split: option.splits sum.splits)
    then show ?thesis using assms(1) by simp
  next
    case True
    then obtain p probe st rs where p: "map_of (ss_pending s) (rsp_id r) = Some p" "ss_probe s = Some probe"
      "pp_assess probe r (pd_submission p) = Inr (st, rs)" using Pair by auto
    obtain instant s1 where c: "completed_time env r s = (instant, s1)" by fastforce
    then have s1: "s1 = s \<or> s1 = s\<lparr>ss_reads := Suc (ss_reads s)\<rparr>"
      by (auto simp: completed_time_def read_now_def split: if_splits)
    then have i1: "inv s1" using assms(1) inv_clock by auto
    have p1: "map_of (ss_pending s1) (rsp_id r) = Some p" "ss_probe s1 = Some probe" using p s1 by auto
    have "s' = s1 \<or> k (completed_work env (rsp_id r) p st rs instant s1) = Some s' \<or>
        (st \<noteq> PsError \<and> cfg_method (ss_config s1) \<noteq> TcpConnect \<and>
         s' = s1\<lparr>ss_pending := map_put (rsp_id r) (note_evidence st rs instant p) (ss_pending s1)\<rparr>)"
      using assms(2) p c by (auto simp: receive_def complete_pending_alt p1 split: if_splits)
    then show ?thesis
      using i1 inv_evidence [OF i1 p1 p(3)] inv_completed [OF i1 p1 p(3)] assms(3) by blast
  qed
qed

lemma pump_loop_inv:
  "pump_loop env limit depth turns s = Some s' \<Longrightarrow> inv s \<Longrightarrow> lim limit \<Longrightarrow> inv s'"
proof (induction turns arbitrary: limit depth s s')
  case 0
  then show ?case
    by (auto simp: pump_loop.simps [of env limit depth 0] inv_stop_if_idle split: if_splits)
next
  case (Suc turns)
  show ?case
  proof (cases "ss_status s = Ok \<and> ss_queue s \<noteq> [] \<and> length (ss_pending s) < limit")
    case False
    then have "s' = stop_if_idle s"
      using Suc.prems(1) by (auto simp: pump_loop.simps [of env limit depth "Suc turns"])
    then show ?thesis using Suc.prems(2) inv_stop_if_idle by simp
  next
    case True
    then have turn: "inv (turn_state (pump_turn env s))" using Suc.prems inv_turn [of s limit] by blast
    show ?thesis
    proof (cases "pump_turn env s")
      case (PumpBreaks s1)
      then have "s' = stop_if_idle s1" using True Suc.prems(1)
        by (simp add: pump_loop.simps [of env limit depth "Suc turns"])
      then show ?thesis using PumpBreaks turn inv_stop_if_idle by simp
    next
      case (PumpContinues s1)
      then have "pump_loop env limit depth turns s1 = Some s'" using True Suc.prems(1)
        by (simp add: pump_loop.simps [of env limit depth "Suc turns"])
      then show ?thesis using Suc.IH Suc.prems(3) turn PumpContinues by simp
    next
      case (PumpSubmitted answer s1)
      then have i1: "inv s1" using turn by simp
      show ?thesis
      proof (cases answer)
        case None
        then have "pump_loop env limit depth turns (timing_submitted s1) = Some s'"
          using True Suc.prems(1) PumpSubmitted by (simp add: pump_loop.simps [of env limit depth "Suc turns"])
        then show ?thesis using Suc.IH Suc.prems(3) i1 inv_timing by blast
      next
        case (Some r)
        then obtain depth' s2 where d: "depth = Suc depth'"
          "receive (\<lambda>t. pump_loop env (pump_limit t) depth' turns t) env r s1 = Some s2"
          "pump_loop env limit depth turns (timing_submitted s2) = Some s'"
          using True Suc.prems(1) PumpSubmitted
          by (auto simp: pump_loop.simps [of env limit depth "Suc turns"] split: nat.splits option.splits)
        have "inv s2"
          by (rule receive_inv [OF i1 d(2)]) (use Suc.IH inv_limit in blast)
        then show ?thesis using Suc.IH Suc.prems(3) d(3) inv_timing by blast
      qed
    qed
  qed
qed

lemma pump_inv: "pump env s = Some s' \<Longrightarrow> inv s \<Longrightarrow> inv s'"
  unfolding pump_def pump_within_def
  by (erule pump_loop_inv) (auto intro: inv_limit)

lemma step_inv: "scan_step env fired s s' \<Longrightarrow> inv s \<Longrightarrow> inv s'"
proof (induction rule: scan_step.induct)
  case (response r s s')
  show ?case by (rule receive_inv [OF response(2,1)]) (rule pump_inv)
next
  case (timeout now s i e s')
  then show ?case
    by (auto simp: on_timeout_alt split: option.splits
        intro: pump_inv inv_timeout inv_timeout_late)
next
  case (retry now s i e s')
  then show ?case
    by (auto simp: on_retry_ready_alt split: option.splits intro: pump_inv inv_retry inv_retry_late)
qed (blast intro: inv_transport_timer inv_transport_event inv_transport_done inv_engine inv_clock)+

lemma run_inv: "scan_run env n s s' \<Longrightarrow> inv s \<Longrightarrow> inv s'"
  by (induction rule: scan_run.induct) (auto intro: step_inv)

end

section \<open>What the atomic steps change\<close>

text \<open>The fields no handler assigns, and the result a work item ends in.\<close>

definition fixed_fields :: "('x, 't) scheduler \<Rightarrow> ('x, 't) scheduler \<Rightarrow> bool" where
  "fixed_fields s s' \<longleftrightarrow> ss_config s' = ss_config s \<and> ss_probe s' = ss_probe s \<and> ss_submitted s' = ss_submitted s"

definition result_of :: "work_item \<Rightarrow> scan_probe \<Rightarrow> port_state \<Rightarrow> scan_reason \<Rightarrow> port_result \<Rightarrow> bool" where
  "result_of w m st rs r \<longleftrightarrow>
     res_target r = h_address (wk_host w) \<and> res_port r = wk_port w \<and> res_state r = st \<and> res_probe r = m \<and>
     res_reason r = rs \<and> res_retry_count r = wk_retry_count w"

lemma append_fields [simp]:
  "ss_queue (append_terminal_result env w m st rs rtt s) = ss_queue s"
  "ss_pending (append_terminal_result env w m st rs rtt s) = ss_pending s"
  "ss_deferred (append_terminal_result env w m st rs rtt s) = ss_deferred s"
  "ss_engine (append_terminal_result env w m st rs rtt s) = ss_engine s"
  "ss_transport (append_terminal_result env w m st rs rtt s) = ss_transport s"
  "ss_timing (append_terminal_result env w m st rs rtt s) = ss_timing s"
  "ss_config (append_terminal_result env w m st rs rtt s) = ss_config s"
  "ss_probe (append_terminal_result env w m st rs rtt s) = ss_probe s"
  "ss_status (append_terminal_result env w m st rs rtt s) = ss_status s"
  "ss_submitted (append_terminal_result env w m st rs rtt s) = ss_submitted s"
  "ss_next_id (append_terminal_result env w m st rs rtt s) = ss_next_id s"
  by (simp_all add: append_terminal_result_def read_now_def)

lemma append_resultE:
  obtains r where "ss_results (append_terminal_result env w m st rs rtt s) = ss_results s @ [r]"
    and "result_of w m st rs r"
  using that by (force simp: append_terminal_result_def read_now_def result_of_def)

definition scheduled_then ::
  "('x, 't) scan_env \<Rightarrow> int \<Rightarrow> 'x sched_callback \<Rightarrow> 'x sched_callback engine \<Rightarrow> u64 \<Rightarrow> 'x sched_callback engine \<Rightarrow> bool" where
  "scheduled_then env delay cb e tid e' \<longleftrightarrow> (\<exists>now. engine_schedule now delay cb e = (tid, e')) \<and> tid \<noteq> 0"

text \<open>
  An attempt that ended in an error result while it was started: the timer, if there is one, is
  cancelled again. And an attempt that is in flight.
\<close>

inductive start_undone ::
  "('x, 't) scan_env \<Rightarrow> u64 \<Rightarrow> ('x, 't) scheduler \<Rightarrow> 'x sched_callback engine \<Rightarrow> bool" for env i s where
  not_scheduled: "start_undone env i s (ss_engine s)"
| timer_cancelled: "scheduled_then env (probe_timeout s * ns_per_ms) (OnTimeout i) (ss_engine s) tid e \<Longrightarrow>
    start_undone env i s (engine_cancel tid e)"
| submit_refused: "scheduled_then env (probe_timeout s * ns_per_ms) (OnTimeout i) (ss_engine s) tid e \<Longrightarrow>
    env_submit env sub (e, ss_transport s) = (st, a, e', t) \<Longrightarrow> start_undone env i s (engine_cancel tid e')"

definition start_failed ::
  "('x, 't) scan_env \<Rightarrow> u64 \<Rightarrow> work_item \<Rightarrow> ('x, 't) scheduler \<Rightarrow> ('x, 't) scheduler \<Rightarrow> bool" where
  "start_failed env i w s s' \<longleftrightarrow>
     fixed_fields s s' \<and> ss_queue s' = ss_queue s \<and> ss_pending s' = ss_pending s \<and>
     ss_deferred s' = ss_deferred s \<and> ss_timing s' = ss_timing s \<and>
     (\<exists>r reason. ss_results s' = ss_results s @ [r] \<and>
        result_of w (cfg_method (ss_config s)) PsError reason r \<and>
        reason \<in> {RsnInternalError, RsnInvalidTarget, RsnCapabilityUnavailable}) \<and>
     start_undone env i s (ss_engine s')"

definition started ::
  "('x, 't) scan_env \<Rightarrow> u64 \<Rightarrow> work_item \<Rightarrow> port_submission \<Rightarrow> port_response option \<Rightarrow>
     ('x, 't) scheduler \<Rightarrow> ('x, 't) scheduler \<Rightarrow> bool" where
  "started env i w sub answer s s' \<longleftrightarrow>
     fixed_fields s s' \<and> ss_queue s' = ss_queue s \<and> ss_status s' = ss_status s \<and>
     ss_deferred s' = ss_deferred s \<and> ss_timing s' = ss_timing s \<and> ss_results s' = ss_results s \<and>
     \<not> map_has (ss_pending s) i \<and>
     (\<exists>p e. ss_pending s' = (i, p) # ss_pending s \<and> pd_work p = w \<and> pd_submission p = sub \<and>
        pd_candidate_state p = None \<and>
        scheduled_then env (probe_timeout s * ns_per_ms) (OnTimeout i) (ss_engine s) (pd_timer p) e \<and>
        (\<exists>t. env_submit env sub (e, ss_transport s) = (Ok, answer, ss_engine s', t)))"

lemma start_failed_status [simp]: "start_failed env i w s (s'\<lparr>ss_status := st\<rparr>) = start_failed env i w s s'"
  by (simp add: start_failed_def fixed_fields_def)

lemma start_failed_append:
  assumes "fixed_fields s s1" and "ss_queue s1 = ss_queue s" and "ss_pending s1 = ss_pending s"
    and "ss_deferred s1 = ss_deferred s" and "ss_timing s1 = ss_timing s" and "ss_results s1 = ss_results s"
    and "reason \<in> {RsnInternalError, RsnInvalidTarget, RsnCapabilityUnavailable}"
    and "start_undone env i s (ss_engine s1)"
  shows "start_failed env i w s ((append_terminal_result env w (cfg_method (ss_config s)) PsError reason None s1)
    \<lparr>ss_status := st\<rparr>)"
proof -
  obtain r where "ss_results (append_terminal_result env w (cfg_method (ss_config s)) PsError reason None s1) =
      ss_results s1 @ [r]" "result_of w (cfg_method (ss_config s)) PsError reason r"
    by (rule append_resultE)
  then show ?thesis using assms unfolding start_failed_def fixed_fields_def by auto
qed

lemma submit_probe_cases:
  assumes "scheduled_then env (probe_timeout s * ns_per_ms) (OnTimeout i) (ss_engine s) (pd_timer p) e"
    and "\<not> map_has (ss_pending s) i" and "pd_work p = w" and "pd_submission p = sub"
    and "pd_candidate_state p = None"
  shows "\<exists>s'. (submit_probe env i w sub (pd_timer p)
        (s\<lparr>ss_reads := n, ss_engine := e, ss_pending := (i, p) # ss_pending s\<rparr>) = PumpBreaks s' \<and>
      ss_status s' \<noteq> Ok \<and> start_failed env i w s s') \<or>
    (\<exists>answer. submit_probe env i w sub (pd_timer p)
        (s\<lparr>ss_reads := n, ss_engine := e, ss_pending := (i, p) # ss_pending s\<rparr>) = PumpSubmitted answer s' \<and>
      started env i w sub answer s s')"
proof -
  obtain st answer e' t where sb: "env_submit env sub (e, ss_transport s) = (st, answer, e', t)"
    by (metis prod_cases3)
  let ?s0 = "s\<lparr>ss_reads := n, ss_engine := e, ss_pending := (i, p) # ss_pending s\<rparr>"
  let ?s1 = "?s0\<lparr>ss_engine := e', ss_transport := t\<rparr>"
  show ?thesis
  proof (cases "st = Ok")
    case True
    then have "submit_probe env i w sub (pd_timer p) ?s0 = PumpSubmitted answer ?s1"
      using sb by (simp add: submit_probe_def)
    moreover have "started env i w sub answer s ?s1"
      using assms sb True by (auto simp: started_def fixed_fields_def)
    ultimately show ?thesis by blast
  next
    case False
    have er: "map_erase i ((i, p) # ss_pending s) = ss_pending s"
      using assms(2) map_erase_absent [of "ss_pending s" i] by (simp add: map_erase_def map_has_def)
    let ?s2 = "erase_pending i (cancel_timer (pd_timer p) ?s1)"
    have "submit_probe env i w sub (pd_timer p) ?s0 = PumpBreaks
        ((append_terminal_result env w (cfg_method (ss_config s)) PsError (submission_failure_reason st) None ?s2)
          \<lparr>ss_status := st\<rparr>)"
      using sb False by (simp add: submit_probe_def cancel_timer_def erase_pending_def)
    moreover have "submission_failure_reason st \<in> {RsnInternalError, RsnInvalidTarget, RsnCapabilityUnavailable}"
      by (cases st) simp_all
    then have "start_failed env i w s
        ((append_terminal_result env w (cfg_method (ss_config s)) PsError (submission_failure_reason st) None ?s2)
          \<lparr>ss_status := st\<rparr>)"
      using submit_refused [OF assms(1) sb] er
      by (intro start_failed_append) (simp_all add: fixed_fields_def cancel_timer_def erase_pending_def)
    ultimately show ?thesis using False by fastforce
  qed
qed

lemma launch_probe_cases:
  "\<exists>s'. (launch_probe env i w sub s = PumpBreaks s' \<and> (ss_status s = Ok \<longrightarrow> ss_status s' \<noteq> Ok) \<and>
      start_failed env i w s s') \<or>
    (\<exists>answer. launch_probe env i w sub s = PumpSubmitted answer s' \<and> started env i w sub answer s s')"
proof -
  let ?m = "cfg_method (ss_config s)" and ?s1 = "s\<lparr>ss_reads := Suc (ss_reads s)\<rparr>"
  have pt: "probe_timeout ?s1 = probe_timeout s" by (simp add: probe_timeout_def split: option.splits)
  have l: "launch_probe env i w sub s =
      (case schedule_ms env (probe_timeout s) (OnTimeout i) ?s1 of (tid, s2) \<Rightarrow>
         if tid = 0 then
           let s3 = append_terminal_result env w (cfg_method (ss_config s2)) PsError RsnInternalError None s2 in
           PumpBreaks (if ss_status s3 = Ok then s3\<lparr>ss_status := InternalError\<rparr> else s3)
         else
           let p = \<lparr>pd_work = w, pd_submission = sub, pd_started_at = env_clock env (ss_reads s), pd_timer = tid,
                 pd_candidate_state = None, pd_candidate_reason = RsnInternalError, pd_candidate_at = 0,
                 pd_conflict = False\<rparr> in
           case map_emplace i p (ss_pending s2) of (m, inserted) \<Rightarrow>
             if \<not> inserted then
               PumpBreaks
                 ((append_terminal_result env w (cfg_method (ss_config s2)) PsError RsnInternalError None
                    (cancel_timer tid s2))\<lparr>ss_status := InternalError\<rparr>)
             else submit_probe env i w sub tid (s2\<lparr>ss_pending := m\<rparr>))"
    using pt by (simp add: launch_probe_def read_now_def)
  show ?thesis
  proof (rule schedule_msE [of env "probe_timeout s" "OnTimeout i" ?s1], goal_cases)
    case (1 n)
    let ?s3 = "append_terminal_result env w ?m PsError RsnInternalError None (s\<lparr>ss_reads := n\<rparr>)"
    have "start_failed env i w s (?s3\<lparr>ss_status := InternalError\<rparr>)"
      by (rule start_failed_append) (simp_all add: fixed_fields_def not_scheduled)
    then show ?thesis unfolding l using 1 by (cases "ss_status ?s3 = Ok") simp_all
  next
    case (2 n now tid e)
    then have sch: "scheduled_then env (probe_timeout s * ns_per_ms) (OnTimeout i) (ss_engine s) tid e"
      by (auto simp: scheduled_then_def)
    show ?thesis
    proof (cases "map_has (ss_pending s) i")
      case True
      have "start_failed env i w s ((append_terminal_result env w ?m PsError RsnInternalError None
          (cancel_timer tid (s\<lparr>ss_reads := n, ss_engine := e\<rparr>)))\<lparr>ss_status := InternalError\<rparr>)"
        by (rule start_failed_append) (simp_all add: fixed_fields_def cancel_timer_def timer_cancelled [OF sch])
      then show ?thesis unfolding l using 2 True by (simp add: map_emplace_def cancel_timer_def)
    next
      case False
      let ?p = "\<lparr>pd_work = w, pd_submission = sub, pd_started_at = env_clock env (ss_reads s), pd_timer = tid,
        pd_candidate_state = None, pd_candidate_reason = RsnInternalError, pd_candidate_at = 0, pd_conflict = False\<rparr>"
      have "launch_probe env i w sub s =
          submit_probe env i w sub tid (s\<lparr>ss_reads := n, ss_engine := e, ss_pending := (i, ?p) # ss_pending s\<rparr>)"
        unfolding l using 2 False by (simp add: map_emplace_def)
      then show ?thesis
        using submit_probe_cases [of env s i ?p e w sub n] sch False by fastforce
    qed
  qed
qed

text \<open>A turn of the pump: nothing to do, an error result, or a probe in flight.\<close>

lemma pump_turnE:
  obtains (none) "pump_turn env s = PumpBreaks s" and "ss_queue s = [] \<or> ss_probe s = None"
  | (failed) w rest s' where "ss_queue s = w # rest" and "ss_probe s \<noteq> None"
    and "pump_turn env s = PumpContinues s' \<and> ss_status s' = ss_status s \<or>
      pump_turn env s = PumpBreaks s' \<and> (ss_status s = Ok \<longrightarrow> ss_status s' \<noteq> Ok)"
    and "start_failed env (ss_next_id s) w (s\<lparr>ss_queue := rest, ss_next_id := ss_next_id s + 1\<rparr>) s'"
  | (flight) w rest s' answer probe sub where "ss_queue s = w # rest" and "ss_probe s = Some probe"
    and "pump_turn env s = PumpSubmitted answer s'"
    and "pp_build probe (ss_next_id s) (wk_host w) (wk_port w) (ss_config s) new_submission = (Ok, sub)"
    and "started env (ss_next_id s) w sub answer (s\<lparr>ss_queue := rest, ss_next_id := ss_next_id s + 1\<rparr>) s'"
proof (cases "\<exists>w rest probe. ss_queue s = w # rest \<and> ss_probe s = Some probe")
  case False
  then have "ss_queue s = [] \<or> ss_probe s = None" by (cases "ss_queue s"; cases "ss_probe s") auto
  moreover from this have "pump_turn env s = PumpBreaks s" by (auto simp: pump_turn_def split: list.splits)
  ultimately show thesis using none by blast
next
  case True
  then obtain w rest probe where q: "ss_queue s = w # rest" "ss_probe s = Some probe" by blast
  let ?i = "ss_next_id s" and ?s1 = "s\<lparr>ss_queue := rest, ss_next_id := ss_next_id s + 1\<rparr>"
  obtain st sub where b: "pp_build probe ?i (wk_host w) (wk_port w) (ss_config s) new_submission = (st, sub)"
    by fastforce
  show thesis
  proof (cases "st = Ok")
    case False
    let ?s2 = "append_terminal_result env w (cfg_method (ss_config ?s1)) PsError
      (if st = InvalidArgument then RsnInvalidTarget else RsnInternalError) None ?s1"
    have "pump_turn env s = PumpContinues ?s2" using q b False by (simp add: pump_turn_def Let_def)
    moreover have "start_failed env ?i w ?s1 (?s2\<lparr>ss_status := ss_status s\<rparr>)"
      using not_scheduled [of env ?i ?s1] by (intro start_failed_append) (simp_all add: fixed_fields_def)
    ultimately show ?thesis using q by (intro failed [of w rest ?s2]) simp_all
  next
    case True
    then have t: "pump_turn env s = launch_probe env ?i w sub ?s1" using q b by (simp add: pump_turn_def Let_def)
    consider s' where "launch_probe env ?i w sub ?s1 = PumpBreaks s'" "ss_status ?s1 = Ok \<longrightarrow> ss_status s' \<noteq> Ok"
        "start_failed env ?i w ?s1 s'"
      | s' answer where "launch_probe env ?i w sub ?s1 = PumpSubmitted answer s'" "started env ?i w sub answer ?s1 s'"
      using launch_probe_cases [of env ?i w sub ?s1] by blast
    then show ?thesis
    proof cases
      case 1
      then show ?thesis using q t by (intro failed [OF q(1)]) simp_all
    next
      case 2
      then show ?thesis using q t b True by (intro flight [OF q]) simp_all
    qed
  qed
qed

section \<open>The ledger\<close>

text \<open>
  Every port of every host is in exactly one place: waiting, in flight, waiting for its retry, or
  reported. The ledger counts the places of each.
\<close>

definition work_key :: "work_item \<Rightarrow> string \<times> port" where
  "work_key w = (h_address (wk_host w), wk_port w)"

definition result_key :: "port_result \<Rightarrow> string \<times> port" where
  "result_key r = (res_target r, res_port r)"

definition ledger :: "('x, 't) scheduler \<Rightarrow> (string \<times> port) multiset" where
  "ledger s =
     image_mset work_key (mset (ss_queue s)) +
     image_mset (work_key \<circ> pd_work \<circ> snd) (mset (ss_pending s)) +
     image_mset (work_key \<circ> df_work \<circ> snd) (mset (ss_deferred s)) +
     image_mset result_key (mset (ss_results s))"

definition ledger_is :: "(string \<times> port) multiset \<Rightarrow> ('x, 't) scheduler \<Rightarrow> bool" where
  "ledger_is l s \<longleftrightarrow> map_ok (ss_pending s) \<and> map_ok (ss_deferred s) \<and> ledger s = l"

lemma result_of_key: "result_of w m st rs r \<Longrightarrow> result_key r = work_key w"
  by (simp add: result_of_def result_key_def work_key_def)

lemma ledger_append [simp]:
  "ledger (append_terminal_result env w m st rs rtt s) = add_mset (work_key w) (ledger s)"
proof -
  obtain r where "ss_results (append_terminal_result env w m st rs rtt s) = ss_results s @ [r]"
    "result_of w m st rs r" by (rule append_resultE)
  then show ?thesis by (simp add: ledger_def result_of_key)
qed

lemma ledger_update_timing [simp]: "ledger (update_timing f s) = ledger s"
  by (simp add: ledger_def update_timing_def)

lemma update_timing_fields [simp]:
  "ss_queue (update_timing f s) = ss_queue s" "ss_pending (update_timing f s) = ss_pending s"
  "ss_deferred (update_timing f s) = ss_deferred s" "ss_results (update_timing f s) = ss_results s"
  "ss_engine (update_timing f s) = ss_engine s" "ss_transport (update_timing f s) = ss_transport s"
  "ss_config (update_timing f s) = ss_config s" "ss_probe (update_timing f s) = ss_probe s"
  "ss_status (update_timing f s) = ss_status s" "ss_submitted (update_timing f s) = ss_submitted s"
  "ss_timing (update_timing f s) = map_option f (ss_timing s)"
  by (simp_all add: update_timing_def)

lemma ledger_is_finish:
  assumes "map_ok (ss_pending s)" and "map_ok (ss_deferred s)"
  shows "ledger_is (add_mset (work_key w) (ledger s)) (finish_work env w st rs rtt s)"
proof (rule finish_work_cases [of env w st rs rtt s], goal_cases)
  case (1 w' st' rs')
  then show ?case using assms by (simp add: ledger_is_def work_key_def)
next
  case (2 w')
  then have k: "work_key w' = work_key w" by (simp add: work_key_def)
  show ?case
  proof (rule defer_retryE [of env w' s], goal_cases)
    case (1 n r s1)
    then have "ledger s1 = ledger s" "ss_pending s1 = ss_pending s" "ss_deferred s1 = ss_deferred s"
      by (auto simp: ledger_def)
    then show ?case using 1 2 assms k by (simp add: ledger_is_def retry_or_fail_def)
  next
    case (2 n r tid e now)
    then show ?case using \<open>finish_work env w st rs rtt s = retry_or_fail env w' rtt s\<close> assms k
      by (simp add: ledger_is_def retry_or_fail_def ledger_def work_key_def map_has_iff)
  qed
qed

lemma ledger_erase_pending:
  assumes "map_ok (ss_pending s)" and "map_of (ss_pending s) i = Some p"
  shows "ledger s = add_mset (work_key (pd_work p)) (ledger (erase_pending i s))"
  using mset_map_erase [OF assms] by (simp add: ledger_def erase_pending_def)

lemma ledger_retry_work:
  assumes "map_ok (ss_deferred s)" and "map_of (ss_deferred s) i = Some d"
  shows "ledger (retry_work i d s) = ledger s"
  using mset_map_erase [OF assms] by (simp add: ledger_def retry_work_def)

lemma note_evidence_work [simp]: "pd_work (note_evidence st rs instant p) = pd_work p"
  by (simp add: note_evidence_def split: option.splits)

lemma ledger_is_evidence:
  assumes "ledger_is l s" and "map_of (ss_pending s) i = Some p"
  shows "ledger_is l (s\<lparr>ss_pending := map_put i (note_evidence st rs instant p) (ss_pending s)\<rparr>)"
  using assms mset_map_put [of "ss_pending s" i p] mset_map_erase [of "ss_pending s" i p]
  by (simp add: ledger_is_def ledger_def map_ok_put)

text \<open>The state in which an attempt is finished differs from the one before in engine, transport and timing.\<close>

lemma finishing_fields [simp]:
  "ss_queue (cancel_probe env i s) = ss_queue s" "ss_pending (cancel_probe env i s) = ss_pending s"
  "ss_deferred (cancel_probe env i s) = ss_deferred s" "ss_results (cancel_probe env i s) = ss_results s"
  "ss_config (cancel_probe env i s) = ss_config s" "ss_probe (cancel_probe env i s) = ss_probe s"
  "ss_status (cancel_probe env i s) = ss_status s" "ss_submitted (cancel_probe env i s) = ss_submitted s"
  "ss_timing (cancel_probe env i s) = ss_timing s"
  "ss_queue (cancel_timer tid s) = ss_queue s" "ss_pending (cancel_timer tid s) = ss_pending s"
  "ss_deferred (cancel_timer tid s) = ss_deferred s" "ss_results (cancel_timer tid s) = ss_results s"
  "ss_config (cancel_timer tid s) = ss_config s" "ss_probe (cancel_timer tid s) = ss_probe s"
  "ss_status (cancel_timer tid s) = ss_status s" "ss_submitted (cancel_timer tid s) = ss_submitted s"
  "ss_timing (cancel_timer tid s) = ss_timing s" "ss_transport (cancel_timer tid s) = ss_transport s"
  "ss_engine (cancel_timer tid s) = engine_cancel tid (ss_engine s)"
  "ss_queue (erase_pending i s) = ss_queue s" "ss_pending (erase_pending i s) = map_erase i (ss_pending s)"
  "ss_deferred (erase_pending i s) = ss_deferred s" "ss_results (erase_pending i s) = ss_results s"
  "ss_config (erase_pending i s) = ss_config s" "ss_probe (erase_pending i s) = ss_probe s"
  "ss_status (erase_pending i s) = ss_status s" "ss_submitted (erase_pending i s) = ss_submitted s"
  "ss_timing (erase_pending i s) = ss_timing s" "ss_engine (erase_pending i s) = ss_engine s"
  by (simp_all add: cancel_probe_def cancel_timer_def erase_pending_def split: prod.splits)

lemma ledger_same:
  assumes "ss_queue s' = ss_queue s" and "ss_pending s' = ss_pending s" and "ss_deferred s' = ss_deferred s"
    and "ss_results s' = ss_results s"
  shows "ledger s' = ledger s"
  by (simp add: ledger_def assms)

definition finishing :: "u64 \<Rightarrow> ('x, 't) scheduler \<Rightarrow> ('x, 't) scheduler \<Rightarrow> bool" where
  "finishing i s s' \<longleftrightarrow> fixed_fields s s' \<and> ss_status s' = ss_status s \<and> ss_queue s' = ss_queue s \<and>
     ss_pending s' = map_erase i (ss_pending s) \<and> ss_deferred s' = ss_deferred s \<and> ss_results s' = ss_results s \<and>
     (\<exists>f. ss_timing s' = map_option f (ss_timing s) \<and>
        (\<forall>t. tc_inv t \<longrightarrow> tc_inv (f t)) \<and> (\<forall>t. tc_profile (f t) = tc_profile t))"

lemma timing_functions:
  "tc_inv t \<Longrightarrow> tc_inv (tc_update_metrics g (tc_on_response r t))"
  "tc_inv t \<Longrightarrow> tc_inv (tc_update_metrics g (tc_on_timeout t))"
  "tc_profile (tc_update_metrics g (tc_on_response r t)) = tc_profile t"
  "tc_profile (tc_update_metrics g (tc_on_timeout t)) = tc_profile t"
  by (simp_all add: tc_inv_metrics tc_inv_response tc_inv_timeout)
    (simp_all add: tc_update_metrics_def tc_on_response_def tc_on_timeout_def Let_def)

lemma completed_workE:
  obtains s' where "completed_work env i p st rs instant s =
      finish_work env (pd_work p) st rs (Some (rtt_between (pd_started_at p) instant)) s'"
    and "finishing i s s'"
    and "ss_engine s' = ss_engine (cancel_probe env i (cancel_timer (pd_timer p) s))"
proof (rule that)
  let ?rtt = "rtt_between (pd_started_at p) instant"
  let ?s' = "timing_response ?rtt (erase_pending i (cancel_probe env i (cancel_timer (pd_timer p) s)))"
  show "completed_work env i p st rs instant s = finish_work env (pd_work p) st rs (Some ?rtt) ?s'"
    by (simp add: completed_work_def Let_def)
  show "finishing i s ?s'"
    unfolding finishing_def fixed_fields_def timing_response_def Let_def
    by (simp add: exI [where x = "\<lambda>t. tc_update_metrics (set_parallelism (length (map_erase i (ss_pending s)))
      (length (map_erase i (ss_pending s)))) (tc_on_response (truncate_rat ?rtt) t)"] timing_functions)
  show "ss_engine ?s' = ss_engine (cancel_probe env i (cancel_timer (pd_timer p) s))"
    by (simp add: timing_response_def Let_def)
qed

lemma timeout_workE:
  obtains st rs rtt s' where "timeout_work env i p probe s = finish_work env (pd_work p) st rs rtt s'"
    and "finishing i s s'" and "ss_engine s' = ss_engine (cancel_probe env i s)"
    and "(pd_candidate_state p = Some st \<and> pd_candidate_reason p = rs) \<or>
      (pd_candidate_state p = None \<and> st = pp_timeout_state probe \<and> rs = pp_timeout_reason probe)"
proof (cases "pd_candidate_state p")
  case None
  let ?n = "length (map_erase i (ss_pending s))"
  show thesis
  proof (rule that)
    show "timeout_work env i p probe s = finish_work env (pd_work p) (pp_timeout_state probe)
        (pp_timeout_reason probe) None (timing_timeout (erase_pending i (cancel_probe env i s)))"
      using None by (simp add: timeout_work_def Let_def)
    show "finishing i s (timing_timeout (erase_pending i (cancel_probe env i s)))"
      unfolding finishing_def fixed_fields_def timing_timeout_def Let_def
      by (simp add: exI [where x = "\<lambda>t. tc_update_metrics (set_parallelism ?n ?n) (tc_on_timeout t)"] timing_functions)
  qed (use None in \<open>simp_all add: timing_timeout_def Let_def\<close>)
next
  case (Some st)
  let ?n = "length (map_erase i (ss_pending s))" and ?rtt = "rtt_between (pd_started_at p) (pd_candidate_at p)"
  show thesis
  proof (rule that)
    show "timeout_work env i p probe s = finish_work env (pd_work p) st (pd_candidate_reason p)
        (Some ?rtt) (timing_response ?rtt (erase_pending i (cancel_probe env i s)))"
      using Some by (simp add: timeout_work_def Let_def)
    show "finishing i s (timing_response ?rtt (erase_pending i (cancel_probe env i s)))"
      unfolding finishing_def fixed_fields_def timing_response_def Let_def
      by (simp add: exI [where x = "\<lambda>t. tc_update_metrics (set_parallelism ?n ?n)
        (tc_on_response (truncate_rat ?rtt) t)"] timing_functions)
  qed (use Some in \<open>simp_all add: timing_response_def Let_def\<close>)
qed

lemma ledger_is_engine [simp]: "ledger_is l (s\<lparr>ss_engine := e\<rparr>) = ledger_is l s"
  by (simp add: ledger_is_def ledger_def)

lemma ledger_is_finishing:
  assumes "ledger_is l s" and "finishing i s s'" and "map_of (ss_pending s) i = Some p"
  shows "ledger_is l (finish_work env (pd_work p) st rs rtt s')"
proof -
  have s': "ss_pending s' = map_erase i (ss_pending s)" "ss_deferred s' = ss_deferred s"
    using assms(2) by (simp_all add: finishing_def)
  have "ledger s' = ledger (erase_pending i s)"
    using assms(2) by (intro ledger_same) (simp_all add: finishing_def erase_pending_def)
  then have "add_mset (work_key (pd_work p)) (ledger s') = l"
    using ledger_erase_pending [OF _ assms(3)] assms(1) by (simp add: ledger_is_def)
  then show ?thesis
    using ledger_is_finish [of s' "pd_work p" env st rs rtt] s' assms(1)
    by (simp add: ledger_is_def map_ok_erase)
qed

lemma ledger_is_turn: "ledger_is l s \<Longrightarrow> ledger_is l (turn_state (pump_turn env s))"
proof (rule pump_turnE [of env s], goal_cases)
  case 1
  then show ?case by simp
next
  case (2 w rest s')
  then obtain r reason where r: "ss_results s' = ss_results s @ [r]" "result_of w (cfg_method (ss_config s)) PsError reason r"
    and s': "ss_queue s' = rest" "ss_pending s' = ss_pending s" "ss_deferred s' = ss_deferred s"
    by (auto simp: start_failed_def)
  then have "ledger s' = ledger s" using 2(2) result_of_key [OF r(2)] by (simp add: ledger_def)
  then show ?case using 2 s' by (auto simp: ledger_is_def)
next
  case (3 w rest s' answer probe sub)
  then show ?case by (auto simp: started_def ledger_is_def ledger_def map_has_iff)
qed

interpretation books: scan_invariant env "\<lambda>_. True" "ledger_is l" for env :: "('x, 't) scan_env" and l
proof unfold_locales
  fix s :: "('x, 't) scheduler" and i p probe and r :: port_response and st rs instant
  assume "ledger_is l s" "map_of (ss_pending s) i = Some p"
  then show "ledger_is l (completed_work env i p st rs instant s)"
    by (rule_tac completed_workE [of env i p st rs instant s]) (simp add: ledger_is_finishing)
next
  fix s :: "('x, 't) scheduler" and now i e p probe
  assume "ledger_is l s" "map_of (ss_pending s) i = Some p"
  then show "ledger_is l (timeout_work env i p probe (s\<lparr>ss_engine := e\<rparr>))"
    using ledger_is_finishing [of l "s\<lparr>ss_engine := e\<rparr>" i]
    by (rule_tac timeout_workE [of env i p probe "s\<lparr>ss_engine := e\<rparr>"]) simp
next
  fix s :: "('x, 't) scheduler" and now i e d
  assume "ledger_is l s" "map_of (ss_deferred s) i = Some d"
  then show "ledger_is l (retry_work i d (s\<lparr>ss_engine := e\<rparr>))"
    using ledger_retry_work [of "s\<lparr>ss_engine := e\<rparr>" i d] ledger_is_engine [of l e s]
    by (simp add: ledger_is_def retry_work_def map_ok_erase)
qed (auto simp: ledger_is_turn ledger_is_evidence, auto simp: ledger_is_def ledger_def timing_submitted_def)

section \<open>Results, retries and the limit\<close>

definition work_ok :: "nat \<Rightarrow> work_item \<Rightarrow> bool" where
  "work_ok retries w \<longleftrightarrow>
     wk_retry_count w \<le> retries \<and>
     wk_closed_observations w + wk_filtered_observations w \<le> wk_retry_count w \<and>
     port_protocol (wk_port w) = Tcp"

text \<open>
  What holds of every result of a scan with method \<open>m\<close>: its state and reason fit the method, and
  a negative verdict of a connect scan that may retry rests on more than one attempt.
\<close>

definition result_ok :: "scan_probe \<Rightarrow> nat \<Rightarrow> port_result \<Rightarrow> bool" where
  "result_ok m retries r \<longleftrightarrow>
     res_probe r = m \<and> port_protocol (res_port r) = Tcp \<and>
     valid_port_result_semantics Tcp m (res_state r) (res_reason r) \<and> res_retry_count r \<le> retries \<and>
     (m = TcpConnect \<and> (res_state r = PsClosed \<or> res_state r = PsFiltered) \<longrightarrow>
        1 \<le> res_retry_count r \<or> retries = 0)"

definition flight_ok :: "scan_probe \<Rightarrow> nat \<Rightarrow> u64 \<times> pending_probe \<Rightarrow> bool" where
  "flight_ok m retries e \<longleftrightarrow>
     work_ok retries (pd_work (snd e)) \<and> sub_id (pd_submission (snd e)) = fst e \<and>
     (\<forall>st. pd_candidate_state (snd e) = Some st \<longrightarrow>
        valid_port_result_semantics Tcp m st (pd_candidate_reason (snd e)))"

definition scan_ok :: "('x, 't) scan_env \<Rightarrow> scan_probe \<Rightarrow> nat \<Rightarrow> nat \<Rightarrow> ('x, 't) scheduler \<Rightarrow> bool" where
  "scan_ok env m cap retries s \<longleftrightarrow>
     cfg_method (ss_config s) = m \<and> ss_probe s = probe_for (env_libc env) m \<and>
     cfg_max_outstanding (ss_config s) = cap \<and> 0 < cap \<and> max_retries s = retries \<and>
     (\<forall>t. ss_timing s = Some t \<longrightarrow> tc_inv t) \<and>
     (\<forall>w\<in>set (ss_queue s). work_ok retries w) \<and> (\<forall>e\<in>set (ss_pending s). flight_ok m retries e) \<and>
     (\<forall>e\<in>set (ss_deferred s). work_ok retries (df_work (snd e))) \<and>
     (\<forall>r\<in>set (ss_results s). result_ok m retries r) \<and> length (ss_pending s) \<le> cap"

lemma scan_ok_engine [simp]: "scan_ok env m cap retries (s\<lparr>ss_engine := e\<rparr>) = scan_ok env m cap retries s"
  "scan_ok env m cap retries (s\<lparr>ss_transport := t\<rparr>) = scan_ok env m cap retries s"
  "scan_ok env m cap retries (s\<lparr>ss_reads := n\<rparr>) = scan_ok env m cap retries s"
  by (simp_all add: scan_ok_def max_retries_def split: option.splits)

lemma scan_ok_limit:
  assumes "scan_ok env m cap retries s"
  shows "1 \<le> pump_limit s \<and> pump_limit s \<le> cap"
proof (cases "ss_timing s")
  case (Some t)
  then have "tc_inv t" using assms by (simp add: scan_ok_def)
  then show ?thesis using Some assms tc_parallelism_bounds [of t cap]
    by (simp add: pump_limit_def scan_ok_def)
qed (use assms in \<open>simp add: pump_limit_def scan_ok_def\<close>)

lemma result_ok_error:
  assumes "probe_for lc m = Some probe" and "wk_retry_count w \<le> retries" and "port_protocol (wk_port w) = Tcp"
    and "result_of w m PsError reason r" and "reason \<in> {RsnInternalError, RsnInvalidTarget, RsnCapabilityUnavailable}"
  shows "result_ok m retries r"
proof -
  have c: "probe_contract probe" and t: "pp_type probe = m"
    using assms(1) probe_for_contract probe_for_type by blast+
  from probe_contract.error_semantics [OF c assms(5)] t assms(2-4) show ?thesis
    by (simp add: result_ok_def result_of_def)
qed

lemma result_ok_verdict:
  assumes "probe_for lc m = Some probe" and "work_ok retries w"
    and "result_of w' m st' rs' r" and "wk_port w' = wk_port w" and "wk_retry_count w' = wk_retry_count w"
    and "valid_port_result_semantics Tcp m st rs"
    and "(st', rs') = (st, rs) \<and>
      (should_confirm_negative m st rs \<longrightarrow>
         wk_retry_count w \<ge> retries \<or> wk_closed_observations w + wk_filtered_observations w > 0) \<or>
      (st', rs') = (PsUnknown, RsnConflictingEvidence)"
  shows "result_ok m retries r"
proof -
  have c: "probe_contract probe" and t: "pp_type probe = m"
    using assms(1) probe_for_contract probe_for_type by blast+
  have "valid_port_result_semantics Tcp m st' rs'"
    using assms(6,7) probe_contract.conflict_semantics [OF c] t by auto
  moreover have "1 \<le> wk_retry_count w \<or> retries = 0" if "m = TcpConnect" "st' = PsClosed \<or> st' = PsFiltered"
  proof -
    from that assms(7) have eq: "st' = st" "rs' = rs" by auto
    with that assms(6) have "should_confirm_negative m st rs"
      by (auto simp: should_confirm_negative_def valid_port_result_semantics.simps)
    with assms(7) that(2) have "wk_retry_count w \<ge> retries \<or>
        wk_closed_observations w + wk_filtered_observations w > 0" by auto
    with assms(2) show ?thesis by (auto simp: work_ok_def)
  qed
  ultimately show ?thesis using assms(2-5) by (auto simp: result_ok_def result_of_def work_ok_def)
qed

lemma scan_ok_transfer:
  assumes "scan_ok env m cap retries s" and "fixed_fields s s'" and "max_retries s' = max_retries s"
    and "\<And>t. ss_timing s' = Some t \<Longrightarrow> tc_inv t" and "\<And>w. w \<in> set (ss_queue s') \<Longrightarrow> work_ok retries w"
    and "\<And>e. e \<in> set (ss_pending s') \<Longrightarrow> flight_ok m retries e"
    and "\<And>e. e \<in> set (ss_deferred s') \<Longrightarrow> work_ok retries (df_work (snd e))"
    and "\<And>r. r \<in> set (ss_results s') \<Longrightarrow> result_ok m retries r" and "length (ss_pending s') \<le> cap"
  shows "scan_ok env m cap retries s'"
  using assms by (simp add: scan_ok_def fixed_fields_def)

lemma scan_ok_parts:
  assumes "scan_ok env m cap retries s"
  shows "\<And>t. ss_timing s = Some t \<Longrightarrow> tc_inv t" "\<And>w. w \<in> set (ss_queue s) \<Longrightarrow> work_ok retries w"
    "\<And>e. e \<in> set (ss_pending s) \<Longrightarrow> flight_ok m retries e"
    "\<And>e. e \<in> set (ss_deferred s) \<Longrightarrow> work_ok retries (df_work (snd e))"
    "\<And>r. r \<in> set (ss_results s) \<Longrightarrow> result_ok m retries r" "length (ss_pending s) \<le> cap"
    "max_retries s = retries" "cfg_method (ss_config s) = m" "ss_probe s = probe_for (env_libc env) m"
  using assms by (simp_all add: scan_ok_def)

lemma scan_ok_finishes:
  assumes "scan_ok env m cap retries s" and "finishing i s s'"
  shows "scan_ok env m cap retries s'"
proof (rule scan_ok_transfer [OF assms(1)])
  from assms(2) obtain f where f: "ss_timing s' = map_option f (ss_timing s)" "\<And>t. tc_inv t \<Longrightarrow> tc_inv (f t)"
    "\<And>t. tc_profile (f t) = tc_profile t" and c: "ss_config s' = ss_config s"
    by (auto simp: finishing_def fixed_fields_def)
  show "max_retries s' = max_retries s" by (simp add: max_retries_def f(1,3) c split: option.splits)
  show "tc_inv t" if "ss_timing s' = Some t" for t
    using that f(1,2) scan_ok_parts(1) [OF assms(1)] by auto
  have "length (map_erase i (ss_pending s)) \<le> length (ss_pending s)" by (simp add: map_erase_def)
  then show "length (ss_pending s') \<le> cap"
    using scan_ok_parts(6) [OF assms(1)] assms(2) by (simp add: finishing_def)
qed (use assms(2) scan_ok_parts [OF assms(1)] in \<open>simp_all add: finishing_def set_map_erase\<close>)

lemma max_retries_cong:
  "ss_config s' = ss_config s \<Longrightarrow> ss_timing s' = ss_timing s \<Longrightarrow> max_retries s' = max_retries s"
  by (simp add: max_retries_def split: option.splits)

lemma scan_ok_append:
  assumes "scan_ok env m cap retries t" and "\<And>r. result_of w m' st rs r \<Longrightarrow> result_ok m retries r"
  shows "scan_ok env m cap retries (append_terminal_result env w m' st rs rtt t)"
proof (rule append_resultE [of env w m' st rs rtt t])
  fix r assume "ss_results (append_terminal_result env w m' st rs rtt t) = ss_results t @ [r]" "result_of w m' st rs r"
  then show ?thesis
    using scan_ok_parts [OF assms(1)] assms(2)
    by (intro scan_ok_transfer [OF assms(1)]) (auto simp: fixed_fields_def intro: max_retries_cong)
qed

lemma scan_ok_finishing:
  assumes "scan_ok env m cap retries s" and "finishing i s s'" and "map_of (ss_pending s) i = Some p"
    and "valid_port_result_semantics Tcp m st rs" and "ss_probe s = Some probe"
  shows "scan_ok env m cap retries (finish_work env (pd_work p) st rs rtt s')"
proof -
  let ?w = "pd_work p"
  have p: "work_ok retries ?w"
    using assms(1) map_of_SomeD [OF assms(3)] by (auto simp: scan_ok_def flight_ok_def)
  have probe: "probe_for (env_libc env) m = Some probe" using assms(1,5) by (simp add: scan_ok_def)
  have s': "scan_ok env m cap retries s'" by (rule scan_ok_finishes [OF assms(1,2)])
  note m = scan_ok_parts(8) [OF s'] and mr = scan_ok_parts(7) [OF s']
  show ?thesis
  proof (rule finish_work_cases [of env ?w st rs rtt s'], goal_cases)
    case (1 w' st' rs')
    show ?case unfolding 1(1) m
    proof (rule scan_ok_append [OF s'])
      fix r assume "result_of w' m st' rs' r"
      from result_ok_verdict [OF probe p this 1(3,4) assms(4) 1(5) [unfolded m mr]]
      show "result_ok m retries r" .
    qed
  next
    case (2 w')
    then have w': "work_ok retries (w'\<lparr>wk_retry_count := Suc (wk_retry_count w')\<rparr>)"
      using p mr by (auto simp: work_ok_def)
    show ?case
    proof (rule defer_retryE [of env w' s'], goal_cases)
      case (1 n r s1)
      then have s1: "scan_ok env m cap retries s1" "cfg_method (ss_config s1) = m"
        using s' by (auto simp: scan_ok_def max_retries_def split: option.splits)
      have "result_ok m retries r" if "result_of w' m PsError RsnInternalError r" for r
        using result_ok_error [OF probe _ _ that] p 2 by (simp add: work_ok_def)
      from scan_ok_append [OF s1(1) this] show ?case using 1(1) 2(1) s1(2) by (simp add: retry_or_fail_def)
    next
      case (2 n r tid e now)
      have "tc_inv (tc_update_metrics f t) = tc_inv t" "tc_profile (tc_update_metrics f t) = tc_profile t" for f t
        by (simp_all add: tc_inv_metrics) (simp add: tc_update_metrics_def)
      then have "scan_ok env m cap retries (snd (defer_retry env w' s'))"
        using 2(1) s' w' by (auto simp: scan_ok_def max_retries_def split: option.splits)
      then show ?case using 2(1) \<open>finish_work env ?w st rs rtt s' = _\<close> by (simp add: retry_or_fail_def)
    qed
  qed
qed

lemma scan_ok_turn:
  assumes "scan_ok env m cap retries s" and "length (ss_pending s) < limit" and "limit \<le> cap"
  shows "scan_ok env m cap retries (turn_state (pump_turn env s))"
proof (rule pump_turnE [of env s], goal_cases)
  case 1
  then show ?case using assms(1) by simp
next
  case (2 w rest s')
  note ok = scan_ok_parts [OF assms(1)]
  obtain probe where probe: "probe_for (env_libc env) m = Some probe" using 2(2) ok(9) by auto
  have w: "work_ok retries w" using ok(2) 2(1) by simp
  from 2(4) obtain r reason where r: "ss_results s' = ss_results s @ [r]" "result_of w m PsError reason r"
    "reason \<in> {RsnInternalError, RsnInvalidTarget, RsnCapabilityUnavailable}"
    using ok(8) by (auto simp: start_failed_def)
  have "result_ok m retries r"
    using w by (intro result_ok_error [OF probe _ _ r(2,3)]) (simp_all add: work_ok_def)
  then have "scan_ok env m cap retries s'"
    using 2(1,4) r(1) ok
    by (intro scan_ok_transfer [OF assms(1)])
      (auto simp: start_failed_def fixed_fields_def intro: max_retries_cong)
  then show ?case using 2(3) by auto
next
  case (3 w rest s' answer probe sub)
  note ok = scan_ok_parts [OF assms(1)]
  have w: "work_ok retries w" using ok(2) 3(1) by simp
  have "probe_contract probe" using 3(2) ok(9) probe_for_contract [of "env_libc env" m] by simp
  then have id: "sub_id sub = ss_next_id s" using probe_contract.build_identity [OF _ 3(4)] by blast
  from 3(5) obtain p where p: "ss_pending s' = (ss_next_id s, p) # ss_pending s" "pd_work p = w"
    "pd_submission p = sub" "pd_candidate_state p = None"
    by (auto simp: started_def)
  then have "flight_ok m retries (ss_next_id s, p)" using w id by (simp add: flight_ok_def)
  then have "scan_ok env m cap retries s'"
    using 3(1,5) p(1) ok assms(2,3)
    by (intro scan_ok_transfer [OF assms(1)])
      (auto simp: started_def fixed_fields_def intro: max_retries_cong)
  then show ?case using 3(3) by simp
qed

lemma scan_ok_evidence:
  assumes "scan_ok env m cap retries s" and "map_of (ss_pending s) i = Some p" and "ss_probe s = Some probe"
    and "pp_assess probe r (pd_submission p) = Inr (st, rs)"
  shows "scan_ok env m cap retries (s\<lparr>ss_pending := map_put i (note_evidence st rs instant p) (ss_pending s)\<rparr>)"
proof (rule scan_ok_transfer [OF assms(1)])
  note ok = scan_ok_parts [OF assms(1)]
  have c: "probe_contract probe" and t: "pp_type probe = m"
    using assms(3) ok(9) probe_for_contract probe_for_type by metis+
  have "valid_port_result_semantics Tcp m st rs"
    using probe_contract.assess_semantics [OF c assms(4)] t by simp
  moreover have "valid_port_result_semantics Tcp m PsUnknown RsnConflictingEvidence"
    using probe_contract.conflict_semantics [OF c] t by simp
  moreover have "pd_submission (note_evidence st rs instant p) = pd_submission p"
    by (simp add: note_evidence_def split: option.splits)
  ultimately have "flight_ok m retries (i, note_evidence st rs instant p)"
    using ok(3) [OF map_of_SomeD [OF assms(2)]]
    by (auto simp: flight_ok_def note_evidence_def split: option.splits)
  then show "flight_ok m retries e"
    if "e \<in> set (ss_pending (s\<lparr>ss_pending := map_put i (note_evidence st rs instant p) (ss_pending s)\<rparr>))" for e
    using that ok(3) set_map_put_subset [of i "note_evidence st rs instant p" "ss_pending s"]
    by (cases e) (auto simp: subset_iff)
  show "length (ss_pending (s\<lparr>ss_pending := map_put i (note_evidence st rs instant p) (ss_pending s)\<rparr>)) \<le> cap"
    using ok(6) length_map_put [OF assms(2)] by simp
qed (use scan_ok_parts [OF assms(1)] in \<open>auto simp: fixed_fields_def intro: max_retries_cong\<close>)

interpretation shape: scan_invariant env "\<lambda>limit. limit \<le> cap" "scan_ok env m cap retries"
  for env :: "('x, 't) scan_env" and m cap retries
proof unfold_locales
  fix s :: "('x, 't) scheduler"
  assume a: "scan_ok env m cap retries s"
  note ok = scan_ok_parts [OF a]
  show "pump_limit s \<le> cap" using scan_ok_limit [OF a] by simp
  show "scan_ok env m cap retries (timing_submitted s)"
  proof (rule scan_ok_transfer [OF a])
    have "tc_profile (tc_on_submitted n t) = tc_profile t" for n t by (simp add: tc_on_submitted_def)
    then show "max_retries (timing_submitted s) = max_retries s"
      by (simp add: max_retries_def timing_submitted_def split: option.splits)
    show "tc_inv t" if "ss_timing (timing_submitted s) = Some t" for t
      using that ok(1) by (auto simp: timing_submitted_def tc_inv_submitted)
  qed (use ok in \<open>simp_all add: fixed_fields_def timing_submitted_def\<close>)
  fix i p probe and r :: port_response and st rs instant
  assume p: "map_of (ss_pending s) i = Some p" "ss_probe s = Some probe"
  have c: "probe_contract probe" and t: "pp_type probe = m"
    using p(2) ok(9) probe_for_contract probe_for_type by metis+
  {
    assume r: "pp_assess probe r (pd_submission p) = Inr (st, rs)"
    show "scan_ok env m cap retries (completed_work env i p st rs instant s)"
      using scan_ok_finishing [OF a _ p(1) _ p(2)] probe_contract.assess_semantics [OF c r] t
      by (rule_tac completed_workE [of env i p st rs instant s]) simp
  }
  fix e
  have cand: "pd_candidate_state p = Some st \<Longrightarrow> valid_port_result_semantics Tcp m st (pd_candidate_reason p)" for st
    using ok(3) [OF map_of_SomeD [OF p(1)]] by (simp add: flight_ok_def)
  show "scan_ok env m cap retries (timeout_work env i p probe (s\<lparr>ss_engine := e\<rparr>))"
  proof (rule timeout_workE [of env i p probe "s\<lparr>ss_engine := e\<rparr>"], goal_cases)
    case (1 st rs rtt s')
    then have "valid_port_result_semantics Tcp m st rs"
      using cand probe_contract.timeout_semantics [OF c] t by auto
    then show ?case
      using 1 a p scan_ok_finishing [of env m cap retries "s\<lparr>ss_engine := e\<rparr>" i s' p st rs probe rtt] by simp
  qed
next
  fix s :: "('x, 't) scheduler" and i d e
  assume a: "scan_ok env m cap retries s" and d: "map_of (ss_deferred s) i = Some d"
  note ok = scan_ok_parts [OF a]
  show "scan_ok env m cap retries (retry_work i d (s\<lparr>ss_engine := e\<rparr>))"
  proof (rule scan_ok_transfer [OF a])
    show "work_ok retries w" if "w \<in> set (ss_queue (retry_work i d (s\<lparr>ss_engine := e\<rparr>)))" for w
      using that ok(2) ok(4) [OF map_of_SomeD [OF d]] by (auto simp: retry_work_def)
  qed (use ok in \<open>auto simp: fixed_fields_def retry_work_def set_map_erase intro: max_retries_cong\<close>)
qed (simp_all add: scan_ok_turn scan_ok_evidence)

end
