(* ===== verification/Port_Scheduler_Timers.thy ===== *)
theory Port_Scheduler_Timers
  imports Port_Scheduler_Inv
begin

text \<open>
  The port scheduler and the reactor: the timers of a scan, what a transport may do to the engine
  (the locale \<open>scan_transport\<close>, interpreted on the recording transport), the engine's loop as
  a sequence of scheduler steps, progress and termination of a scan.
\<close>

section \<open>Timers\<close>

text \<open>
  Each probe in flight and each deferred retry has its own live timer, and the engine holds no
  other timer of the scheduler.
\<close>

definition timers_match ::
  "'x sched_callback engine \<Rightarrow> (u64 \<times> pending_probe) list \<Rightarrow> (u64 \<times> deferred_retry) list \<Rightarrow> bool" where
  "timers_match e pending deferred \<longleftrightarrow>
     wired e \<and>
     (\<forall>i tid. timer_for (OnTimeout i) e tid \<longleftrightarrow> map_option pd_timer (map_of pending i) = Some tid) \<and>
     (\<forall>i tid. timer_for (OnRetryReady i) e tid \<longleftrightarrow> map_option df_timer (map_of deferred i) = Some tid)"

definition timers_ok :: "('x, 't) scheduler \<Rightarrow> bool" where
  "timers_ok s \<longleftrightarrow> timers_match (ss_engine s) (ss_pending s) (ss_deferred s)"

lemma timer_for_unique: "timer_for cb e tid \<Longrightarrow> timer_for cb' e tid \<Longrightarrow> cb = cb'"
  by (auto simp: timer_for_def)

lemma timer_for_schedule:
  assumes "wired e" and "engine_schedule now delay cb e = (tid, e')" and "tid \<noteq> 0"
  shows "wired e'" and "\<not> timer_for cb' e tid"
    and "timer_for cb' e' tid' \<longleftrightarrow> timer_for cb' e tid' \<or> (cb' = cb \<and> tid' = tid)"
proof -
  show "wired e'" using wired_schedule [OF assms(1), of now delay cb] assms(2) by simp
  have o: "eng_next_timer e \<noteq> 0 \<and> tid = eng_next_timer e \<and> eng_timers e' =
      fst (map_emplace (eng_next_timer e) \<lparr>tm_deadline = now + max delay 0, tm_callback = cb\<rparr> (eng_timers e))"
    using assms(2,3) by (auto simp: engine_schedule_def Let_def split: if_splits)
  with timers_inv_fresh [of e] assms(1) have f: "map_of (eng_timers e) tid = None" by (simp add: wired_def)
  then show "\<not> timer_for cb' e tid" by (simp add: timer_for_def)
  have "map_of (eng_timers e') = (map_of (eng_timers e))(tid \<mapsto> \<lparr>tm_deadline = now + max delay 0, tm_callback = cb\<rparr>)"
    using o f by (simp add: map_emplace_def map_has_def)
  then show "timer_for cb' e' tid' \<longleftrightarrow> timer_for cb' e tid' \<or> (cb' = cb \<and> tid' = tid)"
    using f by (auto simp: timer_for_def)
qed

lemma timer_for_cancel:
  assumes "wired e"
  shows "timer_for cb (engine_cancel tid e) tid' \<longleftrightarrow> timer_for cb e tid' \<and> tid' \<noteq> tid"
proof -
  have "timers_inv e" using assms by (simp add: wired_def)
  then have "map_of (eng_timers e) 0 = None"
    by (force simp: timers_inv_def map_of_eq_None_iff)
  then show ?thesis by (auto simp: timer_for_def engine_cancel_def map_of_erase)
qed

lemma timer_for_fires:
  assumes "wired e" and "dispatch_turn now e = TurnFires cb e'"
  obtains tid where "wired e'" and "timer_for cb e tid"
    and "\<And>cb' tid'. timer_for cb' e' tid' \<longleftrightarrow> timer_for cb' e tid' \<and> tid' \<noteq> tid"
proof -
  obtain tid t where t: "map_of (eng_timers e) tid = Some t" "tm_callback t = cb"
    "eng_timers e' = map_erase tid (eng_timers e)"
    by (rule turn_fires [OF _ assms(2)]) (use assms(1) in \<open>simp_all add: wired_def\<close>)
  show thesis
  proof (rule that)
    show "wired e'" by (rule wired_turn [OF assms(1) disjI1 [OF assms(2)]])
    show "timer_for cb e tid" using t by (simp add: timer_for_def)
    show "timer_for cb' e' tid' \<longleftrightarrow> timer_for cb' e tid' \<and> tid' \<noteq> tid" for cb' tid'
      using t(3) by (simp add: timer_for_def map_of_erase)
  qed
qed

lemma timers_match_kept:
  "timers_match e pend def \<Longrightarrow> timers_kept e e' \<Longrightarrow> timers_match e' pend def"
  by (simp add: timers_match_def timers_kept_def)

lemma timers_match_stop: "timers_match e pend def \<Longrightarrow> timers_match (engine_stop e) pend def"
  using wired_same [of "engine_stop e" e] by (simp add: timers_match_def engine_stop_def timer_for_def)

lemma timers_match_schedule_cancel:
  assumes "timers_match e pend def" and "engine_schedule now delay cb e = (tid, e1)" and "tid \<noteq> 0"
    and "timers_kept e1 e2"
  shows "timers_match (engine_cancel tid e2) pend def"
proof -
  have i: "wired e" using assms(1) by (simp add: timers_match_def)
  note sch = timer_for_schedule [OF i assms(2,3)]
  have i2: "wired e2" using sch(1) assms(4) by (simp add: timers_kept_def)
  have k: "timer_for (OnTimeout j) e2 tid' = timer_for (OnTimeout j) e1 tid'"
    "timer_for (OnRetryReady j) e2 tid' = timer_for (OnRetryReady j) e1 tid'" for j tid'
    using assms(4) by (simp_all add: timers_kept_def)
  have "timer_for (OnTimeout j) (engine_cancel tid e2) tid' = timer_for (OnTimeout j) e tid'"
    "timer_for (OnRetryReady j) (engine_cancel tid e2) tid' = timer_for (OnRetryReady j) e tid'" for j tid'
    using sch(2) by (cases "tid' = tid"; simp add: timer_for_cancel [OF i2] k sch(3))+
  then show ?thesis
    using assms(1) wired_cancel [OF i2] by (simp add: timers_match_def)
qed

lemma timers_match_deferred:
  assumes "timers_match e pend def" and "engine_schedule now delay (OnRetryReady r) e = (tid, e1)" and "tid \<noteq> 0"
    and "\<not> map_has def r" and "df_timer d = tid"
  shows "timers_match e1 pend ((r, d) # def)"
proof -
  have i: "wired e" using assms(1) by (simp add: timers_match_def)
  note sch = timer_for_schedule [OF i assms(2,3)]
  show ?thesis
    using assms(1,4,5) sch(1)
    by (auto simp: timers_match_def sch(3) map_has_def)
qed

lemma timers_match_flight:
  assumes "timers_match e pend def" and "engine_schedule now delay (OnTimeout i) e = (tid, e1)" and "tid \<noteq> 0"
    and "\<not> map_has pend i" and "pd_timer p = tid" and "timers_kept e1 e2"
  shows "timers_match e2 ((i, p) # pend) def"
proof -
  have inv: "wired e" using assms(1) by (simp add: timers_match_def)
  note sch = timer_for_schedule [OF inv assms(2,3)]
  have "timers_match e1 ((i, p) # pend) def"
    using assms(1,4,5) sch(1) by (auto simp: timers_match_def sch(3) map_has_def)
  then show ?thesis using assms(6) by (rule timers_match_kept)
qed

lemma timers_match_erase:
  assumes "timers_match e pend def" and "wired e'" and "timer_for (OnTimeout i) e tid"
    and "\<And>cb tid'. timer_for cb e' tid' \<longleftrightarrow> timer_for cb e tid' \<and> tid' \<noteq> tid"
  shows "timers_match e' (map_erase i pend) def"
proof -
  have t: "map_option pd_timer (map_of pend i) = Some tid" using assms(1,3) by (simp add: timers_match_def)
  have u: "timer_for cb e tid \<Longrightarrow> cb = OnTimeout i" for cb using timer_for_unique [OF assms(3)] by blast
  have "timer_for (OnTimeout j) e' tid' \<longleftrightarrow> map_option pd_timer (map_of (map_erase i pend) j) = Some tid'" for j tid'
  proof -
    have m: "timer_for (OnTimeout j) e tid' \<longleftrightarrow> map_option pd_timer (map_of pend j) = Some tid'"
      using assms(1) by (simp add: timers_match_def)
    show ?thesis
      using t u [of "OnTimeout j"] m by (cases "j = i") (auto simp: assms(4) map_of_erase)
  qed
  moreover have "timer_for (OnRetryReady j) e' tid' \<longleftrightarrow> timer_for (OnRetryReady j) e tid'" for j tid'
    using u [of "OnRetryReady j"] by (auto simp: assms(4))
  ultimately show ?thesis using assms(1,2) by (simp add: timers_match_def)
qed

lemma timers_match_erase_deferred:
  assumes "timers_match e pend def" and "wired e'" and "timer_for (OnRetryReady i) e tid"
    and "\<And>cb tid'. timer_for cb e' tid' \<longleftrightarrow> timer_for cb e tid' \<and> tid' \<noteq> tid"
  shows "timers_match e' pend (map_erase i def)"
proof -
  have t: "map_option df_timer (map_of def i) = Some tid" using assms(1,3) by (simp add: timers_match_def)
  have u: "timer_for cb e tid \<Longrightarrow> cb = OnRetryReady i" for cb using timer_for_unique [OF assms(3)] by blast
  have "timer_for (OnRetryReady j) e' tid' \<longleftrightarrow> map_option df_timer (map_of (map_erase i def) j) = Some tid'" for j tid'
  proof -
    have m: "timer_for (OnRetryReady j) e tid' \<longleftrightarrow> map_option df_timer (map_of def j) = Some tid'"
      using assms(1) by (simp add: timers_match_def)
    show ?thesis
      using t u [of "OnRetryReady j"] m by (cases "j = i") (auto simp: assms(4) map_of_erase)
  qed
  moreover have "timer_for (OnTimeout j) e' tid' \<longleftrightarrow> timer_for (OnTimeout j) e tid'" for j tid'
    using u [of "OnTimeout j"] by (auto simp: assms(4))
  ultimately show ?thesis using assms(1,2) by (simp add: timers_match_def)
qed

lemma timers_match_transport:
  assumes "timers_match e pend def" and "dispatch_turn now e = TurnFires (TransportEvent x) e'"
  shows "timers_match e' pend def"
proof (rule timer_for_fires [OF _ assms(2)])
  show "wired e" using assms(1) by (simp add: timers_match_def)
  fix tid
  assume f: "wired e'" "timer_for (TransportEvent x) e tid"
    "\<And>cb' tid'. timer_for cb' e' tid' \<longleftrightarrow> timer_for cb' e tid' \<and> tid' \<noteq> tid"
  have "timer_for (OnTimeout j) e' tid' = timer_for (OnTimeout j) e tid'"
    "timer_for (OnRetryReady j) e' tid' = timer_for (OnRetryReady j) e tid'" for j tid'
    using f(2,3) timer_for_unique [OF f(2)] by blast+
  then show ?thesis using assms(1) f(1) by (simp add: timers_match_def)
qed

lemma timers_ok_append [simp]: "timers_ok (append_terminal_result env w m st rs rtt s) = timers_ok s"
  by (simp add: timers_ok_def)

lemma timers_ok_finish:
  assumes "timers_ok s"
  shows "timers_ok (finish_work env w st rs rtt s)"
proof (rule finish_work_cases [of env w st rs rtt s], goal_cases)
  case (1 w' st' rs')
  then show ?case using assms by simp
next
  case (2 w')
  have eq: "finish_work env w st rs rtt s = retry_or_fail env w' rtt s" by (rule 2(1))
  show ?case
  proof (rule defer_retryE [of env w' s], goal_cases)
    case (1 n r s1)
    then have "timers_ok s1"
      using assms timers_match_schedule_cancel [of "ss_engine s" "ss_pending s" "ss_deferred s"]
      by (auto simp: timers_ok_def)
    then show ?case using 1 by (simp add: eq retry_or_fail_def)
  next
    case (2 n r tid e now)
    then show ?case
      using timers_match_deferred [of "ss_engine s" "ss_pending s" "ss_deferred s" _ _ r tid e] assms
      by (simp add: eq retry_or_fail_def timers_ok_def)
  qed
qed

lemma finish_work_fixed: "fixed_fields s (finish_work env w st rs rtt s)"
proof (rule finish_work_cases [of env w st rs rtt s], goal_cases)
  case (1 w' st' rs')
  then show ?case by (simp add: fixed_fields_def)
next
  case (2 w')
  have eq: "finish_work env w st rs rtt s = retry_or_fail env w' rtt s" by (rule 2(1))
  show ?case
    by (rule defer_retryE [of env w' s]) (auto simp: eq retry_or_fail_def fixed_fields_def)
qed

lemma finish_work_fields [simp]:
  "ss_config (finish_work env w st rs rtt s) = ss_config s" "ss_probe (finish_work env w st rs rtt s) = ss_probe s"
  "ss_submitted (finish_work env w st rs rtt s) = ss_submitted s"
  using finish_work_fixed [of s env w st rs rtt] by (simp_all add: fixed_fields_def)

lemma fixed_turn: "fixed_fields s (turn_state (pump_turn env s))"
  by (rule pump_turnE [of env s]) (auto simp: start_failed_def started_def fixed_fields_def)

interpretation fixed: scan_invariant env "\<lambda>_. True" "fixed_fields s0" for env :: "('x, 't) scan_env" and s0
proof unfold_locales
  fix s :: "('x, 't) scheduler" and i p probe st rs instant e
  assume f: "fixed_fields s0 s"
  show "fixed_fields s0 (completed_work env i p st rs instant s)"
    using f by (rule_tac completed_workE [of env i p st rs instant s]) (simp add: fixed_fields_def finishing_def)
  show "fixed_fields s0 (timeout_work env i p probe (s\<lparr>ss_engine := e\<rparr>))"
    using f by (rule_tac timeout_workE [of env i p probe "s\<lparr>ss_engine := e\<rparr>"])
      (simp add: fixed_fields_def finishing_def)
  show "fixed_fields s0 (turn_state (pump_turn env s))"
    using f fixed_turn [of s env] by (simp add: fixed_fields_def)
qed (simp_all add: fixed_fields_def timing_submitted_def retry_work_def)

section \<open>Transports\<close>

text \<open>
  What the scheduler needs of a transport: it leaves the timers of others alone, and a
  submission it refuses gets no answer.
\<close>

locale scan_transport =
  fixes env :: "('x, 't) scan_env"
  assumes submit_timers: "env_submit env sub (e, t) = (st, answer, e', t') \<Longrightarrow> timers_kept e e'"
    and cancel_timers: "env_cancel env i (e, t) = (e', t') \<Longrightarrow> timers_kept e e'"
    and event_timers: "env_event env x (e, t) = (answers, e', t') \<Longrightarrow> timers_kept e e'"
    and done_timers: "env_done env x (e, t) = (e', t') \<Longrightarrow> timers_kept e e'"
    and refused_silent: "env_submit env sub (e, t) = (st, Some r, e', t') \<Longrightarrow> st = Ok"
begin

lemma cancel_probe_timers: "timers_kept (ss_engine s) (ss_engine (cancel_probe env i s))"
  using cancel_timers [of i "ss_engine s" "ss_transport s"]
  by (simp add: cancel_probe_def split: prod.splits)

lemma timers_ok_turn:
  assumes "timers_ok s"
  shows "timers_ok (turn_state (pump_turn env s))"
proof (rule pump_turnE [of env s], goal_cases)
  case 1
  then show ?case using assms by simp
next
  case (2 w rest s')
  let ?s1 = "s\<lparr>ss_queue := rest, ss_next_id := ss_next_id s + 1\<rparr>"
  have m: "timers_match (ss_engine s) (ss_pending s) (ss_deferred s)" using assms by (simp add: timers_ok_def)
  have "start_undone env (ss_next_id s) ?s1 (ss_engine s')"
    and f: "ss_pending s' = ss_pending s" "ss_deferred s' = ss_deferred s"
    using 2(4) by (simp_all add: start_failed_def)
  then have "timers_match (ss_engine s') (ss_pending s) (ss_deferred s)"
  proof (cases rule: start_undone.cases)
    case not_scheduled
    then show ?thesis using m by simp
  next
    case (timer_cancelled tid e)
    then show ?thesis using timers_match_schedule_cancel [OF m _ _ timers_kept_refl]
      by (auto simp: scheduled_then_def)
  next
    case (submit_refused tid e sub st a e' t)
    then show ?thesis using timers_match_schedule_cancel [OF m _ _ submit_timers]
      by (auto simp: scheduled_then_def)
  qed
  then have "timers_ok s'" using f by (simp add: timers_ok_def)
  then show ?case using 2(3) by auto
next
  case (3 w rest s' answer probe sub)
  have m: "timers_match (ss_engine s) (ss_pending s) (ss_deferred s)" using assms by (simp add: timers_ok_def)
  from 3(5) obtain p e t where "\<not> map_has (ss_pending s) (ss_next_id s)"
    "ss_pending s' = (ss_next_id s, p) # ss_pending s" "ss_deferred s' = ss_deferred s"
    "scheduled_then env (probe_timeout (s\<lparr>ss_queue := rest, ss_next_id := ss_next_id s + 1\<rparr>) * ns_per_ms)
       (OnTimeout (ss_next_id s)) (ss_engine s) (pd_timer p) e"
    "env_submit env sub (e, ss_transport s) = (Ok, answer, ss_engine s', t)"
    by (auto simp: started_def)
  then have "timers_ok s'"
    using timers_match_flight [OF m _ _ _ refl submit_timers] by (auto simp: scheduled_then_def timers_ok_def)
  then show ?case using 3(3) by simp
qed

end

definition timers_inv_of :: "('x, 't) scheduler \<Rightarrow> bool" where
  "timers_inv_of s \<longleftrightarrow> timers_ok s \<and> (ss_probe s = None \<longrightarrow> ss_pending s = [])"

lemma finishing_fixed: "finishing i s s' \<Longrightarrow> ss_probe s' = ss_probe s"
  by (simp add: finishing_def fixed_fields_def)

lemma timers_inv_of_finish:
  "timers_ok s' \<Longrightarrow> finishing i s s' \<Longrightarrow> ss_probe s \<noteq> None \<Longrightarrow> timers_inv_of (finish_work env w st rs rtt s')"
  using timers_ok_finish [of s' env w st rs rtt] finish_work_fixed [of s' env w st rs rtt] finishing_fixed [of i s s']
  by (auto simp: timers_inv_of_def fixed_fields_def)

sublocale scan_transport < timers: scan_invariant env "\<lambda>_. True" timers_inv_of
proof unfold_locales
  fix s :: "('x, 't) scheduler" and i p probe and r :: port_response and st rs instant
  assume a: "timers_inv_of s" and p: "map_of (ss_pending s) i = Some p" "ss_probe s = Some probe"
  have m: "timers_match (ss_engine s) (ss_pending s) (ss_deferred s)"
    using a by (simp add: timers_inv_of_def timers_ok_def)
  then have i: "wired (ss_engine s)" and t: "timer_for (OnTimeout i) (ss_engine s) (pd_timer p)"
    using p(1) by (simp_all add: timers_match_def)
  have "timers_match (engine_cancel (pd_timer p) (ss_engine s)) (map_erase i (ss_pending s)) (ss_deferred s)"
    by (rule timers_match_erase [OF m wired_cancel [OF i] t timer_for_cancel [OF i]])
  then have k: "timers_match (ss_engine (cancel_probe env i (cancel_timer (pd_timer p) s)))
      (map_erase i (ss_pending s)) (ss_deferred s)"
    using cancel_probe_timers [of "cancel_timer (pd_timer p) s" i] by (simp add: timers_match_kept)
  show "timers_inv_of (completed_work env i p st rs instant s)"
  proof (rule completed_workE [of env i p st rs instant s], goal_cases)
    case (1 s')
    then have "timers_ok s'" using k by (simp add: timers_ok_def finishing_def)
    then show ?case using 1 p(2) by (simp add: timers_inv_of_finish)
  qed
next
  fix s :: "('x, 't) scheduler" and now i p probe e
  assume a: "timers_inv_of s" and f: "dispatch_turn now (ss_engine s) = TurnFires (OnTimeout i) e"
    and p: "map_of (ss_pending s) i = Some p" "ss_probe s = Some probe"
  let ?s = "s\<lparr>ss_engine := e\<rparr>"
  have m: "timers_match (ss_engine s) (ss_pending s) (ss_deferred s)"
    using a by (simp add: timers_inv_of_def timers_ok_def)
  then have i: "wired (ss_engine s)" by (simp add: timers_match_def)
  have "timers_match e (map_erase i (ss_pending s)) (ss_deferred s)"
    by (rule timer_for_fires [OF i f]) (rule timers_match_erase [OF m])
  then have k: "timers_match (ss_engine (cancel_probe env i ?s)) (map_erase i (ss_pending s)) (ss_deferred s)"
    using cancel_probe_timers [of ?s i] by (simp add: timers_match_kept)
  show "timers_inv_of (timeout_work env i p probe ?s)"
  proof (rule timeout_workE [of env i p probe ?s], goal_cases)
    case (1 st rs rtt s')
    then have "timers_ok s'" using k by (simp add: timers_ok_def finishing_def)
    then show ?case using 1 p(2) timers_inv_of_finish [of s' i ?s] by simp
  qed
next
  fix s :: "('x, 't) scheduler" and now i e
  assume a: "timers_inv_of s" and f: "dispatch_turn now (ss_engine s) = TurnFires (OnTimeout i) e"
    and l: "map_of (ss_pending s) i = None \<or> ss_probe s = None"
  have m: "timers_match (ss_engine s) (ss_pending s) (ss_deferred s)" "map_of (ss_pending s) i = None"
    using a l by (auto simp: timers_inv_of_def timers_ok_def)
  then have "\<not> timer_for (OnTimeout i) (ss_engine s) tid" for tid by (simp add: timers_match_def)
  moreover have "\<exists>tid. timer_for (OnTimeout i) (ss_engine s) tid"
    using m(1) by (rule_tac timer_for_fires [OF _ f]) (auto simp: timers_match_def)
  ultimately show "timers_inv_of (s\<lparr>ss_engine := e\<rparr>)" by blast
next
  fix s :: "('x, 't) scheduler" and now i d e
  assume a: "timers_inv_of s" and f: "dispatch_turn now (ss_engine s) = TurnFires (OnRetryReady i) e"
  have m: "timers_match (ss_engine s) (ss_pending s) (ss_deferred s)"
    using a by (simp add: timers_inv_of_def timers_ok_def)
  then have i: "wired (ss_engine s)" by (simp add: timers_match_def)
  have k: "timers_match e (ss_pending s) (map_erase i (ss_deferred s))"
    by (rule timer_for_fires [OF i f]) (rule timers_match_erase_deferred [OF m])
  then show "timers_inv_of (retry_work i d (s\<lparr>ss_engine := e\<rparr>))"
    using a by (simp add: timers_inv_of_def timers_ok_def retry_work_def)
  assume "map_of (ss_deferred s) i = None"
  then show "timers_inv_of (s\<lparr>ss_engine := e\<rparr>)"
    using a k by (simp add: timers_inv_of_def timers_ok_def map_erase_absent)
next
  fix s :: "('x, 't) scheduler" and limit
  assume a: "timers_inv_of s"
  have "ss_probe s = None \<Longrightarrow> turn_state (pump_turn env s) = s"
    by (simp add: pump_turn_def split: list.splits)
  moreover have "ss_probe (turn_state (pump_turn env s)) = ss_probe s"
    by (rule pump_turnE [of env s]) (auto simp: start_failed_def started_def fixed_fields_def)
  ultimately show "timers_inv_of (turn_state (pump_turn env s))"
    using a timers_ok_turn [of s] by (simp add: timers_inv_of_def)
next
  fix s :: "('x, 't) scheduler" and i p probe and r :: port_response and st rs instant
  assume a: "timers_inv_of s" "map_of (ss_pending s) i = Some p" "ss_probe s = Some probe"
  have "pd_timer (note_evidence st rs instant p) = pd_timer p"
    by (simp add: note_evidence_def split: option.splits)
  then have "map_option pd_timer (map_of (map_put i (note_evidence st rs instant p) (ss_pending s)) j) =
      map_option pd_timer (map_of (ss_pending s) j)" for j
    using a(2) by (simp add: map_of_put)
  then show "timers_inv_of (s\<lparr>ss_pending := map_put i (note_evidence st rs instant p) (ss_pending s)\<rparr>)"
    using a by (simp add: timers_inv_of_def timers_ok_def timers_match_def)
qed (auto simp: timers_inv_of_def timers_ok_def timing_submitted_def
    intro: timers_match_kept timers_match_transport event_timers done_timers timers_match_stop)

section \<open>Fuel\<close>

text \<open>No handler but the one of a retry adds to the queue; a pump only takes from it.\<close>

lemma queue_finish [simp]: "ss_queue (finish_work env w st rs rtt s) = ss_queue s"
proof (rule finish_work_cases [of env w st rs rtt s], goal_cases)
  case (1 w' st' rs')
  then show ?case by simp
next
  case (2 w')
  have eq: "finish_work env w st rs rtt s = retry_or_fail env w' rtt s" by (rule 2(1))
  show ?case by (rule defer_retryE [of env w' s]) (auto simp: eq retry_or_fail_def)
qed

lemma queue_completed [simp]: "ss_queue (completed_work env i p st rs instant s) = ss_queue s"
  by (rule completed_workE [of env i p st rs instant s]) (simp add: finishing_def)

lemma queue_stop [simp]: "ss_queue (stop_if_idle s) = ss_queue s"
  by (simp add: stop_if_idle_def)

lemma queue_submitted [simp]: "ss_queue (timing_submitted s) = ss_queue s"
  by (simp add: timing_submitted_def)

lemma queue_turn:
  "ss_queue s \<noteq> [] \<Longrightarrow> ss_probe s \<noteq> None \<Longrightarrow> length (ss_queue s) = Suc (length (ss_queue (turn_state (pump_turn env s))))"
  by (rule pump_turnE [of env s]) (auto simp: start_failed_def started_def)

lemma queue_turn_le: "length (ss_queue (turn_state (pump_turn env s))) \<le> length (ss_queue s)"
  by (rule pump_turnE [of env s]) (auto simp: start_failed_def started_def)

lemma receive_total:
  assumes "\<And>t. length (ss_queue t) = length (ss_queue s) \<Longrightarrow>
    \<exists>t'. k t = Some t' \<and> length (ss_queue t') \<le> length (ss_queue t)"
  shows "\<exists>s'. receive k env r s = Some s' \<and> length (ss_queue s') \<le> length (ss_queue s)"
proof -
  obtain instant s1 where c: "completed_time env r s = (instant, s1)" by fastforce
  have q: "ss_queue s1 = ss_queue s"
    using c by (auto simp: completed_time_def read_now_def split: if_splits)
  have k: "\<exists>t'. k (completed_work env i p st rs instant s1) = Some t' \<and> length (ss_queue t') \<le> length (ss_queue s)"
    for i p st rs
    using assms [of "completed_work env i p st rs instant s1"] q by simp
  show ?thesis
    using k q by (auto simp: receive_def complete_pending_alt c split: option.splits sum.splits)
qed

text \<open>
  The length of the queue bounds both the turns of the loop and the depth of nested pumps, so
  with that much fuel the pump returns.
\<close>

lemma pump_loop_total:
  assumes "length (ss_queue s) \<le> depth" and "length (ss_queue s) \<le> turns"
  shows "\<exists>s'. pump_loop env limit depth turns s = Some s' \<and> length (ss_queue s') \<le> length (ss_queue s)"
  using assms
proof (induction turns arbitrary: limit depth s)
  case 0
  then show ?case by (simp add: pump_loop.simps [of env limit depth 0])
next
  case (Suc turns)
  note step = pump_loop.simps [of env limit depth "Suc turns" s]
  show ?case
  proof (cases "ss_status s = Ok \<and> ss_queue s \<noteq> [] \<and> length (ss_pending s) < limit")
    case False
    then show ?thesis by (auto simp: step)
  next
    case True
    have le: "length (ss_queue (turn_state (pump_turn env s))) \<le> length (ss_queue s)" by (rule queue_turn_le)
    have less: "length (ss_queue s1) \<le> turns \<and> length (ss_queue s1) < length (ss_queue s)"
      if "pump_turn env s = PumpContinues s1 \<or> pump_turn env s = PumpSubmitted answer s1" for s1 answer
    proof -
      have "ss_probe s \<noteq> None" using that by (cases "ss_probe s") (auto simp: pump_turn_def split: list.splits)
      then show ?thesis using queue_turn [of s env] True that Suc.prems(2) by auto
    qed
    show ?thesis
    proof (cases "pump_turn env s")
      case (PumpBreaks s1)
      then show ?thesis using True le by (simp add: step)
    next
      case (PumpContinues s1)
      then obtain s' where "pump_loop env limit depth turns s1 = Some s'" "length (ss_queue s') \<le> length (ss_queue s1)"
        using Suc.IH [of s1 depth limit] less [of s1] Suc.prems(1) by auto
      then show ?thesis using True PumpContinues less [of s1] by (auto simp: step)
    next
      case (PumpSubmitted answer s1)
      then have l: "length (ss_queue s1) \<le> turns" "length (ss_queue s1) < length (ss_queue s)" using less by blast+
      show ?thesis
      proof (cases answer)
        case None
        obtain s' where "pump_loop env limit depth turns (timing_submitted s1) = Some s'"
            "length (ss_queue s') \<le> length (ss_queue s1)"
          using Suc.IH [of "timing_submitted s1" depth limit] l Suc.prems(1) by auto
        then show ?thesis using True PumpSubmitted None l by (simp add: step)
      next
        case (Some r)
        obtain depth' where d: "depth = Suc depth'" using l(2) Suc.prems(1) by (cases depth) auto
        have "\<exists>t'. pump_loop env (pump_limit t) depth' turns t = Some t' \<and> length (ss_queue t') \<le> length (ss_queue t)"
          if "length (ss_queue t) = length (ss_queue s1)" for t
          using Suc.IH [of t depth' "pump_limit t"] that l Suc.prems(1) d by auto
        then obtain s2 where r: "receive (\<lambda>t. pump_loop env (pump_limit t) depth' turns t) env r s1 = Some s2"
            "length (ss_queue s2) \<le> length (ss_queue s1)"
          using receive_total [of s1 "\<lambda>t. pump_loop env (pump_limit t) depth' turns t" env r] by blast
        obtain s' where "pump_loop env limit depth turns (timing_submitted s2) = Some s'"
            "length (ss_queue s') \<le> length (ss_queue s2)"
          using Suc.IH [of "timing_submitted s2" depth limit] l r(2) Suc.prems(1) by auto
        then show ?thesis unfolding step using True PumpSubmitted Some l r by (simp add: d)
      qed
    qed
  qed
qed

lemma pump_total: "\<exists>s'. pump env s = Some s' \<and> length (ss_queue s') \<le> length (ss_queue s)"
  unfolding pump_def pump_within_def by (rule pump_loop_total) simp_all

lemma handlers_total:
  "receive (pump env) env r s \<noteq> None" "on_timeout (pump env) env i s \<noteq> None" "on_retry_ready (pump env) i s \<noteq> None"
proof -
  have "\<exists>s'. receive (pump env) env r s = Some s' \<and> length (ss_queue s') \<le> length (ss_queue s)"
    by (rule receive_total) (rule pump_total)
  then show "receive (pump env) env r s \<noteq> None" by auto
  have "pump env t \<noteq> None" for t using pump_total [of env t] by auto
  then show "on_timeout (pump env) env i s \<noteq> None" "on_retry_ready (pump env) i s \<noteq> None"
    by (auto simp: on_timeout_alt on_retry_ready_alt split: option.splits)
qed

section \<open>Progress\<close>

text \<open>
  When a pump returns and nothing has failed, the queue is empty or probes are in flight; and a
  pump that leaves nothing to do has asked the engine to stop.
\<close>

lemma stop_if_idle_fields [simp]:
  "ss_status (stop_if_idle s) = ss_status s" "ss_pending (stop_if_idle s) = ss_pending s"
  "ss_deferred (stop_if_idle s) = ss_deferred s" "ss_probe (stop_if_idle s) = ss_probe s"
  "complete (stop_if_idle s) = complete s"
  by (simp_all add: stop_if_idle_def complete_def)

lemma stop_if_idle_stops: "complete s \<Longrightarrow> eng_stopped (ss_engine (stop_if_idle s))"
  by (simp add: stop_if_idle_def complete_def engine_stop_def)

lemma probe_turn [simp]: "ss_probe (turn_state (pump_turn env s)) = ss_probe s"
  by (rule pump_turnE [of env s]) (auto simp: start_failed_def started_def fixed_fields_def)

lemma probe_completed [simp]: "ss_probe (completed_work env i p st rs instant s) = ss_probe s"
  by (rule completed_workE [of env i p st rs instant s]) (simp add: fixed_fields_def finishing_def)

definition moving :: "('x, 't) scheduler \<Rightarrow> bool" where
  "moving s \<longleftrightarrow> (ss_status s = Ok \<longrightarrow> ss_queue s = [] \<or> ss_pending s \<noteq> []) \<and>
     (complete s \<longrightarrow> eng_stopped (ss_engine s))"

lemma pump_loop_moving:
  assumes "pump_loop env limit depth turns s = Some s'" and "1 \<le> limit" and "ss_probe s \<noteq> None"
  shows "moving s'"
  using assms
proof (induction turns arbitrary: depth s)
  case 0
  then show ?case
    by (auto simp: pump_loop.simps [of env limit depth 0] moving_def stop_if_idle_stops split: if_splits)
next
  case (Suc turns)
  note step = pump_loop.simps [of env limit depth "Suc turns" s]
  show ?case
  proof (cases "ss_status s = Ok \<and> ss_queue s \<noteq> [] \<and> length (ss_pending s) < limit")
    case False
    then show ?thesis using Suc.prems by (auto simp: step moving_def stop_if_idle_stops)
  next
    case True
    have pr: "ss_probe (turn_state (pump_turn env s)) \<noteq> None" using Suc.prems(3) by simp
    show ?thesis
    proof (cases "pump_turn env s")
      case (PumpBreaks s1)
      then have "ss_status s1 \<noteq> Ok"
        using True Suc.prems(3) by (rule_tac pump_turnE [of env s]) auto
      then show ?thesis using True PumpBreaks Suc.prems(1) by (auto simp: step moving_def stop_if_idle_stops)
    next
      case (PumpContinues s1)
      then show ?thesis using True Suc.prems Suc.IH [of depth s1] pr by (simp add: step)
    next
      case (PumpSubmitted answer s1)
      then have p1: "ss_probe s1 \<noteq> None" using pr by simp
      show ?thesis
      proof (cases answer)
        case None
        then show ?thesis using True Suc.prems PumpSubmitted p1 Suc.IH [of depth "timing_submitted s1"]
          by (simp add: step timing_submitted_def)
      next
        case (Some r)
        with True Suc.prems(1) PumpSubmitted obtain depth' s2 where
          r: "receive (\<lambda>t. pump_loop env (pump_limit t) depth' turns t) env r s1 = Some s2"
          "pump_loop env limit depth turns (timing_submitted s2) = Some s'"
          by (auto simp: step split: nat.splits option.splits)
        have "fixed_fields s1 s2"
        proof (rule fixed.receive_inv [OF _ r(1)])
          show "fixed_fields s1 s1" by (simp add: fixed_fields_def)
          show "fixed_fields s1 t'" if "fixed_fields s1 t" "pump_loop env (pump_limit t) depth' turns t = Some t'" for t t'
            using fixed.pump_loop_inv [OF that(2,1)] by simp
        qed
        then have "ss_probe s2 \<noteq> None" using p1 by (simp add: fixed_fields_def)
        then show ?thesis using Suc.IH [of depth "timing_submitted s2"] Suc.prems(2) r(2)
          by (simp add: timing_submitted_def)
      qed
    qed
  qed
qed

lemma schedule_refused: "engine_schedule now d cb e = (0, e') \<Longrightarrow> e' = e"
  by (auto simp: engine_schedule_def Let_def split: if_splits)

lemma schedule_stopped: "engine_schedule now delay cb e = (tid, e') \<Longrightarrow> eng_stopped e' = eng_stopped e"
  by (auto simp: engine_schedule_def Let_def split: if_splits)

lemma cancel_stopped [simp]: "eng_stopped (engine_cancel tid e) = eng_stopped e"
  by (simp add: engine_cancel_def)

lemma fires_stopped: "dispatch_turn now e = TurnFires cb e' \<Longrightarrow> \<not> eng_stopped e'"
  by (auto simp: dispatch_turn_def Let_def split: if_splits list.splits option.splits)

end
