(* ===== verification/Port_Scheduler_Runs.thy ===== *)
theory Port_Scheduler_Runs
  imports Port_Scheduler_Timers
begin

text \<open>
  Runs of the port scheduler: the potential that every timer consumes, the start of a scan by
  \<open>submit\<close>, the engine's loop as a sequence of scheduler steps, and the properties of a scan.
\<close>

section \<open>The potential of a scan\<close>

text \<open>
  An upper bound on the timers still to fire: an attempt may still wait in the queue, be in
  flight, and wait for its retry, once for every retry that is left.
\<close>

definition retries_left :: "nat \<Rightarrow> work_item \<Rightarrow> nat" where
  "retries_left retries w = 3 * (retries - wk_retry_count w)"

definition potential :: "nat \<Rightarrow> ('x, 't) scheduler \<Rightarrow> nat" where
  "potential retries s =
     (\<Sum>w\<in>#mset (ss_queue s). retries_left retries w + 2) +
     (\<Sum>e\<in>#mset (ss_pending s). retries_left retries (pd_work (snd e)) + 1) +
     (\<Sum>e\<in>#mset (ss_deferred s). retries_left retries (df_work (snd e)) + 3)"

definition bounded ::
  "('x, 't) scan_env \<Rightarrow> scan_probe \<Rightarrow> nat \<Rightarrow> nat \<Rightarrow> (string \<times> port) multiset \<Rightarrow> nat \<Rightarrow> ('x, 't) scheduler \<Rightarrow> bool" where
  "bounded env m cap retries l n s \<longleftrightarrow> scan_ok env m cap retries s \<and> ledger_is l s \<and> potential retries s \<le> n"

lemma potential_append [simp]:
  "potential retries (append_terminal_result env w m st rs rtt s) = potential retries s"
  by (simp add: potential_def)

lemma potential_finish:
  assumes "max_retries s = retries"
  shows "potential retries (finish_work env w st rs rtt s) \<le> potential retries s + retries_left retries w"
proof (rule finish_work_cases [of env w st rs rtt s], goal_cases)
  case (1 w' st' rs')
  then show ?case by simp
next
  case (2 w')
  have eq: "finish_work env w st rs rtt s = retry_or_fail env w' rtt s" by (rule 2(1))
  have l: "retries_left retries (w'\<lparr>wk_retry_count := Suc (wk_retry_count w')\<rparr>) + 3 \<le> retries_left retries w"
    using 2(4,5) assms by (simp add: retries_left_def)
  show ?case
  proof (rule defer_retryE [of env w' s], goal_cases)
    case (1 n r s1)
    then have "potential retries s1 = potential retries s" by (auto simp: potential_def)
    then show ?case using 1 by (simp add: eq retry_or_fail_def)
  next
    case (2 n r tid e now)
    then show ?case using l by (simp add: eq retry_or_fail_def potential_def)
  qed
qed

lemma potential_finishing:
  assumes "scan_ok env m cap retries s" and "map_ok (ss_pending s)" and "finishing i s s'"
    and "map_of (ss_pending s) i = Some p"
  shows "potential retries (finish_work env (pd_work p) st rs rtt s') < potential retries s"
proof -
  have "max_retries s' = retries"
    using scan_ok_parts(7) [OF scan_ok_finishes [OF assms(1,3)]] .
  then have "potential retries (finish_work env (pd_work p) st rs rtt s') \<le>
      potential retries s' + retries_left retries (pd_work p)"
    by (rule potential_finish)
  moreover have "potential retries s = potential retries s' + retries_left retries (pd_work p) + 1"
    using assms(3) mset_map_erase [OF assms(2,4)] by (simp add: potential_def finishing_def)
  ultimately show ?thesis by simp
qed

lemma potential_turn: "potential retries (turn_state (pump_turn env s)) \<le> potential retries s"
  by (rule pump_turnE [of env s]) (auto simp: start_failed_def started_def potential_def)

lemma potential_retry:
  assumes "map_ok (ss_deferred s)" and "map_of (ss_deferred s) i = Some d"
  shows "potential retries (retry_work i d s) < potential retries s"
  using mset_map_erase [OF assms] by (simp add: potential_def retry_work_def)

lemma potential_evidence:
  assumes "map_ok (ss_pending s)" and "map_of (ss_pending s) i = Some p"
  shows "potential retries (s\<lparr>ss_pending := map_put i (note_evidence st rs instant p) (ss_pending s)\<rparr>) =
    potential retries s"
  using mset_map_erase [OF assms] mset_map_put [OF assms] by (simp add: potential_def)

lemma bounded_completed:
  assumes "bounded env m cap retries l (Suc n) s" and "map_of (ss_pending s) i = Some p"
    and "ss_probe s = Some probe" and "pp_assess probe r (pd_submission p) = Inr (st, rs)"
  shows "bounded env m cap retries l n (completed_work env i p st rs instant s)"
  unfolding bounded_def
proof (intro conjI)
  have b: "scan_ok env m cap retries s" "ledger_is l s" "potential retries s \<le> Suc n"
    using assms(1) by (simp_all add: bounded_def)
  show "scan_ok env m cap retries (completed_work env i p st rs instant s)"
    by (rule shape.inv_completed [OF b(1) assms(2-4)])
  show "ledger_is l (completed_work env i p st rs instant s)"
    by (rule books.inv_completed [OF b(2) assms(2-4)])
  have ok: "map_ok (ss_pending s)" using b(2) by (simp add: ledger_is_def)
  show "potential retries (completed_work env i p st rs instant s) \<le> n"
  proof (rule completed_workE [of env i p st rs instant s], goal_cases)
    case (1 s')
    show ?case unfolding 1(1) using potential_finishing [OF b(1) ok 1(2) assms(2)] b(3)
      by (meson less_Suc_eq_le order_less_le_trans)
  qed
qed

lemma bounded_timeout:
  assumes "bounded env m cap retries l (Suc n) s" and "dispatch_turn now (ss_engine s) = TurnFires (OnTimeout i) e"
    and "map_of (ss_pending s) i = Some p" and "ss_probe s = Some probe"
  shows "bounded env m cap retries l n (timeout_work env i p probe (s\<lparr>ss_engine := e\<rparr>))"
  unfolding bounded_def
proof (intro conjI)
  have b: "scan_ok env m cap retries s" "ledger_is l s" "potential retries s \<le> Suc n"
    using assms(1) by (simp_all add: bounded_def)
  show "scan_ok env m cap retries (timeout_work env i p probe (s\<lparr>ss_engine := e\<rparr>))"
    by (rule shape.inv_timeout [OF b(1) assms(2-4)])
  show "ledger_is l (timeout_work env i p probe (s\<lparr>ss_engine := e\<rparr>))"
    by (rule books.inv_timeout [OF b(2) assms(2-4)])
  have ok: "map_ok (ss_pending (s\<lparr>ss_engine := e\<rparr>))" using b(2) by (simp add: ledger_is_def)
  have b': "scan_ok env m cap retries (s\<lparr>ss_engine := e\<rparr>)" using b(1) by simp
  have p: "map_of (ss_pending (s\<lparr>ss_engine := e\<rparr>)) i = Some p" using assms(3) by simp
  have eq: "potential retries (s\<lparr>ss_engine := e\<rparr>) = potential retries s" by (simp add: potential_def)
  show "potential retries (timeout_work env i p probe (s\<lparr>ss_engine := e\<rparr>)) \<le> n"
  proof (rule timeout_workE [of env i p probe "s\<lparr>ss_engine := e\<rparr>"], goal_cases)
    case (1 st rs rtt s')
    show ?case unfolding 1(1) using potential_finishing [OF b' ok 1(2) p] b(3) unfolding eq
      by (meson less_Suc_eq_le order_less_le_trans)
  qed
qed

interpretation potential: scan_invariant env "\<lambda>limit. limit \<le> cap" "bounded env m cap retries l n"
  for env :: "('x, 't) scan_env" and m cap retries l n
proof unfold_locales
  fix s :: "('x, 't) scheduler" and now i p probe e and r :: port_response and st rs instant
  assume b: "bounded env m cap retries l n s" and p: "map_of (ss_pending s) i = Some p" "ss_probe s = Some probe"
  then have b': "bounded env m cap retries l (Suc n) s" by (simp add: bounded_def)
  have mono: "bounded env m cap retries l n' t \<Longrightarrow> n' \<le> n \<Longrightarrow> bounded env m cap retries l n t" for n' t
    by (simp add: bounded_def)
  {
    assume "pp_assess probe r (pd_submission p) = Inr (st, rs)"
    then show "bounded env m cap retries l n (completed_work env i p st rs instant s)"
      by (rule bounded_completed [OF b' p])
  }
  assume "dispatch_turn now (ss_engine s) = TurnFires (OnTimeout i) e"
  then show "bounded env m cap retries l n (timeout_work env i p probe (s\<lparr>ss_engine := e\<rparr>))"
    by (rule bounded_timeout [OF b' _ p])
next
  fix s :: "('x, 't) scheduler" and now i d e
  assume b: "bounded env m cap retries l n s" and f: "dispatch_turn now (ss_engine s) = TurnFires (OnRetryReady i) e"
    and d: "map_of (ss_deferred s) i = Some d"
  have "potential retries (s\<lparr>ss_engine := e\<rparr>) = potential retries s" by (simp add: potential_def)
  then show "bounded env m cap retries l n (retry_work i d (s\<lparr>ss_engine := e\<rparr>))"
    using b d potential_retry [of "s\<lparr>ss_engine := e\<rparr>" i d retries]
      shape.inv_retry [OF _ f d] books.inv_retry [OF _ f d]
    by (simp add: bounded_def ledger_is_def)
next
  fix s :: "('x, 't) scheduler" and limit
  assume "bounded env m cap retries l n s" "ss_status s = Ok" "length (ss_pending s) < limit" "limit \<le> cap"
  then show "bounded env m cap retries l n (turn_state (pump_turn env s))"
    using scan_ok_turn [of env m cap retries s limit] ledger_is_turn [of l s env] potential_turn [of retries env s]
    by (simp add: bounded_def)
next
  fix s :: "('x, 't) scheduler" and i p probe and r :: port_response and st rs instant
  assume "bounded env m cap retries l n s" "map_of (ss_pending s) i = Some p" "ss_probe s = Some probe"
    "pp_assess probe r (pd_submission p) = Inr (st, rs)"
  then show "bounded env m cap retries l n
      (s\<lparr>ss_pending := map_put i (note_evidence st rs instant p) (ss_pending s)\<rparr>)"
    using ledger_is_evidence [of l s i p st rs instant]
    by (simp add: bounded_def scan_ok_evidence potential_evidence ledger_is_def)
next
  fix s :: "('x, 't) scheduler"
  assume b: "bounded env m cap retries l n s"
  then show "pump_limit s \<le> cap" using shape.inv_limit by (auto simp: bounded_def)
  show "bounded env m cap retries l n (timing_submitted s)"
    using b shape.inv_timing [of env m cap retries s] books.inv_timing [of l s]
    by (simp add: bounded_def potential_def timing_submitted_def)
qed (auto simp: bounded_def potential_def ledger_is_def ledger_def)

section \<open>Every timer that fires uses up potential\<close>

lemma timer_fires_for:
  assumes "timers_inv_of s" and "dispatch_turn now (ss_engine s) = TurnFires cb e"
  shows "cb = OnTimeout i \<Longrightarrow> \<exists>p probe. map_of (ss_pending s) i = Some p \<and> ss_probe s = Some probe"
    and "cb = OnRetryReady i \<Longrightarrow> \<exists>d. map_of (ss_deferred s) i = Some d"
proof -
  have m: "timers_match (ss_engine s) (ss_pending s) (ss_deferred s)"
    using assms(1) by (simp add: timers_inv_of_def timers_ok_def)
  then have i: "wired (ss_engine s)" by (simp add: timers_match_def)
  obtain tid where t: "timer_for cb (ss_engine s) tid" by (rule timer_for_fires [OF i assms(2)])
  {
    assume "cb = OnTimeout i"
    with t m obtain p where "map_of (ss_pending s) i = Some p" by (auto simp: timers_match_def)
    moreover from this have "ss_probe s \<noteq> None" using assms(1) by (auto simp: timers_inv_of_def)
    ultimately show "\<exists>p probe. map_of (ss_pending s) i = Some p \<and> ss_probe s = Some probe" by blast
  }
  assume "cb = OnRetryReady i"
  with t m show "\<exists>d. map_of (ss_deferred s) i = Some d" by (auto simp: timers_match_def)
qed

lemma potential_positive:
  "map_of (ss_pending s) i = Some p \<Longrightarrow> 0 < potential retries s"
  "map_of (ss_deferred s) j = Some d \<Longrightarrow> 0 < potential retries s"
proof -
  show "0 < potential retries s" if "map_of (ss_pending s) i = Some p"
    using multi_member_split [of "(i, p)" "mset (ss_pending s)"] map_of_SomeD [OF that]
    by (auto simp: potential_def)
  show "0 < potential retries s" if "map_of (ss_deferred s) j = Some d"
    using multi_member_split [of "(j, d)" "mset (ss_deferred s)"] map_of_SomeD [OF that]
    by (auto simp: potential_def)
qed

lemma bounded_step:
  assumes "scan_step env fired s s'" and "bounded env m cap retries l n s" and "timers_inv_of s"
  shows "bounded env m cap retries l (n - (if fired then 1 else 0)) s' \<and> (fired \<longrightarrow> 0 < n)"
  using assms
proof (cases rule: scan_step.cases)
  case (timeout now i e)
  then obtain p probe where p: "map_of (ss_pending s) i = Some p" "ss_probe s = Some probe"
    using timer_fires_for(1) [OF assms(3) timeout(2) refl] by blast
  have n: "0 < n" using potential_positive(1) [OF p(1), of retries] assms(2) by (auto simp: bounded_def)
  then obtain n' where n': "n = Suc n'" by (cases n) auto
  have "bounded env m cap retries l n' (timeout_work env i p probe (s\<lparr>ss_engine := e\<rparr>))"
    using assms(2) unfolding n' by (rule bounded_timeout [OF _ timeout(2) p])
  moreover have "pump env (timeout_work env i p probe (s\<lparr>ss_engine := e\<rparr>)) = Some s'"
    using timeout(3) p by (simp add: on_timeout_alt)
  ultimately show ?thesis using potential.pump_inv n' timeout(1) by auto
next
  case (retry now i e)
  then obtain d where d: "map_of (ss_deferred s) i = Some d"
    using timer_fires_for(2) [OF assms(3) retry(2) refl] by blast
  have n: "0 < n" using potential_positive(2) [OF d, of retries] assms(2) by (auto simp: bounded_def)
  then obtain n' where n': "n = Suc n'" by (cases n) auto
  have b: "scan_ok env m cap retries s" "ledger_is l s" "potential retries s \<le> Suc n'"
    using assms(2) n' by (simp_all add: bounded_def)
  have "potential retries (s\<lparr>ss_engine := e\<rparr>) = potential retries s" by (simp add: potential_def)
  then have "bounded env m cap retries l n' (retry_work i d (s\<lparr>ss_engine := e\<rparr>))"
    using b d potential_retry [of "s\<lparr>ss_engine := e\<rparr>" i d retries]
      shape.inv_retry [OF b(1) retry(2) d] books.inv_retry [OF b(2) retry(2) d]
    by (simp add: bounded_def ledger_is_def)
  moreover have "pump env (retry_work i d (s\<lparr>ss_engine := e\<rparr>)) = Some s'"
    using retry(3) d by (simp add: on_retry_ready_alt)
  ultimately show ?thesis using potential.pump_inv n' retry(1) by auto
qed (use potential.step_inv [OF assms(1,2)] in simp_all)

context scan_transport begin

lemma run_bounded:
  assumes "scan_run env k s s'" and "bounded env m cap retries l n s" and "timers_inv_of s"
  shows "k \<le> n \<and> bounded env m cap retries l (n - k) s'"
  using assms
proof (induction rule: scan_run.induct)
  case (step k s s' fired s'')
  then have b: "k \<le> n" "bounded env m cap retries l (n - k) s'" by auto
  have "timers_inv_of s'" by (rule timers.run_inv [OF step.hyps(1) step.prems(2)])
  from bounded_step [OF step.hyps(2) b(2) this] b(1) show ?case by (cases fired) auto
qed simp

end

section \<open>A scan keeps moving\<close>

definition going :: "('x, 't) scheduler \<Rightarrow> bool" where
  "going s \<longleftrightarrow> ss_probe s \<noteq> None \<and> (ss_status s = Ok \<longrightarrow> ss_queue s = [] \<or> ss_pending s \<noteq> [])"

lemma pump_going:
  assumes "pump env s = Some s'" and "scan_ok env m cap retries s" and "ss_probe s \<noteq> None"
  shows "going s'"
proof -
  have "moving s'"
    using pump_loop_moving [OF assms(1) [unfolded pump_def pump_within_def]] scan_ok_limit [OF assms(2)] assms(3)
    by blast
  moreover have "fixed_fields s s'" by (rule fixed.pump_inv [OF assms(1)]) (simp add: fixed_fields_def)
  ultimately show ?thesis using assms(3) by (simp add: going_def moving_def fixed_fields_def)
qed

lemma map_put_not_Nil [simp]: "map_put k v m \<noteq> []"
  by (induction k v m rule: map_put.induct) auto

lemma probe_retry [simp]: "ss_probe (retry_work i d s) = ss_probe s"
  by (simp add: retry_work_def)

lemma probe_timeout_work [simp]: "ss_probe (timeout_work env i p probe s) = ss_probe s"
  by (rule timeout_workE [of env i p probe s]) (simp add: fixed_fields_def finishing_def)

lemma receive_going:
  assumes "receive (pump env) env r s = Some s'" and "scan_ok env m cap retries s" and "going s"
  shows "going s'"
proof (cases "\<exists>p probe st rs. map_of (ss_pending s) (rsp_id r) = Some p \<and> ss_probe s = Some probe \<and>
    pp_assess probe r (pd_submission p) = Inr (st, rs)")
  case False
  then have "s' = s" using assms(1) by (auto simp: receive_def split: option.splits sum.splits)
  then show ?thesis using assms(3) by simp
next
  case True
  then obtain p probe st rs where p: "map_of (ss_pending s) (rsp_id r) = Some p" "ss_probe s = Some probe"
    "pp_assess probe r (pd_submission p) = Inr (st, rs)" by blast
  obtain instant s1 where c: "completed_time env r s = (instant, s1)" by fastforce
  then obtain n where s1: "s1 = s\<lparr>ss_reads := n\<rparr>"
    by (metis (no_types, lifting) completed_time_def prod.inject read_now_def scheduler.surjective
        scheduler.update_convs(3))
  have ok: "scan_ok env m cap retries (completed_work env (rsp_id r) p st rs instant s1)"
    using shape.inv_completed [of env m cap retries s1 "rsp_id r" p probe r st rs instant] assms(2) p
    by (simp add: s1)
  have "s' = s1 \<or> pump env (completed_work env (rsp_id r) p st rs instant s1) = Some s' \<or>
      s' = s1\<lparr>ss_pending := map_put (rsp_id r) (note_evidence st rs instant p) (ss_pending s1)\<rparr>"
    using assms(1) p c by (auto simp: receive_def complete_pending_alt s1 split: if_splits)
  then show ?thesis
  proof (elim disjE)
    assume "pump env (completed_work env (rsp_id r) p st rs instant s1) = Some s'"
    from pump_going [OF this ok] show ?thesis using p(2) by (simp add: s1)
  qed (use assms(3) in \<open>auto simp: going_def s1\<close>)
qed

lemma step_going:
  assumes "scan_step env fired s s'" and "scan_ok env m cap retries s" and "timers_inv_of s" and "going s"
  shows "going s'"
  using assms(1)
proof (cases rule: scan_step.cases)
  case (response r)
  then show ?thesis using receive_going assms(2,4) by blast
next
  case (timeout now i e)
  then obtain p probe where p: "map_of (ss_pending s) i = Some p" "ss_probe s = Some probe"
    using timer_fires_for(1) [OF assms(3) timeout(2) refl] by blast
  have "pump env (timeout_work env i p probe (s\<lparr>ss_engine := e\<rparr>)) = Some s'"
    using timeout(3) p by (simp add: on_timeout_alt)
  from pump_going [OF this shape.inv_timeout [OF assms(2) timeout(2) p]] show ?thesis using p(2) by simp
next
  case (retry now i e)
  then obtain d where d: "map_of (ss_deferred s) i = Some d"
    using timer_fires_for(2) [OF assms(3) retry(2) refl] by blast
  have k: "pump env (retry_work i d (s\<lparr>ss_engine := e\<rparr>)) = Some s'"
    using retry(3) d by (simp add: on_retry_ready_alt)
  show ?thesis
    using pump_going [OF k shape.inv_retry [OF assms(2) retry(2) d]] assms(4) by (simp add: going_def)
qed (use assms(4) in \<open>simp_all add: going_def\<close>)

lemma step_submitted: "scan_step env fired s s' \<Longrightarrow> ss_submitted s' = ss_submitted s"
  using fixed.step_inv [of env fired s s' s] by (simp add: fixed_fields_def)

text \<open>While there is work and no failure, a timer of the scan is live: something is going to happen.\<close>

lemma going_has_timer:
  assumes "going s" and "timers_inv_of s" and "ss_status s = Ok" and "ss_submitted s" and "\<not> complete s"
  shows "\<exists>tid i. timer_for (OnTimeout i) (ss_engine s) tid \<or> timer_for (OnRetryReady i) (ss_engine s) tid"
proof -
  have m: "timers_match (ss_engine s) (ss_pending s) (ss_deferred s)"
    using assms(2) by (simp add: timers_inv_of_def timers_ok_def)
  have "ss_pending s \<noteq> [] \<or> ss_deferred s \<noteq> []" using assms(1,3,4,5) by (auto simp: going_def complete_def)
  then obtain i p j d where "map_of (ss_pending s) i = Some p \<or> map_of (ss_deferred s) j = Some d"
    by (metis list.set_intros(1) map_of_eq_None_iff not_None_eq image_eqI neq_Nil_conv)
  then show ?thesis using m by (fastforce simp: timers_match_def)
qed

section \<open>The start of a scan\<close>

definition requested :: "target \<Rightarrow> port list \<Rightarrow> (string \<times> port) multiset" where
  "requested target ports =
     (\<Sum>h\<in>#mset (resolved_hosts target). image_mset (Pair (h_address h)) (mset ports))"

definition scan_works :: "target \<Rightarrow> port list \<Rightarrow> work_item list" where
  "scan_works target ports = concat (map (\<lambda>h. map (new_work h) ports) (resolved_hosts target))"

lemma enqueue_valid_hosts:
  "\<forall>h\<in>set hosts. valid_host_address (env_libc env) h \<Longrightarrow>
     fold (enqueue_host env ports) hosts s =
       s\<lparr>ss_queue := ss_queue s @ concat (map (\<lambda>h. map (new_work h) ports) hosts)\<rparr>"
  by (induction hosts arbitrary: s) (simp_all add: enqueue_host.simps)

lemma works_requested:
  "image_mset work_key (mset (concat (map (\<lambda>h. map (new_work h) ports) hosts))) =
     (\<Sum>h\<in>#mset hosts. image_mset (Pair (h_address h)) (mset ports))"
  by (induction hosts) (simp_all add: work_key_def new_work_def image_mset.compositionality comp_def)

lemma works_weight:
  "(\<Sum>w\<in>#mset (concat (map (\<lambda>h. map (new_work h) ports) hosts)). retries_left retries w + 2) =
     length hosts * length ports * (3 * retries + 2)"
proof -
  have "(\<Sum>w\<in>#mset (map (new_work h) ports). retries_left retries w + 2) = length ports * (3 * retries + 2)" for h
    by (induction ports) (simp_all add: retries_left_def new_work_def)
  then show ?thesis by (induction hosts) (simp_all add: add_mult_distrib)
qed

text \<open>
  A scan that was accepted: a fresh scheduler on an engine without timers of its own, hosts with
  addresses, and a \<open>submit\<close> that got past its checks.
\<close>

definition scan_started ::
  "('x, 't) scan_env \<Rightarrow> 'x sched_callback engine \<Rightarrow> 't \<Rightarrow> port_scan_config \<Rightarrow> target \<Rightarrow> port list \<Rightarrow>
     ('x, 't) scheduler \<Rightarrow> bool" where
  "scan_started env e t cfg target ports s \<longleftrightarrow>
     timers_match e [] [] \<and> (\<forall>h\<in>set (resolved_hosts target). valid_host_address (env_libc env) h) \<and>
     map_option snd (submit env target ports (new_scheduler env e t cfg)) = Some s \<and> ss_submitted s"

definition scan_retries :: "port_scan_config \<Rightarrow> nat" where
  "scan_retries cfg = (if cfg_adaptive_timing cfg then tp_max_retries (cfg_timing_profile cfg) else cfg_retries cfg)"

lemma scan_startedE:
  assumes "scan_started env e t cfg target ports s"
  obtains s1 s2 where "s1 = (new_scheduler env e t cfg)\<lparr>ss_submitted := True, ss_queue := scan_works target ports\<rparr>"
    and "pump env s1 = Some s2" and "s = stop_if_idle s2"
    and "validate_config env (new_scheduler env e t cfg) = Ok"
    and "\<forall>p\<in>set ports. port_protocol p = Tcp \<and> port_number p \<noteq> 0"
proof -
  let ?n = "new_scheduler env e t cfg"
  let ?s1 = "?n\<lparr>ss_submitted := True, ss_queue := scan_works target ports\<rparr>"
  have v: "\<forall>h\<in>set (resolved_hosts target). valid_host_address (env_libc env) h" and sub: "ss_submitted s"
    and eq: "map_option snd (submit env target ports ?n) = Some s"
    using assms by (simp_all add: scan_started_def)
  have n: "\<not> ss_submitted ?n" "ss_status ?n = Ok" "ss_queue ?n = []" by (simp_all add: new_scheduler_def)
  have c: "validate_config env ?n = Ok" "\<not> (ports = [] \<or> resolved_hosts target = [] \<or>
      (\<exists>p\<in>set ports. port_protocol p \<noteq> Tcp \<or> port_number p = 0))"
    using eq sub n by (auto simp: submit_def Let_def split: if_splits)
  have "fold (enqueue_host env ports) (resolved_hosts target) (?n\<lparr>ss_submitted := True\<rparr>) = ?s1"
    unfolding enqueue_valid_hosts [OF v] by (simp add: scan_works_def n)
  then have "submit env target ports ?n =
      (case pump env ?s1 of None \<Rightarrow> None | Some s2 \<Rightarrow> Some (ss_status (stop_if_idle s2), stop_if_idle s2))"
    using n c by (simp add: submit_def Let_def split: option.splits)
  with eq obtain s2 where "pump env ?s1 = Some s2" "s = stop_if_idle s2" by (auto split: option.splits)
  with c that show thesis by auto
qed

lemma started_state:
  assumes "scan_started env e t cfg target ports s"
    and "s1 = (new_scheduler env e t cfg)\<lparr>ss_submitted := True, ss_queue := scan_works target ports\<rparr>"
    and "validate_config env (new_scheduler env e t cfg) = Ok"
    and "\<forall>p\<in>set ports. port_protocol p = Tcp \<and> port_number p \<noteq> 0"
  shows "bounded env (cfg_method cfg) (cfg_max_outstanding cfg) (scan_retries cfg) (requested target ports)
      (length (resolved_hosts target) * length ports * (3 * scan_retries cfg + 2)) s1"
    and "timers_inv_of s1" and "ss_probe s1 \<noteq> None"
proof -
  let ?R = "scan_retries cfg"
  have f: "ss_config s1 = cfg" "ss_probe s1 = probe_for (env_libc env) (cfg_method cfg)" "ss_engine s1 = e"
    "ss_timing s1 = (if cfg_adaptive_timing cfg then Some (new_timing_controller (cfg_timing_profile cfg)) else None)"
    "ss_queue s1 = scan_works target ports" "ss_pending s1 = []" "ss_deferred s1 = []" "ss_results s1 = []"
    by (simp_all add: assms(2) new_scheduler_def)
  have v: "ss_probe s1 \<noteq> None" "cfg_max_outstanding cfg \<noteq> 0"
    "\<And>t. ss_timing s1 = Some t \<Longrightarrow> tc_validate t = Ok"
    using assms(3) by (auto simp: validate_config_def f new_scheduler_def Let_def split: if_splits option.splits)
  then show "ss_probe s1 \<noteq> None" by simp
  have r: "max_retries s1 = ?R" by (simp add: max_retries_def f scan_retries_def new_timing_controller_def)
  have "tc_inv t" if "ss_timing s1 = Some t" for t
  proof -
    have "profile_validate (cfg_timing_profile cfg) = Ok"
      using v(3) [OF that] that by (auto simp: f tc_validate_def new_timing_controller_def split: if_splits)
    then show ?thesis using that by (auto simp: f tc_inv_new split: if_splits)
  qed
  moreover have "work_ok ?R w" if "w \<in> set (ss_queue s1)" for w
    using that assms(4) by (auto simp: f scan_works_def work_ok_def new_work_def)
  ultimately have "scan_ok env (cfg_method cfg) (cfg_max_outstanding cfg) ?R s1"
    using v(2) r by (simp add: scan_ok_def f)
  moreover have "ledger_is (requested target ports) s1"
    by (simp add: ledger_is_def ledger_def f requested_def scan_works_def works_requested)
  moreover have "potential ?R s1 \<le> length (resolved_hosts target) * length ports * (3 * ?R + 2)"
    unfolding potential_def f scan_works_def works_weight by simp
  ultimately show "bounded env (cfg_method cfg) (cfg_max_outstanding cfg) ?R (requested target ports)
      (length (resolved_hosts target) * length ports * (3 * ?R + 2)) s1" by (simp add: bounded_def)
  have "timers_match e [] []" using assms(1) by (simp add: scan_started_def)
  then show "timers_inv_of s1" by (simp add: timers_inv_of_def timers_ok_def f)
qed

context scan_transport begin

lemma started_inv:
  assumes "scan_started env e t cfg target ports s"
  shows "bounded env (cfg_method cfg) (cfg_max_outstanding cfg) (scan_retries cfg) (requested target ports)
      (length (resolved_hosts target) * length ports * (3 * scan_retries cfg + 2)) s"
    and "timers_inv_of s" and "going s" and "complete s \<Longrightarrow> eng_stopped (ss_engine s)"
proof -
  obtain s1 s2 where s1: "s1 = (new_scheduler env e t cfg)\<lparr>ss_submitted := True, ss_queue := scan_works target ports\<rparr>"
    and s2: "pump env s1 = Some s2" "s = stop_if_idle s2"
    and c: "validate_config env (new_scheduler env e t cfg) = Ok"
      "\<forall>p\<in>set ports. port_protocol p = Tcp \<and> port_number p \<noteq> 0"
    by (rule scan_startedE [OF assms])
  note i1 = started_state [OF assms s1 c]
  show "bounded env (cfg_method cfg) (cfg_max_outstanding cfg) (scan_retries cfg) (requested target ports)
      (length (resolved_hosts target) * length ports * (3 * scan_retries cfg + 2)) s"
    unfolding s2(2) by (rule potential.inv_stop_if_idle [OF potential.pump_inv [OF s2(1) i1(1)]])
  show "timers_inv_of s"
    unfolding s2(2) by (rule timers.inv_stop_if_idle [OF timers.pump_inv [OF s2(1) i1(2)]])
  have "going s2" using pump_going [OF s2(1)] i1(1,3) by (auto simp: bounded_def)
  then show "going s" by (simp add: s2(2) going_def)
  show "eng_stopped (ss_engine s)" if "complete s" using that stop_if_idle_stops [of s2] by (simp add: s2(2))
qed

lemma run_timers: "scan_run env k s s' \<Longrightarrow> timers_inv_of s \<Longrightarrow> timers_inv_of s'"
  by (rule timers.run_inv)

lemma run_going:
  assumes "scan_run env k s s'" and "scan_ok env m cap retries s" and "timers_inv_of s" and "going s"
  shows "going s'"
  using assms
proof (induction rule: scan_run.induct)
  case (step k s s' fired s'')
  have "scan_ok env m cap retries s'" by (rule shape.run_inv [OF step.hyps(1) step.prems(1)])
  moreover have "timers_inv_of s'" by (rule timers.run_inv [OF step.hyps(1) step.prems(2)])
  ultimately show ?case using step.IH step.prems step_going [OF step.hyps(2)] by blast
qed simp

end

lemma run_submitted: "scan_run env k s s' \<Longrightarrow> ss_submitted s' = ss_submitted s"
  by (induction rule: scan_run.induct) (auto simp: step_submitted)

section \<open>A scan stops the engine only when it is complete\<close>

definition stopped_ok :: "('x, 't) scheduler \<Rightarrow> bool" where
  "stopped_ok s \<longleftrightarrow> (eng_stopped (ss_engine s) \<longrightarrow> complete s)"

lemma finish_work_stopped: "eng_stopped (ss_engine (finish_work env w st rs rtt s)) = eng_stopped (ss_engine s)"
proof (rule finish_work_cases [of env w st rs rtt s], goal_cases)
  case (1 w' st' rs')
  then show ?case by simp
next
  case (2 w')
  have eq: "finish_work env w st rs rtt s = retry_or_fail env w' rtt s" by (rule 2(1))
  show ?case
    by (rule defer_retryE [of env w' s]) (auto simp: eq retry_or_fail_def dest: schedule_stopped)
qed

context scan_transport begin

lemma turn_stopped: "eng_stopped (ss_engine (turn_state (pump_turn env s))) \<Longrightarrow> eng_stopped (ss_engine s)"
proof (rule pump_turnE [of env s], goal_cases)
  case (2 w rest s')
  let ?s1 = "s\<lparr>ss_queue := rest, ss_next_id := ss_next_id s + 1\<rparr>"
  have st: "eng_stopped (ss_engine s')" using 2(1,4) by auto
  have "start_undone env (ss_next_id s) ?s1 (ss_engine s')" using 2(5) by (simp add: start_failed_def)
  then show ?case
  proof (cases rule: start_undone.cases)
    case (submit_refused tid e sub st a e' t)
    then show ?thesis using st submit_timers [of sub e "ss_transport s" st a e' t]
      by (auto simp: scheduled_then_def timers_kept_def dest: schedule_stopped)
  qed (use st in \<open>auto simp: scheduled_then_def dest: schedule_stopped\<close>)
next
  case (3 w rest s' answer probe sub)
  then obtain e t tid where "scheduled_then env (probe_timeout (s\<lparr>ss_queue := rest, ss_next_id := ss_next_id s + 1\<rparr>) * ns_per_ms)
       (OnTimeout (ss_next_id s)) (ss_engine s) tid e"
    "env_submit env sub (e, ss_transport s) = (Ok, answer, ss_engine s', t)"
    by (auto simp: started_def)
  then show ?case using 3(1,4) submit_timers [of sub e "ss_transport s" Ok answer "ss_engine s'" t]
    by (auto simp: scheduled_then_def timers_kept_def dest: schedule_stopped)
qed simp

end

sublocale scan_transport < stops: scan_invariant env "\<lambda>_. True" stopped_ok
proof unfold_locales
  fix s :: "('x, 't) scheduler" and i p probe st rs instant
  assume s: "stopped_ok s" and p: "map_of (ss_pending s) i = Some p"
  have n: "\<not> eng_stopped (ss_engine s)" using s p by (auto simp: stopped_ok_def complete_def)
  have k: "timers_kept (ss_engine (cancel_timer (pd_timer p) s)) (ss_engine (cancel_probe env i (cancel_timer (pd_timer p) s)))"
    by (rule cancel_probe_timers)
  show "stopped_ok (completed_work env i p st rs instant s)"
    using n k by (rule_tac completed_workE [of env i p st rs instant s])
      (auto simp: stopped_ok_def finish_work_stopped timers_kept_def cancel_timer_def)
next
  fix s :: "('x, 't) scheduler" and now i p probe e
  assume f: "dispatch_turn now (ss_engine s) = TurnFires (OnTimeout i) e"
  have k: "timers_kept (ss_engine (s\<lparr>ss_engine := e\<rparr>)) (ss_engine (cancel_probe env i (s\<lparr>ss_engine := e\<rparr>)))"
    by (rule cancel_probe_timers)
  show "stopped_ok (timeout_work env i p probe (s\<lparr>ss_engine := e\<rparr>))"
    using fires_stopped [OF f] k by (rule_tac timeout_workE [of env i p probe "s\<lparr>ss_engine := e\<rparr>"])
      (auto simp: stopped_ok_def finish_work_stopped timers_kept_def)
next
  fix s :: "('x, 't) scheduler" and limit
  assume a: "stopped_ok s"
  show "stopped_ok (turn_state (pump_turn env s))"
  proof (cases "eng_stopped (ss_engine s)")
    case True
    then have "ss_queue s = []" using a by (simp add: stopped_ok_def complete_def)
    then have "turn_state (pump_turn env s) = s" by (simp add: pump_turn_def)
    then show ?thesis using a by simp
  next
    case False
    then show ?thesis using turn_stopped [of s] by (auto simp: stopped_ok_def)
  qed
next
  fix s :: "('x, 't) scheduler" and n i p e t x answers now d
  assume a: "stopped_ok s"
  show "stopped_ok (s\<lparr>ss_reads := n\<rparr>)" using a by (simp add: stopped_ok_def complete_def)
  show "stopped_ok (timing_submitted s)" using a by (simp add: stopped_ok_def complete_def timing_submitted_def)
  show "stopped_ok (s\<lparr>ss_engine := e\<rparr>)" if "timers_kept (ss_engine s) e"
    using a that by (simp add: stopped_ok_def complete_def timers_kept_def)
  show "stopped_ok (s\<lparr>ss_engine := e, ss_transport := t\<rparr>)"
    if "env_event env x (ss_engine s, ss_transport s) = (answers, e, t)"
    using a event_timers [OF that] by (simp add: stopped_ok_def complete_def timers_kept_def)
  show "stopped_ok (s\<lparr>ss_engine := e, ss_transport := t\<rparr>)"
    if "env_done env x (ss_engine s, ss_transport s) = (e, t)"
    using a done_timers [OF that] by (simp add: stopped_ok_def complete_def timers_kept_def)
  show "stopped_ok (s\<lparr>ss_engine := engine_stop (ss_engine s)\<rparr>)" if "complete s"
    using that by (simp add: stopped_ok_def complete_def)
  show "stopped_ok (s\<lparr>ss_engine := e\<rparr>)" if "dispatch_turn now (ss_engine s) = TurnFires cb e" for cb
    using fires_stopped [OF that] by (simp add: stopped_ok_def)
  show "stopped_ok (s\<lparr>ss_pending := map_put i v (ss_pending s)\<rparr>)" if "map_of (ss_pending s) i = Some p" for v
    using a that by (auto simp: stopped_ok_def complete_def)
  show "stopped_ok (retry_work i d (s\<lparr>ss_engine := e\<rparr>))"
    if "dispatch_turn now (ss_engine s) = TurnFires (OnRetryReady i) e"
    using fires_stopped [OF that] by (simp add: stopped_ok_def retry_work_def)
qed (auto simp: stopped_ok_def dest: fires_stopped)

context scan_transport begin

lemma run_stopped: "scan_run env k s s' \<Longrightarrow> stopped_ok s \<Longrightarrow> stopped_ok s'"
  by (rule stops.run_inv)

end

end
