(* ===== verification/Port_Confirmation.thy ===== *)
theory Port_Confirmation
  imports Port_Scheduler_Runs
begin

text \<open>
  How a connect scan confirms that a port is closed or filtered. A probe in flight remembers what the
  attempt before it saw; the end of an attempt reports the port, asks once more, or reports that the
  two attempts disagree.
\<close>

section \<open>What the end of an attempt does\<close>

definition negative_counts :: "work_item \<Rightarrow> nat \<times> nat" where
  "negative_counts w = (wk_closed_observations w, wk_filtered_observations w)"

text \<open>The observations of one attempt that ended in a state.\<close>

definition one_negative :: "port_state \<Rightarrow> nat \<times> nat" where
  "one_negative st = (if st = PsClosed then (1, 0) else (0, 1))"

definition verdict_of :: "port_result \<Rightarrow> port_state \<times> scan_reason" where
  "verdict_of r = (res_state r, res_reason r)"

definition reported :: "port_state \<times> scan_reason \<Rightarrow> ('x, 't) scheduler \<Rightarrow> ('x, 't) scheduler \<Rightarrow> bool" where
  "reported v s s' \<longleftrightarrow> map verdict_of (ss_results s') = map verdict_of (ss_results s) @ [v]"

definition asked_again :: "port_state \<Rightarrow> work_item \<Rightarrow> ('x, 't) scheduler \<Rightarrow> ('x, 't) scheduler \<Rightarrow> bool" where
  "asked_again st w s s' \<longleftrightarrow>
     ss_results s' = ss_results s \<and>
     (\<exists>i d. ss_deferred s' = (i, d) # ss_deferred s \<and> work_key (df_work d) = work_key w \<and>
        wk_retry_count (df_work d) = 1 \<and> negative_counts (df_work d) = one_negative st)"

text \<open>
  What a negative observation of a connect scan leads to. Without retries it is reported as it is.
  Otherwise the first one is not reported: the port is asked again (or the scan fails to set the timer
  for that, which is reported as an internal error). The second one is reported when it agrees with
  the first; else the port is unknown.
\<close>

definition negative_settled ::
  "nat \<Rightarrow> work_item \<Rightarrow> port_state \<Rightarrow> scan_reason \<Rightarrow> ('x, 't) scheduler \<Rightarrow> ('x, 't) scheduler \<Rightarrow> bool" where
  "negative_settled retries w st rs s s' \<longleftrightarrow>
     (if retries = 0 then reported (st, rs) s s'
      else if wk_retry_count w = 0 then asked_again st w s s' \<or> reported (PsError, RsnInternalError) s s'
      else reported (if negative_counts w = one_negative st then (st, rs) else (PsUnknown, RsnConflictingEvidence)) s s')"

text \<open>A work item between two attempts: untried, or with the one observation of its first attempt.\<close>

definition attempted :: "work_item \<Rightarrow> bool" where
  "attempted w \<longleftrightarrow>
     (wk_retry_count w = 0 \<and> negative_counts w = (0, 0)) \<or>
     (wk_retry_count w = 1 \<and> (negative_counts w = one_negative PsClosed \<or> negative_counts w = one_negative PsFiltered))"

lemma reported_append: "reported (st, rs) s (append_terminal_result env w m st rs rtt s)"
  by (rule append_resultE [of env w m st rs rtt s]) (simp add: reported_def verdict_of_def result_of_def)

lemma reported_from: "ss_results t = ss_results s \<Longrightarrow> reported v t s' = reported v s s'"
  by (simp add: reported_def)

lemma negative_settled_from:
  "ss_results t = ss_results s \<Longrightarrow> ss_deferred t = ss_deferred s \<Longrightarrow>
    negative_settled retries w st rs t s' = negative_settled retries w st rs s s'"
  by (simp add: negative_settled_def asked_again_def reported_def)

lemma deferred_once:
  assumes "wk_retry_count w1 = 0" and "negative_counts w1 = one_negative st" and "work_key w1 = work_key w"
  shows "asked_again st w s (retry_or_fail env w1 rtt s) \<or> reported (PsError, RsnInternalError) s (retry_or_fail env w1 rtt s)"
proof (rule defer_retryE [of env w1 s], goal_cases)
  case (1 n r s1)
  have "ss_results s1 = ss_results s" using 1(2) by auto
  then show ?case
    using 1(1) reported_append [of PsError RsnInternalError s1 env w1 "cfg_method (ss_config s1)" rtt]
      reported_from [OF \<open>ss_results s1 = ss_results s\<close>]
    by (simp add: retry_or_fail_def)
next
  case (2 n r tid e now)
  then show ?case using assms by (simp add: retry_or_fail_def asked_again_def work_key_def negative_counts_def)
qed

lemma connect_negative:
  assumes "cfg_method (ss_config s) = TcpConnect" and "should_confirm_negative TcpConnect st rs"
    and "attempted w" and "wk_retry_count w \<le> max_retries s"
  shows "negative_settled (max_retries s) w st rs s (finish_work env w st rs rtt s)"
proof -
  have st: "st = PsClosed \<or> st = PsFiltered" using assms(2) by (auto simp: should_confirm_negative_def)
  obtain n w1 where obs: "observe_negative st w = (n, w1)" by fastforce
  have w1: "wk_retry_count w1 = wk_retry_count w" "work_key w1 = work_key w"
    "negative_counts w1 = (fst (negative_counts w) + fst (one_negative st), snd (negative_counts w) + snd (one_negative st))"
    "n = (if st = PsClosed then fst (negative_counts w1) else snd (negative_counts w1))"
    using obs st by (auto simp: observe_negative_def work_key_def negative_counts_def one_negative_def)
  have fin: "finish_work env w st rs rtt s =
      (if 0 < wk_closed_observations w1 \<and> 0 < wk_filtered_observations w1
       then append_terminal_result env w1 TcpConnect PsUnknown RsnConflictingEvidence rtt s
       else if n < 2 \<and> wk_retry_count w1 < max_retries s then retry_or_fail env w1 rtt s
       else append_terminal_result env w1 TcpConnect st rs rtt s)"
    using assms(1,2) obs by (simp add: finish_work_def Let_def)
  show ?thesis
  proof (cases "wk_retry_count w = 0")
    case True
    then have none: "negative_counts w = (0, 0)" using assms(3) by (simp add: attempted_def)
    then have o1: "negative_counts w1 = one_negative st" "n < 2" using w1(3,4) by (simp_all add: one_negative_def)
    have "\<not> (0 < wk_closed_observations w1 \<and> 0 < wk_filtered_observations w1)"
      using o1(1) by (auto simp: negative_counts_def one_negative_def split: if_splits)
    then have fin': "finish_work env w st rs rtt s =
        (if 0 < max_retries s then retry_or_fail env w1 rtt s else append_terminal_result env w1 TcpConnect st rs rtt s)"
      using fin o1(2) w1(1) True by auto
    show ?thesis
    proof (cases "max_retries s = 0")
      case True
      then show ?thesis using fin' reported_append by (simp add: negative_settled_def)
    next
      case False
      then show ?thesis
        using fin' True deferred_once [OF _ o1(1) w1(2), of s env rtt] w1(1) by (simp add: negative_settled_def)
    qed
  next
    case False
    then have one: "wk_retry_count w = 1" "negative_counts w = one_negative PsClosed \<or> negative_counts w = one_negative PsFiltered"
      using assms(3) by (auto simp: attempted_def)
    then have some: "max_retries s \<noteq> 0" using assms(4) by simp
    show ?thesis
    proof (cases "negative_counts w = one_negative st")
      case True
      then have "n = 2" "\<not> (0 < wk_closed_observations w1 \<and> 0 < wk_filtered_observations w1)"
        using w1(3,4) st by (auto simp: one_negative_def negative_counts_def)
      then have "finish_work env w st rs rtt s = append_terminal_result env w1 TcpConnect st rs rtt s" using fin by auto
      then show ?thesis using one(1) some True reported_append by (simp add: negative_settled_def)
    next
      case False
      then have "0 < wk_closed_observations w1 \<and> 0 < wk_filtered_observations w1"
        using w1(3) one(2) st by (auto simp: one_negative_def negative_counts_def)
      then have "finish_work env w st rs rtt s = append_terminal_result env w1 TcpConnect PsUnknown RsnConflictingEvidence rtt s"
        using fin by simp
      then show ?thesis using one(1) some False reported_append by (simp add: negative_settled_def)
    qed
  qed
qed

section \<open>At most two attempts\<close>

definition confirming :: "('x, 't) scan_env \<Rightarrow> nat \<Rightarrow> nat \<Rightarrow> ('x, 't) scheduler \<Rightarrow> bool" where
  "confirming env cap retries s \<longleftrightarrow>
     scan_ok env TcpConnect cap retries s \<and> (\<forall>w\<in>set (ss_queue s). attempted w) \<and>
     (\<forall>e\<in>set (ss_pending s). attempted (pd_work (snd e)) \<and> pd_candidate_state (snd e) = None) \<and>
     (\<forall>e\<in>set (ss_deferred s). attempted (df_work (snd e))) \<and> (\<forall>r\<in>set (ss_results s). res_retry_count r \<le> 1)"

lemma confirming_parts:
  assumes "confirming env cap retries s"
  shows "scan_ok env TcpConnect cap retries s" "\<And>w. w \<in> set (ss_queue s) \<Longrightarrow> attempted w"
    "\<And>e. e \<in> set (ss_pending s) \<Longrightarrow> attempted (pd_work (snd e))"
    "\<And>e. e \<in> set (ss_pending s) \<Longrightarrow> pd_candidate_state (snd e) = None"
    "\<And>e. e \<in> set (ss_deferred s) \<Longrightarrow> attempted (df_work (snd e))"
    "\<And>r. r \<in> set (ss_results s) \<Longrightarrow> res_retry_count r \<le> 1"
  using assms by (simp_all add: confirming_def)

lemma confirming_engine [simp]:
  "confirming env cap retries (s\<lparr>ss_engine := e\<rparr>) = confirming env cap retries s"
  "confirming env cap retries (s\<lparr>ss_transport := t\<rparr>) = confirming env cap retries s"
  "confirming env cap retries (s\<lparr>ss_reads := n\<rparr>) = confirming env cap retries s"
  by (simp_all add: confirming_def)

lemma attempted_retries: "attempted w \<Longrightarrow> wk_retry_count w \<le> 1"
  by (auto simp: attempted_def)

text \<open>The end of any attempt of a connect scan reports the port or asks once more.\<close>

lemma connect_ends:
  assumes "cfg_method (ss_config s) = TcpConnect" and "valid_port_result_semantics Tcp TcpConnect st rs"
    and "attempted w" and "wk_retry_count w \<le> max_retries s"
  obtains (verdict) w' st' rs' where "finish_work env w st rs rtt s = append_terminal_result env w' TcpConnect st' rs' rtt s"
    and "wk_retry_count w' \<le> 1"
  | (retry) w' where "finish_work env w st rs rtt s = retry_or_fail env w' rtt s"
    and "attempted (w'\<lparr>wk_retry_count := Suc (wk_retry_count w')\<rparr>)" and "wk_retry_count w' = 0"
proof (cases "should_confirm_negative TcpConnect st rs")
  case False
  have "\<not> ((rs = RsnTimeout \<or> rs = RsnAckTimeout) \<and> wk_retry_count w < max_retries s)"
    using False assms(2)
    by (cases st) (auto simp: should_confirm_negative_def valid_port_result_semantics.simps)
  then have "finish_work env w st rs rtt s = append_terminal_result env w TcpConnect st rs rtt s"
    using False assms(1) by (auto simp: finish_work_def Let_def)
  then show thesis using verdict [of w st rs] attempted_retries [OF assms(3)] by simp
next
  case True
  have st: "st = PsClosed \<or> st = PsFiltered" using True by (auto simp: should_confirm_negative_def)
  obtain n w1 where obs: "observe_negative st w = (n, w1)" by fastforce
  have w1: "wk_retry_count w1 = wk_retry_count w"
    "negative_counts w1 = (fst (negative_counts w) + fst (one_negative st), snd (negative_counts w) + snd (one_negative st))"
    "n = (if st = PsClosed then fst (negative_counts w1) else snd (negative_counts w1))"
    using obs st by (auto simp: observe_negative_def negative_counts_def one_negative_def)
  have fin: "finish_work env w st rs rtt s =
      (if 0 < wk_closed_observations w1 \<and> 0 < wk_filtered_observations w1
       then append_terminal_result env w1 TcpConnect PsUnknown RsnConflictingEvidence rtt s
       else if n < 2 \<and> wk_retry_count w1 < max_retries s then retry_or_fail env w1 rtt s
       else append_terminal_result env w1 TcpConnect st rs rtt s)"
    using assms(1) True obs by (simp add: finish_work_def Let_def)
  show thesis
  proof (cases "\<not> (0 < wk_closed_observations w1 \<and> 0 < wk_filtered_observations w1) \<and> n < 2 \<and> wk_retry_count w1 < max_retries s")
    case t: True
    then have "wk_retry_count w = 0"
      using assms(3) w1 st by (auto simp: attempted_def one_negative_def negative_counts_def)
    moreover from this have "negative_counts w1 = one_negative st" using assms(3) w1(2) by (auto simp: attempted_def)
    ultimately have "attempted (w1\<lparr>wk_retry_count := Suc (wk_retry_count w1)\<rparr>)"
      using w1(1) st by (auto simp: attempted_def negative_counts_def one_negative_def)
    then show thesis using fin t w1(1) \<open>wk_retry_count w = 0\<close> by (intro retry [of w1]) simp_all
  next
    case False
    have "wk_retry_count w1 \<le> 1" using attempted_retries [OF assms(3)] w1(1) by simp
    then show thesis
      using False fin verdict [of w1 PsUnknown RsnConflictingEvidence] verdict [of w1 st rs] by (auto split: if_splits)
  qed
qed

lemma attempts_append:
  assumes "confirming env cap retries s" and "wk_retry_count w \<le> 1"
  shows "r \<in> set (ss_results (append_terminal_result env w m st rs rtt s)) \<Longrightarrow> res_retry_count r \<le> 1"
  using assms by (rule_tac append_resultE [of env w m st rs rtt s]) (auto simp: confirming_def result_of_def)

lemma confirming_finishing:
  assumes "confirming env cap retries s" and "finishing i s s'" and "map_of (ss_pending s) i = Some p"
    and "valid_port_result_semantics Tcp TcpConnect st rs" and "ss_probe s = Some probe"
  shows "confirming env cap retries (finish_work env (pd_work p) st rs rtt s')"
proof -
  note c = confirming_parts [OF assms(1)]
  have ok: "scan_ok env TcpConnect cap retries (finish_work env (pd_work p) st rs rtt s')"
    by (rule scan_ok_finishing [OF c(1) assms(2-5)])
  have ok': "scan_ok env TcpConnect cap retries s'" by (rule scan_ok_finishes [OF c(1) assms(2)])
  have s': "confirming env cap retries s'"
    using ok' c assms(2) by (auto simp: confirming_def finishing_def set_map_erase)
  have w: "attempted (pd_work p)" using c(3) [OF map_of_SomeD [OF assms(3)]] by simp
  have "wk_retry_count (pd_work p) \<le> max_retries s'"
    using scan_ok_parts(3) [OF c(1) map_of_SomeD [OF assms(3)]] scan_ok_parts(7) [OF ok']
    by (simp add: flight_ok_def work_ok_def)
  then show ?thesis
  proof (rule connect_ends [OF scan_ok_parts(8) [OF ok'] assms(4) w, where env = env and rtt = rtt], goal_cases)
    case (1 w' st' rs')
    then show ?case
      using ok confirming_parts [OF s'] attempts_append [OF s' 1(2)] by (simp add: confirming_def)
  next
    case retry: (2 w')
    show ?case
    proof (rule defer_retryE [of env w' s'], goal_cases)
      case (1 n r s1)
      have fields: "ss_queue s1 = ss_queue s'" "ss_pending s1 = ss_pending s'" "ss_deferred s1 = ss_deferred s'"
        "ss_results s1 = ss_results s'"
        using 1(2) by auto
      have fw: "finish_work env (pd_work p) st rs rtt s' =
          append_terminal_result env w' (cfg_method (ss_config s1)) PsError RsnInternalError rtt s1"
        using 1(1) retry(1) by (simp add: retry_or_fail_def)
      have "res_retry_count r \<le> 1" if "r \<in> set (ss_results (append_terminal_result env w'
          (cfg_method (ss_config s1)) PsError RsnInternalError rtt s1))" for r
        using that retry(3) confirming_parts(6) [OF s'] fields(4)
        by (rule_tac append_resultE [of env w' "cfg_method (ss_config s1)" PsError RsnInternalError rtt s1])
          (auto simp: result_of_def)
      then show ?thesis
        using ok confirming_parts [OF s'] fields unfolding fw by (simp add: confirming_def)
    next
      case (2 n r tid e now)
      have fw: "finish_work env (pd_work p) st rs rtt s' = snd (defer_retry env w' s')"
        using 2(1) retry(1) by (simp add: retry_or_fail_def)
      show ?thesis
        using ok confirming_parts [OF s'] 2(1) retry(2) unfolding fw by (simp add: confirming_def)
    qed
  qed
qed

lemma confirming_turn:
  assumes "confirming env cap retries s" and "length (ss_pending s) < limit" and "limit \<le> cap"
  shows "confirming env cap retries (turn_state (pump_turn env s))"
proof -
  note c = confirming_parts [OF assms(1)]
  have ok: "scan_ok env TcpConnect cap retries (turn_state (pump_turn env s))"
    by (rule scan_ok_turn [OF c(1) assms(2,3)])
  show ?thesis
  proof (rule pump_turnE [of env s], goal_cases)
    case 1
    then show ?case using assms(1) by simp
  next
    case (2 w rest s')
    have "wk_retry_count w \<le> 1" using c(2) 2(1) attempted_retries by simp
    then have "confirming env cap retries s'"
      using 2 ok c by (auto simp: confirming_def start_failed_def result_of_def)
    then show ?case using 2(3) by auto
  next
    case (3 w rest s' answer probe sub)
    then show ?case using ok c by (auto simp: confirming_def started_def)
  qed
qed

interpretation confirms: scan_invariant env "\<lambda>limit. limit \<le> cap" "confirming env cap retries"
  for env :: "('x, 't) scan_env" and cap retries
proof unfold_locales
  fix s :: "('x, 't) scheduler"
  assume a: "confirming env cap retries s"
  note c = confirming_parts [OF a] and ok = scan_ok_parts [OF confirming_parts(1) [OF a]]
  show "pump_limit s \<le> cap" using scan_ok_limit [OF c(1)] by simp
  show "confirming env cap retries (timing_submitted s)"
    using c shape.inv_timing [OF c(1)] by (simp add: confirming_def timing_submitted_def)
  fix i p probe and r :: port_response and st rs instant
  assume p: "map_of (ss_pending s) i = Some p" "ss_probe s = Some probe"
  have k: "probe_contract probe" and t: "pp_type probe = TcpConnect"
    using p(2) ok(9) probe_for_contract probe_for_type by metis+
  {
    assume r: "pp_assess probe r (pd_submission p) = Inr (st, rs)"
    show "confirming env cap retries (completed_work env i p st rs instant s)"
      using confirming_finishing [OF a _ p(1) _ p(2)] probe_contract.assess_semantics [OF k r] t
      by (rule_tac completed_workE [of env i p st rs instant s]) simp
    assume "cfg_method (ss_config s) \<noteq> TcpConnect"
    then show "confirming env cap retries (s\<lparr>ss_pending := map_put i (note_evidence st rs instant p) (ss_pending s)\<rparr>)"
      using ok(8) by simp
  }
  fix e
  have none: "pd_candidate_state p = None" using c(4) [OF map_of_SomeD [OF p(1)]] by simp
  show "confirming env cap retries (timeout_work env i p probe (s\<lparr>ss_engine := e\<rparr>))"
  proof (rule timeout_workE [of env i p probe "s\<lparr>ss_engine := e\<rparr>"], goal_cases)
    case (1 st rs rtt s')
    then have "valid_port_result_semantics Tcp TcpConnect st rs"
      using none probe_contract.timeout_semantics [OF k] t by auto
    then show ?case
      using 1 a p confirming_finishing [of env cap retries "s\<lparr>ss_engine := e\<rparr>" i s' p st rs probe rtt] by simp
  qed
next
  fix s :: "('x, 't) scheduler" and now i d e
  assume a: "confirming env cap retries s" and d: "map_of (ss_deferred s) i = Some d"
    and fires: "dispatch_turn now (ss_engine s) = TurnFires (OnRetryReady i) e"
  note c = confirming_parts [OF a]
  show "confirming env cap retries (retry_work i d (s\<lparr>ss_engine := e\<rparr>))"
    using shape.inv_retry [OF c(1) fires d] c c(5) [OF map_of_SomeD [OF d]]
    by (auto simp: confirming_def retry_work_def set_map_erase)
qed (simp_all add: confirming_turn)

lemma started_confirming:
  assumes "scan_started env e t cfg target ports s" and "cfg_method cfg = TcpConnect"
  shows "confirming env (cfg_max_outstanding cfg) (scan_retries cfg) s"
proof -
  obtain s1 s2 where s1: "s1 = (new_scheduler env e t cfg)\<lparr>ss_submitted := True, ss_queue := scan_works target ports\<rparr>"
    and s2: "pump env s1 = Some s2" "s = stop_if_idle s2"
    and c: "validate_config env (new_scheduler env e t cfg) = Ok"
      "\<forall>p\<in>set ports. port_protocol p = Tcp \<and> port_number p \<noteq> 0"
    by (rule scan_startedE [OF assms(1)])
  have "scan_ok env TcpConnect (cfg_max_outstanding cfg) (scan_retries cfg) s1"
    using started_state(1) [OF assms(1) s1 c] assms(2) by (simp add: bounded_def)
  then have "confirming env (cfg_max_outstanding cfg) (scan_retries cfg) s1"
    by (auto simp: confirming_def s1 new_scheduler_def scan_works_def attempted_def new_work_def negative_counts_def)
  then show ?thesis
    unfolding s2(2) by (rule confirms.inv_stop_if_idle [OF confirms.pump_inv [OF s2(1)]])
qed

section \<open>The end of an attempt in a reachable state\<close>

lemma completion_settles:
  assumes "confirming env cap retries s" and "map_of (ss_pending s) i = Some p"
    and "should_confirm_negative TcpConnect st rs" and "complete_pending Some env i st rs instant s = Some s'"
  shows "negative_settled retries (pd_work p) st rs s s'"
proof -
  note c = confirming_parts [OF assms(1)]
  have w: "attempted (pd_work p)" "wk_retry_count (pd_work p) \<le> retries"
    using c(3) [OF map_of_SomeD [OF assms(2)]] scan_ok_parts(3) [OF c(1) map_of_SomeD [OF assms(2)]]
    by (simp_all add: flight_ok_def work_ok_def)
  obtain t where t: "s' = finish_work env (pd_work p) st rs (Some (rtt_between (pd_started_at p) instant)) t" "finishing i s t"
    using assms(2,4) by (rule_tac completed_workE [of env i p st rs instant s]) (auto simp: complete_pending_alt)
  have ok: "scan_ok env TcpConnect cap retries t" by (rule scan_ok_finishes [OF c(1) t(2)])
  note m = scan_ok_parts(7,8) [OF ok]
  have "negative_settled retries (pd_work p) st rs t s'"
    unfolding t(1) using connect_negative [OF m(2) assms(3) w(1)] w(2) m(1) by simp
  then show ?thesis using t(2) negative_settled_from [of t s] by (simp add: finishing_def)
qed

lemma timeout_settles:
  assumes "confirming env cap retries s" and "map_of (ss_pending s) i = Some p"
    and "on_timeout Some env i s = Some s'"
  shows "negative_settled retries (pd_work p) PsFiltered RsnTimeout s s'"
proof -
  note c = confirming_parts [OF assms(1)]
  obtain probe where probe: "ss_probe s = Some probe" "pp_timeout_state probe = PsFiltered" "pp_timeout_reason probe = RsnTimeout"
    using scan_ok_parts(9) [OF c(1)] by (auto simp: connect_probe_def)
  have none: "pd_candidate_state p = None" using c(4) [OF map_of_SomeD [OF assms(2)]] by simp
  have w: "attempted (pd_work p)" "wk_retry_count (pd_work p) \<le> retries"
    using c(3) [OF map_of_SomeD [OF assms(2)]] scan_ok_parts(3) [OF c(1) map_of_SomeD [OF assms(2)]]
    by (simp_all add: flight_ok_def work_ok_def)
  obtain rtt t where t: "s' = finish_work env (pd_work p) PsFiltered RsnTimeout rtt t" "finishing i s t"
    using assms(2,3) probe none by (rule_tac timeout_workE [of env i p probe s]) (auto simp: on_timeout_alt)
  have ok: "scan_ok env TcpConnect cap retries t" by (rule scan_ok_finishes [OF c(1) t(2)])
  note m = scan_ok_parts(7,8) [OF ok]
  have "should_confirm_negative TcpConnect PsFiltered RsnTimeout" by (simp add: should_confirm_negative_def)
  from connect_negative [OF m(2) this w(1), of env rtt]
  have "negative_settled retries (pd_work p) PsFiltered RsnTimeout t s'" unfolding t(1) using w(2) m(1) by simp
  then show ?thesis using t(2) negative_settled_from [of t s] by (simp add: finishing_def)
qed

end
