(* ===== verification/Engine_Runs.thy ===== *)
theory Engine_Runs
  imports Port_Scheduler_Timers
begin

text \<open>
  The reactor's loop seen from a scheduler, whichever scheduler it is: if every call of a
  callback, every reading of the clock and every change of the engine that leaves the
  scheduler's timers alone is a step, then the loop is a sequence of steps. The locale
  \<open>engine_steps\<close> is that interface, interpreted on the TCP and on the UDP scheduler.
\<close>

section \<open>What the loop itself does to the engine\<close>

lemma stale_kept: "dispatch_turn now e = TurnStale e' \<Longrightarrow> timers_kept e e'"
proof (rule timers_kept_same)
  assume s: "dispatch_turn now e = TurnStale e'"
  then show "eng_timers e' = eng_timers e" "eng_stopped e' \<Longrightarrow> eng_stopped e"
    by (auto simp: dispatch_turn_def Let_def split: if_splits list.splits option.splits)
  show "wired e'" if "wired e" using wired_turn [OF that disjI2 [OF s]] .
qed

lemma timers_kept_events:
  assumes "eng_timers e' = eng_timers e" and "eng_queue e' = eng_queue e" and "eng_next_timer e' = eng_next_timer e"
    and "eng_stopped e' = eng_stopped e"
    and "\<And>eid ev. (eid, ev) \<in> set (eng_events e') \<Longrightarrow>
      (\<exists>ev0. (eid, ev0) \<in> set (eng_events e) \<and> ev_callback ev = ev_callback ev0) \<or>
      (\<exists>x. ev_callback ev = Some (TransportEvent x))"
  shows "timers_kept e e'"
proof (rule timers_kept_same [OF assms(1)])
  assume w: "wired e"
  have "ev_callback ev = None \<or> (\<exists>x. ev_callback ev = Some (TransportEvent x))"
    if "(eid, ev) \<in> set (eng_events e')" for eid ev
    using assms(5) [OF that] w unfolding wired_def by fastforce
  then show "wired e'" using w assms(1-3) by (auto simp: wired_def timers_inv_def)
qed (simp add: assms(4))

lemma set_ready_kept: "timers_kept e (set_ready eid m e)"
proof (rule timers_kept_events, goal_cases)
  case (5 eid' ev')
  then show ?case
    using set_map_put_subset by (fastforce simp: set_ready_def dest: map_of_SomeD split: option.splits)
qed (simp_all add: set_ready_def split: option.splits)

lemma prune_kept: "timers_kept e (e\<lparr>eng_queue := prune_queue (eng_timers e) (eng_queue e)\<rparr>)"
  by (rule timers_kept_same) (simp_all add: wired_def timers_inv_prune)

lemma set_running_kept: "\<not> stopped \<Longrightarrow> timers_kept e (e\<lparr>eng_running := running, eng_stopped := stopped\<rparr>)"
  by (rule timers_kept_same) (auto intro: wired_same)

lemma not_running_kept: "timers_kept e (e\<lparr>eng_running := False\<rparr>)"
  by (rule timers_kept_same) (auto intro: wired_same)

lemma wired_callback:
  assumes "wired e" and "map_of (eng_events e) eid = Some ev" and "ev_callback ev = Some cb"
  obtains x where "cb = TransportEvent x"
  using assms map_of_SomeD [OF assms(2)] by (fastforce simp: wired_def)

section \<open>A reactor that hears nothing\<close>

lemma prune_without_timers: "prune_queue [] q = []"
  by (induction q) (simp_all add: map_has_def)

lemma nothing_to_dispatch: "eng_queue (get_engine w s) = [] \<Longrightarrow> dispatch_timers w s = Some s"
  by (simp add: dispatch_timers.simps [of w s])

context engine_host begin

lemma silent_loop:
  assumes "eng_registered (get_engine w s) \<noteq> []" and "eng_timers (get_engine w s) = []" and "\<not> eng_stopped (get_engine w s)"
    and "set polls \<subseteq> {Interrupted, Ready []}"
  shows "run_loop w polls s = None"
  using assms
proof (induction polls arbitrary: s)
  case Nil
  then show ?case by (simp add: run_loop.simps [of _ "[]"] idle_def)
next
  case (Cons p polls)
  let ?s = "put_engine w ((get_engine w s)\<lparr>eng_queue := prune_queue (eng_timers (get_engine w s)) (eng_queue (get_engine w s))\<rparr>) s"
  have "dispatch_timers w ?s = Some ?s"
    by (rule nothing_to_dispatch) (use Cons.prems(2) in \<open>simp add: get_put prune_without_timers\<close>)
  then have "run_once_impl w p s = Some (Ok, ?s)"
    using Cons.prems by (auto simp: run_once_impl_def idle_def Let_def)
  moreover have "run_loop w polls ?s = None" using Cons.prems by (intro Cons.IH) (auto simp: get_put)
  ultimately show ?case using Cons.prems by (simp add: run_loop.simps [of _ "p # polls"] idle_def)
qed

text \<open>A reactor that waits on a descriptor, has no timer and hears nothing does not return.\<close>

lemma silent_run:
  assumes "eng_init_status (get_engine w s) = Ok" and "eng_open (get_engine w s)" and "\<not> eng_running (get_engine w s)"
    and "eng_registered (get_engine w s) \<noteq> []" and "eng_timers (get_engine w s) = []"
    and "set polls \<subseteq> {Interrupted, Ready []}"
  shows "engine_run w polls s = None"
proof -
  have "run_loop w polls (set_running w True False s) = None"
    by (rule silent_loop) (use assms in \<open>simp_all add: set_running_def get_put\<close>)
  then show ?thesis using assms by (simp add: engine_run_def Let_def)
qed

end

section \<open>The loop as a sequence of steps\<close>

locale engine_steps = engine_host w for w :: "('s, 'x sched_callback) embedding" +
  fixes leads :: "'s \<Rightarrow> 's \<Rightarrow> bool" and fine :: "'s \<Rightarrow> bool"
  assumes leads_refl: "leads s s"
    and leads_trans: "leads s s' \<Longrightarrow> leads s' s'' \<Longrightarrow> leads s s''"
    and leads_engine: "timers_kept (get_engine w s) e \<Longrightarrow> leads s (put_engine w e s)"
    and leads_clock: "leads s (snd (read_clock w s))"
    and leads_fires: "fine s \<Longrightarrow> dispatch_turn now (get_engine w s) = TurnFires cb e \<Longrightarrow>
      leads s (call w cb (put_engine w e s))"
    and leads_transport: "fine s \<Longrightarrow> leads s (call w (TransportEvent x) s)"
    and leads_fine: "leads s s' \<Longrightarrow> fine s \<Longrightarrow> fine s'"
    and fine_wired: "fine s \<Longrightarrow> wired (get_engine w s)"
begin

lemma leads_dispatch:
  assumes "dispatch_timers w s = Some s'" and "fine s"
  shows "leads s s'"
proof -
  have "w' = w \<Longrightarrow> fine s \<Longrightarrow> leads s s'" if "dispatch_timers w' s = Some s'" for w'
    using that
  proof (induction rule: dispatch_timers.raw_induct [rotated, consumes 1, case_names step])
    case (step dispatch w' s s')
    have body: "(if eng_stopped (get_engine w s) \<or> eng_queue (get_engine w s) = [] then Some s
      else case read_clock w s of (now, s1) \<Rightarrow>
        (case dispatch_turn now (get_engine w s1) of
           TurnEnds \<Rightarrow> Some s1
         | TurnStale e \<Rightarrow> dispatch w (put_engine w e s1)
         | TurnFires cb e \<Rightarrow> dispatch w (call w cb (put_engine w e s1)))) = Some s'"
      using step.hyps unfolding step.prems(1) .
    show ?case
    proof (cases "eng_stopped (get_engine w s) \<or> eng_queue (get_engine w s) = []")
      case True
      with body show ?thesis by (simp add: leads_refl)
    next
      case False
      obtain now s1 where r: "read_clock w s = (now, s1)" by fastforce
      then have c: "leads s s1" using leads_clock [of s] by simp
      then have f1: "fine s1" by (rule leads_fine) (rule step.prems(2))
      have tail: "leads s s'" if "dispatch w s2 = Some s'" "leads s1 s2" for s2
        using leads_trans [OF c leads_trans [OF that(2) step.IH [OF that(1) refl leads_fine [OF that(2) f1]]]] .
      show ?thesis
      proof (cases "dispatch_turn now (get_engine w s1)")
        case TurnEnds
        with body False r c show ?thesis by simp
      next
        case (TurnStale e)
        with body False r show ?thesis by (intro tail [OF _ leads_engine [OF stale_kept [OF TurnStale]]]) simp
      next
        case (TurnFires cb e)
        with body False r show ?thesis by (intro tail [OF _ leads_fires [OF f1 TurnFires]]) simp
      qed
    qed
  qed
  from this [OF assms(1) refl assms(2)] show ?thesis .
qed

lemma leads_event_callback:
  assumes "fine s" and "map_of (eng_events (get_engine w s)) eid = Some ev"
    and "s1 = put_engine w (set_ready eid m (get_engine w s)) s"
  shows "leads s (case ev_callback ev of None \<Rightarrow> s1 | Some cb \<Rightarrow> call w cb s1)"
proof -
  have l: "leads s s1" unfolding assms(3) by (rule leads_engine [OF set_ready_kept])
  show ?thesis
  proof (cases "ev_callback ev")
    case (Some cb)
    obtain x where "cb = TransportEvent x" by (rule wired_callback [OF fine_wired [OF assms(1)] assms(2) Some])
    then show ?thesis using leads_trans [OF l leads_transport [OF leads_fine [OF l assms(1)]]] Some by simp
  qed (simp add: l)
qed

lemma leads_events: "fine s \<Longrightarrow> leads s (dispatch_events w evs s)"
proof (induction evs arbitrary: s)
  case (Cons x rest)
  obtain token native where x: "x = (token, native)" by fastforce
  show ?case
  proof (cases "\<exists>eid ev. map_of (eng_tokens (get_engine w s)) token = Some eid \<and>
      map_of (eng_events (get_engine w s)) eid = Some ev \<and> ev_registered ev \<and> ev_token ev = token")
    case False
    then have "dispatch_events w (x # rest) s = dispatch_events w rest s" by (auto simp: x split: option.splits)
    then show ?thesis using Cons by simp
  next
    case True
    then obtain eid ev where e: "map_of (eng_tokens (get_engine w s)) token = Some eid"
      "map_of (eng_events (get_engine w s)) eid = Some ev" "ev_registered ev" "ev_token ev = token" by blast
    define s1 where "s1 = put_engine w (set_ready eid (from_native_mask native) (get_engine w s)) s"
    define s2 where "s2 = (case ev_callback ev of None \<Rightarrow> s1 | Some cb \<Rightarrow> call w cb s1)"
    define s3 where "s3 = (if map_of (eng_tokens (get_engine w s2)) token = Some eid
      then put_engine w (set_ready eid 0 (get_engine w s2)) s2 else s2)"
    have "leads s s2" unfolding s2_def by (rule leads_event_callback [OF Cons.prems e(2) s1_def])
    moreover have "leads s2 s3" by (simp add: s3_def leads_engine [OF set_ready_kept] leads_refl)
    ultimately have l: "leads s s3" by (rule leads_trans)
    have "dispatch_events w (x # rest) s = (if eng_stopped (get_engine w s3) then s3 else dispatch_events w rest s3)"
      using e x by (cases "ev_callback ev") (simp_all add: Let_def s3_def s2_def s1_def)
    moreover have "leads s3 (dispatch_events w rest s3)" by (rule Cons.IH [OF leads_fine [OF l Cons.prems]])
    ultimately show ?thesis using leads_trans [OF l] l by auto
  qed
qed (simp add: leads_refl)

lemma leads_once:
  assumes "fine s" and "run_once_impl w p s = Some (st, s')"
  shows "leads s s'"
proof (cases "idle (get_engine w s)")
  case True
  then show ?thesis using assms(2) by (simp add: run_once_impl_def leads_refl)
next
  case False
  define s1 where "s1 = put_engine w ((get_engine w s)\<lparr>eng_queue :=
    prune_queue (eng_timers (get_engine w s)) (eng_queue (get_engine w s))\<rparr>) s"
  have l: "leads s s1" unfolding s1_def by (rule leads_engine [OF prune_kept])
  have e: "leads s (dispatch_events w evs s1)" for evs
    using leads_trans [OF l leads_events] leads_fine [OF l assms(1)] by blast
  have d: "leads s s'" if "dispatch_timers w s2 = Some s'" "leads s s2" for s2
    using leads_trans [OF that(2) leads_dispatch [OF that(1) leads_fine [OF that(2) assms(1)]]] .
  have "(case p of WaitError \<Rightarrow> Some (IoError, s1)
      | Interrupted \<Rightarrow> map_option (Pair Ok) (dispatch_timers w s1)
      | Ready evs \<Rightarrow> map_option (Pair Ok) (dispatch_timers w (dispatch_events w evs s1))) = Some (st, s')"
    using assms(2) False by (cases p) (simp_all add: run_once_impl_def Let_def s1_def)
  then show ?thesis using l d [OF _ l] d [OF _ e] by (cases p) auto
qed

lemma leads_loop:
  assumes "run_loop w polls s = Some (st, s')" and "fine s"
  shows "leads s s' \<and> (st = Ok \<longrightarrow> eng_stopped (get_engine w s') \<or> idle (get_engine w s'))"
  using assms
proof (induction polls arbitrary: s)
  case Nil
  then show ?case by (auto simp: run_loop.simps [of _ "[]"] leads_refl split: if_splits)
next
  case (Cons p rest)
  show ?case
  proof (cases "eng_stopped (get_engine w s) \<or> idle (get_engine w s)")
    case True
    then show ?thesis using Cons.prems(1) by (auto simp: run_loop.simps [of _ "p # rest"] leads_refl)
  next
    case False
    then obtain st1 s1 where o: "run_once_impl w p s = Some (st1, s1)"
      "(if st1 \<noteq> Ok then Some (st1, s1) else run_loop w rest s1) = Some (st, s')"
      using Cons.prems(1) by (auto simp: run_loop.simps [of _ "p # rest"] split: option.splits)
    have l: "leads s s1" by (rule leads_once [OF Cons.prems(2) o(1)])
    show ?thesis
      using o(2) l Cons.IH [OF _ leads_fine [OF l Cons.prems(2)]] leads_trans [OF l] by (auto split: if_splits)
  qed
qed

lemma leads_run:
  assumes "engine_run w polls s = Some (st, s')" and "fine s"
  shows "leads s s' \<and>
    (st = Ok \<longrightarrow> (eng_stopped (get_engine w s') \<or> idle (get_engine w s')) \<and>
       (\<exists>s1. \<not> eng_stopped (get_engine w s1) \<and> leads s1 s' \<and> leads s s1))"
proof (cases "eng_init_status (get_engine w s) \<noteq> Ok \<or> \<not> eng_open (get_engine w s) \<or> eng_running (get_engine w s)")
  case True
  then show ?thesis using assms(1) by (auto simp: engine_run_def Let_def leads_refl split: if_splits)
next
  case False
  let ?s1 = "set_running w True False s"
  have l: "leads s ?s1" unfolding set_running_def by (rule leads_engine [OF set_running_kept]) simp
  obtain s2 where s2: "run_loop w polls ?s1 = Some (st, s2)"
    "s' = put_engine w ((get_engine w s2)\<lparr>eng_running := False\<rparr>) s2"
    using assms(1) False by (auto simp: engine_run_def Let_def)
  have k: "leads s2 s'" unfolding s2(2) by (rule leads_engine [OF not_running_kept])
  note loop = leads_loop [OF s2(1) leads_fine [OF l assms(2)]]
  have "leads s s'" using loop k leads_trans [OF l] leads_trans by blast
  moreover have "\<exists>s1. \<not> eng_stopped (get_engine w s1) \<and> leads s1 s' \<and> leads s s1"
    using loop k leads_trans l by (intro exI [of _ ?s1]) (auto simp: set_running_def get_put)
  ultimately show ?thesis using loop by (simp add: s2(2) idle_def get_put)
qed

lemma leads_run_once:
  assumes "engine_run_once w p s = Some (st, s')" and "fine s"
  shows "leads s s'"
proof (cases "eng_init_status (get_engine w s) \<noteq> Ok \<or> \<not> eng_open (get_engine w s) \<or> eng_running (get_engine w s)")
  case True
  then show ?thesis using assms(1) by (auto simp: engine_run_once_def Let_def leads_refl split: if_splits)
next
  case False
  have l: "leads s (set_running w True False s)" unfolding set_running_def by (rule leads_engine [OF set_running_kept]) simp
  obtain s2 where s2: "run_once_impl w p (set_running w True False s) = Some (st, s2)" "s' = set_running w False False s2"
    using assms(1) False by (auto simp: engine_run_once_def Let_def)
  have "leads s2 s'" unfolding s2(2) set_running_def by (rule leads_engine [OF set_running_kept]) simp
  then show ?thesis using leads_trans [OF l leads_trans [OF leads_once [OF leads_fine [OF l assms(2)] s2(1)]]] by blast
qed

end

section \<open>Exactly these timers\<close>

text \<open>
  The engine's timers that call \<open>on_timeout\<close> are those of a partial function from probe
  identifiers to timers.
\<close>

definition timers_are :: "'x sched_callback engine \<Rightarrow> (u64 \<Rightarrow> u64 option) \<Rightarrow> bool" where
  "timers_are e f \<longleftrightarrow> wired e \<and> (\<forall>i tid. timer_for (OnTimeout i) e tid \<longleftrightarrow> f i = Some tid)"

lemma timers_are_kept: "timers_are e f \<Longrightarrow> timers_kept e e' \<Longrightarrow> timers_are e' f"
  by (simp add: timers_are_def timers_kept_def)

lemma timers_are_stop: "timers_are e f \<Longrightarrow> timers_are (engine_stop e) f"
  using wired_same [of "engine_stop e" e] by (simp add: timers_are_def engine_stop_def timer_for_def)

lemma timers_are_schedule:
  assumes "timers_are e f" and "engine_schedule now delay (OnTimeout i) e = (tid, e')" and "tid \<noteq> 0" and "f i = None"
  shows "timers_are e' (f(i \<mapsto> tid))"
proof -
  have w: "wired e" using assms(1) by (simp add: timers_are_def)
  note sch = timer_for_schedule [OF w assms(2,3)]
  show ?thesis using assms(1,4) sch(1) by (auto simp: timers_are_def sch(3))
qed

lemma timers_are_schedule_cancel:
  assumes "timers_are e f" and "engine_schedule now delay cb e = (tid, e1)" and "tid \<noteq> 0" and "timers_kept e1 e2"
  shows "timers_are (engine_cancel tid e2) f"
proof -
  have w: "wired e" using assms(1) by (simp add: timers_are_def)
  note sch = timer_for_schedule [OF w assms(2,3)]
  have w2: "wired e2" using sch(1) assms(4) by (simp add: timers_kept_def)
  have k: "timer_for (OnTimeout j) e2 tid' = timer_for (OnTimeout j) e1 tid'" for j tid'
    using assms(4) by (simp add: timers_kept_def)
  have "timer_for (OnTimeout j) (engine_cancel tid e2) tid' = timer_for (OnTimeout j) e tid'" for j tid'
    using sch(2) by (cases "tid' = tid"; simp add: timer_for_cancel [OF w2] k sch(3))
  then show ?thesis using assms(1) wired_cancel [OF w2] by (simp add: timers_are_def)
qed

lemma timers_are_gone:
  assumes "timers_are e f" and "wired e'" and "timer_for (OnTimeout i) e tid"
    and "\<And>cb tid'. timer_for cb e' tid' \<longleftrightarrow> timer_for cb e tid' \<and> tid' \<noteq> tid"
  shows "timers_are e' (f(i := None))"
proof -
  have t: "f i = Some tid" using assms(1,3) by (simp add: timers_are_def)
  have u: "timer_for cb e tid \<Longrightarrow> cb = OnTimeout i" for cb using timer_for_unique [OF assms(3)] by blast
  have "timer_for (OnTimeout j) e' tid' \<longleftrightarrow> (f(i := None)) j = Some tid'" for j tid'
  proof -
    have "timer_for (OnTimeout j) e tid' \<longleftrightarrow> f j = Some tid'" using assms(1) by (simp add: timers_are_def)
    then show ?thesis using t u [of "OnTimeout j"] by (cases "j = i") (auto simp: assms(4))
  qed
  then show ?thesis using assms(2) by (simp add: timers_are_def)
qed

lemma timers_are_cancel:
  assumes "timers_are e f" and "f i = Some tid"
  shows "timers_are (engine_cancel tid e) (f(i := None))"
proof -
  have "wired e" "timer_for (OnTimeout i) e tid" using assms by (simp_all add: timers_are_def)
  then show ?thesis by (intro timers_are_gone [OF assms(1) wired_cancel]) (simp_all add: timer_for_cancel)
qed

lemma timers_are_fires:
  assumes "timers_are e f" and "dispatch_turn now e = TurnFires (OnTimeout i) e'"
  shows "timers_are e' (f(i := None))" and "f i \<noteq> None"
proof -
  have w: "wired e" using assms(1) by (simp add: timers_are_def)
  show "timers_are e' (f(i := None))" by (rule timer_for_fires [OF w assms(2)]) (rule timers_are_gone [OF assms(1)])
  show "f i \<noteq> None" by (rule timer_for_fires [OF w assms(2)]) (use assms(1) in \<open>auto simp: timers_are_def\<close>)
qed

lemma timers_are_fires_other:
  assumes "timers_are e f" and "dispatch_turn now e = TurnFires cb e'" and "\<And>i. cb \<noteq> OnTimeout i"
  shows "timers_are e' f"
proof (rule timer_for_fires [OF _ assms(2)])
  show "wired e" using assms(1) by (simp add: timers_are_def)
  fix tid
  assume f: "wired e'" "timer_for cb e tid" "\<And>cb' tid'. timer_for cb' e' tid' \<longleftrightarrow> timer_for cb' e tid' \<and> tid' \<noteq> tid"
  have "timer_for (OnTimeout j) e' tid' = timer_for (OnTimeout j) e tid'" for j tid'
    using f(2,3) timer_for_unique [OF f(2), of "OnTimeout j"] assms(3) [of j] by auto
  then show ?thesis using assms(1) f(1) by (simp add: timers_are_def)
qed

end
