(* ===== verification/Connect_Transport.thy ===== *)
theory Connect_Transport
  imports Engine_Runs
begin

text \<open>
  The two transports a TCP port scan can be given without raw sockets: the recording transport of
  the tests, and the connect transport (\<open>src/portscan/tcp_connect.cpp\<close>), which opens one
  non-blocking socket per probe. The outcomes of its system calls are parameters, one sequence
  per call; \<open>ct_open\<close> lists the descriptors it holds. Each is an instance of the contract the
  scheduler asks of a transport.
\<close>

section \<open>The recording transport as the transport of a scan\<close>

definition recording_env :: "libc \<Rightarrow> (nat \<Rightarrow> int) \<Rightarrow> (unit, unit recording_transport) scan_env" where
  "recording_env lc clock =
     \<lparr>env_libc = lc, env_clock = clock, env_supports = (\<lambda>p _. recording_supports p),
      env_submit = (\<lambda>sub (e, t). case recording_submit sub (Some ()) t of (st, t') \<Rightarrow> (st, None, e, t')),
      env_cancel = (\<lambda>i (e, t). (e, snd (recording_cancel i t))),
      env_event = (\<lambda>_ et. ([], et)), env_done = (\<lambda>_ et. et)\<rparr>"

interpretation recording: scan_transport "recording_env lc clock" for lc clock
  by unfold_locales (auto simp: recording_env_def split: prod.splits)

section \<open>The connect transport\<close>

abbreviation EPERM :: int where "EPERM \<equiv> 1"
abbreviation EACCES :: int where "EACCES \<equiv> 13"
abbreviation ECONNREFUSED :: int where "ECONNREFUSED \<equiv> 111"
abbreviation EINPROGRESS :: int where "EINPROGRESS \<equiv> 115"

text \<open>
  The outcomes of the system calls: of \<open>socket\<close> (an error or a descriptor), of making it
  non-blocking, of \<open>connect\<close> (an error, or zero), of \<open>epoll_ctl\<close>, of \<open>getsockopt\<close> (its
  own error, or the error of the socket), and the clock.
\<close>

record connect_kernel =
  ck_socket :: "nat \<Rightarrow> int + int"
  ck_nonblocking :: "nat \<Rightarrow> status_code"
  ck_connect :: "nat \<Rightarrow> int"
  ck_add :: "nat \<Rightarrow> bool"
  ck_delete :: "nat \<Rightarrow> bool \<times> bool"
  ck_so_error :: "nat \<Rightarrow> int + int"
  ck_now :: "nat \<Rightarrow> int"

record connection =
  cn_fd :: int
  cn_event :: "event_id option"
  cn_completed :: bool
  cn_in_progress :: bool

record connect_transport =
  ct_connections :: "(u64 \<times> connection) list"
  ct_open :: "int list"
  ct_calls :: nat

definition new_connect_transport :: connect_transport where
  "new_connect_transport = \<lparr>ct_connections = [], ct_open = [], ct_calls = 0\<rparr>"

definition called :: "connect_transport \<Rightarrow> connect_transport" where
  "called t = t\<lparr>ct_calls := Suc (ct_calls t)\<rparr>"

definition connect_supports :: "scan_probe \<Rightarrow> bool" where
  "connect_supports p \<longleftrightarrow> p = TcpConnect"

definition submission_address :: "libc \<Rightarrow> port_submission \<Rightarrow> ip_address option" where
  "submission_address lc sub =
     (if ip_valid (sub_target_ip sub) then Some (sub_target_ip sub) else parse_ip_address lc (sub_target sub))"

text \<open>A new \<open>Event\<close> object: an identity no event of the engine has.\<close>

definition fresh_event :: "'cb engine \<Rightarrow> event_id" where
  "fresh_event e = Suc (fold max (map fst (eng_events e)) 0)"

definition create_event :: "event_id \<Rightarrow> int \<Rightarrow> u32 \<Rightarrow> 'cb \<Rightarrow> 'cb engine \<Rightarrow> 'cb engine" where
  "create_event eid fd m cb e =
     e\<lparr>eng_events := (eid, \<lparr>ev_fd = fd, ev_mask = m, ev_ready = 0, ev_callback = Some cb, ev_registered = False,
         ev_token = 0\<rparr>) # eng_events e\<rparr>"

definition destroy_event :: "event_id \<Rightarrow> 'cb engine \<Rightarrow> 'cb engine" where
  "destroy_event eid e = e\<lparr>eng_events := map_erase eid (eng_events e)\<rparr>"

definition event_registered :: "event_id \<Rightarrow> 'cb engine \<Rightarrow> bool" where
  "event_registered eid e \<longleftrightarrow> (case map_of (eng_events e) eid of None \<Rightarrow> False | Some ev \<Rightarrow> ev_registered ev)"

text \<open>\<open>close_connection\<close>: the event is removed from the engine and, unless retained, destroyed.\<close>

definition close_descriptor :: "connection \<Rightarrow> connect_transport \<Rightarrow> connection \<times> connect_transport" where
  "close_descriptor c t =
     (if cn_fd c \<ge> 0 then (c\<lparr>cn_fd := - 1\<rparr>, t\<lparr>ct_open := remove1 (cn_fd c) (ct_open t)\<rparr>) else (c, t))"

definition remove_event :: "connect_kernel \<Rightarrow> connection \<Rightarrow> 'cb engine \<times> connect_transport \<Rightarrow> 'cb engine \<times> connect_transport" where
  "remove_event k c et =
     (case (et, cn_event c) of
        ((e, t), Some eid) \<Rightarrow>
          if event_registered eid e then
            (case ck_delete k (ct_calls t) of (ok, enoent) \<Rightarrow> (snd (engine_remove ok enoent eid e), called t))
          else (e, t)
      | _ \<Rightarrow> et)"

definition close_connection ::
  "connect_kernel \<Rightarrow> bool \<Rightarrow> connection \<Rightarrow> 'cb engine \<times> connect_transport \<Rightarrow>
     connection \<times> 'cb engine \<times> connect_transport" where
  "close_connection k retain_event c et =
     (case remove_event k c et of (e, t) \<Rightarrow>
       let e1 = (case cn_event c of Some eid \<Rightarrow> if retain_event then e else destroy_event eid e | None \<Rightarrow> e);
           c1 = (if retain_event then c else c\<lparr>cn_event := None\<rparr>)
       in case close_descriptor c1 t of (c2, t2) \<Rightarrow> (c2, e1, t2))"

definition drop_connection ::
  "connect_kernel \<Rightarrow> u64 \<Rightarrow> connection \<Rightarrow> 'cb engine \<times> connect_transport \<Rightarrow> 'cb engine \<times> connect_transport" where
  "drop_connection k i c et =
     (case close_connection k False c et of (_, e, t) \<Rightarrow> (e, t\<lparr>ct_connections := map_erase i (ct_connections t)\<rparr>))"

fun reap_entry ::
  "connect_kernel \<Rightarrow> u64 \<times> connection \<Rightarrow> 'cb engine \<times> connect_transport \<Rightarrow> 'cb engine \<times> connect_transport" where
  "reap_entry k (i, c) et = (if cn_completed c \<and> \<not> cn_in_progress c then drop_connection k i c et else et)"

definition reap_completed ::
  "connect_kernel \<Rightarrow> 'cb engine \<times> connect_transport \<Rightarrow> 'cb engine \<times> connect_transport" where
  "reap_completed k et = fold (reap_entry k) (ct_connections (snd et)) et"

definition connect_response :: "connect_kernel \<Rightarrow> u64 \<Rightarrow> string \<Rightarrow> response_kind \<Rightarrow> int \<Rightarrow> connect_transport \<Rightarrow> port_response" where
  "connect_response k i source kind err t =
     \<lparr>rsp_id = i, rsp_source_address = source, rsp_kind = kind, rsp_system_error = err, rsp_bytes = [],
      rsp_received_at = ck_now k (ct_calls t), rsp_source_ip = default_ip, rsp_reason = RsnInternalError\<rparr>"

text \<open>The address the socket is connected to can be formed: an IPv6 address needs a scope that resolves.\<close>

definition address_usable :: "libc \<Rightarrow> ip_address \<Rightarrow> bool" where
  "address_usable lc a \<longleftrightarrow>
     \<not> (is_ipv6 a \<and> ((is_ipv6_link_local a \<and> \<not> has_scope a) \<or> ipv6_scope_id lc a = None))"

definition await_connect ::
  "connect_kernel \<Rightarrow> u64 \<Rightarrow> int \<Rightarrow> u64 sched_callback engine \<times> connect_transport \<Rightarrow>
     status_code \<times> u64 sched_callback engine \<times> connect_transport" where
  "await_connect k i fd et =
     (case et of (e, t) \<Rightarrow>
       let eid = fresh_event e;
           e1 = create_event eid fd (mask_write OR mask_error OR mask_hangup) (TransportEvent i) e
       in case engine_add (ck_add k (ct_calls t)) eid e1 of (st, e2) \<Rightarrow>
         if st \<noteq> Ok then (st, destroy_event eid e2, called t)
         else (Ok, e2, called (t\<lparr>ct_open := fd # ct_open t, ct_connections :=
             (i, \<lparr>cn_fd = fd, cn_event = Some eid, cn_completed = False, cn_in_progress = False\<rparr>) # ct_connections t\<rparr>)))"

definition connect_submit ::
  "libc \<Rightarrow> connect_kernel \<Rightarrow> port_submission \<Rightarrow> u64 sched_callback engine \<times> connect_transport \<Rightarrow>
     status_code \<times> port_response option \<times> u64 sched_callback engine \<times> connect_transport" where
  "connect_submit lc k sub et =
     (if \<not> connect_supports (sub_probe sub) \<or> sub_id sub = 0 \<or> sub_target sub = [] \<or> port_number (sub_port sub) = 0
      then (InvalidArgument, None, et)
      else case reap_completed k et of (e, t) \<Rightarrow>
        if map_has (ct_connections t) (sub_id sub) then (InvalidArgument, None, e, t)
        else case submission_address lc sub of
          None \<Rightarrow> (InvalidArgument, None, e, t)
        | Some a \<Rightarrow>
            (case ck_socket k (ct_calls t) of
               Inl err \<Rightarrow> (if err = EACCES \<or> err = EPERM then PermissionDenied else IoError, None, e, called t)
             | Inr fd \<Rightarrow>
                 let nonblocking = ck_nonblocking k (ct_calls t); err = ck_connect k (ct_calls t);
                     respond = (\<lambda>kind code. (Ok, Some (connect_response k (sub_id sub) (sub_target sub) kind code t), e, called t))
                 in if nonblocking \<noteq> Ok then (nonblocking, None, e, called t)
                    else if \<not> address_usable lc a then (InvalidArgument, None, e, called t)
                    else if err = 0 then respond Connected 0
                    else if err \<noteq> EINPROGRESS then
                      respond (if err = ECONNREFUSED then ConnectionRefused else SocketError) err
                    else (case await_connect k (sub_id sub) fd (e, t) of (st, e1, t1) \<Rightarrow> (st, None, e1, t1))))"

definition connect_cancel ::
  "connect_kernel \<Rightarrow> u64 \<Rightarrow> 'cb engine \<times> connect_transport \<Rightarrow> 'cb engine \<times> connect_transport" where
  "connect_cancel k i et =
     (case map_of (ct_connections (snd et)) i of
        None \<Rightarrow> et
      | Some c \<Rightarrow> if cn_in_progress c \<or> cn_completed c then et else drop_connection k i c et)"

text \<open>\<open>finish\<close> up to the call of the callback, and what it does after it.\<close>

definition connect_finish ::
  "connect_kernel \<Rightarrow> u64 \<Rightarrow> response_kind \<Rightarrow> int \<Rightarrow> 'cb engine \<times> connect_transport \<Rightarrow>
     port_response list \<times> 'cb engine \<times> connect_transport" where
  "connect_finish k i kind err et =
     (case map_of (ct_connections (snd et)) i of
        None \<Rightarrow> ([], et)
      | Some c \<Rightarrow>
          if cn_completed c then ([], et)
          else
            let r = connect_response k i [] kind err (snd et) in
            case close_connection k True (c\<lparr>cn_completed := True, cn_in_progress := True\<rparr>) et of (c1, e, t) \<Rightarrow>
              ([r], e, t\<lparr>ct_connections := map_put i c1 (ct_connections t)\<rparr>))"

definition connect_done :: "u64 \<Rightarrow> 'cb engine \<times> connect_transport \<Rightarrow> 'cb engine \<times> connect_transport" where
  "connect_done i et =
     (case map_of (ct_connections (snd et)) i of
        None \<Rightarrow> et
      | Some c \<Rightarrow> (fst et, (snd et)\<lparr>ct_connections := map_put i (c\<lparr>cn_in_progress := False\<rparr>) (ct_connections (snd et))\<rparr>))"

definition connect_event ::
  "connect_kernel \<Rightarrow> u64 \<Rightarrow> 'cb engine \<times> connect_transport \<Rightarrow> port_response list \<times> 'cb engine \<times> connect_transport" where
  "connect_event k i et =
     (case map_of (ct_connections (snd et)) i of
        None \<Rightarrow> ([], et)
      | Some c \<Rightarrow>
          (case ck_so_error k (ct_calls (snd et)) of
             Inl err \<Rightarrow> connect_finish k i SocketError err (fst et, called (snd et))
           | Inr err \<Rightarrow>
               if err = 0 then connect_finish k i Connected 0 (fst et, called (snd et))
               else if err = ECONNREFUSED then connect_finish k i ConnectionRefused err (fst et, called (snd et))
               else connect_finish k i SocketError err (fst et, called (snd et))))"

definition connect_destroy ::
  "connect_kernel \<Rightarrow> 'cb engine \<times> connect_transport \<Rightarrow> 'cb engine \<times> connect_transport" where
  "connect_destroy k et =
     (case fold (\<lambda>(i, c) et. snd (close_connection k False c et)) (ct_connections (snd et)) et of
        (e, t) \<Rightarrow> (e, t\<lparr>ct_connections := []\<rparr>))"

definition connect_env ::
  "libc \<Rightarrow> connect_kernel \<Rightarrow> (nat \<Rightarrow> int) \<Rightarrow> (u64, connect_transport) scan_env" where
  "connect_env lc k clock =
     \<lparr>env_libc = lc, env_clock = clock, env_supports = (\<lambda>p _. connect_supports p), env_submit = connect_submit lc k,
      env_cancel = connect_cancel k, env_event = connect_event k, env_done = connect_done\<rparr>"

section \<open>The contract\<close>

lemma engine_add_kept: "timers_kept e (snd (engine_add ctl eid e))"
proof (rule timers_kept_events, goal_cases)
  case (5 eid' ev')
  then show ?case
    using set_map_put_subset by (fastforce simp: engine_add_def Let_def dest: map_of_SomeD split: option.splits if_splits)
qed (auto simp: engine_add_def Let_def split: option.splits)

lemma engine_remove_kept: "timers_kept e (snd (engine_remove ctl enoent eid e))"
proof (rule timers_kept_events, goal_cases)
  case (5 eid' ev')
  then show ?case
    using set_map_put_subset by (fastforce simp: engine_remove_def Let_def dest: map_of_SomeD split: option.splits if_splits)
qed (auto simp: engine_remove_def Let_def split: option.splits)

lemma create_event_kept: "timers_kept e (create_event eid fd m (TransportEvent x) e)"
  by (rule timers_kept_events) (auto simp: create_event_def)

lemma destroy_event_kept: "timers_kept e (destroy_event eid e)"
  by (rule timers_kept_events) (auto simp: destroy_event_def set_map_erase)

lemma remove_event_kept: "timers_kept e (fst (remove_event k c (e, t)))"
  using engine_remove_kept [of e] by (auto simp: remove_event_def split: option.splits prod.splits)

lemma close_connection_kept:
  assumes "close_connection k keep c (e, t) = (c', e', t')"
  shows "timers_kept e e'"
proof -
  obtain e1 t1 where r: "remove_event k c (e, t) = (e1, t1)" by fastforce
  have k: "timers_kept e e1" using remove_event_kept [of e k c t] by (simp add: r)
  have "e' = e1 \<or> (\<exists>eid. e' = destroy_event eid e1)"
    using assms by (auto simp: close_connection_def r Let_def split: prod.splits option.splits if_splits)
  then show ?thesis using k timers_kept_trans [OF k destroy_event_kept] by auto
qed

lemma drop_connection_kept: "timers_kept e (fst (drop_connection k i c (e, t)))"
  using close_connection_kept [of k False c e t] by (auto simp: drop_connection_def split: prod.splits)

lemma reap_kept: "timers_kept (fst et) (fst (reap_completed k et))"
proof -
  have "timers_kept (fst et) (fst (fold (reap_entry k) cs et))" for cs
  proof (induction cs arbitrary: et)
    case (Cons ic cs)
    have "timers_kept (fst et) (fst (reap_entry k ic et))"
      using drop_connection_kept [of "fst et" k _ _ "snd et"] by (cases ic) simp
    from timers_kept_trans [OF this Cons.IH] show ?case by simp
  qed simp
  then show ?thesis by (simp add: reap_completed_def)
qed

lemma await_connect_kept:
  assumes "await_connect k i fd (e, t) = (st, e', t')"
  shows "timers_kept e e'"
proof -
  let ?e1 = "create_event (fresh_event e) fd (mask_write OR mask_error OR mask_hangup) (TransportEvent i) e"
  obtain st2 e2 where a: "engine_add (ck_add k (ct_calls t)) (fresh_event e) ?e1 = (st2, e2)" by fastforce
  have k: "timers_kept e e2"
    using timers_kept_trans [OF create_event_kept [of e] engine_add_kept
        [where ctl = "ck_add k (ct_calls t)" and eid = "fresh_event e" and e = ?e1]] unfolding a by simp
  have "e' = e2 \<or> e' = destroy_event (fresh_event e) e2"
    using assms a by (auto simp: await_connect_def Let_def split: if_splits)
  then show ?thesis using k timers_kept_trans [OF k destroy_event_kept] by auto
qed

lemma connect_submit_kept:
  assumes "connect_submit lc k sub (e, t) = (st, answer, e', t')"
  shows "timers_kept e e' \<and> (answer \<noteq> None \<longrightarrow> st = Ok)"
proof -
  obtain e1 t1 where r: "reap_completed k (e, t) = (e1, t1)" by fastforce
  have k: "timers_kept e e1" using reap_kept [of "(e, t)" k] by (simp add: r)
  show ?thesis
    using assms k timers_kept_trans [OF k await_connect_kept]
    by (auto simp: connect_submit_def r Let_def split: if_splits option.splits sum.splits prod.splits)
qed

lemma connect_finish_kept: "connect_finish k i kind err (e, t) = (rs, e', t') \<Longrightarrow> timers_kept e e'"
  using close_connection_kept [of k True _ e t]
  by (auto simp: connect_finish_def Let_def split: option.splits if_splits prod.splits)

interpretation connecting: scan_transport "connect_env lc k clock" for lc k clock
proof unfold_locales
  fix sub e t st answer e' t'
  assume "env_submit (connect_env lc k clock) sub (e, t) = (st, answer, e', t')"
  then have "connect_submit lc k sub (e, t) = (st, answer, e', t')" by (simp add: connect_env_def)
  from connect_submit_kept [OF this] show "timers_kept e e'" by blast
next
  fix i and e :: "u64 sched_callback engine" and t e' t'
  assume "env_cancel (connect_env lc k clock) i (e, t) = (e', t')"
  then show "timers_kept e e'"
    using drop_connection_kept [of e k i _ t]
    by (auto simp: connect_env_def connect_cancel_def split: option.splits if_splits) (metis fst_conv)
next
  fix x and e :: "u64 sched_callback engine" and t answers e' t'
  assume "env_event (connect_env lc k clock) x (e, t) = (answers, e', t')"
  then show "timers_kept e e'"
    using connect_finish_kept [of k x _ _ e "called t"]
    by (auto simp: connect_env_def connect_event_def split: option.splits sum.splits if_splits)
next
  fix x and e :: "u64 sched_callback engine" and t e' t'
  assume "env_done (connect_env lc k clock) x (e, t) = (e', t')"
  then show "timers_kept e e'" by (auto simp: connect_env_def connect_done_def split: option.splits)
next
  fix sub e t st r e' t'
  assume "env_submit (connect_env lc k clock) sub (e, t) = (st, Some r, e', t')"
  then have "connect_submit lc k sub (e, t) = (st, Some r, e', t')" by (simp add: connect_env_def)
  from connect_submit_kept [OF this] show "st = Ok" by simp
qed

section \<open>Descriptors\<close>

text \<open>
  The descriptors the transport holds are those of the connections still being made: a
  connection that is completed has closed its own.
\<close>

definition waiting_descriptors :: "(u64 \<times> connection) list \<Rightarrow> int multiset" where
  "waiting_descriptors cs = image_mset (cn_fd \<circ> snd) (filter_mset (\<lambda>e. \<not> cn_completed (snd e)) (mset cs))"

definition descriptors_ok :: "connect_transport \<Rightarrow> bool" where
  "descriptors_ok t \<longleftrightarrow>
     map_ok (ct_connections t) \<and> (\<forall>e\<in>set (ct_connections t). cn_completed (snd e) \<longleftrightarrow> cn_fd (snd e) < 0) \<and>
     mset (ct_open t) = waiting_descriptors (ct_connections t)"

lemma called_fields [simp]:
  "ct_connections (called t) = ct_connections t" "ct_open (called t) = ct_open t" "descriptors_ok (called t) = descriptors_ok t"
  by (simp_all add: called_def descriptors_ok_def)

lemma remove_event_fields [simp]:
  "ct_connections (snd (remove_event k c (e, t))) = ct_connections t" "ct_open (snd (remove_event k c (e, t))) = ct_open t"
  by (auto simp: remove_event_def split: option.splits prod.splits)

lemma close_connection_fields:
  assumes "close_connection k keep c (e, t) = (c', e', t')"
  shows "ct_connections t' = ct_connections t" "cn_fd c' < 0" "cn_completed c' = cn_completed c"
    "cn_in_progress c' = cn_in_progress c"
    "ct_open t' = (if cn_fd c \<ge> 0 then remove1 (cn_fd c) (ct_open t) else ct_open t)"
proof -
  obtain e1 t1 where r: "remove_event k c (e, t) = (e1, t1)" by fastforce
  then have t1: "ct_connections t1 = ct_connections t" "ct_open t1 = ct_open t"
    using remove_event_fields [of k c e t] by simp_all
  show "ct_connections t' = ct_connections t" "cn_fd c' < 0" "cn_completed c' = cn_completed c"
    "cn_in_progress c' = cn_in_progress c"
    "ct_open t' = (if cn_fd c \<ge> 0 then remove1 (cn_fd c) (ct_open t) else ct_open t)"
    using assms t1 by (auto simp: close_connection_def r Let_def close_descriptor_def split: prod.splits if_splits)
qed

lemma waiting_erase:
  assumes "map_ok cs" and "map_of cs i = Some c"
  shows "waiting_descriptors cs =
    (if cn_completed c then {#} else {#cn_fd c#}) + waiting_descriptors (map_erase i cs)"
  using mset_map_erase [OF assms] by (simp add: waiting_descriptors_def)

lemma waiting_put:
  assumes "map_ok cs" and "map_of cs i = Some c"
  shows "waiting_descriptors (map_put i c' cs) =
    (if cn_completed c' then {#} else {#cn_fd c'#}) + waiting_descriptors (map_erase i cs)"
  using mset_map_put [OF assms] by (simp add: waiting_descriptors_def)

lemma descriptors_connection:
  "descriptors_ok t \<Longrightarrow> map_of (ct_connections t) i = Some c \<Longrightarrow> cn_completed c \<longleftrightarrow> cn_fd c < 0"
  unfolding descriptors_ok_def by (drule map_of_SomeD) force

lemma descriptors_drop:
  assumes "descriptors_ok t" and "map_of (ct_connections t) i = Some c"
  shows "descriptors_ok (snd (drop_connection k i c (e, t)))"
    and "ct_connections (snd (drop_connection k i c (e, t))) = map_erase i (ct_connections t)"
proof -
  obtain c' e' t' where cl: "close_connection k False c (e, t) = (c', e', t')" by (metis prod_cases3)
  note f = close_connection_fields [OF cl]
  have ok: "map_ok (ct_connections t)" using assms(1) by (simp add: descriptors_ok_def)
  note w = waiting_erase [OF ok assms(2)]
  show "descriptors_ok (snd (drop_connection k i c (e, t)))"
    using assms(1) w descriptors_connection [OF assms]
    by (auto simp: drop_connection_def cl f descriptors_ok_def map_ok_erase set_map_erase)
  show "ct_connections (snd (drop_connection k i c (e, t))) = map_erase i (ct_connections t)"
    by (simp add: drop_connection_def cl f)
qed

lemma descriptors_reap_fold:
  assumes "descriptors_ok (snd et)" and "distinct (map fst cs)"
    and "\<And>i c. (i, c) \<in> set cs \<Longrightarrow> map_of (ct_connections (snd et)) i = Some c"
  shows "descriptors_ok (snd (fold (reap_entry k) cs et)) \<and>
    (\<forall>j d. map_of (ct_connections (snd et)) j = Some d \<longrightarrow> cn_in_progress d \<or> \<not> cn_completed d \<longrightarrow>
       map_of (ct_connections (snd (fold (reap_entry k) cs et))) j = Some d)"
  using assms
proof (induction cs arbitrary: et)
  case (Cons ic cs)
  obtain i c where ic: "ic = (i, c)" by fastforce
  have m: "map_of (ct_connections (snd et)) i = Some c" using Cons.prems(3) ic by simp
  have "descriptors_ok (snd (reap_entry k ic et))"
    using descriptors_drop(1) [OF Cons.prems(1) m, of k "fst et"] Cons.prems(1) by (simp add: ic)
  moreover have "map_of (ct_connections (snd (reap_entry k ic et))) j = map_of (ct_connections (snd et)) j"
    if "j \<noteq> i \<or> cn_in_progress c \<or> \<not> cn_completed c" for j
    using descriptors_drop(2) [OF Cons.prems(1) m, of k "fst et"] that by (auto simp: ic map_of_erase)
  moreover have "i' \<noteq> i" if "(i', c') \<in> set cs" for i' c' using Cons.prems(2) that ic by force
  ultimately have s1: "descriptors_ok (snd (reap_entry k ic et))"
    and same: "\<And>j. j \<noteq> i \<or> cn_in_progress c \<or> \<not> cn_completed c \<Longrightarrow>
      map_of (ct_connections (snd (reap_entry k ic et))) j = map_of (ct_connections (snd et)) j"
    and neq: "\<And>i' c'. (i', c') \<in> set cs \<Longrightarrow> i' \<noteq> i" by blast+
  have rest: "map_of (ct_connections (snd (reap_entry k ic et))) i' = Some c'" if "(i', c') \<in> set cs" for i' c'
    using same [of i'] neq [OF that] Cons.prems(3) [of i' c'] that by simp
  have d: "distinct (map fst cs)" using Cons.prems(2) by simp
  have keep: "map_of (ct_connections (snd (reap_entry k ic et))) j = Some d"
    if "map_of (ct_connections (snd et)) j = Some d" "cn_in_progress d \<or> \<not> cn_completed d" for j d
    using same [of j] that m by (cases "j = i") auto
  from Cons.IH [OF s1 d rest] show ?case using keep by simp
qed simp

lemma descriptors_reap:
  assumes "descriptors_ok (snd et)"
  shows "descriptors_ok (snd (reap_completed k et))"
    and "map_of (ct_connections (snd et)) j = Some d \<Longrightarrow> cn_in_progress d \<or> \<not> cn_completed d \<Longrightarrow>
      map_of (ct_connections (snd (reap_completed k et))) j = Some d"
proof -
  have ok: "map_ok (ct_connections (snd et))" using assms by (simp add: descriptors_ok_def)
  note f = descriptors_reap_fold [OF assms, of "ct_connections (snd et)" k]
  have "map_of (ct_connections (snd et)) i = Some c" if "(i, c) \<in> set (ct_connections (snd et))" for i c
    using ok that by (simp add: map_ok_def)
  then show "descriptors_ok (snd (reap_completed k et))"
    "map_of (ct_connections (snd et)) j = Some d \<Longrightarrow> cn_in_progress d \<or> \<not> cn_completed d \<Longrightarrow>
      map_of (ct_connections (snd (reap_completed k et))) j = Some d"
    using f ok by (auto simp: reap_completed_def map_ok_def)
qed

lemma descriptors_await:
  assumes "descriptors_ok t" and "\<not> map_has (ct_connections t) i" and "0 \<le> fd"
    and "await_connect k i fd (e, t) = (st, e', t')"
  shows "descriptors_ok t'" and "map_of (ct_connections t) j = Some d \<Longrightarrow> map_of (ct_connections t') j = Some d"
proof -
  have i: "i \<notin> fst ` set (ct_connections t)" using assms(2) by (simp add: map_has_iff)
  show "descriptors_ok t'"
    using assms(1,3,4) i
    by (auto simp: await_connect_def Let_def descriptors_ok_def waiting_descriptors_def split: prod.splits if_splits)
  show "map_of (ct_connections t') j = Some d" if "map_of (ct_connections t) j = Some d"
    using assms(2,4) that
    by (auto simp: await_connect_def Let_def map_has_def split: prod.splits if_splits)
qed

lemma descriptors_submit:
  assumes "descriptors_ok t" and "\<forall>n fd. ck_socket k n = Inr fd \<longrightarrow> 0 \<le> fd"
    and "connect_submit lc k sub (e, t) = (st, answer, e', t')"
  shows "descriptors_ok t'"
    and "map_of (ct_connections t) j = Some d \<Longrightarrow> cn_in_progress d \<or> \<not> cn_completed d \<Longrightarrow>
      map_of (ct_connections t') j = Some d"
proof -
  obtain e1 t1 where r: "reap_completed k (e, t) = (e1, t1)" by fastforce
  have d1: "descriptors_ok t1" using descriptors_reap(1) [of "(e, t)" k] assms(1) by (simp add: r)
  have m1: "map_of (ct_connections t) j = Some d \<Longrightarrow> cn_in_progress d \<or> \<not> cn_completed d \<Longrightarrow>
      map_of (ct_connections t1) j = Some d" for j d
    using descriptors_reap(2) [of "(e, t)" j d k] assms(1) by (simp add: r)
  have "t' = t \<or> t' = t1 \<or> t' = called t1 \<or> (\<exists>fd. 0 \<le> fd \<and> \<not> map_has (ct_connections t1) (sub_id sub) \<and>
      await_connect k (sub_id sub) fd (e1, t1) = (st, e', t'))"
    using assms(3) assms(2)
    by (auto simp: connect_submit_def r Let_def split: if_splits option.splits sum.splits prod.splits)
  then show "descriptors_ok t'"
    and "map_of (ct_connections t) j = Some d \<Longrightarrow> cn_in_progress d \<or> \<not> cn_completed d \<Longrightarrow>
      map_of (ct_connections t') j = Some d"
    using assms(1) d1 m1 descriptors_await [OF d1] by auto
qed

lemma descriptors_cancel:
  assumes "descriptors_ok t" and "connect_cancel k i (e, t) = (e', t')"
  shows "descriptors_ok t'"
    and "map_of (ct_connections t) j = Some d \<Longrightarrow> cn_in_progress d \<or> (j \<noteq> i \<and> \<not> cn_completed d) \<Longrightarrow>
      map_of (ct_connections t') j = Some d"
proof -
  have "t' = t \<or> (\<exists>c. map_of (ct_connections t) i = Some c \<and> \<not> cn_in_progress c \<and> t' = snd (drop_connection k i c (e, t)))"
    using assms(2) by (auto simp: connect_cancel_def split: option.splits if_splits)
  then show "descriptors_ok t'"
    and "map_of (ct_connections t) j = Some d \<Longrightarrow> cn_in_progress d \<or> (j \<noteq> i \<and> \<not> cn_completed d) \<Longrightarrow>
      map_of (ct_connections t') j = Some d"
    using assms(1) descriptors_drop [OF assms(1), of i _ k e] by (auto simp: map_of_erase)
qed

lemma descriptors_put:
  assumes "map_ok (ct_connections t)" and "map_of (ct_connections t) i = Some c"
    and "\<forall>e\<in>set (ct_connections t). cn_completed (snd e) \<longleftrightarrow> cn_fd (snd e) < 0"
    and "cn_completed c' \<longleftrightarrow> cn_fd c' < 0"
    and "mset (ct_open t) = (if cn_completed c' then {#} else {#cn_fd c'#}) + waiting_descriptors (map_erase i (ct_connections t))"
  shows "descriptors_ok (t\<lparr>ct_connections := map_put i c' (ct_connections t)\<rparr>)"
proof -
  have "cn_completed (snd e) \<longleftrightarrow> cn_fd (snd e) < 0" if "e \<in> set (map_put i c' (ct_connections t))" for e
    using that assms(3,4) set_map_put_subset [of i c' "ct_connections t"] by auto
  then show ?thesis
    using assms(1,5) waiting_put [OF assms(1,2), of c'] by (simp add: descriptors_ok_def map_ok_put)
qed

lemma descriptors_finish:
  assumes "descriptors_ok t" and "connect_finish k i kind err (e, t) = (rs, e', t')"
  shows "descriptors_ok t'"
proof (cases "\<exists>c. map_of (ct_connections t) i = Some c \<and> \<not> cn_completed c")
  case False
  then have "t' = t" using assms(2) by (auto simp: connect_finish_def split: option.splits if_splits)
  then show ?thesis using assms(1) by simp
next
  case True
  then obtain c where c: "map_of (ct_connections t) i = Some c" "\<not> cn_completed c" by blast
  obtain c1 e1 t1 where cl: "close_connection k True (c\<lparr>cn_completed := True, cn_in_progress := True\<rparr>) (e, t) = (c1, e1, t1)"
    by (metis prod_cases3)
  note f = close_connection_fields [OF cl]
  have fd: "0 \<le> cn_fd c" using descriptors_connection [OF assms(1) c(1)] c(2) by auto
  have ok: "map_ok (ct_connections t)" using assms(1) by (simp add: descriptors_ok_def)
  have "mset (ct_open t1) = waiting_descriptors (map_erase i (ct_connections t))"
    using assms(1) waiting_erase [OF ok c(1)] c(2) fd by (simp add: f descriptors_ok_def)
  then have "descriptors_ok (t1\<lparr>ct_connections := map_put i c1 (ct_connections t1)\<rparr>)"
    using assms(1) c(1) by (intro descriptors_put [of t1 i c c1]) (simp_all add: f descriptors_ok_def)
  then show ?thesis using assms(2) c by (simp add: connect_finish_def Let_def cl)
qed

lemma descriptors_event:
  assumes "descriptors_ok t" and "connect_event k i (e, t) = (rs, e', t')"
  shows "descriptors_ok t'"
  using assms descriptors_finish [of "called t" k i _ _ e rs e' t']
  by (auto simp: connect_event_def split: option.splits sum.splits if_splits)

lemma descriptors_done:
  assumes "descriptors_ok t" and "connect_done i (e, t) = (e', t')"
  shows "descriptors_ok t'"
proof (cases "map_of (ct_connections t) i")
  case None
  then show ?thesis using assms by (simp add: connect_done_def)
next
  case (Some c)
  have "descriptors_ok (t\<lparr>ct_connections := map_put i (c\<lparr>cn_in_progress := False\<rparr>) (ct_connections t)\<rparr>)"
    using assms(1) Some descriptors_connection [OF assms(1) Some] waiting_erase [of "ct_connections t" i c]
    by (intro descriptors_put [of t i c]) (auto simp: descriptors_ok_def)
  then show ?thesis using assms(2) Some by (auto simp: connect_done_def)
qed

text \<open>The destructor closes whatever is open.\<close>

lemma destroy_fold:
  "ct_open (snd (fold (\<lambda>(i, c) et. snd (close_connection k False c et)) cs et)) =
     fold (\<lambda>(i, c) os. if cn_fd c \<ge> 0 then remove1 (cn_fd c) os else os) cs (ct_open (snd et))"
proof (induction cs arbitrary: et)
  case (Cons ic cs)
  obtain i c where ic: "ic = (i, c)" by fastforce
  obtain c' e' t' where cl: "close_connection k False c et = (c', e', t')" by (metis prod_cases3)
  then show ?case
    using Cons.IH close_connection_fields(5) [of k False c "fst et" "snd et" c' e' t'] by (simp add: ic)
qed simp

lemma remove_all_waiting:
  assumes "\<forall>e\<in>set cs. cn_completed (snd e) \<longleftrightarrow> cn_fd (snd e) < 0" and "mset os = waiting_descriptors cs"
  shows "fold (\<lambda>(i, c) os. if cn_fd c \<ge> 0 then remove1 (cn_fd c) os else os) cs os = []"
  using assms
proof (induction cs arbitrary: os)
  case (Cons ic cs)
  obtain i c where ic: "ic = (i, c)" by fastforce
  show ?case
    using Cons.IH [of "if cn_fd c \<ge> 0 then remove1 (cn_fd c) os else os"] Cons.prems
    by (auto simp: ic waiting_descriptors_def not_less)
qed (simp add: waiting_descriptors_def)

lemma destroy_closes: "descriptors_ok t \<Longrightarrow> ct_open (snd (connect_destroy k (e, t))) = []"
  using destroy_fold [of k "ct_connections t" "(e, t)"] remove_all_waiting [of "ct_connections t" "ct_open t"]
  by (auto simp: connect_destroy_def descriptors_ok_def split: prod.splits)

section \<open>Properties\<close>

text \<open>
  The states of a transport under any sequence of its operations, on whatever engine they meet;
  and the operations a scheduler may call while it is handed a response.
\<close>

inductive connect_reachable :: "libc \<Rightarrow> connect_kernel \<Rightarrow> connect_transport \<Rightarrow> bool" for lc k where
  created: "connect_reachable lc k new_connect_transport"
| submitted: "connect_reachable lc k t \<Longrightarrow> connect_submit lc k sub (e, t) = (st, answer, e', t') \<Longrightarrow>
    connect_reachable lc k t'"
| cancelled: "connect_reachable lc k t \<Longrightarrow> connect_cancel k i (e :: u64 sched_callback engine, t) = (e', t') \<Longrightarrow> connect_reachable lc k t'"
| evented: "connect_reachable lc k t \<Longrightarrow> connect_event k i (e :: u64 sched_callback engine, t) = (rs, e', t') \<Longrightarrow> connect_reachable lc k t'"
| answered: "connect_reachable lc k t \<Longrightarrow> connect_done i (e :: u64 sched_callback engine, t) = (e', t') \<Longrightarrow> connect_reachable lc k t'"

inductive connect_used :: "libc \<Rightarrow> connect_kernel \<Rightarrow> connect_transport \<Rightarrow> connect_transport \<Rightarrow> bool" for lc k t0 where
  unused: "connect_used lc k t0 t0"
| submits: "connect_used lc k t0 t \<Longrightarrow> connect_submit lc k sub (e, t) = (st, answer, e', t') \<Longrightarrow> connect_used lc k t0 t'"
| cancels: "connect_used lc k t0 t \<Longrightarrow> connect_cancel k i (e :: u64 sched_callback engine, t) = (e', t') \<Longrightarrow> connect_used lc k t0 t'"

lemma reachable_descriptors:
  assumes "\<forall>n fd. ck_socket k n = Inr fd \<longrightarrow> 0 \<le> fd" and "connect_reachable lc k t"
  shows "descriptors_ok t"
  using assms(2)
proof (induction rule: connect_reachable.induct)
  case created
  then show ?case by (simp add: descriptors_ok_def new_connect_transport_def waiting_descriptors_def)
next
  case (submitted t sub e st answer e' t')
  show ?case by (rule descriptors_submit(1) [OF submitted.IH assms(1) submitted.hyps(2)])
qed (auto intro: descriptors_cancel(1) descriptors_event descriptors_done)

lemma used_descriptors:
  assumes "\<forall>n fd. ck_socket k n = Inr fd \<longrightarrow> 0 \<le> fd" and "connect_used lc k t0 t" and "descriptors_ok t0"
    and "map_of (ct_connections t0) i = Some c" and "cn_in_progress c"
  shows "descriptors_ok t \<and> map_of (ct_connections t) i = Some c"
  using assms(2)
proof (induction rule: connect_used.induct)
  case (submits t sub e st answer e' t')
  then show ?case
    using descriptors_submit [OF _ assms(1) submits.hyps(2)] assms(5) by blast
next
  case (cancels t j e e' t')
  then show ?case using descriptors_cancel [OF _ cancels.hyps(2)] assms(5) by blast
qed (use assms in simp)

text \<open>
  Property C9. The connect transport never leaks a descriptor: in every reachable state the
  descriptors it holds are exactly those of the connections still being made, whichever calls
  failed before, and its destructor leaves none open.
\<close>

theorem connect_descriptors_accounted:
  assumes "\<forall>n fd. ck_socket k n = Inr fd \<longrightarrow> 0 \<le> fd" and "connect_reachable lc k t"
  shows "mset (ct_open t) = image_mset (cn_fd \<circ> snd) (filter_mset (\<lambda>e. \<not> cn_completed (snd e)) (mset (ct_connections t)))
    \<and> ct_open (snd (connect_destroy k (e, t))) = []"
proof -
  have "descriptors_ok t" using reachable_descriptors [of k lc t] assms by blast
  then show ?thesis using destroy_closes [of t k e] by (simp add: descriptors_ok_def waiting_descriptors_def)
qed

text \<open>A kernel on which every connection takes a while and then succeeds.\<close>

definition slow_kernel :: connect_kernel where
  "slow_kernel = \<lparr>ck_socket = (\<lambda>n. Inr (5 + int n)), ck_nonblocking = (\<lambda>_. Ok), ck_connect = (\<lambda>_. EINPROGRESS),
     ck_add = (\<lambda>_. True), ck_delete = (\<lambda>_. (True, False)), ck_so_error = (\<lambda>_. Inr 0), ck_now = (\<lambda>n. 1000 + int n)\<rparr>"

definition connect_probe_1 :: port_submission where
  "connect_probe_1 = new_submission\<lparr>sub_id := 1, sub_probe := TcpConnect, sub_target := ''192.0.2.7'',
     sub_port := probed_port, sub_target_ip := from_ipv4 0xC0000207\<rparr>"

definition connecting_once :: "u64 sched_callback engine \<times> connect_transport" where
  "connecting_once = snd (snd (connect_submit no_libc slow_kernel connect_probe_1 (new_engine True, new_connect_transport)))"

lemmas connect_eval = connecting_once_def connect_submit_def connect_probe_1_def probed_port_def connect_supports_def
  new_submission_def reap_completed_def new_connect_transport_def submission_address_def from_ipv4_def ip_valid_def
  is_ipv4_def is_ipv6_def address_usable_def slow_kernel_def await_connect_def fresh_event_def new_engine_def
  create_event_def engine_add_def has_event_def Let_def called_def connect_event_def connect_finish_def
  connect_response_def close_connection_def remove_event_def event_registered_def close_descriptor_def engine_remove_def

lemma connecting_once_eq:
  "connect_submit no_libc slow_kernel connect_probe_1 (new_engine True, new_connect_transport) =
     (Ok, None, connecting_once)"
  by (simp add: connect_eval)

theorem connect_descriptors_accounted_witness:
  "ct_open (snd connecting_once) = [5] \<and> ct_open (snd (connect_destroy slow_kernel connecting_once)) = []"
proof -
  have r: "connect_reachable no_libc slow_kernel (snd connecting_once)"
    using submitted [OF created, where e = "new_engine True" and e' = "fst connecting_once"] connecting_once_eq by simp
  have c: "ct_connections (snd connecting_once) = [(1, \<lparr>cn_fd = 5, cn_event = Some 1, cn_completed = False, cn_in_progress = False\<rparr>)]"
    by (simp add: connect_eval)
  show ?thesis
    using connect_descriptors_accounted [OF _ r, of "fst connecting_once"] by (simp add: c) (simp add: slow_kernel_def)
qed

text \<open>
  Property C10. While a connection hands its outcome to the scheduler, nothing the scheduler
  calls on the transport (submissions that reap completed connections, cancellations, of this
  probe or of others) frees it: the object the transport writes to after the callback is alive.
\<close>

theorem connect_survives_callback:
  assumes "\<forall>n fd. ck_socket k n = Inr fd \<longrightarrow> 0 \<le> fd" and "connect_reachable lc k t"
    and "connect_event k i (e :: u64 sched_callback engine, t) = (r # rs, e1, t1)" and "connect_used lc k t1 t2"
  shows "rs = [] \<and> rsp_id r = i \<and>
    (\<exists>c. map_of (ct_connections t2) i = Some c \<and> cn_in_progress c \<and> cn_completed c \<and> cn_fd c < 0)"
proof -
  have d: "descriptors_ok t" by (rule reachable_descriptors [OF assms(1,2)])
  obtain kind err where f: "connect_finish k i kind err (e, called t) = (r # rs, e1, t1)"
    using assms(3) by (auto simp: connect_event_def split: option.splits sum.splits if_splits)
  then obtain c where c: "map_of (ct_connections t) i = Some c"
    by (auto simp: connect_finish_def split: option.splits)
  obtain c1 e2 t2' where cl: "close_connection k True (c\<lparr>cn_completed := True, cn_in_progress := True\<rparr>) (e, called t) = (c1, e2, t2')"
    by (metis prod_cases3)
  note fields = close_connection_fields [OF cl]
  have "rs = [] \<and> rsp_id r = i \<and> t1 = t2'\<lparr>ct_connections := map_put i c1 (ct_connections t2')\<rparr>"
    using f c by (auto simp: connect_finish_def Let_def cl connect_response_def split: if_splits)
  moreover from this have "map_of (ct_connections t1) i = Some c1" by (simp add: map_of_put)
  moreover have "descriptors_ok t1" by (rule descriptors_event [OF d assms(3)])
  ultimately show ?thesis
    using used_descriptors [OF assms(1,4), of i c1] fields by simp
qed

theorem connect_survives_callback_witness:
  "\<exists>r e1 t1 c. connect_event slow_kernel 1 connecting_once = ([r], e1, t1) \<and> rsp_kind r = Connected \<and>
     map_of (ct_connections (snd (connect_cancel slow_kernel 1 (e1, t1)))) 1 = Some c \<and> cn_in_progress c"
proof -
  obtain r rs e1 t1 where ev: "connect_event slow_kernel 1 connecting_once = (r # rs, e1, t1)" "rsp_kind r = Connected"
    by (simp add: connect_eval)
  have r: "connect_reachable no_libc slow_kernel (snd connecting_once)"
    using submitted [OF created, where e = "new_engine True" and e' = "fst connecting_once"] connecting_once_eq by simp
  have u: "connect_used no_libc slow_kernel t1 (snd (connect_cancel slow_kernel 1 (e1, t1)))"
    by (rule cancels [OF unused, where e = e1 and e' = "fst (connect_cancel slow_kernel 1 (e1, t1))"]) simp
  have "rs = [] \<and> rsp_id r = 1 \<and> (\<exists>c. map_of (ct_connections (snd (connect_cancel slow_kernel 1 (e1, t1)))) 1 = Some c \<and>
      cn_in_progress c \<and> cn_completed c \<and> cn_fd c < 0)"
    using connect_survives_callback [OF _ r, of 1 "fst connecting_once" r rs e1 t1] ev(1) u
    by (simp add: slow_kernel_def)
  then show ?thesis using ev by auto
qed

end
