(* ===== verification/Port_Scan.thy ===== *)
theory Port_Scan
  imports Port_Confirmation Connect_Transport
begin

text \<open>
  The port scan as a whole: the scheduler on the reactor's loop (\<open>run\<close>, \<open>run_once\<close>), its
  destructor, and the properties of a scan from \<open>submit\<close> to the return of \<open>run\<close>.
\<close>

section \<open>The scheduler on the reactor\<close>

text \<open>
  What the engine's call of a callback does to the scheduler. The handlers are total, so \<open>the\<close>
  never meets \<open>None\<close>.
\<close>

fun handle :: "('x, 't) scan_env \<Rightarrow> 'x sched_callback \<Rightarrow> ('x, 't) scheduler \<Rightarrow> ('x, 't) scheduler" where
  "handle env (OnTimeout i) s = the (on_timeout (pump env) env i s)"
| "handle env (OnRetryReady i) s = the (on_retry_ready (pump env) i s)"
| "handle env (TransportEvent x) s =
     (case env_event env x (ss_engine s, ss_transport s) of (answers, e, t) \<Rightarrow>
       let s1 = fold (\<lambda>r s. the (receive (pump env) env r s)) answers (s\<lparr>ss_engine := e, ss_transport := t\<rparr>)
       in case env_done env x (ss_engine s1, ss_transport s1) of (e', t') \<Rightarrow>
         s1\<lparr>ss_engine := e', ss_transport := t'\<rparr>)"

definition scan_embedding :: "('x, 't) scan_env \<Rightarrow> (('x, 't) scheduler, 'x sched_callback) embedding" where
  "scan_embedding env =
     \<lparr>get_engine = ss_engine, put_engine = (\<lambda>e s. s\<lparr>ss_engine := e\<rparr>), read_clock = read_now env, call = handle env\<rparr>"

lemma embedding_fields [simp]:
  "get_engine (scan_embedding env) = ss_engine" "put_engine (scan_embedding env) = (\<lambda>e s. s\<lparr>ss_engine := e\<rparr>)"
  "read_clock (scan_embedding env) = read_now env" "call (scan_embedding env) = handle env"
  by (simp_all add: scan_embedding_def)

interpretation scan_host: engine_host "scan_embedding env" for env
  by unfold_locales (simp_all add: read_now_def)

definition note_run_status :: "status_code \<Rightarrow> ('x, 't) scheduler \<Rightarrow> status_code \<times> ('x, 't) scheduler" where
  "note_run_status st s =
     (let s1 = (if ss_status s = Ok \<and> st \<noteq> Ok then s\<lparr>ss_status := st\<rparr> else s) in (ss_status s1, s1))"

definition scheduler_run ::
  "('x, 't) scan_env \<Rightarrow> poll list \<Rightarrow> ('x, 't) scheduler \<Rightarrow> (status_code \<times> ('x, 't) scheduler) option" where
  "scheduler_run env polls s =
     (if \<not> ss_submitted s then Some (InvalidArgument, s)
      else map_option (\<lambda>(st, s1). note_run_status st s1) (engine_run (scan_embedding env) polls s))"

definition scheduler_run_once ::
  "('x, 't) scan_env \<Rightarrow> poll \<Rightarrow> ('x, 't) scheduler \<Rightarrow> (status_code \<times> ('x, 't) scheduler) option" where
  "scheduler_run_once env p s =
     (if \<not> ss_submitted s then Some (InvalidArgument, s)
      else map_option (\<lambda>(st, s1). note_run_status st s1) (engine_run_once (scan_embedding env) p s))"

text \<open>The destructor.\<close>

definition scheduler_destroy :: "('x, 't) scan_env \<Rightarrow> ('x, 't) scheduler \<Rightarrow> ('x, 't) scheduler" where
  "scheduler_destroy env s =
     (let s1 = fold (\<lambda>(i, p) s. cancel_probe env i (cancel_timer (pd_timer p) s)) (ss_pending s) s;
          s2 = fold (\<lambda>(i, d) s. cancel_timer (df_timer d) s) (ss_deferred s1) s1
      in s2\<lparr>ss_pending := [], ss_deferred := [], ss_queue := []\<rparr>)"

section \<open>The loop of the reactor is a run of the scan\<close>

lemma scan_run_step: "scan_step env fired s s' \<Longrightarrow> \<exists>n. scan_run env n s s'"
  using scan_run.step [OF scan_run.start] by blast

lemma scan_run_trans:
  assumes "scan_run env m s s'" and "scan_run env n s' s''"
  shows "\<exists>k. scan_run env k s s''"
  using assms(2,1) by (induction rule: scan_run.induct) (blast intro: scan_run.step)+

definition leads_to :: "('x, 't) scan_env \<Rightarrow> ('x, 't) scheduler \<Rightarrow> ('x, 't) scheduler \<Rightarrow> bool" where
  "leads_to env s s' \<longleftrightarrow> (\<exists>n. scan_run env n s s')"

lemma leads_refl [simp]: "leads_to env s s"
  using scan_run.start [of env s] by (auto simp: leads_to_def)

lemma leads_trans: "leads_to env s s' \<Longrightarrow> leads_to env s' s'' \<Longrightarrow> leads_to env s s''"
  using scan_run_trans by (fastforce simp: leads_to_def)

lemma leads_step: "scan_step env fired s s' \<Longrightarrow> leads_to env s s'"
  using scan_run_step by (fastforce simp: leads_to_def)

lemma leads_engine: "timers_kept (ss_engine s) e \<Longrightarrow> leads_to env s (s\<lparr>ss_engine := e\<rparr>)"
  by (rule leads_step [OF engine])

lemma leads_receive: "leads_to env s (the (receive (pump env) env r s))"
  using handlers_total(1) [of env r s] by (intro leads_step [OF response]) simp

lemma leads_transport: "leads_to env s (handle env (TransportEvent x) s)"
proof -
  obtain answers e t where ev: "env_event env x (ss_engine s, ss_transport s) = (answers, e, t)" by (metis prod_cases3)
  let ?s0 = "s\<lparr>ss_engine := e, ss_transport := t\<rparr>"
  have "leads_to env ?s0 (fold (\<lambda>r s. the (receive (pump env) env r s)) rs ?s0)" for rs
  proof (induction rs rule: rev_induct)
    case (snoc r rs)
    from leads_trans [OF snoc leads_receive] show ?case by simp
  qed simp
  then have h: "leads_to env s (fold (\<lambda>r s. the (receive (pump env) env r s)) answers ?s0)"
    by (rule leads_trans [OF leads_step [OF transport_event [OF ev]]])
  obtain e' t' where dn: "env_done env x
      (ss_engine (fold (\<lambda>r s. the (receive (pump env) env r s)) answers ?s0),
       ss_transport (fold (\<lambda>r s. the (receive (pump env) env r s)) answers ?s0)) = (e', t')" by fastforce
  from h have "leads_to env s
      ((fold (\<lambda>r s. the (receive (pump env) env r s)) answers ?s0)\<lparr>ss_engine := e', ss_transport := t'\<rparr>)"
    by (rule leads_trans [OF _ leads_step [OF transport_done [OF dn]]])
  then show ?thesis by (simp add: ev dn Let_def)
qed

lemma leads_fires:
  assumes "dispatch_turn now (ss_engine s) = TurnFires cb e"
  shows "leads_to env s (handle env cb (s\<lparr>ss_engine := e\<rparr>))"
proof (cases cb)
  case (OnTimeout i)
  have "on_timeout (pump env) env i (s\<lparr>ss_engine := e\<rparr>) = Some (handle env cb (s\<lparr>ss_engine := e\<rparr>))"
    using handlers_total(2) [of env i "s\<lparr>ss_engine := e\<rparr>"] by (simp add: OnTimeout)
  from leads_step [OF timeout [OF assms [unfolded OnTimeout] this]] show ?thesis .
next
  case (OnRetryReady i)
  have "on_retry_ready (pump env) i (s\<lparr>ss_engine := e\<rparr>) = Some (handle env cb (s\<lparr>ss_engine := e\<rparr>))"
    using handlers_total(3) [of env i "s\<lparr>ss_engine := e\<rparr>"] by (simp add: OnRetryReady)
  from leads_step [OF retry [OF assms [unfolded OnRetryReady] this]] show ?thesis .
next
  case (TransportEvent x)
  from leads_trans [OF leads_step [OF transport_timer [OF assms [unfolded TransportEvent]]] leads_transport]
  show ?thesis unfolding TransportEvent .
qed

sublocale scan_transport < loop: engine_steps "scan_embedding env" "leads_to env" timers_inv_of
proof unfold_locales
  fix s :: "('x, 't) scheduler" and s' now cb e
  show "leads_to env s s' \<Longrightarrow> timers_inv_of s \<Longrightarrow> timers_inv_of s'"
    using timers.run_inv by (auto simp: leads_to_def)
  show "timers_inv_of s \<Longrightarrow> wired (get_engine (scan_embedding env) s)"
    by (simp add: timers_inv_of_def timers_ok_def timers_match_def)
  show "leads_to env s (snd (read_clock (scan_embedding env) s))"
    by (simp add: read_now_def leads_step [OF clock])
  show "leads_to env s (call (scan_embedding env) cb (put_engine (scan_embedding env) e s))"
    if "dispatch_turn now (get_engine (scan_embedding env) s) = TurnFires cb e"
    using leads_fires that by simp
  show "leads_to env s (call (scan_embedding env) (TransportEvent x) s)" for x
    unfolding embedding_fields by (rule leads_transport)
qed (auto simp: leads_engine intro: leads_trans)

context scan_transport begin

lemma leads_run:
  assumes "engine_run (scan_embedding env) polls s = Some (st, s')" and "timers_inv_of s"
  shows "leads_to env s s' \<and>
    (st = Ok \<longrightarrow> (eng_stopped (ss_engine s') \<or> idle (ss_engine s')) \<and>
       (\<exists>s1. \<not> eng_stopped (ss_engine s1) \<and> leads_to env s1 s'))"
  using loop.leads_run [OF assms] by auto

end

section \<open>What holds throughout a scan\<close>

lemma scan_throughout:
  assumes "scan_transport env" and "scan_started env e t cfg target ports s0" and "scan_run env n s0 s"
  shows "ledger_is (requested target ports) s"
    and "scan_ok env (cfg_method cfg) (cfg_max_outstanding cfg) (scan_retries cfg) s"
    and "timers_inv_of s" and "going s" and "ss_submitted s"
    and "n \<le> length (resolved_hosts target) * length ports * (3 * scan_retries cfg + 2)"
proof -
  note i = scan_transport.started_inv [OF assms(1,2)]
  have b: "bounded env (cfg_method cfg) (cfg_max_outstanding cfg) (scan_retries cfg) (requested target ports)
      (length (resolved_hosts target) * length ports * (3 * scan_retries cfg + 2) - n) s"
    and n: "n \<le> length (resolved_hosts target) * length ports * (3 * scan_retries cfg + 2)"
    using scan_transport.run_bounded [OF assms(1,3) i(1,2)] by blast+
  from b show "ledger_is (requested target ports) s"
    "scan_ok env (cfg_method cfg) (cfg_max_outstanding cfg) (scan_retries cfg) s" by (simp_all add: bounded_def)
  show "n \<le> length (resolved_hosts target) * length ports * (3 * scan_retries cfg + 2)" by (rule n)
  show "timers_inv_of s" by (rule scan_transport.run_timers [OF assms(1,3) i(2)])
  have "scan_ok env (cfg_method cfg) (cfg_max_outstanding cfg) (scan_retries cfg) s0" using i(1) by (simp add: bounded_def)
  from scan_transport.run_going [OF assms(1,3) this i(2,3)] show "going s" .
  show "ss_submitted s" using run_submitted [OF assms(3)] assms(2) by (simp add: scan_started_def)
qed

lemma ledger_complete: "ledger_is l s \<Longrightarrow> complete s \<Longrightarrow> image_mset result_key (mset (ss_results s)) = l"
  by (simp add: ledger_is_def ledger_def complete_def)

subsection \<open>A scan of one port\<close>

text \<open>
  The fixture of the examples: a connect scan of one port over the recording transport, whose
  clock advances by ten seconds with every reading.
\<close>

definition demo_config :: port_scan_config where
  "demo_config = default_port_scan_config\<lparr>cfg_method := TcpConnect, cfg_retries := 0\<rparr>"

definition demo_env :: "(unit, unit recording_transport) scan_env" where
  "demo_env = recording_env no_libc (\<lambda>n. 10000000000 * int n)"

definition demo_target :: target where
  "demo_target = \<lparr>original_specification = ''192.0.2.7'', resolved_hosts = [probed_host]\<rparr>"

definition demo_scan :: "(unit, unit recording_transport) scheduler" where
  "demo_scan = snd (the (submit demo_env demo_target [probed_port]
     (new_scheduler demo_env (new_engine True) \<lparr>rec_submissions = [], rec_callbacks = []\<rparr> demo_config)))"

lemmas scan_eval = submit_def Let_def new_scheduler_def demo_env_def demo_target_def recording_env_def demo_config_def
  default_port_scan_config_def validate_config_def recording_supports_def new_engine_def probed_port_def probed_host_def
  enqueue_host.simps valid_host_address_def from_ipv4_def ip_valid_def is_ipv4_def is_ipv6_def pump_def pump_within_def
  pump_loop.simps pump_limit_def pump_turn_def new_work_def connect_probe_def connect_build_def probe_address_def
  launch_probe_def read_now_def schedule_ms_def probe_timeout_def engine_schedule_def map_emplace_def map_has_def
  submit_probe_def recording_submit_def timing_submitted_def update_timing_def stop_if_idle_def new_submission_def
  ns_per_ms_def

lemma demo_started: "\<exists>s. submit demo_env demo_target [probed_port]
     (new_scheduler demo_env (new_engine True) \<lparr>rec_submissions = [], rec_callbacks = []\<rparr> demo_config) = Some (Ok, s)
    \<and> ss_submitted s"
  by (simp add: scan_eval)

lemma demo_is_started:
  "scan_started demo_env (new_engine True) \<lparr>rec_submissions = [], rec_callbacks = []\<rparr> demo_config demo_target
     [probed_port] demo_scan"
proof -
  obtain s where s: "submit demo_env demo_target [probed_port] (new_scheduler demo_env (new_engine True)
      \<lparr>rec_submissions = [], rec_callbacks = []\<rparr> demo_config) = Some (Ok, s)" "ss_submitted s"
    using demo_started by blast
  have "timers_match (new_engine True) [] []"
    by (simp add: timers_match_def wired_def timers_inv_new timer_for_def) (simp add: new_engine_def)
  moreover have "valid_host_address (env_libc demo_env) probed_host"
    by (simp add: demo_env_def recording_env_def valid_host_address_def probed_host_def from_ipv4_def ip_valid_def is_ipv4_def)
  ultimately show ?thesis using s by (simp add: scan_started_def demo_scan_def demo_target_def)
qed

lemma demo_transport: "scan_transport demo_env"
  unfolding demo_env_def by (rule recording.scan_transport_axioms)

lemmas run_eval = scheduler_run_def engine_run_def run_loop.simps run_once_impl_def idle_def set_running_def
  dispatch_timers.simps dispatch_turn_def on_timeout_def finish_attempt_def finish_work_def should_confirm_negative_def
  observe_negative_def max_retries_def append_terminal_result_def engine_stop_def cancel_probe_def erase_pending_def
  map_erase_def timing_timeout_def recording_cancel_def note_run_status_def

lemma demo_runs: "\<exists>s. scheduler_run demo_env [Interrupted] demo_scan = Some (Ok, s)"
  by (simp add: demo_scan_def scan_eval) (simp add: run_eval scan_eval)

section \<open>Properties of a scan\<close>

text \<open>
  Property C1. When \<open>run\<close> returns success, the scan is complete and every requested pair of a
  host and a port has exactly one result (as often as it was requested), whatever responses, events
  and timers the loop met, over any transport that keeps its hands off the scheduler's timers.
\<close>

theorem run_reports_every_port:
  assumes "scan_transport env" and "scan_started env e t cfg target ports s0"
    and "scheduler_run env polls s0 = Some (Ok, s)"
  shows "complete s \<and> image_mset result_key (mset (ss_results s)) = requested target ports"
proof -
  have inv: "timers_inv_of s0" by (rule scan_transport.started_inv(2) [OF assms(1,2)])
  obtain st s1 where run: "engine_run (scan_embedding env) polls s0 = Some (st, s1)" "note_run_status st s1 = (Ok, s)"
    using assms(3) by (auto simp: scheduler_run_def split: if_splits)
  then have ok: "st = Ok" "s = s1" "ss_status s = Ok" by (auto simp: note_run_status_def Let_def split: if_splits)
  have l: "leads_to env s0 s" and stop: "eng_stopped (ss_engine s) \<or> idle (ss_engine s)"
    and fresh: "\<exists>s1. \<not> eng_stopped (ss_engine s1) \<and> leads_to env s1 s"
    using scan_transport.leads_run [OF assms(1) run(1) inv] ok by blast+
  obtain n where n: "scan_run env n s0 s" using l by (auto simp: leads_to_def)
  note th = scan_throughout [OF assms(1,2) n]
  have "complete s"
  proof (cases "eng_stopped (ss_engine s)")
    case True
    obtain s2 k where s2: "\<not> eng_stopped (ss_engine s2)" "scan_run env k s2 s" using fresh by (auto simp: leads_to_def)
    then have "stopped_ok s2" by (simp add: stopped_ok_def)
    then have "stopped_ok s" by (rule scan_transport.run_stopped [OF assms(1) s2(2)])
    then show ?thesis using True by (simp add: stopped_ok_def)
  next
    case False
    then have "eng_timers (ss_engine s) = []" using stop by (simp add: idle_def)
    then show ?thesis using going_has_timer [OF th(4,3) ok(3) th(5)] by (auto simp: timer_for_def)
  qed
  then show ?thesis using ledger_complete [OF th(1)] by blast
qed

theorem run_reports_every_port_witness:
  "\<exists>s. scheduler_run demo_env [Interrupted] demo_scan = Some (Ok, s) \<and> complete s \<and>
     image_mset result_key (mset (ss_results s)) = {#(''192.0.2.7'', probed_port)#}"
proof -
  obtain s where s: "scheduler_run demo_env [Interrupted] demo_scan = Some (Ok, s)" using demo_runs by blast
  from run_reports_every_port [OF demo_transport demo_is_started s] s show ?thesis
    by (auto simp: requested_def demo_target_def probed_host_def)
qed

text \<open>
  Property C2. At every moment of a scan each requested pair of a host and a port is in exactly
  one place, as often as it was requested: in the queue, in flight, waiting for a retry, or
  reported. No response, timer or failure loses or duplicates one.
\<close>

theorem scan_accounts_for_every_port:
  assumes "scan_transport env" and "scan_started env e t cfg target ports s0" and "scan_run env n s0 s"
  shows "image_mset work_key (mset (ss_queue s)) +
      image_mset (\<lambda>e. work_key (pd_work (snd e))) (mset (ss_pending s)) +
      image_mset (\<lambda>e. work_key (df_work (snd e))) (mset (ss_deferred s)) +
      image_mset result_key (mset (ss_results s)) = requested target ports"
  using scan_throughout(1) [OF assms] by (simp add: ledger_is_def ledger_def comp_def)

theorem scan_accounts_for_every_port_witness:
  "image_mset work_key (mset (ss_queue demo_scan)) +
      image_mset (\<lambda>e. work_key (pd_work (snd e))) (mset (ss_pending demo_scan)) +
      image_mset (\<lambda>e. work_key (df_work (snd e))) (mset (ss_deferred demo_scan)) +
      image_mset result_key (mset (ss_results demo_scan)) = {#(''192.0.2.7'', probed_port)#}"
  using scan_accounts_for_every_port [OF demo_transport demo_is_started scan_run.start]
  by (simp add: requested_def demo_target_def probed_host_def)

text \<open>A scan that may retry once, whose first attempt times out: the retry is in flight.\<close>

definition retry_scan :: "(unit, unit recording_transport) scheduler" where
  "retry_scan = snd (the (submit demo_env demo_target [probed_port]
     (new_scheduler demo_env (new_engine True) \<lparr>rec_submissions = [], rec_callbacks = []\<rparr> (demo_config\<lparr>cfg_retries := 1\<rparr>))))"

lemma retry_is_started:
  "scan_started demo_env (new_engine True) \<lparr>rec_submissions = [], rec_callbacks = []\<rparr> (demo_config\<lparr>cfg_retries := 1\<rparr>)
     demo_target [probed_port] retry_scan"
proof -
  have "\<exists>s. submit demo_env demo_target [probed_port] (new_scheduler demo_env (new_engine True)
      \<lparr>rec_submissions = [], rec_callbacks = []\<rparr> (demo_config\<lparr>cfg_retries := 1\<rparr>)) = Some (Ok, s) \<and> ss_submitted s"
    by (simp add: scan_eval)
  then show ?thesis using demo_is_started by (auto simp: scan_started_def retry_scan_def)
qed

lemmas retry_eval = on_retry_ready_def retry_or_fail_def defer_retry_def tc_update_metrics_def

lemma retry_steps:
  "\<exists>e s e' s'. dispatch_turn 100000000000 (ss_engine retry_scan) = TurnFires (OnTimeout 1) e \<and>
     on_timeout (pump demo_env) demo_env 1 (retry_scan\<lparr>ss_engine := e\<rparr>) = Some s \<and>
     dispatch_turn 100000000000 (ss_engine s) = TurnFires (OnRetryReady 1) e' \<and>
     on_retry_ready (pump demo_env) 1 (s\<lparr>ss_engine := e'\<rparr>) = Some s' \<and>
     (\<exists>p. map_of (ss_pending s') 2 = Some p \<and> wk_retry_count (pd_work p) = 1 \<and> negative_counts (pd_work p) = one_negative PsFiltered)"
  by (simp add: retry_scan_def scan_eval) (simp add: run_eval scan_eval retry_eval negative_counts_def one_negative_def)

lemma retry_in_flight:
  "\<exists>s p. scan_run demo_env 2 retry_scan s \<and> map_of (ss_pending s) 2 = Some p \<and> wk_retry_count (pd_work p) = 1 \<and>
     negative_counts (pd_work p) = one_negative PsFiltered"
proof -
  obtain e s e' s' p where st: "dispatch_turn 100000000000 (ss_engine retry_scan) = TurnFires (OnTimeout 1) e"
     "on_timeout (pump demo_env) demo_env 1 (retry_scan\<lparr>ss_engine := e\<rparr>) = Some s"
     "dispatch_turn 100000000000 (ss_engine s) = TurnFires (OnRetryReady 1) e'"
     "on_retry_ready (pump demo_env) 1 (s\<lparr>ss_engine := e'\<rparr>) = Some s'"
     "map_of (ss_pending s') 2 = Some p" "wk_retry_count (pd_work p) = 1" "negative_counts (pd_work p) = one_negative PsFiltered"
    using retry_steps by blast
  from scan_run.step [OF scan_run.step [OF scan_run.start timeout [OF st(1,2)]] retry [OF st(3,4)]]
  have "scan_run demo_env 2 retry_scan s'" by (simp add: numeral_2_eq_2)
  then show ?thesis using st(5-7) by blast
qed

text \<open>
  Property C6. Every result of a scan carries the method of the scan, a TCP port, a state and a
  reason the result table admits, and no more retries than configured; and the probes in flight never
  exceed the configured limit. A connect scan that may retry confirms a port closed or filtered: such
  a result comes from the second attempt, and when an attempt ends with a refusal or a timeout (a
  response that says so, or the timer), the first one is never reported but asked again and
  remembered, the second one is reported when it agrees with the first, and the port is unknown when
  it does not. A scan without retries, which is the default, reports the first observation.
  (\<open>Some\<close> stands for the pump that takes over the state the handler leaves.)
\<close>

theorem scan_results_sound:
  assumes "scan_transport env" and "scan_started env e t cfg target ports s0" and "scan_run env n s0 s"
  shows "(\<forall>r\<in>set (ss_results s).
      res_probe r = cfg_method cfg \<and> port_protocol (res_port r) = Tcp \<and>
      valid_port_result_semantics Tcp (cfg_method cfg) (res_state r) (res_reason r) \<and>
      res_retry_count r \<le> scan_retries cfg \<and>
      (cfg_method cfg = TcpConnect \<and> (res_state r = PsClosed \<or> res_state r = PsFiltered) \<longrightarrow>
         res_retry_count r = (if scan_retries cfg = 0 then 0 else 1))) \<and>
    length (ss_pending s) \<le> cfg_max_outstanding cfg \<and>
    (cfg_method cfg = TcpConnect \<longrightarrow> (\<forall>i p. map_of (ss_pending s) i = Some p \<longrightarrow>
      attempted (pd_work p) \<and>
      (\<forall>st rs instant s'. (st, rs) = (PsClosed, RsnConnectionRefused) \<or> (st, rs) = (PsFiltered, RsnTimeout) \<longrightarrow>
         complete_pending Some env i st rs instant s = Some s' \<longrightarrow>
         negative_settled (scan_retries cfg) (pd_work p) st rs s s') \<and>
      (\<forall>s'. on_timeout Some env i s = Some s' \<longrightarrow>
         negative_settled (scan_retries cfg) (pd_work p) PsFiltered RsnTimeout s s')))"
proof -
  note ok = scan_throughout(2) [OF assms]
  show ?thesis
  proof (cases "cfg_method cfg = TcpConnect")
    case False
    then show ?thesis using ok by (simp add: scan_ok_def result_ok_def)
  next
    case True
    have c: "confirming env (cfg_max_outstanding cfg) (scan_retries cfg) s"
      by (rule confirms.run_inv [OF assms(3) started_confirming [OF assms(2) True]])
    have once: "res_retry_count r = (if scan_retries cfg = 0 then 0 else 1)"
      if "r \<in> set (ss_results s)" "res_state r = PsClosed \<or> res_state r = PsFiltered" for r
    proof -
      have "result_ok TcpConnect (scan_retries cfg) r" using that(1) ok True by (simp add: scan_ok_def)
      then show ?thesis using that(2) confirming_parts(6) [OF c that(1)] by (auto simp: result_ok_def)
    qed
    have settles: "negative_settled (scan_retries cfg) (pd_work p) st rs s s'"
      if "map_of (ss_pending s) i = Some p" "(st, rs) = (PsClosed, RsnConnectionRefused) \<or> (st, rs) = (PsFiltered, RsnTimeout)"
        "complete_pending Some env i st rs instant s = Some s'" for i p st rs instant s'
      using that(2) by (intro completion_settles [OF c that(1) _ that(3)]) (auto simp: should_confirm_negative_def)
    have "attempted (pd_work p)" if "map_of (ss_pending s) i = Some p" for i p
      using confirming_parts(3) [OF c map_of_SomeD [OF that]] by simp
    then show ?thesis using ok once settles timeout_settles [OF c] by (simp add: scan_ok_def result_ok_def)
  qed
qed

theorem scan_results_sound_witness:
  "\<exists>s p. scan_run demo_env 2 retry_scan s \<and> map_of (ss_pending s) 2 = Some p \<and>
     (\<exists>s'. on_timeout Some demo_env 2 s = Some s' \<and> reported (PsFiltered, RsnTimeout) s s') \<and>
     (\<exists>s'. complete_pending Some demo_env 2 PsClosed RsnConnectionRefused 0 s = Some s' \<and>
        reported (PsUnknown, RsnConflictingEvidence) s s')"
proof -
  obtain s p where s: "scan_run demo_env 2 retry_scan s" "map_of (ss_pending s) 2 = Some p"
    "wk_retry_count (pd_work p) = 1" "negative_counts (pd_work p) = one_negative PsFiltered"
    using retry_in_flight by blast
  have cfg: "cfg_method (demo_config\<lparr>cfg_retries := 1\<rparr>) = TcpConnect" "scan_retries (demo_config\<lparr>cfg_retries := 1\<rparr>) = 1"
    by (simp_all add: demo_config_def default_port_scan_config_def scan_retries_def)
  from scan_results_sound [OF demo_transport retry_is_started s(1)] s(2) cfg
  have "\<forall>s'. on_timeout Some demo_env 2 s = Some s' \<longrightarrow> negative_settled 1 (pd_work p) PsFiltered RsnTimeout s s'"
    "\<forall>s'. complete_pending Some demo_env 2 PsClosed RsnConnectionRefused 0 s = Some s' \<longrightarrow>
       negative_settled 1 (pd_work p) PsClosed RsnConnectionRefused s s'"
    by simp_all
  moreover obtain s1 s2 where "on_timeout Some demo_env 2 s = Some s1"
    "complete_pending Some demo_env 2 PsClosed RsnConnectionRefused 0 s = Some s2"
    using s(2) by (force simp: on_timeout_alt complete_pending_alt split: option.splits)
  ultimately have "on_timeout Some demo_env 2 s = Some s1 \<and> reported (PsFiltered, RsnTimeout) s s1"
    "complete_pending Some demo_env 2 PsClosed RsnConnectionRefused 0 s = Some s2 \<and> reported (PsUnknown, RsnConflictingEvidence) s s2"
    using s(3,4) by (auto simp: negative_settled_def one_negative_def)
  then show ?thesis using s(1,2) by blast
qed

text \<open>
  Property C3. At every moment of a scan the live timers of the engine that call into the
  scheduler are exactly one per probe in flight and one per deferred retry, each under the
  identifier the scheduler remembers: none is lost, none is left behind by a response.
\<close>

theorem scan_timers_exact:
  assumes "scan_transport env" and "scan_started env e t cfg target ports s0" and "scan_run env n s0 s"
  shows "((\<exists>t. map_of (eng_timers (ss_engine s)) tid = Some t \<and> tm_callback t = OnTimeout i) \<longleftrightarrow>
      (\<exists>p. map_of (ss_pending s) i = Some p \<and> pd_timer p = tid)) \<and>
    ((\<exists>t. map_of (eng_timers (ss_engine s)) tid = Some t \<and> tm_callback t = OnRetryReady j) \<longleftrightarrow>
      (\<exists>d. map_of (ss_deferred s) j = Some d \<and> df_timer d = tid))"
  using scan_throughout(3) [OF assms]
  by (simp add: timers_inv_of_def timers_ok_def timers_match_def timer_for_def)

theorem scan_timers_exact_witness:
  "((\<exists>t. map_of (eng_timers (ss_engine demo_scan)) 1 = Some t \<and> tm_callback t = OnTimeout 1) \<longleftrightarrow>
      (\<exists>p. map_of (ss_pending demo_scan) 1 = Some p \<and> pd_timer p = 1)) \<and>
    ((\<exists>t. map_of (eng_timers (ss_engine demo_scan)) 1 = Some t \<and> tm_callback t = OnRetryReady 1) \<longleftrightarrow>
      (\<exists>d. map_of (ss_deferred demo_scan) 1 = Some d \<and> df_timer d = 1))"
  by (rule scan_timers_exact [OF demo_transport demo_is_started scan_run.start])

text \<open>
  Property C4. A scan is finite: however the responses fall, at most
  \<open>hosts * ports * (3 * retries + 2)\<close> timers of the scheduler fire between \<open>submit\<close> and any
  later moment. Every attempt and every retry uses up what it is given.
\<close>

theorem scan_terminates:
  assumes "scan_transport env" and "scan_started env e t cfg target ports s0" and "scan_run env n s0 s"
  shows "n \<le> length (resolved_hosts target) * length ports * (3 * scan_retries cfg + 2)"
  by (rule scan_throughout(6) [OF assms])

lemma demo_fires: "\<exists>s. scan_run demo_env 1 demo_scan s"
proof -
  have "\<exists>e. dispatch_turn 20000000000 (ss_engine demo_scan) = TurnFires (OnTimeout 1) e"
    by (simp add: demo_scan_def scan_eval) (simp add: dispatch_turn_def)
  then obtain e where e: "dispatch_turn 20000000000 (ss_engine demo_scan) = TurnFires (OnTimeout 1) e" by blast
  obtain s where "on_timeout (pump demo_env) demo_env 1 (demo_scan\<lparr>ss_engine := e\<rparr>) = Some s"
    using handlers_total(2) [of demo_env 1 "demo_scan\<lparr>ss_engine := e\<rparr>"] by blast
  from scan_run.step [OF scan_run.start timeout [OF e this]] show ?thesis by auto
qed

theorem scan_terminates_witness:
  "\<exists>s. scan_run demo_env 1 demo_scan s \<and> 1 \<le> length [probed_host] * length [probed_port] * (3 * scan_retries demo_config + 2)"
proof -
  obtain s where s: "scan_run demo_env 1 demo_scan s" using demo_fires by blast
  from scan_terminates [OF demo_transport demo_is_started s] s show ?thesis by (auto simp: demo_target_def)
qed

text \<open>
  Property C5. A scan never gets stuck: as long as nothing has failed and the scan is not
  complete, a timer of the scheduler is live, so that even a silent network moves it on; together
  with the bound on timers, every scan that does not fail completes.
\<close>

theorem scan_progresses:
  assumes "scan_transport env" and "scan_started env e t cfg target ports s0" and "scan_run env n s0 s"
    and "ss_status s = Ok" and "\<not> complete s"
  shows "\<exists>tid t. map_of (eng_timers (ss_engine s)) tid = Some t \<and>
    (\<exists>i. tm_callback t = OnTimeout i \<or> tm_callback t = OnRetryReady i)"
proof -
  note th = scan_throughout [OF assms(1-3)]
  from going_has_timer [OF th(4,3) assms(4) th(5) assms(5)] show ?thesis by (auto simp: timer_for_def)
qed

theorem scan_progresses_witness:
  "\<exists>tid t. map_of (eng_timers (ss_engine demo_scan)) tid = Some t \<and>
     (\<exists>i. tm_callback t = OnTimeout i \<or> tm_callback t = OnRetryReady i)"
proof (rule scan_progresses [OF demo_transport demo_is_started scan_run.start])
  show "ss_status demo_scan = Ok" "\<not> complete demo_scan"
    by (simp_all add: demo_scan_def scan_eval complete_def)
qed

text \<open>
  Property C7. Every handler returns: the pump's loop ends, whatever the transport answers from
  inside \<open>submit\<close>, with a nesting and a number of turns that never exceed the length of the
  queue; and so do the handlers of responses and timers.
\<close>

theorem handlers_return:
  "(\<exists>s'. pump_loop env limit (length (ss_queue s)) (length (ss_queue s)) s = Some s' \<and>
      length (ss_queue s') \<le> length (ss_queue s)) \<and>
   receive (pump env) env r s \<noteq> None \<and> on_timeout (pump env) env i s \<noteq> None \<and>
   on_retry_ready (pump env) i s \<noteq> None \<and> submit env target ports s \<noteq> None"
proof (intro conjI)
  show "\<exists>s'. pump_loop env limit (length (ss_queue s)) (length (ss_queue s)) s = Some s' \<and>
      length (ss_queue s') \<le> length (ss_queue s)"
    by (rule pump_loop_total) simp_all
  show "receive (pump env) env r s \<noteq> None" "on_timeout (pump env) env i s \<noteq> None"
    "on_retry_ready (pump env) i s \<noteq> None" by (rule handlers_total)+
  obtain s1 where "pump env (fold (enqueue_host env ports) (resolved_hosts target) (s\<lparr>ss_submitted := True\<rparr>)) = Some s1"
    using pump_total [of env "fold (enqueue_host env ports) (resolved_hosts target) (s\<lparr>ss_submitted := True\<rparr>)"] by blast
  then show "submit env target ports s \<noteq> None"
    by (simp add: submit_def Let_def)
qed

subsection \<open>Failures\<close>

definition stuck :: "('x, 't) scheduler \<Rightarrow> bool" where
  "stuck s \<longleftrightarrow> ss_status s \<noteq> Ok \<and> ss_queue s \<noteq> []"

lemma finish_work_status: "ss_status s \<noteq> Ok \<Longrightarrow> ss_status (finish_work env w st rs rtt s) \<noteq> Ok"
proof (rule finish_work_cases [of env w st rs rtt s], goal_cases)
  case (1 w' st' rs')
  then show ?case by simp
next
  case (2 w')
  have eq: "finish_work env w st rs rtt s = retry_or_fail env w' rtt s" by (rule 2(2))
  show ?case using 2(1)
    by (rule_tac defer_retryE [of env w' s]) (auto simp: eq retry_or_fail_def)
qed

lemma status_finishing: "finishing i s s' \<Longrightarrow> ss_status s' = ss_status s \<and> ss_queue s' = ss_queue s"
  by (simp add: finishing_def)

interpretation stuck: scan_invariant env "\<lambda>_. True" stuck for env :: "('x, 't) scan_env"
proof unfold_locales
  fix s :: "('x, 't) scheduler" and i p st rs instant and probe :: port_probe and e
  assume s: "stuck s"
  show "stuck (completed_work env i p st rs instant s)"
    using s by (rule_tac completed_workE [of env i p st rs instant s])
      (auto simp: stuck_def finish_work_status dest: status_finishing)
  show "stuck (timeout_work env i p probe (s\<lparr>ss_engine := e\<rparr>))"
    using s by (rule_tac timeout_workE [of env i p probe "s\<lparr>ss_engine := e\<rparr>"])
      (auto simp: stuck_def finish_work_status dest: status_finishing)
qed (auto simp: stuck_def timing_submitted_def retry_work_def)

text \<open>
  Property C22. After a submission has failed with work left in the queue, the scan never
  completes and never asks the engine to stop, whatever happens afterwards: the pump refuses to
  run with a failed status, the queue is never drained, and the scheduler never ends a \<open>run\<close>.
\<close>

theorem failed_scan_never_completes:
  assumes "scan_transport env" and "ss_status s \<noteq> Ok" and "ss_queue s \<noteq> []" and "\<not> eng_stopped (ss_engine s)"
    and "scan_run env n s s'"
  shows "ss_queue s' \<noteq> [] \<and> ss_status s' \<noteq> Ok \<and> \<not> complete s' \<and> \<not> eng_stopped (ss_engine s')"
proof -
  have q: "stuck s'" by (rule stuck.run_inv [OF assms(5)]) (simp add: stuck_def assms)
  moreover have "stopped_ok s'" by (rule scan_transport.run_stopped [OF assms(1,5)]) (simp add: stopped_ok_def assms)
  ultimately show ?thesis by (auto simp: stuck_def stopped_ok_def complete_def)
qed

text \<open>The second socket of this kernel is refused: the process is out of descriptors.\<close>

definition exhausted_kernel :: connect_kernel where
  "exhausted_kernel = slow_kernel\<lparr>ck_socket := (\<lambda>n. if n = 0 then Inr 5 else Inl 24)\<rparr>"

definition exhausted_scan :: "(u64, connect_transport) scheduler" where
  "exhausted_scan = snd (the (submit (connect_env no_libc exhausted_kernel (\<lambda>n. 1000 * int n)) demo_target
     [probed_port, probed_port, probed_port]
     (new_scheduler (connect_env no_libc exhausted_kernel (\<lambda>n. 1000 * int n)) (new_engine True) new_connect_transport
        demo_config)))"

lemma exhausted_state:
  "ss_status exhausted_scan = IoError \<and> ss_queue exhausted_scan \<noteq> [] \<and> \<not> eng_stopped (ss_engine exhausted_scan) \<and>
   eng_registered (ss_engine exhausted_scan) \<noteq> []"
  by (simp add: exhausted_scan_def exhausted_kernel_def connect_env_def scan_eval connect_eval engine_cancel_def
      erase_pending_def append_terminal_result_def cancel_timer_def map_erase_def)

theorem failed_scan_never_completes_witness:
  "ss_status exhausted_scan = IoError \<and> \<not> complete exhausted_scan \<and> \<not> eng_stopped (ss_engine exhausted_scan)"
  using failed_scan_never_completes [OF connecting.scan_transport_axioms _ _ _ scan_run.start, of exhausted_scan]
    exhausted_state by auto

text \<open>
  A scheduler whose first \<open>submit\<close> was rejected drops the next one: although the
  second submission is valid, it answers with the status of the first, starts no probe, reports
  no result and counts as complete.
\<close>

theorem rejected_submit_poisons_next:
  assumes "\<not> ss_submitted s" and "ss_status s \<noteq> Ok" and "ss_queue s = []" and "ss_pending s = []" and "ss_deferred s = []"
    and "validate_config env s = Ok" and "ports \<noteq> []" and "resolved_hosts target \<noteq> []"
    and "\<forall>p\<in>set ports. port_protocol p = Tcp \<and> port_number p \<noteq> 0"
    and "\<forall>h\<in>set (resolved_hosts target). valid_host_address (env_libc env) h"
  shows "\<exists>s'. submit env target ports s = Some (ss_status s, s') \<and> complete s' \<and> ss_results s' = ss_results s \<and>
    ss_transport s' = ss_transport s"
proof -
  have "fold (enqueue_host env ports) (resolved_hosts target) (s\<lparr>ss_submitted := True\<rparr>) =
      s\<lparr>ss_submitted := True, ss_queue := scan_works target ports\<rparr>"
    unfolding enqueue_valid_hosts [OF assms(10)] by (simp add: scan_works_def assms(3))
  then show ?thesis
    using assms(1-9) by (auto simp: submit_def Let_def complete_def stop_if_idle_def)
qed

definition rejected_scan :: "(unit, unit recording_transport) scheduler" where
  "rejected_scan = snd (the (submit demo_env demo_target []
     (new_scheduler demo_env (new_engine True) \<lparr>rec_submissions = [], rec_callbacks = []\<rparr> demo_config)))"

theorem rejected_submit_poisons_next_witness:
  "\<exists>s'. submit demo_env demo_target [probed_port] rejected_scan = Some (InvalidArgument, s') \<and> complete s' \<and>
     ss_results s' = []"
proof -
  have "\<exists>s'. submit demo_env demo_target [probed_port] rejected_scan = Some (ss_status rejected_scan, s') \<and>
      complete s' \<and> ss_results s' = ss_results rejected_scan \<and> ss_transport s' = ss_transport rejected_scan"
    by (rule rejected_submit_poisons_next) (simp_all add: rejected_scan_def scan_eval)
  moreover have "ss_status rejected_scan = InvalidArgument" "ss_results rejected_scan = []"
    by (simp_all add: rejected_scan_def scan_eval)
  ultimately show ?thesis by auto
qed

end
