(* ===== verification/Port_Verdicts.thy ===== *)
theory Port_Verdicts
  imports Port_Scan
begin

text \<open>
  What a port scan concludes: the verdict of a raw probe from the evidence of several responses,
  the order of the results, and what the destructor leaves behind.
\<close>

section \<open>Evidence\<close>

text \<open>
  The verdict of a sequence of negative_counts (state, reason, time): the first one, unless a later
  one disagrees about the state; then the port is unknown, since the first disagreement.
\<close>

type_synonym observation = "port_state \<times> scan_reason \<times> int"

fun verdict :: "observation list \<Rightarrow> observation option" where
  "verdict [] = None"
| "verdict (ob # obs) =
     (case find (\<lambda>ob'. fst ob' \<noteq> fst ob) obs of
        None \<Rightarrow> Some ob
      | Some ob' \<Rightarrow> Some (PsUnknown, RsnConflictingEvidence, snd (snd ob')))"

definition candidate :: "pending_probe \<Rightarrow> observation option" where
  "candidate p = map_option (\<lambda>st. (st, pd_candidate_reason p, pd_candidate_at p)) (pd_candidate_state p)"

definition observe :: "observation \<Rightarrow> pending_probe \<Rightarrow> pending_probe" where
  "observe ob p = note_evidence (fst ob) (fst (snd ob)) (snd (snd ob)) p"

lemma observe_conflict: "pd_candidate_state p \<noteq> None \<Longrightarrow> pd_conflict p \<Longrightarrow> fold observe obs p = p"
proof (induction obs)
  case (Cons ob obs)
  then have "observe ob p = p" by (auto simp: observe_def note_evidence_def)
  then show ?case using Cons by simp
qed simp

lemma observe_later:
  assumes "pd_candidate_state p = Some st" and "\<not> pd_conflict p"
  shows "candidate (fold observe obs p) =
    (case find (\<lambda>ob'. fst ob' \<noteq> st) obs of
       None \<Rightarrow> candidate p
     | Some ob' \<Rightarrow> Some (PsUnknown, RsnConflictingEvidence, snd (snd ob')))"
  using assms
proof (induction obs)
  case (Cons ob obs)
  show ?case
  proof (cases "fst ob = st")
    case True
    then have "observe ob p = p" using Cons.prems by (simp add: observe_def note_evidence_def)
    then show ?thesis using Cons True by simp
  next
    case False
    then have "observe ob p = p\<lparr>pd_candidate_state := Some PsUnknown, pd_candidate_reason := RsnConflictingEvidence,
        pd_candidate_at := snd (snd ob), pd_conflict := True\<rparr>"
      using Cons.prems by (simp add: observe_def note_evidence_def)
    then show ?thesis using False by (simp add: observe_conflict candidate_def)
  qed
qed simp

lemma observe_all:
  assumes "pd_candidate_state p = None" and "\<not> pd_conflict p"
  shows "candidate (fold observe obs p) = verdict obs"
proof (cases obs)
  case (Cons ob rest)
  then show ?thesis
    using observe_later [of "observe ob p" "fst ob" rest] assms
    by (simp add: observe_def note_evidence_def candidate_def split: option.splits)
qed (simp add: assms candidate_def)

lemma observe_fixed [simp]:
  "pd_work (observe ob p) = pd_work p" "pd_submission (observe ob p) = pd_submission p"
  "pd_started_at (observe ob p) = pd_started_at p" "pd_timer (observe ob p) = pd_timer p"
  by (simp_all add: observe_def note_evidence_def split: option.splits)

lemma fold_observe_fixed [simp]:
  "pd_work (fold observe obs p) = pd_work p" "pd_submission (fold observe obs p) = pd_submission p"
  "pd_started_at (fold observe obs p) = pd_started_at p"
  by (induction obs arbitrary: p) simp_all

text \<open>The handling of a list of responses, one after the other.\<close>

fun receive_all :: "('x, 't) scan_env \<Rightarrow> port_response list \<Rightarrow> ('x, 't) pump" where
  "receive_all env [] s = Some s"
| "receive_all env (r # rs) s = (case receive (pump env) env r s of None \<Rightarrow> None | Some s' \<Rightarrow> receive_all env rs s')"

definition observation_of :: "port_probe \<Rightarrow> port_submission \<Rightarrow> port_response \<Rightarrow> observation" where
  "observation_of probe sub r =
     (case pp_assess probe r sub of Inl _ \<Rightarrow> (PsError, RsnInternalError, 0) | Inr (st, rs) \<Rightarrow> (st, rs, rsp_received_at r))"

definition conclusive :: "port_probe \<Rightarrow> u64 \<Rightarrow> pending_probe \<Rightarrow> port_response \<Rightarrow> bool" where
  "conclusive probe i p r \<longleftrightarrow>
     rsp_id r = i \<and> rsp_received_at r \<noteq> 0 \<and> pd_started_at p \<le> rsp_received_at r \<and>
     (case pp_assess probe r (pd_submission p) of Inl _ \<Rightarrow> False | Inr (st, _) \<Rightarrow> st \<noteq> PsError)"

text \<open>
  A response that is no error for the probe it names, if it names one: it may be conclusive, early,
  or of no use. It carries its time of arrival.
\<close>

definition no_error :: "port_probe \<Rightarrow> (u64 \<times> pending_probe) list \<Rightarrow> port_response \<Rightarrow> bool" where
  "no_error probe flights r \<longleftrightarrow>
     rsp_received_at r \<noteq> 0 \<and>
     (case map_of flights (rsp_id r) of
        None \<Rightarrow> True
      | Some q \<Rightarrow> (case pp_assess probe r (pd_submission q) of Inl _ \<Rightarrow> True | Inr (st, _) \<Rightarrow> st \<noteq> PsError))"

definition same_probes :: "(u64 \<times> pending_probe) list \<Rightarrow> (u64 \<times> pending_probe) list \<Rightarrow> bool" where
  "same_probes flights flights' \<longleftrightarrow>
     (\<forall>i. map_option pd_submission (map_of flights' i) = map_option pd_submission (map_of flights i))"

lemma no_error_same: "same_probes flights flights' \<Longrightarrow> no_error probe flights' r = no_error probe flights r"
  by (cases "map_of flights (rsp_id r)"; cases "map_of flights' (rsp_id r)")
    (auto simp: no_error_def same_probes_def dest: spec [of _ "rsp_id r"])

definition update_flight :: "port_probe \<Rightarrow> u64 \<Rightarrow> port_response \<Rightarrow> pending_probe \<Rightarrow> pending_probe" where
  "update_flight probe i r p =
     (if conclusive probe i p r then observe (observation_of probe (pd_submission p) r) p else p)"

lemma receive_no_error:
  assumes "map_of (ss_pending s) i = Some p" and "ss_probe s = Some probe" and "cfg_method (ss_config s) \<noteq> TcpConnect"
    and "no_error probe (ss_pending s) r"
  shows "\<exists>flights. receive (pump env) env r s = Some (s\<lparr>ss_pending := flights\<rparr>) \<and> same_probes (ss_pending s) flights \<and>
    map_of flights i = Some (update_flight probe i r p)"
proof -
  have keep: ?thesis if "receive (pump env) env r s = Some s" "\<not> conclusive probe i p r"
    using that assms(1) by (intro exI [of _ "ss_pending s"]) (simp add: update_flight_def same_probes_def)
  show ?thesis
  proof (cases "\<exists>q st rs. map_of (ss_pending s) (rsp_id r) = Some q \<and> pp_assess probe r (pd_submission q) = Inr (st, rs) \<and>
      pd_started_at q \<le> rsp_received_at r")
    case False
    then have "receive (pump env) env r s = Some s"
      using assms(2,4) by (auto simp: receive_def no_error_def completed_time_def split: option.splits sum.splits)
    moreover have "\<not> conclusive probe i p r"
      using False assms(1) by (auto simp: conclusive_def split: sum.splits)
    ultimately show ?thesis by (rule keep)
  next
    case True
    then obtain q st rs where q: "map_of (ss_pending s) (rsp_id r) = Some q" "pp_assess probe r (pd_submission q) = Inr (st, rs)"
      "pd_started_at q \<le> rsp_received_at r" by blast
    have st: "st \<noteq> PsError" "rsp_received_at r \<noteq> 0" using assms(4) q by (simp_all add: no_error_def)
    let ?f = "map_put (rsp_id r) (note_evidence st rs (rsp_received_at r) q) (ss_pending s)"
    have "receive (pump env) env r s = Some (s\<lparr>ss_pending := ?f\<rparr>)"
      using assms(2,3) q st by (simp add: receive_def completed_time_def)
    moreover have "pd_submission (note_evidence st rs (rsp_received_at r) q) = pd_submission q"
      by (simp add: note_evidence_def split: option.splits)
    then have "same_probes (ss_pending s) ?f" using q(1) by (simp add: same_probes_def map_of_put)
    moreover have "map_of ?f i = Some (update_flight probe i r p)"
      using assms(1) q st
      by (auto simp: map_of_put update_flight_def conclusive_def observe_def observation_of_def)
    ultimately show ?thesis by blast
  qed
qed

lemma update_flight_fixed [simp]:
  "pd_submission (update_flight probe i r p) = pd_submission p" "pd_started_at (update_flight probe i r p) = pd_started_at p"
  "conclusive probe i (update_flight probe i r p) = conclusive probe i p"
  by (auto simp: update_flight_def conclusive_def fun_eq_iff)

lemma receive_all_no_error:
  assumes "map_of (ss_pending s) i = Some p" and "ss_probe s = Some probe" and "cfg_method (ss_config s) \<noteq> TcpConnect"
    and "\<forall>r\<in>set rs. no_error probe (ss_pending s) r"
  shows "\<exists>flights. receive_all env rs s = Some (s\<lparr>ss_pending := flights\<rparr>) \<and>
    map_of flights i =
      Some (fold observe (map (observation_of probe (pd_submission p)) (filter (conclusive probe i p) rs)) p)"
  using assms
proof (induction rs arbitrary: s p)
  case Nil
  then show ?case by (intro exI [of _ "ss_pending s"]) simp
next
  case (Cons r rs)
  let ?p = "update_flight probe i r p"
  obtain flights where f: "receive (pump env) env r s = Some (s\<lparr>ss_pending := flights\<rparr>)" "same_probes (ss_pending s) flights"
    "map_of flights i = Some ?p"
    using receive_no_error [OF Cons.prems(1-3), of r env] Cons.prems(4) by auto
  have "\<forall>r\<in>set rs. no_error probe (ss_pending (s\<lparr>ss_pending := flights\<rparr>)) r"
    using Cons.prems(4) no_error_same [OF f(2)] by simp
  then obtain flights' where "receive_all env rs (s\<lparr>ss_pending := flights\<rparr>) = Some (s\<lparr>ss_pending := flights'\<rparr>)"
    "map_of flights' i = Some (fold observe (map (observation_of probe (pd_submission p)) (filter (conclusive probe i p) rs)) ?p)"
    using Cons.IH [of "s\<lparr>ss_pending := flights\<rparr>" ?p] f(3) Cons.prems(2,3) by auto
  then show ?case using f(1) by (auto simp: update_flight_def)
qed

text \<open>The end of an attempt of a SYN or ACK scan that no timeout ended.\<close>

lemma raw_finish_reports:
  assumes "cfg_method (ss_config s) \<noteq> TcpConnect" and "rs \<noteq> RsnTimeout" and "rs \<noteq> RsnAckTimeout"
  shows "reported (st, rs) s (finish_work env w st rs rtt s)"
  using assms reported_append by (simp add: finish_work_def should_confirm_negative_def Let_def)

lemma raw_completion_reports:
  assumes "map_of (ss_pending s) i = Some p" and "cfg_method (ss_config s) \<noteq> TcpConnect"
    and "rs \<noteq> RsnTimeout" and "rs \<noteq> RsnAckTimeout"
  shows "\<exists>s'. complete_pending Some env i st rs instant s = Some s' \<and> reported (st, rs) s s'"
proof (rule completed_workE [of env i p st rs instant s])
  fix t assume t: "completed_work env i p st rs instant s =
      finish_work env (pd_work p) st rs (Some (rtt_between (pd_started_at p) instant)) t" "finishing i s t"
  then have "ss_results t = ss_results s" "ss_config t = ss_config s" by (simp_all add: finishing_def fixed_fields_def)
  then show ?thesis
    using assms t(1) raw_finish_reports [of t rs st env "pd_work p"] reported_from [of t s] by (simp add: complete_pending_alt)
qed

lemma raw_deadline_reports:
  assumes "map_of (ss_pending s) i = Some p" and "ss_probe s = Some probe" and "cfg_method (ss_config s) \<noteq> TcpConnect"
    and "candidate p = Some (st, rs, instant)" and "rs \<noteq> RsnTimeout" and "rs \<noteq> RsnAckTimeout"
  shows "\<exists>s'. on_timeout Some env i s = Some s' \<and> reported (st, rs) s s'"
proof (rule timeout_workE [of env i p probe s])
  have c: "pd_candidate_state p = Some st" "pd_candidate_reason p = rs" using assms(4) by (auto simp: candidate_def)
  fix st' rs' rtt t
  assume t: "timeout_work env i p probe s = finish_work env (pd_work p) st' rs' rtt t" "finishing i s t"
    "pd_candidate_state p = Some st' \<and> pd_candidate_reason p = rs' \<or>
     pd_candidate_state p = None \<and> st' = pp_timeout_state probe \<and> rs' = pp_timeout_reason probe"
  then have "ss_results t = ss_results s" "ss_config t = ss_config s" "st' = st" "rs' = rs"
    using c by (auto simp: finishing_def fixed_fields_def)
  then show ?thesis
    using assms t(1) raw_finish_reports [of t rs st env "pd_work p" rtt] reported_from [of t s] by (simp add: on_timeout_alt)
qed

text \<open>
  Property C8. A SYN or ACK probe that is in flight and has no evidence yet receives responses, among
  others to other probes, none of which is an error and each with its time of arrival. However many
  there are, nothing is reported before the deadline. The ones that do not parse, do not belong to
  the probe or arrived before it started do not count; the candidate is the first observation of
  the others, or, from the first disagreement about the state on and whatever follows, an unknown port
  with conflicting evidence. The timer of the deadline reports the candidate (one that is itself a
  timeout may be retried instead). An error response is not held back: it ends the attempt, and is
  reported, at once.
\<close>

theorem raw_evidence_verdict:
  assumes "map_of (ss_pending s) i = Some p" and "ss_probe s = Some probe" and "probe_for lc m = Some probe"
    and "cfg_method (ss_config s) \<noteq> TcpConnect" and "pd_candidate_state p = None" and "\<not> pd_conflict p"
    and "\<forall>r\<in>set rs. no_error probe (ss_pending s) r"
  shows "\<exists>s' p'. receive_all env rs s = Some s' \<and> ss_results s' = ss_results s \<and> map_of (ss_pending s') i = Some p' \<and>
    candidate p' = verdict (map (observation_of probe (pd_submission p)) (filter (conclusive probe i p) rs)) \<and>
    (\<forall>st why instant. candidate p' = Some (st, why, instant) \<and> why \<noteq> RsnTimeout \<and> why \<noteq> RsnAckTimeout \<longrightarrow>
       (\<exists>s''. on_timeout Some env i s' = Some s'' \<and> reported (st, why) s' s'')) \<and>
    (\<forall>r why. rsp_id r = i \<and> rsp_received_at r \<noteq> 0 \<and> pd_started_at p \<le> rsp_received_at r \<and>
       pp_assess probe r (pd_submission p) = Inr (PsError, why) \<longrightarrow>
       receive (pump env) env r s' = complete_pending (pump env) env i PsError why (rsp_received_at r) s' \<and>
       (\<exists>s''. complete_pending Some env i PsError why (rsp_received_at r) s' = Some s'' \<and> reported (PsError, why) s' s''))"
proof -
  let ?obs = "map (observation_of probe (pd_submission p)) (filter (conclusive probe i p) rs)"
  obtain flights where f: "receive_all env rs s = Some (s\<lparr>ss_pending := flights\<rparr>)"
    "map_of flights i = Some (fold observe ?obs p)"
    using receive_all_no_error [OF assms(1,2,4,7)] by blast
  let ?s = "s\<lparr>ss_pending := flights\<rparr>" and ?p = "fold observe ?obs p"
  have flying: "map_of (ss_pending ?s) i = Some ?p" "ss_probe ?s = Some probe" "cfg_method (ss_config ?s) \<noteq> TcpConnect"
    using f(2) assms(2,4) by simp_all
  have errors: "receive (pump env) env r ?s = complete_pending (pump env) env i PsError why (rsp_received_at r) ?s \<and>
      (\<exists>s''. complete_pending Some env i PsError why (rsp_received_at r) ?s = Some s'' \<and> reported (PsError, why) ?s s'')"
    if r: "rsp_id r = i" "rsp_received_at r \<noteq> 0" "pd_started_at p \<le> rsp_received_at r"
      "pp_assess probe r (pd_submission p) = Inr (PsError, why)" for r why
  proof -
    have "valid_port_result_semantics Tcp (pp_type probe) PsError why"
      using probe_contract.assess_semantics [OF probe_for_contract [OF assms(3)] r(4)] .
    then have "why \<noteq> RsnTimeout" "why \<noteq> RsnAckTimeout" by (auto simp: valid_port_result_semantics.simps split: if_splits)
    from raw_completion_reports [OF flying(1,3) this, of env PsError] r flying
    show ?thesis by (simp add: receive_def completed_time_def)
  qed
  show ?thesis
    using f(1) flying(1) observe_all [OF assms(5,6), of ?obs] errors raw_deadline_reports [OF flying, of _ _ _ env]
    by (intro exI [of _ ?s] exI [of _ ?p]) simp
qed

text \<open>A SYN probe in flight, a SYN-ACK and an unreachable message for it.\<close>

definition syn_flight :: pending_probe where
  "syn_flight = \<lparr>pd_work = new_work probed_host probed_port,
     pd_submission = new_submission\<lparr>sub_id := 1, sub_probe := TcpSyn\<rparr>, pd_started_at = 5,
     pd_timer = 1, pd_candidate_state = None, pd_candidate_reason = RsnInternalError, pd_candidate_at = 0,
     pd_conflict = False\<rparr>"

definition syn_scan :: "(unit, unit recording_transport) scheduler" where
  "syn_scan = demo_scan\<lparr>ss_config := demo_config\<lparr>cfg_method := TcpSyn\<rparr>, ss_probe := Some (syn_probe no_libc),
     ss_pending := [(1, syn_flight)]\<rparr>"

definition unreachable_reply :: "scan_reason \<Rightarrow> port_response" where
  "unreachable_reply rs = \<lparr>rsp_id = 1, rsp_source_address = ''192.0.2.7'', rsp_kind = Unreachable,
     rsp_system_error = 0, rsp_bytes = [], rsp_received_at = 9, rsp_source_ip = from_ipv4 0xC0000207, rsp_reason = rs\<rparr>"

text \<open>The second of three responses names a probe that is not in flight.\<close>

theorem raw_evidence_verdict_witness:
  "\<exists>s' p'. receive_all demo_env [unreachable_reply RsnIcmpNetworkUnreachable,
        (unreachable_reply RsnIcmpNetworkUnreachable)\<lparr>rsp_id := 2\<rparr>, unreachable_reply RsnIcmpPortUnreachable]
      syn_scan = Some s' \<and> map_of (ss_pending s') 1 = Some p' \<and>
    candidate p' = Some (PsUnknown, RsnConflictingEvidence, 9) \<and>
    (\<exists>s''. on_timeout Some demo_env 1 s' = Some s'' \<and> reported (PsUnknown, RsnConflictingEvidence) s' s'')"
proof -
  let ?rs = "[unreachable_reply RsnIcmpNetworkUnreachable, (unreachable_reply RsnIcmpNetworkUnreachable)\<lparr>rsp_id := 2\<rparr>,
    unreachable_reply RsnIcmpPortUnreachable]"
  have flying: "map_of (ss_pending syn_scan) 1 = Some syn_flight" "ss_probe syn_scan = Some (syn_probe no_libc)"
    "probe_for no_libc TcpSyn = Some (syn_probe no_libc)" "cfg_method (ss_config syn_scan) \<noteq> TcpConnect"
    "pd_candidate_state syn_flight = None" "\<not> pd_conflict syn_flight"
    by (simp_all add: syn_scan_def syn_flight_def)
  have c: "\<forall>r\<in>set ?rs. no_error (syn_probe no_libc) (ss_pending syn_scan) r"
    by (simp add: no_error_def unreachable_reply_def syn_flight_def syn_scan_def syn_probe_def syn_assess_def assess_unreachable_def)
  have v: "verdict (map (observation_of (syn_probe no_libc) (pd_submission syn_flight))
      (filter (conclusive (syn_probe no_libc) 1 syn_flight) ?rs)) = Some (PsUnknown, RsnConflictingEvidence, 9)"
    by (simp add: conclusive_def observation_of_def unreachable_reply_def syn_flight_def syn_probe_def syn_assess_def
        assess_unreachable_def)
  obtain s' p' where s': "receive_all demo_env ?rs syn_scan = Some s'" "map_of (ss_pending s') 1 = Some p'"
    "candidate p' = Some (PsUnknown, RsnConflictingEvidence, 9)"
    "\<forall>st why instant. candidate p' = Some (st, why, instant) \<and> why \<noteq> RsnTimeout \<and> why \<noteq> RsnAckTimeout \<longrightarrow>
       (\<exists>s''. on_timeout Some demo_env 1 s' = Some s'' \<and> reported (st, why) s' s'')"
    using raw_evidence_verdict [OF flying c, of demo_env] unfolding v by blast
  then show ?thesis by (intro exI [of _ s'] exI [of _ p']) simp
qed

section \<open>The order of the results\<close>

lemma result_less_key:
  "result_less = then_by lex_less res_target
     (then_by (<) (\<lambda>r. port_number (res_port r)) (by_key (<) (\<lambda>r. scan_probe_index (res_probe r))))"
  by (intro ext) (auto simp: result_less_def then_by_def by_key_def lex_less_irrefl)

interpretation result_order: strict_weak_order result_less
  unfolding result_less_key
  by (intro weak_then_by weak_by_key total_lex total_linorder)

text \<open>
  \<open>results\<close> returns the reported results, none added or lost, in the order of
  target text, port and probe; asking again returns the same list.
\<close>

theorem results_are_sorted:
  assumes "ss_results_sorted s \<Longrightarrow> sorted_wrt (\<lambda>a b. \<not> result_less b a) (ss_results s)"
  shows "mset (fst (scheduler_results s)) = mset (ss_results s) \<and>
    sorted_wrt (\<lambda>a b. \<not> result_less b a) (fst (scheduler_results s)) \<and>
    scheduler_results (snd (scheduler_results s)) = scheduler_results s"
  using assms result_order.sorted_sort_by [of "ss_results s"]
  by (simp add: scheduler_results_def sort_results_def)

definition demo_result :: "nat \<Rightarrow> port_result" where
  "demo_result n = \<lparr>res_target = ''192.0.2.7'', res_port = \<lparr>port_number = of_nat n, port_protocol = Tcp\<rparr>, res_state = PsOpen,
     res_probe = TcpConnect, res_reason = RsnImmediateSuccess, res_rtt_ms = None, res_timestamp = 0, res_retry_count = 0,
     res_probe_name = None\<rparr>"

theorem results_are_sorted_witness:
  "fst (scheduler_results (demo_scan\<lparr>ss_results := [demo_result 443, demo_result 22], ss_results_sorted := False\<rparr>)) =
     [demo_result 22, demo_result 443] \<and>
   mset (fst (scheduler_results (demo_scan\<lparr>ss_results := [demo_result 443, demo_result 22], ss_results_sorted := False\<rparr>))) =
     {#demo_result 443, demo_result 22#}"
  using results_are_sorted [of "demo_scan\<lparr>ss_results := [demo_result 443, demo_result 22], ss_results_sorted := False\<rparr>"]
  by (simp add: scheduler_results_def sort_results_def sort_by_def result_less_def) (simp add: demo_result_def)

section \<open>The destructor\<close>

context scan_transport begin

lemma cancel_flight:
  assumes "timers_match (ss_engine s) ((i, p) # pending) deferred" and "map_ok ((i, p) # pending)"
  shows "timers_match (ss_engine (cancel_probe env i (cancel_timer (pd_timer p) s))) pending deferred"
proof -
  have w: "wired (ss_engine s)" and t: "timer_for (OnTimeout i) (ss_engine s) (pd_timer p)"
    using assms(1) by (simp_all add: timers_match_def)
  have "timers_match (engine_cancel (pd_timer p) (ss_engine s)) (map_erase i ((i, p) # pending)) deferred"
    by (rule timers_match_erase [OF assms(1) wired_cancel [OF w] t timer_for_cancel [OF w]])
  moreover have "map_erase i ((i, p) # pending) = pending"
    using assms(2) by (auto simp: map_erase_def filter_id_conv)
  ultimately show ?thesis
    using cancel_probe_timers [of "cancel_timer (pd_timer p) s" i] by (simp add: timers_match_kept)
qed

lemma cancel_flights:
  assumes "timers_match (ss_engine s) pending deferred" and "map_ok pending"
  shows "timers_match (ss_engine (fold (\<lambda>(i, p) s. cancel_probe env i (cancel_timer (pd_timer p) s)) pending s)) [] deferred"
  using assms
proof (induction pending arbitrary: s)
  case (Cons ip pending)
  obtain i p where ip: "ip = (i, p)" by fastforce
  show ?case using Cons.IH [OF cancel_flight] Cons.prems by (simp add: ip)
qed simp

lemma cancel_deferrals:
  assumes "timers_match (ss_engine s) [] deferred" and "map_ok deferred"
  shows "timers_match (ss_engine (fold (\<lambda>(i, d) s. cancel_timer (df_timer d) s) deferred s)) [] []"
  using assms
proof (induction deferred arbitrary: s)
  case (Cons id deferred)
  obtain i d where id: "id = (i, d)" by fastforce
  have w: "wired (ss_engine s)" and t: "timer_for (OnRetryReady i) (ss_engine s) (df_timer d)"
    using Cons.prems(1) by (simp_all add: timers_match_def id)
  have "timers_match (engine_cancel (df_timer d) (ss_engine s)) [] (map_erase i ((i, d) # deferred))"
    using Cons.prems(1) by (intro timers_match_erase_deferred [OF _ wired_cancel [OF w] t timer_for_cancel [OF w]]) (simp add: id)
  moreover have "map_erase i ((i, d) # deferred) = deferred"
    using Cons.prems(2) by (auto simp: id map_erase_def filter_id_conv)
  ultimately show ?case using Cons.IH Cons.prems(2) by (simp add: id cancel_timer_def)
qed simp

lemma flights_deferred:
  "ss_deferred (fold (\<lambda>(i, p) s. cancel_probe env i (cancel_timer (pd_timer p) s)) pending s) = ss_deferred s"
proof (induction pending arbitrary: s)
  case (Cons ip pending)
  then show ?case by (cases ip) (simp add: cancel_probe_def cancel_timer_def split: prod.splits)
qed simp

lemma destroyed_timers:
  assumes "timers_ok s" and "map_ok (ss_pending s)" and "map_ok (ss_deferred s)"
  shows "timers_match (ss_engine (scheduler_destroy env s)) [] []"
proof -
  let ?s1 = "fold (\<lambda>(i, p) s. cancel_probe env i (cancel_timer (pd_timer p) s)) (ss_pending s) s"
  have "timers_match (ss_engine ?s1) [] (ss_deferred s)"
    using assms(1,2) by (intro cancel_flights) (simp_all add: timers_ok_def)
  then show ?thesis
    using cancel_deferrals [of ?s1 "ss_deferred s"] assms(3) flights_deferred [of "ss_pending s" s]
    by (simp add: scheduler_destroy_def Let_def)
qed

end

text \<open>
  Destroying the scheduler at any moment of a scan leaves no timer in the engine
  that would call into the freed object.
\<close>

theorem destroyed_scan_leaves_no_timer:
  assumes "scan_transport env" and "scan_started env e t cfg target ports s0" and "scan_run env n s0 s"
  shows "\<not> (\<exists>tid timer i. map_of (eng_timers (ss_engine (scheduler_destroy env s))) tid = Some timer \<and>
    (tm_callback timer = OnTimeout i \<or> tm_callback timer = OnRetryReady i))"
proof -
  note th = scan_throughout [OF assms]
  have "timers_match (ss_engine (scheduler_destroy env s)) [] []"
    using th(1,3) by (intro scan_transport.destroyed_timers [OF assms(1)]) (simp_all add: ledger_is_def timers_inv_of_def)
  then show ?thesis by (auto simp: timers_match_def timer_for_def)
qed

theorem destroyed_scan_leaves_no_timer_witness:
  "(\<exists>timer. map_of (eng_timers (ss_engine demo_scan)) 1 = Some timer \<and> tm_callback timer = OnTimeout 1) \<and>
   \<not> (\<exists>tid timer i. map_of (eng_timers (ss_engine (scheduler_destroy demo_env demo_scan))) tid = Some timer \<and>
     (tm_callback timer = OnTimeout i \<or> tm_callback timer = OnRetryReady i))"
proof
  show "\<exists>timer. map_of (eng_timers (ss_engine demo_scan)) 1 = Some timer \<and> tm_callback timer = OnTimeout 1"
    by (simp add: demo_scan_def scan_eval)
qed (rule destroyed_scan_leaves_no_timer [OF demo_transport demo_is_started scan_run.start])

section \<open>Nested pumps\<close>

text \<open>
  A transport that answers every connect probe from inside \<open>submit\<close>, as the connect transport
  does when the kernel completes connections at once (\<open>P\<close> describes its states), and a scan
  over it whose identifiers do not run out.
\<close>

definition connectable :: "port_submission \<Rightarrow> bool" where
  "connectable sub \<longleftrightarrow> sub_probe sub = TcpConnect \<and> sub_id sub \<noteq> 0 \<and> sub_target sub \<noteq> [] \<and>
     port_number (sub_port sub) \<noteq> 0 \<and> is_ipv4 (sub_target_ip sub)"

definition answers_at_once :: "('x, 't) scan_env \<Rightarrow> ('t \<Rightarrow> bool) \<Rightarrow> bool" where
  "answers_at_once env P \<longleftrightarrow>
     (\<forall>sub e t. connectable sub \<and> P t \<longrightarrow>
        (\<exists>r t'. env_submit env sub (e, t) = (Ok, Some r, e, t') \<and> P t' \<and> rsp_id r = sub_id sub \<and>
           rsp_source_address r = sub_target sub \<and> rsp_kind r = Connected \<and> rsp_received_at r \<noteq> 0 \<and>
           (\<forall>n. env_clock env n \<le> rsp_received_at r))) \<and>
     (\<forall>i e t. P t \<longrightarrow> (\<exists>t'. env_cancel env i (e, t) = (e, t') \<and> P t'))"

definition startable :: "work_item \<Rightarrow> bool" where
  "startable w \<longleftrightarrow> port_protocol (wk_port w) = Tcp \<and> port_number (wk_port w) \<noteq> 0 \<and> h_address (wk_host w) \<noteq> [] \<and>
     is_ipv4 (h_ip (wk_host w))"

definition nestable :: "('x, 't) scan_env \<Rightarrow> ('t \<Rightarrow> bool) \<Rightarrow> ('x, 't) scheduler \<Rightarrow> bool" where
  "nestable env P s \<longleftrightarrow>
     ss_status s = Ok \<and> ss_pending s = [] \<and> ss_probe s = Some (connect_probe (env_libc env)) \<and> ss_timing s = None \<and>
     cfg_method (ss_config s) = TcpConnect \<and> 0 < cfg_max_outstanding (ss_config s) \<and> P (ss_transport s) \<and>
     eng_open (ss_engine s) \<and> ss_next_id s \<noteq> 0 \<and> eng_next_timer (ss_engine s) \<noteq> 0 \<and>
     unat (ss_next_id s) + length (ss_queue s) < 2 ^ 64 \<and>
     unat (eng_next_timer (ss_engine s)) + length (ss_queue s) < 2 ^ 64 \<and> (\<forall>w\<in>set (ss_queue s). startable w)"

lemma next_identifier:
  assumes "unat (i :: u64) + Suc n < 2 ^ 64"
  shows "i + 1 \<noteq> 0" "unat (i + 1) + n < 2 ^ 64"
proof -
  have "unat i + unat (1 :: u64) < 2 ^ LENGTH(64)" using assms by simp
  then have u: "unat (i + 1) = Suc (unat i)" using unat_add_lem [of i 1] by simp
  then show "unat (i + 1) + n < 2 ^ 64" using assms by simp
  show "i + 1 \<noteq> 0" using u by (metis nat.distinct(1) unat_0)
qed

lemma finish_open:
  "cfg_method (ss_config s) = TcpConnect \<Longrightarrow>
     finish_work env w PsOpen RsnImmediateSuccess rtt s =
       append_terminal_result env w TcpConnect PsOpen RsnImmediateSuccess rtt s"
  by (simp add: finish_work_def should_confirm_negative_def Let_def)

lemma nestable_step:
  assumes "nestable env P s" and "answers_at_once env P" and "ss_queue s = w # rest"
  shows "\<exists>r s1 s2. pump_turn env s = PumpSubmitted (Some r) s1 \<and> (\<forall>k. receive k env r s1 = k s2) \<and>
    nestable env P s2 \<and> ss_queue s2 = rest"
proof -
  note n = assms(1) [unfolded nestable_def]
  let ?i = "ss_next_id s" and ?lc = "env_libc env"
  let ?sub = "new_submission\<lparr>sub_id := ?i, sub_probe := TcpConnect, sub_target := h_address (wk_host w),
    sub_port := wk_port w, sub_target_ip := h_ip (wk_host w)\<rparr>"
  have w: "startable w" using n assms(3) by simp
  then have build: "connect_build ?lc ?i (wk_host w) (wk_port w) (ss_config s) new_submission = (Ok, ?sub)"
    using n by (simp add: connect_build_def startable_def probe_address_def ip_valid_def)
  have "connectable ?sub" using w n by (simp add: connectable_def startable_def)
  let ?now = "env_clock env (ss_reads s)" and ?tid = "eng_next_timer (ss_engine s)"
  obtain e where e: "engine_schedule (env_clock env (Suc (ss_reads s))) (cfg_timeout (ss_config s) * ns_per_ms) (OnTimeout ?i)
      (ss_engine s) = (?tid, e)" and e_open: "eng_open e" and e_next: "eng_next_timer e = ?tid + 1"
    using n by (auto simp: engine_schedule_def Let_def)
  have "P (ss_transport s)" using n by simp
  have answered: "\<exists>r t'. env_submit env ?sub (e, ss_transport s) = (Ok, Some r, e, t') \<and> P t' \<and> rsp_id r = sub_id ?sub \<and>
      rsp_source_address r = sub_target ?sub \<and> rsp_kind r = Connected \<and> rsp_received_at r \<noteq> 0 \<and>
      (\<forall>n. env_clock env n \<le> rsp_received_at r)"
    by (rule assms(2) [unfolded answers_at_once_def, THEN conjunct1, rule_format, OF conjI])
      (rule \<open>connectable ?sub\<close>, rule \<open>P (ss_transport s)\<close>)
  then obtain r t' where r: "env_submit env ?sub (e, ss_transport s) = (Ok, Some r, e, t')"
    "P t'" "rsp_id r = ?i" "rsp_source_address r = h_address (wk_host w)" "rsp_kind r = Connected"
    "rsp_received_at r \<noteq> 0" "\<forall>n. env_clock env n \<le> rsp_received_at r"
    by auto
  let ?p = "\<lparr>pd_work = w, pd_submission = ?sub, pd_started_at = ?now, pd_timer = ?tid, pd_candidate_state = None,
    pd_candidate_reason = RsnInternalError, pd_candidate_at = 0, pd_conflict = False\<rparr>"
  define s1 where "s1 = s\<lparr>ss_queue := rest, ss_next_id := ?i + 1, ss_reads := Suc (Suc (ss_reads s)), ss_engine := e,
    ss_pending := [(?i, ?p)], ss_transport := t'\<rparr>"
  have turn: "pump_turn env s = PumpSubmitted (Some r) s1"
    using n assms(3) build e r(1)
    by (simp add: pump_turn_def connect_probe_def launch_probe_def read_now_def schedule_ms_def probe_timeout_def
        map_emplace_def map_has_def submit_probe_def Let_def s1_def)
  obtain t2 where c: "env_cancel env ?i (engine_cancel ?tid e, t') = (engine_cancel ?tid e, t2)" "P t2"
    using assms(2) r(2) unfolding answers_at_once_def by blast
  define s2 where "s2 = completed_work env ?i ?p PsOpen RsnImmediateSuccess (rsp_received_at r) s1"
  have assess: "connect_assess r ?sub = Inr (PsOpen, RsnImmediateSuccess)"
    using r by (simp add: connect_assess_def)
  have late: "\<not> rsp_received_at r < ?now" using r by (simp add: not_less)
  have rec: "receive k env r s1 = k s2" for k
    using n r(1-6) late assess unfolding s2_def
    by (simp add: receive_def s1_def connect_probe_def completed_time_def complete_pending_alt not_less)
  have cancelled: "ss_engine (cancel_probe env ?i (cancel_timer ?tid s1)) = engine_cancel ?tid e"
    "ss_transport (cancel_probe env ?i (cancel_timer ?tid s1)) = t2"
    using c(1) by (simp_all add: cancel_probe_def cancel_timer_def s1_def)
  have s2: "s2 = append_terminal_result env w TcpConnect PsOpen RsnImmediateSuccess
      (Some (rtt_between ?now (rsp_received_at r)))
      (timing_response (rtt_between ?now (rsp_received_at r)) (erase_pending ?i (cancel_probe env ?i (cancel_timer ?tid s1))))"
    using n unfolding s2_def completed_work_def Let_def
    by (simp add: timing_response_def update_timing_def erase_pending_def cancel_probe_def cancel_timer_def s1_def
        finish_open Let_def split: prod.splits)
  have cancelled_fields: "eng_open (engine_cancel ?tid e) = eng_open e"
    "eng_next_timer (engine_cancel ?tid e) = eng_next_timer e" by (simp_all add: engine_cancel_def)
  have "nestable env P s2"
    using n assms(3) c(2) cancelled cancelled_fields e_open e_next
      next_identifier [of ?i "length rest"] next_identifier [of ?tid "length rest"] unfolding s2
    by (simp add: nestable_def timing_response_def update_timing_def erase_pending_def Let_def map_erase_def
        cancel_probe_def cancel_timer_def s1_def split: prod.splits)
  moreover have "ss_queue s2 = rest" unfolding s2
    by (simp add: timing_response_def update_timing_def erase_pending_def cancel_probe_def cancel_timer_def s1_def Let_def
        split: prod.splits)
  ultimately show ?thesis using turn rec by blast
qed

lemma nested_pumps:
  assumes "answers_at_once env P" and "nestable env P s" and "0 < limit"
    and "depth < length (ss_queue s)" and "length (ss_queue s) \<le> turns"
  shows "pump_loop env limit depth turns s = None"
  using assms(2-5)
proof (induction depth arbitrary: limit turns s)
  case (0 limit turns s)
  then obtain w rest turns' where q: "ss_queue s = w # rest" "turns = Suc turns'"
    by (cases "ss_queue s"; cases turns) auto
  from nestable_step [OF 0(1) assms(1) q(1)] obtain r s1 where "pump_turn env s = PumpSubmitted (Some r) s1" by blast
  then show ?case using 0 q by (simp add: pump_loop.simps [of env limit 0] nestable_def)
next
  case (Suc depth limit turns s)
  then obtain w rest turns' where q: "ss_queue s = w # rest" "turns = Suc turns'"
    by (cases "ss_queue s"; cases turns) auto
  obtain r s1 s2 where st: "pump_turn env s = PumpSubmitted (Some r) s1" "\<And>k. receive k env r s1 = k s2"
    "nestable env P s2" "ss_queue s2 = rest"
    using nestable_step [OF Suc.prems(1) assms(1) q(1)] by blast
  have "0 < pump_limit s2" using st(3) by (simp add: nestable_def pump_limit_def)
  then have "pump_loop env (pump_limit s2) depth turns' s2 = None"
    using Suc.IH [OF st(3)] st(4) Suc.prems(3,4) q by simp
  then show ?case using Suc.prems(1,2) q st(1,2) by (simp add: pump_loop.simps [of env limit "Suc depth"] nestable_def)
qed

text \<open>
  Over a transport that answers from inside \<open>submit\<close>, the pump calls itself once
  for every queued port: no nesting below the length of the queue is enough. The depth of the
  recursion is bounded only by the number of ports asked for.
\<close>

theorem immediate_answers_nest:
  assumes "answers_at_once env P" and "nestable env P s" and "depth < length (ss_queue s)"
  shows "pump_within depth (length (ss_queue s)) env s = None \<and>
    pump_within (length (ss_queue s)) (length (ss_queue s)) env s \<noteq> None"
proof
  have "0 < pump_limit s" using assms(2) by (simp add: nestable_def pump_limit_def)
  then show "pump_within depth (length (ss_queue s)) env s = None"
    unfolding pump_within_def by (rule nested_pumps [OF assms(1,2) _ assms(3)]) simp
  show "pump_within (length (ss_queue s)) (length (ss_queue s)) env s \<noteq> None"
    using pump_total [of env s] by (auto simp: pump_def)
qed

text \<open>A kernel that completes every connection at once, as the loopback interface does.\<close>

definition instant_kernel :: connect_kernel where
  "instant_kernel = slow_kernel\<lparr>ck_connect := (\<lambda>_. 0), ck_now := (\<lambda>_. 7)\<rparr>"

definition instant_env :: "(u64, connect_transport) scan_env" where
  "instant_env = connect_env no_libc instant_kernel (\<lambda>_. 7)"

lemma instant_answers: "answers_at_once instant_env (\<lambda>t. ct_connections t = [])"
  unfolding answers_at_once_def
proof (intro conjI allI impI)
  fix sub and e :: "u64 sched_callback engine" and t :: connect_transport
  assume "connectable sub \<and> ct_connections t = []"
  then show "\<exists>r t'. env_submit instant_env sub (e, t) = (Ok, Some r, e, t') \<and> ct_connections t' = [] \<and> rsp_id r = sub_id sub \<and>
      rsp_source_address r = sub_target sub \<and> rsp_kind r = Connected \<and> rsp_received_at r \<noteq> 0 \<and>
      (\<forall>n. env_clock instant_env n \<le> rsp_received_at r)"
    by (simp add: instant_env_def connect_env_def connect_submit_def connectable_def connect_supports_def reap_completed_def
        submission_address_def ip_valid_def address_usable_def is_ipv6_def is_ipv4_def instant_kernel_def slow_kernel_def
        Let_def connect_response_def called_def)
next
  fix i and e :: "u64 sched_callback engine" and t :: connect_transport
  assume "ct_connections t = []"
  then show "\<exists>t'. env_cancel instant_env i (e, t) = (e, t') \<and> ct_connections t' = []"
    by (simp add: instant_env_def connect_env_def connect_cancel_def)
qed

definition queued_scan :: "(u64, connect_transport) scheduler" where
  "queued_scan = (new_scheduler instant_env (new_engine True) new_connect_transport demo_config)
     \<lparr>ss_queue := replicate 1000 (new_work probed_host probed_port)\<rparr>"

theorem immediate_answers_nest_witness:
  "pump_within 999 1000 instant_env queued_scan = None \<and> pump_within 1000 1000 instant_env queued_scan \<noteq> None"
proof -
  have "nestable instant_env (\<lambda>t. ct_connections t = []) queued_scan"
    by (simp add: nestable_def queued_scan_def new_scheduler_def demo_config_def default_port_scan_config_def
        instant_env_def connect_env_def new_connect_transport_def new_engine_def startable_def new_work_def
        probed_host_def probed_port_def from_ipv4_def is_ipv4_def)
  moreover have "length (ss_queue queued_scan) = 1000" by (simp add: queued_scan_def)
  ultimately show ?thesis using immediate_answers_nest [OF instant_answers, of queued_scan 999] by simp
qed

end
