(* ===== verification/Target_Engine.thy ===== *)
theory Target_Engine
  imports Core_Types
begin

text \<open>
  Target expressions (\<open>include/target/target_engine.hpp\<close>, \<open>src/target/target_engine.cpp\<close>):
  the parser of addresses, CIDR blocks, ranges and host names, and the bounded expansion of the
  parsed specifications into addresses. The C library is the record \<open>libc\<close>; what
  \<open>getaddrinfo\<close> answers is a parameter of the default resolver. A prefix length is at most 32
  or 128, as the parser makes it: a longer one is a shift out of range in the code.
\<close>

section \<open>Data\<close>

datatype target_kind =
  TkIPv4 | TkHostname | TkIPv4Cidr | TkIPv4Range | TkIPv6 | TkIPv6Cidr | TkIPv6Range

datatype target_error_code =
  TeNone | TeInvalidTarget | TeInvalidIPv4 | TeInvalidCIDR | TeInvalidRange | TeInvalidHostname |
  TeInvalidScope | TeResolutionFailed | TeResourceExhausted | TeUnsupportedTarget | TeEmptyTargetSet

fun target_kind_name :: "target_kind \<Rightarrow> string" where
  "target_kind_name TkIPv4 = ''ipv4''"
| "target_kind_name TkHostname = ''hostname''"
| "target_kind_name TkIPv4Cidr = ''ipv4-cidr''"
| "target_kind_name TkIPv4Range = ''ipv4-range''"
| "target_kind_name TkIPv6 = ''ipv6''"
| "target_kind_name TkIPv6Cidr = ''ipv6-cidr''"
| "target_kind_name TkIPv6Range = ''ipv6-range''"

fun target_error_name :: "target_error_code \<Rightarrow> string" where
  "target_error_name TeNone = ''OK''"
| "target_error_name TeInvalidTarget = ''INVALID_TARGET''"
| "target_error_name TeInvalidIPv4 = ''INVALID_IPV4''"
| "target_error_name TeInvalidCIDR = ''INVALID_CIDR''"
| "target_error_name TeInvalidRange = ''INVALID_RANGE''"
| "target_error_name TeInvalidHostname = ''INVALID_HOSTNAME''"
| "target_error_name TeInvalidScope = ''INVALID_SCOPE''"
| "target_error_name TeResolutionFailed = ''RESOLUTION_FAILED''"
| "target_error_name TeResourceExhausted = ''RESOURCE_EXHAUSTED''"
| "target_error_name TeUnsupportedTarget = ''UNSUPPORTED_TARGET''"
| "target_error_name TeEmptyTargetSet = ''EMPTY_TARGET_SET''"

record target_spec =
  ts_kind :: target_kind
  ts_original :: string
  ts_first_address :: u32
  ts_last_address :: u32
  ts_prefix_length :: u8
  ts_hostname :: string
  ts_first_ip :: ip_address
  ts_last_ip :: ip_address

record resolved_target =
  rt_address :: u32
  rt_source_hostname :: "string option"
  rt_ip_address :: ip_address

record target_limits =
  tl_max_targets :: nat
  tl_max_hostname_results :: nat

definition default_target_limits :: target_limits where
  "default_target_limits = \<lparr>tl_max_targets = 4096, tl_max_hostname_results = 64\<rparr>"

definition maximum_targets :: nat where
  "maximum_targets = 1000000"

definition maximum_hostname_results :: nat where
  "maximum_hostname_results = 4096"

definition target_limits_valid :: "target_limits \<Rightarrow> bool" where
  "target_limits_valid l \<longleftrightarrow>
     0 < tl_max_targets l \<and> tl_max_targets l \<le> maximum_targets \<and>
     0 < tl_max_hostname_results l \<and> tl_max_hostname_results l \<le> maximum_hostname_results"

text \<open>
  A failed result carries a status, an error code and a message; a successful one only its value.
\<close>

type_synonym target_failure = "status_code \<times> target_error_code \<times> string"

section \<open>Text\<close>

definition is_blank :: "char \<Rightarrow> bool" where
  "is_blank c \<longleftrightarrow> c = CHR '' '' \<or> c = CHR 0x09 \<or> c = CHR 0x0D \<or> c = CHR 0x0A"

definition trim_target :: "string \<Rightarrow> string" where
  "trim_target s = rev (dropWhile is_blank (rev (dropWhile is_blank s)))"

text \<open>\<open>find\<close> of a character, with the text before it and the text after it.\<close>

definition split_first :: "char \<Rightarrow> string \<Rightarrow> (string \<times> string) option" where
  "split_first c s =
     (case dropWhile (\<lambda>x. x \<noteq> c) s of [] \<Rightarrow> None | _ # rest \<Rightarrow> Some (takeWhile (\<lambda>x. x \<noteq> c) s, rest))"

lemma split_first_append: "c \<notin> set xs \<Longrightarrow> split_first c (xs @ c # ys) = Some (xs, ys)"
proof -
  assume "c \<notin> set xs"
  then have "takeWhile (\<lambda>x. x \<noteq> c) (xs @ c # ys) = xs" "dropWhile (\<lambda>x. x \<noteq> c) (xs @ c # ys) = c # ys"
    by (induction xs) auto
  then show ?thesis by (simp add: split_first_def)
qed

lemma split_first_Some: "split_first c s = Some (xs, ys) \<longleftrightarrow> s = xs @ c # ys \<and> c \<notin> set xs"
proof
  assume "split_first c s = Some (xs, ys)"
  then obtain d where d: "dropWhile (\<lambda>x. x \<noteq> c) s = d # ys" and xs: "xs = takeWhile (\<lambda>x. x \<noteq> c) s"
    by (auto simp: split_first_def split: list.splits)
  then have "d = c" using hd_dropWhile [of "\<lambda>x. x \<noteq> c" s] by simp
  then show "s = xs @ c # ys \<and> c \<notin> set xs"
    using d xs takeWhile_dropWhile_id [of "\<lambda>x. x \<noteq> c" s] by (auto dest: set_takeWhileD)
qed (auto intro: split_first_append)

lemma split_first_None: "split_first c s = None \<longleftrightarrow> c \<notin> set s"
proof -
  have "dropWhile (\<lambda>x. x \<noteq> c) s = [] \<longleftrightarrow> c \<notin> set s" by auto
  then show ?thesis unfolding split_first_def by (metis list.case(1) list.exhaust list.case(2) option.distinct(1))
qed

lemma split_first_length: "split_first c s = Some (xs, ys) \<Longrightarrow> length ys < length s"
  by (auto simp: split_first_Some)

function decimal_text :: "nat \<Rightarrow> string" where
  "decimal_text n = (if n < 10 then [char_of (48 + n)] else decimal_text (n div 10) @ [char_of (48 + n mod 10)])"
  by pat_completeness auto
termination
  by (relation "measure id") auto

declare decimal_text.simps [simp del]

primrec parse_ipv4_components :: "nat \<Rightarrow> string \<Rightarrow> u32 \<Rightarrow> u32 option" where
  "parse_ipv4_components 0 s acc = Some acc"
| "parse_ipv4_components (Suc left) s acc =
     (let part = takeWhile (\<lambda>c. c \<noteq> CHR ''.'') s; rest = dropWhile (\<lambda>c. c \<noteq> CHR ''.'') s in
      if (left > 0 \<and> rest = []) \<or> (left = 0 \<and> rest \<noteq> []) then None
      else if part = [] \<or> length part > 3 then None
      else case from_chars (2 ^ 32 - 1) part of
        None \<Rightarrow> None
      | Some (v, unread) \<Rightarrow>
          if unread \<noteq> [] \<or> v > 255 then None
          else parse_ipv4_components left (tl rest) (push_bit 8 acc OR of_nat v))"

definition parse_ipv4 :: "string \<Rightarrow> u32 option" where
  "parse_ipv4 s = (if s = [] then None else parse_ipv4_components 4 s 0)"

definition format_ipv4 :: "u32 \<Rightarrow> string" where
  "format_ipv4 v =
     decimal_text (unat (drop_bit 24 v AND 0xFF)) @ ''.'' @ decimal_text (unat (drop_bit 16 v AND 0xFF)) @ ''.'' @
     decimal_text (unat (drop_bit 8 v AND 0xFF)) @ ''.'' @ decimal_text (unat (v AND 0xFF))"

definition target_parse_ip_address :: "libc \<Rightarrow> string \<Rightarrow> ip_address option" where
  "target_parse_ip_address lc s = parse_ip_address lc (trim_target s)"

definition looks_like_ipv4 :: "string \<Rightarrow> bool" where
  "looks_like_ipv4 s \<longleftrightarrow> list_all (\<lambda>c. c = CHR ''.'' \<or> is_digit c) s \<and> CHR ''.'' \<in> set s \<and> list_ex is_digit s"

definition host_char :: "char \<Rightarrow> bool" where
  "host_char c \<longleftrightarrow>
     (CHR ''a'' \<le> c \<and> c \<le> CHR ''z'') \<or> (CHR ''A'' \<le> c \<and> c \<le> CHR ''Z'') \<or> is_digit c \<or> c = CHR ''-''"

definition valid_label :: "string \<Rightarrow> bool" where
  "valid_label label \<longleftrightarrow>
     label \<noteq> [] \<and> length label \<le> 63 \<and> hd label \<noteq> CHR ''-'' \<and> last label \<noteq> CHR ''-'' \<and> list_all host_char label"

function valid_labels :: "string \<Rightarrow> bool" where
  "valid_labels s =
     (if s = [] then True
      else case split_first CHR ''.'' s of
        None \<Rightarrow> valid_label s
      | Some (label, rest) \<Rightarrow> valid_label label \<and> valid_labels rest)"
  by pat_completeness auto
termination
  by (relation "measure length") (auto dest: split_first_length)

declare valid_labels.simps [simp del]

definition valid_hostname :: "string \<Rightarrow> bool" where
  "valid_hostname s \<longleftrightarrow>
     s \<noteq> [] \<and> length s \<le> 253 \<and> hd s \<noteq> CHR ''.'' \<and> last s \<noteq> CHR ''.'' \<and> valid_labels s"

section \<open>The parser\<close>

definition address_spec :: "target_kind \<Rightarrow> string \<Rightarrow> u32 \<Rightarrow> u32 \<Rightarrow> u8 \<Rightarrow> ip_address \<Rightarrow> ip_address \<Rightarrow> target_spec" where
  "address_spec kind token lo hi prefix first_ip last_ip =
     \<lparr>ts_kind = kind, ts_original = token, ts_first_address = lo, ts_last_address = hi, ts_prefix_length = prefix,
      ts_hostname = [], ts_first_ip = first_ip, ts_last_ip = last_ip\<rparr>"

definition parse_cidr :: "libc \<Rightarrow> string \<Rightarrow> string \<Rightarrow> string \<Rightarrow> target_failure + target_spec" where
  "parse_cidr lc token address_text prefix_text =
     (if CHR ''/'' \<in> set prefix_text then
        Inl (InvalidArgument, TeInvalidCIDR, ''CIDR contains more than one prefix separator: '' @ token)
      else case (from_chars (2 ^ 32 - 1) prefix_text, parse_ip_address lc address_text) of
        (Some (prefix, []), Some a) \<Rightarrow>
          if is_ipv4 a \<and> prefix \<le> 32 then
            (case parse_ipv4 address_text of
               None \<Rightarrow> Inl (InvalidArgument, TeInvalidCIDR, ''invalid IPv4 CIDR: '' @ token)
             | Some v \<Rightarrow> Inr (address_spec TkIPv4Cidr token v v (of_nat prefix) a a))
          else if is_ipv6 a \<and> prefix \<le> 128 then Inr (address_spec TkIPv6Cidr token 0 0 (of_nat prefix) a a)
          else Inl (InvalidArgument, TeInvalidCIDR, ''invalid IP CIDR: '' @ token)
      | _ \<Rightarrow> Inl (InvalidArgument, TeInvalidCIDR, ''invalid IP CIDR: '' @ token))"

text \<open>\<open>None\<close>: the token has a dash but does not look like a range, and is read on.\<close>

definition parse_range :: "libc \<Rightarrow> string \<Rightarrow> string \<Rightarrow> string \<Rightarrow> (target_failure + target_spec) option" where
  "parse_range lc token before after =
     (if CHR ''-'' \<in> set after then
        Some (Inl (InvalidArgument, TeInvalidRange, ''range contains more than one separator: '' @ token))
      else
        let left = trim_target before; right = trim_target after;
            first_ip = parse_ip_address lc left; last_ip = parse_ip_address lc right
        in if first_ip \<noteq> None \<or> last_ip \<noteq> None \<or> looks_like_ipv4 left \<or> looks_like_ipv4 right \<or>
              CHR '':'' \<in> set left \<or> CHR '':'' \<in> set right
           then Some (case (first_ip, last_ip) of
                (Some a, Some b) \<Rightarrow>
                  if ip_family a \<noteq> ip_family b \<or> ip_scope a \<noteq> ip_scope b then
                    Inl (InvalidArgument, TeInvalidRange, ''invalid or mixed-family IP range: '' @ token)
                  else if ip_less b a then
                    Inl (InvalidArgument, TeInvalidRange, ''reversed IP range: '' @ token)
                  else if is_ipv4 a then Inr (address_spec TkIPv4Range token (ipv4_value a) (ipv4_value b) 32 a b)
                  else Inr (address_spec TkIPv6Range token 0 0 128 a b)
              | _ \<Rightarrow> Inl (InvalidArgument, TeInvalidRange, ''invalid or mixed-family IP range: '' @ token))
           else None)"

definition parse_single :: "libc \<Rightarrow> string \<Rightarrow> target_failure + target_spec" where
  "parse_single lc token =
     (case parse_ipv4 token of
        Some v \<Rightarrow> Inr (address_spec TkIPv4 token v v 32 (from_ipv4 v) (from_ipv4 v))
      | None \<Rightarrow>
          if looks_like_ipv4 token then Inl (InvalidArgument, TeInvalidIPv4, ''invalid IPv4 address: '' @ token)
          else case (case parse_ip_address lc token of Some a \<Rightarrow> if is_ipv6 a then Some a else None | None \<Rightarrow> None) of
            Some a \<Rightarrow> Inr (address_spec TkIPv6 token 0 0 128 a a)
          | None \<Rightarrow>
              if CHR ''%'' \<in> set token then
                Inl (InvalidArgument, TeInvalidScope, ''invalid IPv6 scope or zone identifier: '' @ token)
              else if CHR '':'' \<in> set token then
                Inl (InvalidArgument, TeInvalidTarget, ''invalid IPv6 address: '' @ token)
              else if \<not> valid_hostname token then
                Inl (InvalidArgument, TeInvalidHostname, ''invalid hostname: '' @ token)
              else Inr ((address_spec TkHostname token 0 0 0 default_ip default_ip)\<lparr>ts_hostname := token\<rparr>))"

definition parse_one :: "libc \<Rightarrow> string \<Rightarrow> target_failure + target_spec" where
  "parse_one lc text =
     (let token = trim_target text in
      if token = [] then Inl (InvalidArgument, TeInvalidTarget, ''empty target specification'')
      else case split_first CHR ''/'' token of
        Some (address_text, prefix_text) \<Rightarrow> parse_cidr lc token address_text prefix_text
      | None \<Rightarrow>
          (case (case split_first CHR ''-'' token of
                   None \<Rightarrow> None
                 | Some (before, after) \<Rightarrow> parse_range lc token before after) of
             Some result \<Rightarrow> result
           | None \<Rightarrow> parse_single lc token))"

function parse_targets_loop :: "libc \<Rightarrow> string \<Rightarrow> target_spec list \<Rightarrow> target_failure + target_spec list" where
  "parse_targets_loop lc s specs =
     (case split_first CHR '','' s of
        None \<Rightarrow> (case parse_one lc s of Inl f \<Rightarrow> Inl f | Inr spec \<Rightarrow> Inr (specs @ [spec]))
      | Some (token, rest) \<Rightarrow>
          (case parse_one lc token of Inl f \<Rightarrow> Inl f | Inr spec \<Rightarrow> parse_targets_loop lc rest (specs @ [spec])))"
  by pat_completeness auto
termination
  by (relation "measure (\<lambda>(_, s, _). length s)") (auto dest: split_first_length)

declare parse_targets_loop.simps [simp del]

definition parse_targets :: "libc \<Rightarrow> string \<Rightarrow> target_failure + target_spec list" where
  "parse_targets lc input =
     (let text = trim_target input in
      if text = [] then Inl (InvalidArgument, TeEmptyTargetSet, ''target input is empty'')
      else parse_targets_loop lc text [])"

section \<open>Host names\<close>

text \<open>
  An entry of the list \<open>getaddrinfo\<close> returns: an IPv4 address, an IPv6 address with its scope
  identifier, or anything else (no address, another family, a short structure).
\<close>

datatype addrinfo_entry = EntryInet u32 | EntryInet6 bytes nat | EntryOther

record hostname_resolution =
  hr_status :: status_code
  hr_addresses :: "u32 list"
  hr_message :: string
  hr_ip_addresses :: "ip_address list"

fun entry_address :: "addrinfo_entry \<Rightarrow> ip_address option" where
  "entry_address (EntryInet v) = Some (from_ipv4 v)"
| "entry_address (EntryInet6 bs scope) =
     Some (if scope \<noteq> 0 then (from_ipv6 bs)\<lparr>ip_scope := Some (decimal_text scope)\<rparr> else from_ipv6 bs)"
| "entry_address EntryOther = None"

text \<open>The loop over the entries; \<open>None\<close> when more than \<open>max_results\<close> addresses were seen.\<close>

fun collect_addresses :: "nat \<Rightarrow> addrinfo_entry list \<Rightarrow> ip_address list \<Rightarrow> ip_address list option" where
  "collect_addresses max_results [] found = Some found"
| "collect_addresses max_results (entry # entries) found =
     (case entry_address entry of
        None \<Rightarrow> collect_addresses max_results entries found
      | Some a \<Rightarrow>
          if a \<in> set found then collect_addresses max_results entries found
          else if length found + 1 > max_results then None
          else collect_addresses max_results entries (found @ [a]))"

definition resolve_hostname ::
  "(string \<Rightarrow> string + addrinfo_entry list) \<Rightarrow> string \<Rightarrow> nat \<Rightarrow> hostname_resolution" where
  "resolve_hostname getaddrinfo name max_results =
     (case getaddrinfo name of
        Inl gai \<Rightarrow> \<lparr>hr_status = NotFound, hr_addresses = [],
          hr_message = ''hostname resolution failed for '' @ name @ '': '' @ gai, hr_ip_addresses = []\<rparr>
      | Inr entries \<Rightarrow>
          (case collect_addresses max_results entries [] of
             None \<Rightarrow> \<lparr>hr_status = ResourceExhausted, hr_addresses = [],
               hr_message = ''hostname resolution exceeded --max-hostname-results'', hr_ip_addresses = []\<rparr>
           | Some found \<Rightarrow>
               if found = [] then \<lparr>hr_status = NotFound, hr_addresses = [],
                 hr_message = ''hostname has no IPv4/IPv6 address records: '' @ name, hr_ip_addresses = []\<rparr>
               else \<lparr>hr_status = Ok, hr_addresses = map ipv4_value (filter is_ipv4 found), hr_message = [],
                 hr_ip_addresses = found\<rparr>))"

section \<open>The expansion\<close>

definition mask_ipv6 :: "ip_address \<Rightarrow> u8 \<Rightarrow> ip_address" where
  "mask_ipv6 a prefix =
     (let full = unat prefix div 8; remainder = unat prefix mod 8;
          bs = fold (\<lambda>i bs. bs[i := 0]) [full + (if remainder = 0 then 0 else 1) ..< 16] (ip_bytes a)
      in a\<lparr>ip_bytes :=
           (if remainder \<noteq> 0 \<and> full < 16 then bs[full := bs ! full AND push_bit (8 - remainder) 0xFF] else bs)\<rparr>)"

text \<open>The carry loop over the bytes 15 down to 8.\<close>

definition add_offset_step :: "nat \<Rightarrow> bytes \<times> u64 \<Rightarrow> bytes \<times> u64" where
  "add_offset_step i bo =
     (case bo of (bs, offset) \<Rightarrow>
       let sum = (ucast (bs ! i) + ucast (offset AND 0xFF) :: u16)
       in (bs[i := ucast (sum AND 0xFF)], drop_bit 8 offset + ucast (drop_bit 8 sum)))"

definition add_ipv6_offset :: "ip_address \<Rightarrow> u64 \<Rightarrow> ip_address" where
  "add_ipv6_offset a offset = a\<lparr>ip_bytes := fst (fold add_offset_step (rev [8 ..< 16]) (ip_bytes a, offset))\<rparr>"

definition low_half :: "bytes \<Rightarrow> u64" where
  "low_half bs = foldl (\<lambda>acc b. push_bit 8 acc OR ucast b) 0 (take 8 (drop 8 bs))"

definition ipv6_range_count :: "ip_address \<Rightarrow> ip_address \<Rightarrow> u64 option" where
  "ipv6_range_count a b =
     (if \<not> is_ipv6 a \<or> \<not> is_ipv6 b \<or> take 8 (ip_bytes a) \<noteq> take 8 (ip_bytes b) then None
      else let difference = low_half (ip_bytes b) - low_half (ip_bytes a) in
        if difference = - 1 then None else Some (difference + 1))"

text \<open>
  The targets found and the addresses seen so far; \<open>append\<close> skips an address that is not valid
  or was seen, and fails when the limit is exceeded.
\<close>

record expansion =
  ex_targets :: "resolved_target list"
  ex_seen :: "ip_address list"

definition append_target ::
  "target_limits \<Rightarrow> string option \<Rightarrow> ip_address \<Rightarrow> expansion \<Rightarrow> target_failure + expansion" where
  "append_target limits hostname a ex =
     (if \<not> ip_valid a \<or> a \<in> set (ex_seen ex) then Inr ex
      else if length (ex_seen ex) + 1 > tl_max_targets limits then
        Inl (ResourceExhausted, TeResourceExhausted,
          ''target expansion exceeded --max-targets='' @ decimal_text (tl_max_targets limits))
      else Inr \<lparr>ex_targets = ex_targets ex @ [\<lparr>rt_address = (if is_ipv4 a then ipv4_value a else 0),
             rt_source_hostname = hostname, rt_ip_address = a\<rparr>], ex_seen = a # ex_seen ex\<rparr>)"

fun append_all ::
  "target_limits \<Rightarrow> string option \<Rightarrow> ip_address list \<Rightarrow> expansion \<Rightarrow> target_failure + expansion" where
  "append_all limits hostname [] ex = Inr ex"
| "append_all limits hostname (a # as) ex =
     (case append_target limits hostname a ex of
        Inl f \<Rightarrow> Inl f
      | Inr ex1 \<Rightarrow> append_all limits hostname as ex1)"

text \<open>The failure of a range, or of a block, with more addresses than the limit.\<close>

definition too_many :: "target_limits \<Rightarrow> target_spec \<Rightarrow> target_failure" where
  "too_many limits spec =
     (ResourceExhausted, TeResourceExhausted,
      ''target expansion exceeded --max-targets='' @ decimal_text (tl_max_targets limits) @ '' for '' @ ts_original spec)"

text \<open>
  The first address and the number of addresses of a specification without a host name.
\<close>

definition ipv4_block :: "target_spec \<Rightarrow> u32 \<times> u64" where
  "ipv4_block spec =
     (case ts_kind spec of
        TkIPv4Cidr \<Rightarrow>
          let host_bits = 32 - unat (ts_prefix_length spec);
              netmask = (if ts_prefix_length spec = 0 then 0 else push_bit host_bits (- 1))
          in (ts_first_address spec AND netmask, push_bit host_bits 1)
      | TkIPv4Range \<Rightarrow> (ts_first_address spec, ucast (ts_last_address spec) - ucast (ts_first_address spec) + 1)
      | _ \<Rightarrow> (ts_first_address spec, 1))"

definition ipv6_block :: "target_spec \<Rightarrow> target_failure + (ip_address \<times> u64)" where
  "ipv6_block spec =
     (case ts_kind spec of
        TkIPv6Cidr \<Rightarrow>
          let host_bits = 128 - unat (ts_prefix_length spec) in
          if host_bits \<ge> 64 then
            Inl (ResourceExhausted, TeResourceExhausted,
              ''IPv6 CIDR expansion exceeds --max-targets: '' @ ts_original spec)
          else Inr (mask_ipv6 (ts_first_ip spec) (ts_prefix_length spec), push_bit host_bits 1)
      | TkIPv6Range \<Rightarrow>
          (case ipv6_range_count (ts_first_ip spec) (ts_last_ip spec) of
             None \<Rightarrow> Inl (ResourceExhausted, TeResourceExhausted,
               ''IPv6 range is too large to expand safely: '' @ ts_original spec)
           | Some number \<Rightarrow> Inr (ts_first_ip spec, number))
      | _ \<Rightarrow> Inr (ts_first_ip spec, 1))"

definition expand_hostname ::
  "target_limits \<Rightarrow> (string \<Rightarrow> nat \<Rightarrow> string + hostname_resolution) \<Rightarrow> target_spec \<Rightarrow> expansion \<Rightarrow>
     target_failure + expansion" where
  "expand_hostname limits resolver spec ex =
     (case resolver (ts_hostname spec) (tl_max_hostname_results limits) of
        Inl what \<Rightarrow> Inl (InternalError, TeResolutionFailed, ''hostname resolver failed: '' @ what)
      | Inr r \<Rightarrow>
          if hr_status r \<noteq> Ok \<or> (hr_ip_addresses r = [] \<and> hr_addresses r = []) then
            Inl (if hr_status r = Ok then NotFound else hr_status r,
                 if hr_status r = ResourceExhausted then TeResourceExhausted else TeResolutionFailed,
                 if hr_message r = [] then ''hostname resolution failed: '' @ ts_hostname spec else hr_message r)
          else if length (hr_ip_addresses r) > tl_max_hostname_results limits then
            Inl (ResourceExhausted, TeResourceExhausted, ''hostname resolution exceeded --max-hostname-results'')
          else append_all limits (Some (ts_hostname spec))
            (if hr_ip_addresses r \<noteq> [] then hr_ip_addresses r else map from_ipv4 (hr_addresses r)) ex)"

definition expand_spec ::
  "target_limits \<Rightarrow> (string \<Rightarrow> nat \<Rightarrow> string + hostname_resolution) \<Rightarrow> target_spec \<Rightarrow> expansion \<Rightarrow>
     target_failure + expansion" where
  "expand_spec limits resolver spec ex =
     (if ts_kind spec = TkHostname then expand_hostname limits resolver spec ex
      else if ts_kind spec = TkIPv4 \<or> ts_kind spec = TkIPv4Cidr \<or> ts_kind spec = TkIPv4Range then
        (case ipv4_block spec of (base, number) \<Rightarrow>
          if unat number > tl_max_targets limits then Inl (too_many limits spec)
          else append_all limits None (map (\<lambda>offset. from_ipv4 (base + of_nat offset)) [0 ..< unat number]) ex)
      else if \<not> is_ipv6 (ts_first_ip spec) then
        Inl (InvalidArgument, TeInvalidTarget, ''target has no typed IP address'')
      else case ipv6_block spec of
        Inl f \<Rightarrow> Inl f
      | Inr (base, number) \<Rightarrow>
          if unat number > tl_max_targets limits then Inl (too_many limits spec)
          else append_all limits None (map (\<lambda>offset. add_ipv6_offset base (of_nat offset)) [0 ..< unat number]) ex)"

fun expand_specs ::
  "target_limits \<Rightarrow> (string \<Rightarrow> nat \<Rightarrow> string + hostname_resolution) \<Rightarrow> target_spec list \<Rightarrow> expansion \<Rightarrow>
     target_failure + expansion" where
  "expand_specs limits resolver [] ex = Inr ex"
| "expand_specs limits resolver (spec # specs) ex =
     (case expand_spec limits resolver spec ex of
        Inl f \<Rightarrow> Inl f
      | Inr ex1 \<Rightarrow> expand_specs limits resolver specs ex1)"

definition expand_targets ::
  "target_limits \<Rightarrow> (string \<Rightarrow> nat \<Rightarrow> string + hostname_resolution) \<Rightarrow> target_spec list \<Rightarrow>
     target_failure + resolved_target list" where
  "expand_targets limits resolver specs =
     (if specs = [] then Inl (InvalidArgument, TeEmptyTargetSet, ''target specification set is empty'')
      else if tl_max_targets limits = 0 \<or> tl_max_hostname_results limits = 0 then
        Inl (InvalidArgument, TeInvalidTarget, ''target limits must be positive'')
      else if tl_max_targets limits > maximum_targets \<or> tl_max_hostname_results limits > maximum_hostname_results then
        Inl (ResourceExhausted, TeResourceExhausted, ''target limits exceed the configured hard maximum'')
      else case expand_specs limits resolver specs \<lparr>ex_targets = [], ex_seen = []\<rparr> of
        Inl f \<Rightarrow> Inl f
      | Inr ex \<Rightarrow> Inr (ex_targets ex))"

section \<open>The target set\<close>

definition typed_address :: "resolved_target \<Rightarrow> ip_address" where
  "typed_address t = (if ip_valid (rt_ip_address t) then rt_ip_address t else from_ipv4 (rt_address t))"

fun deduplicate_from :: "ip_address list \<Rightarrow> resolved_target list \<Rightarrow> resolved_target list" where
  "deduplicate_from seen [] = []"
| "deduplicate_from seen (t # ts) =
     (let t1 = t\<lparr>rt_ip_address := typed_address t\<rparr> in
      if rt_ip_address t1 \<in> set seen then deduplicate_from seen ts
      else t1 # deduplicate_from (rt_ip_address t1 # seen) ts)"

definition deduplicate_targets :: "resolved_target list \<Rightarrow> resolved_target list" where
  "deduplicate_targets ts = deduplicate_from [] ts"

definition sort_numeric :: "resolved_target list \<Rightarrow> resolved_target list" where
  "sort_numeric ts = sort_by (\<lambda>a b. ip_less (typed_address a) (typed_address b)) ts"

definition resolve_specs ::
  "target_limits \<Rightarrow> (string \<Rightarrow> nat \<Rightarrow> string + hostname_resolution) \<Rightarrow> target_spec list \<Rightarrow>
     target_failure + resolved_target list" where
  "resolve_specs limits resolver specs =
     (case expand_targets limits resolver specs of
        Inl f \<Rightarrow> Inl f
      | Inr ts \<Rightarrow>
          if sort_numeric ts = [] then
            Inl (InvalidArgument, TeEmptyTargetSet, ''target resolution produced no IP targets'')
          else Inr (sort_numeric ts))"

definition resolve_targets ::
  "libc \<Rightarrow> target_limits \<Rightarrow> (string \<Rightarrow> nat \<Rightarrow> string + hostname_resolution) \<Rightarrow> string \<Rightarrow>
     target_failure + resolved_target list" where
  "resolve_targets lc limits resolver input =
     (case parse_targets lc input of
        Inl f \<Rightarrow> Inl f
      | Inr specs \<Rightarrow> resolve_specs limits resolver specs)"

end
