(* ===== verification/Target_Expansion.thy ===== *)
theory Target_Expansion
  imports Target_Engine
begin

text \<open>
  What a target expression denotes, and that the expansion of \<open>Target_Engine\<close> computes it:
  addresses as numbers, the arithmetic on address bytes, blocks and ranges as sets of addresses,
  and the round trip of dotted text.
\<close>

section \<open>Addresses as numbers\<close>

definition be_value :: "bytes \<Rightarrow> nat" where
  "be_value bs = foldl (\<lambda>acc b. 256 * acc + unat b) 0 bs"

lemma be_value_simps [simp]:
  "be_value [] = 0" "be_value (bs @ [b]) = 256 * be_value bs + unat b"
  by (simp_all add: be_value_def)

lemma be_value_append: "be_value (xs @ ys) = be_value xs * 256 ^ length ys + be_value ys"
proof (induction ys rule: rev_induct)
  case (snoc y ys)
  then show ?case using be_value_simps(2) [of "xs @ ys" y] by (simp add: algebra_simps)
qed simp

lemma be_value_single [simp]: "be_value [b] = unat b"
  using be_value_simps(2) [of "[]" b] by simp

lemma be_value_Cons: "be_value (b # bs) = unat b * 256 ^ length bs + be_value bs"
  using be_value_append [of "[b]" bs] by simp

lemma be_value_less: "be_value bs < 256 ^ length bs"
proof (induction bs)
  case (Cons b bs)
  have "unat b * 256 ^ length bs + be_value bs < (unat b + 1) * 256 ^ length bs" using Cons by simp
  also have "\<dots> \<le> 256 * 256 ^ length bs" using unat_u8_less [of b] by (intro mult_right_mono) simp_all
  finally show ?case by (simp add: be_value_Cons)
qed simp

lemma be_value_replicate [simp]: "be_value (replicate n 0) = 0"
  by (induction n) (simp_all add: be_value_Cons)

lemma be_value_inj: "length xs = length ys \<Longrightarrow> be_value xs = be_value ys \<Longrightarrow> xs = ys"
proof (induction xs ys rule: list_induct2)
  case (Cons x xs y ys)
  let ?B = "256 ^ length ys :: nat"
  have less: "be_value xs < ?B" "be_value ys < ?B" using be_value_less [of xs] be_value_less [of ys] Cons.hyps by simp_all
  have eq: "unat x * ?B + be_value xs = unat y * ?B + be_value ys" using Cons.prems Cons.hyps by (simp add: be_value_Cons)
  have "(unat x * ?B + be_value xs) div ?B = unat x" "(unat y * ?B + be_value ys) div ?B = unat y"
    using less by (simp_all add: div_mult_self3)
  then have "unat x = unat y" using eq by simp
  moreover from this have "x = y" by (simp add: word_unat_eq_iff)
  ultimately show ?case using eq Cons.IH by simp
qed simp

lemma be_value_lex: "length xs = length ys \<Longrightarrow> lex_less xs ys \<longleftrightarrow> be_value xs < be_value ys"
proof (induction xs ys rule: list_induct2)
  case (Cons x xs y ys)
  let ?B = "256 ^ length ys :: nat"
  have less: "be_value xs < ?B" "be_value ys < ?B" using be_value_less [of xs] be_value_less [of ys] Cons.hyps by simp_all
  have far: "unat u * ?B + a < unat v * ?B + b" if "unat u < unat v" "a < ?B" for u v :: u8 and a b
  proof -
    have "unat u * ?B + a < (unat u + 1) * ?B" using that by simp
    also have "\<dots> \<le> unat v * ?B" using that by (intro mult_right_mono) simp_all
    finally show ?thesis by simp
  qed
  consider "unat x < unat y" | "unat y < unat x" | "x = y" by (metis linorder_less_linear word_unat_eq_iff)
  then show ?case
  proof cases
    case 1
    then show ?thesis using far [OF 1 less(1)] Cons.hyps by (simp add: be_value_Cons word_less_nat_alt)
  next
    case 2
    then show ?thesis using far [of y x "be_value ys" "be_value xs"] less Cons.hyps
      by (simp add: be_value_Cons word_less_nat_alt)
  next
    case 3
    then show ?thesis using Cons by (simp add: be_value_Cons)
  qed
qed simp

text \<open>The number of an address: its four or sixteen bytes in network order.\<close>

definition ip_number :: "ip_address \<Rightarrow> nat" where
  "ip_number a = be_value (ip_prefix a)"

lemma push_or_plus: "push_bit 8 x OR ucast (b :: u8) = 256 * x + (ucast b :: 'a::len word)"
proof -
  have "push_bit 8 x + (ucast b :: 'a word) = push_bit 8 x OR ucast b"
    by (rule disjunctive_add) (auto simp: bit_simps dest: bit_imp_le_length)
  then show ?thesis by (simp add: push_bit_eq_mult mult.commute)
qed

lemma be_value_octets: "be_value (octets_of_u32 v) = unat v"
proof -
  let ?b = "\<lambda>i. ucast (ucast (drop_bit i v) :: u8) :: u32"
  have "v = push_bit 8 (push_bit 8 (push_bit 8 (?b 24) OR ?b 16) OR ?b 8) OR ucast (ucast v :: u8)"
    using u32_of_octets [of v] by (simp add: push_bit_or or.assoc)
  then have v: "v = of_nat (be_value (octets_of_u32 v))"
    unfolding push_or_plus by (simp add: octets_of_u32_def be_value_Cons algebra_simps)
  have small: "be_value (octets_of_u32 v) < 2 ^ 32"
    using be_value_less [of "octets_of_u32 v"] by (simp add: octets_of_u32_def)
  have "unat (of_nat n :: u32) = n" if "n < 2 ^ 32" for n
    using that by (simp add: unsigned_of_nat take_bit_nat_eq_self)
  from this [OF small] v show ?thesis by metis
qed

lemma ip_number_from_ipv4 [simp]: "ip_number (from_ipv4 v) = unat v"
proof -
  have "ip_prefix (from_ipv4 v) = octets_of_u32 v"
    by (simp add: ip_prefix_def) (simp add: from_ipv4_def octets_of_u32_def)
  then show ?thesis by (simp add: ip_number_def be_value_octets)
qed

lemma low_half_value: "length bs = 16 \<Longrightarrow> unat (low_half bs) = be_value (drop 8 bs)"
proof -
  have fold: "foldl (\<lambda>acc b. push_bit 8 acc OR ucast b) 0 xs = (of_nat (be_value xs) :: u64)" for xs :: bytes
    by (induction xs rule: rev_induct) (simp_all add: push_or_plus)
  assume l: "length bs = 16"
  then have "be_value (drop 8 bs) < 2 ^ 64" using be_value_less [of "drop 8 bs"] by simp
  then show ?thesis using l by (simp add: low_half_def fold unsigned_of_nat take_bit_nat_eq_self)
qed

section \<open>Adding an offset to an IPv6 address\<close>

lemma unat_drop_8: "unat (drop_bit 8 (w :: 'a::len word)) = unat w div 256"
  unfolding unat_drop_bit_eq by (simp add: drop_bit_eq_div)

lemma byte_digit:
  assumes "z < 256"
  shows "(256 * q + z) div 256 = q" "(256 * q + z) mod 256 = (z :: nat)"
  using assms by simp_all

lemma unat_high_byte: "unat (ucast (drop_bit 8 (s :: u16)) :: u64) = unat s div 256"
proof -
  have "unat s div 256 < 2 ^ 64" using unat_u16_less [of s] by simp
  from take_bit_nat_eq_self [OF this] show ?thesis by (simp only: unsigned_ucast_eq unat_drop_8 len_num0 len_bit0 len_bit1 len_num1) simp
qed

lemma carry_sum: "(m div 256 + (x + m mod 256) div 256) * 256 + (x + m mod 256) mod 256 = x + (m :: nat)"
proof -
  have "m div 256 * 256 + m mod 256 = m" "(x + m mod 256) div 256 * 256 + (x + m mod 256) mod 256 = x + m mod 256"
    by (rule div_mult_mod_eq)+
  then show ?thesis by (simp only: add_mult_distrib)
qed

lemma offset_step:
  assumes "i < length bs"
  shows "\<exists>b offset'. add_offset_step i (bs, offset) = (bs[i := b], offset') \<and>
    unat offset' * 256 + unat b = unat (bs ! i) + unat offset"
proof -
  let ?sum = "ucast (bs ! i) + ucast (offset AND 0xFF) :: u16"
  have low: "unat (offset AND 0xFF) = unat offset mod 256"
    by (simp only: and_0xFF unsigned_take_bit_eq) (simp add: take_bit_eq_mod)
  have "unat (ucast (offset AND 0xFF) :: u16) = unat offset mod 256"
    using low by (simp add: unsigned_ucast_eq take_bit_eq_mod mod_mod_cancel)
  then have sum: "unat ?sum = unat (bs ! i) + unat offset mod 256"
    using unat_u8_less [of "bs ! i"] by (simp add: unat_word_ariths)
  have b: "unat (ucast (?sum AND 0xFF) :: u8) = unat ?sum mod 256"
    by (simp add: unsigned_ucast_eq take_bit_eq_mod)
  have carry: "unat (ucast (drop_bit 8 ?sum) :: u64) = unat ?sum div 256" by (rule unat_high_byte)
  have "unat (drop_bit 8 offset) = unat offset div 256" by (rule unat_drop_8)
  moreover have "unat offset div 256 + unat ?sum div 256 < 2 ^ 64"
    using unsigned_less [of offset, where ?'a = nat] unat_u16_less [of ?sum] by simp
  ultimately have off: "unat (drop_bit 8 offset + ucast (drop_bit 8 ?sum)) = unat offset div 256 + unat ?sum div 256"
    using carry by (simp add: unat_word_ariths)
  show ?thesis
    unfolding add_offset_step_def Let_def prod.case
    by (intro exI conjI, rule refl) (unfold off b sum, rule carry_sum)
qed

lemma offset_segment:
  assumes "k + n \<le> length bs" and "fold add_offset_step (rev [k ..< k + n]) (bs, offset) = (bs', offset')"
  shows "length bs' = length bs \<and> take k bs' = take k bs \<and> drop (k + n) bs' = drop (k + n) bs \<and>
    be_value (take n (drop k bs')) = (be_value (take n (drop k bs)) + unat offset) mod 256 ^ n"
  using assms
proof (induction n arbitrary: bs offset)
  case (Suc n)
  obtain b o1 where st: "add_offset_step (k + n) (bs, offset) = (bs[k + n := b], o1)"
    and eq: "unat o1 * 256 + unat b = unat (bs ! (k + n)) + unat offset"
    using offset_step [of "k + n" bs offset] Suc.prems(1) by auto
  have "fold add_offset_step (rev [k ..< k + n]) (bs[k + n := b], o1) = (bs', offset')"
    using Suc.prems(2) st by simp
  from Suc.IH [OF _ this] Suc.prems(1) have ih: "length bs' = length bs" "take k bs' = take k (bs[k + n := b])"
    "drop (k + n) bs' = drop (k + n) (bs[k + n := b])"
    "be_value (take n (drop k bs')) = (be_value (take n (drop k (bs[k + n := b]))) + unat o1) mod 256 ^ n"
    by simp_all
  have "drop (k + n) bs' ! 0 = drop (k + n) (bs[k + n := b]) ! 0" by (simp only: ih(3))
  then have last: "bs' ! (k + n) = b" using ih(1) Suc.prems(1) by simp
  have snoc: "take (Suc n) (drop k xs) = take n (drop k xs) @ [xs ! (k + n)]" if "length xs = length bs" for xs
    using Suc.prems(1) that by (simp add: take_Suc_conv_app_nth)
  have seg: "take n (drop k (bs[k + n := b])) = take n (drop k bs)"
    by (simp add: drop_update_swap)
  have "be_value (take (Suc n) (drop k bs')) = 256 * ((be_value (take n (drop k bs)) + unat o1) mod 256 ^ n) + unat b"
    by (simp only: snoc [OF ih(1)] be_value_simps ih(4) seg last)
  also have "\<dots> = (256 * (be_value (take n (drop k bs)) + unat o1) + unat b) mod 256 ^ Suc n"
  proof -
    let ?x = "256 * (be_value (take n (drop k bs)) + unat o1) + unat b"
    have "?x div 256 = be_value (take n (drop k bs)) + unat o1" "?x mod 256 = unat b"
      by (rule byte_digit [OF unat_u8_less])+
    then show ?thesis using mod_mult2_eq [of ?x 256 "256 ^ n"] by simp
  qed
  also have "256 * (be_value (take n (drop k bs)) + unat o1) + unat b =
      be_value (take (Suc n) (drop k bs)) + unat offset"
    using eq by (simp add: snoc)
  finally have v: "be_value (take (Suc n) (drop k bs')) = (be_value (take (Suc n) (drop k bs)) + unat offset) mod 256 ^ Suc n" .
  moreover have "drop (k + Suc n) bs' = drop (k + Suc n) bs"
    using arg_cong [OF ih(3), of "drop 1"] by simp
  ultimately show ?case using ih(1,2) by simp
qed simp

lemma ip_number_ipv6: "is_ipv6 a \<Longrightarrow> ip_wf a \<Longrightarrow> ip_number a = be_value (ip_bytes a)"
  by (simp add: ip_number_def ip_prefix_def is_ipv4_def is_ipv6_def ip_wf_def)

lemma add_ipv6_offset_number:
  assumes "is_ipv6 a" and "ip_wf a" and "ip_number a mod 2 ^ 64 + unat offset < 2 ^ 64"
  shows "ip_number (add_ipv6_offset a offset) = ip_number a + unat offset"
    and "is_ipv6 (add_ipv6_offset a offset)" and "ip_wf (add_ipv6_offset a offset)"
    and "ip_scope (add_ipv6_offset a offset) = ip_scope a"
proof -
  let ?bs = "ip_bytes a"
  obtain bs' o' where f: "fold add_offset_step (rev [8 ..< 8 + 8]) (?bs, offset) = (bs', o')" by fastforce
  have len: "length ?bs = 16" using assms(2) by (simp add: ip_wf_def)
  from offset_segment [OF _ f] len have r: "length bs' = 16" "take 8 bs' = take 8 ?bs"
    "be_value (take 8 (drop 8 bs')) = (be_value (take 8 (drop 8 ?bs)) + unat offset) mod 256 ^ 8"
    by (auto simp del: take_all)
  have split: "be_value xs = be_value (take 8 xs) * 2 ^ 64 + be_value (drop 8 xs)" if "length xs = 16" for xs
    using be_value_append [of "take 8 xs" "drop 8 xs"] that by simp
  have low: "be_value (drop 8 ?bs) < 2 ^ 64" using be_value_less [of "drop 8 ?bs"] len by simp
  have n: "ip_number a = be_value ?bs" by (rule ip_number_ipv6 [OF assms(1,2)])
  then have "ip_number a mod 2 ^ 64 = be_value (drop 8 ?bs)" using split [OF len] low by simp
  then have "be_value (drop 8 bs') = be_value (drop 8 ?bs) + unat offset" using r(1,3) assms(3) len by simp
  then have v: "be_value bs' = be_value ?bs + unat offset" using split [OF len] split [OF r(1)] r(2) by simp
  have e: "add_ipv6_offset a offset = a\<lparr>ip_bytes := bs'\<rparr>" using f by (simp add: add_ipv6_offset_def)
  show wf: "is_ipv6 (add_ipv6_offset a offset)" "ip_wf (add_ipv6_offset a offset)"
    using assms(1) r(1) by (simp_all add: e is_ipv6_def ip_wf_def)
  then show "ip_number (add_ipv6_offset a offset) = ip_number a + unat offset"
    by (simp add: ip_number_ipv6) (simp add: e n v)
  show "ip_scope (add_ipv6_offset a offset) = ip_scope a" by (simp add: e)
qed

lemma ipv6_number_inj:
  assumes "is_ipv6 a" and "is_ipv6 b" and "ip_wf a" and "ip_wf b" and "ip_number a = ip_number b" and "ip_scope a = ip_scope b"
  shows "a = b"
  using assms be_value_inj [of "ip_bytes a" "ip_bytes b"]
  by (simp add: ip_number_ipv6) (simp add: ip_wf_def is_ipv6_def ip_address.equality)

section \<open>The network of an IPv6 prefix\<close>

lemma zero_fold:
  assumes "k \<le> n" and "n \<le> length bs"
  shows "fold (\<lambda>i bs. bs[i := 0]) [k ..< n] (bs :: bytes) = take k bs @ replicate (n - k) 0 @ drop n bs"
  using assms
proof (induction n rule: dec_induct)
  case (step n)
  have "drop n bs = bs ! n # drop (Suc n) bs" using step.prems by (simp add: Cons_nth_drop_Suc)
  moreover have "replicate (Suc n - k) 0 = replicate (n - k) 0 @ [0 :: u8]"
    using step.hyps by (simp add: Suc_diff_le replicate_append_same)
  ultimately show ?case using step by (simp add: list_update_append)
qed simp

lemma unat_netmask: "unat ((w :: 'a::len word) AND push_bit n (- 1)) = unat w div 2 ^ n * 2 ^ n"
proof -
  have eq: "w AND push_bit n (- 1) = push_bit n (drop_bit n w)"
    by (rule bit_word_eqI) (auto simp: bit_simps)
  have "unat w div 2 ^ n * 2 ^ n < 2 ^ LENGTH('a)"
    using unsigned_less [of w, where ?'a = nat] div_times_less_eq_dividend [of "unat w" "2 ^ n"] by linarith
  then show ?thesis
    by (simp only: eq unsigned_push_bit_eq unat_drop_bit_eq) (simp add: push_bit_eq_mult drop_bit_eq_div take_bit_nat_eq_self)
qed

lemma unat_netmask_not: "unat ((w :: 'a::len word) AND NOT (mask n)) = unat w div 2 ^ n * 2 ^ n"
proof -
  have "push_bit n (- 1 :: 'a word) = NOT (mask n)" by (rule bit_word_eqI) (simp add: bit_simps)
  then show ?thesis using unat_netmask [of w n] by (simp only:)
qed

lemma mask_ipv6_fields:
  assumes "is_ipv6 a" and "ip_wf a" and "unat p \<le> 128"
  shows "is_ipv6 (mask_ipv6 a p)" "ip_wf (mask_ipv6 a p)" "ip_scope (mask_ipv6 a p) = ip_scope a"
    "ip_number (mask_ipv6 a p) = ip_number a div 2 ^ (128 - unat p) * 2 ^ (128 - unat p)"
proof -
  define f r where "f = unat p div 8" and "r = unat p mod 8"
  have p: "unat p = 8 * f + r" "r < 8" by (simp_all add: f_def r_def)
  let ?bs = "ip_bytes a"
  have len: "length ?bs = 16" using assms(2) by (simp add: ip_wf_def)
  have bits: "(256 :: nat) ^ n = 2 ^ (8 * n)" for n by (simp add: power_mult)
  have "\<exists>bs'. mask_ipv6 a p = a\<lparr>ip_bytes := bs'\<rparr> \<and> length bs' = 16 \<and>
    be_value bs' = be_value ?bs div 2 ^ (128 - unat p) * 2 ^ (128 - unat p)"
  proof (cases "r = 0")
    case True
    let ?t = "take f ?bs" and ?d = "drop f ?bs"
    have f: "f \<le> 16" using p assms(3) by simp
    have m: "mask_ipv6 a p = a\<lparr>ip_bytes := ?t @ replicate (16 - f) 0\<rparr>"
      using zero_fold [OF f, of ?bs] len True by (simp add: mask_ipv6_def Let_def f_def [symmetric] r_def [symmetric])
    have "be_value ?d < 256 ^ (16 - f)" using be_value_less [of ?d] len by simp
    moreover have "be_value ?bs = be_value ?t * 256 ^ (16 - f) + be_value ?d"
      using be_value_append [of ?t ?d] len by simp
    ultimately have "be_value ?bs div 256 ^ (16 - f) = be_value ?t" by simp
    moreover have "(2 :: nat) ^ (128 - unat p) = 256 ^ (16 - f)" using p True f by (simp add: bits diff_mult_distrib2)
    ultimately have "be_value (?t @ replicate (16 - f) 0) = be_value ?bs div 2 ^ (128 - unat p) * 2 ^ (128 - unat p)"
      by (simp add: be_value_append)
    then show ?thesis using m f len by (intro exI [of _ "?t @ replicate (16 - f) 0"]) simp
  next
    case False
    then have f: "f < 16" using p assms(3) by simp
    let ?t = "take f ?bs" and ?d = "drop (Suc f) ?bs" and ?b = "?bs ! f" and ?n = "8 - r"
    let ?m = "?b AND push_bit ?n (- 1)" and ?B = "256 ^ (15 - f) :: nat"
    have split: "?bs = ?t @ [?b] @ ?d" using f len by (simp add: id_take_nth_drop [symmetric])
    have z: "fold (\<lambda>i bs. bs[i := 0]) [Suc f ..< 16] ?bs = ?t @ [?b] @ replicate (15 - f) 0"
      using zero_fold [of "Suc f" 16 ?bs] f len by (simp add: take_Suc_conv_app_nth)
    have "(255 :: u8) = - 1" by simp
    then have ff: "push_bit n (255 :: u8) = NOT (mask n)" for n by (simp only:) simp
    have m: "mask_ipv6 a p = a\<lparr>ip_bytes := ?t @ [?m] @ replicate (15 - f) 0\<rparr>"
      using z False f len ff
      by (simp add: mask_ipv6_def Let_def f_def [symmetric] r_def [symmetric] nth_append list_update_append)
    have small: "be_value ?d < ?B" using be_value_less [of ?d] len f by simp
    have vb: "be_value ?bs = (be_value ?t * 256 + unat ?b) * ?B + be_value ?d"
      using arg_cong [OF split, of be_value] len f by (simp add: be_value_append be_value_Cons algebra_simps)
    have pow: "(2 :: nat) ^ (128 - unat p) = ?B * 2 ^ ?n"
    proof -
      have "128 - unat p = 8 * (15 - f) + ?n" using p f by simp
      then show ?thesis by (simp add: power_add bits)
    qed
    have "be_value ?bs div ?B = be_value ?t * 256 + unat ?b" using vb small by simp
    moreover have "(be_value ?t * 256 + unat ?b) div 2 ^ ?n = be_value ?t * 2 ^ r + unat ?b div 2 ^ ?n"
    proof -
      have "(256 :: nat) = 2 ^ r * 2 ^ ?n" using p(2) by (simp flip: power_add)
      then have e: "be_value ?t * 256 + unat ?b = unat ?b + be_value ?t * 2 ^ r * 2 ^ ?n" by (simp only: ac_simps)
      show ?thesis unfolding e by (rule div_mult_self1) simp
    qed
    ultimately have "be_value ?bs div 2 ^ (128 - unat p) = be_value ?t * 2 ^ r + unat ?b div 2 ^ ?n"
      by (simp only: pow div_mult2_eq)
    moreover have "be_value (?t @ [?m] @ replicate (15 - f) 0) = (be_value ?t * 256 + unat ?b div 2 ^ ?n * 2 ^ ?n) * ?B"
      using f by (simp add: be_value_append be_value_Cons unat_netmask_not algebra_simps)
    moreover have "(256 :: nat) = 2 ^ r * 2 ^ ?n" using p(2) by (simp flip: power_add)
    ultimately have "be_value (?t @ [?m] @ replicate (15 - f) 0) = be_value ?bs div 2 ^ (128 - unat p) * 2 ^ (128 - unat p)"
      by (simp only: pow) (simp add: algebra_simps)
    then show ?thesis using m f len by (intro exI [of _ "?t @ [?m] @ replicate (15 - f) 0"]) simp
  qed
  then obtain bs' where e: "mask_ipv6 a p = a\<lparr>ip_bytes := bs'\<rparr>" "length bs' = 16"
    "be_value bs' = be_value ?bs div 2 ^ (128 - unat p) * 2 ^ (128 - unat p)" by blast
  show wf: "is_ipv6 (mask_ipv6 a p)" "ip_wf (mask_ipv6 a p)" using assms(1) e by (simp_all add: is_ipv6_def ip_wf_def)
  show "ip_scope (mask_ipv6 a p) = ip_scope a" by (simp add: e)
  show "ip_number (mask_ipv6 a p) = ip_number a div 2 ^ (128 - unat p) * 2 ^ (128 - unat p)"
    using e(3) by (simp add: ip_number_ipv6 [OF wf] ip_number_ipv6 [OF assms(1,2)]) (simp add: e(1))
qed

section \<open>What a specification denotes\<close>

definition denotes ::
  "target_limits \<Rightarrow> (string \<Rightarrow> nat \<Rightarrow> string + hostname_resolution) \<Rightarrow> target_spec \<Rightarrow> ip_address \<Rightarrow> bool" where
  "denotes limits resolver spec a =
     (case ts_kind spec of
        TkIPv4 \<Rightarrow> a = from_ipv4 (ts_first_address spec)
      | TkIPv4Cidr \<Rightarrow> (\<exists>v. a = from_ipv4 v \<and>
          unat v div 2 ^ (32 - unat (ts_prefix_length spec)) =
          unat (ts_first_address spec) div 2 ^ (32 - unat (ts_prefix_length spec)))
      | TkIPv4Range \<Rightarrow> (\<exists>v. a = from_ipv4 v \<and> ts_first_address spec \<le> v \<and> v \<le> ts_last_address spec)
      | TkIPv6 \<Rightarrow> a = ts_first_ip spec
      | TkIPv6Cidr \<Rightarrow> is_ipv6 a \<and> ip_wf a \<and> ip_scope a = ip_scope (ts_first_ip spec) \<and>
          ip_number a div 2 ^ (128 - unat (ts_prefix_length spec)) =
          ip_number (ts_first_ip spec) div 2 ^ (128 - unat (ts_prefix_length spec))
      | TkIPv6Range \<Rightarrow> is_ipv6 a \<and> ip_wf a \<and> ip_scope a = ip_scope (ts_first_ip spec) \<and>
          ip_number (ts_first_ip spec) \<le> ip_number a \<and> ip_number a \<le> ip_number (ts_last_ip spec)
      | TkHostname \<Rightarrow>
          (case resolver (ts_hostname spec) (tl_max_hostname_results limits) of
             Inl _ \<Rightarrow> False
           | Inr r \<Rightarrow>
               if hr_ip_addresses r \<noteq> [] then a \<in> set (hr_ip_addresses r) \<and> ip_valid a
               else a \<in> from_ipv4 ` set (hr_addresses r)))"

text \<open>What the parser guarantees of a specification.\<close>

definition spec_ok :: "target_spec \<Rightarrow> bool" where
  "spec_ok spec =
     (case ts_kind spec of
        TkIPv4Cidr \<Rightarrow> unat (ts_prefix_length spec) \<le> 32
      | TkIPv4Range \<Rightarrow> ts_first_address spec \<le> ts_last_address spec
      | TkIPv6 \<Rightarrow> is_ipv6 (ts_first_ip spec) \<and> ip_wf (ts_first_ip spec)
      | TkIPv6Cidr \<Rightarrow> is_ipv6 (ts_first_ip spec) \<and> ip_wf (ts_first_ip spec) \<and> unat (ts_prefix_length spec) \<le> 128
      | TkIPv6Range \<Rightarrow> is_ipv6 (ts_first_ip spec) \<and> ip_wf (ts_first_ip spec) \<and>
          is_ipv6 (ts_last_ip spec) \<and> ip_wf (ts_last_ip spec) \<and>
          ip_number (ts_first_ip spec) \<le> ip_number (ts_last_ip spec)
      | _ \<Rightarrow> True)"

lemma div_interval: "0 < d \<Longrightarrow> x div d = q \<longleftrightarrow> q * d \<le> x \<and> x < q * d + (d :: nat)"
proof
  assume d: "0 < d" and "q * d \<le> x \<and> x < q * d + d"
  then show "x div d = q" by (intro div_nat_eqI) (simp_all add: mult.commute)
next
  assume "0 < d" and "x div d = q"
  then show "q * d \<le> x \<and> x < q * d + d"
    using dividend_less_div_times [of d x] div_times_less_eq_dividend [of x d] by auto
qed

lemma block_below: "x < 2 ^ (h + k) \<Longrightarrow> x div 2 ^ h * 2 ^ h + 2 ^ h \<le> (2 :: nat) ^ (h + k)"
proof -
  assume "x < 2 ^ (h + k)"
  then have "x div 2 ^ h < 2 ^ k" by (simp add: less_mult_imp_div_less power_add mult.commute)
  then have "(x div 2 ^ h + 1) * 2 ^ h \<le> 2 ^ k * 2 ^ h" by (intro mult_right_mono) simp_all
  then show ?thesis by (simp add: power_add mult.commute)
qed

lemma ipv4_interval:
  assumes "unat base + n \<le> 2 ^ 32"
  shows "(\<lambda>k. from_ipv4 (base + of_nat k)) ` {0 ..< n} = {from_ipv4 v |v. unat base \<le> unat v \<and> unat v < unat base + n}"
proof -
  have u: "unat (base + of_nat k) = unat base + k" if "k < n" for k
    using that assms by (simp add: unat_word_ariths unsigned_of_nat take_bit_nat_eq_self)
  show ?thesis (is "?L = ?R")
  proof
    show "?L \<subseteq> ?R" using u by auto
    show "?R \<subseteq> ?L"
    proof
      fix a assume "a \<in> ?R"
      then obtain v where v: "a = from_ipv4 v" "unat base \<le> unat v" "unat v < unat base + n" by blast
      then have k: "unat v - unat base < n" by simp
      then have "v = base + of_nat (unat v - unat base)" using u [OF k] v(2) by (simp add: word_unat_eq_iff)
      then show "a \<in> ?L" using k v(1) by (metis atLeastLessThan_iff image_eqI zero_le)
    qed
  qed
qed

lemma ipv6_interval:
  assumes "is_ipv6 base" and "ip_wf base" and "ip_number base mod 2 ^ 64 + n \<le> 2 ^ 64"
  shows "(\<lambda>k. add_ipv6_offset base (of_nat k)) ` {0 ..< n} =
    {a. is_ipv6 a \<and> ip_wf a \<and> ip_scope a = ip_scope base \<and> ip_number base \<le> ip_number a \<and> ip_number a < ip_number base + n}"
    (is "?L = ?R")
proof -
  have k: "unat (of_nat k :: u64) = k" if "k < n" for k
    using that assms(3) by (simp add: unsigned_of_nat take_bit_nat_eq_self)
  have add: "ip_number (add_ipv6_offset base (of_nat k)) = ip_number base + k" "is_ipv6 (add_ipv6_offset base (of_nat k))"
    "ip_wf (add_ipv6_offset base (of_nat k))" "ip_scope (add_ipv6_offset base (of_nat k)) = ip_scope base" if "k < n" for k
    using add_ipv6_offset_number [OF assms(1,2), of "of_nat k"] k [OF that] that assms(3) by simp_all
  show ?thesis
  proof
    show "?L \<subseteq> ?R" using add by auto
    show "?R \<subseteq> ?L"
    proof
      fix a assume a: "a \<in> ?R"
      define k where "k = ip_number a - ip_number base"
      have "k < n" using a by (auto simp: k_def)
      moreover have "a = add_ipv6_offset base (of_nat k)"
        using a add [OF \<open>k < n\<close>] by (intro ipv6_number_inj) (simp_all add: k_def)
      ultimately show "a \<in> ?L" by auto
    qed
  qed
qed

lemma unat_push_1: "n < 64 \<Longrightarrow> unat (push_bit n 1 :: u64) = 2 ^ n"
  by (simp only: unsigned_push_bit_eq) (simp add: push_bit_eq_mult take_bit_nat_eq_self)

lemma div_mod_shift: "0 < d \<Longrightarrow> x div d * d mod (d * e) = x mod (d * e) div d * (d :: nat)"
proof -
  assume d: "0 < d"
  have "x mod (d * e) div d = x div d mod e" using d by (simp add: mod_mult2_eq)
  moreover have "x div d * d mod (d * e) = x div d mod e * d" by (simp only: mult.commute [of d e] mod_mult_mult2)
  ultimately show ?thesis by simp
qed

lemma ipv4_block_denotes:
  assumes "spec_ok spec" and "ts_kind spec \<in> {TkIPv4, TkIPv4Cidr, TkIPv4Range}" and "ipv4_block spec = (base, n)"
  shows "(\<lambda>k. from_ipv4 (base + of_nat k)) ` {0 ..< unat n} = {a. denotes limits resolver spec a}"
proof -
  let ?first = "ts_first_address spec" and ?last = "ts_last_address spec" and ?h = "32 - unat (ts_prefix_length spec)"
  from assms(2) consider "ts_kind spec = TkIPv4" | "ts_kind spec = TkIPv4Cidr" | "ts_kind spec = TkIPv4Range" by blast
  then show ?thesis
  proof cases
    case 1
    then show ?thesis using assms(3) by (auto simp: ipv4_block_def denotes_def)
  next
    case 2
    have "(if ts_prefix_length spec = 0 then 0 else push_bit ?h (- 1)) = (push_bit ?h (- 1) :: u32)"
      by (auto intro!: bit_word_eqI simp: bit_simps)
    with 2 assms(3) have base: "base = ?first AND push_bit ?h (- 1)" and n: "n = push_bit ?h 1"
      by (simp_all add: ipv4_block_def Let_def)
    have un: "unat n = 2 ^ ?h" unfolding n by (rule unat_push_1) simp
    have ub: "unat base = unat ?first div 2 ^ ?h * 2 ^ ?h" unfolding base by (rule unat_netmask)
    have "unat base + unat n \<le> 2 ^ (?h + (32 - ?h))"
      unfolding ub un using unat_u32_less [of ?first] by (intro block_below) simp
    then have le: "unat base + unat n \<le> 2 ^ 32" by simp
    show ?thesis
      using 2 unfolding ipv4_interval [OF le] unfolding un ub by (auto simp: denotes_def div_interval)
  next
    case 3
    have "?first \<le> ?last" using assms(1) 3 by (simp add: spec_ok_def)
    have wide: "unat (ucast (x :: u32) :: u64) = unat x" for x
      using unat_u32_less [of x] by (simp add: unsigned_ucast_eq take_bit_nat_eq_self)
    have b: "base = ?first" "n = ucast ?last - ucast ?first + 1" using 3 assms(3) by (auto simp: ipv4_block_def)
    have "unat (ucast ?last - ucast ?first :: u64) = unat ?last - unat ?first"
      using \<open>?first \<le> ?last\<close> by (subst unat_sub) (simp_all add: word_le_nat_alt wide)
    then have "unat n = unat ?last - unat ?first + 1"
      unfolding b(2) using unat_u32_less [of ?last] by (simp add: unat_word_ariths)
    moreover note b(1)
    moreover from calculation have le: "unat base + unat n \<le> 2 ^ 32"
      using unat_u32_less [of ?last] \<open>?first \<le> ?last\<close> by (simp add: word_le_nat_alt)
    ultimately show ?thesis
      using 3 \<open>?first \<le> ?last\<close> unfolding ipv4_interval [OF le] by (auto simp: denotes_def word_le_nat_alt)
  qed
qed

lemma ipv6_block_denotes:
  assumes "spec_ok spec" and "ts_kind spec \<in> {TkIPv6, TkIPv6Cidr, TkIPv6Range}" and "ipv6_block spec = Inr (base, n)"
  shows "(\<lambda>k. add_ipv6_offset base (of_nat k)) ` {0 ..< unat n} = {a. denotes limits resolver spec a}"
proof -
  let ?first = "ts_first_ip spec" and ?last = "ts_last_ip spec" and ?h = "128 - unat (ts_prefix_length spec)"
  from assms(2) consider "ts_kind spec = TkIPv6" | "ts_kind spec = TkIPv6Cidr" | "ts_kind spec = TkIPv6Range" by blast
  then show ?thesis
  proof cases
    case 1
    with assms(1,3) have first: "is_ipv6 ?first" "ip_wf ?first" "base = ?first" "n = 1"
      by (simp_all add: spec_ok_def ipv6_block_def)
    have le: "ip_number ?first mod 2 ^ 64 + 1 \<le> 2 ^ 64" by (simp add: Suc_leI)
    have "{0 ..< unat (1 :: u64)} = {0 ..< 1}" by simp
    then have "(\<lambda>k. add_ipv6_offset base (of_nat k)) ` {0 ..< unat n} = {a. is_ipv6 a \<and> ip_wf a \<and>
        ip_scope a = ip_scope ?first \<and> ip_number ?first \<le> ip_number a \<and> ip_number a < ip_number ?first + 1}"
      unfolding first(3,4) using ipv6_interval [OF first(1,2) le] by (simp only:)
    also have "\<dots> = {?first}" using first(1,2) ipv6_number_inj by fastforce
    finally show ?thesis using 1 by (simp add: denotes_def)
  next
    case 2
    with assms(1,3) have first: "is_ipv6 ?first" "ip_wf ?first" "unat (ts_prefix_length spec) \<le> 128"
      and h: "?h < 64" and base: "base = mask_ipv6 ?first (ts_prefix_length spec)" and n: "n = push_bit ?h 1"
      by (auto simp: spec_ok_def ipv6_block_def Let_def split: if_splits)
    note m = mask_ipv6_fields [OF first]
    have un: "unat n = 2 ^ ?h" unfolding n by (rule unat_push_1 [OF h])
    have "ip_number base mod 2 ^ 64 + unat n \<le> 2 ^ (?h + (64 - ?h))"
    proof -
      have "(2 :: nat) ^ 64 = 2 ^ ?h * 2 ^ (64 - ?h)" using h by (simp flip: power_add)
      then have "ip_number base mod 2 ^ 64 = ip_number ?first mod 2 ^ 64 div 2 ^ ?h * 2 ^ ?h"
        unfolding base m(4) by (simp only: div_mod_shift zero_less_power zero_less_numeral)
      then show ?thesis unfolding un using h by (simp only:) (rule block_below, simp)
    qed
    then have le: "ip_number base mod 2 ^ 64 + unat n \<le> 2 ^ 64" using h by simp
    show ?thesis
      using 2 unfolding ipv6_interval [OF m(1,2) [folded base] le] unfolding un
      by (auto simp: denotes_def div_interval base m(3,4))
  next
    case 3
    with assms(1) have ok: "is_ipv6 ?first" "ip_wf ?first" "is_ipv6 ?last" "ip_wf ?last" "ip_number ?first \<le> ip_number ?last"
      by (simp_all add: spec_ok_def)
    from 3 assms(3) have base: "base = ?first" and range: "ipv6_range_count ?first ?last = Some n"
      by (auto simp: ipv6_block_def split: option.splits)
    let ?a = "ip_bytes ?first" and ?b = "ip_bytes ?last"
    have len: "length ?a = 16" "length ?b = 16" using ok by (simp_all add: ip_wf_def)
    let ?d = "low_half ?b - low_half ?a"
    from range have high: "take 8 ?a = take 8 ?b" and n: "n = ?d + 1" and d: "?d \<noteq> - 1"
      by (auto simp: ipv6_range_count_def Let_def split: if_splits)
    have split: "be_value xs = be_value (take 8 xs) * 2 ^ 64 + be_value (drop 8 xs)" "be_value (drop 8 xs) < 2 ^ 64"
      if "length xs = 16" for xs
      using be_value_append [of "take 8 xs" "drop 8 xs"] be_value_less [of "drop 8 xs"] that by simp_all
    have num: "ip_number ?first = be_value (take 8 ?a) * 2 ^ 64 + unat (low_half ?a)"
      "ip_number ?last = be_value (take 8 ?a) * 2 ^ 64 + unat (low_half ?b)"
      using ok split(1) [OF len(1)] split(1) [OF len(2)] high len by (simp_all add: ip_number_ipv6 low_half_value)
    then have low: "unat (low_half ?a) \<le> unat (low_half ?b)" using ok(5) by simp
    then have ud: "unat ?d = unat (low_half ?b) - unat (low_half ?a)" by (simp add: unat_sub word_le_nat_alt)
    have "unat n = unat ?d + 1"
    proof -
      have "unat ?d \<noteq> 2 ^ 64 - 1"
      proof
        assume "unat ?d = 2 ^ 64 - 1"
        then have "unat (?d + 1) = 0" by (simp add: unat_word_ariths)
        then have "?d + 1 = 0" by (simp only: unat_eq_zero)
        then show False using d by (simp only: eq_neg_iff_add_eq_0 not_True_eq_False)
      qed
      then have "unat ?d + 1 < 2 ^ 64" using unsigned_less [of ?d, where ?'a = nat] by simp
      then show ?thesis unfolding n by (simp add: unat_word_ariths)
    qed
    then have un: "unat n = unat (low_half ?b) - unat (low_half ?a) + 1" by (simp add: ud)
    have "ip_number base mod 2 ^ 64 = unat (low_half ?a)"
      unfolding base num(1) using unsigned_less [of "low_half ?a", where ?'a = nat] by simp
    then have le: "ip_number base mod 2 ^ 64 + unat n \<le> 2 ^ 64"
      using un low unsigned_less [of "low_half ?b", where ?'a = nat] by simp
    have "ip_number base + unat n = ip_number ?last + 1" using num un low by (simp add: base)
    then show ?thesis
      using 3 unfolding ipv6_interval [OF ok(1,2) [folded base] le] by (auto simp: denotes_def base)
  qed
qed

end
