(* ===== verification/Target_Sets.thy ===== *)
theory Target_Sets
  imports Target_Expansion
begin

text \<open>
  The target engine from end to end: what the parser guarantees of a specification, the set of
  addresses an expression is resolved to, when the limits make it fail, the round trip of dotted
  text, and the host names the parser cannot take.
\<close>

section \<open>The expansion\<close>

definition ex_ok :: "target_limits \<Rightarrow> expansion \<Rightarrow> bool" where
  "ex_ok limits ex \<longleftrightarrow>
     map rt_ip_address (ex_targets ex) = rev (ex_seen ex) \<and> distinct (ex_seen ex) \<and>
     length (ex_seen ex) \<le> tl_max_targets limits \<and> (\<forall>a\<in>set (ex_seen ex). ip_valid a)"

definition grows :: "target_limits \<Rightarrow> ip_address set \<Rightarrow> expansion \<Rightarrow> expansion \<Rightarrow> bool" where
  "grows limits S ex ex' \<longleftrightarrow> (ex_ok limits ex \<longrightarrow> ex_ok limits ex' \<and> set (ex_seen ex') = set (ex_seen ex) \<union> S)"

lemma grows_refl: "grows limits {} ex ex"
  by (simp add: grows_def)

lemma grows_trans: "grows limits S ex ex1 \<Longrightarrow> grows limits T ex1 ex2 \<Longrightarrow> grows limits (S \<union> T) ex ex2"
  by (simp add: grows_def Un_assoc)

lemma append_target_grows:
  "append_target limits h a ex = Inr ex' \<Longrightarrow> grows limits (if ip_valid a then {a} else {}) ex ex'"
  by (auto simp: append_target_def grows_def ex_ok_def split: if_splits)

lemma append_all_grows:
  "append_all limits h as ex = Inr ex' \<Longrightarrow> grows limits {a \<in> set as. ip_valid a} ex ex'"
proof (induction as arbitrary: ex)
  case Nil
  then show ?case by (simp add: grows_refl)
next
  case (Cons a as)
  then obtain ex1 where 1: "append_target limits h a ex = Inr ex1" and 2: "append_all limits h as ex1 = Inr ex'"
    by (auto split: sum.splits)
  have "{b \<in> set (a # as). ip_valid b} = (if ip_valid a then {a} else {}) \<union> {b \<in> set as. ip_valid b}" by auto
  then show ?case using grows_trans [OF append_target_grows [OF 1] Cons.IH [OF 2]] by simp
qed

lemma denotes_valid: "spec_ok spec \<Longrightarrow> denotes limits resolver spec a \<Longrightarrow> ip_valid a"
  by (auto simp: denotes_def spec_ok_def ip_valid_def split: target_kind.splits sum.splits if_splits)

lemma append_block_grows:
  assumes "append_all limits h as ex = Inr ex'" and "set as = {a. denotes limits resolver spec a}" and "spec_ok spec"
  shows "grows limits {a. denotes limits resolver spec a} ex ex'"
proof -
  have "{a \<in> set as. ip_valid a} = {a. denotes limits resolver spec a}"
    using assms(2) denotes_valid [OF assms(3)] by auto
  then show ?thesis using append_all_grows [OF assms(1)] by simp
qed

lemma expand_spec_cases:
  assumes "ts_kind spec \<noteq> TkHostname"
  shows "expand_spec limits resolver spec ex =
    (if ts_kind spec \<in> {TkIPv4, TkIPv4Cidr, TkIPv4Range} then
       (case ipv4_block spec of (base, number) \<Rightarrow>
          if unat number > tl_max_targets limits then Inl (too_many limits spec)
          else append_all limits None (map (\<lambda>offset. from_ipv4 (base + of_nat offset)) [0 ..< unat number]) ex)
     else if \<not> is_ipv6 (ts_first_ip spec) then
       Inl (InvalidArgument, TeInvalidTarget, ''target has no typed IP address'')
     else case ipv6_block spec of
       Inl f \<Rightarrow> Inl f
     | Inr (base, number) \<Rightarrow>
         if unat number > tl_max_targets limits then Inl (too_many limits spec)
         else append_all limits None (map (\<lambda>offset. add_ipv6_offset base (of_nat offset)) [0 ..< unat number]) ex)"
  using assms by (simp add: expand_spec_def)

lemma expand_spec_grows:
  assumes "spec_ok spec" and "expand_spec limits resolver spec ex = Inr ex'"
  shows "grows limits {a. denotes limits resolver spec a} ex ex'"
proof (cases "ts_kind spec = TkHostname")
  case True
  then obtain r where r: "resolver (ts_hostname spec) (tl_max_hostname_results limits) = Inr r"
    and a: "append_all limits (Some (ts_hostname spec))
      (if hr_ip_addresses r \<noteq> [] then hr_ip_addresses r else map from_ipv4 (hr_addresses r)) ex = Inr ex'"
    using assms(2) by (auto simp: expand_spec_def expand_hostname_def split: sum.splits if_splits)
  have "{a \<in> set (if hr_ip_addresses r \<noteq> [] then hr_ip_addresses r else map from_ipv4 (hr_addresses r)). ip_valid a} =
      {a. denotes limits resolver spec a}"
    using True r by (auto simp: denotes_def)
  then show ?thesis using append_all_grows [OF a] by simp
next
  case False
  show ?thesis
  proof (cases "ts_kind spec \<in> {TkIPv4, TkIPv4Cidr, TkIPv4Range}")
    case True
    obtain base n where b: "ipv4_block spec = (base, n)" by fastforce
    with assms(2) True have "append_all limits None (map (\<lambda>k. from_ipv4 (base + of_nat k)) [0 ..< unat n]) ex = Inr ex'"
      by (auto simp: expand_spec_cases [OF False] split: if_splits)
    then show ?thesis
      by (rule append_block_grows) (use ipv4_block_denotes [OF assms(1) True b] assms(1) in simp_all)
  next
    case no4: False
    with assms(2) obtain base n where b: "ipv6_block spec = Inr (base, n)"
      and a: "append_all limits None (map (\<lambda>k. add_ipv6_offset base (of_nat k)) [0 ..< unat n]) ex = Inr ex'"
      by (auto simp: expand_spec_cases [OF False] split: if_splits sum.splits)
    have "ts_kind spec \<in> {TkIPv6, TkIPv6Cidr, TkIPv6Range}" using False no4 by (cases "ts_kind spec") auto
    from ipv6_block_denotes [OF assms(1) this b] show ?thesis
      by (intro append_block_grows [OF a]) (use assms(1) in simp_all)
  qed
qed

lemma expand_specs_grows:
  assumes "\<forall>spec\<in>set specs. spec_ok spec" and "expand_specs limits resolver specs ex = Inr ex'"
  shows "grows limits {a. \<exists>spec\<in>set specs. denotes limits resolver spec a} ex ex'"
  using assms
proof (induction specs arbitrary: ex)
  case Nil
  then show ?case by (simp add: grows_refl)
next
  case (Cons spec specs)
  then obtain ex1 where 1: "expand_spec limits resolver spec ex = Inr ex1"
    and 2: "expand_specs limits resolver specs ex1 = Inr ex'" by (auto split: sum.splits)
  have "{a. \<exists>sp\<in>set (spec # specs). denotes limits resolver sp a} =
      {a. denotes limits resolver spec a} \<union> {a. \<exists>sp\<in>set specs. denotes limits resolver sp a}" by auto
  then show ?case
    using grows_trans [OF expand_spec_grows [OF _ 1] Cons.IH [OF _ 2]] Cons.prems(1) by simp
qed

section \<open>The parser\<close>

lemma ip_less_number:
  assumes "ip_family a = ip_family b" and "ip_scope a = ip_scope b" and "ip_wf a" and "ip_wf b"
  shows "ip_less a b \<longleftrightarrow> ip_number a < ip_number b"
proof -
  have len: "length (ip_prefix a) = length (ip_prefix b)"
    using assms by (simp add: ip_prefix_def ip_wf_def is_ipv4_def)
  have "ip_less a b \<longleftrightarrow> lex_less (ip_prefix a) (ip_prefix b)"
    using assms(1,2) by (auto simp: ip_less_def ip_prefix_def is_ipv4_def Let_def split: option.splits)
  then show ?thesis using be_value_lex [OF len] by (simp add: ip_number_def)
qed

lemma parse_range_ok:
  assumes "\<And>s bs. inet_pton6 lc s = Some bs \<Longrightarrow> length bs = 16" and "parse_range lc token before after = Some (Inr spec)"
  shows "spec_ok spec"
proof -
  obtain a b where p: "parse_ip_address lc (trim_target before) = Some a" "parse_ip_address lc (trim_target after) = Some b"
    and same: "ip_family a = ip_family b" "ip_scope a = ip_scope b" "\<not> ip_less b a"
    and spec: "spec = (if is_ipv4 a then address_spec TkIPv4Range token (ipv4_value a) (ipv4_value b) 32 a b
      else address_spec TkIPv6Range token 0 0 128 a b)"
    using assms(2) by (auto simp: parse_range_def Let_def split: if_splits option.splits)
  have wf: "ip_wf a" "ip_wf b" "ip_valid a" "ip_valid b"
    using parse_ip_canonical [OF assms(1) p(1)] parse_ip_canonical [OF assms(1) p(2)] parse_ip_valid [OF p(1)]
      parse_ip_valid [OF p(2)] by (simp_all add: ip_canonical_def)
  have le: "ip_number a \<le> ip_number b" using same(3) ip_less_number [of b a] same(1,2) wf(1,2) by simp
  show ?thesis
  proof (cases "is_ipv4 a")
    case True
    then have "is_ipv4 b" using same(1) by (simp add: is_ipv4_def)
    obtain v w where "a = from_ipv4 v" "b = from_ipv4 w"
      using p True \<open>is_ipv4 b\<close>
      by (elim parse_ip_address_SomeE parse_address_text_SomeE) (auto simp: is_ipv4_def from_ipv6_def)
    then show ?thesis using le True by (simp add: spec spec_ok_def address_spec_def word_le_nat_alt)
  next
    case False
    then have "is_ipv6 a" "is_ipv6 b" using wf(3,4) same(1) by (simp_all add: ip_valid_def is_ipv4_def is_ipv6_def)
    then show ?thesis using False wf le by (simp add: spec spec_ok_def address_spec_def)
  qed
qed

lemma parse_one_ok:
  assumes "\<And>s bs. inet_pton6 lc s = Some bs \<Longrightarrow> length bs = 16" and "parse_one lc text = Inr spec"
  shows "spec_ok spec"
proof -
  have cidr: "spec_ok spec" if "parse_cidr lc token address prefix = Inr spec" for token address prefix
    using that parse_ip_canonical [OF assms(1)]
    by (auto simp: parse_cidr_def spec_ok_def address_spec_def ip_canonical_def unsigned_of_nat take_bit_nat_eq_self
        split: if_splits option.splits list.splits)
  have single: "spec_ok spec" if "parse_single lc token = Inr spec" for token
    using that parse_ip_canonical [OF assms(1)]
    by (auto simp: parse_single_def spec_ok_def address_spec_def ip_canonical_def split: if_splits option.splits)
  show ?thesis
    using assms(2) cidr single parse_range_ok [OF assms(1)]
    by (auto simp: parse_one_def Let_def split: if_splits option.splits)
qed

lemma parse_targets_loop_ok:
  assumes "\<And>s bs. inet_pton6 lc s = Some bs \<Longrightarrow> length bs = 16"
    and "parse_targets_loop lc s acc = Inr specs" and "\<forall>spec\<in>set acc. spec_ok spec"
  shows "(\<forall>spec\<in>set specs. spec_ok spec) \<and> specs \<noteq> []"
  using assms(2,3)
proof (induction "length s" arbitrary: s acc rule: less_induct)
  case less
  show ?case
  proof (cases "split_first CHR '','' s")
    case None
    then show ?thesis
      using less.prems parse_one_ok [OF assms(1)] by (auto simp: parse_targets_loop.simps [of lc s] split: sum.splits)
  next
    case (Some tr)
    then obtain token rest spec where tr: "split_first CHR '','' s = Some (token, rest)"
      and one: "parse_one lc token = Inr spec" and loop: "parse_targets_loop lc rest (acc @ [spec]) = Inr specs"
      using less.prems(1) by (cases tr) (auto simp: parse_targets_loop.simps [of lc s] split: sum.splits)
    from less.hyps [OF split_first_length [OF tr] loop] less.prems(2) parse_one_ok [OF assms(1) one]
    show ?thesis by simp
  qed
qed

lemma parse_targets_ok:
  assumes "\<And>s bs. inet_pton6 lc s = Some bs \<Longrightarrow> length bs = 16" and "parse_targets lc input = Inr specs"
  shows "(\<forall>spec\<in>set specs. spec_ok spec) \<and> specs \<noteq> []"
proof -
  from assms(2) have "parse_targets_loop lc (trim_target input) [] = Inr specs"
    by (simp add: parse_targets_def Let_def split: if_splits)
  from parse_targets_loop_ok [OF assms(1) this] show ?thesis by simp
qed

section \<open>Success within the limits\<close>

text \<open>
  The number of addresses of a specification without a host name, for an IPv6 block or range
  that stays inside the low 64 bits.
\<close>

definition spec_size :: "target_spec \<Rightarrow> nat" where
  "spec_size spec =
     (case ts_kind spec of
        TkIPv4Cidr \<Rightarrow> 2 ^ (32 - unat (ts_prefix_length spec))
      | TkIPv4Range \<Rightarrow> unat (ts_last_address spec) - unat (ts_first_address spec) + 1
      | TkIPv6Cidr \<Rightarrow> 2 ^ (128 - unat (ts_prefix_length spec))
      | TkIPv6Range \<Rightarrow> ip_number (ts_last_ip spec) - ip_number (ts_first_ip spec) + 1
      | _ \<Rightarrow> 1)"

definition expandable :: "target_spec \<Rightarrow> bool" where
  "expandable spec \<longleftrightarrow> ts_kind spec \<noteq> TkHostname \<and>
     (ts_kind spec = TkIPv6Range \<longrightarrow> ip_number (ts_first_ip spec) div 2 ^ 64 = ip_number (ts_last_ip spec) div 2 ^ 64)"

lemma append_all_succeeds:
  "length (ex_seen ex) + length as \<le> tl_max_targets limits \<Longrightarrow>
     \<exists>ex'. append_all limits h as ex = Inr ex' \<and> length (ex_seen ex') \<le> length (ex_seen ex) + length as"
proof (induction as arbitrary: ex)
  case (Cons a as)
  have "\<exists>ex1. append_target limits h a ex = Inr ex1 \<and> length (ex_seen ex1) \<le> length (ex_seen ex) + 1"
    using Cons.prems by (cases "ip_valid a \<longrightarrow> a \<in> set (ex_seen ex)") (auto simp: append_target_def)
  then obtain ex1 where 1: "append_target limits h a ex = Inr ex1" "length (ex_seen ex1) \<le> length (ex_seen ex) + 1" by blast
  then obtain ex2 where "append_all limits h as ex1 = Inr ex2" "length (ex_seen ex2) \<le> length (ex_seen ex1) + length as"
    using Cons.IH [of ex1] Cons.prems by auto
  then show ?case using 1 by auto
qed simp

lemma ipv4_block_size:
  assumes "spec_ok spec" and "ts_kind spec \<in> {TkIPv4, TkIPv4Cidr, TkIPv4Range}"
  shows "unat (snd (ipv4_block spec)) = spec_size spec"
proof -
  let ?first = "ts_first_address spec" and ?last = "ts_last_address spec"
  have wide: "unat (ucast (x :: u32) :: u64) = unat x" for x
    using unat_u32_less [of x] by (simp add: unsigned_ucast_eq take_bit_nat_eq_self)
  have "unat (ucast ?last - ucast ?first + 1 :: u64) = unat ?last - unat ?first + 1" if "?first \<le> ?last"
  proof -
    have "unat (ucast ?last - ucast ?first :: u64) = unat ?last - unat ?first"
      using that by (subst unat_sub) (simp_all add: word_le_nat_alt wide)
    then show ?thesis using unat_u32_less [of ?last] by (simp add: unat_word_ariths)
  qed
  moreover have "unat (push_bit (32 - unat (ts_prefix_length spec)) 1 :: u64) = 2 ^ (32 - unat (ts_prefix_length spec))"
    by (rule unat_push_1) simp
  ultimately show ?thesis
    using assms by (auto simp: ipv4_block_def spec_size_def spec_ok_def Let_def simp del: push_bit_of_1)
qed

lemma ipv6_range_count_number:
  assumes "is_ipv6 a" and "is_ipv6 b" and "ip_wf a" and "ip_wf b" and "ip_number a \<le> ip_number b"
    and "ip_number a div 2 ^ 64 = ip_number b div 2 ^ 64" and "ip_number b - ip_number a + 1 < 2 ^ 64"
  shows "\<exists>n. ipv6_range_count a b = Some n \<and> unat n = ip_number b - ip_number a + 1"
proof -
  let ?a = "ip_bytes a" and ?b = "ip_bytes b"
  have len: "length ?a = 16" "length ?b = 16" using assms by (simp_all add: ip_wf_def)
  have split: "be_value xs = be_value (take 8 xs) * 2 ^ 64 + be_value (drop 8 xs)" "be_value (drop 8 xs) < 2 ^ 64"
    if "length xs = 16" for xs
    using be_value_append [of "take 8 xs" "drop 8 xs"] be_value_less [of "drop 8 xs"] that by simp_all
  have num: "ip_number a = be_value (take 8 ?a) * 2 ^ 64 + unat (low_half ?a)"
    "ip_number b = be_value (take 8 ?b) * 2 ^ 64 + unat (low_half ?b)"
    using assms(1-4) split(1) [OF len(1)] split(1) [OF len(2)] len by (simp_all add: ip_number_ipv6 low_half_value)
  have "ip_number a div 2 ^ 64 = be_value (take 8 ?a)" "ip_number b div 2 ^ 64 = be_value (take 8 ?b)"
    unfolding num using unsigned_less [of "low_half ?a", where ?'a = nat] unsigned_less [of "low_half ?b", where ?'a = nat]
    by simp_all
  then have high: "take 8 ?a = take 8 ?b" using assms(6) len by (intro be_value_inj) simp_all
  have low: "unat (low_half ?a) \<le> unat (low_half ?b)" using assms(5) num high by simp
  let ?d = "low_half ?b - low_half ?a"
  have d: "unat ?d = ip_number b - ip_number a"
    using low num high by (simp add: unat_sub word_le_nat_alt)
  have "?d \<noteq> - 1"
  proof
    assume "?d = - 1"
    then have "?d + 1 = 0" by simp
    then have "unat (?d + 1) = 0" by (simp only: unat_0)
    moreover have "unat (?d + 1) = unat ?d + 1" using assms(7) d by (simp add: unat_word_ariths)
    ultimately show False by simp
  qed
  moreover have "unat (?d + 1) = ip_number b - ip_number a + 1" using assms(7) d by (simp add: unat_word_ariths)
  ultimately show ?thesis using assms(1,2) high by (simp add: ipv6_range_count_def Let_def)
qed

lemma ipv6_block_size:
  assumes "spec_ok spec" and "expandable spec" and "ts_kind spec \<in> {TkIPv6, TkIPv6Cidr, TkIPv6Range}"
    and "spec_size spec \<le> maximum_targets"
  shows "\<exists>base n. ipv6_block spec = Inr (base, n) \<and> unat n = spec_size spec"
proof -
  from assms(3) consider "ts_kind spec = TkIPv6" | "ts_kind spec = TkIPv6Cidr" | "ts_kind spec = TkIPv6Range" by blast
  then show ?thesis
  proof cases
    case 1
    then show ?thesis by (simp add: ipv6_block_def spec_size_def)
  next
    case 2
    let ?h = "128 - unat (ts_prefix_length spec)"
    have h: "?h < 64"
    proof (rule ccontr)
      assume "\<not> ?h < 64"
      then have "(2 :: nat) ^ 64 \<le> 2 ^ ?h" by (intro power_increasing) simp_all
      then show False using 2 assms(4) by (simp add: spec_size_def maximum_targets_def)
    qed
    then show ?thesis using 2 unat_push_1 [OF h] by (simp add: ipv6_block_def spec_size_def Let_def del: push_bit_of_1)
  next
    case 3
    then obtain n where "ipv6_range_count (ts_first_ip spec) (ts_last_ip spec) = Some n" "unat n = spec_size spec"
      using assms ipv6_range_count_number [of "ts_first_ip spec" "ts_last_ip spec"]
      by (auto simp: spec_ok_def expandable_def spec_size_def maximum_targets_def)
    then show ?thesis using 3 by (simp add: ipv6_block_def)
  qed
qed

lemma expand_spec_succeeds:
  assumes "spec_ok spec" and "expandable spec" and "tl_max_targets limits \<le> maximum_targets"
    and "length (ex_seen ex) + spec_size spec \<le> tl_max_targets limits"
  shows "\<exists>ex'. expand_spec limits resolver spec ex = Inr ex' \<and> length (ex_seen ex') \<le> length (ex_seen ex) + spec_size spec"
proof -
  have kind: "ts_kind spec \<noteq> TkHostname" using assms(2) by (simp add: expandable_def)
  show ?thesis
  proof (cases "ts_kind spec \<in> {TkIPv4, TkIPv4Cidr, TkIPv4Range}")
    case True
    obtain base n where b: "ipv4_block spec = (base, n)" by fastforce
    then have n: "unat n = spec_size spec" using ipv4_block_size [OF assms(1) True] by simp
    show ?thesis
      using append_all_succeeds [of ex "map (\<lambda>k. from_ipv4 (base + of_nat k)) [0 ..< unat n]" limits None] assms(4) True b n
      by (auto simp: expand_spec_cases [OF kind])
  next
    case False
    then have k6: "ts_kind spec \<in> {TkIPv6, TkIPv6Cidr, TkIPv6Range}" using kind by (cases "ts_kind spec") auto
    obtain base n where b: "ipv6_block spec = Inr (base, n)" and n: "unat n = spec_size spec"
      using ipv6_block_size [OF assms(1,2) k6] assms(3,4) by auto
    have "is_ipv6 (ts_first_ip spec)" using assms(1) k6 by (auto simp: spec_ok_def)
    then show ?thesis
      using append_all_succeeds [of ex "map (\<lambda>k. add_ipv6_offset base (of_nat k)) [0 ..< unat n]" limits None]
        assms(4) False b n
      by (auto simp: expand_spec_cases [OF kind])
  qed
qed

lemma expand_specs_succeeds:
  assumes "\<forall>spec\<in>set specs. spec_ok spec \<and> expandable spec" and "tl_max_targets limits \<le> maximum_targets"
    and "length (ex_seen ex) + sum_list (map spec_size specs) \<le> tl_max_targets limits"
  shows "\<exists>ex'. expand_specs limits resolver specs ex = Inr ex'"
  using assms(1,3)
proof (induction specs arbitrary: ex)
  case (Cons spec specs)
  obtain ex1 where 1: "expand_spec limits resolver spec ex = Inr ex1"
    and l: "length (ex_seen ex1) \<le> length (ex_seen ex) + spec_size spec"
    using expand_spec_succeeds [of spec limits ex resolver] Cons.prems assms(2) by auto
  then show ?case using Cons.IH [of ex1] Cons.prems by simp
qed simp

section \<open>The resolved set\<close>

interpretation target_order: strict_weak_order "\<lambda>a b. ip_less (typed_address a) (typed_address b)"
  by unfold_locales (simp add: ip_order.irrefl, metis ip_order.trans, metis ip_order.incomparable_trans)

lemma denotes_first:
  assumes "spec_ok spec" and "ts_kind spec \<noteq> TkHostname"
  shows "denotes limits resolver spec (if ts_kind spec \<in> {TkIPv4, TkIPv4Cidr, TkIPv4Range}
    then from_ipv4 (ts_first_address spec) else ts_first_ip spec)"
  using assms by (cases "ts_kind spec") (auto simp: denotes_def spec_ok_def)

lemma resolve_specs_exact:
  assumes "\<forall>spec\<in>set specs. spec_ok spec" and "resolve_specs limits resolver specs = Inr ts"
  shows "rt_ip_address ` set ts = {a. \<exists>spec\<in>set specs. denotes limits resolver spec a} \<and>
    distinct (map rt_ip_address ts) \<and> (\<forall>t\<in>set ts. ip_valid (rt_ip_address t)) \<and>
    sorted_wrt (\<lambda>a b. \<not> ip_less (typed_address b) (typed_address a)) ts \<and>
    length ts \<le> tl_max_targets limits \<and> ts \<noteq> []"
proof -
  obtain ex where ex: "expand_specs limits resolver specs \<lparr>ex_targets = [], ex_seen = []\<rparr> = Inr ex"
    and ts: "ts = sort_numeric (ex_targets ex)" "ts \<noteq> []"
    using assms(2) by (auto simp: resolve_specs_def expand_targets_def split: sum.splits if_splits)
  have ok: "map rt_ip_address (ex_targets ex) = rev (ex_seen ex)" "distinct (ex_seen ex)"
    "length (ex_seen ex) \<le> tl_max_targets limits" "\<forall>a\<in>set (ex_seen ex). ip_valid a"
    "set (ex_seen ex) = {a. \<exists>spec\<in>set specs. denotes limits resolver spec a}"
    using expand_specs_grows [OF assms(1) ex] by (auto simp: grows_def ex_ok_def)
  have m: "mset ts = mset (ex_targets ex)" by (simp add: ts sort_numeric_def)
  then have addresses: "mset (map rt_ip_address ts) = mset (ex_seen ex)" using ok(1) by (metis mset_map mset_rev)
  then have s: "rt_ip_address ` set ts = set (ex_seen ex)" by (metis list.set_map set_mset_mset)
  have d: "distinct (map rt_ip_address ts)" using addresses ok(2) by (metis mset_eq_imp_distinct_iff)
  have l: "length ts = length (ex_seen ex)" using addresses by (metis length_map size_mset)
  have "sorted_wrt (\<lambda>a b. \<not> ip_less (typed_address b) (typed_address a)) ts"
    unfolding ts(1) sort_numeric_def by (rule target_order.sorted_sort_by)
  then show ?thesis using s d l ok(3-5) ts(2) by auto
qed

lemma resolve_specs_succeeds:
  assumes "\<forall>spec\<in>set specs. spec_ok spec \<and> expandable spec" and "specs \<noteq> []" and "target_limits_valid limits"
    and "sum_list (map spec_size specs) \<le> tl_max_targets limits"
  shows "\<exists>ts. resolve_specs limits resolver specs = Inr ts"
proof -
  let ?start = "\<lparr>ex_targets = [], ex_seen = []\<rparr>"
  have ok: "\<forall>spec\<in>set specs. spec_ok spec" using assms(1) by blast
  obtain ex where ex: "expand_specs limits resolver specs ?start = Inr ex"
    using expand_specs_succeeds [OF assms(1), of limits ?start resolver] assms(3,4) by (auto simp: target_limits_valid_def)
  have "ex_targets ex \<noteq> []"
  proof -
    obtain spec where spec: "spec \<in> set specs" using assms(2) by (meson list.set_sel(1))
    have "\<exists>a. denotes limits resolver spec a"
      using denotes_first assms(1) spec unfolding expandable_def by blast
    then have "set (ex_seen ex) \<noteq> {}" and "map rt_ip_address (ex_targets ex) = rev (ex_seen ex)"
      using expand_specs_grows [OF ok ex] spec by (auto simp: grows_def ex_ok_def)
    then show ?thesis by auto
  qed
  then have "sort_numeric (ex_targets ex) \<noteq> []"
    by (metis length_0_conv length_sort_by sort_numeric_def)
  then show ?thesis
    using assms(2,3) ex by (simp add: resolve_specs_def expand_targets_def target_limits_valid_def)
qed

section \<open>An example\<close>

text \<open>Three addresses of a range, and a block that repeats one of them.\<close>

definition numeric_libc :: libc where
  "numeric_libc = \<lparr>inet_pton4 = parse_ipv4, inet_pton6 = (\<lambda>_. None), inet_ntop4 = (\<lambda>v. Some (format_ipv4 v)),
     inet_ntop6 = (\<lambda>_. None), if_nametoindex = (\<lambda>_. 0)\<rparr>"

definition two_targets :: string where
  "two_targets = ''10.0.0.9-10.0.0.11,10.0.0.10/31''"

definition two_specs :: "target_spec list" where
  "two_specs =
     [address_spec TkIPv4Range ''10.0.0.9-10.0.0.11'' 0x0A000009 0x0A00000B 32 (from_ipv4 0x0A000009) (from_ipv4 0x0A00000B),
      address_spec TkIPv4Cidr ''10.0.0.10/31'' 0x0A00000A 0x0A00000A 31 (from_ipv4 0x0A00000A) (from_ipv4 0x0A00000A)]"

lemma from_ipv4_fields [simp]: "ip_family (from_ipv4 v) = FamilyIPv4" "ip_scope (from_ipv4 v) = None"
  by (simp_all add: from_ipv4_def)

lemma from_ipv4_order [simp]: "ip_less (from_ipv4 v) (from_ipv4 w) \<longleftrightarrow> v < w"
  using ip_less_number [of "from_ipv4 v" "from_ipv4 w"] by (simp add: word_less_nat_alt)

lemma parse_ipv4_four: "parse_ipv4 s = (if s = [] then None else parse_ipv4_components (Suc (Suc (Suc (Suc 0)))) s 0)"
  by (simp add: parse_ipv4_def eval_nat_numeral)

lemmas text_eval = numeric_libc_def trim_target_def is_blank_def split_first_def parse_ipv4_four from_chars_def is_digit_def
  decimal_value_def digit_value_def parse_ip_address_def parse_address_text_def looks_like_ipv4_def

lemma two_targets_parsed: "parse_targets numeric_libc two_targets = Inr two_specs"
  by (simp add: two_targets_def two_specs_def parse_targets_def parse_targets_loop.simps parse_one_def parse_range_def
      parse_cidr_def Let_def text_eval)

lemma two_targets_size: "sum_list (map spec_size two_specs) = 5"
  by (simp add: two_specs_def spec_size_def address_spec_def)

abbreviation no_resolver :: "string \<Rightarrow> nat \<Rightarrow> string + hostname_resolution" where
  "no_resolver \<equiv> \<lambda>_ _. Inl ''no network''"

lemma two_specs_ok: "\<forall>spec\<in>set two_specs. spec_ok spec \<and> expandable spec"
  by (simp add: two_specs_def spec_ok_def expandable_def address_spec_def)

lemma two_targets_resolved: "\<exists>ts. resolve_targets numeric_libc default_target_limits no_resolver two_targets = Inr ts"
  using resolve_specs_succeeds [OF two_specs_ok, of default_target_limits no_resolver] two_targets_size
  by (simp add: resolve_targets_def two_targets_parsed default_target_limits_def target_limits_valid_def
      maximum_targets_def maximum_hostname_results_def) (simp add: two_specs_def)

section \<open>Properties\<close>

text \<open>
  Property C23. An expression that is resolved yields exactly the addresses its specifications
  denote (blocks, ranges and the answers for host names), each once, in numeric order, and
  never more than the limit.
\<close>

theorem target_set_exact:
  assumes "\<forall>s bs. inet_pton6 lc s = Some bs \<longrightarrow> length bs = 16"
    and "parse_targets lc input = Inr specs" and "resolve_targets lc limits resolver input = Inr ts"
  shows "rt_ip_address ` set ts = {a. \<exists>spec\<in>set specs. denotes limits resolver spec a} \<and>
    distinct (map rt_ip_address ts) \<and>
    sorted_wrt (\<lambda>a b. \<not> ip_less (rt_ip_address b) (rt_ip_address a)) ts \<and>
    length ts \<le> tl_max_targets limits"
proof -
  have specs: "\<forall>spec\<in>set specs. spec_ok spec" using parse_targets_ok [OF _ assms(2)] assms(1) by blast
  have "resolve_specs limits resolver specs = Inr ts" using assms(2,3) by (simp add: resolve_targets_def)
  from resolve_specs_exact [OF specs this] show ?thesis
    by (auto simp: typed_address_def elim!: sorted_wrt_mono_rel [rotated])
qed

theorem target_set_exact_witness:
  "\<exists>ts. resolve_targets numeric_libc default_target_limits no_resolver two_targets = Inr ts \<and>
     rt_ip_address ` set ts = from_ipv4 ` {0x0A000009, 0x0A00000A, 0x0A00000B}"
proof -
  obtain ts where ts: "resolve_targets numeric_libc default_target_limits no_resolver two_targets = Inr ts"
    using two_targets_resolved by blast
  have "\<forall>s bs. inet_pton6 numeric_libc s = Some bs \<longrightarrow> length bs = 16" by (simp add: numeric_libc_def)
  from target_set_exact [OF this two_targets_parsed ts]
  have "rt_ip_address ` set ts = {a. \<exists>spec\<in>set two_specs. denotes default_target_limits no_resolver spec a}" by blast
  also have "\<dots> = from_ipv4 ` {0x0A000009, 0x0A00000A, 0x0A00000B}"
  proof -
    have range: "(9 + 167772160 \<le> v \<and> v \<le> 11 + 167772160) \<or> unat v div 2 = 83886085 \<longleftrightarrow>
        v \<in> {0x0A000009, 0x0A00000A, 0x0A00000B}" for v :: u32
    proof -
      have "unat v div 2 = 83886085 \<longleftrightarrow> unat v = 167772170 \<or> unat v = 167772171" by presburger
      moreover have "(9 + 167772160 \<le> v \<and> v \<le> 11 + 167772160) \<longleftrightarrow>
          unat v = 167772169 \<or> unat v = 167772170 \<or> unat v = 167772171"
        by (simp add: word_le_nat_alt) presburger
      moreover have "v = 0x0A000009 \<longleftrightarrow> unat v = 167772169" "v = 0x0A00000A \<longleftrightarrow> unat v = 167772170"
        "v = 0x0A00000B \<longleftrightarrow> unat v = 167772171" by (simp_all add: word_unat_eq_iff)
      ultimately show ?thesis by auto
    qed
    have "(\<exists>spec\<in>set two_specs. denotes default_target_limits no_resolver spec a) \<longleftrightarrow>
        (\<exists>v. a = from_ipv4 v \<and> v \<in> {0x0A000009, 0x0A00000A, 0x0A00000B})" for a
      unfolding range [symmetric] by (auto simp: two_specs_def denotes_def address_spec_def)
    then show ?thesis by (simp only: image_def) blast
  qed
  finally show ?thesis using ts by blast
qed

text \<open>
  Resolution does not fail without need: specifications without host names whose
  numbers of addresses add up to at most the limit are resolved, for IPv6 ranges as long as both
  ends are in one /64 network.
\<close>

theorem small_targets_resolve:
  assumes "\<forall>s bs. inet_pton6 lc s = Some bs \<longrightarrow> length bs = 16" and "target_limits_valid limits"
    and "parse_targets lc input = Inr specs"
    and "\<forall>spec\<in>set specs. ts_kind spec \<noteq> TkHostname \<and> (ts_kind spec = TkIPv6Range \<longrightarrow>
      ip_number (ts_first_ip spec) div 2 ^ 64 = ip_number (ts_last_ip spec) div 2 ^ 64)"
    and "sum_list (map spec_size specs) \<le> tl_max_targets limits"
  shows "\<exists>ts. resolve_targets lc limits resolver input = Inr ts"
proof -
  have specs: "\<forall>spec\<in>set specs. spec_ok spec" "specs \<noteq> []" using parse_targets_ok [OF _ assms(3)] assms(1) by blast+
  show ?thesis
    using resolve_specs_succeeds [of specs limits resolver] specs assms(2-5)
    by (simp add: resolve_targets_def expandable_def)
qed

theorem small_targets_resolve_witness:
  "\<exists>ts. resolve_targets numeric_libc default_target_limits no_resolver two_targets = Inr ts"
proof (rule small_targets_resolve)
  show "parse_targets numeric_libc two_targets = Inr two_specs" by (rule two_targets_parsed)
  show "sum_list (map spec_size two_specs) \<le> tl_max_targets default_target_limits"
    by (simp add: two_targets_size default_target_limits_def)
  show "\<forall>spec\<in>set two_specs. ts_kind spec \<noteq> TkHostname \<and> (ts_kind spec = TkIPv6Range \<longrightarrow>
      ip_number (ts_first_ip spec) div 2 ^ 64 = ip_number (ts_last_ip spec) div 2 ^ 64)"
    by (simp add: two_specs_def address_spec_def)
qed (simp_all add: numeric_libc_def target_limits_valid_def default_target_limits_def maximum_targets_def
    maximum_hostname_results_def)

section \<open>Dotted text\<close>

lemma digit_char:
  assumes "n < 10"
  shows "is_digit (char_of (48 + n))" "digit_value (char_of (48 + n)) = n"
  using assms by (simp_all add: is_digit_def digit_value_def less_eq_char_def less_char_def of_char_of)

lemma decimal_text_digits: "decimal_text n \<noteq> [] \<and> list_all is_digit (decimal_text n) \<and> decimal_value (decimal_text n) = n"
proof (induction n rule: decimal_text.induct)
  case (1 n)
  show ?case
  proof (cases "n < 10")
    case True
    then show ?thesis using digit_char [OF True] by (simp add: decimal_text.simps [of n] decimal_value_def)
  next
    case False
    have "n mod 10 < 10" by simp
    from digit_char [OF this] False 1 show ?thesis
      by (simp add: decimal_text.simps [of n] decimal_value_def)
  qed
qed

lemma decimal_text_short: "n < 256 \<Longrightarrow> length (decimal_text n) \<le> 3"
proof -
  assume "n < 256"
  then have "n div 10 div 10 < 10" by simp
  then show ?thesis
    by (simp only: decimal_text.simps [of n] decimal_text.simps [of "n div 10"] decimal_text.simps [of "n div 10 div 10"]) simp
qed

lemma decimal_text_parts:
  assumes "c \<notin> {d. is_digit d}"
  shows "takeWhile (\<lambda>d. d \<noteq> c) (decimal_text n @ c # rest) = decimal_text n"
    "dropWhile (\<lambda>d. d \<noteq> c) (decimal_text n @ c # rest) = c # rest"
    "takeWhile (\<lambda>d. d \<noteq> c) (decimal_text n) = decimal_text n" "dropWhile (\<lambda>d. d \<noteq> c) (decimal_text n) = []"
proof -
  have "\<forall>d\<in>set (decimal_text n). d \<noteq> c" using decimal_text_digits [of n] assms by (auto simp: list_all_iff)
  then show "takeWhile (\<lambda>d. d \<noteq> c) (decimal_text n @ c # rest) = decimal_text n"
    "dropWhile (\<lambda>d. d \<noteq> c) (decimal_text n @ c # rest) = c # rest"
    "takeWhile (\<lambda>d. d \<noteq> c) (decimal_text n) = decimal_text n" "dropWhile (\<lambda>d. d \<noteq> c) (decimal_text n) = []"
    by (simp_all add: takeWhile_append dropWhile_append)
qed

lemma dot_no_digit: "CHR ''.'' \<notin> {d. is_digit d}"
  by (simp add: is_digit_def)

lemma octet_text:
  assumes "n < 256"
  shows "parse_ipv4_components (Suc (Suc k)) (decimal_text n @ CHR ''.'' # rest) acc =
      parse_ipv4_components (Suc k) rest (push_bit 8 acc OR of_nat n)"
    and "parse_ipv4_components (Suc 0) (decimal_text n) acc = Some (push_bit 8 acc OR of_nat n)"
proof -
  have f: "from_chars (2 ^ 32 - 1) (decimal_text n) = Some (n, [])"
    using decimal_text_digits [of n] assms by (simp add: from_chars_all)
  note p = decimal_text_parts [OF dot_no_digit, of n]
  note facts = f assms decimal_text_digits [of n] decimal_text_short [OF assms]
  show "parse_ipv4_components (Suc (Suc k)) (decimal_text n @ CHR ''.'' # rest) acc =
      parse_ipv4_components (Suc k) rest (push_bit 8 acc OR of_nat n)"
    using facts by (subst parse_ipv4_components.simps(2)) (simp add: p Let_def del: parse_ipv4_components.simps)
  show "parse_ipv4_components (Suc 0) (decimal_text n) acc = Some (push_bit 8 acc OR of_nat n)"
    using facts by (simp add: p Let_def)
qed

lemma octets_joined:
  fixes v :: u32
  shows "push_bit 8 (push_bit 8 (push_bit 8 (push_bit 8 0 OR (drop_bit 24 v AND 0xFF)) OR (drop_bit 16 v AND 0xFF)) OR
    (drop_bit 8 v AND 0xFF)) OR (v AND 0xFF) = v"
proof (rule bit_word_eqI)
  fix n assume "n < LENGTH(32)"
  then consider "n < 8" | "8 \<le> n \<and> n < 16" | "16 \<le> n \<and> n < 24" | "24 \<le> n \<and> n < 32" by fastforce
  then show "bit (push_bit 8 (push_bit 8 (push_bit 8 (push_bit 8 0 OR (drop_bit 24 v AND 0xFF)) OR (drop_bit 16 v AND 0xFF)) OR
    (drop_bit 8 v AND 0xFF)) OR (v AND 0xFF)) n = bit v n"
    by cases (auto simp: bit_simps and_0xFF)
qed

lemma parse_format_ipv4: "parse_ipv4 (format_ipv4 v) = Some v"
proof -
  have small: "unat (w AND 0xFF) < 256" for w :: u32
    using unsigned_less [of "ucast (w AND 0xFF) :: u8", where ?'a = nat]
    by (simp only: and_0xFF unsigned_take_bit_eq) (simp add: take_bit_eq_mod)
  have octet: "of_nat (unat (w AND 0xFF)) = w AND 0xFF" for w :: u32 by simp
  have "parse_ipv4_components (Suc (Suc (Suc (Suc 0)))) (format_ipv4 v) 0 = Some v"
    unfolding format_ipv4_def append.simps
    by (simp only: octet_text [OF small] octet octets_joined append.simps)
  moreover have "format_ipv4 v \<noteq> []" by (simp add: format_ipv4_def)
  ultimately show ?thesis by (simp add: parse_ipv4_def eval_nat_numeral)
qed

lemma trim_target_id: "(\<forall>c\<in>set s. \<not> is_blank c) \<Longrightarrow> trim_target s = s"
proof -
  assume a: "\<forall>c\<in>set s. \<not> is_blank c"
  have d: "dropWhile is_blank xs = xs" if "\<forall>c\<in>set xs. \<not> is_blank c" for xs
    using that by (cases xs) simp_all
  show ?thesis using a by (simp add: trim_target_def d)
qed

lemma format_ipv4_chars: "c \<in> set (format_ipv4 v) \<Longrightarrow> is_digit c \<or> c = CHR ''.''"
  using decimal_text_digits by (auto simp: format_ipv4_def list_all_iff)

text \<open>
  The dotted text of an IPv4 address is read back as that address, and as a target
  it denotes this one address.
\<close>

theorem ipv4_text_round_trip:
  "parse_ipv4 (format_ipv4 v) = Some v \<and>
   (\<exists>spec. parse_targets lc (format_ipv4 v) = Inr [spec] \<and> (\<forall>a. denotes limits resolver spec a \<longleftrightarrow> a = from_ipv4 v))"
proof
  show p: "parse_ipv4 (format_ipv4 v) = Some v" by (rule parse_format_ipv4)
  have no: "c \<notin> set (format_ipv4 v)" if "\<not> is_digit c" "c \<noteq> CHR ''.''" for c
    using format_ipv4_chars that by blast
  have "\<not> is_blank c" if "c \<in> set (format_ipv4 v)" for c
    using format_ipv4_chars [OF that] by (auto simp: is_blank_def is_digit_def)
  then have t: "trim_target (format_ipv4 v) = format_ipv4 v" by (intro trim_target_id) blast
  have ne: "format_ipv4 v \<noteq> []" by (simp add: format_ipv4_def)
  have splits: "split_first CHR ''/'' (format_ipv4 v) = None" "split_first CHR ''-'' (format_ipv4 v) = None"
    "split_first CHR '','' (format_ipv4 v) = None"
    unfolding split_first_None by (rule no; simp add: is_digit_def)+
  have "parse_targets lc (format_ipv4 v) = Inr [address_spec TkIPv4 (format_ipv4 v) v v 32 (from_ipv4 v) (from_ipv4 v)]"
    by (simp add: parse_targets_def t ne parse_targets_loop.simps splits parse_one_def parse_single_def p)
  then show "\<exists>spec. parse_targets lc (format_ipv4 v) = Inr [spec] \<and> (\<forall>a. denotes limits resolver spec a \<longleftrightarrow> a = from_ipv4 v)"
    by (simp add: denotes_def address_spec_def)
qed

section \<open>Host names with hyphens\<close>

lemma valid_labels_chars: "valid_labels s \<Longrightarrow> c \<in> set s \<Longrightarrow> host_char c \<or> c = CHR ''.''"
proof (induction s rule: valid_labels.induct)
  case (1 s)
  have label: "host_char c" if "valid_label l" "c \<in> set l" for l
    using that by (simp add: valid_label_def list_all_iff)
  show ?case
  proof (cases "split_first CHR ''.'' s")
    case None
    then show ?thesis using "1.prems" label [of s] by (simp add: valid_labels.simps [of s] split: if_splits)
  next
    case (Some lr)
    then obtain l r where lr: "split_first CHR ''.'' s = Some (l, r)" by (cases lr) simp
    then have s: "s = l @ CHR ''.'' # r" by (simp add: split_first_Some)
    have "valid_label l" "valid_labels r" using "1.prems"(1) lr valid_labels.simps [of s] s by auto
    then show ?thesis using "1.IH" [OF _ lr refl] "1.prems"(2) s label by auto
  qed
qed

text \<open>
  A host name with two hyphens is never accepted, although the host name check
  admits it: the search for a range takes it for a range with two separators before the host
  name is looked at.
\<close>

theorem hyphenated_hostname_rejected:
  assumes "valid_hostname h" and "h = a @ CHR ''-'' # b @ CHR ''-'' # c"
  shows "parse_targets lc h = Inl (InvalidArgument, TeInvalidRange, ''range contains more than one separator: '' @ h)"
proof -
  have chars: "host_char x \<or> x = CHR ''.''" if "x \<in> set h" for x
    using assms(1) that valid_labels_chars by (auto simp: valid_hostname_def)
  have "\<not> is_blank x" if "x \<in> set h" for x
    using chars [OF that] by (auto simp: is_blank_def host_char_def is_digit_def)
  then have t: "trim_target h = h" by (intro trim_target_id) blast
  have "CHR ''/'' \<notin> set h" "CHR '','' \<notin> set h"
    using chars by (auto simp: host_char_def is_digit_def dest!: chars)
  then have splits: "split_first CHR ''/'' h = None" "split_first CHR '','' h = None" by (simp_all add: split_first_None)
  have "CHR ''-'' \<in> set h" using assms(2) by simp
  then obtain before after where d: "split_first CHR ''-'' h = Some (before, after)"
    by (metis option.exhaust split_first_None surj_pair)
  have "CHR ''-'' \<in> set after"
  proof (rule ccontr)
    assume "CHR ''-'' \<notin> set after"
    then have "count_list h CHR ''-'' = 1" using d by (simp add: split_first_Some)
    moreover have "2 \<le> count_list h CHR ''-''" using assms(2) by simp
    ultimately show False by simp
  qed
  moreover have "h \<noteq> []" using assms(2) by simp
  ultimately show ?thesis
    using d by (simp add: parse_targets_def t parse_targets_loop.simps splits parse_one_def parse_range_def)
qed

theorem hyphenated_hostname_rejected_witness:
  "valid_hostname ''my-web-server'' \<and>
   parse_targets numeric_libc ''my-web-server'' =
     Inl (InvalidArgument, TeInvalidRange, ''range contains more than one separator: my-web-server'')"
proof -
  have v: "valid_hostname ''my-web-server''"
    by (simp add: valid_hostname_def valid_labels.simps split_first_def valid_label_def host_char_def is_digit_def)
  from hyphenated_hostname_rejected [OF v, of "''my''" "''web''" "''server''" numeric_libc] v show ?thesis by simp
qed

end
