(* ===== verification/Udp_Database.thy ===== *)
theory Udp_Database
  imports Port_Types
begin

text \<open>
  The UDP probe database (\<open>include/portscan/udp_scan.hpp\<close>, \<open>src/portscan/udp_scan.cpp\<close>): the
  text format with one probe per line, the payload in hexadecimal, the index of ports, and the
  default probe. \<open>load_file\<close> takes what the file stream delivers as an argument.
\<close>

section \<open>Definitions of probes\<close>

record udp_definition =
  ud_name :: string
  ud_destination_port :: u16
  ud_payload :: bytes
  ud_max_response :: nat
  ud_hint :: string

record udp_database =
  udb_definitions :: "udp_definition list"
  udb_port_index :: "(u16 \<times> nat) list"
  udb_default_index :: nat

definition empty_udp_database :: udp_database where
  "empty_udp_database = \<lparr>udb_definitions = [], udb_port_index = [], udb_default_index = 0\<rparr>"

definition udp_fallback :: udp_definition where
  "udp_fallback = \<lparr>ud_name = ''DEFAULT'', ud_destination_port = 0, ud_payload = [0],
     ud_max_response = 512, ud_hint = ''generic''\<rparr>"

definition udp_default_probe :: "udp_database \<Rightarrow> udp_definition" where
  "udp_default_probe db =
     (if udb_definitions db = [] \<or> udb_default_index db \<ge> length (udb_definitions db) then udp_fallback
      else udb_definitions db ! udb_default_index db)"

text \<open>The index only holds positions of definitions; the pointer returned is never null.\<close>

definition udp_for_port :: "udp_database \<Rightarrow> u16 \<Rightarrow> udp_definition" where
  "udp_for_port db p =
     (case map_of (udb_port_index db) p of
        None \<Rightarrow> udp_default_probe db
      | Some i \<Rightarrow> udb_definitions db ! i)"

section \<open>Fields of a line\<close>

definition udp_parse_port :: "string \<Rightarrow> u16 option" where
  "udp_parse_port s =
     (case from_chars unsigned_max s of
        Some (v, rest) \<Rightarrow> if rest \<noteq> [] \<or> v > 65535 then None else Some (of_nat v)
      | None \<Rightarrow> None)"

definition parse_positive_size :: "string \<Rightarrow> nat option" where
  "parse_positive_size s =
     (case from_chars (2 ^ 64 - 1) s of
        Some (v, rest) \<Rightarrow> if rest \<noteq> [] \<or> v = 0 then None else Some v
      | None \<Rightarrow> None)"

definition hexadecimal_value :: "char \<Rightarrow> nat option" where
  "hexadecimal_value c =
     (if CHR ''0'' \<le> c \<and> c \<le> CHR ''9'' then Some (of_char c - 48)
      else if CHR ''a'' \<le> c \<and> c \<le> CHR ''f'' then Some (of_char c - 97 + 10)
      else if CHR ''A'' \<le> c \<and> c \<le> CHR ''F'' then Some (of_char c - 65 + 10)
      else None)"

fun decode_hex_loop :: "string \<Rightarrow> bytes \<Rightarrow> bytes option" where
  "decode_hex_loop (a # b # rest) acc =
     (case (hexadecimal_value a, hexadecimal_value b) of
        (Some high, Some low) \<Rightarrow> decode_hex_loop rest (acc @ [of_nat (16 * high + low)])
      | _ \<Rightarrow> None)"
| "decode_hex_loop _ acc = Some acc"

definition decode_hex :: "string \<Rightarrow> bytes option" where
  "decode_hex s =
     (if length s mod 2 \<noteq> 0 \<or> length s div 2 > 512 then None else decode_hex_loop s [])"

text \<open>\<open>std::getline\<close> until the stream ends, and \<open>>>\<close> on a string stream.\<close>

function text_lines :: "string \<Rightarrow> string list" where
  "text_lines s =
     (if s = [] then []
      else takeWhile (\<lambda>c. c \<noteq> CHR 0x0A) s # text_lines (tl (dropWhile (\<lambda>c. c \<noteq> CHR 0x0A) s)))"
  by pat_completeness auto
termination
proof (relation "measure length", goal_cases)
  case (2 s)
  have "length (dropWhile (\<lambda>c. c \<noteq> CHR 0x0A) s) \<le> length s" by (rule length_dropWhile_le)
  moreover have "0 < length s" using 2 by blast
  ultimately show ?case unfolding in_measure length_tl by linarith
qed simp

declare text_lines.simps [simp del]

lemma dropWhile_shorter:
  assumes "dropWhile P s \<noteq> []"
  shows "length (dropWhile (\<lambda>c. \<not> P c) (dropWhile P s)) < length s"
proof -
  obtain a l where al: "dropWhile P s = a # l" using assms by (cases "dropWhile P s") auto
  then have "\<not> P a" using hd_dropWhile [OF assms] by simp
  then have "dropWhile (\<lambda>c. \<not> P c) (dropWhile P s) = dropWhile (\<lambda>c. \<not> P c) l" unfolding al by simp
  moreover have "length (dropWhile (\<lambda>c. \<not> P c) l) \<le> length l" by (rule length_dropWhile_le)
  moreover have "length (dropWhile P s) = Suc (length l)" unfolding al by simp
  moreover have "length (dropWhile P s) \<le> length s" by (rule length_dropWhile_le)
  ultimately show ?thesis by simp
qed

function text_words :: "string \<Rightarrow> string list" where
  "text_words s =
     (let t = dropWhile is_space s in
      if t = [] then []
      else takeWhile (\<lambda>c. \<not> is_space c) t # text_words (dropWhile (\<lambda>c. \<not> is_space c) t))"
  by pat_completeness auto
termination
proof (relation "measure length", goal_cases)
  case (2 s t)
  then show ?case unfolding in_measure 2(1) using dropWhile_shorter by blast
qed simp

declare text_words.simps [simp del]

section \<open>The parser\<close>

record udp_parse_state =
  ups_database :: udp_database
  ups_names :: "string list"
  ups_has_default :: bool

definition add_udp_definition :: "udp_definition \<Rightarrow> udp_parse_state \<Rightarrow> udp_parse_state option" where
  "add_udp_definition d st =
     (let db = ups_database st; p = ud_destination_port d; i = length (udb_definitions db);
          db1 = db\<lparr>udb_definitions := udb_definitions db @ [d]\<rparr> in
      if p = 0 then
        (if ups_has_default st then None
         else Some (st\<lparr>ups_database := db1\<lparr>udb_default_index := i\<rparr>, ups_has_default := True\<rparr>))
      else Some (st\<lparr>ups_database := db1\<lparr>udb_port_index := fst (map_emplace p i (udb_port_index db1))\<rparr>\<rparr>))"

text \<open>
  One line: a blank line and a comment are skipped, anything but six fields of the right form is
  an error. \<open>names.insert\<close> happens before the checks that follow it, which only matters for
  parses that fail anyway.
\<close>

definition parse_udp_line :: "string \<Rightarrow> udp_parse_state \<Rightarrow> udp_parse_state option" where
  "parse_udp_line line st =
     (let trimmed = trim line in
      if trimmed = [] \<or> hd trimmed = CHR ''#'' then Some st
      else case text_words trimmed of
        [keyword, name, port_text, hint, response_text, payload_text] \<Rightarrow>
          if keyword \<noteq> ''probe'' \<or> name = [] \<or> hint = [] then None
          else (case (udp_parse_port port_text, parse_positive_size response_text) of
            (Some p, Some max_response) \<Rightarrow>
              if max_response > 1048576 \<or> name \<in> set (ups_names st) then None
              else if p = 0 \<and> name \<noteq> ''DEFAULT'' then None
              else (case decode_hex payload_text of
                None \<Rightarrow> None
              | Some payload \<Rightarrow>
                  if payload = [] \<or> length payload > 512 then None
                  else if p \<noteq> 0 \<and> map_has (udb_port_index (ups_database st)) p then None
                  else add_udp_definition
                    \<lparr>ud_name = name, ud_destination_port = p, ud_payload = payload,
                     ud_max_response = max_response, ud_hint = hint\<rparr>
                    (st\<lparr>ups_names := name # ups_names st\<rparr>))
          | _ \<Rightarrow> None)
      | _ \<Rightarrow> None)"

fun parse_udp_lines :: "string list \<Rightarrow> udp_parse_state \<Rightarrow> udp_parse_state option" where
  "parse_udp_lines [] st = Some st"
| "parse_udp_lines (line # lines) st =
     (case parse_udp_line line st of None \<Rightarrow> None | Some st' \<Rightarrow> parse_udp_lines lines st')"

definition parse_udp_database :: "string \<Rightarrow> status_code \<times> udp_database" where
  "parse_udp_database text =
     (if length text > 1048576 then (ParseError, empty_udp_database)
      else case parse_udp_lines (text_lines text)
          \<lparr>ups_database = empty_udp_database, ups_names = [], ups_has_default = False\<rparr> of
        None \<Rightarrow> (ParseError, empty_udp_database)
      | Some st \<Rightarrow>
          let db = ups_database st in
          if udb_definitions db = [] \<or> \<not> ups_has_default st
            \<or> udb_default_index db \<ge> length (udb_definitions db)
            \<or> ud_destination_port (udb_definitions db ! udb_default_index db) \<noteq> 0
          then (ParseError, empty_udp_database)
          else (Ok, db))"

definition built_in_udp_text :: string where
  "built_in_udp_text = concat (map (\<lambda>line. line @ [CHR 0x0A])
     [''# Skan UDP probes: name port hint max_response payload_hex'',
      ''probe DNS 53 dns 512 123401000001000000000000'',
      ''probe NTP 123 ntp 512 1b000000000000000000000000000000000000000000000000000000000000000000000000000000000000000000'',
      ''probe SNMP 161 snmp 2048 301002010104067075626c6963'',
      ''probe NETBIOS 137 netbios 1024 0089000010000000000000000000000000000000000000000000000000000000'',
      ''probe TFTP 69 tftp 1024 00010000'',
      ''probe IKE 500 ike 2048 00000000000000000000000000000000'',
      ''probe DEFAULT 0 generic 512 00''])"

definition built_in_udp_database :: udp_database where
  "built_in_udp_database =
     (case parse_udp_database built_in_udp_text of
        (st, db) \<Rightarrow> if st \<noteq> Ok then empty_udp_database else db)"

text \<open>
  \<open>load_file\<close>: the stream does not open, or delivers chunks of at most 8192 bytes and then
  stops at the end of the file or at an error.
\<close>

fun read_chunks :: "string list \<Rightarrow> string \<Rightarrow> string option" where
  "read_chunks [] contents = Some contents"
| "read_chunks (chunk # chunks) contents =
     (if chunk = [] then read_chunks chunks contents
      else if length contents > 1048576 - length chunk then None
      else read_chunks chunks (contents @ chunk))"

definition load_udp_file :: "(string list \<times> bool) option \<Rightarrow> status_code \<times> udp_database" where
  "load_udp_file stream =
     (case stream of
        None \<Rightarrow> (NotFound, empty_udp_database)
      | Some (chunks, eof) \<Rightarrow>
          (case read_chunks chunks [] of
             None \<Rightarrow> (ParseError, empty_udp_database)
           | Some contents \<Rightarrow>
               if \<not> eof then (IoError, empty_udp_database) else parse_udp_database contents))"

section \<open>What a parsed database promises\<close>

definition udp_definition_ok :: "udp_definition \<Rightarrow> bool" where
  "udp_definition_ok d \<longleftrightarrow>
     1 \<le> length (ud_payload d) \<and> length (ud_payload d) \<le> 512 \<and>
     1 \<le> ud_max_response d \<and> ud_max_response d \<le> 1048576 \<and>
     (ud_destination_port d = 0 \<longrightarrow> ud_name d = ''DEFAULT'')"

definition index_ok :: "udp_database \<Rightarrow> bool" where
  "index_ok db \<longleftrightarrow>
     (\<forall>p i. map_of (udb_port_index db) p = Some i \<longleftrightarrow>
        p \<noteq> 0 \<and> i < length (udb_definitions db) \<and> ud_destination_port (udb_definitions db ! i) = p)"

definition parse_state_ok :: "udp_parse_state \<Rightarrow> bool" where
  "parse_state_ok st \<longleftrightarrow>
     (let db = ups_database st; ds = udb_definitions db in
      (\<forall>d\<in>set ds. udp_definition_ok d) \<and> distinct (map ud_name ds) \<and>
      set (map ud_name ds) = set (ups_names st) \<and> index_ok db \<and>
      (ups_has_default st \<longrightarrow> udb_default_index db < length ds) \<and>
      (\<forall>i < length ds. ud_destination_port (ds ! i) = 0 \<longleftrightarrow> ups_has_default st \<and> i = udb_default_index db))"

lemma index_ok_append:
  assumes "index_ok db" and "p = ud_destination_port d" and "p \<noteq> 0" and "\<not> map_has (udb_port_index db) p"
  shows "index_ok (db\<lparr>udb_definitions := udb_definitions db @ [d],
    udb_port_index := (p, length (udb_definitions db)) # udb_port_index db\<rparr>)"
proof -
  have none: "\<not> (i < length (udb_definitions db) \<and> ud_destination_port (udb_definitions db ! i) = p)" for i
    using assms(1,3,4) by (auto simp: index_ok_def map_has_def)
  show ?thesis
    using assms(1-3) none by (auto simp: index_ok_def nth_append less_Suc_eq)
qed

lemma index_ok_default:
  assumes "index_ok db" and "ud_destination_port d = 0"
  shows "index_ok (db\<lparr>udb_definitions := udb_definitions db @ [d], udb_default_index := n\<rparr>)"
  using assms by (auto simp: index_ok_def nth_append less_Suc_eq)

lemma add_udp_definition_ok:
  assumes ok: "parse_state_ok st" and d: "udp_definition_ok d" "ud_name d \<notin> set (ups_names st)"
    and p: "ud_destination_port d \<noteq> 0 \<longrightarrow> \<not> map_has (udb_port_index (ups_database st)) (ud_destination_port d)"
    and add: "add_udp_definition d (st\<lparr>ups_names := ud_name d # ups_names st\<rparr>) = Some st'"
  shows "parse_state_ok st'"
proof (cases "ud_destination_port d = 0")
  case True
  then have nd: "\<not> ups_has_default st" and st': "st' = st\<lparr>ups_names := ud_name d # ups_names st,
      ups_database := (ups_database st)\<lparr>udb_definitions := udb_definitions (ups_database st) @ [d],
        udb_default_index := length (udb_definitions (ups_database st))\<rparr>, ups_has_default := True\<rparr>"
    using add by (auto simp: add_udp_definition_def Let_def split: if_splits)
  show ?thesis
    using ok d True nd index_ok_default [of "ups_database st" d]
    unfolding st' by (auto simp: parse_state_ok_def Let_def nth_append less_Suc_eq)
next
  case False
  then have st': "st' = st\<lparr>ups_names := ud_name d # ups_names st,
      ups_database := (ups_database st)\<lparr>udb_definitions := udb_definitions (ups_database st) @ [d],
        udb_port_index := (ud_destination_port d, length (udb_definitions (ups_database st))) #
          udb_port_index (ups_database st)\<rparr>\<rparr>"
    using add p by (auto simp: add_udp_definition_def Let_def map_emplace_def)
  show ?thesis
    using ok d False p index_ok_append [of "ups_database st" _ d]
    unfolding st' by (auto simp: parse_state_ok_def Let_def nth_append less_Suc_eq)
qed

lemma parse_udp_line_ok:
  assumes "parse_state_ok st" and "parse_udp_line line st = Some st'"
  shows "parse_state_ok st'"
proof (cases "trim line = [] \<or> hd (trim line) = CHR ''#''")
  case True
  then show ?thesis using assms by (simp add: parse_udp_line_def)
next
  case False
  obtain kw name pt hint rt pl where w: "text_words (trim line) = [kw, name, pt, hint, rt, pl]"
    using assms(2) False by (auto simp: parse_udp_line_def Let_def split: list.splits)
  obtain p mr payload where f: "udp_parse_port pt = Some p" "parse_positive_size rt = Some mr"
    "decode_hex pl = Some payload"
    using assms(2) False w by (auto simp: parse_udp_line_def Let_def split: option.splits if_splits)
  let ?d = "\<lparr>ud_name = name, ud_destination_port = p, ud_payload = payload, ud_max_response = mr, ud_hint = hint\<rparr>"
  have c: "mr \<le> 1048576" "name \<notin> set (ups_names st)" "p = 0 \<longrightarrow> name = ''DEFAULT''" "payload \<noteq> []"
    "length payload \<le> 512" "p \<noteq> 0 \<longrightarrow> \<not> map_has (udb_port_index (ups_database st)) p"
    and a: "add_udp_definition ?d (st\<lparr>ups_names := name # ups_names st\<rparr>) = Some st'"
    using assms(2) False w f by (auto simp: parse_udp_line_def Let_def split: if_splits)
  have "1 \<le> mr" using f(2) by (auto simp: parse_positive_size_def split: option.splits if_splits)
  then have "udp_definition_ok ?d" using c by (cases payload) (simp_all add: udp_definition_ok_def)
  then show ?thesis using add_udp_definition_ok [OF assms(1), of ?d st'] c a by simp
qed

lemma parse_udp_lines_ok:
  "parse_udp_lines lines st = Some st' \<Longrightarrow> parse_state_ok st \<Longrightarrow> parse_state_ok st'"
  by (induction lines arbitrary: st) (auto split: option.splits intro: parse_udp_line_ok)

lemma parse_udp_database_Ok:
  assumes "parse_udp_database text = (Ok, db)"
  obtains st where "parse_state_ok st" and "ups_database st = db" and "ups_has_default st"
proof -
  obtain st where st: "parse_udp_lines (text_lines text)
      \<lparr>ups_database = empty_udp_database, ups_names = [], ups_has_default = False\<rparr> = Some st"
    "ups_database st = db" "ups_has_default st"
    using assms by (auto simp: parse_udp_database_def Let_def split: if_splits option.splits)
  moreover have "parse_state_ok \<lparr>ups_database = empty_udp_database, ups_names = [], ups_has_default = False\<rparr>"
    by (simp add: parse_state_ok_def empty_udp_database_def index_ok_def)
  ultimately show thesis using that parse_udp_lines_ok by blast
qed

text \<open>A usable database: the constructor's empty one answers every port with the fallback.\<close>

definition udp_database_ok :: "udp_database \<Rightarrow> bool" where
  "udp_database_ok db \<longleftrightarrow>
     (\<forall>p. udp_definition_ok (udp_for_port db p) \<and>
        ud_destination_port (udp_for_port db p) \<in> {p, 0})"

lemma udp_fallback_ok [simp]: "udp_definition_ok udp_fallback"
  by (simp add: udp_definition_ok_def udp_fallback_def)

lemma udp_database_ok_empty: "udp_database_ok empty_udp_database"
  by (simp add: udp_database_ok_def empty_udp_database_def udp_for_port_def udp_default_probe_def)
    (simp add: udp_fallback_def)

lemma udp_database_exact:
  assumes "parse_udp_database text = (Ok, db)"
  shows "distinct (map ud_name (udb_definitions db))"
    and "d \<in> set (udb_definitions db) \<Longrightarrow> udp_definition_ok d"
    and "d \<in> set (udb_definitions db) \<Longrightarrow> udp_for_port db (ud_destination_port d) = d"
    and "udp_for_port db p \<in> set (udb_definitions db)"
    and "ud_destination_port (udp_for_port db p) \<in> {p, 0}"
proof -
  obtain st where st: "parse_state_ok st" "ups_database st = db" "ups_has_default st"
    by (rule parse_udp_database_Ok [OF assms])
  then have ds: "\<forall>d\<in>set (udb_definitions db). udp_definition_ok d" "distinct (map ud_name (udb_definitions db))"
    and ix: "index_ok db" and df: "udb_default_index db < length (udb_definitions db)"
    "\<And>i. i < length (udb_definitions db) \<Longrightarrow>
       ud_destination_port (udb_definitions db ! i) = 0 \<longleftrightarrow> i = udb_default_index db"
    by (auto simp: parse_state_ok_def Let_def)
  then show "distinct (map ud_name (udb_definitions db))"
    and "d \<in> set (udb_definitions db) \<Longrightarrow> udp_definition_ok d" by auto
  have dp: "udp_default_probe db = udb_definitions db ! udb_default_index db"
    using df(1) by (auto simp: udp_default_probe_def)
  have some: "udp_for_port db (ud_destination_port (udb_definitions db ! i)) = udb_definitions db ! i"
    if "i < length (udb_definitions db)" for i
  proof (cases "ud_destination_port (udb_definitions db ! i) = 0")
    case True
    then have "map_of (udb_port_index db) 0 = None"
      using ix unfolding index_ok_def by (metis not_None_eq)
    then show ?thesis using True df(2) [OF that] dp by (simp add: udp_for_port_def)
  next
    case False
    then have "map_of (udb_port_index db) (ud_destination_port (udb_definitions db ! i)) = Some i"
      using ix that by (simp add: index_ok_def)
    then show ?thesis by (simp add: udp_for_port_def)
  qed
  then show "d \<in> set (udb_definitions db) \<Longrightarrow> udp_for_port db (ud_destination_port d) = d"
    by (auto simp: in_set_conv_nth)
  show "udp_for_port db p \<in> set (udb_definitions db)"
    using ix df(1) dp by (auto simp: udp_for_port_def index_ok_def split: option.splits)
  show "ud_destination_port (udp_for_port db p) \<in> {p, 0}"
    using ix df dp by (auto simp: udp_for_port_def index_ok_def split: option.splits)
qed

lemma udp_database_ok_parsed: "parse_udp_database text = (Ok, db) \<Longrightarrow> udp_database_ok db"
  using udp_database_exact(2,4,5) by (fastforce simp: udp_database_ok_def)

lemma udp_database_ok_built_in: "udp_database_ok built_in_udp_database"
  using udp_database_ok_parsed udp_database_ok_empty
  by (fastforce simp: built_in_udp_database_def split: prod.splits)

lemma read_chunks_concat:
  assumes "\<forall>chunk\<in>set chunks. length chunk \<le> 8192"
  shows "read_chunks chunks contents =
    (if chunks \<noteq> [] \<and> concat chunks \<noteq> [] \<and> length (contents @ concat chunks) > 1048576 then None
     else Some (contents @ concat chunks))"
  using assms
proof (induction chunks contents rule: read_chunks.induct)
  case (2 chunk chunks contents)
  show ?case
  proof (cases "chunk = []")
    case False
    then show ?thesis using 2 by (cases "concat chunks = []") (auto simp del: concat_eq_Nil_conv)
  qed (use 2 in auto)
qed simp

text \<open>
  A database that parses answers every port: each definition is found under its
  own port, a port without one gets the default probe, payloads hold 1 to 512 bytes, responses
  are limited to one mebibyte, and names are distinct.
\<close>

theorem udp_database_total:
  assumes "parse_udp_database text = (Ok, db)"
  shows "(\<forall>p. udp_for_port db p \<in> set (udb_definitions db) \<and>
        ud_destination_port (udp_for_port db p) \<in> {p, 0}) \<and>
     (\<forall>d\<in>set (udb_definitions db). udp_for_port db (ud_destination_port d) = d \<and>
        length (ud_payload d) \<in> {1..512} \<and> ud_max_response d \<in> {1..1048576}) \<and>
     distinct (map ud_name (udb_definitions db))"
  using udp_database_exact [OF assms] by (auto simp: udp_definition_ok_def)

text \<open>
  Loading a file in chunks is parsing its contents: the size check of the loop
  refuses exactly the files the parser refuses for their size.
\<close>

theorem udp_file_is_parsed:
  assumes "\<forall>chunk\<in>set chunks. length chunk \<le> 8192"
  shows "load_udp_file (Some (chunks, True)) = parse_udp_database (concat chunks)"
  using read_chunks_concat [OF assms, of "[]"]
  by (auto simp: load_udp_file_def parse_udp_database_def)

lemmas udp_text_eval = text_lines.simps text_words.simps trim_def is_space_def udp_parse_port_def
  parse_positive_size_def from_chars_def decode_hex_def hexadecimal_value_def parse_udp_line_def
  parse_udp_database_def add_udp_definition_def map_emplace_def map_has_def empty_udp_database_def
  is_digit_def decimal_value_def digit_value_def unsigned_max_def Let_def

lemma two_line_udp_database: "parse_udp_database (''probe D 53 d 9 1f'' @ CHR 0x0A # ''probe DEFAULT 0 g 5 00'') = (Ok,
    \<lparr>udb_definitions =
       [\<lparr>ud_name = ''D'', ud_destination_port = 53, ud_payload = [31], ud_max_response = 9, ud_hint = ''d''\<rparr>,
        \<lparr>ud_name = ''DEFAULT'', ud_destination_port = 0, ud_payload = [0], ud_max_response = 5, ud_hint = ''g''\<rparr>],
     udb_port_index = [(53, 0)], udb_default_index = 1\<rparr>)"
  by (simp add: udp_text_eval)

theorem udp_database_total_witness:
  "\<exists>db. parse_udp_database (''probe D 53 d 9 1f'' @ CHR 0x0A # ''probe DEFAULT 0 g 5 00'') = (Ok, db) \<and>
     ud_name (udp_for_port db 53) = ''D'' \<and> (\<forall>p. udp_for_port db p \<in> set (udb_definitions db))"
  using udp_database_total [OF two_line_udp_database] two_line_udp_database
  by (simp add: udp_for_port_def)

theorem udp_file_is_parsed_witness:
  "load_udp_file (Some ([''probe D 53'', '' d 9 1f'' @ [CHR 0x0A], ''probe DEFAULT 0 g 5 00''], True)) =
     parse_udp_database (''probe D 53 d 9 1f'' @ CHR 0x0A # ''probe DEFAULT 0 g 5 00'')"
  using udp_file_is_parsed [of "[''probe D 53'', '' d 9 1f'' @ [CHR 0x0A], ''probe DEFAULT 0 g 5 00'']"]
  by simp

end
