(* ===== verification/Udp_Scheduler.thy ===== *)
theory Udp_Scheduler
  imports Udp_Database Packet_Composer Port_Scheduler
begin

text \<open>
  The UDP scheduler (\<open>include/portscan/udp_scan.hpp\<close>, \<open>src/portscan/udp_scan.cpp\<close>): one packet
  with its own source port per probe, evidence collected until the deadline, retries of silent
  ports, and the recording transport of the tests. The environment record holds the C library,
  the clock and the transport, as for the TCP scheduler; a transport may answer a submission
  from inside \<open>submit\<close>, and one that refuses a submission must not answer it.
\<close>

section \<open>Submissions and responses\<close>

datatype udp_response_kind =
  UdpDatagram | UdpIcmpPortUnreachable | UdpIcmpAdministrativelyProhibited |
  UdpIcmpNetworkUnreachable | UdpMalformed | UdpSocketError

record udp_submission =
  usb_id :: u64
  usb_target :: string
  usb_port :: port
  usb_source_ipv4 :: u32
  usb_destination_ipv4 :: u32
  usb_source_port :: u16
  usb_packet :: bytes
  usb_payload :: bytes
  usb_probe_name :: string
  usb_max_response_bytes :: nat
  usb_source_ip :: ip_address
  usb_destination_ip :: ip_address

record udp_response =
  urs_id :: u64
  urs_source_address :: string
  urs_source_ipv4 :: u32
  urs_source_port :: u16
  urs_destination_port :: u16
  urs_kind :: udp_response_kind
  urs_bytes :: bytes
  urs_received_at :: int
  urs_source_ip :: ip_address

section \<open>The recording transport\<close>

record 'cb recording_udp =
  rud_submissions :: "udp_submission list"
  rud_callbacks :: "(u64 \<times> 'cb) list"

definition recording_udp_submit ::
  "udp_submission \<Rightarrow> 'cb option \<Rightarrow> 'cb recording_udp \<Rightarrow> status_code \<times> 'cb recording_udp" where
  "recording_udp_submit s cb t =
     (if usb_id s = 0 \<or> port_protocol (usb_port s) \<noteq> Udp \<or> port_number (usb_port s) = 0 \<or> usb_target s = []
        \<or> cb = None \<or> map_has (rud_callbacks t) (usb_id s)
      then (InvalidArgument, t)
      else (Ok, t\<lparr>rud_submissions := rud_submissions t @ [s],
              rud_callbacks := fst (map_emplace (usb_id s) (the cb) (rud_callbacks t))\<rparr>))"

definition recording_udp_cancel :: "u64 \<Rightarrow> 'cb recording_udp \<Rightarrow> status_code \<times> 'cb recording_udp" where
  "recording_udp_cancel i t = (Ok, t\<lparr>rud_callbacks := map_erase i (rud_callbacks t)\<rparr>)"

definition recording_udp_deliver :: "udp_response \<Rightarrow> 'cb recording_udp \<Rightarrow> 'cb option" where
  "recording_udp_deliver r t = map_of (rud_callbacks t) (urs_id r)"

definition recording_udp_clear :: "'cb recording_udp \<Rightarrow> 'cb recording_udp" where
  "recording_udp_clear t = t\<lparr>rud_submissions := [], rud_callbacks := []\<rparr>"

section \<open>State\<close>

record udp_work =
  uw_host :: host
  uw_port :: port
  uw_retry_count :: nat
  uw_probe_name :: string

record udp_pending =
  up_work :: udp_work
  up_submission :: udp_submission
  up_started_at :: int
  up_timer :: u64
  up_candidate_state :: "port_state option"
  up_candidate_reason :: scan_reason
  up_candidate_at :: int
  up_conflict :: bool

record ('x, 't) udp_env =
  ue_libc :: libc
  ue_clock :: "nat \<Rightarrow> int"
  ue_supports :: "'t \<Rightarrow> bool"
  ue_submit :: "udp_submission \<Rightarrow> 'x sched_callback engine \<times> 't \<Rightarrow>
    status_code \<times> udp_response option \<times> 'x sched_callback engine \<times> 't"
  ue_cancel :: "u64 \<Rightarrow> 'x sched_callback engine \<times> 't \<Rightarrow> 'x sched_callback engine \<times> 't"
  ue_event :: "'x \<Rightarrow> 'x sched_callback engine \<times> 't \<Rightarrow>
    udp_response list \<times> 'x sched_callback engine \<times> 't"

record ('x, 't) udp_scheduler =
  us_engine :: "'x sched_callback engine"
  us_transport :: 't
  us_reads :: nat
  us_database :: udp_database
  us_config :: port_scan_config
  us_timing :: "timing_controller option"
  us_queue :: "udp_work list"
  us_pending :: "(u64 \<times> udp_pending) list"
  us_source_ports :: "nat \<Rightarrow> bool"
  us_results :: "port_result list"
  us_results_sorted :: bool
  us_next_id :: u64
  us_next_source_port :: u16
  us_status :: status_code
  us_submitted :: bool

definition new_udp_scheduler ::
  "'x sched_callback engine \<Rightarrow> 't \<Rightarrow> udp_database \<Rightarrow> port_scan_config \<Rightarrow> ('x, 't) udp_scheduler" where
  "new_udp_scheduler e t db cfg =
     \<lparr>us_engine = e, us_transport = t, us_reads = 0, us_database = db, us_config = cfg,
      us_timing = (if cfg_adaptive_timing cfg then Some (new_timing_controller (cfg_timing_profile cfg)) else None),
      us_queue = [], us_pending = [], us_source_ports = (\<lambda>_. False), us_results = [], us_results_sorted = True,
      us_next_id = 1, us_next_source_port = 40000, us_status = Ok, us_submitted = False\<rparr>"

section \<open>Clock, timers, transport, results\<close>

definition udp_now :: "('x, 't) udp_env \<Rightarrow> ('x, 't) udp_scheduler \<Rightarrow> int \<times> ('x, 't) udp_scheduler" where
  "udp_now env s = (ue_clock env (us_reads s), s\<lparr>us_reads := Suc (us_reads s)\<rparr>)"

definition udp_schedule ::
  "('x, 't) udp_env \<Rightarrow> int \<Rightarrow> 'x sched_callback \<Rightarrow> ('x, 't) udp_scheduler \<Rightarrow> u64 \<times> ('x, 't) udp_scheduler" where
  "udp_schedule env delay cb s =
     (case udp_now env s of (now, s1) \<Rightarrow>
       case engine_schedule now (delay * ns_per_ms) cb (us_engine s1) of (tid, e) \<Rightarrow>
         (tid, s1\<lparr>us_engine := e\<rparr>))"

definition udp_cancel_timer :: "u64 \<Rightarrow> ('x, 't) udp_scheduler \<Rightarrow> ('x, 't) udp_scheduler" where
  "udp_cancel_timer tid s = s\<lparr>us_engine := engine_cancel tid (us_engine s)\<rparr>"

definition udp_cancel_probe :: "('x, 't) udp_env \<Rightarrow> u64 \<Rightarrow> ('x, 't) udp_scheduler \<Rightarrow> ('x, 't) udp_scheduler" where
  "udp_cancel_probe env i s =
     (case ue_cancel env i (us_engine s, us_transport s) of (e, t) \<Rightarrow> s\<lparr>us_engine := e, us_transport := t\<rparr>)"

definition udp_update_timing ::
  "(timing_controller \<Rightarrow> timing_controller) \<Rightarrow> ('x, 't) udp_scheduler \<Rightarrow> ('x, 't) udp_scheduler" where
  "udp_update_timing f s = s\<lparr>us_timing := map_option f (us_timing s)\<rparr>"

definition make_udp_result ::
  "host \<Rightarrow> port \<Rightarrow> nat \<Rightarrow> string \<Rightarrow> port_state \<Rightarrow> scan_reason \<Rightarrow> rat option \<Rightarrow> int \<Rightarrow> port_result" where
  "make_udp_result h p retries name st rs rtt now =
     \<lparr>res_target = h_address h, res_port = p, res_state = st, res_probe = UdpProbe, res_reason = rs,
      res_rtt_ms = rtt, res_timestamp = now, res_retry_count = retries, res_probe_name = Some name\<rparr>"

definition udp_append_result ::
  "('x, 't) udp_env \<Rightarrow> udp_work \<Rightarrow> port_state \<Rightarrow> scan_reason \<Rightarrow> rat option \<Rightarrow>
     ('x, 't) udp_scheduler \<Rightarrow> ('x, 't) udp_scheduler" where
  "udp_append_result env w st rs rtt s =
     (case udp_now env s of (now, s1) \<Rightarrow>
       s1\<lparr>us_results := us_results s1 @
            [make_udp_result (uw_host w) (uw_port w) (uw_retry_count w) (uw_probe_name w) st rs rtt now],
          us_results_sorted := False\<rparr>)"

definition udp_result_less :: "port_result \<Rightarrow> port_result \<Rightarrow> bool" where
  "udp_result_less l r =
     (if res_target l \<noteq> res_target r then lex_less (res_target l) (res_target r)
      else if port_number (res_port l) \<noteq> port_number (res_port r)
        then port_number (res_port l) < port_number (res_port r)
      else protocol_index (port_protocol (res_port l)) < protocol_index (port_protocol (res_port r)))"

definition udp_sort_results :: "('x, 't) udp_scheduler \<Rightarrow> ('x, 't) udp_scheduler" where
  "udp_sort_results s =
     (if us_results_sorted s then s
      else s\<lparr>us_results := sort_by udp_result_less (us_results s), us_results_sorted := True\<rparr>)"

definition udp_scheduler_results :: "('x, 't) udp_scheduler \<Rightarrow> port_result list \<times> ('x, 't) udp_scheduler" where
  "udp_scheduler_results s = (us_results (udp_sort_results s), udp_sort_results s)"

definition udp_complete :: "('x, 't) udp_scheduler \<Rightarrow> bool" where
  "udp_complete s \<longleftrightarrow> us_submitted s \<and> us_queue s = [] \<and> us_pending s = []"

definition udp_stop_if_idle :: "('x, 't) udp_scheduler \<Rightarrow> ('x, 't) udp_scheduler" where
  "udp_stop_if_idle s =
     (if us_submitted s \<and> us_queue s = [] \<and> us_pending s = []
      then s\<lparr>us_engine := engine_stop (us_engine s)\<rparr> else s)"

section \<open>Source ports\<close>

text \<open>
  \<open>allocate_source_port\<close>: at most one turn per port of the range 40000..60000, from the port
  after the last one handed out.
\<close>

fun allocate_loop :: "nat \<Rightarrow> (nat \<Rightarrow> bool) \<Rightarrow> u16 \<Rightarrow> u16 option \<times> u16" where
  "allocate_loop attempts used next_port =
     (if attempts = 0 then (None, next_port)
      else
        let candidate = (if next_port < 40000 \<or> next_port > 60000 then 40000 else next_port);
            next1 = (if candidate = 60000 then 40000 else candidate + 1)
        in if \<not> used (unat candidate - 40000) then (Some candidate, next1)
           else allocate_loop (attempts - 1) used next1)"

declare allocate_loop.simps [simp del]

definition allocate_source_port :: "('x, 't) udp_scheduler \<Rightarrow> u16 option \<times> ('x, 't) udp_scheduler" where
  "allocate_source_port s =
     (case allocate_loop 20001 (us_source_ports s) (us_next_source_port s) of
        (None, next1) \<Rightarrow> (None, s\<lparr>us_next_source_port := next1\<rparr>)
      | (Some p, next1) \<Rightarrow>
          (Some p, s\<lparr>us_next_source_port := next1,
             us_source_ports := (us_source_ports s)(unat p - 40000 := True)\<rparr>))"

definition release_source_port :: "u16 \<Rightarrow> ('x, 't) udp_scheduler \<Rightarrow> ('x, 't) udp_scheduler" where
  "release_source_port p s =
     (if 40000 \<le> p \<and> p \<le> 60000
      then s\<lparr>us_source_ports := (us_source_ports s)(unat p - 40000 := False)\<rparr> else s)"

section \<open>The end of a probe\<close>

type_synonym ('x, 't) udp_pump = "('x, 't) udp_scheduler \<Rightarrow> ('x, 't) udp_scheduler option"

definition udp_max_retries :: "('x, 't) udp_scheduler \<Rightarrow> nat" where
  "udp_max_retries s =
     (case us_timing s of None \<Rightarrow> cfg_retries (us_config s) | Some t \<Rightarrow> tp_max_retries (tc_profile t))"

definition udp_set_parallelism :: "('x, 't) udp_scheduler \<Rightarrow> ('x, 't) udp_scheduler" where
  "udp_set_parallelism s =
     (let n = length (us_pending s) in udp_update_timing (tc_update_metrics (set_parallelism n n)) s)"

definition udp_answered :: "rat \<Rightarrow> ('x, 't) udp_scheduler \<Rightarrow> ('x, 't) udp_scheduler" where
  "udp_answered rtt s = udp_set_parallelism (udp_update_timing (tc_on_response (truncate_rat rtt)) s)"

definition udp_erase_pending :: "u64 \<Rightarrow> ('x, 't) udp_scheduler \<Rightarrow> ('x, 't) udp_scheduler" where
  "udp_erase_pending i s = s\<lparr>us_pending := map_erase i (us_pending s)\<rparr>"

definition udp_completed ::
  "('x, 't) udp_env \<Rightarrow> u64 \<Rightarrow> udp_pending \<Rightarrow> port_state \<Rightarrow> scan_reason \<Rightarrow> int \<Rightarrow>
     ('x, 't) udp_scheduler \<Rightarrow> ('x, 't) udp_scheduler" where
  "udp_completed env i p st rs completed_at s =
     (let s1 = udp_erase_pending i (release_source_port (usb_source_port (up_submission p))
                 (udp_cancel_probe env i (udp_cancel_timer (up_timer p) s)));
          rtt = rtt_between (up_started_at p) completed_at
      in udp_answered rtt (udp_append_result env (up_work p) st rs (Some rtt) s1))"

definition udp_complete_pending ::
  "('x, 't) udp_pump \<Rightarrow> ('x, 't) udp_env \<Rightarrow> u64 \<Rightarrow> port_state \<Rightarrow> scan_reason \<Rightarrow> int \<Rightarrow> ('x, 't) udp_pump" where
  "udp_complete_pending k env i st rs completed_at s =
     (case map_of (us_pending s) i of
        None \<Rightarrow> Some s
      | Some p \<Rightarrow> k (udp_completed env i p st rs completed_at s))"

text \<open>What \<open>on_timeout\<close> does with the probe before the \<open>pump\<close> every branch ends with.\<close>

definition udp_retry :: "udp_work \<Rightarrow> ('x, 't) udp_scheduler \<Rightarrow> ('x, 't) udp_scheduler" where
  "udp_retry w s =
     udp_set_parallelism
       (udp_update_timing (tc_update_metrics (\<lambda>m. m\<lparr>mt_retry_count := incr_size (mt_retry_count m)\<rparr>))
         (s\<lparr>us_queue := w\<lparr>uw_retry_count := Suc (uw_retry_count w)\<rparr> # us_queue s\<rparr>))"

definition udp_timed_out ::
  "('x, 't) udp_env \<Rightarrow> u64 \<Rightarrow> udp_pending \<Rightarrow> ('x, 't) udp_scheduler \<Rightarrow> ('x, 't) udp_scheduler" where
  "udp_timed_out env i p s =
     (let s1 = udp_erase_pending i (release_source_port (usb_source_port (up_submission p)) (udp_cancel_probe env i s)) in
      case up_candidate_state p of
        Some st \<Rightarrow>
          let rtt = rtt_between (up_started_at p) (up_candidate_at p) in
          udp_answered rtt (udp_append_result env (up_work p) st (up_candidate_reason p) (Some rtt) s1)
      | None \<Rightarrow>
          let s2 = udp_update_timing tc_on_timeout s1 in
          if uw_retry_count (up_work p) < udp_max_retries s2 then udp_retry (up_work p) s2
          else udp_append_result env (up_work p) PsOpenOrFiltered RsnUdpTimeout None (udp_set_parallelism s2))"

definition udp_on_timeout :: "('x, 't) udp_pump \<Rightarrow> ('x, 't) udp_env \<Rightarrow> u64 \<Rightarrow> ('x, 't) udp_pump" where
  "udp_on_timeout k env i s =
     (case map_of (us_pending s) i of None \<Rightarrow> Some s | Some p \<Rightarrow> k (udp_timed_out env i p s))"

section \<open>Responses\<close>

text \<open>A datagram that names another source or another destination is not for this probe.\<close>

definition udp_foreign :: "ip_address \<Rightarrow> udp_response \<Rightarrow> udp_pending \<Rightarrow> bool" where
  "udp_foreign a r p \<longleftrightarrow>
     urs_kind r = UdpDatagram \<and>
     ((ip_valid (urs_source_ip r) \<and> urs_source_ip r \<noteq> a) \<or>
      (\<not> ip_valid (urs_source_ip r) \<and> is_ipv4 a \<and> urs_source_ipv4 r \<noteq> 0 \<and> urs_source_ipv4 r \<noteq> ipv4_value a) \<or>
      (\<not> ip_valid (urs_source_ip r) \<and> is_ipv6 a \<and> urs_source_address r \<noteq> [] \<and>
        urs_source_address r \<noteq> h_address (uw_host (up_work p))) \<or>
      (urs_source_port r \<noteq> 0 \<and> urs_source_port r \<noteq> port_number (uw_port (up_work p))) \<or>
      (urs_destination_port r \<noteq> 0 \<and> urs_destination_port r \<noteq> usb_source_port (up_submission p)))"

definition udp_assess ::
  "udp_database \<Rightarrow> udp_response \<Rightarrow> udp_pending \<Rightarrow> (port_state \<times> scan_reason) option" where
  "udp_assess db r p =
     (case urs_kind r of
        UdpDatagram \<Rightarrow>
          (case udp_parse (urs_bytes r) of
             Parsed d \<Rightarrow>
               if length (urs_bytes r) > usb_max_response_bytes (up_submission p)
                 \<or> length (urs_bytes r) > ud_max_response (udp_for_port db (port_number (uw_port (up_work p))))
                 \<or> udp_source_port d \<noteq> port_number (uw_port (up_work p))
                 \<or> udp_destination_port d \<noteq> usb_source_port (up_submission p)
               then None else Some (PsOpen, RsnUdpResponse)
           | _ \<Rightarrow> None)
      | UdpIcmpPortUnreachable \<Rightarrow> Some (PsClosed, RsnIcmpPortUnreachable)
      | UdpIcmpAdministrativelyProhibited \<Rightarrow> Some (PsFiltered, RsnIcmpAdministrativelyProhibited)
      | UdpIcmpNetworkUnreachable \<Rightarrow> Some (PsUnreachable, RsnIcmpNetworkUnreachable)
      | UdpMalformed \<Rightarrow> None
      | UdpSocketError \<Rightarrow> Some (PsError, RsnSocketError))"

definition udp_note_evidence :: "port_state \<Rightarrow> scan_reason \<Rightarrow> int \<Rightarrow> udp_pending \<Rightarrow> udp_pending" where
  "udp_note_evidence st rs instant p =
     (case up_candidate_state p of
        None \<Rightarrow> p\<lparr>up_candidate_state := Some st, up_candidate_reason := rs, up_candidate_at := instant\<rparr>
      | Some candidate \<Rightarrow>
          if \<not> up_conflict p \<and> candidate \<noteq> st then
            p\<lparr>up_candidate_state := Some PsUnknown, up_candidate_reason := RsnConflictingEvidence,
              up_candidate_at := instant, up_conflict := True\<rparr>
          else p)"

definition udp_completed_time ::
  "('x, 't) udp_env \<Rightarrow> udp_response \<Rightarrow> ('x, 't) udp_scheduler \<Rightarrow> int \<times> ('x, 't) udp_scheduler" where
  "udp_completed_time env r s = (if urs_received_at r = 0 then udp_now env s else (urs_received_at r, s))"

definition udp_receive :: "('x, 't) udp_pump \<Rightarrow> ('x, 't) udp_env \<Rightarrow> udp_response \<Rightarrow> ('x, 't) udp_pump" where
  "udp_receive k env r s =
     (case map_of (us_pending s) (urs_id r) of
        None \<Rightarrow> Some s
      | Some p \<Rightarrow>
          (case probe_address (ue_libc env) (uw_host (up_work p)) of
             None \<Rightarrow> Some s
           | Some a \<Rightarrow>
               if udp_foreign a r p then Some s
               else (case udp_assess (us_database s) r p of
                 None \<Rightarrow> Some s
               | Some (st, rs) \<Rightarrow>
                   (case udp_completed_time env r s of
                     (completed_at, s1) \<Rightarrow>
                       if completed_at < up_started_at p then Some s1
                       else if st = PsError then udp_complete_pending k env (urs_id r) st rs completed_at s1
                       else Some (s1\<lparr>us_pending :=
                         map_put (urs_id r) (udp_note_evidence st rs completed_at p) (us_pending s1)\<rparr>)))))"

section \<open>The pump\<close>

definition udp_pump_limit :: "('x, 't) udp_scheduler \<Rightarrow> nat" where
  "udp_pump_limit s =
     (case us_timing s of
        None \<Rightarrow> cfg_max_outstanding (us_config s)
      | Some t \<Rightarrow> tc_parallelism_limit (cfg_max_outstanding (us_config s)) t)"

definition udp_probe_timeout :: "('x, 't) udp_scheduler \<Rightarrow> int" where
  "udp_probe_timeout s = (case us_timing s of None \<Rightarrow> cfg_timeout (us_config s) | Some t \<Rightarrow> tc_timeout t)"

text \<open>The packet of a probe, from the unspecified source address.\<close>

definition udp_probe_packet :: "u16 \<Rightarrow> u16 \<Rightarrow> ip_address \<Rightarrow> bytes \<Rightarrow> packet" where
  "udp_probe_packet source port a payload =
     (let u = \<lparr>udp_source_port = source, udp_destination_port = port, udp_checksum = 0, udp_payload = payload\<rparr>
      in set_udp u
        (if is_ipv4 a then
           set_ipv4 (new_ipv4\<lparr>ip4_protocol := 17, ip4_source_address := 0,
             ip4_destination_address := ipv4_value a\<rparr>) new_packet
         else
           set_ipv6 (new_ipv6\<lparr>ip6_next_header := 17, ip6_source_address := replicate 16 0,
             ip6_destination_address := ip_bytes a\<rparr>) new_packet))"

definition udp_new_submission ::
  "u64 \<Rightarrow> udp_work \<Rightarrow> ip_address \<Rightarrow> u16 \<Rightarrow> bytes \<Rightarrow> udp_definition \<Rightarrow> udp_submission" where
  "udp_new_submission i w a source pkt d =
     \<lparr>usb_id = i, usb_target = h_address (uw_host w), usb_port = uw_port w, usb_source_ipv4 = 0,
      usb_destination_ipv4 = (if is_ipv4 a then ipv4_value a else 0), usb_source_port = source,
      usb_packet = pkt, usb_payload = ud_payload d, usb_probe_name = ud_name d,
      usb_max_response_bytes = ud_max_response d, usb_source_ip = default_ip, usb_destination_ip = a\<rparr>"

datatype ('x, 't) udp_turn =
  UdpBreaks "('x, 't) udp_scheduler"
| UdpSubmitted "udp_response option" "('x, 't) udp_scheduler"

text \<open>A probe that cannot be started: its source port is released and the scan fails.\<close>

definition udp_refuse ::
  "('x, 't) udp_env \<Rightarrow> udp_work \<Rightarrow> u16 \<Rightarrow> scan_reason \<Rightarrow> status_code \<Rightarrow> ('x, 't) udp_scheduler \<Rightarrow> ('x, 't) udp_scheduler" where
  "udp_refuse env w source rs st s =
     (udp_append_result env w PsError rs None (release_source_port source s))\<lparr>us_status := st\<rparr>"

definition udp_launch ::
  "('x, 't) udp_env \<Rightarrow> udp_work \<Rightarrow> udp_submission \<Rightarrow> ('x, 't) udp_scheduler \<Rightarrow> ('x, 't) udp_turn" where
  "udp_launch env w sub s =
     (case udp_now env s of (started, s1) \<Rightarrow>
       case udp_schedule env (udp_probe_timeout s1) (OnTimeout (usb_id sub)) s1 of (tid, s2) \<Rightarrow>
         if tid = 0 then UdpBreaks (udp_refuse env w (usb_source_port sub) RsnInternalError InternalError s2)
         else
           let p = \<lparr>up_work = w, up_submission = sub, up_started_at = started, up_timer = tid,
                 up_candidate_state = None, up_candidate_reason = RsnInternalError, up_candidate_at = 0,
                 up_conflict = False\<rparr> in
           case map_emplace (usb_id sub) p (us_pending s2) of (m, inserted) \<Rightarrow>
             if \<not> inserted then
               UdpBreaks (udp_refuse env w (usb_source_port sub) RsnInternalError InternalError (udp_cancel_timer tid s2))
             else
               let s3 = s2\<lparr>us_pending := m\<rparr> in
               (case ue_submit env sub (us_engine s3, us_transport s3) of (st, answer, e, t) \<Rightarrow>
                 let s4 = s3\<lparr>us_engine := e, us_transport := t\<rparr> in
                 if st = Ok then UdpSubmitted answer s4
                 else UdpBreaks
                   (udp_refuse env w (usb_source_port sub)
                      (if st = PermissionDenied then RsnCapabilityUnavailable else RsnInternalError) st
                      (udp_erase_pending (usb_id sub) (udp_cancel_timer tid s4)))))"

definition udp_pump_turn :: "('x, 't) udp_env \<Rightarrow> ('x, 't) udp_scheduler \<Rightarrow> ('x, 't) udp_turn" where
  "udp_pump_turn env s =
     (case us_queue s of
        [] \<Rightarrow> UdpBreaks s
      | w # rest \<Rightarrow>
          (case allocate_source_port (s\<lparr>us_queue := rest\<rparr>) of
             (None, s1) \<Rightarrow>
               UdpBreaks ((udp_append_result env w PsError RsnInternalError None s1)\<lparr>us_status := ResourceExhausted\<rparr>)
           | (Some source, s1) \<Rightarrow>
               (case probe_address (ue_libc env) (uw_host w) of
                  None \<Rightarrow> UdpBreaks (udp_refuse env w source RsnInvalidTarget InvalidArgument s1)
                | Some a \<Rightarrow>
                    let d = udp_for_port (us_database s1) (port_number (uw_port w));
                        pkt = packet_bytes (udp_probe_packet source (port_number (uw_port w)) a (ud_payload d))
                    in if pkt = [] then UdpBreaks (udp_refuse env w source RsnInternalError InternalError s1)
                       else udp_launch env w (udp_new_submission (us_next_id s1) w a source pkt d)
                              (s1\<lparr>us_next_id := us_next_id s1 + 1\<rparr>))))"

definition udp_timing_submitted :: "('x, 't) udp_scheduler \<Rightarrow> ('x, 't) udp_scheduler" where
  "udp_timing_submitted s = udp_update_timing (tc_on_submitted (length (us_pending s))) s"

fun udp_pump_loop :: "('x, 't) udp_env \<Rightarrow> nat \<Rightarrow> nat \<Rightarrow> nat \<Rightarrow> ('x, 't) udp_pump" where
  "udp_pump_loop env limit depth turns s =
     (if us_status s = Ok \<and> us_queue s \<noteq> [] \<and> length (us_pending s) < limit then
        (case turns of
           0 \<Rightarrow> None
         | Suc turns' \<Rightarrow>
             (case udp_pump_turn env s of
                UdpBreaks s1 \<Rightarrow> Some (udp_stop_if_idle s1)
              | UdpSubmitted None s1 \<Rightarrow> udp_pump_loop env limit depth turns' (udp_timing_submitted s1)
              | UdpSubmitted (Some r) s1 \<Rightarrow>
                  (case depth of
                     0 \<Rightarrow> None
                   | Suc depth' \<Rightarrow>
                       (case udp_receive (\<lambda>s'. udp_pump_loop env (udp_pump_limit s') depth' turns' s') env r s1 of
                          None \<Rightarrow> None
                        | Some s2 \<Rightarrow> udp_pump_loop env limit depth turns' (udp_timing_submitted s2)))))
      else Some (udp_stop_if_idle s))"

declare udp_pump_loop.simps [simp del]

definition udp_pump :: "('x, 't) udp_env \<Rightarrow> ('x, 't) udp_pump" where
  "udp_pump env s = udp_pump_loop env (udp_pump_limit s) (length (us_queue s)) (length (us_queue s)) s"

section \<open>The public operations\<close>

definition udp_validate_config :: "('x, 't) udp_env \<Rightarrow> ('x, 't) udp_scheduler \<Rightarrow> status_code" where
  "udp_validate_config env s =
     (let supported = ue_supports env (us_transport s) in
      if eng_init_status (us_engine s) \<noteq> Ok then eng_init_status (us_engine s)
      else if \<not> supported \<or> cfg_timeout (us_config s) \<le> 0 \<or> cfg_max_outstanding (us_config s) = 0
        \<or> (case us_timing s of None \<Rightarrow> False | Some t \<Rightarrow> tc_validate t \<noteq> Ok)
      then (if \<not> supported then PermissionDenied else InvalidArgument)
      else Ok)"

definition udp_new_work :: "udp_database \<Rightarrow> host \<Rightarrow> port \<Rightarrow> udp_work" where
  "udp_new_work db h p = \<lparr>uw_host = h, uw_port = p, uw_retry_count = 0,
     uw_probe_name = ud_name (udp_for_port db (port_number p))\<rparr>"

definition udp_enqueue_host ::
  "('x, 't) udp_env \<Rightarrow> port list \<Rightarrow> host \<Rightarrow> ('x, 't) udp_scheduler \<Rightarrow> ('x, 't) udp_scheduler" where
  "udp_enqueue_host env ports h s =
     (if probe_address (ue_libc env) h = None then
        (fold (\<lambda>p. udp_append_result env \<lparr>uw_host = h, uw_port = p, uw_retry_count = 0, uw_probe_name = []\<rparr>
            PsError RsnInvalidTarget None) ports s)\<lparr>us_status := InvalidArgument\<rparr>
      else s\<lparr>us_queue := us_queue s @ map (udp_new_work (us_database s) h) ports\<rparr>)"

definition udp_submit :: "('x, 't) udp_env \<Rightarrow> target \<Rightarrow> port list \<Rightarrow> ('x, 't) udp_scheduler \<Rightarrow>
    (status_code \<times> ('x, 't) udp_scheduler) option" where
  "udp_submit env target ports s =
     (if us_submitted s then Some (InvalidArgument, s)
      else
        let cs = udp_validate_config env s in
        if cs \<noteq> Ok then Some (cs, s\<lparr>us_status := cs\<rparr>)
        else if resolved_hosts target = [] \<or> ports = []
          \<or> (\<exists>p\<in>set ports. port_protocol p \<noteq> Udp \<or> port_number p = 0)
        then Some (InvalidArgument, s\<lparr>us_status := InvalidArgument\<rparr>)
        else
          let s1 = fold (udp_enqueue_host env ports) (resolved_hosts target) (s\<lparr>us_submitted := True\<rparr>) in
          (case (if us_status s1 = Ok then udp_pump env s1 else Some (s1\<lparr>us_queue := []\<rparr>)) of
             None \<Rightarrow> None
           | Some s2 \<Rightarrow> let s3 = udp_stop_if_idle s2 in Some (us_status s3, s3)))"

definition udp_submit_default :: "('x, 't) udp_env \<Rightarrow> target \<Rightarrow> ('x, 't) udp_scheduler \<Rightarrow>
    (status_code \<times> ('x, 't) udp_scheduler) option" where
  "udp_submit_default env target s = udp_submit env target default_udp_ports s"

text \<open>The destructor.\<close>

definition udp_destroy :: "('x, 't) udp_env \<Rightarrow> ('x, 't) udp_scheduler \<Rightarrow> ('x, 't) udp_scheduler" where
  "udp_destroy env s =
     (fold (\<lambda>(i, p) s. release_source_port (usb_source_port (up_submission p))
        (udp_cancel_probe env i (udp_cancel_timer (up_timer p) s))) (us_pending s) s)
       \<lparr>us_pending := [], us_queue := [], us_source_ports := (\<lambda>_. False)\<rparr>"

section \<open>The scheduler on the reactor\<close>

text \<open>
  What the engine's call of a callback does; the handlers are total, so \<open>the\<close> never meets
  \<open>None\<close>. The scheduler has no deferred retries: \<open>OnRetryReady\<close> is the TCP scheduler's.
\<close>

fun udp_handle :: "('x, 't) udp_env \<Rightarrow> 'x sched_callback \<Rightarrow> ('x, 't) udp_scheduler \<Rightarrow> ('x, 't) udp_scheduler" where
  "udp_handle env (OnTimeout i) s = the (udp_on_timeout (udp_pump env) env i s)"
| "udp_handle env (OnRetryReady i) s = s"
| "udp_handle env (TransportEvent x) s =
     (case ue_event env x (us_engine s, us_transport s) of (answers, e, t) \<Rightarrow>
       fold (\<lambda>r s. the (udp_receive (udp_pump env) env r s)) answers (s\<lparr>us_engine := e, us_transport := t\<rparr>))"

definition udp_embedding :: "('x, 't) udp_env \<Rightarrow> (('x, 't) udp_scheduler, 'x sched_callback) embedding" where
  "udp_embedding env =
     \<lparr>get_engine = us_engine, put_engine = (\<lambda>e s. s\<lparr>us_engine := e\<rparr>), read_clock = udp_now env,
      call = udp_handle env\<rparr>"

interpretation udp_host: engine_host "udp_embedding env" for env
  by unfold_locales (simp_all add: udp_embedding_def udp_now_def)

definition udp_note_status :: "status_code \<Rightarrow> ('x, 't) udp_scheduler \<Rightarrow> status_code \<times> ('x, 't) udp_scheduler" where
  "udp_note_status st s =
     (let s1 = (if us_status s = Ok \<and> st \<noteq> Ok then s\<lparr>us_status := st\<rparr> else s) in (us_status s1, s1))"

definition udp_run ::
  "('x, 't) udp_env \<Rightarrow> poll list \<Rightarrow> ('x, 't) udp_scheduler \<Rightarrow> (status_code \<times> ('x, 't) udp_scheduler) option" where
  "udp_run env polls s =
     (if \<not> us_submitted s then Some (InvalidArgument, s)
      else map_option (\<lambda>(st, s1). udp_note_status st s1) (engine_run (udp_embedding env) polls s))"

definition udp_run_once ::
  "('x, 't) udp_env \<Rightarrow> poll \<Rightarrow> ('x, 't) udp_scheduler \<Rightarrow> (status_code \<times> ('x, 't) udp_scheduler) option" where
  "udp_run_once env p s =
     (if \<not> us_submitted s then Some (InvalidArgument, s)
      else map_option (\<lambda>(st, s1). udp_note_status st s1) (engine_run_once (udp_embedding env) p s))"

end
