(* ===== verification/Udp_Scheduler_Inv.thy ===== *)
theory Udp_Scheduler_Inv
  imports Udp_Scheduler Engine_Runs
begin

text \<open>
  Invariants of the UDP scheduler: source ports, the packet of a probe, the steps of a scan, and
  the locale \<open>udp_invariant\<close>, interpreted on the books of a scan (ledger, shape of results and
  work, source ports, potential).
\<close>

section \<open>Source ports\<close>

definition in_port_range :: "u16 \<Rightarrow> bool" where
  "in_port_range p \<longleftrightarrow> 40000 \<le> p \<and> p \<le> 60000"

lemma in_port_range_unat: "in_port_range p \<longleftrightarrow> 40000 \<le> unat p \<and> unat p \<le> 60000"
  by (simp add: in_port_range_def word_le_nat_alt)

lemma port_index_inj:
  assumes "in_port_range p" "in_port_range q" "unat p - 40000 = unat q - 40000"
  shows "p = q"
proof -
  have "unat p = unat q" using assms unfolding in_port_range_unat by arith
  then show ?thesis by (rule word_unat_eq_iff [THEN iffD2])
qed

definition port_candidate :: "u16 \<Rightarrow> u16" where
  "port_candidate n = (if n < 40000 \<or> n > 60000 then 40000 else n)"

definition port_after :: "u16 \<Rightarrow> u16" where
  "port_after c = (if c = 60000 then 40000 else c + 1)"

lemma allocate_loop_step:
  "allocate_loop 0 used n = (None, n)"
  "allocate_loop (Suc k) used n =
     (if \<not> used (unat (port_candidate n) - 40000) then (Some (port_candidate n), port_after (port_candidate n))
      else allocate_loop k used (port_after (port_candidate n)))"
  by (simp_all add: allocate_loop.simps [of 0] allocate_loop.simps [of "Suc k"] port_candidate_def port_after_def Let_def)

lemma port_candidate_range [simp]: "in_port_range (port_candidate n)"
  by (auto simp: port_candidate_def in_port_range_def)

lemma port_after_range: "in_port_range c \<Longrightarrow> in_port_range (port_after c)"
proof (cases "c = 60000")
  case False
  assume c: "in_port_range c"
  with False have "unat c < 60000"
    using word_unat_eq_iff [of c 60000] by (simp add: in_port_range_unat)
  then have "unat (c + 1) = Suc (unat c)" by (simp add: unat_word_ariths)
  then show ?thesis using False c \<open>unat c < 60000\<close> by (simp add: port_after_def in_port_range_unat)
qed (simp add: port_after_def in_port_range_def)

lemma port_candidate_id: "in_port_range n \<Longrightarrow> port_candidate n = n"
  by (auto simp: port_candidate_def in_port_range_def)

lemma port_after_index:
  assumes "in_port_range c"
  shows "unat (port_after c) - 40000 = (unat c - 40000 + 1) mod 20001"
proof (cases "c = 60000")
  case True
  then show ?thesis by (simp add: port_after_def)
next
  case False
  then have c: "unat c < 60000" "40000 \<le> unat c" using assms word_unat_eq_iff [of c 60000] by (auto simp: in_port_range_unat)
  then have "unat (c + 1) = Suc (unat c)" by (simp add: unat_word_ariths)
  then show ?thesis using False c by (simp add: port_after_def)
qed

lemma allocate_loop_Some:
  "allocate_loop k used n = (Some p, n') \<Longrightarrow> in_port_range p \<and> \<not> used (unat p - 40000)"
  by (induction k arbitrary: n) (auto simp: allocate_loop_step split: if_splits)

lemma allocate_loop_None:
  "allocate_loop k used n = (None, n') \<Longrightarrow> j < k \<Longrightarrow> used ((unat (port_candidate n) - 40000 + j) mod 20001)"
proof (induction k arbitrary: n j)
  case (Suc k)
  let ?c = "port_candidate n"
  have used: "used (unat ?c - 40000)" and rest: "allocate_loop k used (port_after ?c) = (None, n')"
    using Suc.prems(1) by (simp_all add: allocate_loop_step split: if_splits)
  show ?case
  proof (cases j)
    case 0
    have "unat ?c - 40000 < 20001" using port_candidate_range [of n] unfolding in_port_range_unat by arith
    then show ?thesis using used 0 by simp
  next
    case (Suc j')
    have "used ((unat (port_candidate (port_after ?c)) - 40000 + j') mod 20001)"
      using Suc.IH [OF rest] Suc.prems(2) Suc by simp
    moreover have "port_candidate (port_after ?c) = port_after ?c"
      by (rule port_candidate_id [OF port_after_range [OF port_candidate_range]])
    ultimately show ?thesis
      using port_after_index [OF port_candidate_range, of n] Suc by (simp add: mod_simps)
  qed
qed (simp add: allocate_loop_step)

lemma allocate_exhausted:
  assumes "allocate_source_port s = (None, s')" and "k < 20001"
  shows "us_source_ports s k"
proof -
  obtain n' where none: "allocate_loop 20001 (us_source_ports s) (us_next_source_port s) = (None, n')"
    using assms(1) by (auto simp: allocate_source_port_def split: prod.splits option.splits)
  let ?i = "unat (port_candidate (us_next_source_port s)) - 40000"
  let ?j = "(k + (20001 - ?i)) mod 20001"
  have i: "?i < 20001" using port_candidate_range [of "us_next_source_port s"] unfolding in_port_range_unat by arith
  have "us_source_ports s ((?i + ?j) mod 20001)" by (rule allocate_loop_None [OF none]) simp
  moreover have "(?i + ?j) mod 20001 = (?i + (k + (20001 - ?i))) mod 20001" by (simp add: mod_simps)
  then have "(?i + ?j) mod 20001 = k" using i assms(2) by simp
  ultimately show ?thesis by simp
qed

lemma allocate_source_portE:
  obtains (none) n where "allocate_source_port s = (None, s\<lparr>us_next_source_port := n\<rparr>)"
    and "\<And>k. k < 20001 \<Longrightarrow> us_source_ports s k"
  | (some) p n where "allocate_source_port s = (Some p, s\<lparr>us_next_source_port := n,
      us_source_ports := (us_source_ports s)(unat p - 40000 := True)\<rparr>)"
    and "in_port_range p" and "\<not> us_source_ports s (unat p - 40000)"
proof -
  obtain r n where l: "allocate_loop 20001 (us_source_ports s) (us_next_source_port s) = (r, n)" by fastforce
  show thesis
  proof (cases r)
    case None
    then have eq: "allocate_source_port s = (None, s\<lparr>us_next_source_port := n\<rparr>)"
      using l by (simp add: allocate_source_port_def)
    show ?thesis by (rule none [OF eq]) (rule allocate_exhausted [OF eq])
  next
    case (Some p)
    then show ?thesis using l allocate_loop_Some [of 20001 _ _ p n]
      by (intro some [of p n]) (auto simp: allocate_source_port_def)
  qed
qed

section \<open>The packet of a probe\<close>

lemmas probe_packet_simps = udp_probe_packet_def set_udp_def set_ipv4_def set_ipv6_def new_packet_def Let_def
  new_ipv4_def new_ipv6_def

lemma udp_probe_packet_bytes:
  assumes "length payload \<le> 512" and "is_ipv4 a \<or> length (ip_bytes a) = 16"
  shows "packet_bytes (udp_probe_packet source port a payload) = packet_wire (udp_probe_packet source port a payload)"
    and "packet_bytes (udp_probe_packet source port a payload) \<noteq> []"
proof -
  let ?p = "udp_probe_packet source port a payload" and ?n = "packet_serialized_size (udp_probe_packet source port a payload)"
  have w: "packet_wf ?p"
    using assms(2) by (auto simp: probe_packet_simps packet_wf_def ip6_wf_def)
  have v: "packet_validate ?p"
    using assms(1) by (simp add: probe_packet_simps packet_validate_def udp_validate_def udp_serialized_size_def
      ip4_validate_def ip6_validate_def ip4_serialized_size_def)
  have f: "packet_length_fits ?p"
    using assms(1) by (simp add: probe_packet_simps packet_length_fits_def packet_transport_size_def udp_serialized_size_def)
  have s: "packet_serialize ?p (replicate ?n 0) = (Ok, packet_wire ?p)"
    using packet_serialize_wire [OF v w f, of "replicate ?n 0"] by simp
  then show eq: "packet_bytes ?p = packet_wire ?p"
    by (simp add: packet_bytes_def element_bytes_def)
  have "transport_wire ?p \<noteq> []"
    by (simp add: probe_packet_simps transport_wire_def udp_wire_def)
  then show "packet_bytes ?p \<noteq> []" unfolding eq packet_wire_def by simp
qed

section \<open>What the atomic steps change\<close>

lemma udp_small_steps [simp]:
  "us_queue (udp_append_result env w st rs rtt s) = us_queue s"
  "us_pending (udp_append_result env w st rs rtt s) = us_pending s"
  "us_source_ports (udp_append_result env w st rs rtt s) = us_source_ports s"
  "us_engine (udp_append_result env w st rs rtt s) = us_engine s"
  "us_transport (udp_append_result env w st rs rtt s) = us_transport s"
  "us_timing (udp_append_result env w st rs rtt s) = us_timing s"
  "us_config (udp_append_result env w st rs rtt s) = us_config s"
  "us_database (udp_append_result env w st rs rtt s) = us_database s"
  "us_status (udp_append_result env w st rs rtt s) = us_status s"
  "us_submitted (udp_append_result env w st rs rtt s) = us_submitted s"
  by (simp_all add: udp_append_result_def udp_now_def)

lemma udp_timing_fields [simp]:
  "us_queue (udp_update_timing f s) = us_queue s" "us_pending (udp_update_timing f s) = us_pending s"
  "us_source_ports (udp_update_timing f s) = us_source_ports s" "us_results (udp_update_timing f s) = us_results s"
  "us_engine (udp_update_timing f s) = us_engine s" "us_transport (udp_update_timing f s) = us_transport s"
  "us_config (udp_update_timing f s) = us_config s" "us_database (udp_update_timing f s) = us_database s"
  "us_status (udp_update_timing f s) = us_status s" "us_submitted (udp_update_timing f s) = us_submitted s"
  "us_timing (udp_update_timing f s) = map_option f (us_timing s)"
  by (simp_all add: udp_update_timing_def)

lemma udp_cancel_fields [simp]:
  "us_queue (udp_cancel_probe env i s) = us_queue s" "us_pending (udp_cancel_probe env i s) = us_pending s"
  "us_source_ports (udp_cancel_probe env i s) = us_source_ports s" "us_results (udp_cancel_probe env i s) = us_results s"
  "us_config (udp_cancel_probe env i s) = us_config s" "us_database (udp_cancel_probe env i s) = us_database s"
  "us_status (udp_cancel_probe env i s) = us_status s" "us_submitted (udp_cancel_probe env i s) = us_submitted s"
  "us_timing (udp_cancel_probe env i s) = us_timing s"
  by (simp_all add: udp_cancel_probe_def split: prod.splits)

lemma release_fields [simp]:
  "us_queue (release_source_port p s) = us_queue s" "us_pending (release_source_port p s) = us_pending s"
  "us_results (release_source_port p s) = us_results s" "us_engine (release_source_port p s) = us_engine s"
  "us_transport (release_source_port p s) = us_transport s" "us_config (release_source_port p s) = us_config s"
  "us_database (release_source_port p s) = us_database s" "us_status (release_source_port p s) = us_status s"
  "us_submitted (release_source_port p s) = us_submitted s" "us_timing (release_source_port p s) = us_timing s"
  "us_reads (release_source_port p s) = us_reads s"
  by (simp_all add: release_source_port_def)

lemma release_ports [simp]:
  "in_port_range p \<Longrightarrow> us_source_ports (release_source_port p s) = (us_source_ports s)(unat p - 40000 := False)"
  by (simp add: release_source_port_def in_port_range_def)

definition udp_result_of :: "udp_work \<Rightarrow> port_state \<Rightarrow> scan_reason \<Rightarrow> port_result \<Rightarrow> bool" where
  "udp_result_of w st rs r \<longleftrightarrow>
     res_target r = h_address (uw_host w) \<and> res_port r = uw_port w \<and> res_state r = st \<and> res_probe r = UdpProbe \<and>
     res_reason r = rs \<and> res_retry_count r = uw_retry_count w"

lemma udp_append_resultE:
  obtains r where "us_results (udp_append_result env w st rs rtt s) = us_results s @ [r]" and "udp_result_of w st rs r"
  using that by (force simp: udp_append_result_def udp_now_def make_udp_result_def udp_result_of_def)

text \<open>The fields no handler assigns.\<close>

definition udp_fixed :: "('x, 't) udp_scheduler \<Rightarrow> ('x, 't) udp_scheduler \<Rightarrow> bool" where
  "udp_fixed s s' \<longleftrightarrow> us_config s' = us_config s \<and> us_database s' = us_database s \<and> us_submitted s' = us_submitted s"

text \<open>
  Changes of the timing controller that keep its bounds and its profile; a probe that leaves
  flight, with its source port released.
\<close>

definition timing_change :: "(timing_controller \<Rightarrow> timing_controller) \<Rightarrow> bool" where
  "timing_change f \<longleftrightarrow> (\<forall>t. tc_inv t \<longrightarrow> tc_inv (f t)) \<and> (\<forall>t. tc_profile (f t) = tc_profile t)"

lemma timing_change_intros:
  "timing_change (tc_update_metrics m)" "timing_change (tc_on_response r)" "timing_change tc_on_timeout"
  "timing_change (tc_on_submitted n)" "timing_change f \<Longrightarrow> timing_change g \<Longrightarrow> timing_change (f \<circ> g)" "timing_change id"
  by (auto simp: timing_change_def tc_inv_metrics tc_inv_response tc_inv_timeout tc_inv_submitted)
    (simp_all add: tc_update_metrics_def tc_on_response_def tc_on_timeout_def tc_on_submitted_def Let_def)

definition udp_left ::
  "u64 \<Rightarrow> udp_pending \<Rightarrow> ('x, 't) udp_scheduler \<Rightarrow> ('x, 't) udp_scheduler \<Rightarrow> bool" where
  "udp_left i p s s' \<longleftrightarrow> udp_fixed s s' \<and> us_status s' = us_status s \<and> us_pending s' = map_erase i (us_pending s) \<and>
     us_source_ports s' = us_source_ports (release_source_port (usb_source_port (up_submission p)) s) \<and>
     (\<exists>f. timing_change f \<and> us_timing s' = map_option f (us_timing s))"

text \<open>What becomes of the work of a probe that left: a result, or another attempt.\<close>

lemma udp_answered_fields [simp]:
  "us_queue (udp_answered rtt s) = us_queue s" "us_pending (udp_answered rtt s) = us_pending s"
  "us_source_ports (udp_answered rtt s) = us_source_ports s" "us_results (udp_answered rtt s) = us_results s"
  "us_engine (udp_answered rtt s) = us_engine s" "us_status (udp_answered rtt s) = us_status s"
  "us_config (udp_answered rtt s) = us_config s" "us_database (udp_answered rtt s) = us_database s"
  "us_submitted (udp_answered rtt s) = us_submitted s"
  by (simp_all add: udp_answered_def udp_set_parallelism_def Let_def)

lemma udp_parallelism_fields [simp]:
  "us_queue (udp_set_parallelism s) = us_queue s" "us_pending (udp_set_parallelism s) = us_pending s"
  "us_source_ports (udp_set_parallelism s) = us_source_ports s" "us_results (udp_set_parallelism s) = us_results s"
  "us_engine (udp_set_parallelism s) = us_engine s" "us_status (udp_set_parallelism s) = us_status s"
  "us_config (udp_set_parallelism s) = us_config s" "us_database (udp_set_parallelism s) = us_database s"
  "us_submitted (udp_set_parallelism s) = us_submitted s"
  by (simp_all add: udp_set_parallelism_def Let_def)

lemma parallelism_timing:
  "\<exists>f. timing_change f \<and> us_timing (udp_set_parallelism s) = map_option f (us_timing s)"
  unfolding udp_set_parallelism_def Let_def
  by (rule exI [of _ "tc_update_metrics (set_parallelism (length (us_pending s)) (length (us_pending s)))"])
    (simp add: timing_change_intros)

lemma timing_change_trans:
  assumes "\<exists>f. timing_change f \<and> t' = map_option f t" and "\<exists>f. timing_change f \<and> t'' = map_option f t'"
  shows "\<exists>f. timing_change f \<and> t'' = map_option f t"
proof -
  obtain f g where "timing_change f" "t' = map_option f t" "timing_change g" "t'' = map_option g t'" using assms by blast
  then show ?thesis by (intro exI [of _ "g \<circ> f"]) (simp add: timing_change_intros option.map_comp)
qed

lemma timing_change_step: "timing_change f \<Longrightarrow> \<exists>f'. timing_change f' \<and> map_option f t = map_option f' t"
  by blast

lemma answered_timing:
  "\<exists>f. timing_change f \<and> us_timing (udp_answered rtt s) = map_option f (us_timing s)"
  unfolding udp_answered_def
  by (rule timing_change_trans [OF _ parallelism_timing]) (simp add: timing_change_step timing_change_intros)

lemma udp_completedE:
  obtains r where "udp_left i p s (udp_completed env i p st rs instant s)"
    and "us_queue (udp_completed env i p st rs instant s) = us_queue s"
    and "us_results (udp_completed env i p st rs instant s) = us_results s @ [r]"
    and "udp_result_of (up_work p) st rs r"
    and "us_engine (udp_completed env i p st rs instant s) =
      us_engine (udp_cancel_probe env i (udp_cancel_timer (up_timer p) s))"
proof -
  let ?s1 = "udp_erase_pending i (release_source_port (usb_source_port (up_submission p))
    (udp_cancel_probe env i (udp_cancel_timer (up_timer p) s)))"
  let ?rtt = "rtt_between (up_started_at p) instant"
  obtain r where r: "us_results (udp_append_result env (up_work p) st rs (Some ?rtt) ?s1) = us_results ?s1 @ [r]"
    "udp_result_of (up_work p) st rs r" by (rule udp_append_resultE)
  have t: "\<exists>f. timing_change f \<and> us_timing (udp_completed env i p st rs instant s) = map_option f (us_timing s)"
    unfolding udp_completed_def Let_def
    by (rule timing_change_trans [OF _ answered_timing])
      (simp add: udp_erase_pending_def udp_cancel_timer_def exI [of _ id] timing_change_intros option.map_id)
  show thesis
  proof (rule that [of r])
    show "udp_left i p s (udp_completed env i p st rs instant s)"
      using t unfolding udp_left_def
      by (simp add: udp_completed_def Let_def udp_erase_pending_def udp_cancel_timer_def udp_fixed_def
        release_source_port_def)
  qed (use r in \<open>simp_all add: udp_completed_def Let_def udp_erase_pending_def udp_cancel_timer_def\<close>)
qed

lemma udp_timed_outE:
  obtains (verdict) r st rs where "udp_left i p s (udp_timed_out env i p s)"
    and "us_queue (udp_timed_out env i p s) = us_queue s"
    and "us_results (udp_timed_out env i p s) = us_results s @ [r]" and "udp_result_of (up_work p) st rs r"
    and "us_engine (udp_timed_out env i p s) = us_engine (udp_cancel_probe env i s)"
    and "(up_candidate_state p = Some st \<and> up_candidate_reason p = rs) \<or>
      (up_candidate_state p = None \<and> st = PsOpenOrFiltered \<and> rs = RsnUdpTimeout \<and>
        udp_max_retries s \<le> uw_retry_count (up_work p))"
  | (retry) "udp_left i p s (udp_timed_out env i p s)"
    and "us_queue (udp_timed_out env i p s) =
      (up_work p)\<lparr>uw_retry_count := Suc (uw_retry_count (up_work p))\<rparr> # us_queue s"
    and "us_results (udp_timed_out env i p s) = us_results s"
    and "us_engine (udp_timed_out env i p s) = us_engine (udp_cancel_probe env i s)"
    and "uw_retry_count (up_work p) < udp_max_retries s"
proof -
  let ?s1 = "udp_erase_pending i (release_source_port (usb_source_port (up_submission p)) (udp_cancel_probe env i s))"
  have f1: "us_queue ?s1 = us_queue s" "us_pending ?s1 = map_erase i (us_pending s)" "us_results ?s1 = us_results s"
    "us_engine ?s1 = us_engine (udp_cancel_probe env i s)" "us_timing ?s1 = us_timing s" "udp_fixed s ?s1"
    "us_status ?s1 = us_status s"
    "us_source_ports ?s1 = us_source_ports (release_source_port (usb_source_port (up_submission p)) s)"
    by (simp_all add: udp_erase_pending_def udp_fixed_def release_source_port_def)
  have left: "udp_left i p s s'"
    if "udp_fixed ?s1 s'" "us_status s' = us_status ?s1" "us_pending s' = us_pending ?s1"
      "us_source_ports s' = us_source_ports ?s1" "\<exists>f. timing_change f \<and> us_timing s' = map_option f (us_timing ?s1)" for s'
    using that f1 by (simp add: udp_left_def udp_fixed_def)
  show thesis
  proof (cases "up_candidate_state p")
    case (Some st)
    let ?rtt = "rtt_between (up_started_at p) (up_candidate_at p)"
    have eq: "udp_timed_out env i p s =
        udp_answered ?rtt (udp_append_result env (up_work p) st (up_candidate_reason p) (Some ?rtt) ?s1)"
      using Some by (simp add: udp_timed_out_def Let_def)
    obtain r where r: "us_results (udp_append_result env (up_work p) st (up_candidate_reason p) (Some ?rtt) ?s1) =
        us_results ?s1 @ [r]" "udp_result_of (up_work p) st (up_candidate_reason p) r" by (rule udp_append_resultE)
    show ?thesis
    proof (rule verdict [of r st "up_candidate_reason p"])
      show "udp_left i p s (udp_timed_out env i p s)" unfolding eq
        using answered_timing [of ?rtt "udp_append_result env (up_work p) st (up_candidate_reason p) (Some ?rtt) ?s1"]
        by (intro left) (simp_all add: udp_fixed_def)
    qed (use r Some f1 in \<open>simp_all add: eq\<close>)
  next
    case None
    let ?s2 = "udp_update_timing tc_on_timeout ?s1"
    have mr: "udp_max_retries ?s2 = udp_max_retries s"
      using f1(5,6) timing_change_intros(3)
      by (simp add: udp_max_retries_def udp_fixed_def timing_change_def split: option.splits)
    have t2: "\<exists>f. timing_change f \<and> us_timing ?s2 = map_option f (us_timing ?s1)"
      by (simp add: timing_change_step timing_change_intros)
    show ?thesis
    proof (cases "uw_retry_count (up_work p) < udp_max_retries s")
      case True
      have eq: "udp_timed_out env i p s = udp_retry (up_work p) ?s2"
        using None True mr by (simp add: udp_timed_out_def Let_def)
      let ?s3 = "udp_update_timing (tc_update_metrics (\<lambda>m. m\<lparr>mt_retry_count := incr_size (mt_retry_count m)\<rparr>))
        (?s2\<lparr>us_queue := (up_work p)\<lparr>uw_retry_count := Suc (uw_retry_count (up_work p))\<rparr> # us_queue ?s2\<rparr>)"
      have "\<exists>f. timing_change f \<and> us_timing ?s3 = map_option f (us_timing ?s2)"
        by (simp add: timing_change_step timing_change_intros)
      then have "\<exists>f. timing_change f \<and> us_timing (udp_retry (up_work p) ?s2) = map_option f (us_timing ?s1)"
        unfolding udp_retry_def by (rule timing_change_trans [OF timing_change_trans [OF t2] parallelism_timing])
      then have "udp_left i p s (udp_timed_out env i p s)" unfolding eq
        by (intro left) (simp_all add: udp_retry_def udp_fixed_def)
      then show ?thesis using True f1 by (intro retry) (simp_all add: eq udp_retry_def)
    next
      case False
      have eq: "udp_timed_out env i p s =
          udp_append_result env (up_work p) PsOpenOrFiltered RsnUdpTimeout None (udp_set_parallelism ?s2)"
        using None False mr by (simp add: udp_timed_out_def Let_def)
      obtain r where r: "us_results (udp_append_result env (up_work p) PsOpenOrFiltered RsnUdpTimeout None
          (udp_set_parallelism ?s2)) = us_results (udp_set_parallelism ?s2) @ [r]"
        "udp_result_of (up_work p) PsOpenOrFiltered RsnUdpTimeout r" by (rule udp_append_resultE)
      have "udp_left i p s (udp_timed_out env i p s)" unfolding eq
        using timing_change_trans [OF t2 parallelism_timing [of ?s2]] by (intro left) (simp_all add: udp_fixed_def)
      then show ?thesis using False None r f1 by (intro verdict [of r]) (simp_all add: eq)
    qed
  qed
qed

section \<open>A turn of the pump\<close>

fun udp_turn_state :: "('x, 't) udp_turn \<Rightarrow> ('x, 't) udp_scheduler" where
  "udp_turn_state (UdpBreaks s) = s"
| "udp_turn_state (UdpSubmitted r s) = s"

definition udp_scheduled ::
  "'x sched_callback engine \<Rightarrow> u64 \<Rightarrow> u64 \<Rightarrow> 'x sched_callback engine \<Rightarrow> bool" where
  "udp_scheduled e i tid e' \<longleftrightarrow> (\<exists>now delay. engine_schedule now delay (OnTimeout i) e = (tid, e')) \<and> tid \<noteq> 0"

text \<open>
  The engine after an attempt that could not be started: the timer, if there was one, is
  cancelled again.
\<close>

inductive udp_undone ::
  "('x, 't) udp_env \<Rightarrow> ('x, 't) udp_scheduler \<Rightarrow> 'x sched_callback engine \<Rightarrow> bool" for env s where
  not_scheduled: "udp_undone env s (us_engine s)"
| timer_cancelled: "udp_scheduled (us_engine s) i tid e \<Longrightarrow> udp_undone env s (engine_cancel tid e)"
| submit_refused: "udp_scheduled (us_engine s) i tid e \<Longrightarrow>
    ue_submit env sub (e, us_transport s) = (st, a, e', t) \<Longrightarrow> udp_undone env s (engine_cancel tid e')"

definition udp_failed ::
  "('x, 't) udp_env \<Rightarrow> udp_work \<Rightarrow> ('x, 't) udp_scheduler \<Rightarrow> ('x, 't) udp_scheduler \<Rightarrow> bool" where
  "udp_failed env w s s' \<longleftrightarrow>
     udp_fixed s s' \<and> us_status s' \<noteq> Ok \<and> us_queue s' = us_queue s \<and> us_pending s' = us_pending s \<and>
     us_source_ports s' = us_source_ports s \<and> us_timing s' = us_timing s \<and>
     (\<exists>r reason. us_results s' = us_results s @ [r] \<and> udp_result_of w PsError reason r \<and>
        reason \<in> {RsnInternalError, RsnInvalidTarget, RsnCapabilityUnavailable}) \<and>
     udp_undone env s (us_engine s')"

definition udp_started ::
  "('x, 't) udp_env \<Rightarrow> udp_work \<Rightarrow> udp_response option \<Rightarrow>
     ('x, 't) udp_scheduler \<Rightarrow> ('x, 't) udp_scheduler \<Rightarrow> bool" where
  "udp_started env w answer s s' \<longleftrightarrow>
     udp_fixed s s' \<and> us_status s' = us_status s \<and> us_queue s' = us_queue s \<and> us_timing s' = us_timing s \<and>
     us_results s' = us_results s \<and> \<not> map_has (us_pending s) (us_next_id s) \<and>
     (\<exists>p e source a. us_pending s' = (us_next_id s, p) # us_pending s \<and> up_work p = w \<and>
        up_candidate_state p = None \<and> in_port_range source \<and> \<not> us_source_ports s (unat source - 40000) \<and>
        us_source_ports s' = (us_source_ports s)(unat source - 40000 := True) \<and>
        probe_address (ue_libc env) (uw_host w) = Some a \<and>
        (let d = udp_for_port (us_database s) (port_number (uw_port w)) in
         up_submission p = udp_new_submission (us_next_id s) w a source
           (packet_bytes (udp_probe_packet source (port_number (uw_port w)) a (ud_payload d))) d) \<and>
        udp_scheduled (us_engine s) (us_next_id s) (up_timer p) e \<and>
        (\<exists>t. ue_submit env (up_submission p) (e, us_transport s) = (Ok, answer, us_engine s', t)))"

lemma udp_failed_append:
  assumes "udp_fixed s s1" and "us_queue s1 = us_queue s" and "us_pending s1 = us_pending s"
    and "us_source_ports s1 = us_source_ports s" and "us_timing s1 = us_timing s" and "us_results s1 = us_results s"
    and "reason \<in> {RsnInternalError, RsnInvalidTarget, RsnCapabilityUnavailable}" and "st \<noteq> Ok"
    and "udp_undone env s (us_engine s1)"
  shows "udp_failed env w s ((udp_append_result env w PsError reason None s1)\<lparr>us_status := st\<rparr>)"
proof -
  obtain r where "us_results (udp_append_result env w PsError reason None s1) = us_results s1 @ [r]"
    "udp_result_of w PsError reason r" by (rule udp_append_resultE)
  then show ?thesis using assms unfolding udp_failed_def udp_fixed_def by auto
qed

lemma udp_scheduleE:
  obtains (full) n where "udp_schedule env delay cb s = (0, s\<lparr>us_reads := n\<rparr>)"
  | (scheduled) n now tid e where "udp_schedule env delay cb s = (tid, s\<lparr>us_reads := n, us_engine := e\<rparr>)"
    and "engine_schedule now (delay * ns_per_ms) cb (us_engine s) = (tid, e)" and "tid \<noteq> 0"
proof -
  obtain tid e where e: "engine_schedule (ue_clock env (us_reads s)) (delay * ns_per_ms) cb (us_engine s) = (tid, e)"
    by fastforce
  then have eq: "udp_schedule env delay cb s = (tid, s\<lparr>us_reads := Suc (us_reads s), us_engine := e\<rparr>)"
    by (simp add: udp_schedule_def udp_now_def)
  show thesis
  proof (cases "tid = 0")
    case True
    then have "e = us_engine s" using e by (auto simp: engine_schedule_def Let_def split: if_splits)
    then show ?thesis using eq True by (intro full [of "Suc (us_reads s)"]) simp
  qed (rule scheduled [OF eq e])
qed

text \<open>
  Starting a probe in a state \<open>s\<close> whose source port has been taken: \<open>s0\<close> is the state before
  it was taken.
\<close>

lemma udp_launch_cases:
  fixes env :: "('x, 't) udp_env" and s0 s :: "('x, 't) udp_scheduler"
  defines "port sub \<equiv> usb_source_port (sub :: udp_submission)"
  assumes s: "s = s0\<lparr>us_next_source_port := n, us_source_ports := (us_source_ports s0)(unat (port sub) - 40000 := True),
      us_next_id := j\<rparr>"
    and id: "usb_id sub = us_next_id s0" and free: "in_port_range (port sub)" "\<not> us_source_ports s0 (unat (port sub) - 40000)"
    and d: "d = udp_for_port (us_database s0) (port_number (uw_port w))" and a: "probe_address (ue_libc env) (uw_host w) = Some a"
    and sub: "sub = udp_new_submission (us_next_id s0) w a (port sub)
      (packet_bytes (udp_probe_packet (port sub) (port_number (uw_port w)) a (ud_payload d))) d"
  shows "\<exists>s'. (udp_launch env w sub s = UdpBreaks s' \<and> udp_failed env w s0 s') \<or>
    (\<exists>answer. udp_launch env w sub s = UdpSubmitted answer s' \<and> udp_started env w answer s0 s')"
proof -
  let ?i = "usb_id sub" and ?p = "port sub"
  have rel: "udp_failed env w s0 (udp_refuse env w ?p rs st s1)"
    if "udp_fixed s0 s1" "us_queue s1 = us_queue s0" "us_pending s1 = us_pending s0"
      "us_source_ports s1 = (us_source_ports s0)(unat ?p - 40000 := True)" "us_timing s1 = us_timing s0"
      "us_results s1 = us_results s0" "rs \<in> {RsnInternalError, RsnInvalidTarget, RsnCapabilityUnavailable}"
      "st \<noteq> Ok" "udp_undone env s0 (us_engine s1)" for s1 rs st
    unfolding udp_refuse_def using that free
    by (intro udp_failed_append) (auto simp: udp_fixed_def fun_eq_iff)
  have e0: "us_engine s = us_engine s0" "us_pending s = us_pending s0" "us_transport s = us_transport s0" by (simp_all add: s)
  let ?s1 = "s\<lparr>us_reads := Suc (us_reads s)\<rparr>"
  show ?thesis
  proof (rule udp_scheduleE [of env "udp_probe_timeout ?s1" "OnTimeout ?i" ?s1], goal_cases)
    case (1 m)
    let ?s2 = "?s1\<lparr>us_reads := m\<rparr>"
    have "udp_launch env w sub s = UdpBreaks (udp_refuse env w ?p RsnInternalError InternalError ?s2)"
      using 1 by (simp add: udp_launch_def udp_now_def port_def)
    moreover have "udp_failed env w s0 (udp_refuse env w ?p RsnInternalError InternalError ?s2)"
      using not_scheduled [of env s0] by (intro rel) (simp_all add: s udp_fixed_def)
    ultimately show ?thesis by blast
  next
    case (2 m now tid e)
    have sch: "udp_scheduled (us_engine s0) ?i tid e"
      using 2(2,3) e0(1) unfolding udp_scheduled_def by auto
    let ?s2 = "s\<lparr>us_reads := m, us_engine := e\<rparr>"
    let ?q = "\<lparr>up_work = w, up_submission = sub, up_started_at = ue_clock env (us_reads s), up_timer = tid,
      up_candidate_state = None, up_candidate_reason = RsnInternalError, up_candidate_at = 0, up_conflict = False\<rparr>"
    show ?thesis
    proof (cases "map_has (us_pending s) ?i")
      case True
      have "udp_launch env w sub s =
          UdpBreaks (udp_refuse env w ?p RsnInternalError InternalError (udp_cancel_timer tid ?s2))"
        using 2 True by (simp add: udp_launch_def udp_now_def port_def map_emplace_def)
      moreover have "udp_failed env w s0 (udp_refuse env w ?p RsnInternalError InternalError (udp_cancel_timer tid ?s2))"
        using timer_cancelled [OF sch, of env] by (intro rel) (simp_all add: s udp_fixed_def udp_cancel_timer_def)
      ultimately show ?thesis by blast
    next
      case False
      obtain st answer e' t where sb: "ue_submit env sub (e, us_transport s0) = (st, answer, e', t)" by (metis prod_cases3)
      let ?s4 = "?s2\<lparr>us_pending := (?i, ?q) # us_pending s, us_engine := e', us_transport := t\<rparr>"
      show ?thesis
      proof (cases "st = Ok")
        case True
        have "udp_launch env w sub s = UdpSubmitted answer ?s4"
          using 2 False sb True e0 by (simp add: udp_launch_def udp_now_def map_emplace_def)
        moreover have "udp_started env w answer s0 ?s4"
          using False free sch sb True id a d sub unfolding udp_started_def Let_def
          by (auto simp: s udp_fixed_def intro!: exI [of _ ?q] exI [of _ e] exI [of _ ?p])
        ultimately show ?thesis by blast
      next
        case refused: False
        let ?rs = "if st = PermissionDenied then RsnCapabilityUnavailable else RsnInternalError"
        let ?s5 = "udp_erase_pending ?i (udp_cancel_timer tid ?s4)"
        have er: "map_erase ?i ((?i, ?q) # us_pending s) = us_pending s"
          using False map_erase_absent [of "us_pending s" ?i] by (simp add: map_erase_def map_has_def)
        have "udp_launch env w sub s = UdpBreaks (udp_refuse env w ?p ?rs st ?s5)"
          using 2 False sb refused e0 by (simp add: udp_launch_def udp_now_def map_emplace_def port_def)
        moreover have "udp_failed env w s0 (udp_refuse env w ?p ?rs st ?s5)"
          using submit_refused [OF sch sb] refused er
          by (intro rel) (simp_all add: s udp_fixed_def udp_cancel_timer_def udp_erase_pending_def)
        ultimately show ?thesis by blast
      qed
    qed
  qed
qed

lemma udp_pump_turnE:
  obtains (empty) "us_queue s = []" and "udp_pump_turn env s = UdpBreaks s"
  | (failed) w rest s' where "us_queue s = w # rest" and "udp_pump_turn env s = UdpBreaks s'"
    and "udp_failed env w (s\<lparr>us_queue := rest\<rparr>) s'"
  | (flight) w rest s' answer where "us_queue s = w # rest" and "udp_pump_turn env s = UdpSubmitted answer s'"
    and "udp_started env w answer (s\<lparr>us_queue := rest\<rparr>) s'"
proof (cases "us_queue s")
  case Nil
  then show thesis by (intro empty) (simp_all add: udp_pump_turn_def)
next
  case (Cons w rest)
  let ?s0 = "s\<lparr>us_queue := rest\<rparr>"
  show thesis
  proof (rule allocate_source_portE [of ?s0], goal_cases)
    case (1 n)
    let ?s' = "(udp_append_result env w PsError RsnInternalError None (?s0\<lparr>us_next_source_port := n\<rparr>))
      \<lparr>us_status := ResourceExhausted\<rparr>"
    have "udp_pump_turn env s = UdpBreaks ?s'" using 1(1) Cons by (simp add: udp_pump_turn_def)
    moreover have "udp_failed env w ?s0 ?s'"
      using not_scheduled [of env ?s0] by (intro udp_failed_append) (simp_all add: udp_fixed_def)
    ultimately show ?thesis by (intro failed [OF Cons])
  next
    case (2 p n)
    let ?s1 = "?s0\<lparr>us_next_source_port := n, us_source_ports := (us_source_ports ?s0)(unat p - 40000 := True)\<rparr>"
    have rel: "udp_failed env w ?s0 (udp_refuse env w p rs st ?s1)"
      if "rs \<in> {RsnInternalError, RsnInvalidTarget, RsnCapabilityUnavailable}" "st \<noteq> Ok" for rs st
      unfolding udp_refuse_def using that 2 not_scheduled [of env ?s0]
      by (intro udp_failed_append) (auto simp: udp_fixed_def fun_eq_iff)
    show ?thesis
    proof (cases "probe_address (ue_libc env) (uw_host w)")
      case None
      then have "udp_pump_turn env s = UdpBreaks (udp_refuse env w p RsnInvalidTarget InvalidArgument ?s1)"
        using 2(1) Cons by (simp add: udp_pump_turn_def)
      then show ?thesis by (rule failed [OF Cons _ rel]) simp_all
    next
      case (Some a)
      let ?d = "udp_for_port (us_database s) (port_number (uw_port w))"
      let ?pkt = "packet_bytes (udp_probe_packet p (port_number (uw_port w)) a (ud_payload ?d))"
      show ?thesis
      proof (cases "?pkt = []")
        case True
        then have "udp_pump_turn env s = UdpBreaks (udp_refuse env w p RsnInternalError InternalError ?s1)"
          using 2(1) Cons Some by (simp add: udp_pump_turn_def Let_def)
        then show ?thesis by (rule failed [OF Cons _ rel]) simp_all
      next
        case False
        let ?sub = "udp_new_submission (us_next_id s) w a p ?pkt ?d"
        have src: "usb_source_port ?sub = p" "usb_id ?sub = us_next_id s" by (simp_all add: udp_new_submission_def)
        have t: "udp_pump_turn env s = udp_launch env w ?sub (?s1\<lparr>us_next_id := us_next_id s + 1\<rparr>)"
          using 2(1) Cons Some False by (simp add: udp_pump_turn_def Let_def)
        have "\<exists>s'. (udp_launch env w ?sub (?s1\<lparr>us_next_id := us_next_id s + 1\<rparr>) = UdpBreaks s' \<and> udp_failed env w ?s0 s') \<or>
            (\<exists>answer. udp_launch env w ?sub (?s1\<lparr>us_next_id := us_next_id s + 1\<rparr>) = UdpSubmitted answer s' \<and>
              udp_started env w answer ?s0 s')"
          using 2 Some by (intro udp_launch_cases [where n = n and j = "us_next_id s + 1" and a = a and d = ?d])
            (simp_all add: src)
        then show ?thesis unfolding t [symmetric] using failed [OF Cons] flight [OF Cons] by blast
      qed
    qed
  qed
qed

end
