(* ===== verification/Udp_Runs.thy ===== *)
theory Udp_Runs
  imports Udp_Scheduler_Inv
begin

text \<open>
  Steps and runs of a UDP scan: the locale \<open>udp_invariant\<close> says what a property has to survive
  to hold throughout, and is interpreted on the books of a scan (the ledger of ports, the shape
  of work and results, the source ports, the potential) and, for a transport that keeps its
  hands off the scheduler's timers (\<open>udp_transport\<close>), on the timers and the stop request.
\<close>

section \<open>Steps\<close>

inductive udp_step ::
  "('x, 't) udp_env \<Rightarrow> bool \<Rightarrow> ('x, 't) udp_scheduler \<Rightarrow> ('x, 't) udp_scheduler \<Rightarrow> bool" for env where
  response: "udp_receive (udp_pump env) env r s = Some s' \<Longrightarrow> udp_step env False s s'"
| timeout: "dispatch_turn now (us_engine s) = TurnFires (OnTimeout i) e \<Longrightarrow>
    udp_on_timeout (udp_pump env) env i (s\<lparr>us_engine := e\<rparr>) = Some s' \<Longrightarrow> udp_step env True s s'"
| other_timer: "dispatch_turn now (us_engine s) = TurnFires cb e \<Longrightarrow> (\<And>i. cb \<noteq> OnTimeout i) \<Longrightarrow>
    udp_step env False s (s\<lparr>us_engine := e\<rparr>)"
| transport_event: "ue_event env x (us_engine s, us_transport s) = (answers, e, t) \<Longrightarrow>
    udp_step env False s (s\<lparr>us_engine := e, us_transport := t\<rparr>)"
| engine: "timers_kept (us_engine s) e \<Longrightarrow> udp_step env False s (s\<lparr>us_engine := e\<rparr>)"
| clock: "udp_step env False s (s\<lparr>us_reads := n\<rparr>)"

inductive udp_steps ::
  "('x, 't) udp_env \<Rightarrow> nat \<Rightarrow> ('x, 't) udp_scheduler \<Rightarrow> ('x, 't) udp_scheduler \<Rightarrow> bool" for env where
  start: "udp_steps env 0 s s"
| step: "udp_steps env n s s' \<Longrightarrow> udp_step env fired s' s'' \<Longrightarrow>
    udp_steps env (if fired then Suc n else n) s s''"

lemma udp_complete_pending_alt:
  "udp_complete_pending k env i st rs instant s =
     (case map_of (us_pending s) i of None \<Rightarrow> Some s | Some p \<Rightarrow> k (udp_completed env i p st rs instant s))"
  by (simp add: udp_complete_pending_def split: option.splits)

section \<open>What an invariant has to survive\<close>

locale udp_invariant =
  fixes env :: "('x, 't) udp_env" and lim :: "nat \<Rightarrow> bool" and inv :: "('x, 't) udp_scheduler \<Rightarrow> bool"
  assumes inv_limit: "inv s \<Longrightarrow> lim (udp_pump_limit s)"
    and inv_clock: "inv s \<Longrightarrow> inv (s\<lparr>us_reads := n\<rparr>)"
    and inv_engine: "inv s \<Longrightarrow> timers_kept (us_engine s) e \<Longrightarrow> inv (s\<lparr>us_engine := e\<rparr>)"
    and inv_other: "inv s \<Longrightarrow> dispatch_turn now (us_engine s) = TurnFires cb e \<Longrightarrow> (\<And>i. cb \<noteq> OnTimeout i) \<Longrightarrow>
      inv (s\<lparr>us_engine := e\<rparr>)"
    and inv_event: "inv s \<Longrightarrow> ue_event env x (us_engine s, us_transport s) = (answers, e, t) \<Longrightarrow>
      inv (s\<lparr>us_engine := e, us_transport := t\<rparr>)"
    and inv_stop: "inv s \<Longrightarrow> udp_complete s \<Longrightarrow> inv (s\<lparr>us_engine := engine_stop (us_engine s)\<rparr>)"
    and inv_timing: "inv s \<Longrightarrow> inv (udp_timing_submitted s)"
    and inv_turn: "inv s \<Longrightarrow> us_status s = Ok \<Longrightarrow> length (us_pending s) < limit \<Longrightarrow> lim limit \<Longrightarrow>
      inv (udp_turn_state (udp_pump_turn env s))"
    and inv_evidence: "inv s \<Longrightarrow> map_of (us_pending s) i = Some p \<Longrightarrow>
      udp_assess (us_database s) r p = Some (st, rs) \<Longrightarrow> st \<noteq> PsError \<Longrightarrow>
      inv (s\<lparr>us_pending := map_put i (udp_note_evidence st rs instant p) (us_pending s)\<rparr>)"
    and inv_completed: "inv s \<Longrightarrow> map_of (us_pending s) i = Some p \<Longrightarrow>
      udp_assess (us_database s) r p = Some (st, rs) \<Longrightarrow> inv (udp_completed env i p st rs instant s)"
    and inv_timeout: "inv s \<Longrightarrow> dispatch_turn now (us_engine s) = TurnFires (OnTimeout i) e \<Longrightarrow>
      map_of (us_pending s) i = Some p \<Longrightarrow> inv (udp_timed_out env i p (s\<lparr>us_engine := e\<rparr>))"
    and inv_timeout_late: "inv s \<Longrightarrow> dispatch_turn now (us_engine s) = TurnFires (OnTimeout i) e \<Longrightarrow>
      map_of (us_pending s) i = None \<Longrightarrow> inv (s\<lparr>us_engine := e\<rparr>)"
begin

lemma inv_stop_if_idle: "inv s \<Longrightarrow> inv (udp_stop_if_idle s)"
  using inv_stop [of s] by (simp add: udp_stop_if_idle_def udp_complete_def)

lemma receive_inv:
  assumes "inv s" and "udp_receive k env r s = Some s'" and "\<And>t t'. inv t \<Longrightarrow> k t = Some t' \<Longrightarrow> inv t'"
  shows "inv s'"
proof (cases "\<exists>p a st rs. map_of (us_pending s) (urs_id r) = Some p \<and>
    probe_address (ue_libc env) (uw_host (up_work p)) = Some a \<and> \<not> udp_foreign a r p \<and>
    udp_assess (us_database s) r p = Some (st, rs)")
  case False
  then have "s' = s" using assms(2) by (auto simp: udp_receive_def split: option.splits if_splits)
  then show ?thesis using assms(1) by simp
next
  case True
  then obtain p a st rs where p: "map_of (us_pending s) (urs_id r) = Some p"
    "probe_address (ue_libc env) (uw_host (up_work p)) = Some a" "\<not> udp_foreign a r p"
    "udp_assess (us_database s) r p = Some (st, rs)" by blast
  obtain instant s1 where c: "udp_completed_time env r s = (instant, s1)" by fastforce
  then have s1: "s1 = s \<or> s1 = s\<lparr>us_reads := Suc (us_reads s)\<rparr>"
    by (auto simp: udp_completed_time_def udp_now_def split: if_splits)
  then have i1: "inv s1" using assms(1) inv_clock by auto
  have p1: "map_of (us_pending s1) (urs_id r) = Some p" "udp_assess (us_database s1) r p = Some (st, rs)"
    using p s1 by auto
  have "s' = s1 \<or> k (udp_completed env (urs_id r) p st rs instant s1) = Some s' \<or>
      (st \<noteq> PsError \<and> s' = s1\<lparr>us_pending := map_put (urs_id r) (udp_note_evidence st rs instant p) (us_pending s1)\<rparr>)"
    using assms(2) p c by (auto simp: udp_receive_def udp_complete_pending_alt p1 split: if_splits)
  then show ?thesis
    using i1 inv_evidence [OF i1 p1] inv_completed [OF i1 p1] assms(3) by blast
qed

lemma pump_loop_inv:
  "udp_pump_loop env limit depth turns s = Some s' \<Longrightarrow> inv s \<Longrightarrow> lim limit \<Longrightarrow> inv s'"
proof (induction turns arbitrary: limit depth s s')
  case 0
  then show ?case
    by (auto simp: udp_pump_loop.simps [of env limit depth 0] inv_stop_if_idle split: if_splits)
next
  case (Suc turns)
  note unroll = udp_pump_loop.simps [of env limit depth "Suc turns" s]
  show ?case
  proof (cases "us_status s = Ok \<and> us_queue s \<noteq> [] \<and> length (us_pending s) < limit")
    case False
    then have "s' = udp_stop_if_idle s" using Suc.prems(1) by (auto simp: unroll)
    then show ?thesis using Suc.prems(2) inv_stop_if_idle by simp
  next
    case True
    then have turn: "inv (udp_turn_state (udp_pump_turn env s))" using Suc.prems inv_turn [of s limit] by blast
    show ?thesis
    proof (cases "udp_pump_turn env s")
      case (UdpBreaks s1)
      then have "s' = udp_stop_if_idle s1" using True Suc.prems(1) by (simp add: unroll)
      then show ?thesis using UdpBreaks turn inv_stop_if_idle by simp
    next
      case (UdpSubmitted answer s1)
      then have i1: "inv s1" using turn by simp
      show ?thesis
      proof (cases answer)
        case None
        then have "udp_pump_loop env limit depth turns (udp_timing_submitted s1) = Some s'"
          using True Suc.prems(1) UdpSubmitted by (simp add: unroll)
        then show ?thesis using Suc.IH Suc.prems(3) i1 inv_timing by blast
      next
        case (Some r)
        then obtain depth' s2 where d: "depth = Suc depth'"
          "udp_receive (\<lambda>t. udp_pump_loop env (udp_pump_limit t) depth' turns t) env r s1 = Some s2"
          "udp_pump_loop env limit depth turns (udp_timing_submitted s2) = Some s'"
          using True Suc.prems(1) UdpSubmitted by (auto simp: unroll split: nat.splits option.splits)
        have "inv s2" by (rule receive_inv [OF i1 d(2)]) (use Suc.IH inv_limit in blast)
        then show ?thesis using Suc.IH Suc.prems(3) d(3) inv_timing by blast
      qed
    qed
  qed
qed

lemma pump_inv: "udp_pump env s = Some s' \<Longrightarrow> inv s \<Longrightarrow> inv s'"
  unfolding udp_pump_def by (erule pump_loop_inv) (auto intro: inv_limit)

lemma step_inv: "udp_step env fired s s' \<Longrightarrow> inv s \<Longrightarrow> inv s'"
proof (induction rule: udp_step.induct)
  case (response r s s')
  show ?case by (rule receive_inv [OF response(2,1)]) (rule pump_inv)
next
  case (timeout now s i e s')
  then show ?case
    by (auto simp: udp_on_timeout_def split: option.splits intro: pump_inv inv_timeout inv_timeout_late)
qed (auto intro: inv_other inv_event inv_engine inv_clock)

lemma steps_inv: "udp_steps env n s s' \<Longrightarrow> inv s \<Longrightarrow> inv s'"
  by (induction rule: udp_steps.induct) (auto intro: step_inv)

end

section \<open>The books of a scan\<close>

definition udp_key :: "udp_work \<Rightarrow> string \<times> port" where
  "udp_key w = (h_address (uw_host w), uw_port w)"

definition udp_ledger :: "('x, 't) udp_scheduler \<Rightarrow> (string \<times> port) multiset" where
  "udp_ledger s =
     image_mset udp_key (mset (us_queue s)) +
     image_mset (udp_key \<circ> up_work \<circ> snd) (mset (us_pending s)) +
     image_mset result_key (mset (us_results s))"

definition udp_work_ok :: "nat \<Rightarrow> udp_work \<Rightarrow> bool" where
  "udp_work_ok retries w \<longleftrightarrow> uw_retry_count w \<le> retries \<and> port_protocol (uw_port w) = Udp"

definition udp_verdict_ok :: "port_state \<Rightarrow> scan_reason \<Rightarrow> bool" where
  "udp_verdict_ok st rs \<longleftrightarrow> valid_port_result_semantics Udp UdpProbe st rs"

definition udp_flight_ok :: "nat \<Rightarrow> u64 \<times> udp_pending \<Rightarrow> bool" where
  "udp_flight_ok retries e \<longleftrightarrow>
     udp_work_ok retries (up_work (snd e)) \<and> in_port_range (usb_source_port (up_submission (snd e))) \<and>
     usb_id (up_submission (snd e)) = fst e \<and>
     (\<forall>st. up_candidate_state (snd e) = Some st \<longrightarrow>
        udp_verdict_ok st (up_candidate_reason (snd e)) \<and> st \<noteq> PsOpenOrFiltered)"

text \<open>A port is called open or filtered only when every retry stayed silent.\<close>

definition udp_result_ok :: "nat \<Rightarrow> port_result \<Rightarrow> bool" where
  "udp_result_ok retries r \<longleftrightarrow>
     res_probe r = UdpProbe \<and> udp_verdict_ok (res_state r) (res_reason r) \<and> res_retry_count r \<le> retries \<and>
     (res_state r = PsOpenOrFiltered \<longrightarrow> res_retry_count r = retries)"

definition source_of :: "u64 \<times> udp_pending \<Rightarrow> u16" where
  "source_of e = usb_source_port (up_submission (snd e))"

text \<open>The table of source ports is exactly the ports of the probes in flight, one each.\<close>

definition udp_ports_ok :: "('x, 't) udp_scheduler \<Rightarrow> bool" where
  "udp_ports_ok s \<longleftrightarrow>
     distinct (map source_of (us_pending s)) \<and> (\<forall>e\<in>set (us_pending s). in_port_range (source_of e)) \<and>
     (\<forall>k. us_source_ports s k \<longleftrightarrow> (\<exists>e\<in>set (us_pending s). k = unat (source_of e) - 40000))"

definition udp_potential :: "nat \<Rightarrow> ('x, 't) udp_scheduler \<Rightarrow> nat" where
  "udp_potential retries s =
     (\<Sum>w\<in>#mset (us_queue s). Suc (retries - uw_retry_count w)) +
     (\<Sum>e\<in>#mset (us_pending s). Suc (retries - uw_retry_count (up_work (snd e))))"

definition udp_books ::
  "udp_database \<Rightarrow> nat \<Rightarrow> nat \<Rightarrow> (string \<times> port) multiset \<Rightarrow> nat \<Rightarrow> ('x, 't) udp_scheduler \<Rightarrow> bool" where
  "udp_books db cap retries l n s \<longleftrightarrow>
     us_submitted s \<and> us_database s = db \<and> cfg_max_outstanding (us_config s) = cap \<and> 0 < cap \<and>
     udp_max_retries s = retries \<and> (\<forall>t. us_timing s = Some t \<longrightarrow> tc_inv t) \<and>
     map_ok (us_pending s) \<and> udp_ledger s = l \<and> udp_ports_ok s \<and>
     (\<forall>w\<in>set (us_queue s). udp_work_ok retries w) \<and> (\<forall>e\<in>set (us_pending s). udp_flight_ok retries e) \<and>
     (\<forall>r\<in>set (us_results s). udp_result_ok retries r) \<and> length (us_pending s) \<le> cap \<and>
     udp_potential retries s \<le> n"

lemma udp_books_outside [simp]:
  "udp_books db cap retries l n (s\<lparr>us_engine := e\<rparr>) = udp_books db cap retries l n s"
  "udp_books db cap retries l n (s\<lparr>us_transport := t\<rparr>) = udp_books db cap retries l n s"
  "udp_books db cap retries l n (s\<lparr>us_reads := m\<rparr>) = udp_books db cap retries l n s"
  by (simp_all add: udp_books_def udp_max_retries_def udp_ledger_def udp_ports_ok_def udp_potential_def
      split: option.splits)

lemma udp_books_limit:
  assumes "udp_books db cap retries l n s"
  shows "1 \<le> udp_pump_limit s \<and> udp_pump_limit s \<le> cap"
proof (cases "us_timing s")
  case (Some t)
  then have "tc_inv t" using assms by (simp add: udp_books_def)
  then show ?thesis using Some assms tc_parallelism_bounds [of t cap] by (simp add: udp_pump_limit_def udp_books_def)
qed (use assms in \<open>simp add: udp_pump_limit_def udp_books_def\<close>)

lemma udp_result_key: "udp_result_of w st rs r \<Longrightarrow> result_key r = udp_key w"
  by (simp add: udp_result_of_def result_key_def udp_key_def)

lemma udp_timing_kept:
  assumes "udp_fixed s s'" and "\<exists>f. timing_change f \<and> us_timing s' = map_option f (us_timing s)"
  shows "udp_max_retries s' = udp_max_retries s"
    and "(\<And>t. us_timing s = Some t \<Longrightarrow> tc_inv t) \<Longrightarrow> us_timing s' = Some t' \<Longrightarrow> tc_inv t'"
proof -
  obtain f where f: "timing_change f" "us_timing s' = map_option f (us_timing s)" using assms(2) by blast
  then show "udp_max_retries s' = udp_max_retries s"
    using assms(1) by (cases "us_timing s") (simp_all add: udp_max_retries_def udp_fixed_def timing_change_def)
  show "tc_inv t'" if "\<And>t. us_timing s = Some t \<Longrightarrow> tc_inv t" "us_timing s' = Some t'"
    using that f by (cases "us_timing s") (auto simp: timing_change_def)
qed

lemma udp_ports_ok_alt:
  "udp_ports_ok s \<longleftrightarrow>
     distinct (map source_of (us_pending s)) \<and> (\<forall>q\<in>source_of ` set (us_pending s). in_port_range q) \<and>
     (\<forall>k. us_source_ports s k \<longleftrightarrow> k \<in> (\<lambda>q. unat q - 40000) ` source_of ` set (us_pending s))"
  unfolding udp_ports_ok_def by (simp add: image_iff)

lemma udp_ports_left:
  assumes "udp_ports_ok s" and "map_ok (us_pending s)" and "map_of (us_pending s) i = Some p" and "udp_left i p s s'"
  shows "udp_ports_ok s'"
proof -
  let ?k = "unat (usb_source_port (up_submission p)) - 40000"
  have d: "distinct (map source_of (us_pending s))" and r: "\<forall>e\<in>set (us_pending s). in_port_range (source_of e)"
    and u: "\<And>k. us_source_ports s k \<longleftrightarrow> (\<exists>e\<in>set (us_pending s). k = unat (source_of e) - 40000)"
    using assms(1) by (auto simp: udp_ports_ok_def)
  have mem: "(i, p) \<in> set (us_pending s)" by (rule map_of_SomeD [OF assms(3)])
  have p: "in_port_range (usb_source_port (up_submission p))" using r mem by (auto simp: source_of_def)
  have s': "us_pending s' = filter (\<lambda>e. fst e \<noteq> i) (us_pending s)" "us_source_ports s' = (us_source_ports s)(?k := False)"
    using assms(4) p by (simp_all add: udp_left_def map_erase_def)
  have other: "unat (source_of e) - 40000 \<noteq> ?k" if "e \<in> set (us_pending s)" "fst e \<noteq> i" for e
  proof
    assume "unat (source_of e) - 40000 = ?k"
    then have "source_of e = source_of (i, p)" using port_index_inj r that(1) p by (simp add: source_of_def)
    then have "e = (i, p)" using d that(1) mem by (auto simp: distinct_map dest: inj_onD)
    then show False using that(2) by simp
  qed
  have same: "e = (i, p)" if "e \<in> set (us_pending s)" "fst e = i" for e
  proof -
    have "map_of (us_pending s) (fst e) = Some (snd e)"
      using that(1) assms(2) by (intro map_of_is_SomeI) (simp_all add: map_ok_def)
    then show ?thesis using that(2) assms(3) by (simp add: prod_eq_iff)
  qed
  have "us_source_ports s' k \<longleftrightarrow> (\<exists>e\<in>set (us_pending s'). k = unat (source_of e) - 40000)" for k
  proof (cases "k = ?k")
    case True
    have "\<not> (k = unat (source_of e) - 40000)" if "e \<in> set (us_pending s')" for e
      using other [of e] that True by (simp add: s'(1))
    then show ?thesis using True by (auto simp: s'(2))
  next
    case False
    have "e \<in> set (us_pending s')" if "e \<in> set (us_pending s)" "k = unat (source_of e) - 40000" for e
    proof -
      have "fst e \<noteq> i"
      proof
        assume "fst e = i"
        with same [OF that(1)] have "e = (i, p)" .
        then show False using that(2) False by (simp add: source_of_def)
      qed
      then show ?thesis using that(1) by (simp add: s'(1))
    qed
    moreover have "set (us_pending s') \<subseteq> set (us_pending s)" by (auto simp: s'(1))
    ultimately show ?thesis using u [of k] False by (auto simp: s'(2))
  qed
  moreover have "distinct (map source_of (us_pending s'))" using d by (auto simp: s'(1) distinct_map inj_on_def)
  ultimately show ?thesis using r by (simp add: udp_ports_ok_def s'(1))
qed

lemma udp_books_finish:
  assumes "udp_books db cap retries l (Suc n) s" and "map_of (us_pending s) i = Some p" and "udp_left i p s s'"
    and "us_queue s' = us_queue s" and "us_results s' = us_results s @ [r]" and "udp_result_of (up_work p) st rs r"
    and "udp_verdict_ok st rs" and "st = PsOpenOrFiltered \<longrightarrow> retries \<le> uw_retry_count (up_work p)"
  shows "udp_books db cap retries l n s'"
proof -
  have b: "us_submitted s" "us_database s = db" "cfg_max_outstanding (us_config s) = cap" "0 < cap"
    "udp_max_retries s = retries" "\<And>t. us_timing s = Some t \<Longrightarrow> tc_inv t" "map_ok (us_pending s)" "udp_ledger s = l"
    "udp_ports_ok s" "\<forall>w\<in>set (us_queue s). udp_work_ok retries w" "\<forall>e\<in>set (us_pending s). udp_flight_ok retries e"
    "\<forall>r\<in>set (us_results s). udp_result_ok retries r" "length (us_pending s) \<le> cap" "udp_potential retries s \<le> Suc n"
    using assms(1) by (simp_all add: udp_books_def)
  have f: "udp_fixed s s'" "us_pending s' = map_erase i (us_pending s)" "\<exists>f. timing_change f \<and> us_timing s' = map_option f (us_timing s)"
    using assms(3) by (simp_all add: udp_left_def)
  note m = mset_map_erase [OF b(7) assms(2)]
  have w: "udp_work_ok retries (up_work p)"
    using b(11) map_of_SomeD [OF assms(2)] by (auto simp: udp_flight_ok_def)
  then have r: "udp_result_ok retries r"
    using assms(6-8) by (auto simp: udp_result_ok_def udp_result_of_def udp_work_ok_def)
  have "udp_ledger s' = udp_ledger s"
    using udp_result_key [OF assms(6)] by (simp add: udp_ledger_def assms(4,5) f(2) m)
  moreover have "udp_potential retries s' < udp_potential retries s"
    by (simp add: udp_potential_def assms(4) f(2) m)
  moreover have "length (us_pending s') \<le> length (us_pending s)" by (simp add: f(2) map_erase_def)
  ultimately show ?thesis
    using b f(1) r udp_ports_left [OF b(9,7) assms(2,3)] udp_timing_kept [OF f(1,3)] map_ok_erase [OF b(7)]
    unfolding udp_books_def udp_fixed_def by (auto simp: f(2) assms(4,5) set_map_erase)
qed

lemma udp_books_retry:
  assumes "udp_books db cap retries l (Suc n) s" and "map_of (us_pending s) i = Some p" and "udp_left i p s s'"
    and "us_queue s' = (up_work p)\<lparr>uw_retry_count := Suc (uw_retry_count (up_work p))\<rparr> # us_queue s"
    and "us_results s' = us_results s" and "uw_retry_count (up_work p) < udp_max_retries s"
  shows "udp_books db cap retries l n s'"
proof -
  have b: "us_submitted s" "us_database s = db" "cfg_max_outstanding (us_config s) = cap" "0 < cap"
    "udp_max_retries s = retries" "\<And>t. us_timing s = Some t \<Longrightarrow> tc_inv t" "map_ok (us_pending s)" "udp_ledger s = l"
    "udp_ports_ok s" "\<forall>w\<in>set (us_queue s). udp_work_ok retries w" "\<forall>e\<in>set (us_pending s). udp_flight_ok retries e"
    "\<forall>r\<in>set (us_results s). udp_result_ok retries r" "length (us_pending s) \<le> cap" "udp_potential retries s \<le> Suc n"
    using assms(1) by (simp_all add: udp_books_def)
  have f: "udp_fixed s s'" "us_pending s' = map_erase i (us_pending s)" "\<exists>f. timing_change f \<and> us_timing s' = map_option f (us_timing s)"
    using assms(3) by (simp_all add: udp_left_def)
  note m = mset_map_erase [OF b(7) assms(2)]
  have w: "udp_work_ok retries ((up_work p)\<lparr>uw_retry_count := Suc (uw_retry_count (up_work p))\<rparr>)"
    using b(5,11) map_of_SomeD [OF assms(2)] assms(6) by (auto simp: udp_flight_ok_def udp_work_ok_def)
  have "udp_ledger s' = udp_ledger s"
    by (simp add: udp_ledger_def assms(4,5) f(2) m udp_key_def)
  moreover have "udp_potential retries s' < udp_potential retries s"
    using assms(6) b(5) by (simp add: udp_potential_def assms(4) f(2) m)
  moreover have "length (us_pending s') \<le> length (us_pending s)" by (simp add: f(2) map_erase_def)
  ultimately show ?thesis
    using b f(1) w udp_ports_left [OF b(9,7) assms(2,3)] udp_timing_kept [OF f(1,3)] map_ok_erase [OF b(7)]
    unfolding udp_books_def udp_fixed_def by (auto simp: f(2) assms(4,5) set_map_erase)
qed

lemma udp_assess_semantics:
  "udp_assess db r p = Some (st, rs) \<Longrightarrow> udp_verdict_ok st rs \<and> st \<noteq> PsOpenOrFiltered \<and> st \<noteq> PsUnknown"
  by (auto simp: udp_assess_def udp_verdict_ok_def valid_port_result_semantics.simps
      split: udp_response_kind.splits parsed.splits if_splits)

lemma udp_conflict_semantics: "udp_verdict_ok PsUnknown RsnConflictingEvidence"
  by (simp add: udp_verdict_ok_def valid_port_result_semantics.simps)

lemma udp_timeout_semantics: "udp_verdict_ok PsOpenOrFiltered RsnUdpTimeout"
  by (simp add: udp_verdict_ok_def valid_port_result_semantics.simps)

lemma udp_error_semantics:
  "reason \<in> {RsnInternalError, RsnInvalidTarget, RsnCapabilityUnavailable} \<Longrightarrow> udp_verdict_ok PsError reason"
  by (auto simp: udp_verdict_ok_def valid_port_result_semantics.simps)

lemma udp_books_weaken: "udp_books db cap retries l n s \<Longrightarrow> n \<le> m \<Longrightarrow> udp_books db cap retries l m s"
  by (simp add: udp_books_def)

lemma udp_books_positive:
  assumes "udp_books db cap retries l n s" and "map_of (us_pending s) i = Some p"
  obtains k where "n = Suc k"
proof -
  have "0 < udp_potential retries s"
    using mset_map_erase [of "us_pending s" i p] assms by (simp add: udp_books_def udp_potential_def)
  then show thesis using assms(1) that by (cases n) (simp_all add: udp_books_def)
qed

lemma udp_books_completed:
  assumes "udp_books db cap retries l (Suc n) s" and "map_of (us_pending s) i = Some p"
    and "udp_assess d r p = Some (st, rs)"
  shows "udp_books db cap retries l n (udp_completed env i p st rs instant s)"
proof (rule udp_completedE [of i p s env st rs instant], goal_cases)
  case (1 r')
  show ?case using udp_books_finish [OF assms(1,2) 1(1-4)] udp_assess_semantics [OF assms(3)] by simp
qed

lemma udp_books_timed_out:
  assumes "udp_books db cap retries l (Suc n) s" and "map_of (us_pending s) i = Some p"
  shows "udp_books db cap retries l n (udp_timed_out env i p s)"
proof -
  have p: "udp_flight_ok retries (i, p)" "udp_max_retries s = retries"
    using assms map_of_SomeD [OF assms(2)] by (auto simp: udp_books_def)
  show ?thesis
  proof (rule udp_timed_outE [of i p s env], goal_cases)
    case (1 r st rs)
    then show ?case using p
      by (intro udp_books_finish [OF assms 1(1-4)])
        (auto simp: udp_flight_ok_def udp_timeout_semantics)
  next
    case 2
    then show ?case by (intro udp_books_retry [OF assms])
  qed
qed

lemma udp_max_retries_pending: "udp_max_retries (s\<lparr>us_pending := m\<rparr>) = udp_max_retries s"
  by (simp add: udp_max_retries_def split: option.splits)

lemma udp_books_evidence:
  assumes "udp_books db cap retries l n s" and "map_of (us_pending s) i = Some p"
    and "udp_assess d r p = Some (st, rs)"
  shows "udp_books db cap retries l n
    (s\<lparr>us_pending := map_put i (udp_note_evidence st rs instant p) (us_pending s)\<rparr>)"
proof -
  let ?q = "udp_note_evidence st rs instant p" and ?s' = "s\<lparr>us_pending := map_put i (udp_note_evidence st rs instant p) (us_pending s)\<rparr>"
  have ok: "map_ok (us_pending s)" "udp_flight_ok retries (i, p)" "udp_ports_ok s"
    using assms(1) map_of_SomeD [OF assms(2)] by (auto simp: udp_books_def)
  have q: "up_work ?q = up_work p" "up_submission ?q = up_submission p"
    by (simp_all add: udp_note_evidence_def split: option.splits)
  have fq: "udp_flight_ok retries (i, ?q)"
    using ok(2) udp_assess_semantics [OF assms(3)] udp_conflict_semantics
    by (auto simp: udp_flight_ok_def udp_note_evidence_def split: option.splits)
  note m = mset_map_erase [OF ok(1) assms(2)] and m' = mset_map_put [OF ok(1) assms(2), of ?q]
  have "mset (map source_of (us_pending ?s')) = mset (map source_of (us_pending s))"
    by (simp add: m m' source_of_def q)
  then have src: "distinct (map source_of (us_pending ?s')) = distinct (map source_of (us_pending s))"
    "source_of ` set (us_pending ?s') = source_of ` set (us_pending s)"
    by (rule mset_eq_imp_distinct_iff) (metis \<open>mset (map source_of (us_pending ?s')) = mset (map source_of (us_pending s))\<close>
        list.set_map set_mset_mset)
  have ports: "udp_ports_ok ?s'"
    using ok(3) unfolding udp_ports_ok_alt src by simp
  have "udp_ledger ?s' = udp_ledger s" "udp_potential retries ?s' = udp_potential retries s"
    by (simp_all add: udp_ledger_def udp_potential_def m m' q)
  moreover have "\<forall>e\<in>set (us_pending ?s'). udp_flight_ok retries e"
    using assms(1) fq set_map_put_subset [of i ?q "us_pending s"] by (auto simp: udp_books_def)
  ultimately show ?thesis
    using assms(1) ports map_ok_put [OF ok(1)] length_map_put [OF assms(2)]
    unfolding udp_books_def by (simp add: udp_max_retries_pending)
qed

lemma udp_books_turn:
  assumes "udp_books db cap retries l n s" and "length (us_pending s) < limit" and "limit \<le> cap"
  shows "udp_books db cap retries l n (udp_turn_state (udp_pump_turn env s))"
proof (rule udp_pump_turnE [of s env], goal_cases)
  case 1
  then show ?case using assms(1) by simp
next
  case (2 w rest s')
  have mr: "udp_max_retries s' = udp_max_retries s"
    using 2(3) by (simp add: udp_failed_def udp_fixed_def udp_max_retries_def split: option.splits)
  from 2(3) obtain r reason where r: "us_results s' = us_results s @ [r]" "udp_result_of w PsError reason r"
    "reason \<in> {RsnInternalError, RsnInvalidTarget, RsnCapabilityUnavailable}" by (auto simp: udp_failed_def)
  have "udp_result_ok retries r"
    using assms(1) 2(1) r(2) udp_error_semantics [OF r(3)]
    by (auto simp: udp_books_def udp_result_ok_def udp_result_of_def udp_work_ok_def)
  moreover have "udp_ledger s' = udp_ledger s" "udp_potential retries s' \<le> udp_potential retries s"
    using 2(1,3) r(1) udp_result_key [OF r(2)] by (simp_all add: udp_failed_def udp_ledger_def udp_potential_def)
  ultimately show ?case
    using assms(1) 2 r(1) mr
    by (auto simp: udp_books_def udp_failed_def udp_fixed_def udp_ports_ok_def)
next
  case (3 w rest s' answer)
  have mr: "udp_max_retries s' = udp_max_retries s"
    using 3(3) by (simp add: udp_started_def udp_fixed_def udp_max_retries_def split: option.splits)
  from 3(3) obtain p source where p: "us_pending s' = (us_next_id s, p) # us_pending s" "up_work p = w"
    "up_candidate_state p = None" "in_port_range source" "\<not> us_source_ports s (unat source - 40000)"
    "us_source_ports s' = (us_source_ports s)(unat source - 40000 := True)" "usb_source_port (up_submission p) = source"
    "usb_id (up_submission p) = us_next_id s" "\<not> map_has (us_pending s) (us_next_id s)"
    by (auto simp: udp_started_def Let_def udp_new_submission_def)
  have new: "source_of (us_next_id s, p) = source" by (simp add: source_of_def p(7))
  have fresh: "source \<notin> source_of ` set (us_pending s)"
    using assms(1) p(5) by (auto simp: udp_books_def udp_ports_ok_def)
  have ports: "udp_ports_ok s'"
    using assms(1) fresh p(1,4,6) new by (auto simp: udp_books_def udp_ports_ok_def)
  have w: "udp_work_ok retries w" using assms(1) 3(1) by (simp add: udp_books_def)
  then have fl: "udp_flight_ok retries (us_next_id s, p)" using p by (simp add: udp_flight_ok_def)
  have "udp_ledger s' = udp_ledger s" "udp_potential retries s' = udp_potential retries s"
    using 3(1,3) p(1,2) by (simp_all add: udp_started_def udp_ledger_def udp_potential_def)
  then have "udp_books db cap retries l n s'"
    using assms 3(1,3) p(1,9) mr ports fl
    unfolding udp_books_def by (auto simp: udp_started_def udp_fixed_def map_has_iff)
  then show ?case using 3(2) by simp
qed

interpretation udp_books: udp_invariant env "\<lambda>limit. limit \<le> cap" "udp_books db cap retries l n"
  for env :: "('x, 't) udp_env" and db cap retries l n
proof unfold_locales
  fix s :: "('x, 't) udp_scheduler" and i p r st rs instant now e
  assume a: "udp_books db cap retries l n s"
  show "udp_pump_limit s \<le> cap" using udp_books_limit [OF a] by simp
  show "udp_books db cap retries l n (udp_timing_submitted s)"
  proof -
    have "udp_fixed s (udp_timing_submitted s)" "\<exists>f. timing_change f \<and> us_timing (udp_timing_submitted s) = map_option f (us_timing s)"
      by (simp_all add: udp_timing_submitted_def udp_fixed_def timing_change_step timing_change_intros)
    from udp_timing_kept [OF this] show ?thesis
      using a by (auto simp: udp_books_def udp_timing_submitted_def udp_ledger_def udp_ports_ok_def udp_potential_def)
  qed
  assume p: "map_of (us_pending s) i = Some p"
  obtain k where k: "n = Suc k" by (rule udp_books_positive [OF a p])
  show "udp_books db cap retries l n (udp_completed env i p st rs instant s)" if "udp_assess (us_database s) r p = Some (st, rs)"
    unfolding k by (rule udp_books_weaken [OF udp_books_completed [OF a [unfolded k] p that]]) simp
  show "udp_books db cap retries l n (udp_timed_out env i p (s\<lparr>us_engine := e\<rparr>))"
    unfolding k
  proof (rule udp_books_weaken)
    show "udp_books db cap retries l k (udp_timed_out env i p (s\<lparr>us_engine := e\<rparr>))"
      using a p k by (intro udp_books_timed_out) simp_all
  qed simp
qed (auto intro: udp_books_turn udp_books_evidence)

end
