(* ===== verification/Udp_Scan.thy ===== *)
theory Udp_Scan
  imports Udp_Runs Port_Verdicts
begin

text \<open>
  A UDP scan from \<open>submit\<close> to the return of \<open>run\<close>: the handlers return, the engine's timers are
  those of the probes in flight, every timer that fires uses up an attempt, and a run that
  succeeds has a result for every port.
\<close>

section \<open>Fuel\<close>

lemma udp_small_queue [simp]:
  "us_queue (udp_stop_if_idle s) = us_queue s" "us_queue (udp_timing_submitted s) = us_queue s"
  by (simp_all add: udp_stop_if_idle_def udp_timing_submitted_def)

lemma udp_completed_queue [simp]: "us_queue (udp_completed env i p st rs instant s) = us_queue s"
  by (rule udp_completedE [of i p s env st rs instant])

lemma udp_turn_queue:
  "us_queue s \<noteq> [] \<Longrightarrow> length (us_queue s) = Suc (length (us_queue (udp_turn_state (udp_pump_turn env s))))"
  by (rule udp_pump_turnE [of s env]) (auto simp: udp_failed_def udp_started_def)

lemma udp_receive_total:
  assumes "\<And>t. length (us_queue t) = length (us_queue s) \<Longrightarrow>
    \<exists>t'. k t = Some t' \<and> length (us_queue t') \<le> length (us_queue t)"
  shows "\<exists>s'. udp_receive k env r s = Some s' \<and> length (us_queue s') \<le> length (us_queue s)"
proof -
  obtain instant s1 where c: "udp_completed_time env r s = (instant, s1)" by fastforce
  have q: "us_queue s1 = us_queue s" using c by (auto simp: udp_completed_time_def udp_now_def split: if_splits)
  have k: "\<exists>t'. k (udp_completed env i p st rs instant s1) = Some t' \<and> length (us_queue t') \<le> length (us_queue s)"
    for i p st rs
    using assms [of "udp_completed env i p st rs instant s1"] q by simp
  show ?thesis
    using k q by (auto simp: udp_receive_def udp_complete_pending_alt c split: option.splits)
qed

lemma udp_pump_loop_total:
  assumes "length (us_queue s) \<le> depth" and "length (us_queue s) \<le> turns"
  shows "\<exists>s'. udp_pump_loop env limit depth turns s = Some s' \<and> length (us_queue s') \<le> length (us_queue s)"
  using assms
proof (induction turns arbitrary: limit depth s)
  case 0
  then show ?case by (simp add: udp_pump_loop.simps [of env limit depth 0])
next
  case (Suc turns)
  note unroll = udp_pump_loop.simps [of env limit depth "Suc turns" s]
  show ?case
  proof (cases "us_status s = Ok \<and> us_queue s \<noteq> [] \<and> length (us_pending s) < limit")
    case False
    then show ?thesis by (auto simp: unroll)
  next
    case True
    have q: "length (us_queue s) = Suc (length (us_queue (udp_turn_state (udp_pump_turn env s))))"
      by (rule udp_turn_queue) (use True in blast)
    show ?thesis
    proof (cases "udp_pump_turn env s")
      case (UdpBreaks s1)
      then show ?thesis using True q by (simp add: unroll)
    next
      case (UdpSubmitted answer s1)
      then have l: "length (us_queue s) = Suc (length (us_queue s1))" using q by simp
      show ?thesis
      proof (cases answer)
        case None
        obtain s' where "udp_pump_loop env limit depth turns (udp_timing_submitted s1) = Some s'"
            "length (us_queue s') \<le> length (us_queue s1)"
          using Suc.IH [of "udp_timing_submitted s1" depth limit] l Suc.prems by auto
        then show ?thesis using True UdpSubmitted None l by (simp add: unroll)
      next
        case (Some r)
        obtain depth' where d: "depth = Suc depth'" using l Suc.prems(1) by (cases depth) auto
        have "\<exists>t'. udp_pump_loop env (udp_pump_limit t) depth' turns t = Some t' \<and> length (us_queue t') \<le> length (us_queue t)"
          if "length (us_queue t) = length (us_queue s1)" for t
          using Suc.IH [of t depth' "udp_pump_limit t"] that l Suc.prems d by auto
        then obtain s2 where r: "udp_receive (\<lambda>t. udp_pump_loop env (udp_pump_limit t) depth' turns t) env r s1 = Some s2"
            "length (us_queue s2) \<le> length (us_queue s1)"
          using udp_receive_total [of s1 "\<lambda>t. udp_pump_loop env (udp_pump_limit t) depth' turns t" env r] by blast
        obtain s' where "udp_pump_loop env limit depth turns (udp_timing_submitted s2) = Some s'"
            "length (us_queue s') \<le> length (us_queue s2)"
          using Suc.IH [of "udp_timing_submitted s2" depth limit] l r(2) Suc.prems by auto
        then show ?thesis unfolding unroll using True UdpSubmitted Some l r by (simp add: d)
      qed
    qed
  qed
qed

lemma udp_pump_total: "\<exists>s'. udp_pump env s = Some s' \<and> length (us_queue s') \<le> length (us_queue s)"
  unfolding udp_pump_def by (rule udp_pump_loop_total) simp_all

lemma udp_handlers_total:
  "udp_receive (udp_pump env) env r s \<noteq> None" "udp_on_timeout (udp_pump env) env i s \<noteq> None"
proof -
  have "\<exists>s'. udp_receive (udp_pump env) env r s = Some s' \<and> length (us_queue s') \<le> length (us_queue s)"
    by (rule udp_receive_total) (rule udp_pump_total)
  then show "udp_receive (udp_pump env) env r s \<noteq> None" by auto
  have "udp_pump env t \<noteq> None" for t using udp_pump_total [of env t] by auto
  then show "udp_on_timeout (udp_pump env) env i s \<noteq> None" by (auto simp: udp_on_timeout_def split: option.splits)
qed

section \<open>Transports\<close>

text \<open>What the scheduler needs of a transport: it leaves the timers of others alone.\<close>

locale udp_transport =
  fixes env :: "('x, 't) udp_env"
  assumes submit_timers: "ue_submit env sub (e, t) = (st, answer, e', t') \<Longrightarrow> timers_kept e e'"
    and cancel_timers: "ue_cancel env i (e, t) = (e', t') \<Longrightarrow> timers_kept e e'"
    and event_timers: "ue_event env x (e, t) = (answers, e', t') \<Longrightarrow> timers_kept e e'"

text \<open>
  The timers of a scan are those of its probes in flight, and the engine is only asked to stop
  when nothing is left.
\<close>

definition udp_timers :: "('x, 't) udp_scheduler \<Rightarrow> bool" where
  "udp_timers s \<longleftrightarrow> timers_are (us_engine s) (\<lambda>i. map_option up_timer (map_of (us_pending s) i))"

definition udp_stop_ok :: "('x, 't) udp_scheduler \<Rightarrow> bool" where
  "udp_stop_ok s \<longleftrightarrow> (eng_stopped (us_engine s) \<longrightarrow> udp_complete s)"

lemma pending_timers_erase:
  "(\<lambda>j. map_option up_timer (map_of (map_erase i m) j)) = (\<lambda>j. map_option up_timer (map_of m j))(i := None)"
  by (auto simp: map_of_erase)

lemma udp_scheduled_stopped: "udp_scheduled e i tid e' \<Longrightarrow> eng_stopped e' = eng_stopped e"
  by (auto simp: udp_scheduled_def dest: schedule_stopped)

context udp_transport begin

lemma cancel_probe_kept: "timers_kept (us_engine s) (us_engine (udp_cancel_probe env i s))"
  using cancel_timers [of i "us_engine s" "us_transport s"] by (simp add: udp_cancel_probe_def split: prod.splits)

lemma undone_timers:
  assumes "timers_are (us_engine s) f" and "udp_undone env s e"
  shows "timers_are e f \<and> (eng_stopped e \<longrightarrow> eng_stopped (us_engine s))"
  using assms(2)
proof (cases rule: udp_undone.cases)
  case not_scheduled
  then show ?thesis using assms(1) by simp
next
  case (timer_cancelled i tid e0)
  then show ?thesis
    using timers_are_schedule_cancel [OF assms(1) _ _ timers_kept_refl]
    by (auto simp: udp_scheduled_def dest: schedule_stopped)
next
  case (submit_refused i tid e0 sub st a e' t)
  then show ?thesis
    using timers_are_schedule_cancel [OF assms(1) _ _ submit_timers [OF submit_refused(3)]] submit_timers [OF submit_refused(3)]
    by (auto simp: udp_scheduled_def timers_kept_def dest: schedule_stopped)
qed

lemma turn_timers:
  assumes "udp_timers s \<and> udp_stop_ok s"
  shows "udp_timers (udp_turn_state (udp_pump_turn env s)) \<and> udp_stop_ok (udp_turn_state (udp_pump_turn env s))"
proof (rule udp_pump_turnE [of s env], goal_cases)
  case 1
  then show ?case using assms by simp
next
  case (2 w rest s')
  then have n: "\<not> eng_stopped (us_engine s)" using assms by (auto simp: udp_stop_ok_def udp_complete_def)
  have "udp_undone env (s\<lparr>us_queue := rest\<rparr>) (us_engine s')" "us_pending s' = us_pending s"
    using 2(3) by (simp_all add: udp_failed_def)
  then show ?case
    using undone_timers [of "s\<lparr>us_queue := rest\<rparr>"] assms 2(2) n by (auto simp: udp_timers_def udp_stop_ok_def)
next
  case (3 w rest s' answer)
  then have n: "\<not> eng_stopped (us_engine s)" using assms by (auto simp: udp_stop_ok_def udp_complete_def)
  from 3(3) obtain p e t where p: "us_pending s' = (us_next_id s, p) # us_pending s" "\<not> map_has (us_pending s) (us_next_id s)"
    "udp_scheduled (us_engine s) (us_next_id s) (up_timer p) e"
    "ue_submit env (up_submission p) (e, us_transport s) = (Ok, answer, us_engine s', t)"
    by (auto simp: udp_started_def Let_def)
  have k: "timers_kept e (us_engine s')" by (rule submit_timers [OF p(4)])
  let ?f = "\<lambda>i. map_option up_timer (map_of (us_pending s) i)"
  have "timers_are e (?f(us_next_id s \<mapsto> up_timer p))"
    using p(2,3) assms timers_are_schedule [of "us_engine s" ?f]
    by (auto simp: udp_scheduled_def udp_timers_def map_has_def)
  then have "timers_are (us_engine s') (?f(us_next_id s \<mapsto> up_timer p))" using k by (rule timers_are_kept)
  moreover have "(\<lambda>i. map_option up_timer (map_of (us_pending s') i)) = ?f(us_next_id s \<mapsto> up_timer p)"
    by (auto simp: p(1))
  ultimately have "udp_timers s'" by (simp add: udp_timers_def)
  moreover have "\<not> eng_stopped (us_engine s')" using k n udp_scheduled_stopped [OF p(3)] by (auto simp: timers_kept_def)
  ultimately show ?case using 3(2) by (simp add: udp_stop_ok_def)
qed

end

sublocale udp_transport < timers: udp_invariant env "\<lambda>_. True" "\<lambda>s. udp_timers s \<and> udp_stop_ok s"
proof unfold_locales
  fix s :: "('x, 't) udp_scheduler" and i p r st rs instant
  assume a: "udp_timers s \<and> udp_stop_ok s" and p: "map_of (us_pending s) i = Some p"
  let ?f = "\<lambda>j. map_option up_timer (map_of (us_pending s) j)"
  have n: "\<not> eng_stopped (us_engine s)" using a p by (auto simp: udp_stop_ok_def udp_complete_def)
  have "timers_are (engine_cancel (up_timer p) (us_engine s)) (?f(i := None))"
    using a p by (intro timers_are_cancel) (simp_all add: udp_timers_def)
  moreover have k: "timers_kept (engine_cancel (up_timer p) (us_engine s))
      (us_engine (udp_cancel_probe env i (udp_cancel_timer (up_timer p) s)))"
    using cancel_probe_kept [of "udp_cancel_timer (up_timer p) s" i] by (simp add: udp_cancel_timer_def)
  ultimately have t: "timers_are (us_engine (udp_cancel_probe env i (udp_cancel_timer (up_timer p) s))) (?f(i := None))"
    by (rule timers_are_kept)
  show "udp_timers (udp_completed env i p st rs instant s) \<and> udp_stop_ok (udp_completed env i p st rs instant s)"
    using t k n by (rule_tac udp_completedE [of i p s env st rs instant])
      (auto simp: udp_timers_def udp_stop_ok_def udp_left_def pending_timers_erase timers_kept_def)
next
  fix s :: "('x, 't) udp_scheduler" and now i p e
  assume a: "udp_timers s \<and> udp_stop_ok s" and f: "dispatch_turn now (us_engine s) = TurnFires (OnTimeout i) e"
    and p: "map_of (us_pending s) i = Some p"
  let ?f = "\<lambda>j. map_option up_timer (map_of (us_pending s) j)" and ?s = "s\<lparr>us_engine := e\<rparr>"
  have "timers_are e (?f(i := None))" using a f by (intro timers_are_fires(1)) (simp_all add: udp_timers_def)
  moreover have k: "timers_kept e (us_engine (udp_cancel_probe env i ?s))" using cancel_probe_kept [of ?s i] by simp
  ultimately have t: "timers_are (us_engine (udp_cancel_probe env i ?s)) (?f(i := None))" by (rule timers_are_kept)
  have n: "\<not> eng_stopped (us_engine (udp_cancel_probe env i ?s))"
    using k fires_stopped [OF f] by (auto simp: timers_kept_def)
  show "udp_timers (udp_timed_out env i p ?s) \<and> udp_stop_ok (udp_timed_out env i p ?s)"
    using t n by (rule_tac udp_timed_outE [of i p ?s env])
      (simp_all add: udp_timers_def udp_stop_ok_def udp_left_def pending_timers_erase)
next
  fix s :: "('x, 't) udp_scheduler" and now i e
  assume a: "udp_timers s \<and> udp_stop_ok s" and f: "dispatch_turn now (us_engine s) = TurnFires (OnTimeout i) e"
    and p: "map_of (us_pending s) i = None"
  then show "udp_timers (s\<lparr>us_engine := e\<rparr>) \<and> udp_stop_ok (s\<lparr>us_engine := e\<rparr>)"
    using timers_are_fires(2) [of "us_engine s" "\<lambda>j. map_option up_timer (map_of (us_pending s) j)", OF _ f]
    by (simp add: udp_timers_def)
next
  fix s :: "('x, 't) udp_scheduler" and now cb e
  assume a: "udp_timers s \<and> udp_stop_ok s" and f: "dispatch_turn now (us_engine s) = TurnFires cb e" "\<And>i. cb \<noteq> OnTimeout i"
  then show "udp_timers (s\<lparr>us_engine := e\<rparr>) \<and> udp_stop_ok (s\<lparr>us_engine := e\<rparr>)"
    using timers_are_fires_other [OF _ f] fires_stopped [OF f(1)] by (simp add: udp_timers_def udp_stop_ok_def)
next
  fix s :: "('x, 't) udp_scheduler" and limit :: nat
  assume "udp_timers s \<and> udp_stop_ok s"
  then show "udp_timers (udp_turn_state (udp_pump_turn env s)) \<and> udp_stop_ok (udp_turn_state (udp_pump_turn env s))"
    by (rule turn_timers)
next
  fix s :: "('x, 't) udp_scheduler" and e t x answers i p st rs instant n
  assume a: "udp_timers s \<and> udp_stop_ok s"
  show "udp_timers (s\<lparr>us_reads := n\<rparr>) \<and> udp_stop_ok (s\<lparr>us_reads := n\<rparr>)"
    using a by (simp add: udp_timers_def udp_stop_ok_def udp_complete_def)
  show "udp_timers (s\<lparr>us_engine := e\<rparr>) \<and> udp_stop_ok (s\<lparr>us_engine := e\<rparr>)" if "timers_kept (us_engine s) e"
    using a that timers_are_kept [OF _ that] by (simp add: udp_timers_def udp_stop_ok_def udp_complete_def timers_kept_def)
  show "udp_timers (s\<lparr>us_engine := e, us_transport := t\<rparr>) \<and> udp_stop_ok (s\<lparr>us_engine := e, us_transport := t\<rparr>)"
    if "ue_event env x (us_engine s, us_transport s) = (answers, e, t)"
    using a event_timers [OF that] timers_are_kept [OF _ event_timers [OF that]]
    by (simp add: udp_timers_def udp_stop_ok_def udp_complete_def timers_kept_def)
  show "udp_timers (s\<lparr>us_engine := engine_stop (us_engine s)\<rparr>) \<and> udp_stop_ok (s\<lparr>us_engine := engine_stop (us_engine s)\<rparr>)"
    if "udp_complete s"
    using a that timers_are_stop by (simp add: udp_timers_def udp_stop_ok_def udp_complete_def)
  show "udp_timers (udp_timing_submitted s) \<and> udp_stop_ok (udp_timing_submitted s)"
    using a by (simp add: udp_timers_def udp_stop_ok_def udp_complete_def udp_timing_submitted_def)
  assume p: "map_of (us_pending s) i = Some p"
  have "up_timer (udp_note_evidence st rs instant p) = up_timer p"
    by (simp add: udp_note_evidence_def split: option.splits)
  then have "(\<lambda>j. map_option up_timer (map_of (map_put i (udp_note_evidence st rs instant p) (us_pending s)) j)) =
      (\<lambda>j. map_option up_timer (map_of (us_pending s) j))"
    using p by (auto simp: map_of_put)
  then show "udp_timers (s\<lparr>us_pending := map_put i (udp_note_evidence st rs instant p) (us_pending s)\<rparr>) \<and>
      udp_stop_ok (s\<lparr>us_pending := map_put i (udp_note_evidence st rs instant p) (us_pending s)\<rparr>)"
    using a p by (auto simp: udp_timers_def udp_stop_ok_def udp_complete_def)
qed simp

section \<open>A scan keeps moving\<close>

definition udp_going :: "('x, 't) udp_scheduler \<Rightarrow> bool" where
  "udp_going s \<longleftrightarrow> (us_status s = Ok \<longrightarrow> us_queue s = [] \<or> us_pending s \<noteq> [])"

lemma udp_stop_if_idle_going [simp]: "udp_going (udp_stop_if_idle s) = udp_going s"
  by (simp add: udp_going_def udp_stop_if_idle_def)

lemma udp_pump_loop_going:
  assumes "udp_pump_loop env limit depth turns s = Some s'" and "1 \<le> limit"
  shows "udp_going s'"
  using assms(1)
proof (induction turns arbitrary: depth s)
  case 0
  then show ?case using assms(2)
    by (auto simp: udp_pump_loop.simps [of env limit depth 0] udp_going_def udp_stop_if_idle_def split: if_splits)
next
  case (Suc turns)
  note unroll = udp_pump_loop.simps [of env limit depth "Suc turns" s]
  show ?case
  proof (cases "us_status s = Ok \<and> us_queue s \<noteq> [] \<and> length (us_pending s) < limit")
    case False
    then have "s' = udp_stop_if_idle s" using Suc.prems by (auto simp: unroll)
    moreover have "udp_going s" using False assms(2) by (auto simp: udp_going_def)
    ultimately show ?thesis by simp
  next
    case True
    show ?thesis
    proof (cases "udp_pump_turn env s")
      case (UdpBreaks s1)
      then have "us_status s1 \<noteq> Ok"
        using True by (rule_tac udp_pump_turnE [of s env]) (auto simp: udp_failed_def)
      then have "udp_going s1" by (simp add: udp_going_def)
      moreover have "s' = udp_stop_if_idle s1" using True UdpBreaks Suc.prems by (simp add: unroll)
      ultimately show ?thesis by simp
    next
      case (UdpSubmitted answer s1)
      then show ?thesis using True Suc.prems Suc.IH
        by (auto simp: unroll split: option.splits nat.splits)
    qed
  qed
qed

lemma udp_pump_going: "udp_pump env s = Some s' \<Longrightarrow> udp_books db cap retries l n s \<Longrightarrow> udp_going s'"
  unfolding udp_pump_def using udp_books_limit by (blast intro: udp_pump_loop_going)

lemma udp_receive_going:
  assumes "udp_receive (udp_pump env) env r s = Some s'" and "udp_books db cap retries l n s" and "udp_going s"
  shows "udp_going s'"
proof (cases "\<exists>p a st rs. map_of (us_pending s) (urs_id r) = Some p \<and>
    probe_address (ue_libc env) (uw_host (up_work p)) = Some a \<and> \<not> udp_foreign a r p \<and>
    udp_assess (us_database s) r p = Some (st, rs)")
  case False
  then have "s' = s" using assms(1) by (auto simp: udp_receive_def split: option.splits if_splits)
  then show ?thesis using assms(3) by simp
next
  case True
  then obtain p a st rs where p: "map_of (us_pending s) (urs_id r) = Some p"
    "probe_address (ue_libc env) (uw_host (up_work p)) = Some a" "\<not> udp_foreign a r p"
    "udp_assess (us_database s) r p = Some (st, rs)" by blast
  obtain instant s1 where c: "udp_completed_time env r s = (instant, s1)" by fastforce
  then have s1: "s1 = s \<or> s1 = s\<lparr>us_reads := Suc (us_reads s)\<rparr>"
    by (auto simp: udp_completed_time_def udp_now_def split: if_splits)
  have p1: "map_of (us_pending s1) (urs_id r) = Some p" "udp_assess (us_database s1) r p = Some (st, rs)"
    and b1: "udp_books db cap retries l n s1" and g1: "udp_going s1"
    using p(1,4) s1 assms(2,3) by (auto simp: udp_going_def)
  have "s' = s1 \<or> udp_pump env (udp_completed env (urs_id r) p st rs instant s1) = Some s' \<or>
      s' = s1\<lparr>us_pending := map_put (urs_id r) (udp_note_evidence st rs instant p) (us_pending s1)\<rparr>"
    using assms(1) p c by (auto simp: udp_receive_def udp_complete_pending_alt p1 split: if_splits)
  then show ?thesis
    using g1 udp_pump_going [OF _ udp_books.inv_completed [OF b1 p1]] by (auto simp: udp_going_def)
qed

lemma udp_step_going:
  assumes "udp_step env fired s s'" and "udp_books db cap retries l n s" and "udp_going s"
  shows "udp_going s'"
  using assms(1)
proof (cases rule: udp_step.cases)
  case (response r)
  then show ?thesis using udp_receive_going assms(2,3) by blast
next
  case (timeout now i e)
  show ?thesis
  proof (cases "map_of (us_pending s) i")
    case None
    then show ?thesis using timeout(3) assms(3) by (auto simp: udp_on_timeout_def udp_going_def)
  next
    case (Some p)
    then have "udp_pump env (udp_timed_out env i p (s\<lparr>us_engine := e\<rparr>)) = Some s'"
      using timeout(3) by (simp add: udp_on_timeout_def)
    from udp_pump_going [OF this udp_books.inv_timeout [OF assms(2) timeout(2) Some]] show ?thesis .
  qed
qed (use assms(3) in \<open>auto simp: udp_going_def\<close>)

section \<open>Runs\<close>

lemma udp_step_bounded:
  assumes "udp_step env fired s s'" and "udp_books db cap retries l n s" and "udp_timers s"
  shows "udp_books db cap retries l (n - (if fired then 1 else 0)) s' \<and> (fired \<longrightarrow> 0 < n)"
  using assms
proof (cases rule: udp_step.cases)
  case (timeout now i e)
  have "map_option up_timer (map_of (us_pending s) i) \<noteq> None"
    by (rule timers_are_fires(2) [OF _ timeout(2)]) (use assms(3) in \<open>simp add: udp_timers_def\<close>)
  then obtain p where p: "map_of (us_pending s) i = Some p" by auto
  obtain k where k: "n = Suc k" by (rule udp_books_positive [OF assms(2) p])
  have "udp_books db cap retries l k (udp_timed_out env i p (s\<lparr>us_engine := e\<rparr>))"
    using assms(2) p k by (intro udp_books_timed_out) simp_all
  moreover have "udp_pump env (udp_timed_out env i p (s\<lparr>us_engine := e\<rparr>)) = Some s'"
    using timeout(3) p by (simp add: udp_on_timeout_def)
  ultimately show ?thesis using udp_books.pump_inv k timeout(1) by auto
qed (use udp_books.step_inv [OF assms(1,2)] in simp_all)

definition udp_requested_work :: "udp_database \<Rightarrow> target \<Rightarrow> port list \<Rightarrow> udp_work list" where
  "udp_requested_work db target ports = concat (map (\<lambda>h. map (udp_new_work db h) ports) (resolved_hosts target))"

text \<open>
  A scan that was accepted: a fresh scheduler on an engine without timers of its own, hosts with
  addresses, and a \<open>submit\<close> that got past its checks.
\<close>

definition udp_scan_started ::
  "('x, 't) udp_env \<Rightarrow> 'x sched_callback engine \<Rightarrow> 't \<Rightarrow> udp_database \<Rightarrow> port_scan_config \<Rightarrow> target \<Rightarrow> port list \<Rightarrow>
     ('x, 't) udp_scheduler \<Rightarrow> bool" where
  "udp_scan_started env e t db cfg target ports s \<longleftrightarrow>
     timers_are e (\<lambda>_. None) \<and> \<not> eng_stopped e \<and>
     (\<forall>h\<in>set (resolved_hosts target). probe_address (ue_libc env) h \<noteq> None) \<and>
     map_option snd (udp_submit env target ports (new_udp_scheduler e t db cfg)) = Some s \<and> us_submitted s"

lemma udp_enqueue_valid_hosts:
  "\<forall>h\<in>set hosts. probe_address (ue_libc env) h \<noteq> None \<Longrightarrow>
     fold (udp_enqueue_host env ports) hosts s =
       s\<lparr>us_queue := us_queue s @ concat (map (\<lambda>h. map (udp_new_work (us_database s) h) ports) hosts)\<rparr>"
  by (induction hosts arbitrary: s) (auto simp: udp_enqueue_host_def)

lemma udp_scan_startedE:
  assumes "udp_scan_started env e t db cfg target ports s"
  obtains s1 s2 where
    "s1 = (new_udp_scheduler e t db cfg)\<lparr>us_submitted := True, us_queue := udp_requested_work db target ports\<rparr>"
    and "udp_pump env s1 = Some s2" and "s = udp_stop_if_idle s2"
    and "udp_validate_config env (new_udp_scheduler e t db cfg) = Ok"
    and "\<forall>p\<in>set ports. port_protocol p = Udp \<and> port_number p \<noteq> 0"
    and "resolved_hosts target \<noteq> []" and "ports \<noteq> []"
proof -
  let ?n = "new_udp_scheduler e t db cfg :: ('a, 'b) udp_scheduler"
  let ?s1 = "?n\<lparr>us_submitted := True, us_queue := udp_requested_work db target ports\<rparr>"
  have v: "\<forall>h\<in>set (resolved_hosts target). probe_address (ue_libc env) h \<noteq> None" and sub: "us_submitted s"
    and eq: "map_option snd (udp_submit env target ports ?n) = Some s"
    using assms by (simp_all add: udp_scan_started_def)
  have n: "\<not> us_submitted ?n" "us_status ?n = Ok" "us_queue ?n = []" "us_database ?n = db"
    by (simp_all add: new_udp_scheduler_def)
  have c: "udp_validate_config env ?n = Ok" "\<not> (resolved_hosts target = [] \<or> ports = [] \<or>
      (\<exists>p\<in>set ports. port_protocol p \<noteq> Udp \<or> port_number p = 0))"
    using eq sub n by (auto simp: udp_submit_def Let_def split: if_splits)
  have "fold (udp_enqueue_host env ports) (resolved_hosts target) (?n\<lparr>us_submitted := True\<rparr>) = ?s1"
    unfolding udp_enqueue_valid_hosts [OF v] by (simp add: udp_requested_work_def n)
  then have "udp_submit env target ports ?n =
      (case udp_pump env ?s1 of None \<Rightarrow> None | Some s2 \<Rightarrow> Some (us_status (udp_stop_if_idle s2), udp_stop_if_idle s2))"
    using n c by (simp add: udp_submit_def Let_def split: option.splits)
  with eq obtain s2 where "udp_pump env ?s1 = Some s2" "s = udp_stop_if_idle s2" by (auto split: option.splits)
  with c that show thesis by auto
qed

lemma udp_work_keys:
  "image_mset udp_key (mset (udp_requested_work db target ports)) = requested target ports"
proof -
  have "image_mset udp_key (mset (concat (map (\<lambda>h. map (udp_new_work db h) ports) hosts))) =
      (\<Sum>h\<in>#mset hosts. image_mset (Pair (h_address h)) (mset ports))" for hosts
    by (induction hosts) (simp_all add: udp_key_def udp_new_work_def image_mset.compositionality comp_def)
  then show ?thesis by (simp add: udp_requested_work_def requested_def)
qed

lemma udp_work_weight:
  "(\<Sum>w\<in>#mset (udp_requested_work db target ports). Suc (retries - uw_retry_count w)) =
     length (resolved_hosts target) * length ports * Suc retries"
proof -
  have "(\<Sum>w\<in>#mset (map (udp_new_work db h) ports). Suc (retries - uw_retry_count w)) = length ports * Suc retries" for h
    by (induction ports) (simp_all add: udp_new_work_def)
  then have "(\<Sum>w\<in>#mset (concat (map (\<lambda>h. map (udp_new_work db h) ports) hosts)). Suc (retries - uw_retry_count w)) =
      length hosts * length ports * Suc retries" for hosts
    by (induction hosts) (simp_all add: algebra_simps)
  then show ?thesis by (simp add: udp_requested_work_def)
qed

lemma udp_start_books:
  assumes "s1 = (new_udp_scheduler e t db cfg)\<lparr>us_submitted := True, us_queue := udp_requested_work db target ports\<rparr>"
    and "udp_validate_config env (new_udp_scheduler e t db cfg) = Ok"
    and "\<forall>p\<in>set ports. port_protocol p = Udp \<and> port_number p \<noteq> 0"
  shows "udp_books db (cfg_max_outstanding cfg) (scan_retries cfg) (requested target ports)
      (length (resolved_hosts target) * length ports * Suc (scan_retries cfg)) s1"
proof -
  have f: "us_config s1 = cfg" "us_engine s1 = e" "us_database s1 = db"
    "us_timing s1 = (if cfg_adaptive_timing cfg then Some (new_timing_controller (cfg_timing_profile cfg)) else None)"
    "us_queue s1 = udp_requested_work db target ports" "us_pending s1 = []" "us_results s1 = []" "us_submitted s1"
    "us_source_ports s1 = (\<lambda>_. False)"
    by (simp_all add: assms(1) new_udp_scheduler_def)
  have v: "cfg_max_outstanding cfg \<noteq> 0" "\<And>t. us_timing s1 = Some t \<Longrightarrow> tc_validate t = Ok"
    using assms(2) by (auto simp: udp_validate_config_def f new_udp_scheduler_def Let_def split: if_splits option.splits)
  have "udp_max_retries s1 = scan_retries cfg" by (simp add: udp_max_retries_def f scan_retries_def new_timing_controller_def)
  moreover have "tc_inv t" if "us_timing s1 = Some t" for t
  proof -
    have "profile_validate (cfg_timing_profile cfg) = Ok"
      using v(2) [OF that] that by (auto simp: f tc_validate_def new_timing_controller_def split: if_splits)
    then show ?thesis using that by (auto simp: f tc_inv_new split: if_splits)
  qed
  moreover have "udp_work_ok (scan_retries cfg) w" if "w \<in> set (us_queue s1)" for w
    using that assms(3) by (auto simp: f udp_requested_work_def udp_work_ok_def udp_new_work_def)
  ultimately show ?thesis
    using v(1) udp_work_weight [of "scan_retries cfg" db target ports]
    by (simp add: udp_books_def f udp_ledger_def udp_ports_ok_def udp_potential_def udp_work_keys)
qed

context udp_transport begin

lemma udp_start_ok:
  assumes "udp_scan_started env e t db cfg target ports s"
  shows "udp_books db (cfg_max_outstanding cfg) (scan_retries cfg) (requested target ports)
      (length (resolved_hosts target) * length ports * Suc (scan_retries cfg)) s"
    and "udp_timers s \<and> udp_stop_ok s" and "udp_going s"
proof -
  obtain s1 s2 where s1: "s1 = (new_udp_scheduler e t db cfg)\<lparr>us_submitted := True,
      us_queue := udp_requested_work db target ports\<rparr>"
    and s2: "udp_pump env s1 = Some s2" "s = udp_stop_if_idle s2"
    and c: "udp_validate_config env (new_udp_scheduler e t db cfg) = Ok"
      "\<forall>p\<in>set ports. port_protocol p = Udp \<and> port_number p \<noteq> 0"
    by (rule udp_scan_startedE [OF assms])
  note b = udp_start_books [OF s1 c]
  show "udp_books db (cfg_max_outstanding cfg) (scan_retries cfg) (requested target ports)
      (length (resolved_hosts target) * length ports * Suc (scan_retries cfg)) s"
    unfolding s2(2) by (rule udp_books.inv_stop_if_idle [OF udp_books.pump_inv [OF s2(1) b]])
  have "udp_timers s1 \<and> udp_stop_ok s1"
    using assms by (simp add: s1 udp_timers_def udp_stop_ok_def new_udp_scheduler_def udp_scan_started_def)
  then show "udp_timers s \<and> udp_stop_ok s"
    unfolding s2(2) by (intro timers.inv_stop_if_idle timers.pump_inv [OF s2(1)])
  show "udp_going s" unfolding s2(2) udp_stop_if_idle_going by (rule udp_pump_going [OF s2(1) b])
qed

lemma udp_steps_all:
  assumes "udp_steps env k s s'" and "udp_books db cap retries l n s" and "udp_timers s \<and> udp_stop_ok s" and "udp_going s"
  shows "k \<le> n \<and> udp_books db cap retries l (n - k) s' \<and> udp_timers s' \<and> udp_stop_ok s' \<and> udp_going s'"
  using assms
proof (induction rule: udp_steps.induct)
  case (step k s s' fired s'')
  then have b: "k \<le> n" "udp_books db cap retries l (n - k) s'" "udp_timers s' \<and> udp_stop_ok s'" "udp_going s'" by auto
  have "udp_timers s'' \<and> udp_stop_ok s''" by (rule timers.step_inv [OF step.hyps(2) b(3)])
  moreover have "udp_going s''" by (rule udp_step_going [OF step.hyps(2) b(2,4)])
  ultimately show ?case using udp_step_bounded [OF step.hyps(2) b(2)] b(1,3) by (cases fired) auto
qed simp

end

section \<open>The reactor's loop\<close>

definition udp_leads :: "('x, 't) udp_env \<Rightarrow> ('x, 't) udp_scheduler \<Rightarrow> ('x, 't) udp_scheduler \<Rightarrow> bool" where
  "udp_leads env s s' \<longleftrightarrow> (\<exists>n. udp_steps env n s s')"

lemma udp_leads_refl: "udp_leads env s s"
  using udp_steps.start [of env s] by (auto simp: udp_leads_def)

lemma udp_steps_trans:
  assumes "udp_steps env n s' s''" and "udp_steps env m s s'"
  shows "\<exists>k. udp_steps env k s s''"
  using assms by (induction rule: udp_steps.induct) (blast intro: udp_steps.step)+

lemma udp_leads_trans: "udp_leads env s s' \<Longrightarrow> udp_leads env s' s'' \<Longrightarrow> udp_leads env s s''"
  using udp_steps_trans by (fastforce simp: udp_leads_def)

lemma udp_leads_step: "udp_step env fired s s' \<Longrightarrow> udp_leads env s s'"
  using udp_steps.step [OF udp_steps.start] by (fastforce simp: udp_leads_def)

lemma udp_embedding_fields [simp]:
  "get_engine (udp_embedding env) = us_engine" "put_engine (udp_embedding env) = (\<lambda>e s. s\<lparr>us_engine := e\<rparr>)"
  "read_clock (udp_embedding env) = udp_now env" "call (udp_embedding env) = udp_handle env"
  by (simp_all add: udp_embedding_def)

lemma udp_leads_transport: "udp_leads env s (udp_handle env (TransportEvent x) s)"
proof -
  obtain answers e t where ev: "ue_event env x (us_engine s, us_transport s) = (answers, e, t)" by (metis prod_cases3)
  let ?s0 = "s\<lparr>us_engine := e, us_transport := t\<rparr>"
  have r: "udp_leads env s1 (the (udp_receive (udp_pump env) env r s1))" for r s1
    using udp_handlers_total(1) [of env r s1] by (intro udp_leads_step [OF udp_step.response]) simp
  have "udp_leads env ?s0 (fold (\<lambda>r s. the (udp_receive (udp_pump env) env r s)) rs ?s0)" for rs
  proof (induction rs rule: rev_induct)
    case (snoc r' rs)
    from udp_leads_trans [OF snoc r] show ?case by simp
  qed (simp add: udp_leads_refl)
  then show ?thesis
    using udp_leads_trans [OF udp_leads_step [OF udp_step.transport_event [OF ev]]] by (simp add: ev)
qed

lemma udp_leads_fires:
  assumes "dispatch_turn now (us_engine s) = TurnFires cb e"
  shows "udp_leads env s (udp_handle env cb (s\<lparr>us_engine := e\<rparr>))"
proof (cases cb)
  case (OnTimeout i)
  have "udp_on_timeout (udp_pump env) env i (s\<lparr>us_engine := e\<rparr>) = Some (udp_handle env cb (s\<lparr>us_engine := e\<rparr>))"
    using udp_handlers_total(2) [of env i "s\<lparr>us_engine := e\<rparr>"] by (simp add: OnTimeout)
  from udp_leads_step [OF udp_step.timeout [OF assms [unfolded OnTimeout] this]] show ?thesis .
next
  case (OnRetryReady i)
  then show ?thesis using udp_leads_step [OF udp_step.other_timer [OF assms]] by simp
next
  case (TransportEvent x)
  have "udp_leads env s (s\<lparr>us_engine := e\<rparr>)" using udp_leads_step [OF udp_step.other_timer [OF assms]] TransportEvent by simp
  from udp_leads_trans [OF this udp_leads_transport] show ?thesis unfolding TransportEvent .
qed

sublocale udp_transport < loop: engine_steps "udp_embedding env" "udp_leads env" "\<lambda>s. udp_timers s \<and> udp_stop_ok s"
proof unfold_locales
  fix s :: "('x, 't) udp_scheduler" and s' now cb e x
  show "udp_leads env s s' \<Longrightarrow> udp_timers s \<and> udp_stop_ok s \<Longrightarrow> udp_timers s' \<and> udp_stop_ok s'"
    using timers.steps_inv by (auto simp: udp_leads_def)
  show "udp_timers s \<and> udp_stop_ok s \<Longrightarrow> wired (get_engine (udp_embedding env) s)"
    by (simp add: udp_timers_def timers_are_def)
  show "udp_leads env s (snd (read_clock (udp_embedding env) s))"
    by (simp add: udp_now_def udp_leads_step [OF udp_step.clock])
  show "udp_leads env s (call (udp_embedding env) cb (put_engine (udp_embedding env) e s))"
    if "dispatch_turn now (get_engine (udp_embedding env) s) = TurnFires cb e"
    using udp_leads_fires that by simp
  show "udp_leads env s (call (udp_embedding env) (TransportEvent x) s)"
    unfolding udp_embedding_fields by (rule udp_leads_transport)
  show "udp_leads env s (put_engine (udp_embedding env) e s)" if "timers_kept (get_engine (udp_embedding env) s) e"
    using that udp_leads_step [OF udp_step.engine] by simp
qed (auto simp: udp_leads_refl intro: udp_leads_trans)

context udp_transport begin

lemma udp_leads_run:
  assumes "engine_run (udp_embedding env) polls s = Some (st, s')" and "udp_timers s \<and> udp_stop_ok s"
  shows "udp_leads env s s' \<and> (st = Ok \<longrightarrow> eng_stopped (us_engine s') \<or> idle (us_engine s'))"
  using loop.leads_run [OF assms] by simp

end

section \<open>What holds throughout a scan\<close>

lemma udp_scan_throughout:
  assumes "udp_transport env" and "udp_scan_started env e t db cfg target ports s0" and "udp_steps env n s0 s"
  shows "n \<le> length (resolved_hosts target) * length ports * Suc (scan_retries cfg)"
    and "udp_books db (cfg_max_outstanding cfg) (scan_retries cfg) (requested target ports)
      (length (resolved_hosts target) * length ports * Suc (scan_retries cfg) - n) s"
    and "udp_timers s" and "udp_stop_ok s" and "udp_going s"
  using udp_transport.udp_steps_all [OF assms(1,3) udp_transport.udp_start_ok [OF assms(1,2)]] by blast+

lemma udp_ledger_complete:
  "udp_books db cap retries l n s \<Longrightarrow> udp_complete s \<Longrightarrow> image_mset result_key (mset (us_results s)) = l"
  by (auto simp: udp_books_def udp_ledger_def udp_complete_def)

lemma udp_going_has_timer:
  assumes "udp_going s" and "udp_timers s" and "us_status s = Ok" and "us_submitted s" and "\<not> udp_complete s"
  shows "\<exists>i tid. timer_for (OnTimeout i) (us_engine s) tid"
proof -
  have "us_pending s \<noteq> []" using assms(1,3-5) by (auto simp: udp_going_def udp_complete_def)
  then obtain i p where "map_of (us_pending s) i = Some p"
    by (metis list.set_intros(1) map_of_eq_None_iff not_None_eq image_eqI neq_Nil_conv)
  then show ?thesis using assms(2) by (auto simp: udp_timers_def timers_are_def)
qed

section \<open>The recording transport\<close>

definition recording_udp_env :: "libc \<Rightarrow> (nat \<Rightarrow> int) \<Rightarrow> (unit, unit recording_udp) udp_env" where
  "recording_udp_env lc clock =
     \<lparr>ue_libc = lc, ue_clock = clock, ue_supports = (\<lambda>_. True),
      ue_submit = (\<lambda>sub (e, t). case recording_udp_submit sub (Some ()) t of (st, t') \<Rightarrow> (st, None, e, t')),
      ue_cancel = (\<lambda>i (e, t). (e, snd (recording_udp_cancel i t))),
      ue_event = (\<lambda>x (e, t). ([], e, t))\<rparr>"

interpretation recording_udp: udp_transport "recording_udp_env lc clock" for lc clock
  by unfold_locales (auto simp: recording_udp_env_def split: prod.splits)

end
