(* ===== verification/Udp_Verdicts.thy ===== *)
theory Udp_Verdicts
  imports Udp_Scan
begin

text \<open>
  What a UDP scan promises, from an accepted \<open>submit\<close> to the return of \<open>run\<close>, with one scan over
  the recording transport as an example.
\<close>

section \<open>An example\<close>

definition udp_demo_port :: port where
  "udp_demo_port = \<lparr>port_number = 53, port_protocol = Udp\<rparr>"

definition udp_demo_env :: "(unit, unit recording_udp) udp_env" where
  "udp_demo_env = recording_udp_env no_libc (\<lambda>n. 10000000000 * int n)"

definition udp_demo_config :: port_scan_config where
  "udp_demo_config = default_port_scan_config\<lparr>cfg_retries := 0\<rparr>"

definition udp_demo_scan :: "(unit, unit recording_udp) udp_scheduler" where
  "udp_demo_scan = snd (the (udp_submit udp_demo_env demo_target [udp_demo_port]
     (new_udp_scheduler (new_engine True) \<lparr>rud_submissions = [], rud_callbacks = []\<rparr>
       empty_udp_database udp_demo_config)))"

lemma udp_demo_packet:
  "packet_bytes (udp_probe_packet source 53 (h_ip probed_host) (ud_payload (udp_for_port empty_udp_database 53))) \<noteq> []"
  by (rule udp_probe_packet_bytes(2))
    (simp_all add: udp_for_port_def empty_udp_database_def udp_default_probe_def udp_fallback_def probed_host_def)

lemmas udp_eval = udp_submit_def Let_def new_udp_scheduler_def udp_demo_env_def demo_target_def recording_udp_env_def
  udp_demo_config_def default_port_scan_config_def udp_validate_config_def new_engine_def udp_demo_port_def
  udp_enqueue_host_def probe_address_def udp_pump_def udp_pump_loop.simps udp_pump_limit_def udp_pump_turn_def
  udp_new_work_def allocate_source_port_def allocate_loop.simps udp_launch_def udp_now_def udp_schedule_def
  udp_probe_timeout_def engine_schedule_def map_emplace_def map_has_def recording_udp_submit_def
  udp_timing_submitted_def udp_update_timing_def udp_stop_if_idle_def udp_new_submission_def ns_per_ms_def

lemma udp_demo_started: "\<exists>s. udp_submit udp_demo_env demo_target [udp_demo_port]
     (new_udp_scheduler (new_engine True) \<lparr>rud_submissions = [], rud_callbacks = []\<rparr>
       empty_udp_database udp_demo_config) = Some (Ok, s) \<and> us_submitted s"
proof -
  have a: "ip_valid (h_ip probed_host)" "h_address probed_host \<noteq> []" by (simp_all add: probed_host_def)
  show ?thesis using udp_demo_packet a by (simp add: udp_eval)
qed

lemma udp_demo_transport: "udp_transport udp_demo_env"
  unfolding udp_demo_env_def by (rule recording_udp.udp_transport_axioms)

lemma timers_are_new: "timers_are (new_engine True) (\<lambda>_. None)"
  by (simp add: timers_are_def wired_def timers_inv_new timer_for_def) (simp add: new_engine_def)

lemma udp_demo_is_started:
  "udp_scan_started udp_demo_env (new_engine True) \<lparr>rud_submissions = [], rud_callbacks = []\<rparr>
     empty_udp_database udp_demo_config demo_target [udp_demo_port] udp_demo_scan"
proof -
  obtain s where s: "udp_submit udp_demo_env demo_target [udp_demo_port]
     (new_udp_scheduler (new_engine True) \<lparr>rud_submissions = [], rud_callbacks = []\<rparr>
       empty_udp_database udp_demo_config) = Some (Ok, s)" "us_submitted s" using udp_demo_started by blast
  then show ?thesis using timers_are_new
    by (simp add: udp_scan_started_def udp_demo_scan_def demo_target_def probed_host_def probe_address_def)
      (simp add: new_engine_def)
qed

lemmas udp_run_eval = udp_run_def engine_run_def run_loop.simps run_once_impl_def idle_def set_running_def
  dispatch_timers.simps dispatch_turn_def udp_on_timeout_def udp_timed_out_def udp_embedding_def udp_cancel_probe_def
  udp_max_retries_def udp_append_result_def engine_stop_def udp_erase_pending_def map_erase_def recording_udp_cancel_def
  udp_note_status_def release_source_port_def

lemma udp_demo_runs: "\<exists>s. udp_run udp_demo_env [Interrupted] udp_demo_scan = Some (Ok, s)"
  using udp_demo_packet
  by (simp add: udp_demo_scan_def udp_eval probed_host_def) (simp add: udp_run_eval udp_eval)

section \<open>Properties of a UDP scan\<close>

text \<open>
  Property C11. When the UDP scheduler's \<open>run\<close> returns success, the scan is complete: nothing
  is queued or in flight, and every requested pair of a host and a port has exactly one result,
  whatever responses, events and timers the loop met.
\<close>

theorem udp_run_reports_every_port:
  assumes "udp_transport env" and "udp_scan_started env e t db cfg target ports s0"
    and "udp_run env polls s0 = Some (Ok, s)"
  shows "udp_complete s \<and> image_mset result_key (mset (us_results s)) = requested target ports"
proof -
  obtain st s1 where run: "engine_run (udp_embedding env) polls s0 = Some (st, s1)" "udp_note_status st s1 = (Ok, s)"
    using assms(3) by (auto simp: udp_run_def split: if_splits)
  then have ok: "st = Ok" "s = s1" "us_status s = Ok" by (auto simp: udp_note_status_def Let_def split: if_splits)
  have fine: "udp_timers s0 \<and> udp_stop_ok s0" by (rule udp_transport.udp_start_ok(2) [OF assms(1,2)])
  have l: "udp_leads env s0 s" and stop: "eng_stopped (us_engine s) \<or> idle (us_engine s)"
    using udp_transport.udp_leads_run [OF assms(1) run(1) fine] ok by auto
  obtain n where n: "udp_steps env n s0 s" using l by (auto simp: udp_leads_def)
  note th = udp_scan_throughout [OF assms(1,2) n]
  have "udp_complete s"
  proof (cases "eng_stopped (us_engine s)")
    case True
    then show ?thesis using th(4) by (simp add: udp_stop_ok_def)
  next
    case False
    then have "eng_timers (us_engine s) = []" using stop by (simp add: idle_def)
    then show ?thesis
      using udp_going_has_timer [OF th(5,3) ok(3)] th(2) by (auto simp: timer_for_def udp_books_def)
  qed
  then show ?thesis using udp_ledger_complete [OF th(2)] by blast
qed

theorem udp_run_reports_every_port_witness:
  "\<exists>s. udp_run udp_demo_env [Interrupted] udp_demo_scan = Some (Ok, s) \<and> udp_complete s \<and>
     image_mset result_key (mset (us_results s)) = {#(''192.0.2.7'', udp_demo_port)#}"
proof -
  obtain s where s: "udp_run udp_demo_env [Interrupted] udp_demo_scan = Some (Ok, s)" using udp_demo_runs by blast
  from udp_run_reports_every_port [OF udp_demo_transport udp_demo_is_started s] s show ?thesis
    by (auto simp: requested_def demo_target_def probed_host_def)
qed

text \<open>
  At every moment of a UDP scan each requested pair of a host and a port is in
  exactly one place, the queue, in flight, or reported, as often as it was requested; the source
  ports of the probes in flight are distinct and in 40000 to 60000; the scheduler's table marks
  exactly those; and the live timeout timers are exactly one per probe in flight.
\<close>

theorem udp_scan_accounts:
  assumes "udp_transport env" and "udp_scan_started env e t db cfg target ports s0" and "udp_steps env n s0 s"
  shows "image_mset udp_key (mset (us_queue s)) +
      image_mset (\<lambda>e. udp_key (up_work (snd e))) (mset (us_pending s)) +
      image_mset result_key (mset (us_results s)) = requested target ports \<and>
    distinct (map source_of (us_pending s)) \<and> source_of ` set (us_pending s) \<subseteq> {40000..60000} \<and>
    {k. us_source_ports s k} = (\<lambda>e. unat (source_of e) - 40000) ` set (us_pending s) \<and>
    ((\<exists>t. map_of (eng_timers (us_engine s)) tid = Some t \<and> tm_callback t = OnTimeout i) \<longleftrightarrow>
      (\<exists>p. map_of (us_pending s) i = Some p \<and> up_timer p = tid))"
proof -
  note th = udp_scan_throughout [OF assms]
  have ports: "distinct (map source_of (us_pending s))" "\<forall>e\<in>set (us_pending s). in_port_range (source_of e)"
    "\<And>k. us_source_ports s k \<longleftrightarrow> (\<exists>e\<in>set (us_pending s). k = unat (source_of e) - 40000)"
    using th(2) by (auto simp: udp_books_def udp_ports_ok_def)
  have "source_of ` set (us_pending s) \<subseteq> {40000..60000}" using ports(2) by (auto simp: in_port_range_def)
  moreover have "{k. us_source_ports s k} = (\<lambda>e. unat (source_of e) - 40000) ` set (us_pending s)"
    using ports(3) by auto
  moreover have "image_mset udp_key (mset (us_queue s)) + image_mset (\<lambda>e. udp_key (up_work (snd e))) (mset (us_pending s)) +
      image_mset result_key (mset (us_results s)) = requested target ports"
    using th(2) by (simp add: udp_books_def udp_ledger_def comp_def)
  ultimately show ?thesis using ports(1) th(3) by (simp add: udp_timers_def timers_are_def timer_for_def)
qed

theorem udp_scan_accounts_witness:
  "distinct (map source_of (us_pending udp_demo_scan)) \<and>
    {k. us_source_ports udp_demo_scan k} = (\<lambda>e. unat (source_of e) - 40000) ` set (us_pending udp_demo_scan) \<and>
    image_mset udp_key (mset (us_queue udp_demo_scan)) +
      image_mset (\<lambda>e. udp_key (up_work (snd e))) (mset (us_pending udp_demo_scan)) +
      image_mset result_key (mset (us_results udp_demo_scan)) = {#(''192.0.2.7'', udp_demo_port)#}"
  using udp_scan_accounts [OF udp_demo_transport udp_demo_is_started udp_steps.start]
  by (simp add: requested_def demo_target_def probed_host_def)

text \<open>
  A UDP scan is finite: however the responses fall, at most
  \<open>hosts * ports * (retries + 1)\<close> of its timeout timers fire between \<open>submit\<close> and any later
  moment; and until it has failed or completed one of them is live, so that even a silent
  network brings it to its end.
\<close>

theorem udp_scan_terminates:
  assumes "udp_transport env" and "udp_scan_started env e t db cfg target ports s0" and "udp_steps env n s0 s"
  shows "n \<le> length (resolved_hosts target) * length ports * (scan_retries cfg + 1) \<and>
    (us_status s \<noteq> Ok \<or> udp_complete s \<or>
     (\<exists>tid t i. map_of (eng_timers (us_engine s)) tid = Some t \<and> tm_callback t = OnTimeout i))"
proof -
  note th = udp_scan_throughout [OF assms]
  have "us_submitted s" using th(2) by (simp add: udp_books_def)
  then show ?thesis using th(1) udp_going_has_timer [OF th(5,3)] by (auto simp: timer_for_def)
qed

lemma udp_demo_fires: "\<exists>s. udp_steps udp_demo_env 1 udp_demo_scan s"
proof -
  have "\<exists>e. dispatch_turn 20000000000 (us_engine udp_demo_scan) = TurnFires (OnTimeout 1) e"
    using udp_demo_packet by (simp add: udp_demo_scan_def udp_eval probed_host_def) (simp add: dispatch_turn_def)
  then obtain e where e: "dispatch_turn 20000000000 (us_engine udp_demo_scan) = TurnFires (OnTimeout 1) e" by blast
  obtain s where "udp_on_timeout (udp_pump udp_demo_env) udp_demo_env 1 (udp_demo_scan\<lparr>us_engine := e\<rparr>) = Some s"
    using udp_handlers_total(2) [of udp_demo_env 1 "udp_demo_scan\<lparr>us_engine := e\<rparr>"] by blast
  from udp_steps.step [OF udp_steps.start timeout [OF e this]] show ?thesis by auto
qed

theorem udp_scan_terminates_witness:
  "\<exists>s. udp_steps udp_demo_env 1 udp_demo_scan s \<and>
     1 \<le> length [probed_host] * length [udp_demo_port] * (scan_retries udp_demo_config + 1)"
proof -
  obtain s where s: "udp_steps udp_demo_env 1 udp_demo_scan s" using udp_demo_fires by blast
  from udp_scan_terminates [OF udp_demo_transport udp_demo_is_started s] s show ?thesis by (auto simp: demo_target_def)
qed

text \<open>
  Every result of a UDP scan carries the UDP method, a state and a reason the
  result table admits for it, and no more retries than configured; a port is called open or
  filtered only when every retry stayed silent; and the probes in flight never exceed the
  configured limit.
\<close>

theorem udp_results_sound:
  assumes "udp_transport env" and "udp_scan_started env e t db cfg target ports s0" and "udp_steps env n s0 s"
  shows "(\<forall>r\<in>set (us_results s).
      res_probe r = UdpProbe \<and> valid_port_result_semantics Udp UdpProbe (res_state r) (res_reason r) \<and>
      res_retry_count r \<le> scan_retries cfg \<and>
      (res_state r = PsOpenOrFiltered \<longrightarrow> res_retry_count r = scan_retries cfg)) \<and>
    length (us_pending s) \<le> cfg_max_outstanding cfg"
  using udp_scan_throughout(2) [OF assms] by (simp add: udp_books_def udp_result_ok_def udp_verdict_ok_def)

theorem udp_results_sound_witness: "length (us_pending udp_demo_scan) \<le> 128"
  using udp_results_sound [OF udp_demo_transport udp_demo_is_started udp_steps.start]
  by (simp add: udp_demo_config_def default_port_scan_config_def)

end
