(* ===== verification/Discovery_Probes.thy ===== *)
theory Discovery_Probes
  imports Icmp_Packets Port_Probes Target_Engine
begin

text \<open>
  Types and probes of host discovery (\<open>include/discovery/discovery_types.hpp\<close>,
  \<open>discovery_probe.hpp\<close>, \<open>src/discovery/discovery_types.cpp\<close>, \<open>arp_discovery.cpp\<close>,
  \<open>icmp_discovery.cpp\<close>, \<open>tcp_discovery.cpp\<close>): what each probe sends and which responses it
  takes for its own. The abstract class \<open>DiscoveryProbe\<close> is a record of functions, its contract
  is the locale \<open>discovery_contract\<close>, interpreted on the three probes.
\<close>

section \<open>Types\<close>

datatype host_state = HsUnknown | HsUp | HsDown | HsUnreachable

datatype discovery_kind = DpIcmpEcho | DpTcp | DpArp

datatype discovery_reason =
  DrNoEvidence | DrIcmpEchoReply | DrTcpSynAck | DrTcpRst | DrArpReply | DrTimeout | DrInvalidTarget |
  DrUnsupportedInterface | DrSocketFailure | DrPermissionFailure | DrMalformedResponse |
  DrUnexpectedResponse | DrDuplicateResponse | DrLateResponse | DrInternalError | DrUnreachable

fun host_state_name :: "host_state \<Rightarrow> string" where
  "host_state_name HsUnknown = ''UNKNOWN''"
| "host_state_name HsUp = ''UP''"
| "host_state_name HsDown = ''DOWN''"
| "host_state_name HsUnreachable = ''UNREACHABLE''"

fun probe_type_name :: "discovery_kind \<Rightarrow> string" where
  "probe_type_name DpIcmpEcho = ''ICMP_ECHO''"
| "probe_type_name DpTcp = ''TCP''"
| "probe_type_name DpArp = ''ARP''"

fun discovery_reason_name :: "discovery_reason \<Rightarrow> string" where
  "discovery_reason_name DrNoEvidence = ''NO_EVIDENCE''"
| "discovery_reason_name DrIcmpEchoReply = ''ICMP_ECHO_REPLY''"
| "discovery_reason_name DrTcpSynAck = ''TCP_SYN_ACK''"
| "discovery_reason_name DrTcpRst = ''TCP_RST''"
| "discovery_reason_name DrArpReply = ''ARP_REPLY''"
| "discovery_reason_name DrTimeout = ''TIMEOUT''"
| "discovery_reason_name DrInvalidTarget = ''INVALID_TARGET''"
| "discovery_reason_name DrUnsupportedInterface = ''UNSUPPORTED_INTERFACE''"
| "discovery_reason_name DrSocketFailure = ''SOCKET_FAILURE''"
| "discovery_reason_name DrPermissionFailure = ''PERMISSION_FAILURE''"
| "discovery_reason_name DrMalformedResponse = ''MALFORMED_RESPONSE''"
| "discovery_reason_name DrUnexpectedResponse = ''UNEXPECTED_RESPONSE''"
| "discovery_reason_name DrDuplicateResponse = ''DUPLICATE_RESPONSE''"
| "discovery_reason_name DrLateResponse = ''LATE_RESPONSE''"
| "discovery_reason_name DrInternalError = ''INTERNAL_ERROR''"
| "discovery_reason_name DrUnreachable = ''UNREACHABLE''"

record discovery_result =
  dr_target :: string
  dr_state :: host_state
  dr_probe :: discovery_kind
  dr_responded :: bool
  dr_rtt_ms :: "rat option"
  dr_timestamp :: int
  dr_reason :: discovery_reason

record discovery_config =
  dc_probes :: "discovery_kind list"
  dc_tcp_port :: u16
  dc_timeout :: int
  dc_max_outstanding :: nat

definition default_discovery_config :: discovery_config where
  "default_discovery_config =
     \<lparr>dc_probes = [DpIcmpEcho, DpTcp], dc_tcp_port = 80, dc_timeout = 1000, dc_max_outstanding = 64\<rparr>"

datatype discovery_response_kind = DiscoveryPositive | DiscoveryUnreachable

record discovery_response =
  drs_id :: u64
  drs_source_address :: string
  drs_bytes :: bytes
  drs_received_at :: int
  drs_source_ip :: ip_address
  drs_kind :: discovery_response_kind

record discovery_submission =
  ds_id :: u64
  ds_type :: discovery_kind
  ds_target :: string
  ds_packet :: bytes
  ds_port :: u16
  ds_source_port :: u16
  ds_identifier :: u16
  ds_sequence :: u16
  ds_sequence_number :: u32
  ds_source_ipv4 :: u32
  ds_target_ipv4 :: u32
  ds_source_ip :: ip_address
  ds_target_ip :: ip_address

definition new_discovery_submission :: discovery_submission where
  "new_discovery_submission = \<lparr>ds_id = 0, ds_type = DpIcmpEcho, ds_target = [], ds_packet = [], ds_port = 0,
     ds_source_port = 0, ds_identifier = 0, ds_sequence = 0, ds_sequence_number = 0, ds_source_ipv4 = 0,
     ds_target_ipv4 = 0, ds_source_ip = default_ip, ds_target_ip = default_ip\<rparr>"

datatype disposition = Matching | Unrelated | MalformedReply

text \<open>The parser of addresses; it does not look for an empty text first, which fails anyway.\<close>

definition parse_ipv4_address :: "string \<Rightarrow> u32 option" where
  "parse_ipv4_address s = parse_ipv4_components 4 s 0"

section \<open>ARP messages\<close>

record arp_message =
  arp_sender_mac :: bytes
  arp_sender_ipv4 :: u32
  arp_target_mac :: bytes
  arp_target_ipv4 :: u32
  arp_operation :: u16

definition arp_validate :: "arp_message \<Rightarrow> bool" where
  "arp_validate m \<longleftrightarrow> arp_operation m = 1 \<or> arp_operation m = 2"

definition arp_serialize :: "arp_message \<Rightarrow> bytes" where
  "arp_serialize m =
     (if \<not> arp_validate m then []
      else
        let b1 = write_u16 (replicate 28 0) 0 1;
            b2 = write_u16 b1 2 0x0800;
            b3 = b2[4 := 6, 5 := 4];
            b4 = write_u16 b3 6 (arp_operation m);
            b5 = copy_into b4 8 (arp_sender_mac m);
            b6 = write_u32 b5 14 (arp_sender_ipv4 m);
            b7 = copy_into b6 18 (arp_target_mac m)
        in write_u32 b7 24 (arp_target_ipv4 m))"

definition arp_parse :: "bytes \<Rightarrow> arp_message parsed" where
  "arp_parse bs =
     (if length bs < 28 then Rejected
      else read_u16 bs 0 (\<lambda>hardware. if hardware \<noteq> 1 then Rejected
      else read_u16 bs 2 (\<lambda>protocol. if protocol \<noteq> 0x0800 then Rejected
      else rd8 bs 4 (\<lambda>hlen. if hlen \<noteq> 6 then Rejected
      else rd8 bs 5 (\<lambda>plen. if plen \<noteq> 4 then Rejected
      else read_u16 bs 6 (\<lambda>operation. read_array 6 bs 8 (\<lambda>smac. read_u32 bs 14 (\<lambda>sip.
           read_array 6 bs 18 (\<lambda>tmac. read_u32 bs 24 (\<lambda>tip.
             let m = \<lparr>arp_sender_mac = smac, arp_sender_ipv4 = sip, arp_target_mac = tmac,
                   arp_target_ipv4 = tip, arp_operation = operation\<rparr>
             in if arp_validate m then Parsed m else Rejected))))))))))"

section \<open>Probes\<close>

record discovery_probe =
  dp_type :: discovery_kind
  dp_build :: "u64 \<Rightarrow> host \<Rightarrow> discovery_config \<Rightarrow> status_code \<times> discovery_submission"
  dp_assess :: "discovery_response \<Rightarrow> discovery_submission \<Rightarrow> disposition"
  dp_positive_reason :: "discovery_response \<Rightarrow> discovery_reason"

text \<open>A build that fails leaves the default submission of the caller, or one not looked at.\<close>

definition arp_request :: "u32 \<Rightarrow> arp_message" where
  "arp_request v = \<lparr>arp_sender_mac = [0x02, 0x53, 0x4B, 0x41, 0x4E, 0x01], arp_sender_ipv4 = 0,
     arp_target_mac = replicate 6 0, arp_target_ipv4 = v, arp_operation = 1\<rparr>"

definition arp_build :: "u64 \<Rightarrow> host \<Rightarrow> discovery_config \<Rightarrow> status_code \<times> discovery_submission" where
  "arp_build i h cfg =
     (case parse_ipv4_address (h_address h) of
        None \<Rightarrow> (InvalidArgument, new_discovery_submission)
      | Some v \<Rightarrow>
          if i = 0 then (InvalidArgument, new_discovery_submission)
          else
            let s = new_discovery_submission\<lparr>ds_id := i, ds_type := DpArp, ds_target := h_address h,
                  ds_target_ipv4 := v, ds_source_ipv4 := 0, ds_packet := arp_serialize (arp_request v)\<rparr>
            in (if ds_packet s = [] then InternalError else Ok, s))"

definition arp_assess :: "discovery_response \<Rightarrow> discovery_submission \<Rightarrow> disposition" where
  "arp_assess r s =
     (case arp_parse (drs_bytes r) of
        Parsed m \<Rightarrow>
          if drs_source_address r \<noteq> ds_target s \<or> arp_operation m \<noteq> 2 \<or>
             arp_sender_ipv4 m \<noteq> ds_target_ipv4 s \<or> arp_target_ipv4 m \<noteq> ds_source_ipv4 s
          then Unrelated else Matching
      | _ \<Rightarrow> MalformedReply)"

definition arp_probe :: discovery_probe where
  "arp_probe = \<lparr>dp_type = DpArp, dp_build = arp_build, dp_assess = arp_assess,
     dp_positive_reason = (\<lambda>_. DrArpReply)\<rparr>"

definition skan_payload :: bytes where
  "skan_payload = [0x53, 0x4B, 0x41, 0x4E]"

definition echo_request :: "u16 \<Rightarrow> icmp" where
  "echo_request sequence = \<lparr>icmp_type = Icmp_EchoRequest, icmp_code = 0, icmp_identifier = 0x534B,
     icmp_sequence = sequence, icmp_checksum = 0, icmp_payload = skan_payload\<rparr>"

definition echo_request6 :: "u16 \<Rightarrow> icmp6" where
  "echo_request6 sequence = (icmp6_set_sequence sequence (icmp6_set_identifier 0x534B
     (new_icmp6 Icmp6_EchoRequest)))\<lparr>icmp6_payload := skan_payload\<rparr>"

definition icmp_build :: "libc \<Rightarrow> u64 \<Rightarrow> host \<Rightarrow> discovery_config \<Rightarrow> status_code \<times> discovery_submission" where
  "icmp_build lc i h cfg =
     (case probe_address lc h of
        None \<Rightarrow> (InvalidArgument, new_discovery_submission)
      | Some a \<Rightarrow>
          if i = 0 \<or> i > 0xFFFF then (InvalidArgument, new_discovery_submission)
          else
            let s = new_discovery_submission\<lparr>ds_id := i, ds_type := DpIcmpEcho, ds_target := h_address h,
                  ds_identifier := 0x534B, ds_sequence := ucast i, ds_target_ip := a\<rparr>
            in if is_ipv4 a then
                 let s1 = s\<lparr>ds_packet := element_bytes icmp_serialize icmp_serialized_size (echo_request (ucast i)),
                       ds_target_ipv4 := ipv4_value a\<rparr>
                 in (if ds_packet s1 = [] then InternalError else Ok, s1)
               else
                 (case icmp6_serialize_with_checksum (echo_request6 (ucast i))
                         (replicate (icmp6_serialized_size (echo_request6 (ucast i))) 0)
                         (replicate 16 0) (ip_bytes a) of
                    (st, out) \<Rightarrow>
                      if st \<noteq> Ok then (InternalError, s\<lparr>ds_packet := out\<rparr>)
                      else (if out = [] then InternalError else Ok,
                            s\<lparr>ds_packet := out, ds_source_ip := from_ipv6 (replicate 16 0)\<rparr>)))"

definition icmp_assess :: "libc \<Rightarrow> discovery_response \<Rightarrow> discovery_submission \<Rightarrow> disposition" where
  "icmp_assess lc r s =
     (if is_ipv6 (ds_target_ip s) then
        let source = (if ip_valid (drs_source_ip r) then drs_source_ip r
              else case parse_ip_address lc (drs_source_address r) of Some a \<Rightarrow> a | None \<Rightarrow> default_ip)
        in (case icmp6_parse (drs_bytes r) of
              Parsed m \<Rightarrow>
                if \<not> ip_valid source \<or> source \<noteq> ds_target_ip s then Unrelated
                else if icmp6_type m \<noteq> Icmp6_EchoReply \<or> icmp6_code m \<noteq> 0 \<or>
                  icmp6_identifier m \<noteq> ds_identifier s \<or> icmp6_sequence m \<noteq> ds_sequence s then Unrelated
                else Matching
            | _ \<Rightarrow> MalformedReply)
      else (case icmp_parse (drs_bytes r) of
              Parsed m \<Rightarrow>
                if drs_source_address r \<noteq> ds_target s then Unrelated
                else if icmp_type m \<noteq> Icmp_EchoReply \<or> icmp_code m \<noteq> 0 \<or>
                  icmp_identifier m \<noteq> ds_identifier s \<or> icmp_sequence m \<noteq> ds_sequence s then Unrelated
                else Matching
            | _ \<Rightarrow> MalformedReply))"

definition icmp_probe :: "libc \<Rightarrow> discovery_probe" where
  "icmp_probe lc = \<lparr>dp_type = DpIcmpEcho, dp_build = icmp_build lc, dp_assess = icmp_assess lc,
     dp_positive_reason = (\<lambda>_. DrIcmpEchoReply)\<rparr>"

definition discovery_source_port :: "u64 \<Rightarrow> u16" where
  "discovery_source_port i = ucast (40000 + (i - 1) mod 20000)"

definition discovery_sequence_number :: "u64 \<Rightarrow> u32" where
  "discovery_sequence_number i = 0x534B0000 OR ucast i"

definition discovery_syn :: "u64 \<Rightarrow> discovery_config \<Rightarrow> tcp" where
  "discovery_syn i cfg = new_tcp\<lparr>tcp_source_port := discovery_source_port i,
     tcp_destination_port := dc_tcp_port cfg, tcp_sequence_number := discovery_sequence_number i,
     tcp_flags := flag_bit Syn, tcp_window := 64240\<rparr>"

definition tcp_build :: "libc \<Rightarrow> u64 \<Rightarrow> host \<Rightarrow> discovery_config \<Rightarrow> status_code \<times> discovery_submission" where
  "tcp_build lc i h cfg =
     (case probe_address lc h of
        None \<Rightarrow> (InvalidArgument, new_discovery_submission)
      | Some a \<Rightarrow>
          if i = 0 \<or> dc_tcp_port cfg = 0 \<or> i > 0xFFFF then (InvalidArgument, new_discovery_submission)
          else
            let syn = discovery_syn i cfg;
                out = replicate (tcp_serialized_size syn) 0;
                s = new_discovery_submission\<lparr>ds_id := i, ds_type := DpTcp, ds_target := h_address h,
                  ds_port := dc_tcp_port cfg, ds_source_port := discovery_source_port i,
                  ds_sequence_number := discovery_sequence_number i, ds_target_ip := a\<rparr>
            in if is_ipv4 a then
                 (case tcp_serialize_with_checksum4 syn out 0 (ipv4_value a) [] of
                    (st, out1) \<Rightarrow> (if st \<noteq> Ok then InternalError else Ok,
                      s\<lparr>ds_target_ipv4 := ipv4_value a, ds_packet := out1\<rparr>))
               else
                 (case tcp_serialize_with_checksum6 syn out (replicate 16 0) (ip_bytes a) [] of
                    (st, out1) \<Rightarrow> (if st \<noteq> Ok then InternalError else Ok,
                      s\<lparr>ds_source_ip := from_ipv6 (replicate 16 0), ds_packet := out1\<rparr>)))"

definition tcp_assess :: "discovery_response \<Rightarrow> discovery_submission \<Rightarrow> disposition" where
  "tcp_assess r s =
     (case tcp_parse (drs_bytes r) of
        Parsed t \<Rightarrow>
          if (if is_ipv6 (ds_target_ip s) then \<not> ip_valid (drs_source_ip r) \<or> drs_source_ip r \<noteq> ds_target_ip s
              else drs_source_address r \<noteq> ds_target s) then Unrelated
          else if tcp_source_port t \<noteq> ds_port s \<or> tcp_destination_port t \<noteq> ds_source_port s then Unrelated
          else
            let syn_ack = (has_flag (tcp_flags t) Syn \<and> has_flag (tcp_flags t) Ack \<and>
                  tcp_acknowledgment_number t = ds_sequence_number s + 1);
                rst = has_flag (tcp_flags t) Rst
            in if syn_ack \<or> rst then Matching else Unrelated
      | _ \<Rightarrow> MalformedReply)"

definition tcp_positive_reason :: "discovery_response \<Rightarrow> discovery_reason" where
  "tcp_positive_reason r =
     (case tcp_parse (drs_bytes r) of
        Parsed t \<Rightarrow> if has_flag (tcp_flags t) Rst then DrTcpRst else DrTcpSynAck
      | _ \<Rightarrow> DrTcpSynAck)"

definition tcp_probe :: "libc \<Rightarrow> discovery_probe" where
  "tcp_probe lc = \<lparr>dp_type = DpTcp, dp_build = tcp_build lc, dp_assess = tcp_assess,
     dp_positive_reason = tcp_positive_reason\<rparr>"

text \<open>The probe the scheduler's constructor makes for a kind.\<close>

fun make_discovery_probe :: "libc \<Rightarrow> discovery_kind \<Rightarrow> discovery_probe" where
  "make_discovery_probe lc DpIcmpEcho = icmp_probe lc"
| "make_discovery_probe lc DpTcp = tcp_probe lc"
| "make_discovery_probe lc DpArp = arp_probe"

section \<open>The contract of a probe\<close>

fun positive_reasons :: "discovery_kind \<Rightarrow> discovery_reason set" where
  "positive_reasons DpIcmpEcho = {DrIcmpEchoReply}"
| "positive_reasons DpTcp = {DrTcpSynAck, DrTcpRst}"
| "positive_reasons DpArp = {DrArpReply}"

text \<open>
  What the scheduler relies on: a submission carries the identity it was built with, and a
  reply is given a reason of the probe's own.
\<close>

locale discovery_contract =
  fixes p :: discovery_probe
  assumes build_identity: "dp_build p i h cfg = (Ok, s) \<Longrightarrow>
      i \<noteq> 0 \<and> ds_id s = i \<and> ds_type s = dp_type p \<and> ds_target s = h_address h"
    and build_status: "dp_build p i h cfg = (st, s) \<Longrightarrow> st \<in> {Ok, InvalidArgument, InternalError}"
    and positive_reason: "dp_positive_reason p r \<in> positive_reasons (dp_type p)"
begin

text \<open>A submission belongs to one identifier and one address only.\<close>

lemma build_injective:
  assumes "dp_build p i h cfg = (Ok, s)" and "dp_build p j h' cfg' = (Ok, s)"
  shows "i = j \<and> h_address h = h_address h'"
  using build_identity [OF assms(1)] build_identity [OF assms(2)] by simp

end

interpretation icmp: discovery_contract "icmp_probe lc" for lc
  by unfold_locales
    (auto simp: icmp_probe_def icmp_build_def Let_def new_discovery_submission_def split: option.splits if_splits prod.splits)

interpretation tcp_ping: discovery_contract "tcp_probe lc" for lc
  by unfold_locales
    (auto simp: tcp_probe_def tcp_build_def tcp_positive_reason_def Let_def new_discovery_submission_def
      split: option.splits if_splits prod.splits parsed.splits)

interpretation arp: discovery_contract arp_probe
  by unfold_locales
    (auto simp: arp_probe_def arp_build_def Let_def new_discovery_submission_def split: option.splits if_splits)

lemma made_probe_type [simp]: "dp_type (make_discovery_probe lc k) = k"
  by (cases k) (simp_all add: icmp_probe_def tcp_probe_def arp_probe_def)

lemma made_probe_contract: "discovery_contract (make_discovery_probe lc k)"
  by (cases k) (simp_all add: icmp.discovery_contract_axioms tcp_ping.discovery_contract_axioms
    arp.discovery_contract_axioms)

end
