(* ===== verification/Discovery_Scheduler.thy ===== *)
theory Discovery_Scheduler
  imports Discovery_Probes Engine_Runs
begin

text \<open>
  The discovery scheduler (\<open>include/discovery/discovery_scheduler.hpp\<close>,
  \<open>src/discovery/discovery_scheduler.cpp\<close>) and its facade (\<open>src/discovery/discovery.cpp\<close>):
  the queue of work, the probes in flight with one timer each, evidence per address, late and
  duplicate responses. The environment record holds the C library, the clock and the transport.
  A response that arrives from inside the transport's \<open>submit\<close> finds no probe in flight yet;
  responses reach the scheduler as events. Allocation never fails in the model.
\<close>

section \<open>State\<close>

record discovery_work =
  dw_target :: target
  dw_host :: host
  dw_type :: discovery_kind

record discovery_flight =
  pb_id :: u64
  pb_type :: discovery_kind
  pb_target :: string
  pb_probe :: discovery_probe
  pb_submission :: discovery_submission
  pb_sent_at :: int
  pb_deadline :: int
  pb_timer :: u64

record ('x, 't) discovery_env =
  de_libc :: libc
  de_clock :: "nat \<Rightarrow> int"
  de_submit :: "discovery_submission \<Rightarrow> 'x sched_callback engine \<times> 't \<Rightarrow>
    status_code \<times> 'x sched_callback engine \<times> 't"
  de_event :: "'x \<Rightarrow> 'x sched_callback engine \<times> 't \<Rightarrow>
    discovery_response list \<times> 'x sched_callback engine \<times> 't"

record ('x, 't) discovery =
  dis_engine :: "'x sched_callback engine"
  dis_transport :: 't
  dis_reads :: nat
  dis_config :: discovery_config
  dis_probes :: "discovery_probe list"
  dis_pending :: "(u64 \<times> discovery_flight) list"
  dis_completed :: "u64 set"
  dis_expired :: "u64 set"
  dis_queue :: "discovery_work list"
  dis_evidence :: "(string \<times> discovery_result list) list"
  dis_results :: "discovery_result list"
  dis_next_id :: u64
  dis_duplicates :: nat
  dis_late :: nat

definition new_discovery ::
  "('x, 't) discovery_env \<Rightarrow> 'x sched_callback engine \<Rightarrow> 't \<Rightarrow> discovery_config \<Rightarrow> ('x, 't) discovery" where
  "new_discovery env e t cfg =
     \<lparr>dis_engine = e, dis_transport = t, dis_reads = 0, dis_config = cfg,
      dis_probes = map (make_discovery_probe (de_libc env)) (dc_probes cfg), dis_pending = [],
      dis_completed = {}, dis_expired = {}, dis_queue = [], dis_evidence = [], dis_results = [],
      dis_next_id = 1, dis_duplicates = 0, dis_late = 0\<rparr>"

section \<open>Results\<close>

definition discovery_now :: "('x, 't) discovery_env \<Rightarrow> ('x, 't) discovery \<Rightarrow> int \<times> ('x, 't) discovery" where
  "discovery_now env s = (de_clock env (dis_reads s), s\<lparr>dis_reads := Suc (dis_reads s)\<rparr>)"

definition note_result :: "discovery_result \<Rightarrow> ('x, 't) discovery \<Rightarrow> ('x, 't) discovery" where
  "note_result r s =
     s\<lparr>dis_evidence := map_put (dr_target r)
         ((case map_of (dis_evidence s) (dr_target r) of None \<Rightarrow> [] | Some rs \<Rightarrow> rs) @ [r]) (dis_evidence s),
       dis_results := dis_results s @ [r]\<rparr>"

definition append_result ::
  "('x, 't) discovery_env \<Rightarrow> discovery_result \<Rightarrow> ('x, 't) discovery \<Rightarrow> ('x, 't) discovery" where
  "append_result env r s =
     (if dr_timestamp r = 0 then
        (case discovery_now env s of (now, s1) \<Rightarrow> note_result (r\<lparr>dr_timestamp := now\<rparr>) s1)
      else note_result r s)"

text \<open>A result without a response, stamped when it is made.\<close>

definition append_failure ::
  "('x, 't) discovery_env \<Rightarrow> string \<Rightarrow> discovery_kind \<Rightarrow> discovery_reason \<Rightarrow>
     ('x, 't) discovery \<Rightarrow> ('x, 't) discovery" where
  "append_failure env target kind reason s =
     (case discovery_now env s of (now, s1) \<Rightarrow>
       append_result env \<lparr>dr_target = target, dr_state = HsUnknown, dr_probe = kind, dr_responded = False,
         dr_rtt_ms = None, dr_timestamp = now, dr_reason = reason\<rparr> s1)"

definition reason_for_status :: "status_code \<Rightarrow> discovery_reason" where
  "reason_for_status st =
     (case st of
        PermissionDenied \<Rightarrow> DrPermissionFailure
      | IoError \<Rightarrow> DrSocketFailure
      | InvalidArgument \<Rightarrow> DrInvalidTarget
      | _ \<Rightarrow> DrInternalError)"

definition discovery_complete :: "('x, 't) discovery \<Rightarrow> bool" where
  "discovery_complete s \<longleftrightarrow> dis_pending s = [] \<and> dis_queue s = []"

definition discovery_pending_count :: "('x, 't) discovery \<Rightarrow> nat" where
  "discovery_pending_count s = length (dis_pending s) + length (dis_queue s)"

section \<open>Submitting work\<close>

definition discovery_probe_for :: "discovery_kind \<Rightarrow> ('x, 't) discovery \<Rightarrow> discovery_probe option" where
  "discovery_probe_for kind s = find (\<lambda>p. dp_type p = kind) (dis_probes s)"

definition next_discovery_id :: "u64 \<Rightarrow> u64" where
  "next_discovery_id i = (if i + 1 = 0 then 1 else i + 1)"

definition launch_discovery ::
  "('x, 't) discovery_env \<Rightarrow> discovery_work \<Rightarrow> discovery_probe \<Rightarrow> u64 \<Rightarrow> discovery_submission \<Rightarrow>
     ('x, 't) discovery \<Rightarrow> status_code \<times> ('x, 't) discovery" where
  "launch_discovery env w p i sub s =
     (case discovery_now env s of (sent, s1) \<Rightarrow>
       case discovery_now env s1 of (now, s2) \<Rightarrow>
         case engine_schedule now (dc_timeout (dis_config s2) * ns_per_ms) (OnTimeout i) (dis_engine s2) of (tid, e) \<Rightarrow>
           let s3 = s2\<lparr>dis_engine := e\<rparr> in
           if tid = 0 then (InternalError, append_failure env (h_address (dw_host w)) (dw_type w) DrInternalError s3)
           else (Ok, s3\<lparr>dis_pending := fst (map_emplace i
               \<lparr>pb_id = i, pb_type = dw_type w, pb_target = original_specification (dw_target w), pb_probe = p,
                pb_submission = sub, pb_sent_at = sent,
                pb_deadline = sent + dc_timeout (dis_config s) * ns_per_ms, pb_timer = tid\<rparr>
               (dis_pending s3))\<rparr>))"

definition submit_one ::
  "('x, 't) discovery_env \<Rightarrow> discovery_work \<Rightarrow> ('x, 't) discovery \<Rightarrow> status_code \<times> ('x, 't) discovery" where
  "submit_one env w s =
     (case discovery_probe_for (dw_type w) s of
        None \<Rightarrow> (InvalidArgument, s)
      | Some p \<Rightarrow>
          let i = dis_next_id s; s1 = s\<lparr>dis_next_id := next_discovery_id i\<rparr> in
          (case dp_build p i (dw_host w) (dis_config s1) of (built, sub) \<Rightarrow>
             if built \<noteq> Ok then
               (built, append_failure env (h_address (dw_host w)) (dw_type w) (reason_for_status built) s1)
             else
               (case de_submit env sub (dis_engine s1, dis_transport s1) of (sent, e, t) \<Rightarrow>
                 let s2 = s1\<lparr>dis_engine := e, dis_transport := t\<rparr> in
                 if sent \<noteq> Ok then
                   (sent, append_failure env (h_address (dw_host w)) (dw_type w) (reason_for_status sent) s2)
                 else launch_discovery env w p i sub s2)))"

lemma note_result_kept [simp]:
  "dis_queue (note_result r s) = dis_queue s" "dis_pending (note_result r s) = dis_pending s"
  "dis_engine (note_result r s) = dis_engine s" "dis_transport (note_result r s) = dis_transport s"
  "dis_config (note_result r s) = dis_config s" "dis_probes (note_result r s) = dis_probes s"
  "dis_next_id (note_result r s) = dis_next_id s" "dis_completed (note_result r s) = dis_completed s"
  "dis_expired (note_result r s) = dis_expired s" "dis_duplicates (note_result r s) = dis_duplicates s"
  "dis_late (note_result r s) = dis_late s"
  by (simp_all add: note_result_def)

lemma append_result_kept [simp]:
  "dis_queue (append_result env r s) = dis_queue s" "dis_pending (append_result env r s) = dis_pending s"
  "dis_engine (append_result env r s) = dis_engine s" "dis_transport (append_result env r s) = dis_transport s"
  "dis_config (append_result env r s) = dis_config s" "dis_probes (append_result env r s) = dis_probes s"
  "dis_next_id (append_result env r s) = dis_next_id s" "dis_completed (append_result env r s) = dis_completed s"
  "dis_expired (append_result env r s) = dis_expired s" "dis_duplicates (append_result env r s) = dis_duplicates s"
  "dis_late (append_result env r s) = dis_late s"
  by (simp_all add: append_result_def discovery_now_def)

lemma append_failure_kept [simp]:
  "dis_queue (append_failure env a k r s) = dis_queue s" "dis_pending (append_failure env a k r s) = dis_pending s"
  "dis_engine (append_failure env a k r s) = dis_engine s" "dis_transport (append_failure env a k r s) = dis_transport s"
  "dis_config (append_failure env a k r s) = dis_config s" "dis_probes (append_failure env a k r s) = dis_probes s"
  "dis_next_id (append_failure env a k r s) = dis_next_id s" "dis_completed (append_failure env a k r s) = dis_completed s"
  "dis_expired (append_failure env a k r s) = dis_expired s" "dis_duplicates (append_failure env a k r s) = dis_duplicates s"
  "dis_late (append_failure env a k r s) = dis_late s"
  by (simp_all add: append_failure_def discovery_now_def)

lemma submit_one_queue [simp]: "dis_queue (snd (submit_one env w s)) = dis_queue s"
  by (simp add: submit_one_def launch_discovery_def Let_def discovery_now_def split: option.splits prod.splits)

function discovery_pump :: "('x, 't) discovery_env \<Rightarrow> ('x, 't) discovery \<Rightarrow> ('x, 't) discovery" where
  "discovery_pump env s =
     (case dis_queue s of
        [] \<Rightarrow> s
      | w # rest \<Rightarrow>
          if length (dis_pending s) < dc_max_outstanding (dis_config s)
          then discovery_pump env (snd (submit_one env w (s\<lparr>dis_queue := rest\<rparr>)))
          else s)"
  by pat_completeness auto
termination
  by (relation "measure (\<lambda>(env, s). length (dis_queue s))") auto

declare discovery_pump.simps [simp del]

lemma discovery_pump_induct [case_names turn]:
  assumes "\<And>s. (\<And>w rest. dis_queue s = w # rest \<Longrightarrow> length (dis_pending s) < dc_max_outstanding (dis_config s) \<Longrightarrow>
    P (snd (submit_one env w (s\<lparr>dis_queue := rest\<rparr>)))) \<Longrightarrow> P s"
  shows "P s"
proof (induction "length (dis_queue s)" arbitrary: s rule: less_induct)
  case less
  show ?case by (rule assms) (rule less, simp)
qed

definition submit_host ::
  "('x, 't) discovery_env \<Rightarrow> target \<Rightarrow> host \<Rightarrow> ('x, 't) discovery \<Rightarrow> status_code \<times> ('x, 't) discovery" where
  "submit_host env target h s =
     (if h_address h = [] \<or> probe_address (de_libc env) h = None then
        (InvalidArgument, append_failure env (h_address h)
           (case dis_probes s of [] \<Rightarrow> DpIcmpEcho | p # _ \<Rightarrow> dp_type p) DrInvalidTarget s)
      else if dis_probes s = [] \<or> dc_timeout (dis_config s) \<le> 0 \<or> dc_max_outstanding (dis_config s) = 0
      then (InvalidArgument, s)
      else
        let requested = length (filter (\<lambda>k. discovery_probe_for k s \<noteq> None) (dc_probes (dis_config s))) in
        if requested = 0 \<or>
           length (dis_pending s) + length (dis_queue s) + requested > dc_max_outstanding (dis_config s)
        then (IoError, s)
        else (Ok, discovery_pump env (s\<lparr>dis_queue := dis_queue s @
          map (\<lambda>k. \<lparr>dw_target = target, dw_host = h, dw_type = k\<rparr>) (dc_probes (dis_config s))\<rparr>)))"

text \<open>The hosts one after the other; the first error is the answer, the rest is still submitted.\<close>

fun submit_hosts ::
  "('x, 't) discovery_env \<Rightarrow> target \<Rightarrow> host list \<Rightarrow> status_code \<Rightarrow> ('x, 't) discovery \<Rightarrow>
     status_code \<times> ('x, 't) discovery" where
  "submit_hosts env target [] first_error s = (first_error, s)"
| "submit_hosts env target (h # hosts) first_error s =
     (case submit_host env target h s of (st, s1) \<Rightarrow>
       submit_hosts env target hosts (if st \<noteq> Ok \<and> first_error = Ok then st else first_error) s1)"

definition discovery_submit ::
  "('x, 't) discovery_env \<Rightarrow> target \<Rightarrow> ('x, 't) discovery \<Rightarrow> status_code \<times> ('x, 't) discovery" where
  "discovery_submit env target s =
     (if resolved_hosts target = [] \<or> dis_probes s = [] \<or> dc_timeout (dis_config s) \<le> 0
        \<or> dc_max_outstanding (dis_config s) = 0
      then (InvalidArgument, s)
      else case submit_hosts env target (resolved_hosts target) Ok s of
        (st, s1) \<Rightarrow> (st, discovery_pump env s1))"

section \<open>Responses and timeouts\<close>

definition stop_if_complete :: "('x, 't) discovery \<Rightarrow> ('x, 't) discovery" where
  "stop_if_complete s =
     (if discovery_complete s then s\<lparr>dis_engine := engine_stop (dis_engine s)\<rparr> else s)"

text \<open>What every branch that ends a probe does after it has appended its result.\<close>

definition answered_probe :: "u64 \<Rightarrow> discovery_flight \<Rightarrow> ('x, 't) discovery \<Rightarrow> ('x, 't) discovery" where
  "answered_probe i p s =
     s\<lparr>dis_engine := engine_cancel (pb_timer p) (dis_engine s),
       dis_completed := insert (pb_id p) (dis_completed s), dis_pending := map_erase i (dis_pending s)\<rparr>"

definition finish_probe ::
  "('x, 't) discovery_env \<Rightarrow> u64 \<Rightarrow> discovery_flight \<Rightarrow> ('x, 't) discovery \<Rightarrow> ('x, 't) discovery" where
  "finish_probe env i p s = stop_if_complete (discovery_pump env (answered_probe i p s))"

definition received_time ::
  "('x, 't) discovery_env \<Rightarrow> discovery_response \<Rightarrow> ('x, 't) discovery \<Rightarrow> int \<times> ('x, 't) discovery" where
  "received_time env r s = (if drs_received_at r = 0 then discovery_now env s else (drs_received_at r, s))"

text \<open>The result of a response with a round-trip time, or of one that makes no sense.\<close>

definition note_response ::
  "('x, 't) discovery_env \<Rightarrow> discovery_response \<Rightarrow> discovery_flight \<Rightarrow> host_state \<Rightarrow> bool \<Rightarrow> discovery_reason \<Rightarrow>
     ('x, 't) discovery \<Rightarrow> ('x, 't) discovery" where
  "note_response env r p st responded reason s =
     (case received_time env r s of (received, s1) \<Rightarrow>
       append_result env \<lparr>dr_target = ds_target (pb_submission p), dr_state = st, dr_probe = pb_type p,
         dr_responded = responded, dr_rtt_ms = Some (rtt_between (pb_sent_at p) received),
         dr_timestamp = received, dr_reason = reason\<rparr> s1)"

definition discovery_receive ::
  "('x, 't) discovery_env \<Rightarrow> discovery_response \<Rightarrow> ('x, 't) discovery \<Rightarrow> status_code \<times> ('x, 't) discovery" where
  "discovery_receive env r s =
     (if drs_id r = 0 then (InvalidArgument, s)
      else case map_of (dis_pending s) (drs_id r) of
        None \<Rightarrow>
          if drs_id r \<in> dis_expired s then (NotFound, s\<lparr>dis_late := incr_size (dis_late s)\<rparr>)
          else if drs_id r \<in> dis_completed s then (Ok, s\<lparr>dis_duplicates := incr_size (dis_duplicates s)\<rparr>)
          else (NotFound, s)
      | Some p \<Rightarrow>
          if drs_kind r = DiscoveryUnreachable then
            (Ok, finish_probe env (drs_id r) p (note_response env r p HsUnreachable False DrUnreachable s))
          else (case dp_assess (pb_probe p) r (pb_submission p) of
              MalformedReply \<Rightarrow>
                (ParseError, finish_probe env (drs_id r) p
                   (append_failure env (ds_target (pb_submission p)) (pb_type p) DrMalformedResponse s))
            | Unrelated \<Rightarrow> (Ok, s)
            | Matching \<Rightarrow>
                (Ok, finish_probe env (drs_id r) p
                   (note_response env r p HsUp True (dp_positive_reason (pb_probe p) r) s))))"

definition expired_probe :: "u64 \<Rightarrow> ('x, 't) discovery \<Rightarrow> ('x, 't) discovery" where
  "expired_probe i s =
     s\<lparr>dis_expired := insert i (dis_expired s), dis_pending := map_erase i (dis_pending s)\<rparr>"

definition expire :: "('x, 't) discovery_env \<Rightarrow> u64 \<Rightarrow> ('x, 't) discovery \<Rightarrow> ('x, 't) discovery" where
  "expire env i s =
     (case map_of (dis_pending s) i of
        None \<Rightarrow> s
      | Some p \<Rightarrow> stop_if_complete (discovery_pump env (expired_probe i
          (append_failure env (ds_target (pb_submission p)) (pb_type p) DrTimeout s))))"

section \<open>The state of a host\<close>

fun evidence_state :: "discovery_result list \<Rightarrow> bool \<Rightarrow> bool \<Rightarrow> host_state" where
  "evidence_state [] has_down has_unreachable =
     (if has_down then HsDown else if has_unreachable then HsUnreachable else HsUnknown)"
| "evidence_state (r # rs) has_down has_unreachable =
     (if dr_state r = HsUp then HsUp
      else evidence_state rs (has_down \<or> dr_state r = HsDown) (has_unreachable \<or> dr_state r = HsUnreachable))"

definition discovered_state :: "string \<Rightarrow> ('x, 't) discovery \<Rightarrow> host_state" where
  "discovered_state a s =
     (case map_of (dis_evidence s) a of None \<Rightarrow> HsUnknown | Some rs \<Rightarrow> evidence_state rs False False)"

section \<open>On the reactor\<close>

fun discovery_handle ::
  "('x, 't) discovery_env \<Rightarrow> 'x sched_callback \<Rightarrow> ('x, 't) discovery \<Rightarrow> ('x, 't) discovery" where
  "discovery_handle env (OnTimeout i) s = expire env i s"
| "discovery_handle env (OnRetryReady i) s = s"
| "discovery_handle env (TransportEvent x) s =
     (case de_event env x (dis_engine s, dis_transport s) of (answers, e, t) \<Rightarrow>
       fold (\<lambda>r s. snd (discovery_receive env r s)) answers (s\<lparr>dis_engine := e, dis_transport := t\<rparr>))"

definition discovery_embedding ::
  "('x, 't) discovery_env \<Rightarrow> (('x, 't) discovery, 'x sched_callback) embedding" where
  "discovery_embedding env =
     \<lparr>get_engine = dis_engine, put_engine = (\<lambda>e s. s\<lparr>dis_engine := e\<rparr>), read_clock = discovery_now env,
      call = discovery_handle env\<rparr>"

interpretation discovery_host: engine_host "discovery_embedding env" for env
  by unfold_locales (simp_all add: discovery_embedding_def discovery_now_def)

definition discovery_run ::
  "('x, 't) discovery_env \<Rightarrow> poll list \<Rightarrow> ('x, 't) discovery \<Rightarrow> (status_code \<times> ('x, 't) discovery) option" where
  "discovery_run env polls s = engine_run (discovery_embedding env) polls (discovery_pump env s)"

definition discovery_run_once ::
  "('x, 't) discovery_env \<Rightarrow> poll \<Rightarrow> ('x, 't) discovery \<Rightarrow> (status_code \<times> ('x, 't) discovery) option" where
  "discovery_run_once env p s =
     map_option (\<lambda>(st, s1). (st, discovery_pump env s1))
       (engine_run_once (discovery_embedding env) p (discovery_pump env s))"

definition discovery_stop :: "('x, 't) discovery \<Rightarrow> ('x, 't) discovery" where
  "discovery_stop s = s\<lparr>dis_engine := engine_stop (dis_engine s)\<rparr>"

text \<open>The destructor.\<close>

definition discovery_cancel_all :: "('x, 't) discovery \<Rightarrow> ('x, 't) discovery" where
  "discovery_cancel_all s =
     (fold (\<lambda>(i, p) s. s\<lparr>dis_engine := engine_cancel (pb_timer p) (dis_engine s)\<rparr>) (dis_pending s) s)
       \<lparr>dis_pending := [], dis_queue := []\<rparr>"

end
