(* ===== verification/Discovery_Runs.thy ===== *)
theory Discovery_Runs
  imports Discovery_Scheduler
begin

text \<open>
  Steps and runs of host discovery: the locale \<open>discovery_invariant\<close> says what a property has to
  survive to hold throughout, and is interpreted on the books of a scan (the ledger of probes,
  the identifiers, the evidence) and, for a transport that keeps its hands off the scheduler's
  timers (\<open>discovery_transport\<close>), on the timers and the stop request.
\<close>

section \<open>Steps\<close>

inductive discovery_step ::
  "('x, 't) discovery_env \<Rightarrow> bool \<Rightarrow> ('x, 't) discovery \<Rightarrow> ('x, 't) discovery \<Rightarrow> bool" for env where
  response: "discovery_step env False s (snd (discovery_receive env r s))"
| timeout: "dispatch_turn now (dis_engine s) = TurnFires (OnTimeout i) e \<Longrightarrow>
    discovery_step env True s (expire env i (s\<lparr>dis_engine := e\<rparr>))"
| other_timer: "dispatch_turn now (dis_engine s) = TurnFires cb e \<Longrightarrow> (\<And>i. cb \<noteq> OnTimeout i) \<Longrightarrow>
    discovery_step env False s (s\<lparr>dis_engine := e\<rparr>)"
| transport_event: "de_event env x (dis_engine s, dis_transport s) = (answers, e, t) \<Longrightarrow>
    discovery_step env False s (s\<lparr>dis_engine := e, dis_transport := t\<rparr>)"
| engine: "timers_kept (dis_engine s) e \<Longrightarrow> discovery_step env False s (s\<lparr>dis_engine := e\<rparr>)"
| clock: "discovery_step env False s (s\<lparr>dis_reads := n\<rparr>)"
| pumped: "discovery_step env False s (discovery_pump env s)"

inductive discovery_steps ::
  "('x, 't) discovery_env \<Rightarrow> nat \<Rightarrow> ('x, 't) discovery \<Rightarrow> ('x, 't) discovery \<Rightarrow> bool" for env where
  start: "discovery_steps env 0 s s"
| step: "discovery_steps env n s s' \<Longrightarrow> discovery_step env fired s' s'' \<Longrightarrow>
    discovery_steps env (if fired then Suc n else n) s s''"

text \<open>The results a probe in flight may end with.\<close>

definition answer_for :: "discovery_flight \<Rightarrow> discovery_result \<Rightarrow> bool" where
  "answer_for p r \<longleftrightarrow>
     dr_target r = ds_target (pb_submission p) \<and> dr_probe r = pb_type p \<and>
     ((dr_state r = HsUp \<and> dr_responded r \<and> dr_rtt_ms r \<noteq> None \<and>
         (\<exists>q. dp_assess (pb_probe p) q (pb_submission p) = Matching \<and> dr_reason r = dp_positive_reason (pb_probe p) q)) \<or>
      (dr_state r \<in> {HsUnknown, HsUnreachable} \<and> \<not> dr_responded r))"

section \<open>What an invariant has to survive\<close>

locale discovery_invariant =
  fixes env :: "('x, 't) discovery_env" and inv :: "('x, 't) discovery \<Rightarrow> bool"
  assumes inv_clock: "inv s \<Longrightarrow> inv (s\<lparr>dis_reads := n\<rparr>)"
    and inv_engine: "inv s \<Longrightarrow> timers_kept (dis_engine s) e \<Longrightarrow> inv (s\<lparr>dis_engine := e\<rparr>)"
    and inv_other: "inv s \<Longrightarrow> dispatch_turn now (dis_engine s) = TurnFires cb e \<Longrightarrow> (\<And>i. cb \<noteq> OnTimeout i) \<Longrightarrow>
      inv (s\<lparr>dis_engine := e\<rparr>)"
    and inv_event: "inv s \<Longrightarrow> de_event env x (dis_engine s, dis_transport s) = (answers, e, t) \<Longrightarrow>
      inv (s\<lparr>dis_engine := e, dis_transport := t\<rparr>)"
    and inv_stop: "inv s \<Longrightarrow> discovery_complete s \<Longrightarrow> inv (s\<lparr>dis_engine := engine_stop (dis_engine s)\<rparr>)"
    and inv_counts: "inv s \<Longrightarrow> inv (s\<lparr>dis_late := n\<rparr>)" "inv s \<Longrightarrow> inv (s\<lparr>dis_duplicates := n\<rparr>)"
    and inv_turn: "inv s \<Longrightarrow> dis_queue s = w # rest \<Longrightarrow> length (dis_pending s) < dc_max_outstanding (dis_config s) \<Longrightarrow>
      inv (snd (submit_one env w (s\<lparr>dis_queue := rest\<rparr>)))"
    and inv_answered: "inv s \<Longrightarrow> map_of (dis_pending s) i = Some p \<Longrightarrow> answer_for p r \<Longrightarrow>
      inv (answered_probe i p (append_result env r s))"
    and inv_expired: "inv s \<Longrightarrow> dispatch_turn now (dis_engine s) = TurnFires (OnTimeout i) e \<Longrightarrow>
      map_of (dis_pending s) i = Some p \<Longrightarrow> answer_for p r \<Longrightarrow>
      inv (expired_probe i (append_result env r (s\<lparr>dis_engine := e, dis_reads := n\<rparr>)))"
    and inv_expired_late: "inv s \<Longrightarrow> dispatch_turn now (dis_engine s) = TurnFires (OnTimeout i) e \<Longrightarrow>
      map_of (dis_pending s) i = None \<Longrightarrow> inv (s\<lparr>dis_engine := e\<rparr>)"
begin

lemma pump_inv: "inv s \<Longrightarrow> inv (discovery_pump env s)"
proof (induction s rule: discovery_pump_induct [of _ env])
  case (turn s)
  show ?case
  proof (cases "dis_queue s")
    case (Cons w rest)
    then show ?thesis using turn.IH [OF Cons] inv_turn [OF turn.prems Cons] turn.prems
      by (simp add: discovery_pump.simps [of env s])
  qed (use turn.prems in \<open>simp add: discovery_pump.simps [of env s]\<close>)
qed

lemma inv_stop_if_complete: "inv s \<Longrightarrow> inv (stop_if_complete s)"
  using inv_stop by (simp add: stop_if_complete_def)

lemma inv_finish:
  "inv s \<Longrightarrow> map_of (dis_pending s) i = Some p \<Longrightarrow> answer_for p r \<Longrightarrow> inv (finish_probe env i p (append_result env r s))"
  unfolding finish_probe_def by (intro inv_stop_if_complete pump_inv inv_answered)

lemma receive_inv:
  assumes "inv s"
  shows "inv (snd (discovery_receive env r s))"
proof (cases "map_of (dis_pending s) (drs_id r)")
  case None
  then show ?thesis using assms inv_counts [OF assms] by (simp add: discovery_receive_def)
next
  case (Some p)
  have now: "inv (snd (discovery_now env s))" using assms by (simp add: discovery_now_def inv_clock)
  have time: "inv (snd (received_time env r s))" "dis_pending (snd (received_time env r s)) = dis_pending s"
    using assms by (simp_all add: received_time_def discovery_now_def inv_clock)
  have up: "inv (finish_probe env (drs_id r) p (note_response env r p HsUp True (dp_positive_reason (pb_probe p) r) s))"
    if "dp_assess (pb_probe p) r (pb_submission p) = Matching"
    using that time Some unfolding note_response_def by (auto simp: answer_for_def split: prod.splits intro!: inv_finish)
  have down: "inv (finish_probe env (drs_id r) p (note_response env r p HsUnreachable False DrUnreachable s))"
    using time Some unfolding note_response_def by (auto simp: answer_for_def split: prod.splits intro!: inv_finish)
  have bad: "inv (finish_probe env (drs_id r) p
      (append_failure env (ds_target (pb_submission p)) (pb_type p) DrMalformedResponse s))"
    using now Some unfolding append_failure_def
    by (auto simp: answer_for_def discovery_now_def split: prod.splits intro!: inv_finish)
  show ?thesis using Some assms up down bad by (simp add: discovery_receive_def split: disposition.splits)
qed

lemma step_inv: "discovery_step env fired s s' \<Longrightarrow> inv s \<Longrightarrow> inv s'"
proof (induction rule: discovery_step.induct)
  case (timeout now s i e)
  show ?case
  proof (cases "map_of (dis_pending s) i")
    case None
    then show ?thesis using inv_expired_late [OF timeout(2,1)] by (simp add: expire_def)
  next
    case (Some p)
    have "inv (expired_probe i (append_failure env (ds_target (pb_submission p)) (pb_type p) DrTimeout (s\<lparr>dis_engine := e\<rparr>)))"
      unfolding append_failure_def discovery_now_def prod.case using timeout Some
      by (intro inv_expired) (simp_all add: answer_for_def)
    then show ?thesis using Some by (simp add: expire_def inv_stop_if_complete pump_inv)
  qed
qed (auto intro: receive_inv inv_other inv_event inv_engine inv_clock pump_inv)

lemma steps_inv: "discovery_steps env n s s' \<Longrightarrow> inv s \<Longrightarrow> inv s'"
  by (induction rule: discovery_steps.induct) (auto intro: step_inv)

end

section \<open>The books of a scan\<close>

definition work_key :: "discovery_work \<Rightarrow> string \<times> discovery_kind" where
  "work_key w = (h_address (dw_host w), dw_type w)"

definition flight_key :: "u64 \<times> discovery_flight \<Rightarrow> string \<times> discovery_kind" where
  "flight_key e = (ds_target (pb_submission (snd e)), pb_type (snd e))"

definition answer_key :: "discovery_result \<Rightarrow> string \<times> discovery_kind" where
  "answer_key r = (dr_target r, dr_probe r)"

definition discovery_ledger :: "('x, 't) discovery \<Rightarrow> (string \<times> discovery_kind) multiset" where
  "discovery_ledger s =
     image_mset work_key (mset (dis_queue s)) + image_mset flight_key (mset (dis_pending s)) +
     image_mset answer_key (mset (dis_results s))"

text \<open>Only a matching reply makes a host up, and it says which probe it answered.\<close>

definition discovery_result_ok :: "discovery_result \<Rightarrow> bool" where
  "discovery_result_ok r \<longleftrightarrow>
     dr_state r \<noteq> HsDown \<and> (dr_responded r \<longleftrightarrow> dr_state r = HsUp) \<and>
     (dr_state r = HsUp \<longrightarrow> dr_rtt_ms r \<noteq> None \<and> dr_reason r \<in> positive_reasons (dr_probe r))"

definition discovery_flight_ok :: "libc \<Rightarrow> u64 \<times> discovery_flight \<Rightarrow> bool" where
  "discovery_flight_ok lc e \<longleftrightarrow>
     pb_id (snd e) = fst e \<and> pb_probe (snd e) = make_discovery_probe lc (pb_type (snd e)) \<and>
     ds_id (pb_submission (snd e)) = fst e"

definition evidence_ok :: "('x, 't) discovery \<Rightarrow> bool" where
  "evidence_ok s \<longleftrightarrow>
     (\<forall>a. map_of (dis_evidence s) a =
        (case filter (\<lambda>r. dr_target r = a) (dis_results s) of [] \<Rightarrow> None | rs \<Rightarrow> Some rs))"

text \<open>Identifiers are handed out once: those in flight, answered and expired are kept apart.\<close>

definition discovery_ids_ok :: "('x, 't) discovery \<Rightarrow> bool" where
  "discovery_ids_ok s \<longleftrightarrow>
     map_ok (dis_pending s) \<and> 1 \<le> unat (dis_next_id s) \<and>
     (\<forall>i\<in>fst ` set (dis_pending s) \<union> dis_completed s \<union> dis_expired s. 1 \<le> unat i \<and> unat i < unat (dis_next_id s)) \<and>
     dis_completed s \<inter> dis_expired s = {} \<and>
     fst ` set (dis_pending s) \<inter> (dis_completed s \<union> dis_expired s) = {}"

definition discovery_books ::
  "libc \<Rightarrow> discovery_config \<Rightarrow> (string \<times> discovery_kind) multiset \<Rightarrow> nat \<Rightarrow> ('x, 't) discovery \<Rightarrow> bool" where
  "discovery_books lc cfg l n s \<longleftrightarrow>
     dis_config s = cfg \<and> 0 < dc_max_outstanding cfg \<and>
     dis_probes s = map (make_discovery_probe lc) (dc_probes cfg) \<and>
     (\<forall>w\<in>set (dis_queue s). dw_type w \<in> set (dc_probes cfg)) \<and>
     (\<forall>e\<in>set (dis_pending s). discovery_flight_ok lc e) \<and>
     (\<forall>r\<in>set (dis_results s). discovery_result_ok r) \<and>
     discovery_ledger s = l \<and> evidence_ok s \<and> discovery_ids_ok s \<and>
     unat (dis_next_id s) + length (dis_queue s) < 2 ^ 64 \<and>
     length (dis_pending s) \<le> dc_max_outstanding cfg \<and>
     length (dis_queue s) + length (dis_pending s) \<le> n"

lemma discovery_books_outside [simp]:
  "discovery_books lc cfg l n (s\<lparr>dis_engine := e\<rparr>) = discovery_books lc cfg l n s"
  "discovery_books lc cfg l n (s\<lparr>dis_transport := t\<rparr>) = discovery_books lc cfg l n s"
  "discovery_books lc cfg l n (s\<lparr>dis_reads := m\<rparr>) = discovery_books lc cfg l n s"
  "discovery_books lc cfg l n (s\<lparr>dis_late := m\<rparr>) = discovery_books lc cfg l n s"
  "discovery_books lc cfg l n (s\<lparr>dis_duplicates := m\<rparr>) = discovery_books lc cfg l n s"
  by (simp_all add: discovery_books_def discovery_ledger_def evidence_ok_def discovery_ids_ok_def)

lemma append_result_results:
  "\<exists>r'. answer_key r' = answer_key r \<and> dr_state r' = dr_state r \<and> dr_responded r' = dr_responded r \<and>
     dr_rtt_ms r' = dr_rtt_ms r \<and> dr_reason r' = dr_reason r \<and> append_result env r s =
     note_result r' (s\<lparr>dis_reads := (if dr_timestamp r = 0 then Suc (dis_reads s) else dis_reads s)\<rparr>)"
  by (simp add: append_result_def discovery_now_def answer_key_def)
    (intro conjI impI exI [of _ "r\<lparr>dr_timestamp := de_clock env (dis_reads s)\<rparr>"] exI [of _ r]; simp)

lemma note_result_evidence:
  assumes "evidence_ok s"
  shows "evidence_ok (note_result r s)"
  unfolding evidence_ok_def
proof
  fix a
  have e: "map_of (dis_evidence s) b = (case filter (\<lambda>r. dr_target r = b) (dis_results s) of [] \<Rightarrow> None | rs \<Rightarrow> Some rs)" for b
    using assms by (simp add: evidence_ok_def)
  show "map_of (dis_evidence (note_result r s)) a =
      (case filter (\<lambda>r. dr_target r = a) (dis_results (note_result r s)) of [] \<Rightarrow> None | rs \<Rightarrow> Some rs)"
    using e [of a] e [of "dr_target r"]
    by (cases "a = dr_target r") (auto simp: note_result_def map_of_put split: list.splits)
qed

section \<open>What submitting one probe does\<close>

definition discovery_kept :: "('x, 't) discovery \<Rightarrow> ('x, 't) discovery \<Rightarrow> bool" where
  "discovery_kept s s' \<longleftrightarrow>
     dis_config s' = dis_config s \<and> dis_probes s' = dis_probes s \<and> dis_queue s' = dis_queue s \<and>
     dis_completed s' = dis_completed s \<and> dis_expired s' = dis_expired s \<and>
     dis_evidence s' = dis_evidence s \<and> dis_results s' = dis_results s"

lemma submit_oneE [consumes 1, case_names refused started]:
  assumes "discovery_probe_for (dw_type w) s = Some p"
  obtains (refused) s0 reason where
      "snd (submit_one env w s) = append_failure env (h_address (dw_host w)) (dw_type w) reason s0"
      "discovery_kept s s0" "dis_pending s0 = dis_pending s" "dis_next_id s0 = next_discovery_id (dis_next_id s)"
      "dis_engine s0 = dis_engine s \<or>
        (\<exists>sub st t. de_submit env sub (dis_engine s, dis_transport s) = (st, dis_engine s0, t))"
  | (started) s' p0 e t now d where
      "snd (submit_one env w s) = s'" "discovery_kept s s'" "dis_next_id s' = next_discovery_id (dis_next_id s)"
      "dis_pending s' = fst (map_emplace (dis_next_id s) p0 (dis_pending s))"
      "pb_id p0 = dis_next_id s" "pb_type p0 = dw_type w" "pb_probe p0 = p"
      "dp_build p (dis_next_id s) (dw_host w) (dis_config s) = (Ok, pb_submission p0)"
      "de_submit env (pb_submission p0) (dis_engine s, dis_transport s) = (Ok, e, t)"
      "engine_schedule now d (OnTimeout (dis_next_id s)) e = (pb_timer p0, dis_engine s')" "pb_timer p0 \<noteq> 0"
proof -
  let ?i = "dis_next_id s" and ?s1 = "s\<lparr>dis_next_id := next_discovery_id (dis_next_id s)\<rparr>"
  obtain built sub where b: "dp_build p ?i (dw_host w) (dis_config s) = (built, sub)" by fastforce
  obtain sent e t where u: "de_submit env sub (dis_engine s, dis_transport s) = (sent, e, t)" by (metis prod_cases3)
  show thesis
  proof (cases "built = Ok \<and> sent = Ok")
    case False
    then show thesis
    proof (cases "built = Ok")
      case True
      with False show thesis using assms b u
        by (intro refused [of "reason_for_status sent" "?s1\<lparr>dis_engine := e, dis_transport := t\<rparr>"])
          (auto simp: submit_one_def Let_def discovery_kept_def)
    next
      case False
      then show thesis using assms b
        by (intro refused [of "reason_for_status built" ?s1]) (auto simp: submit_one_def Let_def discovery_kept_def)
    qed
  next
    case True
    let ?s2 = "?s1\<lparr>dis_engine := e, dis_transport := t\<rparr>"
    have sub: "submit_one env w s = launch_discovery env w p ?i sub ?s2"
      using assms b u True by (simp add: submit_one_def Let_def)
    let ?now = "de_clock env (Suc (dis_reads s))" and ?d = "dc_timeout (dis_config s) * ns_per_ms"
    let ?s4 = "?s2\<lparr>dis_reads := Suc (Suc (dis_reads s))\<rparr>"
    obtain tid e' where sch: "engine_schedule ?now ?d (OnTimeout ?i) e = (tid, e')" by fastforce
    show thesis
    proof (cases "tid = 0")
      case True
      then have e: "e' = e" using sch by (intro schedule_refused) simp
      have r: "snd (submit_one env w s) = append_failure env (h_address (dw_host w)) (dw_type w) DrInternalError
          (?s4\<lparr>dis_engine := e'\<rparr>)"
        using True sub sch by (simp add: launch_discovery_def discovery_now_def)
      show thesis by (rule refused [OF r]) (use u e in \<open>auto simp: discovery_kept_def\<close>)
    next
      case False
      let ?p = "\<lparr>pb_id = ?i, pb_type = dw_type w, pb_target = original_specification (dw_target w), pb_probe = p,
        pb_submission = sub, pb_sent_at = de_clock env (dis_reads s),
        pb_deadline = de_clock env (dis_reads s) + ?d, pb_timer = tid\<rparr>"
      show thesis
        by (rule started [of "snd (submit_one env w s)" ?p e t ?now ?d])
          (use False sub sch b u \<open>built = Ok \<and> sent = Ok\<close> in
            \<open>simp_all add: launch_discovery_def discovery_now_def discovery_kept_def Let_def\<close>)
    qed
  qed
qed

lemma append_failure_results:
  "\<exists>r n. answer_key r = (a, k) \<and> dr_state r = HsUnknown \<and> \<not> dr_responded r \<and>
     append_failure env a k reason s = note_result r (s\<lparr>dis_reads := n\<rparr>)"
proof -
  let ?r = "\<lparr>dr_target = a, dr_state = HsUnknown, dr_probe = k, dr_responded = False, dr_rtt_ms = None,
    dr_timestamp = de_clock env (dis_reads s), dr_reason = reason\<rparr>"
  obtain r' where r': "answer_key r' = answer_key ?r" "dr_state r' = dr_state ?r" "dr_responded r' = dr_responded ?r"
    "append_result env ?r (s\<lparr>dis_reads := Suc (dis_reads s)\<rparr>) = note_result r' (s\<lparr>dis_reads :=
      (if dr_timestamp ?r = 0 then Suc (Suc (dis_reads s)) else Suc (dis_reads s))\<rparr>)"
    using append_result_results [of ?r env "s\<lparr>dis_reads := Suc (dis_reads s)\<rparr>"] by auto
  have "append_failure env a k reason s = append_result env ?r (s\<lparr>dis_reads := Suc (dis_reads s)\<rparr>)"
    by (simp add: append_failure_def discovery_now_def)
  with r' show ?thesis
    by (intro exI [of _ r'] exI [of _ "if dr_timestamp ?r = 0 then Suc (Suc (dis_reads s)) else Suc (dis_reads s)"])
      (auto simp: answer_key_def)
qed

section \<open>The books are kept\<close>

lemma next_discovery_id_unat:
  assumes "unat i + m < 2 ^ 64" and "0 < m"
  shows "unat (next_discovery_id i) = Suc (unat i)"
proof -
  have "unat (i + 1) = Suc (unat i) mod 2 ^ 64" by (simp add: unat_word_ariths)
  then have "unat (i + 1) = Suc (unat i)" using assms by simp
  moreover from this have "i + 1 \<noteq> 0" by (metis nat.distinct(1) unat_0)
  ultimately show ?thesis by (simp add: next_discovery_id_def)
qed

lemma note_result_ledger [simp]:
  "discovery_ledger (note_result r s) = add_mset (answer_key r) (discovery_ledger s)"
  by (simp add: discovery_ledger_def note_result_def)

lemma note_result_results [simp]: "dis_results (note_result r s) = dis_results s @ [r]"
  by (simp add: note_result_def)

text \<open>The books while one probe is between two places: its key is missing from the ledger.\<close>

lemma discovery_books_note:
  assumes "discovery_books lc cfg l n s" and "discovery_result_ok r"
  shows "discovery_books lc cfg (add_mset (answer_key r) l) n (note_result r s)"
proof -
  have "evidence_ok (note_result r s)" using assms(1) by (intro note_result_evidence) (simp add: discovery_books_def)
  moreover have "discovery_ids_ok (note_result r s)"
    using assms(1) by (simp add: discovery_books_def discovery_ids_ok_def)
  ultimately show ?thesis using assms unfolding discovery_books_def by auto
qed

lemma discovery_books_taken:
  assumes "discovery_books lc cfg l n s" and "dis_queue s = w # rest"
  shows "discovery_books lc cfg (l - {#work_key w#}) (n - 1) (s\<lparr>dis_queue := rest\<rparr>)" and "work_key w \<in># l"
    and "dw_type w \<in> set (dc_probes cfg)" and "0 < n"
    and "unat (dis_next_id s) + Suc (length rest) < 2 ^ 64"
proof -
  have l: "l = discovery_ledger s" using assms by (simp add: discovery_books_def)
  have "discovery_ledger (s\<lparr>dis_queue := rest\<rparr>) = l - {#work_key w#}" using assms(2) by (simp add: l discovery_ledger_def)
  then show "discovery_books lc cfg (l - {#work_key w#}) (n - 1) (s\<lparr>dis_queue := rest\<rparr>)"
    using assms by (auto simp: discovery_books_def evidence_ok_def discovery_ids_ok_def)
  show "work_key w \<in># l" using assms(2) by (simp add: l discovery_ledger_def)
  show "dw_type w \<in> set (dc_probes cfg)" "0 < n" "unat (dis_next_id s) + Suc (length rest) < 2 ^ 64"
    using assms by (auto simp: discovery_books_def)
qed

lemma discovery_probe_of_kind:
  assumes "discovery_books lc cfg l n s" and "k \<in> set (dc_probes cfg)"
  shows "discovery_probe_for k s = Some (make_discovery_probe lc k)"
proof -
  have "find (\<lambda>p. dp_type p = k) (map (make_discovery_probe lc) ks) = Some (make_discovery_probe lc k)" if "k \<in> set ks" for ks
    using that by (induction ks) auto
  then show ?thesis using assms by (simp add: discovery_probe_for_def discovery_books_def)
qed

lemma discovery_kept_books:
  assumes "discovery_books lc cfg l n s" and "discovery_kept s s'" and "dis_pending s' = dis_pending s"
    and "unat (dis_next_id s') = Suc (unat (dis_next_id s))" and "unat (dis_next_id s) + Suc (length (dis_queue s)) < 2 ^ 64"
  shows "discovery_books lc cfg l n s'"
  using assms
  unfolding discovery_books_def discovery_kept_def discovery_ledger_def evidence_ok_def discovery_ids_ok_def
  by (auto simp: less_Suc_eq)

lemma discovery_books_mono: "discovery_books lc cfg l n s \<Longrightarrow> n \<le> m \<Longrightarrow> discovery_books lc cfg l m s"
  by (auto simp: discovery_books_def)

lemma discovery_books_failure:
  assumes "discovery_books lc cfg l n s"
  shows "discovery_books lc cfg (add_mset (a, k) l) n (append_failure env a k reason s)"
proof -
  obtain r m where r: "answer_key r = (a, k)" "dr_state r = HsUnknown" "\<not> dr_responded r"
    "append_failure env a k reason s = note_result r (s\<lparr>dis_reads := m\<rparr>)"
    using append_failure_results [of a k env reason s] by blast
  have "discovery_result_ok r" using r(2,3) by (simp add: discovery_result_ok_def)
  then show ?thesis
    unfolding r(4) r(1) [symmetric] using assms by (intro discovery_books_note) simp_all
qed

lemma discovery_books_started:
  assumes "discovery_books lc cfg l n s" and "discovery_kept s s'" and "length (dis_pending s) < dc_max_outstanding cfg"
    and "dis_pending s' = (dis_next_id s, p) # dis_pending s" and "unat (dis_next_id s') = Suc (unat (dis_next_id s))"
    and "unat (dis_next_id s) + Suc (length (dis_queue s)) < 2 ^ 64" and "discovery_flight_ok lc (dis_next_id s, p)"
  shows "discovery_books lc cfg (add_mset (flight_key (dis_next_id s, p)) l) (Suc n) s'"
  using assms
  unfolding discovery_books_def discovery_kept_def discovery_ledger_def evidence_ok_def discovery_ids_ok_def map_ok_def
  by (auto simp: less_Suc_eq)

lemma discovery_books_turn:
  assumes b: "discovery_books (de_libc env) cfg l n s" and q: "dis_queue s = w # rest"
    and "length (dis_pending s) < dc_max_outstanding cfg"
  shows "discovery_books (de_libc env) cfg l n (snd (submit_one env w (s\<lparr>dis_queue := rest\<rparr>)))"
proof -
  let ?s = "s\<lparr>dis_queue := rest\<rparr>" and ?l = "l - {#work_key w#}" and ?lc = "de_libc env"
  note taken = discovery_books_taken [OF b q]
  have restore: "add_mset (work_key w) ?l = l" using taken(2) by simp
  have nid: "unat (next_discovery_id (dis_next_id s)) = Suc (unat (dis_next_id s))"
    using taken(5) by (rule next_discovery_id_unat) simp
  have p: "discovery_probe_for (dw_type w) ?s = Some (make_discovery_probe ?lc (dw_type w))"
    by (rule discovery_probe_of_kind [OF taken(1,3)])
  have fresh: "dis_next_id s \<notin> fst ` set (dis_pending s)" using b by (auto simp: discovery_books_def discovery_ids_ok_def)
  show ?thesis using p
  proof (cases rule: submit_oneE [where env = env])
    case (refused s0 reason)
    have "discovery_books ?lc cfg ?l (n - 1) s0"
      by (rule discovery_kept_books [OF taken(1)]) (use refused taken(5) nid in simp_all)
    then have "discovery_books ?lc cfg (add_mset (work_key w) ?l) (n - 1) (snd (submit_one env w ?s))"
      unfolding refused(1) work_key_def by (rule discovery_books_failure)
    then show ?thesis using discovery_books_mono unfolding restore by fastforce
  next
    case (started s' p0 e t now d)
    have "dis_pending s' = (dis_next_id ?s, p0) # dis_pending ?s"
      using started(4) fresh by (simp add: map_emplace_def map_has_def map_of_eq_None_iff)
    moreover have "ds_id (pb_submission p0) = dis_next_id s \<and> ds_target (pb_submission p0) = h_address (dw_host w)"
      using discovery_contract.build_identity [OF made_probe_contract started(8)] by simp
    ultimately have "discovery_books ?lc cfg (add_mset (flight_key (dis_next_id ?s, p0)) ?l) (Suc (n - 1)) s'"
      using started assms(3) taken(5) nid
      by (intro discovery_books_started [OF taken(1)]) (simp_all add: discovery_flight_ok_def)
    moreover have "flight_key (dis_next_id ?s, p0) = work_key w"
      using \<open>ds_id _ = _ \<and> _\<close> started(6) by (simp add: flight_key_def work_key_def)
    ultimately show ?thesis unfolding started(1) using restore taken(4) by simp
  qed
qed

lemma discovery_books_left:
  assumes b: "discovery_books lc cfg l n s" and p: "map_of (dis_pending s) i = Some p"
    and s': "s' = s\<lparr>dis_pending := map_erase i (dis_pending s), dis_completed := insert i (dis_completed s)\<rparr> \<or>
      s' = s\<lparr>dis_pending := map_erase i (dis_pending s), dis_expired := insert i (dis_expired s)\<rparr>"
  shows "discovery_books lc cfg (l - {#flight_key (i, p)#}) (n - 1) s'" and "flight_key (i, p) \<in># l" and "0 < n"
proof -
  have ok: "map_ok (dis_pending s)" and l: "l = discovery_ledger s" using b by (simp_all add: discovery_books_def discovery_ids_ok_def)
  note m = mset_map_erase [OF ok p]
  have len: "length (dis_pending s) = Suc (length (map_erase i (dis_pending s)))" by (rule length_map_erase [OF ok p])
  have ids: "fst ` set (map_erase i (dis_pending s)) = fst ` set (dis_pending s) - {i}" by (auto simp: map_erase_def)
  have i: "i \<in> fst ` set (dis_pending s)" using map_of_SomeD [OF p] by force
  have sub: "set (map_erase i (dis_pending s)) \<subseteq> set (dis_pending s)" by (auto simp: map_erase_def)
  show "flight_key (i, p) \<in># l" unfolding l discovery_ledger_def m by simp
  show "0 < n" using b len by (simp add: discovery_books_def)
  have ledger: "discovery_ledger s' = l - {#flight_key (i, p)#}"
    using s' unfolding l discovery_ledger_def m by auto
  have "discovery_ids_ok s'"
    using b s' i map_ok_erase [OF ok, of i] unfolding discovery_books_def discovery_ids_ok_def
    by (elim disjE) (auto simp: ids)
  then show "discovery_books lc cfg (l - {#flight_key (i, p)#}) (n - 1) s'"
    using b s' ledger len sub unfolding discovery_books_def evidence_ok_def by (elim disjE) auto
qed

lemma answer_result_ok:
  assumes "discovery_flight_ok lc (i, p)" and "answer_for p r"
  shows "discovery_result_ok r"
proof -
  have pb: "pb_probe p = make_discovery_probe lc (pb_type p)" using assms(1) by (simp add: discovery_flight_ok_def)
  have "dp_positive_reason (pb_probe p) q \<in> positive_reasons (pb_type p)" for q
    using discovery_contract.positive_reason [OF made_probe_contract, of lc "pb_type p" q] by (simp add: pb)
  then show ?thesis using assms(2) by (auto simp: answer_for_def discovery_result_ok_def)
qed

lemma answer_for_key: "answer_for p r \<Longrightarrow> answer_key r = flight_key (i, p)"
  by (simp add: answer_for_def answer_key_def flight_key_def)

text \<open>A probe leaves the flight and its answer enters the results.\<close>

lemma discovery_books_answer:
  assumes b: "discovery_books lc cfg l n s" and p: "map_of (dis_pending s) i = Some p" and a: "answer_for p r"
    and s': "s' = s\<lparr>dis_pending := map_erase i (dis_pending s), dis_completed := insert i (dis_completed s)\<rparr> \<or>
      s' = s\<lparr>dis_pending := map_erase i (dis_pending s), dis_expired := insert i (dis_expired s)\<rparr>"
  shows "discovery_books lc cfg l (n - 1) (note_result r s')" and "0 < n"
proof -
  note left = discovery_books_left [OF b p s']
  have "discovery_flight_ok lc (i, p)" using b map_of_SomeD [OF p] by (auto simp: discovery_books_def)
  from discovery_books_note [OF left(1) answer_result_ok [OF this a]]
  show "discovery_books lc cfg l (n - 1) (note_result r s')" using left(2) by (simp add: answer_for_key [OF a, of i])
  show "0 < n" by (rule left(3))
qed

lemma append_result_answer:
  obtains r' m where "answer_for p r' = answer_for p r" and
    "append_result env r s = note_result r' (s\<lparr>dis_reads := m\<rparr>)"
proof -
  obtain r' where r': "answer_key r' = answer_key r" "dr_state r' = dr_state r" "dr_responded r' = dr_responded r"
    "dr_rtt_ms r' = dr_rtt_ms r" "dr_reason r' = dr_reason r" "append_result env r s =
     note_result r' (s\<lparr>dis_reads := (if dr_timestamp r = 0 then Suc (dis_reads s) else dis_reads s)\<rparr>)"
    using append_result_results [of r env s] by blast
  have "answer_for p r' = answer_for p r" using r' by (simp add: answer_for_def answer_key_def)
  with r'(6) that show thesis by blast
qed

lemma discovery_books_answered:
  assumes b: "discovery_books lc cfg l n s" and p: "map_of (dis_pending s) i = Some p" and a: "answer_for p r"
  shows "discovery_books lc cfg l (n - 1) (answered_probe i p (append_result env r s))"
proof -
  obtain r' m where r: "answer_for p r' = answer_for p r" "append_result env r s = note_result r' (s\<lparr>dis_reads := m\<rparr>)"
    by (rule append_result_answer)
  let ?s = "s\<lparr>dis_reads := m\<rparr>"
  let ?s' = "?s\<lparr>dis_pending := map_erase i (dis_pending ?s), dis_completed := insert i (dis_completed ?s)\<rparr>"
  have i: "pb_id p = i" using b map_of_SomeD [OF p] by (auto simp: discovery_books_def discovery_flight_ok_def)
  have "discovery_books lc cfg l (n - 1) (note_result r' ?s')"
    by (rule discovery_books_answer [where i = i and p = p and s = ?s]) (use b p a r in auto)
  then have "discovery_books lc cfg l (n - 1) ((note_result r' ?s')\<lparr>dis_engine := engine_cancel (pb_timer p) (dis_engine s)\<rparr>)"
    by simp
  moreover have "answered_probe i p (note_result r' ?s) = (note_result r' ?s')\<lparr>dis_engine := engine_cancel (pb_timer p) (dis_engine s)\<rparr>"
    by (simp add: answered_probe_def note_result_def i)
  ultimately show ?thesis by (simp add: r(2))
qed

lemma discovery_books_expired:
  assumes b: "discovery_books lc cfg l n s" and p: "map_of (dis_pending s) i = Some p" and a: "answer_for p r"
  shows "discovery_books lc cfg l (n - 1) (expired_probe i (append_result env r s))" and "0 < n"
proof -
  obtain r' m where r: "answer_for p r' = answer_for p r" "append_result env r s = note_result r' (s\<lparr>dis_reads := m\<rparr>)"
    by (rule append_result_answer)
  let ?s = "s\<lparr>dis_reads := m\<rparr>"
  let ?s' = "?s\<lparr>dis_pending := map_erase i (dis_pending ?s), dis_expired := insert i (dis_expired ?s)\<rparr>"
  have ex: "expired_probe i (note_result r' ?s) = note_result r' ?s'" by (simp add: expired_probe_def note_result_def)
  show "discovery_books lc cfg l (n - 1) (expired_probe i (append_result env r s))"
    unfolding r(2) ex by (rule discovery_books_answer [where i = i and p = p and s = ?s]) (use b p a r in auto)
  show "0 < n" by (rule discovery_books_answer(2) [where i = i and p = p and s = ?s and s' = ?s', OF _ _ a]) (use b p in auto)
qed

interpretation discovery_books: discovery_invariant env "discovery_books (de_libc env) cfg l n" for env cfg l n
proof unfold_locales
  fix s :: "('a, 'b) discovery" and w rest i p r e m
  assume b: "discovery_books (de_libc env) cfg l n s"
  show "discovery_books (de_libc env) cfg l n (snd (submit_one env w (s\<lparr>dis_queue := rest\<rparr>)))"
    if "dis_queue s = w # rest" "length (dis_pending s) < dc_max_outstanding (dis_config s)"
    using discovery_books_turn [OF b that(1)] that(2) b by (simp add: discovery_books_def)
  show "discovery_books (de_libc env) cfg l n (answered_probe i p (append_result env r s))"
    if "map_of (dis_pending s) i = Some p" "answer_for p r"
    by (rule discovery_books_mono [OF discovery_books_answered [OF b that]]) simp
  show "discovery_books (de_libc env) cfg l n (expired_probe i (append_result env r (s\<lparr>dis_engine := e, dis_reads := m\<rparr>)))"
    if "map_of (dis_pending s) i = Some p" "answer_for p r"
    by (rule discovery_books_mono [OF discovery_books_expired(1) [where i = i and p = p and l = l and n = n]])
      (use b that in simp_all)
qed simp_all

end
