(* ===== verification/Discovery_Scan.thy ===== *)
theory Discovery_Scan
  imports Discovery_Runs
begin

text \<open>
  Host discovery from \<open>submit\<close> to the return of \<open>run\<close>: the engine's timers are those of the
  probes in flight, every timer that fires ends a probe, and a run that succeeds has a result for
  every host and every kind of probe.
\<close>

section \<open>Transports\<close>

text \<open>What the scheduler needs of a transport: it leaves the timers of others alone.\<close>

locale discovery_transport =
  fixes env :: "('x, 't) discovery_env"
  assumes submit_timers: "de_submit env sub (e, t) = (st, e', t') \<Longrightarrow> timers_kept e e'"
    and event_timers: "de_event env x (e, t) = (answers, e', t') \<Longrightarrow> timers_kept e e'"

definition discovery_timers :: "('x, 't) discovery \<Rightarrow> bool" where
  "discovery_timers s \<longleftrightarrow> timers_are (dis_engine s) (\<lambda>i. map_option pb_timer (map_of (dis_pending s) i))"

definition discovery_stop_ok :: "('x, 't) discovery \<Rightarrow> bool" where
  "discovery_stop_ok s \<longleftrightarrow> (eng_stopped (dis_engine s) \<longrightarrow> discovery_complete s)"

definition discovery_sound ::
  "libc \<Rightarrow> discovery_config \<Rightarrow> (string \<times> discovery_kind) multiset \<Rightarrow> nat \<Rightarrow> ('x, 't) discovery \<Rightarrow> bool" where
  "discovery_sound lc cfg l n s \<longleftrightarrow> discovery_books lc cfg l n s \<and> discovery_timers s \<and> discovery_stop_ok s"

lemma flight_timers_erase:
  "(\<lambda>j. map_option pb_timer (map_of (map_erase i m) j)) = (\<lambda>j. map_option pb_timer (map_of m j))(i := None)"
  by (auto simp: map_of_erase)

lemma fresh_discovery_id: "discovery_books lc cfg l n s \<Longrightarrow> map_of (dis_pending s) (dis_next_id s) = None"
  by (auto simp: discovery_books_def discovery_ids_ok_def map_of_eq_None_iff)

context discovery_transport begin

lemma turn_timers:
  assumes b: "discovery_books (de_libc env) cfg l n s" and t: "discovery_timers s \<and> discovery_stop_ok s"
    and q: "dis_queue s = w # rest"
  shows "discovery_timers (snd (submit_one env w (s\<lparr>dis_queue := rest\<rparr>))) \<and>
    discovery_stop_ok (snd (submit_one env w (s\<lparr>dis_queue := rest\<rparr>)))"
proof -
  let ?s = "s\<lparr>dis_queue := rest\<rparr>" and ?f = "\<lambda>i. map_option pb_timer (map_of (dis_pending s) i)"
  note taken = discovery_books_taken [OF b q]
  have n: "\<not> eng_stopped (dis_engine s)" using t q by (auto simp: discovery_stop_ok_def discovery_complete_def)
  have p: "discovery_probe_for (dw_type w) ?s = Some (make_discovery_probe (de_libc env) (dw_type w))"
    by (rule discovery_probe_of_kind [OF taken(1,3)])
  show ?thesis using p
  proof (cases rule: submit_oneE [where env = env])
    case (refused s0 reason)
    have k: "timers_kept (dis_engine s) (dis_engine s0)"
      using refused(5) submit_timers by (auto simp: timers_kept_refl)
    then have "timers_are (dis_engine s0) ?f" using t by (auto simp: discovery_timers_def intro: timers_are_kept)
    moreover have "\<not> eng_stopped (dis_engine s0)" using k n by (auto simp: timers_kept_def)
    ultimately show ?thesis unfolding refused(1) using refused(3) by (simp add: discovery_timers_def discovery_stop_ok_def)
  next
    case (started s' p0 e t' now d)
    have k: "timers_kept (dis_engine s) e" using started(9) submit_timers by simp
    have f: "?f (dis_next_id s) = None" using fresh_discovery_id [OF b] by simp
    have "timers_are e ?f" using t k by (auto simp: discovery_timers_def intro: timers_are_kept)
    from timers_are_schedule [OF this started(10,11)] f
    have "timers_are (dis_engine s') (?f(dis_next_id s \<mapsto> pb_timer p0))" by simp
    moreover have "(\<lambda>i. map_option pb_timer (map_of (dis_pending s') i)) = ?f(dis_next_id s \<mapsto> pb_timer p0)"
      using started(4) fresh_discovery_id [OF b] by (auto simp: map_emplace_def map_has_def)
    moreover have "\<not> eng_stopped (dis_engine s')"
      using k n schedule_stopped [OF started(10)] by (auto simp: timers_kept_def)
    ultimately show ?thesis unfolding started(1) by (simp add: discovery_timers_def discovery_stop_ok_def)
  qed
qed

end

sublocale discovery_transport < sound: discovery_invariant env "discovery_sound (de_libc env) cfg l n" for cfg l n
proof unfold_locales
  fix s :: "('x, 't) discovery" and w rest i p r e now m x answers t cb
  assume "discovery_sound (de_libc env) cfg l n s"
  then have b: "discovery_books (de_libc env) cfg l n s" and t: "discovery_timers s" "discovery_stop_ok s"
    by (simp_all add: discovery_sound_def)
  let ?f = "\<lambda>j. map_option pb_timer (map_of (dis_pending s) j)"
  have idle: "\<not> eng_stopped (dis_engine s)" if "map_of (dis_pending s) i = Some p"
    using that t(2) by (auto simp: discovery_stop_ok_def discovery_complete_def)
  show "discovery_sound (de_libc env) cfg l n (s\<lparr>dis_reads := m\<rparr>)"
    "discovery_sound (de_libc env) cfg l n (s\<lparr>dis_late := m\<rparr>)"
    "discovery_sound (de_libc env) cfg l n (s\<lparr>dis_duplicates := m\<rparr>)"
    using b t by (simp_all add: discovery_sound_def discovery_timers_def discovery_stop_ok_def discovery_complete_def)
  show "discovery_sound (de_libc env) cfg l n (s\<lparr>dis_engine := e\<rparr>)" if "timers_kept (dis_engine s) e"
    using b t that timers_are_kept [OF _ that]
    by (simp add: discovery_sound_def discovery_timers_def discovery_stop_ok_def discovery_complete_def timers_kept_def)
  show "discovery_sound (de_libc env) cfg l n (s\<lparr>dis_engine := e, dis_transport := t\<rparr>)"
    if "de_event env x (dis_engine s, dis_transport s) = (answers, e, t)"
    using b t event_timers [OF that] timers_are_kept [OF _ event_timers [OF that]]
    by (simp add: discovery_sound_def discovery_timers_def discovery_stop_ok_def discovery_complete_def timers_kept_def)
  show "discovery_sound (de_libc env) cfg l n (s\<lparr>dis_engine := e\<rparr>)"
    if "dispatch_turn now (dis_engine s) = TurnFires cb e" "\<And>i. cb \<noteq> OnTimeout i"
    using b t timers_are_fires_other [OF _ that] fires_stopped [OF that(1)]
    by (simp add: discovery_sound_def discovery_timers_def discovery_stop_ok_def discovery_complete_def)
  show "discovery_sound (de_libc env) cfg l n (s\<lparr>dis_engine := engine_stop (dis_engine s)\<rparr>)" if "discovery_complete s"
    using b t that timers_are_stop
    by (simp add: discovery_sound_def discovery_timers_def discovery_stop_ok_def discovery_complete_def)
  show "discovery_sound (de_libc env) cfg l n (s\<lparr>dis_engine := e\<rparr>)"
    if "dispatch_turn now (dis_engine s) = TurnFires (OnTimeout i) e" "map_of (dis_pending s) i = None"
    using timers_are_fires(2) [of "dis_engine s" ?f now i e] that t by (simp add: discovery_timers_def)
  show "discovery_sound (de_libc env) cfg l n (snd (submit_one env w (s\<lparr>dis_queue := rest\<rparr>)))"
    if "dis_queue s = w # rest" "length (dis_pending s) < dc_max_outstanding (dis_config s)"
    using turn_timers [OF b conjI [OF t] that(1)] discovery_books.inv_turn [OF b that] by (simp add: discovery_sound_def)
  show "discovery_sound (de_libc env) cfg l n (answered_probe i p (append_result env r s))"
    if p: "map_of (dis_pending s) i = Some p" and "answer_for p r"
  proof -
    have "timers_are (engine_cancel (pb_timer p) (dis_engine s)) (?f(i := None))"
      using t(1) p by (intro timers_are_cancel) (simp_all add: discovery_timers_def)
    then have "discovery_timers (answered_probe i p (append_result env r s))"
      by (simp add: discovery_timers_def answered_probe_def flight_timers_erase)
    moreover have "discovery_stop_ok (answered_probe i p (append_result env r s))"
      using idle [OF p] by (simp add: discovery_stop_ok_def answered_probe_def engine_cancel_def)
    ultimately show ?thesis using discovery_books.inv_answered [OF b that] by (simp add: discovery_sound_def)
  qed
  show "discovery_sound (de_libc env) cfg l n (expired_probe i (append_result env r (s\<lparr>dis_engine := e, dis_reads := m\<rparr>)))"
    if f: "dispatch_turn now (dis_engine s) = TurnFires (OnTimeout i) e" and p: "map_of (dis_pending s) i = Some p"
      and a: "answer_for p r"
  proof -
    let ?s = "expired_probe i (append_result env r (s\<lparr>dis_engine := e, dis_reads := m\<rparr>))"
    have "timers_are e (?f(i := None))" using t(1) f by (intro timers_are_fires(1)) (simp_all add: discovery_timers_def)
    then have "discovery_timers ?s" by (simp add: discovery_timers_def expired_probe_def flight_timers_erase)
    moreover have "discovery_stop_ok ?s"
      using idle [OF p] fires_stopped [OF f] by (simp add: discovery_stop_ok_def expired_probe_def)
    ultimately show ?thesis using discovery_books.inv_expired [OF b f p a] by (simp add: discovery_sound_def)
  qed
qed

section \<open>A scan keeps moving\<close>

definition discovery_going :: "('x, 't) discovery \<Rightarrow> bool" where
  "discovery_going s \<longleftrightarrow> dis_queue s = [] \<or> dis_pending s \<noteq> []"

lemma submit_one_config [simp]: "dis_config (snd (submit_one env w s)) = dis_config s"
  by (simp add: submit_one_def launch_discovery_def Let_def discovery_now_def split: option.splits prod.splits)

lemma discovery_pump_config [simp]: "dis_config (discovery_pump env s) = dis_config s"
proof (induction s rule: discovery_pump_induct [of _ env])
  case (turn s)
  then show ?case by (cases "dis_queue s") (simp_all add: discovery_pump.simps [of env s])
qed

lemma discovery_pump_full:
  "dis_queue (discovery_pump env s) = [] \<or>
     dc_max_outstanding (dis_config s) \<le> length (dis_pending (discovery_pump env s))"
proof (induction s rule: discovery_pump_induct [of _ env])
  case (turn s)
  then show ?case by (cases "dis_queue s") (auto simp: discovery_pump.simps [of env s])
qed

lemma discovery_pump_going: "0 < dc_max_outstanding (dis_config s) \<Longrightarrow> discovery_going (discovery_pump env s)"
  using discovery_pump_full [of env s] by (auto simp: discovery_going_def)

lemma stop_if_complete_going [simp]: "discovery_going (stop_if_complete s) = discovery_going s"
  by (simp add: discovery_going_def stop_if_complete_def)

lemma note_response_config [simp]: "dis_config (note_response env r p st responded reason s) = dis_config s"
  by (simp add: note_response_def received_time_def discovery_now_def)

lemma finish_probe_going: "0 < dc_max_outstanding (dis_config s) \<Longrightarrow> discovery_going (finish_probe env i p s)"
  by (simp add: finish_probe_def discovery_pump_going answered_probe_def)

lemma discovery_step_going:
  assumes "discovery_step env fired s s'" and "0 < dc_max_outstanding (dis_config s)" and "discovery_going s"
  shows "discovery_going s'"
  using assms(1)
proof (cases rule: discovery_step.cases)
  case (response r)
  then show ?thesis using assms(2,3)
    by (auto simp: discovery_receive_def discovery_going_def [of "s\<lparr>dis_late := _\<rparr>"]
        discovery_going_def [of "s\<lparr>dis_duplicates := _\<rparr>"] discovery_going_def [of s] finish_probe_going
        split: option.splits disposition.splits)
next
  case (timeout now i e)
  then show ?thesis using assms(2,3)
    by (auto simp: expire_def discovery_pump_going expired_probe_def discovery_going_def [of "s\<lparr>dis_engine := _\<rparr>"]
        discovery_going_def [of s] split: option.splits)
qed (use assms(2,3) in \<open>auto simp: discovery_pump_going\<close>, auto simp: discovery_going_def)

lemma discovery_going_has_timer:
  assumes "discovery_going s" and "discovery_timers s" and "\<not> discovery_complete s"
  shows "\<exists>i tid. timer_for (OnTimeout i) (dis_engine s) tid"
proof -
  have "dis_pending s \<noteq> []" using assms(1,3) by (auto simp: discovery_going_def discovery_complete_def)
  then obtain i p where "map_of (dis_pending s) i = Some p"
    by (metis list.set_intros(1) map_of_eq_None_iff not_None_eq image_eqI neq_Nil_conv)
  then show ?thesis using assms(2) by (auto simp: discovery_timers_def timers_are_def)
qed

section \<open>Runs\<close>

context discovery_transport begin

lemma step_bounded:
  assumes "discovery_step env fired s s'" and "discovery_sound (de_libc env) cfg l n s"
  shows "discovery_sound (de_libc env) cfg l (n - (if fired then 1 else 0)) s' \<and> (fired \<longrightarrow> 0 < n)"
  using assms(1)
proof (cases rule: discovery_step.cases)
  case (timeout now i e)
  let ?f = "\<lambda>i. map_option pb_timer (map_of (dis_pending s) i)"
  have b: "discovery_books (de_libc env) cfg l n s" and t: "timers_are (dis_engine s) ?f"
    using assms(2) by (simp_all add: discovery_sound_def discovery_timers_def)
  obtain p where p: "map_of (dis_pending s) i = Some p" using timers_are_fires(2) [OF t timeout(3)] by auto
  let ?r = "\<lparr>dr_target = ds_target (pb_submission p), dr_state = HsUnknown, dr_probe = pb_type p,
    dr_responded = False, dr_rtt_ms = None, dr_timestamp = de_clock env (dis_reads s), dr_reason = DrTimeout\<rparr>"
  let ?s1 = "expired_probe i (append_result env ?r (s\<lparr>dis_engine := e, dis_reads := Suc (dis_reads s)\<rparr>))"
  have a: "answer_for p ?r" by (simp add: answer_for_def)
  note ex = discovery_books_expired(1) [of "de_libc env" cfg l n "s\<lparr>dis_engine := e, dis_reads := Suc (dis_reads s)\<rparr>" i p ?r env]
    discovery_books_expired(2) [of "de_libc env" cfg l n s i p ?r]
  have "discovery_sound (de_libc env) cfg l n ?s1" by (rule sound.inv_expired [OF assms(2) timeout(3) p a])
  then have s1: "discovery_sound (de_libc env) cfg l (n - 1) ?s1"
    using ex(1) b p a by (simp add: discovery_sound_def)
  have eq: "s' = stop_if_complete (discovery_pump env ?s1)"
    using timeout p by (simp add: expire_def append_failure_def discovery_now_def)
  have "discovery_sound (de_libc env) cfg l (n - 1) s'"
    unfolding eq by (intro sound.inv_stop_if_complete sound.pump_inv s1)
  moreover have "0 < n" using ex(2) b p a by simp
  ultimately show ?thesis using timeout(1) by simp
qed (use sound.step_inv [OF assms] in simp_all)

lemma steps_all:
  assumes "discovery_steps env k s s'" and "discovery_sound (de_libc env) cfg l n s" and "discovery_going s"
  shows "k \<le> n \<and> discovery_sound (de_libc env) cfg l (n - k) s' \<and> discovery_going s'"
  using assms
proof (induction rule: discovery_steps.induct)
  case (step k s s' fired s'')
  then have b: "k \<le> n" "discovery_sound (de_libc env) cfg l (n - k) s'" "discovery_going s'" by auto
  have "0 < dc_max_outstanding (dis_config s')" using b(2) by (simp add: discovery_sound_def discovery_books_def)
  then have "discovery_going s''" by (rule discovery_step_going [OF step.hyps(2) _ b(3)])
  then show ?case using step_bounded [OF step.hyps(2) b(2)] b(1) by (cases fired) auto
qed simp

end

section \<open>An accepted submission\<close>

text \<open>The identifiers handed out and the work queued: a turn of the pump moves one to the other.\<close>

lemma discovery_pump_ids:
  assumes "discovery_books (de_libc env) cfg l n s"
  shows "unat (dis_next_id (discovery_pump env s)) + length (dis_queue (discovery_pump env s)) =
    unat (dis_next_id s) + length (dis_queue s)"
  using assms
proof (induction s rule: discovery_pump_induct [of _ env])
  case (turn s)
  show ?case
  proof (cases "dis_queue s")
    case Nil
    then show ?thesis by (simp add: discovery_pump.simps [of env s])
  next
    case (Cons w rest)
    let ?s = "s\<lparr>dis_queue := rest\<rparr>"
    note taken = discovery_books_taken [OF turn.prems Cons]
    show ?thesis
    proof (cases "length (dis_pending s) < dc_max_outstanding (dis_config s)")
      case True
      have p: "discovery_probe_for (dw_type w) ?s = Some (make_discovery_probe (de_libc env) (dw_type w))"
        by (rule discovery_probe_of_kind [OF taken(1,3)])
      have "dis_next_id (snd (submit_one env w ?s)) = next_discovery_id (dis_next_id s)"
        using p by (cases rule: submit_oneE [where env = env]) simp_all
      moreover have "unat (next_discovery_id (dis_next_id s)) = Suc (unat (dis_next_id s))"
        using taken(5) by (rule next_discovery_id_unat) simp
      ultimately show ?thesis
        using turn.IH [OF Cons True discovery_books.inv_turn [OF turn.prems Cons True]] True Cons
        by (simp add: discovery_pump.simps [of env s])
    qed (simp add: discovery_pump.simps [of env s] Cons)
  qed
qed

definition host_requests :: "discovery_config \<Rightarrow> host \<Rightarrow> (string \<times> discovery_kind) multiset" where
  "host_requests cfg h = image_mset (Pair (h_address h)) (mset (dc_probes cfg))"

definition discovery_requests :: "discovery_config \<Rightarrow> host list \<Rightarrow> (string \<times> discovery_kind) multiset" where
  "discovery_requests cfg hosts = (\<Sum>h\<in>#mset hosts. host_requests cfg h)"

lemma size_requests: "size (discovery_requests cfg hosts) = length hosts * length (dc_probes cfg)"
  by (induction hosts) (simp_all add: discovery_requests_def host_requests_def)

lemma discovery_books_queued:
  assumes "discovery_books lc cfg l n s" and "unat (dis_next_id s) + length (dis_queue s) + length (dc_probes cfg) < 2 ^ 64"
  shows "discovery_books lc cfg (l + host_requests cfg h) (n + length (dc_probes cfg))
    (s\<lparr>dis_queue := dis_queue s @ map (\<lambda>k. \<lparr>dw_target = target, dw_host = h, dw_type = k\<rparr>) (dc_probes cfg)\<rparr>)"
proof -
  have "image_mset work_key (mset (map (\<lambda>k. \<lparr>dw_target = target, dw_host = h, dw_type = k\<rparr>) ks)) =
      image_mset (Pair (h_address h)) (mset ks)" for ks
    by (induction ks) (simp_all add: work_key_def)
  then show ?thesis
    using assms unfolding discovery_books_def discovery_ledger_def evidence_ok_def discovery_ids_ok_def host_requests_def
    by auto
qed

context discovery_transport begin

lemma sound_queued:
  assumes "discovery_sound lc cfg l n s" and "\<not> eng_stopped (dis_engine s)"
    and "unat (dis_next_id s) + length (dis_queue s) + length (dc_probes cfg) < 2 ^ 64"
  shows "discovery_sound lc cfg (l + host_requests cfg h) (n + length (dc_probes cfg))
    (s\<lparr>dis_queue := dis_queue s @ map (\<lambda>k. \<lparr>dw_target = target, dw_host = h, dw_type = k\<rparr>) (dc_probes cfg)\<rparr>)"
  using assms discovery_books_queued [of lc cfg l n s h target]
  by (simp add: discovery_sound_def discovery_timers_def discovery_stop_ok_def)

end

context discovery_transport begin

lemma submit_one_stopped: "eng_stopped (dis_engine (snd (submit_one env w s))) \<Longrightarrow> eng_stopped (dis_engine s)"
proof (cases "discovery_probe_for (dw_type w) s")
  case (Some p)
  assume a: "eng_stopped (dis_engine (snd (submit_one env w s)))"
  from Some show ?thesis
  proof (cases rule: submit_oneE [where env = env])
    case (refused s0 reason)
    then show ?thesis using a submit_timers by (auto simp: timers_kept_def)
  next
    case (started s' p0 e t now d)
    then show ?thesis using a submit_timers [OF started(9)] schedule_stopped [OF started(10)] by (simp add: timers_kept_def)
  qed
qed (simp add: submit_one_def)

lemma pump_not_stopped: "\<not> eng_stopped (dis_engine s) \<Longrightarrow> \<not> eng_stopped (dis_engine (discovery_pump env s))"
proof (induction s rule: discovery_pump_induct [of _ env])
  case (turn s)
  show ?case
  proof (cases "dis_queue s")
    case (Cons w rest)
    have "\<not> eng_stopped (dis_engine (snd (submit_one env w (s\<lparr>dis_queue := rest\<rparr>))))"
      using submit_one_stopped [of w "s\<lparr>dis_queue := rest\<rparr>"] turn.prems by auto
    then show ?thesis using turn.IH [OF Cons] turn.prems Cons by (simp add: discovery_pump.simps [of env s])
  qed (use turn.prems in \<open>simp add: discovery_pump.simps [of env s]\<close>)
qed

text \<open>One accepted host: its probes enter the books, and as many identifiers are spoken for.\<close>

lemma submit_host_ok:
  assumes "submit_host env target h s = (Ok, s')" and "discovery_sound (de_libc env) cfg l n s"
    and "\<not> eng_stopped (dis_engine s)"
    and "unat (dis_next_id s) + length (dis_queue s) + length (dc_probes cfg) < 2 ^ 64"
  shows "discovery_sound (de_libc env) cfg (l + host_requests cfg h) (n + length (dc_probes cfg)) s'"
    and "\<not> eng_stopped (dis_engine s')"
    and "unat (dis_next_id s') + length (dis_queue s') = unat (dis_next_id s) + length (dis_queue s) + length (dc_probes cfg)"
    and "length (dis_pending s) + length (dis_queue s) + length (dc_probes cfg) \<le> dc_max_outstanding cfg"
proof -
  have c: "dis_config s = cfg" and b: "discovery_books (de_libc env) cfg l n s"
    using assms(2) by (simp_all add: discovery_sound_def discovery_books_def)
  let ?s = "s\<lparr>dis_queue := dis_queue s @ map (\<lambda>k. \<lparr>dw_target = target, dw_host = h, dw_type = k\<rparr>) (dc_probes cfg)\<rparr>"
  have "\<forall>k\<in>set (dc_probes cfg). discovery_probe_for k s \<noteq> None" using discovery_probe_of_kind [OF b] by simp
  then have "length (filter (\<lambda>k. discovery_probe_for k s \<noteq> None) (dc_probes cfg)) = length (dc_probes cfg)"
    by (simp only: filter_True)
  then have eq: "s' = discovery_pump env ?s" and
    "length (dis_pending s) + length (dis_queue s) + length (dc_probes cfg) \<le> dc_max_outstanding cfg"
    using assms(1) by (auto simp: submit_host_def Let_def c split: if_splits)
  then show "length (dis_pending s) + length (dis_queue s) + length (dc_probes cfg) \<le> dc_max_outstanding cfg" by simp
  have q: "discovery_sound (de_libc env) cfg (l + host_requests cfg h) (n + length (dc_probes cfg)) ?s"
    by (rule sound_queued [OF assms(2,3,4)])
  show "discovery_sound (de_libc env) cfg (l + host_requests cfg h) (n + length (dc_probes cfg)) s'"
    unfolding eq by (rule sound.pump_inv [OF q])
  show "\<not> eng_stopped (dis_engine s')" unfolding eq by (rule pump_not_stopped) (simp add: assms(3))
  show "unat (dis_next_id s') + length (dis_queue s') = unat (dis_next_id s) + length (dis_queue s) + length (dc_probes cfg)"
    unfolding eq using discovery_pump_ids [of env cfg _ _ ?s] q by (fastforce simp: discovery_sound_def)
qed

lemma submit_hosts_error: "first_error \<noteq> Ok \<Longrightarrow> fst (submit_hosts env target hosts first_error s) = first_error"
  by (induction hosts arbitrary: s) (auto split: prod.splits)

lemma submit_hosts_ok:
  assumes "submit_hosts env target hosts Ok s = (Ok, s')" and "discovery_sound (de_libc env) cfg l n s"
    and "\<not> eng_stopped (dis_engine s)"
    and "unat (dis_next_id s) + length (dis_queue s) + length hosts * length (dc_probes cfg) < 2 ^ 64"
  shows "discovery_sound (de_libc env) cfg (l + discovery_requests cfg hosts) (n + length hosts * length (dc_probes cfg)) s' \<and>
    \<not> eng_stopped (dis_engine s')"
  using assms
proof (induction hosts arbitrary: s l n)
  case (Cons h hosts)
  obtain st s1 where h: "submit_host env target h s = (st, s1)" by fastforce
  have "st = Ok"
  proof (rule ccontr)
    assume "st \<noteq> Ok"
    then show False using Cons.prems(1) h submit_hosts_error [of st target hosts s1] by simp
  qed
  then have h1: "submit_host env target h s = (Ok, s1)" and r: "submit_hosts env target hosts Ok s1 = (Ok, s')"
    using h Cons.prems(1) by simp_all
  note one = submit_host_ok [OF h1 Cons.prems(2,3)]
  have "unat (dis_next_id s) + length (dis_queue s) + length (dc_probes cfg) < 2 ^ 64" using Cons.prems(4) by simp
  note one = one [OF this]
  show ?case
    using Cons.IH [OF r one(1,2)] Cons.prems(4) one(3)
    by (simp add: discovery_requests_def algebra_simps)
qed (simp add: discovery_requests_def)

end

end
