(* ===== verification/Discovery_Verdicts.thy ===== *)
theory Discovery_Verdicts
  imports Discovery_Scan Port_Scan
begin

text \<open>
  What host discovery promises: the reactor's loop as a sequence of its steps, the properties of
  a scan from an accepted \<open>submit\<close> to the return of \<open>run\<close>, and the limits it runs into.
\<close>

section \<open>The reactor's loop\<close>

definition discovery_leads :: "('x, 't) discovery_env \<Rightarrow> ('x, 't) discovery \<Rightarrow> ('x, 't) discovery \<Rightarrow> bool" where
  "discovery_leads env s s' \<longleftrightarrow> (\<exists>n. discovery_steps env n s s')"

lemma discovery_leads_refl: "discovery_leads env s s"
  using discovery_steps.start [of env s] by (auto simp: discovery_leads_def)

lemma discovery_steps_trans:
  assumes "discovery_steps env n s' s''" and "discovery_steps env m s s'"
  shows "\<exists>k. discovery_steps env k s s''"
  using assms by (induction rule: discovery_steps.induct) (blast intro: discovery_steps.step)+

lemma discovery_leads_trans: "discovery_leads env s s' \<Longrightarrow> discovery_leads env s' s'' \<Longrightarrow> discovery_leads env s s''"
  using discovery_steps_trans by (fastforce simp: discovery_leads_def)

lemma discovery_leads_step: "discovery_step env fired s s' \<Longrightarrow> discovery_leads env s s'"
  using discovery_steps.step [OF discovery_steps.start] by (fastforce simp: discovery_leads_def)

lemma discovery_embedding_fields [simp]:
  "get_engine (discovery_embedding env) = dis_engine" "put_engine (discovery_embedding env) = (\<lambda>e s. s\<lparr>dis_engine := e\<rparr>)"
  "read_clock (discovery_embedding env) = discovery_now env" "call (discovery_embedding env) = discovery_handle env"
  by (simp_all add: discovery_embedding_def)

lemma discovery_leads_transport: "discovery_leads env s (discovery_handle env (TransportEvent x) s)"
proof -
  obtain answers e t where ev: "de_event env x (dis_engine s, dis_transport s) = (answers, e, t)" by (metis prod_cases3)
  let ?s0 = "s\<lparr>dis_engine := e, dis_transport := t\<rparr>"
  have "discovery_leads env ?s0 (fold (\<lambda>r s. snd (discovery_receive env r s)) rs ?s0)" for rs
  proof (induction rs rule: rev_induct)
    case (snoc r' rs)
    from discovery_leads_trans [OF snoc discovery_leads_step [OF discovery_step.response]] show ?case by simp
  qed (simp add: discovery_leads_refl)
  then show ?thesis
    using discovery_leads_trans [OF discovery_leads_step [OF discovery_step.transport_event [OF ev]]] by (simp add: ev)
qed

lemma discovery_leads_fires:
  assumes "dispatch_turn now (dis_engine s) = TurnFires cb e"
  shows "discovery_leads env s (discovery_handle env cb (s\<lparr>dis_engine := e\<rparr>))"
proof (cases cb)
  case (OnTimeout i)
  from discovery_leads_step [OF discovery_step.timeout [OF assms [unfolded OnTimeout]]] show ?thesis
    by (simp add: OnTimeout)
next
  case (OnRetryReady i)
  then show ?thesis using discovery_leads_step [OF discovery_step.other_timer [OF assms]] by simp
next
  case (TransportEvent x)
  have "discovery_leads env s (s\<lparr>dis_engine := e\<rparr>)"
    using discovery_leads_step [OF discovery_step.other_timer [OF assms]] TransportEvent by simp
  from discovery_leads_trans [OF this discovery_leads_transport] show ?thesis unfolding TransportEvent .
qed

sublocale discovery_transport < loop: engine_steps "discovery_embedding env" "discovery_leads env"
  "discovery_sound (de_libc env) cfg l n" for cfg l n
proof unfold_locales
  fix s :: "('x, 't) discovery" and s' now cb e x
  show "discovery_leads env s s' \<Longrightarrow> discovery_sound (de_libc env) cfg l n s \<Longrightarrow> discovery_sound (de_libc env) cfg l n s'"
    using sound.steps_inv by (auto simp: discovery_leads_def)
  show "discovery_sound (de_libc env) cfg l n s \<Longrightarrow> wired (get_engine (discovery_embedding env) s)"
    by (simp add: discovery_sound_def discovery_timers_def timers_are_def)
  show "discovery_leads env s (snd (read_clock (discovery_embedding env) s))"
    by (simp add: discovery_now_def discovery_leads_step [OF discovery_step.clock])
  show "discovery_leads env s (call (discovery_embedding env) cb (put_engine (discovery_embedding env) e s))"
    if "dispatch_turn now (get_engine (discovery_embedding env) s) = TurnFires cb e"
    using discovery_leads_fires that by simp
  show "discovery_leads env s (call (discovery_embedding env) (TransportEvent x) s)"
    unfolding discovery_embedding_fields by (rule discovery_leads_transport)
  show "discovery_leads env s (put_engine (discovery_embedding env) e s)"
    if "timers_kept (get_engine (discovery_embedding env) s) e"
    using that discovery_leads_step [OF discovery_step.engine] by simp
qed (auto simp: discovery_leads_refl intro: discovery_leads_trans)

context discovery_transport begin

lemma leads_run:
  assumes "engine_run (discovery_embedding env) polls s = Some (st, s')" and "discovery_sound (de_libc env) cfg l n s"
  shows "discovery_leads env s s' \<and> (st = Ok \<longrightarrow> eng_stopped (dis_engine s') \<or> idle (dis_engine s'))"
  using loop.leads_run [OF assms] by simp

lemma inv_pump: "discovery_sound (de_libc env) cfg l n s \<Longrightarrow> discovery_sound (de_libc env) cfg l n (discovery_pump env s)"
  by (rule sound.pump_inv)

end

section \<open>An accepted submission\<close>

text \<open>
  A submission that was accepted whole: a fresh scheduler on an engine without timers of its own,
  fewer probes than there are identifiers, and a \<open>submit\<close> that answered with success.
\<close>

definition discovery_started ::
  "('x, 't) discovery_env \<Rightarrow> 'x sched_callback engine \<Rightarrow> 't \<Rightarrow> discovery_config \<Rightarrow> target \<Rightarrow>
     ('x, 't) discovery \<Rightarrow> bool" where
  "discovery_started env e t cfg target s \<longleftrightarrow>
     timers_are e (\<lambda>_. None) \<and> \<not> eng_stopped e \<and>
     length (resolved_hosts target) * length (dc_probes cfg) < 2 ^ 64 - 1 \<and>
     discovery_submit env target (new_discovery env e t cfg) = (Ok, s)"

context discovery_transport begin

lemma fresh_sound:
  assumes "timers_are e (\<lambda>_. None)" and "0 < dc_max_outstanding cfg"
  shows "discovery_sound (de_libc env) cfg {#} 0 (new_discovery env e t cfg)"
  using assms by (simp add: discovery_sound_def discovery_books_def discovery_ledger_def evidence_ok_def
    discovery_ids_ok_def discovery_timers_def discovery_stop_ok_def discovery_complete_def new_discovery_def)

lemma started_sound:
  assumes "discovery_started env e t cfg target s"
  shows "discovery_sound (de_libc env) cfg (discovery_requests cfg (resolved_hosts target))
      (length (resolved_hosts target) * length (dc_probes cfg)) s"
    and "discovery_going s"
proof -
  let ?n = "new_discovery env e t cfg" and ?k = "length (resolved_hosts target) * length (dc_probes cfg)"
  have sub: "discovery_submit env target ?n = (Ok, s)" and e: "timers_are e (\<lambda>_. None)" "\<not> eng_stopped e"
    and k: "?k < 2 ^ 64 - 1"
    using assms by (simp_all add: discovery_started_def)
  have max: "0 < dc_max_outstanding cfg" using sub by (auto simp: discovery_submit_def new_discovery_def split: if_splits)
  have f: "dis_engine ?n = e" "dis_queue ?n = []" "dis_next_id ?n = 1" "dis_config ?n = cfg"
    by (simp_all add: new_discovery_def)
  have sound: "discovery_sound (de_libc env) cfg {#} 0 ?n" by (rule fresh_sound [OF e(1) max])
  obtain s1 where s1: "submit_hosts env target (resolved_hosts target) Ok ?n = (Ok, s1)" "s = discovery_pump env s1"
    using sub by (auto simp: discovery_submit_def split: if_splits prod.splits)
  have s: "discovery_sound (de_libc env) cfg ({#} + discovery_requests cfg (resolved_hosts target)) (0 + ?k) s1 \<and>
      \<not> eng_stopped (dis_engine s1)"
    by (rule submit_hosts_ok [OF s1(1) sound]) (use e k f in simp_all)
  show "discovery_sound (de_libc env) cfg (discovery_requests cfg (resolved_hosts target)) ?k s"
    unfolding s1(2) using s by (intro sound.pump_inv) simp
  show "discovery_going s"
    unfolding s1(2) using s max by (intro discovery_pump_going) (simp add: discovery_sound_def discovery_books_def)
qed

end

lemma discovery_throughout:
  assumes "discovery_transport env" and "discovery_started env e t cfg target s0" and "discovery_steps env n s0 s"
  shows "n \<le> length (resolved_hosts target) * length (dc_probes cfg)"
    and "discovery_books (de_libc env) cfg (discovery_requests cfg (resolved_hosts target))
      (length (resolved_hosts target) * length (dc_probes cfg) - n) s"
    and "discovery_timers s" and "discovery_stop_ok s" and "discovery_going s"
  using discovery_transport.steps_all [OF assms(1,3) discovery_transport.started_sound [OF assms(1,2)]]
  by (simp_all add: discovery_sound_def)

section \<open>An example\<close>

text \<open>The recording transport of the tests, and one host probed with an echo request.\<close>

definition recording_discovery_submit ::
  "discovery_submission \<Rightarrow> discovery_submission list \<Rightarrow> status_code \<times> discovery_submission list" where
  "recording_discovery_submit s t = (Ok, t @ [s])"

definition recording_discovery_env :: "libc \<Rightarrow> (nat \<Rightarrow> int) \<Rightarrow> (unit, discovery_submission list) discovery_env" where
  "recording_discovery_env lc clock =
     \<lparr>de_libc = lc, de_clock = clock,
      de_submit = (\<lambda>s (e, t). case recording_discovery_submit s t of (st, t') \<Rightarrow> (st, e, t')),
      de_event = (\<lambda>x (e, t). ([], e, t))\<rparr>"

interpretation recording_discovery: discovery_transport "recording_discovery_env lc clock" for lc clock
  by unfold_locales (auto simp: recording_discovery_env_def timers_kept_refl split: prod.splits)

lemma icmp_build_ipv4:
  assumes "probe_address lc h = Some a" and "is_ipv4 a" and "i \<noteq> 0" and "i \<le> 0xFFFF"
  shows "\<exists>s. icmp_build lc i h cfg = (Ok, s) \<and> ds_packet s = icmp_wire (echo_request (ucast i)) \<and>
    ds_identifier s = 0x534B \<and> ds_sequence s = ucast i \<and> ds_target s = h_address h \<and> ds_target_ip s = a"
proof -
  let ?m = "echo_request (ucast i)"
  have "icmp_validate ?m" by (simp add: echo_request_def icmp_validate_def icmp_serialized_size_def skan_payload_def)
  then have "icmp_serialize ?m (replicate (icmp_serialized_size ?m) 0) = (Ok, icmp_wire ?m)"
    by (simp add: icmp_serialize_wire)
  then have b: "element_bytes icmp_serialize icmp_serialized_size ?m = icmp_wire ?m" by (simp add: element_bytes_def)
  have "icmp_wire ?m \<noteq> []" by (simp add: icmp_wire_def icmp_bytes_def)
  then show ?thesis
    using assms by (auto simp: icmp_build_def Let_def b new_discovery_submission_def word_less_nat_alt word_le_nat_alt)
qed

definition discovery_demo_env :: "(unit, discovery_submission list) discovery_env" where
  "discovery_demo_env = recording_discovery_env no_libc (\<lambda>n. 10000000000 * int n)"

definition discovery_demo_config :: discovery_config where
  "discovery_demo_config = default_discovery_config\<lparr>dc_probes := [DpIcmpEcho]\<rparr>"

definition discovery_demo_scan :: "(unit, discovery_submission list) discovery" where
  "discovery_demo_scan = snd (discovery_submit discovery_demo_env demo_target
     (new_discovery discovery_demo_env (new_engine True) [] discovery_demo_config))"

lemmas discovery_eval = discovery_submit_def submit_host_def new_discovery_def discovery_demo_env_def
  discovery_demo_config_def default_discovery_config_def recording_discovery_env_def recording_discovery_submit_def
  demo_target_def discovery_probe_for_def discovery_pump.simps submit_one_def Let_def next_discovery_id_def
  launch_discovery_def discovery_now_def engine_schedule_def new_engine_def map_emplace_def map_has_def ns_per_ms_def

lemma probed_host_address: "probe_address lc probed_host = Some (from_ipv4 0xC0000207)" "h_address probed_host = ''192.0.2.7''"
  by (simp_all add: probe_address_def probed_host_def from_ipv4_def ip_valid_def is_ipv4_def)

lemma discovery_demo_submits:
  "\<exists>s. discovery_submit discovery_demo_env demo_target
     (new_discovery discovery_demo_env (new_engine True) [] discovery_demo_config) = (Ok, s)"
proof -
  obtain sub where "icmp_build no_libc 1 probed_host discovery_demo_config = (Ok, sub)"
    using icmp_build_ipv4 [OF probed_host_address(1) _ , of 1 no_libc discovery_demo_config]
    by (auto simp: from_ipv4_def is_ipv4_def)
  then show ?thesis
    using probed_host_address
    by (simp add: discovery_eval icmp_probe_def)
qed

lemma discovery_demo_transport: "discovery_transport discovery_demo_env"
  unfolding discovery_demo_env_def by (rule recording_discovery.discovery_transport_axioms)

lemma discovery_demo_started:
  "discovery_started discovery_demo_env (new_engine True) [] discovery_demo_config demo_target discovery_demo_scan"
proof -
  have "timers_are (new_engine True) (\<lambda>_. None)"
    by (simp add: timers_are_def wired_def timers_inv_new timer_for_def) (simp add: new_engine_def)
  then show ?thesis
    using discovery_demo_submits
    by (auto simp: discovery_started_def discovery_demo_scan_def demo_target_def discovery_demo_config_def
        default_discovery_config_def) (simp_all add: new_engine_def)
qed

section \<open>What discovery promises\<close>

text \<open>
  Property C12. When the \<open>run\<close> of an accepted discovery returns success, nothing is queued or
  in flight, and every pair of a host and a kind of probe has exactly one result, as often as it
  was requested.
\<close>

theorem discovery_reports_every_probe:
  assumes "discovery_transport env" and "discovery_started env e t cfg target s0"
    and "discovery_run env polls s0 = Some (Ok, s)"
  shows "discovery_complete s \<and> image_mset answer_key (mset (dis_results s)) =
    (\<Sum>h\<in>#mset (resolved_hosts target). image_mset (Pair (h_address h)) (mset (dc_probes cfg)))"
proof -
  have run: "engine_run (discovery_embedding env) polls (discovery_pump env s0) = Some (Ok, s)"
    using assms(3) by (simp add: discovery_run_def)
  note start = discovery_transport.started_sound [OF assms(1,2)]
  have "discovery_leads env (discovery_pump env s0) s" and stop: "eng_stopped (dis_engine s) \<or> idle (dis_engine s)"
    using discovery_transport.leads_run [OF assms(1) run discovery_transport.inv_pump [OF assms(1) start(1)]] by auto
  then have "discovery_leads env s0 s"
    by (rule_tac discovery_leads_trans [OF discovery_leads_step [OF discovery_step.pumped]])
  then obtain n where n: "discovery_steps env n s0 s" by (auto simp: discovery_leads_def)
  note th = discovery_throughout [OF assms(1,2) n]
  have c: "discovery_complete s"
  proof (cases "eng_stopped (dis_engine s)")
    case True
    then show ?thesis using th(4) by (simp add: discovery_stop_ok_def)
  next
    case False
    then have "eng_timers (dis_engine s) = []" using stop by (simp add: idle_def)
    then show ?thesis using discovery_going_has_timer [OF th(5,3)] by (auto simp: timer_for_def)
  qed
  then show ?thesis using th(2)
    by (simp add: discovery_books_def discovery_ledger_def discovery_complete_def discovery_requests_def host_requests_def)
qed

lemmas discovery_run_eval = discovery_run_def engine_run_def run_loop.simps run_once_impl_def idle_def set_running_def
  dispatch_timers.simps dispatch_turn_def expire_def expired_probe_def append_failure_def append_result_def
  note_result_def discovery_embedding_def stop_if_complete_def discovery_complete_def engine_stop_def map_erase_def

lemma discovery_demo_runs: "\<exists>s. discovery_run discovery_demo_env [Interrupted] discovery_demo_scan = Some (Ok, s)"
proof -
  obtain sub where "icmp_build no_libc 1 probed_host discovery_demo_config = (Ok, sub)"
    using icmp_build_ipv4 [OF probed_host_address(1) _ , of 1 no_libc discovery_demo_config]
    by (auto simp: from_ipv4_def is_ipv4_def)
  then show ?thesis
    using probed_host_address
    by (simp add: discovery_demo_scan_def discovery_eval icmp_probe_def) (simp add: discovery_run_eval discovery_eval)
qed

lemma discovery_demo_waits: "\<not> discovery_complete discovery_demo_scan"
proof -
  obtain sub where "icmp_build no_libc 1 probed_host discovery_demo_config = (Ok, sub)"
    using icmp_build_ipv4 [OF probed_host_address(1) _ , of 1 no_libc discovery_demo_config]
    by (auto simp: from_ipv4_def is_ipv4_def)
  then show ?thesis
    using probed_host_address
    by (simp add: discovery_demo_scan_def discovery_eval icmp_probe_def) (simp add: discovery_complete_def)
qed

theorem discovery_reports_every_probe_witness:
  "\<exists>s. discovery_run discovery_demo_env [Interrupted] discovery_demo_scan = Some (Ok, s) \<and> discovery_complete s \<and>
     image_mset answer_key (mset (dis_results s)) = {#(''192.0.2.7'', DpIcmpEcho)#}"
proof -
  obtain s where s: "discovery_run discovery_demo_env [Interrupted] discovery_demo_scan = Some (Ok, s)"
    using discovery_demo_runs by blast
  from discovery_reports_every_probe [OF discovery_demo_transport discovery_demo_started s] s show ?thesis
    by (auto simp: demo_target_def discovery_demo_config_def default_discovery_config_def probed_host_address)
qed

text \<open>
  At every moment of a discovery each requested pair of a host and a kind of probe
  is queued, in flight or reported, exactly as often as it was requested; no identifier is at the
  same time in flight, answered and expired; and the live timeout timers are exactly one per
  probe in flight.
\<close>

theorem discovery_accounts:
  assumes "discovery_transport env" and "discovery_started env e t cfg target s0" and "discovery_steps env n s0 s"
  shows "image_mset work_key (mset (dis_queue s)) + image_mset flight_key (mset (dis_pending s)) +
      image_mset answer_key (mset (dis_results s)) =
      (\<Sum>h\<in>#mset (resolved_hosts target). image_mset (Pair (h_address h)) (mset (dc_probes cfg))) \<and>
    distinct (map fst (dis_pending s)) \<and> dis_completed s \<inter> dis_expired s = {} \<and>
    fst ` set (dis_pending s) \<inter> (dis_completed s \<union> dis_expired s) = {} \<and>
    length (dis_pending s) \<le> dc_max_outstanding cfg \<and>
    ((\<exists>t. map_of (eng_timers (dis_engine s)) tid = Some t \<and> tm_callback t = OnTimeout i) \<longleftrightarrow>
      (\<exists>p. map_of (dis_pending s) i = Some p \<and> pb_timer p = tid))"
proof -
  note th = discovery_throughout [OF assms]
  have "image_mset work_key (mset (dis_queue s)) + image_mset flight_key (mset (dis_pending s)) +
      image_mset answer_key (mset (dis_results s)) =
      (\<Sum>h\<in>#mset (resolved_hosts target). image_mset (Pair (h_address h)) (mset (dc_probes cfg)))"
    using th(2) by (simp add: discovery_books_def discovery_ledger_def discovery_requests_def host_requests_def)
  then show ?thesis using th(2,3)
    by (simp add: discovery_books_def discovery_ids_ok_def map_ok_def discovery_timers_def timers_are_def timer_for_def)
qed

theorem discovery_accounts_witness:
  "image_mset work_key (mset (dis_queue discovery_demo_scan)) +
     image_mset flight_key (mset (dis_pending discovery_demo_scan)) +
     image_mset answer_key (mset (dis_results discovery_demo_scan)) = {#(''192.0.2.7'', DpIcmpEcho)#}"
  using discovery_accounts [OF discovery_demo_transport discovery_demo_started discovery_steps.start]
  by (simp add: demo_target_def discovery_demo_config_def default_discovery_config_def probed_host_address)

text \<open>
  Property C13. A discovery is finite: at most one timeout timer fires for each pair of a host
  and a kind of probe; and until it is complete one of them is live, so that even a silent
  network brings it to its end.
\<close>

theorem discovery_terminates:
  assumes "discovery_transport env" and "discovery_started env e t cfg target s0" and "discovery_steps env n s0 s"
  shows "n \<le> length (resolved_hosts target) * length (dc_probes cfg) \<and>
    (discovery_complete s \<or>
     (\<exists>tid t i. map_of (eng_timers (dis_engine s)) tid = Some t \<and> tm_callback t = OnTimeout i))"
proof -
  note th = discovery_throughout [OF assms]
  show ?thesis using th(1) discovery_going_has_timer [OF th(5,3)] by (auto simp: timer_for_def)
qed

theorem discovery_terminates_witness:
  "\<not> discovery_complete discovery_demo_scan \<and>
   (\<exists>tid t i. map_of (eng_timers (dis_engine discovery_demo_scan)) tid = Some t \<and> tm_callback t = OnTimeout i)"
proof -
  have "\<not> discovery_complete discovery_demo_scan" by (rule discovery_demo_waits)
  then show ?thesis
    using discovery_terminates [OF discovery_demo_transport discovery_demo_started discovery_steps.start] by blast
qed

lemma evidence_state_spec:
  "evidence_state rs d u =
     (if \<exists>r\<in>set rs. dr_state r = HsUp then HsUp
      else if d \<or> (\<exists>r\<in>set rs. dr_state r = HsDown) then HsDown
      else if u \<or> (\<exists>r\<in>set rs. dr_state r = HsUnreachable) then HsUnreachable else HsUnknown)"
  by (induction rs d u rule: evidence_state.induct) auto

lemma discovered_state_spec:
  assumes "evidence_ok s"
  shows "discovered_state a s =
    evidence_state (filter (\<lambda>r. dr_target r = a) (dis_results s)) False False"
proof (cases "filter (\<lambda>r. dr_target r = a) (dis_results s)")
  case Nil
  then show ?thesis using assms by (simp add: discovered_state_def evidence_ok_def)
next
  case (Cons r rs)
  then show ?thesis using assms by (simp add: discovered_state_def evidence_ok_def)
qed

text \<open>
  Property C14. The state of a host is a function of the results under its address: up exactly
  when a probe was answered, else unreachable exactly when the network said so, else unknown; no
  host is ever called down. Every result that makes a host up carries a round-trip time and a
  reason of its own kind of probe.
\<close>

theorem discovered_state_exact:
  assumes "discovery_transport env" and "discovery_started env e t cfg target s0" and "discovery_steps env n s0 s"
  shows "discovered_state a s =
      (if \<exists>r\<in>set (dis_results s). dr_target r = a \<and> dr_responded r then HsUp
       else if \<exists>r\<in>set (dis_results s). dr_target r = a \<and> dr_state r = HsUnreachable then HsUnreachable
       else HsUnknown) \<and>
    (\<forall>r\<in>set (dis_results s). dr_responded r \<longrightarrow>
       dr_state r = HsUp \<and> dr_rtt_ms r \<noteq> None \<and> dr_reason r \<in> positive_reasons (dr_probe r))"
proof -
  note th = discovery_throughout(2) [OF assms]
  have "evidence_ok s" and ok: "\<And>r. r \<in> set (dis_results s) \<Longrightarrow> discovery_result_ok r"
    using th by (auto simp: discovery_books_def)
  have "(\<exists>r\<in>set (dis_results s). dr_target r = a \<and> dr_state r = HsUp) \<longleftrightarrow>
      (\<exists>r\<in>set (dis_results s). dr_target r = a \<and> dr_responded r)"
    "\<not> (\<exists>r\<in>set (dis_results s). dr_target r = a \<and> dr_state r = HsDown)"
    using ok by (auto simp: discovery_result_ok_def)
  moreover have "\<forall>r\<in>set (dis_results s). dr_responded r \<longrightarrow>
      dr_state r = HsUp \<and> dr_rtt_ms r \<noteq> None \<and> dr_reason r \<in> positive_reasons (dr_probe r)"
    using ok by (auto simp: discovery_result_ok_def)
  ultimately show ?thesis
    unfolding discovered_state_spec [OF \<open>evidence_ok s\<close>] evidence_state_spec by (auto simp: Bex_def)
qed

theorem discovered_state_exact_witness:
  "discovered_state ''192.0.2.9'' discovery_demo_scan \<in> {HsUp, HsUnreachable, HsUnknown}"
  using discovered_state_exact [OF discovery_demo_transport discovery_demo_started discovery_steps.start, of "''192.0.2.9''"]
  by (cases "discovered_state ''192.0.2.9'' discovery_demo_scan") (auto split: if_splits)

end
