(* ===== verification/Discovery_Limits.thy ===== *)
theory Discovery_Limits
  imports Discovery_Verdicts
begin

text \<open>
  Where host discovery stops short of what it is used for: targets larger than the limit on
  outstanding probes, probes the transport refuses, replies to ARP requests; and how far the
  correlation of replies reaches.
\<close>

section \<open>The limit on outstanding probes\<close>

lemma submit_one_pending: "length (dis_pending (snd (submit_one env w s))) \<le> Suc (length (dis_pending s))"
  by (auto simp: submit_one_def launch_discovery_def Let_def discovery_now_def map_emplace_def
      split: option.splits prod.splits)

lemma pump_pending_count: "discovery_pending_count (discovery_pump env s) \<le> discovery_pending_count s"
proof (induction s rule: discovery_pump_induct [of _ env])
  case (turn s)
  show ?case
  proof (cases "dis_queue s")
    case (Cons w rest)
    then show ?thesis
      using turn.IH [OF Cons] submit_one_pending [of env w "s\<lparr>dis_queue := rest\<rparr>"]
      by (auto simp: discovery_pump.simps [of env s] discovery_pending_count_def)
  qed (simp add: discovery_pump.simps [of env s])
qed

context discovery_transport begin

text \<open>An accepted sequence of hosts ends within the limit.\<close>

lemma submit_hosts_within:
  assumes "submit_hosts env target hosts Ok s = (Ok, s')" and "discovery_sound (de_libc env) cfg l n s"
    and "\<not> eng_stopped (dis_engine s)"
    and "unat (dis_next_id s) + length (dis_queue s) + length hosts * length (dc_probes cfg) < 2 ^ 64"
    and "discovery_pending_count s \<le> dc_max_outstanding cfg"
  shows "discovery_pending_count s' \<le> dc_max_outstanding cfg"
  using assms
proof (induction hosts arbitrary: s l n)
  case (Cons h hosts)
  obtain st s1 where h: "submit_host env target h s = (st, s1)" by fastforce
  have "st = Ok"
  proof (rule ccontr)
    assume "st \<noteq> Ok"
    then show False using Cons.prems(1) h submit_hosts_error [of st target hosts s1] by simp
  qed
  then have h1: "submit_host env target h s = (Ok, s1)" and r: "submit_hosts env target hosts Ok s1 = (Ok, s')"
    using h Cons.prems(1) by simp_all
  have ids: "unat (dis_next_id s) + length (dis_queue s) + length (dc_probes cfg) < 2 ^ 64" using Cons.prems(4) by simp
  note one = submit_host_ok [OF h1 Cons.prems(2,3) ids]
  have "dis_config s = cfg" using Cons.prems(2) by (simp add: discovery_sound_def discovery_books_def)
  then obtain s2 where "s1 = discovery_pump env s2"
    "discovery_pending_count s2 = length (dis_pending s) + length (dis_queue s) + length (dc_probes cfg)"
    using h1 by (auto simp: submit_host_def Let_def discovery_pending_count_def split: if_splits)
  then have "discovery_pending_count s1 \<le> dc_max_outstanding cfg"
    using pump_pending_count [of env s2] one(4) by simp
  then show ?case using Cons.IH [OF r one(1,2)] Cons.prems(4) one(3) by (simp add: algebra_simps)
qed simp

lemma started_within:
  assumes "discovery_started env e t cfg target s"
  shows "discovery_pending_count s \<le> dc_max_outstanding cfg"
proof -
  let ?n = "new_discovery env e t cfg"
  have "discovery_submit env target ?n = (Ok, s)" and e: "timers_are e (\<lambda>_. None)" "\<not> eng_stopped e"
    and k: "length (resolved_hosts target) * length (dc_probes cfg) < 2 ^ 64 - 1"
    using assms by (simp_all add: discovery_started_def)
  then obtain s1 where s1: "submit_hosts env target (resolved_hosts target) Ok ?n = (Ok, s1)" "s = discovery_pump env s1"
    "0 < dc_max_outstanding cfg"
    by (auto simp: discovery_submit_def new_discovery_def split: if_splits prod.splits)
  have f: "dis_engine ?n = e" "dis_queue ?n = []" "dis_next_id ?n = 1" "dis_pending ?n = []"
    by (simp_all add: new_discovery_def)
  have "discovery_pending_count s1 \<le> dc_max_outstanding cfg"
    by (rule submit_hosts_within [OF s1(1) fresh_sound [OF e(1) s1(3)]])
      (use e k f in \<open>simp_all add: discovery_pending_count_def\<close>)
  then show ?thesis using pump_pending_count [of env s1] s1(2) by simp
qed

end

text \<open>
  Property C17. Discovery accepts a target only as far as the limit on outstanding probes
  reaches: after an accepted \<open>submit\<close> there are at most that many requested pairs of a host and a
  kind of probe, apart from those that have already failed. The rest of a larger target is not
  queued but refused.
\<close>

theorem discovery_refuses_large_targets:
  assumes "discovery_transport env" and "discovery_started env e t cfg target s"
  shows "length (resolved_hosts target) * length (dc_probes cfg) \<le> dc_max_outstanding cfg + length (dis_results s)"
proof -
  have "discovery_books (de_libc env) cfg (discovery_requests cfg (resolved_hosts target))
      (length (resolved_hosts target) * length (dc_probes cfg)) s"
    using discovery_transport.started_sound(1) [OF assms] by (simp add: discovery_sound_def)
  then have "size (discovery_ledger s) = size (discovery_requests cfg (resolved_hosts target))"
    by (simp add: discovery_books_def)
  moreover have "size (discovery_requests cfg (resolved_hosts target)) =
      length (resolved_hosts target) * length (dc_probes cfg)"
    by (rule size_requests)
  moreover have "size (discovery_ledger s) = discovery_pending_count s + length (dis_results s)"
    by (simp add: discovery_ledger_def discovery_pending_count_def)
  ultimately show ?thesis using discovery_transport.started_within [OF assms] by simp
qed

theorem discovery_refuses_large_targets_witness:
  "length [probed_host] * length [DpIcmpEcho] \<le> 64 + length (dis_results discovery_demo_scan)"
  using discovery_refuses_large_targets [OF discovery_demo_transport discovery_demo_started]
  by (simp add: demo_target_def discovery_demo_config_def default_discovery_config_def)

section \<open>A transport that refuses\<close>

lemma refused_one:
  assumes "\<And>sub x. de_submit env sub x = (PermissionDenied, x)"
  shows "dis_engine (snd (submit_one env w s)) = dis_engine s" and "dis_pending (snd (submit_one env w s)) = dis_pending s"
  using assms by (simp_all add: submit_one_def Let_def split: option.splits prod.splits)

lemma refused_pump:
  assumes "\<And>sub x. de_submit env sub x = (PermissionDenied, x)"
  shows "dis_engine (discovery_pump env s) = dis_engine s \<and> dis_pending (discovery_pump env s) = dis_pending s"
proof (induction s rule: discovery_pump_induct [of _ env])
  case (turn s)
  show ?case
  proof (cases "dis_queue s")
    case (Cons w rest)
    then show ?thesis
      using turn.IH [OF Cons] refused_one [OF assms, of w "s\<lparr>dis_queue := rest\<rparr>"]
      by (simp add: discovery_pump.simps [of env s])
  qed (simp add: discovery_pump.simps [of env s])
qed

lemma refused_hosts:
  assumes "\<And>sub x. de_submit env sub x = (PermissionDenied, x)"
  shows "submit_hosts env target hosts first_error s = (st, s') \<Longrightarrow>
    dis_engine s' = dis_engine s \<and> dis_pending s' = dis_pending s \<and> dis_config s' = dis_config s"
proof (induction hosts arbitrary: s first_error)
  case (Cons h hosts)
  obtain st1 s1 where h: "submit_host env target h s = (st1, s1)" by fastforce
  then have "dis_engine s1 = dis_engine s \<and> dis_pending s1 = dis_pending s \<and> dis_config s1 = dis_config s"
    using refused_pump [OF assms] by (auto simp: submit_host_def Let_def split: if_splits)
  then show ?case using Cons h by fastforce
qed simp

text \<open>
  Property C18. When the transport refuses every probe, \<open>submit\<close> may still answer with success;
  discovery is then complete at once, but nobody asks the reactor to stop, and a \<open>run\<close> on a
  reactor that waits on a descriptor of its own, as the capture of the Linux transport does, never
  returns, however often the wait wakes up without an event.
\<close>

theorem refused_discovery_never_ends:
  assumes "\<And>sub x. de_submit env sub x = (PermissionDenied, x)"
    and "eng_registered e \<noteq> []" and "eng_timers e = []" and "eng_open e" and "eng_init_status e = Ok" and "\<not> eng_running e"
    and "discovery_submit env target (new_discovery env e t cfg) = (Ok, s)"
    and "set polls \<subseteq> {Interrupted, Ready []}"
  shows "discovery_complete s \<and> discovery_run env polls s = None"
proof -
  let ?n = "new_discovery env e t cfg"
  obtain s1 where s1: "submit_hosts env target (resolved_hosts target) Ok ?n = (Ok, s1)" "s = discovery_pump env s1"
    "0 < dc_max_outstanding cfg"
    using assms(7) by (auto simp: discovery_submit_def new_discovery_def split: if_splits prod.splits)
  note r = refused_hosts [OF assms(1) s1(1)] refused_pump [OF assms(1), of s1] refused_pump [OF assms(1), of s]
  have p: "dis_pending s = []" "dis_engine s = e" "dis_config s = cfg"
    using r unfolding s1(2) by (simp_all add: new_discovery_def)
  have "dis_queue s = []"
    using discovery_pump_full [of env s1] p s1(2,3) by auto
  then have "discovery_complete s" using p by (simp add: discovery_complete_def)
  moreover have "engine_run (discovery_embedding env) polls (discovery_pump env s) = None"
    by (rule discovery_host.silent_run) (use r(3) p assms in simp_all)
  ultimately show ?thesis by (simp add: discovery_run_def)
qed

text \<open>One registered descriptor, and a transport that refuses.\<close>

definition refusing_env :: "(unit, unit) discovery_env" where
  "refusing_env = \<lparr>de_libc = no_libc, de_clock = int, de_submit = (\<lambda>s x. (PermissionDenied, x)),
     de_event = (\<lambda>x (e, t). ([], e, t))\<rparr>"

definition listening_engine :: "unit sched_callback engine" where
  "listening_engine = (new_engine True)\<lparr>eng_registered := [1]\<rparr>"

theorem refused_discovery_never_ends_witness:
  "\<exists>s. discovery_submit refusing_env demo_target (new_discovery refusing_env listening_engine () discovery_demo_config) = (Ok, s) \<and>
    discovery_complete s \<and> discovery_run refusing_env [Ready [], Interrupted] s = None"
proof -
  obtain s where "discovery_submit refusing_env demo_target
      (new_discovery refusing_env listening_engine () discovery_demo_config) = (Ok, s)"
    using probed_host_address
    by (simp add: discovery_submit_def submit_host_def new_discovery_def discovery_demo_config_def
        default_discovery_config_def demo_target_def discovery_probe_for_def refusing_env_def icmp_probe_def)
  with refused_discovery_never_ends [OF _ _ _ _ _ _ this, of "[Ready [], Interrupted]"] show ?thesis
    by (simp add: refusing_env_def listening_engine_def new_engine_def)
qed

section \<open>ARP replies\<close>

lemma arp_build_source: "arp_build i h cfg = (Ok, s) \<Longrightarrow> ds_source_ipv4 s = 0"
  by (auto simp: arp_build_def Let_def new_discovery_submission_def split: option.splits if_splits)

text \<open>
  Property C19. A reply to an ARP request is never taken as one: the request is built, and kept
  by the scheduler, with the source address 0.0.0.0, while the transport sends the address of its
  interface; a reply that names that address leaves the probe in flight.
\<close>

theorem arp_reply_never_accepted:
  assumes "map_of (dis_pending s) (drs_id r) = Some p" and "pb_probe p = arp_probe"
    and "arp_build (pb_id p) h cfg = (Ok, pb_submission p)"
    and "drs_id r \<noteq> 0" and "drs_kind r = DiscoveryPositive"
    and "arp_parse (drs_bytes r) = Parsed m" and "arp_target_ipv4 m \<noteq> 0"
  shows "discovery_receive env r s = (Ok, s)"
proof -
  have "ds_source_ipv4 (pb_submission p) = 0" by (rule arp_build_source [OF assms(3)])
  then have "arp_assess r (pb_submission p) = Unrelated" using assms(6,7) by (simp add: arp_assess_def)
  then show ?thesis using assms by (simp add: discovery_receive_def arp_probe_def)
qed

definition arp_reply :: bytes where
  "arp_reply = [0, 1, 8, 0, 6, 4, 0, 2, 2, 0, 0, 0, 0, 7, 192, 0, 2, 7, 2, 0, 0, 0, 0, 1, 192, 0, 2, 1]"

definition answered_arp :: discovery_flight where
  "answered_arp = \<lparr>pb_id = 1, pb_type = DpArp, pb_target = ''192.0.2.7'', pb_probe = arp_probe,
     pb_submission = snd (arp_build 1 probed_host default_discovery_config), pb_sent_at = 0, pb_deadline = 1000, pb_timer = 1\<rparr>"

lemma probed_host_parses: "parse_ipv4_address ''192.0.2.7'' = Some 0xC0000207"
proof -
  have "parse_ipv4_components (Suc (Suc (Suc (Suc 0)))) ''192.0.2.7'' 0 = Some 0xC0000207"
    by (simp add: from_chars_def is_digit_def decimal_value_def digit_value_def Let_def)
  moreover have "(4 :: nat) = Suc (Suc (Suc (Suc 0)))" by simp
  ultimately show ?thesis unfolding parse_ipv4_address_def by (simp only:)
qed

lemma arp_request_bytes: "arp_serialize (arp_request v) \<noteq> []"
proof -
  have "length (arp_serialize (arp_request v)) = 28"
    by (simp add: arp_serialize_def arp_validate_def arp_request_def Let_def)
  then show ?thesis by auto
qed

lemma arp_request_built: "fst (arp_build 1 probed_host default_discovery_config) = Ok"
  using probed_host_address(2) probed_host_parses arp_request_bytes by (simp add: arp_build_def Let_def)

theorem arp_reply_never_accepted_witness:
  "\<exists>s r. discovery_receive refusing_env r s = (Ok, s) \<and> drs_bytes r = arp_reply \<and> dis_pending s = [(1, answered_arp)]"
proof -
  let ?s = "(new_discovery refusing_env (new_engine True) () default_discovery_config)\<lparr>dis_pending := [(1, answered_arp)]\<rparr>"
  let ?r = "\<lparr>drs_id = 1, drs_source_address = ''192.0.2.7'', drs_bytes = arp_reply, drs_received_at = 5,
    drs_source_ip = default_ip, drs_kind = DiscoveryPositive\<rparr>"
  obtain m where m: "arp_parse (drs_bytes ?r) = Parsed m" "arp_target_ipv4 m \<noteq> 0"
    by (simp add: arp_parse_def arp_reply_def read_u16_def rd8_def read_array_def read_u32_def arp_validate_def Let_def u16_of_def u32_of_def)
  have "discovery_receive refusing_env ?r ?s = (Ok, ?s)"
    by (rule arp_reply_never_accepted [where p = answered_arp and h = probed_host and cfg = default_discovery_config and m = m])
      (use m arp_request_built in \<open>simp_all add: answered_arp_def prod_eq_iff\<close>)
  then show ?thesis by force
qed

section \<open>Which reply belongs to which probe\<close>

lemma small_ids_differ: "ucast i = (ucast j :: u16) \<longleftrightarrow> i = j" if "i \<le> 0xFFFF" and "j \<le> 0xFFFF" for i j :: u64
proof -
  have "unat (ucast i :: u16) = unat i" "unat (ucast j :: u16) = unat j"
    using that by (simp_all add: unsigned_ucast_eq word_le_nat_alt take_bit_nat_eq_self)
  then show ?thesis by (metis word_unat_eq_iff)
qed

lemma echo_identity:
  assumes "icmp_build lc i h cfg = (Ok, s)"
  shows "i \<le> 0xFFFF \<and> ds_sequence s = ucast i"
  using assms by (auto simp: icmp_build_def Let_def new_discovery_submission_def not_less
    split: option.splits if_splits prod.splits)

lemma ping_identity:
  assumes "tcp_build lc i h cfg = (Ok, s)"
  shows "i \<noteq> 0 \<and> i \<le> 0xFFFF \<and> ds_sequence_number s = discovery_sequence_number i \<and> ds_source_port s = discovery_source_port i"
  using assms by (auto simp: tcp_build_def Let_def new_discovery_submission_def not_less
    split: option.splits if_splits prod.splits)

lemma sequence_numbers_differ:
  assumes "i \<le> 0xFFFF" and "j \<le> 0xFFFF" and "discovery_sequence_number i = discovery_sequence_number j"
  shows "i = j"
proof -
  have low: "ucast (discovery_sequence_number k) = (ucast k :: u16)" for k
  proof (rule bit_word_eqI)
    fix n assume "n < LENGTH(16)"
    then have "\<not> bit (0x534B0000 :: u32) n"
      by (simp add: bit_simps) (auto simp: numeral_eq_Suc less_Suc_eq)
    then show "bit (ucast (discovery_sequence_number k) :: u16) n = bit (ucast k :: u16) n"
      using \<open>n < LENGTH(16)\<close> by (auto simp: discovery_sequence_number_def bit_simps)
  qed
  have "ucast i = (ucast j :: u16)" using assms(3) low [of i] low [of j] by simp
  then show ?thesis using small_ids_differ [OF assms(1,2)] by simp
qed

lemma source_ports_repeat:
  assumes "discovery_source_port i = discovery_source_port j"
  shows "unat (i - 1) mod 20000 = unat (j - 1) mod 20000"
proof -
  have "unat (discovery_source_port k) = 40000 + unat (k - 1) mod 20000" for k
  proof -
    have "unat (k - 1) mod 20000 < 20000" by simp
    then have "unat (40000 + (k - 1) mod 20000) = 40000 + unat (k - 1) mod 20000"
      by (subst unat_add_lem [THEN iffD1]) (simp_all add: unat_mod)
    moreover have "40000 + unat (k - 1) mod 20000 < 2 ^ 16" using \<open>unat (k - 1) mod 20000 < 20000\<close> by simp
    ultimately show ?thesis by (simp add: discovery_source_port_def unsigned_ucast_eq take_bit_nat_eq_self)
  qed
  then show ?thesis using assms by (metis add_left_cancel)
qed

text \<open>
  Two probes of one kind and address family that are in flight together are never
  both answered by the same reply, except by a reset: the source port of a TCP probe repeats every
  20,000 identifiers and is all a reset is recognised by.
\<close>

theorem discovery_probes_not_confused:
  assumes "dp_build (make_discovery_probe lc k) i h cfg = (Ok, s)" and "dp_build (make_discovery_probe lc k) j h' cfg' = (Ok, s')"
    and "k \<noteq> DpArp" and "is_ipv6 (ds_target_ip s) = is_ipv6 (ds_target_ip s')"
    and "dp_assess (make_discovery_probe lc k) r s = Matching" and "dp_assess (make_discovery_probe lc k) r s' = Matching"
  shows "i = j \<or> dp_positive_reason (make_discovery_probe lc k) r = DrTcpRst \<and> unat (i - 1) mod 20000 = unat (j - 1) mod 20000"
proof (cases k)
  case DpIcmpEcho
  then have b: "icmp_build lc i h cfg = (Ok, s)" "icmp_build lc j h' cfg' = (Ok, s')"
    and r: "icmp_assess lc r s = Matching" "icmp_assess lc r s' = Matching"
    using assms by (simp_all add: icmp_probe_def)
  have "ds_sequence s = ds_sequence s'"
    using r assms(4) by (auto simp: icmp_assess_def Let_def split: if_splits parsed.splits)
  then show ?thesis using echo_identity [OF b(1)] echo_identity [OF b(2)] small_ids_differ by metis
next
  case DpTcp
  then have b: "tcp_build lc i h cfg = (Ok, s)" "tcp_build lc j h' cfg' = (Ok, s')"
    and r: "tcp_assess r s = Matching" "tcp_assess r s' = Matching"
    using assms by (simp_all add: tcp_probe_def)
  note ids = ping_identity [OF b(1)] ping_identity [OF b(2)]
  obtain t where t: "tcp_parse (drs_bytes r) = Parsed t" using r(1) by (auto simp: tcp_assess_def split: parsed.splits)
  show ?thesis
  proof (cases "has_flag (tcp_flags t) Rst")
    case True
    have "ds_source_port s = ds_source_port s'" using r t by (auto simp: tcp_assess_def split: if_splits)
    then show ?thesis
      using True t ids source_ports_repeat [of i j] DpTcp by (simp add: tcp_positive_reason_def tcp_probe_def)
  next
    case False
    then have "ds_sequence_number s + 1 = ds_sequence_number s' + 1"
      using r t by (auto simp: tcp_assess_def Let_def split: if_splits)
    then show ?thesis using ids sequence_numbers_differ [of i j] by simp
  qed
qed (use assms(3) in simp)

lemma tcp_build_ipv4:
  assumes "probe_address lc h = Some a" and "is_ipv4 a" and "i \<noteq> 0" and "i \<le> 0xFFFF" and "dc_tcp_port cfg \<noteq> 0"
  shows "\<exists>s. tcp_build lc i h cfg = (Ok, s) \<and> ds_target_ip s = a \<and> ds_target s = h_address h \<and>
    ds_port s = dc_tcp_port cfg \<and> ds_source_port s = discovery_source_port i"
proof -
  have "tcp_validate (tcp_with_payload (discovery_syn i cfg) [])"
    "tcp_serialized_size (tcp_with_payload (discovery_syn i cfg) []) = tcp_serialized_size (discovery_syn i cfg)"
    by (simp_all add: tcp_with_payload_def discovery_syn_def new_tcp_def tcp_validate_def padded_options_size_def
      tcp_header_size_def tcp_serialized_size_def flag_bit.simps)
  then have "fst (tcp_serialize_with_checksum4 (discovery_syn i cfg)
      (replicate (tcp_serialized_size (discovery_syn i cfg)) 0) 0 (ipv4_value a) []) = Ok"
    by (simp add: tcp_serialize_with_checksum4_def tcp_checksummed_wire)
  then show ?thesis
    using assms by (auto simp: tcp_build_def Let_def new_discovery_submission_def word_less_nat_alt word_le_nat_alt
      split: prod.splits)
qed

definition reset_reply :: tcp where
  "reset_reply = new_tcp\<lparr>tcp_source_port := 80, tcp_destination_port := 40000, tcp_flags := flag_bit Rst\<rparr>"

theorem discovery_probes_not_confused_witness:
  "\<exists>s s' r. tcp_build no_libc 1 probed_host default_discovery_config = (Ok, s) \<and>
     tcp_build no_libc 20001 probed_host default_discovery_config = (Ok, s') \<and>
     tcp_assess r s = Matching \<and> tcp_assess r s' = Matching \<and> tcp_positive_reason r = DrTcpRst"
proof -
  let ?r = "\<lparr>drs_id = 1, drs_source_address = ''192.0.2.7'', drs_bytes = tcp_wire reset_reply, drs_received_at = 5,
    drs_source_ip = default_ip, drs_kind = DiscoveryPositive\<rparr>"
  have "tcp_canonical reset_reply"
    by (simp add: reset_reply_def tcp_canonical_def tcp_validate_def new_tcp_def padded_options_size_def
        tcp_header_size_def flag_bit.simps)
  then have p: "tcp_parse (tcp_wire reset_reply) = Parsed reset_reply" by (rule tcp_parse_wire)
  have v4: "is_ipv4 (from_ipv4 a)" "\<not> is_ipv6 (from_ipv4 a)" for a by (simp_all add: from_ipv4_def is_ipv4_def is_ipv6_def)
  have ports: "discovery_source_port 1 = 40000" "discovery_source_port 20001 = 40000"
    by (simp_all add: discovery_source_port_def)
  obtain s where s: "tcp_build no_libc 1 probed_host default_discovery_config = (Ok, s)" "ds_target_ip s = from_ipv4 0xC0000207"
    "ds_target s = ''192.0.2.7''" "ds_port s = 80" "ds_source_port s = 40000"
    using tcp_build_ipv4 [OF probed_host_address(1) v4(1), of 1 default_discovery_config no_libc] ports
    by (auto simp: probed_host_address default_discovery_config_def)
  obtain s' where s': "tcp_build no_libc 20001 probed_host default_discovery_config = (Ok, s')" "ds_target_ip s' = from_ipv4 0xC0000207"
    "ds_target s' = ''192.0.2.7''" "ds_port s' = 80" "ds_source_port s' = 40000"
    using tcp_build_ipv4 [OF probed_host_address(1) v4(1), of 20001 default_discovery_config no_libc] ports
    by (auto simp: probed_host_address default_discovery_config_def)
  have m: "tcp_assess ?r s = Matching" "tcp_assess ?r s' = Matching"
    using p s s' v4 by (simp_all add: tcp_assess_def reset_reply_def Let_def has_flag_def flag_bit.simps)
  have "tcp_positive_reason ?r = DrTcpRst"
    using discovery_probes_not_confused [of no_libc DpTcp 1 probed_host default_discovery_config s 20001 probed_host
      default_discovery_config s' ?r] s s' m by (simp add: tcp_probe_def)
  then show ?thesis using s(1) s'(1) m by blast
qed

end
