(* ===== verification/Text_Safety.thy ===== *)
theory Text_Safety
  imports Prelude
begin

text \<open>
  Text that leaves the program (\<open>src/core/text_safety.cpp\<close>, \<open>src/output/terminal_text.cpp\<close>): the
  UTF-8 decoder, the sanitizers for terminals and XML, the width of text on a terminal and its
  truncation. A \<open>std::string\<close> is a \<open>string\<close>, whose characters are bytes; \<open>char32_t\<close> is a natural
  number, since no operation here leaves 21 bits.
\<close>

section \<open>Decoding\<close>

record decoded_code_point =
  dcp_value :: nat
  dcp_length :: nat
  dcp_valid :: bool

definition undecodable :: decoded_code_point where
  "undecodable = \<lparr>dcp_value = 0x3F, dcp_length = 1, dcp_valid = False\<rparr>"

definition continuation :: "nat \<Rightarrow> bool" where
  "continuation v \<longleftrightarrow> v AND 0xC0 = 0x80"

definition decode_utf8 :: "string \<Rightarrow> nat \<Rightarrow> decoded_code_point" where
  "decode_utf8 text offset =
     (if offset \<ge> length text then undecodable
      else
        let byte = (\<lambda>i. of_char (text ! (offset + i)) :: nat); remaining = length text - offset; lead = byte 0 in
        if lead \<le> 0x7F then \<lparr>dcp_value = lead, dcp_length = 1, dcp_valid = True\<rparr>
        else if lead \<ge> 0xC2 \<and> lead \<le> 0xDF \<and> remaining \<ge> 2 \<and> continuation (byte 1) then
          \<lparr>dcp_value = push_bit 6 (lead AND 0x1F) OR (byte 1 AND 0x3F), dcp_length = 2, dcp_valid = True\<rparr>
        else if lead \<ge> 0xE0 \<and> lead \<le> 0xEF \<and> remaining \<ge> 3 \<and> continuation (byte 1) \<and> continuation (byte 2) then
          (if (lead = 0xE0 \<and> byte 1 < 0xA0) \<or> (lead = 0xED \<and> byte 1 \<ge> 0xA0) then undecodable
           else \<lparr>dcp_value = push_bit 12 (lead AND 0x0F) OR push_bit 6 (byte 1 AND 0x3F) OR (byte 2 AND 0x3F),
                  dcp_length = 3, dcp_valid = True\<rparr>)
        else if lead \<ge> 0xF0 \<and> lead \<le> 0xF4 \<and> remaining \<ge> 4 \<and> continuation (byte 1) \<and> continuation (byte 2)
          \<and> continuation (byte 3) then
          (if (lead = 0xF0 \<and> byte 1 < 0x90) \<or> (lead = 0xF4 \<and> byte 1 \<ge> 0x90) then undecodable
           else \<lparr>dcp_value = push_bit 18 (lead AND 0x07) OR push_bit 12 (byte 1 AND 0x3F) OR
                    push_bit 6 (byte 2 AND 0x3F) OR (byte 3 AND 0x3F), dcp_length = 4, dcp_valid = True\<rparr>)
        else undecodable)"

definition terminal_control :: "nat \<Rightarrow> bool" where
  "terminal_control v \<longleftrightarrow>
     v \<le> 0x1F \<or> (0x7F \<le> v \<and> v \<le> 0x9F) \<or> v = 0x061C \<or> v = 0x200E \<or> v = 0x200F \<or>
     (0x202A \<le> v \<and> v \<le> 0x202E) \<or> (0x2066 \<le> v \<and> v \<le> 0x2069) \<or> v = 0xFEFF"

definition xml_1_0_character :: "nat \<Rightarrow> bool" where
  "xml_1_0_character v \<longleftrightarrow>
     v = 0x09 \<or> v = 0x0A \<or> v = 0x0D \<or> (0x20 \<le> v \<and> v \<le> 0xD7FF) \<or> (0xE000 \<le> v \<and> v \<le> 0xFFFD) \<or>
     (0x10000 \<le> v \<and> v \<le> 0x10FFFF)"

section \<open>Sanitizing\<close>

lemma decoded_length_pos [simp]: "0 < dcp_length (decode_utf8 text offset)"
  by (auto simp: decode_utf8_def undecodable_def Let_def split: if_splits)

function sanitize_from :: "(nat \<Rightarrow> bool) \<Rightarrow> string \<Rightarrow> nat \<Rightarrow> string" where
  "sanitize_from allowed text offset =
     (if offset \<ge> length text then []
      else
        let d = decode_utf8 text offset in
        if \<not> dcp_valid d \<or> \<not> allowed (dcp_value d)
        then CHR ''?'' # sanitize_from allowed text (offset + (if dcp_valid d then dcp_length d else 1))
        else take (dcp_length d) (drop offset text) @ sanitize_from allowed text (offset + dcp_length d))"
  by pat_completeness auto
termination
  by (relation "measure (\<lambda>(allowed, text, offset). length text - offset)")
    (auto intro!: diff_less_mono2)

declare sanitize_from.simps [simp del]

definition sanitize :: "(nat \<Rightarrow> bool) \<Rightarrow> string \<Rightarrow> string" where
  "sanitize allowed text = sanitize_from allowed text 0"

definition sanitize_utf8 :: "string \<Rightarrow> string" where
  "sanitize_utf8 text = sanitize (\<lambda>_. True) text"

definition sanitize_terminal :: "string \<Rightarrow> string" where
  "sanitize_terminal text = sanitize (\<lambda>v. \<not> terminal_control v) text"

definition sanitize_xml_1_0 :: "string \<Rightarrow> string" where
  "sanitize_xml_1_0 text = sanitize xml_1_0_character text"

section \<open>UTF-8\<close>

text \<open>
  The encoding as the standard defines it: a Unicode scalar value is any code point outside the
  surrogates, and has exactly one encoding.
\<close>

definition scalar_value :: "nat \<Rightarrow> bool" where
  "scalar_value v \<longleftrightarrow> v < 0xD800 \<or> (0xE000 \<le> v \<and> v \<le> 0x10FFFF)"

definition utf8_codes :: "nat \<Rightarrow> nat list" where
  "utf8_codes v =
     (if v < 0x80 then [v]
      else if v < 0x800 then [0xC0 + v div 0x40, 0x80 + v mod 0x40]
      else if v < 0x10000 then [0xE0 + v div 0x40 div 0x40, 0x80 + v div 0x40 mod 0x40, 0x80 + v mod 0x40]
      else [0xF0 + v div 0x40 div 0x40 div 0x40, 0x80 + v div 0x40 div 0x40 mod 0x40, 0x80 + v div 0x40 mod 0x40,
            0x80 + v mod 0x40])"

definition utf8 :: "nat \<Rightarrow> string" where
  "utf8 v = map char_of (utf8_codes v)"

lemma byte_less: "(of_char c :: nat) < 256"
  by simp

lemma and_low: "(x :: nat) AND 0x3F = x mod 64" "(x :: nat) AND 0x1F = x mod 32" "(x :: nat) AND 0x0F = x mod 16"
  "(x :: nat) AND 0x07 = x mod 8"
  using take_bit_eq_mask [of 6 x] take_bit_eq_mask [of 5 x] take_bit_eq_mask [of 4 x] take_bit_eq_mask [of 3 x]
  by (simp_all add: take_bit_nat_def mask_eq_exp_minus_1)

lemma or_low:
  assumes "(y :: nat) < 2 ^ n"
  shows "push_bit n x OR y = x * 2 ^ n + y"
proof -
  have "push_bit n x AND y = 0"
  proof (rule bit_eqI)
    fix m
    have "take_bit n y = y" using assms by (simp add: take_bit_nat_eq_self)
    then have "\<not> bit y m" if "n \<le> m" using that by (metis bit_take_bit_iff leD)
    then show "bit (push_bit n x AND y) m \<longleftrightarrow> bit (0 :: nat) m"
      by (auto simp: bit_simps)
  qed
  then show ?thesis by (simp add: disjunctive_add_eq_or push_bit_nat_def flip: disjunctive_add_eq_or)
qed

lemma continuation_range:
  assumes "v < 256"
  shows "continuation v \<longleftrightarrow> 0x80 \<le> v \<and> v < 0xC0"
proof -
  have "(v AND 0xC0) = push_bit 6 (drop_bit 6 v AND 3)"
  proof (rule bit_eqI)
    fix m
    have "(0xC0 :: nat) = push_bit 6 3" by (simp add: push_bit_nat_def)
    then have "bit (0xC0 :: nat) m \<longleftrightarrow> 6 \<le> m \<and> bit (3 :: nat) (m - 6)" by (metis bit_push_bit_iff_nat)
    then show "bit (v AND 0xC0) m \<longleftrightarrow> bit (push_bit 6 (drop_bit 6 v AND 3)) m"
      by (auto simp: bit_simps)
  qed
  also have "\<dots> = 64 * (v div 64)"
    using assms take_bit_eq_mask [of 2 "v div 64"]
    by (simp add: push_bit_nat_def drop_bit_nat_def mask_eq_exp_minus_1 take_bit_nat_def less_mult_imp_div_less)
  finally show ?thesis unfolding continuation_def using assms by auto
qed

lemma join_bits:
  "y < 64 \<Longrightarrow> push_bit 6 x OR y = x * 64 + y"
  "y < 4096 \<Longrightarrow> push_bit 12 x OR y = x * 4096 + y"
  "y < 262144 \<Longrightarrow> push_bit 18 x OR y = x * 262144 + y" for x y :: nat
  using or_low [of y 6 x] or_low [of y 12 x] or_low [of y 18 x] by simp_all

text \<open>The decoder, as a function of the codes of the bytes that are left.\<close>

fun utf8_step :: "nat list \<Rightarrow> decoded_code_point" where
  "utf8_step [] = undecodable"
| "utf8_step (a # rest) =
     (if a \<le> 0x7F then \<lparr>dcp_value = a, dcp_length = 1, dcp_valid = True\<rparr>
      else case rest of
        [] \<Rightarrow> undecodable
      | b # rest2 \<Rightarrow>
          if 0xC2 \<le> a \<and> a \<le> 0xDF \<and> 0x80 \<le> b \<and> b < 0xC0
          then \<lparr>dcp_value = (a - 0xC0) * 64 + (b - 0x80), dcp_length = 2, dcp_valid = True\<rparr>
          else case rest2 of
            [] \<Rightarrow> undecodable
          | c # rest3 \<Rightarrow>
              if 0xE0 \<le> a \<and> a \<le> 0xEF \<and> 0x80 \<le> b \<and> b < 0xC0 \<and> 0x80 \<le> c \<and> c < 0xC0
                \<and> \<not> (a = 0xE0 \<and> b < 0xA0) \<and> \<not> (a = 0xED \<and> 0xA0 \<le> b)
              then \<lparr>dcp_value = (a - 0xE0) * 4096 + (b - 0x80) * 64 + (c - 0x80), dcp_length = 3, dcp_valid = True\<rparr>
              else case rest3 of
                [] \<Rightarrow> undecodable
              | d # _ \<Rightarrow>
                  if 0xF0 \<le> a \<and> a \<le> 0xF4 \<and> 0x80 \<le> b \<and> b < 0xC0 \<and> 0x80 \<le> c \<and> c < 0xC0 \<and> 0x80 \<le> d \<and> d < 0xC0
                    \<and> \<not> (a = 0xF0 \<and> b < 0x90) \<and> \<not> (a = 0xF4 \<and> 0x90 \<le> b)
                  then \<lparr>dcp_value = (a - 0xF0) * 262144 + (b - 0x80) * 4096 + (c - 0x80) * 64 + (d - 0x80),
                         dcp_length = 4, dcp_valid = True\<rparr>
                  else undecodable)"

lemma mod_in_block: "m * k \<le> a \<Longrightarrow> a < m * Suc k \<Longrightarrow> a mod m = a - m * k" for a m k :: nat
  using div_nat_eqI [of m k a] minus_mult_div_eq_mod [of a m] by simp

lemma mod_of_range:
  "(0x80 :: nat) \<le> b \<Longrightarrow> b < 0xC0 \<Longrightarrow> b mod 64 = b - 0x80"
  "(0xC2 :: nat) \<le> a \<Longrightarrow> a \<le> 0xDF \<Longrightarrow> a mod 32 = a - 0xC0"
  "(0xE0 :: nat) \<le> a \<Longrightarrow> a \<le> 0xEF \<Longrightarrow> a mod 16 = a - 0xE0"
  "(0xF0 :: nat) \<le> a \<Longrightarrow> a \<le> 0xF4 \<Longrightarrow> a mod 8 = a - 0xF0"
  using mod_in_block [of 64 2 b] mod_in_block [of 32 6 a] mod_in_block [of 16 14 a] mod_in_block [of 8 30 a]
  by simp_all

definition codes_at :: "string \<Rightarrow> nat \<Rightarrow> nat list" where
  "codes_at text offset = map of_char (drop offset text)"

lemma codes_at_byte: "offset + i < length text \<Longrightarrow> of_char (text ! (offset + i)) = codes_at text offset ! i"
  by (simp add: codes_at_def)

lemma codes_at_less: "x \<in> set (codes_at text offset) \<Longrightarrow> x < 256"
  by (auto simp: codes_at_def)

lemma decode_step: "decode_utf8 text offset = utf8_step (codes_at text offset)"
proof -
  have n: "length (codes_at text offset) = length text - offset" by (simp add: codes_at_def)
  consider "codes_at text offset = []" | a where "codes_at text offset = [a]" | a b where "codes_at text offset = [a, b]"
    | a b c where "codes_at text offset = [a, b, c]" | a b c d rest where "codes_at text offset = a # b # c # d # rest"
    by (metis neq_Nil_conv)
  then show ?thesis
  proof cases
    case 1
    then show ?thesis using n by (simp add: decode_utf8_def)
  next
    case (2 a)
    then have "length text = offset + 1" "of_char (text ! offset) = a"
      using n codes_at_byte [of offset 0 "text"] by simp_all
    then show ?thesis unfolding decode_utf8_def Let_def by (simp add: 2)
  next
    case (3 a b)
    then have l: "length text = offset + 2" using n by simp
    then have "of_char (text ! offset) = a" "of_char (text ! Suc offset) = b"
      using codes_at_byte [of offset 0 "text"] codes_at_byte [of offset 1 "text"] 3 by simp_all
    moreover have "continuation b \<longleftrightarrow> 0x80 \<le> b \<and> b < 0xC0" using continuation_range codes_at_less [of b "text" offset] 3 by simp
    ultimately show ?thesis unfolding decode_utf8_def Let_def by (auto simp: 3 l join_bits and_low mod_of_range)
  next
    case (4 a b c)
    then have l: "length text = offset + 3" using n by simp
    then have "of_char (text ! offset) = a" "of_char (text ! Suc offset) = b" "of_char (text ! (offset + 2)) = c"
      using codes_at_byte [of offset 0 "text"] codes_at_byte [of offset 1 "text"] codes_at_byte [of offset 2 "text"] 4 by simp_all
    moreover have "continuation b \<longleftrightarrow> 0x80 \<le> b \<and> b < 0xC0" "continuation c \<longleftrightarrow> 0x80 \<le> c \<and> c < 0xC0"
      using continuation_range codes_at_less [of _ "text" offset] 4 by simp_all
    ultimately show ?thesis unfolding decode_utf8_def Let_def by (auto simp: 4 l join_bits and_low mod_of_range)
  next
    case (5 a b c d rest)
    then have l: "length text = offset + 4 + length rest" using n by simp
    then have "of_char (text ! offset) = a" "of_char (text ! Suc offset) = b" "of_char (text ! (offset + 2)) = c"
      "of_char (text ! (offset + 3)) = d"
      using codes_at_byte [of offset 0 "text"] codes_at_byte [of offset 1 "text"] codes_at_byte [of offset 2 "text"]
        codes_at_byte [of offset 3 "text"] 5 by simp_all
    note at = this
    have c: "continuation b \<longleftrightarrow> 0x80 \<le> b \<and> b < 0xC0" "continuation c \<longleftrightarrow> 0x80 \<le> c \<and> c < 0xC0"
      "continuation d \<longleftrightarrow> 0x80 \<le> d \<and> d < 0xC0"
      using continuation_range codes_at_less [of _ "text" offset] 5 by simp_all
    consider "a \<le> 0xDF" | "0xE0 \<le> a" "a \<le> 0xEF" | "0xF0 \<le> a" by linarith
    then show ?thesis
    proof cases
      case 1
      then show ?thesis using at c unfolding decode_utf8_def Let_def by (auto simp: 5 l join_bits and_low mod_of_range)
    next
      case 2
      have "push_bit 12 (a - 0xE0) OR push_bit 6 (b - 0x80) OR (c - 0x80) =
          (a - 0xE0) * 4096 + (b - 0x80) * 64 + (c - 0x80)" if "b < 0xC0" "c < 0xC0"
        using that by (simp add: join_bits)
      then show ?thesis using at c 2 unfolding decode_utf8_def Let_def by (simp add: 5 l and_low mod_of_range)
    next
      case 3
      have "push_bit 18 (a - 0xF0) OR push_bit 12 (b - 0x80) OR push_bit 6 (c - 0x80) OR (d - 0x80) =
          (a - 0xF0) * 262144 + (b - 0x80) * 4096 + (c - 0x80) * 64 + (d - 0x80)" if "b < 0xC0" "c < 0xC0" "d < 0xC0"
        using that by (simp add: join_bits)
      then show ?thesis using at c 3 unfolding decode_utf8_def Let_def by (simp add: 5 l and_low mod_of_range)
    qed
  qed
qed

text \<open>A step accepts exactly an encoding of a scalar value, with its value and length.\<close>

lemma digit: "r < 64 \<Longrightarrow> (x * 64 + r) div 64 = x" "r < 64 \<Longrightarrow> (x * 64 + r) mod 64 = r" for r x :: nat
  by simp_all

lemma codes_of_digits:
  "v < 0x80 \<Longrightarrow> utf8_codes v = [v]"
  "v = q * 64 + r \<Longrightarrow> 2 \<le> q \<Longrightarrow> q < 32 \<Longrightarrow> r < 64 \<Longrightarrow> utf8_codes v = [0xC0 + q, 0x80 + r]"
  by (simp_all add: utf8_codes_def)

lemma codes_of_three_digits:
  assumes "v = x * 64 + r" and "x = p * 64 + q" and "p < 16" "q < 64" "r < 64" and "32 \<le> x"
  shows "utf8_codes v = [0xE0 + p, 0x80 + q, 0x80 + r]"
proof -
  have "v div 64 = x" "v mod 64 = r" "x div 64 = p" "x mod 64 = q" unfolding assms(1,2) using digit assms(4,5) by blast+
  then show ?thesis using assms by (simp add: utf8_codes_def)
qed

lemma codes_of_four_digits:
  assumes "v = y * 64 + r" and "y = x * 64 + q" and "x = n * 64 + p" and "n < 8" "p < 64" "q < 64" "r < 64" and "16 \<le> x"
  shows "utf8_codes v = [0xF0 + n, 0x80 + p, 0x80 + q, 0x80 + r]"
proof -
  have "v div 64 = y" "v mod 64 = r" "y div 64 = x" "y mod 64 = q" unfolding assms(1,2) using digit assms(6,7) by blast+
  moreover have "x div 64 = n" "x mod 64 = p" unfolding assms(3) using digit assms(5) by blast+
  ultimately show ?thesis using assms by (simp add: utf8_codes_def)
qed

text \<open>Every scalar value has its digits to the base 64.\<close>

lemma digitsE [consumes 1, case_names one two three four]:
  assumes "scalar_value v"
  obtains "v < 0x80"
  | q r where "v = q * 64 + r" "2 \<le> q" "q < 32" "r < 64"
  | x p q r where "v = x * 64 + r" "x = p * 64 + q" "p < 16" "q < 64" "r < 64" "32 \<le> x" "\<not> (p = 13 \<and> 32 \<le> q)"
  | y x n p q r where "v = y * 64 + r" "y = x * 64 + q" "x = n * 64 + p" "n < 5" "p < 64" "q < 64" "r < 64" "16 \<le> x"
      "\<not> (n = 4 \<and> 16 \<le> p)"
proof -
  define r y q x p n where d: "r = v mod 64" "y = v div 64" "q = y mod 64" "x = y div 64" "p = x mod 64" "n = x div 64"
  have v: "v = y * 64 + r" "y = x * 64 + q" "x = n * 64 + p" "r < 64" "q < 64" "p < 64"
    by (simp_all add: d)
  show ?thesis
  proof (cases "v < 0x80")
    case False
    show ?thesis
    proof (cases "v < 0x800")
      case True
      then show ?thesis using v False by (intro that(2) [of y r]) simp_all
    next
      case two: False
      show ?thesis
      proof (cases "v < 0x10000")
        case True
        then show ?thesis using v two assms unfolding scalar_value_def by (intro that(3) [of y r x q]) auto
      next
        case False
        then show ?thesis using v assms unfolding scalar_value_def by (intro that(4) [of y r x q n p]) auto
      qed
    qed
  qed (rule that(1))
qed

lemma step_encoded:
  assumes "scalar_value v"
  shows "utf8_step (utf8_codes v @ rest) = \<lparr>dcp_value = v, dcp_length = length (utf8_codes v), dcp_valid = True\<rparr>"
  using assms
proof (cases rule: digitsE)
  case (three x p q r)
  then show ?thesis using codes_of_three_digits [OF three(1,2)] by auto
next
  case (four y x n p q r)
  then show ?thesis using codes_of_four_digits [OF four(1-3)] by auto
qed (auto simp: codes_of_digits)

lemma step_decoded:
  assumes "utf8_step cs = \<lparr>dcp_value = v, dcp_length = n, dcp_valid = True\<rparr>"
  shows "scalar_value v \<and> n = length (utf8_codes v) \<and> (\<exists>rest. cs = utf8_codes v @ rest)"
proof -
  consider (one) a rest where "cs = a # rest" "a \<le> 0x7F" "v = a" "n = 1"
    | (two) q r rest where "cs = (0xC0 + q) # (0x80 + r) # rest" "2 \<le> q" "q < 32" "r < 64" "v = q * 64 + r" "n = 2"
    | (three) p q r rest where "cs = (0xE0 + p) # (0x80 + q) # (0x80 + r) # rest" "p < 16" "q < 64" "r < 64"
        "32 \<le> p * 64 + q" "\<not> (p = 13 \<and> 32 \<le> q)" "v = (p * 64 + q) * 64 + r" "n = 3"
    | (four) m p q r rest where "cs = (0xF0 + m) # (0x80 + p) # (0x80 + q) # (0x80 + r) # rest" "m < 5" "p < 64" "q < 64" "r < 64"
        "16 \<le> m * 64 + p" "\<not> (m = 4 \<and> 16 \<le> p)" "v = ((m * 64 + p) * 64 + q) * 64 + r" "n = 4"
  proof -
    obtain a rest where cs: "cs = a # rest" using assms by (cases cs) (auto simp: undecodable_def)
    show ?thesis
    proof (cases "a \<le> 0x7F")
      case True
      then show ?thesis using that(1) assms cs by auto
    next
      case a: False
      then obtain b rest2 where rest: "rest = b # rest2" using assms cs by (cases rest) (auto simp: undecodable_def)
      show ?thesis
      proof (cases "0xC2 \<le> a \<and> a \<le> 0xDF \<and> 0x80 \<le> b \<and> b < 0xC0")
        case True
        then show ?thesis using that(2) [of "a - 0xC0" "b - 0x80" rest2] assms cs rest a by auto
      next
        case two: False
        then obtain c rest3 where rest2: "rest2 = c # rest3" using assms cs rest a by (cases rest2) (auto simp: undecodable_def)
        show ?thesis
        proof (cases "a \<le> 0xEF")
          case True
          then have f: "0xE0 \<le> a" "0x80 \<le> b" "b < 0xC0" "0x80 \<le> c" "c < 0xC0" "\<not> (a = 0xE0 \<and> b < 0xA0)"
            "\<not> (a = 0xED \<and> 0xA0 \<le> b)" "v = (a - 0xE0) * 4096 + (b - 0x80) * 64 + (c - 0x80)" "n = 3"
            using assms cs rest a two rest2 by (auto simp: undecodable_def split: if_splits list.splits)
          then obtain p q r where "a = 0xE0 + p" "b = 0x80 + q" "c = 0x80 + r" by (metis le_iff_add)
          then show ?thesis using f True cs rest rest2 by (intro that(3) [of p q r rest3]) auto
        next
          case False
          then obtain d rest4 where rest3: "rest3 = d # rest4"
            using assms cs rest a two rest2 by (cases rest3) (auto simp: undecodable_def split: if_splits)
          then have f: "0xF0 \<le> a" "a \<le> 0xF4" "0x80 \<le> b" "b < 0xC0" "0x80 \<le> c" "c < 0xC0" "0x80 \<le> d" "d < 0xC0"
            "\<not> (a = 0xF0 \<and> b < 0x90)" "\<not> (a = 0xF4 \<and> 0x90 \<le> b)"
            "v = (a - 0xF0) * 262144 + (b - 0x80) * 4096 + (c - 0x80) * 64 + (d - 0x80)" "n = 4"
            using assms cs rest a two rest2 False by (auto simp: undecodable_def split: if_splits)
          then obtain m p q r where "a = 0xF0 + m" "b = 0x80 + p" "c = 0x80 + q" "d = 0x80 + r" by (metis le_iff_add)
          then show ?thesis using f cs rest rest2 rest3 by (intro that(4) [of m p q r rest4]) auto
        qed
      qed
    qed
  qed
  then show ?thesis
  proof cases
    case one
    then show ?thesis by (auto simp: codes_of_digits scalar_value_def)
  next
    case two
    then show ?thesis using codes_of_digits(2) [OF two(5)] by (auto simp: scalar_value_def)
  next
    case three
    consider "p \<le> 12" | "p = 13" "q < 32" | "14 \<le> p" using three(6) by linarith
    then have "scalar_value v" using three(2-4) unfolding three(7) scalar_value_def by cases auto
    then show ?thesis using codes_of_three_digits [OF three(7) refl] three by auto
  next
    case four
    then show ?thesis using codes_of_four_digits [OF four(8) refl refl] by (auto simp: scalar_value_def)
  qed
qed

lemma utf8_codes_less: "scalar_value v \<Longrightarrow> x \<in> set (utf8_codes v) \<Longrightarrow> x < 256"
proof (erule digitsE, goal_cases)
  case (3 y p q r)
  then show ?case using codes_of_three_digits [OF 3(2,3)] by auto
next
  case (4 y z n p q r)
  then show ?case using codes_of_four_digits [OF 4(2-4)] by auto
qed (auto simp: codes_of_digits)

lemma utf8_bytes: "scalar_value v \<Longrightarrow> map of_char (utf8 v) = utf8_codes v"
  using utf8_codes_less unfolding utf8_def by (simp add: map_idI)

lemma utf8_length [simp]: "length (utf8 v) = length (utf8_codes v)"
  by (simp add: utf8_def)

lemma decode_exact:
  "decode_utf8 text offset = \<lparr>dcp_value = v, dcp_length = n, dcp_valid = True\<rparr> \<longleftrightarrow>
     scalar_value v \<and> n = length (utf8 v) \<and> (\<exists>rest. drop offset text = utf8 v @ rest)"
proof
  assume "decode_utf8 text offset = \<lparr>dcp_value = v, dcp_length = n, dcp_valid = True\<rparr>"
  then have d: "scalar_value v" "n = length (utf8_codes v)" and "\<exists>rest. codes_at text offset = utf8_codes v @ rest"
    using step_decoded by (simp_all add: decode_step)
  then obtain rest where "map of_char (drop offset text) = utf8_codes v @ rest" by (auto simp: codes_at_def)
  then have "map char_of (map of_char (drop offset text) :: nat list) = utf8 v @ map char_of rest" by (simp add: utf8_def)
  then have "drop offset text = utf8 v @ map char_of rest" by simp
  then show "scalar_value v \<and> n = length (utf8 v) \<and> (\<exists>rest. drop offset text = utf8 v @ rest)" using d by auto
next
  assume "scalar_value v \<and> n = length (utf8 v) \<and> (\<exists>rest. drop offset text = utf8 v @ rest)"
  then obtain rest where d: "scalar_value v" "n = length (utf8_codes v)" "drop offset text = utf8 v @ rest" by auto
  then have "codes_at text offset = utf8_codes v @ map of_char rest" by (simp add: codes_at_def utf8_bytes)
  then show "decode_utf8 text offset = \<lparr>dcp_value = v, dcp_length = n, dcp_valid = True\<rparr>"
    using step_encoded [OF d(1)] d(2) by (simp add: decode_step)
qed

section \<open>What sanitizing leaves\<close>

lemma utf8_question: "utf8 0x3F = ''?''"
proof -
  have "char_of (of_char (CHR ''?'') :: nat) = CHR ''?''" by (rule char_of_char)
  then have "char_of (63 :: nat) = CHR ''?''" by simp
  then show ?thesis by (simp add: utf8_def utf8_codes_def)
qed

lemma decoded_bytes:
  assumes "dcp_valid (decode_utf8 text offset)"
  obtains v rest where "decode_utf8 text offset = \<lparr>dcp_value = v, dcp_length = length (utf8 v), dcp_valid = True\<rparr>"
    "scalar_value v" "drop offset text = utf8 v @ rest" "drop (offset + length (utf8 v)) text = rest"
proof -
  obtain v n where d: "decode_utf8 text offset = \<lparr>dcp_value = v, dcp_length = n, dcp_valid = True\<rparr>"
    using assms by (cases "decode_utf8 text offset") auto
  then obtain rest where r: "scalar_value v" "n = length (utf8 v)" "drop offset text = utf8 v @ rest"
    by (auto simp: decode_exact)
  then have "drop (offset + length (utf8 v)) text = rest"
    by (metis add.commute append_eq_conv_conj drop_drop)
  then show ?thesis using that d r by blast
qed

lemma sanitize_from_clean:
  "\<exists>vs. sanitize_from allowed text offset = concat (map utf8 vs) \<and>
     list_all (\<lambda>v. scalar_value v \<and> (allowed v \<or> v = 0x3F)) vs"
proof (induction allowed "text" offset rule: sanitize_from.induct)
  case (1 allowed "text" offset)
  let ?d = "decode_utf8 text offset"
  consider "length text \<le> offset" | "offset < length text" "\<not> dcp_valid ?d \<or> \<not> allowed (dcp_value ?d)"
    | "offset < length text" "dcp_valid ?d" "allowed (dcp_value ?d)" by linarith
  then show ?case
  proof cases
    case 1
    then show ?thesis by (intro exI [of _ "[]"]) (simp add: sanitize_from.simps)
  next
    case 2
    then obtain vs where "sanitize_from allowed text (offset + (if dcp_valid ?d then dcp_length ?d else 1)) = concat (map utf8 vs)"
      "list_all (\<lambda>v. scalar_value v \<and> (allowed v \<or> v = 0x3F)) vs"
      using "1.IH"(1) by fastforce
    then show ?thesis using 2
      by (intro exI [of _ "0x3F # vs"]) (simp add: sanitize_from.simps [of _ _ offset] Let_def utf8_question scalar_value_def)
  next
    case 3
    then obtain vs where vs: "sanitize_from allowed text (offset + dcp_length ?d) = concat (map utf8 vs)"
      "list_all (\<lambda>v. scalar_value v \<and> (allowed v \<or> v = 0x3F)) vs"
      using "1.IH"(2) by fastforce
    obtain v rest where "?d = \<lparr>dcp_value = v, dcp_length = length (utf8 v), dcp_valid = True\<rparr>" "scalar_value v"
      "drop offset text = utf8 v @ rest"
      using decoded_bytes [OF 3(2)] by metis
    then show ?thesis using 3 vs
      by (intro exI [of _ "v # vs"]) (simp add: sanitize_from.simps [of _ _ offset] Let_def)
  qed
qed

lemma utf8_nonempty: "utf8 v \<noteq> []"
  by (simp add: utf8_def utf8_codes_def)

lemma sanitize_from_identity:
  assumes "drop offset text = concat (map utf8 vs)" and "list_all (\<lambda>v. scalar_value v \<and> allowed v) vs"
  shows "sanitize_from allowed text offset = drop offset text"
  using assms
proof (induction vs arbitrary: offset)
  case Nil
  then show ?case by (simp add: sanitize_from.simps)
next
  case (Cons v vs)
  then have d: "decode_utf8 text offset = \<lparr>dcp_value = v, dcp_length = length (utf8 v), dcp_valid = True\<rparr>"
    by (simp add: decode_exact del: utf8_length)
  have "drop (offset + length (utf8 v)) text = drop (length (utf8 v)) (drop offset text)" by (simp add: add.commute)
  then have "drop (offset + length (utf8 v)) text = concat (map utf8 vs)" using Cons.prems(1) by (simp del: utf8_length drop_drop)
  then have "sanitize_from allowed text (offset + length (utf8 v)) = concat (map utf8 vs)"
    using Cons.IH Cons.prems(2) by simp
  moreover have "offset < length text"
    using Cons.prems(1) utf8_nonempty [of v] by (metis append_is_Nil_conv concat.simps(2) drop_all leI list.simps(9))
  ultimately show ?case
    using Cons.prems d by (simp add: sanitize_from.simps [of _ _ offset] del: utf8_length)
qed

lemma sanitize_clean:
  assumes "allowed 0x3F"
  shows "\<exists>vs. sanitize allowed text = concat (map utf8 vs) \<and> list_all (\<lambda>v. scalar_value v \<and> allowed v) vs"
  using sanitize_from_clean [of allowed "text" 0] assms unfolding sanitize_def by (fastforce simp: list_all_iff)

lemma sanitize_again:
  assumes "allowed 0x3F"
  shows "sanitize allowed (sanitize allowed text) = sanitize allowed text"
proof -
  obtain vs where "sanitize allowed text = concat (map utf8 vs)" "list_all (\<lambda>v. scalar_value v \<and> allowed v) vs"
    using sanitize_clean [of allowed "text", OF assms] by blast
  then show ?thesis
    using sanitize_from_identity [of 0 "sanitize allowed text" vs allowed] by (simp add: sanitize_def)
qed

text \<open>
  What the sanitizers return is UTF-8 of scalar values without a control
  character for a terminal, and of XML characters for XML; text that is already so is returned
  as it is, whatever its bytes.
\<close>

theorem sanitized_text_safe:
  "(\<exists>vs. sanitize_terminal text = concat (map utf8 vs) \<and> list_all (\<lambda>v. scalar_value v \<and> \<not> terminal_control v) vs) \<and>
   (\<exists>vs. sanitize_xml_1_0 text = concat (map utf8 vs) \<and> list_all (\<lambda>v. scalar_value v \<and> xml_1_0_character v) vs) \<and>
   sanitize_terminal (sanitize_terminal text) = sanitize_terminal text \<and>
   sanitize_xml_1_0 (sanitize_xml_1_0 text) = sanitize_xml_1_0 text"
  unfolding sanitize_terminal_def sanitize_xml_1_0_def
  by (intro conjI sanitize_clean sanitize_again) (simp_all add: terminal_control_def xml_1_0_character_def)

end
