(* ===== verification/Terminal_Text.thy ===== *)
theory Terminal_Text
  imports Text_Safety
begin

text \<open>
  Text on a terminal (\<open>src/output/terminal_text.cpp\<close>): how many cells it takes, colour sequences
  aside, and how it is cut to a number of cells.
\<close>

definition combining :: "nat \<Rightarrow> bool" where
  "combining v \<longleftrightarrow>
     (0x0300 \<le> v \<and> v \<le> 0x036F) \<or> (0x1AB0 \<le> v \<and> v \<le> 0x1AFF) \<or> (0x1DC0 \<le> v \<and> v \<le> 0x1DFF) \<or>
     (0x20D0 \<le> v \<and> v \<le> 0x20FF) \<or> (0xFE00 \<le> v \<and> v \<le> 0xFE0F) \<or> (0xFE20 \<le> v \<and> v \<le> 0xFE2F) \<or>
     v = 0x200D \<or> (0x1F3FB \<le> v \<and> v \<le> 0x1F3FF)"

definition wide :: "nat \<Rightarrow> bool" where
  "wide v \<longleftrightarrow>
     (0x1100 \<le> v \<and> v \<le> 0x115F) \<or> v = 0x2329 \<or> v = 0x232A \<or> (0x2E80 \<le> v \<and> v \<le> 0xA4CF) \<or>
     (0xAC00 \<le> v \<and> v \<le> 0xD7A3) \<or> (0xF900 \<le> v \<and> v \<le> 0xFAFF) \<or> (0xFE10 \<le> v \<and> v \<le> 0xFE19) \<or>
     (0xFE30 \<le> v \<and> v \<le> 0xFE6F) \<or> (0xFF00 \<le> v \<and> v \<le> 0xFF60) \<or> (0xFFE0 \<le> v \<and> v \<le> 0xFFE6) \<or>
     (0x1F300 \<le> v \<and> v \<le> 0x1FAFF) \<or> (0x20000 \<le> v \<and> v \<le> 0x3FFFD)"

definition code_point_width :: "decoded_code_point \<Rightarrow> nat" where
  "code_point_width d =
     (if \<not> dcp_valid d \<or> terminal_control (dcp_value d) then 1
      else if combining (dcp_value d) then 0
      else if wide (dcp_value d) then 2 else 1)"

function sgr_loop :: "string \<Rightarrow> nat \<Rightarrow> nat \<Rightarrow> nat" where
  "sgr_loop text offset cursor =
     (if cursor < length text then
        let c = text ! cursor in
        if c = CHR ''m'' then cursor - offset + 1
        else if ((of_char c :: nat) < 0x30 \<or> (of_char c :: nat) > 0x39) \<and> c \<noteq> CHR '';'' then 0
        else sgr_loop text offset (cursor + 1)
      else 0)"
  by pat_completeness auto
termination
  by (relation "measure (\<lambda>(text, offset, cursor). length text - cursor)") auto

declare sgr_loop.simps [simp del]

definition sgr_length :: "string \<Rightarrow> nat \<Rightarrow> nat" where
  "sgr_length text offset =
     (if offset + 2 \<ge> length text \<or> text ! offset \<noteq> CHR 0x1B \<or> text ! (offset + 1) \<noteq> CHR ''['' then 0
      else sgr_loop text offset (offset + 2))"

function display_from :: "string \<Rightarrow> nat \<Rightarrow> nat \<Rightarrow> nat" where
  "display_from text offset cells =
     (if offset < length text then
        if sgr_length text offset > 0 then display_from text (offset + sgr_length text offset) cells
        else
          let d = decode_utf8 text offset in
          display_from text (offset + (if dcp_valid d then dcp_length d else 1)) (cells + code_point_width d)
      else cells)"
  by pat_completeness auto
termination
  by (relation "measure (\<lambda>(text, offset, cells). length text - offset)")
    (auto intro!: diff_less_mono2)

declare display_from.simps [simp del]

definition display_width :: "string \<Rightarrow> nat" where
  "display_width text = display_from text 0 0"

text \<open>The loop of the truncation, over the sanitized text.\<close>

function truncate_loop :: "string \<Rightarrow> nat \<Rightarrow> nat \<Rightarrow> nat \<Rightarrow> nat \<Rightarrow> string \<Rightarrow> string" where
  "truncate_loop sanitized content_cells content_bytes offset used truncated =
     (if offset < length sanitized then
        let d = decode_utf8 sanitized offset; width = code_point_width d in
        if used + width > content_cells \<or> dcp_length d > content_bytes - length truncated then truncated
        else truncate_loop sanitized content_cells content_bytes (offset + dcp_length d) (used + width)
          (truncated @ take (dcp_length d) (drop offset sanitized))
      else truncated)"
  by pat_completeness auto
termination
  by (relation "measure (\<lambda>(sanitized, content_cells, content_bytes, offset, used, truncated). length sanitized - offset)")
    (auto intro!: diff_less_mono2)

declare truncate_loop.simps [simp del]

definition truncate_display :: "string \<Rightarrow> nat \<Rightarrow> string" where
  "truncate_display text maximum_cells =
     (if maximum_cells = 0 then []
      else
        let sanitized = sanitize_terminal text;
            maximum_bytes = (if maximum_cells > size_max div 4 then size_max else maximum_cells * 4)
        in if display_width sanitized \<le> maximum_cells \<and> length sanitized \<le> maximum_bytes then sanitized
           else if maximum_cells \<le> 3 then replicate maximum_cells (CHR ''.'')
           else truncate_loop sanitized (maximum_cells - 3) (maximum_bytes - 3) 0 0 [] @ ''...'')"

section \<open>Sanitized text\<close>

definition plain :: "nat \<Rightarrow> bool" where
  "plain v \<longleftrightarrow> scalar_value v \<and> \<not> terminal_control v"

definition cells_of :: "nat \<Rightarrow> nat" where
  "cells_of v = (if combining v then 0 else if wide v then 2 else 1)"

lemma plain_decode:
  assumes "drop offset text = utf8 v @ rest" and "plain v"
  shows "decode_utf8 text offset = \<lparr>dcp_value = v, dcp_length = length (utf8 v), dcp_valid = True\<rparr>"
  using assms by (simp add: decode_exact plain_def del: utf8_length)

lemma plain_width: "plain v \<Longrightarrow> code_point_width \<lparr>dcp_value = v, dcp_length = n, dcp_valid = True\<rparr> = cells_of v"
  by (simp add: code_point_width_def cells_of_def plain_def)

lemma drop_first: "drop offset text = xs @ rest \<Longrightarrow> drop (offset + length xs) text = rest"
  by (metis add.commute append_eq_conv_conj drop_drop)

lemma drop_nonempty: "drop offset text = utf8 v @ rest \<Longrightarrow> offset < length text"
  using utf8_nonempty [of v] by (metis append_is_Nil_conv drop_all leI)

text \<open>A plain code point does not begin with the escape character.\<close>

lemma plain_no_escape:
  assumes "drop offset text = utf8 v @ rest" and "plain v"
  shows "sgr_length text offset = 0"
proof -
  have "offset < length text" by (rule drop_nonempty [OF assms(1)])
  then have "text ! offset = hd (utf8 v @ rest)" using assms(1) by (metis hd_drop_conv_nth)
  then have first: "text ! offset = char_of (hd (utf8_codes v))"
    using utf8_nonempty [of v] by (auto simp: utf8_def hd_append hd_map)
  have "text ! offset \<noteq> CHR 0x1B"
  proof
    assume "text ! offset = CHR 0x1B"
    then have "of_char (char_of (hd (utf8_codes v)) :: char) = (0x1B :: nat)" using first by simp
    moreover have "hd (utf8_codes v) < 256"
      using assms(2) utf8_codes_less [of v "hd (utf8_codes v)"] by (auto simp: plain_def utf8_codes_def)
    ultimately have "hd (utf8_codes v) = 0x1B" by simp
    then have "v = 0x1B" by (auto simp: utf8_codes_def split: if_splits)
    then show False using assms(2) by (simp add: plain_def terminal_control_def)
  qed
  then show ?thesis by (simp add: sgr_length_def)
qed

lemma display_plain:
  assumes "drop offset text = concat (map utf8 vs)" and "list_all plain vs"
  shows "display_from text offset cells = cells + sum_list (map cells_of vs)"
  using assms
proof (induction vs arbitrary: offset cells)
  case Nil
  then show ?case by (simp add: display_from.simps)
next
  case (Cons v vs)
  then have d: "drop offset text = utf8 v @ concat (map utf8 vs)" and v: "plain v" "list_all plain vs" by simp_all
  show ?case
    using Cons.IH [OF drop_first [OF d] v(2)] drop_nonempty [OF d] plain_no_escape [OF d v(1)] plain_decode [OF d v(1)]
      plain_width [OF v(1)]
    by (simp add: display_from.simps [of _ offset] del: utf8_length)
qed

lemma display_width_plain: "list_all plain vs \<Longrightarrow> display_width (concat (map utf8 vs)) = sum_list (map cells_of vs)"
  using display_plain [of 0 "concat (map utf8 vs)" vs 0] by (simp add: display_width_def)

lemma truncate_plain:
  assumes "drop offset sanitized = concat (map utf8 vs)" and "list_all plain vs"
    and "used \<le> cells" and "length truncated \<le> limit"
  shows "\<exists>us. truncate_loop sanitized cells limit offset used truncated = truncated @ concat (map utf8 us) \<and>
    list_all plain us \<and> used + sum_list (map cells_of us) \<le> cells \<and>
    length (truncate_loop sanitized cells limit offset used truncated) \<le> limit"
  using assms
proof (induction vs arbitrary: offset used truncated)
  case Nil
  then show ?case by (intro exI [of _ "[]"]) (simp add: truncate_loop.simps)
next
  case (Cons v vs)
  then have d: "drop offset sanitized = utf8 v @ concat (map utf8 vs)" and v: "plain v" "list_all plain vs" by simp_all
  note dec = plain_decode [OF d v(1)] plain_width [OF v(1)] drop_nonempty [OF d]
  show ?case
  proof (cases "used + cells_of v > cells \<or> length (utf8 v) > limit - length truncated")
    case True
    then show ?thesis
      using Cons.prems dec by (intro exI [of _ "[]"]) (simp add: truncate_loop.simps [of _ _ _ offset] del: utf8_length)
  next
    case False
    let ?t = "truncated @ utf8 v"
    have "used + cells_of v \<le> cells" "length ?t \<le> limit" using False Cons.prems(4) by (auto simp: not_less)
    from Cons.IH [OF drop_first [OF d] v(2) this] obtain us where
      us: "truncate_loop sanitized cells limit (offset + length (utf8 v)) (used + cells_of v) ?t = ?t @ concat (map utf8 us)"
      "list_all plain us" "used + cells_of v + sum_list (map cells_of us) \<le> cells"
      "length (truncate_loop sanitized cells limit (offset + length (utf8 v)) (used + cells_of v) ?t) \<le> limit" by blast
    have "truncate_loop sanitized cells limit offset used truncated =
        truncate_loop sanitized cells limit (offset + length (utf8 v)) (used + cells_of v) ?t"
      using False dec d utf8_nonempty [of v]
      by (simp add: truncate_loop.simps [of _ _ _ offset] del: utf8_length)
    then show ?thesis using us v by (intro exI [of _ "v # us"]) simp
  qed
qed

lemma dot_plain: "plain 0x2E" "cells_of 0x2E = 1" "utf8 0x2E = ''.''"
proof -
  have "char_of (of_char (CHR ''.'') :: nat) = CHR ''.''" by (rule char_of_char)
  then have "char_of (0x2E :: nat) = CHR ''.''" by simp
  then show "utf8 0x2E = ''.''" by (simp add: utf8_def utf8_codes_def)
qed (simp_all add: plain_def scalar_value_def terminal_control_def cells_of_def combining_def wide_def)

lemma dots: "concat (map utf8 (replicate n 0x2E)) = replicate n (CHR ''.'')"
  by (induction n) (simp_all add: dot_plain)

lemma concat_dots: "concat (replicate n (utf8 0x2E)) = replicate n (CHR ''.'')"
  using dots [of n] by simp

text \<open>
  A text cut to a number of cells takes no more cells than that on the terminal
  and no more than four bytes a cell, holds no control character, and is the sanitized text
  itself when that fits.
\<close>

theorem truncate_display_fits:
  assumes "n \<le> size_max div 4"
  shows "display_width (truncate_display text n) \<le> n \<and> length (truncate_display text n) \<le> 4 * n \<and>
    (\<exists>vs. truncate_display text n = concat (map utf8 vs) \<and> list_all plain vs) \<and>
    (display_width (sanitize_terminal text) \<le> n \<and> length (sanitize_terminal text) \<le> 4 * n \<and> 0 < n \<longrightarrow>
      truncate_display text n = sanitize_terminal text)"
proof -
  obtain vs where vs: "sanitize_terminal text = concat (map utf8 vs)" "list_all plain vs"
    using sanitize_clean [of "\<lambda>v. \<not> terminal_control v" "text"]
    by (auto simp: sanitize_terminal_def plain_def [abs_def] terminal_control_def)
  have good: "display_width t \<le> n" "\<exists>vs. t = concat (map utf8 vs) \<and> list_all plain vs"
    if "t = concat (map utf8 us)" "list_all plain us" "sum_list (map cells_of us) \<le> n" for t us
    using that display_width_plain [OF that(2)] by auto
  consider "n = 0" | "0 < n" "display_width (sanitize_terminal text) \<le> n" "length (sanitize_terminal text) \<le> 4 * n"
    | "0 < n" "n \<le> 3" "\<not> (display_width (sanitize_terminal text) \<le> n \<and> length (sanitize_terminal text) \<le> 4 * n)"
    | "3 < n" "\<not> (display_width (sanitize_terminal text) \<le> n \<and> length (sanitize_terminal text) \<le> 4 * n)" by linarith
  then show ?thesis
  proof cases
    case 1
    then show ?thesis using good [of "[]" "[]"] by (simp add: truncate_display_def)
  next
    case 2
    then have "truncate_display text n = sanitize_terminal text"
      using assms by (simp add: truncate_display_def Let_def mult.commute)
    then show ?thesis using 2 vs by auto
  next
    case 3
    then have "truncate_display text n = concat (map utf8 (replicate n 0x2E))"
      using assms by (auto simp: truncate_display_def Let_def concat_dots mult.commute)
    moreover have "list_all plain (replicate n 0x2E)" "sum_list (map cells_of (replicate n 0x2E)) = n"
      by (simp_all add: list_all_iff dot_plain sum_list_replicate)
    moreover have "length (truncate_display text n) = n" using calculation(1) unfolding dots by simp
    ultimately show ?thesis using good [of "truncate_display text n" "replicate n 0x2E"] 3 by (simp; blast)
  next
    case 4
    let ?l = "truncate_loop (sanitize_terminal text) (n - 3) (4 * n - 3) 0 0 []"
    have t: "truncate_display text n = ?l @ ''...''"
      using 4 assms by (auto simp: truncate_display_def Let_def mult.commute)
    obtain us where us: "?l = concat (map utf8 us)" "list_all plain us" "sum_list (map cells_of us) \<le> n - 3"
      "length ?l \<le> 4 * n - 3"
      using truncate_plain [of 0 "sanitize_terminal text" vs 0 "n - 3" "[]" "4 * n - 3"] vs by auto
    let ?us = "us @ replicate 3 0x2E"
    have "truncate_display text n = concat (map utf8 ?us)" using t us(1) dots [of 3] by (simp add: numeral_3_eq_3)
    moreover have "list_all plain ?us" "sum_list (map cells_of ?us) \<le> n"
      using us 4 by (simp_all add: list_all_iff dot_plain numeral_3_eq_3)
    moreover have "length (truncate_display text n) \<le> 4 * n" using t us(4) 4 by simp
    ultimately show ?thesis using good [of "truncate_display text n" ?us] 4 by blast
  qed
qed

theorem truncate_display_fits_witness:
  "display_width (truncate_display ''a long banner'' 8) \<le> 8"
  using truncate_display_fits [of 8 "''a long banner''"] by (simp add: size_max_def)

end
