(* ===== verification/Output_Escapes.thy ===== *)
theory Output_Escapes
  imports Text_Safety
begin

text \<open>
  The escapers of the output formats (\<open>src/output/output_writer.cpp\<close>): the escaped text cannot end
  the element, the attribute or the line it is written into. That JSON text reads back is shown in
  \<open>Json_Reader\<close>, by the reader the program itself has.
\<close>

section \<open>The escapers\<close>

abbreviation (input) backslash :: char where "backslash \<equiv> CHR 0x5C"

abbreviation (input) quote :: char where "quote \<equiv> CHR 0x22"

definition hex_digit :: "nat \<Rightarrow> char" where
  "hex_digit n = ''0123456789abcdef'' ! n"

definition json_escape_char :: "char \<Rightarrow> string" where
  "json_escape_char c =
     (if c = quote then [backslash, quote]
      else if c = backslash then [backslash, backslash]
      else if c = CHR 0x08 then [backslash, CHR ''b'']
      else if c = CHR 0x0C then [backslash, CHR ''f'']
      else if c = CHR 0x0A then [backslash, CHR ''n'']
      else if c = CHR 0x0D then [backslash, CHR ''r'']
      else if c = CHR 0x09 then [backslash, CHR ''t'']
      else if (of_char c :: nat) < 0x20
      then [backslash, CHR ''u'', CHR ''0'', CHR ''0'',
            hex_digit (drop_bit 4 (of_char c) AND 0x0F), hex_digit (of_char c AND 0x0F)]
      else [c])"

definition json_escape :: "string \<Rightarrow> string" where
  "json_escape text = concat (map json_escape_char (sanitize_utf8 text))"

definition xml_escape_char :: "char \<Rightarrow> string" where
  "xml_escape_char c =
     (if c = CHR ''&'' then ''&amp;''
      else if c = CHR ''<'' then ''&lt;''
      else if c = CHR ''>'' then ''&gt;''
      else if c = quote then ''&quot;''
      else if c = CHR 0x27 then ''&apos;''
      else if (of_char c :: nat) < 0x20 \<and> c \<noteq> CHR 0x0A \<and> c \<noteq> CHR 0x0D \<and> c \<noteq> CHR 0x09 then ''?''
      else [c])"

definition xml_escape :: "string \<Rightarrow> string" where
  "xml_escape text = concat (map xml_escape_char (sanitize_xml_1_0 text))"

definition grep_escape_char :: "char \<Rightarrow> string" where
  "grep_escape_char c =
     (if c = backslash \<or> c = quote \<or> c = CHR 0x0A \<or> c = CHR 0x0D \<or> c = CHR 0x09
      then [backslash, if c = CHR 0x0A then CHR ''n'' else if c = CHR 0x0D then CHR ''r''
                       else if c = CHR 0x09 then CHR ''t'' else c]
      else if (of_char c :: nat) < 0x20 \<or> c = CHR 0x7F then ''?''
      else [c])"

definition grep_escape :: "string \<Rightarrow> string" where
  "grep_escape text = concat (map grep_escape_char (sanitize_utf8 text))"

lemma utf8_high: "scalar_value v \<Longrightarrow> 0x80 \<le> v \<Longrightarrow> c \<in> set (utf8 v) \<Longrightarrow> 0x80 \<le> (of_char c :: nat)"
proof -
  assume v: "scalar_value v" "0x80 \<le> v" and c: "c \<in> set (utf8 v)"
  then have "of_char c \<in> set (map of_char (utf8 v) :: nat list)" by auto
  then have "of_char c \<in> set (utf8_codes v)" using utf8_bytes [OF v(1)] by simp
  then show ?thesis using v(2) by (auto simp: utf8_codes_def split: if_splits)
qed

lemma utf8_ascii: "v < 0x80 \<Longrightarrow> utf8 v = [char_of v]"
  by (simp add: utf8_def utf8_codes_def)

lemma of_char_ascii: "v < 0x80 \<Longrightarrow> of_char (char_of v :: char) = (v :: nat)"
  by simp

section \<open>What becomes of a text\<close>

definition xml_clean :: "char \<Rightarrow> bool" where
  "xml_clean c \<longleftrightarrow> 0x20 \<le> (of_char c :: nat) \<or> c \<in> {CHR 0x09, CHR 0x0A, CHR 0x0D}"

definition entities :: "(char \<times> string) list" where
  "entities = [(CHR ''&'', ''amp;''), (CHR ''<'', ''lt;''), (CHR ''>'', ''gt;''), (quote, ''quot;''), (CHR 0x27, ''apos;'')]"

lemma xml_escape_char_clean:
  "xml_clean c \<Longrightarrow> xml_escape_char c = (case map_of entities c of None \<Rightarrow> [c] | Some e \<Rightarrow> CHR ''&'' # e)"
  by (auto simp: xml_escape_char_def xml_clean_def entities_def)

lemma entities_prefix_free:
  assumes "(c, e) \<in> set entities" and "(d, f) \<in> set entities" and "e @ s = f @ t"
  shows "c = d \<and> s = t"
  using assms(1) unfolding entities_def set_simps
  by (elim insertE emptyE; insert assms(2); unfold entities_def set_simps; elim insertE emptyE; insert assms(3); simp)

lemma xml_escape_char_prefix_free:
  assumes "xml_clean c" and "xml_clean d" and eq: "xml_escape_char c @ s = xml_escape_char d @ t"
  shows "c = d \<and> s = t"
proof -
  have amp: "map_of entities (CHR ''&'') \<noteq> None" by (simp add: entities_def)
  note eq' = eq [unfolded xml_escape_char_clean [OF assms(1)] xml_escape_char_clean [OF assms(2)]]
  show ?thesis
  proof (cases "map_of entities c")
    case None
    then have "c # s = (case map_of entities d of None \<Rightarrow> [d] | Some e \<Rightarrow> CHR ''&'' # e) @ t" using eq' by simp
    then show ?thesis using None amp by (cases "map_of entities d") simp_all
  next
    case (Some e)
    then have e: "CHR ''&'' # e @ s = (case map_of entities d of None \<Rightarrow> [d] | Some e \<Rightarrow> CHR ''&'' # e) @ t" using eq' by simp
    show ?thesis
    proof (cases "map_of entities d")
      case None
      then show ?thesis using e amp by simp
    next
      case f: (Some f)
      then have "e @ s = f @ t" using e by simp
      then show ?thesis by (rule entities_prefix_free [OF map_of_SomeD [OF Some] map_of_SomeD [OF f]])
    qed
  qed
qed

lemma xml_escape_char_nonempty: "xml_escape_char c \<noteq> []"
  by (simp add: xml_escape_char_def)

lemma xml_escape_chars_injective:
  assumes "list_all xml_clean s" and "list_all xml_clean t"
    and "concat (map xml_escape_char s) = concat (map xml_escape_char t)"
  shows "s = t"
  using assms
proof (induction s arbitrary: t)
  case Nil
  then show ?case by (cases t) (simp_all add: xml_escape_char_nonempty)
next
  case (Cons c s)
  have "t \<noteq> []" using Cons.prems(3) by (clarsimp simp: xml_escape_char_nonempty)
  then obtain d t' where t: "t = d # t'" by (meson neq_Nil_conv)
  then have "c = d \<and> concat (map xml_escape_char s) = concat (map xml_escape_char t')"
    using Cons.prems by (intro xml_escape_char_prefix_free) simp_all
  then show ?case using Cons t by simp
qed

lemma sanitized_xml_clean: "list_all xml_clean (sanitize_xml_1_0 text)"
proof -
  obtain vs where vs: "sanitize_xml_1_0 text = concat (map utf8 vs)" "list_all (\<lambda>v. scalar_value v \<and> xml_1_0_character v) vs"
    using sanitize_clean [of xml_1_0_character "text"] by (auto simp: sanitize_xml_1_0_def xml_1_0_character_def)
  have "xml_clean c" if "c \<in> set (utf8 v)" "scalar_value v" "xml_1_0_character v" for c v
  proof (cases "v < 0x80")
    case True
    then have c: "c = char_of v" and v: "of_char c = v" using that(1) by (simp_all add: utf8_ascii)
    have "c \<in> {CHR 0x09, CHR 0x0A, CHR 0x0D}" if "of_char c \<in> {9, 10, 13 :: nat}"
    proof -
      have "(of_char c :: nat) = of_char (CHR 0x09) \<or> (of_char c :: nat) = of_char (CHR 0x0A) \<or> (of_char c :: nat) = of_char (CHR 0x0D)"
        using that by simp
      then show ?thesis by (simp only: of_char_eq_iff) blast
    qed
    then show ?thesis using v that(3) by (auto simp: xml_1_0_character_def xml_clean_def)
  next
    case False
    then show ?thesis using utf8_high [OF that(2) _ that(1)] by (simp add: xml_clean_def)
  qed
  then show ?thesis unfolding list_all_iff vs(1) using vs(2) by (fastforce simp: list_all_iff)
qed

text \<open>
  The text written into an XML document contains no markup but the ampersands of the escaper, and
  two texts give the same bytes only if their sanitized forms are the same.
\<close>

theorem xml_text_unambiguous:
  "set (xml_escape text) \<inter> {CHR ''<'', CHR ''>'', quote, CHR 0x27} = {} \<and>
   (xml_escape text = xml_escape other \<longleftrightarrow> sanitize_xml_1_0 text = sanitize_xml_1_0 other)"
proof
  show "set (xml_escape text) \<inter> {CHR ''<'', CHR ''>'', quote, CHR 0x27} = {}"
    by (auto simp: xml_escape_def xml_escape_char_def split: if_splits)
  show "xml_escape text = xml_escape other \<longleftrightarrow> sanitize_xml_1_0 text = sanitize_xml_1_0 other"
    using xml_escape_chars_injective [OF sanitized_xml_clean sanitized_xml_clean] by (auto simp: xml_escape_def)
qed

text \<open>A value in a grepable line stays on its line and in its column.\<close>

theorem grepable_value_on_its_line: "set (grep_escape text) \<inter> {CHR 0x0A, CHR 0x0D, CHR 0x09} = {}"
  by (auto simp: grep_escape_def grep_escape_char_def split: if_splits)

end
