(* ===== verification/Json_Reader.thy ===== *)
theory Json_Reader
  imports Output_Escapes
begin

text \<open>
  The strict JSON reader of the protocol parsers (\<open>src/detect/protocol_parsers.cpp\<close>, class
  \<open>JsonReader\<close>): the cursor is the unread rest of the input, the nodes are the list the class
  keeps. A call that returns false is \<open>None\<close>: the reader is not used after it.
\<close>

section \<open>Strings\<close>

definition hex_value :: "char \<Rightarrow> nat option" where
  "hex_value c =
     (let n = of_char c in
      if 0x30 \<le> n \<and> n \<le> 0x39 then Some (n - 0x30)
      else if 0x61 \<le> n \<and> n \<le> 0x66 then Some (n - 0x61 + 10)
      else if 0x41 \<le> n \<and> n \<le> 0x46 then Some (n - 0x41 + 10)
      else None)"

fun hex_loop :: "nat \<Rightarrow> nat \<Rightarrow> string \<Rightarrow> (nat \<times> string) option" where
  "hex_loop 0 code rest = Some (code, rest)"
| "hex_loop (Suc i) code [] = None"
| "hex_loop (Suc i) code (c # rest) =
     (case hex_value c of None \<Rightarrow> None | Some n \<Rightarrow> hex_loop i (push_bit 4 code OR n) rest)"

definition hex4 :: "string \<Rightarrow> (nat \<times> string) option" where
  "hex4 rest = (if length rest < 4 then None else hex_loop 4 0 rest)"

definition utf8_push :: "nat \<Rightarrow> string" where
  "utf8_push code =
     (if code \<le> 0x7F then [char_of code]
      else if code \<le> 0x7FF then [char_of (0xC0 OR drop_bit 6 code), char_of (0x80 OR (code AND 0x3F))]
      else if code \<le> 0xFFFF then
        [char_of (0xE0 OR drop_bit 12 code), char_of (0x80 OR (drop_bit 6 code AND 0x3F)), char_of (0x80 OR (code AND 0x3F))]
      else
        [char_of (0xF0 OR drop_bit 18 code), char_of (0x80 OR (drop_bit 12 code AND 0x3F)),
         char_of (0x80 OR (drop_bit 6 code AND 0x3F)), char_of (0x80 OR (code AND 0x3F))])"

definition json_unicode :: "string \<Rightarrow> (string \<times> string) option" where
  "json_unicode rest =
     (case hex4 rest of
        None \<Rightarrow> None
      | Some (code, rest1) \<Rightarrow>
          if 0xD800 \<le> code \<and> code \<le> 0xDBFF then
            (if take 2 rest1 \<noteq> [backslash, CHR ''u''] then None
             else case hex4 (drop 2 rest1) of
               None \<Rightarrow> None
             | Some (low, rest2) \<Rightarrow>
                 if low < 0xDC00 \<or> low > 0xDFFF then None
                 else Some (utf8_push (0x10000 + push_bit 10 (code - 0xD800) + low - 0xDC00), rest2))
          else if 0xDC00 \<le> code \<and> code \<le> 0xDFFF then None
          else Some (utf8_push code, rest1))"

definition json_escaped :: "string \<Rightarrow> (string \<times> string) option" where
  "json_escaped rest =
     (case rest of
        [] \<Rightarrow> None
      | c # rest1 \<Rightarrow>
          if c = quote \<or> c = backslash \<or> c = CHR ''/'' then Some ([c], rest1)
          else if c = CHR ''b'' then Some ([CHR 0x08], rest1)
          else if c = CHR ''f'' then Some ([CHR 0x0C], rest1)
          else if c = CHR ''n'' then Some ([CHR 0x0A], rest1)
          else if c = CHR ''r'' then Some ([CHR 0x0D], rest1)
          else if c = CHR ''t'' then Some ([CHR 0x09], rest1)
          else if c = CHR ''u'' then json_unicode rest1
          else None)"

fun continuation_loop :: "nat \<Rightarrow> nat \<Rightarrow> string \<Rightarrow> (nat \<times> string) option" where
  "continuation_loop 0 code rest = Some (code, rest)"
| "continuation_loop (Suc i) code [] = None"
| "continuation_loop (Suc i) code (c # rest) =
     (if of_char c AND 0xC0 \<noteq> (0x80 :: nat) then None
      else continuation_loop i (push_bit 6 code OR (of_char c AND 0x3F)) rest)"

text \<open>Number of continuation bytes, bits of the first byte, and the least code point of that length.\<close>

definition lead_byte :: "nat \<Rightarrow> (nat \<times> nat \<times> nat) option" where
  "lead_byte c =
     (if 0xC2 \<le> c \<and> c \<le> 0xDF then Some (1, c AND 0x1F, 0x80)
      else if 0xE0 \<le> c \<and> c \<le> 0xEF then Some (2, c AND 0x0F, 0x800)
      else if 0xF0 \<le> c \<and> c \<le> 0xF4 then Some (3, c AND 7, 0x10000)
      else None)"

definition json_multibyte :: "nat \<Rightarrow> string \<Rightarrow> (string \<times> string) option" where
  "json_multibyte c rest =
     (case lead_byte c of
        None \<Rightarrow> None
      | Some (n, code, minimum) \<Rightarrow>
          if length rest < n then None
          else case continuation_loop n code rest of
            None \<Rightarrow> None
          | Some (code', rest1) \<Rightarrow>
              if code' < minimum \<or> code' > 0x10FFFF \<or> (0xD800 \<le> code' \<and> code' \<le> 0xDFFF) then None
              else Some (utf8_push code', rest1))"

definition json_unit :: "char \<Rightarrow> string \<Rightarrow> (string \<times> string) option" where
  "json_unit c rest =
     (if c = backslash then json_escaped rest
      else if (of_char c :: nat) \<ge> 128 then json_multibyte (of_char c) rest
      else Some ([c], rest))"

lemma hex_loop_shorter: "hex_loop i code rest = Some (v, rest') \<Longrightarrow> length rest' \<le> length rest"
  by (induction i code rest rule: hex_loop.induct) (auto split: option.splits)

lemma hex4_shorter: "hex4 rest = Some (v, rest') \<Longrightarrow> length rest' \<le> length rest"
  by (auto simp: hex4_def hex_loop_shorter split: if_splits)

lemma continuation_loop_shorter: "continuation_loop i code rest = Some (v, rest') \<Longrightarrow> length rest' \<le> length rest"
  by (induction i code rest rule: continuation_loop.induct) (auto split: if_splits)

lemma json_unicode_shorter:
  assumes "json_unicode rest = Some (t, rest')"
  shows "length rest' \<le> length rest"
proof -
  obtain code rest1 where 1: "hex4 rest = Some (code, rest1)" using assms by (auto simp: json_unicode_def split: option.splits)
  consider "rest' = rest1" | low where "hex4 (drop 2 rest1) = Some (low, rest')"
    using assms 1 by (auto simp: json_unicode_def split: option.splits if_splits)
  then show ?thesis using hex4_shorter [OF 1] hex4_shorter by cases fastforce+
qed

lemma json_unit_shorter:
  assumes "json_unit c rest = Some (t, rest')"
  shows "length rest' \<le> length rest"
  using assms continuation_loop_shorter json_unicode_shorter
  by (fastforce simp: json_unit_def json_escaped_def json_multibyte_def split: if_splits list.splits option.splits)

function json_string_loop :: "string \<Rightarrow> string \<Rightarrow> (string \<times> string) option" where
  "json_string_loop out [] = None"
| "json_string_loop out (c # rest) =
     (if c = quote then Some (out, rest)
      else if (of_char c :: nat) < 32 \<or> length out \<ge> 2048 then None
      else case json_unit c rest of
        None \<Rightarrow> None
      | Some (t, rest') \<Rightarrow> if length (out @ t) > 2048 then None else json_string_loop (out @ t) rest')"
  by pat_completeness auto
termination
  by (relation "measure (\<lambda>(out, rest). length rest)") (auto dest: json_unit_shorter)

definition is_json_space :: "char \<Rightarrow> bool" where
  "is_json_space c \<longleftrightarrow> c \<in> {CHR '' '', CHR 0x09, CHR 0x0D, CHR 0x0A}"

definition json_whitespace :: "string \<Rightarrow> string" where
  "json_whitespace rest = dropWhile is_json_space rest"

definition json_consume :: "char \<Rightarrow> string \<Rightarrow> string option" where
  "json_consume c rest =
     (case json_whitespace rest of [] \<Rightarrow> None | d # rest' \<Rightarrow> if d = c then Some rest' else None)"

definition json_string :: "string \<Rightarrow> (string \<times> string) option" where
  "json_string rest = (case json_consume quote rest of None \<Rightarrow> None | Some rest' \<Rightarrow> json_string_loop [] rest')"

section \<open>Numbers and values\<close>

definition json_digits :: "string \<Rightarrow> string option" where
  "json_digits rest = (if rest = [] \<or> \<not> is_digit (hd rest) then None else Some (dropWhile is_digit rest))"

definition json_number :: "string \<Rightarrow> string option" where
  "json_number rest =
     (let r0 = (case rest of c # r \<Rightarrow> if c = CHR ''-'' then r else rest | [] \<Rightarrow> []) in
      if r0 = [] \<or> \<not> is_digit (hd r0) then None
      else
        let r1 = (if hd r0 = CHR ''0'' then tl r0 else dropWhile is_digit r0)
        in case (if r1 \<noteq> [] \<and> hd r1 = CHR ''.'' then json_digits (tl r1) else Some r1) of
             None \<Rightarrow> None
           | Some r2 \<Rightarrow>
               if r2 \<noteq> [] \<and> (hd r2 = CHR ''e'' \<or> hd r2 = CHR ''E'') then
                 let r3 = tl r2; r4 = (if r3 \<noteq> [] \<and> (hd r3 = CHR ''+'' \<or> hd r3 = CHR ''-'') then tl r3 else r3)
                 in json_digits r4
               else Some r2)"

datatype json_kind = JsonObject | JsonArray | JsonString | JsonScalar

record json_node =
  jn_kind :: json_kind
  jn_parent :: "nat option"
  jn_key :: string
  jn_value :: string

text \<open>\<open>member\<close>: the first node with that parent and key, as its index.\<close>

definition json_member :: "json_node list \<Rightarrow> nat \<Rightarrow> string \<Rightarrow> nat option" where
  "json_member nodes parent k =
     find (\<lambda>i. jn_parent (nodes ! i) = Some parent \<and> jn_key (nodes ! i) = k) [0..<length nodes]"

definition json_literal :: "string \<Rightarrow> string option" where
  "json_literal rest =
     (if take 4 rest = ''true'' then Some (drop 4 rest)
      else if take 5 rest = ''false'' then Some (drop 5 rest)
      else if take 4 rest = ''null'' then Some (drop 4 rest)
      else json_number rest)"

definition json_kind_of :: "char \<Rightarrow> json_kind" where
  "json_kind_of c =
     (if c = CHR ''{'' then JsonObject else if c = CHR ''['' then JsonArray
      else if c = quote then JsonString else JsonScalar)"

text \<open>
  The loop over the members of an object or the elements of an array. \<open>read_value\<close> reads one
  value as a child of the node; the bound counts the values still possible, which is enough
  because every value adds a node and there are at most 512 (\<open>json_bound_suffices\<close>).
\<close>

type_synonym json_state = "string \<times> json_node list"

definition json_child_key :: "json_kind \<Rightarrow> nat \<Rightarrow> json_state \<Rightarrow> (string \<times> string) option" where
  "json_child_key kind i s =
     (case s of (rest, nodes) \<Rightarrow>
       if kind = JsonObject then
         (case json_string rest of
            None \<Rightarrow> None
          | Some (k, rest1) \<Rightarrow>
              if length k > 128 \<or> json_member nodes i k \<noteq> None then None
              else map_option (Pair k) (json_consume (CHR '':'') rest1))
       else Some ([], rest))"

fun json_elements ::
  "(nat option \<Rightarrow> string \<Rightarrow> json_state \<Rightarrow> json_state option) \<Rightarrow> json_kind \<Rightarrow> nat \<Rightarrow> nat \<Rightarrow> json_state \<Rightarrow> json_state option" where
  "json_elements read_value kind i 0 s = None"
| "json_elements read_value kind i (Suc n) (rest, nodes) =
     (case json_child_key kind i (rest, nodes) of
        None \<Rightarrow> None
      | Some (k, rest2) \<Rightarrow>
          (case read_value (Some i) k (rest2, nodes) of
             None \<Rightarrow> None
           | Some (rest3, nodes3) \<Rightarrow>
               (case json_consume (CHR '','') rest3 of
                  Some rest4 \<Rightarrow> json_elements read_value kind i n (rest4, nodes3)
                | None \<Rightarrow> map_option (\<lambda>r. (r, nodes3))
                    (json_consume (if kind = JsonObject then CHR ''}'' else CHR '']'') rest3))))"

text \<open>The depth counts down from 17: the code refuses a value deeper than 16.\<close>

fun json_value :: "nat \<Rightarrow> nat option \<Rightarrow> string \<Rightarrow> json_state \<Rightarrow> json_state option" where
  "json_value 0 parent k s = None"
| "json_value (Suc depth) parent k (rest0, nodes) =
     (case json_whitespace rest0 of
        [] \<Rightarrow> None
      | c # rest \<Rightarrow>
          if length nodes \<ge> 512 then None
          else
            let i = length nodes; kind = json_kind_of c;
                nodes1 = nodes @ [\<lparr>jn_kind = kind, jn_parent = parent, jn_key = k, jn_value = []\<rparr>]
            in if kind = JsonString then
                 (case json_string (c # rest) of
                    None \<Rightarrow> None
                  | Some (t, rest1) \<Rightarrow> Some (rest1, nodes1[i := (nodes1 ! i)\<lparr>jn_value := t\<rparr>]))
               else if kind = JsonScalar then map_option (\<lambda>r. (r, nodes1)) (json_literal (c # rest))
               else
                 (case json_consume (if kind = JsonObject then CHR ''}'' else CHR '']'') rest of
                    Some rest1 \<Rightarrow> Some (rest1, nodes1)
                  | None \<Rightarrow> json_elements (json_value depth) kind i 512 (rest, nodes1)))"

definition json_read :: "string \<Rightarrow> json_node list option" where
  "json_read input =
     (if length input > 8192 then None
      else case json_value 17 None [] (input, []) of
        None \<Rightarrow> None
      | Some (rest, nodes) \<Rightarrow>
          if json_whitespace rest = [] \<and> nodes \<noteq> [] \<and> jn_kind (hd nodes) = JsonObject then Some nodes else None)"

section \<open>Reading back what the program writes\<close>

lemma or_plus:
  "x < 64 \<Longrightarrow> 0xC0 OR x = 0xC0 + x" "x < 32 \<Longrightarrow> 0xE0 OR x = 0xE0 + x" "x < 16 \<Longrightarrow> 0xF0 OR x = 0xF0 + x"
  "x < 64 \<Longrightarrow> 0x80 OR x = 0x80 + x" for x :: nat
  using or_low [of x 6 3] or_low [of x 5 7] or_low [of x 4 15] or_low [of x 6 2] by (simp_all add: push_bit_nat_def)

lemma utf8_push_utf8:
  assumes "v \<le> 0x10FFFF"
  shows "utf8_push v = utf8 v"
proof -
  have d: "v div 0x1000 = v div 0x40 div 0x40" "v div 0x40000 = v div 0x40 div 0x40 div 0x40" by (simp_all add: div_mult2_eq [symmetric])
  consider "v < 0x80" | "0x80 \<le> v" "v < 0x800" | "0x800 \<le> v" "v < 0x10000" | "0x10000 \<le> v" by linarith
  then show ?thesis
  proof cases
    case 2
    then have "v div 64 < 64" by (simp add: less_mult_imp_div_less)
    then show ?thesis using 2 by (simp add: utf8_push_def utf8_def utf8_codes_def drop_bit_nat_def and_low or_plus)
  next
    case 3
    then have "v div 64 div 64 < 32" by (simp add: less_mult_imp_div_less)
    then show ?thesis using 3 by (simp add: utf8_push_def utf8_def utf8_codes_def drop_bit_nat_def and_low or_plus d)
  next
    case 4
    then have "v div 64 div 64 div 64 < 16" using assms by (simp add: less_mult_imp_div_less)
    then show ?thesis using 4 by (simp add: utf8_push_def utf8_def utf8_codes_def drop_bit_nat_def and_low or_plus d)
  qed (simp add: utf8_push_def utf8_def utf8_codes_def)
qed

lemma continuation_byte: "x < 64 \<Longrightarrow> (0x80 + x) AND 0xC0 = (0x80 :: nat) \<and> (0x80 + x) AND 0x3F = x" for x :: nat
  using continuation_range [of "0x80 + x"] mod_of_range(1) [of "0x80 + x"] by (simp add: continuation_def and_low)

lemma lead_bytes:
  "2 \<le> q \<Longrightarrow> q < 32 \<Longrightarrow> lead_byte (0xC0 + q) = Some (1, q, 0x80)"
  "q < 16 \<Longrightarrow> lead_byte (0xE0 + q) = Some (2, q, 0x800)"
  "q < 5 \<Longrightarrow> lead_byte (0xF0 + q) = Some (3, q, 0x10000)"
  using mod_of_range(2) [of "0xC0 + q"] mod_of_range(3) [of "0xE0 + q"] mod_of_range(4) [of "0xF0 + q"]
  by (simp_all add: lead_byte_def and_low)

lemma of_char_code: "x < 256 \<Longrightarrow> of_char (char_of x :: char) = (x :: nat)"
  by simp

lemma continuation_step:
  assumes "x < 64"
  shows "continuation_loop (Suc i) code (char_of (0x80 + x) # rest) = continuation_loop i (code * 64 + x) rest"
proof -
  have "of_char (char_of (0x80 + x) :: char) = 0x80 + x" by (rule of_char_code) (use assms in simp)
  then show ?thesis
    using continuation_byte [OF assms] join_bits(1) [OF assms, of code]
    by (simp only: continuation_loop.simps) simp
qed

lemma multibyte_one: "x < 64 \<Longrightarrow> continuation_loop 1 a (char_of (0x80 + x) # rest) = Some (a * 64 + x, rest)"
  using continuation_step [of x 0] by (simp only: One_nat_def continuation_loop.simps)

lemma multibyte_two:
  assumes "x < 64" and "y < 64"
  shows "continuation_loop 2 a (char_of (0x80 + x) # char_of (0x80 + y) # rest) = Some ((a * 64 + x) * 64 + y, rest)"
  by (simp only: numeral_2_eq_2 continuation_step [OF assms(1)] continuation_step [OF assms(2)] continuation_loop.simps(1))

lemma multibyte_three:
  assumes "x < 64" and "y < 64" and "z < 64"
  shows "continuation_loop 3 a (char_of (0x80 + x) # char_of (0x80 + y) # char_of (0x80 + z) # rest) =
    Some (((a * 64 + x) * 64 + y) * 64 + z, rest)"
  by (simp only: numeral_3_eq_3 continuation_step [OF assms(1)] continuation_step [OF assms(2)]
    continuation_step [OF assms(3)] continuation_loop.simps(1))

text \<open>Every code point beyond ASCII is read as its own bytes.\<close>

lemma multibyte_read:
  assumes "scalar_value v" and "0x80 \<le> v"
  obtains (bytes) c cs where "utf8 v = c # cs" "0x80 \<le> (of_char c :: nat)" "json_multibyte (of_char c) (cs @ rest) = Some (utf8 v, rest)"
proof -
  have push: "utf8_push v = utf8 v" using assms(1) by (intro utf8_push_utf8) (auto simp: scalar_value_def)
  have found: thesis if "utf8 v = char_of n # cs" "0x80 \<le> n" "n < 256" "json_multibyte n (cs @ rest) = Some (utf8 v, rest)" for n cs
    using that(1) of_char_code [OF that(3)] that(2,4) by (intro bytes [of "char_of n" cs]) simp_all
  have valid: "v \<le> 0x10FFFF" "\<not> (0xD800 \<le> v \<and> v \<le> 0xDFFF)" using assms(1) by (auto simp: scalar_value_def)
  show ?thesis
    using assms(1)
  proof (cases rule: digitsE)
    case (two q r)
    have u: "utf8 v = char_of (0xC0 + q) # [char_of (0x80 + r)]" using codes_of_digits(2) [OF two] by (simp add: utf8_def)
    have "json_multibyte (0xC0 + q) ([char_of (0x80 + r)] @ rest) = Some (utf8_push v, rest)"
      unfolding json_multibyte_def lead_bytes(1) [OF two(2,3)] append_Cons append_Nil prod.case option.case multibyte_one [OF two(4)]
        two(1) [symmetric]
      using valid assms(2) by simp
    from found [OF u _ _ this [unfolded push]] show ?thesis using two by simp
  next
    case (three x p q r)
    have u: "utf8 v = char_of (0xE0 + p) # [char_of (0x80 + q), char_of (0x80 + r)]"
      using codes_of_three_digits [OF three(1-6)] by (simp add: utf8_def)
    have "json_multibyte (0xE0 + p) ([char_of (0x80 + q), char_of (0x80 + r)] @ rest) = Some (utf8_push v, rest)"
      unfolding json_multibyte_def lead_bytes(2) [OF three(3)] append_Cons append_Nil prod.case option.case
        multibyte_two [OF three(4,5)] three(2) [symmetric] three(1) [symmetric]
      using valid three(1,6) by simp
    from found [OF u _ _ this [unfolded push]] show ?thesis using three by simp
  next
    case (four y x n p q r)
    have u: "utf8 v = char_of (0xF0 + n) # [char_of (0x80 + p), char_of (0x80 + q), char_of (0x80 + r)]"
      using codes_of_four_digits [OF four(1-3) _ four(5-8)] four(4) by (simp add: utf8_def)
    have "json_multibyte (0xF0 + n) ([char_of (0x80 + p), char_of (0x80 + q), char_of (0x80 + r)] @ rest) = Some (utf8_push v, rest)"
      unfolding json_multibyte_def lead_bytes(3) [OF four(4)] append_Cons append_Nil prod.case option.case
        multibyte_three [OF four(5-7)] four(3) [symmetric] four(2) [symmetric] four(1) [symmetric]
      using valid four(1,2,8) by simp
    from found [OF u _ _ this [unfolded push]] show ?thesis using four by simp
  qed (use assms in simp_all)
qed

text \<open>One code point of an escaped string.\<close>

lemma hex_digits_read: "m < 16 \<Longrightarrow> hex_value (hex_digit m) = Some m"
proof -
  have "list_all (\<lambda>m. hex_value (hex_digit m) = Some m) [0..<16]"
    by (simp add: upt_rec hex_digit_def hex_value_def Let_def)
  then show "m < 16 \<Longrightarrow> ?thesis" by (simp add: list_all_iff)
qed

lemma hex4_digits:
  "hex_value a = Some w \<Longrightarrow> hex_value b = Some x \<Longrightarrow> hex_value c = Some y \<Longrightarrow> hex_value d = Some z \<Longrightarrow>
     hex4 (a # b # c # d # rest) = Some (push_bit 4 (push_bit 4 (push_bit 4 (push_bit 4 0 OR w) OR x) OR y) OR z, rest)"
  by (simp add: hex4_def numeral_eq_Suc)

lemma control_read:
  assumes "n < 0x20"
  shows "json_unicode (CHR ''0'' # CHR ''0'' # hex_digit (drop_bit 4 n AND 0x0F) # hex_digit (n AND 0x0F) # rest) =
    Some ([char_of n], rest)"
proof -
  have n: "n div 16 < 16" "n mod 16 < 16" using assms by (simp_all add: less_mult_imp_div_less)
  have h: "hex_value (hex_digit (n div 16)) = Some (n div 16)" "hex_value (hex_digit (n mod 16)) = Some (n mod 16)"
    using n by (simp_all add: hex_digits_read)
  have z: "hex_value (CHR ''0'') = Some 0" by (simp add: hex_value_def Let_def)
  have "n div 16 mod 16 = n div 16" using n by simp
  moreover have "push_bit 4 (n div 16) OR (n mod 16) = n"
    using or_low [of "n mod 16" 4 "n div 16"] by simp
  ultimately have "hex4 (CHR ''0'' # CHR ''0'' # hex_digit (drop_bit 4 n AND 0x0F) # hex_digit (n AND 0x0F) # rest) = Some (n, rest)"
    using hex4_digits [OF z z h, of rest] by (simp add: and_low drop_bit_nat_def)
  then show ?thesis using assms by (simp add: json_unicode_def utf8_push_def)
qed

lemma ascii_char:
  assumes "(v :: nat) < 0x80" and "char_of v = (c :: char)"
  shows "of_char c = v"
  using assms of_char_code [of v] by auto

text \<open>The loop takes the escaped form of one code point for the code point.\<close>

lemma string_loop_step:
  assumes "scalar_value v" and "length (out @ utf8 v) \<le> 2048"
  shows "json_string_loop out (concat (map json_escape_char (utf8 v)) @ rest) = json_string_loop (out @ utf8 v) rest"
proof (cases "v < 0x80")
  case False
  then have "0x80 \<le> v" by simp
  from multibyte_read [OF assms(1) this] obtain c cs where c: "utf8 v = c # cs" "0x80 \<le> (of_char c :: nat)"
    "json_multibyte (of_char c) (cs @ rest) = Some (utf8 v, rest)" .
  have "json_escape_char d = [d]" if "0x80 \<le> (of_char d :: nat)" for d
  proof -
    have "d \<notin> {quote, backslash, CHR 0x08, CHR 0x0C, CHR 0x0A, CHR 0x0D, CHR 0x09}" using that by auto
    then show ?thesis using that by (simp add: json_escape_char_def)
  qed
  then have "concat (map json_escape_char ds) = ds" if "\<forall>d\<in>set ds. 0x80 \<le> (of_char d :: nat)" for ds
    using that by (induction ds) simp_all
  from this [of "utf8 v"] have "concat (map json_escape_char (utf8 v)) = c # cs"
    using c(1) utf8_high [OF assms(1)] False by (metis linorder_not_less)
  moreover have "c \<noteq> quote" "c \<noteq> backslash" using c(2) by auto
  moreover have "length out < 2048" using assms(2) c(1) by simp
  ultimately show ?thesis using c assms(2) by (simp add: json_unit_def)
next
  case True
  define c where "c = (char_of v :: char)"
  have u: "utf8 v = [c]" using True by (simp add: utf8_ascii c_def)
  have code: "of_char c = v" using True by (rule ascii_char) (simp add: c_def)
  have room: "length out < 2048" using assms(2) u by simp
  consider "c = quote" | "c = backslash" | "c = CHR 0x08" | "c = CHR 0x0C" | "c = CHR 0x0A" | "c = CHR 0x0D" | "c = CHR 0x09"
    | "c \<notin> {quote, backslash, CHR 0x08, CHR 0x0C, CHR 0x0A, CHR 0x0D, CHR 0x09}" "v < 0x20"
    | "c \<notin> {quote, backslash, CHR 0x08, CHR 0x0C, CHR 0x0A, CHR 0x0D, CHR 0x09}" "0x20 \<le> v" by force
  then show ?thesis
  proof cases
    case 8
    then have "json_escape_char c = [backslash, CHR ''u'', CHR ''0'', CHR ''0'', hex_digit (drop_bit 4 v AND 0x0F), hex_digit (v AND 0x0F)]"
      using code by (auto simp: json_escape_char_def)
    then show ?thesis
      using u room control_read [OF 8(2), of rest] by (simp add: json_unit_def json_escaped_def c_def)
  next
    case 9
    then have "json_escape_char c = [c]" using code by (auto simp: json_escape_char_def)
    then show ?thesis using u room 9 code True by (simp add: json_unit_def)
  qed (use room in \<open>simp_all add: u json_escape_char_def json_unit_def json_escaped_def\<close>)
qed

lemma string_loop_escaped:
  assumes "list_all scalar_value vs" and "length out + length (concat (map utf8 vs)) \<le> 2048"
  shows "json_string_loop out (concat (map json_escape_char (concat (map utf8 vs))) @ quote # rest) =
    Some (out @ concat (map utf8 vs), rest)"
  using assms
proof (induction vs arbitrary: out)
  case (Cons v vs)
  have "json_string_loop out (concat (map json_escape_char (utf8 v)) @
      (concat (map json_escape_char (concat (map utf8 vs))) @ quote # rest)) =
    json_string_loop (out @ utf8 v) (concat (map json_escape_char (concat (map utf8 vs))) @ quote # rest)"
    using Cons.prems by (intro string_loop_step) simp_all
  then show ?case using Cons.IH [of "out @ utf8 v"] Cons.prems by simp
qed simp

text \<open>
  Property C32. A string the program writes into a JSON document is read back by the JSON reader
  of its own protocol parsers as the sanitized text, whatever a peer sent, as long as it has no
  more than the 2,048 bytes the reader admits.
\<close>

theorem json_text_round_trip:
  assumes "length (sanitize_utf8 text) \<le> 2048"
  shows "json_string (quote # json_escape text @ quote # rest) = Some (sanitize_utf8 text, rest)"
proof -
  obtain vs where vs: "sanitize_utf8 text = concat (map utf8 vs)" "list_all scalar_value vs"
    using sanitize_clean [of "\<lambda>_. True" "text"] by (auto simp: sanitize_utf8_def)
  have "json_consume quote (quote # json_escape text @ quote # rest) = Some (json_escape text @ quote # rest)"
    by (simp add: json_consume_def json_whitespace_def is_json_space_def)
  then show ?thesis
    using string_loop_escaped [OF vs(2), of "[]" rest] assms vs(1) by (simp add: json_string_def json_escape_def)
qed

lemma short_text_sanitized: "sanitize_utf8 [quote, CHR 0x01] = [quote, CHR 0x01]"
proof -
  have "char_of (of_char quote :: nat) = quote" "char_of (of_char (CHR 0x01) :: nat) = CHR 0x01" by (rule char_of_char)+
  then have "concat (map utf8 [0x22, 0x01]) = [quote, CHR 0x01]" by (simp add: utf8_ascii)
  then show ?thesis
    using sanitize_from_identity [of 0 "[quote, CHR 0x01]" "[0x22, 0x01]" "\<lambda>_. True"]
    by (simp add: sanitize_utf8_def sanitize_def scalar_value_def)
qed

theorem json_text_round_trip_witness:
  "json_string (quote # json_escape [quote, CHR 0x01] @ [quote]) = Some ([quote, CHR 0x01], [])"
  using json_text_round_trip [of "[quote, CHR 0x01]" "[]"] by (simp add: short_text_sanitized)

section \<open>The nodes of a document\<close>

text \<open>
  What the list of nodes is at every moment: every node but the first has its parent before it,
  parents are objects or arrays, and the keys of an object are distinct.
\<close>

definition json_nodes_ok :: "json_node list \<Rightarrow> bool" where
  "json_nodes_ok nodes \<longleftrightarrow>
     length nodes \<le> 512 \<and>
     (\<forall>i < length nodes. case jn_parent (nodes ! i) of
        None \<Rightarrow> i = 0
      | Some p \<Rightarrow> p < i \<and> jn_kind (nodes ! p) \<in> {JsonObject, JsonArray}) \<and>
     (\<forall>i < length nodes. \<forall>j < length nodes. \<forall>p. jn_parent (nodes ! i) = Some p \<and> jn_parent (nodes ! j) = Some p \<and>
        jn_kind (nodes ! p) = JsonObject \<and> jn_key (nodes ! i) = jn_key (nodes ! j) \<longrightarrow> i = j)"

text \<open>What reading a value does to the list: it grows, and what was there stays, and only the first new node is a child of an old one.\<close>

definition json_grown :: "nat option \<Rightarrow> string \<Rightarrow> json_node list \<Rightarrow> json_node list \<Rightarrow> bool" where
  "json_grown parent k nodes nodes' \<longleftrightarrow>
     json_nodes_ok nodes' \<and> length nodes < length nodes' \<and> take (length nodes) nodes' = nodes \<and>
     jn_parent (nodes' ! length nodes) = parent \<and> jn_key (nodes' ! length nodes) = k \<and>
     (\<forall>i. length nodes < i \<and> i < length nodes' \<longrightarrow> (\<exists>p \<ge> length nodes. jn_parent (nodes' ! i) = Some p))"

definition json_room :: "nat option \<Rightarrow> string \<Rightarrow> json_node list \<Rightarrow> bool" where
  "json_room parent k nodes \<longleftrightarrow> json_nodes_ok nodes \<and>
     (case parent of
        None \<Rightarrow> nodes = []
      | Some p \<Rightarrow> p < length nodes \<and> jn_kind (nodes ! p) \<in> {JsonObject, JsonArray} \<and>
          (jn_kind (nodes ! p) = JsonObject \<longrightarrow> json_member nodes p k = None))"

lemma json_member_None:
  "json_member nodes p k = None \<longleftrightarrow> (\<forall>i < length nodes. \<not> (jn_parent (nodes ! i) = Some p \<and> jn_key (nodes ! i) = k))"
  unfolding json_member_def find_None_iff by auto

lemma nodes_ok_append:
  assumes "json_room parent k nodes" and "length nodes < 512" and "jn_parent n = parent" and "jn_key n = k"
  shows "json_nodes_ok (nodes @ [n])"
proof -
  have ok: "json_nodes_ok nodes" using assms(1) by (simp add: json_room_def)
  have parents: "case jn_parent ((nodes @ [n]) ! i) of
      None \<Rightarrow> i = 0 | Some p \<Rightarrow> p < i \<and> jn_kind ((nodes @ [n]) ! p) \<in> {JsonObject, JsonArray}"
    if "i < length (nodes @ [n])" for i
  proof (cases "i < length nodes")
    case True
    then show ?thesis using ok by (auto simp: json_nodes_ok_def nth_append split: option.splits)
  next
    case False
    then show ?thesis using assms that by (auto simp: json_room_def nth_append split: option.splits)
  qed
  have old: "p < length nodes" if "jn_parent (nodes ! i) = Some p" "i < length nodes" for i p
    using ok that by (fastforce simp: json_nodes_ok_def)
  have keys: "i = j" if "i < length (nodes @ [n])" "j < length (nodes @ [n])" "jn_parent ((nodes @ [n]) ! i) = Some p"
    "jn_parent ((nodes @ [n]) ! j) = Some p" "jn_kind ((nodes @ [n]) ! p) = JsonObject"
    "jn_key ((nodes @ [n]) ! i) = jn_key ((nodes @ [n]) ! j)" for i j p
  proof -
    have fresh: False if "a < length nodes" "jn_parent (nodes ! a) = Some p" "jn_key (nodes ! a) = k" "parent = Some p"
      "jn_kind ((nodes @ [n]) ! p) = JsonObject" for a
      using assms(1) that by (auto simp: json_room_def json_member_None nth_append)
    have "i \<le> length nodes" "j \<le> length nodes" using that(1,2) by simp_all
    then consider "i < length nodes" "j < length nodes" | "i < length nodes" "j = length nodes" | "i = length nodes" "j < length nodes"
      | "i = length nodes" "j = length nodes" by (auto simp: le_less)
    then show ?thesis
    proof cases
      case 1
      then have p: "jn_parent (nodes ! i) = Some p" "jn_parent (nodes ! j) = Some p" "jn_key (nodes ! i) = jn_key (nodes ! j)"
        using that by (simp_all add: nth_append)
      then have "jn_kind (nodes ! p) = JsonObject" using that(5) old [OF p(1) 1(1)] by (simp add: nth_append)
      then show ?thesis using 1 ok p unfolding json_nodes_ok_def by blast
    next
      case 2
      then show ?thesis using fresh [of i] that assms by (simp add: nth_append)
    next
      case 3
      then show ?thesis using fresh [of j] that assms by (simp add: nth_append)
    qed simp
  qed
  show ?thesis unfolding json_nodes_ok_def using parents keys assms(2) by (intro conjI allI impI) simp_all
qed

text \<open>The decoded value of a string node is not looked at by any of this.\<close>

lemma nodes_ok_value: "json_nodes_ok (nodes[i := (nodes ! i)\<lparr>jn_value := t\<rparr>]) = json_nodes_ok nodes"
proof -
  have at_j: "nodes[i := n] ! j = (if j = i \<and> i < length nodes then n else nodes ! j)" for j n
    by (cases "i < length nodes") (auto simp: list_update_beyond)
  have "jn_parent (nodes[i := (nodes ! i)\<lparr>jn_value := t\<rparr>] ! j) = jn_parent (nodes ! j)"
    "jn_kind (nodes[i := (nodes ! i)\<lparr>jn_value := t\<rparr>] ! j) = jn_kind (nodes ! j)"
    "jn_key (nodes[i := (nodes ! i)\<lparr>jn_value := t\<rparr>] ! j) = jn_key (nodes ! j)" for j
    unfolding at_j by simp_all
  then show ?thesis by (simp only: json_nodes_ok_def length_list_update)
qed

definition json_sub :: "nat \<Rightarrow> json_node list \<Rightarrow> json_node list \<Rightarrow> bool" where
  "json_sub i nodes nodes' \<longleftrightarrow>
     json_nodes_ok nodes' \<and> length nodes \<le> length nodes' \<and> take (length nodes) nodes' = nodes \<and>
     (\<forall>j. length nodes \<le> j \<and> j < length nodes' \<longrightarrow> (\<exists>p \<ge> i. jn_parent (nodes' ! j) = Some p))"

lemma json_sub_trans:
  assumes "json_sub i nodes nodes1" and "json_sub i nodes1 nodes2"
  shows "json_sub i nodes nodes2"
proof -
  have "take (length nodes) nodes2 = take (length nodes) (take (length nodes1) nodes2)"
    using assms(1) by (simp add: json_sub_def min_def)
  also have "\<dots> = nodes" using assms by (simp add: json_sub_def)
  finally have t: "take (length nodes) nodes2 = nodes" .
  have "\<exists>p \<ge> i. jn_parent (nodes2 ! j) = Some p" if "length nodes \<le> j" "j < length nodes2" for j
  proof (cases "j < length nodes1")
    case True
    then have "nodes2 ! j = nodes1 ! j" using assms(2) by (metis json_sub_def nth_take)
    then show ?thesis using True assms(1) that by (simp add: json_sub_def)
  next
    case False
    then show ?thesis using assms(2) that by (simp add: json_sub_def)
  qed
  then show ?thesis using t assms unfolding json_sub_def by (meson order.trans)
qed

lemma json_grown_sub:
  assumes "json_grown (Some i) k nodes nodes'" and "i \<le> length nodes"
  shows "json_sub i nodes nodes'"
proof -
  have "\<exists>p \<ge> i. jn_parent (nodes' ! j) = Some p" if "length nodes \<le> j" "j < length nodes'" for j
  proof (cases "j = length nodes")
    case False
    then have "\<exists>p \<ge> length nodes. jn_parent (nodes' ! j) = Some p"
      using assms(1) that unfolding json_grown_def by (metis le_neq_implies_less)
    then obtain p where "p \<ge> length nodes" "jn_parent (nodes' ! j) = Some p" by blast
    then show ?thesis using assms(2) by auto
  qed (use assms in \<open>simp add: json_grown_def\<close>)
  then show ?thesis using assms(1) by (simp add: json_grown_def json_sub_def)
qed

lemma elements_sub:
  assumes "\<And>parent k rest nodes rest' nodes'. json_room parent k nodes \<Longrightarrow>
      read_value parent k (rest, nodes) = Some (rest', nodes') \<Longrightarrow> json_grown parent k nodes nodes'"
    and "json_elements read_value kind i n (rest, nodes) = Some (rest', nodes')"
    and "json_nodes_ok nodes" and "i < length nodes" and "jn_kind (nodes ! i) = kind" and "kind \<in> {JsonObject, JsonArray}"
  shows "json_sub i nodes nodes'"
  using assms(2-)
proof (induction n arbitrary: rest nodes)
  case (Suc n)
  obtain k rest2 where k: "json_child_key kind i (rest, nodes) = Some (k, rest2)"
    using Suc.prems(1) by (simp split: option.splits prod.splits)
  obtain rest3 nodes3 where v: "read_value (Some i) k (rest2, nodes) = Some (rest3, nodes3)"
    using Suc.prems(1) unfolding json_elements.simps k by (auto split: option.splits)
  have "json_room (Some i) k nodes"
    using Suc.prems k by (auto simp: json_room_def json_child_key_def split: option.splits if_splits)
  from json_grown_sub [OF assms(1) [OF this v]] have sub: "json_sub i nodes nodes3" using Suc.prems(3) by simp
  have next_ok: "json_nodes_ok nodes3" "i < length nodes3" using sub Suc.prems(3) by (auto simp: json_sub_def)
  have "nodes3 ! i = nodes ! i" using sub Suc.prems(3) by (metis json_sub_def nth_take)
  then have kind3: "jn_kind (nodes3 ! i) = kind" using Suc.prems(4) by simp
  show ?case
  proof (cases "json_consume (CHR '','') rest3")
    case None
    then have "nodes' = nodes3" using Suc.prems(1) unfolding json_elements.simps k option.case prod.case v by auto
    then show ?thesis using sub by simp
  next
    case (Some rest4)
    then have "json_elements read_value kind i n (rest4, nodes3) = Some (rest', nodes')"
      using Suc.prems(1) unfolding json_elements.simps k option.case prod.case v by simp
    from json_sub_trans [OF sub Suc.IH [OF this next_ok kind3 Suc.prems(5)]] show ?thesis .
  qed
qed simp

lemma value_grown:
  "json_room parent k nodes \<Longrightarrow> json_value depth parent k (rest, nodes) = Some (rest', nodes') \<Longrightarrow>
     json_grown parent k nodes nodes'"
proof (induction depth arbitrary: parent k rest nodes rest' nodes')
  case (Suc depth)
  obtain c cs where c: "json_whitespace rest = c # cs" using Suc.prems(2) by (auto split: list.splits)
  have small: "length nodes < 512" using Suc.prems(2) c by (auto split: if_splits)
  define kind where "kind = json_kind_of c"
  define new where "new = \<lparr>jn_kind = kind, jn_parent = parent, jn_key = k, jn_value = []\<rparr>"
  have ok: "json_nodes_ok (nodes @ [new])" by (rule nodes_ok_append [OF Suc.prems(1) small]) (simp_all add: new_def)
  have one: "json_grown parent k nodes (nodes @ [new\<lparr>jn_value := t\<rparr>])" for t
    using ok nodes_ok_value [of "nodes @ [new]" "length nodes" t] by (auto simp: json_grown_def new_def)
  have eq: "(if kind = JsonString then
         (case json_string (c # cs) of
            None \<Rightarrow> None
          | Some (t, rest1) \<Rightarrow> Some (rest1, (nodes @ [new])[length nodes := ((nodes @ [new]) ! length nodes)\<lparr>jn_value := t\<rparr>]))
       else if kind = JsonScalar then map_option (\<lambda>r. (r, nodes @ [new])) (json_literal (c # cs))
       else
         (case json_consume (if kind = JsonObject then CHR ''}'' else CHR '']'') cs of
            Some rest1 \<Rightarrow> Some (rest1, nodes @ [new])
          | None \<Rightarrow> json_elements (json_value depth) kind (length nodes) 512 (cs, nodes @ [new]))) = Some (rest', nodes')"
    unfolding kind_def new_def using Suc.prems(2) small c by (simp add: Let_def)
  consider t where "nodes' = nodes @ [new\<lparr>jn_value := t\<rparr>]" | "nodes' = nodes @ [new]"
    | "kind \<in> {JsonObject, JsonArray}" "json_elements (json_value depth) kind (length nodes) 512 (cs, nodes @ [new]) = Some (rest', nodes')"
  proof (cases kind)
    case JsonString
    then show ?thesis using eq that(1) by (auto split: option.splits)
  qed (use eq that in \<open>auto split: option.splits\<close>)
  then show ?case
  proof cases
    case 2
    then show ?thesis using one [of "[]"] by (simp add: new_def)
  next
    case 3
    have "json_sub (length nodes) (nodes @ [new]) nodes'"
      by (rule elements_sub [OF Suc.IH 3(2) ok]) (use 3(1) in \<open>simp_all add: new_def\<close>)
    then have sub: "json_nodes_ok nodes'" "Suc (length nodes) \<le> length nodes'" "take (Suc (length nodes)) nodes' = nodes @ [new]"
      "\<And>j. Suc (length nodes) \<le> j \<Longrightarrow> j < length nodes' \<Longrightarrow> \<exists>p \<ge> length nodes. jn_parent (nodes' ! j) = Some p"
      by (auto simp: json_sub_def)
    have "nodes' ! length nodes = new" using sub(3) by (metis lessI nth_append_length nth_take)
    moreover have "take (length nodes) nodes' = nodes"
      using sub(3) by (metis append_eq_conv_conj append_take_drop_id append.assoc length_take min.absorb2 sub(2) Suc_leD take_Suc)
    ultimately show ?thesis using sub by (auto simp: json_grown_def new_def)
  qed (use one in simp)
qed simp

text \<open>The bound on the loop over members is never reached.\<close>

lemma value_full: "512 \<le> length nodes \<Longrightarrow> json_value depth parent k (rest, nodes) = None"
  by (cases depth) (simp_all split: list.splits)

lemma elements_full:
  assumes "\<And>k r. read_value (Some i) k (r, nodes) = None"
  shows "json_elements read_value kind i n (rest, nodes) = None"
  by (cases n) (simp_all add: assms split: option.splits)

lemma elements_enough:
  assumes "\<And>parent k rest nodes rest' nodes'. read_value parent k (rest, nodes) = Some (rest', nodes') \<Longrightarrow>
      length nodes < 512 \<and> length nodes < length nodes'"
    and "512 < n + length nodes" and "512 < m + length nodes"
  shows "json_elements read_value kind i n (rest, nodes) = json_elements read_value kind i m (rest, nodes)"
  using assms(2,3)
proof (induction n arbitrary: m rest nodes)
  case 0
  have "read_value (Some i) k (r, nodes) = None" for k r
    using assms(1) [of "Some i" k r nodes] 0(1) by (cases "read_value (Some i) k (r, nodes)") force+
  then show ?case by (simp only: elements_full)
next
  case (Suc n)
  show ?case
  proof (cases m)
    case 0
    have "read_value (Some i) k (r, nodes) = None" for k r
      using assms(1) [of "Some i" k r nodes] Suc.prems 0 by (cases "read_value (Some i) k (r, nodes)") force+
    then show ?thesis by (simp only: elements_full)
  next
    case m: (Suc m')
    have "json_elements read_value kind i n (rest4, nodes3) = json_elements read_value kind i m' (rest4, nodes3)"
      if "read_value (Some i) k (rest2, nodes) = Some (rest3, nodes3)" for k rest2 rest3 rest4 nodes3
      using assms(1) [OF that] Suc.prems m by (intro Suc.IH) linarith+
    then show ?thesis unfolding m json_elements.simps by (auto split: option.splits)
  qed
qed

lemma elements_longer:
  assumes "\<And>parent k rest nodes rest' nodes'. read_value parent k (rest, nodes) = Some (rest', nodes') \<Longrightarrow> length nodes < length nodes'"
  shows "json_elements read_value kind i n (rest, nodes) = Some (rest', nodes') \<Longrightarrow> length nodes < length nodes'"
proof (induction n arbitrary: rest nodes)
  case (Suc n)
  then obtain k rest2 where k: "json_child_key kind i (rest, nodes) = Some (k, rest2)"
    by (simp split: option.splits prod.splits)
  obtain rest3 nodes3 where v: "read_value (Some i) k (rest2, nodes) = Some (rest3, nodes3)"
    using Suc.prems unfolding json_elements.simps k by (auto split: option.splits)
  show ?case
    using Suc.prems assms [OF v] Suc.IH [of _ nodes3] unfolding json_elements.simps k option.case prod.case v
    by (fastforce split: option.splits)
qed simp

lemma value_longer: "json_value depth parent k (rest, nodes) = Some (rest', nodes') \<Longrightarrow> length nodes < length nodes'"
proof (induction depth arbitrary: parent k rest nodes rest' nodes')
  case (Suc depth)
  then show ?case
    using elements_longer [of "json_value depth"]
    by (fastforce simp: Let_def split: list.splits if_splits option.splits)
qed simp

lemma json_bound_suffices:
  assumes "nodes \<noteq> []" and "512 < n + length nodes"
  shows "json_elements (json_value depth) kind i 512 (rest, nodes) = json_elements (json_value depth) kind i n (rest, nodes)"
proof (rule elements_enough)
  show "length nodes < 512 \<and> length nodes < length nodes'"
    if "json_value depth parent k (rest, nodes) = Some (rest', nodes')" for parent k rest nodes rest' nodes'
    using value_longer [OF that] value_full [of nodes depth parent k rest] that by (cases "length nodes < 512") auto
qed (use assms in \<open>simp_all add: Suc_le_eq\<close>)

lemma member_key_unique:
  "json_nodes_ok nodes \<Longrightarrow> i < length nodes \<Longrightarrow> j < length nodes \<Longrightarrow> jn_parent (nodes ! i) = Some p \<Longrightarrow>
     jn_parent (nodes ! j) = Some p \<Longrightarrow> jn_kind (nodes ! p) = JsonObject \<Longrightarrow> jn_key (nodes ! i) = jn_key (nodes ! j) \<Longrightarrow> i = j"
  unfolding json_nodes_ok_def by blast

lemma member_found:
  assumes "json_member nodes p k = Some j"
  shows "j < length nodes \<and> jn_parent (nodes ! j) = Some p \<and> jn_key (nodes ! j) = k"
proof -
  have "x \<in> set xs \<and> P x" if "find P xs = Some x" for P :: "nat \<Rightarrow> bool" and xs x
    using that by (induction xs) (auto split: if_splits)
  from this [OF assms [unfolded json_member_def]] show ?thesis by simp
qed

text \<open>
  Property C33. A document the JSON reader accepts gives at most 512 nodes, of which the first is
  an object without parent; every other one has an earlier object or array as its parent, and no
  two members of one object have the same decoded key, so that a lookup of a member has one
  answer.
\<close>

theorem json_document_sound:
  assumes "json_read input = Some nodes"
  shows "0 < length nodes \<and> length nodes \<le> 512 \<and> jn_kind (nodes ! 0) = JsonObject \<and> jn_parent (nodes ! 0) = None \<and>
    (\<forall>i. 0 < i \<and> i < length nodes \<longrightarrow>
       (\<exists>p < i. jn_parent (nodes ! i) = Some p \<and> jn_kind (nodes ! p) \<in> {JsonObject, JsonArray})) \<and>
    (\<forall>i p. i < length nodes \<and> jn_parent (nodes ! i) = Some p \<and> jn_kind (nodes ! p) = JsonObject \<longrightarrow>
       json_member nodes p (jn_key (nodes ! i)) = Some i)"
proof -
  obtain rest where v: "json_value 17 None [] (input, []) = Some (rest, nodes)" and k: "jn_kind (hd nodes) = JsonObject" "nodes \<noteq> []"
    using assms by (auto simp: json_read_def split: option.splits if_splits)
  have "json_room None [] []" by (simp add: json_room_def json_nodes_ok_def)
  from value_grown [OF this v] have g: "json_nodes_ok nodes" "jn_parent (nodes ! 0) = None"
    by (simp_all add: json_grown_def)
  have parent: "\<exists>p < i. jn_parent (nodes ! i) = Some p \<and> jn_kind (nodes ! p) \<in> {JsonObject, JsonArray}"
    if "0 < i" "i < length nodes" for i
    using g(1) that unfolding json_nodes_ok_def by (cases "jn_parent (nodes ! i)") fastforce+
  have member: "json_member nodes p (jn_key (nodes ! i)) = Some i"
    if i: "i < length nodes" "jn_parent (nodes ! i) = Some p" "jn_kind (nodes ! p) = JsonObject" for i p
  proof -
    have "json_member nodes p (jn_key (nodes ! i)) \<noteq> None" using i by (auto simp: json_member_None)
    then obtain j where j: "json_member nodes p (jn_key (nodes ! i)) = Some j" by blast
    then have "j = i" using member_found [OF j] i by (intro member_key_unique [OF g(1)]) simp_all
    then show ?thesis using j by simp
  qed
  have "0 < length nodes" "length nodes \<le> 512" "jn_kind (nodes ! 0) = JsonObject"
    using g(1) k by (simp_all add: json_nodes_ok_def hd_conv_nth)
  moreover have "\<forall>i. 0 < i \<and> i < length nodes \<longrightarrow>
      (\<exists>p < i. jn_parent (nodes ! i) = Some p \<and> jn_kind (nodes ! p) \<in> {JsonObject, JsonArray})"
    by (intro allI impI parent) simp_all
  moreover have "\<forall>i p. i < length nodes \<and> jn_parent (nodes ! i) = Some p \<and> jn_kind (nodes ! p) = JsonObject \<longrightarrow>
      json_member nodes p (jn_key (nodes ! i)) = Some i"
    by (intro allI impI member) simp_all
  ultimately show ?thesis using g(2) by (intro conjI)
qed

theorem json_document_sound_witness:
  "\<exists>nodes. json_read ''{}'' = Some nodes \<and> jn_kind (nodes ! 0) = JsonObject \<and> length nodes \<le> 512"
proof -
  have "json_read ''{}'' \<noteq> None"
    by (simp add: json_read_def json_whitespace_def is_json_space_def json_consume_def json_kind_of_def eval_nat_numeral Let_def)
  then obtain nodes where "json_read ''{}'' = Some nodes" by blast
  with json_document_sound [OF this] show ?thesis by blast
qed

end
