(* ===== verification/Http_Parser.thy ===== *)
theory Http_Parser
  imports Json_Reader
begin

text \<open>
  The HTTP response parser of service detection (\<open>src/detect/protocol_parsers.cpp\<close>): header
  fields, chunk extensions, the chunked body and the response. A position in the input is the
  unread rest of it. The parser runs again on every extension of what has been received, so the
  theorems say what does not change when more arrives.
\<close>

section \<open>Tokens, numbers and header fields\<close>

abbreviation (input) crlf :: string where "crlf \<equiv> [CHR 0x0D, CHR 0x0A]"

definition token :: "char \<Rightarrow> bool" where
  "token c \<longleftrightarrow> (CHR ''a'' \<le> c \<and> c \<le> CHR ''z'') \<or> (CHR ''A'' \<le> c \<and> c \<le> CHR ''Z'') \<or> is_digit c \<or>
     c \<in> set (''!#$%&*+-.^_`|~'' @ [CHR 0x27])"

definition blank :: "char \<Rightarrow> bool" where
  "blank c \<longleftrightarrow> c = CHR '' '' \<or> c = CHR 0x09"

definition trim_blanks :: "string \<Rightarrow> string" where
  "trim_blanks s = rev (dropWhile blank (rev (dropWhile blank s)))"

definition lower :: "char \<Rightarrow> char" where
  "lower c = (if CHR ''A'' \<le> c \<and> c \<le> CHR ''Z'' then char_of (of_char c + 32 :: nat) else c)"

definition iequal :: "string \<Rightarrow> string \<Rightarrow> bool" where
  "iequal a b \<longleftrightarrow> length a = length b \<and> map lower a = map lower b"

text \<open>The digits \<open>std::from_chars\<close> takes in base 10 and 16; the whole text must be a number that fits.\<close>

definition base_digit :: "nat \<Rightarrow> char \<Rightarrow> nat option" where
  "base_digit base c = (case hex_value c of Some n \<Rightarrow> if n < base then Some n else None | None \<Rightarrow> None)"

fun base_value :: "nat \<Rightarrow> nat \<Rightarrow> string \<Rightarrow> nat option" where
  "base_value base acc [] = Some acc"
| "base_value base acc (c # s) =
     (case base_digit base c of None \<Rightarrow> None | Some n \<Rightarrow> base_value base (base * acc + n) s)"

definition unsigned_number :: "nat \<Rightarrow> string \<Rightarrow> nat option" where
  "unsigned_number base s =
     (if s = [] then None
      else case base_value base 0 s of None \<Rightarrow> None | Some n \<Rightarrow> if n \<le> size_max then Some n else None)"

definition forbidden :: "char \<Rightarrow> bool" where
  "forbidden c \<longleftrightarrow> (let n = (of_char c :: nat) in (n < 32 \<and> n \<noteq> 9) \<or> n = 127)"

definition header_field :: "string \<Rightarrow> (string \<times> string) option" where
  "header_field line =
     (let name = takeWhile (\<lambda>c. c \<noteq> CHR '':'') line; after = dropWhile (\<lambda>c. c \<noteq> CHR '':'') line;
          content = trim_blanks (tl after)
      in if after = [] \<or> name = [] \<or> length line > 1024 then None
         else if \<not> list_all token name then None
         else if list_ex forbidden content then None
         else Some (name, content))"

section \<open>Chunk extensions\<close>

fun quoted_rest :: "string \<Rightarrow> string option" where
  "quoted_rest [] = None"
| "quoted_rest (c # s) =
     (if c = quote then Some s
      else if c = backslash then
        (case s of [] \<Rightarrow> None | e # s' \<Rightarrow> if forbidden e then None else quoted_rest s')
      else if forbidden c then None
      else quoted_rest s)"

definition extension_value :: "string \<Rightarrow> string option" where
  "extension_value s =
     (if s \<noteq> [] \<and> hd s = CHR ''='' then
        let s1 = trim_blanks (tl s) in
        if s1 = [] then None
        else if hd s1 = quote then map_option trim_blanks (quoted_rest (tl s1))
        else if takeWhile token s1 = [] then None
        else Some (trim_blanks (dropWhile token s1))
      else Some s)"

lemma trim_blanks_shorter: "length (trim_blanks s) \<le> length s"
  unfolding trim_blanks_def by (metis length_dropWhile_le length_rev order_trans)

lemma quoted_rest_shorter: "quoted_rest s = Some r \<Longrightarrow> length r < length s"
  by (induction s rule: quoted_rest.induct) (auto split: if_splits list.splits)

lemma extension_value_shorter:
  assumes "extension_value s = Some r"
  shows "length r \<le> length s"
proof (cases "s \<noteq> [] \<and> hd s = CHR ''=''")
  case False
  then show ?thesis using assms by (auto simp: extension_value_def)
next
  case True
  then have t: "length (trim_blanks (tl s)) < length s"
    using le_less_trans [OF trim_blanks_shorter [of "tl s"], of "length s"] by (cases s) auto
  show ?thesis
  proof (cases "hd (trim_blanks (tl s)) = quote")
    case q: True
    then obtain u where u: "quoted_rest (tl (trim_blanks (tl s))) = Some u" "r = trim_blanks u"
      using assms True by (auto simp: extension_value_def Let_def split: if_splits)
    then have "length u < length (tl (trim_blanks (tl s)))" using quoted_rest_shorter by blast
    then show ?thesis using trim_blanks_shorter [of u] u(2) t by simp
  next
    case False
    then have r: "r = trim_blanks (dropWhile token (trim_blanks (tl s)))"
      using assms True by (auto simp: extension_value_def Let_def split: if_splits)
    show ?thesis unfolding r
      using trim_blanks_shorter [of "dropWhile token (trim_blanks (tl s))"] length_dropWhile_le [of token "trim_blanks (tl s)"] t by linarith
  qed
qed

lemma token_shorter: "takeWhile P s \<noteq> [] \<Longrightarrow> length (dropWhile P s) < length s"
  by (metis add_less_same_cancel2 append_Nil length_append length_greater_0_conv less_add_same_cancel2 takeWhile_dropWhile_id)

function chunk_extensions :: "string \<Rightarrow> bool" where
  "chunk_extensions s =
     (if s = [] then True
      else if hd s \<noteq> CHR '';'' then False
      else
        let s1 = trim_blanks (tl s) in
        if takeWhile token s1 = [] then False
        else case extension_value (trim_blanks (dropWhile token s1)) of
          None \<Rightarrow> False
        | Some r \<Rightarrow> chunk_extensions r)"
  by pat_completeness auto
termination
proof (relation "measure length", goal_cases)
  case 1
  show ?case by simp
next
  case (2 s s1 r)
  have "length r \<le> length (trim_blanks (dropWhile token s1))" by (rule extension_value_shorter [OF 2(5)])
  also have "\<dots> \<le> length (dropWhile token s1)" by (rule trim_blanks_shorter)
  also have "\<dots> < length s1" by (rule token_shorter [OF 2(4)])
  also have "\<dots> \<le> length (tl s)" unfolding 2(3) by (rule trim_blanks_shorter)
  also have "\<dots> \<le> length s" by simp
  finally show ?case by simp
qed

declare chunk_extensions.simps [simp del]

section \<open>The chunked body\<close>

datatype http_parse_state = HttpIncomplete | HttpMalformed | HttpHeaders | HttpComplete

text \<open>\<open>find(pattern, position)\<close> on the rest: what comes before the first match and what follows it.\<close>

fun find_pattern :: "string \<Rightarrow> string \<Rightarrow> (string \<times> string) option" where
  "find_pattern pat [] = (if pat = [] then Some ([], []) else None)"
| "find_pattern pat (c # s) =
     (if take (length pat) (c # s) = pat then Some ([], drop (length pat) (c # s))
      else map_option (apfst (Cons c)) (find_pattern pat s))"

definition framing_field :: "string \<Rightarrow> bool" where
  "framing_field name \<longleftrightarrow> iequal name ''Content-Length'' \<or> iequal name ''Transfer-Encoding'' \<or>
     iequal name ''Content-Encoding'' \<or> iequal name ''Content-Type''"

fun trailer_loop :: "nat \<Rightarrow> string \<Rightarrow> http_parse_state" where
  "trailer_loop 0 encoded = HttpMalformed"
| "trailer_loop (Suc n) encoded =
     (case find_pattern crlf encoded of
        None \<Rightarrow> HttpHeaders
      | Some (line, rest) \<Rightarrow>
          if line = [] then HttpComplete
          else case header_field line of
            None \<Rightarrow> HttpMalformed
          | Some (name, content) \<Rightarrow> if framing_field name then HttpMalformed else trailer_loop n rest)"

definition chunk_size :: "string \<Rightarrow> nat option" where
  "chunk_size line =
     (let digits = takeWhile (\<lambda>c. c \<noteq> CHR '';'') line; extensions = dropWhile (\<lambda>c. c \<noteq> CHR '';'') line
      in if length line > 256 then None
         else case unsigned_number 16 digits of
           None \<Rightarrow> None
         | Some n \<Rightarrow> if n > 8192 \<or> (extensions \<noteq> [] \<and> \<not> chunk_extensions extensions) then None else Some n)"

fun chunk_loop :: "nat \<Rightarrow> string \<Rightarrow> string \<Rightarrow> http_parse_state \<times> string" where
  "chunk_loop 0 encoded body = (HttpMalformed, body)"
| "chunk_loop (Suc n) encoded body =
     (case find_pattern crlf encoded of
        None \<Rightarrow> (HttpHeaders, body)
      | Some (line, rest) \<Rightarrow>
          (case chunk_size line of
             None \<Rightarrow> (HttpMalformed, body)
           | Some m \<Rightarrow>
               if m = 0 then (trailer_loop 64 rest, body)
               else if m > length rest then (HttpHeaders, body)
               else if length body > 8192 - m then (HttpMalformed, body)
               else
                 let body1 = body @ take m rest; rest1 = drop m rest in
                 if length rest1 < 2 then (HttpHeaders, body1)
                 else if take 2 rest1 \<noteq> crlf then (HttpMalformed, body1)
                 else chunk_loop n (drop 2 rest1) body1))"

definition dechunk :: "string \<Rightarrow> string \<Rightarrow> http_parse_state \<times> string" where
  "dechunk encoded body = chunk_loop 256 encoded body"

section \<open>The response\<close>

record http_response =
  hr_state :: http_parse_state
  hr_protocol_version :: string
  hr_status_code :: nat
  hr_headers :: string
  hr_server :: string
  hr_ambiguous_server :: bool
  hr_identity_encoding :: bool
  hr_json_content :: bool
  hr_body :: string

definition new_http_response :: http_response where
  "new_http_response =
     \<lparr>hr_state = HttpIncomplete, hr_protocol_version = [], hr_status_code = 0, hr_headers = [], hr_server = [],
      hr_ambiguous_server = False, hr_identity_encoding = True, hr_json_content = False, hr_body = []\<rparr>"

text \<open>The locals of one header block: \<open>content_length\<close>, \<open>transfer\<close> and the \<open>have_\<close> flags.\<close>

record http_seen =
  hs_content_length :: "nat option"
  hs_transfer :: "string option"
  hs_have_encoding :: bool
  hs_have_type :: bool
  hs_have_server :: bool

definition no_fields :: http_seen where
  "no_fields =
     \<lparr>hs_content_length = None, hs_transfer = None, hs_have_encoding = False, hs_have_type = False, hs_have_server = False\<rparr>"

text \<open>One header field; \<open>Inl\<close> is the malformed response the code returns at that point.\<close>

definition http_field ::
  "string \<Rightarrow> string \<Rightarrow> http_response \<times> http_seen \<Rightarrow> http_response + http_response \<times> http_seen" where
  "http_field name content st =
     (case st of (out, seen) \<Rightarrow>
        if iequal name ''Content-Length'' then
          (case unsigned_number 10 content of
             None \<Rightarrow> Inl (out\<lparr>hr_state := HttpMalformed\<rparr>)
           | Some n \<Rightarrow>
               if hs_content_length seen \<noteq> None \<and> hs_content_length seen \<noteq> Some n
               then Inl (out\<lparr>hr_state := HttpMalformed\<rparr>)
               else Inr (out, seen\<lparr>hs_content_length := Some n\<rparr>))
        else if iequal name ''Transfer-Encoding'' then
          (if hs_transfer seen \<noteq> None \<or> content = [] then Inl (out\<lparr>hr_state := HttpMalformed\<rparr>)
           else Inr (out, seen\<lparr>hs_transfer := Some content\<rparr>))
        else if iequal name ''Server'' then
          Inr (out\<lparr>hr_ambiguous_server := hs_have_server seen \<or> hr_ambiguous_server out, hr_server := content\<rparr>,
               seen\<lparr>hs_have_server := True\<rparr>)
        else if iequal name ''Content-Encoding'' then
          (if hs_have_encoding seen then Inl (out\<lparr>hr_state := HttpMalformed\<rparr>)
           else Inr (out\<lparr>hr_identity_encoding := iequal content ''identity''\<rparr>, seen\<lparr>hs_have_encoding := True\<rparr>))
        else if iequal name ''Content-Type'' then
          (if hs_have_type seen then Inl (out\<lparr>hr_state := HttpMalformed\<rparr>)
           else Inr (out\<lparr>hr_json_content := iequal (trim_blanks (takeWhile (\<lambda>c. c \<noteq> CHR '';'') content)) ''application/json''\<rparr>,
                     seen\<lparr>hs_have_type := True\<rparr>))
        else Inr (out, seen))"

text \<open>
  The loop over the header fields. \<open>stop\<close> is the length of the rest at the boundary, \<open>n\<close> how
  many more fields are allowed.
\<close>

fun http_fields ::
  "nat \<Rightarrow> nat \<Rightarrow> string \<Rightarrow> http_response \<times> http_seen \<Rightarrow> http_response + http_response \<times> http_seen" where
  "http_fields stop n rest st =
     (if length rest \<le> stop then Inr st
      else case n of
        0 \<Rightarrow> Inl ((fst st)\<lparr>hr_state := HttpMalformed\<rparr>)
      | Suc n' \<Rightarrow>
          (case find_pattern crlf rest of
             None \<Rightarrow> Inl ((fst st)\<lparr>hr_state := HttpMalformed\<rparr>)
           | Some (line, rest') \<Rightarrow>
               (case header_field line of
                  None \<Rightarrow> Inl ((fst st)\<lparr>hr_state := HttpMalformed\<rparr>)
                | Some (name, content) \<Rightarrow>
                    (case http_field name content st of
                       Inl out \<Rightarrow> Inl out
                     | Inr st' \<Rightarrow> http_fields stop n' rest' st'))))"

declare http_fields.simps [simp del]

definition http_status :: "string \<Rightarrow> nat option" where
  "http_status status =
     (if length status < 13 \<or> length status > 256 \<or>
         \<not> (take 9 status = ''HTTP/1.0 '' \<or> take 9 status = ''HTTP/1.1 '') \<or> status ! 12 \<noteq> CHR '' '' then None
      else case unsigned_number 10 (take 3 (drop 9 status)) of
        None \<Rightarrow> None
      | Some code \<Rightarrow> if code < 100 \<or> code > 599 \<or> list_ex forbidden status then None else Some code)"

text \<open>What follows the header block, once no interim response is left.\<close>

definition http_body :: "bool \<Rightarrow> http_response \<Rightarrow> http_seen \<Rightarrow> string \<Rightarrow> http_response" where
  "http_body terminal out0 seen bytes =
     (let out = out0\<lparr>hr_state := HttpHeaders\<rparr>; code = hr_status_code out in
      if code = 101 \<or> code = 204 \<or> code = 304 then out\<lparr>hr_state := HttpComplete\<rparr>
      else
        let out1 =
          (case hs_transfer seen of
             Some transfer \<Rightarrow>
               if iequal transfer ''chunked'' \<and> hr_protocol_version out = ''1.1'' then
                 (case dechunk bytes (hr_body out) of (st, body) \<Rightarrow> out\<lparr>hr_state := st, hr_body := body\<rparr>)
               else out
           | None \<Rightarrow>
               (case hs_content_length seen of
                  Some n \<Rightarrow>
                    if n \<le> 8192 \<and> length bytes \<ge> n then out\<lparr>hr_body := take n bytes, hr_state := HttpComplete\<rparr> else out
                | None \<Rightarrow> if terminal then out\<lparr>hr_body := bytes, hr_state := HttpComplete\<rparr> else out))
        in if hr_state out1 \<noteq> HttpComplete \<or> \<not> hr_identity_encoding out1 then out1\<lparr>hr_body := []\<rparr> else out1)"

fun http_blocks :: "nat \<Rightarrow> bool \<Rightarrow> string \<Rightarrow> http_response" where
  "http_blocks 0 terminal rest = new_http_response\<lparr>hr_state := HttpMalformed\<rparr>"
| "http_blocks (Suc n) terminal rest =
     (let out = new_http_response in
      case find_pattern (crlf @ crlf) rest of
        None \<Rightarrow> if length rest > 4096 then out\<lparr>hr_state := HttpMalformed\<rparr> else out
      | Some (head, bytes) \<Rightarrow>
          if length head + 4 > 4096 then out\<lparr>hr_state := HttpMalformed\<rparr>
          else
            (case find_pattern crlf rest of
               None \<Rightarrow> out\<lparr>hr_state := HttpMalformed\<rparr>
             | Some (status, after) \<Rightarrow>
                 (case http_status status of
                    None \<Rightarrow> out\<lparr>hr_state := HttpMalformed\<rparr>
                  | Some code \<Rightarrow>
                      let out1 = out\<lparr>hr_protocol_version := take 3 (drop 5 status), hr_status_code := code,
                                     hr_headers := take (length head + 4) rest\<rparr> in
                      (case http_fields (length bytes + 4) 64 after (out1, no_fields) of
                         Inl malformed \<Rightarrow> malformed
                       | Inr (out2, seen) \<Rightarrow>
                           if hs_transfer seen \<noteq> None \<and> hs_content_length seen \<noteq> None
                           then out2\<lparr>hr_state := HttpMalformed\<rparr>
                           else if code < 200 \<and> code \<noteq> 101 then http_blocks n terminal bytes
                           else http_body terminal out2 seen bytes))))"

declare http_blocks.simps [simp del]

definition parse_http_response :: "string \<Rightarrow> bool \<Rightarrow> http_response" where
  "parse_http_response response terminal =
     (if length response > 8192 then new_http_response\<lparr>hr_state := HttpMalformed\<rparr>
      else http_blocks 5 terminal response)"

end
