(* ===== verification/Http_Stability.thy ===== *)
theory Http_Stability
  imports Http_Parser
begin

text \<open>
  What the HTTP parser promises a caller that runs it again on every extension of what has been
  received: a final verdict stays, and a chunked body is decoded to what was encoded.
\<close>

section \<open>The first match\<close>






section \<open>More input does not change a verdict\<close>

definition final :: "http_parse_state \<Rightarrow> bool" where
  "final st \<longleftrightarrow> st = HttpMalformed \<or> st = HttpComplete"

lemma final_simps [simp]: "\<not> final HttpIncomplete" "\<not> final HttpHeaders" "final HttpMalformed" "final HttpComplete"
  by (simp_all add: final_def)









section \<open>Chunks\<close>

text \<open>The chunked coding of a list of chunks, without extensions or trailer fields.\<close>

text \<open>A number in a base up to 16, most significant digit first.\<close>

function base_text :: "nat \<Rightarrow> nat \<Rightarrow> string" where
  "base_text b n = (if b < 2 \<or> n < b then [hex_digit n] else base_text b (n div b) @ [hex_digit (n mod b)])"
  by pat_completeness auto
termination
  by (relation "measure snd") auto

declare base_text.simps [simp del]

definition chunked :: "string list \<Rightarrow> string" where
  "chunked chunks = concat (map (\<lambda>c. base_text 16 (length c) @ crlf @ c @ crlf) chunks) @ ''0'' @ crlf @ crlf"

lemma base_value_append:
  "base_value b acc (s @ u) = (case base_value b acc s of None \<Rightarrow> None | Some v \<Rightarrow> base_value b v u)"
  by (induction b acc s rule: base_value.induct) (auto split: option.splits)

lemma base_digit_hex: "m < b \<Longrightarrow> b \<le> 16 \<Longrightarrow> base_digit b (hex_digit m) = Some m"
  by (simp add: base_digit_def hex_digits_read)

lemma base_text_value:
  assumes "2 \<le> b" "b \<le> 16"
  shows "base_value b 0 (base_text b n) = Some n"
  using assms
proof (induction b n rule: base_text.induct)
  case (1 b n)
  then show ?case
    by (cases "n < b") (subst base_text.simps, simp add: base_digit_hex base_value_append)+
qed

definition number_char :: "char \<Rightarrow> bool" where
  "number_char c \<longleftrightarrow> base_digit 16 c \<noteq> None"

lemma base_text_chars:
  assumes "2 \<le> b" "b \<le> 16"
  shows "list_all number_char (base_text b n)"
  using assms
proof (induction b n rule: base_text.induct)
  case (1 b n)
  have d: "number_char (hex_digit m)" if "m < b" for m
    using that 1(3) base_digit_hex [of m 16] by (simp add: number_char_def)
  show ?case
    using 1 d [of n] d [of "n mod b"] by (subst base_text.simps) auto
qed

lemma number_char_plain: "number_char c \<Longrightarrow> c \<notin> {CHR '';'', CHR 0x0D, CHR 0x0A, CHR ''/'', CHR '','', CHR 0x7F} \<and> 32 \<le> (of_char c :: nat)"
  by (auto simp: number_char_def base_digit_def hex_value_def Let_def split: option.splits if_splits)

lemma base_text_short: "2 \<le> b \<Longrightarrow> n < b ^ Suc k \<Longrightarrow> length (base_text b n) \<le> Suc k"
proof (induction k arbitrary: n)
  case 0
  then show ?case by (subst base_text.simps) simp
next
  case (Suc k)
  then have "n div b < b ^ Suc k" by (simp add: less_mult_imp_div_less mult.commute)
  then show ?case using Suc by (subst base_text.simps) fastforce
qed

lemma base_text_nonempty: "base_text b n \<noteq> []"
  by (subst base_text.simps) simp

lemma unsigned_number_text: "2 \<le> b \<Longrightarrow> b \<le> 16 \<Longrightarrow> n \<le> size_max \<Longrightarrow> unsigned_number b (base_text b n) = Some n"
  by (simp add: unsigned_number_def base_text_nonempty base_text_value)

lemma split_crlf_plain: "CHR 0x0D \<notin> set line \<Longrightarrow> find_pattern crlf (line @ crlf @ rest) = Some (line, rest)"
  by (induction line) (auto simp: apfst_def)

lemma chunk_size_text:
  assumes "n \<le> 8192"
  shows "chunk_size (base_text 16 n) = Some n"
proof -
  have "\<forall>c\<in>set (base_text 16 n). c \<noteq> CHR '';''"
    using base_text_chars [of 16 n] number_char_plain by (fastforce simp: list_all_iff)
  then have plain: "takeWhile (\<lambda>c. c \<noteq> CHR '';'') (base_text 16 n) = base_text 16 n"
    "dropWhile (\<lambda>c. c \<noteq> CHR '';'') (base_text 16 n) = []"
    by simp_all
  have "length (base_text 16 n) \<le> 4" using base_text_short [of 16 n 3] assms by simp
  then show ?thesis
    using assms unsigned_number_text [of 16 n] by (simp add: chunk_size_def size_max_def Let_def plain)
qed

lemma chunk_loop_encoded:
  assumes "list_all (\<lambda>c. c \<noteq> []) chunks" and "length chunks < n" and "length (body @ concat chunks) \<le> 8192"
  shows "chunk_loop n (chunked chunks @ rest) body = (HttpComplete, body @ concat chunks)"
  using assms
proof (induction chunks arbitrary: n body)
  case Nil
  then obtain m where n: "n = Suc m" by (cases n) auto
  have t: "trailer_loop 64 (crlf @ rest) = HttpComplete" by (simp add: eval_nat_numeral)
  have "chunk_size ''0'' = Some 0" using chunk_size_text [of 0] by (simp add: base_text.simps hex_digit_def)
  then show ?case using split_crlf_plain [of "''0''" "crlf @ rest"] t by (simp add: n chunked_def)
next
  case (Cons c chunks)
  then obtain m where n: "n = Suc m" by (cases n) auto
  have "chunked (c # chunks) @ rest = base_text 16 (length c) @ crlf @ (c @ crlf @ chunked chunks @ rest)"
    by (simp add: chunked_def)
  moreover have "CHR 0x0D \<notin> set (base_text 16 (length c))" using base_text_chars [of 16 "length c"] number_char_plain by (fastforce simp: list_all_iff)
  ultimately have s: "find_pattern crlf (chunked (c # chunks) @ rest) = Some (base_text 16 (length c), c @ crlf @ chunked chunks @ rest)"
    by (metis split_crlf_plain)
  have "chunk_loop m (chunked chunks @ rest) (body @ c) = (HttpComplete, (body @ c) @ concat chunks)"
    using Cons n by (intro Cons.IH) auto
  then show ?case using Cons.prems s chunk_size_text [of "length c"] by (simp add: n Let_def)
qed

text \<open>
  A chunked body is decoded to the chunks it was made of, whatever follows it, for up
  to 255 chunks and 8,192 bytes; and as soon as the last byte of it has arrived.
\<close>

theorem chunked_round_trip:
  assumes "list_all (\<lambda>c. c \<noteq> []) chunks" and "length chunks < 256" and "length (concat chunks) \<le> 8192"
  shows "dechunk (chunked chunks @ rest) [] = (HttpComplete, concat chunks)"
  using chunk_loop_encoded [of chunks 256 "[]" rest] assms by (simp add: dechunk_def)

theorem chunked_round_trip_witness:
  "dechunk (chunked [''ab'', ''c''] @ ''HTTP'') [] = (HttpComplete, ''abc'')"
  using chunked_round_trip [of "[''ab'', ''c'']" "''HTTP''"] by simp

end
