(* ===== verification/Identity_Parsers.thy ===== *)
theory Identity_Parsers
  imports Http_Stability
begin

text \<open>
  The identity parsers of service detection (\<open>src/detect/protocol_parsers.cpp\<close>): version tokens,
  the root document of a search engine, and the answer of ZooKeeper to \<open>srvr\<close>.
\<close>

section \<open>Version tokens\<close>

definition version_part :: "string \<Rightarrow> string option" where
  "version_part s = (if takeWhile is_digit s = [] then None else Some (dropWhile is_digit s))"

definition version_dot :: "string \<Rightarrow> string option" where
  "version_dot s = (case s of [] \<Rightarrow> None | c # s' \<Rightarrow> if c = CHR ''.'' then Some s' else None)"

definition version_char :: "char \<Rightarrow> bool" where
  "version_char c \<longleftrightarrow> is_digit c \<or> (CHR ''a'' \<le> c \<and> c \<le> CHR ''z'') \<or> (CHR ''A'' \<le> c \<and> c \<le> CHR ''Z'') \<or>
     c \<in> set ''.-_+''"

fun version_parts :: "nat \<Rightarrow> string \<Rightarrow> string option" where
  "version_parts 0 s = Some s"
| "version_parts (Suc part) s =
     (case version_part s of
        None \<Rightarrow> None
      | Some s1 \<Rightarrow>
          if part = 0 then Some s1
          else case version_dot s1 of None \<Rightarrow> None | Some s2 \<Rightarrow> version_parts part s2)"

definition version_token :: "string \<Rightarrow> bool" where
  "version_token s =
     (if s = [] \<or> length s > 128 \<or> \<not> is_digit (hd s) then False
      else case version_parts 3 s of
        None \<Rightarrow> False
      | Some r \<Rightarrow>
          if r \<noteq> [] \<and> hd r \<noteq> CHR ''-'' \<and> hd r \<noteq> CHR ''+'' then False
          else if length r = 1 then False
          else list_all version_char r)"

section \<open>Search engines\<close>

record search_identity =
  si_service :: string
  si_product :: string
  si_version :: string

definition string_member :: "json_node list \<Rightarrow> nat \<Rightarrow> string \<Rightarrow> string option" where
  "string_member nodes parent k =
     (case json_member nodes parent k of
        None \<Rightarrow> None
      | Some i \<Rightarrow> if jn_kind (nodes ! i) = JsonString then Some (jn_value (nodes ! i)) else None)"

definition parse_search_identity :: "string \<Rightarrow> search_identity option" where
  "parse_search_identity body =
     (case json_read body of
        None \<Rightarrow> None
      | Some nodes \<Rightarrow>
          (case (string_member nodes 0 ''name'', string_member nodes 0 ''cluster_name'',
                 string_member nodes 0 ''tagline'', json_member nodes 0 ''version'') of
             (Some name, Some cluster, Some tagline, Some version) \<Rightarrow>
               if name = [] \<or> cluster = [] \<or> jn_kind (nodes ! version) \<noteq> JsonObject then None
               else
                 (case string_member nodes version ''number'' of
                    None \<Rightarrow> None
                  | Some number \<Rightarrow>
                      if \<not> version_token number then None
                      else if tagline = ''You Know, for Search'' \<and> json_member nodes version ''distribution'' = None
                      then Some \<lparr>si_service = ''elasticsearch'', si_product = ''Elasticsearch'', si_version = number\<rparr>
                      else if tagline = ''The OpenSearch Project: https://opensearch.org/'' \<and>
                        string_member nodes version ''distribution'' = Some ''opensearch''
                      then Some \<lparr>si_service = ''opensearch'', si_product = ''OpenSearch'', si_version = number\<rparr>
                      else None)
           | _ \<Rightarrow> None))"

section \<open>ZooKeeper\<close>

record zookeeper_identity =
  zk_version :: string
  zk_mode :: string

text \<open>The locals of the loop; the counters are the array of prefixes with their flags.\<close>

record zk_state =
  zk_out :: zookeeper_identity
  zk_counters :: "(string \<times> bool) list"
  zk_zxid :: bool
  zk_latency :: bool

definition zk_start :: zk_state where
  "zk_start =
     \<lparr>zk_out = \<lparr>zk_version = [], zk_mode = []\<rparr>,
      zk_counters = [(''Received: '', False), (''Sent: '', False), (''Connections: '', False),
                     (''Outstanding: '', False), (''Node count: '', False)],
      zk_zxid = False, zk_latency = False\<rparr>"

definition starts_with :: "string \<Rightarrow> string \<Rightarrow> bool" where
  "starts_with s pre \<longleftrightarrow> take (length pre) s = pre"

definition zk_control :: "char \<Rightarrow> bool" where
  "zk_control c \<longleftrightarrow> (of_char c :: nat) < 32 \<or> (of_char c :: nat) = 127"

definition zk_version_line :: "string \<Rightarrow> string option" where
  "zk_version_line line =
     (if \<not> starts_with line ''Zookeeper version: '' then None
      else
        let v = takeWhile (\<lambda>c. c \<noteq> CHR '','') (drop 19 line) in
        if version_token v then Some v else None)"

text \<open>The three numbers between slashes; \<open>n\<close> counts those still to come.\<close>

fun zk_tuple :: "nat \<Rightarrow> string \<Rightarrow> bool" where
  "zk_tuple 0 s = True"
| "zk_tuple (Suc n) s =
     (let number = takeWhile (\<lambda>c. c \<noteq> CHR ''/'') s; after = dropWhile (\<lambda>c. c \<noteq> CHR ''/'') s in
      if unsigned_number 10 number = None \<or> ((n > 0) \<noteq> (after \<noteq> [])) then False
      else zk_tuple n (if after \<noteq> [] then tl after else s))"

fun zk_counter_line :: "string \<Rightarrow> (string \<times> bool) list \<Rightarrow> (string \<times> bool) list option" where
  "zk_counter_line line [] = Some []"
| "zk_counter_line line ((pre, seen) # fs) =
     (if starts_with line (butlast pre) then
        (if seen \<or> \<not> starts_with line pre \<or> unsigned_number 10 (drop (length pre) line) = None then None
         else map_option (Cons (pre, True)) (zk_counter_line line fs))
      else map_option (Cons (pre, seen)) (zk_counter_line line fs))"

text \<open>One line after the first.\<close>

definition zk_line :: "string \<Rightarrow> zk_state \<Rightarrow> zk_state option" where
  "zk_line line s =
     (if starts_with line ''Zookeeper version:'' then None
      else if starts_with line ''Mode:'' then
        (if \<not> starts_with line ''Mode: '' then None
         else
           let mode = drop 6 line in
           if zk_mode (zk_out s) \<noteq> [] \<or> mode \<notin> {''leader'', ''follower'', ''standalone'', ''observer''} then None
           else Some (s\<lparr>zk_out := (zk_out s)\<lparr>zk_mode := mode\<rparr>\<rparr>))
      else if starts_with line ''Latency min/avg/max:'' then
        (if \<not> starts_with line ''Latency min/avg/max: '' \<or> zk_latency s \<or> \<not> zk_tuple 3 (drop 21 line) then None
         else Some (s\<lparr>zk_latency := True\<rparr>))
      else if starts_with line ''Zxid:'' then
        (if zk_zxid s \<or> \<not> starts_with line ''Zxid: 0x'' \<or> unsigned_number 16 (drop 8 line) = None then None
         else Some (s\<lparr>zk_zxid := True\<rparr>))
      else map_option (\<lambda>fs. s\<lparr>zk_counters := fs\<rparr>) (zk_counter_line line (zk_counters s)))"

text \<open>
  The loop over the lines: \<open>before\<close> counts those before, the first holds the version. The text ends
  with a line end, so every line has one.
\<close>

definition zk_first_line :: "string \<Rightarrow> string" where
  "zk_first_line rest =
     (let line = takeWhile (\<lambda>c. c \<noteq> CHR 0x0A) rest
      in if line \<noteq> [] \<and> last line = CHR 0x0D then butlast line else line)"

lemma rest_shorter: "rest \<noteq> [] \<Longrightarrow> length (tl (dropWhile P rest)) < length rest"
  using length_dropWhile_le [of P rest] by (cases rest) auto

function zk_loop :: "nat \<Rightarrow> string \<Rightarrow> zk_state \<Rightarrow> zk_state option" where
  "zk_loop before rest s =
     (if rest = [] then Some s
      else
        let line = zk_first_line rest; rest' = tl (dropWhile (\<lambda>c. c \<noteq> CHR 0x0A) rest) in
        if list_ex zk_control line then None
        else if length line > 1024 \<or> Suc before > 64 then None
        else if before = 0 then
          (case zk_version_line line of
             None \<Rightarrow> None
           | Some v \<Rightarrow> zk_loop (Suc before) rest' (s\<lparr>zk_out := (zk_out s)\<lparr>zk_version := v\<rparr>\<rparr>))
        else
          (case zk_line line s of
             None \<Rightarrow> None
           | Some s' \<Rightarrow> zk_loop (Suc before) rest' s'))"
  by pat_completeness auto
termination
  by (relation "measure (\<lambda>(before, rest, s). length rest)") (simp_all add: rest_shorter del: length_tl)

declare zk_loop.simps [simp del]

definition parse_zookeeper_srvr :: "string \<Rightarrow> bool \<Rightarrow> zookeeper_identity option" where
  "parse_zookeeper_srvr response terminal =
     (if \<not> terminal \<or> response = [] \<or> length response > 8192 \<or> last response \<noteq> CHR 0x0A then None
      else case zk_loop 0 response zk_start of
        None \<Rightarrow> None
      | Some s \<Rightarrow>
          if zk_mode (zk_out s) = [] \<or> \<not> list_all snd (zk_counters s) \<or> \<not> zk_zxid s \<or> \<not> zk_latency s then None
          else Some (zk_out s))"

section \<open>Lines\<close>

abbreviation (input) nl :: string where "nl \<equiv> [CHR 0x0A]"

definition plain_line :: "string \<Rightarrow> bool" where
  "plain_line line \<longleftrightarrow> list_all (\<lambda>c. \<not> zk_control c) line \<and> length line \<le> 1024"

fun zk_lines :: "nat \<Rightarrow> string list \<Rightarrow> zk_state \<Rightarrow> zk_state option" where
  "zk_lines before [] s = Some s"
| "zk_lines before (line # lines) s =
     (if before = 0 then
        (case zk_version_line line of
           None \<Rightarrow> None
         | Some v \<Rightarrow> zk_lines (Suc before) lines (s\<lparr>zk_out := (zk_out s)\<lparr>zk_version := v\<rparr>\<rparr>))
      else (case zk_line line s of None \<Rightarrow> None | Some s' \<Rightarrow> zk_lines (Suc before) lines s'))"

lemma split_at_char:
  assumes "c \<notin> set xs"
  shows "takeWhile (\<lambda>d. d \<noteq> c) (xs @ c # s) = xs" "dropWhile (\<lambda>d. d \<noteq> c) (xs @ c # s) = c # s"
    "takeWhile (\<lambda>d. d \<noteq> c) xs = xs" "dropWhile (\<lambda>d. d \<noteq> c) xs = []"
  using assms by (induction xs) auto

lemma plain_first_line:
  assumes "list_all (\<lambda>c. \<not> zk_control c) line"
  shows "zk_first_line (line @ nl @ rest) = line" "tl (dropWhile (\<lambda>c. c \<noteq> CHR 0x0A) (line @ nl @ rest)) = rest"
proof -
  have c: "CHR 0x0A \<notin> set line" "CHR 0x0D \<notin> set line" using assms by (auto simp: list_all_iff zk_control_def)
  show "tl (dropWhile (\<lambda>c. c \<noteq> CHR 0x0A) (line @ nl @ rest)) = rest" by (simp add: split_at_char [OF c(1)])
  have "\<not> (line \<noteq> [] \<and> last line = CHR 0x0D)" using c(2) last_in_set by metis
  then show "zk_first_line (line @ nl @ rest) = line" by (auto simp: zk_first_line_def Let_def split_at_char [OF c(1)])
qed

lemma zk_loop_lines:
  "list_all plain_line lines \<Longrightarrow> before + length lines \<le> 64 \<Longrightarrow>
     zk_loop before (concat (map (\<lambda>line. line @ nl) lines)) s = zk_lines before lines s"
proof (induction lines arbitrary: before s)
  case Nil
  then show ?case by (simp add: zk_loop.simps)
next
  case (Cons line lines)
  let ?rest = "concat (map (\<lambda>line. line @ nl) lines)"
  have p: "list_all (\<lambda>c. \<not> zk_control c) line" "length line \<le> 1024" using Cons.prems by (auto simp: plain_line_def)
  have "\<not> list_ex zk_control line" using p(1) by (simp add: list_all_iff list_ex_iff)
  then show ?case
    using Cons p(2) plain_first_line [OF p(1), of ?rest]
    by (subst zk_loop.simps) (auto simp: Let_def split: option.splits)
qed

lemma zk_loop_refused:
  assumes "\<And>u s. zk_line (bad @ u) s = None" and "CHR 0x0A \<notin> set bad" and "bad \<noteq> []" and "last bad \<noteq> CHR 0x0D"
  shows "zk_loop before (pre @ nl @ bad @ w) s = None"
proof -
  have one: "zk_loop (Suc n) (bad @ w) s = None" for n s
  proof -
    have t: "takeWhile (\<lambda>c. c \<noteq> CHR 0x0A) (bad @ w) = bad @ takeWhile (\<lambda>c. c \<noteq> CHR 0x0A) w"
      using assms(2) by (induction bad) auto
    obtain u where "zk_first_line (bad @ w) = bad @ u"
    proof (cases "takeWhile (\<lambda>c. c \<noteq> CHR 0x0A) w = []")
      case True
      then show ?thesis using t assms(3,4) that [of "[]"] by (simp add: zk_first_line_def del: takeWhile_eq_Nil_iff)
    next
      case False
      then have "butlast (bad @ takeWhile (\<lambda>c. c \<noteq> CHR 0x0A) w) = bad @ butlast (takeWhile (\<lambda>c. c \<noteq> CHR 0x0A) w)"
        by (simp only: butlast_append if_False)
      then show ?thesis using t that unfolding zk_first_line_def Let_def by (metis (no_types))
    qed
    then show ?thesis using assms(1,3) by (simp add: zk_loop.simps Let_def)
  qed
  show ?thesis
  proof (induction "length pre" arbitrary: before pre s rule: less_induct)
    case less
    let ?rest = "pre @ nl @ bad @ w"
    define rest' where "rest' = tl (dropWhile (\<lambda>c. c \<noteq> CHR 0x0A) ?rest)"
    have n: "zk_loop (Suc before) rest' s' = None" for s'
    proof (cases "CHR 0x0A \<in> set pre")
      case False
      then have "rest' = bad @ w" by (simp add: rest'_def split_at_char [OF False])
      then show ?thesis using one by simp
    next
      case True
      define pre' where "pre' = tl (dropWhile (\<lambda>c. c \<noteq> CHR 0x0A) pre)"
      have "dropWhile (\<lambda>c. c \<noteq> CHR 0x0A) pre \<noteq> []" using True by auto
      then have "rest' = pre' @ nl @ bad @ w" using True by (simp add: rest'_def pre'_def dropWhile_append1)
      moreover have "length pre' < length pre" using rest_shorter [of pre] True unfolding pre'_def by fastforce
      ultimately show ?thesis using less by simp
    qed
    show ?case
      using n [unfolded rest'_def]
      by (cases before; subst zk_loop.simps) (simp_all add: Let_def split: option.splits)
  qed
qed

text \<open>The answer of a server, in the order it writes its lines.\<close>

definition srvr_lines :: "string \<Rightarrow> string \<Rightarrow> nat list \<Rightarrow> nat \<Rightarrow> string \<Rightarrow> string list" where
  "srvr_lines v built n z mode =
     [''Zookeeper version: '' @ v @ '','' @ built,
      ''Latency min/avg/max: '' @ base_text 10 (n ! 0) @ ''/'' @ base_text 10 (n ! 1) @ ''/'' @ base_text 10 (n ! 2),
      ''Received: '' @ base_text 10 (n ! 3), ''Sent: '' @ base_text 10 (n ! 4), ''Connections: '' @ base_text 10 (n ! 5),
      ''Outstanding: '' @ base_text 10 (n ! 6), ''Zxid: 0x'' @ base_text 16 z, ''Mode: '' @ mode,
      ''Node count: '' @ base_text 10 (n ! 7)]"

lemma number_char_no_control: "number_char c \<Longrightarrow> \<not> zk_control c"
  by (auto simp: number_char_def base_digit_def hex_value_def Let_def zk_control_def split: option.splits if_splits)

lemma number_text_line:
  assumes "b = 10 \<or> b = 16"
  shows "list_all (\<lambda>c. \<not> zk_control c) (base_text b n)"
  using base_text_chars [of b n] assms number_char_no_control by (auto intro: list.pred_mono_strong)

lemma number_text_length:
  assumes "n \<le> size_max"
  shows "length (base_text 10 n) \<le> 20" "length (base_text 16 n) \<le> 20"
  using assms base_text_short [of 10 n 19] base_text_short [of 16 n 19] by (simp_all add: size_max_def)

lemma number_no_slash: "CHR ''/'' \<notin> set (base_text 10 n)"
  using base_text_chars [of 10 n] number_char_plain by (fastforce simp: list_all_iff)

lemma zk_tuple_numbers:
  assumes "a \<le> size_max" "b \<le> size_max" "c \<le> size_max"
  shows "zk_tuple 3 (base_text 10 a @ ''/'' @ base_text 10 b @ ''/'' @ base_text 10 c)"
  using assms by (simp add: numeral_3_eq_3 split_at_char [OF number_no_slash] unsigned_number_text Let_def)

lemma version_part_chars: "version_part s = Some r \<Longrightarrow> \<exists>ds. s = ds @ r \<and> list_all version_char ds"
  unfolding version_part_def
  by (auto simp: version_char_def list_all_iff dest: set_takeWhileD split: if_splits intro!: exI [of _ "takeWhile is_digit s"])

lemma version_parts_chars: "version_parts n s = Some r \<Longrightarrow> \<exists>ds. s = ds @ r \<and> list_all version_char ds"
proof (induction n s rule: version_parts.induct)
  case (2 part s)
  obtain s1 where s1: "version_part s = Some s1" using 2(2) by (auto split: option.splits)
  obtain ds where ds: "s = ds @ s1" "list_all version_char ds" using version_part_chars [OF s1] by auto
  show ?case
  proof (cases "part = 0")
    case True
    then show ?thesis using 2(2) s1 ds by auto
  next
    case False
    then obtain s2 where s2: "version_dot s1 = Some s2" "version_parts part s2 = Some r"
      using 2(2) s1 by (auto split: option.splits)
    then have s1': "s1 = CHR ''.'' # s2" by (auto simp: version_dot_def split: list.splits if_splits)
    obtain ds2 where "s2 = ds2 @ r" "list_all version_char ds2" using 2(1) [OF s1 False s2] by auto
    then have "s = (ds @ CHR ''.'' # ds2) @ r \<and> list_all version_char (ds @ CHR ''.'' # ds2)"
      using ds s1' by (simp add: version_char_def [of "CHR ''.''"])
    then show ?thesis by blast
  qed
qed simp

lemma version_token_chars:
  assumes "version_token v"
  shows "list_all version_char v" "v \<noteq> []" "length v \<le> 128" "is_digit (hd v)"
  using assms version_parts_chars [of 3 v]
  by (auto simp: version_token_def split: if_splits option.splits)

lemma version_char_plain: "version_char c \<Longrightarrow> \<not> zk_control c \<and> c \<noteq> CHR '',''"
  by (auto simp: version_char_def is_digit_def zk_control_def less_eq_char_def)

section \<open>What is reported\<close>

definition zk_modes :: "string set" where
  "zk_modes = {''leader'', ''follower'', ''standalone'', ''observer''}"

lemma zk_line_kept:
  assumes "zk_line line s = Some s'"
  shows "zk_version (zk_out s') = zk_version (zk_out s)" "zk_mode (zk_out s') = zk_mode (zk_out s) \<or> zk_mode (zk_out s') \<in> zk_modes"
  using assms by (auto simp: zk_line_def zk_modes_def Let_def split: if_splits)

lemma zk_loop_sound:
  assumes "zk_loop before rest s = Some s'" and "before \<noteq> 0 \<Longrightarrow> version_token (zk_version (zk_out s))" and "before = 0 \<Longrightarrow> rest \<noteq> []"
    and "zk_mode (zk_out s) = [] \<or> zk_mode (zk_out s) \<in> zk_modes"
  shows "version_token (zk_version (zk_out s')) \<and> (zk_mode (zk_out s') = [] \<or> zk_mode (zk_out s') \<in> zk_modes)"
  using assms
proof (induction before rest s rule: zk_loop.induct)
  case (1 before rest s)
  let ?line = "zk_first_line rest" and ?rest = "tl (dropWhile (\<lambda>c. c \<noteq> CHR 0x0A) rest)"
  show ?case
  proof (cases "rest = []")
    case True
    then show ?thesis using 1(3-6) by (auto simp: zk_loop.simps)
  next
    case False
    have ok: "\<not> list_ex zk_control ?line" "\<not> (1024 < length ?line \<or> 64 < Suc before)"
      using 1(3) False by (auto simp: zk_loop.simps [of _ rest] Let_def split: if_splits)
    show ?thesis
    proof (cases "before = 0")
      case True
      then obtain v where v: "zk_version_line ?line = Some v" and l: "zk_loop (Suc before) ?rest (s\<lparr>zk_out := (zk_out s)\<lparr>zk_version := v\<rparr>\<rparr>) = Some s'"
        using 1(3) False by (auto simp: zk_loop.simps [of _ rest] Let_def split: if_splits option.splits)
      have "version_token v" using v by (auto simp: zk_version_line_def Let_def split: if_splits)
      then show ?thesis using 1(1) [OF False refl refl ok True v l] 1(6) by simp
    next
      case b: False
      then obtain t where t: "zk_line ?line s = Some t" and l: "zk_loop (Suc before) ?rest t = Some s'"
        using 1(3) False by (auto simp: zk_loop.simps [of _ rest] Let_def split: if_splits option.splits)
      then show ?thesis using 1(2) [OF False refl refl ok b t l] 1(4,6) b zk_line_kept [OF t] by auto
    qed
  qed
qed

text \<open>
  An identity read from a response carries a version token, of at most 128 letters,
  digits and separators, first a digit; a search engine is one of the two known pairs of service and
  product, a ZooKeeper mode one of the four modes.
\<close>

theorem identities_sound:
  "(case parse_search_identity body of
      None \<Rightarrow> True
    | Some i \<Rightarrow> version_token (si_version i) \<and> list_all version_char (si_version i) \<and> length (si_version i) \<le> 128 \<and>
        (si_service i, si_product i) \<in> {(''elasticsearch'', ''Elasticsearch''), (''opensearch'', ''OpenSearch'')}) \<and>
   (case parse_zookeeper_srvr response terminal of
      None \<Rightarrow> True
    | Some z \<Rightarrow> version_token (zk_version z) \<and> list_all version_char (zk_version z) \<and> length (zk_version z) \<le> 128 \<and>
        zk_mode z \<in> {''leader'', ''follower'', ''standalone'', ''observer''})"
proof (rule conjI)
  show "case parse_search_identity body of
      None \<Rightarrow> True
    | Some i \<Rightarrow> version_token (si_version i) \<and> list_all version_char (si_version i) \<and> length (si_version i) \<le> 128 \<and>
        (si_service i, si_product i) \<in> {(''elasticsearch'', ''Elasticsearch''), (''opensearch'', ''OpenSearch'')}"
    by (auto simp: parse_search_identity_def version_token_chars split: option.splits if_splits)
  show "case parse_zookeeper_srvr response terminal of
      None \<Rightarrow> True
    | Some z \<Rightarrow> version_token (zk_version z) \<and> list_all version_char (zk_version z) \<and> length (zk_version z) \<le> 128 \<and>
        zk_mode z \<in> {''leader'', ''follower'', ''standalone'', ''observer''}"
  proof (cases "parse_zookeeper_srvr response terminal")
    case (Some z)
    then obtain s where "zk_loop 0 response zk_start = Some s" "zk_out s = z" "zk_mode z \<noteq> []" "response \<noteq> []"
      by (auto simp: parse_zookeeper_srvr_def split: if_splits option.splits)
    then show ?thesis using zk_loop_sound [of 0 response zk_start s] version_token_chars [of "zk_version z"] Some
      by (auto simp: zk_start_def zk_modes_def)
  qed simp
qed

text \<open>
  The answer of a ZooKeeper server with whole numbers in every field, of any values
  that fit, is read back as its version and mode.
\<close>

theorem zookeeper_answer_read:
  assumes "version_token v" and "list_all (\<lambda>c. \<not> zk_control c) built" and "length built \<le> 512"
    and "length n = 8" and "list_all (\<lambda>k. k \<le> size_max) n" and "z \<le> size_max"
    and "mode \<in> {''leader'', ''follower'', ''standalone'', ''observer''}"
  shows "parse_zookeeper_srvr (concat (map (\<lambda>line. line @ [CHR 0x0A]) (srvr_lines v built n z mode))) True =
    Some \<lparr>zk_version = v, zk_mode = mode\<rparr>"
proof -
  let ?lines = "srvr_lines v built n z mode" and ?text = "concat (map (\<lambda>line. line @ nl) (srvr_lines v built n z mode))"
  have k: "n ! i \<le> size_max" if "i < 8" for i using assms(4,5) that by (simp add: list_all_length)
  have len: "length (base_text 10 (n ! i)) \<le> 20" if "i < 8" for i using number_text_length(1) k that by blast
  have v: "list_all (\<lambda>c. \<not> zk_control c) v" "CHR '','' \<notin> set v" "length v \<le> 128"
    using version_token_chars [OF assms(1)] version_char_plain by (auto simp: list_all_iff)
  have m: "list_all (\<lambda>c. \<not> zk_control c) mode" "length mode \<le> 10" "mode \<noteq> []" using assms(7) by (auto simp: zk_control_def)
  have plain: "list_all plain_line ?lines"
    using v m assms(2,3) number_text_line number_text_length(2) [OF assms(6)] len [of 0] len [of 1] len [of 2] len [of 3] len [of 4] len [of 5] len [of 6] len [of 7]
    by (simp add: plain_line_def srvr_lines_def zk_control_def)
  have "length ?text \<le> 8192"
    using v m assms(3) number_text_length(2) [OF assms(6)] len [of 0] len [of 1] len [of 2] len [of 3] len [of 4] len [of 5] len [of 6] len [of 7]
    by (simp add: srvr_lines_def)
  moreover have "last ?text = CHR 0x0A" "?text \<noteq> []" by (simp_all add: srvr_lines_def)
  moreover have "zk_loop 0 ?text zk_start = zk_lines 0 ?lines zk_start"
    using plain by (intro zk_loop_lines) (simp_all add: srvr_lines_def)
  moreover have "zk_version_line (''Zookeeper version: '' @ v @ '','' @ built) = Some v"
    using assms(1) by (simp add: zk_version_line_def starts_with_def split_at_char [OF v(2)] Let_def)
  then have "zk_lines 0 ?lines zk_start = Some \<lparr>zk_out = \<lparr>zk_version = v, zk_mode = mode\<rparr>,
      zk_counters = [(''Received: '', True), (''Sent: '', True), (''Connections: '', True), (''Outstanding: '', True), (''Node count: '', True)],
      zk_zxid = True, zk_latency = True\<rparr>"
    using assms(6,7) k [of 3] k [of 4] k [of 5] k [of 6] k [of 7] zk_tuple_numbers [OF k [of 0] k [of 1] k [of 2]]
    by (simp add: srvr_lines_def zk_start_def zk_line_def starts_with_def unsigned_number_text Let_def) 
  ultimately show ?thesis using m by (simp add: parse_zookeeper_srvr_def)
qed

theorem zookeeper_answer_read_witness:
  "parse_zookeeper_srvr (concat (map (\<lambda>line. line @ [CHR 0x0A]) (srvr_lines ''3.5.9'' ''2021'' [0, 1, 2, 3, 4, 5, 6, 7] 8 ''leader''))) True =
    Some \<lparr>zk_version = ''3.5.9'', zk_mode = ''leader''\<rparr>"
proof -
  have "version_token ''3.5.9''"
    by (simp add: version_token_def version_part_def version_dot_def is_digit_def numeral_3_eq_3)
  then show ?thesis
    by (intro zookeeper_answer_read) (simp_all add: zk_control_def size_max_def)
qed

text \<open>
  Servers since 3.6 write the average latency with a fraction; an answer with such a
  line anywhere after the first is refused, whatever the rest of it.
\<close>

theorem fractional_latency_refused:
  "parse_zookeeper_srvr (pre @ [CHR 0x0A] @ ''Latency min/avg/max: '' @ base_text 10 a @ ''/'' @ base_text 10 b @ ''.'' @ w) terminal = None"
proof -
  let ?bad = "''Latency min/avg/max: '' @ base_text 10 a @ ''/'' @ base_text 10 b @ ''.''"
  have "unsigned_number 10 (base_text 10 b @ CHR ''.'' # u) = None" for u
    by (simp add: unsigned_number_def base_value_append base_digit_def hex_value_def split: option.splits)
  moreover have "takeWhile (\<lambda>c. c \<noteq> CHR ''/'') (base_text 10 b @ CHR ''.'' # u) = base_text 10 b @ CHR ''.'' # takeWhile (\<lambda>c. c \<noteq> CHR ''/'') u" for u
    using number_no_slash [of b] by (subst takeWhile_append2) auto
  ultimately have "zk_line (?bad @ u) s = None" for u s
    by (simp add: zk_line_def starts_with_def numeral_3_eq_3 split_at_char [OF number_no_slash] Let_def)
  moreover have "CHR 0x0A \<notin> set (base_text 10 k)" for k
    using number_text_line [of 10 k] by (fastforce simp: list_all_iff zk_control_def)
  then have "CHR 0x0A \<notin> set ?bad" by simp
  ultimately have "zk_loop 0 (pre @ nl @ ?bad @ w) zk_start = None"
    by (intro zk_loop_refused) simp_all
  then show ?thesis by (simp add: parse_zookeeper_srvr_def)
qed

end
