(* ===== verification/Tls_Metadata.thy ===== *)
theory Tls_Metadata
  imports Target_Engine Wire
begin

text \<open>
  What service detection reads from a TLS handshake (\<open>src/detect/tls_metadata.cpp\<close>): records,
  handshake messages, the server hello and the first certificate with its names. The input comes
  from an unauthenticated peer. A read or a subspan beyond a span is \<open>OutOfBounds\<close>; a call that
  returns early returns what the metadata holds.
\<close>

section \<open>Metadata and DER values\<close>

record tls_metadata =
  tls_detected :: bool
  tls_protocol_version :: string
  tls_subject :: string
  tls_issuer :: string
  tls_san_names :: "string list"
  tls_not_before :: string
  tls_not_after :: string
  tls_alpn :: "string list"

definition no_tls :: tls_metadata where
  "no_tls =
     \<lparr>tls_detected = False, tls_protocol_version = [], tls_subject = [], tls_issuer = [], tls_san_names = [],
      tls_not_before = [], tls_not_after = [], tls_alpn = []\<rparr>"

definition bytes_text :: "bytes \<Rightarrow> string" where
  "bytes_text bs = map (\<lambda>b. char_of (unat b)) bs"

definition subspan :: "bytes \<Rightarrow> nat \<Rightarrow> nat \<Rightarrow> (bytes \<Rightarrow> 'a parsed) \<Rightarrow> 'a parsed" where
  "subspan xs offset n k = (if offset + n \<le> length xs then k (take n (drop offset xs)) else OutOfBounds)"

lemma subspan_cong [fundef_cong]:
  "xs = xs' \<Longrightarrow> i = i' \<Longrightarrow> n = n' \<Longrightarrow> (\<And>v. k v = k' v) \<Longrightarrow> subspan xs i n k = subspan xs' i' n' k'"
  by (simp add: subspan_def)

definition read_u24 :: "bytes \<Rightarrow> nat \<Rightarrow> (nat \<Rightarrow> 'a parsed) \<Rightarrow> 'a parsed" where
  "read_u24 xs i k =
     rd8 xs i (\<lambda>a. rd8 xs (i + 1) (\<lambda>b. rd8 xs (i + 2) (\<lambda>c.
       k (push_bit 16 (unat a) OR push_bit 8 (unat b) OR unat c))))"

definition tls_version_name :: "u16 \<Rightarrow> string" where
  "tls_version_name v =
     (if v = 0x0301 then ''TLS 1.0'' else if v = 0x0302 then ''TLS 1.1''
      else if v = 0x0303 then ''TLS 1.2'' else if v = 0x0304 then ''TLS 1.3'' else [])"

record der_value =
  dv_tag :: u8
  dv_value :: bytes

fun der_length :: "nat \<Rightarrow> bytes \<Rightarrow> nat \<Rightarrow> nat \<Rightarrow> (nat \<times> nat) parsed" where
  "der_length 0 input offset len = Parsed (len, offset)"
| "der_length (Suc n) input offset len =
     (if len > drop_bit 8 (length input) then Rejected
      else rd8 input offset (\<lambda>b. der_length n input (offset + 1) (push_bit 8 len OR unat b)))"

definition der_content :: "bytes \<Rightarrow> u8 \<Rightarrow> nat \<Rightarrow> nat \<Rightarrow> (der_value \<times> nat) parsed" where
  "der_content input tag len offset =
     (if len > length input - offset then Rejected
      else subspan input offset len (\<lambda>v. Parsed (\<lparr>dv_tag = tag, dv_value = v\<rparr>, offset + len)))"

definition der_next :: "bytes \<Rightarrow> nat \<Rightarrow> (der_value \<times> nat) parsed" where
  "der_next input offset =
     (if offset + 2 > length input then Rejected
      else rd8 input offset (\<lambda>tag. rd8 input (offset + 1) (\<lambda>l.
        if l AND 0x80 \<noteq> 0 then
          let n = unat (l AND 0x7F) in
          if n = 0 \<or> n > 8 \<or> offset + 2 + n > length input then Rejected
          else
            (case der_length n input (offset + 2) 0 of
               Parsed (len, offset') \<Rightarrow> der_content input tag len offset'
             | Rejected \<Rightarrow> Rejected
             | OutOfBounds \<Rightarrow> OutOfBounds)
        else der_content input tag (unat l) (offset + 2))))"

text \<open>\<open>if (!der_next(input, offset, value)) failed\<close>, and what follows.\<close>

definition der_case :: "bytes \<Rightarrow> nat \<Rightarrow> 'a parsed \<Rightarrow> (der_value \<Rightarrow> nat \<Rightarrow> 'a parsed) \<Rightarrow> 'a parsed" where
  "der_case input offset failed k =
     (case der_next input offset of
        Parsed (v, offset') \<Rightarrow> k v offset'
      | Rejected \<Rightarrow> failed
      | OutOfBounds \<Rightarrow> OutOfBounds)"

lemma der_case_cong [fundef_cong]:
  "input = input' \<Longrightarrow> offset = offset' \<Longrightarrow> failed = failed' \<Longrightarrow>
     (\<And>v next. der_next input' offset' = Parsed (v, next) \<Longrightarrow> k v next = k' v next) \<Longrightarrow>
     der_case input offset failed k = der_case input' offset' failed' k'"
  by (auto simp: der_case_def split: parsed.splits)

lemma der_length_offset: "der_length n input offset len = Parsed (len', offset') \<Longrightarrow> offset' = offset + n"
  by (induction n input offset len rule: der_length.induct) (auto simp: rd8_def split: if_splits)

lemma der_next_progress:
  assumes "der_next input offset = Parsed (v, offset')"
  shows "offset + 2 \<le> offset'" "offset' \<le> length input" "length (dv_value v) \<le> length input - offset - 2"
proof -
  have "offset + 2 \<le> offset' \<and> offset' \<le> length input \<and> length (dv_value v) \<le> length input - offset - 2"
    using assms
    by (auto simp: der_next_def der_content_def subspan_def rd8_def Let_def dest!: der_length_offset split: if_splits parsed.splits)
  then show "offset + 2 \<le> offset'" "offset' \<le> length input" "length (dv_value v) \<le> length input - offset - 2" by auto
qed

section \<open>Names\<close>

fun oid_loop :: "bytes \<Rightarrow> nat \<Rightarrow> string \<Rightarrow> string" where
  "oid_loop [] component out = (if component = 0 then out else [])"
| "oid_loop (b # bs) component out =
     (if component > drop_bit 7 size_max then []
      else
        let c = push_bit 7 component OR unat (b AND 0x7F) in
        if b AND 0x80 = 0 then oid_loop bs 0 (out @ ''.'' @ decimal_text c) else oid_loop bs c out)"

definition oid_text :: "bytes \<Rightarrow> string" where
  "oid_text oid =
     (case oid of
        [] \<Rightarrow> []
      | b # bs \<Rightarrow> oid_loop bs 0 (decimal_text (unat b div 40) @ ''.'' @ decimal_text (unat b mod 40)))"

fun bmp_text :: "bytes \<Rightarrow> string \<Rightarrow> string" where
  "bmp_text (hi # lo # rest) out = (if hi \<noteq> 0 \<or> lo < 0x20 then [] else bmp_text rest (out @ bytes_text [lo]))"
| "bmp_text _ out = out"

definition asn1_text :: "der_value \<Rightarrow> string" where
  "asn1_text v =
     (if length (dv_value v) > 1024 then []
      else if dv_tag v = 0x1E then bmp_text (dv_value v) []
      else if dv_tag v \<notin> {0x0C, 0x13, 0x14, 0x16, 0x17, 0x18} then []
      else bytes_text (dv_value v))"

definition attribute_label :: "string \<Rightarrow> string option" where
  "attribute_label oid =
     (if oid = ''2.5.4.3'' then Some ''CN'' else if oid = ''2.5.4.6'' then Some ''C''
      else if oid = ''2.5.4.7'' then Some ''L'' else if oid = ''2.5.4.8'' then Some ''ST''
      else if oid = ''2.5.4.10'' then Some ''O'' else if oid = ''2.5.4.11'' then Some ''OU'' else None)"

text \<open>One attribute is appended to the name; \<open>None\<close> when the text has grown too long.\<close>

definition add_attribute :: "string \<Rightarrow> der_value \<Rightarrow> der_value \<Rightarrow> string option" where
  "add_attribute out oid txt =
     (case attribute_label (oid_text (dv_value oid)) of
        None \<Rightarrow> Some out
      | Some label \<Rightarrow>
          if asn1_text txt = [] then Some out
          else
            let out' = (if out \<noteq> [] then out @ '', '' else out) @ label @ ''='' @ asn1_text txt
            in if length out' > 1024 then None else Some out')"

function name_loop :: "bytes \<Rightarrow> nat \<Rightarrow> string \<Rightarrow> string parsed" where
  "name_loop seq offset out =
     (if offset < length seq then
        der_case seq offset (Parsed []) (\<lambda>entry offset'.
          if dv_tag entry \<noteq> 0x31 then Parsed []
          else der_case (dv_value entry) 0 (Parsed []) (\<lambda>pair _.
            if dv_tag pair \<noteq> 0x30 then Parsed []
            else der_case (dv_value pair) 0 (Parsed []) (\<lambda>oid after.
              if dv_tag oid \<noteq> 0x06 then Parsed []
              else der_case (dv_value pair) after (Parsed []) (\<lambda>txt _.
                case add_attribute out oid txt of
                  None \<Rightarrow> Parsed []
                | Some out' \<Rightarrow> name_loop seq offset' out'))))
      else Parsed out)"
  by pat_completeness auto
termination
  by (relation "measure (\<lambda>(seq, offset, out). length seq - offset)") (auto dest: der_next_progress)

declare name_loop.simps [simp del]

definition parse_name :: "bytes \<Rightarrow> string parsed" where
  "parse_name encoded =
     der_case encoded 0 (Parsed []) (\<lambda>seq offset.
       if dv_tag seq \<noteq> 0x30 \<or> offset \<noteq> length encoded then Parsed [] else name_loop (dv_value seq) 0 [])"

section \<open>The certificate\<close>

function san_loop :: "bytes \<Rightarrow> nat \<Rightarrow> tls_metadata \<Rightarrow> tls_metadata parsed" where
  "san_loop names offset m =
     (if offset < length names \<and> length (tls_san_names m) < 32 then
        der_case names offset (Parsed m) (\<lambda>name offset'.
          san_loop names offset'
            (if dv_tag name = 0x82 \<and> dv_value name \<noteq> [] \<and> length (dv_value name) \<le> 253
             then m\<lparr>tls_san_names := tls_san_names m @ [bytes_text (dv_value name)]\<rparr> else m))
      else Parsed m)"
  by pat_completeness auto
termination
  by (relation "measure (\<lambda>(names, offset, m). length names - offset)") (auto dest: der_next_progress)

declare san_loop.simps [simp del]

definition parse_san_extension :: "bytes \<Rightarrow> tls_metadata \<Rightarrow> tls_metadata parsed" where
  "parse_san_extension encoded m =
     der_case encoded 0 (Parsed m) (\<lambda>names _.
       if dv_tag names \<noteq> 0x30 then Parsed m else san_loop (dv_value names) 0 m)"

text \<open>One extension: object identifier, an optional critical flag, the value.\<close>

definition extension_value_of :: "der_value \<Rightarrow> der_value \<Rightarrow> tls_metadata \<Rightarrow> tls_metadata parsed" where
  "extension_value_of oid v m =
     (if oid_text (dv_value oid) = ''2.5.29.17'' \<and> dv_tag v = 0x04 then parse_san_extension (dv_value v) m else Parsed m)"

definition parse_extension :: "bytes \<Rightarrow> tls_metadata \<Rightarrow> tls_metadata parsed" where
  "parse_extension extension m =
     der_case extension 0 (Parsed m) (\<lambda>oid offset.
       if dv_tag oid \<noteq> 0x06 then Parsed m
       else der_case extension offset (Parsed m) (\<lambda>v offset'.
         if dv_tag v = 0x01 then der_case extension offset' (Parsed m) (\<lambda>v' _. extension_value_of oid v' m)
         else extension_value_of oid v m))"

function extension_loop :: "bytes \<Rightarrow> nat \<Rightarrow> tls_metadata \<Rightarrow> tls_metadata parsed" where
  "extension_loop seq offset m =
     (if offset < length seq then
        der_case seq offset (Parsed m) (\<lambda>extension offset'.
          if dv_tag extension \<noteq> 0x30 then Parsed m
          else case parse_extension (dv_value extension) m of
            Parsed m' \<Rightarrow> extension_loop seq offset' m'
          | Rejected \<Rightarrow> Rejected
          | OutOfBounds \<Rightarrow> OutOfBounds)
      else Parsed m)"
  by pat_completeness auto
termination
  by (relation "measure (\<lambda>(seq, offset, m). length seq - offset)") (auto dest: der_next_progress)

declare extension_loop.simps [simp del]

definition parse_extensions :: "bytes \<Rightarrow> tls_metadata \<Rightarrow> tls_metadata parsed" where
  "parse_extensions encoded m =
     der_case encoded 0 (Parsed m) (\<lambda>seq _.
       if dv_tag seq \<noteq> 0x30 then Parsed m else extension_loop (dv_value seq) 0 m)"

text \<open>The fields of the certificate in their order, each from the offset after the one before.\<close>

function cert_rest :: "bytes \<Rightarrow> nat \<Rightarrow> tls_metadata \<Rightarrow> tls_metadata parsed" where
  "cert_rest tbs offset m =
     (if offset < length tbs then
        der_case tbs offset (Parsed m) (\<lambda>field offset'.
          if dv_tag field = 0xA3 then parse_extensions (dv_value field) m else cert_rest tbs offset' m)
      else Parsed m)"
  by pat_completeness auto
termination
  by (relation "measure (\<lambda>(tbs, offset, m). length tbs - offset)") (auto dest: der_next_progress)

declare cert_rest.simps [simp del]

text \<open>A name field from \<open>start\<close> on, handed on with the offset after it.\<close>

definition name_field ::
  "bytes \<Rightarrow> nat \<Rightarrow> tls_metadata \<Rightarrow> (string \<Rightarrow> nat \<Rightarrow> tls_metadata parsed) \<Rightarrow> tls_metadata parsed" where
  "name_field tbs start m k =
     der_case tbs start (Parsed m) (\<lambda>field offset.
       if dv_tag field \<noteq> 0x30 then Parsed m
       else subspan tbs start (offset - start) (\<lambda>encoded.
         case parse_name encoded of
           Parsed name \<Rightarrow> k name offset
         | Rejected \<Rightarrow> Rejected
         | OutOfBounds \<Rightarrow> OutOfBounds))"

definition cert_subject :: "bytes \<Rightarrow> nat \<Rightarrow> tls_metadata \<Rightarrow> tls_metadata parsed" where
  "cert_subject tbs start m =
     name_field tbs start m (\<lambda>name offset.
       let m1 = m\<lparr>tls_subject := name\<rparr> in
       der_case tbs offset (Parsed m1) (\<lambda>field offset'.
         if dv_tag field \<noteq> 0x30 then Parsed m1 else cert_rest tbs offset' m1))"

definition validity_times :: "bytes \<Rightarrow> tls_metadata \<Rightarrow> tls_metadata parsed" where
  "validity_times v m =
     der_case v 0 (Parsed m) (\<lambda>not_before offset.
       der_case v offset (Parsed m) (\<lambda>not_after _.
         Parsed (m\<lparr>tls_not_before := asn1_text not_before, tls_not_after := asn1_text not_after\<rparr>)))"

definition cert_validity :: "bytes \<Rightarrow> nat \<Rightarrow> tls_metadata \<Rightarrow> tls_metadata parsed" where
  "cert_validity tbs offset m =
     der_case tbs offset (Parsed m) (\<lambda>validity offset'.
       if dv_tag validity \<noteq> 0x30 then Parsed m
       else case validity_times (dv_value validity) m of
         Parsed m1 \<Rightarrow> cert_subject tbs offset' m1
       | Rejected \<Rightarrow> Rejected
       | OutOfBounds \<Rightarrow> OutOfBounds)"

definition cert_issuer :: "bytes \<Rightarrow> nat \<Rightarrow> tls_metadata \<Rightarrow> tls_metadata parsed" where
  "cert_issuer tbs offset m =
     der_case tbs offset (Parsed m) (\<lambda>_ start.
       name_field tbs start m (\<lambda>name offset'. cert_validity tbs offset' (m\<lparr>tls_issuer := name\<rparr>)))"

definition parse_certificate :: "bytes \<Rightarrow> tls_metadata \<Rightarrow> tls_metadata parsed" where
  "parse_certificate der m =
     (if der = [] \<or> length der > 49152 then Parsed m
      else der_case der 0 (Parsed m) (\<lambda>certificate _.
        if dv_tag certificate \<noteq> 0x30 then Parsed m
        else der_case (dv_value certificate) 0 (Parsed m) (\<lambda>tbs _.
          if dv_tag tbs \<noteq> 0x30 then Parsed m
          else der_case (dv_value tbs) 0 (Parsed m) (\<lambda>field offset.
            if dv_tag field = 0xA0
            then der_case (dv_value tbs) offset (Parsed m) (\<lambda>_ offset'. cert_issuer (dv_value tbs) offset' m)
            else cert_issuer (dv_value tbs) offset m))))"

section \<open>Handshake messages\<close>

function alpn_loop :: "bytes \<Rightarrow> nat \<Rightarrow> tls_metadata \<Rightarrow> tls_metadata parsed" where
  "alpn_loop v offset m =
     (if offset < length v \<and> length (tls_alpn m) < 32 then
        rd8 v offset (\<lambda>l.
          if unat l = 0 \<or> unat l > length v - (offset + 1) then Parsed m
          else subspan v (offset + 1) (unat l) (\<lambda>name.
            alpn_loop v (offset + 1 + unat l) (m\<lparr>tls_alpn := tls_alpn m @ [bytes_text name]\<rparr>)))
      else Parsed m)"
  by pat_completeness auto
termination
  by (relation "measure (\<lambda>(v, offset, m). length v - offset)") auto

declare alpn_loop.simps [simp del]

text \<open>The extensions of a server hello up to \<open>stop\<close>.\<close>

definition hello_extension :: "u16 \<Rightarrow> bytes \<Rightarrow> tls_metadata \<Rightarrow> tls_metadata parsed" where
  "hello_extension typ v m =
     (if typ = 0x002B \<and> length v = 2 then
        read_u16 v 0 (\<lambda>version. Parsed (m\<lparr>tls_protocol_version := tls_version_name version\<rparr>))
      else if typ = 0x0010 \<and> length v \<ge> 3 then alpn_loop v 2 m
      else Parsed m)"

function hello_loop :: "bytes \<Rightarrow> nat \<Rightarrow> nat \<Rightarrow> tls_metadata \<Rightarrow> tls_metadata parsed" where
  "hello_loop hello offset stop m =
     (if offset + 4 \<le> stop then
        read_u16 hello offset (\<lambda>typ. read_u16 hello (offset + 2) (\<lambda>l.
          let start = offset + 4; len = unat l in
          if len > stop - start then Parsed m
          else subspan hello start len (\<lambda>v.
            case hello_extension typ v m of
              Parsed m' \<Rightarrow> hello_loop hello (start + len) stop m'
            | Rejected \<Rightarrow> Rejected
            | OutOfBounds \<Rightarrow> OutOfBounds)))
      else Parsed m)"
  by pat_completeness auto
termination
  by (relation "measure (\<lambda>(hello, offset, stop, m). stop - offset)") (auto simp: read_u16_def)

declare hello_loop.simps [simp del]

definition parse_server_hello :: "bytes \<Rightarrow> tls_metadata \<Rightarrow> tls_metadata parsed" where
  "parse_server_hello hello m =
     (if length hello < 38 then Parsed m
      else read_u16 hello 0 (\<lambda>version.
        let m1 = m\<lparr>tls_protocol_version := tls_version_name version\<rparr> in
        rd8 hello 34 (\<lambda>l.
          let session_length = unat l; offset = 35 in
          if session_length > length hello - offset \<or> length hello - offset - session_length < 3 then Parsed m1
          else
            let offset1 = offset + session_length + 3 in
            if offset1 = length hello then Parsed m1
            else if length hello - offset1 < 2 then Parsed m1
            else read_u16 hello offset1 (\<lambda>e.
              if unat e > length hello - (offset1 + 2) then Parsed m1
              else hello_loop hello (offset1 + 2) (offset1 + 2 + unat e) m1))))"

definition parse_certificate_message :: "bytes \<Rightarrow> tls_metadata \<Rightarrow> tls_metadata parsed" where
  "parse_certificate_message message m =
     (if length message < 6 then Parsed m
      else read_u24 message 0 (\<lambda>list_length.
        if list_length > length message - 3 then Parsed m
        else read_u24 message 3 (\<lambda>certificate_length.
          if certificate_length > length message - 6 then Parsed m
          else subspan message 6 certificate_length (\<lambda>der. parse_certificate der m))))"

section \<open>Records\<close>

function record_loop :: "bytes \<Rightarrow> nat \<Rightarrow> bytes \<Rightarrow> tls_metadata \<Rightarrow> (bytes \<times> tls_metadata) parsed" where
  "record_loop response offset handshake m =
     (if offset + 5 \<le> length response then
        rd8 response offset (\<lambda>typ. read_u16 response (offset + 1) (\<lambda>version. read_u16 response (offset + 3) (\<lambda>l.
          let start = offset + 5; len = unat l in
          if len > length response - start then Parsed (handshake, m)
          else
            let m1 = (if typ = 0x15 \<or> typ = 0x16
                      then m\<lparr>tls_detected := True,
                             tls_protocol_version := (if tls_protocol_version m = [] then tls_version_name version
                                                      else tls_protocol_version m)\<rparr>
                      else m) in
            if typ = 0x16 \<and> len \<le> 65536 - length handshake
            then subspan response start len (\<lambda>v. record_loop response (start + len) (handshake @ v) m1)
            else record_loop response (start + len) handshake m1)))
      else Parsed (handshake, m))"
  by pat_completeness auto
termination
  by (relation "measure (\<lambda>(response, offset, handshake, m). length response - offset)") (auto simp: read_u16_def)

declare record_loop.simps [simp del]

definition handshake_message :: "u8 \<Rightarrow> bytes \<Rightarrow> tls_metadata \<Rightarrow> tls_metadata parsed" where
  "handshake_message typ message m =
     (if typ = 0x02 then parse_server_hello message m
      else if typ = 0x0B then parse_certificate_message message m else Parsed m)"

function message_loop :: "bytes \<Rightarrow> nat \<Rightarrow> tls_metadata \<Rightarrow> tls_metadata parsed" where
  "message_loop messages offset m =
     (if offset + 4 \<le> length messages then
        rd8 messages offset (\<lambda>typ. read_u24 messages (offset + 1) (\<lambda>len.
          let start = offset + 4 in
          if len > length messages - start then Parsed m
          else subspan messages start len (\<lambda>message.
            case handshake_message typ message m of
              Parsed m' \<Rightarrow> message_loop messages (start + len) m'
            | Rejected \<Rightarrow> Rejected
            | OutOfBounds \<Rightarrow> OutOfBounds)))
      else Parsed m)"
  by pat_completeness auto
termination
  by (relation "measure (\<lambda>(messages, offset, m). length messages - offset)") (auto simp: read_u24_def)

declare message_loop.simps [simp del]

definition parse_tls_metadata :: "bytes \<Rightarrow> tls_metadata parsed" where
  "parse_tls_metadata response =
     (if length response < 5 \<or> length response > 65536 then Parsed no_tls
      else case record_loop response 0 [] no_tls of
        Parsed (handshake, m) \<Rightarrow> message_loop handshake 0 m
      | Rejected \<Rightarrow> Rejected
      | OutOfBounds \<Rightarrow> OutOfBounds)"

end
