(* ===== verification/Tls_Safety.thy ===== *)
theory Tls_Safety
  imports Tls_Metadata Text_Safety
begin

text \<open>
  No input makes the TLS parsers read beyond it, and what they return is bounded; a DER value is
  read back from its encoding.
\<close>

section \<open>DER\<close>

definition yields :: "('a \<Rightarrow> bool) \<Rightarrow> 'a parsed \<Rightarrow> bool" where
  "yields P r \<longleftrightarrow> (case r of Parsed a \<Rightarrow> P a | Rejected \<Rightarrow> False | OutOfBounds \<Rightarrow> False)"

lemma yields_Parsed [simp]: "yields P (Parsed a) = P a"
  by (simp add: yields_def)

lemma yieldsE: "yields P r \<Longrightarrow> (\<And>a. r = Parsed a \<Longrightarrow> P a \<Longrightarrow> thesis) \<Longrightarrow> thesis"
  by (cases r) (auto simp: yields_def)

lemma der_length_in_bounds: "offset + n \<le> length input \<Longrightarrow> der_length n input offset len \<noteq> OutOfBounds"
  by (induction n arbitrary: offset len) (auto simp: rd8_def)

lemma der_content_in_bounds: "offset \<le> length input \<Longrightarrow> der_content input tag len offset \<noteq> OutOfBounds"
  by (auto simp: der_content_def subspan_def)

lemma der_next_in_bounds: "der_next input offset \<noteq> OutOfBounds"
proof (cases "offset + 2 \<le> length input")
  case True
  define l where "l = input ! (offset + 1)"
  show ?thesis
  proof (cases "l AND 0x80 \<noteq> 0 \<and> unat (l AND 0x7F) \<noteq> 0 \<and> \<not> unat (l AND 0x7F) > 8 \<and> offset + 2 + unat (l AND 0x7F) \<le> length input")
    case False
    then show ?thesis using True der_content_in_bounds [of "offset + 2" input] by (auto simp: der_next_def Let_def l_def)
  next
    case long: True
    have "der_length (unat (l AND 0x7F)) input (offset + 2) 0 \<noteq> OutOfBounds"
      using long by (intro der_length_in_bounds) simp
    moreover have "der_content input (input ! offset) len offset' \<noteq> OutOfBounds"
      if "der_length (unat (l AND 0x7F)) input (offset + 2) 0 = Parsed (len, offset')" for len offset'
      using der_length_offset [OF that] long by (intro der_content_in_bounds) simp
    ultimately show ?thesis using True long by (auto simp: der_next_def Let_def l_def split: parsed.splits)
  qed
qed (simp add: der_next_def)

lemma der_case_yields:
  assumes "yields P failed" and "\<And>v offset'. der_next input offset = Parsed (v, offset') \<Longrightarrow> yields P (k v offset')"
  shows "yields P (der_case input offset failed k)"
  using assms der_next_in_bounds [of input offset] by (auto simp: der_case_def split: parsed.splits)

lemma yields_if: "(b \<Longrightarrow> yields P x) \<Longrightarrow> (\<not> b \<Longrightarrow> yields P y) \<Longrightarrow> yields P (if b then x else y)"
  by simp

lemma yields_bind:
  assumes "yields P r" and "\<And>a. r = Parsed a \<Longrightarrow> P a \<Longrightarrow> yields Q (k a)"
  shows "yields Q (case r of Parsed a \<Rightarrow> k a | Rejected \<Rightarrow> Rejected | OutOfBounds \<Rightarrow> OutOfBounds)"
  using assms by (cases r) (auto simp: yields_def)

lemma yields_subspan: "i + n \<le> length xs \<Longrightarrow> yields P (k (take n (drop i xs))) \<Longrightarrow> yields P (subspan xs i n k)"
  by (simp add: subspan_def)

lemma yields_Let: "(\<And>x. x = t \<Longrightarrow> yields P (f x)) \<Longrightarrow> yields P (Let t f)"
  by simp

lemma yields_reads:
  "i < length xs \<Longrightarrow> yields P (k (xs ! i)) \<Longrightarrow> yields P (rd8 xs i k)"
  "i + 1 < length xs \<Longrightarrow> (\<And>v. yields P (l v)) \<Longrightarrow> yields P (read_u16 xs i l)"
  "i + 2 < length xs \<Longrightarrow> (\<And>v. yields P (h v)) \<Longrightarrow> yields P (read_u24 xs i h)"
  by (simp_all add: read_u16_in read_u24_def)

lemmas yields_steps = yields_if yields_Let yields_reads der_case_yields yields_subspan

lemma der_next_within: "der_next input offset = Parsed (v, offset') \<Longrightarrow> offset + (offset' - offset) \<le> length input"
  using der_next_progress by fastforce

section \<open>Bounded metadata\<close>

definition tls_ok :: "tls_metadata \<Rightarrow> bool" where
  "tls_ok m \<longleftrightarrow>
     tls_protocol_version m \<in> {[], ''TLS 1.0'', ''TLS 1.1'', ''TLS 1.2'', ''TLS 1.3''} \<and>
     length (tls_subject m) \<le> 1024 \<and> length (tls_issuer m) \<le> 1024 \<and>
     length (tls_not_before m) \<le> 1024 \<and> length (tls_not_after m) \<le> 1024 \<and>
     length (tls_san_names m) \<le> 32 \<and> list_all (\<lambda>n. n \<noteq> [] \<and> length n \<le> 253) (tls_san_names m) \<and>
     length (tls_alpn m) \<le> 32 \<and> list_all (\<lambda>n. n \<noteq> [] \<and> length n \<le> 255) (tls_alpn m)"

lemma tls_ok_updates:
  "tls_ok m \<Longrightarrow> length t \<le> 1024 \<Longrightarrow> tls_ok (m\<lparr>tls_subject := t\<rparr>)"
  "tls_ok m \<Longrightarrow> length t \<le> 1024 \<Longrightarrow> tls_ok (m\<lparr>tls_issuer := t\<rparr>)"
  "tls_ok m \<Longrightarrow> length t \<le> 1024 \<Longrightarrow> length u \<le> 1024 \<Longrightarrow> tls_ok (m\<lparr>tls_not_before := t, tls_not_after := u\<rparr>)"
  "tls_ok m \<Longrightarrow> tls_ok (m\<lparr>tls_protocol_version := tls_version_name v\<rparr>)"
  "tls_ok m \<Longrightarrow> tls_ok (m\<lparr>tls_detected := d\<rparr>)"
  by (simp_all add: tls_ok_def tls_version_name_def)

lemma bmp_text_length: "length (bmp_text bs out) \<le> length out + length bs"
  by (induction bs out rule: bmp_text.induct) (auto simp: bytes_text_def)

lemma asn1_text_length: "length (asn1_text v) \<le> 1024"
  using bmp_text_length [of "dv_value v" "[]"] by (auto simp: asn1_text_def bytes_text_def)

lemma add_attribute_length: "add_attribute out oid txt = Some out' \<Longrightarrow> length out \<le> 1024 \<Longrightarrow> length out' \<le> 1024"
  by (auto simp: add_attribute_def Let_def split: option.splits if_splits)

lemma name_loop_yields: "length out \<le> 1024 \<Longrightarrow> yields (\<lambda>t. length t \<le> 1024) (name_loop seq offset out)"
proof (induction seq offset out rule: name_loop.induct)
  case (1 seq offset out)
  have o: "yields (\<lambda>t. length t \<le> 1024) (case r of None \<Rightarrow> Parsed [] | Some out' \<Rightarrow> k out')"
    if "\<And>out'. r = Some out' \<Longrightarrow> yields (\<lambda>t. length t \<le> 1024) (k out')" for r k
    using that by (simp split: option.splits)
  show ?case
    by (subst name_loop.simps, intro yields_if der_case_yields o; (rule 1(1))?)
      (simp_all add: 1(2) add_attribute_length [OF _ 1(2)])
qed

lemma parse_name_yields: "yields (\<lambda>t. length t \<le> 1024) (parse_name encoded)"
  unfolding parse_name_def by (auto intro!: der_case_yields name_loop_yields)

lemma san_loop_yields: "tls_ok m \<Longrightarrow> yields tls_ok (san_loop names offset m)"
proof (induction names offset m rule: san_loop.induct)
  case (1 names offset m)
  have t: "tls_ok (if dv_tag name = 0x82 \<and> dv_value name \<noteq> [] \<and> length (dv_value name) \<le> 253
           then m\<lparr>tls_san_names := tls_san_names m @ [bytes_text (dv_value name)]\<rparr> else m)"
    if "length (tls_san_names m) < 32" for name
    using that 1(2) by (auto simp: tls_ok_def bytes_text_def)
  show ?case
    by (subst san_loop.simps, intro yields_if der_case_yields; (rule 1(1))?) (simp_all only: 1(2) t yields_Parsed simp_thms)
qed

lemma parse_extension_yields: "tls_ok m \<Longrightarrow> yields tls_ok (parse_extension extension m)"
  unfolding parse_extension_def extension_value_of_def parse_san_extension_def
  by (auto intro!: der_case_yields san_loop_yields)

lemma extension_loop_yields: "tls_ok m \<Longrightarrow> yields tls_ok (extension_loop seq offset m)"
proof (induction seq offset m rule: extension_loop.induct)
  case (1 seq offset m)
  show ?case
    by (subst extension_loop.simps, intro yields_if der_case_yields yields_bind [OF parse_extension_yields]; (rule 1(1))?)
      (simp_all add: 1(2))
qed

lemma cert_rest_yields: "tls_ok m \<Longrightarrow> yields tls_ok (cert_rest tbs offset m)"
proof (induction tbs offset m rule: cert_rest.induct)
  case (1 tbs offset m)
  have t: "yields tls_ok (parse_extensions v m)" for v
    using 1(2) unfolding parse_extensions_def by (auto intro!: der_case_yields extension_loop_yields)
  show ?case
    by (subst cert_rest.simps, intro yields_if der_case_yields; (rule 1(1))?) (simp_all add: 1(2) t)
qed

lemma name_field_yields:
  assumes "tls_ok m" and "\<And>name offset. length name \<le> 1024 \<Longrightarrow> yields tls_ok (k name offset)"
  shows "yields tls_ok (name_field tbs start m k)"
  unfolding name_field_def
  by (intro yields_if der_case_yields yields_subspan yields_bind [OF parse_name_yields])
    (use assms in \<open>auto dest: der_next_within\<close>)

lemma parse_certificate_yields:
  assumes "tls_ok m"
  shows "yields tls_ok (parse_certificate der m)"
proof -
  have s: "yields tls_ok (cert_subject tbs start m1)" if "tls_ok m1" for tbs start m1
    using that unfolding cert_subject_def
    by (auto intro!: name_field_yields der_case_yields cert_rest_yields tls_ok_updates simp: Let_def)
  have t: "yields tls_ok (validity_times v m1)" if "tls_ok m1" for v m1
    using that unfolding validity_times_def by (auto intro!: der_case_yields tls_ok_updates asn1_text_length)
  have v: "yields tls_ok (cert_validity tbs start m1)" if "tls_ok m1" for tbs start m1
    unfolding cert_validity_def
    by (intro yields_if der_case_yields yields_bind [OF t [OF that]] s) (simp_all add: that)
  have i: "yields tls_ok (cert_issuer tbs start m)" for tbs start
    using assms unfolding cert_issuer_def by (auto intro!: der_case_yields name_field_yields v tls_ok_updates)
  show ?thesis using assms unfolding parse_certificate_def by (auto intro!: der_case_yields i)
qed

section \<open>Messages and records\<close>

lemma alpn_loop_yields: "tls_ok m \<Longrightarrow> yields tls_ok (alpn_loop v offset m)"
proof (induction v offset m rule: alpn_loop.induct)
  case (1 v offset m)
  show ?case
  proof (cases "offset < length v \<and> length (tls_alpn m) < 32")
    case True
    show ?thesis
    proof (cases "unat (v ! offset) = 0 \<or> unat (v ! offset) > length v - (offset + 1)")
      case False
      have "tls_ok (m\<lparr>tls_alpn := tls_alpn m @ [bytes_text (take (unat (v ! offset)) (drop (offset + 1) v))]\<rparr>)"
        using True False 1(2) unat_u8_less [of "v ! offset"] by (auto simp: tls_ok_def bytes_text_def)
      moreover have "offset + 1 + unat (v ! offset) \<le> length v" using True False by auto
      ultimately show ?thesis using True False 1(1) [OF True _ False] by (simp add: alpn_loop.simps [of v offset] subspan_def)
    next
      case t: True
      then show ?thesis using True 1(2) by (subst alpn_loop.simps) auto
    qed
  next
    case False
    then show ?thesis using 1(2) by (subst alpn_loop.simps) auto
  qed
qed

lemma hello_extension_yields: "tls_ok m \<Longrightarrow> yields tls_ok (hello_extension typ v m)"
  by (auto simp: hello_extension_def alpn_loop_yields read_u16_in tls_ok_updates)

lemma hello_loop_yields:
  assumes "tls_ok m" and "stop \<le> length hello"
  shows "yields tls_ok (hello_loop hello offset stop m)"
  using assms
proof (induction hello offset stop m rule: hello_loop.induct)
  case (1 hello offset stop m)
  show ?case
    by (subst hello_loop.simps, intro yields_steps yields_bind [OF hello_extension_yields]; (rule 1(1))?)
      (use 1(2,3) in \<open>simp_all add: le_diff_conv2\<close>)
qed

lemma parse_server_hello_yields: "tls_ok m \<Longrightarrow> yields tls_ok (parse_server_hello hello m)"
  unfolding parse_server_hello_def by (auto simp: read_u16_in Let_def tls_ok_updates intro!: hello_loop_yields)


lemma handshake_message_yields: "tls_ok m \<Longrightarrow> yields tls_ok (handshake_message typ message m)"
  unfolding handshake_message_def parse_certificate_message_def
  by (intro yields_steps parse_server_hello_yields parse_certificate_yields) auto

lemma message_loop_yields: "tls_ok m \<Longrightarrow> yields tls_ok (message_loop messages offset m)"
proof (induction messages offset m rule: message_loop.induct)
  case (1 messages offset m)
  show ?case
    by (subst message_loop.simps, intro yields_steps yields_bind [OF handshake_message_yields]; (rule 1(1))?)
      (use 1(2) in \<open>simp_all add: le_diff_conv2\<close>)
qed

lemma record_loop_yields: "tls_ok m \<Longrightarrow> yields (\<lambda>(h, m). tls_ok m) (record_loop response offset handshake m)"
proof (induction response offset handshake m rule: record_loop.induct)
  case (1 response offset handshake m)
  show ?case
    by (subst record_loop.simps, intro yields_steps; (rule 1(1) 1(2))?)
      (use 1(3) in \<open>simp_all add: le_diff_conv2 tls_ok_updates\<close>)
qed

text \<open>
  Property C35. Whatever a peer sends, the TLS parser returns without reading beyond what was received or
  beyond the value, message or certificate it is in; the version is one of four names or none, names and
  times have at most 1,024 bytes, and there are at most 32 alternative names and 32 protocols.
\<close>

theorem tls_metadata_bounded:
  "\<exists>m. parse_tls_metadata response = Parsed m \<and>
     tls_protocol_version m \<in> {[], ''TLS 1.0'', ''TLS 1.1'', ''TLS 1.2'', ''TLS 1.3''} \<and>
     length (tls_subject m) \<le> 1024 \<and> length (tls_issuer m) \<le> 1024 \<and>
     length (tls_not_before m) \<le> 1024 \<and> length (tls_not_after m) \<le> 1024 \<and>
     length (tls_san_names m) \<le> 32 \<and> list_all (\<lambda>n. n \<noteq> [] \<and> length n \<le> 253) (tls_san_names m) \<and>
     length (tls_alpn m) \<le> 32 \<and> list_all (\<lambda>n. n \<noteq> [] \<and> length n \<le> 255) (tls_alpn m)"
proof -
  have "tls_ok no_tls" by (simp add: tls_ok_def no_tls_def)
  then have "yields tls_ok (parse_tls_metadata response)"
    using record_loop_yields [of no_tls response 0 "[]"]
    by (auto simp: parse_tls_metadata_def elim!: yieldsE intro: message_loop_yields)
  then show ?thesis by (auto elim!: yieldsE simp: tls_ok_def)
qed

section \<open>Encoded names\<close>

text \<open>The definite form of DER, and the name of a subject as a sequence of single attributes.\<close>

definition der_bytes :: "u8 \<Rightarrow> bytes \<Rightarrow> bytes" where
  "der_bytes tag v =
     tag # (if length v < 128 then [of_nat (length v)]
            else if length v < 256 then [0x81, of_nat (length v)]
            else [0x82, of_nat (length v div 256), of_nat (length v mod 256)]) @ v"

lemma unat_of_nat_u8: "n < 256 \<Longrightarrow> unat (of_nat n :: u8) = n"
  by (simp add: unat_of_nat take_bit_nat_eq_self)

lemma short_length:
  assumes "n < 128"
  shows "(of_nat n :: u8) AND 0x80 = 0"
proof (rule bit_eqI)
  fix i
  have "\<not> bit n 7" using assms by (simp add: bit_iff_odd)
  then show "bit ((of_nat n :: u8) AND 0x80) i \<longleftrightarrow> bit (0 :: u8) i"
    using bit_exp_iff [of 7 i, where ?'a = u8] by (auto simp: bit_simps bit_of_nat_iff)
qed

lemma der_next_bytes:
  assumes "length v < 65536"
  shows "der_next (pre @ der_bytes tag v @ rest) (length pre) =
    Parsed (\<lparr>dv_tag = tag, dv_value = v\<rparr>, length pre + length (der_bytes tag v))"
proof -
  consider "length v < 128" | "128 \<le> length v" "length v < 256" | "256 \<le> length v" by linarith
  then show ?thesis
  proof cases
    case 1
    then show ?thesis
      by (simp add: der_next_def der_bytes_def nth_append short_length unat_of_nat_u8 der_content_def subspan_def)
  next
    case 2
    then show ?thesis
      by (simp add: der_next_def der_bytes_def nth_append unat_of_nat_u8 der_content_def subspan_def Let_def rd8_def)
  next
    case 3
    define input where "input = pre @ der_bytes tag v @ rest"
    have i: "length input = length pre + 4 + length v + length rest" "input ! length pre = tag" "input ! (length pre + 1) = 0x82"
      "input ! (length pre + 2) = of_nat (length v div 256)" "input ! Suc (Suc (Suc (length pre))) = of_nat (length v mod 256)"
      "drop (length pre + 4) input = v @ rest"
      using 3 by (simp_all add: input_def der_bytes_def nth_append)
    have small: "length v div 256 < 256" using assms by (simp add: less_mult_imp_div_less)
    have "length v div 256 \<le> drop_bit 8 (length input)" by (simp add: drop_bit_nat_def i div_le_mono)
    moreover have "push_bit 8 (length v div 256) OR (length v mod 256) = length v"
      using or_low [of "length v mod 256" 8 "length v div 256"] by simp
    ultimately have "der_length (Suc (Suc 0)) input (length pre + 2) 0 = Parsed (length v, length pre + 4)"
      using small i by (simp add: unat_of_nat_u8 del: of_nat_numeral)
    then have l: "der_length 2 input (length pre + 2) 0 = Parsed (length v, length pre + 4)" by (simp add: numeral_2_eq_2)
    have "der_content input tag (length v) (length pre + 4) = Parsed (\<lparr>dv_tag = tag, dv_value = v\<rparr>, length pre + 4 + length v)"
      using i by (simp add: der_content_def subspan_def)
    then have "der_next input (length pre) = Parsed (\<lparr>dv_tag = tag, dv_value = v\<rparr>, length pre + 4 + length v)"
      using i l by (simp add: der_next_def Let_def)
    then show ?thesis using 3 by (simp add: input_def der_bytes_def)
  qed
qed

lemma der_case_bytes:
  "length v < 65536 \<Longrightarrow> offset = length pre \<Longrightarrow>
     der_case (pre @ der_bytes tag v @ rest) offset failed k = k \<lparr>dv_tag = tag, dv_value = v\<rparr> (offset + length (der_bytes tag v))"
  by (simp add: der_case_def der_next_bytes)

lemmas der_case_first = der_case_bytes [where pre = "[]", simplified]
  der_case_bytes [where pre = "[]" and rest = "[]", simplified]

text \<open>The attributes the parser knows: label and last component of the identifier.\<close>

definition known_attributes :: "(string \<times> nat) list" where
  "known_attributes = [(''CN'', 3), (''C'', 6), (''L'', 7), (''ST'', 8), (''O'', 10), (''OU'', 11)]"

definition attribute_bytes :: "string \<times> nat \<Rightarrow> bytes \<Rightarrow> bytes" where
  "attribute_bytes a body = der_bytes 0x31 (der_bytes 0x30 (der_bytes 0x06 [0x55, 0x04, of_nat (snd a)] @ der_bytes 0x0C body))"

definition name_bytes :: "((string \<times> nat) \<times> bytes) list \<Rightarrow> bytes" where
  "name_bytes as = der_bytes 0x30 (concat (map (\<lambda>(a, body). attribute_bytes a body) as))"

lemma digit_chars:
  "char_of (48 :: nat) = CHR ''0''" "char_of (49 :: nat) = CHR ''1''" "char_of (50 :: nat) = CHR ''2''" "char_of (51 :: nat) = CHR ''3''"
  "char_of (52 :: nat) = CHR ''4''" "char_of (53 :: nat) = CHR ''5''" "char_of (54 :: nat) = CHR ''6''" "char_of (55 :: nat) = CHR ''7''"
  "char_of (56 :: nat) = CHR ''8''"
  by (simp_all add: char_of_def bit_0)

lemma known_label:
  assumes "a \<in> set known_attributes"
  shows "attribute_label (oid_text [0x55, 0x04, of_nat (snd a)]) = Some (fst a)"
proof -
  have "a = (''CN'', 3) \<or> a = (''C'', 6) \<or> a = (''L'', 7) \<or> a = (''ST'', 8) \<or> a = (''O'', 10) \<or> a = (''OU'', 11)"
    using assms by (auto simp: known_attributes_def)
  then show ?thesis
    by (elim disjE) (simp_all add: oid_text_def decimal_text.simps attribute_label_def size_max_def Let_def digit_chars)
qed

definition name_from :: "string \<Rightarrow> ((string \<times> nat) \<times> bytes) list \<Rightarrow> string" where
  "name_from out as =
     foldl (\<lambda>out (a, body). (if out \<noteq> [] then out @ '', '' else out) @ fst a @ ''='' @ bytes_text body) out as"

lemma name_from_length: "length out \<le> length (name_from out as)"
proof (induction as arbitrary: out)
  case (Cons x as)
  obtain a body where x: "x = (a, body)" by (cases x)
  show ?case using Cons [of "(if out \<noteq> [] then out @ '', '' else out) @ fst a @ ''='' @ bytes_text body"]
    by (auto simp: name_from_def x split: if_splits)
qed (simp add: name_from_def)

lemma name_loop_bytes:
  assumes "list_all (\<lambda>(a, body). a \<in> set known_attributes \<and> body \<noteq> [] \<and> length body \<le> 1024) as" and "length (name_from out as) \<le> 1024"
  shows "name_loop (pre @ concat (map (\<lambda>(a, body). attribute_bytes a body) as)) (length pre) out = Parsed (name_from out as)"
  using assms
proof (induction as arbitrary: pre out)
  case Nil
  then show ?case by (simp add: name_loop.simps name_from_def)
next
  case (Cons x as)
  obtain a body where x: "x = (a, body)" by (cases x)
  have a: "a \<in> set known_attributes" "body \<noteq> []" "length body \<le> 1024" using Cons.prems(1) by (auto simp: x)
  let ?oid = "[0x55, 0x04, of_nat (snd a)] :: bytes" and ?rest = "concat (map (\<lambda>(a, body). attribute_bytes a body) as)"
  let ?pair = "der_bytes 0x06 ?oid @ der_bytes 0x0C body" and ?out = "(if out \<noteq> [] then out @ '', '' else out) @ fst a @ ''='' @ bytes_text body"
  have l: "length (der_bytes t v) \<le> length v + 4" for t v by (simp add: der_bytes_def)
  have lens: "length ?pair < 65536" "length (der_bytes 0x30 ?pair) < 65536"
    using l [of "0x06" "?oid"] l [of "0x0C" body] l [of "0x30" "?pair"] a(3) by simp_all
  have f: "name_from out (x # as) = name_from ?out as" by (simp add: name_from_def x)
  then have "length ?out \<le> 1024" using name_from_length [where out = "?out" and as = as] Cons.prems(2) by simp
  moreover have "asn1_text \<lparr>dv_tag = 0x0C, dv_value = body\<rparr> = bytes_text body" "bytes_text body \<noteq> []"
    using a by (simp_all add: asn1_text_def bytes_text_def)
  ultimately have add: "add_attribute out \<lparr>dv_tag = 0x06, dv_value = ?oid\<rparr> \<lparr>dv_tag = 0x0C, dv_value = body\<rparr> = Some ?out"
    using known_label [OF a(1)] by (auto simp: add_attribute_def Let_def)
  have "name_loop (pre @ attribute_bytes a body @ ?rest) (length pre) out =
    name_loop (pre @ attribute_bytes a body @ ?rest) (length pre + length (attribute_bytes a body)) ?out"
    using lens a(3) add
    by (subst name_loop.simps)
      (simp add: attribute_bytes_def der_case_bytes der_case_first der_case_bytes [where rest = "[]", simplified] del: append_Cons; simp add: der_bytes_def)
  also have "\<dots> = Parsed (name_from ?out as)"
    using Cons.IH [of ?out "pre @ attribute_bytes a body"] Cons.prems f by (simp add: x)
  finally show ?case unfolding f by (simp add: x)
qed

lemma name_bytes_length:
  assumes "list_all (\<lambda>(a, body). a \<in> set known_attributes \<and> body \<noteq> [] \<and> length body \<le> 1024) as"
  shows "length (concat (map (\<lambda>(a, body). attribute_bytes a body) as)) + 7 * length out \<le> 7 * length (name_from out as)"
  using assms
proof (induction as arbitrary: out)
  case Nil
  then show ?case by (simp add: name_from_def)
next
  case (Cons x as)
  obtain a body where x: "x = (a, body)" by (cases x)
  let ?out = "(if out \<noteq> [] then out @ '', '' else out) @ fst a @ ''='' @ bytes_text body"
  have l: "length (der_bytes t v) \<le> length v + 4" for t v by (simp add: der_bytes_def)
  have "length (attribute_bytes a body) \<le> length body + 19"
    unfolding attribute_bytes_def
    using l [of "0x31" "der_bytes 0x30 (der_bytes 0x06 [0x55, 0x04, of_nat (snd a)] @ der_bytes 0x0C body)"]
      l [of "0x30" "der_bytes 0x06 [0x55, 0x04, of_nat (snd a)] @ der_bytes 0x0C body"] l [of "0x0C" body] l [of "0x06" "[0x55, 0x04, of_nat (snd a)]"]
    by simp
  moreover have "fst a \<noteq> []" "body \<noteq> []" using Cons.prems by (auto simp: x known_attributes_def)
  then have "length out + length body + 2 \<le> length ?out" "1 \<le> length body" by (auto simp: bytes_text_def Suc_le_eq)
  moreover have "length (name_from out (x # as)) = length (name_from ?out as)" by (simp add: name_from_def x)
  moreover have "length (concat (map (\<lambda>(a, body). attribute_bytes a body) as)) + 7 * length ?out \<le> 7 * length (name_from ?out as)"
    using Cons.prems by (intro Cons.IH) simp
  ultimately have "length (attribute_bytes a body) + length (concat (map (\<lambda>(a, body). attribute_bytes a body) as)) + 7 * length out
      \<le> 7 * length (name_from out (x # as))" by linarith
  then show ?case by (simp add: x)
qed

text \<open>
  The encoded name of a subject or issuer, with any of the six attributes the parser
  knows in any order and number, is read as their texts behind their labels, up to 1,024 bytes.
\<close>

theorem certificate_name_read:
  assumes "list_all (\<lambda>(a, body). a \<in> set known_attributes \<and> body \<noteq> [] \<and> length body \<le> 1024) as" and "length (name_from [] as) \<le> 1024"
  shows "parse_name (name_bytes as) = Parsed (name_from [] as)"
proof -
  have "length (concat (map (\<lambda>(a, body). attribute_bytes a body) as)) < 65536"
    using name_bytes_length [OF assms(1), of "[]"] assms(2) by simp
  then show ?thesis
    using name_loop_bytes [OF assms, of "[]"] by (simp add: parse_name_def name_bytes_def der_case_first)
qed

theorem certificate_name_read_witness:
  "parse_name (name_bytes [((''C'', 6), [0x44, 0x45]), ((''CN'', 3), [0x61])]) = Parsed ''C=DE, CN=a''"
  using certificate_name_read [of "[((''C'', 6), [0x44, 0x45]), ((''CN'', 3), [0x61])]"]
  by (simp add: known_attributes_def name_from_def bytes_text_def char_of_def bit_0)

end
