(* ===== verification/Service_Db.thy ===== *)
theory Service_Db
  imports Http_Parser Udp_Database Ordering Ieee_Float
begin

text \<open>
  The types of service detection (\<open>include/detect/service_types.hpp\<close>, \<open>src/detect/service_types.cpp\<close>)
  and the database of service probes (\<open>src/detect/service_db.cpp\<close>): the text format with its
  tokenizer and parser, the file loader, and the order in which the probes of a port are tried.
  Whether \<open>std::regex\<close> accepts a pattern is a parameter.
\<close>

section \<open>Types\<close>

datatype detection_state = DsDetected | DsUnknown | DsTimeout | DsConnectionClosed | DsResponseTooLarge
  | DsInvalidTarget | DsError

datatype detection_error = DeNone | DeTimeout | DeConnectionClosed | DeResponseTooLarge | DeInvalidTarget
  | DeTransportFailure | DeMalformedResponse | DeNoMatch | DeUnsupportedProtocol | DeInternalError

datatype detection_method = DmBanner | DmProbe | DmUnknown

record protocol_evidence =
  pe_validator :: string
  pe_kind :: string
  pe_version_source :: string
  pe_protocol_version :: string
  pe_status_code :: "nat option"
  pe_body_complete :: bool

fun detection_state_name :: "detection_state \<Rightarrow> string" where
  "detection_state_name DsDetected = ''DETECTED''"
| "detection_state_name DsUnknown = ''UNKNOWN''"
| "detection_state_name DsTimeout = ''TIMEOUT''"
| "detection_state_name DsConnectionClosed = ''CONNECTION_CLOSED''"
| "detection_state_name DsResponseTooLarge = ''RESPONSE_TOO_LARGE''"
| "detection_state_name DsInvalidTarget = ''INVALID_TARGET''"
| "detection_state_name DsError = ''ERROR''"

fun detection_error_name :: "detection_error \<Rightarrow> string" where
  "detection_error_name DeNone = ''NONE''"
| "detection_error_name DeTimeout = ''TIMEOUT''"
| "detection_error_name DeConnectionClosed = ''CONNECTION_CLOSED''"
| "detection_error_name DeResponseTooLarge = ''RESPONSE_TOO_LARGE''"
| "detection_error_name DeInvalidTarget = ''INVALID_TARGET''"
| "detection_error_name DeTransportFailure = ''TRANSPORT_FAILURE''"
| "detection_error_name DeMalformedResponse = ''MALFORMED_RESPONSE''"
| "detection_error_name DeNoMatch = ''NO_MATCH''"
| "detection_error_name DeUnsupportedProtocol = ''UNSUPPORTED_PROTOCOL''"
| "detection_error_name DeInternalError = ''INTERNAL_ERROR''"

fun detection_method_name :: "detection_method \<Rightarrow> string" where
  "detection_method_name DmBanner = ''banner''"
| "detection_method_name DmProbe = ''probe''"
| "detection_method_name DmUnknown = ''unknown''"

text \<open>A result; \<open>MqttConnackEvidence\<close> is its one field, the return code.\<close>

record service_result =
  sr_target :: string
  sr_port :: port
  sr_protocol :: protocol
  sr_port_state :: port_state
  sr_state :: detection_state
  sr_service :: string
  sr_product :: string
  sr_version :: string
  sr_extra :: string
  sr_confidence :: rat
  sr_method :: detection_method
  sr_probe_name :: string
  sr_rtt :: "rat option"
  sr_error :: detection_error
  sr_timestamp :: nat
  sr_hostname :: string
  sr_tunnel :: string
  sr_tls_detected :: bool
  sr_tls_version :: string
  sr_certificate_subject :: string
  sr_certificate_issuer :: string
  sr_certificate_san_names :: "string list"
  sr_certificate_not_before :: string
  sr_certificate_not_after :: string
  sr_alpn :: "string list"
  sr_mqtt :: "nat option"
  sr_evidence :: "protocol_evidence option"

fun detection_state_index :: "detection_state \<Rightarrow> nat" where
  "detection_state_index DsDetected = 0"
| "detection_state_index DsUnknown = 1"
| "detection_state_index DsTimeout = 2"
| "detection_state_index DsConnectionClosed = 3"
| "detection_state_index DsResponseTooLarge = 4"
| "detection_state_index DsInvalidTarget = 5"
| "detection_state_index DsError = 6"

definition service_result_less :: "service_result \<Rightarrow> service_result \<Rightarrow> bool" where
  "service_result_less l r =
     (if sr_target l \<noteq> sr_target r then lex_less (sr_target l) (sr_target r)
      else if port_number (sr_port l) \<noteq> port_number (sr_port r) then port_number (sr_port l) < port_number (sr_port r)
      else if sr_probe_name l \<noteq> sr_probe_name r then lex_less (sr_probe_name l) (sr_probe_name r)
      else detection_state_index (sr_state l) < detection_state_index (sr_state r))"

datatype match_type = MtExact | MtPrefix | MtSuffix | MtSubstring | MtRegex

datatype match_strength = MsSoft | MsHard

fun match_strength_name :: "match_strength \<Rightarrow> string" where
  "match_strength_name MsHard = ''hard''"
| "match_strength_name MsSoft = ''soft''"

fun match_type_name :: "match_type \<Rightarrow> string" where
  "match_type_name MtExact = ''exact''"
| "match_type_name MtPrefix = ''prefix''"
| "match_type_name MtSuffix = ''suffix''"
| "match_type_name MtSubstring = ''substring''"
| "match_type_name MtRegex = ''regex''"

record match_rule =
  mr_type :: match_type
  mr_pattern :: string
  mr_service :: string
  mr_product :: string
  mr_version :: string
  mr_extra :: string
  mr_hostname :: string
  mr_tunnel :: string
  mr_strength :: match_strength
  mr_confidence :: rat
  mr_specificity :: nat
  mr_compiled :: bool

definition new_match_rule :: match_rule where
  "new_match_rule =
     \<lparr>mr_type = MtPrefix, mr_pattern = [], mr_service = [], mr_product = [], mr_version = [], mr_extra = [],
      mr_hostname = [], mr_tunnel = [], mr_strength = MsHard, mr_confidence = 0, mr_specificity = 0, mr_compiled = False\<rparr>"

record probe_definition =
  pb_id :: string
  pb_name :: string
  pb_protocol :: protocol
  pb_rarity :: nat
  pb_priority :: nat
  pb_timeout :: "nat option"
  pb_port_hints :: "port list"
  pb_fallbacks :: "string list"
  pb_payload :: string
  pb_rules :: "match_rule list"

definition new_probe_definition :: probe_definition where
  "new_probe_definition =
     \<lparr>pb_id = [], pb_name = [], pb_protocol = Tcp, pb_rarity = 1, pb_priority = 50, pb_timeout = None,
      pb_port_hints = [], pb_fallbacks = [], pb_payload = [], pb_rules = []\<rparr>"

record service_database =
  sdb_status :: status_code
  sdb_probes :: "probe_definition list"

section \<open>Lines and tokens\<close>

fun without_comment_loop :: "string \<Rightarrow> bool \<Rightarrow> bool \<Rightarrow> string" where
  "without_comment_loop [] quoted escaped = []"
| "without_comment_loop (c # s) quoted escaped =
     (if escaped then c # without_comment_loop s quoted False
      else if quoted \<and> c = backslash then c # without_comment_loop s quoted True
      else if c = quote then c # without_comment_loop s (\<not> quoted) False
      else if \<not> quoted \<and> c = CHR ''#'' then []
      else c # without_comment_loop s quoted False)"

definition without_comment :: "string \<Rightarrow> string" where
  "without_comment s = without_comment_loop s False False"

definition decode_escape :: "char \<Rightarrow> char option" where
  "decode_escape c =
     (if c = CHR ''r'' then Some (CHR 0x0D) else if c = CHR ''n'' then Some (CHR 0x0A)
      else if c = CHR ''t'' then Some (CHR 0x09) else if c = backslash then Some backslash
      else if c = quote then Some quote else None)"

text \<open>An escape in a token: what it stands for and what follows it.\<close>

definition token_escape :: "string \<Rightarrow> (string \<times> string) option" where
  "token_escape s =
     (case s of
        [] \<Rightarrow> None
      | e # s1 \<Rightarrow>
          if e = CHR ''x'' \<and> length s1 \<ge> 2 then
            (case (hexadecimal_value (s1 ! 0), hexadecimal_value (s1 ! 1)) of
               (Some high, Some low) \<Rightarrow> Some ([char_of (16 * high + low)], drop 2 s1)
             | _ \<Rightarrow> Some ([backslash, e], s1))
          else (case decode_escape e of Some d \<Rightarrow> Some ([d], s1) | None \<Rightarrow> Some ([backslash, e], s1)))"

lemma token_escape_shorter: "token_escape s = Some (t, rest) \<Longrightarrow> length rest < length s"
  by (auto simp: token_escape_def split: list.splits option.splits if_splits)

function token_loop :: "string \<Rightarrow> string \<Rightarrow> bool \<Rightarrow> (string \<times> string) option" where
  "token_loop [] tok quoted = (if quoted then None else Some (tok, []))"
| "token_loop (c # s) tok quoted =
     (if c = quote then token_loop s tok (\<not> quoted)
      else if c = backslash then
        (case token_escape s of
           None \<Rightarrow> None
         | Some (t, rest) \<Rightarrow> token_loop rest (tok @ t) quoted)
      else if \<not> quoted \<and> is_space c then Some (tok, s)
      else token_loop s (tok @ [c]) quoted)"
  by pat_completeness auto
termination
  by (relation "measure (\<lambda>(s, _, _). length s)") (auto dest: token_escape_shorter)

lemma token_loop_shorter: "token_loop s tok quoted = Some (t, rest) \<Longrightarrow> length rest \<le> length s"
  by (induction s tok quoted rule: token_loop.induct)
    (fastforce split: if_splits option.splits dest: token_escape_shorter)+

lemma token_loop_progress:
  assumes "token_loop s tok quoted = Some (t, rest)" and "s \<noteq> []"
  shows "length rest < length s"
proof -
  obtain c u where s: "s = c # u" using assms(2) by (cases s) auto
  show ?thesis
    using assms(1) token_loop_shorter unfolding s
    by (fastforce split: if_splits option.splits dest: token_escape_shorter)
qed

function tokenize :: "string \<Rightarrow> string list option" where
  "tokenize line =
     (let s = dropWhile is_space line in
      if s = [] then Some []
      else case token_loop s [] False of
        None \<Rightarrow> None
      | Some (tok, rest) \<Rightarrow> map_option (Cons tok) (tokenize rest))"
  by pat_completeness auto
termination
proof (relation "measure length", goal_cases)
  case (2 line s p tok rest)
  then have "length rest < length s" using token_loop_progress [of s "[]" False tok rest] by metis
  also have "\<dots> \<le> length line" unfolding 2(1) by (rule length_dropWhile_le)
  finally show ?case by simp
qed simp

declare tokenize.simps [simp del]

definition split_assignment :: "string \<Rightarrow> (string \<times> string) option" where
  "split_assignment tok =
     (let k = takeWhile (\<lambda>c. c \<noteq> CHR ''='') tok; after = dropWhile (\<lambda>c. c \<noteq> CHR ''='') tok in
      if after = [] \<or> k = [] \<or> tl after = [] then None else Some (k, tl after))"

definition parse_unsigned :: "string \<Rightarrow> nat option" where
  "parse_unsigned s =
     (case from_chars unsigned_max s of Some (n, []) \<Rightarrow> Some n | _ \<Rightarrow> None)"

text \<open>
  \<open>std::from_chars\<close> on a \<open>double\<close>, of the whole text: an optional minus sign, digits with an optional
  point, an optional exponent. The spellings of infinity and of no number are left out: they are
  never at most 1. A result that rounds to zero or out of range is an error.
\<close>

definition exponent_value :: "string \<Rightarrow> int option" where
  "exponent_value s =
     (case s of
        [] \<Rightarrow> Some 0
      | c # s1 \<Rightarrow>
          if c \<noteq> CHR ''e'' \<and> c \<noteq> CHR ''E'' then None
          else
            let negative = (s1 \<noteq> [] \<and> hd s1 = CHR ''-'');
                ds = (if s1 \<noteq> [] \<and> (hd s1 = CHR ''-'' \<or> hd s1 = CHR ''+'') then tl s1 else s1)
            in if ds = [] \<or> \<not> list_all is_digit ds then None
               else Some (if negative then - int (decimal_value ds) else int (decimal_value ds)))"

definition double_value :: "string \<Rightarrow> rat option" where
  "double_value s =
     (let negative = (s \<noteq> [] \<and> hd s = CHR ''-''); s1 = (if negative then tl s else s);
          whole = takeWhile is_digit s1; after = dropWhile is_digit s1;
          has_point = (after \<noteq> [] \<and> hd after = CHR ''.'');
          frac = (if has_point then takeWhile is_digit (tl after) else []);
          rest = (if has_point then dropWhile is_digit (tl after) else after)
      in if whole @ frac = [] then None
         else case exponent_value rest of
           None \<Rightarrow> None
         | Some e \<Rightarrow>
             let v = of_nat (decimal_value (whole @ frac)) * 10 powi (e - int (length frac)); r = fl_double v in
             if (v \<noteq> 0 \<and> r = 0) \<or> 2 ^ 1024 \<le> r then None else Some (if negative then - r else r))"

definition parse_confidence :: "string \<Rightarrow> rat option" where
  "parse_confidence s =
     (case double_value s of None \<Rightarrow> None | Some x \<Rightarrow> if 0 \<le> x \<and> x \<le> 1 then Some x else None)"

definition parse_match_type :: "string \<Rightarrow> match_type option" where
  "parse_match_type s =
     (if s = ''exact'' then Some MtExact else if s = ''prefix'' then Some MtPrefix
      else if s = ''suffix'' then Some MtSuffix else if s = ''substring'' then Some MtSubstring
      else if s = ''regex'' then Some MtRegex else None)"

definition name_char :: "char \<Rightarrow> bool" where
  "name_char c \<longleftrightarrow> is_digit c \<or> (CHR ''a'' \<le> c \<and> c \<le> CHR ''z'') \<or> (CHR ''A'' \<le> c \<and> c \<le> CHR ''Z'') \<or>
     c = CHR ''_'' \<or> c = CHR ''-''"

function name_list_loop :: "string \<Rightarrow> string list \<Rightarrow> string list option" where
  "name_list_loop s names =
     (if s = [] then Some names
      else
        let name = takeWhile (\<lambda>c. c \<noteq> CHR '','') s; after = dropWhile (\<lambda>c. c \<noteq> CHR '','') s in
        if name = [] \<or> length names \<ge> 16 \<or> \<not> list_all name_char name then None
        else if after = [] then Some (names @ [name])
        else name_list_loop (tl after) (names @ [name]))"
  by pat_completeness auto
termination
proof (relation "measure (\<lambda>(s, _). length s)", goal_cases)
  case (2 s names name after)
  have "length after \<le> length s" unfolding 2(3) by (rule length_dropWhile_le)
  then show ?case using 2(1,5) by (cases after) auto
qed simp

declare name_list_loop.simps [simp del]

definition parse_name_list :: "string \<Rightarrow> string list \<Rightarrow> string list option" where
  "parse_name_list s names =
     (case name_list_loop s names of
        None \<Rightarrow> None
      | Some names' \<Rightarrow> if names' = [] then None else Some names')"

fun regex_scan :: "string \<Rightarrow> nat \<Rightarrow> bool \<Rightarrow> bool" where
  "regex_scan [] captures escaped = (\<not> escaped)"
| "regex_scan (c # s) captures escaped =
     (if escaped then (if CHR ''1'' \<le> c \<and> c \<le> CHR ''9'' then False else regex_scan s captures False)
      else if c = backslash then regex_scan s captures True
      else
        let captures' = (if c = CHR ''('' then captures + 1 else captures) in
        if captures' > 16 then False
        else if (c = CHR ''*'' \<or> c = CHR ''+'') \<and> length s \<ge> 2 \<and> s ! 0 = CHR '')'' \<and>
          (s ! 1 = CHR ''*'' \<or> s ! 1 = CHR ''+'' \<or> s ! 1 = CHR ''{'') then False
        else regex_scan s captures' False)"

definition regex_is_bounded :: "string \<Rightarrow> bool" where
  "regex_is_bounded pattern \<longleftrightarrow> length pattern \<le> 512 \<and> regex_scan pattern 0 False"

section \<open>The parser\<close>

text \<open>
  A failed parse returns the database either emptied (\<open>fail\<close>) or as it was when the line failed
  (\<open>return database\<close>): \<open>Inl True\<close> and \<open>Inl False\<close>.
\<close>

definition probe_option :: "string \<Rightarrow> string \<Rightarrow> probe_definition \<Rightarrow> bool + probe_definition" where
  "probe_option k v d =
     (if k = ''rarity'' then
        (case parse_unsigned v of
           None \<Rightarrow> Inl False
         | Some n \<Rightarrow> if n = 0 then Inl False else Inr (d\<lparr>pb_rarity := n\<rparr>))
      else if k = ''priority'' then
        (case parse_unsigned v of
           None \<Rightarrow> Inl True
         | Some n \<Rightarrow> if n = 0 \<or> n > 100 then Inl True else Inr (d\<lparr>pb_priority := n\<rparr>))
      else if k = ''timeout'' then
        (case parse_unsigned v of
           None \<Rightarrow> Inl True
         | Some n \<Rightarrow> if n = 0 \<or> n > 60000 then Inl True else Inr (d\<lparr>pb_timeout := Some n\<rparr>))
      else if k = ''fallback'' then
        (case parse_name_list v (pb_fallbacks d) of
           None \<Rightarrow> Inl True
         | Some names \<Rightarrow> Inr (d\<lparr>pb_fallbacks := names\<rparr>))
      else if k = ''ports'' then
        (case (if pb_protocol d = Udp then parse_udp_ports v else parse_tcp_ports v) of
           (st, ports) \<Rightarrow> if st \<noteq> Ok then Inl False else Inr (d\<lparr>pb_port_hints := ports\<rparr>))
      else if k = ''protocol'' then
        (if (v = ''tcp'' \<and> pb_protocol d = Tcp) \<or> (v = ''udp'' \<and> pb_protocol d = Udp) then Inr d else Inl True)
      else Inl True)"

fun probe_options :: "string list \<Rightarrow> probe_definition \<Rightarrow> bool + probe_definition" where
  "probe_options [] d = Inr d"
| "probe_options (tok # toks) d =
     (case split_assignment tok of
        None \<Rightarrow> Inl True
      | Some (k, v) \<Rightarrow> (case probe_option k v d of Inl cleared \<Rightarrow> Inl cleared | Inr d' \<Rightarrow> probe_options toks d'))"

text \<open>The options of a rule, with the three flags \<open>has_pattern\<close>, \<open>has_service\<close> and \<open>has_confidence\<close>.\<close>

record rule_state =
  rs_rule :: match_rule
  rs_pattern :: bool
  rs_service :: bool
  rs_confidence :: bool

definition rule_option :: "string \<Rightarrow> string \<Rightarrow> rule_state \<Rightarrow> bool + rule_state" where
  "rule_option k v r =
     (let set_rule = (\<lambda>rule. Inr (r\<lparr>rs_rule := rule\<rparr>)); rule = rs_rule r in
      if k = ''type'' then
        (case parse_match_type v of None \<Rightarrow> Inl False | Some t \<Rightarrow> set_rule (rule\<lparr>mr_type := t\<rparr>))
      else if k = ''pattern'' then
        (if length v > 4096 then Inl True else Inr (r\<lparr>rs_rule := rule\<lparr>mr_pattern := v\<rparr>, rs_pattern := True\<rparr>))
      else if k = ''service'' then Inr (r\<lparr>rs_rule := rule\<lparr>mr_service := v\<rparr>, rs_service := True\<rparr>)
      else if k = ''product'' then set_rule (rule\<lparr>mr_product := v\<rparr>)
      else if k = ''version'' then set_rule (rule\<lparr>mr_version := v\<rparr>)
      else if k = ''extra'' then set_rule (rule\<lparr>mr_extra := v\<rparr>)
      else if k = ''hostname'' then set_rule (rule\<lparr>mr_hostname := v\<rparr>)
      else if k = ''tunnel'' then set_rule (rule\<lparr>mr_tunnel := v\<rparr>)
      else if k = ''confidence'' then
        (case parse_confidence v of
           None \<Rightarrow> Inl False
         | Some x \<Rightarrow> Inr (r\<lparr>rs_rule := rule\<lparr>mr_confidence := x\<rparr>, rs_confidence := True\<rparr>))
      else Inl True)"

fun rule_options :: "string list \<Rightarrow> rule_state \<Rightarrow> bool + rule_state" where
  "rule_options [] r = Inr r"
| "rule_options (tok # toks) r =
     (case split_assignment tok of
        None \<Rightarrow> Inl True
      | Some (k, v) \<Rightarrow> (case rule_option k v r of Inl cleared \<Rightarrow> Inl cleared | Inr r' \<Rightarrow> rule_options toks r'))"

definition base_specificity :: "match_type \<Rightarrow> nat" where
  "base_specificity t =
     (if t = MtExact then 4000 else if t = MtPrefix then 3000 else if t = MtSubstring then 2000 else 1000)"

definition parse_rule :: "(string \<Rightarrow> bool) \<Rightarrow> string list \<Rightarrow> nat \<Rightarrow> bool + match_rule" where
  "parse_rule regex_valid toks rules =
     (case rule_options (tl toks)
         \<lparr>rs_rule = new_match_rule\<lparr>mr_strength := (if hd toks = ''softmatch'' then MsSoft else MsHard)\<rparr>,
          rs_pattern = False, rs_service = False, rs_confidence = False\<rparr> of
        Inl cleared \<Rightarrow> Inl cleared
      | Inr r \<Rightarrow>
          let rule = rs_rule r in
          if \<not> rs_pattern r \<or> \<not> rs_service r \<or> \<not> rs_confidence r \<or> rules \<ge> 256 then Inl True
          else if mr_type rule = MtRegex \<and> (\<not> regex_is_bounded (mr_pattern rule) \<or> \<not> regex_valid (mr_pattern rule))
          then Inl True
          else Inr (rule\<lparr>mr_compiled := mr_type rule = MtRegex,
                         mr_specificity := base_specificity (mr_type rule) + length (mr_pattern rule)\<rparr>))"

definition parse_probe :: "string list \<Rightarrow> nat \<Rightarrow> bool + probe_definition" where
  "parse_probe toks probes =
     (if length toks < 3 \<or> (toks ! 1 \<noteq> ''TCP'' \<and> toks ! 1 \<noteq> ''UDP'') then Inl True
      else if probes \<ge> 256 then Inl True
      else probe_options (drop 3 toks)
        (new_probe_definition\<lparr>pb_id := toks ! 2, pb_name := toks ! 2,
           pb_protocol := (if toks ! 1 = ''UDP'' then Udp else Tcp)\<rparr>))"

text \<open>One line; the probe that \<open>send\<close> and \<open>match\<close> belong to is the last one.\<close>

definition parse_line :: "(string \<Rightarrow> bool) \<Rightarrow> string \<Rightarrow> probe_definition list \<Rightarrow> bool + probe_definition list" where
  "parse_line regex_valid line probes =
     (if length line > 16384 then Inl True
      else
        let content = trim (without_comment line) in
        if content = [] then Inr probes
        else case tokenize content of
          None \<Rightarrow> Inl True
        | Some [] \<Rightarrow> Inl True
        | Some (keyword # args) \<Rightarrow>
            if keyword = ''Probe'' then
              (case parse_probe (keyword # args) (length probes) of
                 Inl cleared \<Rightarrow> Inl cleared
               | Inr d \<Rightarrow> Inr (probes @ [d]))
            else if keyword = ''send'' then
              (if probes = [] \<or> length args \<noteq> 1 then Inl True
               else Inr (butlast probes @ [(last probes)\<lparr>pb_payload := hd args\<rparr>]))
            else if keyword = ''match'' \<or> keyword = ''softmatch'' then
              (if probes = [] then Inl True
               else case parse_rule regex_valid (keyword # args) (length (pb_rules (last probes))) of
                 Inl cleared \<Rightarrow> Inl cleared
               | Inr rule \<Rightarrow> Inr (butlast probes @ [(last probes)\<lparr>pb_rules := pb_rules (last probes) @ [rule]\<rparr>]))
            else Inl True)"

text \<open>The lines up to the first that fails; \<open>Inl\<close> holds the probes the failed parse leaves.\<close>

fun parse_lines ::
  "(string \<Rightarrow> bool) \<Rightarrow> string list \<Rightarrow> probe_definition list \<Rightarrow> probe_definition list + probe_definition list" where
  "parse_lines regex_valid [] probes = Inr probes"
| "parse_lines regex_valid (line # lines) probes =
     (case parse_line regex_valid line probes of
        Inl cleared \<Rightarrow> Inl (if cleared then [] else probes)
      | Inr probes' \<Rightarrow> parse_lines regex_valid lines probes')"

definition find_probe :: "probe_definition list \<Rightarrow> string \<Rightarrow> nat option" where
  "find_probe probes name = find (\<lambda>i. pb_name (probes ! i) = name) [0..<length probes]"

definition fallbacks_valid :: "probe_definition list \<Rightarrow> probe_definition \<Rightarrow> bool" where
  "fallbacks_valid probes probe \<longleftrightarrow>
     distinct (pb_fallbacks probe) \<and>
     list_all (\<lambda>name. name \<noteq> pb_name probe \<and>
       (case find_probe probes name of
          None \<Rightarrow> False
        | Some i \<Rightarrow> pb_protocol (probes ! i) = pb_protocol probe)) (pb_fallbacks probe)"

definition probes_valid :: "probe_definition list \<Rightarrow> bool" where
  "probes_valid probes \<longleftrightarrow>
     probes \<noteq> [] \<and> list_all (\<lambda>p. pb_id p \<noteq> []) probes \<and> distinct (map pb_name probes) \<and>
     list_all (fallbacks_valid probes) probes"

definition parse_service_database :: "(string \<Rightarrow> bool) \<Rightarrow> string \<Rightarrow> status_code \<times> service_database" where
  "parse_service_database regex_valid contents =
     (if length contents > 1048576 then (ParseError, \<lparr>sdb_status = ParseError, sdb_probes = []\<rparr>)
      else case parse_lines regex_valid (text_lines contents) [] of
        Inl probes \<Rightarrow> (ParseError, \<lparr>sdb_status = ParseError, sdb_probes = probes\<rparr>)
      | Inr probes \<Rightarrow>
          if probes_valid probes then (Ok, \<lparr>sdb_status = Ok, sdb_probes = probes\<rparr>)
          else (ParseError, \<lparr>sdb_status = ParseError, sdb_probes = []\<rparr>))"

text \<open>
  \<open>load_file\<close>: the stream does not open, or delivers chunks and then stops at the end of the file
  (\<open>True\<close>) or at an error. The status beside the database is the reference argument.
\<close>

definition load_service_file :: "(string \<Rightarrow> bool) \<Rightarrow> (string list \<times> bool) option \<Rightarrow> status_code \<times> service_database" where
  "load_service_file regex_valid stream =
     (case stream of
        None \<Rightarrow> (NotFound, \<lparr>sdb_status = NotFound, sdb_probes = []\<rparr>)
      | Some (chunks, eof) \<Rightarrow>
          (case read_chunks chunks [] of
             None \<Rightarrow> (ParseError, \<lparr>sdb_status = Ok, sdb_probes = []\<rparr>)
           | Some contents \<Rightarrow>
               if \<not> eof then (IoError, \<lparr>sdb_status = Ok, sdb_probes = []\<rparr>)
               else parse_service_database regex_valid contents))"

text \<open>\<open>built_in\<close>, from the file of the installation and the text compiled in.\<close>

definition built_in_service_database ::
  "(string \<Rightarrow> bool) \<Rightarrow> string \<Rightarrow> (string list \<times> bool) option \<Rightarrow> service_database" where
  "built_in_service_database regex_valid compiled_in stream =
     (case load_service_file regex_valid stream of
        (st, db) \<Rightarrow> if st \<noteq> NotFound then db else snd (parse_service_database regex_valid compiled_in))"

section \<open>The order of the probes\<close>

definition has_hint :: "probe_definition list \<Rightarrow> port \<Rightarrow> nat \<Rightarrow> bool" where
  "has_hint probes p i \<longleftrightarrow> list_ex (\<lambda>hint. port_number hint = port_number p) (pb_port_hints (probes ! i))"

definition probe_before :: "probe_definition list \<Rightarrow> port \<Rightarrow> bool \<Rightarrow> nat \<Rightarrow> nat \<Rightarrow> bool" where
  "probe_before probes p any_hint l r =
     (let left_hint = has_hint probes p l; right_hint = has_hint probes p r;
          left_generic = (pb_port_hints (probes ! l) = []); right_generic = (pb_port_hints (probes ! r) = []);
          a = probes ! l; b = probes ! r
      in if left_hint \<noteq> right_hint then left_hint
         else if \<not> any_hint \<and> left_generic \<noteq> right_generic then left_generic
         else if pb_priority a \<noteq> pb_priority b then pb_priority a > pb_priority b
         else if pb_rarity a \<noteq> pb_rarity b then pb_rarity a < pb_rarity b
         else if pb_name a \<noteq> pb_name b then lex_less (pb_name a) (pb_name b)
         else l < r)"

definition append_unique :: "nat \<Rightarrow> nat \<Rightarrow> nat list \<Rightarrow> nat list" where
  "append_unique max_count i ordered =
     (if length ordered < max_count \<and> i \<notin> set ordered then ordered @ [i] else ordered)"

definition append_fallbacks :: "probe_definition list \<Rightarrow> nat \<Rightarrow> nat \<Rightarrow> nat list \<Rightarrow> nat list" where
  "append_fallbacks probes max_count i ordered =
     fold (\<lambda>name ordered.
       case find_probe probes name of None \<Rightarrow> ordered | Some j \<Rightarrow> append_unique max_count j ordered)
       (pb_fallbacks (probes ! i)) ordered"

definition ordered_probe_indices :: "service_database \<Rightarrow> port \<Rightarrow> nat \<Rightarrow> nat list" where
  "ordered_probe_indices db p max_count =
     (if max_count = 0 \<or> sdb_status db \<noteq> Ok then []
      else
        let probes = sdb_probes db;
            candidates = filter (\<lambda>i. pb_protocol (probes ! i) = port_protocol p) [0..<length probes];
            any_hint = list_ex (has_hint probes p) candidates;
            indices = sort_by (probe_before probes p any_hint) candidates;
            hinted = filter (has_hint probes p) indices;
            first_part = (if any_hint then fold (append_fallbacks probes max_count) hinted (fold (append_unique max_count) hinted [])
                          else [])
        in fold (append_unique max_count) indices first_part)"

end
