(* ===== verification/Service_Db_Facts.thy ===== *)
theory Service_Db_Facts
  imports Service_Db
begin

text \<open>
  What a database of service probes promises once it is loaded, the order in which the probes of a
  port are tried, and what is left of a database that is not loaded.
\<close>

section \<open>The comparison of the probes\<close>

lemma total_greater: "strict_total_order ((>) :: nat \<Rightarrow> nat \<Rightarrow> bool)"
  by (rule strict_total_orderI) auto

lemma probe_before_then_by:
  "probe_before probes p any_hint l r \<longleftrightarrow>
     then_by (<) (\<lambda>i. if has_hint probes p i then 0 else 1 :: nat)
       (then_by (<) (\<lambda>i. if any_hint \<or> pb_port_hints (probes ! i) = [] then 0 else 1 :: nat)
         (then_by (>) (\<lambda>i. pb_priority (probes ! i))
           (then_by (<) (\<lambda>i. pb_rarity (probes ! i))
             (then_by lex_less (\<lambda>i. pb_name (probes ! i)) (by_key (<) (\<lambda>i. i)))))) l r"
  by (auto simp: probe_before_def then_by_def by_key_def Let_def)

lemma probe_before_weak: "strict_weak_order (probe_before probes p any_hint)"
  by (rule strict_weak_order_cong [OF _ probe_before_then_by])
    (intro weak_then_by weak_by_key total_linorder total_lex total_greater)

lemma total_then_by:
  assumes "strict_total_order lt" and "rest x y \<or> rest y x"
  shows "then_by lt k rest x y \<or> then_by lt k rest y x"
  using assms unfolding strict_total_order_def strict_total_order_axioms_def then_by_def by metis

interpretation probe_order: strict_total_order "probe_before probes p any_hint" for probes p any_hint
proof (intro strict_total_order.intro strict_total_order_axioms.intro probe_before_weak)
  fix l r :: nat
  assume "l \<noteq> r"
  then have "by_key (<) (\<lambda>i. i) l r \<or> by_key (<) (\<lambda>i. i) r l" by (auto simp: by_key_def)
  then show "probe_before probes p any_hint l r \<or> probe_before probes p any_hint r l"
    unfolding probe_before_then_by by (intro total_then_by total_linorder total_lex total_greater)
qed

text \<open>\<open>service_result_less\<close>, by which the results are sorted.\<close>

lemma service_result_less_then_by:
  "service_result_less l r \<longleftrightarrow>
     then_by lex_less sr_target
       (then_by (<) (\<lambda>x. port_number (sr_port x))
         (then_by lex_less sr_probe_name (by_key (<) (\<lambda>x. detection_state_index (sr_state x))))) l r"
  by (auto simp: service_result_less_def then_by_def by_key_def)

interpretation service_results: strict_weak_order service_result_less
  by (rule strict_weak_order_cong [OF _ service_result_less_then_by])
    (intro weak_then_by weak_by_key total_linorder total_lex)

section \<open>Appending each probe once\<close>

lemma append_unique_props:
  assumes "distinct xs"
  shows "distinct (append_unique m i xs)" "set (append_unique m i xs) \<subseteq> insert i (set xs)"
    "set xs \<subseteq> set (append_unique m i xs)" "length (append_unique m i xs) \<le> max m (length xs)"
    "length (append_unique m i xs) < m \<Longrightarrow> i \<in> set (append_unique m i xs)"
    "\<exists>ys. append_unique m i xs = xs @ ys"
  using assms by (auto simp: append_unique_def)

lemma fold_append_unique:
  assumes "distinct xs" and "length xs \<le> m"
  shows "distinct (fold (append_unique m) is xs) \<and> set (fold (append_unique m) is xs) \<subseteq> set is \<union> set xs \<and>
    length (fold (append_unique m) is xs) \<le> m \<and> (\<exists>ys. fold (append_unique m) is xs = xs @ ys) \<and>
    (length (fold (append_unique m) is xs) < m \<longrightarrow> set is \<subseteq> set (fold (append_unique m) is xs))"
  using assms
proof (induction "is" arbitrary: xs)
  case (Cons i "is")
  let ?xs = "append_unique m i xs"
  have d: "distinct ?xs" "length ?xs \<le> m" using append_unique_props [OF Cons.prems(1), of m i] Cons.prems(2) by auto
  obtain ys where ys: "fold (append_unique m) is ?xs = ?xs @ ys" using Cons.IH [OF d] by auto
  obtain zs where zs: "?xs = xs @ zs" using append_unique_props(6) [OF Cons.prems(1)] by auto
  have "i \<in> set (fold (append_unique m) is ?xs)" if "length (fold (append_unique m) is ?xs) < m"
    using append_unique_props(5) [OF Cons.prems(1), of m i] that ys by auto
  then show ?case using Cons.IH [OF d] append_unique_props(2) [OF Cons.prems(1), of m i] ys zs by auto
qed simp

lemma fold_append_unique_distinct:
  "distinct (xs @ is) \<Longrightarrow> length xs \<le> m \<Longrightarrow> fold (append_unique m) is xs = xs @ take (m - length xs) is"
proof (induction "is" arbitrary: xs)
  case (Cons i "is")
  show ?case
  proof (cases "length xs < m")
    case True
    then have "append_unique m i xs = xs @ [i]" using Cons.prems by (simp add: append_unique_def)
    moreover have "m - length xs = Suc (m - Suc (length xs))" using True by simp
    ultimately show ?thesis using Cons.IH [of "xs @ [i]"] Cons.prems True by simp
  next
    case False
    then have "fold (append_unique m) js xs = xs" for js
      by (induction js) (simp_all add: append_unique_def)
    from this [of "i # is"] show ?thesis using False by simp
  qed
qed simp

definition extends :: "nat \<Rightarrow> nat set \<Rightarrow> nat list \<Rightarrow> nat list \<Rightarrow> bool" where
  "extends m A xs zs \<longleftrightarrow> distinct zs \<and> length zs \<le> m \<and> set zs \<subseteq> A \<union> set xs \<and> (\<exists>ys. zs = xs @ ys)"

lemma extends_refl: "distinct xs \<Longrightarrow> length xs \<le> m \<Longrightarrow> extends m A xs xs"
  by (simp add: extends_def)

lemma extends_trans: "extends m A xs ys \<Longrightarrow> extends m A ys zs \<Longrightarrow> extends m A xs zs"
  by (auto simp: extends_def)

lemma extends_append: "i \<in> A \<Longrightarrow> distinct xs \<Longrightarrow> length xs \<le> m \<Longrightarrow> extends m A xs (append_unique m i xs)"
  by (auto simp: extends_def append_unique_def)

lemma extends_fold:
  assumes "\<And>x xs. x \<in> set l \<Longrightarrow> distinct xs \<Longrightarrow> length xs \<le> m \<Longrightarrow> extends m A xs (f x xs)"
    and "distinct xs" and "length xs \<le> m"
  shows "extends m A xs (fold f l xs)"
  using assms
proof (induction l arbitrary: xs)
  case (Cons x l)
  have e: "extends m A xs (f x xs)" using Cons.prems by auto
  then show ?case using Cons.IH [of "f x xs"] Cons.prems(1) extends_trans [OF e] by (auto simp: extends_def)
qed (simp add: extends_refl)

lemma find_probe_Some: "find_probe probes name = Some i \<Longrightarrow> i < length probes \<and> pb_name (probes ! i) = name"
  by (auto simp: find_probe_def find_Some_iff)

lemma append_fallbacks_extends:
  assumes "probes_valid probes" and "i < length probes" and "distinct xs" and "length xs \<le> m"
  shows "extends m {j. j < length probes \<and> pb_protocol (probes ! j) = pb_protocol (probes ! i)} xs
    (append_fallbacks probes m i xs)"
  unfolding append_fallbacks_def
proof (rule extends_fold [OF _ assms(3,4)])
  fix name and zs :: "nat list"
  assume name: "name \<in> set (pb_fallbacks (probes ! i))" and zs: "distinct zs" "length zs \<le> m"
  have "fallbacks_valid probes (probes ! i)" using assms(1,2) by (simp add: probes_valid_def list_all_length)
  then have "case find_probe probes name of None \<Rightarrow> False | Some j \<Rightarrow> pb_protocol (probes ! j) = pb_protocol (probes ! i)"
    using name by (auto simp: fallbacks_valid_def list_all_iff)
  then obtain j where j: "find_probe probes name = Some j" "pb_protocol (probes ! j) = pb_protocol (probes ! i)"
    by (auto split: option.splits)
  show "extends m {j. j < length probes \<and> pb_protocol (probes ! j) = pb_protocol (probes ! i)} zs
    (case find_probe probes name of None \<Rightarrow> zs | Some j \<Rightarrow> append_unique m j zs)"
    using find_probe_Some [OF j(1)] j zs by (simp add: extends_append)
qed

lemma fallbacks_extend:
  assumes "probes_valid probes" and "list_all (\<lambda>i. i < length probes \<and> pb_protocol (probes ! i) = prot) is"
    and "distinct xs" and "length xs \<le> m"
  shows "extends m {j. j < length probes \<and> pb_protocol (probes ! j) = prot} xs (fold (append_fallbacks probes m) is xs)"
proof (rule extends_fold [OF _ assms(3,4)])
  fix i and zs :: "nat list"
  assume "i \<in> set is" and zs: "distinct zs" "length zs \<le> m"
  then have "i < length probes" "pb_protocol (probes ! i) = prot" using assms(2) by (auto simp: list_all_iff)
  then show "extends m {j. j < length probes \<and> pb_protocol (probes ! j) = prot} zs (append_fallbacks probes m i zs)"
    using append_fallbacks_extends [OF assms(1) _ zs, of i] by simp
qed

text \<open>What is ordered: the hinted probes first, then anything of the same protocol, then every candidate.\<close>

lemma complete_order:
  assumes ext: "extends m (set is) (take m h) zs" and h: "distinct h" "set h = {i \<in> set is. P i}" and d: "distinct is"
  shows "let order = fold (append_unique m) is zs
     in distinct order \<and> length order = min m (length is) \<and> set order \<subseteq> set is \<and>
        (\<exists>rest. order = take m h @ rest \<and> list_all (\<lambda>i. \<not> P i) rest)"
proof -
  define order where "order = fold (append_unique m) is zs"
  have z: "distinct zs" "length zs \<le> m" "set zs \<subseteq> set is"
    using ext h set_take_subset [of m h] by (auto simp: extends_def)
  obtain ys where ys: "zs = take m h @ ys" using ext by (auto simp: extends_def)
  obtain ws where ws: "order = zs @ ws" using fold_append_unique [OF z(1,2), of "is"] by (auto simp: order_def)
  have o: "distinct order" "length order \<le> m" "set order \<subseteq> set is" "length order < m \<Longrightarrow> set is \<subseteq> set order"
    using fold_append_unique [OF z(1,2), of "is"] z(3) by (auto simp: order_def)
  have le: "length order \<le> length is" using card_mono [OF _ o(3)] o(1) d by (simp add: distinct_card)
  have "length is \<le> length order" if "length order < m"
    using card_mono [OF _ o(4) [OF that]] o(1) d by (simp add: distinct_card)
  then have len: "length order = min m (length is)" using le o(2) by linarith
  have "\<not> P i" if i: "i \<in> set (ys @ ws)" for i
  proof (cases "length h \<le> m")
    case True
    then have "i \<notin> set h" using o(1) ws ys i by auto
    moreover have "i \<in> set is" using o(3) ws ys i by auto
    ultimately show ?thesis using h(2) by auto
  next
    case False
    then have "ys @ ws = []" using o(2) ws ys by simp
    then show ?thesis using i by simp
  qed
  then have "list_all (\<lambda>i. \<not> P i) (ys @ ws)" by (simp add: list_all_iff)
  moreover have "order = take m h @ (ys @ ws)" using ws ys by simp
  ultimately have "\<exists>rest. order = take m h @ rest \<and> list_all (\<lambda>i. \<not> P i) rest" by blast
  then show ?thesis using o len by (simp add: Let_def flip: order_def)
qed

text \<open>
  Property C27. The probes tried for a port are distinct, all of the protocol of the port, and as many as
  allowed or all there are; first come those with a hint for the port, by priority, rarity and name,
  and the rest holds none of them.
\<close>

theorem probe_order_exact:
  assumes "sdb_status db = Ok" and "probes_valid (sdb_probes db)"
  shows "let probes = sdb_probes db; order = ordered_probe_indices db p m;
            candidates = filter (\<lambda>i. pb_protocol (probes ! i) = port_protocol p) [0..<length probes];
            hinted = filter (has_hint probes p) (sort_by (probe_before probes p True) candidates)
         in distinct order \<and> length order = min m (length candidates) \<and> set order \<subseteq> set candidates \<and>
            sorted_wrt (\<lambda>a b. \<not> probe_before probes p True b a) hinted \<and>
            (\<exists>rest. order = take m hinted @ rest \<and> list_all (\<lambda>i. \<not> has_hint probes p i) rest)"
proof -
  define probes where "probes = sdb_probes db"
  define candidates where "candidates = filter (\<lambda>i. pb_protocol (probes ! i) = port_protocol p) [0..<length probes]"
  define any_hint where "any_hint = list_ex (has_hint probes p) candidates"
  define indices where "indices = sort_by (probe_before probes p any_hint) candidates"
  define hinted where "hinted = filter (has_hint probes p) (sort_by (probe_before probes p True) candidates)"
  define before where "before = (if any_hint then fold (append_fallbacks probes m) hinted (fold (append_unique m) hinted []) else [])"
  have ds: "distinct (sort_by f candidates)" for f
    by (metis candidates_def distinct_filter distinct_upt mset_sort_by mset_eq_imp_distinct_iff)
  have di: "distinct indices" "set indices = set candidates" "length indices = length candidates" and dh: "distinct hinted"
    using ds by (simp_all add: indices_def hinted_def)
  have none: "hinted = []" if "\<not> any_hint"
    using that by (auto simp: hinted_def any_hint_def filter_empty_conv list_ex_iff)
  have same: "filter (has_hint probes p) indices = hinted" if any_hint
    using that by (simp add: indices_def hinted_def)
  have order: "ordered_probe_indices db p m = (if m = 0 then [] else fold (append_unique m) indices before)"
    unfolding ordered_probe_indices_def before_def
    using assms(1) same by (simp add: Let_def candidates_def any_hint_def indices_def probes_def)
  have first: "fold (append_unique m) hinted [] = take m hinted"
    using fold_append_unique_distinct [of "[]" hinted m] dh by simp
  have all: "set indices = {j. j < length probes \<and> pb_protocol (probes ! j) = port_protocol p}"
    using di(2) by (auto simp: candidates_def)
  have "list_all (\<lambda>i. i < length probes \<and> pb_protocol (probes ! i) = port_protocol p) hinted"
    by (auto simp: hinted_def list_all_iff candidates_def)
  then have ext: "extends m (set indices) (take m hinted) before"
    using fallbacks_extend [of probes "port_protocol p" hinted "take m hinted" m] assms(2) dh none
    unfolding before_def first all by (simp add: extends_refl probes_def)
  have sub: "set hinted = {i \<in> set indices. has_hint probes p i}"
    unfolding di(2) by (auto simp: hinted_def)
  have sorted: "sorted_wrt (\<lambda>a b. \<not> probe_before probes p True b a) hinted"
    unfolding hinted_def by (intro sorted_wrt_filter probe_order.sorted_sort_by)
  show ?thesis
    using complete_order [OF ext dh sub di(1)] sorted none
    by (simp add: Let_def order di all [unfolded di(2)] flip: probes_def candidates_def hinted_def)
qed

theorem probe_order_exact_witness:
  "let db = \<lparr>sdb_status = Ok, sdb_probes =
         [new_probe_definition\<lparr>pb_id := ''null'', pb_name := ''null''\<rparr>,
          new_probe_definition\<lparr>pb_id := ''http'', pb_name := ''http'', pb_fallbacks := [''null''],
            pb_port_hints := [\<lparr>port_number = 80, port_protocol = Tcp\<rparr>]\<rparr>]\<rparr>;
       order = ordered_probe_indices db \<lparr>port_number = 80, port_protocol = Tcp\<rparr> 1
   in distinct order \<and> length order = 1 \<and> hd order = 1"
proof -
  let ?null = "new_probe_definition\<lparr>pb_id := ''null'', pb_name := ''null''\<rparr>"
  let ?http = "new_probe_definition\<lparr>pb_id := ''http'', pb_name := ''http'', pb_fallbacks := [''null''],
            pb_port_hints := [\<lparr>port_number = 80, port_protocol = Tcp\<rparr>]\<rparr>"
  let ?db = "\<lparr>sdb_status = Ok, sdb_probes = [?null, ?http]\<rparr>" and ?p = "\<lparr>port_number = 80, port_protocol = Tcp\<rparr> :: port"
  have ok: "sdb_status ?db = Ok" by simp
  have valid: "probes_valid (sdb_probes ?db)"
    by (simp add: probes_valid_def fallbacks_valid_def new_probe_definition_def find_probe_def)
  have candidates: "filter (\<lambda>i. pb_protocol ([?null, ?http] ! i) = Tcp) [0..<2] = [0, 1]"
    by (simp add: new_probe_definition_def upt_rec)
  define sorted where "sorted = sort_by (probe_before [?null, ?http] ?p True) [0, 1]"
  define hint where "hint = has_hint [?null, ?http] ?p"
  have known: "hint 1" "\<not> hint 0" by (simp_all add: hint_def has_hint_def new_probe_definition_def)
  have "mset sorted = {#0, 1#}" unfolding sorted_def by simp
  then have "mset (filter hint sorted) = filter_mset hint {#0, 1#}" by simp
  also have "\<dots> = {#1#}" using known by simp
  finally have hinted: "filter hint sorted = [1]" by (simp flip: mset_filter)
  have two: "[0..<length [?null, ?http]] = [0..<2]" by (simp add: upt_rec)
  show ?thesis
    using probe_order_exact [OF ok valid, of ?p 1]
    by (simp only: Let_def service_database.simps port.simps two candidates hinted flip: sorted_def hint_def) auto
qed

section \<open>What a loaded database promises\<close>

definition rule_sound :: "(string \<Rightarrow> bool) \<Rightarrow> match_rule \<Rightarrow> bool" where
  "rule_sound regex_valid rule \<longleftrightarrow>
     0 \<le> mr_confidence rule \<and> mr_confidence rule \<le> 1 \<and> length (mr_pattern rule) \<le> 4096 \<and>
     mr_specificity rule = base_specificity (mr_type rule) + length (mr_pattern rule) \<and>
     (mr_compiled rule \<longleftrightarrow> mr_type rule = MtRegex) \<and>
     (mr_type rule = MtRegex \<longrightarrow> regex_is_bounded (mr_pattern rule) \<and> regex_valid (mr_pattern rule))"

definition probe_sound :: "(string \<Rightarrow> bool) \<Rightarrow> probe_definition \<Rightarrow> bool" where
  "probe_sound regex_valid d \<longleftrightarrow>
     1 \<le> pb_rarity d \<and> 1 \<le> pb_priority d \<and> pb_priority d \<le> 100 \<and>
     (case pb_timeout d of None \<Rightarrow> True | Some t \<Rightarrow> 1 \<le> t \<and> t \<le> 60000) \<and>
     length (pb_fallbacks d) \<le> 16 \<and> list_all (list_all name_char) (pb_fallbacks d) \<and>
     length (pb_rules d) \<le> 256 \<and> list_all (rule_sound regex_valid) (pb_rules d)"

lemma name_list_loop_sound:
  "name_list_loop s names = Some names' \<Longrightarrow> length names \<le> 16 \<Longrightarrow> list_all (list_all name_char) names \<Longrightarrow>
   length names' \<le> 16 \<and> list_all (list_all name_char) names'"
proof (induction s names rule: name_list_loop.induct)
  case (1 s names)
  show ?case
  proof (cases "s = []")
    case True
    then show ?thesis using 1(2-4) by (simp add: name_list_loop.simps)
  next
    case False
    let ?name = "takeWhile (\<lambda>c. c \<noteq> CHR '','') s" and ?after = "dropWhile (\<lambda>c. c \<noteq> CHR '','') s"
    have "name_list_loop s names = (if ?name = [] \<or> length names \<ge> 16 \<or> \<not> list_all name_char ?name then None
        else if ?after = [] then Some (names @ [?name]) else name_list_loop (tl ?after) (names @ [?name]))"
      using False by (subst name_list_loop.simps) (simp only: Let_def if_False)
    then have ok: "\<not> (?name = [] \<or> length names \<ge> 16 \<or> \<not> list_all name_char ?name)"
      and r: "if ?after = [] then names' = names @ [?name] else name_list_loop (tl ?after) (names @ [?name]) = Some names'"
      using 1(2) by (simp_all split: if_splits del: takeWhile_eq_Nil_iff dropWhile_eq_Nil_conv)
    have "length (names @ [?name]) \<le> 16" "list_all (list_all name_char) (names @ [?name])"
      using ok 1(4) by (simp_all del: takeWhile_eq_Nil_iff)
    then show ?thesis
      using r 1(1) [OF False refl refl ok] by (metis (no_types, lifting))
  qed
qed

lemma parse_name_list_sound:
  "parse_name_list s names = Some names' \<Longrightarrow> length names \<le> 16 \<Longrightarrow> list_all (list_all name_char) names \<Longrightarrow>
   length names' \<le> 16 \<and> list_all (list_all name_char) names'"
  using name_list_loop_sound by (auto simp: parse_name_list_def split: option.splits if_splits)

lemma probe_option_sound:
  assumes "probe_option k v d = Inr d'" and "probe_sound regex_valid d"
  shows "probe_sound regex_valid d'"
proof -
  have s: "probe_sound regex_valid (d\<lparr>pb_rarity := n\<rparr>) \<longleftrightarrow> 1 \<le> n"
    "probe_sound regex_valid (d\<lparr>pb_priority := n\<rparr>) \<longleftrightarrow> 1 \<le> n \<and> n \<le> 100"
    "probe_sound regex_valid (d\<lparr>pb_timeout := Some n\<rparr>) \<longleftrightarrow> 1 \<le> n \<and> n \<le> 60000"
    "probe_sound regex_valid (d\<lparr>pb_fallbacks := names\<rparr>) \<longleftrightarrow>
       length names \<le> 16 \<and> list_all (list_all name_char) names"
    "probe_sound regex_valid (d\<lparr>pb_port_hints := ports\<rparr>)" for n names ports
    using assms(2) by (auto simp: probe_sound_def)
  have names: "length names \<le> 16 \<and> list_all (list_all name_char) names"
    if "parse_name_list v (pb_fallbacks d) = Some names" for names
    using parse_name_list_sound [OF that] assms(2) by (simp add: probe_sound_def)
  consider "k = ''rarity''" | "k = ''priority''" | "k = ''timeout''" | "k = ''fallback''" | "k = ''ports''" | "k = ''protocol''"
    using assms(1) by (auto simp: probe_option_def split: if_splits)
  then show ?thesis
  proof cases
    case 4
    then show ?thesis using assms(1) names by (auto simp: probe_option_def s split: option.splits)
  next
    case 5
    then show ?thesis using assms(1) by (simp add: probe_option_def s split: prod.splits if_splits) (metis s(5))+
  qed (use assms in \<open>auto simp: probe_option_def s split: option.splits if_splits\<close>)
qed

lemma probe_options_sound:
  "probe_options toks d = Inr d' \<Longrightarrow> probe_sound regex_valid d \<Longrightarrow> probe_sound regex_valid d'"
proof (induction toks d rule: probe_options.induct)
  case (2 tok toks d)
  show ?case using 2(2,3) by (auto split: option.splits sum.splits prod.splits dest: probe_option_sound intro: 2(1))
qed simp

lemma new_probe_sound:
  "probe_sound regex_valid (new_probe_definition\<lparr>pb_id := i, pb_name := n, pb_protocol := protocol\<rparr>)"
  by (simp add: probe_sound_def new_probe_definition_def)

definition confidence_ok :: "rule_state \<Rightarrow> bool" where
  "confidence_ok r \<longleftrightarrow> 0 \<le> mr_confidence (rs_rule r) \<and> mr_confidence (rs_rule r) \<le> 1 \<and> length (mr_pattern (rs_rule r)) \<le> 4096"

lemma rule_option_sound: "rule_option k v r = Inr r' \<Longrightarrow> confidence_ok r \<Longrightarrow> confidence_ok r'"
  by (auto simp: rule_option_def confidence_ok_def Let_def parse_confidence_def split: option.splits if_splits)

lemma rule_options_sound: "rule_options toks r = Inr r' \<Longrightarrow> confidence_ok r \<Longrightarrow> confidence_ok r'"
proof (induction toks r rule: rule_options.induct)
  case (2 tok toks r)
  show ?case using 2(2,3) by (auto split: option.splits sum.splits prod.splits dest: rule_option_sound intro: 2(1))
qed simp

lemma parse_rule_sound: "parse_rule regex_valid toks n = Inr rule \<Longrightarrow> n < 256 \<and> rule_sound regex_valid rule"
  using rule_options_sound [of "tl toks"]
  by (auto simp: parse_rule_def Let_def rule_sound_def confidence_ok_def new_match_rule_def
      split: sum.splits if_splits)

definition probes_sound :: "(string \<Rightarrow> bool) \<Rightarrow> probe_definition list \<Rightarrow> bool" where
  "probes_sound regex_valid probes \<longleftrightarrow> length probes \<le> 256 \<and> list_all (probe_sound regex_valid) probes"

lemma probes_sound_update:
  assumes "probes_sound regex_valid probes" and "probes \<noteq> []" and "probe_sound regex_valid d"
  shows "probes_sound regex_valid (butlast probes @ [d])"
  using assms by (cases probes rule: rev_cases) (auto simp: probes_sound_def)

lemma last_probe_sound: "probes_sound regex_valid probes \<Longrightarrow> probes \<noteq> [] \<Longrightarrow> probe_sound regex_valid (last probes)"
  by (simp add: probes_sound_def list_all_iff)

lemma parse_line_sound:
  assumes "parse_line regex_valid line probes = Inr probes'" and "probes_sound regex_valid probes"
  shows "probes_sound regex_valid probes'"
proof -
  have probe: "probes_sound regex_valid (probes @ [d])" if "parse_probe toks (length probes) = Inr d" for toks d
    using that assms(2) probe_options_sound [OF _ new_probe_sound]
    by (auto simp: parse_probe_def probes_sound_def split: if_splits)
  have send: "probes_sound regex_valid (butlast probes @ [(last probes)\<lparr>pb_payload := w\<rparr>])" if "probes \<noteq> []" for w
    using probes_sound_update [OF assms(2) that] last_probe_sound [OF assms(2) that] by (simp add: probe_sound_def)
  have rule: "probes_sound regex_valid (butlast probes @ [(last probes)\<lparr>pb_rules := pb_rules (last probes) @ [rule]\<rparr>])"
    if "probes \<noteq> []" "parse_rule regex_valid toks (length (pb_rules (last probes))) = Inr rule" for toks rule
    using probes_sound_update [OF assms(2) that(1)] last_probe_sound [OF assms(2) that(1)] parse_rule_sound [OF that(2)]
    by (simp add: probe_sound_def)
  show ?thesis
    using assms probe send rule
    by (auto simp: parse_line_def Let_def split: if_splits option.splits list.splits sum.splits)
qed

lemma parse_lines_sound:
  "parse_lines regex_valid ls probes = Inr probes' \<Longrightarrow> probes_sound regex_valid probes \<Longrightarrow> probes_sound regex_valid probes'"
  by (induction regex_valid ls probes rule: parse_lines.induct) (auto split: sum.splits dest: parse_line_sound)

text \<open>
  Property C28. A text that parses as a database of service probes holds at most 256 probes with distinct
  names, a positive rarity, a priority of at most 100, a timeout of at most a minute and at most 16 fallbacks, each a
  probe of the same protocol; each rule has a confidence between 0 and 1 and, when it is a regular
  expression, one that is bounded and compiles. Any other text is a parse error.
\<close>

theorem service_database_sound:
  "case parse_service_database regex_valid contents of (st, db) \<Rightarrow>
     sdb_status db = st \<and>
     (if st = Ok then
        sdb_probes db \<noteq> [] \<and> length (sdb_probes db) \<le> 256 \<and> distinct (map pb_name (sdb_probes db)) \<and>
        list_all (probe_sound regex_valid) (sdb_probes db) \<and>
        list_all (fallbacks_valid (sdb_probes db)) (sdb_probes db)
      else st = ParseError)"
proof -
  have "probes_sound regex_valid probes" if "parse_lines regex_valid ls [] = Inr probes" for ls probes
    using parse_lines_sound [OF that] by (simp add: probes_sound_def)
  then show ?thesis
    by (auto simp: parse_service_database_def probes_sound_def probes_valid_def split: sum.splits)
qed

section \<open>A file that cannot be read\<close>

lemma read_chunks_full:
  assumes "list_all (\<lambda>c. length c \<le> 4096) chunks" and "length (concat chunks) > 1048576"
  shows "read_chunks chunks [] = None"
proof -
  have "concat chunks \<noteq> []" using assms(2) by (cases "concat chunks") simp_all
  then have "chunks \<noteq> []" "concat chunks \<noteq> []" by auto
  moreover have "\<forall>chunk\<in>set chunks. length chunk \<le> 8192" using assms(1) by (auto simp: list_all_iff)
  ultimately show ?thesis using assms(2) read_chunks_concat [of chunks "[]"] by (simp del: concat_eq_Nil_conv)
qed

text \<open>
  Property C29. When the installed file of service probes is larger than a mebibyte, or reading it fails, the
  built-in database has the status Ok and no probes: the probes compiled into the program are not used,
  and no port is probed for its service.
\<close>

theorem unreadable_database_is_ok:
  assumes "list_all (\<lambda>c. length c \<le> 4096) chunks" and "\<not> eof \<or> length (concat chunks) > 1048576"
  shows "let db = built_in_service_database regex_valid compiled_in (Some (chunks, eof))
     in sdb_status db = Ok \<and> sdb_probes db = [] \<and> ordered_probe_indices db p m = []"
proof -
  have "eof \<Longrightarrow> read_chunks chunks [] = None" using assms read_chunks_full by blast
  then show ?thesis
    by (cases "read_chunks chunks []"; cases eof)
      (simp_all add: built_in_service_database_def load_service_file_def Let_def ordered_probe_indices_def sort_by_def)
qed

theorem unreadable_database_is_ok_witness:
  "let db = built_in_service_database (\<lambda>_. True) ''Probe TCP a'' (Some (replicate 257 (replicate 4096 CHR ''a''), True))
   in sdb_status db = Ok \<and> sdb_probes db = [] \<and> ordered_probe_indices db \<lparr>port_number = 80, port_protocol = Tcp\<rparr> 4 = []"
  by (rule unreadable_database_is_ok) (simp_all add: length_concat sum_list_replicate list_all_iff)

end
