(* ===== verification/Service_Matcher.thy ===== *)
theory Service_Matcher
  imports Service_Db Identity_Parsers Tls_Metadata
begin

text \<open>
  The matcher of service responses (\<open>src/detect/service_matcher.cpp\<close>): what a rule of a probe makes of
  a response, the four protocols whose answer is validated instead of trusted to the rule, and the
  choice of the best candidate. \<open>std::regex_search\<close> is a parameter: from the pattern and the subject
  to the groups of the first match, the whole match first, \<open>None\<close> for a group that took no part.
\<close>

section \<open>Results\<close>

record service_match =
  sm_matched :: bool
  sm_service :: string
  sm_product :: string
  sm_version :: string
  sm_extra :: string
  sm_hostname :: string
  sm_tunnel :: string
  sm_strength :: match_strength
  sm_tls :: tls_metadata
  sm_confidence :: rat
  sm_priority :: nat
  sm_specificity :: nat
  sm_rule_index :: nat
  sm_mqtt :: "nat option"
  sm_evidence :: "protocol_evidence option"

definition no_match :: service_match where
  "no_match =
     \<lparr>sm_matched = False, sm_service = [], sm_product = [], sm_version = [], sm_extra = [], sm_hostname = [],
      sm_tunnel = [], sm_strength = MsHard, sm_tls = no_tls, sm_confidence = 0, sm_priority = 0,
      sm_specificity = 0, sm_rule_index = 0, sm_mqtt = None, sm_evidence = None\<rparr>"

text \<open>\<open>strength\<close> as it is compared.\<close>

fun strength_rank :: "match_strength \<Rightarrow> nat" where
  "strength_rank MsSoft = 0"
| "strength_rank MsHard = 1"

definition match_is_publishable :: "service_match \<Rightarrow> bool" where
  "match_is_publishable m \<longleftrightarrow> sm_matched m \<and> (sm_strength m = MsHard \<or> hundredths 60 \<le> sm_confidence m)"

definition match_is_better :: "service_match \<Rightarrow> service_match \<Rightarrow> bool" where
  "match_is_better candidate incumbent =
     (let candidate_publishable = match_is_publishable candidate;
          incumbent_publishable = match_is_publishable incumbent
      in if \<not> sm_matched candidate then False
         else if \<not> sm_matched incumbent then True
         else if sm_strength candidate \<noteq> sm_strength incumbent
         then strength_rank (sm_strength candidate) > strength_rank (sm_strength incumbent)
         else if candidate_publishable \<noteq> incumbent_publishable then candidate_publishable
         else if sm_priority candidate \<noteq> sm_priority incumbent then sm_priority candidate > sm_priority incumbent
         else if sm_confidence candidate \<noteq> sm_confidence incumbent
         then sm_confidence candidate > sm_confidence incumbent
         else if sm_specificity candidate \<noteq> sm_specificity incumbent
         then sm_specificity candidate > sm_specificity incumbent
         else case (sm_evidence candidate, sm_evidence incumbent) of
           (Some c, Some i) \<Rightarrow> if pe_body_complete c \<noteq> pe_body_complete i then pe_body_complete c else False
         | _ \<Rightarrow> False)"

section \<open>Validators\<close>

text \<open>The request the validator of MQTT is scoped to.\<close>

definition mqtt_request :: string where
  "mqtt_request =
     [CHR 0x10, CHR 0x10, CHR 0x00, CHR 0x04, CHR ''M'', CHR ''Q'', CHR ''T'', CHR ''T'', CHR 0x04, CHR 0x02,
      CHR 0x00, CHR 0x0A, CHR 0x00, CHR 0x04, CHR ''s'', CHR ''k'', CHR ''a'', CHR ''n'']"

definition validate_mqtt_connack :: "probe_definition \<Rightarrow> string \<Rightarrow> nat option" where
  "validate_mqtt_connack probe response =
     (let octet = (\<lambda>i. of_char (response ! i) :: nat) in
      if pb_protocol probe \<noteq> Tcp \<or> pb_payload probe \<noteq> mqtt_request \<or> length response < 4 then None
      else if octet 0 \<noteq> 0x20 \<or> octet 1 \<noteq> 0x02 \<or> octet 2 \<noteq> 0 \<or> octet 3 > 5 then None
      else Some (octet 3))"

function first_ssh_line :: "string \<Rightarrow> string" where
  "first_ssh_line s =
     (if s = [] then []
      else
        let raw = takeWhile (\<lambda>c. c \<noteq> CHR 0x0A) s; after = dropWhile (\<lambda>c. c \<noteq> CHR 0x0A) s;
            line = (if raw \<noteq> [] \<and> List.last raw = CHR 0x0D then butlast raw else raw) in
        if starts_with line ''SSH-'' then line
        else if after = [] then []
        else first_ssh_line (tl after))"
  by pat_completeness auto
termination
proof (relation "measure length", goal_cases)
  case (2 s raw after line)
  have "length after \<le> length s" unfolding 2(3) by (rule length_dropWhile_le)
  then show ?case using 2(1,6) by (cases after) auto
qed simp

declare first_ssh_line.simps [simp del]

definition is_ssh_rule :: "match_rule \<Rightarrow> bool" where
  "is_ssh_rule rule =
     (if mr_service rule \<noteq> ''ssh'' then False
      else if mr_type rule = MtRegex then starts_with (mr_pattern rule) ''^SSH-''
      else if mr_type rule = MtPrefix then starts_with (mr_pattern rule) ''SSH-''
      else False)"

section \<open>Rules\<close>

text \<open>A template with the groups of a match; \<open>None\<close> is the null pointer.\<close>

function expand_loop :: "string option list \<Rightarrow> string \<Rightarrow> string" where
  "expand_loop groups [] = []"
| "expand_loop groups (c # s) =
     (if c \<noteq> CHR ''$'' \<or> s = [] \<or> \<not> is_digit (hd s) then c # expand_loop groups s
      else
        let digits = takeWhile is_digit s; rest = dropWhile is_digit s;
            part = (case from_chars unsigned_max digits of
                None \<Rightarrow> c # digits
              | Some (g, _) \<Rightarrow>
                  if g < length groups then (case groups ! g of Some v \<Rightarrow> v | None \<Rightarrow> c # digits) else c # digits)
        in part @ expand_loop groups rest)"
  by pat_completeness auto
termination
  by (relation "measure (\<lambda>(_, s). length s)") (auto simp: le_imp_less_Suc length_dropWhile_le)

definition expand_template :: "string \<Rightarrow> string option list option \<Rightarrow> string" where
  "expand_template v matches = (case matches of None \<Rightarrow> v | Some groups \<Rightarrow> expand_loop groups v)"

definition rule_priority :: "match_rule \<Rightarrow> nat" where
  "rule_priority rule =
     (case mr_type rule of
        MtExact \<Rightarrow> 4
      | MtPrefix \<Rightarrow> 3
      | MtSuffix \<Rightarrow> 3
      | MtSubstring \<Rightarrow> 2
      | MtRegex \<Rightarrow> if mr_pattern rule \<noteq> [] \<and> hd (mr_pattern rule) = CHR ''^'' then 4 else 1)"

type_synonym regex_search = "string \<Rightarrow> string \<Rightarrow> string option list option"

text \<open>The groups of the match; a rule that is no regular expression leaves them empty.\<close>

definition rule_matches :: "regex_search \<Rightarrow> match_rule \<Rightarrow> string \<Rightarrow> string option list option" where
  "rule_matches search rule response =
     (let ssh = is_ssh_rule rule; subject = (if ssh then first_ssh_line response else response);
          found = (\<lambda>b. if b then Some [] else None)
      in if ssh \<and> subject = [] then None
         else case mr_type rule of
           MtExact \<Rightarrow> found (subject = mr_pattern rule)
         | MtPrefix \<Rightarrow> found (length (mr_pattern rule) \<le> length subject \<and> starts_with subject (mr_pattern rule))
         | MtSuffix \<Rightarrow>
             found (length (mr_pattern rule) \<le> length subject \<and>
               drop (length subject - length (mr_pattern rule)) subject = mr_pattern rule)
         | MtSubstring \<Rightarrow> found (find_pattern (mr_pattern rule) subject \<noteq> None)
         | MtRegex \<Rightarrow> if \<not> mr_compiled rule then None else search (mr_pattern rule) subject)"

section \<open>HTTP\<close>

definition safe_char :: "char \<Rightarrow> bool" where
  "safe_char c \<longleftrightarrow> (CHR ''A'' \<le> c \<and> c \<le> CHR ''Z'') \<or> (CHR ''a'' \<le> c \<and> c \<le> CHR ''z'') \<or> is_digit c \<or>
     c = CHR ''.'' \<or> c = CHR ''-'' \<or> c = CHR ''_'' \<or> c = CHR ''+''"

definition safe_name :: "string \<Rightarrow> bool" where
  "safe_name v \<longleftrightarrow> v \<noteq> [] \<and> length v \<le> 128 \<and> list_all safe_char v"

definition server_parts :: "string \<Rightarrow> string \<times> string" where
  "server_parts server =
     (let name = takeWhile (\<lambda>c. c \<noteq> CHR ''/'') server;
          version = takeWhile (\<lambda>c. c \<noteq> CHR '' '') (tl (dropWhile (\<lambda>c. c \<noteq> CHR ''/'') server))
      in if starts_with server ''Jetty('' \<and> List.last server = CHR '')'' then (''Jetty'', drop 6 (butlast server))
         else (name, version))"

definition product_name :: "string \<Rightarrow> string" where
  "product_name name =
     (if name = ''Apache'' then ''Apache-httpd''
      else if name = ''Apache-Coyote'' then ''Apache-Tomcat''
      else if name = ''openresty'' then ''OpenResty''
      else if name = ''cloudflare'' then ''Cloudflare''
      else if name = ''uvicorn'' then ''Uvicorn''
      else if name = ''gunicorn'' then ''Gunicorn''
      else name)"

definition http_identity :: "http_response \<Rightarrow> service_match" where
  "http_identity http =
     (if hr_state http = HttpIncomplete \<or> hr_state http = HttpMalformed then no_match
      else
        let evidence =
              \<lparr>pe_validator = ''http-1x-v1'', pe_kind = ''protocol'', pe_version_source = [],
               pe_protocol_version = hr_protocol_version http, pe_status_code = Some (hr_status_code http),
               pe_body_complete = (hr_state http = HttpComplete)\<rparr>;
            m = no_match\<lparr>sm_matched := True, sm_service := ''http'', sm_strength := MsSoft,
              sm_confidence := hundredths 72, sm_priority := 3, sm_extra := ''HTTP/'' @ hr_protocol_version http,
              sm_evidence := Some evidence\<rparr>
        in if hr_ambiguous_server http \<or> hr_server http = [] then m
           else
             let (name, version) = server_parts (hr_server http) in
             if \<not> safe_name name \<or> (version \<noteq> [] \<and> \<not> safe_name version) then m
             else
               let version' = (if version \<noteq> [] \<and> \<not> is_digit (hd version) then [] else version) in
               m\<lparr>sm_product := product_name name, sm_version := version', sm_confidence := hundredths 90,
                 sm_priority := 4,
                 sm_evidence := Some (evidence\<lparr>pe_kind := ''header'',
                   pe_version_source := (if version' \<noteq> [] then ''Server'' else [])\<rparr>)\<rparr>)"

section \<open>Candidates\<close>

definition search_candidate :: "http_response \<Rightarrow> search_identity \<Rightarrow> nat \<Rightarrow> service_match" where
  "search_candidate http identity index =
     no_match\<lparr>sm_matched := True, sm_service := si_service identity, sm_product := si_product identity,
       sm_version := si_version identity, sm_confidence := hundredths 97, sm_priority := 6, sm_rule_index := index,
       sm_evidence := Some \<lparr>pe_validator = ''search-root-json-v1'', pe_kind = ''structured'',
         pe_version_source = ''version.number'', pe_protocol_version = hr_protocol_version http,
         pe_status_code = Some (hr_status_code http), pe_body_complete = True\<rparr>\<rparr>"

definition zookeeper_candidate :: "zookeeper_identity \<Rightarrow> nat \<Rightarrow> service_match" where
  "zookeeper_candidate identity index =
     no_match\<lparr>sm_matched := True, sm_service := ''zookeeper'', sm_product := ''Apache-ZooKeeper'',
       sm_version := zk_version identity, sm_extra := ''mode '' @ zk_mode identity, sm_confidence := hundredths 97,
       sm_priority := 6, sm_rule_index := index,
       sm_evidence := Some \<lparr>pe_validator = ''zookeeper-srvr-v1'', pe_kind = ''structured'',
         pe_version_source = ''Zookeeper version'', pe_protocol_version = [], pe_status_code = None,
         pe_body_complete = True\<rparr>\<rparr>"

text \<open>The candidate a rule of the database gives by itself; MQTT needs its validator.\<close>

definition corpus_candidate ::
  "probe_definition \<Rightarrow> string \<Rightarrow> http_response option \<Rightarrow> nat \<Rightarrow> match_rule \<Rightarrow> string \<Rightarrow> string option list \<Rightarrow>
   service_match option" where
  "corpus_candidate probe response http index rule service groups =
     (let matches = (if mr_type rule = MtRegex then Some groups else None);
          m = no_match\<lparr>sm_matched := True, sm_service := service,
            sm_product := expand_template (mr_product rule) matches,
            sm_version := expand_template (mr_version rule) matches,
            sm_extra := expand_template (mr_extra rule) matches,
            sm_hostname := expand_template (mr_hostname rule) matches,
            sm_tunnel := expand_template (mr_tunnel rule) matches,
            sm_strength := mr_strength rule, sm_confidence := mr_confidence rule,
            sm_priority := rule_priority rule, sm_specificity := mr_specificity rule, sm_rule_index := index\<rparr>;
          m1 = (case http of
              None \<Rightarrow> m
            | Some h \<Rightarrow>
                let e = m\<lparr>sm_evidence := Some \<lparr>pe_validator = ''http-1x-v1'', pe_kind = ''legacy-rule'',
                  pe_version_source = ''corpus-rule'', pe_protocol_version = hr_protocol_version h,
                  pe_status_code = Some (hr_status_code h), pe_body_complete = (hr_state h = HttpComplete)\<rparr>\<rparr>
                in if hr_state h \<noteq> HttpComplete then e\<lparr>sm_strength := MsSoft\<rparr> else e)
      in if service \<noteq> ''mqtt'' then Some m1
         else case validate_mqtt_connack probe response of
           None \<Rightarrow> None
         | Some code \<Rightarrow> Some (m1\<lparr>sm_mqtt := Some code, sm_product := [], sm_version := []\<rparr>))"

text \<open>What the loop knows of the response: the parsed HTTP response when it looks like one.\<close>

definition search_of :: "probe_definition \<Rightarrow> http_response \<Rightarrow> search_identity option" where
  "search_of probe http =
     (let request = (case find_pattern crlf (pb_payload probe) of None \<Rightarrow> pb_payload probe | Some (line, _) \<Rightarrow> line) in
      if pb_protocol probe = Tcp \<and> (request = ''GET / HTTP/1.0'' \<or> request = ''GET / HTTP/1.1'') \<and>
         hr_state http = HttpComplete \<and> hr_status_code http = 200 \<and> hr_json_content http \<and> hr_identity_encoding http
      then parse_search_identity (hr_body http) else None)"

text \<open>
  The candidate of a rule whose service is known: four services are validated, any other is what the
  rule says when it matches. \<open>matches\<close> is the match a templated service has already made.
\<close>

definition service_candidate ::
  "probe_definition \<Rightarrow> string \<Rightarrow> bool \<Rightarrow> http_response option \<Rightarrow> nat \<Rightarrow> match_rule \<Rightarrow> string \<Rightarrow>
   string option list option \<Rightarrow> service_match option" where
  "service_candidate probe response terminal http index rule service matches =
     (let payload = pb_payload probe in
      if service = ''http'' then map_option (\<lambda>h. (http_identity h)\<lparr>sm_rule_index := index\<rparr>) http
      else if service = ''elasticsearch'' \<or> service = ''opensearch'' then
        (case Option.bind http (search_of probe) of
           None \<Rightarrow> None
         | Some identity \<Rightarrow>
             if si_service identity \<noteq> service then None else Some (search_candidate (the http) identity index))
      else if service = ''zookeeper'' \<and> (payload = ''srvr'' \<or> payload = ''srvr'' @ [CHR 0x0A]) then
        (case (if pb_protocol probe = Tcp then parse_zookeeper_srvr response terminal else None) of
           None \<Rightarrow> None
         | Some identity \<Rightarrow> Some (zookeeper_candidate identity index))
      else if service = ''zookeeper'' \<and>
        (pb_protocol probe \<noteq> Tcp \<or> \<not> (payload = ''ruok'' \<or> payload = ''ruok'' @ [CHR 0x0A]) \<or> response \<noteq> ''imok'')
      then None
      else
        case matches of
          None \<Rightarrow> None
        | Some groups \<Rightarrow> corpus_candidate probe response http index rule service groups)"

definition rule_candidate ::
  "regex_search \<Rightarrow> probe_definition \<Rightarrow> string \<Rightarrow> bool \<Rightarrow> http_response option \<Rightarrow> nat \<Rightarrow> match_rule \<Rightarrow>
   service_match option" where
  "rule_candidate search probe response terminal http index rule =
     (let subject = (case http of None \<Rightarrow> response | Some h \<Rightarrow> hr_headers h @ hr_body h);
          templated = (mr_type rule = MtRegex \<and> CHR ''$'' \<in> set (mr_service rule));
          matches = rule_matches search rule subject
      in if \<not> templated then service_candidate probe response terminal http index rule (mr_service rule) matches
         else if matches = None then None
         else service_candidate probe response terminal http index rule (expand_template (mr_service rule) matches) matches)"

section \<open>The matcher\<close>

definition response_bytes :: "string \<Rightarrow> bytes" where
  "response_bytes = map (\<lambda>c. of_nat (of_char c))"

text \<open>A better candidate replaces the best one; what runs over TLS is given its metadata then.\<close>

definition adopt :: "string \<Rightarrow> service_match \<Rightarrow> service_match \<Rightarrow> service_match" where
  "adopt response best candidate =
     (if \<not> match_is_better candidate best then best
      else if sm_tunnel candidate = ''tls'' \<or> sm_service candidate = ''tls'' \<or> sm_service candidate = ''https'' then
        (case parse_tls_metadata (response_bytes response) of
           Parsed m \<Rightarrow> candidate\<lparr>sm_tls := m\<rparr>
         | _ \<Rightarrow> candidate)
      else candidate)"

definition match_step ::
  "(nat \<Rightarrow> match_rule \<Rightarrow> service_match option) \<Rightarrow> string \<Rightarrow> nat \<times> match_rule \<Rightarrow> service_match \<Rightarrow> service_match" where
  "match_step candidate response rule best =
     (case candidate (fst rule) (snd rule) of None \<Rightarrow> best | Some c \<Rightarrow> adopt response best c)"

definition http_of :: "string \<Rightarrow> bool \<Rightarrow> http_response option" where
  "http_of response terminal =
     (if starts_with response ''HTTP/'' then Some (parse_http_response response terminal) else None)"

definition service_matcher_match ::
  "regex_search \<Rightarrow> service_database \<Rightarrow> probe_definition \<Rightarrow> string \<Rightarrow> bool \<Rightarrow> service_match" where
  "service_matcher_match search db probe response terminal =
     (let http = http_of response terminal;
          unusable = (case http of None \<Rightarrow> False | Some h \<Rightarrow> hr_state h = HttpMalformed \<or> hr_state h = HttpIncomplete)
      in if sdb_status db \<noteq> Ok \<or> response = [] \<or> length response > 8192 then no_match
         else if unusable then no_match
         else fold (match_step (rule_candidate search probe response terminal http) response)
           (enumerate 0 (pb_rules probe)) no_match)"

end
