(* ===== verification/Service_Match_Facts.thy ===== *)
theory Service_Match_Facts
  imports Service_Matcher
begin

text \<open>
  The choice of the best candidate, as a fold that keeps the incumbent unless a candidate beats it,
  and what stands behind a published service.
\<close>

section \<open>A fold that keeps the best\<close>

locale strict_choice =
  fixes beats :: "'a \<Rightarrow> 'a \<Rightarrow> bool"
  assumes never_itself: "\<not> beats x x"
    and beats_trans: "beats x y \<Longrightarrow> beats y z \<Longrightarrow> beats x z"
begin

definition keep :: "'a \<Rightarrow> 'a \<Rightarrow> 'a" where
  "keep c best = (if beats c best then c else best)"

lemma chosen: "fold keep cs b = b \<or> fold keep cs b \<in> set cs"
  by (induction cs arbitrary: b) (auto simp: keep_def)

lemma improves: "fold keep cs b = b \<or> beats (fold keep cs b) b"
proof (induction cs arbitrary: b)
  case (Cons c cs)
  show ?case
  proof (cases "beats c b")
    case True
    then show ?thesis using Cons [of c] beats_trans [OF _ True] by (auto simp: keep_def)
  next
    case False
    then show ?thesis using Cons [of b] by (simp add: keep_def)
  qed
qed simp

lemma unbeaten: "c \<in> set cs \<Longrightarrow> \<not> beats c (fold keep cs b)"
proof (induction cs arbitrary: b)
  case (Cons a cs)
  have "\<not> beats a (fold keep cs (keep a b))"
  proof
    assume a: "beats a (fold keep cs (keep a b))"
    from improves [of cs "keep a b"] have "beats a (keep a b)" using a beats_trans by metis
    then show False using never_itself by (auto simp: keep_def split: if_splits)
  qed
  then show ?case using Cons by auto
qed simp

end

sublocale strict_weak_order \<subseteq> ordered: strict_choice lt
  by unfold_locales (rule irrefl, rule trans)

text \<open>The comparison of two matches compares keys one after the other and the evidence last.\<close>

lemma better_irrefl: "\<not> match_is_better m m"
  by (simp add: match_is_better_def split: option.splits)

lemma better_matched: "match_is_better a b \<Longrightarrow> sm_matched a"
  by (simp add: match_is_better_def Let_def split: if_splits)

definition beats_evidence :: "service_match \<Rightarrow> service_match \<Rightarrow> bool" where
  "beats_evidence a b =
     (case (sm_evidence a, sm_evidence b) of (Some c, Some i) \<Rightarrow> pe_body_complete c \<and> \<not> pe_body_complete i | _ \<Rightarrow> False)"

lemma beats_evidence_trans: "beats_evidence a b \<Longrightarrow> beats_evidence b c \<Longrightarrow> beats_evidence a c"
  by (auto simp: beats_evidence_def split: option.splits)

lemma then_by_if:
  fixes k :: "'a \<Rightarrow> 'b::linorder"
  shows "then_by (>) k rest x y = (if k x \<noteq> k y then k x > k y else rest x y)"
  by (auto simp: then_by_def)

lemma then_by_trans:
  fixes k :: "'a \<Rightarrow> 'b::linorder"
  assumes rest: "\<And>x y z. rest x y \<Longrightarrow> rest y z \<Longrightarrow> rest x z" and xy: "then_by (>) k rest x y" and yz: "then_by (>) k rest y z"
  shows "then_by (>) k rest x z"
proof (cases "k x = k y \<and> k y = k z")
  case True
  then show ?thesis using rest [of x y z] xy yz by (simp add: then_by_if)
next
  case False
  have "k x \<ge> k y" "k y \<ge> k z" using xy yz by (auto simp: then_by_def)
  then have "k x > k z" using False by (cases "k x = k y") auto
  then show ?thesis by (simp add: then_by_def)
qed

lemma strength_rank_eq [simp]: "strength_rank a = strength_rank b \<longleftrightarrow> a = b"
  by (cases a; cases b) simp_all

definition keys_better :: "service_match \<Rightarrow> service_match \<Rightarrow> bool" where
  "keys_better =
     then_by (>) (\<lambda>m. strength_rank (sm_strength m))
       (then_by (>) (\<lambda>m. if match_is_publishable m then 1 else 0 :: nat)
         (then_by (>) sm_priority (then_by (>) sm_confidence (then_by (>) sm_specificity beats_evidence))))"

lemma better_keys: "match_is_better a b \<longleftrightarrow> sm_matched a \<and> (\<not> sm_matched b \<or> keys_better a b)"
  unfolding keys_better_def then_by_if match_is_better_def Let_def beats_evidence_def
  by (auto split: option.splits)

lemma keys_better_trans: "keys_better x y \<Longrightarrow> keys_better y z \<Longrightarrow> keys_better x z"
  unfolding keys_better_def
  by (rule then_by_trans [OF then_by_trans [OF then_by_trans [OF then_by_trans [OF then_by_trans [OF beats_evidence_trans]]]]])

lemma better_trans: "match_is_better a b \<Longrightarrow> match_is_better b c \<Longrightarrow> match_is_better a c"
  using keys_better_trans [of a b c] by (auto simp: better_keys)

interpretation service_choice: strict_choice match_is_better
  by unfold_locales (rule better_irrefl, rule better_trans)

lemma better_tls [simp]:
  "match_is_better (a\<lparr>sm_tls := t\<rparr>) b = match_is_better a b" "match_is_better a (b\<lparr>sm_tls := t\<rparr>) = match_is_better a b"
proof -
  have p: "match_is_publishable (m\<lparr>sm_tls := t\<rparr>) = match_is_publishable m" for m
    by (simp add: match_is_publishable_def)
  have s: "sm_matched (m\<lparr>sm_tls := t\<rparr>) = sm_matched m" "sm_strength (m\<lparr>sm_tls := t\<rparr>) = sm_strength m"
    "sm_priority (m\<lparr>sm_tls := t\<rparr>) = sm_priority m" "sm_confidence (m\<lparr>sm_tls := t\<rparr>) = sm_confidence m"
    "sm_specificity (m\<lparr>sm_tls := t\<rparr>) = sm_specificity m" "sm_evidence (m\<lparr>sm_tls := t\<rparr>) = sm_evidence m" for m
    by simp_all
  show "match_is_better (a\<lparr>sm_tls := t\<rparr>) b = match_is_better a b" "match_is_better a (b\<lparr>sm_tls := t\<rparr>) = match_is_better a b"
    by (simp_all only: match_is_better_def p s)
qed

section \<open>The matcher\<close>

lemma tls_unchanged: "\<exists>t. m = (m :: service_match)\<lparr>sm_tls := t\<rparr>"
  by (cases m) auto

lemma tls_overwritten: "(m :: service_match)\<lparr>sm_tls := x\<rparr>\<lparr>sm_tls := y\<rparr> = m\<lparr>sm_tls := y\<rparr>"
  by simp

lemma adopt_keep: "\<exists>t. adopt response best c = (service_choice.keep c best)\<lparr>sm_tls := t\<rparr>"
proof (cases "match_is_better c best")
  case True
  then have "adopt response best c \<in> insert c (range (\<lambda>t. c\<lparr>sm_tls := t\<rparr>))"
    by (simp add: adopt_def split: parsed.split)
  then show ?thesis using True tls_unchanged [of c] unfolding service_choice.keep_def by fastforce
next
  case False
  then show ?thesis using tls_unchanged [of best] by (simp only: adopt_def service_choice.keep_def if_False not_False_eq_True if_True)
qed

definition candidates ::
  "regex_search \<Rightarrow> probe_definition \<Rightarrow> string \<Rightarrow> bool \<Rightarrow> service_match list" where
  "candidates search probe response terminal =
     List.map_filter (\<lambda>(i, rule). rule_candidate search probe response terminal (http_of response terminal) i rule)
       (enumerate 0 (pb_rules probe))"

lemma candidates_member:
  "c \<in> set (candidates search probe response terminal) \<longleftrightarrow>
     (\<exists>i<length (pb_rules probe).
       rule_candidate search probe response terminal (http_of response terminal) i (pb_rules probe ! i) = Some c)"
  by (auto simp: candidates_def List.map_filter_def enumerate_eq_zip in_set_zip image_iff) force

lemma keep_tls: "\<exists>t'. service_choice.keep c (b\<lparr>sm_tls := t\<rparr>) = (service_choice.keep c b)\<lparr>sm_tls := t'\<rparr>"
  using tls_unchanged [of c] by (auto simp: service_choice.keep_def)

lemma fold_keep_tls: "\<exists>t'. fold service_choice.keep cs (b\<lparr>sm_tls := t\<rparr>) = (fold service_choice.keep cs b)\<lparr>sm_tls := t'\<rparr>"
proof (induction cs arbitrary: b t)
  case (Cons c cs)
  obtain t' where "service_choice.keep c (b\<lparr>sm_tls := t\<rparr>) = (service_choice.keep c b)\<lparr>sm_tls := t'\<rparr>" using keep_tls by blast
  then show ?case using Cons [where b = "service_choice.keep c b" and t = t'] by simp
qed auto

lemma fold_match_step:
  "\<exists>t. fold (match_step candidate response) rules b =
     (fold service_choice.keep (List.map_filter (\<lambda>(i, rule). candidate i rule) rules) b)\<lparr>sm_tls := t\<rparr>"
proof (induction rules arbitrary: b)
  case Nil
  show ?case by (auto simp: List.map_filter_def intro: exI [of _ "sm_tls b"])
next
  case (Cons rule rules)
  show ?case
  proof (cases "candidate (fst rule) (snd rule)")
    case None
    then show ?thesis using Cons by (simp add: match_step_def List.map_filter_def case_prod_beta)
  next
    case (Some c)
    obtain t where "adopt response b c = (service_choice.keep c b)\<lparr>sm_tls := t\<rparr>" using adopt_keep by blast
    then have g: "match_step candidate response rule b = (service_choice.keep c b)\<lparr>sm_tls := t\<rparr>"
      using Some by (simp add: match_step_def)
    define cs where "cs = List.map_filter (\<lambda>(i, rule). candidate i rule) rules"
    have f: "List.map_filter (\<lambda>(i, rule). candidate i rule) (rule # rules) = c # cs"
      using Some by (simp add: cs_def List.map_filter_simps case_prod_beta)
    obtain t2 where t2: "fold (match_step candidate response) rules ((service_choice.keep c b)\<lparr>sm_tls := t\<rparr>) =
      (fold service_choice.keep cs ((service_choice.keep c b)\<lparr>sm_tls := t\<rparr>))\<lparr>sm_tls := t2\<rparr>"
      using Cons unfolding cs_def by blast
    obtain t3 where t3: "fold service_choice.keep cs ((service_choice.keep c b)\<lparr>sm_tls := t\<rparr>) =
      (fold service_choice.keep cs (service_choice.keep c b))\<lparr>sm_tls := t3\<rparr>"
      using fold_keep_tls by blast
    show ?thesis by (rule exI [of _ t2]) (simp only: f fold.simps comp_apply g t2 t3 tls_overwritten)
  qed
qed

lemma matcher_keeps_best:
  assumes m: "sm_matched (service_matcher_match search db probe response terminal)"
  shows "\<exists>t. service_matcher_match search db probe response terminal =
    (fold service_choice.keep (candidates search probe response terminal) no_match)\<lparr>sm_tls := t\<rparr>"
    and "sdb_status db = Ok \<and> response \<noteq> [] \<and> length response \<le> 8192"
    and "case http_of response terminal of None \<Rightarrow> True | Some h \<Rightarrow> hr_state h = HttpComplete \<or> hr_state h = HttpHeaders"
proof -
  let ?bad = "sdb_status db \<noteq> Ok \<or> response = [] \<or> length response > 8192"
  let ?unusable = "case http_of response terminal of None \<Rightarrow> False | Some h \<Rightarrow> hr_state h = HttpMalformed \<or> hr_state h = HttpIncomplete"
  have e: "service_matcher_match search db probe response terminal =
    (if ?bad then no_match else if ?unusable then no_match
     else fold (match_step (rule_candidate search probe response terminal (http_of response terminal)) response)
       (enumerate 0 (pb_rules probe)) no_match)"
    unfolding service_matcher_match_def Let_def by (rule refl)
  have n: "\<not> sm_matched no_match" by (simp add: no_match_def)
  have bad: "\<not> ?bad" proof
    assume ?bad
    then have "service_matcher_match search db probe response terminal = no_match" unfolding e by (rule if_P)
    with m n show False by simp
  qed
  have usable: "\<not> ?unusable" proof
    assume u: ?unusable
    have "service_matcher_match search db probe response terminal = no_match"
      unfolding e using bad u by (simp only: if_False if_True)
    with m n show False by simp
  qed
  show "sdb_status db = Ok \<and> response \<noteq> [] \<and> length response \<le> 8192" using bad by auto
  show "case http_of response terminal of None \<Rightarrow> True | Some h \<Rightarrow> hr_state h = HttpComplete \<or> hr_state h = HttpHeaders"
    using usable http_parse_state.exhaust by (cases "http_of response terminal") auto
  have f: "service_matcher_match search db probe response terminal =
    fold (match_step (rule_candidate search probe response terminal (http_of response terminal)) response)
       (enumerate 0 (pb_rules probe)) no_match"
    unfolding e using bad usable by (simp only: if_False)
  show "\<exists>t. service_matcher_match search db probe response terminal =
    (fold service_choice.keep (candidates search probe response terminal) no_match)\<lparr>sm_tls := t\<rparr>"
    unfolding f candidates_def by (rule fold_match_step)
qed

section \<open>What stands behind a candidate\<close>

definition identified :: "probe_definition \<Rightarrow> string \<Rightarrow> bool \<Rightarrow> service_match \<Rightarrow> bool" where
  "identified probe response terminal m =
     (if sm_service m = ''http'' then
        (case http_of response terminal of
           None \<Rightarrow> False
         | Some h \<Rightarrow> hr_state h \<noteq> HttpIncomplete \<and> hr_state h \<noteq> HttpMalformed \<and>
             sm_extra m = ''HTTP/'' @ hr_protocol_version h \<and>
             (sm_product m = [] \<or> (\<not> hr_ambiguous_server h \<and> sm_product m = product_name (fst (server_parts (hr_server h))))))
      else if sm_service m = ''elasticsearch'' \<or> sm_service m = ''opensearch'' then
        (case http_of response terminal of
           None \<Rightarrow> False
         | Some h \<Rightarrow> hr_state h = HttpComplete \<and> hr_status_code h = 200 \<and> pb_protocol probe = Tcp \<and>
             parse_search_identity (hr_body h) = Some \<lparr>si_service = sm_service m, si_product = sm_product m, si_version = sm_version m\<rparr>)
      else if sm_service m = ''zookeeper'' then
        pb_protocol probe = Tcp \<and>
        (if response = ''imok'' then pb_payload probe = ''ruok'' \<or> pb_payload probe = ''ruok'' @ [CHR 0x0A]
         else
           case parse_zookeeper_srvr response terminal of
             None \<Rightarrow> False
           | Some identity \<Rightarrow>
               sm_product m = ''Apache-ZooKeeper'' \<and> sm_version m = zk_version identity \<and>
               sm_extra m = ''mode '' @ zk_mode identity)
      else if sm_service m = ''mqtt'' then
        pb_protocol probe = Tcp \<and> pb_payload probe = mqtt_request \<and>
        starts_with response [CHR 0x20, CHR 0x02, CHR 0x00] \<and> length response \<ge> 4 \<and>
        (case sm_mqtt m of None \<Rightarrow> False | Some code \<Rightarrow> code \<le> 5 \<and> response ! 3 = char_of code) \<and>
        sm_product m = [] \<and> sm_version m = []
      else True)"

lemma identified_tls: "identified probe response terminal (m\<lparr>sm_tls := t\<rparr>) = identified probe response terminal m"
proof -
  have "sm_service (m\<lparr>sm_tls := t\<rparr>) = sm_service m" "sm_product (m\<lparr>sm_tls := t\<rparr>) = sm_product m"
    "sm_version (m\<lparr>sm_tls := t\<rparr>) = sm_version m" "sm_extra (m\<lparr>sm_tls := t\<rparr>) = sm_extra m"
    "sm_mqtt (m\<lparr>sm_tls := t\<rparr>) = sm_mqtt m"
    by simp_all
  then show ?thesis by (simp only: identified_def)
qed

lemma http_candidate_identified:
  assumes "http_of response terminal = Some h" and "hr_state h = HttpComplete \<or> hr_state h = HttpHeaders"
  shows "identified probe response terminal ((http_identity h)\<lparr>sm_rule_index := index\<rparr>)"
  using assms(2) by (auto simp: identified_def http_identity_def no_match_def assms(1) Let_def case_prod_beta)

lemma search_candidate_identified:
  assumes "http_of response terminal = Some h" and "search_of probe h = Some identity"
    and "si_service identity = ''elasticsearch'' \<or> si_service identity = ''opensearch''"
  shows "identified probe response terminal (search_candidate h identity index)"
proof -
  have "pb_protocol probe = Tcp \<and> hr_state h = HttpComplete \<and> hr_status_code h = 200 \<and> parse_search_identity (hr_body h) = Some identity"
    using assms(2) by (auto simp: search_of_def Let_def split: if_splits)
  then show ?thesis using assms(3) by (cases identity) (auto simp: identified_def search_candidate_def no_match_def assms(1))
qed

lemma zookeeper_candidate_identified:
  assumes "parse_zookeeper_srvr response terminal = Some identity" and "pb_protocol probe = Tcp"
  shows "identified probe response terminal (zookeeper_candidate identity index)"
proof -
  have "response \<noteq> ''imok''" using assms(1) by (auto simp: parse_zookeeper_srvr_def)
  then show ?thesis using assms by (simp add: identified_def zookeeper_candidate_def no_match_def)
qed

lemma connack_exact:
  assumes "validate_mqtt_connack probe response = Some code"
  shows "pb_protocol probe = Tcp" "pb_payload probe = mqtt_request" "4 \<le> length response" "code \<le> 5"
    "response ! 3 = char_of code" "starts_with response [CHR 0x20, CHR 0x02, CHR 0x00]"
proof -
  have r: "pb_protocol probe = Tcp" "pb_payload probe = mqtt_request" "4 \<le> length response" "code \<le> 5" "code = of_char (response ! 3)"
    "of_char (response ! 0) = (0x20 :: nat)" "of_char (response ! 1) = (0x02 :: nat)" "of_char (response ! 2) = (0 :: nat)"
    using assms by (auto simp: validate_mqtt_connack_def Let_def split: if_splits)
  show "pb_protocol probe = Tcp" "pb_payload probe = mqtt_request" "4 \<le> length response" "code \<le> 5" by (fact r)+
  show "response ! 3 = char_of code" by (simp add: r(5))
  have "response ! 0 = char_of (0x20 :: nat)" "response ! 1 = char_of (2 :: nat)" "response ! 2 = char_of (0 :: nat)"
    using r(6-8) by (metis char_of_char)+
  moreover have "take 3 response = [response ! 0, response ! 1, response ! 2]"
    using r(3) by (cases response; cases "tl response"; cases "tl (tl response)") auto
  ultimately show "starts_with response [CHR 0x20, CHR 0x02, CHR 0x00]"
    by (simp add: starts_with_def char_of_def bit_0 numeral_3_eq_3)
qed

lemma corpus_candidate_identified:
  assumes "corpus_candidate probe response http index rule service groups = Some m"
    and "service \<noteq> ''http''" "service \<noteq> ''elasticsearch''" "service \<noteq> ''opensearch''"
    and "service = ''zookeeper'' \<Longrightarrow> pb_protocol probe = Tcp \<and> response = ''imok'' \<and>
      (pb_payload probe = ''ruok'' \<or> pb_payload probe = ''ruok'' @ [CHR 0x0A])"
  shows "identified probe response terminal m"
proof (cases "service = ''mqtt''")
  case True
  then obtain code m1 where c: "validate_mqtt_connack probe response = Some code"
    and m: "m = m1\<lparr>sm_mqtt := Some code, sm_product := [], sm_version := []\<rparr>" "sm_service m1 = ''mqtt''"
    using assms(1) by (auto simp: corpus_candidate_def Let_def split: option.splits if_splits)
  show ?thesis using connack_exact [OF c] by (simp add: identified_def m)
next
  case False
  then have "sm_service m = service"
    using assms(1) by (auto simp: corpus_candidate_def Let_def split: option.splits if_splits)
  then show ?thesis using assms False by (simp add: identified_def)
qed

lemma service_candidate_identified:
  assumes m: "service_candidate probe response terminal (http_of response terminal) index rule service matches = Some m"
    and h: "case http_of response terminal of None \<Rightarrow> True | Some h \<Rightarrow> hr_state h = HttpComplete \<or> hr_state h = HttpHeaders"
  shows "identified probe response terminal m"
proof -
  let ?srvr = "pb_payload probe = ''srvr'' \<or> pb_payload probe = ''srvr'' @ [CHR 0x0A]"
  consider (http) "service = ''http''" | (search) "service = ''elasticsearch'' \<or> service = ''opensearch''"
    | (srvr) "service = ''zookeeper''" ?srvr
    | (corpus) "service \<noteq> ''http''" "service \<noteq> ''elasticsearch''" "service \<noteq> ''opensearch''" "\<not> (service = ''zookeeper'' \<and> ?srvr)"
    by blast
  then show ?thesis
  proof cases
    case http
    then show ?thesis using m h http_candidate_identified by (auto simp: service_candidate_def Let_def split: option.splits)
  next
    case search
    then have "\<not> service = ''http''" by auto
    then show ?thesis
      using m search search_candidate_identified [of response terminal _ probe _ index]
      by (auto simp: service_candidate_def Let_def split: option.splits if_splits bind_splits)
  next
    case srvr
    then show ?thesis using m zookeeper_candidate_identified
      by (auto simp: service_candidate_def Let_def split: option.splits if_splits)
  next
    case corpus
    then have "(if service = ''zookeeper'' \<and>
        (pb_protocol probe \<noteq> Tcp \<or> \<not> (pb_payload probe = ''ruok'' \<or> pb_payload probe = ''ruok'' @ [CHR 0x0A]) \<or> response \<noteq> ''imok'')
      then None
      else case matches of None \<Rightarrow> None
        | Some groups \<Rightarrow> corpus_candidate probe response (http_of response terminal) index rule service groups) = Some m"
      using m unfolding service_candidate_def Let_def by (simp only: if_False simp_thms)
    then obtain groups where "corpus_candidate probe response (http_of response terminal) index rule service groups = Some m"
      "service = ''zookeeper'' \<Longrightarrow> pb_protocol probe = Tcp \<and> response = ''imok'' \<and>
        (pb_payload probe = ''ruok'' \<or> pb_payload probe = ''ruok'' @ [CHR 0x0A])"
      by (auto split: option.splits if_splits)
    then show ?thesis using corpus corpus_candidate_identified by metis
  qed
qed

lemma rule_candidate_identified:
  assumes "rule_candidate search probe response terminal (http_of response terminal) index rule = Some m"
    and "case http_of response terminal of None \<Rightarrow> True | Some h \<Rightarrow> hr_state h = HttpComplete \<or> hr_state h = HttpHeaders"
  shows "identified probe response terminal m"
proof -
  let ?subject = "case http_of response terminal of None \<Rightarrow> response | Some h \<Rightarrow> hr_headers h @ hr_body h"
  let ?matches = "rule_matches search rule ?subject"
  have "\<exists>service. service_candidate probe response terminal (http_of response terminal) index rule service ?matches = Some m"
    using assms(1) unfolding rule_candidate_def Let_def by (auto split: if_splits)
  then show ?thesis using service_candidate_identified [OF _ assms(2)] by blast
qed

text \<open>
  Property C31. A match is one of the candidates the rules of the probe give, up to the TLS metadata it is given at
  the end, and no candidate is better.
\<close>

theorem match_is_best:
  assumes "sm_matched (service_matcher_match search db probe response terminal)"
  shows "let m = service_matcher_match search db probe response terminal;
            candidate = (\<lambda>i. rule_candidate search probe response terminal (http_of response terminal) i (pb_rules probe ! i))
         in (\<exists>i c. i < length (pb_rules probe) \<and> candidate i = Some c \<and> m = c\<lparr>sm_tls := sm_tls m\<rparr>) \<and>
            list_all (\<lambda>i. case candidate i of None \<Rightarrow> True | Some c \<Rightarrow> \<not> match_is_better c m) [0..<length (pb_rules probe)]"
proof -
  let ?m = "service_matcher_match search db probe response terminal"
  let ?candidate = "\<lambda>i. rule_candidate search probe response terminal (http_of response terminal) i (pb_rules probe ! i)"
  define best where "best = fold service_choice.keep (candidates search probe response terminal) no_match"
  obtain t where t: "?m = best\<lparr>sm_tls := t\<rparr>" using matcher_keeps_best(1) [OF assms] unfolding best_def by blast
  have "\<not> sm_matched no_match" "sm_matched best" using assms by (simp_all add: t no_match_def)
  then have "best \<in> set (candidates search probe response terminal)"
    using service_choice.chosen [of "candidates search probe response terminal" no_match] unfolding best_def by metis
  then obtain i where i: "i < length (pb_rules probe)" "?candidate i = Some best"
    by (auto simp: candidates_member)
  have "\<not> match_is_better c ?m" if "i < length (pb_rules probe)" "?candidate i = Some c" for i c
    unfolding t using service_choice.unbeaten [of c "candidates search probe response terminal" no_match] that
    by (auto simp: candidates_member best_def)
  moreover have "?m = best\<lparr>sm_tls := sm_tls ?m\<rparr>" by (simp add: t)
  ultimately show ?thesis using i by (auto simp: Let_def list_all_iff split: option.split)
qed

theorem match_is_best_witness:
  "let db = \<lparr>sdb_status = Ok, sdb_probes = []\<rparr>;
       rule = new_match_rule\<lparr>mr_pattern := ''SSH-2.0'', mr_service := ''ssh'', mr_confidence := 1 / 2\<rparr>;
       probe = new_probe_definition\<lparr>pb_rules := [rule]\<rparr>; response = ''SSH-2.0-x'';
       m = service_matcher_match (\<lambda>_ _. None) db probe response True;
       candidate = (\<lambda>i. rule_candidate (\<lambda>_ _. None) probe response True (http_of response True) i (pb_rules probe ! i))
   in (\<exists>i c. i < length (pb_rules probe) \<and> candidate i = Some c \<and> m = c\<lparr>sm_tls := sm_tls m\<rparr>) \<and>
      list_all (\<lambda>i. case candidate i of None \<Rightarrow> True | Some c \<Rightarrow> \<not> match_is_better c m) [0..<length (pb_rules probe)]"
  unfolding Let_def
  by (rule match_is_best [unfolded Let_def])
    (simp add: service_matcher_match_def http_of_def starts_with_def match_step_def rule_candidate_def new_match_rule_def
      new_probe_definition_def rule_matches_def is_ssh_rule_def first_ssh_line.simps service_candidate_def
      corpus_candidate_def adopt_def match_is_better_def no_match_def expand_template_def)

text \<open>
  The service of a candidate that is not told by its structure is named by its rule, whose pattern
  matched: \<open>subject_of\<close> is what patterns are matched against.
\<close>

definition subject_of :: "string \<Rightarrow> bool \<Rightarrow> string" where
  "subject_of response terminal =
     (case http_of response terminal of None \<Rightarrow> response | Some h \<Rightarrow> hr_headers h @ hr_body h)"

definition named_by :: "regex_search \<Rightarrow> string \<Rightarrow> bool \<Rightarrow> string \<Rightarrow> match_rule \<Rightarrow> bool" where
  "named_by search response terminal service rule \<longleftrightarrow>
     (case rule_matches search rule (subject_of response terminal) of
        None \<Rightarrow> False
      | Some groups \<Rightarrow>
          service = (if mr_type rule = MtRegex \<and> CHR ''$'' \<in> set (mr_service rule)
            then expand_template (mr_service rule) (Some groups) else mr_service rule))"

definition structured :: "string \<Rightarrow> bool" where
  "structured service \<longleftrightarrow> service \<in> {''http'', ''elasticsearch'', ''opensearch'', ''zookeeper''}"

lemma candidate_service:
  assumes m: "service_candidate probe response terminal http index rule service matches = Some m"
    and "\<not> structured (sm_service m)"
    and usable: "case http of None \<Rightarrow> True | Some h \<Rightarrow> hr_state h = HttpComplete \<or> hr_state h = HttpHeaders"
  shows "sm_service m = service \<and> matches \<noteq> None"
proof -
  let ?srvr = "pb_payload probe = ''srvr'' \<or> pb_payload probe = ''srvr'' @ [CHR 0x0A]"
  have fixed: "hr_state h = HttpComplete \<or> hr_state h = HttpHeaders \<Longrightarrow> sm_service (http_identity h) = ''http''"
    "sm_service (search_candidate h identity index) = si_service identity"
    "sm_service (zookeeper_candidate z index) = ''zookeeper''" for h identity z
    by (auto simp: http_identity_def search_candidate_def zookeeper_candidate_def no_match_def Let_def case_prod_beta)
  consider (http) "service = ''http''" | (search) "service = ''elasticsearch'' \<or> service = ''opensearch''"
    | (srvr) "service = ''zookeeper''" ?srvr
    | (corpus) "service \<noteq> ''http''" "service \<noteq> ''elasticsearch''" "service \<noteq> ''opensearch''" "\<not> (service = ''zookeeper'' \<and> ?srvr)"
    by blast
  then show ?thesis
  proof cases
    case http
    then have "sm_service m = ''http''" using m fixed(1) usable by (auto simp: service_candidate_def Let_def)
    then show ?thesis using assms(2) by (simp add: structured_def)
  next
    case search
    then have "\<not> service = ''http''" by auto
    then have "sm_service m = service" using m search fixed(2)
      by (auto simp: service_candidate_def Let_def split: option.splits if_splits)
    then show ?thesis using assms(2) search by (auto simp: structured_def)
  next
    case srvr
    then have "sm_service m = ''zookeeper''" using m fixed(3)
      by (auto simp: service_candidate_def Let_def split: option.splits if_splits)
    then show ?thesis using assms(2) by (simp add: structured_def)
  next
    case corpus
    then have "(if service = ''zookeeper'' \<and>
        (pb_protocol probe \<noteq> Tcp \<or> \<not> (pb_payload probe = ''ruok'' \<or> pb_payload probe = ''ruok'' @ [CHR 0x0A]) \<or> response \<noteq> ''imok'')
      then None
      else case matches of None \<Rightarrow> None
        | Some groups \<Rightarrow> corpus_candidate probe response http index rule service groups) = Some m"
      using m unfolding service_candidate_def Let_def by (simp only: if_False simp_thms)
    then obtain groups where "matches = Some groups" "corpus_candidate probe response http index rule service groups = Some m"
      by (auto split: option.splits if_splits)
    then show ?thesis by (auto simp: corpus_candidate_def Let_def split: option.splits if_splits)
  qed
qed

lemma rule_candidate_named:
  assumes "rule_candidate search probe response terminal (http_of response terminal) index rule = Some m"
    and "\<not> structured (sm_service m)"
    and "case http_of response terminal of None \<Rightarrow> True | Some h \<Rightarrow> hr_state h = HttpComplete \<or> hr_state h = HttpHeaders"
  shows "named_by search response terminal (sm_service m) rule"
proof -
  let ?matches = "rule_matches search rule (subject_of response terminal)"
  let ?templated = "mr_type rule = MtRegex \<and> CHR ''$'' \<in> set (mr_service rule)"
  let ?service = "if ?templated then expand_template (mr_service rule) ?matches else mr_service rule"
  have "service_candidate probe response terminal (http_of response terminal) index rule ?service ?matches = Some m"
    using assms(1) unfolding rule_candidate_def Let_def subject_of_def by (auto split: if_splits)
  from candidate_service [OF this assms(2,3)] obtain groups where "?matches = Some groups" "sm_service m = ?service" by blast
  then show ?thesis unfolding named_by_def by simp
qed

text \<open>
  Property C30. A published service has been identified. HTTP comes with a response that parses and names its product
  by an unambiguous Server field, Elasticsearch and OpenSearch with the identity in a complete JSON answer of
  status 200, ZooKeeper with the answer to srvr or with imok to ruok, MQTT with a CONNACK to the
  exact request and without a product, and any other service is named by a rule of the probe whose
  pattern matches. A response that is empty, longer than 8192 octets, or HTTP that is malformed or
  incomplete, or a database that is not loaded, gives no match, whatever the rules are.
\<close>

theorem services_are_identified:
  assumes "sm_matched (service_matcher_match search db probe response terminal)"
  shows "sdb_status db = Ok \<and> response \<noteq> [] \<and> length response \<le> 8192 \<and>
    (case http_of response terminal of None \<Rightarrow> True | Some h \<Rightarrow> hr_state h \<noteq> HttpMalformed \<and> hr_state h \<noteq> HttpIncomplete) \<and>
    (let m = service_matcher_match search db probe response terminal in
     identified probe response terminal m \<and>
     (structured (sm_service m) \<or> (\<exists>rule\<in>set (pb_rules probe). named_by search response terminal (sm_service m) rule)))"
proof -
  let ?m = "service_matcher_match search db probe response terminal"
  define best where "best = fold service_choice.keep (candidates search probe response terminal) no_match"
  obtain t where t: "?m = best\<lparr>sm_tls := t\<rparr>" using matcher_keeps_best(1) [OF assms] unfolding best_def by blast
  have "\<not> sm_matched no_match" "sm_matched best" using assms by (simp_all add: t no_match_def)
  then have "best \<in> set (candidates search probe response terminal)"
    using service_choice.chosen [of "candidates search probe response terminal" no_match] unfolding best_def by metis
  then obtain i where i: "i < length (pb_rules probe)"
    "rule_candidate search probe response terminal (http_of response terminal) i (pb_rules probe ! i) = Some best"
    by (auto simp: candidates_member)
  have "identified probe response terminal best" by (rule rule_candidate_identified [OF i(2) matcher_keeps_best(3) [OF assms]])
  then have "identified probe response terminal ?m" by (simp only: t identified_tls)
  moreover have "sm_service ?m = sm_service best" by (simp add: t)
  then have "structured (sm_service ?m) \<or> (\<exists>rule\<in>set (pb_rules probe). named_by search response terminal (sm_service ?m) rule)"
    using rule_candidate_named [OF i(2) _ matcher_keeps_best(3) [OF assms]] nth_mem [OF i(1)] by metis
  ultimately show ?thesis
    using matcher_keeps_best(2,3) [OF assms] by (auto simp: Let_def split: option.splits)
qed

theorem services_are_identified_witness:
  "let db = \<lparr>sdb_status = Ok, sdb_probes = []\<rparr>;
       rule = new_match_rule\<lparr>mr_pattern := ''SSH-2.0'', mr_service := ''ssh'', mr_confidence := 1 / 2\<rparr>;
       probe = new_probe_definition\<lparr>pb_rules := [rule]\<rparr>; response = ''SSH-2.0-x'';
       m = service_matcher_match (\<lambda>_ _. None) db probe response True
   in sm_service m = ''ssh'' \<and> identified probe response True m \<and> named_by (\<lambda>_ _. None) response True ''ssh'' rule"
proof -
  define rule where "rule = new_match_rule\<lparr>mr_pattern := ''SSH-2.0'', mr_service := ''ssh'', mr_confidence := 1 / 2\<rparr>"
  define probe where "probe = new_probe_definition\<lparr>pb_rules := [rule]\<rparr>"
  let ?m = "service_matcher_match (\<lambda>_ _. None) \<lparr>sdb_status = Ok, sdb_probes = []\<rparr> probe ''SSH-2.0-x'' True"
  have m: "sm_matched ?m \<and> sm_service ?m = ''ssh''"
    by (simp add: service_matcher_match_def http_of_def starts_with_def match_step_def rule_candidate_def new_match_rule_def
      new_probe_definition_def rule_matches_def is_ssh_rule_def first_ssh_line.simps service_candidate_def rule_def probe_def
      corpus_candidate_def adopt_def match_is_better_def no_match_def expand_template_def)
  have "pb_rules probe = [rule]" by (simp add: probe_def)
  with services_are_identified [OF conjunct1 [OF m]] m
  have "sm_service ?m = ''ssh'' \<and> identified probe ''SSH-2.0-x'' True ?m \<and> named_by (\<lambda>_ _. None) ''SSH-2.0-x'' True ''ssh'' rule"
    by (simp add: structured_def Let_def)
  then show ?thesis unfolding Let_def rule_def probe_def .
qed

end
