(* ===== verification/Os_Types.thy ===== *)
theory Os_Types
  imports Core_Types Tcp_Packet Ip_Packets Ieee_Float
begin

text \<open>
  The types of operating system detection (\<open>include/osdetect/os_types.hpp\<close>,
  \<open>include/osdetect/os_probe_types.hpp\<close>, \<open>include/db/db_types.hpp\<close>) with their names, and how the packets
  that answer a probe become observations (\<open>src/osdetect/os_fingerprint.cpp\<close>).
\<close>

section \<open>Probes and observations\<close>

text \<open>\<open>UdpPortUnreachable\<close> is another name of \<open>UdpFingerprint\<close>.\<close>

datatype os_probe_type = TcpSynStandard | TcpSynVariant | TcpSynTimestamp | TcpEcn | TcpAckProbe | TcpFinProbe
  | TcpNull | TcpXmas | TcpClosedStandard | TcpClosedVariant | IcmpEcho | UdpFingerprint

datatype os_probe_status = OsGenerated | OsSent | OsResponseReceived | OsTimeout | OsUnsupported | OsMalformed

datatype os_response_kind = OrData | OrClosed | OrIcmpError | OrError

datatype observation_state = ObsAbsent | ObsObserved | ObsInvalid | ObsTimedOut | ObsUnsupported | ObsMalformed

datatype timestamp_behavior = TsUnknown | TsAbsent | TsPresent | TsEchoesPeer | TsMonotonic

datatype ack_behavior = AckUnknown | AckNone | AcknowledgesSyn | AcknowledgesPayload | RstWithoutAck

datatype sequence_behavior = SeqUnknown | SeqZero | SeqIncremental | SeqRandomized | SeqTimeBased

datatype os_protocol = OsProtoUnknown | OsTcp | OsUdp | OsIcmpv4 | OsIcmpv6

datatype response_behavior = RbUnknown | RbSynAck | RbRst | RbEchoReply | RbUdpResponse | RbPortUnreachable
  | RbNoResponse | RbMalformed

fun os_probe_type_name :: "os_probe_type \<Rightarrow> string" where
  "os_probe_type_name TcpSynStandard = ''TCP_SYN_STANDARD''"
| "os_probe_type_name TcpSynVariant = ''TCP_SYN_VARIANT''"
| "os_probe_type_name TcpSynTimestamp = ''TCP_SYN_TIMESTAMP''"
| "os_probe_type_name TcpEcn = ''TCP_ECN''"
| "os_probe_type_name TcpAckProbe = ''TCP_ACK''"
| "os_probe_type_name TcpFinProbe = ''TCP_FIN''"
| "os_probe_type_name TcpNull = ''TCP_NULL''"
| "os_probe_type_name TcpXmas = ''TCP_XMAS''"
| "os_probe_type_name TcpClosedStandard = ''TCP_CLOSED_STANDARD''"
| "os_probe_type_name TcpClosedVariant = ''TCP_CLOSED_VARIANT''"
| "os_probe_type_name IcmpEcho = ''ICMP_ECHO''"
| "os_probe_type_name UdpFingerprint = ''UDP_FINGERPRINT''"

fun os_probe_status_name :: "os_probe_status \<Rightarrow> string" where
  "os_probe_status_name OsGenerated = ''GENERATED''"
| "os_probe_status_name OsSent = ''SENT''"
| "os_probe_status_name OsResponseReceived = ''RESPONSE_RECEIVED''"
| "os_probe_status_name OsTimeout = ''TIMEOUT''"
| "os_probe_status_name OsUnsupported = ''UNSUPPORTED''"
| "os_probe_status_name OsMalformed = ''MALFORMED''"

fun os_response_kind_name :: "os_response_kind \<Rightarrow> string" where
  "os_response_kind_name OrData = ''DATA''"
| "os_response_kind_name OrClosed = ''CLOSED''"
| "os_response_kind_name OrIcmpError = ''ICMP_ERROR''"
| "os_response_kind_name OrError = ''ERROR''"

fun observation_state_name :: "observation_state \<Rightarrow> string" where
  "observation_state_name ObsAbsent = ''ABSENT''"
| "observation_state_name ObsObserved = ''OBSERVED''"
| "observation_state_name ObsInvalid = ''INVALID''"
| "observation_state_name ObsTimedOut = ''TIMED_OUT''"
| "observation_state_name ObsUnsupported = ''UNSUPPORTED''"
| "observation_state_name ObsMalformed = ''MALFORMED''"

fun timestamp_behavior_name :: "timestamp_behavior \<Rightarrow> string" where
  "timestamp_behavior_name TsUnknown = ''UNKNOWN''"
| "timestamp_behavior_name TsAbsent = ''ABSENT''"
| "timestamp_behavior_name TsPresent = ''PRESENT''"
| "timestamp_behavior_name TsEchoesPeer = ''ECHOES_PEER''"
| "timestamp_behavior_name TsMonotonic = ''MONOTONIC''"

fun ack_behavior_name :: "ack_behavior \<Rightarrow> string" where
  "ack_behavior_name AckUnknown = ''UNKNOWN''"
| "ack_behavior_name AckNone = ''NO_ACK''"
| "ack_behavior_name AcknowledgesSyn = ''ACKNOWLEDGES_SYN''"
| "ack_behavior_name AcknowledgesPayload = ''ACKNOWLEDGES_PAYLOAD''"
| "ack_behavior_name RstWithoutAck = ''RST_WITHOUT_ACK''"

fun sequence_behavior_name :: "sequence_behavior \<Rightarrow> string" where
  "sequence_behavior_name SeqUnknown = ''UNKNOWN''"
| "sequence_behavior_name SeqZero = ''ZERO''"
| "sequence_behavior_name SeqIncremental = ''INCREMENTAL''"
| "sequence_behavior_name SeqRandomized = ''RANDOMIZED''"
| "sequence_behavior_name SeqTimeBased = ''TIME_BASED''"

fun os_protocol_name :: "os_protocol \<Rightarrow> string" where
  "os_protocol_name OsProtoUnknown = ''UNKNOWN''"
| "os_protocol_name OsTcp = ''TCP''"
| "os_protocol_name OsUdp = ''UDP''"
| "os_protocol_name OsIcmpv4 = ''ICMPv4''"
| "os_protocol_name OsIcmpv6 = ''ICMPv6''"

fun response_behavior_name :: "response_behavior \<Rightarrow> string" where
  "response_behavior_name RbUnknown = ''UNKNOWN''"
| "response_behavior_name RbSynAck = ''SYN_ACK''"
| "response_behavior_name RbRst = ''RST''"
| "response_behavior_name RbEchoReply = ''ECHO_REPLY''"
| "response_behavior_name RbUdpResponse = ''UDP_RESPONSE''"
| "response_behavior_name RbPortUnreachable = ''PORT_UNREACHABLE''"
| "response_behavior_name RbNoResponse = ''NO_RESPONSE''"
| "response_behavior_name RbMalformed = ''MALFORMED''"

record 'a observed_value =
  ov_state :: observation_state
  ov_value :: 'a

definition observed :: "'a \<Rightarrow> 'a observed_value" where
  "observed v = \<lparr>ov_state = ObsObserved, ov_value = v\<rparr>"

text \<open>\<open>ObservedValue<T>{}\<close>, with the zero of the type.\<close>

definition absent :: "'a \<Rightarrow> 'a observed_value" where
  "absent zero = \<lparr>ov_state = ObsAbsent, ov_value = zero\<rparr>"

record tcp_observation =
  to_source_address :: string
  to_destination_address :: string
  to_source_port :: u16
  to_destination_port :: u16
  to_ttl :: "u8 observed_value"
  to_dont_fragment :: "bool observed_value"
  to_window :: "u16 observed_value"
  to_mss :: "u16 observed_value"
  to_window_scale :: "u8 observed_value"
  to_sack_permitted :: "bool observed_value"
  to_timestamps :: "bool observed_value"
  to_timestamp_behavior :: timestamp_behavior
  to_options :: "tcp_option_kind list"
  to_flags :: u16
  to_ack_behavior :: ack_behavior
  to_sequence_behavior :: sequence_behavior
  to_sequence_number :: "u32 observed_value"
  to_acknowledgment_number :: "u32 observed_value"
  to_payload_length :: nat
  to_response_behavior :: response_behavior
  to_probe_status :: os_probe_status
  to_family :: address_family
  to_protocol :: os_protocol

definition new_tcp_observation :: tcp_observation where
  "new_tcp_observation =
     \<lparr>to_source_address = [], to_destination_address = [], to_source_port = 0, to_destination_port = 0,
      to_ttl = absent 0, to_dont_fragment = absent False, to_window = absent 0, to_mss = absent 0,
      to_window_scale = absent 0, to_sack_permitted = absent False, to_timestamps = absent False,
      to_timestamp_behavior = TsUnknown, to_options = [], to_flags = 0, to_ack_behavior = AckUnknown,
      to_sequence_behavior = SeqUnknown, to_sequence_number = absent 0, to_acknowledgment_number = absent 0,
      to_payload_length = 0, to_response_behavior = RbUnknown, to_probe_status = OsResponseReceived,
      to_family = FamilyUnknown, to_protocol = OsTcp\<rparr>"

record udp_observation =
  uo_source_port :: u16
  uo_destination_port :: u16
  uo_payload_length :: "nat observed_value"
  uo_ttl :: "u8 observed_value"
  uo_ip_identification :: "u16 observed_value"
  uo_dont_fragment :: "bool observed_value"
  uo_response_behavior :: response_behavior
  uo_probe_status :: os_probe_status
  uo_family :: address_family
  uo_protocol :: os_protocol

definition new_udp_observation :: udp_observation where
  "new_udp_observation =
     \<lparr>uo_source_port = 0, uo_destination_port = 0, uo_payload_length = absent 0, uo_ttl = absent 0,
      uo_ip_identification = absent 0, uo_dont_fragment = absent False, uo_response_behavior = RbUnknown,
      uo_probe_status = OsResponseReceived, uo_family = FamilyUnknown, uo_protocol = OsUdp\<rparr>"

record icmp_observation =
  io_ttl :: "u8 observed_value"
  io_type :: "u8 observed_value"
  io_code :: "u8 observed_value"
  io_response_behavior :: response_behavior
  io_probe_status :: os_probe_status
  io_family :: address_family
  io_protocol :: os_protocol

definition new_icmp_observation :: icmp_observation where
  "new_icmp_observation =
     \<lparr>io_ttl = absent 0, io_type = absent 0, io_code = absent 0, io_response_behavior = RbUnknown,
      io_probe_status = OsResponseReceived, io_family = FamilyUnknown, io_protocol = OsIcmpv4\<rparr>"

record observed_fingerprint =
  of_target :: string
  of_tcp :: "tcp_observation list"
  of_icmp :: "icmp_observation list"
  of_udp :: "udp_observation list"
  of_probes_generated :: nat
  of_probes_sent :: nat
  of_responses_received :: nat
  of_probes_timed_out :: nat
  of_probes_unsupported :: nat
  of_probes_malformed :: nat
  of_rtt :: "rat option"
  of_timestamp :: int
  of_family :: address_family

definition new_fingerprint :: observed_fingerprint where
  "new_fingerprint =
     \<lparr>of_target = [], of_tcp = [], of_icmp = [], of_udp = [], of_probes_generated = 0, of_probes_sent = 0,
      of_responses_received = 0, of_probes_timed_out = 0, of_probes_unsupported = 0, of_probes_malformed = 0,
      of_rtt = None, of_timestamp = 0, of_family = FamilyIPv4\<rparr>"

section \<open>Fingerprints\<close>

datatype fingerprint_field = FfTtl | FfDontFragment | FfWindow | FfMss | FfWindowScale | FfSackPermitted
  | FfTimestamps | FfTcpOptions | FfTcpFlags | FfAckBehavior | FfSequenceBehavior | FfResponseBehavior | FfIcmpTtl
  | FfIcmpType | FfIcmpCode | FfUdpPayloadLength | FfUdpResponseBehavior | FfResponsePresence

datatype match_category = NoMatchCategory | LowConfidence | PossibleMatch | StrongMatch

fun fingerprint_field_name :: "fingerprint_field \<Rightarrow> string" where
  "fingerprint_field_name FfTtl = ''TTL''"
| "fingerprint_field_name FfDontFragment = ''DF''"
| "fingerprint_field_name FfWindow = ''WINDOW''"
| "fingerprint_field_name FfMss = ''MSS''"
| "fingerprint_field_name FfWindowScale = ''WSCALE''"
| "fingerprint_field_name FfSackPermitted = ''SACK''"
| "fingerprint_field_name FfTimestamps = ''TIMESTAMP''"
| "fingerprint_field_name FfTcpOptions = ''TCP_OPTIONS''"
| "fingerprint_field_name FfTcpFlags = ''TCP_FLAGS''"
| "fingerprint_field_name FfAckBehavior = ''ACK_BEHAVIOR''"
| "fingerprint_field_name FfSequenceBehavior = ''SEQUENCE_BEHAVIOR''"
| "fingerprint_field_name FfResponseBehavior = ''RESPONSE_BEHAVIOR''"
| "fingerprint_field_name FfIcmpTtl = ''ICMP_TTL''"
| "fingerprint_field_name FfIcmpType = ''ICMP_TYPE''"
| "fingerprint_field_name FfIcmpCode = ''ICMP_CODE''"
| "fingerprint_field_name FfUdpPayloadLength = ''UDP_PAYLOAD_LENGTH''"
| "fingerprint_field_name FfUdpResponseBehavior = ''UDP_RESPONSE_BEHAVIOR''"
| "fingerprint_field_name FfResponsePresence = ''RESPONSE_PRESENCE''"

fun match_category_name :: "match_category \<Rightarrow> string" where
  "match_category_name NoMatchCategory = ''NO_MATCH''"
| "match_category_name LowConfidence = ''LOW_CONFIDENCE''"
| "match_category_name PossibleMatch = ''POSSIBLE_MATCH''"
| "match_category_name StrongMatch = ''STRONG_MATCH''"

record fingerprint_signature =
  sg_field :: fingerprint_field
  sg_number :: "int option"
  sg_minimum :: "int option"
  sg_maximum :: "int option"
  sg_boolean :: "bool option"
  sg_text :: string
  sg_options :: "tcp_option_kind list"

definition new_signature :: fingerprint_signature where
  "new_signature =
     \<lparr>sg_field = FfTtl, sg_number = None, sg_minimum = None, sg_maximum = None, sg_boolean = None, sg_text = [],
      sg_options = []\<rparr>"

record os_fingerprint =
  fp_name :: string
  fp_vendor :: string
  fp_family :: string
  fp_generation :: string
  fp_device_type :: string
  fp_signatures :: "fingerprint_signature list"
  fp_address_family :: address_family
  fp_id :: string
  fp_specificity :: nat

definition new_os_fingerprint :: os_fingerprint where
  "new_os_fingerprint =
     \<lparr>fp_name = [], fp_vendor = [], fp_family = [], fp_generation = [], fp_device_type = [], fp_signatures = [],
      fp_address_family = FamilyIPv4, fp_id = [], fp_specificity = 0\<rparr>"

section \<open>From packets to observations\<close>

definition has_option :: "tcp \<Rightarrow> tcp_option_kind \<Rightarrow> bool" where
  "has_option t kind = list_ex (\<lambda>p. opt_kind p = kind) (tcp_options t)"

definition option_value_of :: "tcp \<Rightarrow> tcp_option_kind \<Rightarrow> u16 option" where
  "option_value_of t kind = map_option opt_value (find (\<lambda>p. opt_kind p = kind) (tcp_options t))"

definition observe_tcp_response ::
  "string \<Rightarrow> string \<Rightarrow> ipv4 \<Rightarrow> tcp \<Rightarrow> response_behavior \<Rightarrow> os_probe_status \<Rightarrow> tcp_observation" where
  "observe_tcp_response source destination ip t behavior status =
     (let has_timestamp = has_option t OptTimestamp in
      new_tcp_observation
        \<lparr>to_source_address := source, to_destination_address := destination,
         to_source_port := tcp_source_port t, to_destination_port := tcp_destination_port t,
         to_ttl := observed (ip4_ttl ip),
         to_dont_fragment := observed ((ip4_flags_fragment_offset ip AND 0x4000) \<noteq> 0),
         to_window := observed (tcp_window t), to_flags := tcp_flags t,
         to_sequence_number := observed (tcp_sequence_number t),
         to_acknowledgment_number := observed (tcp_acknowledgment_number t),
         to_payload_length := length (tcp_payload t), to_response_behavior := behavior, to_probe_status := status,
         to_family := FamilyIPv4, to_options := map opt_kind (tcp_options t),
         to_mss := (case option_value_of t OptMss of None \<Rightarrow> absent 0 | Some v \<Rightarrow> observed v),
         to_window_scale := (case option_value_of t OptWindowScale of None \<Rightarrow> absent 0 | Some v \<Rightarrow> observed (ucast v)),
         to_sack_permitted := observed (has_option t OptSackPermitted),
         to_timestamps := observed has_timestamp,
         to_timestamp_behavior := (if has_timestamp then TsPresent else TsAbsent),
         to_ack_behavior := (if has_flag (tcp_flags t) Ack then AcknowledgesSyn
            else if has_flag (tcp_flags t) Rst then RstWithoutAck else AckNone)\<rparr>)"

definition observe_icmp_response ::
  "ipv4 \<Rightarrow> u8 \<Rightarrow> u8 \<Rightarrow> response_behavior \<Rightarrow> os_probe_status \<Rightarrow> icmp_observation" where
  "observe_icmp_response ip type code behavior status =
     new_icmp_observation
       \<lparr>io_ttl := observed (ip4_ttl ip), io_type := observed type, io_code := observed code,
        io_response_behavior := behavior, io_probe_status := status, io_family := FamilyIPv4\<rparr>"

definition merge_family :: "address_family \<Rightarrow> observed_fingerprint \<Rightarrow> observed_fingerprint" where
  "merge_family family f =
     (if family = FamilyUnknown then f
      else if of_family f = FamilyUnknown then f\<lparr>of_family := family\<rparr>
      else if of_family f \<noteq> family then f\<lparr>of_family := FamilyUnknown\<rparr>
      else f)"

text \<open>The counter of a status, as the three overloads of \<open>append_observation\<close> advance it.\<close>

fun count_status :: "os_probe_status \<Rightarrow> observed_fingerprint \<Rightarrow> observed_fingerprint" where
  "count_status OsGenerated f = f\<lparr>of_probes_generated := of_probes_generated f + 1\<rparr>"
| "count_status OsSent f = f\<lparr>of_probes_sent := of_probes_sent f + 1\<rparr>"
| "count_status OsResponseReceived f = f\<lparr>of_responses_received := of_responses_received f + 1\<rparr>"
| "count_status OsTimeout f = f\<lparr>of_probes_timed_out := of_probes_timed_out f + 1\<rparr>"
| "count_status OsUnsupported f = f\<lparr>of_probes_unsupported := of_probes_unsupported f + 1\<rparr>"
| "count_status OsMalformed f = f\<lparr>of_probes_malformed := of_probes_malformed f + 1\<rparr>"

definition append_tcp_observation :: "int \<Rightarrow> tcp_observation \<Rightarrow> observed_fingerprint \<Rightarrow> observed_fingerprint" where
  "append_tcp_observation now ob f =
     (let f1 = count_status (to_probe_status ob) (merge_family (to_family ob) f)
      in f1\<lparr>of_tcp := of_tcp f1 @ [ob\<lparr>to_protocol := OsTcp\<rparr>], of_timestamp := now\<rparr>)"

definition append_udp_observation :: "int \<Rightarrow> udp_observation \<Rightarrow> observed_fingerprint \<Rightarrow> observed_fingerprint" where
  "append_udp_observation now ob f =
     (let f1 = count_status (uo_probe_status ob) (merge_family (uo_family ob) f)
      in f1\<lparr>of_udp := of_udp f1 @ [ob\<lparr>uo_protocol := OsUdp\<rparr>], of_timestamp := now\<rparr>)"

definition append_icmp_observation :: "int \<Rightarrow> icmp_observation \<Rightarrow> observed_fingerprint \<Rightarrow> observed_fingerprint" where
  "append_icmp_observation now ob f =
     (let f1 = count_status (io_probe_status ob) (merge_family (io_family ob) f)
      in f1\<lparr>of_icmp := of_icmp f1 @ [ob\<lparr>io_protocol := if io_family ob = FamilyIPv6 then OsIcmpv6 else OsIcmpv4\<rparr>],
            of_timestamp := now\<rparr>)"

end
