(* ===== verification/Os_Probes.thy ===== *)
theory Os_Probes
  imports Os_Types Discovery_Probes Packet_Composer Ipv6_Extensions
begin

text \<open>
  The probes of operating system detection (\<open>src/osdetect/os_probe.cpp\<close>): what each kind sends, how a
  response is attributed to a probe and turned into an observation, and the recording transport of
  the unit tests. A read outside a buffer would be the result \<open>OutOfBounds\<close>.
\<close>

section \<open>Messages\<close>

record os_probe_config =
  opc_timeout :: int
  opc_probe_port :: u16
  opc_source_address :: string
  opc_udp_probe_port :: u16
  opc_udp_probe_payload :: bytes

record os_submission =
  os_id :: u64
  os_type :: os_probe_type
  os_target :: string
  os_source_address :: string
  os_destination_port :: u16
  os_source_port :: u16
  os_sequence_number :: u32
  os_correlation_identifier :: u16
  os_correlation_sequence :: u16
  os_bytes :: bytes
  os_status :: os_probe_status
  os_generated_at :: int
  os_source_ip :: ip_address
  os_target_ip :: ip_address

definition new_os_submission :: os_submission where
  "new_os_submission =
     \<lparr>os_id = 0, os_type = TcpSynStandard, os_target = [], os_source_address = [], os_destination_port = 0,
      os_source_port = 0, os_sequence_number = 0, os_correlation_identifier = 0, os_correlation_sequence = 0,
      os_bytes = [], os_status = OsGenerated, os_generated_at = 0, os_source_ip = default_ip, os_target_ip = default_ip\<rparr>"

record os_response =
  or_id :: u64
  or_source_address :: string
  or_destination_address :: string
  or_kind :: os_response_kind
  or_error_number :: int
  or_bytes :: bytes
  or_ip_ttl :: u8
  or_ip_identification :: u16
  or_ip_dont_fragment :: bool
  or_source_port :: u16
  or_destination_port :: u16
  or_received_at :: int
  or_source_ip :: ip_address
  or_destination_ip :: ip_address

datatype os_disposition = OsMatching | OsUnrelated | OsMalformedReply

record os_assessment =
  oa_status :: status_code
  oa_disposition :: os_disposition
  oa_behavior :: response_behavior
  oa_tcp :: "tcp_observation option"
  oa_icmp :: "icmp_observation option"
  oa_udp :: "udp_observation option"

definition unrelated :: os_assessment where
  "unrelated =
     \<lparr>oa_status = Ok, oa_disposition = OsUnrelated, oa_behavior = RbUnknown, oa_tcp = None, oa_icmp = None, oa_udp = None\<rparr>"

definition malformed :: os_assessment where
  "malformed = unrelated\<lparr>oa_status := ParseError, oa_disposition := OsMalformedReply, oa_behavior := RbMalformed\<rparr>"

definition matching :: "response_behavior \<Rightarrow> os_assessment" where
  "matching b = unrelated\<lparr>oa_disposition := OsMatching, oa_behavior := b\<rparr>"

section \<open>Building a probe\<close>

definition os_source_port_for :: "u64 \<Rightarrow> u16" where
  "os_source_port_for i = ucast (40000 + i mod 20000)"

definition os_sequence_for :: "u64 \<Rightarrow> u32" where
  "os_sequence_for i = 0x51000000 XOR ucast i"

definition flags_of :: "tcp_flag list \<Rightarrow> u16" where
  "flags_of fs = foldr (\<lambda>f acc. flag_bit f OR acc) fs 0"

fun os_probe_flags :: "os_probe_type \<Rightarrow> u16" where
  "os_probe_flags TcpEcn = flags_of [Syn, Ece, Cwr]"
| "os_probe_flags TcpClosedStandard = flags_of [Fin, Psh, Urg]"
| "os_probe_flags TcpClosedVariant = flags_of [Ack, Fin]"
| "os_probe_flags TcpAckProbe = flags_of [Ack]"
| "os_probe_flags TcpFinProbe = flags_of [Fin]"
| "os_probe_flags TcpNull = 0"
| "os_probe_flags TcpXmas = flags_of [Fin, Psh, Urg]"
| "os_probe_flags _ = flags_of [Syn]"

definition value_option :: "tcp_option_kind \<Rightarrow> u16 \<Rightarrow> tcp_option" where
  "value_option k v = \<lparr>opt_kind = k, opt_value = v, opt_ts_value = 0, opt_ts_echo = 0\<rparr>"

text \<open>\<open>{Timestamp, 1, 1, 0}\<close>: the second member is the value, which a timestamp does not send.\<close>

definition timestamp_option :: tcp_option where
  "timestamp_option = \<lparr>opt_kind = OptTimestamp, opt_value = 1, opt_ts_value = 1, opt_ts_echo = 0\<rparr>"

definition os_probe_options :: "os_probe_type \<Rightarrow> tcp_option list" where
  "os_probe_options t =
     (if t = TcpSynVariant then [value_option OptMss 1460, value_option OptWindowScale 8, plain_option OptSackPermitted]
      else [value_option OptMss 1460, plain_option OptSackPermitted, timestamp_option, value_option OptWindowScale 7])"

definition os_probe_tcp :: "os_probe_type \<Rightarrow> os_submission \<Rightarrow> tcp" where
  "os_probe_tcp t s =
     tcp_set_options (os_probe_options t)
       (new_tcp\<lparr>tcp_source_port := os_source_port s, tcp_destination_port := os_destination_port s,
          tcp_sequence_number := os_sequence_number s, tcp_window := (if t = TcpSynVariant then 65535 else 64240),
          tcp_flags := os_probe_flags t\<rparr>)"

definition serialize_ipv4_tcp :: "u32 \<Rightarrow> u32 \<Rightarrow> u8 \<Rightarrow> bool \<Rightarrow> tcp \<Rightarrow> status_code \<times> bytes" where
  "serialize_ipv4_tcp source destination ttl dont_fragment t =
     (let ip = new_ipv4\<lparr>ip4_source_address := source, ip4_destination_address := destination, ip4_protocol := 6,
            ip4_ttl := ttl, ip4_flags_fragment_offset := (if dont_fragment then 0x4000 else 0)\<rparr>;
          out = packet_bytes (set_tcp t (set_ipv4 ip new_packet))
      in (if out = [] then InvalidArgument else Ok, out))"

definition serialize_ipv6_tcp :: "bytes \<Rightarrow> bytes \<Rightarrow> tcp \<Rightarrow> status_code \<times> bytes" where
  "serialize_ipv6_tcp source destination t =
     (let ip = new_ipv6\<lparr>ip6_next_header := 6, ip6_source_address := source, ip6_destination_address := destination\<rparr>;
          out = packet_bytes (set_tcp t (set_ipv6 ip new_packet))
      in (if out = [] then InvalidArgument else Ok, out))"

definition os_source_ip_for :: "libc \<Rightarrow> os_probe_config \<Rightarrow> ip_address \<Rightarrow> ip_address option" where
  "os_source_ip_for lc cfg destination =
     (let configured = parse_ip_address lc (opc_source_address cfg) in
      if is_ipv6 destination then
        let source = (case configured of Some a \<Rightarrow> if is_ipv6 a then a else from_ipv6 (replicate 16 0)
              | None \<Rightarrow> from_ipv6 (replicate 16 0))
        in Some (if is_ipv6_link_local destination then source\<lparr>ip_scope := ip_scope destination\<rparr> else source)
      else
        case configured of None \<Rightarrow> None | Some a \<Rightarrow> if is_ipv4 a then Some a else None)"

definition os_destination :: "libc \<Rightarrow> host \<Rightarrow> ip_address" where
  "os_destination lc h =
     (if ip_valid (h_ip h) then h_ip h
      else case parse_ip_address lc (h_address h) of Some a \<Rightarrow> a | None \<Rightarrow> default_ip)"

text \<open>The parts that do not depend on the kind of the probe.\<close>

definition os_submission_for ::
  "libc \<Rightarrow> int \<Rightarrow> os_probe_type \<Rightarrow> u64 \<Rightarrow> os_probe_config \<Rightarrow> ip_address \<Rightarrow> ip_address \<Rightarrow> os_submission" where
  "os_submission_for lc now t i cfg source destination =
     new_os_submission\<lparr>os_id := i, os_type := t, os_destination_port := opc_probe_port cfg,
       os_source_port := os_source_port_for i, os_sequence_number := os_sequence_for i,
       os_source_address := ip_to_string lc source, os_target := ip_to_string lc destination,
       os_source_ip := source, os_target_ip := destination, os_generated_at := now\<rparr>"

definition os_build_echo :: "u64 \<Rightarrow> os_submission \<Rightarrow> status_code \<times> os_submission" where
  "os_build_echo i s0 =
     (let idn = ucast (i AND 0xFFFF); sq = ucast (drop_bit 16 i AND 0xFFFF);
          s = s0\<lparr>os_correlation_identifier := idn, os_correlation_sequence := sq\<rparr>
      in if is_ipv6 (os_target_ip s) then
           let m = (icmp6_set_sequence sq (icmp6_set_identifier idn (new_icmp6 Icmp6_EchoRequest)))\<lparr>icmp6_payload := skan_payload\<rparr>
           in (case icmp6_serialize_with_checksum m (replicate (icmp6_serialized_size m) 0)
                 (ip_bytes (os_source_ip s)) (ip_bytes (os_target_ip s)) of
                 (st, out) \<Rightarrow> (st, s\<lparr>os_bytes := out\<rparr>))
         else
           let m = \<lparr>icmp_type = Icmp_EchoRequest, icmp_code = 0, icmp_identifier = idn, icmp_sequence = sq,
                 icmp_checksum = 0, icmp_payload = skan_payload\<rparr>
           in (Ok, s\<lparr>os_bytes := element_bytes icmp_serialize icmp_serialized_size m\<rparr>))"

definition os_build_udp :: "os_probe_config \<Rightarrow> os_submission \<Rightarrow> status_code \<times> os_submission" where
  "os_build_udp cfg s0 =
     (let u = \<lparr>udp_source_port = os_source_port s0, udp_destination_port = opc_udp_probe_port cfg, udp_checksum = 0,
            udp_payload = opc_udp_probe_payload cfg\<rparr>;
          s = s0\<lparr>os_destination_port := opc_udp_probe_port cfg\<rparr>
      in if is_ipv6 (os_target_ip s) then
           (case udp_serialize_with_checksum6 u (replicate (udp_serialized_size u) 0)
              (ip_bytes (os_source_ip s)) (ip_bytes (os_target_ip s)) of
              (st, out) \<Rightarrow> (st, s\<lparr>os_bytes := out\<rparr>))
         else
           let out = element_bytes udp_serialize udp_serialized_size u
           in (if out = [] then InvalidArgument else Ok, s\<lparr>os_bytes := out\<rparr>))"

definition os_build_tcp :: "os_probe_type \<Rightarrow> os_submission \<Rightarrow> status_code \<times> os_submission" where
  "os_build_tcp t s =
     (case (if is_ipv6 (os_target_ip s)
            then serialize_ipv6_tcp (ip_bytes (os_source_ip s)) (ip_bytes (os_target_ip s)) (os_probe_tcp t s)
            else serialize_ipv4_tcp (ipv4_value (os_source_ip s)) (ipv4_value (os_target_ip s))
              (if t = TcpSynVariant then 64 else 128) (t \<noteq> TcpNull) (os_probe_tcp t s)) of
        (st, out) \<Rightarrow> (st, s\<lparr>os_bytes := out\<rparr>))"

text \<open>An early return leaves the submission of the caller as it was.\<close>

definition os_build ::
  "libc \<Rightarrow> int \<Rightarrow> os_probe_type \<Rightarrow> u64 \<Rightarrow> host \<Rightarrow> os_probe_config \<Rightarrow> os_submission \<Rightarrow> status_code \<times> os_submission" where
  "os_build lc now t i h cfg s0 =
     (let destination = os_destination lc h in
      if \<not> ip_valid destination \<or> opc_probe_port cfg = 0 then (InvalidArgument, s0)
      else case os_source_ip_for lc cfg destination of
        None \<Rightarrow> (InvalidArgument, s0)
      | Some source \<Rightarrow>
          let s = os_submission_for lc now t i cfg source destination in
          if t = IcmpEcho then os_build_echo i s
          else if t = UdpFingerprint then os_build_udp cfg s
          else os_build_tcp t s)"

section \<open>Assessing a response\<close>

definition on_parsed :: "'a parsed \<Rightarrow> 'b parsed \<Rightarrow> ('a \<Rightarrow> 'b parsed) \<Rightarrow> 'b parsed" where
  "on_parsed p rejected k = (case p of Parsed x \<Rightarrow> k x | Rejected \<Rightarrow> rejected | OutOfBounds \<Rightarrow> OutOfBounds)"

definition ttl_of :: "os_response \<Rightarrow> u8 observed_value" where
  "ttl_of r = (if or_ip_ttl r = 0 then absent 0 else observed (or_ip_ttl r))"

definition echo_observation :: "os_response \<Rightarrow> address_family \<Rightarrow> u8 \<Rightarrow> u8 \<Rightarrow> icmp_observation" where
  "echo_observation r family type code =
     new_icmp_observation\<lparr>io_ttl := ttl_of r, io_type := observed type, io_code := observed code,
       io_response_behavior := RbEchoReply, io_probe_status := OsResponseReceived, io_family := family,
       io_protocol := (if family = FamilyIPv6 then OsIcmpv6 else OsIcmpv4)\<rparr>"

definition assess_echo6 :: "os_response \<Rightarrow> os_submission \<Rightarrow> os_assessment parsed" where
  "assess_echo6 r s =
     on_parsed (icmp6_parse (or_bytes r)) (Parsed malformed) (\<lambda>m.
       if icmp6_type m \<noteq> Icmp6_EchoReply \<or> icmp6_code m \<noteq> 0 \<or> icmp6_identifier m \<noteq> os_correlation_identifier s \<or>
          icmp6_sequence m \<noteq> os_correlation_sequence s then Parsed unrelated
       else Parsed ((matching RbEchoReply)\<lparr>oa_icmp :=
         Some (echo_observation r FamilyIPv6 (icmp6_type_code (icmp6_type m)) (icmp6_code m))\<rparr>))"

definition assess_echo4 :: "os_response \<Rightarrow> os_submission \<Rightarrow> os_assessment parsed" where
  "assess_echo4 r s =
     on_parsed (icmp_parse (or_bytes r)) (Parsed malformed) (\<lambda>m.
       if icmp_type m \<noteq> Icmp_EchoReply \<or> icmp_identifier m \<noteq> os_correlation_identifier s \<or>
          icmp_sequence m \<noteq> os_correlation_sequence s then Parsed unrelated
       else Parsed ((matching RbEchoReply)\<lparr>oa_icmp :=
         Some (echo_observation r FamilyIPv4 (icmp_type_code (icmp_type m)) (icmp_code m))\<rparr>))"

definition udp_observation_for :: "os_response \<Rightarrow> address_family \<Rightarrow> udp_observation" where
  "udp_observation_for r family =
     (let ob = new_udp_observation\<lparr>uo_ttl := ttl_of r, uo_probe_status := OsResponseReceived, uo_family := family\<rparr> in
      if family = FamilyIPv6 then ob
      else ob\<lparr>uo_ip_identification := (if or_ip_identification r = 0 then absent 0 else observed (or_ip_identification r)),
              uo_dont_fragment := (if or_ip_dont_fragment r then observed True else absent False)\<rparr>)"

definition udp_matching :: "response_behavior \<Rightarrow> udp_observation \<Rightarrow> os_assessment" where
  "udp_matching b ob = (matching b)\<lparr>oa_udp := Some (ob\<lparr>uo_response_behavior := b\<rparr>)\<rparr>"

text \<open>A datagram from the probed port; the same for both families.\<close>

definition assess_datagram :: "os_response \<Rightarrow> os_submission \<Rightarrow> udp_observation \<Rightarrow> os_assessment parsed" where
  "assess_datagram r s ob =
     on_parsed (udp_parse (or_bytes r)) (Parsed malformed) (\<lambda>u.
       if udp_source_port u \<noteq> os_destination_port s \<or> udp_destination_port u \<noteq> os_source_port s then Parsed malformed
       else Parsed (udp_matching RbUdpResponse
         (ob\<lparr>uo_source_port := udp_source_port u, uo_destination_port := udp_destination_port u,
             uo_payload_length := observed (length (udp_payload u))\<rparr>)))"

definition assess_udp6 :: "os_response \<Rightarrow> os_submission \<Rightarrow> os_assessment parsed" where
  "assess_udp6 r s =
     (let ob = udp_observation_for r FamilyIPv6 in
      if or_kind r \<noteq> OrIcmpError then assess_datagram r s ob
      else
        on_parsed (icmp6_parse (or_bytes r)) (Parsed malformed) (\<lambda>m.
        on_parsed (parse_ipv6_udp_quote (icmp6_payload m) 8 2048) (Parsed malformed) (\<lambda>q.
          if icmp6_type m \<noteq> Icmp6_DestinationUnreachable \<or>
             ip6_source_address (quote_ip q) \<noteq> ip_bytes (os_source_ip s) \<or>
             ip6_destination_address (quote_ip q) \<noteq> ip_bytes (os_target_ip s) \<or>
             quote_source_port q \<noteq> os_source_port s \<or> quote_destination_port q \<noteq> os_destination_port s
          then Parsed malformed
          else Parsed (udp_matching (if icmp6_code m = 4 then RbPortUnreachable else RbMalformed) ob))))"

text \<open>
  The packet an ICMP error quotes: \<open>Rejected\<close> is malformed, \<open>Parsed False\<close> the packet of another probe.
\<close>

definition quotes_probe4 :: "bytes \<Rightarrow> u32 \<Rightarrow> u32 \<Rightarrow> os_submission \<Rightarrow> bool parsed" where
  "quotes_probe4 quoted source destination s =
     (if length quoted < 28 then Rejected
      else rd8 quoted 0 (\<lambda>b0.
        let ihl = b0 AND 0x0F; header = unat ihl * 4 in
        if drop_bit 4 b0 \<noteq> 4 \<or> ihl < 5 \<or> length quoted < header + 8 \<or> checksum_internet (take header quoted) \<noteq> 0
        then Rejected
        else rd8 quoted 9 (\<lambda>protocol. if protocol \<noteq> 17 then Rejected
        else read_u16 quoted (header + 4) (\<lambda>len. if len < 8 then Parsed False
        else read_u32 quoted 12 (\<lambda>src. if src \<noteq> source then Parsed False
        else read_u32 quoted 16 (\<lambda>dst. if dst \<noteq> destination then Parsed False
        else read_u16 quoted header (\<lambda>sp. if sp \<noteq> os_source_port s then Parsed False
        else read_u16 quoted (header + 2) (\<lambda>dp. Parsed (dp = os_destination_port s)))))))))"

definition assess_udp4 :: "os_response \<Rightarrow> os_submission \<Rightarrow> os_assessment parsed" where
  "assess_udp4 r s =
     (case (parse_ipv4_address (os_target s), parse_ipv4_address (os_source_address s)) of
        (Some destination, Some source) \<Rightarrow>
          let ob = udp_observation_for r FamilyIPv4 in
          if or_kind r \<noteq> OrIcmpError then assess_datagram r s ob
          else
            on_parsed (icmp_parse (or_bytes r)) (Parsed malformed) (\<lambda>m.
              if icmp_type m \<noteq> Icmp_DestinationUnreachable then Parsed malformed
              else on_parsed (quotes_probe4 (icmp_payload m) source destination s) (Parsed malformed) (\<lambda>ours.
                if \<not> ours then Parsed unrelated
                else Parsed (udp_matching (if icmp_code m = 3 then RbPortUnreachable else RbMalformed) ob)))
      | _ \<Rightarrow> Parsed (malformed\<lparr>oa_status := InvalidArgument\<rparr>))"

text \<open>A segment that answers the probe: a reset, or an acknowledgment of its sequence number.\<close>

definition answers_probe :: "tcp \<Rightarrow> os_submission \<Rightarrow> bool" where
  "answers_probe t s \<longleftrightarrow>
     has_flag (tcp_flags t) Rst \<or>
     (has_flag (tcp_flags t) Syn \<and> has_flag (tcp_flags t) Ack \<and> tcp_acknowledgment_number t = os_sequence_number s + 1)"

definition segment_behavior :: "tcp \<Rightarrow> response_behavior" where
  "segment_behavior t = (if has_flag (tcp_flags t) Rst then RbRst else RbSynAck)"

definition assess_tcp6 :: "libc \<Rightarrow> os_response \<Rightarrow> os_submission \<Rightarrow> os_assessment parsed" where
  "assess_tcp6 lc r s =
     on_parsed (tcp_parse (or_bytes r)) (Parsed malformed) (\<lambda>t.
       if tcp_source_port t \<noteq> os_destination_port s \<or> tcp_destination_port t \<noteq> os_source_port s then Parsed malformed
       else if \<not> answers_probe t s then Parsed unrelated
       else Parsed ((matching (segment_behavior t))\<lparr>oa_tcp := Some
         (new_tcp_observation\<lparr>to_source_address := ip_to_string lc (or_source_ip r),
            to_destination_address := ip_to_string lc (or_destination_ip r),
            to_source_port := tcp_source_port t, to_destination_port := tcp_destination_port t, to_ttl := ttl_of r,
            to_window := observed (tcp_window t), to_flags := tcp_flags t, to_options := map opt_kind (tcp_options t),
            to_sequence_number := observed (tcp_sequence_number t),
            to_acknowledgment_number := observed (tcp_acknowledgment_number t),
            to_ack_behavior := (if has_flag (tcp_flags t) Rst then RstWithoutAck else AcknowledgesSyn),
            to_response_behavior := segment_behavior t, to_probe_status := OsResponseReceived,
            to_family := FamilyIPv6, to_protocol := OsTcp\<rparr>)\<rparr>))"

definition assess_tcp4 :: "os_response \<Rightarrow> os_submission \<Rightarrow> os_assessment parsed" where
  "assess_tcp4 r s =
     (if length (or_bytes r) < 20 then Parsed malformed
      else on_parsed (ip4_parse (or_bytes r)) (Parsed malformed) (\<lambda>ip.
        let header = unat (ip4_ihl ip) * 4 in
        if ip4_protocol ip \<noteq> 6 then Parsed malformed
        else if header > length (or_bytes r) then Parsed malformed
        else on_parsed (tcp_parse (drop header (or_bytes r))) (Parsed malformed) (\<lambda>t.
          case (parse_ipv4_address (os_target s), parse_ipv4_address (os_source_address s)) of
            (Some destination, Some source) \<Rightarrow>
              if ip4_source_address ip \<noteq> destination \<or> ip4_destination_address ip \<noteq> source \<or>
                 tcp_source_port t \<noteq> os_destination_port s \<or> tcp_destination_port t \<noteq> os_source_port s
              then Parsed unrelated
              else if \<not> answers_probe t s then Parsed unrelated
              else Parsed ((matching (segment_behavior t))\<lparr>oa_tcp := Some
                (observe_tcp_response (os_target s) (os_source_address s) ip t (segment_behavior t) OsResponseReceived)\<rparr>)
          | _ \<Rightarrow> Parsed unrelated)))"

definition os_assess :: "libc \<Rightarrow> os_response \<Rightarrow> os_submission \<Rightarrow> os_assessment parsed" where
  "os_assess lc r s =
     (if or_kind r = OrError then
        Parsed (unrelated\<lparr>oa_status := IoError, oa_disposition := OsMatching, oa_behavior := RbNoResponse\<rparr>)
      else if or_source_address r \<noteq> [] \<and> or_source_address r \<noteq> os_target s then Parsed unrelated
      else if or_destination_address r \<noteq> [] \<and> or_destination_address r \<noteq> os_source_address s then Parsed unrelated
      else if is_ipv6 (os_target_ip s) then
        if \<not> ip_valid (or_source_ip r) \<or> \<not> ip_valid (or_destination_ip r) \<or>
           or_source_ip r \<noteq> os_target_ip s \<or> or_destination_ip r \<noteq> os_source_ip s then Parsed unrelated
        else if os_type s = IcmpEcho then assess_echo6 r s
        else if os_type s = UdpFingerprint then assess_udp6 r s
        else assess_tcp6 lc r s
      else if os_type s = IcmpEcho then assess_echo4 r s
      else if os_type s = UdpFingerprint then assess_udp4 r s
      else assess_tcp4 r s)"

section \<open>The recording transport\<close>

text \<open>\<open>callbacks_\<close> as the identifiers it holds; a callback calls \<open>receive\<close> of the scheduler.\<close>

record recording_os =
  rec_os_submissions :: "os_submission list"
  rec_os_callbacks :: "u64 list"

definition recording_os_submit :: "os_submission \<Rightarrow> bool \<Rightarrow> recording_os \<Rightarrow> status_code \<times> recording_os" where
  "recording_os_submit s has_callback t =
     (if os_id s = 0 \<or> \<not> has_callback \<or> os_id s \<in> set (rec_os_callbacks t) then (InvalidArgument, t)
      else (Ok, t\<lparr>rec_os_submissions := rec_os_submissions t @ [s], rec_os_callbacks := os_id s # rec_os_callbacks t\<rparr>))"

definition recording_os_cancel :: "u64 \<Rightarrow> recording_os \<Rightarrow> recording_os" where
  "recording_os_cancel i t = t\<lparr>rec_os_callbacks := removeAll i (rec_os_callbacks t)\<rparr>"

text \<open>The response the callback is called with, if there is one.\<close>

definition recording_os_deliver :: "int \<Rightarrow> os_response \<Rightarrow> recording_os \<Rightarrow> os_response option" where
  "recording_os_deliver now r t =
     (if or_id r \<notin> set (rec_os_callbacks t) then None
      else Some (if or_received_at r = 0 then r\<lparr>or_received_at := now\<rparr> else r))"

end
