(* ===== verification/Os_Database.thy ===== *)
theory Os_Database
  imports Os_Types Udp_Database Status
begin

text \<open>
  The database of operating system fingerprints (\<open>src/db/os_db.cpp\<close>): its text format, the loader of
  one file, and the two files of the installation joined into one database.
\<close>

section \<open>Tokens\<close>

definition line_blank :: "char \<Rightarrow> bool" where
  "line_blank c \<longleftrightarrow> c = CHR '' '' \<or> c = CHR 0x09 \<or> c = CHR 0x0D"

definition trim_line :: "string \<Rightarrow> string" where
  "trim_line s = rev (dropWhile line_blank (rev (dropWhile line_blank s)))"

definition has_prefix :: "string \<Rightarrow> string \<Rightarrow> bool" where
  "has_prefix s pre \<longleftrightarrow> length s \<ge> length pre \<and> take (length pre) s = pre"

definition parse_integer :: "string \<Rightarrow> int option" where
  "parse_integer s =
     (let t = trim_line s in
      if t = [] then None
      else if hd t = CHR ''-'' then
        (case from_chars (2 ^ 63) (tl t) of Some (n, []) \<Rightarrow> Some (- int n) | _ \<Rightarrow> None)
      else (case from_chars (2 ^ 63 - 1) t of Some (n, []) \<Rightarrow> Some (int n) | _ \<Rightarrow> None))"

definition parse_number_range :: "string \<Rightarrow> (int \<times> int) option" where
  "parse_number_range s =
     (let t = trim_line s; left = takeWhile (\<lambda>c. c \<noteq> CHR ''-'') t; after = dropWhile (\<lambda>c. c \<noteq> CHR ''-'') t in
      if after = [] \<or> left = [] \<or> tl after = [] then None
      else case (parse_integer left, parse_integer (tl after)) of
        (Some minimum, Some maximum) \<Rightarrow> if minimum < 0 \<or> maximum < minimum then None else Some (minimum, maximum)
      | _ \<Rightarrow> None)"

definition parse_boolean :: "string \<Rightarrow> bool option" where
  "parse_boolean s =
     (let t = trim_line s in
      if t = ''Y'' \<or> t = ''YES'' \<or> t = ''1'' then Some True
      else if t = ''N'' \<or> t = ''NO'' \<or> t = ''0'' then Some False
      else None)"

text \<open>\<open>split_pipe\<close> and \<open>split_comma\<close>.\<close>

function split_trimmed :: "char \<Rightarrow> string \<Rightarrow> string list" where
  "split_trimmed sep s =
     (let part = takeWhile (\<lambda>c. c \<noteq> sep) s; after = dropWhile (\<lambda>c. c \<noteq> sep) s in
      trim_line part # (if after = [] then [] else split_trimmed sep (tl after)))"
  by pat_completeness auto
termination
proof (relation "measure (\<lambda>(_, s). length s)", goal_cases)
  case (2 sep s part after)
  have "length after \<le> length s" unfolding 2(2) by (rule length_dropWhile_le)
  then show ?case using 2(3) by (cases after) auto
qed simp

declare split_trimmed.simps [simp del]

definition parse_tcp_option :: "string \<Rightarrow> tcp_option_kind option" where
  "parse_tcp_option s =
     (let t = trim_line s in
      if t = ''NOP'' then Some OptNop
      else if t = ''MSS'' then Some OptMss
      else if t = ''WS'' \<or> t = ''WSCALE'' then Some OptWindowScale
      else if t = ''SACK'' then Some OptSackPermitted
      else if t = ''TS'' \<or> t = ''TIMESTAMP'' then Some OptTimestamp
      else None)"

definition parse_family :: "string \<Rightarrow> address_family option" where
  "parse_family s =
     (let t = trim_line s in
      if t = ''IPv4'' \<or> t = ''ipv4'' then Some FamilyIPv4
      else if t = ''IPv6'' \<or> t = ''ipv6'' then Some FamilyIPv6
      else None)"

section \<open>Signatures\<close>

definition number_field :: "string \<Rightarrow> fingerprint_field option" where
  "number_field k =
     (if k = ''TTL'' then Some FfTtl else if k = ''WINDOW'' then Some FfWindow else if k = ''MSS'' then Some FfMss
      else if k = ''WSCALE'' then Some FfWindowScale else if k = ''TCP_FLAGS'' then Some FfTcpFlags
      else if k = ''ICMP_TTL'' then Some FfIcmpTtl else if k = ''UDP_PAYLOAD_LENGTH'' then Some FfUdpPayloadLength
      else if k = ''ICMP_TYPE'' then Some FfIcmpType else if k = ''ICMP_CODE'' then Some FfIcmpCode else None)"

definition boolean_field :: "string \<Rightarrow> fingerprint_field option" where
  "boolean_field k =
     (if k = ''DF'' then Some FfDontFragment else if k = ''SACK'' then Some FfSackPermitted
      else if k = ''TIMESTAMP'' then Some FfTimestamps else if k = ''RESPONSE_PRESENCE'' then Some FfResponsePresence
      else None)"

definition range_field :: "string \<Rightarrow> fingerprint_field option" where
  "range_field k =
     (if k = ''TTL_RANGE'' then Some FfTtl else if k = ''WINDOW_RANGE'' then Some FfWindow
      else if k = ''ICMP_TTL_RANGE'' then Some FfIcmpTtl else if k = ''UDP_PAYLOAD_RANGE'' then Some FfUdpPayloadLength
      else None)"

definition text_field :: "string \<Rightarrow> fingerprint_field option" where
  "text_field k =
     (if k = ''UDP_RESPONSE_BEHAVIOR'' then Some FfUdpResponseBehavior
      else if k = ''ACK_BEHAVIOR'' then Some FfAckBehavior
      else if k = ''SEQUENCE_BEHAVIOR'' then Some FfSequenceBehavior
      else if k = ''RESPONSE_BEHAVIOR'' then Some FfResponseBehavior
      else None)"

text \<open>The options up to the first that is unknown, and whether all were read.\<close>

fun read_options :: "string list \<Rightarrow> tcp_option_kind list \<times> bool" where
  "read_options [] = ([], True)"
| "read_options (t # ts) =
     (case parse_tcp_option t of
        None \<Rightarrow> ([], False)
      | Some k \<Rightarrow> (case read_options ts of (ks, ok) \<Rightarrow> (k # ks, ok)))"

definition parse_signature :: "string \<Rightarrow> string \<Rightarrow> fingerprint_signature option" where
  "parse_signature k v =
     (case number_field k of
        Some f \<Rightarrow>
          (case parse_integer v of
             None \<Rightarrow> None
           | Some n \<Rightarrow> if n < 0 then None else Some (new_signature\<lparr>sg_field := f, sg_number := Some n\<rparr>))
      | None \<Rightarrow>
     (case boolean_field k of
        Some f \<Rightarrow> map_option (\<lambda>b. new_signature\<lparr>sg_field := f, sg_boolean := Some b\<rparr>) (parse_boolean v)
      | None \<Rightarrow>
          if k = ''TCP_OPTIONS'' then
            (case read_options (split_trimmed CHR '','' v) of
               (ks, ok) \<Rightarrow> if \<not> ok \<or> ks = [] then None else Some (new_signature\<lparr>sg_field := FfTcpOptions, sg_options := ks\<rparr>))
          else
     (case range_field k of
        Some f \<Rightarrow>
          map_option (\<lambda>(minimum, maximum). new_signature\<lparr>sg_field := f, sg_minimum := Some minimum, sg_maximum := Some maximum\<rparr>)
            (parse_number_range v)
      | None \<Rightarrow> map_option (\<lambda>f. new_signature\<lparr>sg_field := f, sg_text := v\<rparr>) (text_field k))))"

section \<open>The parser\<close>

record os_parser =
  op_current :: "os_fingerprint option"
  op_has_class :: bool
  op_has_family :: bool
  op_names :: "string list"
  op_ids :: "string list"
  op_fingerprints :: "os_fingerprint list"

definition new_os_parser :: os_parser where
  "new_os_parser =
     \<lparr>op_current = None, op_has_class = False, op_has_family = False, op_names = [], op_ids = [], op_fingerprints = []\<rparr>"

definition fp_has_field :: "os_fingerprint \<Rightarrow> fingerprint_field \<Rightarrow> bool" where
  "fp_has_field fp f = list_ex (\<lambda>s. sg_field s = f) (fp_signatures fp)"

text \<open>\<open>None\<close> is the result \<open>false\<close>, after which the parser gives up.\<close>

definition finalize_fingerprint :: "address_family \<Rightarrow> os_parser \<Rightarrow> os_parser option" where
  "finalize_fingerprint expected p =
     (case op_current p of
        None \<Rightarrow> Some p
      | Some c0 \<Rightarrow>
          let c1 = (if fp_id c0 = [] then c0\<lparr>fp_id := fp_name c0\<rparr> else c0);
              c = (if fp_specificity c1 = 0 then c1\<lparr>fp_specificity := length (fp_signatures c1) mod 65536\<rparr> else c1)
          in if \<not> op_has_class p \<or> fp_signatures c = [] \<or> fp_vendor c = [] \<or> fp_family c = [] \<or>
               length (fp_name c) > 128 \<or> length (fp_vendor c) > 128 \<or> length (fp_family c) > 128 \<or>
               length (fp_generation c) > 128 \<or> length (fp_device_type c) > 128 \<or> length (fp_signatures c) > 64 \<or>
               (expected = FamilyIPv6 \<and> \<not> op_has_family p) \<or>
               (expected \<noteq> FamilyUnknown \<and> fp_address_family c \<noteq> expected) \<or>
               length (op_fingerprints p) \<ge> 256 \<or> fp_name c \<in> set (op_names p) \<or> fp_id c \<in> set (op_ids p)
             then None
             else Some (p\<lparr>op_fingerprints := op_fingerprints p @ [c], op_names := fp_name c # op_names p,
                          op_ids := fp_id c # op_ids p, op_current := None, op_has_class := False\<rparr>))"

definition start_fingerprint :: "address_family \<Rightarrow> string \<Rightarrow> os_parser \<Rightarrow> os_parser" where
  "start_fingerprint expected name p =
     p\<lparr>op_current := Some (new_os_fingerprint
          \<lparr>fp_address_family := (if expected = FamilyUnknown then FamilyIPv4 else expected), fp_name := name, fp_id := name\<rparr>),
       op_has_family := False\<rparr>"

definition parse_class :: "string \<Rightarrow> os_fingerprint \<Rightarrow> os_fingerprint option" where
  "parse_class s fp =
     (let parts = split_trimmed CHR ''|'' s; n = length parts in
      if (n \<noteq> 2 \<and> n \<noteq> 3 \<and> n \<noteq> 4) \<or> parts ! 0 = [] \<or> parts ! 1 = [] \<or> (n \<ge> 3 \<and> parts ! 2 = []) \<or> (n = 4 \<and> parts ! 3 = [])
      then None
      else Some (fp\<lparr>fp_vendor := parts ! 0, fp_family := parts ! 1,
                    fp_generation := (if n \<ge> 3 then parts ! 2 else []), fp_device_type := (if n = 4 then parts ! 3 else [])\<rparr>))"

text \<open>A line \<open>key=value\<close> of the current fingerprint.\<close>

definition parse_assignment :: "address_family \<Rightarrow> string \<Rightarrow> string \<Rightarrow> os_fingerprint \<Rightarrow> os_parser \<Rightarrow> os_parser option" where
  "parse_assignment expected k v fp p =
     (let set_current = (\<lambda>fp'. p\<lparr>op_current := Some fp'\<rparr>) in
      if k = ''ID'' then
        (if length v > 128 \<or> fp_id fp \<noteq> fp_name fp then None else Some (set_current (fp\<lparr>fp_id := v\<rparr>)))
      else if k = ''SPECIFICITY'' then
        (case parse_integer v of
           None \<Rightarrow> None
         | Some n \<Rightarrow> if n \<le> 0 \<or> n > 65535 then None else Some (set_current (fp\<lparr>fp_specificity := nat n\<rparr>)))
      else if k = ''ADDRESS_FAMILY'' then
        (case parse_family v of
           None \<Rightarrow> None
         | Some family \<Rightarrow>
             if op_has_family p \<or> (expected \<noteq> FamilyUnknown \<and> family \<noteq> expected) then None
             else Some (set_current (fp\<lparr>fp_address_family := family\<rparr>)\<lparr>op_has_family := True\<rparr>))
      else
        case parse_signature k v of
          None \<Rightarrow> None
        | Some sig \<Rightarrow>
            if fp_has_field fp (sg_field sig) \<or> length (sg_text sig) > 128 \<or> length (sg_options sig) > 64 then None
            else if length (fp_signatures fp) \<ge> 64 then None
            else Some (set_current (fp\<lparr>fp_signatures := fp_signatures fp @ [sig]\<rparr>)))"

definition os_line :: "address_family \<Rightarrow> string \<Rightarrow> os_parser \<Rightarrow> os_parser option" where
  "os_line expected line p =
     (if length line > 4096 then None
      else
        let trimmed = trim_line line;
            view = (if CHR ''#'' \<in> set trimmed then trim_line (takeWhile (\<lambda>c. c \<noteq> CHR ''#'') trimmed) else trimmed)
        in if view = [] then Some p
           else if has_prefix view ''Fingerprint '' then
             (case finalize_fingerprint expected p of
                None \<Rightarrow> None
              | Some p1 \<Rightarrow>
                  let name = trim_line (drop 11 view) in
                  if name = [] then None else Some (start_fingerprint expected name p1))
           else case op_current p of
             None \<Rightarrow> None
           | Some fp \<Rightarrow>
               if has_prefix view ''Class '' then
                 (if op_has_class p then None
                  else case parse_class (drop 6 view) fp of
                    None \<Rightarrow> None
                  | Some fp' \<Rightarrow> Some (p\<lparr>op_current := Some fp', op_has_class := True\<rparr>))
               else
                 let before = takeWhile (\<lambda>c. c \<noteq> CHR ''='') view; after = dropWhile (\<lambda>c. c \<noteq> CHR ''='') view in
                 if after = [] \<or> before = [] then None
                 else
                   let k = trim_line before; v = trim_line (tl after) in
                   if k = [] \<or> v = [] then None else parse_assignment expected k v fp p)"

fun os_lines :: "address_family \<Rightarrow> string list \<Rightarrow> os_parser \<Rightarrow> os_parser option" where
  "os_lines expected [] p = Some p"
| "os_lines expected (line # ls) p =
     (case os_line expected line p of None \<Rightarrow> None | Some p' \<Rightarrow> os_lines expected ls p')"

record os_database =
  od_status :: status_code
  od_fingerprints :: "os_fingerprint list"

text \<open>
  The status beside the database is the reference argument; the status of the database itself stays
  at its default unless the text is too large.
\<close>

definition parse_os_database :: "address_family \<Rightarrow> string \<Rightarrow> status_code \<times> os_database" where
  "parse_os_database expected contents =
     (if length contents > 1048576 then (ParseError, \<lparr>od_status = ParseError, od_fingerprints = []\<rparr>)
      else
        case Option.bind (os_lines expected (text_lines contents) new_os_parser) (finalize_fingerprint expected) of
          None \<Rightarrow> (ParseError, \<lparr>od_status = Ok, od_fingerprints = []\<rparr>)
        | Some p \<Rightarrow>
            if op_fingerprints p = [] then (ParseError, \<lparr>od_status = Ok, od_fingerprints = []\<rparr>)
            else (Ok, \<lparr>od_status = Ok, od_fingerprints = op_fingerprints p\<rparr>))"

text \<open>A file that opens: the size it reports, what is read, and whether reading succeeded.\<close>

definition load_os_file :: "address_family \<Rightarrow> (int \<times> string \<times> bool) option \<Rightarrow> status_code \<times> os_database" where
  "load_os_file expected stream =
     (case stream of
        None \<Rightarrow> (NotFound, \<lparr>od_status = NotFound, od_fingerprints = []\<rparr>)
      | Some (file_size, contents, readable) \<Rightarrow>
          if file_size < 0 \<or> file_size > 1048576 then (ParseError, \<lparr>od_status = ParseError, od_fingerprints = []\<rparr>)
          else if \<not> readable then (IoError, \<lparr>od_status = IoError, od_fingerprints = []\<rparr>)
          else (case parse_os_database expected contents of (st, db) \<Rightarrow> (st, db\<lparr>od_status := st\<rparr>)))"

text \<open>\<open>load_os_database\<close> of \<open>os_db_loader.cpp\<close> loads a file of either family.\<close>

definition load_os_database :: "(int \<times> string \<times> bool) option \<Rightarrow> status_code \<times> os_database" where
  "load_os_database stream = load_os_file FamilyUnknown stream"

definition built_in_os_database ::
  "(int \<times> string \<times> bool) option \<Rightarrow> (int \<times> string \<times> bool) option \<Rightarrow> os_database" where
  "built_in_os_database ipv4_file ipv6_file =
     (case load_os_file FamilyIPv4 ipv4_file of
        (st, db) \<Rightarrow>
          if st \<noteq> Ok then db\<lparr>od_status := st\<rparr>
          else case load_os_file FamilyIPv6 ipv6_file of
            (st6, db6) \<Rightarrow>
              if st6 \<noteq> Ok then \<lparr>od_status = st6, od_fingerprints = []\<rparr>
              else if length (od_fingerprints db) + length (od_fingerprints db6) > 256
              then \<lparr>od_status = ParseError, od_fingerprints = []\<rparr>
              else \<lparr>od_status = Ok, od_fingerprints = od_fingerprints db @ od_fingerprints db6\<rparr>)"

section \<open>What a loaded database promises\<close>

definition signature_ok :: "fingerprint_signature \<Rightarrow> bool" where
  "signature_ok s \<longleftrightarrow>
     (case sg_number s of None \<Rightarrow> True | Some n \<Rightarrow> 0 \<le> n) \<and>
     (case (sg_minimum s, sg_maximum s) of (Some l, Some u) \<Rightarrow> 0 \<le> l \<and> l \<le> u | (None, None) \<Rightarrow> True | _ \<Rightarrow> False) \<and>
     length (sg_text s) \<le> 128 \<and> length (sg_options s) \<le> 64"

definition signatures_ok :: "os_fingerprint \<Rightarrow> bool" where
  "signatures_ok fp \<longleftrightarrow>
     length (fp_signatures fp) \<le> 64 \<and> distinct (map sg_field (fp_signatures fp)) \<and>
     list_all signature_ok (fp_signatures fp) \<and> fp_specificity fp \<le> 65535 \<and> (length (fp_id fp) \<le> 128 \<or> fp_id fp = fp_name fp)"

definition fingerprint_ok :: "os_fingerprint \<Rightarrow> bool" where
  "fingerprint_ok fp \<longleftrightarrow>
     signatures_ok fp \<and> fp_signatures fp \<noteq> [] \<and> fp_vendor fp \<noteq> [] \<and> fp_family fp \<noteq> [] \<and> 1 \<le> fp_specificity fp \<and>
     list_all (\<lambda>s. length s \<le> 128)
       [fp_name fp, fp_id fp, fp_vendor fp, fp_family fp, fp_generation fp, fp_device_type fp]"

definition parser_ok :: "address_family \<Rightarrow> os_parser \<Rightarrow> bool" where
  "parser_ok expected p \<longleftrightarrow>
     list_all fingerprint_ok (op_fingerprints p) \<and> length (op_fingerprints p) \<le> 256 \<and>
     list_all (\<lambda>fp. expected = FamilyUnknown \<or> fp_address_family fp = expected) (op_fingerprints p) \<and>
     map fp_name (op_fingerprints p) = rev (op_names p) \<and> map fp_id (op_fingerprints p) = rev (op_ids p) \<and>
     distinct (op_names p) \<and> distinct (op_ids p) \<and>
     (case op_current p of None \<Rightarrow> True | Some fp \<Rightarrow> signatures_ok fp)"

lemma parse_number_range_ok: "parse_number_range s = Some (l, u) \<Longrightarrow> 0 \<le> l \<and> l \<le> u"
  by (auto simp: parse_number_range_def Let_def split: if_splits option.splits)

lemma parse_signature_ok:
  "parse_signature k v = Some s \<Longrightarrow> length (sg_text s) \<le> 128 \<Longrightarrow> length (sg_options s) \<le> 64 \<Longrightarrow> signature_ok s"
  using parse_number_range_ok
  by (auto simp: parse_signature_def signature_ok_def new_signature_def split: option.splits if_splits prod.splits)

lemma signatures_update [simp]:
  "signatures_ok (fp\<lparr>fp_vendor := a\<rparr>) = signatures_ok fp" "signatures_ok (fp\<lparr>fp_family := a\<rparr>) = signatures_ok fp"
  "signatures_ok (fp\<lparr>fp_generation := a\<rparr>) = signatures_ok fp" "signatures_ok (fp\<lparr>fp_device_type := a\<rparr>) = signatures_ok fp"
  "signatures_ok (fp\<lparr>fp_address_family := f\<rparr>) = signatures_ok fp"
  by (simp_all add: signatures_ok_def)

lemma finalize_ok:
  assumes "finalize_fingerprint expected p = Some p'" and "parser_ok expected p"
  shows "parser_ok expected p'"
proof (cases "op_current p")
  case None
  then show ?thesis using assms by (simp add: finalize_fingerprint_def)
next
  case (Some c0)
  define c1 where "c1 = (if fp_id c0 = [] then c0\<lparr>fp_id := fp_name c0\<rparr> else c0)"
  define c where "c = (if fp_specificity c1 = 0 then c1\<lparr>fp_specificity := length (fp_signatures c1) mod 65536\<rparr> else c1)"
  have s0: "signatures_ok c0" using assms(2) Some by (simp add: parser_ok_def)
  then have s: "signatures_ok c" by (auto simp: c_def c1_def signatures_ok_def)
  have r: "fp_signatures c \<noteq> [] \<and> fp_vendor c \<noteq> [] \<and> fp_family c \<noteq> [] \<and> length (fp_name c) \<le> 128 \<and> length (fp_vendor c) \<le> 128 \<and>
      length (fp_family c) \<le> 128 \<and> length (fp_generation c) \<le> 128 \<and> length (fp_device_type c) \<le> 128 \<and>
      (expected = FamilyUnknown \<or> fp_address_family c = expected) \<and> length (op_fingerprints p) < 256 \<and>
      fp_name c \<notin> set (op_names p) \<and> fp_id c \<notin> set (op_ids p) \<and>
      p' = p\<lparr>op_fingerprints := op_fingerprints p @ [c], op_names := fp_name c # op_names p,
                          op_ids := fp_id c # op_ids p, op_current := None, op_has_class := False\<rparr>"
    using assms(1) unfolding finalize_fingerprint_def Some Let_def option.case c1_def [symmetric] c_def [symmetric]
    by (auto split: if_splits)
  have "1 \<le> fp_specificity c"
  proof (cases "fp_specificity c1 = 0")
    case True
    have "0 < length (fp_signatures c1)" "length (fp_signatures c1) \<le> 64"
      using r s0 True by (auto simp: c_def c1_def signatures_ok_def split: if_splits)
    moreover from this have "1 \<le> length (fp_signatures c1)" by linarith
    ultimately show ?thesis using True by (simp add: c_def)
  qed (simp add: c_def)
  moreover have "length (fp_id c) \<le> 128" using s r by (auto simp: signatures_ok_def)
  ultimately have "fingerprint_ok c" using s r by (simp add: fingerprint_ok_def)
  then show ?thesis using r assms(2) by (simp add: parser_ok_def)
qed

lemma assignment_ok:
  assumes "parse_assignment expected k v fp p = Some p'" and "parser_ok expected p" and "op_current p = Some fp"
  shows "parser_ok expected p'"
proof -
  have s: "signatures_ok fp" using assms(2,3) by (simp add: parser_ok_def)
  have u: "parser_ok expected (p\<lparr>op_current := Some fp'\<rparr>)" if "signatures_ok fp'" for fp'
    using assms(2) that by (simp add: parser_ok_def)
  have f: "parser_ok expected (q\<lparr>op_has_family := b\<rparr>) = parser_ok expected q" for q b by (simp add: parser_ok_def)
  consider (id) "k = ''ID''" | (spec) "k = ''SPECIFICITY''" | (family) "k = ''ADDRESS_FAMILY''"
    | (sig) "k \<noteq> ''ID''" "k \<noteq> ''SPECIFICITY''" "k \<noteq> ''ADDRESS_FAMILY''" by blast
  then show ?thesis
  proof cases
    case id
    then have "length v \<le> 128 \<and> p' = p\<lparr>op_current := Some (fp\<lparr>fp_id := v\<rparr>)\<rparr>"
      using assms(1) by (auto simp: parse_assignment_def split: if_splits)
    then show ?thesis using u [of "fp\<lparr>fp_id := v\<rparr>"] s by (simp add: signatures_ok_def)
  next
    case spec
    then obtain n where "\<not> 65535 < n" "p' = p\<lparr>op_current := Some (fp\<lparr>fp_specificity := nat n\<rparr>)\<rparr>"
      using assms(1) by (auto simp: parse_assignment_def split: if_splits option.splits)
    then show ?thesis using u [of "fp\<lparr>fp_specificity := nat n\<rparr>"] s by (simp add: signatures_ok_def)
  next
    case family
    then obtain fm where "p' = p\<lparr>op_current := Some (fp\<lparr>fp_address_family := fm\<rparr>)\<rparr>\<lparr>op_has_family := True\<rparr>"
      using assms(1) by (auto simp: parse_assignment_def split: if_splits option.splits)
    then show ?thesis using u [of "fp\<lparr>fp_address_family := fm\<rparr>"] s by (simp only: f signatures_update)
  next
    case sig
    then obtain sg where sg: "parse_signature k v = Some sg" "\<not> fp_has_field fp (sg_field sg)" "length (sg_text sg) \<le> 128"
      "length (sg_options sg) \<le> 64" "length (fp_signatures fp) < 64"
      "p' = p\<lparr>op_current := Some (fp\<lparr>fp_signatures := fp_signatures fp @ [sg]\<rparr>)\<rparr>"
      using assms(1) unfolding parse_assignment_def Let_def by (auto split: if_splits option.splits)
    then have "signatures_ok (fp\<lparr>fp_signatures := fp_signatures fp @ [sg]\<rparr>)"
      using s parse_signature_ok [OF sg(1,3,4)] by (auto simp: signatures_ok_def fp_has_field_def list_ex_iff)
    then show ?thesis using u sg(6) by simp
  qed
qed

lemma class_ok: "parse_class t fp = Some fp' \<Longrightarrow> signatures_ok fp \<Longrightarrow> signatures_ok fp'"
  by (auto simp: parse_class_def Let_def split: if_splits)

lemma start_ok: "parser_ok expected p \<Longrightarrow> parser_ok expected (start_fingerprint expected name p)"
  by (simp add: start_fingerprint_def parser_ok_def signatures_ok_def new_os_fingerprint_def)

lemma os_line_ok:
  assumes "os_line expected line p = Some p'" and "parser_ok expected p"
  shows "parser_ok expected p'"
proof -
  have fingerprint: "parser_ok expected (start_fingerprint expected name p1)"
    if "finalize_fingerprint expected p = Some p1" for p1 name
    using start_ok finalize_ok [OF that assms(2)] by blast
  have cls: "parser_ok expected (p\<lparr>op_current := Some fp', op_has_class := True\<rparr>)"
    if "op_current p = Some fp" "parse_class t fp = Some fp'" for t fp fp'
    using assms(2) class_ok [OF that(2)] that(1) by (simp add: parser_ok_def)
  show ?thesis
    using assms fingerprint cls assignment_ok [OF _ assms(2)] unfolding os_line_def Let_def
    by (auto split: if_splits option.splits)
qed

lemma os_lines_ok: "os_lines expected ls p = Some p' \<Longrightarrow> parser_ok expected p \<Longrightarrow> parser_ok expected p'"
  by (induction expected ls p rule: os_lines.induct) (auto split: option.splits dest: os_line_ok)

text \<open>
  Property C37. A text that parses as a database of fingerprints holds at most 256, with distinct names and
  distinct identifiers, all of the expected family; each has a vendor, a family, a specificity of 16
  bits that is not 0, texts of at most 128 characters and between 1 and 64 signatures, each of another
  field, with ranges that are not empty. Any other text is a parse error.
\<close>

theorem os_database_sound:
  "case parse_os_database expected contents of (st, db) \<Rightarrow>
     if st = Ok then
       od_status db = Ok \<and> od_fingerprints db \<noteq> [] \<and> length (od_fingerprints db) \<le> 256 \<and>
       list_all fingerprint_ok (od_fingerprints db) \<and>
       list_all (\<lambda>fp. expected = FamilyUnknown \<or> fp_address_family fp = expected) (od_fingerprints db) \<and>
       distinct (map fp_name (od_fingerprints db)) \<and> distinct (map fp_id (od_fingerprints db))
     else st = ParseError \<and> od_fingerprints db = []"
proof -
  have "parser_ok expected p'"
    if b: "Option.bind (os_lines expected ls new_os_parser) (finalize_fingerprint expected) = Some p'" for ls p'
  proof -
    obtain p where p: "os_lines expected ls new_os_parser = Some p" "finalize_fingerprint expected p = Some p'"
      using b by (cases "os_lines expected ls new_os_parser") auto
    have "parser_ok expected new_os_parser" by (simp add: new_os_parser_def parser_ok_def)
    then show ?thesis using finalize_ok [OF p(2) os_lines_ok [OF p(1)]] by blast
  qed
  then show ?thesis by (auto simp: parse_os_database_def parser_ok_def split: option.splits)
qed

end
