(* ===== verification/Os_Matcher.thy ===== *)
theory Os_Matcher
  imports Os_Database Ordering
begin

text \<open>
  The matcher of operating system fingerprints (\<open>src/osdetect/os_matcher.cpp\<close>): what an observation says
  of one signature, the confidence as a sum of weights in floating point, and the ranking of the
  fingerprints.
\<close>

section \<open>Evidence\<close>

fun weight_for :: "fingerprint_field \<Rightarrow> rat" where
  "weight_for FfTtl = hundredths 10"
| "weight_for FfDontFragment = hundredths 5"
| "weight_for FfWindow = hundredths 15"
| "weight_for FfMss = hundredths 10"
| "weight_for FfWindowScale = hundredths 10"
| "weight_for FfSackPermitted = hundredths 10"
| "weight_for FfTimestamps = hundredths 10"
| "weight_for FfTcpOptions = hundredths 20"
| "weight_for FfTcpFlags = hundredths 5"
| "weight_for FfAckBehavior = hundredths 5"
| "weight_for FfSequenceBehavior = hundredths 5"
| "weight_for FfResponseBehavior = hundredths 10"
| "weight_for FfIcmpTtl = hundredths 5"
| "weight_for FfIcmpType = hundredths 2"
| "weight_for FfIcmpCode = hundredths 2"
| "weight_for FfUdpPayloadLength = hundredths 8"
| "weight_for FfUdpResponseBehavior = hundredths 8"
| "weight_for FfResponsePresence = hundredths 5"

definition first_tcp :: "observed_fingerprint \<Rightarrow> tcp_observation option" where
  "first_tcp f = find (\<lambda>ob. to_probe_status ob = OsResponseReceived) (of_tcp f)"

definition first_udp :: "observed_fingerprint \<Rightarrow> udp_observation option" where
  "first_udp f = find (\<lambda>ob. uo_probe_status ob = OsResponseReceived) (of_udp f)"

definition first_icmp :: "observed_fingerprint \<Rightarrow> icmp_observation option" where
  "first_icmp f = find (\<lambda>ob. io_probe_status ob = OsResponseReceived) (of_icmp f)"

definition matches_number :: "fingerprint_signature \<Rightarrow> int \<Rightarrow> bool" where
  "matches_number s v =
     (case sg_number s of
        Some n \<Rightarrow> v = n
      | None \<Rightarrow> (case (sg_minimum s, sg_maximum s) of (Some l, Some u) \<Rightarrow> l \<le> v \<and> v \<le> u | _ \<Rightarrow> False))"

definition number_given :: "fingerprint_signature \<Rightarrow> bool" where
  "number_given s \<longleftrightarrow> sg_number s \<noteq> None \<or> (sg_minimum s \<noteq> None \<and> sg_maximum s \<noteq> None)"

text \<open>\<open>Evidence\<close>: \<open>None\<close> is not available, otherwise whether it matches.\<close>

definition number_evidence :: "fingerprint_signature \<Rightarrow> ('a \<Rightarrow> int) \<Rightarrow> 'a observed_value \<Rightarrow> bool option" where
  "number_evidence s conv ov =
     (if ov_state ov = ObsObserved \<and> number_given s then Some (matches_number s (conv (ov_value ov))) else None)"

definition boolean_evidence :: "fingerprint_signature \<Rightarrow> bool observed_value \<Rightarrow> bool option" where
  "boolean_evidence s ov =
     (case sg_boolean s of
        None \<Rightarrow> None
      | Some b \<Rightarrow> if ov_state ov = ObsObserved then Some (ov_value ov = b) else None)"

definition response_present :: "observed_fingerprint \<Rightarrow> bool" where
  "response_present f \<longleftrightarrow> of_responses_received f > 0 \<or> of_tcp f \<noteq> [] \<or> of_icmp f \<noteq> [] \<or> of_udp f \<noteq> []"

definition compare_signature :: "fingerprint_signature \<Rightarrow> observed_fingerprint \<Rightarrow> bool option" where
  "compare_signature s f =
     (let tcp = Option.bind (first_tcp f); icmp = Option.bind (first_icmp f); udp = Option.bind (first_udp f) in
      case sg_field s of
        FfTtl \<Rightarrow> tcp (\<lambda>ob. number_evidence s uint (to_ttl ob))
      | FfDontFragment \<Rightarrow> tcp (\<lambda>ob. boolean_evidence s (to_dont_fragment ob))
      | FfWindow \<Rightarrow> tcp (\<lambda>ob. number_evidence s uint (to_window ob))
      | FfMss \<Rightarrow> tcp (\<lambda>ob. number_evidence s uint (to_mss ob))
      | FfWindowScale \<Rightarrow> tcp (\<lambda>ob. number_evidence s uint (to_window_scale ob))
      | FfSackPermitted \<Rightarrow> tcp (\<lambda>ob. boolean_evidence s (to_sack_permitted ob))
      | FfTimestamps \<Rightarrow> tcp (\<lambda>ob. boolean_evidence s (to_timestamps ob))
      | FfTcpOptions \<Rightarrow>
          tcp (\<lambda>ob. if to_options ob \<noteq> [] \<and> sg_options s \<noteq> [] then Some (to_options ob = sg_options s) else None)
      | FfTcpFlags \<Rightarrow> tcp (\<lambda>ob. if number_given s then Some (matches_number s (uint (to_flags ob))) else None)
      | FfAckBehavior \<Rightarrow> None
      | FfSequenceBehavior \<Rightarrow> None
      | FfResponseBehavior \<Rightarrow>
          tcp (\<lambda>ob. if to_response_behavior ob \<noteq> RbUnknown
            then Some (response_behavior_name (to_response_behavior ob) = sg_text s) else None)
      | FfIcmpTtl \<Rightarrow> icmp (\<lambda>ob. number_evidence s uint (io_ttl ob))
      | FfIcmpType \<Rightarrow> icmp (\<lambda>ob. number_evidence s uint (io_type ob))
      | FfIcmpCode \<Rightarrow> icmp (\<lambda>ob. number_evidence s uint (io_code ob))
      | FfUdpPayloadLength \<Rightarrow> udp (\<lambda>ob. number_evidence s int (uo_payload_length ob))
      | FfUdpResponseBehavior \<Rightarrow>
          udp (\<lambda>ob. if uo_response_behavior ob \<noteq> RbUnknown \<and> sg_text s \<noteq> []
            then Some (response_behavior_name (uo_response_behavior ob) = sg_text s) else None)
      | FfResponsePresence \<Rightarrow> map_option (\<lambda>b. response_present f = b) (sg_boolean s))"

section \<open>Scores\<close>

record os_match =
  om_fingerprint_name :: string
  om_vendor :: string
  om_family :: string
  om_generation :: string
  om_device_type :: string
  om_confidence :: rat
  om_category :: match_category
  om_matched :: "string list"
  om_mismatched :: "string list"
  om_unavailable :: "string list"
  om_address_family :: address_family
  om_fingerprint_id :: string
  om_specificity :: nat

definition category_of :: "rat \<Rightarrow> match_category" where
  "category_of confidence =
     (if confidence < hundredths 30 then NoMatchCategory
      else if confidence < hundredths 60 then LowConfidence
      else if confidence < hundredths 85 then PossibleMatch
      else StrongMatch)"

text \<open>The loop over the signatures: the two sums and the three lists of names.\<close>

record os_tally =
  ot_configured :: rat
  ot_matched :: rat
  ot_matched_fields :: "string list"
  ot_mismatched_fields :: "string list"
  ot_unavailable_fields :: "string list"

definition tally_signature :: "observed_fingerprint \<Rightarrow> fingerprint_signature \<Rightarrow> os_tally \<Rightarrow> os_tally" where
  "tally_signature f s t0 =
     (let w = weight_for (sg_field s); name = fingerprint_field_name (sg_field s);
          t = t0\<lparr>ot_configured := fl_double (ot_configured t0 + w)\<rparr>
      in case compare_signature s f of
        None \<Rightarrow> t\<lparr>ot_unavailable_fields := ot_unavailable_fields t @ [name]\<rparr>
      | Some True \<Rightarrow> t\<lparr>ot_matched := fl_double (ot_matched t + w), ot_matched_fields := ot_matched_fields t @ [name]\<rparr>
      | Some False \<Rightarrow> t\<lparr>ot_mismatched_fields := ot_mismatched_fields t @ [name]\<rparr>)"

definition tally :: "observed_fingerprint \<Rightarrow> fingerprint_signature list \<Rightarrow> os_tally" where
  "tally f sigs =
     fold (tally_signature f) sigs
       \<lparr>ot_configured = 0, ot_matched = 0, ot_matched_fields = [], ot_mismatched_fields = [], ot_unavailable_fields = []\<rparr>"

definition tally_confidence :: "os_tally \<Rightarrow> rat" where
  "tally_confidence t = (if ot_configured t = 0 then 0 else fl_double (ot_matched t / ot_configured t))"

definition score_fingerprint :: "observed_fingerprint \<Rightarrow> os_fingerprint \<Rightarrow> os_match" where
  "score_fingerprint f fp =
     (let t = tally f (fp_signatures fp); confidence = tally_confidence t in
      \<lparr>om_fingerprint_name = fp_name fp, om_vendor = fp_vendor fp, om_family = fp_family fp,
       om_generation = fp_generation fp, om_device_type = fp_device_type fp, om_confidence = confidence,
       om_category = category_of confidence, om_matched = ot_matched_fields t, om_mismatched = ot_mismatched_fields t,
       om_unavailable = ot_unavailable_fields t, om_address_family = fp_address_family fp,
       om_fingerprint_id = fp_id fp, om_specificity = fp_specificity fp\<rparr>)"

definition os_match_is_better :: "os_match \<Rightarrow> os_match \<Rightarrow> bool" where
  "os_match_is_better l r =
     (let left_strong = (om_category l = StrongMatch); right_strong = (om_category r = StrongMatch) in
      if left_strong \<noteq> right_strong then left_strong
      else if left_strong \<and> om_specificity l \<noteq> om_specificity r then om_specificity l > om_specificity r
      else if om_confidence l \<noteq> om_confidence r then om_confidence l > om_confidence r
      else if om_specificity l \<noteq> om_specificity r then om_specificity l > om_specificity r
      else if om_fingerprint_name l \<noteq> om_fingerprint_name r
      then lex_less (om_fingerprint_name l) (om_fingerprint_name r)
      else lex_less (om_fingerprint_id l) (om_fingerprint_id r))"

definition families_compatible :: "observed_fingerprint \<Rightarrow> bool" where
  "families_compatible f \<longleftrightarrow>
     (let ok = (\<lambda>family. family = FamilyUnknown \<or> family = of_family f) in
      of_family f \<noteq> FamilyUnknown \<and> list_all (\<lambda>ob. ok (to_family ob)) (of_tcp f) \<and>
      list_all (\<lambda>ob. ok (io_family ob)) (of_icmp f) \<and> list_all (\<lambda>ob. ok (uo_family ob)) (of_udp f))"

definition os_matcher_match :: "os_database \<Rightarrow> observed_fingerprint \<Rightarrow> nat \<Rightarrow> os_match list" where
  "os_matcher_match db f max_results =
     (if \<not> families_compatible f then []
      else take max_results (sort_by os_match_is_better
        (map (score_fingerprint f) (filter (\<lambda>fp. fp_address_family fp = of_family f) (od_fingerprints db)))))"

datatype os_detection_state = OsNotRun | OsRunning | OsComplete | OsPartial | OsUnavailable | OsFailed

datatype os_detection_error = OseNone | OseInvalidTarget | OseNoUsablePort | OseCapabilityUnavailable | OseTimeout
  | OseMalformedResponse | OseUnsupportedProbe | OseTransportFailure | OseInternalError

fun os_detection_state_name :: "os_detection_state \<Rightarrow> string" where
  "os_detection_state_name OsNotRun = ''not-run''"
| "os_detection_state_name OsRunning = ''running''"
| "os_detection_state_name OsComplete = ''complete''"
| "os_detection_state_name OsPartial = ''partial''"
| "os_detection_state_name OsUnavailable = ''unavailable''"
| "os_detection_state_name OsFailed = ''failed''"

fun os_detection_error_name :: "os_detection_error \<Rightarrow> string" where
  "os_detection_error_name OseNone = ''none''"
| "os_detection_error_name OseInvalidTarget = ''invalid-target''"
| "os_detection_error_name OseNoUsablePort = ''no-usable-port''"
| "os_detection_error_name OseCapabilityUnavailable = ''capability-unavailable''"
| "os_detection_error_name OseTimeout = ''timeout''"
| "os_detection_error_name OseMalformedResponse = ''malformed-response''"
| "os_detection_error_name OseUnsupportedProbe = ''unsupported-probe''"
| "os_detection_error_name OseTransportFailure = ''transport-failure''"
| "os_detection_error_name OseInternalError = ''internal-error''"

section \<open>The ranking\<close>

text \<open>Equal to a sequence of keys: the specificity counts first only among strong matches.\<close>

lemma os_match_then_by:
  "os_match_is_better l r \<longleftrightarrow>
     then_by (<) (\<lambda>m. if om_category m = StrongMatch then 0 else 1 :: nat)
       (then_by (<) (\<lambda>m. if om_category m = StrongMatch then - int (om_specificity m) else 0)
         (then_by (<) (\<lambda>m. - om_confidence m)
           (then_by (<) (\<lambda>m. - int (om_specificity m))
             (then_by lex_less om_fingerprint_name (by_key lex_less om_fingerprint_id))))) l r"
  by (auto simp: os_match_is_better_def then_by_def by_key_def Let_def)

interpretation os_ranking: strict_weak_order os_match_is_better
  by (rule strict_weak_order_cong [OF _ os_match_then_by])
    (intro weak_then_by weak_by_key total_linorder total_lex)

section \<open>The sums\<close>

lemma hundredths_nonneg: "0 \<le> hundredths n"
  by (simp add: hundredths_def double.fl_nonneg)

lemma weight_nonneg: "0 \<le> weight_for f"
  by (cases f) (simp_all add: hundredths_nonneg)

definition tally_ok :: "os_tally \<Rightarrow> bool" where
  "tally_ok t \<longleftrightarrow> 0 \<le> ot_matched t \<and> ot_matched t \<le> ot_configured t \<and> fl_double (ot_configured t) = ot_configured t"

lemma tally_signature_ok:
  assumes "tally_ok t"
  shows "tally_ok (tally_signature f s t)"
proof -
  let ?w = "weight_for (sg_field s)"
  let ?c = "fl_double (ot_configured t + ?w)"
  have w: "0 \<le> ?w" by (rule weight_nonneg)
  have "ot_configured t = fl_double (ot_configured t)" using assms by (simp add: tally_ok_def)
  also have "\<dots> \<le> ?c" using w by (intro double.fl_mono) simp
  finally have c: "ot_configured t \<le> ?c" .
  have m: "fl_double (ot_matched t + ?w) \<le> ?c" using assms by (intro double.fl_mono) (simp add: tally_ok_def)
  have n: "0 \<le> fl_double (ot_matched t + ?w)" using assms w by (intro double.fl_nonneg) (simp add: tally_ok_def)
  show ?thesis
    using assms c m n double.fl_idem
    by (auto simp: tally_signature_def tally_ok_def Let_def split: option.splits bool.splits)
qed

lemma tally_ok: "tally_ok (tally f sigs)"
proof -
  have "tally_ok t \<Longrightarrow> tally_ok (fold (tally_signature f) sigs t)" for t
    by (induction sigs arbitrary: t) (simp_all add: tally_signature_ok)
  then show ?thesis by (simp add: tally_def tally_ok_def double.fl_zero)
qed

lemma tally_confidence_bounds: "0 \<le> tally_confidence t \<and> tally_confidence t \<le> 1" if "tally_ok t"
proof (cases "ot_configured t = 0")
  case False
  then have c: "0 < ot_configured t" using that by (auto simp: tally_ok_def)
  then have "0 \<le> ot_matched t / ot_configured t" "ot_matched t / ot_configured t \<le> 1" using that by (simp_all add: tally_ok_def)
  then have "0 \<le> fl_double (ot_matched t / ot_configured t)" "fl_double (ot_matched t / ot_configured t) \<le> fl_double 1"
    using double.fl_nonneg double.fl_mono by blast+
  then show ?thesis using False by (simp add: tally_confidence_def double.fl_one)
qed (simp add: tally_confidence_def)

text \<open>
  The matches of an observation are the best fingerprints of its family, as many as asked for or
  all there are, the better ones first; each has a confidence between 0 and 1 and the category of its
  confidence. An observation of mixed or unknown family matches nothing.
\<close>

theorem os_matches_ranked:
  "let rs = os_matcher_match db f n;
       scores = map (score_fingerprint f) (filter (\<lambda>fp. fp_address_family fp = of_family f) (od_fingerprints db))
   in list_all (\<lambda>r. 0 \<le> om_confidence r \<and> om_confidence r \<le> 1 \<and> om_category r = category_of (om_confidence r)) rs \<and>
      (if families_compatible f then
         \<exists>rest. mset (rs @ rest) = mset scores \<and> length rs = min n (length scores) \<and>
           sorted_wrt (\<lambda>a b. \<not> os_match_is_better b a) (rs @ rest)
       else rs = [])"
proof -
  define scores where "scores = map (score_fingerprint f) (filter (\<lambda>fp. fp_address_family fp = of_family f) (od_fingerprints db))"
  define sorted where "sorted = sort_by os_match_is_better scores"
  have rs: "os_matcher_match db f n = (if families_compatible f then take n sorted else [])"
    by (simp add: os_matcher_match_def sorted_def scores_def)
  have "list_all (\<lambda>r. 0 \<le> om_confidence r \<and> om_confidence r \<le> 1 \<and> om_category r = category_of (om_confidence r)) scores"
    using tally_confidence_bounds [OF tally_ok] by (auto simp: scores_def score_fingerprint_def Let_def list_all_iff)
  moreover have "set (os_matcher_match db f n) \<subseteq> set scores"
    using set_take_subset [of n sorted] by (auto simp: rs sorted_def)
  ultimately have "list_all (\<lambda>r. 0 \<le> om_confidence r \<and> om_confidence r \<le> 1 \<and> om_category r = category_of (om_confidence r))
      (os_matcher_match db f n)" by (auto simp: list_all_iff)
  moreover have "\<exists>rest. mset (take n sorted @ rest) = mset scores \<and> length (take n sorted) = min n (length scores) \<and>
      sorted_wrt (\<lambda>a b. \<not> os_match_is_better b a) (take n sorted @ rest)"
    by (rule exI [of _ "drop n sorted"]) (simp only: append_take_drop_id, simp add: sorted_def min.commute os_ranking.sorted_sort_by)
  ultimately show ?thesis by (simp add: rs Let_def flip: scores_def)
qed

section \<open>Values of the weights\<close>

lemma exponent_unique:
  assumes "2 powi e \<le> x" and "x < 2 powi (e + 1)"
  shows "exponent x = e"
proof -
  have "0 < x" using assms(1) powi2_pos [of e] by linarith
  from exponent_bounds [OF this] have b: "2 powi exponent x \<le> x" "x < 2 powi (exponent x + 1)" by auto
  have "(2 :: rat) powi e < 2 powi (exponent x + 1)" "(2 :: rat) powi exponent x < 2 powi (e + 1)" using assms b by linarith+
  then have "e < exponent x + 1" "exponent x < e + 1" by (auto dest: powi2_less_cancel)
  then show ?thesis by simp
qed

definition rounds_to :: "rat \<Rightarrow> int \<Rightarrow> bool" where
  "rounds_to q n \<longleftrightarrow> \<bar>q - of_int n\<bar> < 1 / 2 \<or> (\<bar>q - of_int n\<bar> = 1 / 2 \<and> even n)"

lemma round_even_near: "rounds_to q n \<Longrightarrow> round_even q = n"
proof -
  assume a: "rounds_to q n"
  consider (near) "of_int n \<le> q" "q < of_int n + 1 / 2" | (above) "q = of_int n + 1 / 2" "even n"
    | (below) "of_int n - 1 / 2 < q" "q < of_int n" | (tie) "q = of_int n - 1 / 2" "even n"
    using a unfolding rounds_to_def abs_if by (auto split: if_splits)
  then show ?thesis
  proof cases
    case near
    then have "\<lfloor>q\<rfloor> = n" by (intro floor_unique) auto
    then show ?thesis using near by (simp add: round_even_def Let_def)
  next
    case above
    then have "\<lfloor>q\<rfloor> = n" by (intro floor_unique) auto
    then show ?thesis using above by (simp add: round_even_def Let_def)
  next
    case below
    then have "\<lfloor>q\<rfloor> = n - 1" by (intro floor_unique) auto
    then show ?thesis using below by (simp add: round_even_def Let_def)
  next
    case tie
    then have "\<lfloor>q\<rfloor> = n - 1" by (intro floor_unique) auto
    then show ?thesis using tie by (simp add: round_even_def Let_def)
  qed
qed

lemma fl_double_near:
  assumes "2 powi e \<le> x" and "x < 2 powi (e + 1)" and "- 1022 \<le> e" and "rounds_to (x / 2 powi (e - 52)) n"
  shows "fl_double x = of_int n * 2 powi (e - 52)"
proof -
  have x: "0 < x" using assms(1) powi2_pos [of e] by linarith
  have e: "exponent x = e" using assms(1,2) by (rule exponent_unique)
  show ?thesis
    using x assms(3,4) by (simp add: fl_double_def fl_def Let_def e round_even_near max_def)
qed

lemma fl_double_small:
  assumes "1 \<le> x * 2 ^ a" and "x * 2 ^ a < 2" and "a \<le> 1022" and "rounds_to (x * 2 ^ (a + 52)) n"
  shows "fl_double x = of_int n / 2 ^ (a + 52)"
proof -
  have e: "(2 :: rat) powi (- int a) = 1 / 2 ^ a" "(2 :: rat) powi (- int a + 1) = 2 / 2 ^ a"
    "(2 :: rat) powi (- int a - 52) = 1 / 2 ^ (a + 52)"
    by (simp_all add: power_int_add power_int_diff power_int_minus field_simps power_add)
  show ?thesis
    using fl_double_near [of "- int a" x n] assms unfolding e by (simp add: field_simps)
qed

lemma hundredths_values:
  "hundredths 2 = 5764607523034235 / 288230376151711744"
  "hundredths 5 = 7205759403792794 / 144115188075855872"
  "hundredths 8 = 5764607523034235 / 72057594037927936"
  "hundredths 10 = 7205759403792794 / 72057594037927936"
  "hundredths 15 = 5404319552844595 / 36028797018963968"
  "hundredths 20 = 7205759403792794 / 36028797018963968"
  "hundredths 30 = 5404319552844595 / 18014398509481984"
  "hundredths 60 = 5404319552844595 / 9007199254740992"
  "hundredths 85 = 7656119366529843 / 9007199254740992"
proof -
  show "hundredths 2 = 5764607523034235 / 288230376151711744" unfolding hundredths_def by (subst fl_double_small [of _ 6 5764607523034235]) (simp_all add: rounds_to_def)
  show "hundredths 5 = 7205759403792794 / 144115188075855872" unfolding hundredths_def by (subst fl_double_small [of _ 5 7205759403792794]) (simp_all add: rounds_to_def)
  show "hundredths 8 = 5764607523034235 / 72057594037927936" unfolding hundredths_def by (subst fl_double_small [of _ 4 5764607523034235]) (simp_all add: rounds_to_def)
  show "hundredths 10 = 7205759403792794 / 72057594037927936" unfolding hundredths_def by (subst fl_double_small [of _ 4 7205759403792794]) (simp_all add: rounds_to_def)
  show "hundredths 15 = 5404319552844595 / 36028797018963968" unfolding hundredths_def by (subst fl_double_small [of _ 3 5404319552844595]) (simp_all add: rounds_to_def)
  show "hundredths 20 = 7205759403792794 / 36028797018963968" unfolding hundredths_def by (subst fl_double_small [of _ 3 7205759403792794]) (simp_all add: rounds_to_def)
  show "hundredths 30 = 5404319552844595 / 18014398509481984" unfolding hundredths_def by (subst fl_double_small [of _ 2 5404319552844595]) (simp_all add: rounds_to_def)
  show "hundredths 60 = 5404319552844595 / 9007199254740992" unfolding hundredths_def by (subst fl_double_small [of _ 1 5404319552844595]) (simp_all add: rounds_to_def)
  show "hundredths 85 = 7656119366529843 / 9007199254740992" unfolding hundredths_def by (subst fl_double_small [of _ 1 7656119366529843]) (simp_all add: rounds_to_def)
qed

lemma weight_pos: "0 < weight_for f"
  by (cases f) (simp_all add: hundredths_values)

text \<open>
  A fingerprint all of whose signatures are observed and match has the confidence 1, without a rounding
  error, and is a strong match.
\<close>

theorem full_match_is_certain:
  assumes "fp_signatures fp \<noteq> []" and "list_all (\<lambda>s. compare_signature s f = Some True) (fp_signatures fp)"
  shows "om_confidence (score_fingerprint f fp) = 1 \<and> om_category (score_fingerprint f fp) = StrongMatch \<and>
    om_mismatched (score_fingerprint f fp) = [] \<and> om_unavailable (score_fingerprint f fp) = []"
proof -
  have fold: "ot_matched (fold (tally_signature f) sigs t) = ot_configured (fold (tally_signature f) sigs t) \<and>
      ot_mismatched_fields (fold (tally_signature f) sigs t) = ot_mismatched_fields t \<and>
      ot_unavailable_fields (fold (tally_signature f) sigs t) = ot_unavailable_fields t"
    if "list_all (\<lambda>s. compare_signature s f = Some True) sigs" "ot_matched t = ot_configured t" for sigs t
    using that by (induction sigs arbitrary: t) (auto simp: tally_signature_def Let_def)
  have grows: "ot_configured t \<le> ot_configured (fold (tally_signature f) sigs t)" if "tally_ok t" for sigs t
    using that
  proof (induction sigs arbitrary: t)
    case (Cons s sigs)
    have "ot_configured t = fl_double (ot_configured t)" using Cons.prems by (simp add: tally_ok_def)
    also have "\<dots> \<le> fl_double (ot_configured t + weight_for (sg_field s))"
      using weight_nonneg by (intro double.fl_mono) simp
    also have "\<dots> = ot_configured (tally_signature f s t)"
      by (auto simp: tally_signature_def Let_def split: option.splits bool.splits)
    also have "\<dots> \<le> ot_configured (fold (tally_signature f) sigs (tally_signature f s t))"
      using Cons.IH tally_signature_ok [OF Cons.prems] by blast
    finally show ?case by simp
  qed simp
  define t0 where "t0 = \<lparr>ot_configured = 0, ot_matched = 0, ot_matched_fields = [], ot_mismatched_fields = [], ot_unavailable_fields = []\<rparr>"
  have t0: "tally_ok t0" by (simp add: t0_def tally_ok_def double.fl_zero)
  obtain s sigs where sigs: "fp_signatures fp = s # sigs" using assms(1) by (cases "fp_signatures fp") auto
  have "0 < fl_double (weight_for (sg_field s))" using weight_pos [of "sg_field s"]
    by (cases "sg_field s") (simp_all add: hundredths_def double.fl_idem)
  also have "\<dots> = ot_configured (tally_signature f s t0)"
    by (auto simp: t0_def tally_signature_def Let_def split: option.splits bool.splits)
  also have "\<dots> \<le> ot_configured (tally f (fp_signatures fp))"
    using grows [OF tally_signature_ok [OF t0]] by (simp add: tally_def sigs flip: t0_def)
  finally have pos: "0 < ot_configured (tally f (fp_signatures fp))" .
  have all: "ot_matched (tally f (fp_signatures fp)) = ot_configured (tally f (fp_signatures fp))"
    "ot_mismatched_fields (tally f (fp_signatures fp)) = []" "ot_unavailable_fields (tally f (fp_signatures fp)) = []"
    using fold [OF assms(2), of t0] by (simp_all add: tally_def t0_def)
  have "hundredths n \<le> 1" if "n \<le> 100" for n
    using double.fl_mono [of "of_nat n / 100" 1] that by (simp add: hundredths_def double.fl_one)
  then have "category_of 1 = StrongMatch" by (simp add: category_of_def not_less)
  then show ?thesis using pos all by (simp add: score_fingerprint_def Let_def tally_confidence_def double.fl_one)
qed

theorem full_match_is_certain_witness:
  "let ob = new_tcp_observation\<lparr>to_ttl := observed 64, to_window := observed 64240\<rparr>;
       f = new_fingerprint\<lparr>of_tcp := [ob]\<rparr>;
       fp = new_os_fingerprint\<lparr>fp_signatures :=
         [new_signature\<lparr>sg_field := FfTtl, sg_minimum := Some 45, sg_maximum := Some 64\<rparr>,
          new_signature\<lparr>sg_field := FfWindow, sg_number := Some 64240\<rparr>]\<rparr>
   in om_confidence (score_fingerprint f fp) = 1 \<and> om_category (score_fingerprint f fp) = StrongMatch \<and>
      om_mismatched (score_fingerprint f fp) = [] \<and> om_unavailable (score_fingerprint f fp) = []"
  unfolding Let_def
  by (rule full_match_is_certain)
    (simp_all add: compare_signature_def first_tcp_def new_fingerprint_def new_tcp_observation_def number_evidence_def
      number_given_def observed_def new_signature_def matches_number_def new_os_fingerprint_def)

end
