(* ===== verification/Os_Probe_Facts.thy ===== *)
theory Os_Probe_Facts
  imports Os_Probes Os_Matcher
begin

text \<open>
  The assessment of a response reads inside its buffers and attributes a response to one probe; and
  what the assessment of IPv6 responses leaves out of the observation the matcher is given.
\<close>

section \<open>Reads\<close>

definition returns :: "'a parsed \<Rightarrow> bool" where
  "returns p \<longleftrightarrow> (\<exists>a. p = Parsed a)"

lemma returns_Parsed: "returns (Parsed a)"
  by (simp add: returns_def)

lemma returns_if: "(c \<Longrightarrow> returns x) \<Longrightarrow> (\<not> c \<Longrightarrow> returns y) \<Longrightarrow> returns (if c then x else y)"
  by simp

lemma returns_on_parsed:
  "p \<noteq> OutOfBounds \<Longrightarrow> returns rejected \<Longrightarrow> (\<And>x. returns (k x)) \<Longrightarrow> returns (on_parsed p rejected k)"
  by (cases p) (simp_all add: on_parsed_def)

lemma quotes_probe4_in_bounds: "quotes_probe4 quoted source destination s \<noteq> OutOfBounds"
proof (cases "length quoted < 28")
  case False
  show ?thesis
  proof (cases "length quoted < unat (quoted ! 0 AND 0x0F) * 4 + 8")
    case True
    then show ?thesis using False by (auto simp: quotes_probe4_def Let_def rd8_def)
  next
    case len: False
    have n: "0 < length quoted" using False by linarith
    show ?thesis using False len n
      by (simp add: quotes_probe4_def Let_def read_u16_in read_u32_in)
  qed
qed (simp add: quotes_probe4_def)

lemmas returning = returns_Parsed returns_if returns_on_parsed icmp_parse_in_bounds icmp6_parse_in_bounds tcp_parse_in_bounds
  udp_parse_in_bounds ip4_parse_in_bounds quote_in_bounds quotes_probe4_in_bounds

text \<open>
  The assessment of a response to a probe of operating system detection never reads outside the
  bytes of the response, whatever they are.
\<close>

theorem os_assess_in_bounds: "\<exists>a. os_assess lc r s = Parsed a"
proof -
  have datagram: "returns (assess_datagram r s ob)" for ob
    unfolding assess_datagram_def by (intro returning)
  have "returns (assess_udp4 r s)"
    unfolding assess_udp4_def Let_def
    by (cases "parse_ipv4_address (os_target s)"; cases "parse_ipv4_address (os_source_address s)";
        simp only: prod.case option.case; intro returning datagram)
  moreover have "returns (assess_tcp4 r s)"
    unfolding assess_tcp4_def Let_def
    by (cases "parse_ipv4_address (os_target s)"; cases "parse_ipv4_address (os_source_address s)";
        simp only: prod.case option.case; intro returning)
  moreover have "returns (assess_echo6 r s)" "returns (assess_echo4 r s)" "returns (assess_udp6 r s)" "returns (assess_tcp6 lc r s)"
    unfolding assess_echo6_def assess_echo4_def assess_udp6_def assess_tcp6_def Let_def by (intro returning datagram)+
  ultimately have "returns (os_assess lc r s)" unfolding os_assess_def by (intro returning)
  then show ?thesis by (simp add: returns_def)
qed

section \<open>Attribution\<close>

text \<open>The one observation of a response that is matched to a probe, and what ties it to the probe.\<close>

definition attributed :: "os_submission \<Rightarrow> os_assessment \<Rightarrow> bool" where
  "attributed s a \<longleftrightarrow>
     (let family = (if is_ipv6 (os_target_ip s) then FamilyIPv6 else FamilyIPv4) in
      case (oa_tcp a, oa_icmp a, oa_udp a) of
        (Some ob, None, None) \<Rightarrow>
          os_type s \<noteq> IcmpEcho \<and> os_type s \<noteq> UdpFingerprint \<and> to_family ob = family \<and>
          to_source_port ob = os_destination_port s \<and> to_destination_port ob = os_source_port s \<and>
          (to_response_behavior ob = RbRst \<or>
           (to_response_behavior ob = RbSynAck \<and> to_acknowledgment_number ob = observed (os_sequence_number s + 1)))
      | (None, Some ob, None) \<Rightarrow> os_type s = IcmpEcho \<and> io_family ob = family \<and> io_response_behavior ob = RbEchoReply
      | (None, None, Some ob) \<Rightarrow>
          os_type s = UdpFingerprint \<and> uo_family ob = family \<and>
          (uo_response_behavior ob = RbUdpResponse \<longrightarrow>
             uo_source_port ob = os_destination_port s \<and> uo_destination_port ob = os_source_port s)
      | _ \<Rightarrow> False)"

lemma on_parsed_Parsed: "on_parsed p rejected k = Parsed y \<Longrightarrow> rejected = Parsed y \<or> (\<exists>x. p = Parsed x \<and> k x = Parsed y)"
  by (auto simp: on_parsed_def split: parsed.splits)

lemma not_matching [simp]: "oa_disposition malformed \<noteq> OsMatching" "oa_disposition unrelated \<noteq> OsMatching"
  by (simp_all add: malformed_def unrelated_def)

lemmas assessed_defs = attributed_def matching_def unrelated_def Let_def

lemma assess_datagram_attributed:
  assumes "assess_datagram r s ob = Parsed a" and "oa_disposition a = OsMatching" and "os_type s = UdpFingerprint"
    and "uo_family ob = (if is_ipv6 (os_target_ip s) then FamilyIPv6 else FamilyIPv4)"
  shows "attributed s a"
  using assms by (auto simp: assess_datagram_def assessed_defs udp_matching_def dest!: on_parsed_Parsed split: if_splits)

lemma udp_error_attributed:
  assumes "os_type s = UdpFingerprint" and "uo_family ob = (if is_ipv6 (os_target_ip s) then FamilyIPv6 else FamilyIPv4)"
    and "b \<noteq> RbUdpResponse"
  shows "attributed s (udp_matching b ob)"
  using assms by (simp add: assessed_defs udp_matching_def)

lemma udp_observation_family: "family = FamilyIPv6 \<or> family = FamilyIPv4 \<Longrightarrow> uo_family (udp_observation_for r family) = family"
  by (auto simp: udp_observation_for_def Let_def)

lemma segment_attributed:
  assumes "answers_probe t s" and "os_type s \<noteq> IcmpEcho" and "os_type s \<noteq> UdpFingerprint"
    and "tcp_source_port t = os_destination_port s" and "tcp_destination_port t = os_source_port s"
    and "to_family ob = (if is_ipv6 (os_target_ip s) then FamilyIPv6 else FamilyIPv4)"
    and "to_source_port ob = tcp_source_port t" and "to_destination_port ob = tcp_destination_port t"
    and "to_response_behavior ob = segment_behavior t"
    and "to_acknowledgment_number ob = observed (tcp_acknowledgment_number t)"
  shows "attributed s ((matching b)\<lparr>oa_tcp := Some ob\<rparr>)"
  using assms by (auto simp: assessed_defs answers_probe_def segment_behavior_def)

text \<open>
  What in the bytes of a response ties it to a probe: an echo reply with the identifier and the
  sequence number of the probe; a segment with its ports swapped that is a reset or acknowledges its
  sequence number, in an IPv4 packet between the two addresses where it comes as a packet; a datagram
  with its ports swapped, or an ICMP error that quotes the probe, its addresses and its ports.
\<close>

definition echo_grounds :: "os_response \<Rightarrow> os_submission \<Rightarrow> bool" where
  "echo_grounds r s \<longleftrightarrow>
     (if is_ipv6 (os_target_ip s) then
        \<exists>m. icmp6_parse (or_bytes r) = Parsed m \<and> icmp6_type m = Icmp6_EchoReply \<and> icmp6_code m = 0 \<and>
          icmp6_identifier m = os_correlation_identifier s \<and> icmp6_sequence m = os_correlation_sequence s
      else
        \<exists>m. icmp_parse (or_bytes r) = Parsed m \<and> icmp_type m = Icmp_EchoReply \<and>
          icmp_identifier m = os_correlation_identifier s \<and> icmp_sequence m = os_correlation_sequence s)"

definition segment_grounds :: "tcp \<Rightarrow> os_submission \<Rightarrow> bool" where
  "segment_grounds t s \<longleftrightarrow>
     tcp_source_port t = os_destination_port s \<and> tcp_destination_port t = os_source_port s \<and>
     (has_flag (tcp_flags t) Rst \<or>
      has_flag (tcp_flags t) Syn \<and> has_flag (tcp_flags t) Ack \<and> tcp_acknowledgment_number t = os_sequence_number s + 1)"

definition tcp_grounds :: "os_response \<Rightarrow> os_submission \<Rightarrow> bool" where
  "tcp_grounds r s \<longleftrightarrow>
     (if is_ipv6 (os_target_ip s) then \<exists>t. tcp_parse (or_bytes r) = Parsed t \<and> segment_grounds t s
      else
        \<exists>ip t. ip4_parse (or_bytes r) = Parsed ip \<and> ip4_protocol ip = 6 \<and>
          parse_ipv4_address (os_target s) = Some (ip4_source_address ip) \<and>
          parse_ipv4_address (os_source_address s) = Some (ip4_destination_address ip) \<and>
          tcp_parse (drop (unat (ip4_ihl ip) * 4) (or_bytes r)) = Parsed t \<and> segment_grounds t s)"

definition quote6_grounds :: "bytes \<Rightarrow> os_submission \<Rightarrow> bool" where
  "quote6_grounds quoted s \<longleftrightarrow>
     (\<exists>q. parse_ipv6_udp_quote quoted 8 2048 = Parsed q \<and>
        ip6_source_address (quote_ip q) = ip_bytes (os_source_ip s) \<and>
        ip6_destination_address (quote_ip q) = ip_bytes (os_target_ip s) \<and>
        quote_source_port q = os_source_port s \<and> quote_destination_port q = os_destination_port s)"

definition quote4_grounds :: "bytes \<Rightarrow> os_submission \<Rightarrow> bool" where
  "quote4_grounds quoted s \<longleftrightarrow>
     (\<exists>source destination. let header = unat (quoted ! 0 AND 0x0F) * 4 in
        parse_ipv4_address (os_source_address s) = Some source \<and> parse_ipv4_address (os_target s) = Some destination \<and>
        28 \<le> length quoted \<and> header + 8 \<le> length quoted \<and> drop_bit 4 (quoted ! 0) = 4 \<and> quoted ! 9 = 17 \<and>
        read_u32 quoted 12 Parsed = Parsed source \<and> read_u32 quoted 16 Parsed = Parsed destination \<and>
        read_u16 quoted header Parsed = Parsed (os_source_port s) \<and>
        read_u16 quoted (header + 2) Parsed = Parsed (os_destination_port s))"

definition udp_grounds :: "os_response \<Rightarrow> os_submission \<Rightarrow> bool" where
  "udp_grounds r s \<longleftrightarrow>
     (if or_kind r \<noteq> OrIcmpError then
        \<exists>u. udp_parse (or_bytes r) = Parsed u \<and>
          udp_source_port u = os_destination_port s \<and> udp_destination_port u = os_source_port s
      else if is_ipv6 (os_target_ip s) then
        \<exists>m. icmp6_parse (or_bytes r) = Parsed m \<and> icmp6_type m = Icmp6_DestinationUnreachable \<and>
          quote6_grounds (icmp6_payload m) s
      else
        \<exists>m. icmp_parse (or_bytes r) = Parsed m \<and> icmp_type m = Icmp_DestinationUnreachable \<and>
          quote4_grounds (icmp_payload m) s)"

definition response_grounds :: "os_response \<Rightarrow> os_submission \<Rightarrow> bool" where
  "response_grounds r s \<longleftrightarrow>
     (if os_type s = IcmpEcho then echo_grounds r s
      else if os_type s = UdpFingerprint then udp_grounds r s
      else tcp_grounds r s)"

lemma segment_groundsI:
  assumes "\<not> (tcp_source_port t \<noteq> os_destination_port s \<or> tcp_destination_port t \<noteq> os_source_port s)" "answers_probe t s"
  shows "segment_grounds t s"
  using assms by (simp add: segment_grounds_def answers_probe_def)

lemma quotes_probe4_grounds:
  assumes "quotes_probe4 quoted source destination s = Parsed True"
    and "parse_ipv4_address (os_source_address s) = Some source" "parse_ipv4_address (os_target s) = Some destination"
  shows "quote4_grounds quoted s"
proof -
  let ?h = "unat (quoted ! 0 AND 0x0F) * 4"
  have long: "28 \<le> length quoted" "?h + 8 \<le> length quoted" "drop_bit 4 (quoted ! 0) = 4"
    using assms(1) by (auto simp: quotes_probe4_def Let_def rd8_def split: if_splits)
  then show ?thesis
    using assms by (auto simp: quotes_probe4_def quote4_grounds_def Let_def rd8_def read_u16_in read_u32_in split: if_splits)
qed

text \<open>A matched response gives an observation of the probe's own kind, and has the grounds for it.\<close>

definition matched_to :: "os_response \<Rightarrow> os_submission \<Rightarrow> os_assessment \<Rightarrow> bool" where
  "matched_to r s a \<longleftrightarrow> attributed s a \<and> response_grounds r s"

lemma echo_matched:
  assumes "if is_ipv6 (os_target_ip s) then assess_echo6 r s = Parsed a else assess_echo4 r s = Parsed a"
    and "os_type s = IcmpEcho" "oa_disposition a = OsMatching"
  shows "matched_to r s a"
proof -
  have n: "unrelated \<noteq> a" "malformed \<noteq> a" using assms(3) not_matching by metis+
  show ?thesis
    using assms(1,2) n
    by (cases "is_ipv6 (os_target_ip s)")
      (auto simp: assess_echo6_def assess_echo4_def matched_to_def response_grounds_def echo_grounds_def assessed_defs
        echo_observation_def dest!: on_parsed_Parsed split: if_splits)
qed

lemma datagram_matched:
  assumes "assess_datagram r s ob = Parsed a" "oa_disposition a = OsMatching" "os_type s = UdpFingerprint"
    and "or_kind r \<noteq> OrIcmpError" "uo_family ob = (if is_ipv6 (os_target_ip s) then FamilyIPv6 else FamilyIPv4)"
  shows "matched_to r s a"
proof -
  have n: "malformed \<noteq> a" using assms(2) not_matching by metis
  have "response_grounds r s"
    using assms(1,3,4) n
    by (auto simp: assess_datagram_def response_grounds_def udp_grounds_def dest!: on_parsed_Parsed split: if_splits)
  then show ?thesis using assess_datagram_attributed [OF assms(1-3,5)] by (simp add: matched_to_def)
qed

lemma udp6_matched:
  assumes "assess_udp6 r s = Parsed a" "is_ipv6 (os_target_ip s)" "os_type s = UdpFingerprint" "oa_disposition a = OsMatching"
  shows "matched_to r s a"
proof -
  have n: "malformed \<noteq> a" using assms(4) not_matching by metis
  have ob: "uo_family (udp_observation_for r FamilyIPv6) = (if is_ipv6 (os_target_ip s) then FamilyIPv6 else FamilyIPv4)"
    using assms(2) by (simp add: udp_observation_family)
  show ?thesis
  proof (cases "or_kind r = OrIcmpError")
    case True
    then obtain m q b where m: "icmp6_parse (or_bytes r) = Parsed m" "parse_ipv6_udp_quote (icmp6_payload m) 8 2048 = Parsed q"
      "\<not> (icmp6_type m \<noteq> Icmp6_DestinationUnreachable \<or>
          ip6_source_address (quote_ip q) \<noteq> ip_bytes (os_source_ip s) \<or>
          ip6_destination_address (quote_ip q) \<noteq> ip_bytes (os_target_ip s) \<or>
          quote_source_port q \<noteq> os_source_port s \<or> quote_destination_port q \<noteq> os_destination_port s)"
      "a = udp_matching b (udp_observation_for r FamilyIPv6)" "b = RbPortUnreachable \<or> b = RbMalformed"
      using assms(1) n unfolding assess_udp6_def Let_def by (auto dest!: on_parsed_Parsed split: if_splits)
    have "response_grounds r s"
      using m(1-3) True assms(2,3) by (simp add: response_grounds_def udp_grounds_def quote6_grounds_def)
    moreover have "attributed s a" unfolding m(4) using m(5) by (intro udp_error_attributed [OF assms(3) ob]) auto
    ultimately show ?thesis by (simp add: matched_to_def)
  next
    case False
    then have "assess_datagram r s (udp_observation_for r FamilyIPv6) = Parsed a"
      using assms(1) by (simp add: assess_udp6_def Let_def)
    then show ?thesis by (rule datagram_matched [OF _ assms(4,3) False ob])
  qed
qed

lemma udp4_matched:
  assumes "assess_udp4 r s = Parsed a" "\<not> is_ipv6 (os_target_ip s)" "os_type s = UdpFingerprint" "oa_disposition a = OsMatching"
  shows "matched_to r s a"
proof -
  have n: "unrelated \<noteq> a" "malformed \<noteq> a" using assms(4) not_matching by metis+
  have n': "malformed\<lparr>oa_status := InvalidArgument\<rparr> \<noteq> a" using assms(4) by (auto simp: malformed_def unrelated_def)
  have ob: "uo_family (udp_observation_for r FamilyIPv4) = (if is_ipv6 (os_target_ip s) then FamilyIPv6 else FamilyIPv4)"
    using assms(2) by (simp add: udp_observation_family)
  obtain destination source where addresses:
    "parse_ipv4_address (os_target s) = Some destination" "parse_ipv4_address (os_source_address s) = Some source"
    using assms(1) n' by (auto simp: assess_udp4_def split: option.splits)
  show ?thesis
  proof (cases "or_kind r = OrIcmpError")
    case True
    then obtain m b where m: "icmp_parse (or_bytes r) = Parsed m" "icmp_type m = Icmp_DestinationUnreachable"
      "quotes_probe4 (icmp_payload m) source destination s = Parsed True"
      "a = udp_matching b (udp_observation_for r FamilyIPv4)" "b = RbPortUnreachable \<or> b = RbMalformed"
      using assms(1) n addresses unfolding assess_udp4_def Let_def by (auto dest!: on_parsed_Parsed split: if_splits)
    have "response_grounds r s"
      using m(1,2) quotes_probe4_grounds [OF m(3) addresses(2,1)] True assms(2,3)
      by (simp add: response_grounds_def udp_grounds_def)
    moreover have "attributed s a" unfolding m(4) using m(5) by (intro udp_error_attributed [OF assms(3) ob]) auto
    ultimately show ?thesis by (simp add: matched_to_def)
  next
    case False
    then have "assess_datagram r s (udp_observation_for r FamilyIPv4) = Parsed a"
      using assms(1) addresses by (simp add: assess_udp4_def Let_def)
    then show ?thesis by (rule datagram_matched [OF _ assms(4,3) False ob])
  qed
qed

lemma tcp6_matched:
  assumes "assess_tcp6 lc r s = Parsed a" "is_ipv6 (os_target_ip s)" "os_type s \<noteq> IcmpEcho" "os_type s \<noteq> UdpFingerprint"
    and "oa_disposition a = OsMatching"
  shows "matched_to r s a"
proof -
  have n: "unrelated \<noteq> a" "malformed \<noteq> a" using assms(5) not_matching by metis+
  obtain g where g: "tcp_parse (or_bytes r) = Parsed g"
    "\<not> (tcp_source_port g \<noteq> os_destination_port s \<or> tcp_destination_port g \<noteq> os_source_port s)" "answers_probe g s"
    "a = (matching (segment_behavior g))\<lparr>oa_tcp := Some
       (new_tcp_observation\<lparr>to_source_address := ip_to_string lc (or_source_ip r),
          to_destination_address := ip_to_string lc (or_destination_ip r),
          to_source_port := tcp_source_port g, to_destination_port := tcp_destination_port g, to_ttl := ttl_of r,
          to_window := observed (tcp_window g), to_flags := tcp_flags g, to_options := map opt_kind (tcp_options g),
          to_sequence_number := observed (tcp_sequence_number g),
          to_acknowledgment_number := observed (tcp_acknowledgment_number g),
          to_ack_behavior := (if has_flag (tcp_flags g) Rst then RstWithoutAck else AcknowledgesSyn),
          to_response_behavior := segment_behavior g, to_probe_status := OsResponseReceived,
          to_family := FamilyIPv6, to_protocol := OsTcp\<rparr>)\<rparr>"
    using assms(1) n unfolding assess_tcp6_def by (auto dest!: on_parsed_Parsed split: if_splits)
  have "response_grounds r s"
    using g(1) segment_groundsI [OF g(2,3)] assms(2-4) by (auto simp: response_grounds_def tcp_grounds_def)
  moreover have "attributed s a"
    unfolding g(4) by (rule segment_attributed [OF g(3) assms(3,4)]) (use g(2) assms(2) in simp_all)
  ultimately show ?thesis by (simp add: matched_to_def)
qed

lemma tcp4_matched:
  assumes "assess_tcp4 r s = Parsed a" "\<not> is_ipv6 (os_target_ip s)" "os_type s \<noteq> IcmpEcho" "os_type s \<noteq> UdpFingerprint"
    and "oa_disposition a = OsMatching"
  shows "matched_to r s a"
proof -
  have n: "unrelated \<noteq> a" "malformed \<noteq> a" using assms(5) not_matching by metis+
  obtain ip g where g: "ip4_parse (or_bytes r) = Parsed ip" "ip4_protocol ip = 6"
    "tcp_parse (drop (unat (ip4_ihl ip) * 4) (or_bytes r)) = Parsed g"
    "parse_ipv4_address (os_target s) = Some (ip4_source_address ip)"
    "parse_ipv4_address (os_source_address s) = Some (ip4_destination_address ip)"
    "\<not> (tcp_source_port g \<noteq> os_destination_port s \<or> tcp_destination_port g \<noteq> os_source_port s)" "answers_probe g s"
    "a = (matching (segment_behavior g))\<lparr>oa_tcp := Some
       (observe_tcp_response (os_target s) (os_source_address s) ip g (segment_behavior g) OsResponseReceived)\<rparr>"
    using assms(1) n unfolding assess_tcp4_def Let_def
    by (auto dest!: on_parsed_Parsed split: if_splits option.splits)
  have "response_grounds r s"
    using g(1-5) segment_groundsI [OF g(6,7)] assms(2-4) by (auto simp: response_grounds_def tcp_grounds_def)
  moreover have "attributed s a"
    unfolding g(8) by (rule segment_attributed [OF g(7) assms(3,4)])
      (use g(6) assms(2) in \<open>simp_all add: observe_tcp_response_def Let_def\<close>)
  ultimately show ?thesis by (simp add: matched_to_def)
qed

text \<open>
  Property C38. A response matched to a probe is either an error of the transport, which records an
  unanswered probe without an observation, or it is tied to the probe. It then comes from the address
  probed to the address it was sent from, where the response names them, which an IPv6 response always
  does; its bytes have the grounds above; and it gives exactly one observation, of the protocol of the
  probe and the family of the target. An IPv4 segment comes as a packet, whose own addresses are
  checked; an IPv4 echo reply or datagram comes without its packet, and is tied to the host only by
  the addresses the response names, if it names any.
\<close>

theorem os_responses_attributed:
  assumes "os_assess lc r s = Parsed a" and "oa_disposition a = OsMatching"
  shows "if or_kind r = OrError then
      oa_tcp a = None \<and> oa_icmp a = None \<and> oa_udp a = None \<and> oa_behavior a = RbNoResponse \<and> oa_status a = IoError
    else
      (or_source_address r = [] \<or> or_source_address r = os_target s) \<and>
      (or_destination_address r = [] \<or> or_destination_address r = os_source_address s) \<and>
      (is_ipv6 (os_target_ip s) \<longrightarrow>
         ip_valid (or_source_ip r) \<and> or_source_ip r = os_target_ip s \<and> or_destination_ip r = os_source_ip s) \<and>
      attributed s a \<and> response_grounds r s"
proof (cases "or_kind r = OrError")
  case True
  then show ?thesis using assms(1) by (auto simp: os_assess_def unrelated_def)
next
  case False
  let ?six = "is_ipv6 (os_target_ip s)"
  have n: "unrelated \<noteq> a" using assms(2) not_matching by metis
  have branch: "(if os_type s = IcmpEcho then (if ?six then assess_echo6 r s else assess_echo4 r s)
      else if os_type s = UdpFingerprint then (if ?six then assess_udp6 r s else assess_udp4 r s)
      else (if ?six then assess_tcp6 lc r s else assess_tcp4 r s)) = Parsed a"
    using assms(1) False n unfolding os_assess_def by (auto split: if_splits)
  then have "matched_to r s a"
    using echo_matched [OF _ _ assms(2)] udp6_matched [OF _ _ _ assms(2)] udp4_matched [OF _ _ _ assms(2)]
      tcp6_matched [OF _ _ _ _ assms(2)] tcp4_matched [OF _ _ _ _ assms(2)]
    by (auto split: if_splits)
  moreover have "or_source_address r = [] \<or> or_source_address r = os_target s"
    "or_destination_address r = [] \<or> or_destination_address r = os_source_address s"
    "?six \<longrightarrow> ip_valid (or_source_ip r) \<and> or_source_ip r = os_target_ip s \<and> or_destination_ip r = os_source_ip s"
    using assms(1) False n unfolding os_assess_def by (auto split: if_splits)
  ultimately show ?thesis using False by (simp only: matched_to_def if_False simp_thms)
qed

text \<open>A reset in an IPv4 packet from 10.0.0.1 to 10.0.0.2 answers the standard SYN to port 80.\<close>

definition packet_submission :: os_submission where
  "packet_submission =
     new_os_submission\<lparr>os_id := 1, os_destination_port := 80, os_source_port := 40001,
       os_source_address := ''10.0.0.2'', os_target := ''10.0.0.1'',
       os_source_ip := from_ipv4 0x0A000002, os_target_ip := from_ipv4 0x0A000001\<rparr>"

definition packet_response :: os_response where
  "packet_response =
     \<lparr>or_id = 1, or_source_address = [], or_destination_address = [], or_kind = OrClosed, or_error_number = 0,
      or_bytes = [0x45, 0, 0, 40, 0, 0, 0, 0, 60, 6, 0x6A, 0xCE, 10, 0, 0, 1, 10, 0, 0, 2,
        0, 80, 0x9C, 0x41, 0, 0, 0, 0, 0, 0, 0, 0, 0x50, 0x04, 0, 0, 0, 0, 0, 0], or_ip_ttl = 60,
      or_ip_identification = 0, or_ip_dont_fragment = False, or_source_port = 0, or_destination_port = 0,
      or_received_at = 1, or_source_ip = default_ip, or_destination_ip = default_ip\<rparr>"

lemma packet_addresses: "parse_ipv4_address ''10.0.0.1'' = Some 0x0A000001" "parse_ipv4_address ''10.0.0.2'' = Some 0x0A000002"
proof -
  have four: "(4 :: nat) = Suc (Suc (Suc (Suc 0)))" by simp
  show "parse_ipv4_address ''10.0.0.1'' = Some 0x0A000001" "parse_ipv4_address ''10.0.0.2'' = Some 0x0A000002"
    unfolding parse_ipv4_address_def four
    by (simp_all add: from_chars_def is_digit_def decimal_value_def digit_value_def Let_def)
qed

lemma packet_checksum: "checksum_internet (take 20 (or_bytes packet_response)) = 0"
  by (simp add: checksum_internet_def packet_response_def checksum_finish_def add_word_def u16_of_def fold_carry.simps [of "0xFFFF"] Let_def)

lemma packet_assessed:
  "\<exists>a. os_assess no_libc packet_response packet_submission = Parsed a \<and> oa_disposition a = OsMatching"
  using packet_checksum
  by (simp add: os_assess_def packet_response_def packet_submission_def new_os_submission_def is_ipv6_from_ipv6
      assess_tcp4_def ip4_parse_def ip4_validate_def ip4_serialized_size_def packet_addresses rd8_def tcp_parse_def read_u16_def
      read_u32_def u16_of_def u32_of_def tcp_parse_options.simps
      on_parsed_def answers_probe_def has_flag_def matching_def unrelated_def Let_def)

theorem os_responses_attributed_witness:
  "\<exists>a. os_assess no_libc packet_response packet_submission = Parsed a \<and> attributed packet_submission a \<and>
     tcp_grounds packet_response packet_submission"
proof -
  obtain a where a: "os_assess no_libc packet_response packet_submission = Parsed a" "oa_disposition a = OsMatching"
    using packet_assessed by blast
  have kind: "or_kind packet_response \<noteq> OrError" "os_type packet_submission = TcpSynStandard"
    by (simp_all add: packet_response_def packet_submission_def new_os_submission_def)
  then show ?thesis using os_responses_attributed [OF a] a by (auto simp: response_grounds_def)
qed

section \<open>What an IPv6 response leaves out\<close>

text \<open>A reset from an IPv6 host.\<close>

definition demo_os_submission :: os_submission where
  "demo_os_submission =
     new_os_submission\<lparr>os_id := 1, os_destination_port := 80, os_source_port := 40001,
       os_source_ip := from_ipv6 (replicate 15 0 @ [2]), os_target_ip := from_ipv6 (replicate 15 0 @ [1])\<rparr>"

definition demo_os_response :: os_response where
  "demo_os_response =
     \<lparr>or_id = 1, or_source_address = [], or_destination_address = [], or_kind = OrClosed, or_error_number = 0,
      or_bytes = [0, 80, 0x9C, 0x41, 0, 0, 0, 0, 0, 0, 0, 0, 0x50, 0x04, 0, 0, 0, 0, 0, 0], or_ip_ttl = 60,
      or_ip_identification = 0, or_ip_dont_fragment = False, or_source_port = 0, or_destination_port = 0,
      or_received_at = 1, or_source_ip = from_ipv6 (replicate 15 0 @ [1]),
      or_destination_ip = from_ipv6 (replicate 15 0 @ [2])\<rparr>"

lemma demo_assessed:
  "\<exists>a ob. os_assess no_libc demo_os_response demo_os_submission = Parsed a \<and> oa_disposition a = OsMatching \<and> oa_tcp a = Some ob"
  by (simp add: os_assess_def demo_os_response_def demo_os_submission_def new_os_submission_def is_ipv6_def from_ipv6_def
      ip_valid_def assess_tcp6_def tcp_parse_def read_u16_def read_u32_def u16_of_def u32_of_def tcp_parse_options.simps
      on_parsed_def answers_probe_def has_flag_def matching_def unrelated_def Let_def)

text \<open>The sums of the weights with and without the fields that are never observed.\<close>

definition omitted_field :: "fingerprint_field \<Rightarrow> bool" where
  "omitted_field f \<longleftrightarrow> f \<in> {FfMss, FfWindowScale, FfSackPermitted, FfTimestamps}"

definition bound_step :: "fingerprint_field \<Rightarrow> rat \<times> rat \<Rightarrow> rat \<times> rat" where
  "bound_step f b =
     (fl_double (fst b + weight_for f), if omitted_field f then snd b else fl_double (snd b + weight_for f))"

lemma tally_bounded:
  assumes "list_all (\<lambda>s. if omitted_field (sg_field s) then compare_signature s f = None else True) sigs"
    and "ot_configured t = fst b" and "ot_matched t \<le> snd b" and "fl_double (snd b) = snd b"
  shows "ot_configured (fold (tally_signature f) sigs t) = fst (fold bound_step (map sg_field sigs) b) \<and>
    ot_matched (fold (tally_signature f) sigs t) \<le> snd (fold bound_step (map sg_field sigs) b)"
  using assms
proof (induction sigs arbitrary: t b)
  case (Cons s sigs)
  let ?w = "weight_for (sg_field s)"
  have "snd b = fl_double (snd b)" using Cons.prems(4) by simp
  also have "\<dots> \<le> fl_double (snd b + ?w)" using weight_nonneg by (intro double.fl_mono) simp
  finally have up: "ot_matched t \<le> fl_double (snd b + ?w)" using Cons.prems(3) by linarith
  have add: "fl_double (ot_matched t + ?w) \<le> fl_double (snd b + ?w)" using Cons.prems(3) by (intro double.fl_mono) simp
  have "ot_configured (tally_signature f s t) = fst (bound_step (sg_field s) b)"
    using Cons.prems(2) by (auto simp: tally_signature_def bound_step_def Let_def split: option.splits bool.splits)
  moreover have "ot_matched (tally_signature f s t) \<le> snd (bound_step (sg_field s) b)"
    using Cons.prems(1,3) up add
    by (auto simp: tally_signature_def bound_step_def Let_def split: option.splits bool.splits)
  moreover have "fl_double (snd (bound_step (sg_field s) b)) = snd (bound_step (sg_field s) b)"
    using Cons.prems(4) by (simp add: bound_step_def double.fl_idem)
  ultimately show ?case using Cons.IH [of "tally_signature f s t" "bound_step (sg_field s) b"] Cons.prems(1) by simp
qed simp

text \<open>The fields of the first fingerprint of the installed IPv6 database, in its order.\<close>

definition ipv6_linux_fields :: "fingerprint_field list" where
  "ipv6_linux_fields =
     [FfTtl, FfWindow, FfMss, FfWindowScale, FfSackPermitted, FfTimestamps, FfTcpOptions, FfResponseBehavior, FfResponsePresence, FfIcmpTtl]"

lemma sums:
  "fl_double (0 + hundredths 10) = 3602879701896397 / 36028797018963968"
  "fl_double (3602879701896397 / 36028797018963968 + hundredths 15) = 1 / 4"
  "fl_double (1 / 4 + hundredths 10) = 3152519739159347 / 9007199254740992"
  "fl_double (3152519739159347 / 9007199254740992 + hundredths 10) = 2026619832316723 / 4503599627370496"
  "fl_double (2026619832316723 / 4503599627370496 + hundredths 10) = 4953959590107545 / 9007199254740992"
  "fl_double (4953959590107545 / 9007199254740992 + hundredths 10) = 1463669878895411 / 2251799813685248"
  "fl_double (1463669878895411 / 2251799813685248 + hundredths 20) = 3828059683264921 / 4503599627370496"
  "fl_double (1 / 4 + hundredths 20) = 8106479329266893 / 18014398509481984"
  "fl_double (3828059683264921 / 4503599627370496 + hundredths 10) = 8556839292003941 / 9007199254740992"
  "fl_double (8106479329266893 / 18014398509481984 + hundredths 10) = 2476979795053773 / 4503599627370496"
  "fl_double (8556839292003941 / 9007199254740992 + hundredths 5) = 9007199254740991 / 9007199254740992"
  "fl_double (2476979795053773 / 4503599627370496 + hundredths 5) = 1351079888211149 / 2251799813685248"
  "fl_double (9007199254740991 / 9007199254740992 + hundredths 5) = 1182194902184755 / 1125899906842624"
  "fl_double (1351079888211149 / 2251799813685248 + hundredths 5) = 2927339757790823 / 4503599627370496"
proof -
  show "fl_double (0 + hundredths 10) = 3602879701896397 / 36028797018963968"
    unfolding hundredths_values by (subst fl_double_small [of _ 4 7205759403792794]) (simp_all add: rounds_to_def)
  show "fl_double (3602879701896397 / 36028797018963968 + hundredths 15) = 1 / 4"
    unfolding hundredths_values by (subst fl_double_small [of _ 2 4503599627370496]) (simp_all add: rounds_to_def)
  show "fl_double (1 / 4 + hundredths 10) = 3152519739159347 / 9007199254740992"
    unfolding hundredths_values by (subst fl_double_small [of _ 2 6305039478318694]) (simp_all add: rounds_to_def)
  show "fl_double (3152519739159347 / 9007199254740992 + hundredths 10) = 2026619832316723 / 4503599627370496"
    unfolding hundredths_values by (subst fl_double_small [of _ 2 8106479329266892]) (simp_all add: rounds_to_def)
  show "fl_double (2026619832316723 / 4503599627370496 + hundredths 10) = 4953959590107545 / 9007199254740992"
    unfolding hundredths_values by (subst fl_double_small [of _ 1 4953959590107545]) (simp_all add: rounds_to_def)
  show "fl_double (4953959590107545 / 9007199254740992 + hundredths 10) = 1463669878895411 / 2251799813685248"
    unfolding hundredths_values by (subst fl_double_small [of _ 1 5854679515581644]) (simp_all add: rounds_to_def)
  show "fl_double (1463669878895411 / 2251799813685248 + hundredths 20) = 3828059683264921 / 4503599627370496"
    unfolding hundredths_values by (subst fl_double_small [of _ 1 7656119366529842]) (simp_all add: rounds_to_def)
  show "fl_double (1 / 4 + hundredths 20) = 8106479329266893 / 18014398509481984"
    unfolding hundredths_values by (subst fl_double_small [of _ 2 8106479329266893]) (simp_all add: rounds_to_def)
  show "fl_double (3828059683264921 / 4503599627370496 + hundredths 10) = 8556839292003941 / 9007199254740992"
    unfolding hundredths_values by (subst fl_double_small [of _ 1 8556839292003941]) (simp_all add: rounds_to_def)
  show "fl_double (8106479329266893 / 18014398509481984 + hundredths 10) = 2476979795053773 / 4503599627370496"
    unfolding hundredths_values by (subst fl_double_small [of _ 1 4953959590107546]) (simp_all add: rounds_to_def)
  show "fl_double (8556839292003941 / 9007199254740992 + hundredths 5) = 9007199254740991 / 9007199254740992"
    unfolding hundredths_values by (subst fl_double_small [of _ 1 9007199254740991]) (simp_all add: rounds_to_def)
  show "fl_double (2476979795053773 / 4503599627370496 + hundredths 5) = 1351079888211149 / 2251799813685248"
    unfolding hundredths_values by (subst fl_double_small [of _ 1 5404319552844596]) (simp_all add: rounds_to_def)
  show "fl_double (9007199254740991 / 9007199254740992 + hundredths 5) = 1182194902184755 / 1125899906842624"
    unfolding hundredths_values by (subst fl_double_small [of _ 0 4728779608739020]) (simp_all add: rounds_to_def)
  show "fl_double (1351079888211149 / 2251799813685248 + hundredths 5) = 2927339757790823 / 4503599627370496"
    unfolding hundredths_values by (subst fl_double_small [of _ 1 5854679515581646]) (simp_all add: rounds_to_def)
qed

lemma ipv6_linux_bound: "fold bound_step ipv6_linux_fields (0, 0) = (1182194902184755 / 1125899906842624, 2927339757790823 / 4503599627370496)"
proof -
  have omitted: "omitted_field FfMss = True" "omitted_field FfWindowScale = True" "omitted_field FfSackPermitted = True"
    "omitted_field FfTimestamps = True" "omitted_field FfTtl = False" "omitted_field FfWindow = False"
    "omitted_field FfTcpOptions = False" "omitted_field FfResponseBehavior = False"
    "omitted_field FfResponsePresence = False" "omitted_field FfIcmpTtl = False"
    by (simp_all add: omitted_field_def)
  show ?thesis
    by (simp only: ipv6_linux_fields_def bound_step_def fold_simps fst_conv snd_conv omitted if_True if_False
        weight_for.simps sums)
qed

lemma ipv6_observation:
  assumes "os_assess lc r s = Parsed a" and "is_ipv6 (os_target_ip s)" and "oa_tcp a = Some ob"
  shows "to_probe_status ob = OsResponseReceived \<and> ov_state (to_mss ob) = ObsAbsent \<and>
    ov_state (to_window_scale ob) = ObsAbsent \<and> ov_state (to_sack_permitted ob) = ObsAbsent \<and>
    ov_state (to_timestamps ob) = ObsAbsent"
proof -
  have none: "oa_tcp malformed = None" "oa_tcp unrelated = None" by (simp_all add: malformed_def unrelated_def)
  have "assess_echo6 r s \<noteq> Parsed a" "assess_udp6 r s \<noteq> Parsed a"
    using assms(3) by (auto simp: assess_echo6_def assess_udp6_def assess_datagram_def udp_matching_def matching_def
        unrelated_def malformed_def Let_def dest!: on_parsed_Parsed split: if_splits)
  then have "assess_tcp6 lc r s = Parsed a"
    using assms none unfolding os_assess_def by (auto simp: unrelated_def split: if_splits)
  then show ?thesis
    using assms(3) none unfolding assess_tcp6_def
    by (auto simp: new_tcp_observation_def absent_def dest!: on_parsed_Parsed split: if_splits)
qed

text \<open>
  Property C39. Whatever segment answers a probe to an IPv6 address, the observation made of it has no maximum segment
  size, window scale, SACK or timestamp, even when the segment carries the options; a fingerprint with
  the fields of the first entry of the installed IPv6 database is therefore never a strong match.
\<close>

theorem ipv6_never_strong:
  assumes "os_assess lc r s = Parsed a" and "is_ipv6 (os_target_ip s)" and "oa_tcp a = Some ob"
    and "first_tcp f = Some ob" and "map sg_field (fp_signatures fp) = ipv6_linux_fields"
  shows "ov_state (to_mss ob) = ObsAbsent \<and> ov_state (to_window_scale ob) = ObsAbsent \<and>
    ov_state (to_sack_permitted ob) = ObsAbsent \<and> ov_state (to_timestamps ob) = ObsAbsent \<and>
    om_category (score_fingerprint f fp) \<noteq> StrongMatch"
proof -
  note ob = ipv6_observation [OF assms(1-3)]
  have "list_all (\<lambda>s. if omitted_field (sg_field s) then compare_signature s f = None else True) (fp_signatures fp)"
    using assms(4) ob by (auto simp: list_all_iff omitted_field_def compare_signature_def Let_def number_evidence_def
        boolean_evidence_def split: option.splits)
  then have b: "ot_configured (tally f (fp_signatures fp)) = 1182194902184755 / 1125899906842624 \<and>
      ot_matched (tally f (fp_signatures fp)) \<le> 2927339757790823 / 4503599627370496"
    using tally_bounded [of f "fp_signatures fp" _ "(0, 0)"] unfolding tally_def assms(5) ipv6_linux_bound
    by (simp only: fst_conv snd_conv os_tally.simps double.fl_zero order.refl)
  have "tally_confidence (tally f (fp_signatures fp)) \<le> fl_double (5 / 8)"
    using b by (simp add: tally_confidence_def) (intro double.fl_mono, simp add: field_simps)
  also have "\<dots> = 5 / 8" by (subst fl_double_small [of _ 1 5629499534213120]) (simp_all add: rounds_to_def)
  finally have "tally_confidence (tally f (fp_signatures fp)) < hundredths 85" by (simp add: hundredths_values)
  then show ?thesis using ob by (simp add: score_fingerprint_def Let_def category_of_def)
qed

theorem ipv6_never_strong_witness:
  "\<exists>ob. ov_state (to_mss ob) = ObsAbsent \<and>
     om_category (score_fingerprint (new_fingerprint\<lparr>of_family := FamilyIPv6, of_tcp := [ob]\<rparr>)
       (new_os_fingerprint\<lparr>fp_signatures := map (\<lambda>f. new_signature\<lparr>sg_field := f\<rparr>) ipv6_linux_fields\<rparr>)) \<noteq> StrongMatch"
proof -
  obtain a ob where a: "os_assess no_libc demo_os_response demo_os_submission = Parsed a" "oa_tcp a = Some ob"
    using demo_assessed by blast
  have six: "is_ipv6 (os_target_ip demo_os_submission)" by (simp add: demo_os_submission_def is_ipv6_def from_ipv6_def)
  have one: "first_tcp (new_fingerprint\<lparr>of_family := FamilyIPv6, of_tcp := [ob]\<rparr>) = Some ob"
    using ipv6_observation [OF a(1) six a(2)] by (simp add: first_tcp_def)
  have same: "map sg_field (fp_signatures (new_os_fingerprint\<lparr>fp_signatures := map (\<lambda>f. new_signature\<lparr>sg_field := f\<rparr>) ipv6_linux_fields\<rparr>)) = ipv6_linux_fields"
    by (simp add: comp_def new_signature_def)
  show ?thesis using ipv6_never_strong [OF a(1) six a(2) one same] by blast
qed

section \<open>Probes to an IPv6 address from a host with an IPv4 address\<close>

text \<open>
  A Linux transport whose interface has an IPv4 address gives that address to the scheduler, which
  builds the probes with it, and sends the probes to an IPv6 address from the IPv6 address of the
  interface.

  Property C40. When the source address a probe to an IPv6 address is built with is no IPv6 address, the
  probe remembers the unspecified address as its source, and every response that arrives at a real
  address is taken to be unrelated, whatever it holds.
\<close>

theorem ipv6_reply_never_accepted:
  assumes "os_build lc now t i h cfg s0 = (Ok, s)" and "is_ipv6 (os_destination lc h)"
    and "case parse_ip_address lc (opc_source_address cfg) of None \<Rightarrow> True | Some a \<Rightarrow> \<not> is_ipv6 a"
    and "or_kind r \<noteq> OrError" and "ip_bytes (or_destination_ip r) \<noteq> replicate 16 0"
  shows "os_assess lc r s = Parsed unrelated"
proof -
  let ?d = "os_destination lc h" and ?any = "from_ipv6 (replicate 16 0)"
  define source where "source = (if is_ipv6_link_local ?d then ?any\<lparr>ip_scope := ip_scope ?d\<rparr> else ?any)"
  have chosen: "os_source_ip_for lc cfg ?d = Some source"
    using assms(2,3) by (auto simp: os_source_ip_for_def source_def Let_def split: option.splits)
  define s1 where "s1 = os_submission_for lc now t i cfg source ?d"
  have built: "(if t = IcmpEcho then os_build_echo i s1 else if t = UdpFingerprint then os_build_udp cfg s1
      else os_build_tcp t s1) = (Ok, s)"
    using assms(1) chosen by (simp add: os_build_def Let_def s1_def split: if_splits)
  have "os_target_ip s1 = ?d" "os_source_ip s1 = source" by (simp_all add: s1_def os_submission_for_def)
  moreover have "os_target_ip s = os_target_ip s1" "os_source_ip s = os_source_ip s1"
    using built by (auto simp: os_build_echo_def os_build_udp_def os_build_tcp_def Let_def split: if_splits prod.splits)
  moreover have "ip_bytes source = replicate 16 0" by (simp add: source_def from_ipv6_def)
  ultimately have "is_ipv6 (os_target_ip s)" "or_destination_ip r \<noteq> os_source_ip s" using assms(2,5) by auto
  then show ?thesis using assms(4) by (simp add: os_assess_def)
qed

theorem ipv6_reply_never_accepted_witness:
  "\<exists>s. os_build no_libc 0 UdpFingerprint 1 \<lparr>h_address = ''::1'', h_hostname = None, h_is_up = True,
         h_ip = os_target_ip demo_os_submission\<rparr>
       \<lparr>opc_timeout = 1000, opc_probe_port = 80, opc_source_address = ''192.0.2.254'', opc_udp_probe_port = 161,
         opc_udp_probe_payload = skan_payload\<rparr> new_os_submission = (Ok, s) \<and>
     os_assess no_libc demo_os_response s = Parsed unrelated"
proof -
  let ?h = "\<lparr>h_address = ''::1'', h_hostname = None, h_is_up = True, h_ip = os_target_ip demo_os_submission\<rparr>"
  let ?cfg = "\<lparr>opc_timeout = 1000, opc_probe_port = 80, opc_source_address = ''192.0.2.254'', opc_udp_probe_port = 161,
         opc_udp_probe_payload = skan_payload\<rparr>"
  have d: "os_destination no_libc ?h = os_target_ip demo_os_submission" "is_ipv6 (os_target_ip demo_os_submission)"
    by (simp_all add: os_destination_def demo_os_submission_def ip_valid_def is_ipv6_def from_ipv6_def)
  have none: "case parse_ip_address no_libc (opc_source_address ?cfg) of None \<Rightarrow> True | Some a \<Rightarrow> \<not> is_ipv6 a"
    by (simp add: parse_ip_address_def parse_address_text_def no_libc_def)
  have "\<exists>s. os_build no_libc 0 UdpFingerprint 1 ?h ?cfg new_os_submission = (Ok, s)"
    using d none by (simp add: os_build_def os_source_ip_for_def os_build_udp_def os_submission_for_def Let_def ip_valid_def
        udp_serialize_with_checksum6_def udp_checksummed_def udp_serialize_def udp_serialized_size_def udp_validate_def
        skan_payload_def split: option.splits)
  then obtain s where s: "os_build no_libc 0 UdpFingerprint 1 ?h ?cfg new_os_submission = (Ok, s)" by blast
  have six: "is_ipv6 (os_destination no_libc ?h)" using d by simp
  have r: "or_kind demo_os_response \<noteq> OrError" "ip_bytes (or_destination_ip demo_os_response) \<noteq> replicate 16 0"
    by (simp_all add: demo_os_response_def from_ipv6_def numeral_eq_Suc)
  show ?thesis using ipv6_reply_never_accepted [OF s six none r] s by blast
qed

end
