(* ===== verification/Os_Scheduler.thy ===== *)
theory Os_Scheduler
  imports Os_Probes Os_Matcher Engine_Runs
begin

text \<open>
  The scheduler of operating system detection (\<open>include/osdetect/os_scheduler.hpp\<close>,
  \<open>src/osdetect/os_scheduler.cpp\<close>): twelve probes for every host, sent up to a limit, one timer for
  each, the evidence gathered in one fingerprint, and one result. The environment record holds the C
  library, the clock and the transport. A transport answers a submission only after \<open>submit\<close> has
  returned: the scheduler goes on to use the element it has inserted, which an answer from inside
  \<open>submit\<close> would erase. Counters of type \<open>size_t\<close> are natural numbers. The facade \<open>OSDetector\<close>
  (\<open>os_detector.cpp\<close>) forwards every call. Allocation never fails in the model.
\<close>

section \<open>Configuration, work and result\<close>

record os_scheduler_config =
  osc_timeout :: int
  osc_max_outstanding :: nat
  osc_probe_port :: u16
  osc_source_address :: string
  osc_udp_probe_port :: u16
  osc_udp_probe_payload :: bytes
  osc_max_results :: nat
  osc_adaptive_timing :: bool
  osc_timing_profile :: timing_profile

record os_work =
  ow_host :: host
  ow_port :: port
  ow_type :: os_probe_type
  ow_retry_count :: nat

record os_flight =
  ofl_work :: os_work
  ofl_submission :: os_submission
  ofl_sent_at :: int
  ofl_timer :: u64

record os_detection_result =
  odr_target :: string
  odr_state :: os_detection_state
  odr_vendor :: string
  odr_family :: string
  odr_generation :: string
  odr_device_type :: string
  odr_confidence :: rat
  odr_category :: "match_category option"
  odr_matches :: "os_match list"
  odr_observed :: observed_fingerprint
  odr_probes_generated :: nat
  odr_probes_sent :: nat
  odr_responses_received :: nat
  odr_probes_timed_out :: nat
  odr_probes_unsupported :: nat
  odr_probes_malformed :: nat
  odr_rtt_ms :: "rat option"
  odr_error :: os_detection_error
  odr_timestamp :: int
  odr_address_family :: address_family
  odr_fingerprint_id :: string

definition os_probe_order :: "os_probe_type list" where
  "os_probe_order =
     [TcpSynStandard, TcpSynVariant, TcpSynTimestamp, TcpEcn, TcpAckProbe, TcpFinProbe, TcpNull, TcpXmas,
      TcpClosedStandard, TcpClosedVariant, IcmpEcho, UdpFingerprint]"

definition os_error_for_status :: "status_code \<Rightarrow> os_detection_error" where
  "os_error_for_status st =
     (case st of
        InvalidArgument \<Rightarrow> OseInvalidTarget
      | PermissionDenied \<Rightarrow> OseCapabilityUnavailable
      | NotFound \<Rightarrow> OseNoUsablePort
      | ParseError \<Rightarrow> OseMalformedResponse
      | IoError \<Rightarrow> OseTransportFailure
      | _ \<Rightarrow> OseInternalError)"

definition host_matches :: "host \<Rightarrow> string \<Rightarrow> bool" where
  "host_matches h target \<longleftrightarrow> target = h_address h \<or> h_hostname h = Some target"

definition family_for_host :: "libc \<Rightarrow> host \<Rightarrow> address_family" where
  "family_for_host lc h =
     (if ip_valid (h_ip h) then ip_family (h_ip h)
      else case parse_ip_address lc (h_address h) of Some a \<Rightarrow> ip_family a | None \<Rightarrow> FamilyUnknown)"

text \<open>The loop over the hosts: the family they share, or none.\<close>

fun os_target_family :: "address_family list \<Rightarrow> address_family option \<Rightarrow> address_family" where
  "os_target_family [] seen = (case seen of None \<Rightarrow> FamilyUnknown | Some f \<Rightarrow> f)"
| "os_target_family (f # fs) seen =
     (if f = FamilyUnknown then os_target_family fs seen
      else case seen of
        None \<Rightarrow> os_target_family fs (Some f)
      | Some g \<Rightarrow> if g = f then os_target_family fs seen else FamilyUnknown)"

section \<open>State\<close>

record ('x, 't) os_env =
  oe_libc :: libc
  oe_clock :: "nat \<Rightarrow> int"
  oe_supports :: "'t \<Rightarrow> os_probe_type \<Rightarrow> bool"
  oe_local_source_address :: "'t \<Rightarrow> string"
  oe_submit :: "os_submission \<Rightarrow> 'x sched_callback engine \<times> 't \<Rightarrow> status_code \<times> 'x sched_callback engine \<times> 't"
  oe_cancel :: "u64 \<Rightarrow> 'x sched_callback engine \<times> 't \<Rightarrow> 'x sched_callback engine \<times> 't"
  oe_event :: "'x \<Rightarrow> 'x sched_callback engine \<times> 't \<Rightarrow> os_response list \<times> 'x sched_callback engine \<times> 't"

record ('x, 't) os_scheduler =
  oss_engine :: "'x sched_callback engine"
  oss_transport :: 't
  oss_reads :: nat
  oss_database :: os_database
  oss_config :: os_scheduler_config
  oss_timing :: "timing_controller option"
  oss_queue :: "os_work list"
  oss_pending :: "(u64 \<times> os_flight) list"
  oss_completed_ids :: "u64 set"
  oss_expired_ids :: "u64 set"
  oss_observed :: "observed_fingerprint option"
  oss_result :: "os_detection_result option"
  oss_target :: string
  oss_target_family :: address_family
  oss_status :: status_code
  oss_next_id :: u64
  oss_submitted :: bool
  oss_generated :: nat
  oss_sent :: nat
  oss_responses :: nat
  oss_timeouts :: nat
  oss_unsupported :: nat
  oss_malformed :: nat
  oss_rtt_sum :: rat
  oss_rtt_count :: nat

definition new_os_scheduler ::
  "'x sched_callback engine \<Rightarrow> 't \<Rightarrow> os_database \<Rightarrow> os_scheduler_config \<Rightarrow> ('x, 't) os_scheduler" where
  "new_os_scheduler e t db cfg =
     \<lparr>oss_engine = e, oss_transport = t, oss_reads = 0, oss_database = db, oss_config = cfg,
      oss_timing = (if osc_adaptive_timing cfg then Some (new_timing_controller (osc_timing_profile cfg)) else None),
      oss_queue = [], oss_pending = [], oss_completed_ids = {}, oss_expired_ids = {}, oss_observed = None,
      oss_result = None, oss_target = [], oss_target_family = FamilyUnknown, oss_status = Ok, oss_next_id = 1,
      oss_submitted = False, oss_generated = 0, oss_sent = 0, oss_responses = 0, oss_timeouts = 0,
      oss_unsupported = 0, oss_malformed = 0, oss_rtt_sum = 0, oss_rtt_count = 0\<rparr>"

section \<open>Clock, timers, transport, observations\<close>

definition os_now :: "('x, 't) os_env \<Rightarrow> ('x, 't) os_scheduler \<Rightarrow> int \<times> ('x, 't) os_scheduler" where
  "os_now env s = (oe_clock env (oss_reads s), s\<lparr>oss_reads := Suc (oss_reads s)\<rparr>)"

definition os_schedule ::
  "('x, 't) os_env \<Rightarrow> int \<Rightarrow> 'x sched_callback \<Rightarrow> ('x, 't) os_scheduler \<Rightarrow> u64 \<times> ('x, 't) os_scheduler" where
  "os_schedule env delay cb s =
     (case os_now env s of (now, s1) \<Rightarrow>
       case engine_schedule now (delay * ns_per_ms) cb (oss_engine s1) of (tid, e) \<Rightarrow> (tid, s1\<lparr>oss_engine := e\<rparr>))"

definition os_cancel_timer :: "u64 \<Rightarrow> ('x, 't) os_scheduler \<Rightarrow> ('x, 't) os_scheduler" where
  "os_cancel_timer tid s = s\<lparr>oss_engine := engine_cancel tid (oss_engine s)\<rparr>"

definition os_cancel_probe :: "('x, 't) os_env \<Rightarrow> u64 \<Rightarrow> ('x, 't) os_scheduler \<Rightarrow> ('x, 't) os_scheduler" where
  "os_cancel_probe env i s =
     (case oe_cancel env i (oss_engine s, oss_transport s) of (e, t) \<Rightarrow> s\<lparr>oss_engine := e, oss_transport := t\<rparr>)"

definition os_update_timing ::
  "(timing_controller \<Rightarrow> timing_controller) \<Rightarrow> ('x, 't) os_scheduler \<Rightarrow> ('x, 't) os_scheduler" where
  "os_update_timing f s = s\<lparr>oss_timing := map_option f (oss_timing s)\<rparr>"

definition os_set_parallelism :: "('x, 't) os_scheduler \<Rightarrow> ('x, 't) os_scheduler" where
  "os_set_parallelism s =
     (let n = length (oss_pending s) in os_update_timing (tc_update_metrics (set_parallelism n n)) s)"

definition os_observed :: "('x, 't) os_scheduler \<Rightarrow> observed_fingerprint" where
  "os_observed s = (case oss_observed s of None \<Rightarrow> new_fingerprint | Some f \<Rightarrow> f)"

text \<open>\<open>append_terminal_status\<close> counts a status in the fingerprint observed.\<close>

definition os_note :: "('x, 't) os_env \<Rightarrow> os_probe_status \<Rightarrow> ('x, 't) os_scheduler \<Rightarrow> ('x, 't) os_scheduler" where
  "os_note env st s =
     (case os_now env s of (now, s1) \<Rightarrow>
       s1\<lparr>oss_observed := Some ((count_status st (os_observed s1))\<lparr>of_timestamp := now\<rparr>)\<rparr>)"

definition os_append ::
  "('x, 't) os_env \<Rightarrow> (int \<Rightarrow> observed_fingerprint \<Rightarrow> observed_fingerprint) \<Rightarrow>
     ('x, 't) os_scheduler \<Rightarrow> ('x, 't) os_scheduler" where
  "os_append env f s =
     (case os_now env s of (now, s1) \<Rightarrow> s1\<lparr>oss_observed := Some (f now (os_observed s1))\<rparr>)"

definition os_append_observation ::
  "('x, 't) os_env \<Rightarrow> os_assessment \<Rightarrow> ('x, 't) os_scheduler \<Rightarrow> ('x, 't) os_scheduler" where
  "os_append_observation env a s =
     (let s0 = s\<lparr>oss_observed := Some (os_observed s)\<rparr>;
          s1 = (case oa_tcp a of None \<Rightarrow> s0 | Some ob \<Rightarrow> os_append env (\<lambda>now. append_tcp_observation now ob) s0);
          s2 = (case oa_icmp a of None \<Rightarrow> s1 | Some ob \<Rightarrow> os_append env (\<lambda>now. append_icmp_observation now ob) s1)
      in case oa_udp a of None \<Rightarrow> s2 | Some ob \<Rightarrow> os_append env (\<lambda>now. append_udp_observation now ob) s2)"

definition os_complete :: "('x, 't) os_scheduler \<Rightarrow> bool" where
  "os_complete s \<longleftrightarrow> oss_submitted s \<and> oss_queue s = [] \<and> oss_pending s = []"

section \<open>The result\<close>

definition with_matches ::
  "observed_fingerprint \<Rightarrow> os_match list \<Rightarrow> os_detection_result \<Rightarrow> os_detection_result" where
  "with_matches f ms r0 =
     (let r = r0\<lparr>odr_observed := f, odr_matches := ms\<rparr> in
      case ms of
        [] \<Rightarrow> r
      | best # _ \<Rightarrow>
          if om_category best = NoMatchCategory then r
          else r\<lparr>odr_vendor := om_vendor best, odr_family := om_family best, odr_generation := om_generation best,
            odr_device_type := om_device_type best, odr_confidence := om_confidence best,
            odr_category := Some (om_category best), odr_fingerprint_id := om_fingerprint_id best\<rparr>)"

definition os_new_result ::
  "int \<Rightarrow> os_detection_state \<Rightarrow> os_detection_error \<Rightarrow> ('x, 't) os_scheduler \<Rightarrow> os_detection_result" where
  "os_new_result now st err s =
     \<lparr>odr_target = oss_target s, odr_state = st, odr_vendor = [], odr_family = [], odr_generation = [],
      odr_device_type = [], odr_confidence = 0, odr_category = None, odr_matches = [],
      odr_observed = new_fingerprint, odr_probes_generated = oss_generated s, odr_probes_sent = oss_sent s,
      odr_responses_received = oss_responses s, odr_probes_timed_out = oss_timeouts s,
      odr_probes_unsupported = oss_unsupported s, odr_probes_malformed = oss_malformed s,
      odr_rtt_ms = (if oss_rtt_count s = 0 then None
        else Some (fl_double (oss_rtt_sum s / fl_double (of_nat (oss_rtt_count s))))),
      odr_error = err, odr_timestamp = now, odr_address_family = oss_target_family s, odr_fingerprint_id = []\<rparr>"

definition os_emit ::
  "('x, 't) os_env \<Rightarrow> os_detection_state \<Rightarrow> os_detection_error \<Rightarrow> ('x, 't) os_scheduler \<Rightarrow> ('x, 't) os_scheduler" where
  "os_emit env st err s =
     (if oss_result s \<noteq> None then s
      else case os_now env s of (now, s1) \<Rightarrow>
        let r = os_new_result now st err s1 in
        s1\<lparr>oss_result := Some (case oss_observed s1 of
            None \<Rightarrow> r
          | Some f \<Rightarrow> with_matches f (os_matcher_match (oss_database s1) f (osc_max_results (oss_config s1))) r)\<rparr>)"

definition os_verdict :: "('x, 't) os_scheduler \<Rightarrow> os_detection_state \<times> os_detection_error" where
  "os_verdict s =
     (if oss_status s \<noteq> Ok then (OsFailed, os_error_for_status (oss_status s))
      else if oss_responses s > 0 \<and> oss_timeouts s = 0 \<and> oss_malformed s = 0 then (OsComplete, OseNone)
      else if oss_responses s > 0 \<or> oss_timeouts s > 0 \<or> oss_malformed s > 0 \<or> oss_unsupported s > 0
        then (OsPartial, if oss_timeouts s > 0 then OseTimeout else OseUnsupportedProbe)
      else (OsUnavailable, OseNoUsablePort))"

definition os_finish_terminal :: "('x, 't) os_env \<Rightarrow> ('x, 't) os_scheduler \<Rightarrow> ('x, 't) os_scheduler" where
  "os_finish_terminal env s =
     (if oss_submitted s \<and> oss_queue s = [] \<and> oss_pending s = [] \<and> oss_result s = None then
        (case os_verdict s of (st, err) \<Rightarrow>
          let s1 = os_emit env st err s in s1\<lparr>oss_engine := engine_stop (oss_engine s1)\<rparr>)
      else s)"

section \<open>Sending a probe\<close>

definition os_probe_config_for :: "('x, 't) os_env \<Rightarrow> os_work \<Rightarrow> ('x, 't) os_scheduler \<Rightarrow> os_probe_config" where
  "os_probe_config_for env w s =
     (let configured = osc_source_address (oss_config s);
          source = (if configured = [] then oe_local_source_address env (oss_transport s) else configured)
      in \<lparr>opc_timeout = osc_timeout (oss_config s), opc_probe_port = port_number (ow_port w),
          opc_source_address = (if source = [] then ''192.0.2.254'' else source),
          opc_udp_probe_port = osc_udp_probe_port (oss_config s),
          opc_udp_probe_payload = osc_udp_probe_payload (oss_config s)\<rparr>)"

definition os_probe_timeout :: "('x, 't) os_scheduler \<Rightarrow> int" where
  "os_probe_timeout s = (case oss_timing s of None \<Rightarrow> osc_timeout (oss_config s) | Some t \<Rightarrow> tc_timeout t)"

definition os_erase_pending :: "u64 \<Rightarrow> ('x, 't) os_scheduler \<Rightarrow> ('x, 't) os_scheduler" where
  "os_erase_pending i s = s\<lparr>oss_pending := map_erase i (oss_pending s)\<rparr>"

definition os_launch ::
  "('x, 't) os_env \<Rightarrow> os_work \<Rightarrow> u64 \<Rightarrow> os_submission \<Rightarrow> ('x, 't) os_scheduler \<Rightarrow> ('x, 't) os_scheduler" where
  "os_launch env w i sub0 s =
     (case os_now env s of (sent, s1) \<Rightarrow>
       case os_schedule env (os_probe_timeout s1) (OnTimeout i) s1 of (tid, s2) \<Rightarrow>
         if tid = 0 then os_note env OsMalformed (s2\<lparr>oss_status := InternalError, oss_malformed := Suc (oss_malformed s2)\<rparr>)
         else
           let sub = sub0\<lparr>os_status := OsSent\<rparr>;
               p = \<lparr>ofl_work = w, ofl_submission = sub, ofl_sent_at = sent, ofl_timer = tid\<rparr> in
           case map_emplace i p (oss_pending s2) of (m, inserted) \<Rightarrow>
             if \<not> inserted then (os_cancel_timer tid s2)\<lparr>oss_status := InternalError\<rparr>
             else
               let s3 = s2\<lparr>oss_pending := m\<rparr> in
               (case oe_submit env sub (oss_engine s3, oss_transport s3) of (st, e, t) \<Rightarrow>
                 let s4 = s3\<lparr>oss_engine := e, oss_transport := t\<rparr> in
                 if st \<noteq> Ok then (os_erase_pending i (os_cancel_timer tid s4))\<lparr>oss_status := st\<rparr>
                 else os_note env OsSent
                   (os_update_timing (tc_on_submitted (length (oss_pending s4))) (s4\<lparr>oss_sent := Suc (oss_sent s4)\<rparr>))))"

definition os_start :: "('x, 't) os_env \<Rightarrow> os_work \<Rightarrow> ('x, 't) os_scheduler \<Rightarrow> ('x, 't) os_scheduler" where
  "os_start env w s =
     (if \<not> oe_supports env (oss_transport s) (ow_type w)
      then os_note env OsUnsupported (s\<lparr>oss_unsupported := Suc (oss_unsupported s)\<rparr>)
      else
        let i = oss_next_id s; s1 = s\<lparr>oss_next_id := i + 1\<rparr> in
        case os_now env s1 of (now, s2) \<Rightarrow>
          case os_build (oe_libc env) now (ow_type w) i (ow_host w) (os_probe_config_for env w s2) new_os_submission of
            (st, sub) \<Rightarrow>
              if st \<noteq> Ok then os_note env OsMalformed (s2\<lparr>oss_malformed := Suc (oss_malformed s2)\<rparr>)
              else os_launch env w i sub (os_note env OsGenerated (s2\<lparr>oss_generated := Suc (oss_generated s2)\<rparr>)))"

lemma os_note_kept [simp]:
  "oss_queue (os_note env st s) = oss_queue s" "oss_pending (os_note env st s) = oss_pending s"
  "oss_status (os_note env st s) = oss_status s" "oss_engine (os_note env st s) = oss_engine s"
  "oss_result (os_note env st s) = oss_result s" "oss_next_id (os_note env st s) = oss_next_id s"
  "oss_timing (os_note env st s) = oss_timing s" "oss_config (os_note env st s) = oss_config s"
  "oss_submitted (os_note env st s) = oss_submitted s" "oss_completed_ids (os_note env st s) = oss_completed_ids s"
  "oss_expired_ids (os_note env st s) = oss_expired_ids s" "oss_generated (os_note env st s) = oss_generated s"
  "oss_sent (os_note env st s) = oss_sent s" "oss_responses (os_note env st s) = oss_responses s"
  "oss_timeouts (os_note env st s) = oss_timeouts s" "oss_unsupported (os_note env st s) = oss_unsupported s"
  "oss_malformed (os_note env st s) = oss_malformed s" "oss_transport (os_note env st s) = oss_transport s"
  by (simp_all add: os_note_def os_now_def)

lemma os_start_queue [simp]: "oss_queue (os_start env w s) = oss_queue s"
  by (simp add: os_start_def os_launch_def os_schedule_def os_now_def os_cancel_timer_def os_erase_pending_def
      os_update_timing_def Let_def split: prod.splits)

section \<open>The pump\<close>

definition os_pump_limit :: "('x, 't) os_scheduler \<Rightarrow> nat" where
  "os_pump_limit s =
     (case oss_timing s of
        None \<Rightarrow> osc_max_outstanding (oss_config s)
      | Some t \<Rightarrow> tc_parallelism_limit (osc_max_outstanding (oss_config s)) t)"

function os_pump_loop :: "('x, 't) os_env \<Rightarrow> nat \<Rightarrow> ('x, 't) os_scheduler \<Rightarrow> ('x, 't) os_scheduler" where
  "os_pump_loop env limit s =
     (case oss_queue s of
        [] \<Rightarrow> s
      | w # rest \<Rightarrow>
          if oss_status s = Ok \<and> length (oss_pending s) < limit
          then os_pump_loop env limit (os_start env w (s\<lparr>oss_queue := rest\<rparr>))
          else s)"
  by pat_completeness auto
termination
  by (relation "measure (\<lambda>(env, limit, s). length (oss_queue s))") auto

declare os_pump_loop.simps [simp del]

definition os_pump :: "('x, 't) os_env \<Rightarrow> ('x, 't) os_scheduler \<Rightarrow> ('x, 't) os_scheduler" where
  "os_pump env s = os_finish_terminal env (os_pump_loop env (os_pump_limit s) s)"

section \<open>Timeouts and responses\<close>

definition os_retry :: "os_work \<Rightarrow> ('x, 't) os_scheduler \<Rightarrow> ('x, 't) os_scheduler" where
  "os_retry w s =
     os_set_parallelism
       (os_update_timing (tc_update_metrics (\<lambda>m. m\<lparr>mt_retry_count := incr_size (mt_retry_count m)\<rparr>))
         (s\<lparr>oss_queue := w\<lparr>ow_retry_count := Suc (ow_retry_count w)\<rparr> # oss_queue s\<rparr>))"

definition os_retries :: "os_work \<Rightarrow> ('x, 't) os_scheduler \<Rightarrow> bool" where
  "os_retries w s \<longleftrightarrow> (case oss_timing s of None \<Rightarrow> False | Some t \<Rightarrow> tc_should_retry (ow_retry_count w) t)"

definition os_expired ::
  "('x, 't) os_env \<Rightarrow> u64 \<Rightarrow> os_flight \<Rightarrow> ('x, 't) os_scheduler \<Rightarrow> ('x, 't) os_scheduler" where
  "os_expired env i p s =
     (let s1 = os_erase_pending i (os_cancel_probe env i s);
          s2 = os_note env OsTimeout
            (s1\<lparr>oss_expired_ids := insert i (oss_expired_ids s1), oss_timeouts := Suc (oss_timeouts s1)\<rparr>);
          s3 = os_update_timing tc_on_timeout s2
      in if os_retries (ofl_work p) s3 then os_retry (ofl_work p) s3 else os_set_parallelism s3)"

definition os_on_timeout :: "('x, 't) os_env \<Rightarrow> u64 \<Rightarrow> ('x, 't) os_scheduler \<Rightarrow> ('x, 't) os_scheduler" where
  "os_on_timeout env i s =
     (case map_of (oss_pending s) i of None \<Rightarrow> s | Some p \<Rightarrow> os_pump env (os_expired env i p s))"

definition os_finished ::
  "('x, 't) os_env \<Rightarrow> os_flight \<Rightarrow> int \<Rightarrow> ('x, 't) os_scheduler \<Rightarrow> ('x, 't) os_scheduler" where
  "os_finished env p received s =
     (let i = os_id (ofl_submission p);
          s1 = os_cancel_probe env i (os_cancel_timer (ofl_timer p) s);
          rtt = rtt_between (ofl_sent_at p) received;
          s2 = s1\<lparr>oss_rtt_sum := fl_double (oss_rtt_sum s1 + rtt), oss_rtt_count := Suc (oss_rtt_count s1)\<rparr>;
          s3 = os_set_parallelism (os_update_timing (tc_on_response (truncate_rat rtt)) s2)
      in os_erase_pending i (s3\<lparr>oss_completed_ids := insert i (oss_completed_ids s3)\<rparr>))"

definition os_counted :: "('x, 't) os_env \<Rightarrow> os_assessment \<Rightarrow> ('x, 't) os_scheduler \<Rightarrow> ('x, 't) os_scheduler" where
  "os_counted env a s =
     (if oa_disposition a = OsMalformedReply then s\<lparr>oss_malformed := Suc (oss_malformed s)\<rparr>
      else os_append_observation env a (s\<lparr>oss_responses := Suc (oss_responses s)\<rparr>))"

definition os_received_time ::
  "('x, 't) os_env \<Rightarrow> os_response \<Rightarrow> ('x, 't) os_scheduler \<Rightarrow> int \<times> ('x, 't) os_scheduler" where
  "os_received_time env r s = (if or_received_at r = 0 then os_now env s else (or_received_at r, s))"

text \<open>The assessment always returns (\<open>os_assess_in_bounds\<close>).\<close>

definition os_receive :: "('x, 't) os_env \<Rightarrow> os_response \<Rightarrow> ('x, 't) os_scheduler \<Rightarrow> ('x, 't) os_scheduler" where
  "os_receive env r s =
     (case map_of (oss_pending s) (or_id r) of
        None \<Rightarrow> s
      | Some p \<Rightarrow>
          if or_id r \<in> oss_completed_ids s \<or> or_id r \<in> oss_expired_ids s then s
          else (case os_assess (oe_libc env) r (ofl_submission p) of
              Parsed a \<Rightarrow>
                if oa_disposition a = OsUnrelated then s
                else (case os_received_time env r (os_counted env a s) of
                  (received, s1) \<Rightarrow> os_pump env (os_finished env p received s1))
            | _ \<Rightarrow> s))"

section \<open>Submitting\<close>

definition os_selected_port :: "os_scheduler_config \<Rightarrow> port_result list \<Rightarrow> host \<Rightarrow> port" where
  "os_selected_port cfg rs h =
     (case find (\<lambda>r. host_matches h (res_target r) \<and> res_state r = PsOpen \<and> port_protocol (res_port r) = Tcp \<and>
          port_number (res_port r) \<noteq> 0) rs of
        Some r \<Rightarrow> res_port r
      | None \<Rightarrow> \<lparr>port_number = osc_probe_port cfg, port_protocol = Tcp\<rparr>)"

definition os_host_work :: "os_scheduler_config \<Rightarrow> port_result list \<Rightarrow> host \<Rightarrow> os_work list" where
  "os_host_work cfg rs h =
     map (\<lambda>t. \<lparr>ow_host = h, ow_port = os_selected_port cfg rs h, ow_type = t, ow_retry_count = 0\<rparr>) os_probe_order"

definition os_work_for :: "os_scheduler_config \<Rightarrow> target \<Rightarrow> port_result list \<Rightarrow> os_work list" where
  "os_work_for cfg target rs =
     concat (map (os_host_work cfg rs) (filter (\<lambda>h. h_address h \<noteq> []) (resolved_hosts target)))"

definition os_target_name :: "target \<Rightarrow> string" where
  "os_target_name target =
     (if original_specification target = [] \<and> resolved_hosts target \<noteq> []
      then h_address (hd (resolved_hosts target)) else original_specification target)"

text \<open>A submission that ends before any probe: the status, and a result that says so.\<close>

definition os_reject ::
  "('x, 't) os_env \<Rightarrow> status_code \<Rightarrow> os_detection_state \<Rightarrow> os_detection_error \<Rightarrow>
     ('x, 't) os_scheduler \<Rightarrow> status_code \<times> ('x, 't) os_scheduler" where
  "os_reject env st state err s =
     (let s1 = os_emit env state err (s\<lparr>oss_status := st\<rparr>) in (oss_status s1, s1))"

definition os_submit ::
  "('x, 't) os_env \<Rightarrow> target \<Rightarrow> port_result list \<Rightarrow> ('x, 't) os_scheduler \<Rightarrow> status_code \<times> ('x, 't) os_scheduler" where
  "os_submit env target rs s =
     (if oss_submitted s then (InvalidArgument, s)
      else
        let s1 = s\<lparr>oss_submitted := True, oss_target := os_target_name target\<rparr>;
            engine_status = eng_init_status (oss_engine s1); database_status = od_status (oss_database s1) in
        if engine_status \<noteq> Ok then os_reject env engine_status OsFailed (os_error_for_status engine_status) s1
        else if database_status \<noteq> Ok then os_reject env database_status OsFailed (os_error_for_status database_status) s1
        else
          let family = os_target_family (map (family_for_host (oe_libc env)) (resolved_hosts target)) None;
              s2 = s1\<lparr>oss_target_family := family, oss_observed := Some (new_fingerprint\<lparr>of_family := family\<rparr>)\<rparr>;
              cfg = oss_config s2 in
          if osc_max_outstanding cfg = 0 \<or> osc_timeout cfg \<le> 0 \<or> osc_probe_port cfg = 0 \<or> osc_max_results cfg = 0
            \<or> (case oss_timing s2 of None \<Rightarrow> False | Some t \<Rightarrow> tc_validate t \<noteq> Ok)
          then os_reject env InvalidArgument OsFailed OseInvalidTarget s2
          else
            let s3 = s2\<lparr>oss_queue := oss_queue s2 @ os_work_for cfg target rs\<rparr> in
            if oss_queue s3 = [] then os_reject env NotFound OsUnavailable OseNoUsablePort s3
            else let s4 = os_finish_terminal env (os_pump env s3) in (oss_status s4, s4))"

section \<open>On the reactor\<close>

fun os_handle :: "('x, 't) os_env \<Rightarrow> 'x sched_callback \<Rightarrow> ('x, 't) os_scheduler \<Rightarrow> ('x, 't) os_scheduler" where
  "os_handle env (OnTimeout i) s = os_on_timeout env i s"
| "os_handle env (OnRetryReady i) s = s"
| "os_handle env (TransportEvent x) s =
     (case oe_event env x (oss_engine s, oss_transport s) of (answers, e, t) \<Rightarrow>
       fold (os_receive env) answers (s\<lparr>oss_engine := e, oss_transport := t\<rparr>))"

definition os_embedding :: "('x, 't) os_env \<Rightarrow> (('x, 't) os_scheduler, 'x sched_callback) embedding" where
  "os_embedding env =
     \<lparr>get_engine = oss_engine, put_engine = (\<lambda>e s. s\<lparr>oss_engine := e\<rparr>), read_clock = os_now env,
      call = os_handle env\<rparr>"

interpretation os_host: engine_host "os_embedding env" for env
  by unfold_locales (simp_all add: os_embedding_def os_now_def)

text \<open>What \<open>run\<close> and \<open>run_once\<close> do after the engine has returned.\<close>

definition os_ran ::
  "('x, 't) os_env \<Rightarrow> status_code \<Rightarrow> ('x, 't) os_scheduler \<Rightarrow> status_code \<times> ('x, 't) os_scheduler" where
  "os_ran env st s =
     (let s1 = os_finish_terminal env (if oss_status s = Ok \<and> st \<noteq> Ok then s\<lparr>oss_status := st\<rparr> else s)
      in (oss_status s1, s1))"

definition os_run ::
  "('x, 't) os_env \<Rightarrow> poll list \<Rightarrow> ('x, 't) os_scheduler \<Rightarrow> (status_code \<times> ('x, 't) os_scheduler) option" where
  "os_run env polls s =
     (if \<not> oss_submitted s then Some (InvalidArgument, s)
      else map_option (\<lambda>(st, s1). os_ran env st s1) (engine_run (os_embedding env) polls s))"

definition os_run_once ::
  "('x, 't) os_env \<Rightarrow> poll \<Rightarrow> ('x, 't) os_scheduler \<Rightarrow> (status_code \<times> ('x, 't) os_scheduler) option" where
  "os_run_once env p s =
     (if \<not> oss_submitted s then Some (InvalidArgument, s)
      else map_option (\<lambda>(st, s1). os_ran env st s1) (engine_run_once (os_embedding env) p s))"

definition os_cancel_all :: "('x, 't) os_env \<Rightarrow> ('x, 't) os_scheduler \<Rightarrow> ('x, 't) os_scheduler" where
  "os_cancel_all env s =
     (fold (\<lambda>(i, p) s. os_cancel_probe env i (os_cancel_timer (ofl_timer p) s)) (oss_pending s) s)\<lparr>oss_pending := []\<rparr>"

definition os_stop :: "('x, 't) os_env \<Rightarrow> ('x, 't) os_scheduler \<Rightarrow> ('x, 't) os_scheduler" where
  "os_stop env s =
     (let s1 = (os_cancel_all env s)\<lparr>oss_queue := []\<rparr>;
          s2 = (if oss_submitted s1 \<and> oss_result s1 = None then os_emit env OsPartial OseNone s1 else s1)
      in s2\<lparr>oss_engine := engine_stop (oss_engine s2)\<rparr>)"

end
