(* ===== verification/Os_Runs.thy ===== *)
theory Os_Runs
  imports Os_Scheduler
begin

text \<open>
  Steps and runs of operating system detection: the locale \<open>os_invariant\<close> says what a property has to
  survive to hold throughout, and is interpreted on the books of a detection and, for a transport
  that keeps its hands off the scheduler's timers (\<open>os_transport\<close>), on the timers and the stop request.
\<close>

section \<open>Steps\<close>

inductive os_step :: "('x, 't) os_env \<Rightarrow> bool \<Rightarrow> ('x, 't) os_scheduler \<Rightarrow> ('x, 't) os_scheduler \<Rightarrow> bool" for env where
  response: "os_step env False s (os_receive env r s)"
| timeout: "dispatch_turn now (oss_engine s) = TurnFires (OnTimeout i) e \<Longrightarrow>
    os_step env True s (os_on_timeout env i (s\<lparr>oss_engine := e\<rparr>))"
| other_timer: "dispatch_turn now (oss_engine s) = TurnFires cb e \<Longrightarrow> (\<And>i. cb \<noteq> OnTimeout i) \<Longrightarrow>
    os_step env False s (s\<lparr>oss_engine := e\<rparr>)"
| transport_event: "oe_event env x (oss_engine s, oss_transport s) = (answers, e, t) \<Longrightarrow>
    os_step env False s (s\<lparr>oss_engine := e, oss_transport := t\<rparr>)"
| engine: "timers_kept (oss_engine s) e \<Longrightarrow> os_step env False s (s\<lparr>oss_engine := e\<rparr>)"
| clock: "os_step env False s (s\<lparr>oss_reads := n\<rparr>)"

inductive os_steps :: "('x, 't) os_env \<Rightarrow> nat \<Rightarrow> ('x, 't) os_scheduler \<Rightarrow> ('x, 't) os_scheduler \<Rightarrow> bool" for env where
  start: "os_steps env 0 s s"
| step: "os_steps env n s s' \<Longrightarrow> os_step env fired s' s'' \<Longrightarrow> os_steps env (if fired then Suc n else n) s s''"

text \<open>The state in which an assessed response is counted and its probe ended.\<close>

definition os_answered ::
  "('x, 't) os_env \<Rightarrow> os_response \<Rightarrow> os_assessment \<Rightarrow> os_flight \<Rightarrow> ('x, 't) os_scheduler \<Rightarrow> ('x, 't) os_scheduler" where
  "os_answered env r a p s =
     (case os_received_time env r (os_counted env a s) of (received, s1) \<Rightarrow> os_finished env p received s1)"

lemma os_receive_cases:
  obtains "os_receive env r s = s"
  | p a where "map_of (oss_pending s) (or_id r) = Some p" "os_assess (oe_libc env) r (ofl_submission p) = Parsed a"
      "oa_disposition a \<noteq> OsUnrelated" "os_receive env r s = os_pump env (os_answered env r a p s)"
proof (cases "os_receive env r s = s")
  case False
  then show thesis
    using that(2) by (auto simp: os_receive_def os_answered_def split: option.splits parsed.splits if_splits prod.splits)
qed (rule that(1))

lemma os_start_config [simp]: "oss_config (os_start env w s) = oss_config s"
  by (simp add: os_start_def os_launch_def os_schedule_def os_now_def os_cancel_timer_def os_erase_pending_def
      os_update_timing_def Let_def split: prod.splits)

section \<open>What an invariant has to survive\<close>

locale os_invariant =
  fixes env :: "('x, 't) os_env" and inv :: "('x, 't) os_scheduler \<Rightarrow> bool"
  assumes inv_clock: "inv s \<Longrightarrow> inv (s\<lparr>oss_reads := n\<rparr>)"
    and inv_engine: "inv s \<Longrightarrow> timers_kept (oss_engine s) e \<Longrightarrow> inv (s\<lparr>oss_engine := e\<rparr>)"
    and inv_other: "inv s \<Longrightarrow> dispatch_turn now (oss_engine s) = TurnFires cb e \<Longrightarrow> (\<And>i. cb \<noteq> OnTimeout i) \<Longrightarrow>
      inv (s\<lparr>oss_engine := e\<rparr>)"
    and inv_event: "inv s \<Longrightarrow> oe_event env x (oss_engine s, oss_transport s) = (answers, e, t) \<Longrightarrow>
      inv (s\<lparr>oss_engine := e, oss_transport := t\<rparr>)"
    and inv_finish: "inv s \<Longrightarrow> inv (os_finish_terminal env s)"
    and inv_max: "inv s \<Longrightarrow> 0 < osc_max_outstanding (oss_config s)"
    and inv_turn: "inv s \<Longrightarrow> oss_queue s = w # rest \<Longrightarrow> oss_status s = Ok \<Longrightarrow>
      length (oss_pending s) < osc_max_outstanding (oss_config s) \<Longrightarrow> inv (os_start env w (s\<lparr>oss_queue := rest\<rparr>))"
    and inv_answered: "inv s \<Longrightarrow> map_of (oss_pending s) (or_id r) = Some p \<Longrightarrow> oa_disposition a \<noteq> OsUnrelated \<Longrightarrow>
      inv (os_answered env r a p s)"
    and inv_expired: "inv s \<Longrightarrow> dispatch_turn now (oss_engine s) = TurnFires (OnTimeout i) e \<Longrightarrow>
      map_of (oss_pending s) i = Some p \<Longrightarrow> inv (os_expired env i p (s\<lparr>oss_engine := e\<rparr>))"
    and inv_late: "inv s \<Longrightarrow> dispatch_turn now (oss_engine s) = TurnFires (OnTimeout i) e \<Longrightarrow>
      map_of (oss_pending s) i = None \<Longrightarrow> inv (s\<lparr>oss_engine := e\<rparr>)"
begin

lemma pump_loop_inv: "inv s \<Longrightarrow> limit \<le> osc_max_outstanding (oss_config s) \<Longrightarrow> inv (os_pump_loop env limit s)"
proof (induction "length (oss_queue s)" arbitrary: s rule: less_induct)
  case less
  show ?case
  proof (cases "oss_queue s")
    case (Cons w rest)
    then show ?thesis
      using less.hyps [of "os_start env w (s\<lparr>oss_queue := rest\<rparr>)"] inv_turn [OF less.prems(1) Cons] less.prems
      by (simp add: os_pump_loop.simps [of env limit s])
  qed (use less.prems in \<open>simp add: os_pump_loop.simps [of env limit s]\<close>)
qed

lemma pump_inv: "inv s \<Longrightarrow> inv (os_pump env s)"
  unfolding os_pump_def using inv_max [of s]
  by (intro inv_finish pump_loop_inv) (auto simp: os_pump_limit_def tc_parallelism_limit_def split: option.splits)

lemma receive_inv: "inv s \<Longrightarrow> inv (os_receive env r s)"
  by (rule os_receive_cases [of env r s]) (auto intro: pump_inv inv_answered)

lemma step_inv: "os_step env fired s s' \<Longrightarrow> inv s \<Longrightarrow> inv s'"
proof (induction rule: os_step.induct)
  case (timeout now s i e)
  show ?case
  proof (cases "map_of (oss_pending s) i")
    case None
    then show ?thesis using inv_late [OF timeout(2,1)] by (simp add: os_on_timeout_def)
  next
    case (Some p)
    then show ?thesis using inv_expired [OF timeout(2,1)] by (simp add: os_on_timeout_def pump_inv)
  qed
qed (auto intro: receive_inv inv_other inv_event inv_engine inv_clock)

lemma steps_inv: "os_steps env n s s' \<Longrightarrow> inv s \<Longrightarrow> inv s'"
  by (induction rule: os_steps.induct) (auto intro: step_inv)

end

section \<open>What sending one probe does\<close>

lemma os_build_identity:
  "os_build lc now t i h cfg s0 = (Ok, s) \<Longrightarrow> os_id s = i \<and> os_type s = t"
  by (auto simp: os_build_def os_build_echo_def os_build_udp_def os_build_tcp_def os_submission_for_def Let_def
      new_os_submission_def split: if_splits option.splits prod.splits)

text \<open>The fields no turn of the pump touches.\<close>

definition os_kept :: "('x, 't) os_scheduler \<Rightarrow> ('x, 't) os_scheduler \<Rightarrow> bool" where
  "os_kept s s' \<longleftrightarrow>
     oss_config s' = oss_config s \<and> oss_queue s' = oss_queue s \<and> oss_submitted s' = oss_submitted s \<and>
     oss_completed_ids s' = oss_completed_ids s \<and> oss_expired_ids s' = oss_expired_ids s \<and>
     oss_result s' = oss_result s \<and> oss_responses s' = oss_responses s \<and> oss_timeouts s' = oss_timeouts s"

lemma os_startE [case_names ended sent]:
  assumes "oss_status s = Ok" and "map_of (oss_pending s) (oss_next_id s) = None"
  obtains (ended) s' where "os_start env w s = s'" "os_kept s s'" "oss_pending s' = oss_pending s"
      "oss_timing s' = oss_timing s" "oss_next_id s' = oss_next_id s \<or> oss_next_id s' = oss_next_id s + 1"
      "oss_unsupported s' + oss_malformed s' \<le> Suc (oss_unsupported s + oss_malformed s)"
      "oss_status s' = Ok \<longrightarrow> oss_unsupported s' + oss_malformed s' = Suc (oss_unsupported s + oss_malformed s) \<and>
         oss_generated s' = oss_generated s \<and> oss_sent s' = oss_sent s"
      "oss_engine s' = oss_engine s \<or>
        (\<exists>now d tid e sub st e2 t. engine_schedule now d (OnTimeout (oss_next_id s)) (oss_engine s) = (tid, e) \<and> tid \<noteq> 0 \<and>
           oe_submit env sub (e, oss_transport s) = (st, e2, t) \<and> oss_engine s' = engine_cancel tid e2)"
  | (sent) s' p now d e where "os_start env w s = s'" "os_kept s s'" "oss_status s' = Ok"
      "oss_pending s' = (oss_next_id s, p) # oss_pending s" "oss_next_id s' = oss_next_id s + 1"
      "ofl_work p = w" "os_id (ofl_submission p) = oss_next_id s" "os_type (ofl_submission p) = ow_type w"
      "oss_timing s' = map_option (tc_on_submitted (Suc (length (oss_pending s)))) (oss_timing s)"
      "oss_unsupported s' = oss_unsupported s" "oss_malformed s' = oss_malformed s"
      "oss_generated s' = Suc (oss_generated s)" "oss_sent s' = Suc (oss_sent s)"
      "engine_schedule now d (OnTimeout (oss_next_id s)) (oss_engine s) = (ofl_timer p, e)" "ofl_timer p \<noteq> 0"
      "oe_submit env (ofl_submission p) (e, oss_transport s) = (Ok, oss_engine s', oss_transport s')"
proof (cases "oe_supports env (oss_transport s) (ow_type w)")
  case False
  show thesis by (rule ended [OF refl]) (simp_all add: os_start_def False os_kept_def assms(1))
next
  case supported: True
  let ?i = "oss_next_id s"
  let ?s1 = "s\<lparr>oss_next_id := ?i + 1, oss_reads := Suc (oss_reads s)\<rparr>"
  let ?now = "oe_clock env (oss_reads s)"
  obtain st sub where b: "os_build (oe_libc env) ?now (ow_type w) ?i (ow_host w) (os_probe_config_for env w ?s1)
      new_os_submission = (st, sub)" by fastforce
  show thesis
  proof (cases "st = Ok")
    case False
    show thesis by (rule ended [OF refl]) (use supported b False assms(1) in \<open>simp_all add: os_start_def os_now_def Let_def os_kept_def\<close>)
  next
    case built: True
    let ?s2 = "os_note env OsGenerated (?s1\<lparr>oss_generated := Suc (oss_generated s)\<rparr>)"
    let ?sent = "oe_clock env (oss_reads ?s2)"
    let ?s3 = "?s2\<lparr>oss_reads := Suc (oss_reads ?s2)\<rparr>"
    let ?delay = "os_probe_timeout ?s3 * ns_per_ms"
    have start: "os_start env w s = os_launch env w ?i sub ?s2"
      using supported b built by (simp add: os_start_def os_now_def Let_def)
    obtain tid e where sch: "engine_schedule (oe_clock env (Suc (oss_reads ?s2))) ?delay (OnTimeout ?i) (oss_engine s) = (tid, e)"
      by fastforce
    let ?s4 = "?s3\<lparr>oss_reads := Suc (oss_reads ?s3), oss_engine := e\<rparr>"
    have sched: "os_schedule env (os_probe_timeout ?s3) (OnTimeout ?i) ?s3 = (tid, ?s4)"
      using sch by (simp add: os_schedule_def os_now_def)
    show thesis
    proof (cases "tid = 0")
      case True
      then have e: "e = oss_engine s" using sch by (intro schedule_refused) simp
      show thesis
        by (rule ended [OF refl]) (use True sched start e in \<open>simp_all add: os_launch_def os_now_def os_kept_def\<close>)
    next
      case False
      let ?sub = "sub\<lparr>os_status := OsSent\<rparr>"
      let ?p = "\<lparr>ofl_work = w, ofl_submission = ?sub, ofl_sent_at = ?sent, ofl_timer = tid\<rparr>"
      have ins: "map_emplace ?i ?p (oss_pending ?s4) = ((?i, ?p) # oss_pending s, True)"
        using assms(2) by (simp add: map_emplace_def map_has_def)
      obtain st' e2 t where sb: "oe_submit env ?sub (e, oss_transport s) = (st', e2, t)" by (metis prod_cases3)
      show thesis
      proof (cases "st' = Ok")
        case refused: False
        have gone: "map_erase ?i ((?i, ?p) # oss_pending s) = oss_pending s"
          using map_erase_absent [OF assms(2)] by (simp add: map_erase_def)
        show thesis
          by (rule ended [OF refl])
            (use refused False sched start ins sb sch gone in
              \<open>simp_all add: os_launch_def os_now_def os_kept_def Let_def os_erase_pending_def os_cancel_timer_def\<close>, blast)
      next
        case True
        have "os_id sub = ?i \<and> os_type sub = ow_type w" using os_build_identity b built by blast
        then show thesis
          by (intro sent [OF refl, where p = ?p])
            (use True False sched start ins sb sch assms(1) in
              \<open>simp_all add: os_launch_def os_now_def os_kept_def Let_def os_update_timing_def\<close>)
      qed
    qed
  qed
qed

section \<open>The books of a detection\<close>

text \<open>
  With at most \<open>R\<close> retries a piece of work has as many attempts left as its count of retries says; a
  probe in flight has used one of its own. The identifiers still needed are one for each attempt not
  yet begun, the timers that may still fire one for each attempt not yet ended.
\<close>

definition os_attempts :: "nat \<Rightarrow> os_work \<Rightarrow> nat" where
  "os_attempts R w = Suc R - ow_retry_count w"

definition os_budget :: "nat \<Rightarrow> ('x, 't) os_scheduler \<Rightarrow> nat" where
  "os_budget R s =
     (\<Sum>w\<in>#mset (oss_queue s). os_attempts R w) + (\<Sum>e\<in>#mset (oss_pending s). os_attempts R (ofl_work (snd e)))"

definition os_need :: "nat \<Rightarrow> ('x, 't) os_scheduler \<Rightarrow> nat" where
  "os_need R s =
     (\<Sum>w\<in>#mset (oss_queue s). os_attempts R w) + (\<Sum>e\<in>#mset (oss_pending s). os_attempts R (ofl_work (snd e)) - 1)"

text \<open>Of the \<open>T\<close> probes asked for, \<open>k\<close> were given up after a timeout.\<close>

definition os_counts :: "nat \<Rightarrow> nat \<Rightarrow> ('x, 't) os_scheduler \<Rightarrow> bool" where
  "os_counts R T s \<longleftrightarrow>
     (\<exists>k. k \<le> oss_timeouts s \<and> (R = 0 \<longrightarrow> k = oss_timeouts s) \<and>
       length (oss_queue s) + length (oss_pending s) + oss_responses s + oss_malformed s + oss_unsupported s + k \<le> T \<and>
       (oss_status s = Ok \<longrightarrow>
         length (oss_queue s) + length (oss_pending s) + oss_responses s + oss_malformed s + oss_unsupported s + k = T))"

definition os_ids_ok :: "('x, 't) os_scheduler \<Rightarrow> bool" where
  "os_ids_ok s \<longleftrightarrow>
     map_ok (oss_pending s) \<and> 1 \<le> unat (oss_next_id s) \<and>
     (\<forall>i\<in>fst ` set (oss_pending s) \<union> oss_completed_ids s \<union> oss_expired_ids s. unat i < unat (oss_next_id s)) \<and>
     fst ` set (oss_pending s) \<inter> (oss_completed_ids s \<union> oss_expired_ids s) = {}"

definition os_timing_ok :: "nat \<Rightarrow> timing_controller option \<Rightarrow> bool" where
  "os_timing_ok R timing \<longleftrightarrow>
     (case timing of None \<Rightarrow> R = 0 | Some t \<Rightarrow> tc_inv t \<and> tp_max_retries (tc_profile t) = R)"

definition os_flight_ok :: "nat \<Rightarrow> u64 \<times> os_flight \<Rightarrow> bool" where
  "os_flight_ok R e \<longleftrightarrow> ow_retry_count (ofl_work (snd e)) \<le> R \<and> os_id (ofl_submission (snd e)) = fst e"

definition os_books ::
  "os_scheduler_config \<Rightarrow> nat \<Rightarrow> nat \<Rightarrow> nat \<Rightarrow> ('x, 't) os_scheduler \<Rightarrow> bool" where
  "os_books cfg R T n s \<longleftrightarrow>
     oss_config s = cfg \<and> 0 < osc_max_outstanding cfg \<and> oss_submitted s \<and>
     list_all (\<lambda>w. ow_retry_count w \<le> R) (oss_queue s) \<and> list_all (os_flight_ok R) (oss_pending s) \<and>
     os_timing_ok R (oss_timing s) \<and> os_ids_ok s \<and> unat (oss_next_id s) + os_need R s < 2 ^ 64 \<and>
     os_counts R T s \<and> length (oss_pending s) \<le> osc_max_outstanding cfg \<and> os_budget R s \<le> n"

lemma os_books_outside [simp]:
  "os_books cfg R T n (s\<lparr>oss_engine := e\<rparr>) = os_books cfg R T n s"
  "os_books cfg R T n (s\<lparr>oss_transport := t\<rparr>) = os_books cfg R T n s"
  "os_books cfg R T n (s\<lparr>oss_reads := m\<rparr>) = os_books cfg R T n s"
  "os_books cfg R T n (s\<lparr>oss_observed := f\<rparr>) = os_books cfg R T n s"
  "os_books cfg R T n (s\<lparr>oss_result := r\<rparr>) = os_books cfg R T n s"
  "os_books cfg R T n (s\<lparr>oss_rtt_sum := x\<rparr>) = os_books cfg R T n s"
  "os_books cfg R T n (s\<lparr>oss_rtt_count := m\<rparr>) = os_books cfg R T n s"
  by (simp_all add: os_books_def os_counts_def os_ids_ok_def os_budget_def os_need_def)

lemma os_timing_ok_updates:
  assumes "os_timing_ok R timing"
  shows "os_timing_ok R (map_option (tc_on_submitted m) timing)" "os_timing_ok R (map_option tc_on_timeout timing)"
    "os_timing_ok R (map_option (tc_on_response x) timing)" "os_timing_ok R (map_option (tc_update_metrics f) timing)"
  using assms
  by (cases timing; simp add: os_timing_ok_def tc_inv_submitted tc_inv_timeout tc_inv_response tc_inv_metrics;
      simp add: tc_on_submitted_def tc_on_timeout_def tc_on_response_def tc_update_metrics_def Let_def)+

lemma os_books_taken:
  assumes "os_books cfg R T n s" and "oss_queue s = w # rest" and "oss_status s = Ok"
    and "length (oss_pending s) < osc_max_outstanding cfg"
  shows "os_books cfg R T n (os_start env w (s\<lparr>oss_queue := rest\<rparr>))"
proof -
  let ?s = "s\<lparr>oss_queue := rest\<rparr>"
  have ids: "os_ids_ok s" and need: "unat (oss_next_id s) + os_need R s < 2 ^ 64" and rc: "ow_retry_count w \<le> R"
    using assms(1,2) by (simp_all add: os_books_def)
  have fresh: "map_of (oss_pending ?s) (oss_next_id ?s) = None"
    using ids by (force simp: os_ids_ok_def map_of_eq_None_iff)
  have some: "os_attempts R w = Suc (os_attempts R w - 1)" using rc by (simp add: os_attempts_def)
  have "unat (oss_next_id s) + 1 < 2 ^ 64" using need some assms(2) by (simp add: os_need_def)
  then have next_id: "unat (oss_next_id s + 1) = Suc (unat (oss_next_id s))" by (simp add: unat_word_ariths)
  obtain k where k: "k \<le> oss_timeouts s" "R = 0 \<longrightarrow> k = oss_timeouts s"
    "length (oss_queue s) + length (oss_pending s) + oss_responses s + oss_malformed s + oss_unsupported s + k = T"
    using assms(1,3) by (auto simp: os_books_def os_counts_def)
  have "oss_status ?s = Ok" using assms(3) by simp
  then show ?thesis using fresh
  proof (cases rule: os_startE [where env = env and w = w])
    case (ended s')
    have id_le: "unat (oss_next_id s) \<le> unat (oss_next_id s')" "unat (oss_next_id s') \<le> Suc (unat (oss_next_id s))"
      using ended(5) next_id by auto
    have "os_counts R T s'"
      unfolding os_counts_def using k ended assms(2) by (intro exI [of _ k]) (auto simp: os_kept_def)
    moreover have "os_ids_ok s'" using ids ended id_le unfolding os_ids_ok_def os_kept_def
      by (auto intro: less_le_trans)
    moreover have "unat (oss_next_id s') + os_need R s' < 2 ^ 64" "os_budget R s' \<le> n"
      using need some id_le assms(1,2) ended by (simp_all add: os_need_def os_budget_def os_kept_def os_books_def)
    ultimately show ?thesis using assms(1,2) ended by (simp add: os_books_def os_kept_def)
  next
    case (sent s' p now d e)
    have "os_counts R T s'"
      unfolding os_counts_def using k sent assms(2) by (intro exI [of _ k]) (auto simp: os_kept_def)
    moreover have "os_ids_ok s'" using ids sent next_id fresh unfolding os_ids_ok_def os_kept_def
      by (auto simp: map_of_eq_None_iff less_Suc_eq)
    moreover have "unat (oss_next_id s') + os_need R s' < 2 ^ 64" "os_budget R s' \<le> n"
      using need some next_id assms(1,2) sent by (simp_all add: os_need_def os_budget_def os_kept_def os_books_def)
    moreover have "os_flight_ok R (oss_next_id s, p)" using sent rc by (simp add: os_flight_ok_def)
    ultimately show ?thesis
      using assms(1,2,4) sent by (simp add: os_books_def os_kept_def os_timing_ok_updates)
  qed
qed

lemma os_emit_books [simp]: "os_books cfg R T n (os_emit env st err s) = os_books cfg R T n s"
  by (simp add: os_emit_def os_now_def Let_def)

lemma os_finish_terminal_books [simp]: "os_books cfg R T n (os_finish_terminal env s) = os_books cfg R T n s"
  by (simp add: os_finish_terminal_def Let_def split: prod.splits)

lemma os_books_mono: "os_books cfg R T n s \<Longrightarrow> n \<le> m \<Longrightarrow> os_books cfg R T m s"
  by (auto simp: os_books_def)

text \<open>A probe leaves the flight: what becomes of the sums.\<close>

lemma os_left:
  assumes "os_books cfg R T n s" and "map_of (oss_pending s) i = Some p"
  defines "left \<equiv> map_erase i (oss_pending s)"
  shows "length (oss_pending s) = Suc (length left)" and "os_flight_ok R (i, p)"
    and "(\<Sum>e\<in>#mset (oss_pending s). f (snd e)) = f p + (\<Sum>e\<in>#mset left. f (snd e))"
    and "map_ok left" and "set left \<subseteq> set (oss_pending s)" and "i \<in> fst ` set (oss_pending s)"
    and "fst ` set left = fst ` set (oss_pending s) - {i}"
    and "i \<notin> oss_completed_ids s" and "i \<notin> oss_expired_ids s"
proof -
  have ok: "map_ok (oss_pending s)" and apart: "fst ` set (oss_pending s) \<inter> (oss_completed_ids s \<union> oss_expired_ids s) = {}"
    using assms(1) by (simp_all add: os_books_def os_ids_ok_def)
  note m = mset_map_erase [OF ok assms(2)]
  show "length (oss_pending s) = Suc (length left)" unfolding left_def by (rule length_map_erase [OF ok assms(2)])
  show "os_flight_ok R (i, p)" using assms(1) map_of_SomeD [OF assms(2)] by (auto simp: os_books_def list_all_iff)
  show "(\<Sum>e\<in>#mset (oss_pending s). f (snd e)) = f p + (\<Sum>e\<in>#mset left. f (snd e))"
    unfolding m left_def by simp
  show "map_ok left" unfolding left_def by (rule map_ok_erase [OF ok])
  show "set left \<subseteq> set (oss_pending s)" "fst ` set left = fst ` set (oss_pending s) - {i}"
    by (auto simp: left_def map_erase_def)
  show i: "i \<in> fst ` set (oss_pending s)" using map_of_SomeD [OF assms(2)] by force
  show "i \<notin> oss_completed_ids s" "i \<notin> oss_expired_ids s" using i apart by auto
qed

lemma os_append_observation_books [simp]:
  "os_books cfg R T n (os_append_observation env a s) = os_books cfg R T n s"
  by (simp add: os_append_observation_def os_append_def os_now_def Let_def split: option.splits)

lemma os_append_observation_kept [simp]:
  "oss_pending (os_append_observation env a s) = oss_pending s" "oss_queue (os_append_observation env a s) = oss_queue s"
  "oss_engine (os_append_observation env a s) = oss_engine s" "oss_result (os_append_observation env a s) = oss_result s"
  "oss_submitted (os_append_observation env a s) = oss_submitted s" "oss_config (os_append_observation env a s) = oss_config s"
  "oss_timing (os_append_observation env a s) = oss_timing s" "oss_next_id (os_append_observation env a s) = oss_next_id s"
  "oss_completed_ids (os_append_observation env a s) = oss_completed_ids s"
  "oss_expired_ids (os_append_observation env a s) = oss_expired_ids s"
  "oss_responses (os_append_observation env a s) = oss_responses s" "oss_timeouts (os_append_observation env a s) = oss_timeouts s"
  "oss_malformed (os_append_observation env a s) = oss_malformed s"
  "oss_unsupported (os_append_observation env a s) = oss_unsupported s"
  "oss_status (os_append_observation env a s) = oss_status s" "oss_transport (os_append_observation env a s) = oss_transport s"
  by (simp_all add: os_append_observation_def os_append_def os_now_def Let_def split: option.splits)

text \<open>The fields of the state in which an answered probe has ended.\<close>

lemma os_answered_fields:
  fixes env :: "('x, 't) os_env"
  assumes "oa_disposition a \<noteq> OsUnrelated" and "os_id (ofl_submission p) = i"
  obtains s' where "os_answered env r a p s = s'" "oss_pending s' = map_erase i (oss_pending s)" "oss_queue s' = oss_queue s"
    "oss_config s' = oss_config s" "oss_submitted s' = oss_submitted s" "oss_status s' = oss_status s"
    "oss_completed_ids s' = insert i (oss_completed_ids s)" "oss_expired_ids s' = oss_expired_ids s"
    "oss_next_id s' = oss_next_id s" "oss_result s' = oss_result s" "oss_timeouts s' = oss_timeouts s"
    "oss_responses s' + oss_malformed s' = Suc (oss_responses s + oss_malformed s)"
    "oss_unsupported s' = oss_unsupported s"
    "\<exists>m g. oss_timing s' = map_option (tc_update_metrics g) (map_option (tc_on_response m) (oss_timing s))"
    "(oss_engine s', oss_transport s') = oe_cancel env i (engine_cancel (ofl_timer p) (oss_engine s), oss_transport s)"
proof -
  obtain e t where c: "oe_cancel env i (engine_cancel (ofl_timer p) (oss_engine s), oss_transport s) = (e, t)" by fastforce
  have d: "oa_disposition a = OsMalformedReply \<or> oa_disposition a = OsMatching" using assms(1) by (cases "oa_disposition a") auto
  obtain received s1 where t: "os_received_time env r (os_counted env a s) = (received, s1)" by fastforce
  then have s1: "s1 = os_counted env a s \<or> s1 = (os_counted env a s)\<lparr>oss_reads := Suc (oss_reads (os_counted env a s))\<rparr>"
    by (auto simp: os_received_time_def os_now_def split: if_splits)
  show thesis
    by (rule that [OF refl])
      (use assms(2) c t s1 d in \<open>auto simp: os_answered_def os_finished_def os_counted_def os_erase_pending_def
        os_set_parallelism_def os_update_timing_def os_cancel_probe_def os_cancel_timer_def Let_def\<close>, blast+)
qed

lemma os_books_answered:
  assumes "os_books cfg R T n s" and "map_of (oss_pending s) i = Some p" and "oa_disposition a \<noteq> OsUnrelated"
  shows "os_books cfg R T n (os_answered env r a p s)"
proof -
  note left = os_left [OF assms(1,2)]
  have i: "os_id (ofl_submission p) = i" using left(2) by (simp add: os_flight_ok_def)
  obtain s' where s': "os_answered env r a p s = s'" "oss_pending s' = map_erase i (oss_pending s)" "oss_queue s' = oss_queue s"
    "oss_config s' = oss_config s" "oss_submitted s' = oss_submitted s" "oss_status s' = oss_status s"
    "oss_completed_ids s' = insert i (oss_completed_ids s)" "oss_expired_ids s' = oss_expired_ids s"
    "oss_next_id s' = oss_next_id s" "oss_result s' = oss_result s" "oss_timeouts s' = oss_timeouts s"
    "oss_responses s' + oss_malformed s' = Suc (oss_responses s + oss_malformed s)"
    "oss_unsupported s' = oss_unsupported s"
    "\<exists>m g. oss_timing s' = map_option (tc_update_metrics g) (map_option (tc_on_response m) (oss_timing s))"
    "(oss_engine s', oss_transport s') = oe_cancel env i (engine_cancel (ofl_timer p) (oss_engine s), oss_transport s)"
    by (rule os_answered_fields [OF assms(3) i])
  have "os_counts R T s'" using assms(1) left(1) s'(2,3,6,11-13) unfolding os_books_def os_counts_def by auto
  moreover have "os_ids_ok s'" using assms(1) left(4,6,7) s'(2,7-9) by (auto simp: os_books_def os_ids_ok_def)
  moreover have "os_need R s' \<le> os_need R s" "os_budget R s' \<le> os_budget R s"
    using left(3) [of "\<lambda>p. os_attempts R (ofl_work p) - 1"] left(3) [of "\<lambda>p. os_attempts R (ofl_work p)"] s'(2,3)
    by (simp_all add: os_need_def os_budget_def)
  moreover have "os_timing_ok R (oss_timing s')"
    using assms(1) s'(14) os_timing_ok_updates by (fastforce simp: os_books_def)
  moreover have "list_all (os_flight_ok R) (oss_pending s')"
    using assms(1) left(5) s'(2) by (auto simp: os_books_def list_all_iff)
  ultimately show ?thesis using assms(1) left(1) s' by (simp add: os_books_def)
qed

text \<open>And of the one in which a probe has timed out.\<close>

lemma os_expired_fields:
  fixes env :: "('x, 't) os_env"
  obtains s' where "os_expired env i p s = s'" "oss_pending s' = map_erase i (oss_pending s)"
    "oss_config s' = oss_config s" "oss_submitted s' = oss_submitted s" "oss_status s' = oss_status s"
    "oss_completed_ids s' = oss_completed_ids s" "oss_expired_ids s' = insert i (oss_expired_ids s)"
    "oss_next_id s' = oss_next_id s" "oss_result s' = oss_result s" "oss_timeouts s' = Suc (oss_timeouts s)"
    "oss_responses s' = oss_responses s" "oss_malformed s' = oss_malformed s" "oss_unsupported s' = oss_unsupported s"
    "(oss_engine s', oss_transport s') = oe_cancel env i (oss_engine s, oss_transport s)"
    "\<exists>g h. oss_timing s' = map_option (tc_update_metrics g) (map_option (tc_update_metrics h) (map_option tc_on_timeout (oss_timing s)))
       \<or> oss_timing s' = map_option (tc_update_metrics g) (map_option tc_on_timeout (oss_timing s))"
    "oss_queue s' = oss_queue s \<or> oss_queue s' = (ofl_work p)\<lparr>ow_retry_count := Suc (ow_retry_count (ofl_work p))\<rparr> # oss_queue s"
    "oss_queue s' \<noteq> oss_queue s \<longleftrightarrow> (\<exists>t. oss_timing s = Some t \<and> ow_retry_count (ofl_work p) < tp_max_retries (tc_profile t))"
proof -
  obtain e t where c: "oe_cancel env i (oss_engine s, oss_transport s) = (e, t)" by fastforce
  have profile: "tc_profile (tc_on_timeout t) = tc_profile t" for t by (simp add: tc_on_timeout_def Let_def)
  show thesis
    by (rule that [OF refl])
      (use c in \<open>auto simp: os_expired_def os_erase_pending_def os_cancel_probe_def os_update_timing_def os_set_parallelism_def
        os_retry_def os_retries_def tc_should_retry_def profile Let_def split: option.splits\<close>)
qed

lemma os_books_expired:
  assumes "os_books cfg R T n s" and "map_of (oss_pending s) i = Some p"
  shows "os_books cfg R T (n - 1) (os_expired env i p s)" and "0 < n"
proof -
  note left = os_left [OF assms(1,2)]
  let ?w = "ofl_work p"
  have rc: "ow_retry_count ?w \<le> R" using left(2) by (simp add: os_flight_ok_def)
  note need = left(3) [of "\<lambda>p. os_attempts R (ofl_work p) - 1"] and budget = left(3) [of "\<lambda>p. os_attempts R (ofl_work p)"]
  have some: "0 < os_attempts R ?w" using rc by (simp add: os_attempts_def)
  have "os_budget R s \<le> n" using assms(1) by (simp add: os_books_def)
  then show "0 < n" using budget some by (simp add: os_budget_def)
  obtain s' where s': "os_expired env i p s = s'" "oss_pending s' = map_erase i (oss_pending s)"
    "oss_config s' = oss_config s" "oss_submitted s' = oss_submitted s" "oss_status s' = oss_status s"
    "oss_completed_ids s' = oss_completed_ids s" "oss_expired_ids s' = insert i (oss_expired_ids s)"
    "oss_next_id s' = oss_next_id s" "oss_result s' = oss_result s" "oss_timeouts s' = Suc (oss_timeouts s)"
    "oss_responses s' = oss_responses s" "oss_malformed s' = oss_malformed s" "oss_unsupported s' = oss_unsupported s"
    "(oss_engine s', oss_transport s') = oe_cancel env i (oss_engine s, oss_transport s)"
    "\<exists>g h. oss_timing s' = map_option (tc_update_metrics g) (map_option (tc_update_metrics h) (map_option tc_on_timeout (oss_timing s)))
       \<or> oss_timing s' = map_option (tc_update_metrics g) (map_option tc_on_timeout (oss_timing s))"
    "oss_queue s' = oss_queue s \<or> oss_queue s' = ?w\<lparr>ow_retry_count := Suc (ow_retry_count ?w)\<rparr> # oss_queue s"
    "oss_queue s' \<noteq> oss_queue s \<longleftrightarrow> (\<exists>t. oss_timing s = Some t \<and> ow_retry_count ?w < tp_max_retries (tc_profile t))"
    by (rule os_expired_fields)
  have timing: "os_timing_ok R (oss_timing s)" using assms(1) by (simp add: os_books_def)
  have retry: "oss_queue s' \<noteq> oss_queue s \<Longrightarrow> ow_retry_count ?w < R"
    using s'(17) timing by (auto simp: os_timing_ok_def)
  obtain k where k: "k \<le> oss_timeouts s" "R = 0 \<longrightarrow> k = oss_timeouts s"
    "length (oss_queue s) + length (oss_pending s) + oss_responses s + oss_malformed s + oss_unsupported s + k \<le> T"
    "oss_status s = Ok \<longrightarrow> length (oss_queue s) + length (oss_pending s) + oss_responses s + oss_malformed s + oss_unsupported s + k = T"
    using assms(1) by (auto simp: os_books_def os_counts_def)
  have less: "Suc (os_budget R s') \<le> os_budget R s"
    using budget rc s'(2,16) retry by (auto simp: os_budget_def os_attempts_def)
  have "os_counts R T s'"
  proof (cases "oss_queue s' = oss_queue s")
    case True
    then show ?thesis unfolding os_counts_def using k left(1) s'(2,5,10-13) by (intro exI [of _ "Suc k"]) auto
  next
    case False
    then show ?thesis unfolding os_counts_def using k left(1) s'(2,5,10-13,16) retry by (intro exI [of _ k]) auto
  qed
  moreover have "os_ids_ok s'" using assms(1) left(4,6,7) s'(2,6-8) by (auto simp: os_books_def os_ids_ok_def)
  moreover have "os_need R s' \<le> os_need R s"
    using need rc s'(2,16) retry by (auto simp: os_need_def os_attempts_def)
  moreover have "os_budget R s' \<le> n - 1" using less assms(1) by (auto simp: os_books_def)
  moreover have "os_timing_ok R (oss_timing s')" using s'(15) os_timing_ok_updates timing by fastforce
  moreover have "list_all (os_flight_ok R) (oss_pending s')"
    using assms(1) left(5) s'(2) by (auto simp: os_books_def list_all_iff)
  moreover have "list_all (\<lambda>w. ow_retry_count w \<le> R) (oss_queue s')"
    using assms(1) s'(16) retry by (auto simp: os_books_def)
  ultimately show "os_books cfg R T (n - 1) (os_expired env i p s)" using assms(1) left(1) s' by (simp add: os_books_def)
qed

interpretation os_books: os_invariant env "os_books cfg R T n" for env cfg R T n
proof unfold_locales
  fix s :: "('a, 'b) os_scheduler" and w rest r p a i e
  assume b: "os_books cfg R T n s"
  show "0 < osc_max_outstanding (oss_config s)" using b by (auto simp: os_books_def)
  show "os_books cfg R T n (os_start env w (s\<lparr>oss_queue := rest\<rparr>))"
    if "oss_queue s = w # rest" "oss_status s = Ok" "length (oss_pending s) < osc_max_outstanding (oss_config s)"
    using os_books_taken [OF b that(1,2)] that(3) b by (simp add: os_books_def)
  show "os_books cfg R T n (os_answered env r a p s)"
    if "map_of (oss_pending s) (or_id r) = Some p" "oa_disposition a \<noteq> OsUnrelated"
    by (rule os_books_answered [OF b that])
  show "os_books cfg R T n (os_expired env i p (s\<lparr>oss_engine := e\<rparr>))" if "map_of (oss_pending s) i = Some p"
    by (rule os_books_mono [OF os_books_expired(1) [where n = n]]) (use b that in simp_all)
qed simp_all

end
