(* ===== verification/Os_Detection.thy ===== *)
theory Os_Detection
  imports Os_Runs Discovery_Limits
begin

text \<open>
  Operating system detection from \<open>submit\<close> to the return of \<open>run\<close>: the engine's timers are those of the
  probes in flight, the timers that fire are bounded, the result appears when nothing is left and
  says what happened; and the two ways in which a detection does not end.
\<close>

section \<open>Transports\<close>

text \<open>What the scheduler needs of a transport: it leaves the timers of others alone.\<close>

locale os_transport =
  fixes env :: "('x, 't) os_env"
  assumes submit_timers: "oe_submit env sub (e, t) = (st, e', t') \<Longrightarrow> timers_kept e e'"
    and cancel_timers: "oe_cancel env i (e, t) = (e', t') \<Longrightarrow> timers_kept e e'"
    and event_timers: "oe_event env x (e, t) = (answers, e', t') \<Longrightarrow> timers_kept e e'"

definition os_timers :: "('x, 't) os_scheduler \<Rightarrow> bool" where
  "os_timers s \<longleftrightarrow> timers_are (oss_engine s) (\<lambda>i. map_option ofl_timer (map_of (oss_pending s) i))"

definition os_stop_ok :: "('x, 't) os_scheduler \<Rightarrow> bool" where
  "os_stop_ok s \<longleftrightarrow> (eng_stopped (oss_engine s) \<longrightarrow> os_complete s)"

definition os_sound ::
  "os_scheduler_config \<Rightarrow> nat \<Rightarrow> nat \<Rightarrow> nat \<Rightarrow> ('x, 't) os_scheduler \<Rightarrow> bool" where
  "os_sound cfg R T n s \<longleftrightarrow> os_books cfg R T n s \<and> os_timers s \<and> os_stop_ok s"

lemmas os_sound_defs = os_sound_def os_timers_def os_stop_ok_def os_complete_def

lemma os_timers_erase:
  "(\<lambda>j. map_option ofl_timer (map_of (map_erase i m) j)) = (\<lambda>j. map_option ofl_timer (map_of m j))(i := None)"
  by (auto simp: map_of_erase)

lemma os_emit_kept [simp]:
  "oss_engine (os_emit env st err s) = oss_engine s" "oss_queue (os_emit env st err s) = oss_queue s"
  "oss_pending (os_emit env st err s) = oss_pending s" "oss_submitted (os_emit env st err s) = oss_submitted s"
  "oss_status (os_emit env st err s) = oss_status s" "oss_responses (os_emit env st err s) = oss_responses s"
  "oss_timeouts (os_emit env st err s) = oss_timeouts s" "oss_malformed (os_emit env st err s) = oss_malformed s"
  "oss_unsupported (os_emit env st err s) = oss_unsupported s" "oss_generated (os_emit env st err s) = oss_generated s"
  "oss_sent (os_emit env st err s) = oss_sent s" "oss_transport (os_emit env st err s) = oss_transport s"
  by (simp_all add: os_emit_def os_now_def Let_def)

context os_transport begin

lemma turn_timers:
  assumes b: "os_books cfg R T n s" and t: "os_timers s" "os_stop_ok s" and q: "oss_queue s = w # rest" and ok: "oss_status s = Ok"
  shows "os_timers (os_start env w (s\<lparr>oss_queue := rest\<rparr>)) \<and> os_stop_ok (os_start env w (s\<lparr>oss_queue := rest\<rparr>))"
proof -
  let ?s = "s\<lparr>oss_queue := rest\<rparr>" and ?f = "\<lambda>i. map_option ofl_timer (map_of (oss_pending s) i)"
  have n: "\<not> eng_stopped (oss_engine s)" using t q by (auto simp: os_stop_ok_def os_complete_def)
  have f: "timers_are (oss_engine s) ?f" using t(1) by (simp add: os_timers_def)
  have fresh: "map_of (oss_pending ?s) (oss_next_id ?s) = None"
    using b by (force simp: os_books_def os_ids_ok_def map_of_eq_None_iff)
  have "oss_status ?s = Ok" using ok by simp
  then show ?thesis using fresh
  proof (cases rule: os_startE [where env = env and w = w])
    case (ended s')
    have "timers_are (oss_engine s') ?f \<and> \<not> eng_stopped (oss_engine s')"
      using ended(8)
    proof (elim disjE exE conjE)
      fix now d tid e sub st e2 t2
      assume a: "engine_schedule now d (OnTimeout (oss_next_id ?s)) (oss_engine ?s) = (tid, e)" "tid \<noteq> 0"
        "oe_submit env sub (e, oss_transport ?s) = (st, e2, t2)" "oss_engine s' = engine_cancel tid e2"
      note k = submit_timers [OF a(3)]
      have "timers_are (engine_cancel tid e2) ?f" using timers_are_schedule_cancel [OF f _ a(2) k] a(1) by simp
      moreover have "\<not> eng_stopped e2" using k n schedule_stopped [OF a(1)] by (auto simp: timers_kept_def)
      ultimately show ?thesis using a(4) by (simp add: engine_cancel_def)
    qed (use f n in simp)
    then show ?thesis unfolding ended(1) using ended(3) by (simp add: os_timers_def os_stop_ok_def)
  next
    case (sent s' p now d e)
    note k = submit_timers [OF sent(16)]
    have "?f (oss_next_id s) = None" using fresh by simp
    from timers_are_schedule [OF _ sent(14,15)] f this
    have "timers_are e (?f(oss_next_id s \<mapsto> ofl_timer p))" by simp
    then have "timers_are (oss_engine s') (?f(oss_next_id s \<mapsto> ofl_timer p))" using k by (rule timers_are_kept)
    moreover have "(\<lambda>i. map_option ofl_timer (map_of (oss_pending s') i)) = ?f(oss_next_id s \<mapsto> ofl_timer p)"
      using sent(4) by auto
    moreover have "\<not> eng_stopped (oss_engine s')" using k n schedule_stopped [OF sent(14)] by (auto simp: timers_kept_def)
    ultimately show ?thesis unfolding sent(1) by (simp add: os_timers_def os_stop_ok_def)
  qed
qed

end

sublocale os_transport < sound: os_invariant env "os_sound cfg R T n" for cfg R T n
proof unfold_locales
  fix s :: "('x, 't) os_scheduler" and w rest i p r a e now m x answers t cb
  assume "os_sound cfg R T n s"
  then have b: "os_books cfg R T n s" and t: "os_timers s" "os_stop_ok s" by (simp_all add: os_sound_def)
  let ?f = "\<lambda>j. map_option ofl_timer (map_of (oss_pending s) j)"
  have idle: "\<not> eng_stopped (oss_engine s)" if "map_of (oss_pending s) i = Some p"
    using that t(2) by (auto simp: os_stop_ok_def os_complete_def)
  show "0 < osc_max_outstanding (oss_config s)" by (rule os_books.inv_max [OF b])
  show "os_sound cfg R T n (s\<lparr>oss_reads := m\<rparr>)" using b t by (simp add: os_sound_defs)
  show "os_sound cfg R T n (s\<lparr>oss_engine := e\<rparr>)" if "timers_kept (oss_engine s) e"
    using b t that timers_are_kept [OF _ that] by (simp add: os_sound_defs timers_kept_def)
  show "os_sound cfg R T n (s\<lparr>oss_engine := e, oss_transport := t\<rparr>)"
    if "oe_event env x (oss_engine s, oss_transport s) = (answers, e, t)"
    using b t event_timers [OF that] timers_are_kept [OF _ event_timers [OF that]] by (simp add: os_sound_defs timers_kept_def)
  show "os_sound cfg R T n (s\<lparr>oss_engine := e\<rparr>)"
    if "dispatch_turn now (oss_engine s) = TurnFires cb e" "\<And>i. cb \<noteq> OnTimeout i"
    using b t timers_are_fires_other [OF _ that] fires_stopped [OF that(1)] by (simp add: os_sound_defs)
  show "os_sound cfg R T n (os_finish_terminal env s)"
    using b t timers_are_stop [of "oss_engine s" ?f]
    by (auto simp: os_sound_defs os_finish_terminal_def Let_def split: prod.splits)
  show "os_sound cfg R T n (os_start env w (s\<lparr>oss_queue := rest\<rparr>))"
    if "oss_queue s = w # rest" "oss_status s = Ok" "length (oss_pending s) < osc_max_outstanding (oss_config s)"
    using turn_timers [OF b t that(1,2)] os_books.inv_turn [OF b that] by (simp add: os_sound_def)
  show "os_sound cfg R T n (s\<lparr>oss_engine := e\<rparr>)"
    if "dispatch_turn now (oss_engine s) = TurnFires (OnTimeout i) e" "map_of (oss_pending s) i = None"
    using timers_are_fires(2) [of "oss_engine s" ?f now i e] that t by (simp add: os_timers_def)
  show "os_sound cfg R T n (os_answered env r a p s)"
    if p: "map_of (oss_pending s) (or_id r) = Some p" and a: "oa_disposition a \<noteq> OsUnrelated"
  proof -
    have i: "os_id (ofl_submission p) = or_id r" using os_left(2) [OF b p] by (simp add: os_flight_ok_def)
    have f: "timers_are (engine_cancel (ofl_timer p) (oss_engine s)) (?f(or_id r := None))"
      using t(1) p by (intro timers_are_cancel) (simp_all add: os_timers_def)
    have n: "\<not> eng_stopped (engine_cancel (ofl_timer p) (oss_engine s))"
      using p t(2) by (auto simp: os_stop_ok_def os_complete_def engine_cancel_def)
    have "os_timers (os_answered env r a p s) \<and> os_stop_ok (os_answered env r a p s)"
    proof (rule os_answered_fields [OF a i, of env r s])
      fix s'
      assume s': "os_answered env r a p s = s'" "oss_pending s' = map_erase (or_id r) (oss_pending s)"
        "(oss_engine s', oss_transport s') = oe_cancel env (or_id r) (engine_cancel (ofl_timer p) (oss_engine s), oss_transport s)"
      note k = cancel_timers [OF s'(3) [symmetric]]
      show ?thesis unfolding s'(1) using timers_are_kept [OF f k] k n s'(2)
        by (simp add: os_timers_def os_stop_ok_def os_timers_erase timers_kept_def)
    qed
    then show ?thesis using os_books.inv_answered [OF b that] by (simp add: os_sound_def)
  qed
  show "os_sound cfg R T n (os_expired env i p (s\<lparr>oss_engine := e\<rparr>))"
    if f: "dispatch_turn now (oss_engine s) = TurnFires (OnTimeout i) e" and p: "map_of (oss_pending s) i = Some p"
  proof -
    have g: "timers_are e (?f(i := None))" using t(1) f by (intro timers_are_fires(1)) (simp_all add: os_timers_def)
    have n: "\<not> eng_stopped e" using idle [OF p] fires_stopped [OF f] by simp
    have "os_timers (os_expired env i p (s\<lparr>oss_engine := e\<rparr>)) \<and> os_stop_ok (os_expired env i p (s\<lparr>oss_engine := e\<rparr>))"
    proof (rule os_expired_fields [of env i p "s\<lparr>oss_engine := e\<rparr>"])
      fix s'
      assume s': "os_expired env i p (s\<lparr>oss_engine := e\<rparr>) = s'" "oss_pending s' = map_erase i (oss_pending (s\<lparr>oss_engine := e\<rparr>))"
        "(oss_engine s', oss_transport s') = oe_cancel env i (oss_engine (s\<lparr>oss_engine := e\<rparr>), oss_transport (s\<lparr>oss_engine := e\<rparr>))"
      then have c: "oe_cancel env i (e, oss_transport s) = (oss_engine s', oss_transport s')" by simp
      note k = cancel_timers [OF c]
      show ?thesis unfolding s'(1) using timers_are_kept [OF g k] k n s'(2)
        by (simp add: os_timers_def os_stop_ok_def os_timers_erase timers_kept_def)
    qed
    then show ?thesis using os_books.inv_expired [OF b f p] by (simp add: os_sound_def)
  qed
qed

section \<open>The result\<close>

text \<open>There is a result exactly when nothing is left, and it says what the counters say.\<close>

definition os_result_says :: "os_detection_result \<Rightarrow> ('x, 't) os_scheduler \<Rightarrow> bool" where
  "os_result_says r s \<longleftrightarrow>
     (odr_state r, odr_error r) = os_verdict s \<and> odr_responses_received r = oss_responses s \<and>
     odr_probes_timed_out r = oss_timeouts s \<and> odr_probes_malformed r = oss_malformed s \<and>
     odr_probes_unsupported r = oss_unsupported s"

definition os_settled :: "('x, 't) os_scheduler \<Rightarrow> bool" where
  "os_settled s \<longleftrightarrow>
     (case oss_result s of None \<Rightarrow> \<not> os_complete s | Some r \<Rightarrow> os_complete s \<and> os_result_says r s)"

definition os_going :: "('x, 't) os_scheduler \<Rightarrow> bool" where
  "os_going s \<longleftrightarrow> oss_status s = Ok \<and> oss_queue s \<noteq> [] \<longrightarrow> oss_pending s \<noteq> []"

lemma with_matches_kept [simp]:
  "odr_state (with_matches f ms r) = odr_state r" "odr_error (with_matches f ms r) = odr_error r"
  "odr_responses_received (with_matches f ms r) = odr_responses_received r"
  "odr_probes_timed_out (with_matches f ms r) = odr_probes_timed_out r"
  "odr_probes_malformed (with_matches f ms r) = odr_probes_malformed r"
  "odr_probes_unsupported (with_matches f ms r) = odr_probes_unsupported r"
  by (simp_all add: with_matches_def Let_def split: list.splits)

lemma os_emit_result:
  assumes "oss_result s = None"
  shows "\<exists>r. oss_result (os_emit env st err s) = Some r \<and> odr_state r = st \<and> odr_error r = err \<and>
    odr_responses_received r = oss_responses s \<and> odr_probes_timed_out r = oss_timeouts s \<and>
    odr_probes_malformed r = oss_malformed s \<and> odr_probes_unsupported r = oss_unsupported s"
  using assms by (simp add: os_emit_def os_now_def Let_def os_new_result_def split: option.splits)

lemma os_finish_settled: "oss_result s = None \<Longrightarrow> os_settled (os_finish_terminal env s)"
proof (cases "os_complete s")
  case True
  assume none: "oss_result s = None"
  obtain st err where v: "os_verdict s = (st, err)" by fastforce
  obtain r where r: "oss_result (os_emit env st err s) = Some r" "odr_state r = st" "odr_error r = err"
    "odr_responses_received r = oss_responses s" "odr_probes_timed_out r = oss_timeouts s"
    "odr_probes_malformed r = oss_malformed s" "odr_probes_unsupported r = oss_unsupported s"
    using os_emit_result [OF none] by blast
  have "os_verdict (os_finish_terminal env s) = os_verdict s"
    by (simp add: os_verdict_def os_finish_terminal_def Let_def split: prod.splits)
  then show ?thesis
    using True none v r by (simp add: os_settled_def os_complete_def os_finish_terminal_def os_result_says_def Let_def)
next
  case False
  then have "os_finish_terminal env s = s" by (auto simp: os_complete_def os_finish_terminal_def)
  then show "oss_result s = None \<Longrightarrow> ?thesis" using False by (simp add: os_settled_def)
qed

lemma os_start_kept [simp]:
  "oss_result (os_start env w s) = oss_result s" "oss_submitted (os_start env w s) = oss_submitted s"
  by (simp_all add: os_start_def os_launch_def os_schedule_def os_now_def os_cancel_timer_def os_erase_pending_def
      os_update_timing_def Let_def split: prod.splits)

lemma os_pump_loop_result: "oss_result (os_pump_loop env limit s) = oss_result s"
proof (induction "length (oss_queue s)" arbitrary: s rule: less_induct)
  case less
  then show ?case by (cases "oss_queue s") (simp_all add: os_pump_loop.simps [of env limit s])
qed

lemma os_pump_settled: "oss_result s = None \<Longrightarrow> os_settled (os_pump env s)"
  by (simp add: os_pump_def os_finish_settled os_pump_loop_result)

lemma os_pump_loop_full:
  "oss_queue (os_pump_loop env limit s) = [] \<or> oss_status (os_pump_loop env limit s) \<noteq> Ok \<or>
     limit \<le> length (oss_pending (os_pump_loop env limit s))"
proof (induction "length (oss_queue s)" arbitrary: s rule: less_induct)
  case less
  then show ?case by (cases "oss_queue s") (auto simp: os_pump_loop.simps [of env limit s])
qed

lemma os_finish_terminal_kept [simp]:
  "oss_queue (os_finish_terminal env s) = oss_queue s" "oss_pending (os_finish_terminal env s) = oss_pending s"
  "oss_status (os_finish_terminal env s) = oss_status s" "oss_submitted (os_finish_terminal env s) = oss_submitted s"
  "oss_responses (os_finish_terminal env s) = oss_responses s" "oss_timeouts (os_finish_terminal env s) = oss_timeouts s"
  "oss_malformed (os_finish_terminal env s) = oss_malformed s"
  "oss_unsupported (os_finish_terminal env s) = oss_unsupported s"
  by (simp_all add: os_finish_terminal_def Let_def split: prod.splits)

lemma os_pump_going:
  assumes "os_timing_ok R (oss_timing s)" and "0 < osc_max_outstanding (oss_config s)"
  shows "os_going (os_pump env s)"
proof -
  have "0 < os_pump_limit s"
    using assms tc_parallelism_bounds [OF _ assms(2)]
    by (fastforce simp: os_pump_limit_def os_timing_ok_def split: option.splits)
  then show ?thesis using os_pump_loop_full [of env "os_pump_limit s" s] by (auto simp: os_going_def os_pump_def)
qed


section \<open>Steps keep a detection moving\<close>

lemma os_books_timing:
  assumes "os_books cfg R T n s"
  shows "os_timing_ok R (oss_timing s)" "0 < osc_max_outstanding (oss_config s)"
  using assms by (auto simp: os_books_def)

lemma os_settled_outside [simp]:
  "os_settled (s\<lparr>oss_engine := e\<rparr>) = os_settled s" "os_settled (s\<lparr>oss_transport := t\<rparr>) = os_settled s"
  "os_settled (s\<lparr>oss_reads := n\<rparr>) = os_settled s" "os_going (s\<lparr>oss_engine := e\<rparr>) = os_going s"
  "os_going (s\<lparr>oss_transport := t\<rparr>) = os_going s" "os_going (s\<lparr>oss_reads := n\<rparr>) = os_going s"
  by (simp_all add: os_settled_def os_going_def os_complete_def os_result_says_def os_verdict_def cong: option.case_cong)

lemma os_step_settled:
  assumes "os_step env fired s s'" and b: "os_books cfg R T n s" and "os_settled s" and "os_going s"
  shows "os_settled s' \<and> os_going s'"
  using assms(1)
proof (cases rule: os_step.cases)
  case (response r)
  show ?thesis
  proof (rule os_receive_cases [of env r s])
    assume "os_receive env r s = s"
    then show ?thesis using response assms(3,4) by simp
  next
    fix p a
    assume p: "map_of (oss_pending s) (or_id r) = Some p" and a: "oa_disposition a \<noteq> OsUnrelated"
      and eq: "os_receive env r s = os_pump env (os_answered env r a p s)"
    have i: "os_id (ofl_submission p) = or_id r" using os_left(2) [OF b p] by (simp add: os_flight_ok_def)
    have "oss_result s = None" using p assms(3) by (auto simp: os_settled_def os_complete_def split: option.splits)
    then have "oss_result (os_answered env r a p s) = None"
      by (rule_tac os_answered_fields [OF a i, of env r s]) simp
    then show ?thesis
      unfolding response eq using os_pump_going [OF os_books_timing [OF os_books_answered [OF b p a]]]
      by (simp add: os_pump_settled)
  qed
next
  case (timeout now i e)
  show ?thesis
  proof (cases "map_of (oss_pending s) i")
    case None
    then show ?thesis using timeout assms(3,4) by (simp add: os_on_timeout_def)
  next
    case (Some p)
    let ?s = "s\<lparr>oss_engine := e\<rparr>"
    have b': "os_books cfg R T n ?s" and p: "map_of (oss_pending ?s) i = Some p" using b Some by simp_all
    have "oss_result s = None" using Some assms(3) by (auto simp: os_settled_def os_complete_def split: option.splits)
    then have "oss_result (os_expired env i p ?s) = None" by (rule_tac os_expired_fields [of env i p ?s]) simp
    then show ?thesis
      using timeout Some os_pump_going [OF os_books_timing [OF os_books_expired(1) [OF b' p]]]
      by (simp add: os_on_timeout_def os_pump_settled)
  qed
qed (use assms(3,4) in simp_all)

lemma os_going_has_timer:
  assumes "os_going s" and "os_timers s" and "\<not> os_complete s" and "oss_status s = Ok" and "oss_submitted s"
  shows "\<exists>i tid. timer_for (OnTimeout i) (oss_engine s) tid"
proof -
  have "oss_pending s \<noteq> []" using assms(1,3-5) by (auto simp: os_going_def os_complete_def)
  then obtain i p where "map_of (oss_pending s) i = Some p"
    by (metis list.set_intros(1) map_of_eq_None_iff not_None_eq image_eqI neq_Nil_conv)
  then show ?thesis using assms(2) by (auto simp: os_timers_def timers_are_def)
qed

context os_transport begin

lemma step_bounded:
  assumes "os_step env fired s s'" and "os_sound cfg R T n s"
  shows "os_sound cfg R T (n - (if fired then 1 else 0)) s' \<and> (fired \<longrightarrow> 0 < n)"
  using assms(1)
proof (cases rule: os_step.cases)
  case (timeout now i e)
  let ?f = "\<lambda>i. map_option ofl_timer (map_of (oss_pending s) i)" and ?s = "s\<lparr>oss_engine := e\<rparr>"
  have b: "os_books cfg R T n ?s" and t: "timers_are (oss_engine s) ?f"
    using assms(2) by (simp_all add: os_sound_def os_timers_def)
  obtain p where p: "map_of (oss_pending s) i = Some p" using timers_are_fires(2) [OF t timeout(3)] by auto
  then have p': "map_of (oss_pending ?s) i = Some p" by simp
  note ex = os_books_expired(1) [OF b p', of env] os_books_expired(2) [OF b p']
  have "os_sound cfg R T n (os_expired env i p ?s)" by (rule sound.inv_expired [OF assms(2) timeout(3) p])
  then have "os_sound cfg R T (n - 1) (os_expired env i p ?s)" using ex(1) by (simp add: os_sound_def)
  then have "os_sound cfg R T (n - 1) s'" using timeout p by (simp add: os_on_timeout_def sound.pump_inv)
  then show ?thesis using timeout(1) ex(2) by simp
qed (use sound.step_inv [OF assms] in simp_all)

lemma steps_all:
  assumes "os_steps env k s s'" and "os_sound cfg R T n s" and "os_settled s" and "os_going s"
  shows "k \<le> n \<and> os_sound cfg R T (n - k) s' \<and> os_settled s' \<and> os_going s'"
  using assms
proof (induction rule: os_steps.induct)
  case (step k s s' fired s'')
  then have b: "k \<le> n" "os_sound cfg R T (n - k) s'" "os_settled s'" "os_going s'" by auto
  have "os_books cfg R T (n - k) s'" using b(2) by (simp add: os_sound_def)
  from os_step_settled [OF step.hyps(2) this b(3,4)] step_bounded [OF step.hyps(2) b(2)] b(1)
  show ?case by (cases fired) auto
qed simp

end

section \<open>An accepted submission\<close>

definition os_max_retries :: "os_scheduler_config \<Rightarrow> nat" where
  "os_max_retries cfg = (if osc_adaptive_timing cfg then tp_max_retries (osc_timing_profile cfg) else 0)"

text \<open>
  A submission that was accepted: a fresh scheduler on an engine without timers of its own, fewer
  attempts than there are identifiers, and a \<open>submit\<close> that answered with success.
\<close>

definition os_started ::
  "('x, 't) os_env \<Rightarrow> 'x sched_callback engine \<Rightarrow> 't \<Rightarrow> os_database \<Rightarrow> os_scheduler_config \<Rightarrow> target \<Rightarrow>
     port_result list \<Rightarrow> ('x, 't) os_scheduler \<Rightarrow> bool" where
  "os_started env e t db cfg target rs s \<longleftrightarrow>
     timers_are e (\<lambda>_. None) \<and> \<not> eng_stopped e \<and>
     length (os_work_for cfg target rs) * Suc (os_max_retries cfg) < 2 ^ 64 - 1 \<and>
     os_submit env target rs (new_os_scheduler e t db cfg) = (Ok, s)"

lemma fresh_work: "list_all (\<lambda>w. ow_retry_count w = 0) (os_work_for cfg target rs)"
  by (auto simp: os_work_for_def os_host_work_def list_all_iff)

lemma fresh_attempts: "list_all (\<lambda>w. ow_retry_count w = 0) ws \<Longrightarrow> (\<Sum>w\<in>#mset ws. os_attempts R w) = length ws * Suc R"
  by (induction ws) (simp_all add: os_attempts_def)

text \<open>The state an accepted submission pumps.\<close>

lemma os_submit_ok:
  assumes "os_submit env target rs (new_os_scheduler e t db cfg) = (Ok, s)"
  obtains s0 where "s = os_finish_terminal env (os_pump env s0)" "oss_engine s0 = e" "oss_config s0 = cfg"
    "oss_queue s0 = os_work_for cfg target rs" "oss_pending s0 = []" "oss_submitted s0" "oss_status s0 = Ok"
    "oss_result s0 = None" "oss_next_id s0 = 1" "oss_completed_ids s0 = {}" "oss_expired_ids s0 = {}"
    "oss_responses s0 = 0" "oss_timeouts s0 = 0" "oss_malformed s0 = 0" "oss_unsupported s0 = 0"
    "0 < osc_max_outstanding cfg" "os_timing_ok (os_max_retries cfg) (oss_timing s0)" "oss_status s = Ok"
    "oss_queue s0 \<noteq> []"
proof -
  have reject: "os_reject env st state err s1 \<noteq> (Ok, s)" if "st \<noteq> Ok" for st state err s1
    using that by (simp add: os_reject_def Let_def)
  define s0 where "s0 = (new_os_scheduler e t db cfg)\<lparr>oss_submitted := True, oss_target := os_target_name target,
    oss_target_family := os_target_family (map (family_for_host (oe_libc env)) (resolved_hosts target)) None,
    oss_observed := Some (new_fingerprint\<lparr>of_family := os_target_family (map (family_for_host (oe_libc env)) (resolved_hosts target)) None\<rparr>),
    oss_queue := os_work_for cfg target rs\<rparr>"
  have all: "s = os_finish_terminal env (os_pump env s0) \<and> 0 < osc_max_outstanding cfg \<and> oss_status s = Ok \<and>
      os_work_for cfg target rs \<noteq> [] \<and> (case oss_timing (new_os_scheduler e t db cfg) of None \<Rightarrow> True | Some t \<Rightarrow> tc_validate t = Ok)"
    using assms reject unfolding s0_def os_submit_def
    by (auto simp: new_os_scheduler_def Let_def split: if_splits)
  have "oss_timing s0 = oss_timing (new_os_scheduler e t db cfg)" by (simp add: s0_def)
  with all have ok: "s = os_finish_terminal env (os_pump env s0)" "0 < osc_max_outstanding cfg" "oss_status s = Ok"
    "os_work_for cfg target rs \<noteq> []" "case oss_timing s0 of None \<Rightarrow> True | Some t \<Rightarrow> tc_validate t = Ok" by metis+
  have profile: "tc_profile (new_timing_controller p) = p" for p by (simp add: new_timing_controller_def)
  have timing: "oss_timing s0 = (if osc_adaptive_timing cfg then Some (new_timing_controller (osc_timing_profile cfg)) else None)"
    by (simp add: s0_def new_os_scheduler_def)
  then have "os_timing_ok (os_max_retries cfg) (oss_timing s0)"
    using ok(5) by (auto simp: os_timing_ok_def os_max_retries_def tc_validate_def profile intro!: tc_inv_new split: if_splits)
  then show thesis using ok by (intro that [of s0]) (simp_all add: s0_def new_os_scheduler_def)
qed

context os_transport begin

lemma started_sound:
  assumes "os_started env e t db cfg target rs s"
  defines "T \<equiv> length (os_work_for cfg target rs)" and "R \<equiv> os_max_retries cfg"
  shows "os_sound cfg R T (T * Suc R) s" and "os_settled s" and "os_going s" and "oss_status s = Ok" and "0 < T"
proof -
  have sub: "os_submit env target rs (new_os_scheduler e t db cfg) = (Ok, s)" and e: "timers_are e (\<lambda>_. None)" "\<not> eng_stopped e"
    and k: "T * Suc R < 2 ^ 64 - 1"
    using assms by (simp_all add: os_started_def)
  obtain s0 where s0: "s = os_finish_terminal env (os_pump env s0)" "oss_engine s0 = e" "oss_config s0 = cfg"
    "oss_queue s0 = os_work_for cfg target rs" "oss_pending s0 = []" "oss_submitted s0" "oss_status s0 = Ok"
    "oss_result s0 = None" "oss_next_id s0 = 1" "oss_completed_ids s0 = {}" "oss_expired_ids s0 = {}"
    "oss_responses s0 = 0" "oss_timeouts s0 = 0" "oss_malformed s0 = 0" "oss_unsupported s0 = 0"
    "0 < osc_max_outstanding cfg" "os_timing_ok R (oss_timing s0)" "oss_status s = Ok" "oss_queue s0 \<noteq> []"
    unfolding R_def by (rule os_submit_ok [OF sub])
  have "list_all (\<lambda>w. ow_retry_count w \<le> R) (oss_queue s0)"
    using fresh_work [of cfg target rs] s0(4) by (auto simp: list_all_iff)
  then have "os_books cfg R T (T * Suc R) s0"
    using s0 k fresh_attempts [OF fresh_work, of R cfg target rs]
    by (simp add: os_books_def os_counts_def os_ids_ok_def os_need_def os_budget_def T_def)
  then have start: "os_sound cfg R T (T * Suc R) s0" using s0 e by (simp add: os_sound_defs)
  have pumped: "os_settled (os_pump env s0)" by (rule os_pump_settled [OF s0(8)])
  then have same: "s = os_pump env s0"
    by (auto simp: s0(1) os_finish_terminal_def os_settled_def os_complete_def split: option.splits)
  show "os_sound cfg R T (T * Suc R) s" unfolding same by (rule sound.pump_inv [OF start])
  show "os_settled s" unfolding same by (rule pumped)
  show "os_going s" unfolding same using s0 by (intro os_pump_going [of R]) simp_all
  show "oss_status s = Ok" by (rule s0(18))
  show "0 < T" using s0(4,19) by (simp add: T_def)
qed

end

lemma os_throughout:
  assumes "os_transport env" and "os_started env e t db cfg target rs s0" and "os_steps env n s0 s"
  defines "T \<equiv> length (os_work_for cfg target rs)" and "R \<equiv> os_max_retries cfg"
  shows "n \<le> T * Suc R" and "os_books cfg R T (T * Suc R - n) s" and "os_timers s" and "os_stop_ok s"
    and "os_settled s" and "os_going s"
  using os_transport.steps_all [OF assms(1,3) os_transport.started_sound(1-3) [OF assms(1,2)]]
  by (simp_all add: os_sound_def T_def R_def)

section \<open>The reactor's loop\<close>

definition os_leads :: "('x, 't) os_env \<Rightarrow> ('x, 't) os_scheduler \<Rightarrow> ('x, 't) os_scheduler \<Rightarrow> bool" where
  "os_leads env s s' \<longleftrightarrow> (\<exists>n. os_steps env n s s')"

lemma os_leads_refl: "os_leads env s s"
  using os_steps.start [of env s] by (auto simp: os_leads_def)

lemma os_steps_trans: "os_steps env n s' s'' \<Longrightarrow> os_steps env m s s' \<Longrightarrow> \<exists>k. os_steps env k s s''"
  by (induction rule: os_steps.induct) (blast intro: os_steps.step)+

lemma os_leads_trans: "os_leads env s s' \<Longrightarrow> os_leads env s' s'' \<Longrightarrow> os_leads env s s''"
  using os_steps_trans by (fastforce simp: os_leads_def)

lemma os_leads_step: "os_step env fired s s' \<Longrightarrow> os_leads env s s'"
  using os_steps.step [OF os_steps.start] by (fastforce simp: os_leads_def)

lemma os_embedding_fields [simp]:
  "get_engine (os_embedding env) = oss_engine" "put_engine (os_embedding env) = (\<lambda>e s. s\<lparr>oss_engine := e\<rparr>)"
  "read_clock (os_embedding env) = os_now env" "call (os_embedding env) = os_handle env"
  by (simp_all add: os_embedding_def)

lemma os_leads_transport: "os_leads env s (os_handle env (TransportEvent x) s)"
proof -
  obtain answers e t where ev: "oe_event env x (oss_engine s, oss_transport s) = (answers, e, t)" by (metis prod_cases3)
  let ?s0 = "s\<lparr>oss_engine := e, oss_transport := t\<rparr>"
  have "os_leads env ?s0 (fold (os_receive env) rs ?s0)" for rs
  proof (induction rs rule: rev_induct)
    case (snoc r' rs)
    from os_leads_trans [OF snoc os_leads_step [OF os_step.response]] show ?case by simp
  qed (simp add: os_leads_refl)
  then show ?thesis using os_leads_trans [OF os_leads_step [OF os_step.transport_event [OF ev]]] by (simp add: ev)
qed

lemma os_leads_fires:
  assumes "dispatch_turn now (oss_engine s) = TurnFires cb e"
  shows "os_leads env s (os_handle env cb (s\<lparr>oss_engine := e\<rparr>))"
proof (cases cb)
  case (OnTimeout i)
  from os_leads_step [OF os_step.timeout [OF assms [unfolded OnTimeout]]] show ?thesis by (simp add: OnTimeout)
next
  case (OnRetryReady i)
  then show ?thesis using os_leads_step [OF os_step.other_timer [OF assms]] by simp
next
  case (TransportEvent x)
  have "os_leads env s (s\<lparr>oss_engine := e\<rparr>)"
    using os_leads_step [OF os_step.other_timer [OF assms]] TransportEvent by simp
  from os_leads_trans [OF this os_leads_transport] show ?thesis unfolding TransportEvent .
qed

sublocale os_transport < loop: engine_steps "os_embedding env" "os_leads env" "os_sound cfg R T n" for cfg R T n
proof unfold_locales
  fix s :: "('x, 't) os_scheduler" and s' now cb e x
  show "os_leads env s s' \<Longrightarrow> os_sound cfg R T n s \<Longrightarrow> os_sound cfg R T n s'"
    using sound.steps_inv by (auto simp: os_leads_def)
  show "os_sound cfg R T n s \<Longrightarrow> wired (get_engine (os_embedding env) s)"
    by (simp add: os_sound_def os_timers_def timers_are_def)
  show "os_leads env s (snd (read_clock (os_embedding env) s))"
    by (simp add: os_now_def os_leads_step [OF os_step.clock])
  show "os_leads env s (call (os_embedding env) cb (put_engine (os_embedding env) e s))"
    if "dispatch_turn now (get_engine (os_embedding env) s) = TurnFires cb e"
    using os_leads_fires that by simp
  show "os_leads env s (call (os_embedding env) (TransportEvent x) s)"
    unfolding os_embedding_fields by (rule os_leads_transport)
  show "os_leads env s (put_engine (os_embedding env) e s)" if "timers_kept (get_engine (os_embedding env) s) e"
    using that os_leads_step [OF os_step.engine] by simp
qed (auto simp: os_leads_refl intro: os_leads_trans)

context os_transport begin

lemma leads_run:
  assumes "engine_run (os_embedding env) polls s = Some (st, s')" and "os_sound cfg R T n s"
  shows "os_leads env s s' \<and> (st = Ok \<longrightarrow> eng_stopped (oss_engine s') \<or> idle (oss_engine s'))"
  using loop.leads_run [OF assms] by simp

end


section \<open>An example\<close>

text \<open>The recording transport, sending echo requests only.\<close>

definition recording_os_env :: "libc \<Rightarrow> (nat \<Rightarrow> int) \<Rightarrow> (unit, recording_os) os_env" where
  "recording_os_env lc clock =
     \<lparr>oe_libc = lc, oe_clock = clock, oe_supports = (\<lambda>_ t. t = IcmpEcho), oe_local_source_address = (\<lambda>_. []),
      oe_submit = (\<lambda>sub (e, t). case recording_os_submit sub True t of (st, t') \<Rightarrow> (st, e, t')),
      oe_cancel = (\<lambda>i (e, t). (e, recording_os_cancel i t)), oe_event = (\<lambda>x (e, t). ([], e, t))\<rparr>"

interpretation recording_os: os_transport "recording_os_env lc clock" for lc clock
  by unfold_locales (auto simp: recording_os_env_def timers_kept_refl split: prod.splits)

definition os_demo_libc :: libc where
  "os_demo_libc = no_libc\<lparr>inet_pton4 := \<lambda>_. Some 0xC00002FE\<rparr>"

definition os_demo_env :: "(unit, recording_os) os_env" where
  "os_demo_env = recording_os_env os_demo_libc (\<lambda>n. 10000000000 * int n)"

definition os_demo_config :: os_scheduler_config where
  "os_demo_config =
     \<lparr>osc_timeout = 1000, osc_max_outstanding = 8, osc_probe_port = 80, osc_source_address = [],
      osc_udp_probe_port = 161, osc_udp_probe_payload = skan_payload, osc_max_results = 3, osc_adaptive_timing = False,
      osc_timing_profile = profile_for_id T3\<rparr>"

definition os_demo_start :: "unit sched_callback engine \<Rightarrow> (unit, recording_os) os_scheduler" where
  "os_demo_start e = new_os_scheduler e \<lparr>rec_os_submissions = [], rec_os_callbacks = []\<rparr>
     \<lparr>od_status = Ok, od_fingerprints = []\<rparr> os_demo_config"

definition os_demo_scan :: "(unit, recording_os) os_scheduler" where
  "os_demo_scan = snd (os_submit os_demo_env demo_target [] (os_demo_start (new_engine True)))"

lemma os_demo_address:
  "family_for_host lc probed_host = FamilyIPv4" "os_destination lc probed_host = from_ipv4 0xC0000207"
  "h_address probed_host \<noteq> []" "is_ipv4 (from_ipv4 0xC0000207)" "\<not> is_ipv6 (from_ipv4 a)" "ip_valid (from_ipv4 a)"
  by (simp_all add: family_for_host_def os_destination_def probed_host_def from_ipv4_def ip_valid_def is_ipv4_def is_ipv6_def)

lemma os_demo_source:
  "opc_source_address cfg = ''192.0.2.254'' \<Longrightarrow>
     os_source_ip_for os_demo_libc cfg (from_ipv4 0xC0000207) = Some (from_ipv4 0xC00002FE)"
  by (simp add: os_source_ip_for_def os_demo_address os_demo_libc_def parse_ip_address_def parse_address_text_def
      from_ipv4_def is_ipv4_def is_ipv6_def)

definition os_demo_echo :: "int \<Rightarrow> u64 \<Rightarrow> os_probe_config \<Rightarrow> os_submission" where
  "os_demo_echo now i cfg = snd (os_build os_demo_libc now IcmpEcho i probed_host cfg new_os_submission)"

lemma os_demo_built:
  assumes "opc_source_address cfg = ''192.0.2.254''" and "opc_probe_port cfg \<noteq> 0"
  shows "os_build os_demo_libc now IcmpEcho i probed_host cfg new_os_submission = (Ok, os_demo_echo now i cfg)"
    and "os_id (os_demo_echo now i cfg) = i"
  using assms
  by (simp_all add: os_demo_echo_def os_build_def os_demo_address os_demo_source os_build_echo_def os_submission_for_def Let_def)

lemma os_demo_work:
  "os_work_for cfg demo_target [] =
     map (\<lambda>t. \<lparr>ow_host = probed_host, ow_port = \<lparr>port_number = osc_probe_port cfg, port_protocol = Tcp\<rparr>, ow_type = t,
       ow_retry_count = 0\<rparr>) os_probe_order"
  by (simp add: os_work_for_def os_host_work_def os_selected_port_def demo_target_def os_demo_address)

lemma os_pump_loop_empty: "oss_queue s = [] \<Longrightarrow> os_pump_loop env limit s = s"
  by (simp add: os_pump_loop.simps)

lemma skip_unsupported:
  assumes "oss_queue s = ws @ rest" and "\<forall>w\<in>set ws. \<not> oe_supports env (oss_transport s) (ow_type w)"
    and "oss_status s = Ok" and "length (oss_pending s) < limit"
  shows "\<exists>seen. os_pump_loop env limit s = os_pump_loop env limit (s\<lparr>oss_queue := rest, oss_reads := oss_reads s + length ws,
    oss_unsupported := oss_unsupported s + length ws, oss_observed := seen\<rparr>)"
  using assms
proof (induction ws arbitrary: s)
  case Nil
  then have "s\<lparr>oss_queue := rest, oss_reads := oss_reads s, oss_unsupported := oss_unsupported s, oss_observed := oss_observed s\<rparr> = s"
    by simp
  then show ?case by (metis add_0_right list.size(3))
next
  case (Cons w ws)
  let ?s = "os_note env OsUnsupported (s\<lparr>oss_queue := ws @ rest, oss_unsupported := Suc (oss_unsupported s)\<rparr>)"
  have "os_pump_loop env limit s = os_pump_loop env limit ?s"
    using Cons.prems by (simp add: os_pump_loop.simps [of env limit s] os_start_def)
  moreover from Cons.IH [of ?s] Cons.prems
  obtain seen where "os_pump_loop env limit ?s = os_pump_loop env limit (?s\<lparr>oss_queue := rest, oss_reads := oss_reads ?s + length ws,
    oss_unsupported := oss_unsupported ?s + length ws, oss_observed := seen\<rparr>)" by auto
  ultimately show ?case by (intro exI [of _ seen]) (simp add: os_note_def os_now_def)
qed

lemmas os_demo_eval = recording_os_env_def os_demo_env_def os_start_def os_launch_def os_schedule_def os_now_def os_note_def
  os_probe_config_for_def os_probe_timeout_def os_update_timing_def recording_os_submit_def map_emplace_def map_has_def
  engine_schedule_def new_engine_def ns_per_ms_def Let_def os_demo_built os_demo_config_def

definition os_demo_probe :: os_work where
  "os_demo_probe = \<lparr>ow_host = probed_host, ow_port = \<lparr>port_number = 80, port_protocol = Tcp\<rparr>, ow_type = IcmpEcho, ow_retry_count = 0\<rparr>"

definition os_demo_timers :: "unit sched_callback engine" where
  "os_demo_timers = snd (engine_schedule 130000000000 1000000000 (OnTimeout 1) (new_engine True))"

text \<open>The pump on work of which only the echo request can be sent.\<close>

lemma os_demo_turn:
  assumes "oss_status s = Ok" and "oss_pending s = []" and "oss_config s = os_demo_config" and "oss_timing s = None"
    and "oss_engine s = new_engine True" and "oss_transport s = \<lparr>rec_os_submissions = [], rec_os_callbacks = []\<rparr>"
    and "oss_next_id s = 1" and "oss_reads s = 10" and "oss_result s = None"
  shows "\<exists>s' p. os_start os_demo_env os_demo_probe s = s' \<and> oss_queue s' = oss_queue s \<and> oss_pending s' = [(1, p)] \<and>
     ofl_work p = os_demo_probe \<and> oss_status s' = Ok \<and> oss_timing s' = None \<and> oss_submitted s' = oss_submitted s \<and>
     oss_result s' = None \<and> oss_engine s' = os_demo_timers \<and> oss_reads s' = 15 \<and> oss_config s' = oss_config s"
  using assms by (simp add: os_demo_eval os_demo_probe_def os_demo_timers_def)


lemma os_demo_transport: "os_transport os_demo_env"
  unfolding os_demo_env_def by (rule recording_os.os_transport_axioms)

lemma os_demo_pump:
  assumes "oss_queue s = ws @ os_demo_probe # rest" and "length ws = 10" and "\<forall>w\<in>set (ws @ rest). ow_type w \<noteq> IcmpEcho"
    and "oss_status s = Ok" and "oss_pending s = []" and "oss_config s = os_demo_config" and "oss_timing s = None"
    and "oss_engine s = new_engine True" and "oss_transport s = \<lparr>rec_os_submissions = [], rec_os_callbacks = []\<rparr>"
    and "oss_next_id s = 1" and "oss_reads s = 0" and "oss_result s = None"
  shows "\<exists>s' p. os_pump os_demo_env s = s' \<and> oss_queue s' = [] \<and> oss_pending s' = [(1, p)] \<and>
     ofl_work p = os_demo_probe \<and> oss_status s' = Ok \<and> oss_timing s' = None \<and> oss_submitted s' = oss_submitted s \<and>
     oss_result s' = None \<and> oss_engine s' = os_demo_timers \<and> oss_reads s' = 15 + length rest"
proof -
  have un: "\<not> oe_supports os_demo_env t (ow_type w)" if "w \<in> set (ws @ rest)" for t w
    using assms(3) that by (auto simp: os_demo_env_def recording_os_env_def)
  have limit: "os_pump_limit s = 8" using assms(6,7) by (simp add: os_pump_limit_def os_demo_config_def)
  obtain s1 where s1: "os_pump_loop os_demo_env 8 s = os_pump_loop os_demo_env 8 s1" "oss_queue s1 = os_demo_probe # rest"
    "oss_status s1 = Ok" "oss_pending s1 = []" "oss_config s1 = os_demo_config" "oss_timing s1 = None"
    "oss_engine s1 = new_engine True" "oss_transport s1 = \<lparr>rec_os_submissions = [], rec_os_callbacks = []\<rparr>"
    "oss_next_id s1 = 1" "oss_reads s1 = 10" "oss_result s1 = None" "oss_submitted s1 = oss_submitted s"
    using skip_unsupported [OF assms(1), of os_demo_env 8] un assms by fastforce
  then obtain s2 p where s2: "os_start os_demo_env os_demo_probe (s1\<lparr>oss_queue := rest\<rparr>) = s2" "oss_queue s2 = rest"
    "oss_pending s2 = [(1, p)]" "ofl_work p = os_demo_probe" "oss_status s2 = Ok" "oss_timing s2 = None"
    "oss_submitted s2 = oss_submitted s" "oss_result s2 = None" "oss_engine s2 = os_demo_timers" "oss_reads s2 = 15"
    using os_demo_turn [of "s1\<lparr>oss_queue := rest\<rparr>"] by auto
  have "os_pump_loop os_demo_env 8 s1 = os_pump_loop os_demo_env 8 s2"
    using s1 s2(1) by (simp add: os_pump_loop.simps [of _ _ s1])
  moreover obtain seen where "os_pump_loop os_demo_env 8 s2 = os_pump_loop os_demo_env 8 (s2\<lparr>oss_queue := [],
      oss_reads := oss_reads s2 + length rest, oss_unsupported := oss_unsupported s2 + length rest, oss_observed := seen\<rparr>)"
    using skip_unsupported [of s2 rest "[]" os_demo_env 8] un s2 by auto
  ultimately have "os_pump_loop os_demo_env (os_pump_limit s) s = s2\<lparr>oss_queue := [],
      oss_reads := oss_reads s2 + length rest, oss_unsupported := oss_unsupported s2 + length rest, oss_observed := seen\<rparr>"
    unfolding limit s1(1) by (simp add: os_pump_loop.simps)
  then show ?thesis using s2 by (simp add: os_pump_def os_finish_terminal_def)
qed

lemma os_demo_config_fields:
  "\<not> osc_adaptive_timing os_demo_config" "osc_max_outstanding os_demo_config = 8" "osc_timeout os_demo_config = 1000"
  "osc_probe_port os_demo_config = 80" "osc_max_results os_demo_config = 3"
  by (simp_all add: os_demo_config_def)

text \<open>The state that is pumped, and what \<open>submit\<close> answers.\<close>

definition os_demo_ready :: "unit sched_callback engine \<Rightarrow> (unit, recording_os) os_scheduler" where
  "os_demo_ready e = (os_demo_start e)\<lparr>oss_submitted := True, oss_target := os_target_name demo_target,
     oss_target_family := FamilyIPv4, oss_observed := Some (new_fingerprint\<lparr>of_family := FamilyIPv4\<rparr>),
     oss_queue := os_work_for os_demo_config demo_target []\<rparr>"

lemma os_demo_ready_fields:
  "oss_queue (os_demo_ready e) = os_work_for os_demo_config demo_target []" "oss_status (os_demo_ready e) = Ok"
  "oss_pending (os_demo_ready e) = []" "oss_config (os_demo_ready e) = os_demo_config" "oss_timing (os_demo_ready e) = None"
  "oss_engine (os_demo_ready e) = e" "oss_transport (os_demo_ready e) = \<lparr>rec_os_submissions = [], rec_os_callbacks = []\<rparr>"
  "oss_next_id (os_demo_ready e) = 1" "oss_reads (os_demo_ready e) = 0" "oss_result (os_demo_ready e) = None"
  "oss_submitted (os_demo_ready e)"
  using os_demo_config_fields(1) by (simp_all add: os_demo_ready_def os_demo_start_def new_os_scheduler_def)

lemma os_demo_queue:
  obtains ws rest where "oss_queue (os_demo_ready e) = ws @ os_demo_probe # rest" "length ws = 10" "length rest = 1"
    "\<forall>w\<in>set (ws @ rest). ow_type w \<noteq> IcmpEcho"
proof -
  let ?w = "\<lambda>t. \<lparr>ow_host = probed_host, ow_port = \<lparr>port_number = 80, port_protocol = Tcp\<rparr>, ow_type = t, ow_retry_count = 0\<rparr>"
  have "os_work_for os_demo_config demo_target [] = map ?w (take 10 os_probe_order) @ os_demo_probe # [?w UdpFingerprint]"
    by (simp add: os_demo_work os_demo_probe_def os_probe_order_def os_demo_config_def)
  then show thesis
    by (intro that [of "map ?w (take 10 os_probe_order)" "[?w UdpFingerprint]"]) (simp_all add: os_demo_ready_fields os_probe_order_def)
qed

lemma os_demo_submit:
  assumes "eng_init_status e = Ok"
  shows "os_submit env demo_target [] (os_demo_start e) =
    (oss_status (os_finish_terminal env (os_pump env (os_demo_ready e))), os_finish_terminal env (os_pump env (os_demo_ready e)))"
proof -
  have start: "\<not> oss_submitted (os_demo_start e)" "oss_engine (os_demo_start e) = e"
    "od_status (oss_database (os_demo_start e)) = Ok" "oss_config (os_demo_start e) = os_demo_config"
    "oss_timing (os_demo_start e) = None" "oss_queue (os_demo_start e) = []"
    using os_demo_config_fields(1) by (simp_all add: os_demo_start_def new_os_scheduler_def)
  have "os_target_family (map (family_for_host (oe_libc env)) (resolved_hosts demo_target)) None = FamilyIPv4"
    by (simp add: demo_target_def os_demo_address)
  moreover have "os_work_for os_demo_config demo_target [] \<noteq> []" by (simp add: os_demo_work os_probe_order_def)
  ultimately show ?thesis
    using start os_demo_config_fields assms by (simp add: os_submit_def Let_def os_demo_ready_def)
qed

lemma os_demo_submits:
  "os_submit os_demo_env demo_target [] (os_demo_start (new_engine True)) = (Ok, os_demo_scan) \<and>
   (\<exists>p. oss_queue os_demo_scan = [] \<and> oss_pending os_demo_scan = [(1, p)] \<and> ofl_work p = os_demo_probe \<and>
     oss_status os_demo_scan = Ok \<and> oss_timing os_demo_scan = None \<and> oss_submitted os_demo_scan \<and>
     oss_result os_demo_scan = None \<and> oss_engine os_demo_scan = os_demo_timers \<and> oss_reads os_demo_scan = 16)"
proof -
  obtain ws rest where q: "oss_queue (os_demo_ready (new_engine True)) = ws @ os_demo_probe # rest" "length ws = 10" "length rest = 1"
    "\<forall>w\<in>set (ws @ rest). ow_type w \<noteq> IcmpEcho"
    by (rule os_demo_queue)
  obtain s' p where s': "os_pump os_demo_env (os_demo_ready (new_engine True)) = s'" "oss_queue s' = []" "oss_pending s' = [(1, p)]"
    "ofl_work p = os_demo_probe" "oss_status s' = Ok" "oss_timing s' = None" "oss_submitted s'" "oss_result s' = None"
    "oss_engine s' = os_demo_timers" "oss_reads s' = 16"
    using os_demo_pump [OF q(1,2,4)] q(3) by (auto simp: os_demo_ready_fields)
  have "os_submit os_demo_env demo_target [] (os_demo_start (new_engine True)) = (Ok, s')"
    using os_demo_submit [of "new_engine True" os_demo_env] s'
    by (simp add: new_engine_def os_finish_terminal_def)
  then show ?thesis using s' by (simp add: os_demo_scan_def)
qed

lemma os_demo_timeout:
  assumes "oss_queue s = []" and "oss_pending s = [(1, p)]" and "oss_status s = Ok" and "oss_timing s = None"
    and "oss_submitted s" and "oss_result s = None"
  shows "\<exists>s'. os_on_timeout os_demo_env 1 s = s' \<and> eng_stopped (oss_engine s') \<and> oss_status s' = Ok \<and> oss_result s' \<noteq> None \<and>
    eng_registered (oss_engine s') = eng_registered (oss_engine s)"
proof -
  obtain s1 where s1: "os_expired os_demo_env 1 p s = s1" "oss_queue s1 = []" "oss_pending s1 = []" "oss_status s1 = Ok"
    "oss_submitted s1" "oss_result s1 = None" "oss_engine s1 = oss_engine s"
    using assms by (simp add: os_expired_def os_erase_pending_def os_cancel_probe_def os_retries_def os_set_parallelism_def
        os_update_timing_def map_erase_def Let_def os_demo_env_def recording_os_env_def)
  obtain st err where v: "os_verdict s1 = (st, err)" by fastforce
  have "oss_result (os_emit os_demo_env st err s1) \<noteq> None" using os_emit_result [OF s1(6)] by fastforce
  then show ?thesis
    using assms(2) s1 v by (simp add: os_on_timeout_def os_pump_def os_pump_loop.simps os_finish_terminal_def engine_stop_def Let_def)
qed

lemma os_demo_runs: "\<exists>s. os_run os_demo_env [Interrupted] os_demo_scan = Some (Ok, s)"
proof -
  obtain p where p: "oss_queue os_demo_scan = []" "oss_pending os_demo_scan = [(1, p)]"
     "oss_status os_demo_scan = Ok" "oss_timing os_demo_scan = None" "oss_submitted os_demo_scan"
     "oss_result os_demo_scan = None" "oss_engine os_demo_scan = os_demo_timers" "oss_reads os_demo_scan = 16"
    using os_demo_submits by auto
  let ?e = "\<lambda>ts q. os_demo_timers\<lparr>eng_running := True, eng_timers := ts, eng_queue := q\<rparr>"
  let ?s = "os_demo_scan\<lparr>oss_reads := 17, oss_engine := ?e [] []\<rparr>"
  obtain s' r where s': "os_on_timeout os_demo_env 1 ?s = s'" "eng_stopped (oss_engine s')" "oss_status s' = Ok" "oss_result s' = Some r"
    using os_demo_timeout [of ?s p] p by auto
  have clock: "oe_clock os_demo_env n = 10000000000 * int n" for n by (simp add: os_demo_env_def recording_os_env_def)
  show ?thesis using p s'
    by (simp add: os_run_def os_ran_def engine_run_def run_loop.simps run_once_impl_def idle_def set_running_def
        dispatch_timers.simps dispatch_turn_def clock os_now_def os_demo_timers_def engine_schedule_def new_engine_def
        map_emplace_def map_has_def map_erase_def os_finish_terminal_def Let_def)
qed

lemma os_demo_started:
  "os_started os_demo_env (new_engine True) \<lparr>rec_os_submissions = [], rec_os_callbacks = []\<rparr>
     \<lparr>od_status = Ok, od_fingerprints = []\<rparr> os_demo_config demo_target [] os_demo_scan"
proof -
  have "timers_are (new_engine True) (\<lambda>_. None)"
    by (simp add: timers_are_def wired_def timers_inv_new timer_for_def) (simp add: new_engine_def)
  moreover have "length (os_work_for os_demo_config demo_target []) * Suc (os_max_retries os_demo_config) = 12"
    using os_demo_config_fields(1) by (simp add: os_demo_work os_probe_order_def os_max_retries_def)
  moreover have "\<not> eng_stopped (new_engine True)" by (simp add: new_engine_def)
  ultimately show ?thesis using os_demo_submits by (simp add: os_started_def os_demo_start_def)
qed

section \<open>What detection promises\<close>

lemma length_os_work:
  "length (os_work_for cfg target rs) = 12 * length (filter (\<lambda>h. h_address h \<noteq> []) (resolved_hosts target))"
  by (simp add: os_work_for_def os_host_work_def length_concat comp_def os_probe_order_def sum_list_triv)

lemma os_run_ok:
  assumes "os_transport env" and "os_started env e t db cfg target rs s0" and "os_run env polls s0 = Some (Ok, s)"
  obtains n where "os_steps env n s0 s" and "os_complete s" and "oss_status s = Ok"
proof -
  obtain s1 where run: "engine_run (os_embedding env) polls s0 = Some (Ok, s1)" and s: "oss_status s1 = Ok" "s = os_finish_terminal env s1"
    using assms(3) by (auto simp: os_run_def os_ran_def Let_def split: if_splits)
  have l: "os_leads env s0 s1" and stop: "eng_stopped (oss_engine s1) \<or> idle (oss_engine s1)"
    using os_transport.leads_run [OF assms(1) run os_transport.started_sound(1) [OF assms(1,2)]] by auto
  then obtain n where n: "os_steps env n s0 s1" by (auto simp: os_leads_def)
  note th = os_throughout [OF assms(1,2) n]
  have sub: "oss_submitted s1" using th(2) by (simp add: os_books_def)
  have c: "os_complete s1"
  proof (cases "eng_stopped (oss_engine s1)")
    case True
    then show ?thesis using th(4) by (simp add: os_stop_ok_def)
  next
    case False
    then have "eng_timers (oss_engine s1) = []" using stop by (simp add: idle_def)
    then show ?thesis using os_going_has_timer [OF th(6,3) _ s(1) sub] by (auto simp: timer_for_def)
  qed
  have "s = s1" using c th(5) by (auto simp: s(2) os_finish_terminal_def os_settled_def split: option.splits)
  then show thesis using n c s(1) that by simp
qed

text \<open>
  Property C15. When the \<open>run\<close> of an accepted detection returns success, nothing is queued or in
  flight and there is a result, whose counts account for twelve probes for each host that has an
  address: matched responses, malformed ones, unsupported probes, and the rest among the timeouts. A
  probe counts as malformed if what answered it does not parse, and also if it could not be built; a
  transport error that ends a probe counts as a matched response. The result says complete exactly
  when no attempt timed out, nothing counts as malformed and at least one response was matched;
  otherwise it says partial, because of a timeout if there was one, else for want of support.
\<close>

theorem os_run_reports_outcome:
  assumes "os_transport env" and "os_started env e t db cfg target rs s0" and "os_run env polls s0 = Some (Ok, s)"
  shows "os_complete s \<and> (\<exists>r. oss_result s = Some r \<and>
    odr_responses_received r + odr_probes_malformed r + odr_probes_unsupported r \<le>
      12 * length (filter (\<lambda>h. h_address h \<noteq> []) (resolved_hosts target)) \<and>
    12 * length (filter (\<lambda>h. h_address h \<noteq> []) (resolved_hosts target)) \<le>
      odr_responses_received r + odr_probes_malformed r + odr_probes_unsupported r + odr_probes_timed_out r \<and>
    (odr_state r, odr_error r) =
      (if odr_probes_timed_out r = 0 \<and> odr_probes_malformed r = 0 \<and> 0 < odr_responses_received r then (OsComplete, OseNone)
       else (OsPartial, if 0 < odr_probes_timed_out r then OseTimeout else OseUnsupportedProbe)))"
proof -
  obtain n where n: "os_steps env n s0 s" and c: "os_complete s" and ok: "oss_status s = Ok"
    by (rule os_run_ok [OF assms])
  note th = os_throughout [OF assms(1,2) n]
  obtain r where r: "oss_result s = Some r" and says: "os_result_says r s"
    using th(5) c by (auto simp: os_settled_def split: option.splits)
  have "0 < length (os_work_for cfg target rs)" by (rule os_transport.started_sound(5) [OF assms(1,2)])
  moreover obtain k where "k \<le> oss_timeouts s"
    "oss_responses s + oss_malformed s + oss_unsupported s + k = length (os_work_for cfg target rs)"
    using th(2) c ok by (auto simp: os_books_def os_counts_def os_complete_def)
  ultimately show ?thesis
    using says ok c by (auto simp: r os_result_says_def os_verdict_def length_os_work)
qed

theorem os_run_reports_outcome_witness:
  "\<exists>s r. os_run os_demo_env [Interrupted] os_demo_scan = Some (Ok, s) \<and> oss_result s = Some r \<and>
     odr_responses_received r + odr_probes_malformed r + odr_probes_unsupported r \<le> 12 \<and>
     12 \<le> odr_responses_received r + odr_probes_malformed r + odr_probes_unsupported r + odr_probes_timed_out r"
proof -
  obtain s where s: "os_run os_demo_env [Interrupted] os_demo_scan = Some (Ok, s)" using os_demo_runs by blast
  have "length (filter (\<lambda>h. h_address h \<noteq> []) (resolved_hosts demo_target)) = 1"
    by (simp add: demo_target_def os_demo_address)
  with os_run_reports_outcome [OF os_demo_transport os_demo_started s] s show ?thesis by auto
qed

text \<open>
  Property C16. At every moment of an accepted detection: no more timers have fired than there are
  attempts; as long as no submission has failed, what is queued, in flight, matched, malformed,
  unsupported or given up after a timeout are the probes asked for, and afterwards no more than those
  (a refused submission is in none of these places); without retries every timeout gives one up; no
  identifier is at the same time in flight, answered and expired; the probes in flight are at most
  the configured number, and the live timeout timers are exactly one for each; and there is a result
  exactly when nothing is left.
\<close>

theorem os_detection_accounts:
  assumes "os_transport env" and "os_started env e t db cfg target rs s0" and "os_steps env n s0 s"
  shows "n \<le> length (os_work_for cfg target rs) * Suc (os_max_retries cfg) \<and>
    (\<exists>given_up\<le>oss_timeouts s. (os_max_retries cfg = 0 \<longrightarrow> given_up = oss_timeouts s) \<and>
      (let accounted = length (oss_queue s) + length (oss_pending s) + oss_responses s + oss_malformed s +
           oss_unsupported s + given_up
       in accounted \<le> length (os_work_for cfg target rs) \<and>
          (oss_status s = Ok \<longrightarrow> accounted = length (os_work_for cfg target rs)))) \<and>
    distinct (map fst (oss_pending s)) \<and>
    fst ` set (oss_pending s) \<inter> (oss_completed_ids s \<union> oss_expired_ids s) = {} \<and>
    length (oss_pending s) \<le> osc_max_outstanding cfg \<and>
    ((\<exists>tm. map_of (eng_timers (oss_engine s)) tid = Some tm \<and> tm_callback tm = OnTimeout i) \<longleftrightarrow>
      (\<exists>p. map_of (oss_pending s) i = Some p \<and> ofl_timer p = tid)) \<and>
    (oss_result s \<noteq> None \<longleftrightarrow> os_complete s)"
proof -
  note th = os_throughout [OF assms]
  have "\<exists>k\<le>oss_timeouts s. (os_max_retries cfg = 0 \<longrightarrow> k = oss_timeouts s) \<and>
      (let accounted = length (oss_queue s) + length (oss_pending s) + oss_responses s + oss_malformed s + oss_unsupported s + k
       in accounted \<le> length (os_work_for cfg target rs) \<and>
          (oss_status s = Ok \<longrightarrow> accounted = length (os_work_for cfg target rs)))"
    using th(2) unfolding os_books_def os_counts_def Let_def by blast
  moreover have "os_ids_ok s" "length (oss_pending s) \<le> osc_max_outstanding cfg" using th(2) by (simp_all add: os_books_def)
  moreover have "oss_result s \<noteq> None \<longleftrightarrow> os_complete s" using th(5) by (auto simp: os_settled_def split: option.splits)
  ultimately show ?thesis
    using th(1,3) by (simp add: os_ids_ok_def map_ok_def os_timers_def timers_are_def timer_for_def)
qed

theorem os_detection_accounts_witness:
  "length (oss_pending os_demo_scan) = 1 \<and> oss_result os_demo_scan = None \<and> \<not> os_complete os_demo_scan \<and>
   oss_responses os_demo_scan + oss_malformed os_demo_scan + oss_unsupported os_demo_scan + oss_timeouts os_demo_scan = 11"
proof -
  have "oss_queue os_demo_scan = []" "length (oss_pending os_demo_scan) = 1" "oss_status os_demo_scan = Ok"
    "oss_result os_demo_scan = None"
    using os_demo_submits by auto
  moreover have "os_max_retries os_demo_config = 0" using os_demo_config_fields(1) by (simp add: os_max_retries_def)
  moreover have "length (os_work_for os_demo_config demo_target []) = 12" by (simp add: os_demo_work os_probe_order_def)
  ultimately show ?thesis
    using os_detection_accounts [OF os_demo_transport os_demo_started os_steps.start] by (auto simp: Let_def)
qed

section \<open>A submission refused half way\<close>

text \<open>A submission has failed with probes still queued, and there is no result.\<close>

definition os_stuck :: "status_code \<Rightarrow> os_work list \<Rightarrow> ('x, 't) os_scheduler \<Rightarrow> bool" where
  "os_stuck st q s \<longleftrightarrow> oss_status s = st \<and> oss_result s = None \<and> (\<exists>more. oss_queue s = more @ q)"

lemma os_stuck_outside [simp]:
  "os_stuck st q (s\<lparr>oss_engine := e\<rparr>) = os_stuck st q s" "os_stuck st q (s\<lparr>oss_transport := t\<rparr>) = os_stuck st q s"
  "os_stuck st q (s\<lparr>oss_reads := n\<rparr>) = os_stuck st q s"
  by (simp_all add: os_stuck_def)

lemma os_pump_stuck:
  assumes "os_stuck st q s" and "st \<noteq> Ok" and "q \<noteq> []"
  shows "os_pump env s = s"
proof -
  have "oss_queue s \<noteq> []" using assms by (auto simp: os_stuck_def)
  moreover have "os_pump_loop env limit s = s" for limit
    using assms by (auto simp: os_pump_loop.simps [of env limit s] os_stuck_def split: list.splits)
  ultimately show ?thesis by (simp add: os_pump_def os_finish_terminal_def)
qed

lemma os_expired_stuck: "os_stuck st q s \<Longrightarrow> os_stuck st q (os_expired env i p s)"
  by (rule os_expired_fields [of env i p s]) (auto simp: os_stuck_def)

lemma os_answered_stuck: "oa_disposition a \<noteq> OsUnrelated \<Longrightarrow> os_stuck st q s \<Longrightarrow> os_stuck st q (os_answered env r a p s)"
  by (rule os_answered_fields [OF _ refl, of a env r p s]) (auto simp: os_stuck_def)

lemma os_step_stuck:
  assumes "os_step env fired s s'" and "os_stuck st q s" and "st \<noteq> Ok" and "q \<noteq> []"
  shows "os_stuck st q s'"
  using assms(1)
proof (cases rule: os_step.cases)
  case (response r)
  then show ?thesis
    using assms(2) by (cases rule: os_receive_cases [of env r s])
      (simp_all add: os_answered_stuck os_pump_stuck [OF os_answered_stuck assms(3,4)])
next
  case (timeout now i e)
  then show ?thesis
    using assms(2) os_expired_stuck [of st q "s\<lparr>oss_engine := e\<rparr>" env i]
    by (auto simp: os_on_timeout_def os_pump_stuck [OF _ assms(3,4)] split: option.splits)
qed (use assms in simp_all)

text \<open>
  Property C20. When the transport refuses a probe while others are still queued, the detection
  keeps the status of the refusal and never ends: whatever answers and timeouts follow, the probes
  queued stay queued, there is never a result, and it never counts as complete, so that nobody asks
  the reactor to stop.
\<close>

theorem refused_os_submit_never_ends:
  assumes "os_steps env n s s'" and "oss_status s \<noteq> Ok" and "oss_queue s \<noteq> []" and "oss_result s = None"
  shows "oss_status s' = oss_status s \<and> (\<exists>more. oss_queue s' = more @ oss_queue s) \<and> oss_result s' = None \<and>
    \<not> os_complete s'"
proof -
  have "os_stuck (oss_status s) (oss_queue s) s'"
    using assms
  proof (induction rule: os_steps.induct)
    case start
    then show ?case by (simp add: os_stuck_def)
  next
    case (step n s s' fired s'')
    then show ?case using os_step_stuck [OF step.hyps(2)] by simp
  qed
  then show ?thesis using assms(3) by (auto simp: os_stuck_def os_complete_def)
qed

text \<open>The transport of the example, refusing.\<close>

definition refusing_os_env :: "(unit, recording_os) os_env" where
  "refusing_os_env = os_demo_env\<lparr>oe_submit := \<lambda>sub x. (PermissionDenied, x)\<rparr>"

lemma refused_turn:
  assumes "oss_status s = Ok" and "oss_pending s = []" and "oss_config s = os_demo_config" and "oss_timing s = None"
    and "oss_engine s = new_engine True" and "oss_next_id s = 1"
  shows "\<exists>s'. os_start refusing_os_env os_demo_probe s = s' \<and> oss_queue s' = oss_queue s \<and> oss_status s' = PermissionDenied \<and>
     oss_result s' = oss_result s"
  using assms by (simp add: os_demo_eval os_demo_probe_def refusing_os_env_def os_erase_pending_def os_cancel_timer_def)

lemma refused_submit:
  "\<exists>s. os_submit refusing_os_env demo_target [] (os_demo_start (new_engine True)) = (PermissionDenied, s) \<and>
     oss_status s = PermissionDenied \<and> oss_queue s \<noteq> [] \<and> oss_result s = None"
proof -
  let ?s = "os_demo_ready (new_engine True)"
  obtain ws rest where q: "oss_queue ?s = ws @ os_demo_probe # rest" "length ws = 10" "length rest = 1"
    "\<forall>w\<in>set (ws @ rest). ow_type w \<noteq> IcmpEcho"
    by (rule os_demo_queue)
  have un: "\<forall>w\<in>set ws. \<not> oe_supports refusing_os_env t (ow_type w)" for t
    using q(4) by (auto simp: refusing_os_env_def os_demo_env_def recording_os_env_def)
  have limit: "os_pump_limit ?s = 8" using os_demo_config_fields by (simp add: os_pump_limit_def os_demo_ready_fields)
  obtain s1 where s1: "os_pump_loop refusing_os_env 8 ?s = os_pump_loop refusing_os_env 8 s1" "oss_queue s1 = os_demo_probe # rest"
    "oss_status s1 = Ok" "oss_pending s1 = []" "oss_config s1 = os_demo_config" "oss_timing s1 = None"
    "oss_engine s1 = new_engine True" "oss_next_id s1 = 1" "oss_result s1 = None"
    using skip_unsupported [OF q(1), of refusing_os_env 8] un by (fastforce simp: os_demo_ready_fields)
  then obtain s2 where s2: "os_start refusing_os_env os_demo_probe (s1\<lparr>oss_queue := rest\<rparr>) = s2" "oss_queue s2 = rest"
    "oss_status s2 = PermissionDenied" "oss_result s2 = None"
    using refused_turn [of "s1\<lparr>oss_queue := rest\<rparr>"] by auto
  have "os_pump_loop refusing_os_env 8 s1 = s2"
    using s1 s2 q(3) by (simp add: os_pump_loop.simps [of _ _ s1] os_pump_loop.simps [of _ _ s2] split: list.splits)
  then have "os_finish_terminal refusing_os_env (os_pump refusing_os_env ?s) = s2"
    using s1(1) s2 q(3) limit by (auto simp: os_pump_def os_finish_terminal_def)
  then show ?thesis
    using os_demo_submit [of "new_engine True" refusing_os_env] s2 q(3) by (auto simp: new_engine_def)
qed

theorem refused_os_submit_never_ends_witness:
  "\<exists>s. os_submit refusing_os_env demo_target [] (os_demo_start (new_engine True)) = (PermissionDenied, s) \<and>
     os_steps refusing_os_env 0 s (s\<lparr>oss_reads := 99\<rparr>) \<and> oss_result (s\<lparr>oss_reads := 99\<rparr>) = None \<and>
     \<not> os_complete (s\<lparr>oss_reads := 99\<rparr>)"
proof -
  obtain s where s: "os_submit refusing_os_env demo_target [] (os_demo_start (new_engine True)) = (PermissionDenied, s)"
    "oss_status s = PermissionDenied" "oss_queue s \<noteq> []" "oss_result s = None"
    using refused_submit by blast
  have step: "os_steps refusing_os_env 0 s (s\<lparr>oss_reads := 99\<rparr>)"
    using os_steps.step [OF os_steps.start os_step.clock] by fastforce
  from refused_os_submit_never_ends [OF step] s step show ?thesis by auto
qed

section \<open>Nothing to wait for\<close>

text \<open>
  Property C21. A detection of which no probe could be sent (every one unsupported, or not to be
  built, as for an IPv4 target behind an interface that has IPv6 addresses only) is complete, with
  its result, when \<open>submit\<close> returns success; but the request to stop it has made of the reactor is
  taken back by \<open>run\<close>, which on a reactor that waits on a descriptor of its own never returns, however
  often the wait wakes up without an event.
\<close>

theorem unsent_os_never_ends:
  assumes "os_transport env" and "os_started env e t db cfg target rs s" and "oss_pending s = []"
    and "eng_timers (oss_engine s) = []" and "eng_registered (oss_engine s) \<noteq> []" and "eng_open (oss_engine s)"
    and "eng_init_status (oss_engine s) = Ok" and "\<not> eng_running (oss_engine s)"
    and "set polls \<subseteq> {Interrupted, Ready []}"
  shows "os_complete s \<and> (\<exists>r. oss_result s = Some r) \<and> os_run env polls s = None"
proof -
  note start = os_transport.started_sound [OF assms(1,2)]
  have "oss_submitted s" using start(1) by (simp add: os_sound_def os_books_def)
  then have "os_complete s" using start(3,4) assms(3) by (auto simp: os_going_def os_complete_def)
  moreover have "\<exists>r. oss_result s = Some r" using start(2) calculation by (auto simp: os_settled_def split: option.splits)
  moreover have "engine_run (os_embedding env) polls s = None"
    by (rule os_host.silent_run) (use assms in simp_all)
  ultimately show ?thesis by (simp add: os_run_def os_complete_def)
qed

text \<open>The example on a transport that supports nothing, and a reactor that waits on a descriptor.\<close>

definition idle_os_env :: "(unit, recording_os) os_env" where
  "idle_os_env = os_demo_env\<lparr>oe_supports := \<lambda>_ _. False\<rparr>"

lemma idle_os_transport: "os_transport idle_os_env"
  by unfold_locales (auto simp: idle_os_env_def os_demo_env_def recording_os_env_def timers_kept_refl split: prod.splits)

lemma idle_os_submits:
  "\<exists>s. os_submit idle_os_env demo_target [] (os_demo_start listening_engine) = (Ok, s) \<and> oss_pending s = [] \<and>
     oss_engine s = engine_stop listening_engine"
proof -
  let ?s = "os_demo_ready listening_engine" and ?p = "os_pump idle_os_env (os_demo_ready listening_engine)"
  have limit: "os_pump_limit ?s = 8" using os_demo_config_fields by (simp add: os_pump_limit_def os_demo_ready_fields)
  obtain s1 where s1: "os_pump_loop idle_os_env 8 ?s = s1" "oss_queue s1 = []" "oss_status s1 = Ok" "oss_pending s1 = []"
    "oss_engine s1 = listening_engine" "oss_submitted s1" "oss_result s1 = None"
  proof -
    have "\<not> oe_supports idle_os_env t x" for t x by (simp add: idle_os_env_def)
    then obtain seen where "os_pump_loop idle_os_env 8 ?s = os_pump_loop idle_os_env 8 (?s\<lparr>oss_queue := [],
        oss_reads := oss_reads ?s + length (oss_queue ?s),
        oss_unsupported := oss_unsupported ?s + length (oss_queue ?s), oss_observed := seen\<rparr>)"
      using skip_unsupported [of ?s "oss_queue ?s" "[]" idle_os_env 8] by (auto simp: os_demo_ready_fields)
    then have "os_pump_loop idle_os_env 8 ?s = ?s\<lparr>oss_queue := [], oss_reads := oss_reads ?s + length (oss_queue ?s),
        oss_unsupported := oss_unsupported ?s + length (oss_queue ?s), oss_observed := seen\<rparr>"
      by (simp add: os_pump_loop_empty)
    from that [OF this] show thesis by (simp add: os_demo_ready_fields)
  qed
  obtain st err where v: "os_verdict s1 = (st, err)" by fastforce
  have "oss_result (os_emit idle_os_env st err s1) \<noteq> None" using os_emit_result [OF s1(7)] by fastforce
  then have p: "?p = (os_emit idle_os_env st err s1)\<lparr>oss_engine := engine_stop listening_engine\<rparr>" "oss_result ?p \<noteq> None"
    using s1 v limit by (simp_all add: os_pump_def os_finish_terminal_def Let_def)
  then have "os_finish_terminal idle_os_env ?p = ?p"
    by (simp only: os_finish_terminal_def p(2) not_True_eq_False conj_ac simp_thms if_False)
  then show ?thesis
    using os_demo_submit [of listening_engine idle_os_env] p(1) s1 by (simp add: listening_engine_def new_engine_def)
qed

theorem unsent_os_never_ends_witness:
  "\<exists>s. os_submit idle_os_env demo_target [] (os_demo_start listening_engine) = (Ok, s) \<and> os_complete s \<and>
     os_run idle_os_env [Ready [], Interrupted] s = None"
proof -
  obtain s where s: "os_submit idle_os_env demo_target [] (os_demo_start listening_engine) = (Ok, s)" "oss_pending s = []"
    "oss_engine s = engine_stop listening_engine"
    using idle_os_submits by blast
  have "timers_inv listening_engine" using timers_inv_new [of True] by (simp add: listening_engine_def timers_inv_def)
  then have "timers_are listening_engine (\<lambda>_. None)"
    by (simp add: timers_are_def wired_def timer_for_def) (simp add: listening_engine_def new_engine_def)
  then have start: "os_started idle_os_env listening_engine \<lparr>rec_os_submissions = [], rec_os_callbacks = []\<rparr>
      \<lparr>od_status = Ok, od_fingerprints = []\<rparr> os_demo_config demo_target [] s"
    using s(1) os_demo_config_fields(1)
    by (simp add: os_started_def os_demo_start_def os_demo_work os_probe_order_def os_max_retries_def listening_engine_def new_engine_def)
  from unsent_os_never_ends [OF idle_os_transport start s(2), of "[Ready [], Interrupted]"] s show ?thesis
    by (simp add: listening_engine_def new_engine_def engine_stop_def)
qed

end
