(* ===== verification/Spec2Isabelle.thy ===== *)
theory Spec2Isabelle
  imports Packet_Composer Checksum_Spec Icmp_Packets Ieee_Float Ip_Packets Ipv6_Extensions Io_Engine Port_Probes Port_Verdicts Target_Sets Udp_Verdicts Discovery_Limits
    Terminal_Text Identity_Parsers Tls_Safety Service_Db_Facts Service_Match_Facts Os_Probe_Facts
    Os_Detection
begin

text \<open>
  Skan, a network reconnaissance engine in C++20: a verification library.

  \<^bold>\<open>The program.\<close> A scan starts from a target expression, which the target engine parses and
  expands to addresses. A scheduler turns hosts and ports into probes: it composes packets or
  opens sockets through a transport, keeps the probes in flight with one timer each on the
  reactor, classifies what comes back, retries, and reports one result per host and port. A
  timing controller limits parallelism and adapts the timeout.

  \<^bold>\<open>Theories and the code they model\<close>, in the order they import each other:

  \<^item> \<open>Prelude\<close>, \<open>Ordering\<close>: machine integers and byte strings, spans, \<open>std::from_chars\<close>,
    \<open>std::unordered_map\<close> as an association list, \<open>std::sort\<close> and what it asks of a comparison.
  \<^item> \<open>Status\<close>, \<open>Core_Types\<close> (\<open>src/core/status.cpp\<close>, \<open>types.cpp\<close>): status and exit codes,
    typed addresses, hosts and targets.
  \<^item> \<open>Wire\<close>, \<open>Checksum_Spec\<close>, \<open>Tcp_Packet\<close>, \<open>Udp_Packet\<close>, \<open>Ip_Packets\<close>, \<open>Icmp_Packets\<close>,
    \<open>Ipv6_Extensions\<close>, \<open>Packet_Composer\<close> (\<open>src/packet/\<close>): big-endian access, the Internet
    checksum, every header with its validation, serialization and parser, the bounded walk of
    extension headers, quoted probes, and the composer of whole packets.
  \<^item> \<open>Ieee_Float\<close>, \<open>Timing\<close> (\<open>src/scanengine/\<close>): floating point as rounding of rationals, the
    profiles, the round-trip estimator, congestion control, metrics, the timing controller.
  \<^item> \<open>Io_Engine\<close> (\<open>src/io/\<close>): the reactor, its registrations, timers, dispatch and loop;
    \<open>Engine_Runs\<close>: a run of the loop as a sequence of steps of the program around it.
  \<^item> \<open>Port_Types\<close>, \<open>Port_Probes\<close> (\<open>src/portscan/port_types.cpp\<close>, \<open>port_probe.cpp\<close>,
    \<open>tcp_syn.cpp\<close>, \<open>tcp_ack.cpp\<close>): ports, reasons, specifications, and the three TCP probes.
  \<^item> \<open>Port_Scheduler\<close> (\<open>src/portscan/port_scheduler.cpp\<close>), with its invariants in
    \<open>Port_Scheduler_Inv\<close>, its timers in \<open>Port_Scheduler_Timers\<close>, its runs in
    \<open>Port_Scheduler_Runs\<close> and \<open>Port_Scan\<close>, the two attempts of a connect scan in
    \<open>Port_Confirmation\<close>; \<open>Connect_Transport\<close> (\<open>tcp_connect.cpp\<close>), the socket transport;
    \<open>Port_Verdicts\<close>, what a scan concludes.
  \<^item> \<open>Udp_Database\<close>, \<open>Udp_Scheduler\<close> (\<open>src/portscan/udp_scan.cpp\<close>): the probe definitions and
    the scheduler of UDP scans; invariants in \<open>Udp_Scheduler_Inv\<close>, steps in \<open>Udp_Runs\<close>, timers
    and bounds in \<open>Udp_Scan\<close>, conclusions in \<open>Udp_Verdicts\<close>.
  \<^item> \<open>Discovery_Probes\<close>, \<open>Discovery_Scheduler\<close> (\<open>src/discovery/\<close>): ARP messages, the probes and
    the scheduler of host discovery; steps and ledger in \<open>Discovery_Runs\<close>, timers and bounds in
    \<open>Discovery_Scan\<close>, conclusions in \<open>Discovery_Verdicts\<close> and \<open>Discovery_Limits\<close>.
  \<^item> \<open>Target_Engine\<close>, \<open>Target_Expansion\<close>, \<open>Target_Sets\<close> (\<open>src/target/target_engine.cpp\<close>): the
    parser of target expressions, what they denote, and the expansion.
  \<^item> \<open>Text_Safety\<close> (\<open>src/core/text_safety.cpp\<close>), \<open>Terminal_Text\<close>, \<open>Output_Escapes\<close>
    (\<open>src/output/terminal_text.cpp\<close>, \<open>output_writer.cpp\<close>): what becomes of text from the network
    on its way to a terminal or into a file.
  \<^item> \<open>Json_Reader\<close>, \<open>Http_Parser\<close>, \<open>Http_Stability\<close>, \<open>Identity_Parsers\<close>
    (\<open>src/detect/protocol_parsers.cpp\<close>): the strict JSON reader, HTTP responses with their chunked
    bodies, and what identifies a search engine or ZooKeeper; \<open>Tls_Metadata\<close>, \<open>Tls_Safety\<close>
    (\<open>tls_metadata.cpp\<close>): TLS records, handshakes and certificates.
  \<^item> \<open>Service_Db\<close>, \<open>Service_Db_Facts\<close> (\<open>src/detect/service_types.cpp\<close>, \<open>service_db.cpp\<close>): the
    database of service probes, its text format and the order of the probes of a port;
    \<open>Service_Matcher\<close>, \<open>Service_Match_Facts\<close> (\<open>service_matcher.cpp\<close>): the rules, and the choice of
    the best match.
  \<^item> \<open>Os_Types\<close>, \<open>Os_Database\<close>, \<open>Os_Matcher\<close>, \<open>Os_Probes\<close>, \<open>Os_Probe_Facts\<close> (\<open>src/osdetect/\<close>,
    \<open>src/db/\<close>): observations of a host's stack, the database of fingerprints, its matcher with its
    floating point, what the probes send and how their responses are assessed; \<open>Os_Scheduler\<close>
    (\<open>os_scheduler.cpp\<close>): the scheduler of a detection, its steps and ledger in \<open>Os_Runs\<close>, its
    timers, its result and the ways it does not end in \<open>Os_Detection\<close>.

  \<^bold>\<open>How state and operations correspond.\<close> A class is a record whose fields are its members, an
  operation is a definition with the operation's name (prefixed where two classes share one)
  that returns the new record; a status code returned beside a value is a pair, an exception
  or an early return is a branch. Calls out of the program are parameters: the C library is
  the record \<open>libc\<close>, the clock a sequence of readings, the kernel's answer to each \<open>epoll\<close> or
  socket call an argument, the resolver a function. A transport is the \<open>env_submit\<close>,
  \<open>env_cancel\<close> and \<open>env_event\<close> fields of the scheduler's environment; a transport may answer a
  submission before \<open>submit\<close> returns, and the scheduler then pumps again inside its pump.

  \<^bold>\<open>Interfaces.\<close> \<open>wire_codec\<close>: what a header's serializer and parser promise the composer,
  interpreted on TCP, UDP, IPv4, IPv6, Ethernet, ICMP and ICMPv6. \<open>pseudo_header\<close>: what a
  checksummed segment needs, interpreted on both pseudo headers. \<open>float_format\<close>: rounding,
  interpreted on the two floating-point types. \<open>strict_weak_order\<close> and \<open>strict_total_order\<close>:
  what \<open>std::sort\<close> asks, interpreted on every comparison. \<open>engine_host\<close>: what the reactor's
  loop asks of the program around it, interpreted on the port scan, the UDP scan, discovery and
  detection; \<open>engine_steps\<close> extends it by what makes a run a sequence of steps, and each of the
  four transports is a sublocale of it. \<open>probe_contract\<close>: what the
  scheduler asks of a probe, interpreted on connect, SYN and ACK. \<open>scan_invariant\<close>: what a
  property must survive for every handler, with nested pumps, to keep it, interpreted on the
  ledger, the shape of results, the attempts of a connect scan, the timers and the potential. \<open>scan_transport\<close>: what a
  transport may do to the engine, interpreted on the recording and the connect transport.
  \<open>udp_invariant\<close>, \<open>udp_transport\<close>, \<open>discovery_invariant\<close>, \<open>discovery_transport\<close>,
  \<open>os_invariant\<close> and \<open>os_transport\<close> are the same for the UDP scan, discovery and operating
  system detection, \<open>discovery_contract\<close> what discovery asks of a probe, interpreted on the echo,
  TCP and ARP probes.

  \<^bold>\<open>What is shown.\<close> Packets: round trips, no read out of bounds, the checksum against RFC 1071,
  the composer as concatenation of layers. Timing: parallelism and timeout stay within the
  profile. Port scan: when \<open>run\<close> returns success every requested port has one result; no
  port is lost or reported twice at any moment; the engine's timers are exactly those of the
  probes in flight and the deferred retries; the number of timers that fire is bounded, so a
  scan ends; results carry an admissible state and reason; a connect scan that may retry reports
  a port closed or filtered only after two attempts that agree; a SYN or ACK scan holds evidence
  back until the deadline and errors not at all; what a TCP probe concludes is justified by the
  response (its addresses, ports and numbers); the handlers return; the destructor
  leaves no timer; and the behaviour after a failure. Connect transport: the descriptors it
  holds are those of the connections being made. UDP scan and discovery: every requested probe
  has one result when \<open>run\<close> returns, is accounted for at every moment, the number of timers that
  fire is bounded, and the state of a host or port follows from the responses; and where
  discovery falls short of its purpose. Targets: an expression resolves to the
  addresses it denotes, each once, in order, within the limit. Text: what reaches a terminal is
  sanitized, escaped XML text has no markup and one source, a grepable value stays on its line, and
  a JSON string is read back by the program's own reader. Service detection: the parsers accept only well formed
  documents and do not change their verdict when more bytes arrive, the order of the probes is
  exactly the order the comparison asks for, a service is named only by a rule that matches, never
  from HTTP that is malformed or incomplete, and the match kept is the best. Operating systems: a database that loads is consistent, the matches
  are ranked with a confidence between 0 and 1, a response is attributed only to the probe its
  bytes answer (or is a transport error), and an IPv6 host is never matched strongly by the Linux entry installed; when a
  detection's \<open>run\<close> returns success there is a result that accounts for every probe, every probe
  is accounted for as long as no submission has failed, and a refused submission, or having nothing to send, are the
  ways in which a detection never ends.

  \<^bold>\<open>Bounds and fuel.\<close> The loop of \<open>pump\<close> takes a bound on its turns and on the nesting of pumps;
  both are the length of the queue, which is enough because every turn and every nested pump
  has taken an element off the queue (\<open>handlers_return\<close>). \<open>engine_run\<close> takes the list of the
  answers of \<open>epoll_wait\<close>: a run is as long as the kernel keeps answering. Every other loop is a
  structural recursion or has a measure.

  \<^bold>\<open>Not modelled.\<close> A failed allocation; the overflow of clock readings and deadlines, which are
  integers here; the raw-socket transports and the capture of
  \<open>src/net/\<close>, whose behaviour is the kernel's; the scheduler of service probes with its sockets and TLS
  sessions, of which the database, the matcher and the parsers are modelled; the orchestrator,
  which builds the schedulers one after the other and maps their statuses; the adaptive
  scheduler, which only its tests use; logging, the writers of reports, and the command line.
  A transport of operating system detection is assumed not to answer from inside \<open>submit\<close>.
\<close>

end
